(* ===== verification/Prelude.thy ===== *)
theory Prelude
  imports Main "HOL-Library.Word"
begin

text \<open>Shared vocabulary of the development: machine types of the working platform, faults
  and the result type, the return codes of the OS, handle, lock, message and timer layers, flag
  arithmetic on words, and two generic facts about lists and counters.  Every other theory
  imports this one.

  The program stores addresses in \<open>UINT32\<close> variables and \<open>UINT32\<close> values in \<open>void *\<close> variables,
  so the platform it can work on has 32-bit pointers: \<open>UINT32\<close> is \<open>unsigned int\<close> (inc/u_common.h)
  and \<open>HANDLE_T\<close> (\<open>void *\<close>, inc/u_handle.h) is a 32-bit value as well.\<close>

unbundle bit_operations_syntax

named_theorems flag_simps \<open>setting, clearing and testing status bits\<close>
named_theorems frame_simps \<open>what an update of one cell leaves alone\<close>

section \<open>Machine types, addresses\<close>

type_synonym u8 = "8 word"
type_synonym u16 = "16 word"
type_synonym u32 = "32 word"

text \<open>Addresses of objects and of functions; \<open>0\<close> is \<open>NULL\<close>.  \<open>tid\<close> is a \<open>pthread_t\<close>; the program
  clears such a field with \<open>0\<close>.\<close>

type_synonym ptr = nat
type_synonym fptr = nat
type_synonym tid = nat
type_synonym handle = u32

abbreviation (input) NULL :: nat where "NULL \<equiv> 0"

section \<open>Faults and results\<close>

text \<open>\<open>ABORT (cat, code)\<close> is a macro for \<open>pthread_exit\<close>: the thread ends there.  \<open>VERIFY\<close> and
  \<open>ASSERT\<close> are \<open>assert\<close>.  The other faults are what C leaves undefined (a dereferenced \<open>NULL\<close>
  or wild pointer, a division by zero) and a loop that never ends.  An operation that may fail
  this way returns \<open>Inl\<close> the fault or \<open>Inr\<close> its values; error codes are ordinary values.\<close>

datatype fault = Aborted nat | AssertFailed | BadAccess | DivZero | Hang

type_synonym 'a result = "fault + 'a"

definition then_do :: "'a result \<Rightarrow> ('a \<Rightarrow> 'b result) \<Rightarrow> 'b result" where
  "then_do r k = (case r of Inl e \<Rightarrow> Inl e | Inr a \<Rightarrow> k a)"

lemma then_do_simps [simp]:
  "then_do (Inl e) k = Inl e"
  "then_do (Inr a) k = k a"
  by (simp_all add: then_do_def)

lemma then_do_Inr:
  "then_do r k = Inr b \<longleftrightarrow> (\<exists>a. r = Inr a \<and> k a = Inr b)"
  by (cases r) simp_all

text \<open>A loop is a partial function whose \<open>None\<close> is non-termination.\<close>

definition run_loop :: "'a result option \<Rightarrow> 'a result" where
  "run_loop r = (case r of None \<Rightarrow> Inl Hang | Some a \<Rightarrow> a)"

lemma run_loop_simps [simp]: "run_loop None = Inl Hang" "run_loop (Some r) = r"
  by (simp_all add: run_loop_def)

section \<open>Return codes\<close>

text \<open>Handle library (inc/u_handle.h, lines 68-82).\<close>

abbreviation (input) HR_OK :: int where "HR_OK \<equiv> 0"
abbreviation (input) HR_INV_ARG :: int where "HR_INV_ARG \<equiv> -1"
abbreviation (input) HR_INV_HANDLE :: int where "HR_INV_HANDLE \<equiv> -2"
abbreviation (input) HR_OUT_OF_HANDLES :: int where "HR_OUT_OF_HANDLES \<equiv> -3"
abbreviation (input) HR_NOT_ENOUGH_MEM :: int where "HR_NOT_ENOUGH_MEM \<equiv> -4"
abbreviation (input) HR_ALREADY_INIT :: int where "HR_ALREADY_INIT \<equiv> -5"
abbreviation (input) HR_NOT_INIT :: int where "HR_NOT_INIT \<equiv> -6"
abbreviation (input) HR_RECURSION_ERROR :: int where "HR_RECURSION_ERROR \<equiv> -7"
abbreviation (input) HR_NOT_ALLOWED :: int where "HR_NOT_ALLOWED \<equiv> -8"
abbreviation (input) HR_ALREADY_LINKED :: int where "HR_ALREADY_LINKED \<equiv> -9"
abbreviation (input) HR_NOT_LINKED :: int where "HR_NOT_LINKED \<equiv> -10"
abbreviation (input) HR_FREE_NOT_ALLOWED :: int where "HR_FREE_NOT_ALLOWED \<equiv> -11"
abbreviation (input) HR_INV_AUX_HEAD :: int where "HR_INV_AUX_HEAD \<equiv> -12"
abbreviation (input) HR_INV_HANDLE_TYPE :: int where "HR_INV_HANDLE_TYPE \<equiv> -13"
abbreviation (input) HR_CANNOT_REG_WITH_CLI :: int where "HR_CANNOT_REG_WITH_CLI \<equiv> -14"

text \<open>OS layer (inc/u_os.h, lines 14-43).\<close>

abbreviation (input) OSR_THREAD_ACTIVE :: int where "OSR_THREAD_ACTIVE \<equiv> 3"
abbreviation (input) OSR_WOULD_BLOCK :: int where "OSR_WOULD_BLOCK \<equiv> 1"
abbreviation (input) OSR_OK :: int where "OSR_OK \<equiv> 0"
abbreviation (input) OSR_EXIST :: int where "OSR_EXIST \<equiv> -1"
abbreviation (input) OSR_INV_ARG :: int where "OSR_INV_ARG \<equiv> -2"
abbreviation (input) OSR_TIMEOUT :: int where "OSR_TIMEOUT \<equiv> -3"
abbreviation (input) OSR_NO_RESOURCE :: int where "OSR_NO_RESOURCE \<equiv> -4"
abbreviation (input) OSR_NOT_EXIST :: int where "OSR_NOT_EXIST \<equiv> -5"
abbreviation (input) OSR_TOO_MANY :: int where "OSR_TOO_MANY \<equiv> -10"
abbreviation (input) OSR_TOO_BIG :: int where "OSR_TOO_BIG \<equiv> -11"
abbreviation (input) OSR_NO_MSG :: int where "OSR_NO_MSG \<equiv> -13"
abbreviation (input) OSR_INV_HANDLE :: int where "OSR_INV_HANDLE \<equiv> -14"
abbreviation (input) OSR_FAIL :: int where "OSR_FAIL \<equiv> -15"
abbreviation (input) OSR_NOT_SUPPORT :: int where "OSR_NOT_SUPPORT \<equiv> -17"
abbreviation (input) OSR_DUP_KEY :: int where "OSR_DUP_KEY \<equiv> -23"
abbreviation (input) OSR_KEY_NOT_FOUND :: int where "OSR_KEY_NOT_FOUND \<equiv> -24"

section \<open>Flags\<close>

text \<open>The flag idioms of the C code on a byte: \<open>f |= m\<close>, \<open>f &= ~m\<close>, \<open>(f & m) != 0\<close>.\<close>

definition fset :: "'a::len word \<Rightarrow> 'a word \<Rightarrow> 'a word" where
  "fset m f = f OR m"

definition fclr :: "'a::len word \<Rightarrow> 'a word \<Rightarrow> 'a word" where
  "fclr m f = f AND NOT m"

definition ftst :: "'a::len word \<Rightarrow> 'a word \<Rightarrow> bool" where
  "ftst m f = (f AND m \<noteq> 0)"

lemma ftst_fset_same [flag_simps]: "m \<noteq> 0 \<Longrightarrow> ftst m (fset m f)"
  unfolding ftst_def fset_def
  by (metis and.commute bit.conj_disj_distrib and.idem or.commute word_bw_same(1) word_ao_absorbs(1) word_ao_absorbs(2) word_ao_absorbs(5))

lemma ftst_fclr_same [flag_simps]: "\<not> ftst m (fclr m f)"
  by (simp add: ftst_def fclr_def and.assoc)

lemma ftst_fset_other [flag_simps]:
  assumes "m AND m' = 0"
  shows "ftst m (fset m' f) = ftst m f"
proof -
  have "(f OR m') AND m = (f AND m) OR (m' AND m)"
    by (rule bit.conj_disj_distrib2)
  then show ?thesis
    using assms by (simp add: ftst_def fset_def and.commute)
qed

lemma ftst_fclr_other [flag_simps]:
  assumes "m AND m' = 0"
  shows "ftst m (fclr m' f) = ftst m f"
proof -
  have "NOT m' AND m = m"
    using assms by (metis and.commute bit.conj_cancel_left
      bit.conj_disj_distrib2 bit.disj_cancel_left bit.conj_one_right or.commute or.left_neutral)
  then show ?thesis
    by (simp add: ftst_def fclr_def and.assoc)
qed

lemma ftst_0 [flag_simps]: "\<not> ftst m 0"
  by (simp add: ftst_def)

section \<open>Bounds of machine integers\<close>

lemma unat_bounds:
  "unat (c :: u8) < 256" "unat (i :: u16) < 65536" "unat (w :: u32) < 4294967296"
proof -
  have "unat (c :: u8) < 2 ^ LENGTH(8)" "unat (i :: u16) < 2 ^ LENGTH(16)" "unat (w :: u32) < 2 ^ LENGTH(32)"
    by (rule unsigned_less)+
  then show "unat c < 256" "unat i < 65536" "unat w < 4294967296" by simp_all
qed

lemma unat_u16_of_nat: "n < 65536 \<Longrightarrow> unat (of_nat n :: u16) = n"
  by (simp add: unat_of_nat take_bit_nat_eq_self)

lemma unat_ucast_up:
  "unat (ucast (i :: u16) :: u32) = unat i" "unat (ucast (c :: u8) :: u32) = unat c"
  "unat (ucast (c :: u8) :: u16) = unat c"
  using unat_bounds(1) [of c] unat_bounds(2) [of i]
  by (simp_all add: unsigned_ucast_eq take_bit_eq_mod)

lemma sint_neg_u32: "sint (v :: u32) < 0 \<longleftrightarrow> \<not> unat v < 2147483648"
proof -
  have "sint v < 0 \<longleftrightarrow> bit v (LENGTH(32) - Suc 0)" by (simp only: bit_last_iff)
  also have "\<dots> \<longleftrightarrow> bit (unat v) 31" by (simp add: bit_unsigned_iff)
  also have "\<dots> \<longleftrightarrow> odd (unat v div 2147483648)" by (simp add: bit_iff_odd)
  also have "\<dots> \<longleftrightarrow> \<not> unat v < 2147483648"
  proof -
    have "unat v div 2147483648 < 2" using unat_bounds(3) [of v] by (simp add: less_mult_imp_div_less)
    then show ?thesis by (auto simp: less_2_cases_iff div_eq_0_iff)
  qed
  finally show ?thesis .
qed

section \<open>C strings\<close>

text \<open>A C string is the list of its characters before the terminating zero.  \<open>strncmp (a, b, n) == 0\<close>
  compares the first \<open>n\<close> characters; \<open>strncpy (d, a, n)\<close> into a zeroed buffer of \<open>n + 1\<close> bytes
  leaves the first \<open>n\<close> of them.\<close>

definition strneq :: "nat \<Rightarrow> string \<Rightarrow> string \<Rightarrow> bool" where
  "strneq n a b = (take n a = take n b)"

lemma strneq_take [simp]: "strneq n (take n a) b = strneq n a b"
  by (simp add: strneq_def)

text \<open>Bytes in memory, least significant first, as the platform stores a \<open>SIZE_T\<close> of \<open>k\<close> bytes.\<close>

type_synonym mem = "nat \<Rightarrow> u8"

definition put_le :: "nat \<Rightarrow> nat \<Rightarrow> nat \<Rightarrow> mem \<Rightarrow> mem" where
  "put_le k off v m = (\<lambda>a. if off \<le> a \<and> a < off + k then of_nat (v div 256 ^ (a - off)) else m a)"

definition get_le :: "nat \<Rightarrow> nat \<Rightarrow> mem \<Rightarrow> nat" where
  "get_le k off m = (\<Sum>i<k. unat (m (off + i)) * 256 ^ i)"

definition blit :: "nat \<Rightarrow> (nat \<Rightarrow> u8) \<Rightarrow> nat \<Rightarrow> mem \<Rightarrow> mem" where
  "blit off src n m = (\<lambda>a. if off \<le> a \<and> a < off + n then src (a - off) else m a)"

lemma unat_u8_of_nat: "unat (of_nat n :: u8) = n mod 256"
  by (simp add: unat_of_nat take_bit_eq_mod)

lemma digits_sum: "(\<Sum>i<k. (v div 256 ^ i mod 256) * 256 ^ i) = v mod (256 ^ k :: nat)"
proof (induction k)
  case (Suc k)
  have "v mod (256 ^ k * 256) = 256 ^ k * (v div 256 ^ k mod 256) + v mod 256 ^ k"
    by (rule mod_mult2_eq)
  then show ?case using Suc by (simp add: mult.commute)
qed simp

lemma get_put_le: "v < 256 ^ k \<Longrightarrow> get_le k off (put_le k off v m) = v"
  by (simp add: get_le_def put_le_def unat_u8_of_nat digits_sum)

lemma get_le_cong: "(\<And>i. i < k \<Longrightarrow> m (off + i) = m' (off + i)) \<Longrightarrow> get_le k off m = get_le k off m'"
  by (simp add: get_le_def)

section \<open>Waiting with a time limit\<close>

text \<open>A call that waits on a condition variable either returns or is (still) waiting.\<close>

datatype 'a waits = Returned 'a | Waiting

text \<open>The end of the waiting time, \<open>struct timespec\<close> in seconds and nanoseconds, of a wait of \<open>ms\<close>
  milliseconds that starts at \<open>now\<close>: the same code in os_pthread_sema.c and os_pthread_msg_q.c.\<close>

definition timeout_at :: "nat \<times> nat \<Rightarrow> u32 \<Rightarrow> nat \<times> nat" where
  "timeout_at now ms =
    (let sec = fst now + unat (ms div 1000);
         nsec = snd now + unat (ms mod 1000 * 1000000)
     in if nsec \<ge> 1000000000 then (sec + 1, nsec - 1000000000) else (sec, nsec))"

definition nsecs :: "nat \<times> nat \<Rightarrow> nat" where
  "nsecs t = fst t * 1000000000 + snd t"

lemma timeout_at_nsecs:
  assumes "snd now < 1000000000"
  shows "nsecs (timeout_at now ms) = nsecs now + unat ms * 1000000 \<and> snd (timeout_at now ms) < 1000000000"
proof -
  have d: "unat (ms div 1000) = unat ms div 1000" by (simp add: unat_div)
  have m: "unat (ms mod 1000) = unat ms mod 1000" by (simp add: unat_mod)
  have "unat (ms mod 1000 * 1000000) = unat ms mod 1000 * 1000000"
    by (simp add: unat_word_ariths m)
  moreover have "unat ms * 1000000 = (unat ms div 1000 * 1000 + unat ms mod 1000) * 1000000" by simp
  then have "unat ms mod 1000 * 1000000 + unat ms div 1000 * 1000000000 = unat ms * 1000000"
    by (simp only: add_mult_distrib)
  ultimately show ?thesis using assms unfolding timeout_at_def nsecs_def d Let_def by (auto simp: algebra_simps)
qed

text \<open>\<open>pthread_mutex_lock\<close> and the waits on conditions return 0 or an error number.\<close>

abbreviation (input) EINVAL :: int where "EINVAL \<equiv> 22"
abbreviation (input) ETIMEDOUT :: int where "ETIMEDOUT \<equiv> 110"

definition lock_err :: "int \<Rightarrow> int" where
  "lock_err ret = (if ret = EINVAL then OSR_INV_HANDLE else OSR_FAIL)"

definition timed_err :: "int \<Rightarrow> int" where
  "timed_err ret = (if ret = ETIMEDOUT then OSR_TIMEOUT else if ret = EINVAL then OSR_INV_HANDLE else OSR_FAIL)"

text \<open>Searching a range of indices.\<close>

lemma find_upt_Suc: "find P [Suc n..<Suc m] = map_option Suc (find (P \<circ> Suc) [n..<m])"
proof -
  have "find P (map Suc xs) = map_option Suc (find (P \<circ> Suc) xs)" for xs by (induction xs) auto
  then show ?thesis by (metis map_Suc_upt)
qed

lemma find_upt_SomeD: "find P [0..<n] = Some i \<Longrightarrow> i < n \<and> P i"
  by (auto simp: find_Some_iff)

end
