(* ===== verification/DList.thy ===== *)
theory DList
  imports Prelude
begin

text \<open>Linked lists as the C code lays them out: the successor and the predecessor fields are
  functions from nodes to nodes and a distinguished value \<open>z\<close> (\<open>NULL\<close>, or index \<open>0\<close>) ends a list.
  \<open>path\<close> reads a chain off one field; \<open>dlist\<close> is a doubly linked list with head and tail, \<open>ring\<close>
  a circular one.  The pure pointer operations on which the handle lists, the registries and the
  timer list rest are defined and proved here once; the component theories show that
  their code is an instance.  The DLIST macros of inc/u_lnk_list.h are modelled at the end.\<close>

section \<open>Chains\<close>

fun path :: "('a \<Rightarrow> 'a) \<Rightarrow> 'a \<Rightarrow> 'a list \<Rightarrow> 'a \<Rightarrow> bool" where
  "path f p [] q = (p = q)"
| "path f p (x # xs) q = (p = x \<and> path f (f x) xs q)"

lemma path_append [simp]:
  "path f p (xs @ ys) q = (\<exists>m. path f p xs m \<and> path f m ys q)"
  by (induction xs arbitrary: p) auto

lemma path_frame [frame_simps]: "x \<notin> set xs \<Longrightarrow> path (f(x := y)) p xs q = path f p xs q"
  by (induction xs arbitrary: p) auto

lemma path_cong: "(\<And>x. x \<in> set xs \<Longrightarrow> f x = g x) \<Longrightarrow> path f p xs q = path g p xs q"
  by (induction xs arbitrary: p) auto

lemma path_end_unique: "path f p xs q \<Longrightarrow> path f p xs q' \<Longrightarrow> q = q'"
  by (induction xs arbitrary: p) auto

lemma path_unique:
  assumes "path f p xs z" "path f p ys z" "z \<notin> set xs" "z \<notin> set ys"
  shows "xs = ys"
  using assms
proof (induction xs arbitrary: p ys)
  case Nil then show ?case by (cases ys) auto
next
  case (Cons x xs) then show ?case by (cases ys) auto
qed

lemma path_redirect_last:
  "path f p (xs @ [x]) q \<Longrightarrow> x \<notin> set xs \<Longrightarrow> path (f(x := y)) p (xs @ [x]) y"
  by (auto simp: frame_simps)

text \<open>The value a chain starts with, given where it ends.\<close>

definition head_or :: "'a list \<Rightarrow> 'a \<Rightarrow> 'a" where
  "head_or xs z = (case xs of [] \<Rightarrow> z | x # _ \<Rightarrow> x)"

lemma head_or_simps [simp]:
  "head_or [] z = z" "head_or (x # xs) z = x"
  by (simp_all add: head_or_def)

lemma head_or_append: "head_or (xs @ ys) z = (if xs = [] then head_or ys z else hd xs)"
  by (cases xs) auto

lemma path_start: "path f p xs q \<Longrightarrow> p = head_or xs q"
  by (cases xs) auto

section \<open>Doubly linked lists with head and tail\<close>

definition dlist :: "('a \<Rightarrow> 'a) \<Rightarrow> ('a \<Rightarrow> 'a) \<Rightarrow> 'a \<Rightarrow> 'a \<Rightarrow> 'a \<Rightarrow> 'a list \<Rightarrow> bool" where
  "dlist nx pv z h t xs =
    (path nx h xs z \<and> path pv t (rev xs) z \<and> distinct xs \<and> z \<notin> set xs)"

lemma dlist_Nil [simp]: "dlist nx pv z h t [] \<longleftrightarrow> h = z \<and> t = z"
  by (auto simp: dlist_def)

lemma dlist_mirror: "dlist nx pv z h t xs \<longleftrightarrow> dlist pv nx z t h (rev xs)"
  by (auto simp: dlist_def)

lemma dlist_distinct: "dlist nx pv z h t xs \<Longrightarrow> distinct xs"
  by (simp add: dlist_def)

lemma dlist_no_null: "dlist nx pv z h t xs \<Longrightarrow> z \<notin> set xs"
  by (simp add: dlist_def)

lemma dlist_head: "dlist nx pv z h t xs \<Longrightarrow> h = head_or xs z"
  by (auto simp: dlist_def dest: path_start)

lemma dlist_tail: "dlist nx pv z h t xs \<Longrightarrow> t = head_or (rev xs) z"
  by (auto simp: dlist_def dest: path_start)

lemma dlist_cong:
  assumes "\<And>x. x \<in> set xs \<Longrightarrow> nx x = nx' x" "\<And>x. x \<in> set xs \<Longrightarrow> pv x = pv' x"
  shows "dlist nx pv z h t xs = dlist nx' pv' z h t xs"
  unfolding dlist_def
  using path_cong [of xs nx nx'] path_cong [of "rev xs" pv pv'] assms by simp

lemma dlist_frame [frame_simps]:
  assumes "x \<notin> set xs"
  shows "dlist (nx(x := a)) pv z h t xs = dlist nx pv z h t xs"
    and "dlist nx (pv(x := a)) z h t xs = dlist nx pv z h t xs"
  using assms by (simp_all add: dlist_def frame_simps)

text \<open>The neighbours of a node in the middle.\<close>

lemma dlist_split:
  assumes "dlist nx pv z h t (as @ x # bs)"
  shows "nx x = head_or bs z" and "pv x = head_or (rev as) z"
    and "path nx h as x" and "path nx (nx x) bs z"
    and "path pv t (rev bs) x" and "path pv (pv x) (rev as) z"
    and "x \<noteq> z" and "x \<notin> set as" and "x \<notin> set bs"
    and "distinct as" and "distinct bs" and "set as \<inter> set bs = {}"
    and "z \<notin> set as" and "z \<notin> set bs"
  using assms by (auto simp: dlist_def dest: path_start)

text \<open>Append: \<open>x\<close> gets successor \<open>z\<close> and predecessor \<open>t\<close>; the old tail or the head is redirected.\<close>

lemma dlist_insert_tail:
  assumes "dlist nx pv z h t xs" "x \<notin> set xs" "x \<noteq> z"
  shows "dlist (if t = z then nx(x := z) else nx(x := z, t := x)) (pv(x := t)) z
           (if t = z then x else h) x (xs @ [x])"
proof (cases xs rule: rev_cases)
  case Nil
  with assms show ?thesis by (auto simp: dlist_def)
next
  case (snoc ys y)
  with assms(1) have t: "t = y" "y \<noteq> z" "y \<notin> set ys" by (auto simp: dlist_def)
  with assms snoc show ?thesis by (auto simp: dlist_def frame_simps)
qed

lemma dlist_insert_head:
  assumes "dlist nx pv z h t xs" "x \<notin> set xs" "x \<noteq> z"
  shows "dlist (nx(x := h)) (if h = z then pv(x := z) else pv(x := z, h := x)) z
           x (if h = z then x else t) (x # xs)"
  using dlist_insert_tail [of pv nx z t h "rev xs" x] assms
  by (subst dlist_mirror) (simp add: dlist_mirror [of nx pv])

lemma dlist_insert_before:
  assumes "dlist nx pv z h t (as @ y # bs)" "x \<notin> set (as @ y # bs)" "x \<noteq> z"
  shows "dlist (if pv y = z then nx(x := y) else nx(x := y, pv y := x)) (pv(x := pv y, y := x)) z
           (if pv y = z then x else h) t (as @ x # y # bs)"
proof (cases as rule: rev_cases)
  case Nil
  with assms show ?thesis by (auto simp: dlist_def frame_simps)
next
  case (snoc as' a)
  with assms(1) have "pv y = a" "a \<noteq> z" by (auto simp: dlist_def)
  with assms snoc show ?thesis by (auto simp: dlist_def frame_simps)
qed

lemma dlist_insert_after:
  assumes "dlist nx pv z h t (as @ y # bs)" "x \<notin> set (as @ y # bs)" "x \<noteq> z"
  shows "dlist (nx(x := nx y, y := x)) (if nx y = z then pv(x := y) else pv(x := y, nx y := x)) z
           h (if nx y = z then x else t) (as @ y # x # bs)"
  using dlist_insert_before [of pv nx z t h "rev bs" y "rev as" x] assms
  by (subst dlist_mirror) (simp add: dlist_mirror [of nx pv])

text \<open>Removal: the neighbours are joined, at an end the head or the tail moves.\<close>

lemma dlist_remove:
  assumes "dlist nx pv z h t (as @ x # bs)"
  shows "dlist (if pv x = z then nx else nx(pv x := nx x)) (if nx x = z then pv else pv(nx x := pv x)) z
           (if pv x = z then nx x else h) (if nx x = z then pv x else t) (as @ bs)"
proof (cases as rule: rev_cases)
  case Nil
  note as = Nil
  show ?thesis
  proof (cases bs)
    case Nil with as assms show ?thesis by (auto simp: dlist_def)
  next
    case (Cons b bs') with as assms show ?thesis by (auto simp: dlist_def frame_simps)
  qed
next
  case (snoc as' a)
  note as = snoc
  show ?thesis
  proof (cases bs)
    case Nil with as assms show ?thesis by (auto simp: dlist_def frame_simps)
  next
    case (Cons b bs') with as assms show ?thesis by (auto simp: dlist_def frame_simps)
  qed
qed

lemma dlist_remove1:
  assumes "dlist nx pv z h t xs" "x \<in> set xs"
  shows "dlist (if pv x = z then nx else nx(pv x := nx x)) (if nx x = z then pv else pv(nx x := pv x)) z
           (if pv x = z then nx x else h) (if nx x = z then pv x else t) (remove1 x xs)"
proof -
  obtain as bs where xs: "xs = as @ x # bs" using assms(2) by (meson split_list)
  with assms(1) have "x \<notin> set as" by (simp add: dlist_def)
  then have "remove1 x xs = as @ bs" by (simp add: xs remove1_append)
  with dlist_remove [of nx pv z h t as x bs] assms(1) xs show ?thesis by simp
qed

end
