(* ===== verification/Handle.thy ===== *)
theory Handle
  imports DList
begin

text \<open>The handle library, mw/handle.c and inc/u_handle.h: state and operations.

  A handle names a control block \<open>H_CTRL_T\<close> in the array \<open>pt_h_ctrl_arr\<close>; the model keeps the
  array as \<open>arr\<close>, a function of the index, with the address of the array in \<open>pt_h_ctrl_arr\<close>, and a
  pointer to a control block as its index.  Handle lists (\<open>HANDLE_LINK_T\<close>) live in the memory of
  the clients; \<open>links\<close> is that memory.  \<open>heap\<close> is the set of blocks obtained from the C heap and
  not freed.  \<open>crit\<close> is how deep the calling thread is inside the critical section
  (\<open>u_crit_start\<close>, \<open>u_crit_end\<close>; theory Crit has the lock itself).

  Clients hand in callbacks as function pointers.  What such a function does is a parameter of the
  operation that calls it (it is the client's code); it gets the whole state, so that it can
  call the library again, and may itself fail.  The state is an extensible record: a client adds its
  own fields.\<close>

section \<open>Data\<close>

record lnk =
  ui2_next :: u16
  ui2_prev :: u16

record h_ctrl =
  u_ptr :: ptr
  pv_obj :: ptr
  pf_free :: fptr
  t_h_link :: lnk
  t_aux_link :: lnk
  ui2_aux_link_head :: u16
  ui2_aux_link_count :: u16
  e_type :: u16
  ui1_count :: u8
  ui1_flags :: u8

record h_link =
  ui2_head :: u16
  ui2_tail :: u16
  ui2_h_count :: u16
  hl_flags :: u8

datatype hp_type = HP_NEXT | HP_BREAK | HP_RESTART | HP_INVALID

record hlib =
  b_init :: bool
  pv_handle_memory_pool :: ptr
  pt_h_ctrl_arr :: ptr
  arr :: "nat \<Rightarrow> h_ctrl"
  ui2_free_handles :: u16
  ui2_num_total :: u16
  ui2_num_free :: u16
  ui2_num_peak_used :: u16
  ui2_num_used_per_grp :: "nat \<Rightarrow> u16"
  apf_handle_clean_up_functions :: "nat \<Rightarrow> ptr"
  links :: "ptr \<Rightarrow> h_link"
  heap :: "ptr set"
  crit :: nat

text \<open>The static variables before the program starts.\<close>

definition hlib_start :: hlib where
  "hlib_start = \<lparr>b_init = False, pv_handle_memory_pool = NULL, pt_h_ctrl_arr = NULL,
     arr = (\<lambda>_. \<lparr>u_ptr = NULL, pv_obj = NULL, pf_free = NULL,
       t_h_link = \<lparr>ui2_next = 0, ui2_prev = 0\<rparr>, t_aux_link = \<lparr>ui2_next = 0, ui2_prev = 0\<rparr>,
       ui2_aux_link_head = 0, ui2_aux_link_count = 0, e_type = 0, ui1_count = 0, ui1_flags = 0\<rparr>),
     ui2_free_handles = 0, ui2_num_total = 0, ui2_num_free = 0, ui2_num_peak_used = 0,
     ui2_num_used_per_grp = (\<lambda>_. 0), apf_handle_clean_up_functions = (\<lambda>_. NULL),
     links = (\<lambda>_. \<lparr>ui2_head = 0, ui2_tail = 0, ui2_h_count = 0, hl_flags = 0\<rparr>),
     heap = {}, crit = 0\<rparr>"

type_synonym 'x free_cb =
  "fptr \<Rightarrow> handle \<Rightarrow> u16 \<Rightarrow> ptr \<Rightarrow> ptr \<Rightarrow> bool \<Rightarrow> 'x hlib_scheme \<Rightarrow> (bool \<times> 'x hlib_scheme) result"
type_synonym 'x aux_free_cb = "fptr \<Rightarrow> ptr \<Rightarrow> 'x hlib_scheme \<Rightarrow> 'x hlib_scheme result"
type_synonym 'x parse_cb =
  "fptr \<Rightarrow> u16 \<Rightarrow> u16 \<Rightarrow> handle \<Rightarrow> u16 \<Rightarrow> ptr \<Rightarrow> ptr \<Rightarrow> ptr \<Rightarrow> 'x hlib_scheme
    \<Rightarrow> (hp_type \<times> 'x hlib_scheme) result"
type_synonym 'x autofree_cb = "fptr \<Rightarrow> handle \<Rightarrow> u16 \<Rightarrow> 'x hlib_scheme \<Rightarrow> (int \<times> 'x hlib_scheme) result"

abbreviation (input) NULL_IDX :: u16 where "NULL_IDX \<equiv> 0"
abbreviation (input) MAX_NUM_HANDLES :: u16 where "MAX_NUM_HANDLES \<equiv> 0xffff"
abbreviation (input) HANDLE_REALLOC_NUM :: u16 where "HANDLE_REALLOC_NUM \<equiv> 1000"
abbreviation (input) INV_HANDLE_TYPE :: u16 where "INV_HANDLE_TYPE \<equiv> 0"
abbreviation (input) HT_GROUP_SIZE :: u16 where "HT_GROUP_SIZE \<equiv> 64"
abbreviation (input) HT_RES_BY_HANDLE_LIB :: u16 where "HT_RES_BY_HANDLE_LIB \<equiv> 64"
abbreviation (input) HT_NB_GROUPS :: nat where "HT_NB_GROUPS \<equiv> 2"
abbreviation (input) HT_AUX_LINK_HEAD :: u16 where "HT_AUX_LINK_HEAD \<equiv> 1"
abbreviation (input) NULL_HANDLE :: handle where "NULL_HANDLE \<equiv> 0"

abbreviation (input) H_CTRL_FLAG_ACTIVE :: u8 where "H_CTRL_FLAG_ACTIVE \<equiv> 1"
abbreviation (input) H_CTRL_FLAG_PARSING :: u8 where "H_CTRL_FLAG_PARSING \<equiv> 2"
abbreviation (input) H_CTRL_FLAG_LINKED :: u8 where "H_CTRL_FLAG_LINKED \<equiv> 4"
abbreviation (input) H_CTRL_FLAG_FREEING :: u8 where "H_CTRL_FLAG_FREEING \<equiv> 8"
abbreviation (input) H_LINK_FLAG_PARSING :: u8 where "H_LINK_FLAG_PARSING \<equiv> 1"
abbreviation (input) H_LINK_FLAG_FREE_ALL :: u8 where "H_LINK_FLAG_FREE_ALL \<equiv> 2"

abbreviation (input) DBG_ABRT_INV_PARSE_OP :: nat where "DBG_ABRT_INV_PARSE_OP \<equiv> 1"
abbreviation (input) DBG_ABRT_INV_PARSE_RET_VALUE :: nat where "DBG_ABRT_INV_PARSE_RET_VALUE \<equiv> 2"
abbreviation (input) DBG_ABRT_INV_AUX_LINK_HEAD_HANDLE_TYPE :: nat
  where "DBG_ABRT_INV_AUX_LINK_HEAD_HANDLE_TYPE \<equiv> 3"
abbreviation (input) DBG_ABRT_HANDLE_IS_STILL_LINKED :: nat where "DBG_ABRT_HANDLE_IS_STILL_LINKED \<equiv> 4"
abbreviation (input) DBG_ABRT_NULL_AUTOFREE_FUNCTION :: nat where "DBG_ABRT_NULL_AUTOFREE_FUNCTION \<equiv> 5"
abbreviation (input) DBG_ABRT_AUTOFREE_NOT_REGISTERED :: nat where "DBG_ABRT_AUTOFREE_NOT_REGISTERED \<equiv> 6"
abbreviation (input) DBG_ABRT_AUTOFREE_GET_TYPE_FAILED :: nat where "DBG_ABRT_AUTOFREE_GET_TYPE_FAILED \<equiv> 7"
abbreviation (input) DBG_ABRT_AUTOFREE_FAILED :: nat where "DBG_ABRT_AUTOFREE_FAILED \<equiv> 8"
abbreviation (input) DBG_ABRT_MISSING_FREE_CALLBACK :: nat where "DBG_ABRT_MISSING_FREE_CALLBACK \<equiv> 9"
abbreviation (input) DBG_ABRT_ALLOC_AUX_LINK_FAILED :: nat where "DBG_ABRT_ALLOC_AUX_LINK_FAILED \<equiv> 10"

text \<open>\<open>sizeof (H_CTRL_T)\<close> with 4-byte pointers: three pointers, two pairs of \<open>UINT16\<close>, three
  \<open>UINT16\<close> and two bytes.\<close>

definition sizeof_H_CTRL_T :: u32 where
  "sizeof_H_CTRL_T = 28"

section \<open>Access to control blocks and lists\<close>

definition ctrl :: "'x hlib_scheme \<Rightarrow> u16 \<Rightarrow> h_ctrl" where
  "ctrl s i = arr s (unat i)"

definition upd_ctrl :: "u16 \<Rightarrow> (h_ctrl \<Rightarrow> h_ctrl) \<Rightarrow> 'x hlib_scheme \<Rightarrow> 'x hlib_scheme" where
  "upd_ctrl i f s = s\<lparr>arr := (arr s)(unat i := f (arr s (unat i)))\<rparr>"

definition upd_link :: "ptr \<Rightarrow> (h_link \<Rightarrow> h_link) \<Rightarrow> 'x hlib_scheme \<Rightarrow> 'x hlib_scheme" where
  "upd_link l f s = s\<lparr>links := (links s)(l := f (links s l))\<rparr>"

definition crit_start :: "'x hlib_scheme \<Rightarrow> 'x hlib_scheme" where
  "crit_start s = s\<lparr>crit := crit s + 1\<rparr>"

definition crit_end :: "'x hlib_scheme \<Rightarrow> 'x hlib_scheme" where
  "crit_end s = s\<lparr>crit := crit s - 1\<rparr>"

text \<open>Assignments to the link fields of a control block.\<close>

definition set_h_next :: "u16 \<Rightarrow> u16 \<Rightarrow> 'x hlib_scheme \<Rightarrow> 'x hlib_scheme" where
  "set_h_next i v = upd_ctrl i (\<lambda>c. c\<lparr>t_h_link := (t_h_link c)\<lparr>ui2_next := v\<rparr>\<rparr>)"

definition set_h_prev :: "u16 \<Rightarrow> u16 \<Rightarrow> 'x hlib_scheme \<Rightarrow> 'x hlib_scheme" where
  "set_h_prev i v = upd_ctrl i (\<lambda>c. c\<lparr>t_h_link := (t_h_link c)\<lparr>ui2_prev := v\<rparr>\<rparr>)"

definition set_aux_next :: "u16 \<Rightarrow> u16 \<Rightarrow> 'x hlib_scheme \<Rightarrow> 'x hlib_scheme" where
  "set_aux_next i v = upd_ctrl i (\<lambda>c. c\<lparr>t_aux_link := (t_aux_link c)\<lparr>ui2_next := v\<rparr>\<rparr>)"

definition set_aux_prev :: "u16 \<Rightarrow> u16 \<Rightarrow> 'x hlib_scheme \<Rightarrow> 'x hlib_scheme" where
  "set_aux_prev i v = upd_ctrl i (\<lambda>c. c\<lparr>t_aux_link := (t_aux_link c)\<lparr>ui2_prev := v\<rparr>\<rparr>)"

definition set_flags :: "u16 \<Rightarrow> (u8 \<Rightarrow> u8) \<Rightarrow> 'x hlib_scheme \<Rightarrow> 'x hlib_scheme" where
  "set_flags i g = upd_ctrl i (\<lambda>c. c\<lparr>ui1_flags := g (ui1_flags c)\<rparr>)"

section \<open>Local functions\<close>

definition make_handle :: "'x hlib_scheme \<Rightarrow> u16 \<Rightarrow> handle" where
  "make_handle s i = (ucast i AND 0x0000ffff) + push_bit 16 (ucast (ui1_count (ctrl s i)))"

definition get_h_ctrl_from_handle :: "'x hlib_scheme \<Rightarrow> handle \<Rightarrow> u16 option" where
  "get_h_ctrl_from_handle s h =
    (let i = (ucast (h AND 0x0000ffff) :: u16) in
     if h AND 0xff000000 = 0 \<and> i > NULL_IDX \<and> i \<le> ui2_num_total s
        \<and> ui1_count (ctrl s i) = ucast (drop_bit 16 h AND 0x000000ff)
        \<and> ftst H_CTRL_FLAG_ACTIVE (ui1_flags (ctrl s i))
     then Some i else None)"

definition get_h_ctrl_from_idx :: "u16 \<Rightarrow> u16 option" where
  "get_h_ctrl_from_idx i = (if i \<noteq> NULL_IDX then Some i else None)"

definition aux_link_head_free ::
  "handle \<Rightarrow> u16 \<Rightarrow> ptr \<Rightarrow> ptr \<Rightarrow> bool \<Rightarrow> 'x hlib_scheme \<Rightarrow> (bool \<times> 'x hlib_scheme) result" where
  "aux_link_head_free h ty obj tag req s0 =
    (let s = crit_start s0 in
     case (if ty = HT_AUX_LINK_HEAD then get_h_ctrl_from_handle s h else None) of
       Some i \<Rightarrow> Inr (ui2_aux_link_count (ctrl s i) = 0, crit_end s)
     | None \<Rightarrow> Inl (Aborted DBG_ABRT_INV_AUX_LINK_HEAD_HANDLE_TYPE))"

text \<open>The code keeps the address of a control block across the callbacks and uses it afterwards.  When the callback
  allocates a handle and \<open>realloc\<close> moves the array, that address is in freed memory: the use is a fault.
  Where the array stays, the address is that of the block with the same index.\<close>

definition hold :: "'x hlib_scheme \<Rightarrow> ('r \<times> 'x hlib_scheme) result \<Rightarrow> ('r \<times> 'x hlib_scheme) result" where
  "hold s r = then_do r (\<lambda>(v, s1). if pt_h_ctrl_arr s1 \<noteq> pt_h_ctrl_arr s then Inl BadAccess else Inr (v, s1))"

text \<open>The part of \<open>delink_from_aux\<close> after the callback of the head \<open>a\<close>.\<close>

definition unlink_aux :: "u16 \<Rightarrow> u16 \<Rightarrow> 'x hlib_scheme \<Rightarrow> 'x hlib_scheme" where
  "unlink_aux a i s0 =
    (let n = ui2_next (t_aux_link (ctrl s0 i)); p = ui2_prev (t_aux_link (ctrl s0 i));
         s = (if n \<noteq> NULL_IDX then set_aux_prev n p s0 else s0);
         s = (if p \<noteq> NULL_IDX then set_aux_next p n s else set_aux_next a n s);
         s = set_aux_next i NULL_IDX s;
         s = set_aux_prev i NULL_IDX s;
         s = upd_ctrl i (\<lambda>c. c\<lparr>ui2_aux_link_head := NULL_IDX\<rparr>) s
     in if ui2_aux_link_count (ctrl s a) > 0
        then upd_ctrl a (\<lambda>c. c\<lparr>ui2_aux_link_count := ui2_aux_link_count c - 1\<rparr>) s else s)"

definition delink_from_aux :: "'x aux_free_cb \<Rightarrow> u16 \<Rightarrow> 'x hlib_scheme \<Rightarrow> 'x hlib_scheme result" where
  "delink_from_aux acb i s =
    (let a = ui2_aux_link_head (ctrl s i) in
     then_do (if u_ptr (ctrl s a) \<noteq> NULL then acb (u_ptr (ctrl s a)) (pv_obj (ctrl s a)) s else Inr s)
      (\<lambda>s1. if pt_h_ctrl_arr s1 \<noteq> pt_h_ctrl_arr s then Inl BadAccess else Inr (unlink_aux a i s1)))"

text \<open>The function pointer of the library's own free callback; clients use other values.\<close>

definition fn_aux_link_head_free :: fptr where
  "fn_aux_link_head_free = 1"

definition call_free :: "'x free_cb \<Rightarrow> 'x free_cb" where
  "call_free cb f h ty obj tag req s =
    (if f = fn_aux_link_head_free then aux_link_head_free h ty obj tag req s
     else cb f h ty obj tag req s)"

section \<open>Initialisation and growth\<close>

definition fresh_ctrl :: "u16 \<Rightarrow> h_ctrl" where
  "fresh_ctrl nxt = \<lparr>u_ptr = NULL, pv_obj = NULL, pf_free = NULL,
     t_h_link = \<lparr>ui2_next = nxt, ui2_prev = NULL_IDX\<rparr>,
     t_aux_link = \<lparr>ui2_next = NULL_IDX, ui2_prev = NULL_IDX\<rparr>,
     ui2_aux_link_head = NULL_IDX, ui2_aux_link_count = 0,
     e_type = INV_HANDLE_TYPE, ui1_count = 0, ui1_flags = 0\<rparr>"

text \<open>The body of the loops of \<open>handle_init\<close> and \<open>realloc_handle_init\<close>: the block at index
  \<open>ui2_idx + 1\<close>, computed as \<open>int\<close>, becomes the first of the free list; the assignment to
  \<open>ui2_free_handles\<close> truncates to 16 bits.\<close>

definition init_slot :: "u16 \<Rightarrow> 'x hlib_scheme \<Rightarrow> 'x hlib_scheme" where
  "init_slot idx s = s\<lparr>arr := (arr s)(unat idx + 1 := fresh_ctrl (ui2_free_handles s)),
     ui2_free_handles := idx + 1, ui2_num_free := ui2_num_free s + 1\<rparr>"

partial_function (option) init_loop :: "int \<Rightarrow> u16 \<Rightarrow> 'x hlib_scheme \<Rightarrow> 'x hlib_scheme option" where
  "init_loop bound idx s =
    (if int (unat idx) < bound then init_loop bound (idx + 1) (init_slot idx s) else Some s)"

declare init_loop.simps [code]

definition run_init_loop :: "int \<Rightarrow> u16 \<Rightarrow> 'x hlib_scheme \<Rightarrow> 'x hlib_scheme result" where
  "run_init_loop bound idx s = (case init_loop bound idx s of None \<Rightarrow> Inl Hang | Some s' \<Rightarrow> Inr s')"

definition handle_init ::
  "u16 \<Rightarrow> u32 option \<Rightarrow> u32 option \<Rightarrow> 'x hlib_scheme
    \<Rightarrow> (int \<times> u32 option \<times> u32 option \<times> 'x hlib_scheme) result" where
  "handle_init nh ppv_mem_addr pz_mem_size s =
    (if b_init s then Inr (HR_ALREADY_INIT, ppv_mem_addr, pz_mem_size, s)
     else case (ppv_mem_addr, pz_mem_size) of
       (Some addr, Some mem_size) \<Rightarrow>
         (if nh > 0 \<and> nh < MAX_NUM_HANDLES \<and> addr \<noteq> 0 \<and> mem_size \<noteq> 0 then
            let z_len = addr mod 4; new_addr = addr + z_len; new_size = mem_size - z_len;
                z_len = sizeof_H_CTRL_T * (ucast nh + 1)
            in if z_len < new_size then
                 let s = s\<lparr>pt_h_ctrl_arr := unat new_addr, ui2_num_total := nh, ui2_num_free := 0,
                           ui2_num_peak_used := 0,
                           ui2_num_used_per_grp := (ui2_num_used_per_grp s)(0 := 0, 1 := 0),
                           ui2_free_handles := NULL_IDX\<rparr>
                 in then_do (run_init_loop (int (unat nh)) 0 s)
                      (\<lambda>s. Inr (HR_OK, Some (new_addr + z_len), Some (new_size - z_len), s\<lparr>b_init := True\<rparr>))
               else Inr (HR_NOT_ENOUGH_MEM, ppv_mem_addr, pz_mem_size, s)
          else Inr (HR_INV_ARG, ppv_mem_addr, pz_mem_size, s))
     | _ \<Rightarrow> Inr (HR_INV_ARG, ppv_mem_addr, pz_mem_size, s))"

definition realloc_handle_init ::
  "u16 \<Rightarrow> u32 option \<Rightarrow> 'x hlib_scheme \<Rightarrow> (int \<times> 'x hlib_scheme) result" where
  "realloc_handle_init add pz_mem_size s =
    (if add > 0 then
       case pz_mem_size of
         None \<Rightarrow> Inr (HR_INV_ARG, s)
       | Some mem_size \<Rightarrow>
           (if add > 0 \<and> add < MAX_NUM_HANDLES \<and> mem_size \<noteq> 0 then
              if sizeof_H_CTRL_T * (ucast add + 1) < mem_size then
                if pt_h_ctrl_arr s = NULL then Inl BadAccess
                else then_do (run_init_loop (int (unat (ui2_num_total s)) + int (unat add)) (ui2_num_total s) s)
                       (\<lambda>s. Inr (HR_OK, s\<lparr>ui2_num_total := ui2_num_total s + add, b_init := True\<rparr>))
              else Inr (HR_NOT_ENOUGH_MEM, s)
            else Inr (HR_INV_ARG, s))
     else Inr (HR_ALREADY_INIT, s))"

text \<open>\<open>ra p z\<close> is what \<open>realloc (p, z)\<close> returns.\<close>

definition realloc_handle ::
  "(ptr \<Rightarrow> u32 \<Rightarrow> ptr) \<Rightarrow> u16 \<Rightarrow> 'x hlib_scheme \<Rightarrow> (int \<times> 'x hlib_scheme) result" where
  "realloc_handle ra add s =
    (let z_len = sizeof_H_CTRL_T * (ucast (ui2_num_total s) + ucast add + 5);
         p = ra (pt_h_ctrl_arr s) z_len;
         s = s\<lparr>heap := (if p = NULL then heap s else insert p (heap s - {pt_h_ctrl_arr s})),
               pt_h_ctrl_arr := p, pv_handle_memory_pool := p\<rparr>
     in realloc_handle_init add (Some z_len) s)"

definition handle_uninit :: "'x hlib_scheme \<Rightarrow> int \<times> 'x hlib_scheme" where
  "handle_uninit s = (HR_OK, s\<lparr>pt_h_ctrl_arr := NULL\<rparr>)"

text \<open>\<open>m\<close> is what \<open>malloc\<close> returns.\<close>

definition u_handle_usr_init :: "ptr \<Rightarrow> u16 \<Rightarrow> 'x hlib_scheme \<Rightarrow> (int \<times> 'x hlib_scheme) result" where
  "u_handle_usr_init m nh s =
    (let z_len = sizeof_H_CTRL_T * (ucast nh + 5);
         s = s\<lparr>heap := (if m = NULL then heap s else insert m (heap s)), pv_handle_memory_pool := m\<rparr>
     in then_do (handle_init nh (Some (of_nat m)) (Some z_len) s) (\<lambda>(r, _, _, s). Inr (r, s)))"

definition u_handle_usr_uninit :: "'x hlib_scheme \<Rightarrow> int \<times> 'x hlib_scheme" where
  "u_handle_usr_uninit s =
    handle_uninit (s\<lparr>b_init := False, heap := heap s - {pv_handle_memory_pool s}, pv_handle_memory_pool := NULL\<rparr>)"

section \<open>Allocation\<close>

text \<open>\<open>ph\<close> tells whether \<open>ph_handle\<close> is not \<open>NULL\<close>; the handle stored there is the second
  component of the result, \<open>None\<close> when nothing is stored.\<close>

definition count_used :: "u16 \<Rightarrow> 'x hlib_scheme \<Rightarrow> 'x hlib_scheme" where
  "count_used ty s =
    (let g = unat (ty div HT_GROUP_SIZE) in
     if g < HT_NB_GROUPS
     then s\<lparr>ui2_num_used_per_grp := (ui2_num_used_per_grp s)(g := ui2_num_used_per_grp s g + 1)\<rparr>
     else s)"

definition count_peak :: "'x hlib_scheme \<Rightarrow> 'x hlib_scheme" where
  "count_peak s =
    (if ui2_num_total s \<ge> ui2_num_free s \<and> ui2_num_total s - ui2_num_free s > ui2_num_peak_used s
     then s\<lparr>ui2_num_peak_used := ui2_num_total s - ui2_num_free s\<rparr> else s)"

definition fill_ctrl :: "u16 \<Rightarrow> ptr \<Rightarrow> ptr \<Rightarrow> fptr \<Rightarrow> h_ctrl \<Rightarrow> h_ctrl" where
  "fill_ctrl ty obj tag fre c = \<lparr>u_ptr = tag, pv_obj = obj, pf_free = fre,
     t_h_link = \<lparr>ui2_next = NULL_IDX, ui2_prev = NULL_IDX\<rparr>,
     t_aux_link = \<lparr>ui2_next = NULL_IDX, ui2_prev = NULL_IDX\<rparr>,
     ui2_aux_link_head = NULL_IDX, ui2_aux_link_count = 0,
     e_type = ty, ui1_count = ui1_count c + 1, ui1_flags = H_CTRL_FLAG_ACTIVE\<rparr>"

text \<open>The grow path returns from inside the critical section when \<open>realloc_handle\<close> fails.\<close>

definition u_handle_alloc ::
  "(ptr \<Rightarrow> u32 \<Rightarrow> ptr) \<Rightarrow> u16 \<Rightarrow> ptr \<Rightarrow> ptr \<Rightarrow> fptr \<Rightarrow> bool \<Rightarrow> 'x hlib_scheme
    \<Rightarrow> (int \<times> handle option \<times> 'x hlib_scheme) result" where
  "u_handle_alloc ra ty obj tag fre ph s =
    (if \<not> b_init s then Inr (HR_NOT_INIT, None, s)
     else if \<not> (ph \<and> fre \<noteq> NULL) then Inr (HR_INV_ARG, None, s)
     else if ty = INV_HANDLE_TYPE then Inr (HR_INV_HANDLE_TYPE, None, s)
     else let s = crit_start s in
       case get_h_ctrl_from_idx (ui2_free_handles s) of
         None \<Rightarrow> Inr (HR_OUT_OF_HANDLES, None, crit_end s)
       | Some i \<Rightarrow>
           let s = s\<lparr>ui2_free_handles := ui2_next (t_h_link (ctrl s i)),
                     ui2_num_free := ui2_num_free s - 1\<rparr>
           in then_do (if ui2_num_free s \<le> 10 then realloc_handle ra HANDLE_REALLOC_NUM s else Inr (HR_OK, s))
               (\<lambda>(r, s).
                 if r \<noteq> HR_OK then Inr (HR_OUT_OF_HANDLES, None, s)
                 else let s = crit_end (count_peak (count_used ty s));
                          s = upd_ctrl i (fill_ctrl ty obj tag fre) s
                      in Inr (HR_OK, Some (make_handle s i), s)))"

text \<open>\<open>m\<close> is what \<open>calloc\<close> returns; \<open>po\<close> tells whether \<open>ppv_obj\<close> is not \<open>NULL\<close>, and what is stored
  there is the third component of the result.\<close>

definition handle_alloc_and_obj ::
  "(ptr \<Rightarrow> u32 \<Rightarrow> ptr) \<Rightarrow> ptr \<Rightarrow> u16 \<Rightarrow> ptr \<Rightarrow> u32 \<Rightarrow> fptr \<Rightarrow> bool \<Rightarrow> bool \<Rightarrow> 'x hlib_scheme
    \<Rightarrow> (int \<times> handle option \<times> ptr option \<times> 'x hlib_scheme) result" where
  "handle_alloc_and_obj ra m ty tag z_size fre ph po s =
    (if \<not> b_init s then Inr (HR_NOT_INIT, None, None, s)
     else if \<not> (ph \<and> fre \<noteq> NULL) then Inr (HR_INV_ARG, None, None, s)
     else let out = (if po then Some NULL else None);
              obj = (if po \<and> z_size \<noteq> 0 then m else NULL);
              s = (if obj \<noteq> NULL then s\<lparr>heap := insert obj (heap s)\<rparr> else s)
          in if \<not> po \<or> z_size = 0 \<or> m \<noteq> NULL then
               then_do (u_handle_alloc ra ty obj tag fre ph s) (\<lambda>(r, h, s).
                 if r = HR_OK then Inr (r, h, (if obj \<noteq> NULL then Some obj else out), s)
                 else Inr (r, h, out, (if obj \<noteq> NULL then s\<lparr>heap := heap s - {obj}\<rparr> else s)))
             else Inr (HR_NOT_ENOUGH_MEM, None, out, s))"

section \<open>Handle lists\<close>

definition handle_link_init :: "ptr \<Rightarrow> 'x hlib_scheme \<Rightarrow> int \<times> 'x hlib_scheme" where
  "handle_link_init l s =
    (if l \<noteq> NULL
     then (HR_OK, upd_link l (\<lambda>_. \<lparr>ui2_head = NULL_IDX, ui2_tail = NULL_IDX, ui2_h_count = 0, hl_flags = 0\<rparr>) s)
     else (HR_INV_ARG, s))"

definition handle_link_is_empty :: "ptr \<Rightarrow> 'x hlib_scheme \<Rightarrow> bool" where
  "handle_link_is_empty l s = (l = NULL \<or> ui2_h_count (links s l) = 0)"

definition handle_num_links :: "ptr \<Rightarrow> 'x hlib_scheme \<Rightarrow> u16" where
  "handle_num_links l s = (if l \<noteq> NULL then ui2_h_count (links s l) else 0)"

text \<open>The pointer surgery of \<open>u_handle_link\<close> (after \<open>u_crit_end\<close>) and of \<open>u_handle_delink\<close>.\<close>

definition link_tail :: "ptr \<Rightarrow> u16 \<Rightarrow> 'x hlib_scheme \<Rightarrow> 'x hlib_scheme" where
  "link_tail l i s0 =
    (let s = set_h_next i NULL_IDX s0;
         t = ui2_tail (links s l);
         s = set_h_prev i t s;
         s = (if t \<noteq> NULL_IDX then set_h_next t i s else upd_link l (\<lambda>k. k\<lparr>ui2_head := i\<rparr>) s);
         s = upd_link l (\<lambda>k. k\<lparr>ui2_tail := i\<rparr>) s
     in upd_link l (\<lambda>k. k\<lparr>ui2_h_count := ui2_h_count k + 1\<rparr>) s)"

definition u_handle_link :: "ptr \<Rightarrow> handle \<Rightarrow> 'x hlib_scheme \<Rightarrow> int \<times> 'x hlib_scheme" where
  "u_handle_link l h s =
    (if \<not> b_init s then (HR_NOT_INIT, s)
     else if l = NULL then (HR_INV_ARG, s)
     else let s = crit_start s in
       case get_h_ctrl_from_handle s h of
         None \<Rightarrow> (HR_INV_HANDLE, crit_end s)
       | Some i \<Rightarrow>
           if e_type (ctrl s i) \<ge> HT_RES_BY_HANDLE_LIB then
             if \<not> ftst H_CTRL_FLAG_LINKED (ui1_flags (ctrl s i)) then
               (HR_OK, link_tail l i (crit_end (set_flags i (fset H_CTRL_FLAG_LINKED) s)))
             else (HR_ALREADY_LINKED, crit_end s)
           else (HR_INV_HANDLE, crit_end s))"

definition unlink :: "ptr \<Rightarrow> u16 \<Rightarrow> 'x hlib_scheme \<Rightarrow> 'x hlib_scheme" where
  "unlink l i s0 =
    (let n = ui2_next (t_h_link (ctrl s0 i)); p = ui2_prev (t_h_link (ctrl s0 i));
         s = (if n \<noteq> NULL_IDX then set_h_prev n p s0 else upd_link l (\<lambda>k. k\<lparr>ui2_tail := p\<rparr>) s0);
         s = (if p \<noteq> NULL_IDX then set_h_next p n s else upd_link l (\<lambda>k. k\<lparr>ui2_head := n\<rparr>) s);
         s = set_h_next i NULL_IDX s;
         s = set_h_prev i NULL_IDX s
     in if ui2_h_count (links s l) > 0
        then upd_link l (\<lambda>k. k\<lparr>ui2_h_count := ui2_h_count k - 1\<rparr>) s else s)"

definition u_handle_delink :: "ptr \<Rightarrow> handle \<Rightarrow> 'x hlib_scheme \<Rightarrow> int \<times> 'x hlib_scheme" where
  "u_handle_delink l h s =
    (if \<not> b_init s then (HR_NOT_INIT, s)
     else if l = NULL then (HR_INV_ARG, s)
     else let s = crit_start s in
       case get_h_ctrl_from_handle s h of
         None \<Rightarrow> (HR_INV_HANDLE, crit_end s)
       | Some i \<Rightarrow>
           if e_type (ctrl s i) \<ge> HT_RES_BY_HANDLE_LIB then
             if ftst H_CTRL_FLAG_LINKED (ui1_flags (ctrl s i)) then
               if \<not> ftst H_LINK_FLAG_PARSING (hl_flags (links s l))
                  \<or> ftst H_CTRL_FLAG_PARSING (ui1_flags (ctrl s i)) then
                 (HR_OK, unlink l i (crit_end (set_flags i (fclr H_CTRL_FLAG_LINKED) s)))
               else (HR_NOT_ALLOWED, crit_end s)
             else (HR_NOT_LINKED, crit_end s)
           else (HR_INV_HANDLE, crit_end s))"

section \<open>Freeing\<close>

text \<open>What \<open>u_handle_free\<close> and \<open>u_handle_free_all\<close> do with the block of index \<open>i\<close>, in the critical
  section, once the client's callback has agreed.\<close>

definition count_unused :: "u16 \<Rightarrow> 'x hlib_scheme \<Rightarrow> 'x hlib_scheme" where
  "count_unused i s =
    (let g = unat (e_type (ctrl s i) div HT_GROUP_SIZE) in
     if g < HT_NB_GROUPS \<and> ui2_num_used_per_grp s g > 0
     then s\<lparr>ui2_num_used_per_grp := (ui2_num_used_per_grp s)(g := ui2_num_used_per_grp s g - 1)\<rparr>
     else s)"

definition put_free :: "u16 \<Rightarrow> 'x hlib_scheme \<Rightarrow> 'x hlib_scheme" where
  "put_free i s0 =
    (let s = upd_ctrl i (\<lambda>c. c\<lparr>ui1_count := ui1_count c + 1\<rparr>) s0;
         s = set_flags i (fclr H_CTRL_FLAG_ACTIVE) s;
         s = set_h_next i NULL_IDX s;
         s = set_h_prev i NULL_IDX s;
         s = set_h_next i (ui2_free_handles s) s;
         s = s\<lparr>ui2_free_handles := i\<rparr>;
         s = s\<lparr>ui2_num_free := ui2_num_free s + 1\<rparr>
     in count_unused i s)"

definition release_ctrl :: "'x aux_free_cb \<Rightarrow> u16 \<Rightarrow> 'x hlib_scheme \<Rightarrow> 'x hlib_scheme result" where
  "release_ctrl acb i s0 =
    (let s = crit_start s0 in
     if ftst H_CTRL_FLAG_LINKED (ui1_flags (ctrl s i)) then Inl (Aborted DBG_ABRT_HANDLE_IS_STILL_LINKED)
     else then_do (if ui2_aux_link_head (ctrl s i) \<noteq> NULL_IDX then delink_from_aux acb i s else Inr s)
            (\<lambda>s. Inr (put_free i s)))"

definition u_handle_free ::
  "'x free_cb \<Rightarrow> 'x aux_free_cb \<Rightarrow> handle \<Rightarrow> bool \<Rightarrow> 'x hlib_scheme \<Rightarrow> (int \<times> 'x hlib_scheme) result" where
  "u_handle_free cb acb h req s =
    (if \<not> b_init s then Inr (HR_NOT_INIT, s)
     else let s = crit_start s in
       case get_h_ctrl_from_handle s h of
         None \<Rightarrow> Inr (HR_INV_HANDLE, crit_end s)
       | Some i \<Rightarrow>
           if \<not> ftst H_CTRL_FLAG_FREEING (ui1_flags (ctrl s i)) then
             let tag = u_ptr (ctrl s i); obj = pv_obj (ctrl s i);
                 s = crit_end (set_flags i (fset H_CTRL_FLAG_FREEING) s)
             in if pf_free (ctrl s i) = NULL then Inl (Aborted DBG_ABRT_MISSING_FREE_CALLBACK)
                else then_do (hold s (call_free cb (pf_free (ctrl s i)) h (e_type (ctrl s i)) obj tag req s))
                  (\<lambda>(ok, s).
                    if ok then then_do (release_ctrl acb i s) (\<lambda>s. Inr (HR_OK, crit_end s))
                    else Inr (HR_FREE_NOT_ALLOWED, crit_end (set_flags i (fclr H_CTRL_FLAG_FREEING) (crit_start s))))
           else Inr (HR_FREE_NOT_ALLOWED, crit_end s))"

partial_function (option) free_all_loop ::
  "'x free_cb \<Rightarrow> 'x aux_free_cb \<Rightarrow> ptr \<Rightarrow> 'x hlib_scheme \<Rightarrow> (bool \<times> 'x hlib_scheme) result option" where
  "free_all_loop cb acb l s =
    (case get_h_ctrl_from_idx (ui2_head (links s l)) of
       None \<Rightarrow> Some (Inr (True, s))
     | Some i \<Rightarrow>
         if \<not> ftst H_CTRL_FLAG_FREEING (ui1_flags (ctrl s i)) then
           let tag = u_ptr (ctrl s i); obj = pv_obj (ctrl s i);
               s1 = crit_end (set_flags i (fset H_CTRL_FLAG_FREEING) s)
           in if pf_free (ctrl s1 i) = NULL then Some (Inl (Aborted DBG_ABRT_MISSING_FREE_CALLBACK))
              else case hold s1 (call_free cb (pf_free (ctrl s1 i)) (make_handle s1 i) (e_type (ctrl s1 i)) obj tag False s1) of
                Inl e \<Rightarrow> Some (Inl e)
              | Inr r \<Rightarrow>
                  if fst r then case release_ctrl acb i (snd r) of
                      Inl e \<Rightarrow> Some (Inl e)
                    | Inr s2 \<Rightarrow> free_all_loop cb acb l s2
                  else Some (Inr (False, set_flags i (fclr H_CTRL_FLAG_FREEING) (crit_start (snd r))))
         else Some (Inr (False, s)))"

declare free_all_loop.simps [code]

definition u_handle_free_all ::
  "'x free_cb \<Rightarrow> 'x aux_free_cb \<Rightarrow> ptr \<Rightarrow> 'x hlib_scheme \<Rightarrow> (int \<times> 'x hlib_scheme) result" where
  "u_handle_free_all cb acb l s =
    (if \<not> b_init s then Inr (HR_NOT_INIT, s)
     else if l = NULL then Inr (HR_INV_ARG, s)
     else if ftst H_LINK_FLAG_PARSING (hl_flags (links s l)) then Inr (HR_NOT_ALLOWED, s)
     else if ftst H_LINK_FLAG_FREE_ALL (hl_flags (links s l)) then Inr (HR_RECURSION_ERROR, s)
     else let s = crit_start (upd_link l (\<lambda>k. k\<lparr>hl_flags := fset H_LINK_FLAG_FREE_ALL (hl_flags k)\<rparr>) s)
          in then_do (run_loop (free_all_loop cb acb l s))
               (\<lambda>(ok, s). Inr (if ok then HR_OK else HR_FREE_NOT_ALLOWED,
                  upd_link l (\<lambda>k. k\<lparr>hl_flags := fclr H_LINK_FLAG_FREE_ALL (hl_flags k)\<rparr>) (crit_end s))))"

section \<open>Lookups\<close>

text \<open>\<open>pe\<close> and \<open>po\<close> tell whether the out parameters are not \<open>NULL\<close>; what is stored there comes
  back as an option.\<close>

definition handle_get_obj :: "handle \<Rightarrow> bool \<Rightarrow> 'x hlib_scheme \<Rightarrow> int \<times> ptr option \<times> 'x hlib_scheme" where
  "handle_get_obj h po s =
    (if \<not> b_init s then (HR_NOT_INIT, None, s)
     else if \<not> po then (HR_INV_ARG, None, s)
     else let s = crit_start s in
       case get_h_ctrl_from_handle s h of
         Some i \<Rightarrow> (HR_OK, Some (pv_obj (ctrl s i)), crit_end s)
       | None \<Rightarrow> (HR_INV_HANDLE, None, crit_end s))"

definition u_handle_get_type_obj ::
  "handle \<Rightarrow> bool \<Rightarrow> bool \<Rightarrow> 'x hlib_scheme \<Rightarrow> int \<times> (u16 \<times> ptr) option \<times> 'x hlib_scheme" where
  "u_handle_get_type_obj h pe po s =
    (if \<not> b_init s then (HR_NOT_INIT, None, s)
     else if \<not> (pe \<and> po) then (HR_INV_ARG, None, s)
     else let s = crit_start s in
       case get_h_ctrl_from_handle s h of
         Some i \<Rightarrow> (HR_OK, Some (e_type (ctrl s i), pv_obj (ctrl s i)), crit_end s)
       | None \<Rightarrow> (HR_INV_HANDLE, None, crit_end s))"

definition u_handle_set_obj :: "handle \<Rightarrow> ptr \<Rightarrow> 'x hlib_scheme \<Rightarrow> int \<times> 'x hlib_scheme" where
  "u_handle_set_obj h obj s =
    (if \<not> b_init s then (HR_NOT_INIT, s)
     else if obj = NULL then (HR_INV_ARG, s)
     else let s = crit_start s in
       case get_h_ctrl_from_handle s h of
         Some i \<Rightarrow> (HR_OK, crit_end (upd_ctrl i (\<lambda>c. c\<lparr>pv_obj := obj\<rparr>) s))
       | None \<Rightarrow> (HR_INV_HANDLE, crit_end s))"

definition handle_is_be_linked :: "handle \<Rightarrow> 'x hlib_scheme \<Rightarrow> bool \<times> 'x hlib_scheme" where
  "handle_is_be_linked h s =
    (if b_init s then
       let s = crit_start s in
       case get_h_ctrl_from_handle s h of
         Some i \<Rightarrow> (ui2_aux_link_head (ctrl s i) \<noteq> NULL_IDX, crit_end s)
       | None \<Rightarrow> (False, crit_end s)
     else (False, s))"

section \<open>Visiting a list\<close>

text \<open>\<open>DBG_ABRT_INV_PARSE_OP\<close> is raised when the callback took more than one handle off the list.\<close>

partial_function (option) parse_loop ::
  "'x parse_cb \<Rightarrow> ptr \<Rightarrow> fptr \<Rightarrow> ptr \<Rightarrow> u16 option \<Rightarrow> u16 \<Rightarrow> 'x hlib_scheme \<Rightarrow> 'x hlib_scheme result option" where
  "parse_loop pcb l pf data cur idx s =
    (case cur of
       None \<Rightarrow> Some (Inr s)
     | Some i \<Rightarrow>
         let nxt = get_h_ctrl_from_idx (ui2_next (t_h_link (ctrl s i)));
             n = ui2_h_count (links s l);
             s1 = set_flags i (fset H_CTRL_FLAG_PARSING) s
         in case hold s1 (pcb pf idx (ui2_h_count (links s1 l)) (make_handle s1 i) (e_type (ctrl s1 i))
                   (pv_obj (ctrl s1 i)) (u_ptr (ctrl s1 i)) data s1) of
           Inl e \<Rightarrow> Some (Inl e)
         | Inr r \<Rightarrow>
             let s2 = set_flags i (fclr H_CTRL_FLAG_PARSING) (snd r) in
             (case fst r of
               HP_NEXT \<Rightarrow>
                 if ui2_h_count (links s2 l) \<ge> n then parse_loop pcb l pf data nxt (idx + 1) s2
                 else if n - ui2_h_count (links s2 l) = 1 then parse_loop pcb l pf data nxt idx s2
                 else Some (Inl (Aborted DBG_ABRT_INV_PARSE_OP))
             | HP_BREAK \<Rightarrow> Some (Inr s2)
             | HP_RESTART \<Rightarrow> parse_loop pcb l pf data (get_h_ctrl_from_idx (ui2_head (links s2 l))) 0 s2
             | HP_INVALID \<Rightarrow> Some (Inl (Aborted DBG_ABRT_INV_PARSE_RET_VALUE))))"

declare parse_loop.simps [code]

definition handle_parse ::
  "'x parse_cb \<Rightarrow> ptr \<Rightarrow> fptr \<Rightarrow> ptr \<Rightarrow> 'x hlib_scheme \<Rightarrow> (int \<times> 'x hlib_scheme) result" where
  "handle_parse pcb l pf data s =
    (if \<not> b_init s then Inr (HR_NOT_INIT, s)
     else if l = NULL \<or> pf = NULL then Inr (HR_INV_ARG, s)
     else if ftst H_LINK_FLAG_PARSING (hl_flags (links s l)) then Inr (HR_RECURSION_ERROR, s)
     else let s = upd_link l (\<lambda>k. k\<lparr>hl_flags := fset H_LINK_FLAG_PARSING (hl_flags k)\<rparr>) s
          in then_do (run_loop (parse_loop pcb l pf data (get_h_ctrl_from_idx (ui2_head (links s l))) 0 s))
               (\<lambda>s. Inr (HR_OK, upd_link l (\<lambda>k. k\<lparr>hl_flags := fclr H_LINK_FLAG_PARSING (hl_flags k)\<rparr>) s)))"

section \<open>Auxiliary lists\<close>

definition u_handle_alloc_aux_link_head ::
  "(ptr \<Rightarrow> u32 \<Rightarrow> ptr) \<Rightarrow> ptr \<Rightarrow> fptr \<Rightarrow> bool \<Rightarrow> 'x hlib_scheme
    \<Rightarrow> (int \<times> handle option \<times> 'x hlib_scheme) result" where
  "u_handle_alloc_aux_link_head ra obj aux_free ph s =
    then_do (u_handle_alloc ra HT_AUX_LINK_HEAD obj NULL fn_aux_link_head_free ph s)
      (\<lambda>(r, h, s).
        if r = HR_OK then
          let s = crit_start s in
          case (case h of None \<Rightarrow> None | Some h' \<Rightarrow> get_h_ctrl_from_handle s h') of
            None \<Rightarrow> Inl (Aborted DBG_ABRT_ALLOC_AUX_LINK_FAILED)
          | Some a \<Rightarrow> Inr (r, h, crit_end (upd_ctrl a (\<lambda>c. c\<lparr>u_ptr := aux_free\<rparr>) s))
        else Inr (r, h, s))"

definition link_aux_head :: "u16 \<Rightarrow> u16 \<Rightarrow> 'x hlib_scheme \<Rightarrow> 'x hlib_scheme" where
  "link_aux_head a i s0 =
    (let n = ui2_next (t_aux_link (ctrl s0 a));
         s = set_aux_next i n s0;
         s = (if n \<noteq> NULL_IDX then set_aux_prev n i s else s);
         s = set_aux_prev i NULL_IDX s;
         s = set_aux_next a i s;
         s = upd_ctrl i (\<lambda>c. c\<lparr>ui2_aux_link_head := a\<rparr>) s
     in upd_ctrl a (\<lambda>c. c\<lparr>ui2_aux_link_count := ui2_aux_link_count c + 1\<rparr>) s)"

definition u_handle_link_to_aux :: "handle \<Rightarrow> handle \<Rightarrow> 'x hlib_scheme \<Rightarrow> int \<times> 'x hlib_scheme" where
  "u_handle_link_to_aux h_aux h s =
    (if \<not> b_init s then (HR_NOT_INIT, s)
     else let s = crit_start s in
       case get_h_ctrl_from_handle s h_aux of
         None \<Rightarrow> (HR_INV_AUX_HEAD, crit_end s)
       | Some a \<Rightarrow>
           if e_type (ctrl s a) = HT_AUX_LINK_HEAD then
             case get_h_ctrl_from_handle s h of
               None \<Rightarrow> (HR_INV_HANDLE, crit_end s)
             | Some i \<Rightarrow>
                 if e_type (ctrl s i) \<ge> HT_RES_BY_HANDLE_LIB then
                   if ui2_aux_link_head (ctrl s i) = NULL_IDX then (HR_OK, crit_end (link_aux_head a i s))
                   else (HR_ALREADY_LINKED, crit_end s)
                 else (HR_INV_HANDLE, crit_end s)
           else (HR_INV_AUX_HEAD, crit_end s))"

definition u_handle_delink_from_aux :: "'x aux_free_cb \<Rightarrow> handle \<Rightarrow> 'x hlib_scheme \<Rightarrow> (int \<times> 'x hlib_scheme) result" where
  "u_handle_delink_from_aux acb h s =
    (if \<not> b_init s then Inr (HR_NOT_INIT, s)
     else let s = crit_start s in
       case get_h_ctrl_from_handle s h of
         None \<Rightarrow> Inr (HR_INV_HANDLE, crit_end s)
       | Some i \<Rightarrow>
           if e_type (ctrl s i) \<ge> HT_RES_BY_HANDLE_LIB then
             if ui2_aux_link_head (ctrl s i) \<noteq> NULL_IDX
             then then_do (delink_from_aux acb i s) (\<lambda>s. Inr (HR_OK, crit_end s))
             else Inr (HR_NOT_LINKED, crit_end s)
           else Inr (HR_INV_HANDLE, crit_end s))"

definition u_handle_next_aux_linked ::
  "handle \<Rightarrow> bool \<Rightarrow> 'x hlib_scheme \<Rightarrow> int \<times> handle option \<times> 'x hlib_scheme" where
  "u_handle_next_aux_linked h ph s =
    (if \<not> b_init s then (HR_NOT_INIT, None, s)
     else if \<not> ph then (HR_INV_ARG, None, s)
     else let s = crit_start s in
       case get_h_ctrl_from_handle s h of
         None \<Rightarrow> (HR_INV_HANDLE, None, crit_end s)
       | Some i \<Rightarrow>
           let n = ui2_next (t_aux_link (ctrl s i)) in
           (HR_OK, Some (if n \<noteq> NULL_IDX then make_handle s n else NULL_HANDLE), crit_end s))"

definition handle_num_aux_links :: "handle \<Rightarrow> 'x hlib_scheme \<Rightarrow> u16 \<times> 'x hlib_scheme" where
  "handle_num_aux_links h s =
    (if b_init s then
       let s = crit_start s in
       case get_h_ctrl_from_handle s h of
         Some a \<Rightarrow> (if e_type (ctrl s a) = HT_AUX_LINK_HEAD then ui2_aux_link_count (ctrl s a) else 0, crit_end s)
       | None \<Rightarrow> (0, crit_end s)
     else (0, s))"

section \<open>Automatic freeing\<close>

definition u_handle_set_autofree_tbl :: "u16 \<Rightarrow> ptr \<Rightarrow> 'x hlib_scheme \<Rightarrow> int \<times> 'x hlib_scheme" where
  "u_handle_set_autofree_tbl grp tbl s =
    (let g = unat (grp div HT_GROUP_SIZE) in
     if g < HT_NB_GROUPS \<and> tbl \<noteq> NULL
     then (HR_OK, crit_end ((crit_start s)\<lparr>apf_handle_clean_up_functions :=
             (apf_handle_clean_up_functions (crit_start s))(g := tbl)\<rparr>))
     else (HR_INV_ARG, s))"

text \<open>\<open>tbl p i\<close> is entry \<open>i\<close> of the table of functions at address \<open>p\<close>, client memory.  The array
  \<open>apf_handle_clean_up_functions\<close> has \<open>HT_NB_GROUPS\<close> entries; the code does not check the index.\<close>

definition u_handle_autofree ::
  "'x autofree_cb \<Rightarrow> (ptr \<Rightarrow> nat \<Rightarrow> fptr) \<Rightarrow> handle \<Rightarrow> 'x hlib_scheme \<Rightarrow> 'x hlib_scheme result" where
  "u_handle_autofree fcb tbl h s =
    (case u_handle_get_type_obj h True True s of
       (r, out, s) \<Rightarrow>
         if r = HR_OK then
           let ty = (case out of Some (ty, _) \<Rightarrow> ty | None \<Rightarrow> 0); g = unat (ty div HT_GROUP_SIZE) in
           if \<not> g < HT_NB_GROUPS then Inl BadAccess
           else if apf_handle_clean_up_functions s g \<noteq> NULL then
             let f = tbl (apf_handle_clean_up_functions s g) (unat (ty AND (HT_GROUP_SIZE - 1))) in
             if f \<noteq> NULL then
               then_do (fcb f h ty s) (\<lambda>(r, s). if r \<noteq> HR_OK then Inl (Aborted DBG_ABRT_AUTOFREE_FAILED) else Inr s)
             else Inl (Aborted DBG_ABRT_NULL_AUTOFREE_FUNCTION)
           else Inl (Aborted DBG_ABRT_AUTOFREE_NOT_REGISTERED)
         else if r \<noteq> HR_INV_HANDLE then Inl (Aborted DBG_ABRT_AUTOFREE_GET_TYPE_FAILED)
         else Inr s)"

end
