(* ===== verification/HandleBase.thy ===== *)
theory HandleBase
  imports Handle
begin

text \<open>Reading a state of the handle library after an update: the fields of the control blocks as
  functions of the index, with simplification rules for every update the operations make; the
  correspondence between handles and control blocks.\<close>

section \<open>Fields of the control blocks\<close>

definition hnext :: "'x hlib_scheme \<Rightarrow> u16 \<Rightarrow> u16" where
  "hnext s i = ui2_next (t_h_link (ctrl s i))"

definition hprev :: "'x hlib_scheme \<Rightarrow> u16 \<Rightarrow> u16" where
  "hprev s i = ui2_prev (t_h_link (ctrl s i))"

definition anext :: "'x hlib_scheme \<Rightarrow> u16 \<Rightarrow> u16" where
  "anext s i = ui2_next (t_aux_link (ctrl s i))"

definition aprev :: "'x hlib_scheme \<Rightarrow> u16 \<Rightarrow> u16" where
  "aprev s i = ui2_prev (t_aux_link (ctrl s i))"

definition ahead :: "'x hlib_scheme \<Rightarrow> u16 \<Rightarrow> u16" where
  "ahead s i = ui2_aux_link_head (ctrl s i)"

definition acount :: "'x hlib_scheme \<Rightarrow> u16 \<Rightarrow> u16" where
  "acount s i = ui2_aux_link_count (ctrl s i)"

definition hflags :: "'x hlib_scheme \<Rightarrow> u16 \<Rightarrow> u8" where
  "hflags s i = ui1_flags (ctrl s i)"

definition hcount :: "'x hlib_scheme \<Rightarrow> u16 \<Rightarrow> u8" where
  "hcount s i = ui1_count (ctrl s i)"

definition htype :: "'x hlib_scheme \<Rightarrow> u16 \<Rightarrow> u16" where
  "htype s i = e_type (ctrl s i)"

definition active :: "'x hlib_scheme \<Rightarrow> u16 \<Rightarrow> bool" where
  "active s i = ftst H_CTRL_FLAG_ACTIVE (hflags s i)"

definition linked :: "'x hlib_scheme \<Rightarrow> u16 \<Rightarrow> bool" where
  "linked s i = ftst H_CTRL_FLAG_LINKED (hflags s i)"

lemma field_folds [simp]:
  "ui2_next (t_h_link (ctrl s i)) = hnext s i"
  "ui2_prev (t_h_link (ctrl s i)) = hprev s i"
  "ui2_next (t_aux_link (ctrl s i)) = anext s i"
  "ui2_prev (t_aux_link (ctrl s i)) = aprev s i"
  "ui2_aux_link_head (ctrl s i) = ahead s i"
  "ui2_aux_link_count (ctrl s i) = acount s i"
  "ui1_flags (ctrl s i) = hflags s i"
  "ui1_count (ctrl s i) = hcount s i"
  "e_type (ctrl s i) = htype s i"
  by (simp_all add: hnext_def hprev_def anext_def aprev_def ahead_def acount_def hflags_def
      hcount_def htype_def)

lemmas field_defs =
  hnext_def hprev_def anext_def aprev_def ahead_def acount_def hflags_def hcount_def htype_def

section \<open>Updates\<close>

lemma ctrl_upd_ctrl: "ctrl (upd_ctrl i f s) j = (if j = i then f (ctrl s i) else ctrl s j)"
  by (simp add: ctrl_def upd_ctrl_def word_unat_eq_iff)

lemma ctrl_upd_link [simp]: "ctrl (upd_link l f s) = ctrl s"
  by (auto simp: ctrl_def upd_link_def)

lemma ctrl_crit [simp]: "ctrl (crit_start s) = ctrl s" "ctrl (crit_end s) = ctrl s"
  by (auto simp: ctrl_def crit_start_def crit_end_def)

lemma ctrl_global [simp]:
  "ctrl (s\<lparr>b_init := v1\<rparr>) = ctrl s"
  "ctrl (s\<lparr>pv_handle_memory_pool := v2\<rparr>) = ctrl s"
  "ctrl (s\<lparr>pt_h_ctrl_arr := v3\<rparr>) = ctrl s"
  "ctrl (s\<lparr>ui2_free_handles := v4\<rparr>) = ctrl s"
  "ctrl (s\<lparr>ui2_num_total := v5\<rparr>) = ctrl s"
  "ctrl (s\<lparr>ui2_num_free := v6\<rparr>) = ctrl s"
  "ctrl (s\<lparr>ui2_num_peak_used := v7\<rparr>) = ctrl s"
  "ctrl (s\<lparr>ui2_num_used_per_grp := v8\<rparr>) = ctrl s"
  "ctrl (s\<lparr>apf_handle_clean_up_functions := v9\<rparr>) = ctrl s"
  "ctrl (s\<lparr>links := v10\<rparr>) = ctrl s"
  "ctrl (s\<lparr>heap := v11\<rparr>) = ctrl s"
  "ctrl (s\<lparr>crit := v12\<rparr>) = ctrl s"
  by (auto simp: ctrl_def)

text \<open>The selectors follow \<open>ctrl\<close>.\<close>

lemma sel_cong:
  assumes "ctrl s = ctrl s'"
  shows "hnext s = hnext s'" "hprev s = hprev s'" "anext s = anext s'" "aprev s = aprev s'"
    "ahead s = ahead s'" "acount s = acount s'" "hflags s = hflags s'" "hcount s = hcount s'"
    "htype s = htype s'" "active s = active s'" "linked s = linked s'"
  using assms by (auto simp: field_defs active_def linked_def fun_eq_iff simp del: field_folds)

lemmas sel_upd_link [simp] = sel_cong [OF ctrl_upd_link]
lemmas sel_crit [simp] = sel_cong [OF ctrl_crit(1)] sel_cong [OF ctrl_crit(2)]
lemmas sel_global [simp] =
  sel_cong [OF ctrl_global(1)] sel_cong [OF ctrl_global(2)] sel_cong [OF ctrl_global(3)]
  sel_cong [OF ctrl_global(4)] sel_cong [OF ctrl_global(5)] sel_cong [OF ctrl_global(6)]
  sel_cong [OF ctrl_global(7)] sel_cong [OF ctrl_global(8)] sel_cong [OF ctrl_global(9)]
  sel_cong [OF ctrl_global(10)] sel_cong [OF ctrl_global(11)] sel_cong [OF ctrl_global(12)]

lemma sel_set_h_next [simp]:
  "hnext (set_h_next i v s) = (hnext s)(i := v)" "hprev (set_h_next i v s) = hprev s"
  "anext (set_h_next i v s) = anext s" "aprev (set_h_next i v s) = aprev s"
  "ahead (set_h_next i v s) = ahead s" "acount (set_h_next i v s) = acount s"
  "hflags (set_h_next i v s) = hflags s" "hcount (set_h_next i v s) = hcount s"
  "htype (set_h_next i v s) = htype s"
  by (auto simp: fun_eq_iff field_defs set_h_next_def ctrl_upd_ctrl simp del: field_folds)

lemma sel_set_h_prev [simp]:
  "hnext (set_h_prev i v s) = hnext s" "hprev (set_h_prev i v s) = (hprev s)(i := v)"
  "anext (set_h_prev i v s) = anext s" "aprev (set_h_prev i v s) = aprev s"
  "ahead (set_h_prev i v s) = ahead s" "acount (set_h_prev i v s) = acount s"
  "hflags (set_h_prev i v s) = hflags s" "hcount (set_h_prev i v s) = hcount s"
  "htype (set_h_prev i v s) = htype s"
  by (auto simp: fun_eq_iff field_defs set_h_prev_def ctrl_upd_ctrl simp del: field_folds)

lemma sel_set_aux_next [simp]:
  "hnext (set_aux_next i v s) = hnext s" "hprev (set_aux_next i v s) = hprev s"
  "anext (set_aux_next i v s) = (anext s)(i := v)" "aprev (set_aux_next i v s) = aprev s"
  "ahead (set_aux_next i v s) = ahead s" "acount (set_aux_next i v s) = acount s"
  "hflags (set_aux_next i v s) = hflags s" "hcount (set_aux_next i v s) = hcount s"
  "htype (set_aux_next i v s) = htype s"
  by (auto simp: fun_eq_iff field_defs set_aux_next_def ctrl_upd_ctrl simp del: field_folds)

lemma sel_set_aux_prev [simp]:
  "hnext (set_aux_prev i v s) = hnext s" "hprev (set_aux_prev i v s) = hprev s"
  "anext (set_aux_prev i v s) = anext s" "aprev (set_aux_prev i v s) = (aprev s)(i := v)"
  "ahead (set_aux_prev i v s) = ahead s" "acount (set_aux_prev i v s) = acount s"
  "hflags (set_aux_prev i v s) = hflags s" "hcount (set_aux_prev i v s) = hcount s"
  "htype (set_aux_prev i v s) = htype s"
  by (auto simp: fun_eq_iff field_defs set_aux_prev_def ctrl_upd_ctrl simp del: field_folds)

lemma sel_set_flags [simp]:
  "hnext (set_flags i g s) = hnext s" "hprev (set_flags i g s) = hprev s"
  "anext (set_flags i g s) = anext s" "aprev (set_flags i g s) = aprev s"
  "ahead (set_flags i g s) = ahead s" "acount (set_flags i g s) = acount s"
  "hflags (set_flags i g s) = (hflags s)(i := g (hflags s i))" "hcount (set_flags i g s) = hcount s"
  "htype (set_flags i g s) = htype s"
  by (auto simp: fun_eq_iff field_defs set_flags_def ctrl_upd_ctrl simp del: field_folds)

text \<open>An update of one block: each selector changes only if the update touches its field.\<close>

lemma sel_upd_ctrl [simp]:
  "hnext (upd_ctrl i f s) = (hnext s)(i := ui2_next (t_h_link (f (ctrl s i))))"
  "hprev (upd_ctrl i f s) = (hprev s)(i := ui2_prev (t_h_link (f (ctrl s i))))"
  "anext (upd_ctrl i f s) = (anext s)(i := ui2_next (t_aux_link (f (ctrl s i))))"
  "aprev (upd_ctrl i f s) = (aprev s)(i := ui2_prev (t_aux_link (f (ctrl s i))))"
  "ahead (upd_ctrl i f s) = (ahead s)(i := ui2_aux_link_head (f (ctrl s i)))"
  "acount (upd_ctrl i f s) = (acount s)(i := ui2_aux_link_count (f (ctrl s i)))"
  "hflags (upd_ctrl i f s) = (hflags s)(i := ui1_flags (f (ctrl s i)))"
  "hcount (upd_ctrl i f s) = (hcount s)(i := ui1_count (f (ctrl s i)))"
  "htype (upd_ctrl i f s) = (htype s)(i := e_type (f (ctrl s i)))"
  by (auto simp: fun_eq_iff field_defs ctrl_upd_ctrl simp del: field_folds)

text \<open>Updates of control blocks leave the globals and the lists alone.\<close>

lemma upd_ctrl_globals [simp]:
  "b_init (upd_ctrl i f s) = b_init s"
  "pt_h_ctrl_arr (upd_ctrl i f s) = pt_h_ctrl_arr s"
  "ui2_free_handles (upd_ctrl i f s) = ui2_free_handles s"
  "ui2_num_total (upd_ctrl i f s) = ui2_num_total s"
  "ui2_num_free (upd_ctrl i f s) = ui2_num_free s"
  "ui2_num_peak_used (upd_ctrl i f s) = ui2_num_peak_used s"
  "ui2_num_used_per_grp (upd_ctrl i f s) = ui2_num_used_per_grp s"
  "links (upd_ctrl i f s) = links s"
  "heap (upd_ctrl i f s) = heap s"
  "crit (upd_ctrl i f s) = crit s"
  "hlib.more (upd_ctrl i f s) = hlib.more s"
  by (simp_all add: upd_ctrl_def)

lemma upd_link_globals [simp]:
  "b_init (upd_link l g s) = b_init s"
  "pt_h_ctrl_arr (upd_link l g s) = pt_h_ctrl_arr s"
  "ui2_free_handles (upd_link l g s) = ui2_free_handles s"
  "ui2_num_total (upd_link l g s) = ui2_num_total s"
  "ui2_num_free (upd_link l g s) = ui2_num_free s"
  "ui2_num_peak_used (upd_link l g s) = ui2_num_peak_used s"
  "ui2_num_used_per_grp (upd_link l g s) = ui2_num_used_per_grp s"
  "links (upd_link l g s) = (links s)(l := g (links s l))"
  "heap (upd_link l g s) = heap s"
  "crit (upd_link l g s) = crit s"
  "hlib.more (upd_link l g s) = hlib.more s"
  by (simp_all add: upd_link_def)

lemma crit_globals [simp]:
  "b_init (crit_start s) = b_init s" "b_init (crit_end s) = b_init s"
  "pt_h_ctrl_arr (crit_start s) = pt_h_ctrl_arr s" "pt_h_ctrl_arr (crit_end s) = pt_h_ctrl_arr s"
  "ui2_free_handles (crit_start s) = ui2_free_handles s" "ui2_free_handles (crit_end s) = ui2_free_handles s"
  "ui2_num_total (crit_start s) = ui2_num_total s" "ui2_num_total (crit_end s) = ui2_num_total s"
  "ui2_num_free (crit_start s) = ui2_num_free s" "ui2_num_free (crit_end s) = ui2_num_free s"
  "ui2_num_peak_used (crit_start s) = ui2_num_peak_used s" "ui2_num_peak_used (crit_end s) = ui2_num_peak_used s"
  "ui2_num_used_per_grp (crit_start s) = ui2_num_used_per_grp s"
  "ui2_num_used_per_grp (crit_end s) = ui2_num_used_per_grp s"
  "links (crit_start s) = links s" "links (crit_end s) = links s"
  "heap (crit_start s) = heap s" "heap (crit_end s) = heap s"
  "crit (crit_start s) = crit s + 1" "crit (crit_end s) = crit s - 1"
  "hlib.more (crit_start s) = hlib.more s" "hlib.more (crit_end s) = hlib.more s"
  by (simp_all add: crit_start_def crit_end_def)

lemma crit_balanced [simp]: "crit_end (crit_start s) = s"
  by (simp add: crit_start_def crit_end_def)

lemma set_globals [simp]:
  "b_init (set_h_next i v s) = b_init s" "b_init (set_h_prev i v s) = b_init s"
  "b_init (set_aux_next i v s) = b_init s" "b_init (set_aux_prev i v s) = b_init s"
  "b_init (set_flags i g s) = b_init s"
  "pt_h_ctrl_arr (set_h_next i v s) = pt_h_ctrl_arr s" "pt_h_ctrl_arr (set_h_prev i v s) = pt_h_ctrl_arr s"
  "pt_h_ctrl_arr (set_aux_next i v s) = pt_h_ctrl_arr s" "pt_h_ctrl_arr (set_aux_prev i v s) = pt_h_ctrl_arr s"
  "pt_h_ctrl_arr (set_flags i g s) = pt_h_ctrl_arr s"
  "ui2_free_handles (set_h_next i v s) = ui2_free_handles s" "ui2_free_handles (set_h_prev i v s) = ui2_free_handles s"
  "ui2_free_handles (set_aux_next i v s) = ui2_free_handles s" "ui2_free_handles (set_aux_prev i v s) = ui2_free_handles s"
  "ui2_free_handles (set_flags i g s) = ui2_free_handles s"
  "ui2_num_total (set_h_next i v s) = ui2_num_total s" "ui2_num_total (set_h_prev i v s) = ui2_num_total s"
  "ui2_num_total (set_aux_next i v s) = ui2_num_total s" "ui2_num_total (set_aux_prev i v s) = ui2_num_total s"
  "ui2_num_total (set_flags i g s) = ui2_num_total s"
  "ui2_num_free (set_h_next i v s) = ui2_num_free s" "ui2_num_free (set_h_prev i v s) = ui2_num_free s"
  "ui2_num_free (set_aux_next i v s) = ui2_num_free s" "ui2_num_free (set_aux_prev i v s) = ui2_num_free s"
  "ui2_num_free (set_flags i g s) = ui2_num_free s"
  "ui2_num_peak_used (set_h_next i v s) = ui2_num_peak_used s" "ui2_num_peak_used (set_h_prev i v s) = ui2_num_peak_used s"
  "ui2_num_peak_used (set_aux_next i v s) = ui2_num_peak_used s" "ui2_num_peak_used (set_aux_prev i v s) = ui2_num_peak_used s"
  "ui2_num_peak_used (set_flags i g s) = ui2_num_peak_used s"
  "ui2_num_used_per_grp (set_h_next i v s) = ui2_num_used_per_grp s"
  "ui2_num_used_per_grp (set_h_prev i v s) = ui2_num_used_per_grp s"
  "ui2_num_used_per_grp (set_aux_next i v s) = ui2_num_used_per_grp s"
  "ui2_num_used_per_grp (set_aux_prev i v s) = ui2_num_used_per_grp s"
  "ui2_num_used_per_grp (set_flags i g s) = ui2_num_used_per_grp s"
  "links (set_h_next i v s) = links s" "links (set_h_prev i v s) = links s"
  "links (set_aux_next i v s) = links s" "links (set_aux_prev i v s) = links s"
  "links (set_flags i g s) = links s"
  "crit (set_h_next i v s) = crit s" "crit (set_h_prev i v s) = crit s"
  "crit (set_aux_next i v s) = crit s" "crit (set_aux_prev i v s) = crit s"
  "crit (set_flags i g s) = crit s"
  by (simp_all add: set_h_next_def set_h_prev_def set_aux_next_def set_aux_prev_def set_flags_def)

section \<open>Handles and control blocks\<close>

lemma handle_value:
  fixes i :: u16 and c :: u8
  shows "unat ((ucast i AND 0x0000ffff) + push_bit 16 (ucast c) :: u32) = unat i + 65536 * unat c"
proof -
  have i: "unat i < 65536" by (rule unat_bounds)
  have c: "unat c < 256" by (rule unat_bounds)
  have "(0x0000ffff :: u32) = mask 16" by (simp add: mask_eq_exp_minus_1)
  then have "unat (ucast i AND 0x0000ffff :: u32) = take_bit 16 (unat (ucast i :: u32))"
    by (simp only: unsigned_take_bit_eq take_bit_eq_mask [symmetric])
  then have 1: "unat (ucast i AND 0x0000ffff :: u32) = unat i"
    using i by (simp add: unat_ucast_up take_bit_eq_mod)
  have 2: "unat (push_bit 16 (ucast c) :: u32) = 65536 * unat c"
    using c by (simp only: unsigned_push_bit_eq unat_ucast_up) (simp add: take_bit_eq_mod push_bit_eq_mult)
  show ?thesis
    using i c by (simp add: unat_word_ariths 1 2)
qed

lemma make_handle_fields:
  fixes i :: u16 and c :: u8
  defines "h \<equiv> ((ucast i AND 0x0000ffff) + push_bit 16 (ucast c)) :: u32"
  shows "ucast (h AND 0x0000ffff) = i" and "ucast (drop_bit 16 h AND 0x000000ff) = c"
    and "h AND 0xff000000 = 0"
proof -
  have v: "unat h = unat i + 65536 * unat c" unfolding h_def by (rule handle_value)
  have i: "unat i < 65536" by (rule unat_bounds)
  have c: "unat c < 256" by (rule unat_bounds)
  have m16: "(0x0000ffff :: u32) = mask 16" and m8: "(0x000000ff :: u32) = mask 8"
    by (simp_all add: mask_eq_exp_minus_1)
  have "h AND 0x0000ffff = take_bit 16 h" by (simp only: m16 take_bit_eq_mask)
  then show "ucast (h AND 0x0000ffff) = i"
    using i by (simp only: word_unat_eq_iff unsigned_ucast_eq unsigned_take_bit_eq v) (simp add: take_bit_eq_mod)
  have "drop_bit 16 h AND 0x000000ff = take_bit 8 (drop_bit 16 h)" by (simp only: m8 take_bit_eq_mask)
  then show "ucast (drop_bit 16 h AND 0x000000ff) = c"
    using i c by (simp only: word_unat_eq_iff unsigned_ucast_eq unsigned_take_bit_eq unsigned_drop_bit_eq v)
      (simp add: take_bit_eq_mod drop_bit_eq_div)
  have "unat h < 2 ^ 24" using v i c by simp
  then have "take_bit 24 h = h"
    by (simp only: word_unat_eq_iff unsigned_take_bit_eq) (simp add: take_bit_eq_mod)
  then have "h = h AND mask 24" by (simp add: take_bit_eq_mask)
  then have "h AND 0xff000000 = h AND (mask 24 AND 0xff000000)" by (metis and.assoc)
  then show "h AND 0xff000000 = 0" by (simp add: mask_eq_exp_minus_1)
qed


lemma resolve_make_handle:
  assumes "0 < i" "i \<le> ui2_num_total s" "active s i"
  shows "get_h_ctrl_from_handle s (make_handle s i) = Some i"
  using assms
  unfolding get_h_ctrl_from_handle_def make_handle_def active_def
  by (simp only: make_handle_fields Let_def field_folds) simp

lemma get_h_ctrl_SomeD:
  assumes "get_h_ctrl_from_handle s h = Some i"
  shows "0 < i" "i \<le> ui2_num_total s" "active s i" "make_handle s i = h"
proof -
  let ?i = "ucast (h AND 0x0000ffff) :: u16"
  have c: "h AND 0xff000000 = 0" "i = ?i" "0 < i" "i \<le> ui2_num_total s"
    "hcount s i = ucast (drop_bit 16 h AND 0x000000ff)" "active s i"
    using assms by (auto simp: get_h_ctrl_from_handle_def Let_def active_def split: if_splits)
  show "0 < i" "i \<le> ui2_num_total s" "active s i" by (fact c)+
  have u: "unat h < 2 ^ 24"
  proof -
    have "mask 24 OR 0xff000000 = (- 1 :: u32)" by (simp add: mask_eq_exp_minus_1)
    then have "h = h AND (mask 24 OR 0xff000000)" by (metis and.right_neutral)
    also have "\<dots> = h AND mask 24" by (simp add: bit.conj_disj_distrib c(1))
    finally have "h = take_bit 24 h" by (simp add: take_bit_eq_mask)
    then have "unat h = take_bit 24 (unat h)" by (metis unsigned_take_bit_eq)
    then show ?thesis by (metis take_bit_nat_less_exp)
  qed
  have m16: "(0x0000ffff :: u32) = mask 16" and m8: "(0x000000ff :: u32) = mask 8"
    by (simp_all add: mask_eq_exp_minus_1)
  have ui: "unat i = unat h mod 65536"
    unfolding c(2) m16 by (simp only: take_bit_eq_mask [symmetric] unsigned_ucast_eq unsigned_take_bit_eq)
      (simp add: take_bit_eq_mod)
  have uc: "unat (hcount s i) = unat h div 65536"
    unfolding c(5) m8 using u
    by (simp only: take_bit_eq_mask [symmetric] unsigned_ucast_eq unsigned_take_bit_eq unsigned_drop_bit_eq)
      (simp add: take_bit_eq_mod drop_bit_eq_div)
  have "unat (make_handle s i) = unat h"
    unfolding make_handle_def field_folds handle_value ui uc by simp
  then show "make_handle s i = h" by (simp add: word_unat_eq_iff)
qed

lemma get_h_ctrl_eq_Some:
  "get_h_ctrl_from_handle s h = Some i \<longleftrightarrow>
    0 < i \<and> i \<le> ui2_num_total s \<and> active s i \<and> make_handle s i = h"
  using get_h_ctrl_SomeD [of s h i] resolve_make_handle [of i s] by auto

text \<open>A handle is determined by the index and the count of its block, and determines them.\<close>

lemma make_handle_inject:
  "make_handle s i = make_handle s' j \<longleftrightarrow> i = j \<and> hcount s i = hcount s' j"
proof
  assume e: "make_handle s i = make_handle s' j"
  then show "i = j \<and> hcount s i = hcount s' j"
    using make_handle_fields(1,2) [of i "hcount s i"] make_handle_fields(1,2) [of j "hcount s' j"]
    by (simp add: make_handle_def)
next
  assume "i = j \<and> hcount s i = hcount s' j"
  then show "make_handle s i = make_handle s' j" unfolding make_handle_def field_folds by (elim conjE) (simp only:)
qed

lemma make_handle_cong: "hcount s i = hcount s' i \<Longrightarrow> make_handle s i = make_handle s' i"
  by (simp add: make_handle_inject)

text \<open>Resolving depends on the counts, the flags and the total only.\<close>

lemma get_h_ctrl_cong:
  assumes "hcount s = hcount s'" "active s = active s'" "ui2_num_total s = ui2_num_total s'"
  shows "get_h_ctrl_from_handle s h = get_h_ctrl_from_handle s' h"
  using assms
  by (simp add: get_h_ctrl_from_handle_def Let_def active_def [symmetric])

lemma get_h_ctrl_crit [simp]:
  "get_h_ctrl_from_handle (crit_start s) h = get_h_ctrl_from_handle s h"
  "get_h_ctrl_from_handle (crit_end s) h = get_h_ctrl_from_handle s h"
  by (auto intro: get_h_ctrl_cong)

lemma make_handle_crit [simp]:
  "make_handle (crit_start s) i = make_handle s i" "make_handle (crit_end s) i = make_handle s i"
  by (auto intro: make_handle_cong)

lemma get_h_ctrl_from_idx_simps [simp]:
  "get_h_ctrl_from_idx i = None \<longleftrightarrow> i = 0" "get_h_ctrl_from_idx i = Some j \<longleftrightarrow> i = j \<and> i \<noteq> 0"
  by (auto simp: get_h_ctrl_from_idx_def)

end
