(* ===== verification/HandlePool.thy ===== *)
theory HandlePool
  imports HandleBase
begin

text \<open>The pool of control blocks: initialisation, growth by \<open>realloc\<close>, allocation and freeing.

  \<open>pool_ok s fs\<close> says that \<open>fs\<close> is the free list threaded through the link fields, that it holds
  exactly the inactive blocks, once each, and that the counter agrees.  \<open>habs s\<close> is what
  the library promises its clients: a finite map from handles to type and object.\<close>

definition pool_ok :: "'x hlib_scheme \<Rightarrow> u16 list \<Rightarrow> bool" where
  "pool_ok s fs \<longleftrightarrow>
    path (hnext s) (ui2_free_handles s) fs 0 \<and> distinct fs \<and>
    set fs = {i. 0 < i \<and> i \<le> ui2_num_total s \<and> \<not> active s i} \<and>
    ui2_num_free s = of_nat (length fs)"

definition habs :: "'x hlib_scheme \<Rightarrow> handle \<rightharpoonup> u16 \<times> ptr" where
  "habs s h = map_option (\<lambda>i. (htype s i, pv_obj (ctrl s i))) (get_h_ctrl_from_handle s h)"

lemma pool_ok_not_active: "pool_ok s fs \<Longrightarrow> i \<in> set fs \<Longrightarrow> \<not> active s i \<and> 0 < i \<and> i \<le> ui2_num_total s"
  by (auto simp: pool_ok_def)

lemma pool_ok_length:
  assumes "pool_ok s fs"
  shows "length fs \<le> unat (ui2_num_total s)" and "unat (ui2_num_free s) = length fs"
proof -
  let ?t = "unat (ui2_num_total s)"
  have "unat ` set fs \<subseteq> {1..?t}"
    using assms by (auto simp: pool_ok_def word_le_nat_alt word_less_nat_alt)
  then have "card (unat ` set fs) \<le> ?t"
    using card_mono [of "{1..?t}" "unat ` set fs"] by simp
  moreover have "card (unat ` set fs) = length fs"
    using assms distinct_card [of fs]
    by (simp add: pool_ok_def card_image inj_on_def word_unat_eq_iff [symmetric])
  ultimately show "length fs \<le> ?t" by simp
  then have "length fs < 65536" using unat_bounds(2) [of "ui2_num_total s"] by simp
  then show "unat (ui2_num_free s) = length fs"
    using assms by (simp add: pool_ok_def unat_u16_of_nat)
qed

text \<open>The pool depends on the free list, the flags and three counters.\<close>

lemma pool_ok_cong:
  assumes "pool_ok s fs"
    and "\<And>i. i \<in> set fs \<Longrightarrow> hnext s' i = hnext s i" "active s' = active s"
    and "ui2_free_handles s' = ui2_free_handles s" "ui2_num_total s' = ui2_num_total s"
      "ui2_num_free s' = ui2_num_free s"
  shows "pool_ok s' fs"
  using assms path_cong [of fs "hnext s'" "hnext s"] by (simp add: pool_ok_def)

section \<open>The initialisation loop\<close>

lemma ctrl_init_slot:
  assumes "unat idx + 1 < 65536"
  shows "ctrl (init_slot idx s) j = (if j = idx + 1 then fresh_ctrl (ui2_free_handles s) else ctrl s j)"
proof -
  have "unat (idx + 1) = unat idx + 1"
    using assms by (simp add: unat_word_ariths)
  then show ?thesis
    using assms by (auto simp: ctrl_def init_slot_def word_unat_eq_iff)
qed

text \<open>\<open>slots lo hi\<close> are the indices above \<open>lo\<close> up to \<open>hi\<close>, in the order in which the loop leaves
  them in the free list.\<close>

definition slots :: "nat \<Rightarrow> nat \<Rightarrow> u16 list" where
  "slots lo hi = map of_nat (rev [lo + 1..<hi + 1])"

lemma set_slots:
  assumes "hi < 65536"
  shows "set (slots lo hi) = {i. lo < unat i \<and> unat i \<le> hi}"
proof -
  have "\<And>i :: u16. lo < unat i \<Longrightarrow> unat i \<le> hi \<Longrightarrow> i \<in> of_nat ` {lo + 1..<hi + 1}"
    by (rule_tac x = "unat i" in image_eqI) simp_all
  then show ?thesis
    using assms by (auto simp: slots_def unat_u16_of_nat simp del: upt_Suc)
qed

lemma slots_props: "hi < 65536 \<Longrightarrow> distinct (slots lo hi)" "length (slots lo hi) = hi - lo"
  by (auto simp: slots_def distinct_map inj_on_def dest: arg_cong [where f = unat] simp: unat_u16_of_nat)

lemma slots_Suc: "lo < hi \<Longrightarrow> slots lo hi = slots (Suc lo) hi @ [of_nat (Suc lo)]"
  by (simp add: slots_def upt_conv_Cons del: upt_Suc)

text \<open>What the loop leaves alone, and what the blocks it initialises look like.\<close>

definition grown :: "nat \<Rightarrow> nat \<Rightarrow> 'x hlib_scheme \<Rightarrow> 'x hlib_scheme \<Rightarrow> bool" where
  "grown lo hi s s' \<longleftrightarrow>
    (\<forall>j. unat j \<le> lo \<or> hi < unat j \<longrightarrow> ctrl s' j = ctrl s j) \<and>
    (\<forall>j. lo < unat j \<and> unat j \<le> hi \<longrightarrow> (\<exists>n. ctrl s' j = fresh_ctrl n)) \<and>
    b_init s' = b_init s \<and> pt_h_ctrl_arr s' = pt_h_ctrl_arr s \<and> ui2_num_total s' = ui2_num_total s \<and>
    ui2_num_peak_used s' = ui2_num_peak_used s \<and> ui2_num_used_per_grp s' = ui2_num_used_per_grp s \<and>
    links s' = links s \<and> heap s' = heap s \<and> crit s' = crit s \<and>
    ui2_num_free s' = ui2_num_free s + of_nat (hi - lo) \<and> hlib.more s' = hlib.more s"

lemma init_loop_grows:
  assumes "lo = unat idx" "lo \<le> hi" "hi < 65536"
    and "path (hnext s) (ui2_free_handles s) fs 0" "\<forall>j\<in>set fs. unat j \<le> lo"
  shows "\<exists>s'. init_loop (int hi) idx s = Some s' \<and> grown lo hi s s' \<and>
    path (hnext s') (ui2_free_handles s') (slots lo hi @ fs) 0"
  using assms
proof (induction "hi - lo" arbitrary: lo idx s fs)
  case 0
  then show ?case
    by (auto simp: init_loop.simps grown_def slots_def intro!: exI [of _ s])
next
  case (Suc n)
  then have lt: "lo < hi" and lt': "int (unat idx) < int hi" by (auto simp only: of_nat_less_iff)
  let ?s = "init_slot idx s"
  have idx: "unat (idx + 1) = Suc lo"
    using lt Suc.prems by (simp add: unat_word_ariths)
  have c: "ctrl ?s j = (if j = idx + 1 then fresh_ctrl (ui2_free_handles s) else ctrl s j)" for j
    using lt Suc.prems by (simp add: ctrl_init_slot)
  have fresh: "idx + 1 \<notin> set fs" using Suc.prems(5) idx by auto
  have hn: "hnext ?s = (hnext s)(idx + 1 := ui2_free_handles s)"
    by (rule ext) (simp add: hnext_def c fresh_ctrl_def del: field_folds)
  have g: "ui2_free_handles ?s = idx + 1" by (simp add: init_slot_def)
  have pf: "path (hnext ?s) (ui2_free_handles s) fs 0"
    using Suc.prems(4) fresh by (simp add: hn path_frame)
  have "path (hnext ?s) (ui2_free_handles ?s) ((idx + 1) # fs) 0"
    using pf by (simp add: g hn)
  moreover have "\<forall>j\<in>set ((idx + 1) # fs). unat j \<le> Suc lo"
    using idx Suc.prems(5) by fastforce
  moreover have "n = hi - Suc lo" "Suc lo \<le> hi" using Suc.hyps(2) lt by simp_all
  ultimately have "\<exists>s'. init_loop (int hi) (idx + 1) ?s = Some s' \<and> grown (Suc lo) hi ?s s' \<and>
      path (hnext s') (ui2_free_handles s') (slots (Suc lo) hi @ (idx + 1) # fs) 0"
    using Suc.hyps(1) [OF _ idx [symmetric] _ Suc.prems(3)] by blast
  then obtain s' where s': "init_loop (int hi) (idx + 1) ?s = Some s'"
    "grown (Suc lo) hi ?s s'" "path (hnext s') (ui2_free_handles s') (slots (Suc lo) hi @ (idx + 1) # fs) 0"
    by blast
  have i1: "idx + 1 = of_nat (Suc lo)"
    using idx lt Suc.prems(3) by (simp only: word_unat_eq_iff unat_u16_of_nat)
  have "grown lo hi s s'"
    unfolding grown_def
  proof (intro conjI allI impI)
    fix j :: u16
    assume "unat j \<le> lo \<or> hi < unat j"
    then have "ctrl s' j = ctrl ?s j" "j \<noteq> idx + 1"
      using s'(2) lt idx by (auto simp: grown_def)
    then show "ctrl s' j = ctrl s j" by (simp add: c)
  next
    fix j :: u16
    assume j: "lo < unat j \<and> unat j \<le> hi"
    show "\<exists>n. ctrl s' j = fresh_ctrl n"
    proof (cases "j = idx + 1")
      case True
      then have "ctrl s' j = ctrl ?s j" using s'(2) idx by (auto simp: grown_def)
      then show ?thesis using True c by auto
    next
      case False
      then have "Suc lo < unat j" using j idx by (metis Suc_lessI word_unat_eq_iff)
      then show ?thesis using s'(2) j by (auto simp: grown_def)
    qed
  next
    have "hi - lo = Suc (hi - Suc lo)" using lt by simp
    then show "ui2_num_free s' = ui2_num_free s + of_nat (hi - lo)"
      using s'(2) by (simp add: grown_def init_slot_def)
  qed (use s'(2) in \<open>auto simp: grown_def init_slot_def\<close>)
  moreover have "init_loop (int hi) idx s = Some s'"
    using s'(1) lt' by (subst init_loop.simps) simp
  moreover have "path (hnext s') (ui2_free_handles s') (slots lo hi @ fs) 0"
    using s'(3) lt by (simp add: slots_Suc i1)
  ultimately show ?case by blast
qed

lemma grown_selectors:
  assumes "grown lo hi s s'"
  shows "unat j \<le> lo \<Longrightarrow> ctrl s' j = ctrl s j"
    and "lo < unat j \<Longrightarrow> unat j \<le> hi \<Longrightarrow> hflags s' j = 0"
    and "lo < unat j \<Longrightarrow> unat j \<le> hi \<Longrightarrow> \<not> active s' j"
    and "lo < unat j \<Longrightarrow> unat j \<le> hi \<Longrightarrow> ahead s' j = 0"
  using assms
  by (auto simp: grown_def hflags_def active_def ahead_def fresh_ctrl_def flag_simps simp del: field_folds)

section \<open>Initialisation\<close>

text \<open>The counters the library keeps: handles in use per group, and the most ever in use.\<close>

definition used_in_group :: "'x hlib_scheme \<Rightarrow> nat \<Rightarrow> u16 set" where
  "used_in_group s g =
    {i. 0 < i \<and> i \<le> ui2_num_total s \<and> active s i \<and> unat (htype s i div HT_GROUP_SIZE) = g}"

definition stats_ok :: "'x hlib_scheme \<Rightarrow> bool" where
  "stats_ok s \<longleftrightarrow>
    (\<forall>g<HT_NB_GROUPS. ui2_num_used_per_grp s g = of_nat (card (used_in_group s g))) \<and>
    unat (ui2_num_total s) \<le> unat (ui2_num_free s) + unat (ui2_num_peak_used s)"

text \<open>A library with nothing allocated.\<close>

definition no_handles :: "'x hlib_scheme \<Rightarrow> bool" where
  "no_handles s \<longleftrightarrow> (\<forall>i. 0 < i \<longrightarrow> i \<le> ui2_num_total s \<longrightarrow> hflags s i = 0 \<and> ahead s i = 0)"

lemma no_handles_habs: "no_handles s \<Longrightarrow> habs s = Map.empty"
  by (auto simp: habs_def no_handles_def get_h_ctrl_from_handle_def Let_def flag_simps fun_eq_iff
      split: option.splits if_splits)

lemma init_state_ok:
  assumes "grown 0 (unat nh) s0 s" "path (hnext s) (ui2_free_handles s) (slots 0 (unat nh) @ []) 0"
    and "ui2_num_total s0 = nh" "ui2_num_free s0 = 0" "ui2_num_peak_used s0 = 0"
      "\<forall>g<HT_NB_GROUPS. ui2_num_used_per_grp s0 g = 0"
  shows "pool_ok s (slots 0 (unat nh))" "stats_ok s" "no_handles s"
proof -
  have b: "unat nh < 65536" by (rule unat_bounds)
  have t: "ui2_num_total s = nh" using assms(1,3) by (simp add: grown_def)
  have na: "\<not> active s i" "hflags s i = 0" "ahead s i = 0" if "0 < i" "i \<le> nh" for i
    using grown_selectors [OF assms(1), of i] that
    by (simp_all add: word_less_nat_alt word_le_nat_alt)
  have f: "ui2_num_free s = nh"
    using assms(1,4) by (simp add: grown_def)
  show "pool_ok s (slots 0 (unat nh))"
    using assms(2) b t f na(1)
    by (auto simp: pool_ok_def set_slots slots_props word_less_nat_alt word_le_nat_alt)
  have "used_in_group s g = {}" for g
    using na(1) t by (auto simp: used_in_group_def)
  then show "stats_ok s"
    using assms(1,5,6) t f by (auto simp: stats_ok_def grown_def)
  show "no_handles s" using na t by (auto simp: no_handles_def)
qed

lemma run_init_loop_Some: "init_loop b i s = Some s' \<Longrightarrow> run_init_loop b i s = Inr s'"
  by (simp add: run_init_loop_def)

lemma handle_init_cases:
  assumes "\<not> b_init s" "0 < nh" "nh < MAX_NUM_HANDLES" "addr \<noteq> 0" "z \<noteq> 0"
    and "sizeof_H_CTRL_T * (ucast nh + 1) < z - addr mod 4"
  obtains s' addr' z' where
    "handle_init nh (Some addr) (Some z) s = Inr (HR_OK, Some addr', Some z', s')"
    "pool_ok s' (slots 0 (unat nh))" "stats_ok s'" "no_handles s'" "b_init s'"
    "ui2_num_total s' = nh" "links s' = links s" "crit s' = crit s"
    "pt_h_ctrl_arr s' = unat (addr + addr mod 4)" "heap s' = heap s"
proof -
  let ?s = "s\<lparr>pt_h_ctrl_arr := unat (addr + addr mod 4), ui2_num_total := nh, ui2_num_free := 0,
    ui2_num_peak_used := 0, ui2_num_used_per_grp := (ui2_num_used_per_grp s)(0 := 0, 1 := 0),
    ui2_free_handles := NULL_IDX\<rparr>"
  obtain s' where s': "init_loop (int (unat nh)) 0 ?s = Some s'" "grown 0 (unat nh) ?s s'"
    "path (hnext s') (ui2_free_handles s') (slots 0 (unat nh) @ []) 0"
    using init_loop_grows [of 0 0 "unat nh" ?s "[]"] unat_bounds(2) [of nh] by auto
  have g: "\<forall>g<HT_NB_GROUPS. ui2_num_used_per_grp ?s g = 0"
    by (auto simp: less_2_cases_iff)
  note ok = init_state_ok [OF s'(2) s'(3) _ _ _ g]
  show thesis
  proof (rule that [of "addr + addr mod 4 + sizeof_H_CTRL_T * (ucast nh + 1)"
        "z - addr mod 4 - sizeof_H_CTRL_T * (ucast nh + 1)" "s'\<lparr>b_init := True\<rparr>"])
    show "handle_init nh (Some addr) (Some z) s = Inr (HR_OK,
        Some (addr + addr mod 4 + sizeof_H_CTRL_T * (ucast nh + 1)),
        Some (z - addr mod 4 - sizeof_H_CTRL_T * (ucast nh + 1)), s'\<lparr>b_init := True\<rparr>)"
      unfolding handle_init_def using assms run_init_loop_Some [OF s'(1)]
      by (simp only: Let_def if_True if_False simp_thms prod.case option.case then_do_simps)
    show "pool_ok (s'\<lparr>b_init := True\<rparr>) (slots 0 (unat nh))"
      by (rule pool_ok_cong [OF ok(1)]) simp_all
    show "stats_ok (s'\<lparr>b_init := True\<rparr>)" "no_handles (s'\<lparr>b_init := True\<rparr>)"
      using ok(2,3) by (simp_all add: stats_ok_def used_in_group_def no_handles_def)
  qed (use s'(2) in \<open>simp_all add: grown_def\<close>)
qed

section \<open>Growth\<close>

text \<open>While the total stays within 16 bits, \<open>realloc_handle\<close> puts the new blocks before the old free list.\<close>

definition pool_but :: "u16 set \<Rightarrow> 'x hlib_scheme \<Rightarrow> u16 list \<Rightarrow> bool" where
  "pool_but X s fs \<longleftrightarrow>
    path (hnext s) (ui2_free_handles s) fs 0 \<and> distinct fs \<and>
    set fs = {i. 0 < i \<and> i \<le> ui2_num_total s \<and> \<not> active s i} - X \<and>
    ui2_num_free s = of_nat (length fs)"

lemma pool_but_empty [simp]: "pool_but {} s fs = pool_ok s fs"
  by (simp add: pool_but_def pool_ok_def)

lemma realloc_z_len:
  "sizeof_H_CTRL_T * (ucast HANDLE_REALLOC_NUM + 1)
    < sizeof_H_CTRL_T * (ucast (t :: u16) + ucast HANDLE_REALLOC_NUM + 5)"
  "sizeof_H_CTRL_T * (ucast t + ucast HANDLE_REALLOC_NUM + 5) \<noteq> 0"
proof -
  have t: "unat t < 65536" by (rule unat_bounds)
  have "unat (28 * (ucast t + 1005) :: u32) = 28 * (unat t + 1005)"
    using t by (simp add: unat_word_ariths unat_ucast_up)
  then show "sizeof_H_CTRL_T * (ucast HANDLE_REALLOC_NUM + 1)
      < sizeof_H_CTRL_T * (ucast (t :: u16) + ucast HANDLE_REALLOC_NUM + 5)"
    "sizeof_H_CTRL_T * (ucast t + ucast HANDLE_REALLOC_NUM + 5) \<noteq> 0"
    by (simp_all add: sizeof_H_CTRL_T_def word_less_nat_alt word_unat_eq_iff add.assoc)
qed

lemma realloc_handle_grows:
  assumes ok: "pool_but X s fs" and t: "unat (ui2_num_total s) + 1000 < 65536"
    and X: "\<And>x. x \<in> X \<Longrightarrow> x \<le> ui2_num_total s"
    and ra: "\<And>z. ra (pt_h_ctrl_arr s) z \<noteq> NULL"
  obtains s' where "realloc_handle ra HANDLE_REALLOC_NUM s = Inr (HR_OK, s')"
    "pool_but X s' (slots (unat (ui2_num_total s)) (unat (ui2_num_total s) + 1000) @ fs)"
    "ui2_num_total s' = ui2_num_total s + 1000" "ui2_num_free s' = ui2_num_free s + 1000"
    "\<And>i. i \<le> ui2_num_total s \<Longrightarrow> ctrl s' i = ctrl s i"
    "\<And>i. ui2_num_total s < i \<Longrightarrow> i \<le> ui2_num_total s + 1000 \<Longrightarrow> hflags s' i = 0 \<and> ahead s' i = 0"
    "links s' = links s" "crit s' = crit s" "b_init s'" "ui2_num_peak_used s' = ui2_num_peak_used s"
    "ui2_num_used_per_grp s' = ui2_num_used_per_grp s"
proof -
  let ?t = "ui2_num_total s"
  let ?z = "sizeof_H_CTRL_T * (ucast ?t + ucast HANDLE_REALLOC_NUM + 5)"
  let ?p = "ra (pt_h_ctrl_arr s) ?z"
  let ?s = "s\<lparr>heap := (if ?p = NULL then heap s else insert ?p (heap s - {pt_h_ctrl_arr s})),
    pt_h_ctrl_arr := ?p, pv_handle_memory_pool := ?p\<rparr>"
  have "path (hnext ?s) (ui2_free_handles ?s) fs 0" "\<forall>j\<in>set fs. unat j \<le> unat ?t"
    using ok by (auto simp: pool_but_def word_le_nat_alt)
  then obtain s1 where s1: "init_loop (int (unat ?t + 1000)) ?t ?s = Some s1"
    "grown (unat ?t) (unat ?t + 1000) ?s s1"
    "path (hnext s1) (ui2_free_handles s1) (slots (unat ?t) (unat ?t + 1000) @ fs) 0"
    using init_loop_grows [OF refl _ t, where idx = ?t and s = ?s and fs = fs] by force
  have e: "int (unat ?t + 1000) = int (unat ?t) + int (unat HANDLE_REALLOC_NUM)" by simp
  let ?s' = "s1\<lparr>ui2_num_total := ui2_num_total s1 + HANDLE_REALLOC_NUM, b_init := True\<rparr>"
  have ut: "unat (?t + 1000) = unat ?t + 1000" using t by (simp add: unat_word_ariths)
  have old: "ctrl ?s' i = ctrl s i" if "i \<le> ?t" for i
    using grown_selectors(1) [OF s1(2), of i] that by (simp add: word_le_nat_alt)
  have new: "hflags ?s' i = 0" "ahead ?s' i = 0" if "?t < i" "i \<le> ?t + 1000" for i
    using grown_selectors(2,4) [OF s1(2), of i] that by (simp_all add: word_le_nat_alt word_less_nat_alt ut)
  have na: "active ?s' i = active s i" if "i \<le> ?t" for i
    using old [OF that] by (simp add: active_def hflags_def del: field_folds)
  have na': "\<not> active ?s' i" if "?t < i" "i \<le> ?t + 1000" for i
    using new [OF that] by (simp add: active_def flag_simps)
  have g: "ui2_num_total s1 = ?t" "ui2_num_free s1 = ui2_num_free s + 1000"
    using s1(2) by (simp_all add: grown_def)
  have lt: "?t \<le> ?t + 1000" by (simp add: word_le_nat_alt ut)
  have ss: "set (slots (unat ?t) (unat ?t + 1000)) = {i. ?t < i \<and> i \<le> ?t + 1000}"
    using set_slots [OF t, of "unat ?t"] by (simp add: word_less_nat_alt word_le_nat_alt ut)
  show thesis
  proof (rule that [of ?s'])
    show "realloc_handle ra HANDLE_REALLOC_NUM s = Inr (HR_OK, ?s')"
      unfolding realloc_handle_def realloc_handle_init_def Let_def
      using ra [of ?z] realloc_z_len [of ?t] run_init_loop_Some [OF s1(1)[unfolded e]] by simp
    have "set fs = {i. 0 < i \<and> i \<le> ?t \<and> \<not> active s i} - X" "distinct fs" "ui2_num_free s = of_nat (length fs)"
      using ok by (simp_all add: pool_but_def)
    moreover have "\<And>x. x \<in> X \<Longrightarrow> \<not> ?t < x" using X by (simp add: not_less)
    ultimately show "pool_but X ?s' (slots (unat ?t) (unat ?t + 1000) @ fs)"
      unfolding pool_but_def using s1(3) slots_props(1) [OF t] slots_props(2) g ss na na' lt
      by (auto simp: word_less_nat_alt word_le_nat_alt simp del: path_append)
    show "ctrl ?s' i = ctrl s i" if "i \<le> ?t" for i by (rule old [OF that])
    show "hflags ?s' i = 0 \<and> ahead ?s' i = 0" if "?t < i" "i \<le> ?t + 1000" for i
      using new [OF that] by simp
  qed (use s1(2) in \<open>simp_all add: grown_def\<close>)
qed

section \<open>Allocation\<close>

text \<open>When a handle can be had: the free list will not run low, or \<open>realloc\<close> succeeds and the new total
  fits in 16 bits.\<close>

definition can_alloc :: "(ptr \<Rightarrow> u32 \<Rightarrow> ptr) \<Rightarrow> 'x hlib_scheme \<Rightarrow> bool" where
  "can_alloc ra s \<longleftrightarrow> ui2_num_free s > 11 \<or>
    (ui2_num_total s \<le> 64535 \<and> (\<forall>z. ra (pt_h_ctrl_arr s) z \<noteq> NULL))"

lemma count_used_sel [simp]:
  "ctrl (count_used ty s) = ctrl s" "ctrl (count_peak s) = ctrl s"
  "ui2_num_total (count_used ty s) = ui2_num_total s" "ui2_num_total (count_peak s) = ui2_num_total s"
  "ui2_num_free (count_used ty s) = ui2_num_free s" "ui2_num_free (count_peak s) = ui2_num_free s"
  "ui2_free_handles (count_used ty s) = ui2_free_handles s" "ui2_free_handles (count_peak s) = ui2_free_handles s"
  "links (count_used ty s) = links s" "links (count_peak s) = links s"
  "crit (count_used ty s) = crit s" "crit (count_peak s) = crit s"
  "b_init (count_used ty s) = b_init s" "b_init (count_peak s) = b_init s"
  "ui2_num_peak_used (count_used ty s) = ui2_num_peak_used s"
  "ui2_num_used_per_grp (count_peak s) = ui2_num_used_per_grp s"
  by (simp_all add: count_used_def count_peak_def Let_def)

lemmas sel_count_used [simp] =
  sel_cong [OF count_used_sel(1)] sel_cong [OF count_used_sel(2)]

lemma sel_fill_ctrl [simp]:
  "t_h_link (fill_ctrl ty obj tag fre c) = \<lparr>ui2_next = 0, ui2_prev = 0\<rparr>"
  "t_aux_link (fill_ctrl ty obj tag fre c) = \<lparr>ui2_next = 0, ui2_prev = 0\<rparr>"
  "ui2_aux_link_head (fill_ctrl ty obj tag fre c) = 0"
  "ui2_aux_link_count (fill_ctrl ty obj tag fre c) = 0"
  "ui1_flags (fill_ctrl ty obj tag fre c) = 1"
  "ui1_count (fill_ctrl ty obj tag fre c) = ui1_count c + 1"
  "e_type (fill_ctrl ty obj tag fre c) = ty"
  "pv_obj (fill_ctrl ty obj tag fre c) = obj"
  "u_ptr (fill_ctrl ty obj tag fre c) = tag"
  "pf_free (fill_ctrl ty obj tag fre c) = fre"
  by (simp_all add: fill_ctrl_def)

lemma peak_after:
  assumes "ui2_num_free s \<le> ui2_num_total s"
  shows "unat (ui2_num_total s) \<le> unat (ui2_num_free s) + unat (ui2_num_peak_used (count_peak s))"
  using assms
  by (auto simp: count_peak_def word_le_nat_alt word_less_nat_alt unat_sub)

text \<open>Selecting a block and filling it, given the state after the block has been taken off the free list.\<close>

lemma take_block:
  fixes ty :: u16 and obj tag fre :: nat
  assumes ok: "pool_but {i} s fs" and i: "0 < i" "i \<le> ui2_num_total s" "\<not> active s i"
    and st: "\<forall>g<HT_NB_GROUPS. ui2_num_used_per_grp s g = of_nat (card (used_in_group s g))"
  defines "s' \<equiv> upd_ctrl i (fill_ctrl ty obj tag fre) (crit_end (count_peak (count_used ty s)))"
  shows "pool_ok s' fs" "stats_ok s'"
proof -
  have a: "active s' = (active s)(i := True)"
    by (auto simp: fun_eq_iff s'_def active_def ftst_def)
  have t: "ui2_num_total s' = ui2_num_total s" by (simp add: s'_def)
  have ni: "i \<notin> set fs" using ok by (auto simp: pool_but_def)
  show p: "pool_ok s' fs"
    using ok ni i a by (auto simp: pool_but_def pool_ok_def t s'_def path_frame)
  have u: "used_in_group s' g =
      (if g = unat (ty div HT_GROUP_SIZE) then insert i (used_in_group s g) else used_in_group s g)" for g
    using i by (auto simp: used_in_group_def a t) (auto simp: s'_def)
  have c: "card (used_in_group s' g) =
      (if g = unat (ty div HT_GROUP_SIZE) then Suc (card (used_in_group s g)) else card (used_in_group s g))" for g
    using i by (auto simp: u card_insert_if) (auto simp: used_in_group_def)
  have le: "ui2_num_free s \<le> ui2_num_total s"
    using pool_ok_length [OF p] by (simp add: word_le_nat_alt t) (simp add: s'_def)
  have "unat (ui2_num_total s') \<le> unat (ui2_num_free s') + unat (ui2_num_peak_used s')"
    using peak_after [of "count_used ty s"] le by (simp add: s'_def)
  then show "stats_ok s'"
    using st by (auto simp: stats_ok_def c) (auto simp: s'_def count_used_def Let_def)
qed

lemma u_handle_alloc_cases:
  assumes ok: "pool_ok s (i # fs)" and st: "stats_ok s" and b: "b_init s" and ra: "can_alloc ra s"
    and arg: "fre \<noteq> NULL" "ty \<noteq> INV_HANDLE_TYPE"
  obtains s' new where
    "u_handle_alloc ra ty obj tag fre True s = Inr (HR_OK, Some (make_handle s' i), s')"
    "pool_ok s' (new @ fs)" "stats_ok s'" "ctrl s' i = fill_ctrl ty obj tag fre (ctrl s i)"
    "\<And>j. j \<le> ui2_num_total s \<Longrightarrow> j \<noteq> i \<Longrightarrow> ctrl s' j = ctrl s j"
    "\<And>j. ui2_num_total s < j \<Longrightarrow> j \<le> ui2_num_total s' \<Longrightarrow> hflags s' j = 0 \<and> ahead s' j = 0"
    "ui2_num_total s \<le> ui2_num_total s'" "links s' = links s" "crit s' = crit s" "b_init s'"
    "ui2_num_free s > 11 \<Longrightarrow> new = [] \<and> ui2_num_total s' = ui2_num_total s \<and> ui2_num_free s' = ui2_num_free s - 1"
proof -
  have i: "0 < i" "i \<le> ui2_num_total s" "\<not> active s i" "ui2_free_handles s = i"
    and fs: "path (hnext s) (hnext s i) fs 0" "distinct fs" "i \<notin> set fs"
    using pool_ok_not_active [OF ok, of i] ok by (auto simp: pool_ok_def)
  let ?s = "(crit_start s)\<lparr>ui2_free_handles := hnext s i, ui2_num_free := ui2_num_free s - 1\<rparr>"
  have pb: "pool_but {i} ?s fs"
    using ok fs by (auto simp: pool_ok_def pool_but_def)
  have nf: "unat (ui2_num_free s) = Suc (length fs)" using pool_ok_length(2) [OF ok] by simp
  have ug: "used_in_group ?s = used_in_group s" by (auto simp: fun_eq_iff used_in_group_def)
  define r where "r = (if ui2_num_free ?s \<le> 10 then realloc_handle ra HANDLE_REALLOC_NUM ?s else Inr (HR_OK, ?s))"
  have "\<exists>s1 new. r = Inr (HR_OK, s1) \<and> pool_but {i} s1 (new @ fs) \<and>
      (\<forall>j. j \<le> ui2_num_total s \<longrightarrow> ctrl s1 j = ctrl s j) \<and>
      (\<forall>j. ui2_num_total s < j \<longrightarrow> j \<le> ui2_num_total s1 \<longrightarrow> hflags s1 j = 0 \<and> ahead s1 j = 0) \<and>
      ui2_num_total s \<le> ui2_num_total s1 \<and> links s1 = links s \<and> crit s1 = crit s + 1 \<and> b_init s1 \<and>
      ui2_num_used_per_grp s1 = ui2_num_used_per_grp s \<and>
      (ui2_num_free s > 11 \<longrightarrow> new = [] \<and> ui2_num_total s1 = ui2_num_total s \<and> ui2_num_free s1 = ui2_num_free s - 1)"
  proof (cases "ui2_num_free ?s \<le> 10")
    case False
    then show ?thesis
      using pb b by (intro exI [of _ ?s] exI [of _ "[]"]) (auto simp: r_def)
  next
    case True
    then have le: "\<not> ui2_num_free s > 11"
      using nf by (auto simp: word_le_nat_alt word_less_nat_alt unat_sub)
    then have "unat (ui2_num_total s) + 1000 < 65536" and raok: "\<And>z. ra (pt_h_ctrl_arr s) z \<noteq> NULL"
      using ra by (auto simp: can_alloc_def word_le_nat_alt)
    then have t: "unat (ui2_num_total s + 1000) = unat (ui2_num_total s) + 1000"
      by (simp add: unat_word_ariths)
    have pre: "unat (ui2_num_total ?s) + 1000 < 65536" "\<And>z. ra (pt_h_ctrl_arr ?s) z \<noteq> NULL"
      "\<And>x. x \<in> {i} \<Longrightarrow> x \<le> ui2_num_total ?s"
      using \<open>unat (ui2_num_total s) + 1000 < 65536\<close> raok i(2) by simp_all
    obtain s1 where s1: "realloc_handle ra HANDLE_REALLOC_NUM ?s = Inr (HR_OK, s1)"
      "pool_but {i} s1 (slots (unat (ui2_num_total s)) (unat (ui2_num_total s) + 1000) @ fs)"
      "ui2_num_total s1 = ui2_num_total s + 1000"
      "\<And>j. j \<le> ui2_num_total s \<Longrightarrow> ctrl s1 j = ctrl s j"
      "\<And>j. ui2_num_total s < j \<Longrightarrow> j \<le> ui2_num_total s + 1000 \<Longrightarrow> hflags s1 j = 0 \<and> ahead s1 j = 0"
      "links s1 = links s" "crit s1 = crit s + 1" "b_init s1"
      "ui2_num_used_per_grp s1 = ui2_num_used_per_grp s"
      by (rule realloc_handle_grows [where ra = ra, OF pb pre(1) pre(3) pre(2)], assumption) simp_all
    then show ?thesis
      using True t le
      by (intro exI [of _ s1] exI [of _ "slots (unat (ui2_num_total s)) (unat (ui2_num_total s) + 1000)"])
        (auto simp: r_def word_le_nat_alt)
  qed
  then obtain s1 new where r: "r = Inr (HR_OK, s1)" and s1: "pool_but {i} s1 (new @ fs)"
    "\<And>j. j \<le> ui2_num_total s \<Longrightarrow> ctrl s1 j = ctrl s j"
    "\<And>j. ui2_num_total s < j \<Longrightarrow> j \<le> ui2_num_total s1 \<Longrightarrow> hflags s1 j = 0 \<and> ahead s1 j = 0"
    "ui2_num_total s \<le> ui2_num_total s1" "links s1 = links s" "crit s1 = crit s + 1" "b_init s1"
    "ui2_num_used_per_grp s1 = ui2_num_used_per_grp s"
    and big: "ui2_num_free s > 11 \<Longrightarrow>
      new = [] \<and> ui2_num_total s1 = ui2_num_total s \<and> ui2_num_free s1 = ui2_num_free s - 1"
    by blast
  have sel: "active s1 j = active s j" "htype s1 j = htype s j" if "j \<le> ui2_num_total s" for j
    using s1(2) [OF that] by (simp_all add: active_def hflags_def htype_def del: field_folds)
  have na: "\<not> active s1 j" if "ui2_num_total s < j" "j \<le> ui2_num_total s1" for j
    using s1(3) [OF that] by (simp add: active_def flag_simps)
  have "used_in_group s1 g = used_in_group s g" for g
  proof (intro set_eqI iffI)
    fix j assume j: "j \<in> used_in_group s1 g"
    with na [of j] have le: "j \<le> ui2_num_total s" by (auto simp: used_in_group_def not_less [symmetric])
    from j show "j \<in> used_in_group s g"
      by (simp add: used_in_group_def sel [OF le] le)
  next
    fix j assume j: "j \<in> used_in_group s g"
    then have le: "j \<le> ui2_num_total s" by (simp add: used_in_group_def)
    from j order_trans [OF le s1(4)] show "j \<in> used_in_group s1 g"
      by (simp add: used_in_group_def sel [OF le])
  qed
  then have "\<forall>g<HT_NB_GROUPS. ui2_num_used_per_grp s1 g = of_nat (card (used_in_group s1 g))"
    using st s1(8) by (simp add: stats_ok_def)
  note tb = take_block [OF s1(1) i(1) _ _ this, of ty obj tag fre]
  let ?s' = "upd_ctrl i (fill_ctrl ty obj tag fre) (crit_end (count_peak (count_used ty s1)))"
  show thesis
  proof (rule that [of ?s' new])
    show "u_handle_alloc ra ty obj tag fre True s = Inr (HR_OK, Some (make_handle ?s' i), ?s')"
      unfolding u_handle_alloc_def Let_def
      using b arg i r [unfolded r_def] by (auto simp: get_h_ctrl_from_idx_def split: if_splits)
    show "pool_ok ?s' (new @ fs)" "stats_ok ?s'"
      using tb i s1(4) sel by auto
  qed (use s1 i big in \<open>auto simp: ctrl_upd_ctrl\<close>)
qed

end
