(* ===== verification/HandleInv.thy ===== *)
theory HandleInv
  imports HandlePool
begin

text \<open>The invariant of the handle library and the operations on handle lists and auxiliary lists.

  \<open>lists_ok s L\<close>: every initialised list head \<open>l\<close> of the clients holds the doubly linked list
  \<open>L l\<close> of live, linked blocks, lists are disjoint and every linked block is on one.
  \<open>aux_ok s A\<close>: the members of the auxiliary list of head \<open>a\<close> are \<open>A a\<close>.
  \<open>handle_inv s L A\<close> puts these together with the pool and the counters.\<close>

section \<open>The invariant\<close>

definition live :: "'x hlib_scheme \<Rightarrow> u16 \<Rightarrow> bool" where
  "live s i \<longleftrightarrow> 0 < i \<and> i \<le> ui2_num_total s \<and> active s i"

definition hlist :: "'x hlib_scheme \<Rightarrow> ptr \<Rightarrow> u16 list \<Rightarrow> bool" where
  "hlist s l xs \<longleftrightarrow>
    dlist (hnext s) (hprev s) 0 (ui2_head (links s l)) (ui2_tail (links s l)) xs \<and>
    ui2_h_count (links s l) = of_nat (length xs) \<and> (\<forall>i\<in>set xs. live s i \<and> linked s i)"

definition lists_ok :: "'x hlib_scheme \<Rightarrow> (ptr \<rightharpoonup> u16 list) \<Rightarrow> bool" where
  "lists_ok s L \<longleftrightarrow>
    (\<forall>l xs. L l = Some xs \<longrightarrow> l \<noteq> NULL \<and> hlist s l xs) \<and>
    (\<forall>l l' xs xs'. L l = Some xs \<longrightarrow> L l' = Some xs' \<longrightarrow> l \<noteq> l' \<longrightarrow> set xs \<inter> set xs' = {}) \<and>
    (\<forall>i. live s i \<longrightarrow> linked s i \<longrightarrow> (\<exists>l xs. L l = Some xs \<and> i \<in> set xs))"

definition is_aux_head :: "'x hlib_scheme \<Rightarrow> u16 \<Rightarrow> bool" where
  "is_aux_head s a \<longleftrightarrow> live s a \<and> htype s a = HT_AUX_LINK_HEAD"

definition alist :: "'x hlib_scheme \<Rightarrow> u16 \<Rightarrow> u16 list \<Rightarrow> bool" where
  "alist s a xs \<longleftrightarrow>
    (\<exists>t. dlist (anext s) (aprev s) 0 (anext s a) t xs) \<and> acount s a = of_nat (length xs) \<and>
    (\<forall>i\<in>set xs. live s i \<and> ahead s i = a \<and> HT_RES_BY_HANDLE_LIB \<le> htype s i)"

definition aux_ok :: "'x hlib_scheme \<Rightarrow> (u16 \<Rightarrow> u16 list) \<Rightarrow> bool" where
  "aux_ok s A \<longleftrightarrow>
    (\<forall>a. is_aux_head s a \<longrightarrow> alist s a (A a)) \<and>
    (\<forall>i. live s i \<longrightarrow> ahead s i \<noteq> 0 \<longrightarrow> is_aux_head s (ahead s i) \<and> i \<in> set (A (ahead s i)))"

definition handle_inv :: "'x hlib_scheme \<Rightarrow> (ptr \<rightharpoonup> u16 list) \<Rightarrow> (u16 \<Rightarrow> u16 list) \<Rightarrow> bool" where
  "handle_inv s L A \<longleftrightarrow> b_init s \<and> (\<exists>fs. pool_ok s fs) \<and> stats_ok s \<and> lists_ok s L \<and> aux_ok s A"

lemma get_h_ctrl_live: "get_h_ctrl_from_handle s h = Some i \<longleftrightarrow> live s i \<and> make_handle s i = h"
  by (auto simp: get_h_ctrl_eq_Some live_def)

lemma live_card: "card {i. live s i} \<le> 65535"
proof -
  have "{i. live s i} \<subseteq> {i :: u16. 0 < i}" by (auto simp: live_def)
  then have "card {i. live s i} \<le> card {i :: u16. 0 < i}" by (rule card_mono [rotated]) simp
  also have "{i :: u16. 0 < i} = UNIV - {0}" by (auto simp: word_neq_0_conv)
  also have "card \<dots> = 65535" by (simp add: card_word)
  finally show ?thesis .
qed

lemma length_live:
  assumes "distinct xs" "\<forall>i\<in>set xs. live s i"
  shows "length xs < 65536"
proof -
  have "card (set xs) \<le> card {i. live s i}"
    using assms(2) by (intro card_mono) auto
  then show ?thesis using live_card [of s] distinct_card [OF assms(1)] by simp
qed

lemma hlist_count: "hlist s l xs \<Longrightarrow> unat (ui2_h_count (links s l)) = length xs"
  using length_live [of xs s] by (auto simp: hlist_def dlist_def unat_u16_of_nat)

lemma alist_count: "alist s a xs \<Longrightarrow> unat (acount s a) = length xs"
  using length_live [of xs s] by (auto simp: alist_def dlist_def unat_u16_of_nat)

section \<open>What the invariant depends on\<close>

lemma live_cong: "active s' = active s \<Longrightarrow> ui2_num_total s' = ui2_num_total s \<Longrightarrow> live s' = live s"
  by (auto simp: fun_eq_iff live_def)

lemma lists_ok_cong:
  assumes ok: "lists_ok s L" and l: "links s' = links s"
    and old: "\<And>i. live s i \<Longrightarrow> linked s i \<Longrightarrow>
      hnext s' i = hnext s i \<and> hprev s' i = hprev s i \<and> live s' i \<and> linked s' i"
    and new: "\<And>i. live s' i \<Longrightarrow> linked s' i \<Longrightarrow> live s i \<and> linked s i"
  shows "lists_ok s' L"
proof -
  have "hlist s' k xs" if "hlist s k xs" for k xs
  proof -
    have "dlist (hnext s') (hprev s') 0 h t xs = dlist (hnext s) (hprev s) 0 h t xs" for h t
      using that old by (intro dlist_cong) (auto simp: hlist_def)
    then show ?thesis using that old by (auto simp: hlist_def l)
  qed
  then show ?thesis using ok new by (auto simp: lists_ok_def)
qed

lemma aux_ok_cong:
  assumes ok: "aux_ok s A"
    and old: "\<And>i. live s i \<Longrightarrow> anext s' i = anext s i \<and> aprev s' i = aprev s i \<and> ahead s' i = ahead s i \<and>
      acount s' i = acount s i \<and> htype s' i = htype s i \<and> live s' i"
    and new: "\<And>i. live s' i \<Longrightarrow> \<not> live s i \<Longrightarrow> ahead s' i = 0 \<and> anext s' i = 0 \<and> acount s' i = 0"
  shows "aux_ok s' (\<lambda>a. if live s a then A a else [])"
proof -
  have al: "alist s' a xs" if "alist s a xs" "live s a" for a xs
  proof -
    have "dlist (anext s') (aprev s') 0 h t xs = dlist (anext s) (aprev s) 0 h t xs" for h t
      using that old by (intro dlist_cong) (auto simp: alist_def)
    then show ?thesis using that old by (auto simp: alist_def)
  qed
  have "alist s' a (if live s a then A a else [])" if "is_aux_head s' a" for a
  proof (cases "live s a")
    case True
    with that old have "is_aux_head s a" by (simp add: is_aux_head_def)
    then show ?thesis using ok al True by (simp add: aux_ok_def)
  next
    case False
    then show ?thesis using that new [of a] by (auto simp: is_aux_head_def alist_def)
  qed
  moreover have "is_aux_head s' (ahead s' i) \<and> i \<in> set (if live s (ahead s' i) then A (ahead s' i) else [])"
    if "live s' i" "ahead s' i \<noteq> 0" for i
  proof -
    have i: "live s i" using that new by blast
    then have "is_aux_head s (ahead s i) \<and> i \<in> set (A (ahead s i))"
      using ok old [OF i] that by (auto simp: aux_ok_def)
    then show ?thesis using old [of "ahead s i"] old [OF i] by (auto simp: is_aux_head_def)
  qed
  ultimately show ?thesis by (auto simp: aux_ok_def)
qed

lemma aux_ok_same:
  assumes ok: "aux_ok s A"
    and old: "anext s' = anext s" "aprev s' = aprev s" "ahead s' = ahead s" "acount s' = acount s"
      "htype s' = htype s" "live s' = live s"
  shows "aux_ok s' A"
  using assms by (simp add: aux_ok_def alist_def is_aux_head_def)

lemma stats_ok_cong:
  assumes "stats_ok s" "htype s' = htype s" "active s' = active s"
    "ui2_num_total s' = ui2_num_total s" "ui2_num_free s' = ui2_num_free s"
    "ui2_num_peak_used s' = ui2_num_peak_used s" "ui2_num_used_per_grp s' = ui2_num_used_per_grp s"
  shows "stats_ok s'"
  using assms by (simp add: stats_ok_def used_in_group_def)

section \<open>Handle lists\<close>

lemma sel_link_tail [simp]:
  "hnext (link_tail l i s) = (if ui2_tail (links s l) = 0 then (hnext s)(i := 0)
     else (hnext s)(i := 0, ui2_tail (links s l) := i))"
  "hprev (link_tail l i s) = (hprev s)(i := ui2_tail (links s l))"
  "anext (link_tail l i s) = anext s" "aprev (link_tail l i s) = aprev s"
  "ahead (link_tail l i s) = ahead s" "acount (link_tail l i s) = acount s"
  "hflags (link_tail l i s) = hflags s" "hcount (link_tail l i s) = hcount s"
  "htype (link_tail l i s) = htype s"
  "links (link_tail l i s) = (links s)(l := (links s l)
     \<lparr>ui2_head := (if ui2_tail (links s l) = 0 then i else ui2_head (links s l)),
      ui2_tail := i, ui2_h_count := ui2_h_count (links s l) + 1\<rparr>)"
  "b_init (link_tail l i s) = b_init s" "ui2_free_handles (link_tail l i s) = ui2_free_handles s"
  "ui2_num_total (link_tail l i s) = ui2_num_total s" "ui2_num_free (link_tail l i s) = ui2_num_free s"
  "ui2_num_peak_used (link_tail l i s) = ui2_num_peak_used s"
  "ui2_num_used_per_grp (link_tail l i s) = ui2_num_used_per_grp s" "crit (link_tail l i s) = crit s"
  by (simp_all add: link_tail_def Let_def)

lemma sel_unlink [simp]:
  "hnext (unlink l i s) = ((if hprev s i = 0 then hnext s else (hnext s)(hprev s i := hnext s i))(i := 0))"
  "hprev (unlink l i s) = ((if hnext s i = 0 then hprev s else (hprev s)(hnext s i := hprev s i))(i := 0))"
  "anext (unlink l i s) = anext s" "aprev (unlink l i s) = aprev s"
  "ahead (unlink l i s) = ahead s" "acount (unlink l i s) = acount s"
  "hflags (unlink l i s) = hflags s" "hcount (unlink l i s) = hcount s"
  "htype (unlink l i s) = htype s"
  "links (unlink l i s) = (links s)(l := (links s l)
     \<lparr>ui2_head := (if hprev s i = 0 then hnext s i else ui2_head (links s l)),
      ui2_tail := (if hnext s i = 0 then hprev s i else ui2_tail (links s l)),
      ui2_h_count := (if ui2_h_count (links s l) > 0 then ui2_h_count (links s l) - 1
        else ui2_h_count (links s l))\<rparr>)"
  "b_init (unlink l i s) = b_init s" "ui2_free_handles (unlink l i s) = ui2_free_handles s"
  "ui2_num_total (unlink l i s) = ui2_num_total s" "ui2_num_free (unlink l i s) = ui2_num_free s"
  "ui2_num_peak_used (unlink l i s) = ui2_num_peak_used s"
  "ui2_num_used_per_grp (unlink l i s) = ui2_num_used_per_grp s" "crit (unlink l i s) = crit s"
  by (simp_all add: unlink_def Let_def) (cases "links s l", simp)

lemma sel_active_link [simp]:
  "active (link_tail l i s) = active s" "linked (link_tail l i s) = linked s"
  "active (unlink l i s) = active s" "linked (unlink l i s) = linked s"
  by (simp_all add: fun_eq_iff active_def linked_def)

lemma sel_active_flags [simp]:
  "active (set_flags i (fset H_CTRL_FLAG_LINKED) s) = active s"
  "active (set_flags i (fclr H_CTRL_FLAG_LINKED) s) = active s"
  "linked (set_flags i (fset H_CTRL_FLAG_LINKED) s) = (linked s)(i := True)"
  "linked (set_flags i (fclr H_CTRL_FLAG_LINKED) s) = (linked s)(i := False)"
  by (auto simp: fun_eq_iff active_def linked_def flag_simps)

text \<open>Appending to one list leaves the others, and the pool, as they are.\<close>

lemma hlist_link_tail:
  assumes l: "hlist s l xs" and i: "i \<notin> set xs" "live s i" "linked s i"
  shows "hlist (link_tail l i s) l (xs @ [i])"
  using dlist_insert_tail [of "hnext s" "hprev s" 0 "ui2_head (links s l)" "ui2_tail (links s l)" xs i] assms
  by (auto simp: hlist_def live_def)

lemma hlist_unlink:
  assumes l: "hlist s l xs" and i: "i \<in> set xs"
  shows "dlist (hnext (unlink l i s)) (hprev (unlink l i s)) 0 (ui2_head (links (unlink l i s) l))
      (ui2_tail (links (unlink l i s) l)) (remove1 i xs)"
    and "ui2_h_count (links (unlink l i s) l) = of_nat (length (remove1 i xs))"
proof -
  have d: "dlist (hnext s) (hprev s) 0 (ui2_head (links s l)) (ui2_tail (links s l)) xs"
    using l by (simp add: hlist_def)
  have "i \<notin> set (remove1 i xs)" using dlist_distinct [OF d] by simp
  then show "dlist (hnext (unlink l i s)) (hprev (unlink l i s)) 0 (ui2_head (links (unlink l i s) l))
      (ui2_tail (links (unlink l i s) l)) (remove1 i xs)"
    using dlist_remove1 [OF d i] by (simp add: dlist_frame)
  have "unat (ui2_h_count (links s l)) = length xs" by (rule hlist_count [OF l])
  moreover have "0 < length xs" using i by (cases xs) auto
  ultimately have "ui2_h_count (links s l) > 0" by (simp add: word_less_nat_alt)
  moreover have "ui2_h_count (links s l) = of_nat (length xs)" using l by (simp add: hlist_def)
  ultimately show "ui2_h_count (links (unlink l i s) l) = of_nat (length (remove1 i xs))"
    using i \<open>0 < length xs\<close> by (cases "length xs") (simp_all add: length_remove1)
qed

lemma lists_okD:
  assumes "lists_ok s L" "L l = Some xs"
  shows "l \<noteq> NULL" "hlist s l xs" "0 \<notin> set xs" "j \<in> set xs \<Longrightarrow> live s j \<and> linked s j"
  using assms by (auto simp: lists_ok_def hlist_def live_def)

lemma lists_ok_disjoint:
  "lists_ok s L \<Longrightarrow> L l = Some xs \<Longrightarrow> L k = Some ys \<Longrightarrow> k \<noteq> l \<Longrightarrow> set xs \<inter> set ys = {}"
  unfolding lists_ok_def by metis

lemma lists_ok_covers:
  "lists_ok s L \<Longrightarrow> live s i \<Longrightarrow> linked s i \<Longrightarrow> \<exists>l xs. L l = Some xs \<and> i \<in> set xs"
  by (simp add: lists_ok_def)

lemma lists_ok_update:
  assumes ok: "lists_ok s L" and l: "l \<noteq> NULL" "hlist s' l xs'"
    and ot: "\<And>k ys. L k = Some ys \<Longrightarrow> k \<noteq> l \<Longrightarrow> hlist s' k ys \<and> set xs' \<inter> set ys = {}"
    and cov: "\<And>i. live s' i \<Longrightarrow> linked s' i \<Longrightarrow>
      i \<in> set xs' \<or> (live s i \<and> linked s i \<and> (\<forall>xs. L l = Some xs \<longrightarrow> i \<notin> set xs))"
  shows "lists_ok s' (L(l \<mapsto> xs'))"
proof -
  have 1: "k \<noteq> NULL \<and> hlist s' k ys" if "(L(l \<mapsto> xs')) k = Some ys" for k ys
    using that l ot lists_okD(1) [OF ok, of k ys] by (cases "k = l") auto
  have 2: "set ys \<inter> set zs = {}"
    if "(L(l \<mapsto> xs')) k = Some ys" "(L(l \<mapsto> xs')) m = Some zs" "k \<noteq> m" for k m ys zs
    using that ot lists_ok_disjoint [OF ok, of k ys m zs]
    by (cases "k = l"; cases "m = l") (auto simp: Int_commute)
  have 3: "\<exists>k ys. (L(l \<mapsto> xs')) k = Some ys \<and> i \<in> set ys" if "live s' i" "linked s' i" for i
  proof (cases "i \<in> set xs'")
    case True then show ?thesis by auto
  next
    case False
    with cov [OF that] have "live s i" "linked s i" and no: "\<forall>xs. L l = Some xs \<longrightarrow> i \<notin> set xs" by auto
    then obtain k ys where k: "L k = Some ys" "i \<in> set ys" using lists_ok_covers [OF ok] by blast
    with no have "k \<noteq> l" by auto
    with k show ?thesis by auto
  qed
  show ?thesis unfolding lists_ok_def using 1 2 3 by blast
qed

text \<open>The nodes next to a node of a list are on the list, or \<open>0\<close>.\<close>

lemma head_or_in: "head_or xs z = z \<or> head_or xs z \<in> set xs"
  by (cases xs) auto

lemma dlist_neighbours:
  assumes "dlist nx pv z h t xs" "x \<in> set xs"
  shows "nx x = z \<or> nx x \<in> set xs" "pv x = z \<or> pv x \<in> set xs"
proof -
  obtain as bs where xs: "xs = as @ x # bs" using assms(2) by (meson split_list)
  show "nx x = z \<or> nx x \<in> set xs" "pv x = z \<or> pv x \<in> set xs"
    using dlist_split(1,2) [of nx pv z h t as x bs] head_or_in [of bs z] head_or_in [of "rev as" z] assms(1)
    by (auto simp: xs)
qed

lemma dlist_tail_in: "dlist nx pv z h t xs \<Longrightarrow> t = z \<or> t \<in> set xs"
  using dlist_tail head_or_in [of "rev xs" z] by fastforce

lemma lists_ok_link:
  assumes ok: "lists_ok s L" and l: "L l = Some xs" and i: "live s i" "\<not> linked s i"
  defines "s' \<equiv> link_tail l i (set_flags i (fset H_CTRL_FLAG_LINKED) s)"
  shows "lists_ok s' (L(l \<mapsto> xs @ [i]))"
proof -
  let ?s = "set_flags i (fset H_CTRL_FLAG_LINKED) s"
  have lv: "live s' = live s" "live ?s = live s" by (auto simp: s'_def live_def fun_eq_iff)
  have lk: "linked s' = (linked s)(i := True)" by (simp add: s'_def)
  have ni: "i \<notin> set ys" if "L k = Some ys" for k ys
    using lists_okD(4) [OF ok that] i by blast
  have hx: "hlist ?s l xs"
    using lists_okD(2) [OF ok l] by (auto simp: hlist_def lv)
  have tl: "ui2_tail (links s l) = 0 \<or> ui2_tail (links s l) \<in> set xs"
    using lists_okD(2) [OF ok l] dlist_tail_in by (fastforce simp: hlist_def)
  have ot: "hlist s' k ys" if k: "L k = Some ys" "k \<noteq> l" for k ys
  proof -
    have "ui2_tail (links s l) \<notin> set ys"
      using tl lists_ok_disjoint [OF ok l k] lists_okD(3) [OF ok k(1)] by auto
    then show ?thesis
      using ni [OF k(1)] k(2) lists_okD(2) [OF ok k(1)]
      by (auto simp: hlist_def lv lk) (auto simp: s'_def dlist_frame)
  qed
  show ?thesis
  proof (rule lists_ok_update [OF ok lists_okD(1) [OF ok l]])
    show "hlist s' l (xs @ [i])"
      unfolding s'_def using hlist_link_tail [OF hx ni [OF l]] i(1) lv(2) by simp
  next
    fix k ys assume "L k = Some ys" "k \<noteq> l"
    then show "hlist s' k ys \<and> set (xs @ [i]) \<inter> set ys = {}"
      using ot ni lists_ok_disjoint [OF ok l] by auto
  qed (auto simp: lv lk l i dest: lists_okD(4) [OF ok l] split: if_splits)
qed

lemma lists_ok_delink:
  assumes ok: "lists_ok s L" and l: "L l = Some xs" and i: "i \<in> set xs"
  defines "s' \<equiv> unlink l i (set_flags i (fclr H_CTRL_FLAG_LINKED) s)"
  shows "lists_ok s' (L(l \<mapsto> remove1 i xs))"
proof -
  let ?s = "set_flags i (fclr H_CTRL_FLAG_LINKED) s"
  have lv: "live s' = live s" "live ?s = live s" by (auto simp: s'_def live_def fun_eq_iff)
  have lk: "linked s' = (linked s)(i := False)" by (simp add: s'_def)
  note hx = lists_okD(2) [OF ok l]
  then have d: "dlist (hnext s) (hprev s) 0 (ui2_head (links s l)) (ui2_tail (links s l)) xs"
    by (simp add: hlist_def)
  have un: "hnext s' = hnext (unlink l i s)" "hprev s' = hprev (unlink l i s)" "links s' = links (unlink l i s)"
    by (simp_all add: s'_def del: fun_upd_apply)
  have r: "set (remove1 i xs) = set xs - {i}" using dlist_distinct [OF d] by simp
  have ot: "hlist s' k ys" if k: "L k = Some ys" "k \<noteq> l" for k ys
  proof -
    have "set xs \<inter> set ys = {}" by (rule lists_ok_disjoint [OF ok l k])
    then have "i \<notin> set ys" "hnext s i = 0 \<or> hnext s i \<notin> set ys" "hprev s i = 0 \<or> hprev s i \<notin> set ys"
      using i dlist_neighbours [OF d i] by auto
    then show ?thesis
      using k(2) lists_okD(2,3) [OF ok k(1)]
      by (auto simp: hlist_def lv lk un) (auto simp: dlist_frame)
  qed
  show ?thesis
  proof (rule lists_ok_update [OF ok lists_okD(1) [OF ok l]])
    show "hlist s' l (remove1 i xs)"
      unfolding hlist_def un lv lk using hlist_unlink [OF hx i] hx r by (auto simp: hlist_def simp del: sel_unlink)
  next
    fix k ys assume "L k = Some ys" "k \<noteq> l"
    then show "hlist s' k ys \<and> set (remove1 i xs) \<inter> set ys = {}"
      using ot lists_ok_disjoint [OF ok l] unfolding r by blast
  qed (auto simp: lv lk l r split: if_splits)
qed

text \<open>Updates that touch list structure only keep the rest of the invariant.\<close>

lemma inv_list_step:
  assumes inv: "handle_inv s L A" and L: "lists_ok s' L'"
    and old: "\<And>i. \<not> active s i \<Longrightarrow> 0 < i \<Longrightarrow> i \<le> ui2_num_total s \<Longrightarrow> hnext s' i = hnext s i"
    and same: "anext s' = anext s" "aprev s' = aprev s" "ahead s' = ahead s" "acount s' = acount s"
      "htype s' = htype s" "active s' = active s" "b_init s' = b_init s"
      "ui2_free_handles s' = ui2_free_handles s" "ui2_num_total s' = ui2_num_total s"
      "ui2_num_free s' = ui2_num_free s" "ui2_num_peak_used s' = ui2_num_peak_used s"
      "ui2_num_used_per_grp s' = ui2_num_used_per_grp s"
  shows "handle_inv s' L' A"
proof -
  obtain fs where fs: "pool_ok s fs" using inv by (auto simp: handle_inv_def)
  have "pool_ok s' fs"
    by (rule pool_ok_cong [OF fs]) (use old pool_ok_not_active [OF fs] same in auto)
  moreover have "stats_ok s'"
    by (rule stats_ok_cong) (use inv same in \<open>auto simp: handle_inv_def\<close>)
  moreover have "aux_ok s' A"
    by (rule aux_ok_same) (use inv same live_cong [of s' s] in \<open>auto simp: handle_inv_def\<close>)
  ultimately show ?thesis using inv L same by (auto simp: handle_inv_def)
qed

text \<open>Which block a handle of a list stands for, and the state of the list.\<close>

lemma u_handle_link_ok:
  assumes inv: "handle_inv s L A" and l: "L l = Some xs" and h: "get_h_ctrl_from_handle s h = Some i"
    and t: "HT_RES_BY_HANDLE_LIB \<le> htype s i" and nl: "\<not> linked s i"
  obtains s' where "u_handle_link l h s = (HR_OK, s')" "handle_inv s' (L(l \<mapsto> xs @ [i])) A"
    "hcount s' = hcount s" "active s' = active s" "ui2_num_total s' = ui2_num_total s" "crit s' = crit s"
    "s' = link_tail l i (set_flags i (fset H_CTRL_FLAG_LINKED) s)"
proof -
  let ?s' = "link_tail l i (set_flags i (fset H_CTRL_FLAG_LINKED) s)"
  have ok: "lists_ok s L" using inv by (simp add: handle_inv_def)
  have i: "live s i" using h by (simp add: get_h_ctrl_live)
  have c: "crit_end (set_flags i f (crit_start s)) = set_flags i f s" for f
    by (simp add: crit_end_def crit_start_def set_flags_def upd_ctrl_def)
  have e: "u_handle_link l h s = (HR_OK, ?s')"
    using inv lists_okD(1) [OF ok l] h t nl
    by (simp add: u_handle_link_def Let_def handle_inv_def linked_def c)
  have tl: "ui2_tail (links s l) = 0 \<or> live s (ui2_tail (links s l))"
    using lists_okD(2,4) [OF ok l] dlist_tail_in by (fastforce simp: hlist_def)
  have "handle_inv ?s' (L(l \<mapsto> xs @ [i])) A"
    by (rule inv_list_step [OF inv lists_ok_link [OF ok l i nl]]) (use i tl in \<open>auto simp: live_def\<close>)
  then show thesis using e that by simp
qed

lemma u_handle_delink_ok:
  assumes inv: "handle_inv s L A" and l: "L l = Some xs" and h: "get_h_ctrl_from_handle s h = Some i"
    and t: "HT_RES_BY_HANDLE_LIB \<le> htype s i" and i: "i \<in> set xs"
    and p: "\<not> ftst H_LINK_FLAG_PARSING (hl_flags (links s l)) \<or> ftst H_CTRL_FLAG_PARSING (hflags s i)"
  obtains s' where "u_handle_delink l h s = (HR_OK, s')" "handle_inv s' (L(l \<mapsto> remove1 i xs)) A"
    "hcount s' = hcount s" "active s' = active s" "ui2_num_total s' = ui2_num_total s" "crit s' = crit s"
    "\<not> linked s' i" "s' = unlink l i (set_flags i (fclr H_CTRL_FLAG_LINKED) s)"
proof -
  let ?s' = "unlink l i (set_flags i (fclr H_CTRL_FLAG_LINKED) s)"
  have ok: "lists_ok s L" using inv by (simp add: handle_inv_def)
  have lk: "live s i" "linked s i" using lists_okD(4) [OF ok l i] by auto
  have c: "crit_end (set_flags i f (crit_start s)) = set_flags i f s" for f
    by (simp add: crit_end_def crit_start_def set_flags_def upd_ctrl_def)
  have e: "u_handle_delink l h s = (HR_OK, ?s')"
    using inv lists_okD(1) [OF ok l] h t lk(2) p
    by (simp add: u_handle_delink_def Let_def handle_inv_def linked_def c)
  have d: "dlist (hnext s) (hprev s) 0 (ui2_head (links s l)) (ui2_tail (links s l)) xs"
    using lists_okD(2) [OF ok l] by (simp add: hlist_def)
  have tl: "hprev s i = 0 \<or> live s (hprev s i)"
    using dlist_neighbours(2) [OF d i] lists_okD(4) [OF ok l] by blast
  have "handle_inv ?s' (L(l \<mapsto> remove1 i xs)) A"
    by (rule inv_list_step [OF inv lists_ok_delink [OF ok l i]]) (use lk tl in \<open>auto simp: live_def\<close>)
  then show thesis using e that by simp
qed

lemma handle_link_init_ok:
  assumes inv: "handle_inv s L A" and l: "l \<noteq> NULL" "L l = None \<or> L l = Some []"
  shows "fst (handle_link_init l s) = HR_OK" "handle_inv (snd (handle_link_init l s)) (L(l \<mapsto> [])) A"
proof -
  let ?s = "snd (handle_link_init l s)"
  have sel: "links ?s = (links s)(l := \<lparr>ui2_head = 0, ui2_tail = 0, ui2_h_count = 0, hl_flags = 0\<rparr>)"
    "hnext ?s = hnext s" "hprev ?s = hprev s" "live ?s = live s" "linked ?s = linked s"
    using l by (auto simp: handle_link_init_def live_def fun_eq_iff)
  have ok: "lists_ok s L" using inv by (simp add: handle_inv_def)
  have "lists_ok ?s (L(l \<mapsto> []))"
  proof (rule lists_ok_update [OF ok l(1)])
    show "hlist ?s l []" by (simp add: hlist_def sel)
  next
    fix k ys assume "L k = Some ys" "k \<noteq> l"
    then show "hlist ?s k ys \<and> set [] \<inter> set ys = {}"
      using lists_okD(2) [OF ok] by (simp add: hlist_def sel)
  qed (use l(2) sel in auto)
  then show "handle_inv ?s (L(l \<mapsto> [])) A"
    by (rule inv_list_step [OF inv]) (use l in \<open>simp_all add: handle_link_init_def\<close>)
  show "fst (handle_link_init l s) = HR_OK" using l by (simp add: handle_link_init_def)
qed

lemma list_observers:
  assumes "handle_inv s L A" "L l = Some xs"
  shows "handle_link_is_empty l s \<longleftrightarrow> xs = []" "unat (handle_num_links l s) = length xs"
proof -
  have ok: "lists_ok s L" using assms(1) by (simp add: handle_inv_def)
  have "unat (ui2_h_count (links s l)) = length xs" "l \<noteq> NULL"
    using hlist_count lists_okD(1,2) [OF ok assms(2)] by auto
  then show "handle_link_is_empty l s \<longleftrightarrow> xs = []" "unat (handle_num_links l s) = length xs"
    by (auto simp: handle_link_is_empty_def handle_num_links_def word_unat_eq_iff)
qed

end
