(* ===== verification/HandleLife.thy ===== *)
theory HandleLife
  imports HandleInv
begin

text \<open>The life of a handle: allocation and freeing keep the whole invariant and act on the abstract
  map \<open>habs\<close> as insertion and deletion; auxiliary lists; freed handles.\<close>

section \<open>Freeing a block\<close>

lemma sel_count_unused [simp]:
  "ctrl (count_unused i s) = ctrl s" "b_init (count_unused i s) = b_init s"
  "ui2_free_handles (count_unused i s) = ui2_free_handles s" "ui2_num_total (count_unused i s) = ui2_num_total s"
  "ui2_num_free (count_unused i s) = ui2_num_free s" "ui2_num_peak_used (count_unused i s) = ui2_num_peak_used s"
  "links (count_unused i s) = links s" "crit (count_unused i s) = crit s"
  by (simp_all add: count_unused_def Let_def)

lemmas sel_count_unused' [simp] = sel_cong [OF sel_count_unused(1)]

lemma sel_put_free [simp]:
  "hnext (put_free i s) = (hnext s)(i := ui2_free_handles s)"
  "hprev (put_free i s) = (hprev s)(i := 0)"
  "anext (put_free i s) = anext s" "aprev (put_free i s) = aprev s"
  "ahead (put_free i s) = ahead s" "acount (put_free i s) = acount s"
  "hflags (put_free i s) = (hflags s)(i := fclr H_CTRL_FLAG_ACTIVE (hflags s i))"
  "hcount (put_free i s) = (hcount s)(i := hcount s i + 1)" "htype (put_free i s) = htype s"
  "b_init (put_free i s) = b_init s" "ui2_free_handles (put_free i s) = i"
  "ui2_num_total (put_free i s) = ui2_num_total s" "ui2_num_free (put_free i s) = ui2_num_free s + 1"
  "ui2_num_peak_used (put_free i s) = ui2_num_peak_used s"
  "links (put_free i s) = links s" "crit (put_free i s) = crit s"
  by (simp_all add: put_free_def Let_def)

lemma sel_active_put_free [simp]:
  "active (put_free i s) = (active s)(i := False)" "linked (put_free i s) = linked s"
  by (auto simp: fun_eq_iff active_def linked_def flag_simps)

lemma live_put_free: "live (put_free i s) = (live s)(i := False)"
  by (auto simp: fun_eq_iff live_def)

lemma put_free_group:
  "ui2_num_used_per_grp (put_free i s) = (let g = unat (htype s i div HT_GROUP_SIZE) in
     if g < HT_NB_GROUPS \<and> ui2_num_used_per_grp s g > 0
     then (ui2_num_used_per_grp s)(g := ui2_num_used_per_grp s g - 1) else ui2_num_used_per_grp s)"
  by (simp add: put_free_def count_unused_def Let_def)

lemma pool_ok_put_free:
  assumes ok: "pool_ok s fs" and i: "live s i"
  shows "pool_ok (put_free i s) (i # fs)"
proof -
  have "i \<notin> set fs" using pool_ok_not_active [OF ok] i by (auto simp: live_def)
  then show ?thesis
    using ok i by (auto simp: pool_ok_def path_frame live_def)
qed

lemma card_used: "card (used_in_group s g) \<le> 65535"
proof -
  have "used_in_group s g \<subseteq> {i. live s i}" by (auto simp: used_in_group_def live_def)
  then have "card (used_in_group s g) \<le> card {i. live s i}" by (intro card_mono) auto
  then show ?thesis using live_card [of s] by simp
qed

lemma stats_ok_put_free:
  assumes pool: "pool_ok s fs" and ok: "stats_ok s" and i: "live s i"
  shows "stats_ok (put_free i s)"
proof -
  have u: "used_in_group (put_free i s) g = used_in_group s g - {i}" for g
    by (auto simp: used_in_group_def)
  have n: "card (used_in_group (put_free i s) g) =
      (if unat (htype s i div HT_GROUP_SIZE) = g then card (used_in_group s g) - 1 else card (used_in_group s g))"
      (is "_ = ?c g") for g
  proof (cases "unat (htype s i div HT_GROUP_SIZE) = g")
    case True
    with i have "i \<in> used_in_group s g" by (simp add: used_in_group_def live_def)
    then show ?thesis using True by (simp add: u)
  next
    case False
    then have "i \<notin> used_in_group s g" by (simp add: used_in_group_def)
    then show ?thesis using False by (simp add: u)
  qed
  have "ui2_num_used_per_grp (put_free i s) g = of_nat (?c g)" if g: "g < HT_NB_GROUPS" for g
  proof (cases "unat (htype s i div HT_GROUP_SIZE) = g")
    case True
    have e: "ui2_num_used_per_grp s g = of_nat (card (used_in_group s g))" using ok g by (simp add: stats_ok_def)
    have "i \<in> used_in_group s g" using True i by (simp add: used_in_group_def live_def)
    then obtain m where m: "card (used_in_group s g) = Suc m"
      by (metis card_gt_0_iff empty_iff finite gr0_implies_Suc)
    have "unat (ui2_num_used_per_grp s g) = Suc m"
      using card_used [of s g] by (simp only: e m unat_u16_of_nat)
    then have "ui2_num_used_per_grp s g > 0" by (simp add: word_less_nat_alt)
    then show ?thesis using True g e m by (simp add: put_free_group Let_def)
  next
    case False
    then show ?thesis using ok g by (simp add: put_free_group Let_def stats_ok_def)
  qed
  moreover have "unat (ui2_num_free s + 1) = unat (ui2_num_free s) + 1"
    using pool_ok_length [OF pool] pool_ok_length [OF pool_ok_put_free [OF pool i]]
    by simp
  ultimately show ?thesis using ok by (simp add: stats_ok_def n)
qed

lemma aux_ok_remove:
  assumes ok: "aux_ok s A" and i: "ahead s i = 0" "is_aux_head s i \<Longrightarrow> A i = []"
    and old: "anext s' = anext s" "aprev s' = aprev s" "ahead s' = ahead s" "acount s' = acount s"
      "htype s' = htype s" "live s' = (live s)(i := False)"
  shows "aux_ok s' A"
proof -
  have hd: "is_aux_head s' a \<longleftrightarrow> is_aux_head s a \<and> a \<noteq> i" for a
    by (auto simp: is_aux_head_def old)
  have 1: "alist s' a (A a)" if "is_aux_head s a" "a \<noteq> i" for a
  proof -
    have al: "alist s a (A a)" using ok that by (simp add: aux_ok_def)
    then have "i \<notin> set (A a)" using i(1) that by (auto simp: alist_def is_aux_head_def live_def)
    then show ?thesis using al by (auto simp: alist_def old)
  qed
  have 2: "is_aux_head s (ahead s j) \<and> j \<in> set (A (ahead s j)) \<and> ahead s j \<noteq> i"
    if "live s j" "ahead s j \<noteq> 0" for j
  proof -
    have "is_aux_head s (ahead s j)" "j \<in> set (A (ahead s j))"
      using ok that by (auto simp: aux_ok_def)
    then show ?thesis using i(2) by auto
  qed
  show ?thesis
    unfolding aux_ok_def using 1 2 by (auto simp: hd old split: if_splits)
qed

lemma lists_ok_put_free:
  assumes ok: "lists_ok s L" and i: "\<not> linked s i"
  shows "lists_ok (put_free i s) L"
  by (rule lists_ok_cong [OF ok]) (use i in \<open>auto simp: live_put_free split: if_splits\<close>)

lemma inv_put_free:
  assumes inv: "handle_inv s L A" and i: "live s i" "\<not> linked s i" "ahead s i = 0"
    "is_aux_head s i \<Longrightarrow> A i = []"
  shows "handle_inv (put_free i s) L A"
proof -
  obtain fs where fs: "pool_ok s fs" using inv by (auto simp: handle_inv_def)
  have "aux_ok (put_free i s) A"
    by (rule aux_ok_remove [of s A i]) (use inv i in \<open>auto simp: handle_inv_def live_put_free\<close>)
  then show ?thesis
    using inv pool_ok_put_free [OF fs i(1)] stats_ok_put_free [OF fs _ i(1)] lists_ok_put_free [of s L i] i(2)
    by (auto simp: handle_inv_def)
qed

section \<open>Auxiliary lists\<close>

lemma sel_unlink_aux [simp]:
  "hnext (unlink_aux a i s) = hnext s" "hprev (unlink_aux a i s) = hprev s"
  "anext (unlink_aux a i s) =
     ((if aprev s i = 0 then (anext s)(a := anext s i) else (anext s)(aprev s i := anext s i))(i := 0))"
  "aprev (unlink_aux a i s) = ((if anext s i = 0 then aprev s else (aprev s)(anext s i := aprev s i))(i := 0))"
  "ahead (unlink_aux a i s) = (ahead s)(i := 0)"
  "acount (unlink_aux a i s) = (acount s)(a := (if acount s a > 0 then acount s a - 1 else acount s a))"
  "hflags (unlink_aux a i s) = hflags s" "hcount (unlink_aux a i s) = hcount s"
  "htype (unlink_aux a i s) = htype s" "links (unlink_aux a i s) = links s"
  "b_init (unlink_aux a i s) = b_init s" "ui2_free_handles (unlink_aux a i s) = ui2_free_handles s"
  "ui2_num_total (unlink_aux a i s) = ui2_num_total s" "ui2_num_free (unlink_aux a i s) = ui2_num_free s"
  "ui2_num_peak_used (unlink_aux a i s) = ui2_num_peak_used s"
  "ui2_num_used_per_grp (unlink_aux a i s) = ui2_num_used_per_grp s" "crit (unlink_aux a i s) = crit s"
  by (auto simp: unlink_aux_def Let_def fun_eq_iff)

lemma sel_link_aux [simp]:
  "hnext (link_aux_head a i s) = hnext s" "hprev (link_aux_head a i s) = hprev s"
  "anext (link_aux_head a i s) = (anext s)(i := anext s a, a := i)"
  "aprev (link_aux_head a i s) = ((if anext s a = 0 then aprev s else (aprev s)(anext s a := i))(i := 0))"
  "ahead (link_aux_head a i s) = (ahead s)(i := a)"
  "acount (link_aux_head a i s) = (acount s)(a := acount s a + 1)"
  "hflags (link_aux_head a i s) = hflags s" "hcount (link_aux_head a i s) = hcount s"
  "htype (link_aux_head a i s) = htype s" "links (link_aux_head a i s) = links s"
  "b_init (link_aux_head a i s) = b_init s" "ui2_free_handles (link_aux_head a i s) = ui2_free_handles s"
  "ui2_num_total (link_aux_head a i s) = ui2_num_total s" "ui2_num_free (link_aux_head a i s) = ui2_num_free s"
  "ui2_num_peak_used (link_aux_head a i s) = ui2_num_peak_used s"
  "ui2_num_used_per_grp (link_aux_head a i s) = ui2_num_used_per_grp s" "crit (link_aux_head a i s) = crit s"
  by (auto simp: link_aux_head_def Let_def fun_eq_iff)

lemma sel_active_aux [simp]:
  "active (unlink_aux a i s) = active s" "linked (unlink_aux a i s) = linked s"
  "active (link_aux_head a i s) = active s" "linked (link_aux_head a i s) = linked s"
  by (simp_all add: fun_eq_iff active_def linked_def)

lemma live_aux [simp]:
  "live (unlink_aux a i s) = live s" "live (link_aux_head a i s) = live s"
  by (simp_all add: fun_eq_iff live_def)

lemma is_aux_head_aux [simp]:
  "is_aux_head (unlink_aux a i s) = is_aux_head s" "is_aux_head (link_aux_head a i s) = is_aux_head s"
  by (simp_all add: fun_eq_iff is_aux_head_def)

lemma head_type_not_client [simp]: "\<not> (HT_RES_BY_HANDLE_LIB \<le> HT_AUX_LINK_HEAD)"
  by (simp add: word_le_nat_alt)

lemma aux_okD:
  assumes "aux_ok s A" "is_aux_head s a"
  shows "alist s a (A a)" "i \<in> set (A a) \<Longrightarrow> live s i \<and> ahead s i = a \<and> \<not> is_aux_head s i"
    "is_aux_head s b \<Longrightarrow> a \<notin> set (A b)"
    "is_aux_head s b \<Longrightarrow> a \<noteq> b \<Longrightarrow> set (A a) \<inter> set (A b) = {}"
proof -
  have al: "alist s b (A b)" if "is_aux_head s b" for b using assms(1) that by (simp add: aux_ok_def)
  then show "alist s a (A a)" using assms(2) .
  have m: "live s i \<and> ahead s i = b \<and> \<not> is_aux_head s i" if "is_aux_head s b" "i \<in> set (A b)" for b i
    using al [OF that(1)] that(2) head_type_not_client
    unfolding alist_def is_aux_head_def by metis
  then show "i \<in> set (A a) \<Longrightarrow> live s i \<and> ahead s i = a \<and> \<not> is_aux_head s i" using assms(2) by blast
  show "is_aux_head s b \<Longrightarrow> a \<notin> set (A b)" using m assms(2) by blast
  show "is_aux_head s b \<Longrightarrow> a \<noteq> b \<Longrightarrow> set (A a) \<inter> set (A b) = {}" using m assms(2) by blast
qed

lemma aux_ok_member:
  "aux_ok s A \<Longrightarrow> live s i \<Longrightarrow> ahead s i \<noteq> 0 \<Longrightarrow> is_aux_head s (ahead s i) \<and> i \<in> set (A (ahead s i))"
  by (simp add: aux_ok_def)

lemma aux_ok_link:
  assumes ok: "aux_ok s A" and a: "is_aux_head s a" and i: "live s i" "ahead s i = 0"
    and t: "HT_RES_BY_HANDLE_LIB \<le> htype s i"
  shows "aux_ok (link_aux_head a i s) (A(a := i # A a))"
proof -
  let ?s = "link_aux_head a i s"
  note D = aux_okD [OF ok]
  have ni: "i \<notin> set (A b)" if "is_aux_head s b" for b
    using D(2) [OF that, of i] i that by (auto simp: is_aux_head_def live_def)
  have i0: "i \<noteq> 0" "a \<noteq> 0" using i a by (auto simp: live_def is_aux_head_def)
  have ih: "\<not> is_aux_head s i" using t head_type_not_client unfolding is_aux_head_def by metis
  then have ai: "a \<noteq> i" using a by blast
  obtain t where d: "dlist (anext s) (aprev s) 0 (anext s a) t (A a)"
    using D(1) [OF a] by (auto simp: alist_def)
  have h: "anext s a = 0 \<or> anext s a \<in> set (A a)"
    using dlist_head [OF d] head_or_in [of "A a" 0] by simp
  have "alist ?s b ((A(a := i # A a)) b)" if b: "is_aux_head s b" for b
  proof (cases "b = a")
    case False
    have "anext s a = 0 \<or> anext s a \<notin> set (A b)" using h D(4) [OF a b] False by auto
    moreover have "0 \<notin> set (A b)" using D(1) [OF b] by (auto simp: alist_def live_def)
    ultimately show ?thesis
      using False D(1) [OF b] ni [OF b] D(3) [OF a b] D(3) [OF b b] ih b i(2)
      by (auto simp: alist_def dlist_frame is_aux_head_def)
  next
    case True
    have "anext s a \<noteq> i" using h ni [OF a] i0 by auto
    then have pv: "aprev ?s = (if anext s a = 0 then (aprev s)(i := 0) else (aprev s)(i := 0, anext s a := i))"
      by (auto simp: fun_eq_iff)
    have nx: "anext ?s = (anext s)(i := anext s a, a := i)" by simp
    have an: "a \<notin> set (i # A a)" using D(3) [OF a a] ai by simp
    then have "dlist (anext ?s) (aprev ?s) 0 i (if anext s a = 0 then i else t) (i # A a)"
      unfolding pv nx using dlist_insert_head [OF d ni [OF a] i0(1)] by (simp only: dlist_frame(1) [OF an])
    then show ?thesis
      using True D(1) [OF a] i t by (auto simp: alist_def)
  qed
  then show ?thesis
    unfolding aux_ok_def using a aux_ok_member [OF ok] by auto
qed

lemma aux_ok_unlink:
  assumes ok: "aux_ok s A" and i: "live s i" "ahead s i \<noteq> 0"
  shows "aux_ok (unlink_aux (ahead s i) i s) (A(ahead s i := remove1 i (A (ahead s i))))"
proof -
  let ?a = "ahead s i"
  let ?s = "unlink_aux ?a i s"
  note D = aux_okD [OF ok]
  have a: "is_aux_head s ?a" and ia: "i \<in> set (A ?a)" using aux_ok_member [OF ok i] by auto
  obtain t where d: "dlist (anext s) (aprev s) 0 (anext s ?a) t (A ?a)"
    using D(1) [OF a] by (auto simp: alist_def)
  have r: "set (remove1 i (A ?a)) = set (A ?a) - {i}" using dlist_distinct [OF d] by simp
  note nb = dlist_neighbours [OF d ia]
  have ai: "?a \<noteq> i" "?a \<notin> set (A ?a)" using D(3) [OF a a] ia by auto
  have "alist ?s b ((A(?a := remove1 i (A ?a))) b)" if b: "is_aux_head s b" for b
  proof (cases "b = ?a")
    case False
    have dj: "set (A ?a) \<inter> set (A b) = {}" using D(4) [OF a b] False by blast
    then have "i \<notin> set (A b)" "aprev s i = 0 \<or> aprev s i \<notin> set (A b)" "anext s i = 0 \<or> anext s i \<notin> set (A b)"
      using nb ia by auto
    moreover have "0 \<notin> set (A b)" "b \<noteq> 0" using D(1) [OF b] b by (auto simp: alist_def is_aux_head_def live_def)
    moreover have "b \<noteq> i" "b \<noteq> aprev s i" "?a \<notin> set (A b)" "b \<notin> set (A ?a)"
      using b D(3) [OF b a] D(3) [OF a b] nb ia \<open>b \<noteq> 0\<close> by auto
    ultimately show ?thesis
      using False D(1) [OF b] by (auto simp: alist_def dlist_frame)
  next
    case True
    have n: "unat (acount s ?a) = length (A ?a)" by (rule alist_count [OF D(1) [OF a]])
    moreover have "0 < length (A ?a)" using ia by (cases "A ?a") auto
    ultimately have "acount s ?a > 0" by (simp add: word_less_nat_alt)
    moreover have "acount s ?a = of_nat (length (A ?a))" using D(1) [OF a] by (simp add: alist_def)
    ultimately have c: "acount ?s ?a = of_nat (length (remove1 i (A ?a)))"
      using ia \<open>0 < length (A ?a)\<close> by (cases "length (A ?a)") (simp_all add: length_remove1)
    have ap: "?a \<noteq> aprev s i" using nb ai a by (auto simp: is_aux_head_def live_def)
    have "i \<notin> set (remove1 i (A ?a))" "?a \<notin> set (remove1 i (A ?a))" using ai r by auto
    then have dl: "dlist (anext ?s) (aprev ?s) 0 (anext ?s ?a) (if anext s i = 0 then aprev s i else t)
        (remove1 i (A ?a))"
      using dlist_remove1 [OF d ia] ai(1) ap
      by (cases "aprev s i = 0"; cases "anext s i = 0") (simp_all add: dlist_frame)
    have "\<forall>j\<in>set (remove1 i (A ?a)). live ?s j \<and> ahead ?s j = ?a \<and> HT_RES_BY_HANDLE_LIB \<le> htype ?s j"
      using D(1) [OF a] r by (auto simp: alist_def)
    with dl c show ?thesis
      unfolding alist_def True fun_upd_same by blast
  qed
  moreover have "is_aux_head ?s (ahead ?s j) \<and> j \<in> set ((A(?a := remove1 i (A ?a))) (ahead ?s j))"
    if "live s j" "ahead ?s j \<noteq> 0" for j
  proof -
    have j: "j \<noteq> i" "ahead ?s j = ahead s j" using that(2) by (cases "j = i"; simp)+
    with aux_ok_member [OF ok that(1)] that(2) r show ?thesis
      by (simp only: j is_aux_head_aux) (cases "ahead s j = ?a", simp_all add: j(1))
  qed
  ultimately show ?thesis
    unfolding aux_ok_def live_aux is_aux_head_aux by blast
qed

lemma inv_aux_step:
  assumes inv: "handle_inv s L A" and aux: "aux_ok s' A'"
    and same: "hnext s' = hnext s" "hprev s' = hprev s" "htype s' = htype s" "active s' = active s"
      "linked s' = linked s" "links s' = links s" "b_init s' = b_init s"
      "ui2_free_handles s' = ui2_free_handles s" "ui2_num_total s' = ui2_num_total s"
      "ui2_num_free s' = ui2_num_free s" "ui2_num_peak_used s' = ui2_num_peak_used s"
      "ui2_num_used_per_grp s' = ui2_num_used_per_grp s"
  shows "handle_inv s' L A'"
proof -
  obtain fs where fs: "pool_ok s fs" using inv by (auto simp: handle_inv_def)
  have "pool_ok s' fs" by (rule pool_ok_cong [OF fs]) (simp_all add: same)
  moreover have "stats_ok s'"
    by (rule stats_ok_cong) (use inv same in \<open>auto simp: handle_inv_def\<close>)
  moreover have "lists_ok s' L"
    by (rule lists_ok_cong) (use inv same live_cong [of s' s] in \<open>auto simp: handle_inv_def\<close>)
  ultimately show ?thesis using inv aux same by (auto simp: handle_inv_def)
qed

text \<open>The invariant does not see the critical section, the flags other than ACTIVE and LINKED, or
  the object, tag and callback of a block.\<close>

lemma handle_inv_same:
  assumes inv: "handle_inv s L A"
    and same: "hnext s' = hnext s" "hprev s' = hprev s" "htype s' = htype s" "active s' = active s"
      "linked s' = linked s" "links s' = links s" "b_init s' = b_init s"
      "anext s' = anext s" "aprev s' = aprev s" "ahead s' = ahead s" "acount s' = acount s"
      "ui2_free_handles s' = ui2_free_handles s" "ui2_num_total s' = ui2_num_total s"
      "ui2_num_free s' = ui2_num_free s" "ui2_num_peak_used s' = ui2_num_peak_used s"
      "ui2_num_used_per_grp s' = ui2_num_used_per_grp s"
  shows "handle_inv s' L A"
  by (rule inv_aux_step [OF inv aux_ok_same])
    (use inv same live_cong [of s' s] in \<open>auto simp: handle_inv_def\<close>)

lemma handle_inv_crit [simp]:
  "handle_inv (crit_start s) L A = handle_inv s L A" "handle_inv (crit_end s) L A = handle_inv s L A"
  by (auto intro: handle_inv_same [of "crit_start s" L A s] handle_inv_same [of s L A "crit_start s"]
      handle_inv_same [of "crit_end s" L A s] handle_inv_same [of s L A "crit_end s"])

lemma sel_freeing [simp]:
  "active (set_flags i (fset H_CTRL_FLAG_FREEING) s) = active s"
  "active (set_flags i (fclr H_CTRL_FLAG_FREEING) s) = active s"
  "linked (set_flags i (fset H_CTRL_FLAG_FREEING) s) = linked s"
  "linked (set_flags i (fclr H_CTRL_FLAG_FREEING) s) = linked s"
  "active (set_flags i (fset H_CTRL_FLAG_PARSING) s) = active s"
  "active (set_flags i (fclr H_CTRL_FLAG_PARSING) s) = active s"
  "linked (set_flags i (fset H_CTRL_FLAG_PARSING) s) = linked s"
  "linked (set_flags i (fclr H_CTRL_FLAG_PARSING) s) = linked s"
  by (auto simp: fun_eq_iff active_def linked_def flag_simps)

lemma handle_inv_flags [simp]:
  "handle_inv s L A \<Longrightarrow> handle_inv (set_flags i (fset H_CTRL_FLAG_FREEING) s) L A"
  "handle_inv s L A \<Longrightarrow> handle_inv (set_flags i (fclr H_CTRL_FLAG_FREEING) s) L A"
  "handle_inv s L A \<Longrightarrow> handle_inv (set_flags i (fset H_CTRL_FLAG_PARSING) s) L A"
  "handle_inv s L A \<Longrightarrow> handle_inv (set_flags i (fclr H_CTRL_FLAG_PARSING) s) L A"
  by (auto intro: handle_inv_same)

lemma u_handle_link_to_aux_ok:
  assumes inv: "handle_inv s L A" and a: "get_h_ctrl_from_handle s ha = Some a" "htype s a = HT_AUX_LINK_HEAD"
    and i: "get_h_ctrl_from_handle s h = Some i" "HT_RES_BY_HANDLE_LIB \<le> htype s i" "ahead s i = 0"
  obtains s' where "u_handle_link_to_aux ha h s = (HR_OK, s')" "handle_inv s' L (A(a := i # A a))"
    "hcount s' = hcount s" "active s' = active s" "crit s' = crit s" "live s' = live s" "htype s' = htype s"
proof -
  let ?s' = "link_aux_head a i (crit_start s)"
  have e: "u_handle_link_to_aux ha h s = (HR_OK, crit_end ?s')"
    using inv a i by (simp add: u_handle_link_to_aux_def Let_def handle_inv_def)
  have "is_aux_head s a" "live s i" using a i by (simp_all add: is_aux_head_def get_h_ctrl_live)
  then have "aux_ok (link_aux_head a i s) (A(a := i # A a))"
    using inv i by (intro aux_ok_link) (simp_all add: handle_inv_def)
  then have "aux_ok (crit_end ?s') (A(a := i # A a))"
    by (rule aux_ok_same) (auto simp: live_def fun_eq_iff)
  then have "handle_inv (crit_end ?s') L (A(a := i # A a))"
    by (rule inv_aux_step [OF inv]) simp_all
  then show thesis using e that by (simp add: live_def fun_eq_iff)
qed

text \<open>When the head has no callback of its own.\<close>

lemma inv_unlink_aux:
  assumes inv: "handle_inv s L A" and i: "live s i" "ahead s i \<noteq> 0"
  shows "handle_inv (unlink_aux (ahead s i) i s) L (A(ahead s i := remove1 i (A (ahead s i))))"
  by (rule inv_aux_step [OF inv aux_ok_unlink]) (use inv i in \<open>simp_all add: handle_inv_def\<close>)

lemma u_handle_delink_from_aux_ok:
  assumes inv: "handle_inv s L A" and i: "get_h_ctrl_from_handle s h = Some i"
    "HT_RES_BY_HANDLE_LIB \<le> htype s i" "ahead s i \<noteq> 0"
    and cb: "u_ptr (ctrl s (ahead s i)) \<noteq> NULL \<Longrightarrow>
      acb (u_ptr (ctrl s (ahead s i))) (pv_obj (ctrl s (ahead s i))) (crit_start s) = Inr (crit_start s)"
  obtains s' where "u_handle_delink_from_aux acb h s = Inr (HR_OK, s')"
    "handle_inv s' L (A(ahead s i := remove1 i (A (ahead s i))))" "ahead s' i = 0"
    "hcount s' = hcount s" "active s' = active s" "crit s' = crit s"
proof -
  let ?s' = "unlink_aux (ahead s i) i (crit_start s)"
  have "u_handle_delink_from_aux acb h s = Inr (HR_OK, crit_end ?s')"
    using inv i cb by (auto simp: u_handle_delink_from_aux_def delink_from_aux_def Let_def handle_inv_def)
  moreover have "handle_inv ?s' L (A(ahead s i := remove1 i (A (ahead s i))))"
    using inv_unlink_aux [of "crit_start s" L A i] inv i
    by (simp add: get_h_ctrl_live live_def)
  ultimately show thesis using that [of "crit_end ?s'"] by simp
qed

section \<open>Allocation\<close>

lemma aux_ok_heads:
  "aux_ok s A \<Longrightarrow> (\<And>a. is_aux_head s a \<Longrightarrow> A' a = A a) \<Longrightarrow> aux_ok s A'"
  by (auto simp: aux_ok_def)

lemma u_handle_alloc_inv:
  assumes inv: "handle_inv s L A" and free: "ui2_free_handles s \<noteq> 0" and ra: "can_alloc ra s"
    and arg: "fre \<noteq> NULL" "ty \<noteq> INV_HANDLE_TYPE"
  defines "i \<equiv> ui2_free_handles s"
  obtains s' where
    "u_handle_alloc ra ty obj tag fre True s = Inr (HR_OK, Some (make_handle s' i), s')"
    "handle_inv s' L (A(i := []))" "live s' = (live s)(i := True)" "\<not> live s i" "\<not> linked s' i"
    "ctrl s' i = fill_ctrl ty obj tag fre (ctrl s i)" "\<And>j. live s j \<Longrightarrow> ctrl s' j = ctrl s j"
    "crit s' = crit s" "links s' = links s"
    "ui2_num_free s > 11 \<Longrightarrow> ui2_free_handles s' = hnext s i \<and> ui2_num_total s' = ui2_num_total s \<and>
      ui2_num_free s' = ui2_num_free s - 1"
proof -
  obtain fs0 where fs0: "pool_ok s fs0" using inv by (auto simp: handle_inv_def)
  then obtain fs where "fs0 = i # fs" using free by (cases fs0) (auto simp: pool_ok_def i_def)
  then have fs: "pool_ok s (i # fs)" using fs0 by simp
  have i: "0 < i" "i \<le> ui2_num_total s" "\<not> active s i"
    using pool_ok_not_active [OF fs, of i] by auto
  have st: "stats_ok s" "b_init s" using inv by (simp_all add: handle_inv_def)
  obtain s' new where s': "u_handle_alloc ra ty obj tag fre True s = Inr (HR_OK, Some (make_handle s' i), s')"
    "pool_ok s' (new @ fs)" "stats_ok s'" "ctrl s' i = fill_ctrl ty obj tag fre (ctrl s i)"
    "\<And>j. j \<le> ui2_num_total s \<Longrightarrow> j \<noteq> i \<Longrightarrow> ctrl s' j = ctrl s j"
    "\<And>j. ui2_num_total s < j \<Longrightarrow> j \<le> ui2_num_total s' \<Longrightarrow> hflags s' j = 0 \<and> ahead s' j = 0"
    "ui2_num_total s \<le> ui2_num_total s'" "links s' = links s" "crit s' = crit s" "b_init s'"
    and big: "ui2_num_free s > 11 \<Longrightarrow> new = [] \<and> ui2_num_total s' = ui2_num_total s \<and> ui2_num_free s' = ui2_num_free s - 1"
    by (rule u_handle_alloc_cases [OF fs st ra arg, of obj tag]) blast
  have at_i: "hflags s' i = 1" "ahead s' i = 0" "anext s' i = 0" "acount s' i = 0"
    using s'(4) by (simp_all add: field_defs del: field_folds)
  have nl: "\<not> linked s' i" "active s' i" using at_i(1) by (simp_all add: linked_def active_def ftst_def)
  have old: "ctrl s' j = ctrl s j" if "live s j" for j
    using s'(5) [of j] that i by (auto simp: live_def)
  have sel: "hnext s' j = hnext s j" "hprev s' j = hprev s j" "anext s' j = anext s j"
    "aprev s' j = aprev s j" "ahead s' j = ahead s j" "acount s' j = acount s j" "htype s' j = htype s j"
    "active s' j = active s j" "linked s' j = linked s j" if "live s j" for j
    using old [OF that] by (simp_all add: field_defs active_def linked_def del: field_folds)
  have lv: "live s' = (live s)(i := True)"
  proof
    fix j
    show "live s' j = ((live s)(i := True)) j"
    proof (cases "j = i")
      case True then show ?thesis using i nl(2) s'(7) by (auto simp: live_def)
    next
      case False
      show ?thesis
      proof (cases "j \<le> ui2_num_total s")
        case True
        have "active s' j = active s j"
          using s'(5) [OF True False] by (simp add: active_def hflags_def del: field_folds)
        then show ?thesis using True False s'(7) by (auto simp: live_def)
      next
        case g: False
        then have "\<not> live s' j" using s'(6) [of j] by (auto simp: live_def active_def flag_simps)
        then show ?thesis using g False by (simp add: live_def)
      qed
    qed
  qed
  have "\<not> live s i" using i by (simp add: live_def)
  have "lists_ok s' L"
    by (rule lists_ok_cong [of s]) (use inv sel nl s'(8) in \<open>auto simp: handle_inv_def lv split: if_splits\<close>)
  moreover have "aux_ok s' (\<lambda>a. if live s a then A a else [])"
    by (rule aux_ok_cong) (use inv sel at_i in \<open>auto simp: handle_inv_def lv split: if_splits\<close>)
  then have "aux_ok s' (A(i := []))"
    by (rule aux_ok_heads) (use \<open>\<not> live s i\<close> in \<open>auto simp: is_aux_head_def lv\<close>)
  ultimately have "handle_inv s' L (A(i := []))"
    using s'(2,3,10) by (auto simp: handle_inv_def)
  moreover have "ui2_free_handles s' = hnext s i \<and> ui2_num_total s' = ui2_num_total s \<and>
      ui2_num_free s' = ui2_num_free s - 1" if "ui2_num_free s > 11"
  proof -
    have "ui2_free_handles s' = head_or fs 0" "hnext s i = head_or fs 0"
      using s'(2) fs big [OF that] by (auto simp: pool_ok_def dest: path_start)
    then show ?thesis using big [OF that] by simp
  qed
  ultimately show thesis using that s' old lv \<open>\<not> live s i\<close> nl(1) by simp
qed

section \<open>The abstract map\<close>

lemma habs_eq: "habs s h = Some (ty, obj) \<longleftrightarrow>
    (\<exists>i. live s i \<and> make_handle s i = h \<and> htype s i = ty \<and> pv_obj (ctrl s i) = obj)"
  by (auto simp: habs_def get_h_ctrl_live)

lemma map_eq_iff_Some: "(\<And>h v. m h = Some v \<longleftrightarrow> m' h = Some v) \<Longrightarrow> m = m'"
  by (rule ext) (metis not_None_eq)

lemma habs_cong:
  assumes "live s' = live s" "\<And>i. live s i \<Longrightarrow> hcount s' i = hcount s i"
    "\<And>i. live s i \<Longrightarrow> htype s' i = htype s i" "\<And>i. live s i \<Longrightarrow> pv_obj (ctrl s' i) = pv_obj (ctrl s i)"
  shows "habs s' = habs s"
proof (rule map_eq_iff_Some)
  fix h and v :: "u16 \<times> ptr"
  obtain ty obj where v: "v = (ty, obj)" by (cases v)
  have mh: "make_handle s' i = make_handle s i" if "live s i" for i
    using assms(2) [OF that] by (rule make_handle_cong)
  show "habs s' h = Some v \<longleftrightarrow> habs s h = Some v"
    unfolding v habs_eq assms(1) using assms(3,4) mh by (intro ex_cong1) auto
qed

text \<open>A block joins the live ones.\<close>

lemma habs_insert:
  assumes i: "\<not> live s i" and lv: "live s' = (live s)(i := True)" and old: "\<And>j. live s j \<Longrightarrow> ctrl s' j = ctrl s j"
  shows "habs s' = (habs s)(make_handle s' i \<mapsto> (htype s' i, pv_obj (ctrl s' i)))"
    and "habs s (make_handle s' i) = None"
proof -
  show n: "habs s (make_handle s' i) = None"
    using i by (auto simp: habs_def get_h_ctrl_live make_handle_inject intro: option.exhaust
        split: option.splits simp flip: not_Some_eq)
  show "habs s' = (habs s)(make_handle s' i \<mapsto> (htype s' i, pv_obj (ctrl s' i)))"
  proof (rule map_eq_iff_Some)
    fix h and v :: "u16 \<times> ptr"
    obtain ty obj where v: "v = (ty, obj)" by (cases v)
    have sel: "make_handle s' j = make_handle s j" "htype s' j = htype s j" if "live s j" for j
      using old [OF that] by (simp_all add: make_handle_inject hcount_def htype_def del: field_folds)
    show "habs s' h = Some v \<longleftrightarrow> ((habs s)(make_handle s' i \<mapsto> (htype s' i, pv_obj (ctrl s' i)))) h = Some v"
    proof (cases "h = make_handle s' i")
      case True
      have "habs s' h = Some (htype s' i, pv_obj (ctrl s' i))"
        unfolding habs_eq True lv by (intro exI [of _ i]) simp
      then show ?thesis by (simp add: True)
    next
      case False
      have "(live s' j \<and> make_handle s' j = h \<and> htype s' j = ty \<and> pv_obj (ctrl s' j) = obj) \<longleftrightarrow>
          (live s j \<and> make_handle s j = h \<and> htype s j = ty \<and> pv_obj (ctrl s j) = obj)" for j
        using False i sel [of j] old [of j] by (cases "j = i") (auto simp: lv)
      then show ?thesis using False by (simp add: v habs_eq)
    qed
  qed
qed

lemma habs_delete:
  assumes i: "live s i" and lv: "live s' = (live s)(i := False)"
    and old: "\<And>j. j \<noteq> i \<Longrightarrow> live s j \<Longrightarrow> hcount s' j = hcount s j \<and> htype s' j = htype s j \<and>
      pv_obj (ctrl s' j) = pv_obj (ctrl s j)"
  shows "habs s' = (habs s)(make_handle s i := None)"
proof (rule map_eq_iff_Some)
  fix h and v :: "u16 \<times> ptr"
  obtain ty obj where v: "v = (ty, obj)" by (cases v)
  have mh: "make_handle s' j = make_handle s j" if "j \<noteq> i" "live s j" for j
    using old [OF that] by (intro make_handle_cong) simp
  have "(live s' j \<and> make_handle s' j = h \<and> htype s' j = ty \<and> pv_obj (ctrl s' j) = obj) \<longleftrightarrow>
      (h \<noteq> make_handle s i \<and> live s j \<and> make_handle s j = h \<and> htype s j = ty \<and> pv_obj (ctrl s j) = obj)" for j
    using mh [of j] old [of j] by (cases "j = i") (auto simp: lv make_handle_inject)
  then have "habs s' h = Some v \<longleftrightarrow> h \<noteq> make_handle s i \<and> habs s h = Some v"
    by (simp add: v habs_eq)
  then show "habs s' h = Some v \<longleftrightarrow> ((habs s)(make_handle s i := None)) h = Some v" by simp
qed

lemma u_handle_get_type_obj_habs:
  assumes "b_init s"
  shows "u_handle_get_type_obj h True True s =
    (case habs s h of Some v \<Rightarrow> (HR_OK, Some v, s) | None \<Rightarrow> (HR_INV_HANDLE, None, s))"
  using assms
  by (cases "get_h_ctrl_from_handle s h") (auto simp: u_handle_get_type_obj_def Let_def habs_def)

end
