(* ===== verification/HandleFree.thy ===== *)
theory HandleFree
  imports HandleLife
begin

text \<open>Freeing single handles, auxiliary list heads and whole lists.\<close>

section \<open>Objects, tags and callbacks\<close>

text \<open>No structural update touches the object, the tag or the callback of a block.\<close>

definition payload :: "'x hlib_scheme \<Rightarrow> u16 \<Rightarrow> ptr \<times> ptr \<times> fptr" where
  "payload s i = (pv_obj (ctrl s i), u_ptr (ctrl s i), pf_free (ctrl s i))"

lemma payload_simps [simp]:
  "payload (set_h_next i v s) = payload s" "payload (set_h_prev i v s) = payload s"
  "payload (set_aux_next i v s) = payload s" "payload (set_aux_prev i v s) = payload s"
  "payload (set_flags i g s) = payload s" "payload (upd_link l k s) = payload s"
  "payload (crit_start s) = payload s" "payload (crit_end s) = payload s"
  "payload (link_tail l i s) = payload s" "payload (unlink l i s) = payload s"
  "payload (unlink_aux a i s) = payload s" "payload (link_aux_head a i s) = payload s"
  "payload (put_free i s) = payload s"
proof -
  have u: "payload (upd_ctrl j f t) = payload t"
    if "\<And>c. pv_obj (f c) = pv_obj c" "\<And>c. u_ptr (f c) = u_ptr c" "\<And>c. pf_free (f c) = pf_free c"
    for j f and t :: "'x hlib_scheme"
    using that by (auto simp: payload_def fun_eq_iff ctrl_upd_ctrl)
  have 1: "payload (set_h_next i v t) = payload t" "payload (set_h_prev i v t) = payload t"
    "payload (set_aux_next i v t) = payload t" "payload (set_aux_prev i v t) = payload t"
    "payload (set_flags i g t) = payload t" "payload (upd_link l k t) = payload t"
    "payload (crit_start t) = payload t" "payload (crit_end t) = payload t"
    for i v g k and t :: "'x hlib_scheme"
    by (simp_all add: set_h_next_def set_h_prev_def set_aux_next_def set_aux_prev_def set_flags_def u)
      (simp_all add: payload_def fun_eq_iff)
  then show "payload (set_h_next i v s) = payload s" "payload (set_h_prev i v s) = payload s"
    "payload (set_aux_next i v s) = payload s" "payload (set_aux_prev i v s) = payload s"
    "payload (set_flags i g s) = payload s" "payload (upd_link l k s) = payload s"
    "payload (crit_start s) = payload s" "payload (crit_end s) = payload s" by blast+
  have g: "payload (t\<lparr>ui2_free_handles := a\<rparr>) = payload t" "payload (t\<lparr>ui2_num_free := a\<rparr>) = payload t"
    "payload (count_unused j t) = payload t" for a j and t :: "'x hlib_scheme"
    by (simp_all add: payload_def fun_eq_iff)
  show "payload (link_tail l i s) = payload s" "payload (unlink l i s) = payload s"
    "payload (unlink_aux a i s) = payload s" "payload (link_aux_head a i s) = payload s"
    "payload (put_free i s) = payload s"
    by (simp_all add: link_tail_def unlink_def unlink_aux_def link_aux_head_def put_free_def Let_def 1 u g)
qed

lemma payload_obj: "payload s' i = payload s j \<longleftrightarrow>
    pv_obj (ctrl s' i) = pv_obj (ctrl s j) \<and> u_ptr (ctrl s' i) = u_ptr (ctrl s j) \<and>
    pf_free (ctrl s' i) = pf_free (ctrl s j)"
  by (simp add: payload_def)

lemma payload_set_flags [simp]:
  "pv_obj (ctrl (set_flags i f s) j) = pv_obj (ctrl s j)"
  "u_ptr (ctrl (set_flags i f s) j) = u_ptr (ctrl s j)"
  "pf_free (ctrl (set_flags i f s) j) = pf_free (ctrl s j)"
  using payload_simps(5) [of i f s] payload_obj [of "set_flags i f s" j s j] by simp_all

lemma habs_cong_payload:
  assumes "live s' = live s" "hcount s' = hcount s" "htype s' = htype s" "payload s' = payload s"
  shows "habs s' = habs s"
  by (rule habs_cong) (use assms payload_obj [of s' _ s] in auto)

section \<open>Releasing a block\<close>

lemma release_ctrl_ok:
  assumes inv: "handle_inv s L A" and i: "live s i" "\<not> linked s i" "is_aux_head s i \<Longrightarrow> A i = []"
    and cb: "ahead s i \<noteq> 0 \<Longrightarrow> u_ptr (ctrl s (ahead s i)) = NULL"
  obtains s' where "release_ctrl acb i s = Inr s'"
    "handle_inv s' L (if ahead s i = 0 then A else A(ahead s i := remove1 i (A (ahead s i))))"
    "live s' = (live s)(i := False)" "hcount s' = (hcount s)(i := hcount s i + 1)" "htype s' = htype s"
    "payload s' = payload s" "crit s' = Suc (crit s)" "links s' = links s" "ui2_free_handles s' = i"
    "\<forall>j. j \<noteq> i \<longrightarrow> hflags s' j = hflags s j" "ahead s' = (ahead s)(i := 0)" "hlib.more s' = hlib.more s"
    "pt_h_ctrl_arr s' = pt_h_ctrl_arr s"
proof -
  let ?c = "crit_start s"
  let ?u = "if ahead s i = 0 then ?c else unlink_aux (ahead s i) i ?c"
  let ?A = "if ahead s i = 0 then A else A(ahead s i := remove1 i (A (ahead s i)))"
  have e: "release_ctrl acb i s = Inr (put_free i ?u)"
    using i(2) cb by (auto simp: release_ctrl_def delink_from_aux_def Let_def linked_def)
  have lc: "live ?c = live s" by (auto simp: live_def fun_eq_iff)
  have inv_u: "handle_inv ?u L ?A"
    using inv inv_unlink_aux [of ?c L A i] i(1) by (simp add: lc)
  have au: "ahead ?u = (ahead s)(i := 0)" by (auto simp: fun_eq_iff)
  have sel: "live ?u = live s" "linked ?u = linked s" "is_aux_head ?u = is_aux_head s"
    "hcount ?u = hcount s" "htype ?u = htype s" "hflags ?u = hflags s" "payload ?u = payload s"
    "links ?u = links s" "crit ?u = Suc (crit s)"
    by (auto simp: lc is_aux_head_def fun_eq_iff)
  have mr: "hlib.more (put_free i ?u) = hlib.more s"
    by (simp add: put_free_def Let_def set_h_next_def set_h_prev_def set_flags_def count_unused_def unlink_aux_def
        set_aux_next_def set_aux_prev_def split: option.split)
  have ar: "pt_h_ctrl_arr (put_free i ?u) = pt_h_ctrl_arr s"
    by (simp add: put_free_def Let_def count_unused_def unlink_aux_def)
  have hd: "is_aux_head ?u i \<Longrightarrow> ?A i = []"
    using i(3) sel(3) by auto
  have "handle_inv (put_free i ?u) L ?A"
    by (rule inv_put_free [OF inv_u]) (use i(1,2) hd sel au in auto)
  then show thesis
    by (intro that [OF e]) (simp_all add: live_put_free sel au mr ar del: fun_upd_apply split del: if_split, auto)
qed

section \<open>Freeing one handle\<close>

lemma sel_set_freeing [simp]:
  "live (set_flags i (fset H_CTRL_FLAG_FREEING) s) = live s"
  "live (set_flags i (fclr H_CTRL_FLAG_FREEING) s) = live s"
  "live (crit_start s) = live s" "live (crit_end s) = live s"
  by (auto simp: live_def fun_eq_iff)

lemma u_handle_free_ok:
  assumes init: "b_init s" and h: "get_h_ctrl_from_handle s h = Some i"
    and fr: "\<not> ftst H_CTRL_FLAG_FREEING (hflags s i)" "pf_free (ctrl s i) \<noteq> NULL"
    and cb: "call_free cb (pf_free (ctrl s i)) h (htype s i) (pv_obj (ctrl s i)) (u_ptr (ctrl s i)) req
        (set_flags i (fset H_CTRL_FLAG_FREEING) s) = Inr (True, s1)"
    and stays: "pt_h_ctrl_arr s1 = pt_h_ctrl_arr s"
    and inv: "handle_inv s1 L A" and i: "live s1 i" "\<not> linked s1 i" "is_aux_head s1 i \<Longrightarrow> A i = []"
    and acb: "ahead s1 i \<noteq> 0 \<Longrightarrow> u_ptr (ctrl s1 (ahead s1 i)) = NULL"
  obtains s' where "u_handle_free cb acb h req s = Inr (HR_OK, s')"
    "handle_inv s' L (if ahead s1 i = 0 then A else A(ahead s1 i := remove1 i (A (ahead s1 i))))"
    "habs s' = (habs s1)(make_handle s1 i := None)" "live s' = (live s1)(i := False)"
    "hcount s' = (hcount s1)(i := hcount s1 i + 1)" "crit s' = crit s1" "htype s' = htype s1" "payload s' = payload s1"
    "\<And>j. j \<noteq> i \<Longrightarrow> hflags s' j = hflags s1 j" "ahead s' = (ahead s1)(i := 0)" "hlib.more s' = hlib.more s1"
    "pt_h_ctrl_arr s' = pt_h_ctrl_arr s"
proof -
  have c: "crit_end (set_flags i f (crit_start s)) = set_flags i f s" for f
    by (simp add: crit_end_def crit_start_def set_flags_def upd_ctrl_def)
  have pl: "pf_free (ctrl (set_flags i f s) i) = pf_free (ctrl s i)" for f
    using payload_simps(5) [of i f s] by (metis payload_obj)
  obtain s2 where s2: "release_ctrl acb i s1 = Inr s2"
    "handle_inv s2 L (if ahead s1 i = 0 then A else A(ahead s1 i := remove1 i (A (ahead s1 i))))"
    "live s2 = (live s1)(i := False)" "hcount s2 = (hcount s1)(i := hcount s1 i + 1)" "htype s2 = htype s1"
    "payload s2 = payload s1" "crit s2 = Suc (crit s1)"
    "\<forall>j. j \<noteq> i \<longrightarrow> hflags s2 j = hflags s1 j" "ahead s2 = (ahead s1)(i := 0)" "hlib.more s2 = hlib.more s1"
    "pt_h_ctrl_arr s2 = pt_h_ctrl_arr s1"
    by (rule release_ctrl_ok [OF inv i acb])
  have "u_handle_free cb acb h req s = Inr (HR_OK, crit_end s2)"
    using init h fr cb s2(1) stays by (simp add: u_handle_free_def hold_def Let_def c pl)
  moreover have "habs (crit_end s2) = (habs s1)(make_handle s1 i := None)"
    by (rule habs_delete [OF i(1)])
      (use s2(3-6) payload_obj [of s2 _ s1] in \<open>auto simp del: fun_upd_apply, auto\<close>)
  ultimately show thesis using s2 stays that [of "crit_end s2"] by simp
qed

text \<open>When the callback moves the array, the next use of the block is a fault.\<close>

lemma u_handle_free_moved:
  assumes "b_init s" "get_h_ctrl_from_handle s h = Some i"
    and "\<not> ftst H_CTRL_FLAG_FREEING (hflags s i)" "pf_free (ctrl s i) \<noteq> NULL"
    and "call_free cb (pf_free (ctrl s i)) h (htype s i) (pv_obj (ctrl s i)) (u_ptr (ctrl s i)) req
        (set_flags i (fset H_CTRL_FLAG_FREEING) s) = Inr (b, s1)"
    and "pt_h_ctrl_arr s1 \<noteq> pt_h_ctrl_arr s"
  shows "u_handle_free cb acb h req s = Inl BadAccess"
proof -
  have c: "crit_end (set_flags i f (crit_start s)) = set_flags i f s" for f
    by (simp add: crit_end_def crit_start_def set_flags_def upd_ctrl_def)
  have pl: "pf_free (ctrl (set_flags i f s) i) = pf_free (ctrl s i)" for f
    using payload_simps(5) [of i f s] by (metis payload_obj)
  show ?thesis using assms by (simp add: u_handle_free_def hold_def Let_def c pl)
qed

text \<open>The state after a refused free is the state before it.\<close>

lemma flag_roundtrip:
  assumes "\<not> ftst m f"
  shows "fclr m (fset m f) = f"
proof -
  have "f AND m = 0" using assms by (simp add: ftst_def)
  then have "f AND NOT m = f"
    by (metis bit.conj_cancel_right bit.conj_disj_distrib bit.disj_cancel_right bit.conj_one_right
        or.left_neutral)
  then show ?thesis
    by (simp add: fclr_def fset_def bit.conj_disj_distrib2)
qed

lemma set_flags_twice: "set_flags i g (set_flags i f s) = set_flags i (g \<circ> f) s"
  by (simp add: set_flags_def upd_ctrl_def)

lemma set_flags_same: "g (hflags s i) = hflags s i \<Longrightarrow> set_flags i g s = s"
  by (simp add: set_flags_def upd_ctrl_def hflags_def ctrl_def del: field_folds)

lemma crit_set_flags: "crit_end (set_flags i f (crit_start s)) = set_flags i f s"
  by (simp add: crit_end_def crit_start_def set_flags_def upd_ctrl_def)

lemma u_handle_free_refused:
  assumes init: "b_init s" and h: "get_h_ctrl_from_handle s h = Some i"
    and fr: "\<not> ftst H_CTRL_FLAG_FREEING (hflags s i)" "pf_free (ctrl s i) \<noteq> NULL"
    and cb: "call_free cb (pf_free (ctrl s i)) h (htype s i) (pv_obj (ctrl s i)) (u_ptr (ctrl s i)) req
        (set_flags i (fset H_CTRL_FLAG_FREEING) s) = Inr (False, set_flags i (fset H_CTRL_FLAG_FREEING) s)"
  shows "u_handle_free cb acb h req s = Inr (HR_FREE_NOT_ALLOWED, s)"
proof -
  have pl: "pf_free (ctrl (set_flags i f s) i) = pf_free (ctrl s i)" for f
    using payload_simps(5) [of i f s] by (metis payload_obj)
  have "set_flags i (fclr H_CTRL_FLAG_FREEING) (set_flags i (fset H_CTRL_FLAG_FREEING) s) = s"
    unfolding set_flags_twice using flag_roundtrip [OF fr(1)] by (intro set_flags_same) simp
  then show ?thesis
    using init h fr cb by (simp add: u_handle_free_def hold_def Let_def crit_set_flags pl)
qed

text \<open>The head of an auxiliary list: its callback agrees exactly when the list is empty.\<close>

lemma aux_link_head_free_eq:
  assumes inv: "handle_inv s L A" and h: "get_h_ctrl_from_handle s h = Some a" and t: "htype s a = HT_AUX_LINK_HEAD"
  shows "aux_link_head_free h HT_AUX_LINK_HEAD obj tag req s = Inr (A a = [], s)"
proof -
  have "is_aux_head s a" using h t by (simp add: is_aux_head_def get_h_ctrl_live)
  then have "unat (acount s a) = length (A a)"
    using inv alist_count [of s a "A a"] by (simp add: handle_inv_def aux_ok_def)
  then have "acount s a = 0 \<longleftrightarrow> A a = []" by (auto simp: word_unat_eq_iff)
  then show ?thesis using h by (simp add: aux_link_head_free_def Let_def)
qed

section \<open>Freeing a list\<close>

text \<open>A free callback that takes the handle off list \<open>l\<close> and otherwise changes the client's own data only.\<close>

definition frees_by_delink :: "'x free_cb \<Rightarrow> ptr \<Rightarrow> bool" where
  "frees_by_delink cb l \<longleftrightarrow> (\<forall>f h ty obj tag req s. \<exists>m.
     cb f h ty obj tag req s = Inr (True, hlib.more_update (\<lambda>_. m) (snd (u_handle_delink l h s))))"

lemma more_sel [simp]:
  "ctrl (hlib.more_update g s) = ctrl s" "links (hlib.more_update g s) = links s"
  "b_init (hlib.more_update g s) = b_init s" "ui2_free_handles (hlib.more_update g s) = ui2_free_handles s"
  "ui2_num_total (hlib.more_update g s) = ui2_num_total s" "ui2_num_free (hlib.more_update g s) = ui2_num_free s"
  "ui2_num_peak_used (hlib.more_update g s) = ui2_num_peak_used s"
  "pt_h_ctrl_arr (hlib.more_update g s) = pt_h_ctrl_arr s"
  "ui2_num_used_per_grp (hlib.more_update g s) = ui2_num_used_per_grp s" "crit (hlib.more_update g s) = crit s"
  by (simp_all add: ctrl_def fun_eq_iff)

lemmas more_sel' [simp] = sel_cong [OF more_sel(1)]

lemma live_more [simp]: "live (hlib.more_update g s) = live s"
  by (auto simp: live_def fun_eq_iff)

lemma payload_more [simp]: "payload (hlib.more_update g s) = payload s"
  by (auto simp: payload_def fun_eq_iff)

lemma handle_inv_more [simp]: "handle_inv s L A \<Longrightarrow> handle_inv (hlib.more_update g s) L A"
  by (auto intro: handle_inv_same)

text \<open>What a block must be like for \<open>u_handle_free_all\<close> to succeed on it.\<close>

definition freeable :: "'x hlib_scheme \<Rightarrow> u16 \<Rightarrow> bool" where
  "freeable s i \<longleftrightarrow> HT_RES_BY_HANDLE_LIB \<le> htype s i \<and> \<not> ftst H_CTRL_FLAG_FREEING (hflags s i) \<and>
    pf_free (ctrl s i) \<noteq> NULL \<and> pf_free (ctrl s i) \<noteq> fn_aux_link_head_free \<and> ahead s i = 0"

lemma free_all_loop_ok:
  assumes cb: "frees_by_delink cb l"
    and "handle_inv s L A" "L l = Some xs" "\<And>i. i \<in> set xs \<Longrightarrow> freeable s i" "0 < crit s"
      "\<not> ftst H_LINK_FLAG_PARSING (hl_flags (links s l))"
  shows "\<exists>s'. free_all_loop cb acb l s = Some (Inr (True, s')) \<and> handle_inv s' (L(l \<mapsto> [])) A \<and>
    live s' = (\<lambda>i. live s i \<and> i \<notin> set xs) \<and> habs s' = habs s |` (- make_handle s ` set xs) \<and>
    crit s' = crit s \<and> hl_flags (links s' l) = hl_flags (links s l)"
  using assms(2-)
proof (induction xs arbitrary: s L)
  case Nil
  then have "lists_ok s L" by (simp add: handle_inv_def)
  with Nil have "ui2_head (links s l) = 0" using lists_okD(2) [of s L l "[]"] by (simp add: hlist_def)
  then have "free_all_loop cb acb l s = Some (Inr (True, s))"
    by (subst free_all_loop.simps) (simp add: get_h_ctrl_from_idx_def)
  moreover have "L(l \<mapsto> []) = L" using Nil by auto
  ultimately show ?case using Nil by auto
next
  case (Cons i ys)
  have ok: "lists_ok s L" using Cons.prems by (simp add: handle_inv_def)
  have hl: "dlist (hnext s) (hprev s) 0 (ui2_head (links s l)) (ui2_tail (links s l)) (i # ys)"
    using lists_okD(2) [OF ok Cons.prems(2)] by (simp add: hlist_def)
  have i: "live s i" "linked s i" using lists_okD(4) [OF ok Cons.prems(2)] by auto
  have ys: "i \<notin> set ys" using dlist_distinct [OF hl] by simp
  have hd: "ui2_head (links s l) = i" using dlist_head [OF hl] by simp
  let ?s1 = "crit_end (set_flags i (fset H_CTRL_FLAG_FREEING) s)"
  have inv1: "handle_inv ?s1 L A" using Cons.prems(1) by simp
  have l1: "live ?s1 = live s" "linked ?s1 = linked s" by simp_all
  have fr: "freeable s i" using Cons.prems(3) by simp
  have i0: "i \<noteq> 0" using i(1) by (auto simp: live_def)
  have h1: "get_h_ctrl_from_handle ?s1 (make_handle ?s1 i) = Some i"
    using i(1) l1 by (simp add: get_h_ctrl_live)
  obtain s2 where s2: "u_handle_delink l (make_handle ?s1 i) ?s1 = (HR_OK, s2)"
    "handle_inv s2 (L(l \<mapsto> remove1 i (i # ys))) A" "\<not> linked s2 i"
    "s2 = unlink l i (set_flags i (fclr H_CTRL_FLAG_LINKED) ?s1)"
    by (rule u_handle_delink_ok [OF inv1 Cons.prems(2) h1])
      (use fr Cons.prems(5) in \<open>auto simp: freeable_def\<close>)
  obtain m where m: "cb (pf_free (ctrl ?s1 i)) (make_handle ?s1 i) (htype ?s1 i) (pv_obj (ctrl s i))
      (u_ptr (ctrl s i)) False ?s1 = Inr (True, hlib.more_update (\<lambda>_. m) s2)"
    using cb s2(1) unfolding frees_by_delink_def by (metis snd_conv)
  let ?s2 = "hlib.more_update (\<lambda>_. m) s2"
  have sel2: "live s2 = live s" "hcount s2 = hcount s" "htype s2 = htype s" "ahead s2 = ahead s"
    "payload s2 = payload s" "crit s2 = crit s - 1" "hl_flags (links s2 l) = hl_flags (links s l)"
    "\<And>j. j \<noteq> i \<Longrightarrow> hflags s2 j = hflags s j"
    by (simp_all add: s2(4) live_def fun_eq_iff)
  have nh: "\<not> is_aux_head s i"
    using fr head_type_not_client unfolding freeable_def is_aux_head_def by metis
  have p: "handle_inv ?s2 (L(l \<mapsto> ys)) A" "live ?s2 i" "\<not> linked ?s2 i" "\<not> is_aux_head ?s2 i" "ahead ?s2 i = 0"
    using s2(2,3) i nh fr by (simp_all add: sel2 is_aux_head_def freeable_def)
  obtain s3 where r: "release_ctrl acb i ?s2 = Inr s3"
    "handle_inv s3 (L(l \<mapsto> ys)) (if ahead ?s2 i = 0 then A else A(ahead ?s2 i := remove1 i (A (ahead ?s2 i))))"
    "live s3 = (live ?s2)(i := False)" "hcount s3 = (hcount ?s2)(i := hcount ?s2 i + 1)" "htype s3 = htype ?s2"
    "payload s3 = payload ?s2" "crit s3 = Suc (crit ?s2)" "links s3 = links ?s2"
    "\<And>j. j \<noteq> i \<Longrightarrow> hflags s3 j = hflags ?s2 j" "ahead s3 = (ahead ?s2)(i := 0)"
    by (rule release_ctrl_ok [OF p(1-3), of acb]) (use p(4,5) in auto)
  have a0: "ahead s i = 0" using fr by (simp add: freeable_def)
  have s3: "release_ctrl acb i ?s2 = Inr s3" "handle_inv s3 (L(l \<mapsto> ys)) A"
    "live s3 = (live s)(i := False)" "hcount s3 = (hcount s)(i := hcount s i + 1)" "htype s3 = htype s"
    "payload s3 = payload s" "crit s3 = crit s" "hl_flags (links s3 l) = hl_flags (links s l)"
    "\<And>j. j \<noteq> i \<Longrightarrow> hflags s3 j = hflags s j" "ahead s3 = ahead s"
    using r p(5) Cons.prems(4) a0 by (simp_all add: sel2 fun_upd_idem)
  have hb: "habs s3 = (habs s)(make_handle s i := None)"
    by (rule habs_delete [OF i(1) s3(3)])
      (use s3(4-6) payload_obj [of s3 _ s] in auto)
  have ar: "pt_h_ctrl_arr s2 = pt_h_ctrl_arr s" by (simp add: s2(4) unlink_def Let_def)
  have st: "free_all_loop cb acb l s = free_all_loop cb acb l s3"
    using fr m s3(1) ar
    by (subst free_all_loop.simps) (simp add: hd get_h_ctrl_from_idx_def freeable_def hold_def Let_def call_free_def i0)
  have fr3: "freeable s3 j" if "j \<in> set ys" for j
  proof -
    have "j \<noteq> i" using that ys by auto
    then show ?thesis
      using Cons.prems(3) [of j] that s3 payload_obj [of s3 j s j] by (simp add: freeable_def)
  qed
  have "\<exists>s'. free_all_loop cb acb l s3 = Some (Inr (True, s')) \<and> handle_inv s' ((L(l \<mapsto> ys))(l \<mapsto> [])) A \<and>
    live s' = (\<lambda>i. live s3 i \<and> i \<notin> set ys) \<and> habs s' = habs s3 |` (- make_handle s3 ` set ys) \<and>
    crit s' = crit s3 \<and> hl_flags (links s' l) = hl_flags (links s3 l)"
    by (rule Cons.IH [OF s3(2)]) (use fr3 s3 Cons.prems(4,5) in auto)
  moreover have "make_handle s3 ` set ys = make_handle s ` set ys"
    by (rule image_cong) (use ys s3(4) in \<open>auto intro!: make_handle_cong\<close>)
  moreover have "(habs s)(make_handle s i := None) |` (- H) = habs s |` (- insert (make_handle s i) H)" for H
    by (auto simp: fun_eq_iff restrict_map_def)
  moreover have "(\<lambda>j. live s3 j \<and> j \<notin> set ys) = (\<lambda>j. live s j \<and> j \<notin> set (i # ys))"
    by (auto simp: s3(3) fun_eq_iff)
  ultimately show ?case
    by (simp only: st s3(7,8) hb fun_upd_upd list.set image_insert)
qed

lemma u_handle_free_all_ok:
  assumes cb: "frees_by_delink cb l" and inv: "handle_inv s L A" "L l = Some xs"
    and fr: "\<And>i. i \<in> set xs \<Longrightarrow> freeable s i"
    and fl: "\<not> ftst H_LINK_FLAG_PARSING (hl_flags (links s l))" "\<not> ftst H_LINK_FLAG_FREE_ALL (hl_flags (links s l))"
  obtains s' where "u_handle_free_all cb acb l s = Inr (HR_OK, s')" "handle_inv s' (L(l \<mapsto> [])) A"
    "habs s' = habs s |` (- make_handle s ` set xs)" "crit s' = crit s"
    "hl_flags (links s' l) = hl_flags (links s l)"
proof -
  have ok: "lists_ok s L" using inv by (simp add: handle_inv_def)
  let ?up = "upd_link l (\<lambda>k. k\<lparr>hl_flags := fset H_LINK_FLAG_FREE_ALL (hl_flags k)\<rparr>)"
  let ?dn = "upd_link l (\<lambda>k. k\<lparr>hl_flags := fclr H_LINK_FLAG_FREE_ALL (hl_flags k)\<rparr>)"
  have flags_inv: "handle_inv (upd_link l (\<lambda>k. k\<lparr>hl_flags := g (hl_flags k)\<rparr>) t) M A"
    if "handle_inv t M A" for g M and t :: "'a hlib_scheme"
  proof (rule inv_list_step [OF that])
    show "lists_ok (upd_link l (\<lambda>k. k\<lparr>hl_flags := g (hl_flags k)\<rparr>) t) M"
      using that by (simp add: handle_inv_def lists_ok_def hlist_def live_def)
  qed simp_all
  let ?s = "crit_start (?up s)"
  have "handle_inv ?s L A" using flags_inv [OF inv(1)] by simp
  moreover have "freeable ?s i" if "i \<in> set xs" for i
    using fr [OF that] by (simp add: freeable_def)
  moreover have "\<not> ftst H_LINK_FLAG_PARSING (hl_flags (links ?s l))"
    using fl by (simp add: flag_simps)
  ultimately obtain s1 where s1: "free_all_loop cb acb l ?s = Some (Inr (True, s1))"
    "handle_inv s1 (L(l \<mapsto> [])) A" "habs s1 = habs ?s |` (- make_handle ?s ` set xs)"
    "crit s1 = crit ?s" "hl_flags (links s1 l) = hl_flags (links ?s l)"
    using free_all_loop_ok [OF cb, of ?s L A xs acb] inv(2) by auto
  have hb: "habs (?dn (crit_end s1)) = habs s1"
    by (rule habs_cong_payload) (simp_all add: live_def fun_eq_iff)
  have hs: "habs ?s = habs s"
    by (rule habs_cong_payload) (simp_all add: live_def fun_eq_iff)
  have mh: "make_handle ?s = make_handle s" by (rule ext, rule make_handle_cong) simp
  have "u_handle_free_all cb acb l s = Inr (HR_OK, ?dn (crit_end s1))"
    using inv(1) fl lists_okD(1) [OF ok inv(2)] s1(1)
    by (simp add: u_handle_free_all_def Let_def handle_inv_def)
  then show thesis
    using that [of "?dn (crit_end s1)"] s1 flags_inv [of "crit_end s1"] flag_roundtrip [OF fl(2)]
    by (simp add: hb hs mh)
qed

section \<open>Visiting a list\<close>

text \<open>A parse callback that only works on the client's own data and asks to stop or to go on: what
  it does at position \<open>k\<close> with the block of index \<open>i\<close>, and where it stops.\<close>

fun visit :: "(nat \<Rightarrow> u16 \<Rightarrow> 'm \<Rightarrow> bool) \<Rightarrow> (nat \<Rightarrow> u16 \<Rightarrow> 'm \<Rightarrow> 'm) \<Rightarrow> nat \<Rightarrow> u16 list \<Rightarrow> 'm \<Rightarrow> 'm" where
  "visit stop g k [] m = m"
| "visit stop g k (i # xs) m = (if stop k i m then g k i m else visit stop g (Suc k) xs (g k i m))"

definition reads_only :: "'x parse_cb \<Rightarrow> fptr \<Rightarrow> ptr \<Rightarrow> 'x hlib_scheme \<Rightarrow>
    (nat \<Rightarrow> u16 \<Rightarrow> 'x \<Rightarrow> bool) \<Rightarrow> (nat \<Rightarrow> u16 \<Rightarrow> 'x \<Rightarrow> 'x) \<Rightarrow> bool" where
  "reads_only pcb pf data s0 stop g \<longleftrightarrow> (\<forall>k n i s. live s0 i \<longrightarrow> k < 65536 \<longrightarrow>
     pcb pf (of_nat k) n (make_handle s0 i) (htype s0 i) (pv_obj (ctrl s0 i)) (u_ptr (ctrl s0 i)) data s =
       Inr (if stop k i (hlib.more s) then HP_BREAK else HP_NEXT, hlib.more_update (g k i) s))"

lemma more_set_flags [simp]: "hlib.more (set_flags i f s) = hlib.more s"
  by (simp add: set_flags_def)

lemma set_flags_more: "set_flags i f (hlib.more_update g s) = hlib.more_update g (set_flags i f s)"
  by (simp add: set_flags_def upd_ctrl_def)

lemma parse_loop_visits:
  assumes r: "reads_only pcb pf data s0 stop g"
    and "path (hnext s0) h ys 0" "\<forall>i\<in>set ys. live s0 i \<and> \<not> ftst H_CTRL_FLAG_PARSING (hflags s0 i)"
      "k + length ys < 65536" "s = hlib.more_update (\<lambda>_. m) s0"
  shows "parse_loop pcb l pf data (get_h_ctrl_from_idx h) (of_nat k) s =
    Some (Inr (hlib.more_update (\<lambda>_. visit stop g k ys m) s0))"
  using assms(2-)
proof (induction ys arbitrary: h k m s)
  case Nil
  then show ?case by (subst parse_loop.simps) (simp add: get_h_ctrl_from_idx_def)
next
  case (Cons i ys)
  let ?on = "set_flags i (fset H_CTRL_FLAG_PARSING)" and ?off = "set_flags i (fclr H_CTRL_FLAG_PARSING)"
  have i: "live s0 i" "\<not> ftst H_CTRL_FLAG_PARSING (hflags s0 i)" "h = i" "i \<noteq> 0"
    using Cons.prems by (auto simp: live_def)
  have mh: "make_handle (?on s) i = make_handle s0 i" using Cons.prems(4) by (intro make_handle_cong) simp
  have undo: "?off (hlib.more_update f (?on s)) = hlib.more_update f s" for f
    unfolding set_flags_more set_flags_twice
    using flag_roundtrip [OF i(2)] Cons.prems(4) set_flags_same [of "fclr 2 \<circ> fset 2" s i] by simp
  have call: "pcb pf (of_nat k) n (make_handle s0 i) (htype s0 i) (pv_obj (ctrl s0 i)) (u_ptr (ctrl s0 i)) data (?on s)
      = Inr (if stop k i m then HP_BREAK else HP_NEXT, hlib.more_update (g k i) (?on s))" for n
    using r i(1) Cons.prems(3,4) by (simp add: reads_only_def)
  have st: "hlib.more_update (g k i) s = hlib.more_update (\<lambda>_. g k i m) s0"
    using Cons.prems(4) by simp
  have IH: "parse_loop pcb l pf data (get_h_ctrl_from_idx (hnext s0 i)) (of_nat (Suc k))
      (hlib.more_update (\<lambda>_. g k i m) s0) =
      Some (Inr (hlib.more_update (\<lambda>_. visit stop g (Suc k) ys (g k i m)) s0))"
    by (rule Cons.IH) (use Cons.prems in auto)
  have hn: "hnext s i = hnext s0 i" "htype s i = htype s0 i" "pv_obj (ctrl s i) = pv_obj (ctrl s0 i)"
    "u_ptr (ctrl s i) = u_ptr (ctrl s0 i)" "links s = links s0"
    using Cons.prems(4) by simp_all
  show ?case
    unfolding i(3)
    by (subst parse_loop.simps)
      (use i(4) IH in \<open>simp add: get_h_ctrl_from_idx_def hold_def Let_def mh hn call undo st add.commute\<close>)
qed

lemma handle_parse_visits:
  assumes inv: "handle_inv s L A" "L l = Some xs" and pf: "pf \<noteq> NULL"
    and fl: "\<not> ftst H_LINK_FLAG_PARSING (hl_flags (links s l))"
      "\<And>i. i \<in> set xs \<Longrightarrow> \<not> ftst H_CTRL_FLAG_PARSING (hflags s i)"
    and r: "reads_only pcb pf data s stop g"
  shows "handle_parse pcb l pf data s = Inr (HR_OK, hlib.more_update (visit stop g 0 xs) s)"
proof -
  have ok: "lists_ok s L" using inv by (simp add: handle_inv_def)
  let ?up = "upd_link l (\<lambda>k. k\<lparr>hl_flags := fset H_LINK_FLAG_PARSING (hl_flags k)\<rparr>)"
  let ?dn = "upd_link l (\<lambda>k. k\<lparr>hl_flags := fclr H_LINK_FLAG_PARSING (hl_flags k)\<rparr>)"
  have hl: "hlist s l xs" and lv: "\<forall>i\<in>set xs. live s i" using lists_okD [OF ok inv(2)] by auto
  have pt: "path (hnext (?up s)) (ui2_head (links (?up s) l)) xs 0"
    using hl by (simp add: hlist_def dlist_def)
  have len: "length xs < 65536" using length_live [of xs s] lv hl by (simp add: hlist_def dlist_def)
  have lu: "live (?up s) = live s" by (simp add: live_def fun_eq_iff)
  have "make_handle (?up s) i = make_handle s i" for i by (rule make_handle_cong) simp
  then have ru: "reads_only pcb pf data (?up s) stop g"
    using r by (simp add: reads_only_def lu)
  have "parse_loop pcb l pf data (get_h_ctrl_from_idx (ui2_head (links (?up s) l))) (of_nat 0) (?up s) =
      Some (Inr (hlib.more_update (\<lambda>_. visit stop g 0 xs (hlib.more s)) (?up s)))"
    by (rule parse_loop_visits [OF ru pt]) (use lv len fl in \<open>auto simp: lu\<close>)
  moreover have "?dn (hlib.more_update f (?up s)) = hlib.more_update f s" for f
    using flag_roundtrip [OF fl(1)] by (simp add: upd_link_def)
  ultimately show ?thesis
    using inv(1) lists_okD(1) [OF ok inv(2)] pf fl(1)
    by (simp add: handle_parse_def Let_def handle_inv_def)
qed

end
