(* ===== verification/ListADT.thy ===== *)
theory ListADT
  imports DList
begin

text \<open>The interface of an intrusive list.  Handle lists, the registries of message queues and
  threads, thread-private data and the DLIST macros all promise the same to their callers: an
  element goes to the end of the list, a member can be taken out, and nothing else changes.  The
  contract is the locale; each component interprets it on its own operations and gets from it what
  any sequence of calls does.\<close>

datatype 'a list_op = Ins 'a | Rem 'a

primrec run_op :: "('a \<Rightarrow> 's \<Rightarrow> 's) \<Rightarrow> ('a \<Rightarrow> 's \<Rightarrow> 's) \<Rightarrow> 'a list_op \<Rightarrow> 's \<Rightarrow> 's" where
  "run_op ins del (Ins x) s = ins x s"
| "run_op ins del (Rem x) s = del x s"

primrec spec_op :: "'a list_op \<Rightarrow> 'a list \<Rightarrow> 'a list" where
  "spec_op (Ins x) xs = xs @ [x]"
| "spec_op (Rem x) xs = remove1 x xs"

primrec fits :: "('a \<Rightarrow> bool) \<Rightarrow> 'a list_op \<Rightarrow> 'a list \<Rightarrow> bool" where
  "fits ok (Ins x) xs = (ok x \<and> x \<notin> set xs)"
| "fits ok (Rem x) xs = (x \<in> set xs)"

text \<open>A sequence of calls each of which is allowed where it is made.\<close>

fun fits_all :: "('a \<Rightarrow> bool) \<Rightarrow> 'a list_op list \<Rightarrow> 'a list \<Rightarrow> bool" where
  "fits_all ok [] xs = True"
| "fits_all ok (p # ps) xs = (fits ok p xs \<and> fits_all ok ps (spec_op p xs))"

definition run_ops :: "('a \<Rightarrow> 's \<Rightarrow> 's) \<Rightarrow> ('a \<Rightarrow> 's \<Rightarrow> 's) \<Rightarrow> 'a list_op list \<Rightarrow> 's \<Rightarrow> 's" where
  "run_ops ins del ps s = fold (run_op ins del) ps s"

definition spec_ops :: "'a list_op list \<Rightarrow> 'a list \<Rightarrow> 'a list" where
  "spec_ops ps xs = fold spec_op ps xs"

lemma run_ops_simps [simp]:
  "run_ops ins del [] s = s" "run_ops ins del (p # ps) s = run_ops ins del ps (run_op ins del p s)"
  by (simp_all add: run_ops_def)

lemma spec_ops_simps [simp]: "spec_ops [] xs = xs" "spec_ops (p # ps) xs = spec_ops ps (spec_op p xs)"
  by (simp_all add: spec_ops_def)

locale intrusive_list =
  fixes rel :: "'s \<Rightarrow> 'a list \<Rightarrow> bool" and ins :: "'a \<Rightarrow> 's \<Rightarrow> 's" and del :: "'a \<Rightarrow> 's \<Rightarrow> 's"
    and ok :: "'a \<Rightarrow> bool"
  assumes ins: "rel s xs \<Longrightarrow> ok x \<Longrightarrow> x \<notin> set xs \<Longrightarrow> rel (ins x s) (xs @ [x])"
    and del: "rel s xs \<Longrightarrow> x \<in> set xs \<Longrightarrow> rel (del x s) (remove1 x xs)"
    and unique: "rel s xs \<Longrightarrow> distinct xs"
begin

lemma step: "rel s xs \<Longrightarrow> fits ok p xs \<Longrightarrow> rel (run_op ins del p s) (spec_op p xs)"
  by (cases p) (auto simp: ins del)

theorem refines: "rel s xs \<Longrightarrow> fits_all ok ps xs \<Longrightarrow> rel (run_ops ins del ps s) (spec_ops ps xs)"
  by (induction ps arbitrary: s xs) (auto intro: step)

text \<open>What is put in at the end and not taken out comes last.\<close>

lemma insert_all:
  assumes "rel s xs" "distinct ys" "set ys \<inter> set xs = {}" "\<forall>y\<in>set ys. ok y"
  shows "rel (run_ops ins del (map Ins ys) s) (xs @ ys)"
  using assms
proof (induction ys arbitrary: s xs)
  case (Cons y ys)
  then have "rel (ins y s) (xs @ [y])" by (auto intro: ins)
  with Cons.IH [of "ins y s" "xs @ [y]"] Cons.prems show ?case by auto
qed simp

text \<open>Taking every member out, in any order, leaves an empty list.\<close>

lemma drain:
  assumes "rel s xs" "distinct ys" "set ys = set xs"
  shows "rel (run_ops ins del (map Rem ys) s) []"
  using assms
proof (induction ys arbitrary: s xs)
  case (Cons y ys)
  then have "rel (del y s) (remove1 y xs)" by (auto intro: del)
  moreover have "set ys = set (remove1 y xs)" using Cons.prems unique by auto
  ultimately show ?case using Cons.IH [of "del y s" "remove1 y xs"] Cons.prems by auto
qed simp

end

section \<open>The DLIST macros\<close>

text \<open>inc/u_lnk_list.h, lines 70-192.  A queue is a head and a tail; the entries are nodes with a
  \<open>pt_prev\<close> and a \<open>pt_next\<close> field, here two functions on addresses.\<close>

record dlist_q =
  pt_head :: ptr
  pt_tail :: ptr
  pt_next :: "ptr \<Rightarrow> ptr"
  pt_prev :: "ptr \<Rightarrow> ptr"

definition DLIST_INIT :: "dlist_q \<Rightarrow> dlist_q" where
  "DLIST_INIT q = q\<lparr>pt_head := NULL, pt_tail := NULL\<rparr>"

definition DLIST_IS_EMPTY :: "dlist_q \<Rightarrow> bool" where
  "DLIST_IS_EMPTY q = (pt_head q = NULL)"

definition DLIST_INSERT_HEAD :: "ptr \<Rightarrow> dlist_q \<Rightarrow> dlist_q" where
  "DLIST_INSERT_HEAD ent q0 =
    (let q = q0\<lparr>pt_prev := (pt_prev q0)(ent := NULL)\<rparr>;
         q = q\<lparr>pt_next := (pt_next q)(ent := pt_head q)\<rparr>;
         q = (if pt_next q ent = NULL then q\<lparr>pt_tail := ent\<rparr>
              else q\<lparr>pt_prev := (pt_prev q)(pt_head q := ent)\<rparr>)
     in q\<lparr>pt_head := ent\<rparr>)"

definition DLIST_INSERT_TAIL :: "ptr \<Rightarrow> dlist_q \<Rightarrow> dlist_q" where
  "DLIST_INSERT_TAIL ent q0 =
    (let q = q0\<lparr>pt_next := (pt_next q0)(ent := NULL)\<rparr>;
         q = q\<lparr>pt_prev := (pt_prev q)(ent := pt_tail q)\<rparr>;
         q = (if pt_prev q ent = NULL then q\<lparr>pt_head := ent\<rparr>
              else q\<lparr>pt_next := (pt_next q)(pt_tail q := ent)\<rparr>)
     in q\<lparr>pt_tail := ent\<rparr>)"

definition DLIST_INSERT_BEFORE :: "ptr \<Rightarrow> ptr \<Rightarrow> dlist_q \<Rightarrow> dlist_q" where
  "DLIST_INSERT_BEFORE new old q0 =
    (let q = q0\<lparr>pt_next := (pt_next q0)(new := old)\<rparr>;
         q = q\<lparr>pt_prev := (pt_prev q)(new := pt_prev q old)\<rparr>;
         q = (if pt_prev q new = NULL then q\<lparr>pt_head := new\<rparr>
              else q\<lparr>pt_next := (pt_next q)(pt_prev q old := new)\<rparr>)
     in q\<lparr>pt_prev := (pt_prev q)(old := new)\<rparr>)"

definition DLIST_INSERT_AFTER :: "ptr \<Rightarrow> ptr \<Rightarrow> dlist_q \<Rightarrow> dlist_q" where
  "DLIST_INSERT_AFTER new old q0 =
    (let q = q0\<lparr>pt_prev := (pt_prev q0)(new := old)\<rparr>;
         q = q\<lparr>pt_next := (pt_next q)(new := pt_next q old)\<rparr>;
         q = (if pt_next q new = NULL then q\<lparr>pt_tail := new\<rparr>
              else q\<lparr>pt_prev := (pt_prev q)(pt_next q old := new)\<rparr>)
     in q\<lparr>pt_next := (pt_next q)(old := new)\<rparr>)"

text \<open>\<open>ent\<close> is dereferenced before it is compared with \<open>NULL\<close>; the model is for \<open>ent\<close> not \<open>NULL\<close>.\<close>

definition DLIST_REMOVE :: "ptr \<Rightarrow> dlist_q \<Rightarrow> dlist_q" where
  "DLIST_REMOVE ent q0 =
    (let q = (if pt_tail q0 = ent then q0\<lparr>pt_tail := pt_prev q0 ent\<rparr>
              else q0\<lparr>pt_prev := (pt_prev q0)(pt_next q0 ent := pt_prev q0 ent)\<rparr>);
         q = (if pt_head q = ent then q\<lparr>pt_head := pt_next q ent\<rparr>
              else if pt_prev q ent \<noteq> NULL then q\<lparr>pt_next := (pt_next q)(pt_prev q ent := pt_next q ent)\<rparr>
              else q)
     in if ent \<noteq> NULL
        then q\<lparr>pt_next := (pt_next q)(ent := NULL), pt_prev := (pt_prev q)(ent := NULL)\<rparr> else q)"

definition dq_rel :: "dlist_q \<Rightarrow> ptr list \<Rightarrow> bool" where
  "dq_rel q xs = dlist (pt_next q) (pt_prev q) NULL (pt_head q) (pt_tail q) xs"

lemma dq_init: "dq_rel (DLIST_INIT q) []"
  by (simp add: dq_rel_def DLIST_INIT_def)

lemma dq_empty: "dq_rel q xs \<Longrightarrow> DLIST_IS_EMPTY q \<longleftrightarrow> xs = []"
  by (cases xs) (auto simp: dq_rel_def DLIST_IS_EMPTY_def dlist_def)

lemma dq_insert_tail:
  assumes "dq_rel q xs" "x \<noteq> NULL" "x \<notin> set xs"
  shows "dq_rel (DLIST_INSERT_TAIL x q) (xs @ [x])"
  using dlist_insert_tail [of "pt_next q" "pt_prev q" NULL "pt_head q" "pt_tail q" xs x] assms
  by (auto simp: dq_rel_def DLIST_INSERT_TAIL_def Let_def)

lemma dq_insert_head:
  assumes "dq_rel q xs" "x \<noteq> NULL" "x \<notin> set xs"
  shows "dq_rel (DLIST_INSERT_HEAD x q) (x # xs)"
  using dlist_insert_head [of "pt_next q" "pt_prev q" NULL "pt_head q" "pt_tail q" xs x] assms
  by (auto simp: dq_rel_def DLIST_INSERT_HEAD_def Let_def)

lemma dq_insert_before:
  assumes "dq_rel q (as @ y # bs)" "x \<noteq> NULL" "x \<notin> set (as @ y # bs)"
  shows "dq_rel (DLIST_INSERT_BEFORE x y q) (as @ x # y # bs)"
  using dlist_insert_before [of "pt_next q" "pt_prev q" NULL "pt_head q" "pt_tail q" as y bs x] assms
  by (auto simp: dq_rel_def DLIST_INSERT_BEFORE_def Let_def)

lemma dq_insert_after:
  assumes "dq_rel q (as @ y # bs)" "x \<noteq> NULL" "x \<notin> set (as @ y # bs)"
  shows "dq_rel (DLIST_INSERT_AFTER x y q) (as @ y # x # bs)"
  using dlist_insert_after [of "pt_next q" "pt_prev q" NULL "pt_head q" "pt_tail q" as y bs x] assms
  by (auto simp: dq_rel_def DLIST_INSERT_AFTER_def Let_def)

lemma dlist_ends:
  assumes "dlist nx pv z h t xs" "x \<in> set xs"
  shows "t = x \<longleftrightarrow> nx x = z" "h = x \<longleftrightarrow> pv x = z"
proof -
  obtain as bs where xs: "xs = as @ x # bs" using assms(2) by (meson split_list)
  note S = dlist_split [OF assms(1)[unfolded xs]]
  have t: "t = (if bs = [] then x else hd (rev bs))" using dlist_tail [OF assms(1)] by (simp add: xs head_or_append)
  have h: "h = (if as = [] then x else hd as)" using dlist_head [OF assms(1)] by (simp add: xs head_or_append)
  show "t = x \<longleftrightarrow> nx x = z"
  proof (cases bs)
    case (Cons b bs')
    then have "hd (rev bs) \<in> set bs" by (metis hd_in_set list.distinct(1) rev_is_Nil_conv set_rev)
    then show ?thesis using S Cons t by auto
  qed (use S t in auto)
  show "h = x \<longleftrightarrow> pv x = z"
  proof (cases as rule: rev_cases)
    case (snoc as' a)
    then have "hd as \<in> set as" by (cases as') auto
    then show ?thesis using S snoc h by auto
  qed (use S h in auto)
qed

lemma dq_remove:
  assumes q: "dq_rel q xs" and x: "x \<in> set xs"
  shows "dq_rel (DLIST_REMOVE x q) (remove1 x xs)"
proof -
  have d: "dlist (pt_next q) (pt_prev q) NULL (pt_head q) (pt_tail q) xs" using q by (simp add: dq_rel_def)
  have "x \<noteq> NULL" using dlist_no_null [OF d] x by metis
  moreover have "x \<notin> set (remove1 x xs)" using dlist_distinct [OF d] by simp
  ultimately show ?thesis
    using dlist_remove1 [OF d x] dlist_ends [OF d x] dlist_no_null [OF d]
    by (auto simp: dq_rel_def DLIST_REMOVE_def Let_def dlist_frame)
qed

lemma dq_unique: "dq_rel q xs \<Longrightarrow> distinct xs"
  by (simp add: dq_rel_def dlist_def)

interpretation dq: intrusive_list dq_rel DLIST_INSERT_TAIL DLIST_REMOVE "\<lambda>x. x \<noteq> NULL"
  by unfold_locales (simp_all add: dq_insert_tail dq_remove dq_unique)

end
