(* ===== verification/HandleProps.thy ===== *)
theory HandleProps
  imports HandleFree ListADT
begin

text \<open>The properties of the handle library, each with a run of the model on a concrete library of 20
  handles where it has hypotheses.\<close>

section \<open>Helpers\<close>

lemma usr_init_ok:
  assumes "\<not> b_init s" "(of_nat m :: u32) \<noteq> 0" "0 < nh" "nh < MAX_NUM_HANDLES"
  obtains s' where "u_handle_usr_init m nh s = Inr (HR_OK, s')"
    "handle_inv s' Map.empty (\<lambda>_. [])" "habs s' = Map.empty" "ui2_num_total s' = nh"
    "pool_ok s' (slots 0 (unat nh))" "crit s' = crit s" "links s' = links s"
proof -
  let ?s = "s\<lparr>heap := (if m = NULL then heap s else insert m (heap s)), pv_handle_memory_pool := m\<rparr>"
  let ?a = "of_nat m :: u32" and ?z = "sizeof_H_CTRL_T * (ucast nh + 5) :: u32"
  have n: "unat nh < 65536" by (rule unat_bounds)
  have am: "unat (?a mod 4) < 4" by (simp add: unat_mod_distrib)
  have uz: "unat ?z = 28 * (unat nh + 5)"
    using n by (simp add: sizeof_H_CTRL_T_def unat_word_ariths unat_ucast_up)
  have uz': "unat (sizeof_H_CTRL_T * (ucast nh + 1) :: u32) = 28 * (unat nh + 1)"
    using n by (simp add: sizeof_H_CTRL_T_def unat_word_ariths unat_ucast_up)
  have "unat (?z - ?a mod 4) = unat ?z - unat (?a mod 4)"
    using am uz by (intro unat_sub) (simp add: word_le_nat_alt)
  then have lt: "sizeof_H_CTRL_T * (ucast nh + 1) < ?z - ?a mod 4"
    using am by (simp only: word_less_nat_alt uz uz') simp
  have z0: "?z \<noteq> 0" using uz by (auto simp: word_unat_eq_iff)
  obtain s' addr' z' where s': "handle_init nh (Some ?a) (Some ?z) ?s = Inr (HR_OK, Some addr', Some z', s')"
    "pool_ok s' (slots 0 (unat nh))" "stats_ok s'" "no_handles s'" "b_init s'"
    "ui2_num_total s' = nh" "links s' = links ?s" "crit s' = crit ?s"
    by (rule handle_init_cases [of ?s nh ?a ?z]) (use assms lt z0 in auto)
  have nl: "\<not> live s' i" for i
    using s'(4) by (auto simp: no_handles_def live_def active_def flag_simps)
  then have "lists_ok s' Map.empty" "aux_ok s' (\<lambda>_. [])"
    by (auto simp: lists_ok_def aux_ok_def is_aux_head_def)
  then have "handle_inv s' Map.empty (\<lambda>_. [])"
    using s' by (auto simp: handle_inv_def)
  moreover have "u_handle_usr_init m nh s = Inr (HR_OK, s')"
    using s'(1) by (simp add: u_handle_usr_init_def Let_def)
  ultimately show thesis
    using that s' no_handles_habs [OF s'(4)] by simp
qed

section \<open>A handle list is an intrusive list\<close>

text \<open>\<open>link_rel l K s hs\<close>: the list head \<open>l\<close> holds the handles \<open>hs\<close>, in order; \<open>K\<close> are handles of the
  client, live throughout, none of them on another list, and nobody is visiting the list.\<close>

definition link_rel :: "ptr \<Rightarrow> handle set \<Rightarrow> 'x hlib_scheme \<Rightarrow> handle list \<Rightarrow> bool" where
  "link_rel l K s hs \<longleftrightarrow> set hs \<subseteq> K \<and> \<not> ftst H_LINK_FLAG_PARSING (hl_flags (links s l)) \<and>
    (\<exists>L A xs. handle_inv s L A \<and> L l = Some xs \<and> hs = map (make_handle s) xs \<and>
      (\<forall>h\<in>K. \<exists>i. get_h_ctrl_from_handle s h = Some i \<and> HT_RES_BY_HANDLE_LIB \<le> htype s i \<and>
        (linked s i \<longrightarrow> i \<in> set xs)))"

lemma link_rel_cong:
  assumes "hcount s' = hcount s" "active s' = active s" "ui2_num_total s' = ui2_num_total s"
  shows "get_h_ctrl_from_handle s' = get_h_ctrl_from_handle s" "make_handle s' = make_handle s"
  using assms by (auto intro!: get_h_ctrl_cong make_handle_cong)

lemma link_rel_ins:
  assumes r: "link_rel l K s hs" and h: "h \<in> K" "h \<notin> set hs"
  shows "link_rel l K (snd (u_handle_link l h s)) (hs @ [h])"
proof -
  obtain L A xs where inv: "handle_inv s L A" "L l = Some xs" "hs = map (make_handle s) xs"
    and K: "\<And>h. h \<in> K \<Longrightarrow> \<exists>i. get_h_ctrl_from_handle s h = Some i \<and> HT_RES_BY_HANDLE_LIB \<le> htype s i \<and>
        (linked s i \<longrightarrow> i \<in> set xs)"
    using r by (auto simp: link_rel_def)
  obtain i where i: "get_h_ctrl_from_handle s h = Some i" "HT_RES_BY_HANDLE_LIB \<le> htype s i"
    "linked s i \<longrightarrow> i \<in> set xs" using K [OF h(1)] by blast
  have mh: "make_handle s i = h" using i(1) by (simp add: get_h_ctrl_live)
  then have nl: "\<not> linked s i" using i(3) h(2) inv(3) by auto
  obtain s' where s': "u_handle_link l h s = (HR_OK, s')" "handle_inv s' (L(l \<mapsto> xs @ [i])) A"
    "hcount s' = hcount s" "active s' = active s" "ui2_num_total s' = ui2_num_total s"
    "s' = link_tail l i (set_flags i (fset H_CTRL_FLAG_LINKED) s)"
    by (rule u_handle_link_ok [OF inv(1,2) i(1,2) nl])
  note C = link_rel_cong [OF s'(3-5)]
  have 1: "set (hs @ [h]) \<subseteq> K" using r h by (auto simp: link_rel_def)
  have 2: "\<not> ftst H_LINK_FLAG_PARSING (hl_flags (links s' l))"
    using r by (simp add: s'(6) link_rel_def)
  have 3: "hs @ [h] = map (make_handle s') (xs @ [i])" by (simp add: inv(3) C mh)
  have lk: "htype s' = htype s" "linked s' = (linked s)(i := True)" by (simp_all add: s'(6))
  have 4: "\<exists>j. get_h_ctrl_from_handle s' g = Some j \<and> HT_RES_BY_HANDLE_LIB \<le> htype s' j \<and>
      (linked s' j \<longrightarrow> j \<in> set (xs @ [i]))" if "g \<in> K" for g
    using K [OF that] unfolding C lk by auto
  show ?thesis
    unfolding s'(1) snd_conv link_rel_def using 1 2 3 4 s'(2) by (metis fun_upd_same)
qed

lemma link_rel_del:
  assumes r: "link_rel l K s hs" and h: "h \<in> set hs"
  shows "link_rel l K (snd (u_handle_delink l h s)) (remove1 h hs)"
proof -
  obtain L A xs where inv: "handle_inv s L A" "L l = Some xs" "hs = map (make_handle s) xs"
    and K: "\<And>h. h \<in> K \<Longrightarrow> \<exists>i. get_h_ctrl_from_handle s h = Some i \<and> HT_RES_BY_HANDLE_LIB \<le> htype s i \<and>
        (linked s i \<longrightarrow> i \<in> set xs)"
    using r by (auto simp: link_rel_def)
  have hK: "h \<in> K" using r h by (auto simp: link_rel_def)
  obtain i where i: "get_h_ctrl_from_handle s h = Some i" "HT_RES_BY_HANDLE_LIB \<le> htype s i"
    using K [OF hK] by blast
  have mh: "make_handle s i = h" using i(1) by (simp add: get_h_ctrl_live)
  have inj: "make_handle s j = make_handle s k \<longleftrightarrow> j = k" for j k by (auto simp: make_handle_inject)
  have ix: "i \<in> set xs" using h inj mh by (auto simp: inv(3))
  obtain s' where s': "u_handle_delink l h s = (HR_OK, s')" "handle_inv s' (L(l \<mapsto> remove1 i xs)) A"
    "hcount s' = hcount s" "active s' = active s" "ui2_num_total s' = ui2_num_total s"
    "s' = unlink l i (set_flags i (fclr H_CTRL_FLAG_LINKED) s)"
    by (rule u_handle_delink_ok [OF inv(1,2) i ix]) (use r in \<open>auto simp: link_rel_def\<close>)
  note C = link_rel_cong [OF s'(3-5)]
  have 1: "set (remove1 h hs) \<subseteq> K" using r set_remove1_subset [of h hs] by (auto simp: link_rel_def)
  have 2: "\<not> ftst H_LINK_FLAG_PARSING (hl_flags (links s' l))"
    using r by (simp add: s'(6) link_rel_def)
  have "remove1 h (map (make_handle s) ys) = map (make_handle s) (remove1 i ys)" for ys
    by (induction ys) (auto simp: inj mh [symmetric])
  then have 3: "remove1 h hs = map (make_handle s') (remove1 i xs)" by (simp add: inv(3) C)
  have lk: "htype s' = htype s" "linked s' = (linked s)(i := False)" by (simp_all add: s'(6))
  have 4: "\<exists>j. get_h_ctrl_from_handle s' g = Some j \<and> HT_RES_BY_HANDLE_LIB \<le> htype s' j \<and>
      (linked s' j \<longrightarrow> j \<in> set (remove1 i xs))" if "g \<in> K" for g
    using K [OF that] unfolding C lk by (auto simp: in_set_remove1)
  show ?thesis
    unfolding s'(1) snd_conv link_rel_def using 1 2 3 4 s'(2) by (metis fun_upd_same)
qed

lemma link_rel_unique: "link_rel l K s hs \<Longrightarrow> distinct hs"
  by (auto simp: link_rel_def handle_inv_def distinct_map inj_on_def make_handle_inject hlist_def
      dest!: lists_okD(2) dest: dlist_distinct)

interpretation hl: intrusive_list "link_rel l K" "\<lambda>h s. snd (u_handle_link l h s)"
    "\<lambda>h s. snd (u_handle_delink l h s)" "\<lambda>h. h \<in> K" for l K
  by unfold_locales (simp_all add: link_rel_ins link_rel_del link_rel_unique)

text \<open>A library of 20 handles, a list head at address 16 and two objects in it.\<close>

definition demo_realloc :: "ptr \<Rightarrow> u32 \<Rightarrow> ptr" where
  "demo_realloc p z = 8192"

definition state_of :: "(int \<times> 'b) result \<Rightarrow> 'b \<Rightarrow> 'b" where
  "state_of r d = (case r of Inl _ \<Rightarrow> d | Inr (_, s) \<Rightarrow> s)"

definition demo0 :: hlib where
  "demo0 = state_of (u_handle_usr_init 4096 20 hlib_start) hlib_start"

lemma demo0_inv: "u_handle_usr_init 4096 20 hlib_start = Inr (HR_OK, demo0)"
  "handle_inv demo0 Map.empty (\<lambda>_. [])" "ui2_free_handles demo0 = 20" "ui2_num_total demo0 = 20" "habs demo0 = Map.empty"
proof -
  obtain s' where s': "u_handle_usr_init 4096 20 hlib_start = Inr (HR_OK, s')"
    "handle_inv s' Map.empty (\<lambda>_. [])" "habs s' = Map.empty" "ui2_num_total s' = 20"
    "pool_ok s' (slots 0 (unat (20 :: u16)))"
    by (rule usr_init_ok [of hlib_start 4096 20]) (simp_all add: hlib_start_def)
  moreover have "hd (slots 0 (unat (20 :: u16))) = 20" "slots 0 (unat (20 :: u16)) \<noteq> []"
    by (simp_all add: slots_def upt_rec)
  then have "ui2_free_handles s' = 20"
    using s'(5) path_start [of "hnext s'" "ui2_free_handles s'" "slots 0 (unat (20 :: u16))" 0]
    by (cases "slots 0 (unat (20 :: u16))") (auto simp: pool_ok_def)
  moreover have "demo0 = s'" using s'(1) by (simp add: demo0_def state_of_def)
  ultimately show "u_handle_usr_init 4096 20 hlib_start = Inr (HR_OK, demo0)"
    "handle_inv demo0 Map.empty (\<lambda>_. [])" "ui2_free_handles demo0 = 20" "ui2_num_total demo0 = 20"
    "habs demo0 = Map.empty" by simp_all
qed

text \<open>A list head at address 16, a handle of type 130 for the object at address 7, and the head of an
  auxiliary list.\<close>

definition alloc_state :: "(int \<times> handle option \<times> 'x hlib_scheme) result \<Rightarrow> 'x hlib_scheme \<Rightarrow> 'x hlib_scheme" where
  "alloc_state r d = (case r of Inl _ \<Rightarrow> d | Inr (_, _, s) \<Rightarrow> s)"

definition demo1 :: hlib where "demo1 = snd (handle_link_init 16 demo0)"
definition demo2 :: hlib where "demo2 = alloc_state (u_handle_alloc demo_realloc 130 7 9 5 True demo1) demo1"
definition demo3 :: hlib where
  "demo3 = alloc_state (u_handle_alloc demo_realloc HT_AUX_LINK_HEAD 8 0 fn_aux_link_head_free True demo2) demo2"

lemma demo0_more: "hnext demo0 20 = 19" "ui2_num_free demo0 = 20" "crit demo0 = 0"
  "pool_ok demo0 (slots 0 20)"
proof -
  obtain s' where s': "u_handle_usr_init 4096 20 hlib_start = Inr (HR_OK, s')"
    "pool_ok s' (slots 0 (unat (20 :: u16)))" "crit s' = crit hlib_start"
    by (rule usr_init_ok [of hlib_start 4096 20]) (simp_all add: hlib_start_def)
  moreover have "demo0 = s'" using s'(1) demo0_inv(1) by simp
  ultimately have ok: "pool_ok demo0 (slots 0 20)" and c: "crit demo0 = 0"
    by (simp_all add: hlib_start_def)
  then show "pool_ok demo0 (slots 0 20)" "crit demo0 = 0" by simp_all
  have "[1..<21] = [1..<19] @ [19, 20]" by (simp add: upt_rec)
  then have "slots 0 20 = 20 # 19 # rev (map of_nat [1..<19])"
    by (simp add: slots_def rev_map del: upt_rec_numeral)
  then have "path (hnext demo0) (ui2_free_handles demo0) (20 # 19 # rev (map of_nat [1..<19])) 0"
    using ok by (simp only: pool_ok_def)
  then show "hnext demo0 20 = 19" by simp
  have "ui2_num_free demo0 = of_nat (length (slots 0 20))" using ok by (simp only: pool_ok_def)
  then show "ui2_num_free demo0 = 20" by (simp add: slots_props(2))
qed

lemma demo1_sel: "handle_inv demo1 [16 \<mapsto> []] (\<lambda>_. [])" "ui2_free_handles demo1 = 20" "ui2_num_total demo1 = 20"
  "ui2_num_free demo1 = 20" "hnext demo1 20 = 19" "hl_flags (links demo1 16) = 0" "crit demo1 = 0"
  using handle_link_init_ok(2) [OF demo0_inv(2), of 16] demo0_inv demo0_more
  by (simp_all add: demo1_def handle_link_init_def)

lemma demo_can_alloc: "can_alloc demo_realloc s" if "ui2_num_total s = 20"
  using that by (simp add: can_alloc_def demo_realloc_def)

lemma demo2_sel: "u_handle_alloc demo_realloc 130 7 9 5 True demo1 = Inr (HR_OK, Some (make_handle demo2 20), demo2)"
  "handle_inv demo2 [16 \<mapsto> []] (\<lambda>_. [])" "live demo2 20" "ctrl demo2 20 = fill_ctrl 130 7 9 5 (ctrl demo1 20)"
  "\<not> linked demo2 20" "ui2_free_handles demo2 = 19" "ui2_num_total demo2 = 20"
  "hl_flags (links demo2 16) = 0" "crit demo2 = 0"
proof -
  have pre: "ui2_free_handles demo1 \<noteq> 0" "can_alloc demo_realloc demo1" "(5 :: nat) \<noteq> NULL" "(130 :: u16) \<noteq> INV_HANDLE_TYPE"
    using demo1_sel demo_can_alloc [of demo1] by simp_all
  obtain s' where s': "u_handle_alloc demo_realloc 130 7 9 5 True demo1 = Inr (HR_OK, Some (make_handle s' 20), s')"
    "handle_inv s' [16 \<mapsto> []] ((\<lambda>_. [])(20 := []))" "live s' = (live demo1)(20 := True)" "\<not> linked s' 20"
    "ctrl s' 20 = fill_ctrl 130 7 9 5 (ctrl demo1 20)" "crit s' = crit demo1" "links s' = links demo1"
    "ui2_free_handles s' = hnext demo1 20 \<and> ui2_num_total s' = ui2_num_total demo1 \<and>
      ui2_num_free s' = ui2_num_free demo1 - 1"
    by (rule u_handle_alloc_inv [OF demo1_sel(1) pre, of 7 9, unfolded demo1_sel(2)])
      (simp add: demo1_sel)
  have "demo2 = s'" using s'(1) by (simp add: demo2_def alloc_state_def)
  moreover have "(\<lambda>_. [])(20 := []) = (\<lambda>_ :: u16. [] :: u16 list)" by auto
  ultimately show "u_handle_alloc demo_realloc 130 7 9 5 True demo1 = Inr (HR_OK, Some (make_handle demo2 20), demo2)"
    "handle_inv demo2 [16 \<mapsto> []] (\<lambda>_. [])" "live demo2 20" "ctrl demo2 20 = fill_ctrl 130 7 9 5 (ctrl demo1 20)"
    "\<not> linked demo2 20" "ui2_free_handles demo2 = 19" "ui2_num_total demo2 = 20"
    "hl_flags (links demo2 16) = 0" "crit demo2 = 0"
    using s' demo1_sel by auto
qed

lemma demo2_block: "htype demo2 20 = 130" "ahead demo2 20 = 0" "hflags demo2 20 = 1" "pv_obj (ctrl demo2 20) = 7"
  "u_ptr (ctrl demo2 20) = 9" "pf_free (ctrl demo2 20) = 5"
  "get_h_ctrl_from_handle demo2 (make_handle demo2 20) = Some 20"
  using demo2_sel(3,4) by (simp_all add: field_defs get_h_ctrl_live del: field_folds)

lemma demo3_sel: "u_handle_alloc demo_realloc HT_AUX_LINK_HEAD 8 0 fn_aux_link_head_free True demo2 =
    Inr (HR_OK, Some (make_handle demo3 19), demo3)"
  "handle_inv demo3 [16 \<mapsto> []] (\<lambda>_. [])" "live demo3 19" "live demo3 20" "htype demo3 19 = HT_AUX_LINK_HEAD"
  "htype demo3 20 = 130" "ahead demo3 20 = 0" "u_ptr (ctrl demo3 19) = NULL" "crit demo3 = 0"
proof -
  have pre: "ui2_free_handles demo2 \<noteq> 0" "can_alloc demo_realloc demo2" "fn_aux_link_head_free \<noteq> NULL"
    "HT_AUX_LINK_HEAD \<noteq> INV_HANDLE_TYPE"
    using demo2_sel demo_can_alloc [of demo2] by (simp_all add: fn_aux_link_head_free_def)
  obtain s' where s': "u_handle_alloc demo_realloc HT_AUX_LINK_HEAD 8 0 fn_aux_link_head_free True demo2 =
      Inr (HR_OK, Some (make_handle s' 19), s')"
    "handle_inv s' [16 \<mapsto> []] ((\<lambda>_. [])(19 := []))" "live s' = (live demo2)(19 := True)" "\<not> live demo2 19"
    "ctrl s' 19 = fill_ctrl HT_AUX_LINK_HEAD 8 0 fn_aux_link_head_free (ctrl demo2 19)"
    "\<And>j. live demo2 j \<Longrightarrow> ctrl s' j = ctrl demo2 j" "crit s' = crit demo2"
    by (rule u_handle_alloc_inv [OF demo2_sel(2) pre, of 8 0, unfolded demo2_sel(6)]) blast
  have d: "demo3 = s'" using s'(1) by (simp add: demo3_def alloc_state_def)
  have c20: "ctrl demo3 20 = ctrl demo2 20" using s'(6) demo2_sel(3) by (simp add: d)
  moreover have "(\<lambda>_. [])(19 := []) = (\<lambda>_ :: u16. [] :: u16 list)" by auto
  ultimately show "u_handle_alloc demo_realloc HT_AUX_LINK_HEAD 8 0 fn_aux_link_head_free True demo2 =
      Inr (HR_OK, Some (make_handle demo3 19), demo3)"
    "handle_inv demo3 [16 \<mapsto> []] (\<lambda>_. [])" "live demo3 19" "live demo3 20" "htype demo3 19 = HT_AUX_LINK_HEAD"
    "htype demo3 20 = 130" "ahead demo3 20 = 0" "u_ptr (ctrl demo3 19) = NULL" "crit demo3 = 0"
    using s' demo2_sel demo2_block c20 by (auto simp: d field_defs simp del: field_folds)
qed

section \<open>Properties\<close>

text \<open>C1 Allocation: in a well-formed library with a free block, \<open>u_handle_alloc\<close> returns a handle that named
  nothing before, adds exactly this handle with its type and object to the map the library keeps, keeps
  the whole invariant (free list, counters, every handle list and auxiliary list), with or without
  growing the array, and leaves the critical section as it found it.\<close>

theorem handle_alloc_inserts:
  assumes "handle_inv s L A" "ui2_free_handles s \<noteq> 0" "can_alloc ra s" "fre \<noteq> NULL" "ty \<noteq> INV_HANDLE_TYPE"
  shows "\<exists>h s'. u_handle_alloc ra ty obj tag fre True s = Inr (HR_OK, Some h, s') \<and>
    habs s h = None \<and> habs s' = (habs s)(h \<mapsto> (ty, obj)) \<and>
    handle_inv s' L (A(ui2_free_handles s := [])) \<and> crit s' = crit s"
proof -
  let ?i = "ui2_free_handles s"
  obtain s' where s': "u_handle_alloc ra ty obj tag fre True s = Inr (HR_OK, Some (make_handle s' ?i), s')"
    "handle_inv s' L (A(?i := []))" "live s' = (live s)(?i := True)" "\<not> live s ?i"
    "ctrl s' ?i = fill_ctrl ty obj tag fre (ctrl s ?i)" "\<And>j. live s j \<Longrightarrow> ctrl s' j = ctrl s j" "crit s' = crit s"
    by (rule u_handle_alloc_inv [OF assms, of obj tag]) blast
  have "htype s' ?i = ty" "pv_obj (ctrl s' ?i) = obj"
    using s'(5) by (simp_all add: htype_def del: field_folds)
  then show ?thesis
    using s' habs_insert [OF s'(4,3,6)] by auto
qed

theorem handle_alloc_inserts_witness:
  "\<exists>h s'. u_handle_alloc demo_realloc 130 7 9 5 True demo1 = Inr (HR_OK, Some h, s') \<and> habs s' h = Some (130, 7)"
proof -
  have "\<exists>h s'. u_handle_alloc demo_realloc 130 7 9 5 True demo1 = Inr (HR_OK, Some h, s') \<and>
    habs demo1 h = None \<and> habs s' = (habs demo1)(h \<mapsto> (130, 7)) \<and>
    handle_inv s' [16 \<mapsto> []] ((\<lambda>_. [])(ui2_free_handles demo1 := [])) \<and> crit s' = crit demo1"
    by (rule handle_alloc_inserts) (simp_all add: demo1_sel demo_can_alloc)
  then show ?thesis by auto
qed

text \<open>C2 Freeing: the client's callback agrees and leaves a well-formed library in which the block is on no handle
  list, and the auxiliary list it is on, if any, has no free callback of its own.  If the array of the blocks is where
  it was, \<open>u_handle_free\<close> takes the block off its auxiliary list, removes exactly this handle from the map,
  counts the block's use up and keeps the invariant.  If the callback has made the array move, by allocating
  handles, \<open>u_handle_free\<close> goes on with the old address of the block and accesses freed memory.\<close>

theorem handle_free_deletes:
  assumes "b_init s" "get_h_ctrl_from_handle s h = Some i"
    and "\<not> ftst H_CTRL_FLAG_FREEING (hflags s i)" "pf_free (ctrl s i) \<noteq> NULL"
    and "call_free cb (pf_free (ctrl s i)) h (htype s i) (pv_obj (ctrl s i)) (u_ptr (ctrl s i)) req
        (set_flags i (fset H_CTRL_FLAG_FREEING) s) = Inr (True, s1)"
    and "handle_inv s1 L A" "live s1 i" "\<not> linked s1 i" "is_aux_head s1 i \<Longrightarrow> A i = []"
    and "ahead s1 i \<noteq> 0 \<Longrightarrow> u_ptr (ctrl s1 (ahead s1 i)) = NULL"
  shows "if pt_h_ctrl_arr s1 \<noteq> pt_h_ctrl_arr s then u_handle_free cb acb h req s = Inl BadAccess
    else \<exists>s'. u_handle_free cb acb h req s = Inr (HR_OK, s') \<and>
      habs s' = (habs s1)(make_handle s1 i := None) \<and> hcount s' i = hcount s1 i + 1 \<and> crit s' = crit s1 \<and>
      handle_inv s' L (if ahead s1 i = 0 then A else A(ahead s1 i := remove1 i (A (ahead s1 i))))"
proof (cases "pt_h_ctrl_arr s1 = pt_h_ctrl_arr s")
  case True
  have "\<exists>s'. u_handle_free cb acb h req s = Inr (HR_OK, s') \<and>
    habs s' = (habs s1)(make_handle s1 i := None) \<and> hcount s' i = hcount s1 i + 1 \<and> crit s' = crit s1 \<and>
    handle_inv s' L (if ahead s1 i = 0 then A else A(ahead s1 i := remove1 i (A (ahead s1 i))))"
    by (rule u_handle_free_ok [where cb = cb and acb = acb, OF assms(1-5) True assms(6-10)]) auto
  then show ?thesis using True by simp
next
  case False
  then show ?thesis using u_handle_free_moved [OF assms(1-5) False] by simp
qed

text \<open>A client whose callback always agrees and does nothing.\<close>

definition demo_free :: "unit free_cb" where
  "demo_free f h ty obj tag req s = Inr (True, s)"

theorem handle_free_deletes_witness:
  "\<exists>s'. u_handle_free demo_free (\<lambda>_ _ s. Inr s) (make_handle demo2 20) True demo2 = Inr (HR_OK, s') \<and>
    habs s' (make_handle demo2 20) = None"
proof -
  let ?s1 = "set_flags 20 (fset H_CTRL_FLAG_FREEING) demo2"
  have "if pt_h_ctrl_arr ?s1 \<noteq> pt_h_ctrl_arr demo2
    then u_handle_free demo_free (\<lambda>_ _ s. Inr s) (make_handle demo2 20) True demo2 = Inl BadAccess
    else \<exists>s'. u_handle_free demo_free (\<lambda>_ _ s. Inr s) (make_handle demo2 20) True demo2 = Inr (HR_OK, s') \<and>
      habs s' = (habs ?s1)(make_handle ?s1 20 := None) \<and> hcount s' 20 = hcount ?s1 20 + 1 \<and> crit s' = crit ?s1 \<and>
      handle_inv s' [16 \<mapsto> []] (if ahead ?s1 20 = 0 then (\<lambda>_. [])
        else (\<lambda>_. [])(ahead ?s1 20 := remove1 20 ((\<lambda>_. []) (ahead ?s1 20))))"
    by (rule handle_free_deletes)
      (use demo2_sel in \<open>simp_all add: demo2_block handle_inv_def [of demo2] demo_free_def call_free_def
        fn_aux_link_head_free_def ftst_def\<close>)
  then have "\<exists>s'. u_handle_free demo_free (\<lambda>_ _ s. Inr s) (make_handle demo2 20) True demo2 = Inr (HR_OK, s') \<and>
    habs s' = (habs ?s1)(make_handle ?s1 20 := None)" by auto
  moreover have "make_handle ?s1 20 = make_handle demo2 20" by (rule make_handle_cong) simp
  ultimately show ?thesis by auto
qed

text \<open>Start-up: whatever block \<open>malloc\<close> returns, \<open>u_handle_usr_init\<close> sets up a library for any number
  of handles from 1 to 65534 in which no handle is valid, every block is on the free list and the
  invariant holds; its size computation leaves room for the alignment correction.\<close>

theorem handle_usr_init_establishes:
  assumes "\<not> b_init s" "(of_nat m :: u32) \<noteq> 0" "0 < nh" "nh < MAX_NUM_HANDLES"
  shows "\<exists>s'. u_handle_usr_init m nh s = Inr (HR_OK, s') \<and> handle_inv s' Map.empty (\<lambda>_. []) \<and>
    habs s' = Map.empty \<and> ui2_num_free s' = nh \<and> ui2_free_handles s' = nh"
proof -
  obtain s' where s': "u_handle_usr_init m nh s = Inr (HR_OK, s')"
    "handle_inv s' Map.empty (\<lambda>_. [])" "habs s' = Map.empty" "pool_ok s' (slots 0 (unat nh))"
    by (rule usr_init_ok [OF assms]) blast
  have "ui2_num_free s' = of_nat (unat nh)"
    using s'(4) by (simp only: pool_ok_def slots_props(2) diff_zero)
  moreover obtain n where n: "unat nh = Suc n"
    using assms(3) by (cases "unat nh") (auto simp: word_less_nat_alt)
  have "slots 0 (unat nh) = nh # rev (map of_nat [1..<unat nh])"
    using n by (simp add: slots_def rev_map) (metis n of_nat_unat ucast_id of_nat_Suc)
  then have "path (hnext s') (ui2_free_handles s') (nh # rev (map of_nat [1..<unat nh])) 0"
    using s'(4) by (simp only: pool_ok_def)
  then have "ui2_free_handles s' = nh" by simp
  ultimately show ?thesis using s' by simp
qed

theorem handle_usr_init_establishes_witness:
  "\<exists>s'. u_handle_usr_init 4096 20 hlib_start = Inr (HR_OK, s') \<and> ui2_free_handles s' = 20"
proof -
  have "\<exists>s'. u_handle_usr_init 4096 20 hlib_start = Inr (HR_OK, s') \<and> handle_inv s' Map.empty (\<lambda>_. []) \<and>
    habs s' = Map.empty \<and> ui2_num_free s' = 20 \<and> ui2_free_handles s' = 20"
    by (rule handle_usr_init_establishes) (simp_all add: hlib_start_def)
  then show ?thesis by blast
qed

text \<open>C3 Handle lists: any sequence of \<open>u_handle_link\<close> and \<open>u_handle_delink\<close> on a list, each call allowed
  where it is made, leaves the doubly linked list that holds what appending and removing leaves, in order,
  and the invariant of the library.\<close>

theorem handle_list_refines:
  assumes "link_rel l K s hs" "fits_all (\<lambda>h. h \<in> K) ps hs"
  shows "link_rel l K (run_ops (\<lambda>h s. snd (u_handle_link l h s)) (\<lambda>h s. snd (u_handle_delink l h s)) ps s)
    (spec_ops ps hs)"
  using assms by (rule hl.refines)

lemma demo2_link_rel: "link_rel 16 {make_handle demo2 20} demo2 []"
  unfolding link_rel_def
proof (intro conjI exI)
  show "handle_inv demo2 [16 \<mapsto> []] (\<lambda>_. [])" by (rule demo2_sel(2))
qed (simp_all add: demo2_sel(5,8) demo2_block(1,7) ftst_def)

theorem handle_list_refines_witness:
  "link_rel 16 {make_handle demo2 20} (snd (u_handle_delink 16 (make_handle demo2 20)
     (snd (u_handle_link 16 (make_handle demo2 20) demo2)))) []"
  using handle_list_refines [OF demo2_link_rel, of "[Ins (make_handle demo2 20), Rem (make_handle demo2 20)]"]
  by simp

text \<open>\<open>u_handle_free_all\<close> with callbacks that take their handle off the list: it returns \<open>HR_OK\<close>, the
  list is empty, exactly its handles are gone from the map, and the invariant holds.\<close>

theorem handle_free_all_frees:
  assumes "frees_by_delink cb l" "handle_inv s L A" "L l = Some xs" "\<And>i. i \<in> set xs \<Longrightarrow> freeable s i"
    and "\<not> ftst H_LINK_FLAG_PARSING (hl_flags (links s l))" "\<not> ftst H_LINK_FLAG_FREE_ALL (hl_flags (links s l))"
  shows "\<exists>s'. u_handle_free_all cb acb l s = Inr (HR_OK, s') \<and> handle_inv s' (L(l \<mapsto> [])) A \<and>
    habs s' = habs s |` (- make_handle s ` set xs) \<and> crit s' = crit s"
  by (rule u_handle_free_all_ok [where acb = acb, OF assms]) auto

definition demo_delink_free :: "ptr \<Rightarrow> unit free_cb" where
  "demo_delink_free l f h ty obj tag req s = Inr (True, snd (u_handle_delink l h s))"

definition demoL :: hlib where "demoL = snd (u_handle_link 16 (make_handle demo2 20) demo2)"

lemma demoL_sel: "handle_inv demoL [16 \<mapsto> [20]] (\<lambda>_. [])" "hl_flags (links demoL 16) = 0" "freeable demoL 20"
  "hflags demoL 20 = 5"
proof -
  obtain s' where s': "u_handle_link 16 (make_handle demo2 20) demo2 = (HR_OK, s')"
    "handle_inv s' ([16 \<mapsto> []](16 \<mapsto> [] @ [20])) (\<lambda>_. [])"
    "s' = link_tail 16 20 (set_flags 20 (fset H_CTRL_FLAG_LINKED) demo2)"
    by (rule u_handle_link_ok [OF demo2_sel(2) _ demo2_block(7) _ demo2_sel(5), of 16 "[]"])
      (simp_all add: demo2_block)
  have d: "demoL = s'" using s'(1) by (simp add: demoL_def)
  have pl: "payload s' 20 = payload demo2 20" by (simp add: s'(3))
  show "handle_inv demoL [16 \<mapsto> [20]] (\<lambda>_. [])" using s'(2) by (simp add: d)
  show "hl_flags (links demoL 16) = 0" by (simp add: d s'(3) demo2_sel(8))
  show f: "hflags demoL 20 = 5" by (simp add: d s'(3) demo2_block fset_def)
  show "freeable demoL 20"
    using pl payload_obj [of s' 20 demo2 20]
    by (simp add: freeable_def f) (simp add: d s'(3) demo2_block ftst_def fn_aux_link_head_free_def)
qed

theorem handle_free_all_frees_witness:
  "\<exists>s'. u_handle_free_all (demo_delink_free 16) (\<lambda>_ _ s. Inr s) 16 demoL = Inr (HR_OK, s') \<and>
     habs s' (make_handle demoL 20) = None"
proof -
  have "frees_by_delink (demo_delink_free 16) 16"
    unfolding frees_by_delink_def demo_delink_free_def by (auto intro!: exI [of _ "()"])
  then have "\<exists>s'. u_handle_free_all (demo_delink_free 16) (\<lambda>_ _ s. Inr s) 16 demoL = Inr (HR_OK, s') \<and>
      handle_inv s' ([16 \<mapsto> [20]](16 \<mapsto> [])) (\<lambda>_. []) \<and>
      habs s' = habs demoL |` (- make_handle demoL ` set [20]) \<and> crit s' = crit demoL"
    by (rule handle_free_all_frees) (simp_all add: demoL_sel ftst_def)
  then show ?thesis by (auto simp: restrict_map_def)
qed

text \<open>\<open>handle_parse\<close> with a callback that works on the client's data only: it is called for the handles of the
  list from head to tail, with positions 0, 1, ..., up to the one where it asks to stop, and
  the library is as before.\<close>

theorem handle_parse_in_order:
  assumes "handle_inv s L A" "L l = Some xs" "pf \<noteq> NULL"
    and "\<not> ftst H_LINK_FLAG_PARSING (hl_flags (links s l))"
      "\<And>i. i \<in> set xs \<Longrightarrow> \<not> ftst H_CTRL_FLAG_PARSING (hflags s i)"
    and "reads_only pcb pf data s stop g"
  shows "handle_parse pcb l pf data s = Inr (HR_OK, hlib.more_update (visit stop g 0 xs) s)"
  using assms by (rule handle_parse_visits)

definition demo_parse :: "unit parse_cb" where
  "demo_parse pf k n h ty obj tag data s = Inr (HP_BREAK, s)"

theorem handle_parse_in_order_witness: "handle_parse demo_parse 16 3 0 demoL = Inr (HR_OK, demoL)"
proof -
  have r: "reads_only demo_parse 3 0 demoL (\<lambda>_ _ _. True) (\<lambda>_ _ m. m)"
    by (simp add: reads_only_def demo_parse_def)
  have "handle_parse demo_parse 16 3 0 demoL =
      Inr (HR_OK, hlib.more_update (visit (\<lambda>_ _ _. True) (\<lambda>_ _ m. m) 0 [20]) demoL)"
    by (rule handle_parse_in_order [OF demoL_sel(1) _ _ _ _ r]) (simp_all add: demoL_sel ftst_def)
  then show ?thesis by simp
qed

text \<open>A client's walk over an auxiliary list, from its head.\<close>

primrec aux_walk :: "nat \<Rightarrow> handle \<Rightarrow> 'x hlib_scheme \<Rightarrow> handle list" where
  "aux_walk 0 h s = []"
| "aux_walk (Suc n) h s = (case u_handle_next_aux_linked h True s of
     (r, Some h', s') \<Rightarrow> if h' = NULL_HANDLE then [] else h' # aux_walk n h' s'
   | _ \<Rightarrow> [])"

lemma make_handle_not_null: "0 < i \<Longrightarrow> make_handle s i \<noteq> NULL_HANDLE"
proof
  assume "0 < i" "make_handle s i = NULL_HANDLE"
  then have "unat i + 65536 * unat (hcount s i) = 0"
    using handle_value [of i "hcount s i"] by (simp add: make_handle_def)
  then show False using \<open>0 < i\<close> by (simp add: word_less_nat_alt)
qed

lemma next_aux_eq:
  assumes "b_init s" "live s i"
  shows "u_handle_next_aux_linked (make_handle s i) True s =
    (HR_OK, Some (if anext s i \<noteq> 0 then make_handle s (anext s i) else NULL_HANDLE), s)"
  using assms get_h_ctrl_live [of s "make_handle s i" i]
  by (simp add: u_handle_next_aux_linked_def Let_def)

lemma aux_walk_path:
  assumes "b_init s" "path (anext s) (anext s i) xs 0" "live s i" "\<forall>j\<in>set xs. live s j" "length xs \<le> n"
  shows "aux_walk n (make_handle s i) s = map (make_handle s) xs"
  using assms
proof (induction xs arbitrary: i n)
  case Nil
  then show ?case by (cases n) (simp_all add: next_aux_eq)
next
  case (Cons x xs)
  then obtain m where n: "n = Suc m" by (cases n) auto
  have "x \<noteq> 0" "make_handle s x \<noteq> 0" using Cons.prems make_handle_not_null by (auto simp: live_def)
  then show ?case using Cons.prems Cons.IH [of x m] n by (simp add: next_aux_eq)
qed

text \<open>Auxiliary lists: the client's walk over an auxiliary list, from its head with
  \<open>u_handle_next_aux_linked\<close>, yields the handles linked to the head, last linked first, and nothing else.\<close>

theorem aux_list_enumerates:
  assumes "handle_inv s L A" "get_h_ctrl_from_handle s h = Some a" "htype s a = HT_AUX_LINK_HEAD"
    and "length (A a) \<le> n"
  shows "aux_walk n h s = map (make_handle s) (A a) \<and>
    fst (handle_num_aux_links h s) = of_nat (length (A a))"
proof
  have a: "is_aux_head s a" "make_handle s a = h" "live s a"
    using assms by (simp_all add: is_aux_head_def get_h_ctrl_live)
  then have al: "alist s a (A a)" using assms(1) by (simp add: handle_inv_def aux_ok_def)
  then have "path (anext s) (anext s a) (A a) 0" "\<forall>j\<in>set (A a). live s j"
    by (auto simp: alist_def dlist_def)
  then show "aux_walk n h s = map (make_handle s) (A a)"
    using aux_walk_path [of s a "A a" n] assms(1,4) a by (simp add: handle_inv_def)
  show "fst (handle_num_aux_links h s) = of_nat (length (A a))"
    using al assms by (simp add: handle_num_aux_links_def handle_inv_def alist_def Let_def)
qed

definition demo4 :: hlib where
  "demo4 = snd (u_handle_link_to_aux (make_handle demo3 19) (make_handle demo3 20) demo3)"

lemma demo4_sel: "handle_inv demo4 [16 \<mapsto> []] ((\<lambda>_. [])(19 := [20]))" "live demo4 19" "htype demo4 19 = HT_AUX_LINK_HEAD"
proof -
  obtain s' where "u_handle_link_to_aux (make_handle demo3 19) (make_handle demo3 20) demo3 = (HR_OK, s')"
    "handle_inv s' [16 \<mapsto> []] ((\<lambda>_. [])(19 := 20 # (\<lambda>_. []) (19 :: u16)))" "live s' = live demo3" "htype s' = htype demo3"
    by (rule u_handle_link_to_aux_ok [OF demo3_sel(2), of "make_handle demo3 19" 19 "make_handle demo3 20" 20])
      (simp_all add: get_h_ctrl_live demo3_sel)
  then show "handle_inv demo4 [16 \<mapsto> []] ((\<lambda>_. [])(19 := [20]))" "live demo4 19" "htype demo4 19 = HT_AUX_LINK_HEAD"
    by (simp_all add: demo4_def demo3_sel)
qed

theorem aux_list_enumerates_witness:
  "aux_walk 5 (make_handle demo4 19) demo4 = [make_handle demo4 20]"
  using aux_list_enumerates [OF demo4_sel(1), of "make_handle demo4 19" 19 5]
  by (simp add: get_h_ctrl_live demo4_sel)

text \<open>Auxiliary lists: linking a handle that is on none puts it first, delinking it later takes it out,
  and both keep the invariant; a head with members cannot be freed and a head without can.\<close>

theorem aux_list_link_delink:
  assumes "handle_inv s L A" "get_h_ctrl_from_handle s ha = Some a" "htype s a = HT_AUX_LINK_HEAD"
    and "u_ptr (ctrl s a) = NULL" "get_h_ctrl_from_handle s h = Some i" "HT_RES_BY_HANDLE_LIB \<le> htype s i" "ahead s i = 0"
  shows "\<exists>s1 s2. u_handle_link_to_aux ha h s = (HR_OK, s1) \<and> handle_inv s1 L (A(a := i # A a)) \<and>
    aux_link_head_free ha HT_AUX_LINK_HEAD (pv_obj (ctrl s1 a)) (u_ptr (ctrl s1 a)) req s1 = Inr (False, s1) \<and>
    u_handle_delink_from_aux acb h s1 = Inr (HR_OK, s2) \<and> handle_inv s2 L A \<and>
    aux_link_head_free ha HT_AUX_LINK_HEAD (pv_obj (ctrl s2 a)) (u_ptr (ctrl s2 a)) req s2 = Inr (A a = [], s2) \<and>
    habs s2 = habs s \<and> crit s2 = crit s"
proof -
  let ?s1 = "crit_end (link_aux_head a i (crit_start s))"
  let ?s2 = "crit_end (unlink_aux (ahead ?s1 i) i (crit_start ?s1))"
  have live: "live s a" "live s i" "make_handle s a = ha" "make_handle s i = h"
    using assms by (simp_all add: get_h_ctrl_live)
  have ai: "a \<noteq> i" "a \<noteq> 0" using assms(3,6) live(1) head_type_not_client by (auto simp: live_def)
  obtain s1 where s1: "u_handle_link_to_aux ha h s = (HR_OK, s1)" "handle_inv s1 L (A(a := i # A a))"
    "hcount s1 = hcount s" "live s1 = live s" "htype s1 = htype s" "crit s1 = crit s"
    by (rule u_handle_link_to_aux_ok [OF assms(1-3,5-7)]) blast
  have e1: "s1 = ?s1"
    using s1(1) assms by (simp add: u_handle_link_to_aux_def Let_def handle_inv_def)
  have "make_handle s1 = make_handle s" using s1(3) by (intro ext make_handle_cong) simp
  then have h1: "get_h_ctrl_from_handle s1 ha = Some a" "get_h_ctrl_from_handle s1 h = Some i"
    using live s1(4) by (simp_all add: get_h_ctrl_live)
  have p1: "payload s1 = payload s" by (simp add: e1)
  have a1: "ahead s1 i = a" by (simp add: e1)
  have cb: "u_ptr (ctrl s1 (ahead s1 i)) \<noteq> NULL \<Longrightarrow>
      acb (u_ptr (ctrl s1 (ahead s1 i))) (pv_obj (ctrl s1 (ahead s1 i))) (crit_start s1) = Inr (crit_start s1)"
    using assms(4) payload_obj [of s1 a s a] p1 by (simp add: a1)
  obtain s2 where s2: "u_handle_delink_from_aux acb h s1 = Inr (HR_OK, s2)"
    "handle_inv s2 L ((A(a := i # A a))(ahead s1 i := remove1 i ((A(a := i # A a)) (ahead s1 i))))"
    "hcount s2 = hcount s1" "active s2 = active s1" "crit s2 = crit s1"
    by (rule u_handle_delink_from_aux_ok [where acb = acb, OF s1(2) h1(2)])
      (use assms(6) s1(5) a1 ai cb in auto)
  have e2: "s2 = ?s2"
    using s2(1) h1(2) assms(4,6) s1(2,5) a1 ai payload_obj [of s1 a s a] p1
    by (simp add: u_handle_delink_from_aux_def delink_from_aux_def Let_def handle_inv_def) (simp add: e1)
  have inv2: "handle_inv s2 L A" using s2(2) by (simp add: a1)
  have l2: "live s2 = live s" "htype s2 = htype s" "payload s2 = payload s" "hcount s2 = hcount s"
    using s1 by (simp_all add: e2 live_def fun_eq_iff)
  have "make_handle s2 = make_handle s" using l2(4) by (intro ext make_handle_cong) simp
  then have h2: "get_h_ctrl_from_handle s2 ha = Some a" using live l2 by (simp add: get_h_ctrl_live)
  show ?thesis
    using s1(1,2,6) s2(1,5) inv2 habs_cong_payload [OF l2(1,4,2,3)]
      aux_link_head_free_eq [OF s1(2) h1(1)] aux_link_head_free_eq [OF inv2 h2] assms(3) s1(5) l2(2)
    by (intro exI [of _ s1] exI [of _ s2]) simp
qed

theorem aux_list_link_delink_witness:
  "\<exists>s1 s2. u_handle_link_to_aux (make_handle demo3 19) (make_handle demo3 20) demo3 = (HR_OK, s1) \<and>
     u_handle_delink_from_aux (\<lambda>_ _ s. Inr s) (make_handle demo3 20) s1 = Inr (HR_OK, s2) \<and>
     habs s2 = habs demo3"
proof -
  have "\<exists>s1 s2. u_handle_link_to_aux (make_handle demo3 19) (make_handle demo3 20) demo3 = (HR_OK, s1) \<and>
      handle_inv s1 [16 \<mapsto> []] ((\<lambda>_. [])(19 := 20 # (\<lambda>_. []) 19)) \<and>
      aux_link_head_free (make_handle demo3 19) HT_AUX_LINK_HEAD (pv_obj (ctrl s1 19)) (u_ptr (ctrl s1 19)) True s1
        = Inr (False, s1) \<and>
      u_handle_delink_from_aux (\<lambda>_ _ s. Inr s) (make_handle demo3 20) s1 = Inr (HR_OK, s2) \<and>
      handle_inv s2 [16 \<mapsto> []] (\<lambda>_. []) \<and>
      aux_link_head_free (make_handle demo3 19) HT_AUX_LINK_HEAD (pv_obj (ctrl s2 19)) (u_ptr (ctrl s2 19)) True s2
        = Inr ((\<lambda>_. []) (19 :: u16) = ([] :: u16 list), s2) \<and>
      habs s2 = habs demo3 \<and> crit s2 = crit demo3"
    by (rule aux_list_link_delink [OF demo3_sel(2)]) (simp_all add: get_h_ctrl_live demo3_sel)
  then show ?thesis by blast
qed

text \<open>Handles and blocks: a value resolves to a block exactly when the block is in use and the value is
  the block's current handle; so no two blocks share a handle and no block has two.\<close>

theorem handle_resolution:
  "get_h_ctrl_from_handle s h = Some i \<longleftrightarrow>
    0 < i \<and> i \<le> ui2_num_total s \<and> active s i \<and> h = make_handle s i"
  by (auto simp: get_h_ctrl_live live_def)

text \<open>Stale handles: a handle kept after \<open>k\<close> allocations and frees of its block (each adds one to the 8-bit
  use count) resolves again exactly when the block is in use and \<open>k\<close> is a multiple of 256; until then it
  is refused.\<close>

theorem stale_handle_resolution:
  assumes "hcount s' i = hcount s i + of_nat k"
  shows "get_h_ctrl_from_handle s' (make_handle s i) = (if live s' i \<and> 256 dvd k then Some i else None)"
proof -
  have d: "hcount s' i = hcount s i \<longleftrightarrow> 256 dvd k"
    using assms by (auto simp: word_of_nat_eq_0_iff)
  have 1: "get_h_ctrl_from_handle s' (make_handle s i) = Some j \<longleftrightarrow> live s' j \<and> j = i \<and> 256 dvd k" for j
    by (auto simp: get_h_ctrl_live make_handle_inject d)
  then show ?thesis by (cases "get_h_ctrl_from_handle s' (make_handle s i)") auto
qed

theorem stale_handle_resolution_witness:
  "get_h_ctrl_from_handle (upd_ctrl 20 (\<lambda>c. c\<lparr>ui1_count := ui1_count c + 2\<rparr>) demo2) (make_handle demo2 20) = None"
  by (subst stale_handle_resolution [where k = 2]) simp_all

text \<open>Growing by a positive number of handles never returns an error code: it succeeds or faults.\<close>

lemma realloc_handle_no_error:
  assumes "realloc_handle ra HANDLE_REALLOC_NUM s = Inr (r, s')"
  shows "r = HR_OK"
proof -
  let ?z = "sizeof_H_CTRL_T * (ucast (ui2_num_total s) + ucast HANDLE_REALLOC_NUM + 5)"
  have z: "?z \<noteq> 0" "sizeof_H_CTRL_T * (ucast HANDLE_REALLOC_NUM + 1) < ?z"
    by (rule realloc_z_len)+
  then show ?thesis
    using assms unfolding realloc_handle_def realloc_handle_init_def Let_def
    by (simp del: of_nat_add split: if_splits) (auto simp: then_do_Inr)
qed

lemma u_handle_alloc_error:
  assumes "u_handle_alloc ra ty obj tag fre ph s = Inr (r, oh, s')" "r \<noteq> HR_OK"
  shows "s' = s \<and> oh = None"
  using assms unfolding u_handle_alloc_def Let_def
  by (auto simp: then_do_Inr split: if_splits option.splits dest: realloc_handle_no_error)

text \<open>Errors: a call of the library that returns an error code has changed nothing, neither the
  control blocks nor the lists nor the nesting of the critical section, and \<open>u_handle_alloc\<close> has stored no
  handle.\<close>

theorem handle_errors_change_nothing:
  "(fst (u_handle_link l h s) \<noteq> HR_OK \<longrightarrow> snd (u_handle_link l h s) = s) \<and>
   (fst (u_handle_delink l h s) \<noteq> HR_OK \<longrightarrow> snd (u_handle_delink l h s) = s) \<and>
   (fst (u_handle_link_to_aux ha h s) \<noteq> HR_OK \<longrightarrow> snd (u_handle_link_to_aux ha h s) = s) \<and>
   (fst (u_handle_set_obj h obj s) \<noteq> HR_OK \<longrightarrow> snd (u_handle_set_obj h obj s) = s) \<and>
   (u_handle_alloc ra ty obj tag fre ph s = Inr (r, oh, s') \<longrightarrow> r \<noteq> HR_OK \<longrightarrow> s' = s \<and> oh = None)"
proof (intro conjI)
  show "fst (u_handle_link l h s) \<noteq> HR_OK \<longrightarrow> snd (u_handle_link l h s) = s"
    by (simp add: u_handle_link_def Let_def split: option.split)
  show "fst (u_handle_delink l h s) \<noteq> HR_OK \<longrightarrow> snd (u_handle_delink l h s) = s"
    by (simp add: u_handle_delink_def Let_def split: option.split)
  show "fst (u_handle_link_to_aux ha h s) \<noteq> HR_OK \<longrightarrow> snd (u_handle_link_to_aux ha h s) = s"
    by (simp add: u_handle_link_to_aux_def Let_def split: option.split)
  show "fst (u_handle_set_obj h obj s) \<noteq> HR_OK \<longrightarrow> snd (u_handle_set_obj h obj s) = s"
    by (simp add: u_handle_set_obj_def Let_def split: option.split)
  show "u_handle_alloc ra ty obj tag fre ph s = Inr (r, oh, s') \<longrightarrow> r \<noteq> HR_OK \<longrightarrow> s' = s \<and> oh = None"
    using u_handle_alloc_error by blast
qed

theorem handle_errors_change_nothing_witness:
  "snd (u_handle_delink 16 (make_handle demo2 20) demo2) = demo2"
proof -
  have "fst (u_handle_delink 16 (make_handle demo2 20) demo2) \<noteq> HR_OK"
    using demo2_sel(2,5) demo2_block by (simp add: u_handle_delink_def Let_def handle_inv_def linked_def)
  then show ?thesis
    using handle_errors_change_nothing [of 16 "make_handle demo2 20" demo2] by blast
qed

lemma init_loop_bound: "init_loop bound idx s = Some y \<Longrightarrow> bound \<le> 65535"
proof (rule init_loop.raw_induct [where P = "\<lambda>b _ _ _. b \<le> 65535"])
  fix f :: "int \<Rightarrow> u16 \<Rightarrow> 'a hlib_scheme \<Rightarrow> 'a hlib_scheme option" and b i t y
  have "int (unat (i :: u16)) \<le> 65535" using unat_bounds(2) [of i] by linarith
  moreover assume "\<And>b i s y. f b i s = Some y \<Longrightarrow> b \<le> 65535"
    and "(if int (unat i) < b then f b (i + 1) (init_slot i t) else Some t) = Some y"
  ultimately show "b \<le> 65535"
    by (cases "int (unat i) < b") (simp_all add: not_less)
qed

lemma init_loop_never_ends: "65535 < bound \<Longrightarrow> init_loop bound idx s = None"
  using init_loop_bound [of bound idx s] by (cases "init_loop bound idx s") auto

text \<open>The limits of growth.  When the free list runs low, \<open>u_handle_alloc\<close> dereferences \<open>NULL\<close> if
  \<open>realloc\<close> fails (its result is not checked), and never returns, inside the critical section, once the
  total would exceed 16 bits (the loop variable of \<open>realloc_handle_init\<close> wraps below its bound).\<close>

theorem handle_growth_limits:
  assumes "b_init s" "fre \<noteq> NULL" "ty \<noteq> INV_HANDLE_TYPE" "ui2_free_handles s \<noteq> 0" "ui2_num_free s - 1 \<le> 10"
  shows "((\<forall>z. ra (pt_h_ctrl_arr s) z = NULL) \<longrightarrow> u_handle_alloc ra ty obj tag fre True s = Inl BadAccess) \<and>
    ((\<forall>z. ra (pt_h_ctrl_arr s) z \<noteq> NULL) \<longrightarrow> ui2_num_total s > 64535 \<longrightarrow>
      u_handle_alloc ra ty obj tag fre True s = Inl Hang)"
proof -
  let ?t = "ui2_num_total s"
  let ?s = "(crit_start s)\<lparr>ui2_free_handles := hnext s (ui2_free_handles s), ui2_num_free := ui2_num_free s - 1\<rparr>"
  have z: "sizeof_H_CTRL_T * (ucast ?t + ucast HANDLE_REALLOC_NUM + 5) \<noteq> 0"
    "sizeof_H_CTRL_T * (ucast HANDLE_REALLOC_NUM + 1)
      < sizeof_H_CTRL_T * (ucast ?t + ucast HANDLE_REALLOC_NUM + 5)"
    by (rule realloc_z_len)+
  have a: "u_handle_alloc ra ty obj tag fre True s = Inl e"
    if "realloc_handle ra HANDLE_REALLOC_NUM ?s = Inl e" for e
    using assms that by (simp add: u_handle_alloc_def Let_def get_h_ctrl_from_idx_def)
  have 1: "realloc_handle ra HANDLE_REALLOC_NUM ?s = Inl BadAccess" if "\<forall>z. ra (pt_h_ctrl_arr s) z = NULL"
    using z that by (simp add: realloc_handle_def realloc_handle_init_def Let_def)
  have 2: "realloc_handle ra HANDLE_REALLOC_NUM ?s = Inl Hang"
    if "\<forall>z. ra (pt_h_ctrl_arr s) z \<noteq> NULL" "?t > 64535"
  proof -
    have "65535 < int (unat ?t) + int (unat HANDLE_REALLOC_NUM)"
      using that(2) by (simp add: word_less_def)
    then have "run_init_loop (int (unat ?t) + int (unat HANDLE_REALLOC_NUM)) i t = Inl Hang" for i and t :: "'a hlib_scheme"
      by (simp only: run_init_loop_def init_loop_never_ends) simp
    then show ?thesis
      using z that(1) by (simp add: realloc_handle_def realloc_handle_init_def Let_def)
  qed
  show ?thesis using a 1 2 by blast
qed

definition demo_low :: hlib where
  "demo_low = hlib_start\<lparr>b_init := True, pt_h_ctrl_arr := 4096, ui2_num_total := 65000, ui2_num_free := 1, ui2_free_handles := 7\<rparr>"

theorem handle_growth_limits_witness:
  "u_handle_alloc (\<lambda>_ _. NULL) 130 7 9 5 True demo_low = Inl BadAccess \<and>
   u_handle_alloc demo_realloc 130 7 9 5 True demo_low = Inl Hang"
proof -
  have pre: "b_init demo_low" "(5 :: nat) \<noteq> NULL" "(130 :: u16) \<noteq> INV_HANDLE_TYPE" "ui2_free_handles demo_low \<noteq> 0"
    "ui2_num_free demo_low - 1 \<le> 10" "ui2_num_total demo_low > 64535"
    by (simp_all add: demo_low_def)
  show ?thesis
    using handle_growth_limits [OF pre(1-5), of "\<lambda>_ _. NULL" 7 9] pre(6)
      handle_growth_limits [OF pre(1-5), of demo_realloc 7 9]
    by (simp add: demo_realloc_def)
qed

text \<open>\<open>u_handle_autofree\<close>: for a valid handle of a registered group it calls the function the table has for
  the type; a type of a group from \<open>HT_GROUP_COMMON\<close> up indexes the array of tables beyond its end.\<close>

theorem handle_autofree_dispatch:
  assumes "b_init s" "get_h_ctrl_from_handle s h = Some i"
  shows "(HT_NB_GROUPS \<le> unat (htype s i div HT_GROUP_SIZE) \<longrightarrow> u_handle_autofree fcb tbl h s = Inl BadAccess) \<and>
    (\<forall>t f. unat (htype s i div HT_GROUP_SIZE) < HT_NB_GROUPS \<longrightarrow>
      apf_handle_clean_up_functions s (unat (htype s i div HT_GROUP_SIZE)) = t \<longrightarrow> t \<noteq> NULL \<longrightarrow>
      tbl t (unat (htype s i AND (HT_GROUP_SIZE - 1))) = f \<longrightarrow> f \<noteq> NULL \<longrightarrow>
      u_handle_autofree fcb tbl h s = then_do (fcb f h (htype s i) s)
        (\<lambda>(r, s). if r \<noteq> HR_OK then Inl (Aborted DBG_ABRT_AUTOFREE_FAILED) else Inr s))"
  using assms
  by (simp add: u_handle_autofree_def u_handle_get_type_obj_def Let_def del: of_nat_le_iff)

theorem handle_autofree_dispatch_witness:
  "u_handle_autofree (\<lambda>_ _ _ s. Inr (0, s)) (\<lambda>_ _. 3) (make_handle demo2 20) demo2 = Inl BadAccess"
proof -
  have "b_init demo2" using demo2_sel(2) by (simp add: handle_inv_def)
  then show ?thesis
    using handle_autofree_dispatch [of demo2 "make_handle demo2 20" 20 "\<lambda>_ _ _ s. Inr (0, s)" "\<lambda>_ _. 3"]
    by (simp add: demo2_block)
qed

text \<open>\<open>handle_alloc_and_obj\<close> does not leak: when it returns an error, the object it had obtained from the C
  heap has been given back, and the library is as before.\<close>

theorem handle_alloc_and_obj_no_leak:
  assumes "handle_alloc_and_obj ra m ty tag z_size fre ph po s = Inr (r, oh, oo, s')" "r \<noteq> HR_OK" "m \<notin> heap s"
  shows "s' = s \<and> oh = None \<and> oo \<in> {None, Some NULL}"
  using assms unfolding handle_alloc_and_obj_def Let_def
  by (auto simp: then_do_Inr split: if_splits dest: u_handle_alloc_error)

theorem handle_alloc_and_obj_no_leak_witness:
  "handle_alloc_and_obj demo_realloc 400 INV_HANDLE_TYPE 0 12 5 True True (hlib_start\<lparr>b_init := True\<rparr>) =
    Inr (HR_INV_HANDLE_TYPE, None, Some NULL, hlib_start\<lparr>b_init := True\<rparr>)"
proof -
  let ?s = "hlib_start\<lparr>b_init := True\<rparr>"
  obtain oh oo s' where e: "handle_alloc_and_obj demo_realloc 400 INV_HANDLE_TYPE 0 12 5 True True ?s =
      Inr (HR_INV_HANDLE_TYPE, oh, oo, s')" "oo \<noteq> None"
    by (simp add: handle_alloc_and_obj_def u_handle_alloc_def Let_def)
  have "s' = ?s \<and> oh = None \<and> oo \<in> {None, Some NULL}"
    by (rule handle_alloc_and_obj_no_leak [OF e(1)]) (simp_all add: hlib_start_def)
  then show ?thesis using e by auto
qed

end
