(* ===== verification/Crit.thy ===== *)
theory Crit
  imports Prelude
begin

text \<open>The critical section of the OS layer, mw/os_pthread/os_pthread_crit.c: a recursive lock made of a
  \<open>pthread\<close> mutex, the owner's thread id and a nesting count.  \<open>u_crit_start\<close> and \<open>u_crit_end\<close> are cut into
  the steps between which other threads may run: the unlocked test of the owner, the acquisition of
  the mutex, the assignments.  A transition system over any number of threads gives mutual exclusion.\<close>

section \<open>State\<close>

text \<open>\<open>None\<close> is \<open>INVALID_PTHREAD_T\<close>; \<open>mutex\<close> is the owner of the \<open>pthread\<close> mutex.  Where each
  thread is: outside, about to lock, holding the mutex with the owner not yet written, owner written
  and count not yet raised, inside, owner cleared and mutex not yet released.\<close>

datatype crit_pc = Outside | Locking | Locked | Owning | Inside | Leaving

record crit =
  mutex :: "tid option"
  thread :: "tid option"
  i2_selfcount :: "16 word"
  pc :: "tid \<Rightarrow> crit_pc"
  nest :: "tid \<Rightarrow> nat"

definition s_crit :: crit where
  "s_crit = \<lparr>mutex = None, thread = None, i2_selfcount = 0, pc = (\<lambda>_. Outside), nest = (\<lambda>_. 0)\<rparr>"

text \<open>\<open>nest t\<close> is a ghost: how many calls of \<open>u_crit_start\<close> of \<open>t\<close> have returned without a matching
  \<open>u_crit_end\<close>.\<close>

section \<open>Steps\<close>

definition raise_count :: "tid \<Rightarrow> crit \<Rightarrow> crit" where
  "raise_count t s = s\<lparr>i2_selfcount := i2_selfcount s + 1, pc := (pc s)(t := Inside), nest := (nest s)(t := nest s t + 1)\<rparr>"

text \<open>\<open>u_crit_start\<close>: the test of the owner, then its four further steps.\<close>

definition start_test :: "tid \<Rightarrow> crit \<Rightarrow> crit" where
  "start_test t s = (if thread s = Some t then raise_count t s else s\<lparr>pc := (pc s)(t := Locking)\<rparr>)"

definition start_lock :: "tid \<Rightarrow> crit \<Rightarrow> crit option" where
  "start_lock t s = (if mutex s = None then Some (s\<lparr>mutex := Some t, pc := (pc s)(t := Locked)\<rparr>) else None)"

definition start_own :: "tid \<Rightarrow> crit \<Rightarrow> crit" where
  "start_own t s = s\<lparr>thread := Some t, pc := (pc s)(t := Owning)\<rparr>"

text \<open>\<open>u_crit_end\<close> up to the release of the mutex; \<open>None\<close> is a failed \<open>ASSERT\<close>.\<close>

definition end_count :: "tid \<Rightarrow> 16 word \<Rightarrow> crit \<Rightarrow> crit option" where
  "end_count t t_old_level s =
    (if thread s = Some t \<and> i2_selfcount s = t_old_level then
       let s = s\<lparr>i2_selfcount := i2_selfcount s - 1, nest := (nest s)(t := nest s t - 1)\<rparr>
       in Some (if i2_selfcount s = 0 then s\<lparr>thread := None, pc := (pc s)(t := Leaving)\<rparr> else s)
     else None)"

definition end_unlock :: "tid \<Rightarrow> crit \<Rightarrow> crit" where
  "end_unlock t s = s\<lparr>mutex := None, pc := (pc s)(t := Outside)\<rparr>"

text \<open>A call made without interruption: what \<open>u_crit_start\<close> returns (\<open>None\<close> when it has to wait) and the
  whole of \<open>u_crit_end\<close>.\<close>

definition u_crit_start :: "tid \<Rightarrow> crit \<Rightarrow> (16 word \<times> crit) option" where
  "u_crit_start t s =
    (let s1 = start_test t s in
     if pc s1 t = Inside then Some (i2_selfcount s1, s1)
     else case start_lock t s1 of None \<Rightarrow> None
       | Some s2 \<Rightarrow> let s3 = raise_count t (start_own t s2) in Some (i2_selfcount s3, s3))"

definition u_crit_end :: "tid \<Rightarrow> 16 word \<Rightarrow> crit \<Rightarrow> crit option" where
  "u_crit_end t lv s = (case end_count t lv s of None \<Rightarrow> None
     | Some s1 \<Rightarrow> Some (if pc s1 t = Leaving then end_unlock t s1 else s1))"

text \<open>Threads interleave.  A thread ends only sections it has started, with the level it was given (the
  callers keep it in a local variable), and does not nest 32767 deep.\<close>

inductive crit_step :: "crit \<Rightarrow> crit \<Rightarrow> bool" where
  test: "pc s t \<in> {Outside, Inside} \<Longrightarrow> nest s t < 32766 \<Longrightarrow> crit_step s (start_test t s)"
| lock: "pc s t = Locking \<Longrightarrow> start_lock t s = Some s' \<Longrightarrow> crit_step s s'"
| own: "pc s t = Locked \<Longrightarrow> crit_step s (start_own t s)"
| count: "pc s t = Owning \<Longrightarrow> crit_step s (raise_count t s)"
| leave: "pc s t = Inside \<Longrightarrow> 0 < nest s t \<Longrightarrow> end_count t (of_nat (nest s t)) s = Some s' \<Longrightarrow> crit_step s s'"
| unlock: "pc s t = Leaving \<Longrightarrow> crit_step s (end_unlock t s)"

section \<open>The invariant\<close>

text \<open>Either nobody has the mutex and every thread is outside or waiting, or one thread has it and is at one of
  the four places past its acquisition; the owner field is that thread's from the assignment to
  the last \<open>u_crit_end\<close>, and the count is its nesting depth.\<close>

definition idle :: "crit \<Rightarrow> tid \<Rightarrow> bool" where
  "idle s t \<longleftrightarrow> pc s t \<in> {Outside, Locking} \<and> nest s t = 0"

definition owner_at :: "crit \<Rightarrow> tid \<Rightarrow> bool" where
  "owner_at s t = (case pc s t of
     Locked \<Rightarrow> thread s = None \<and> nest s t = 0 \<and> i2_selfcount s = 0
   | Owning \<Rightarrow> thread s = Some t \<and> nest s t = 0 \<and> i2_selfcount s = 0
   | Inside \<Rightarrow> thread s = Some t \<and> 0 < nest s t \<and> nest s t < 32767 \<and> i2_selfcount s = of_nat (nest s t)
   | Leaving \<Rightarrow> thread s = None \<and> nest s t = 0 \<and> i2_selfcount s = 0
   | _ \<Rightarrow> False)"

definition crit_inv :: "crit \<Rightarrow> bool" where
  "crit_inv s = (case mutex s of
     None \<Rightarrow> (\<forall>t. idle s t) \<and> thread s = None \<and> i2_selfcount s = 0
   | Some w \<Rightarrow> (\<forall>t. t \<noteq> w \<longrightarrow> idle s t) \<and> owner_at s w)"

lemma crit_inv_init: "crit_inv s_crit"
  by (auto simp: crit_inv_def s_crit_def idle_def)

text \<open>A thread past the acquisition is the one that has the mutex.\<close>

lemma crit_inv_owner:
  assumes "crit_inv s" "pc s t \<notin> {Outside, Locking}"
  shows "mutex s = Some t" "owner_at s t" "\<And>u. u \<noteq> t \<Longrightarrow> idle s u"
proof -
  have "\<not> idle s t" using assms(2) by (simp add: idle_def)
  then obtain w where w: "mutex s = Some w" using assms(1) by (auto simp: crit_inv_def split: option.splits)
  then have "w = t" using assms(1) \<open>\<not> idle s t\<close> by (auto simp: crit_inv_def)
  then show "mutex s = Some t" "owner_at s t" "\<And>u. u \<noteq> t \<Longrightarrow> idle s u"
    using w assms(1) by (auto simp: crit_inv_def)
qed

text \<open>A step of the owner that leaves the others alone.\<close>

lemma crit_inv_owner_step:
  assumes "\<And>u. u \<noteq> t \<Longrightarrow> idle s u" "\<And>u. u \<noteq> t \<Longrightarrow> pc s' u = pc s u \<and> nest s' u = nest s u"
    and "mutex s' = Some t" "owner_at s' t"
  shows "crit_inv s'"
  using assms by (auto simp: crit_inv_def idle_def)

lemma crit_inv_test:
  assumes inv: "crit_inv s" and p: "pc s t \<in> {Outside, Inside}" "nest s t < 32766"
  shows "crit_inv (start_test t s)"
proof (cases "thread s = Some t")
  case True
  have "pc s t = Inside"
  proof (rule ccontr)
    assume "pc s t \<noteq> Inside"
    with p(1) have o: "pc s t = Outside" by simp
    obtain w where w: "mutex s = Some w" "owner_at s w"
      using inv True by (auto simp: crit_inv_def split: option.splits)
    then have "w = t" using True by (auto simp: owner_at_def split: crit_pc.splits)
    then show False using w(2) o by (simp add: owner_at_def)
  qed
  then show ?thesis
    using crit_inv_owner [OF inv, of t] True p(2)
    by (intro crit_inv_owner_step [of t s]) (auto simp: start_test_def raise_count_def owner_at_def)
next
  case False
  then have "pc s t = Outside"
    using p(1) crit_inv_owner(2) [OF inv, of t] by (auto simp: owner_at_def)
  moreover have "start_test t s = s\<lparr>pc := (pc s)(t := Locking)\<rparr>" using False by (simp add: start_test_def)
  ultimately show ?thesis
    using inv by (auto simp: crit_inv_def idle_def owner_at_def split: option.splits crit_pc.splits)
qed

lemma crit_inv_lock:
  assumes inv: "crit_inv s" and p: "pc s t = Locking" "start_lock t s = Some s'"
  shows "crit_inv s'"
proof -
  have m: "mutex s = None" and s': "s' = s\<lparr>mutex := Some t, pc := (pc s)(t := Locked)\<rparr>"
    using p(2) by (auto simp: start_lock_def split: if_splits)
  then show ?thesis
    using inv by (intro crit_inv_owner_step [of t s]) (auto simp: crit_inv_def owner_at_def idle_def)
qed

lemma crit_inv_own:
  assumes inv: "crit_inv s" and p: "pc s t = Locked"
  shows "crit_inv (start_own t s)"
  using crit_inv_owner [OF inv, of t] p
  by (intro crit_inv_owner_step [of t s]) (auto simp: start_own_def owner_at_def)

lemma crit_inv_count:
  assumes inv: "crit_inv s" and p: "pc s t = Owning"
  shows "crit_inv (raise_count t s)"
  using crit_inv_owner [OF inv, of t] p
  by (intro crit_inv_owner_step [of t s]) (auto simp: raise_count_def owner_at_def)

lemma of_nat_16_eq_0: "n < 32767 \<Longrightarrow> (of_nat n :: 16 word) = 0 \<longleftrightarrow> n = 0"
  by (auto simp: word_of_nat_eq_0_iff dest: dvd_imp_le)

lemma crit_inv_leave:
  assumes inv: "crit_inv s" and p: "pc s t = Inside" "end_count t lv s = Some s'"
  shows "crit_inv s'"
proof -
  note O = crit_inv_owner [OF inv, of t, unfolded p(1), simplified]
  have n: "0 < nest s t" "nest s t < 32767" "i2_selfcount s = of_nat (nest s t)"
    using O(2) p(1) by (simp_all add: owner_at_def)
  then obtain m where m: "nest s t = Suc m" by (cases "nest s t") auto
  have c: "i2_selfcount s - 1 = of_nat m" using n(3) by (simp add: m)
  have z: "(of_nat m :: 16 word) = 0 \<longleftrightarrow> m = 0" using n(2) m by (intro of_nat_16_eq_0) simp
  let ?s = "s\<lparr>i2_selfcount := of_nat m, nest := (nest s)(t := m)\<rparr>"
  have th: "thread s = Some t" "lv = i2_selfcount s"
    using p(2) by (simp_all add: end_count_def split: if_splits)
  have "end_count t lv s = Some (if m = 0 then ?s\<lparr>thread := None, pc := (pc s)(t := Leaving)\<rparr> else ?s)"
    unfolding end_count_def Let_def th(2) by (simp add: c z m th(1))
  with p(2) have s': "s' = (if m = 0 then ?s\<lparr>thread := None, pc := (pc s)(t := Leaving)\<rparr> else ?s)" by simp
  show ?thesis
  proof (rule crit_inv_owner_step [of t s])
    show "owner_at s' t" using p(1) th n(2) m z by (simp add: s' owner_at_def)
  qed (use O s' in auto)
qed

lemma crit_inv_unlock:
  assumes inv: "crit_inv s" and p: "pc s t = Leaving"
  shows "crit_inv (end_unlock t s)"
  using crit_inv_owner [OF inv, of t] p
  by (auto simp: crit_inv_def end_unlock_def owner_at_def idle_def)

lemma crit_step_inv: "crit_step s s' \<Longrightarrow> crit_inv s \<Longrightarrow> crit_inv s'"
  by (induction rule: crit_step.induct)
    (auto intro: crit_inv_test crit_inv_lock crit_inv_own crit_inv_count crit_inv_leave crit_inv_unlock)

lemma crit_reachable_inv: "crit_step\<^sup>*\<^sup>* s_crit s \<Longrightarrow> crit_inv s"
  by (induction rule: rtranclp_induct) (auto intro: crit_step_inv crit_inv_init)

section \<open>Properties\<close>

text \<open>C8 Mutual exclusion: in every state that any number of threads can reach by interleaving the steps of
  \<open>u_crit_start\<close> and \<open>u_crit_end\<close>, at most one thread is inside the critical section.\<close>

theorem crit_mutual_exclusion:
  assumes "crit_step\<^sup>*\<^sup>* s_crit s" "pc s t = Inside" "pc s u = Inside"
  shows "t = u"
  using crit_inv_owner(1) [OF crit_reachable_inv [OF assms(1)], of t]
    crit_inv_owner(1) [OF crit_reachable_inv [OF assms(1)], of u] assms(2,3) by simp

definition crit_demo :: crit where
  "crit_demo = s_crit\<lparr>mutex := Some 1, thread := Some 1, i2_selfcount := 1, pc := (\<lambda>_. Outside)(1 := Inside, 2 := Locking),
     nest := (\<lambda>_. 0)(1 := 1)\<rparr>"

lemma crit_demo_reachable: "crit_step\<^sup>*\<^sup>* s_crit crit_demo"
proof -
  let ?a = "start_test 1 s_crit"
  let ?b = "?a\<lparr>mutex := Some 1, pc := (pc ?a)(1 := Locked)\<rparr>"
  let ?c = "start_own 1 ?b" let ?d = "raise_count 1 ?c"
  have "crit_step s_crit ?a" by (rule test) (simp_all add: s_crit_def)
  moreover have "crit_step ?a ?b"
    by (rule lock [of _ 1]) (simp_all add: start_test_def s_crit_def start_lock_def)
  moreover have "crit_step ?b ?c" by (rule own) simp
  moreover have "crit_step ?c ?d" by (rule count) (simp add: start_own_def)
  moreover have "crit_step ?d (start_test 2 ?d)"
    by (rule test) (simp_all add: raise_count_def start_own_def start_test_def s_crit_def)
  moreover have "start_test 2 ?d = crit_demo"
    by (auto simp: raise_count_def start_own_def start_test_def s_crit_def crit_demo_def fun_eq_iff)
  ultimately show ?thesis by (metis (no_types, lifting) rtranclp.simps)
qed

theorem crit_mutual_exclusion_witness: "pc crit_demo 2 \<noteq> Inside"
proof
  assume "pc crit_demo 2 = Inside"
  moreover have "pc crit_demo 1 = Inside" by (simp add: crit_demo_def)
  ultimately have "(1 :: nat) = 2" using crit_mutual_exclusion [OF crit_demo_reachable] by blast
  then show False by simp
qed

text \<open>Recursion and asserts: the owner re-enters without waiting and gets the next level; ending with the
  level that the matching start returned never fails an \<open>ASSERT\<close>, and the mutex is released exactly when the
  outermost section ends.\<close>

theorem crit_nesting:
  assumes "crit_step\<^sup>*\<^sup>* s_crit s" "pc s t = Inside" "nest s t < 32766"
  shows "\<exists>s1. u_crit_start t s = Some (of_nat (nest s t + 1), s1) \<and> u_crit_end t (of_nat (nest s t + 1)) s1 = Some s \<and>
    (\<exists>s3. u_crit_end t (of_nat (nest s t)) s = Some s3 \<and> (mutex s3 = None \<longleftrightarrow> nest s t = 1))"
proof -
  have inv: "crit_inv s" by (rule crit_reachable_inv [OF assms(1)])
  have th: "thread s = Some t" and n: "0 < nest s t" "i2_selfcount s = of_nat (nest s t)" and m: "mutex s = Some t"
    using crit_inv_owner [OF inv, of t] assms(2) by (simp_all add: owner_at_def)
  obtain k where k: "nest s t = Suc k" using n(1) by (cases "nest s t") auto
  have z: "(of_nat k :: 16 word) = 0 \<longleftrightarrow> k = 0" "(1 + of_nat k :: 16 word) \<noteq> 0"
    using of_nat_16_eq_0 [of k] of_nat_16_eq_0 [of "Suc k"] assms(3) by (simp_all add: k)
  have start: "u_crit_start t s = Some (of_nat (nest s t + 1), raise_count t s)"
    using th n(2) by (simp add: u_crit_start_def start_test_def raise_count_def Let_def)
  have "end_count t (of_nat (nest s t + 1)) (raise_count t s) = Some s"
  proof -
    have 1: "thread (raise_count t s) = Some t" "i2_selfcount (raise_count t s) = of_nat (nest s t + 1)"
      "i2_selfcount (raise_count t s) - 1 = i2_selfcount s"
      using th n(2) by (simp_all add: raise_count_def)
    have 2: "i2_selfcount s \<noteq> 0" using n(2) z(2) by (simp add: k)
    have "(raise_count t s)\<lparr>i2_selfcount := i2_selfcount s, nest := (nest (raise_count t s))(t := nest (raise_count t s) t - 1)\<rparr>
        = s\<lparr>pc := (pc s)(t := Inside), i2_selfcount := i2_selfcount s, nest := (nest s)(t := nest s t)\<rparr>"
      by (simp add: raise_count_def)
    also have "\<dots> = s" using assms(2) by (simp add: fun_upd_idem)
    finally show ?thesis unfolding end_count_def using 1 2 by (simp add: Let_def)
  qed
  then have stop: "u_crit_end t (of_nat (nest s t + 1)) (raise_count t s) = Some s"
    using assms(2) by (simp add: u_crit_end_def)
  have last: "\<exists>s3. u_crit_end t (of_nat (nest s t)) s = Some s3 \<and> (mutex s3 = None \<longleftrightarrow> nest s t = 1)"
  proof -
    have c: "i2_selfcount s - 1 = of_nat k" using n(2) by (simp add: k)
    let ?s = "s\<lparr>i2_selfcount := of_nat k, nest := (nest s)(t := k)\<rparr>"
    have e: "end_count t (of_nat (nest s t)) s =
        Some (if k = 0 then ?s\<lparr>thread := None, pc := (pc s)(t := Leaving)\<rparr> else ?s)"
      unfolding end_count_def n(2) [symmetric] by (simp add: th c z(1) Let_def) (simp add: k)
    show ?thesis
    proof (cases "k = 0")
      case True
      then show ?thesis unfolding u_crit_end_def e by (simp add: end_unlock_def k)
    next
      case False
      then show ?thesis unfolding u_crit_end_def e using m assms(2) by (simp add: k)
    qed
  qed
  show ?thesis
    by (rule exI [of _ "raise_count t s"], intro conjI; (rule start stop last)?)
qed

theorem crit_nesting_witness: "\<exists>s1. u_crit_start 1 crit_demo = Some (2, s1) \<and> u_crit_end 1 2 s1 = Some crit_demo"
  using crit_nesting [OF crit_demo_reachable, of 1] by (auto simp: crit_demo_def)

end
