(* ===== verification/CRing.thy ===== *)
theory CRing
  imports ListADT
begin

text \<open>Circular doubly linked lists with a head pointer, the layout of the registries of message queues and of
  threads, of the thread-private data and of the timer list in mw/os_pthread and timerd.  The C code of
  the four copies differs in names only; the operations are defined here on a \<open>ring\<close> and the
  component theories apply them to their own lists.\<close>

record ring =
  r_head :: ptr
  r_next :: "ptr \<Rightarrow> ptr"
  r_prev :: "ptr \<Rightarrow> ptr"

definition ring0 :: ring where
  "ring0 = \<lparr>r_head = NULL, r_next = (\<lambda>_. NULL), r_prev = (\<lambda>_. NULL)\<rparr>"

section \<open>Operations\<close>

text \<open>Insert before the head, that is at the end.\<close>

definition ring_add :: "ptr \<Rightarrow> ring \<Rightarrow> ring" where
  "ring_add x r0 =
    (if r_head r0 \<noteq> NULL then
       let h = r_head r0;
           r = r0\<lparr>r_prev := (r_prev r0)(x := r_prev r0 h)\<rparr>;
           r = r\<lparr>r_next := (r_next r)(x := h)\<rparr>;
           r = r\<lparr>r_next := (r_next r)(r_prev r h := x)\<rparr>
       in r\<lparr>r_prev := (r_prev r)(h := x)\<rparr>
     else r0\<lparr>r_prev := (r_prev r0)(x := x), r_next := (r_next r0)(x := x), r_head := x\<rparr>)"

definition ring_remove :: "ptr \<Rightarrow> ring \<Rightarrow> ring" where
  "ring_remove x r0 =
    (if r_prev r0 x = x then r0\<lparr>r_head := NULL\<rparr>
     else let r = r0\<lparr>r_next := (r_next r0)(r_prev r0 x := r_next r0 x)\<rparr>;
              r = r\<lparr>r_prev := (r_prev r)(r_next r x := r_prev r x)\<rparr>
          in if r_head r = x then r\<lparr>r_head := r_next r x\<rparr> else r)"

text \<open>Insert before the element \<open>p\<close>; the head stays.\<close>

definition ring_insert_before :: "ptr \<Rightarrow> ptr \<Rightarrow> ring \<Rightarrow> ring" where
  "ring_insert_before x p r0 =
    (let r = r0\<lparr>r_prev := (r_prev r0)(x := r_prev r0 p)\<rparr>;
         r = r\<lparr>r_next := (r_next r)(x := p)\<rparr>;
         r = r\<lparr>r_next := (r_next r)(r_prev r p := x)\<rparr>
     in r\<lparr>r_prev := (r_prev r)(p := x)\<rparr>)"

text \<open>Search from the head, once around; \<open>NULL\<close> when nothing fits.\<close>

partial_function (option) ring_find_loop :: "(ptr \<Rightarrow> bool) \<Rightarrow> ring \<Rightarrow> ptr \<Rightarrow> ptr option" where
  "ring_find_loop P r cur =
    (if P cur then Some cur
     else if r_next r cur \<noteq> r_head r then ring_find_loop P r (r_next r cur) else Some NULL)"

declare ring_find_loop.simps [code]

definition ring_find :: "(ptr \<Rightarrow> bool) \<Rightarrow> ring \<Rightarrow> ptr option" where
  "ring_find P r = (if r_head r = NULL then Some NULL else ring_find_loop P r (r_head r))"

section \<open>Cycles\<close>

definition cyc :: "(ptr \<Rightarrow> ptr) \<Rightarrow> (ptr \<Rightarrow> ptr) \<Rightarrow> ptr list \<Rightarrow> bool" where
  "cyc nx pv xs \<longleftrightarrow> path nx (hd xs) xs (hd xs) \<and> path pv (last xs) (rev xs) (last xs) \<and> distinct xs"

definition ring_rel :: "ring \<Rightarrow> ptr list \<Rightarrow> bool" where
  "ring_rel r xs \<longleftrightarrow> NULL \<notin> set xs \<and> (if xs = [] then r_head r = NULL
     else r_head r = hd xs \<and> cyc (r_next r) (r_prev r) xs)"

lemma ring_rel_Nil [simp]: "ring_rel r [] \<longleftrightarrow> r_head r = NULL"
  by (simp add: ring_rel_def)

lemma ring_rel_distinct: "ring_rel r xs \<Longrightarrow> distinct xs"
  by (auto simp: ring_rel_def cyc_def split: if_splits)

lemma ring_rel_null: "ring_rel r xs \<Longrightarrow> NULL \<notin> set xs"
  by (simp add: ring_rel_def)

lemma ring_rel_head: "ring_rel r xs \<Longrightarrow> r_head r = head_or xs NULL"
  by (cases xs) (auto simp: ring_rel_def)

lemma cyc_rotate:
  assumes "cyc nx pv (as @ bs)" "as \<noteq> []" "bs \<noteq> []"
  shows "cyc nx pv (bs @ as)"
proof -
  obtain a as' b bs' where ab: "as = a # as'" "bs = b # bs'" using assms(2,3) by (cases as; cases bs) auto
  obtain m where m: "path nx a as m" "path nx m bs a" using assms(1) by (auto simp: cyc_def ab)
  then have "m = b" by (simp add: ab)
  obtain y bs'' where y: "bs = bs'' @ [y]" using assms(3) by (cases bs rule: rev_cases) auto
  obtain x as'' where x: "as = as'' @ [x]" using assms(2) by (cases as rule: rev_cases) auto
  obtain k where k: "path pv y (rev bs) k" "path pv k (rev as) y" using assms(1) by (auto simp: cyc_def y)
  then have "k = x" by (simp add: x)
  show ?thesis
    using m k assms(1) \<open>m = b\<close> \<open>k = x\<close> by (auto simp: cyc_def ab(2) x)
qed

lemma cyc_add:
  assumes c: "cyc nx pv xs" and x: "x \<notin> set xs" "xs \<noteq> []"
  shows "cyc (nx(x := hd xs, last xs := x)) (pv(x := last xs, hd xs := x)) (xs @ [x])"
proof -
  obtain h xs' where h: "xs = h # xs'" using x(2) by (cases xs) auto
  obtain ys y where y: "xs = ys @ [y]" using x(2) by (cases xs rule: rev_cases) auto
  have d: "distinct xs" using c by (simp add: cyc_def)
  have xy: "x \<noteq> y" using x y by auto
  have xh: "x \<noteq> h" using x h by auto
  have hy: "hd (ys @ [y]) = h" by (metis h list.sel(1) y)
  have "path nx h (ys @ [y]) h" using c by (simp add: cyc_def y hy)
  then have 1: "path (nx(x := h, y := x)) h (ys @ [y] @ [x]) h"
    using d x xy by (auto simp: y frame_simps)
  have "rev xs = rev xs' @ [h]" by (simp add: h)
  moreover have "path pv y (rev xs) y" using c by (simp add: cyc_def y)
  ultimately have "path (pv(h := x)) y (rev xs) x"
    using d path_redirect_last [of pv y "rev xs'" h y x] by (simp add: h)
  then have "path (pv(x := y, h := x)) y (rev xs) x"
    using x(1) xh by (simp add: fun_upd_twist path_frame)
  then have 2: "path (pv(x := y, h := x)) x (rev (xs @ [x])) x" using xh by simp
  have "last xs = y" unfolding y by simp
  moreover have "hd xs = h" "hd (xs @ [x]) = h" "last (xs @ [x]) = x" by (simp_all add: h)
  ultimately have e: "hd xs = h" "last xs = y" "hd (xs @ [x]) = h" "last (xs @ [x]) = x" by simp_all
  show ?thesis unfolding cyc_def e using 1 2 d x(1) y by simp
qed

lemma cyc_remove_front:
  assumes c: "cyc nx pv (x # xs)" and ne: "xs \<noteq> []"
  shows "nx x = hd xs" "pv x = last xs" "pv x \<noteq> x"
    "cyc (nx(last xs := hd xs)) (pv(hd xs := last xs)) xs"
proof -
  obtain h xs' where h: "xs = h # xs'" using ne by (cases xs) auto
  obtain ys y where y: "xs = ys @ [y]" using ne by (cases xs rule: rev_cases) auto
  have ly: "last xs = y" "last (x # xs) = y" by (simp_all add: y)
  have hh: "hd xs = h" by (simp add: h)
  have p: "path nx (nx x) xs x" "path pv y (rev xs) x" "pv x = y" and d: "distinct xs" "x \<notin> set xs"
    using c unfolding cyc_def ly by simp_all
  then have n: "nx x = h" by (simp add: h)
  have "path (nx(y := h)) h (ys @ [y]) h"
    using p(1) d by (intro path_redirect_last [where q = x]) (simp_all add: n y)
  then have 1: "path (nx(y := h)) h xs h" by (simp only: y)
  have "path (pv(h := y)) y (rev xs' @ [h]) y"
    using p(2) d by (intro path_redirect_last [where q = x]) (simp_all add: h)
  then have 2: "path (pv(h := y)) y (rev xs) y" by (simp add: h)
  show "nx x = hd xs" "pv x = last xs" by (simp_all add: n hh p(3) ly)
  show "pv x \<noteq> x" using d(2) p(3) y by auto
  show "cyc (nx(last xs := hd xs)) (pv(hd xs := last xs)) xs"
    using 1 2 d(1) by (simp add: cyc_def hh ly)
qed

lemma cyc_remove:
  assumes c: "cyc nx pv (as @ x # bs)" and ne: "as @ bs \<noteq> []"
  shows "cyc (nx(pv x := nx x)) (pv(nx x := pv x)) (as @ bs)" "pv x \<noteq> x"
    "as = [] \<Longrightarrow> nx x = hd bs"
proof -
  have f: "cyc nx pv (x # bs @ as)"
    using cyc_rotate [of nx pv as "x # bs"] c by (cases "as = []") simp_all
  have ne': "bs @ as \<noteq> []" using ne by auto
  note R = cyc_remove_front [OF f ne']
  show "pv x \<noteq> x" by (rule R(3))
  show "as = [] \<Longrightarrow> nx x = hd bs" using R(1) by simp
  have "cyc (nx(pv x := nx x)) (pv(nx x := pv x)) (bs @ as)" using R(4) by (simp add: R(1,2))
  then show "cyc (nx(pv x := nx x)) (pv(nx x := pv x)) (as @ bs)"
    using cyc_rotate [of _ _ bs as] by (cases "as = []"; cases "bs = []") simp_all
qed

section \<open>The operations on lists\<close>

lemma ring_rel_add:
  assumes r: "ring_rel r xs" and x: "x \<noteq> NULL" "x \<notin> set xs"
  shows "ring_rel (ring_add x r) (xs @ [x])"
proof (cases "xs = []")
  case True
  then show ?thesis using r x by (simp add: ring_rel_def ring_add_def cyc_def)
next
  case False
  have h: "r_head r = hd xs" "cyc (r_next r) (r_prev r) xs" "NULL \<notin> set xs"
    using r False by (auto simp: ring_rel_def)
  have h0: "hd xs \<noteq> NULL" using h(3) hd_in_set [OF False] by metis
  obtain k ks where k: "xs = k # ks" using False by (cases xs) auto
  have "path (r_prev r) (last xs) (rev xs) (last xs)" using h(2) by (simp add: cyc_def)
  then have l: "r_prev r (hd xs) = last xs" by (simp add: k)
  have "x \<noteq> hd xs" using x(2) by (auto simp: k)
  then show ?thesis
    using cyc_add [OF h(2) x(2) False] h h0 False x(1)
    by (simp add: ring_rel_def ring_add_def l Let_def)
qed

lemma ring_rel_remove:
  assumes r: "ring_rel r xs" and x: "x \<in> set xs"
  shows "ring_rel (ring_remove x r) (remove1 x xs)"
proof -
  obtain as bs where xs: "xs = as @ x # bs" using x by (meson split_list)
  have c: "cyc (r_next r) (r_prev r) xs" "r_head r = hd xs" "NULL \<notin> set xs"
    using r x by (auto simp: ring_rel_def split: if_splits)
  then have d: "distinct xs" by (simp add: cyc_def)
  then have rm: "remove1 x xs = as @ bs" by (simp add: xs remove1_append)
  show ?thesis
  proof (cases "as @ bs = []")
    case True
    then have "r_prev r x = x" using c(1) by (simp add: cyc_def xs)
    then show ?thesis using True rm by (simp add: ring_remove_def)
  next
    case False
    note C = cyc_remove [OF c(1)[unfolded xs] False]
    have hx: "hd xs = x \<longleftrightarrow> as = []" using d by (cases as) (auto simp: xs)
    have nx: "r_next r x \<noteq> x"
    proof
      assume "r_next r x = x"
      have f: "cyc (r_next r) (r_prev r) (x # bs @ as)"
        using cyc_rotate [of _ _ as "x # bs"] c(1) by (cases "as = []") (simp_all add: xs)
      have "bs @ as \<noteq> []" using False by auto
      with cyc_remove_front(1) [OF f this] \<open>r_next r x = x\<close> have "x \<in> set (bs @ as)" by (metis hd_in_set)
      then show False using d by (auto simp: xs)
    qed
    have e: "ring_remove x r = r\<lparr>r_next := (r_next r)(r_prev r x := r_next r x),
        r_prev := (r_prev r)(r_next r x := r_prev r x),
        r_head := (if hd xs = x then r_next r x else hd xs)\<rparr>"
      using C(2) c(2) by (cases r) (simp add: ring_remove_def Let_def)
    have "hd (as @ bs) = (if hd xs = x then r_next r x else hd xs)"
      using C(3) hx by (cases as) (auto simp: xs)
    moreover have "NULL \<notin> set (as @ bs)" using c(3) by (simp add: xs)
    ultimately show ?thesis
      unfolding rm e ring_rel_def if_not_P [OF False] using C(1) by simp
  qed
qed

interpretation ring: intrusive_list ring_rel ring_add ring_remove "\<lambda>x. x \<noteq> NULL"
  by unfold_locales (simp_all add: ring_rel_add ring_rel_remove ring_rel_distinct)

section \<open>Searching\<close>

lemma ring_find_loop_path:
  assumes "path (r_next r) cur (y # ys) (r_head r)" "r_head r \<notin> set ys"
  shows "ring_find_loop P r cur = Some (case find P (y # ys) of None \<Rightarrow> NULL | Some x \<Rightarrow> x)"
  using assms
proof (induction ys arbitrary: cur y)
  case Nil
  then show ?case by (subst ring_find_loop.simps) auto
next
  case (Cons a ys)
  then have "ring_find_loop P r (r_next r y) = Some (case find P (a # ys) of None \<Rightarrow> NULL | Some x \<Rightarrow> x)"
    by (intro Cons.IH) auto
  moreover have "r_next r y \<noteq> r_head r" using Cons.prems by auto
  ultimately show ?case using Cons.prems(1) by (subst ring_find_loop.simps) auto
qed

text \<open>The search ends, and finds the first element that fits.\<close>

lemma ring_find_eq:
  assumes r: "ring_rel r xs"
  shows "ring_find P r = Some (case find P xs of None \<Rightarrow> NULL | Some x \<Rightarrow> x)"
proof (cases xs)
  case Nil
  then show ?thesis using r by (simp add: ring_find_def)
next
  case (Cons y ys)
  then have "r_head r = y" "y \<noteq> NULL" "path (r_next r) y (y # ys) y" "distinct (y # ys)"
    using r by (auto simp: ring_rel_def cyc_def)
  then show ?thesis
    using ring_find_loop_path [of r y y ys P] Cons by (simp add: ring_find_def)
qed

lemma ring_insert_before_sel:
  assumes "x \<noteq> p"
  shows "ring_insert_before x p r = r\<lparr>r_next := (r_next r)(x := p, r_prev r p := x),
    r_prev := (r_prev r)(x := r_prev r p, p := x)\<rparr>"
  using assms by (cases r) (simp add: ring_insert_before_def Let_def)

lemma cyc_insert_before:
  assumes c: "cyc nx pv (as @ p # bs)" and x: "x \<notin> set (as @ p # bs)"
  shows "cyc (nx(x := p, pv p := x)) (pv(x := pv p, p := x)) (as @ x # p # bs)"
proof -
  let ?r = "p # bs @ as"
  have c': "cyc nx pv ?r" using c cyc_rotate [of nx pv as "p # bs"] by (cases "as = []") simp_all
  then have "pv p = last ?r" by (auto simp: cyc_def)
  then have "cyc (nx(x := p, pv p := x)) (pv(x := pv p, p := x)) (?r @ [x])"
    using cyc_add [OF c', of x] x by simp
  then show ?thesis using cyc_rotate [of _ _ "p # bs" "as @ [x]"] by simp
qed

lemma ring_rel_insert_before:
  assumes r: "ring_rel r (as @ p # bs)" and x: "x \<noteq> NULL" "x \<notin> set (as @ p # bs)"
  shows "ring_rel ((ring_insert_before x p r)\<lparr>r_head := hd (as @ [x])\<rparr>) (as @ x # p # bs)"
proof -
  have "x \<noteq> p" using x(2) by auto
  moreover have "cyc (r_next r) (r_prev r) (as @ p # bs)" using r by (simp add: ring_rel_def)
  ultimately show ?thesis
    using cyc_insert_before [of "r_next r" "r_prev r" as p bs x] r x
    by (cases as) (simp_all add: ring_rel_def ring_insert_before_sel)
qed

end
