(* ===== verification/QueueADT.thy ===== *)
theory QueueADT
  imports Prelude
begin

text \<open>The interface of a bounded message queue and what it gives its users: whatever sends and
  receives are made, the messages come out once each, unchanged, in the order in which they were
  accepted.  The message queues of the OS layer interpret it.\<close>

datatype 'm queue_op = Send 'm | Receive

text \<open>A run: the state after the calls, the messages accepted and the messages delivered.\<close>

fun run_queue :: "('m \<Rightarrow> 's \<Rightarrow> 's option) \<Rightarrow> ('s \<Rightarrow> ('m \<times> 's) option) \<Rightarrow> 'm queue_op list \<Rightarrow> 's
    \<Rightarrow> 's \<times> 'm list \<times> 'm list" where
  "run_queue send rcv [] s = (s, [], [])"
| "run_queue send rcv (Send m # ops) s = (case send m s of
     None \<Rightarrow> run_queue send rcv ops s
   | Some s' \<Rightarrow> (case run_queue send rcv ops s' of (t, acc, del) \<Rightarrow> (t, m # acc, del)))"
| "run_queue send rcv (Receive # ops) s = (case rcv s of
     None \<Rightarrow> run_queue send rcv ops s
   | Some (m, s') \<Rightarrow> (case run_queue send rcv ops s' of (t, acc, del) \<Rightarrow> (t, acc, m # del)))"

locale bounded_queue =
  fixes rel :: "'s \<Rightarrow> 'm list \<Rightarrow> bool" and cap :: nat
    and enq :: "'m \<Rightarrow> 's \<Rightarrow> 's option" and deq :: "'s \<Rightarrow> ('m \<times> 's) option" and ok :: "'m \<Rightarrow> bool"
  assumes enq_room: "rel s ms \<Longrightarrow> ok m \<Longrightarrow> length ms < cap \<Longrightarrow> \<exists>s'. enq m s = Some s' \<and> rel s' (ms @ [m])"
    and enq_full: "rel s ms \<Longrightarrow> ok m \<Longrightarrow> length ms = cap \<Longrightarrow> enq m s = None"
    and deq_some: "rel s (m # ms) \<Longrightarrow> \<exists>s'. deq s = Some (m, s') \<and> rel s' ms"
    and deq_none: "rel s [] \<Longrightarrow> deq s = None"
    and bound: "rel s ms \<Longrightarrow> length ms \<le> cap"
begin

lemma enq_cases:
  assumes "rel s ms" "ok m"
  obtains (full) "enq m s = None" "length ms = cap"
    | (room) s' where "enq m s = Some s'" "rel s' (ms @ [m])" "length ms < cap"
  using enq_room [OF assms] enq_full [OF assms] bound [OF assms(1)] by (cases "length ms = cap") force+

theorem fifo:
  assumes "rel s ms" "\<forall>m. Send m \<in> set ops \<longrightarrow> ok m" "run_queue enq deq ops s = (t, acc, del)"
  shows "\<exists>rest. rel t rest \<and> ms @ acc = del @ rest"
  using assms
proof (induction ops arbitrary: s ms t acc del)
  case Nil
  then show ?case by auto
next
  case (Cons p ops)
  show ?case
  proof (cases p)
    case (Send m)
    with Cons.prems have "ok m" by auto
    with Cons.prems(1) show ?thesis
    proof (cases rule: enq_cases)
      case full
      then show ?thesis using Cons.IH [OF Cons.prems(1), of t acc del] Cons.prems(2,3) Send by auto
    next
      case (room s')
      obtain acc' where a: "run_queue enq deq ops s' = (t, acc', del)" "acc = m # acc'"
        using Cons.prems(3) Send room(1) by (auto split: prod.splits)
      then show ?thesis using Cons.IH [OF room(2) _ a(1)] Cons.prems(2) by auto
    qed
  next
    case Receive
    show ?thesis
    proof (cases ms)
      case Nil
      then show ?thesis
        using Cons.IH [OF Cons.prems(1), of t acc del] Cons.prems(1-3) Receive deq_none by auto
    next
      case (Cons m ms')
      then obtain s' where s': "deq s = Some (m, s')" "rel s' ms'" using deq_some Cons.prems(1) by blast
      obtain del' where d: "run_queue enq deq ops s' = (t, acc, del')" "del = m # del'"
        using Cons.prems(3) Receive s'(1) by (auto split: prod.splits)
      then show ?thesis using Cons.IH [OF s'(2) _ d(1)] Cons.prems(2) Cons by auto
    qed
  qed
qed

end

end
