(* ===== verification/MsgQ.thy ===== *)
theory MsgQ
  imports CRing QueueADT
begin

text \<open>The message queues of the OS layer, mw/os_pthread/os_pthread_msg_q.c: named bounded queues of messages
  of bounded size, kept in a ring buffer of slots behind the queue's header, with a registry of all
  queues by name and a reference count per queue.

  \<open>k\<close> is \<open>sizeof (SIZE_T)\<close>; 4 on the working platform.  Positions in the buffer are offsets from
  \<open>start\<close>.  The operations on one queue run under its mutex and those on the registry under the list
  mutex, so a call is one step here; a call that waits for a message is \<open>Waiting\<close>, with nothing
  changed, and looks again after the next broadcast.\<close>

section \<open>State\<close>

record msgq =
  q_read :: nat
  q_write :: nat
  q_end :: nat
  q_message_size :: nat
  q_maxsize :: nat
  q_msg_count :: u16
  q_refcount :: "16 word"
  q_name :: string
  q_buf :: mem

record msgq_sys =
  q_objs :: "ptr \<Rightarrow> msgq option"
  q_list :: ring

definition MSGQ_NAME_LEN :: nat where "MSGQ_NAME_LEN = 16"
definition MSGQ_MAX_DATA_SIZE :: nat where "MSGQ_MAX_DATA_SIZE = 4608"
definition MSGQ_MAX_MSGS :: nat where "MSGQ_MAX_MSGS = 4095"

abbreviation (input) X_MSGQ_OPTION_WAIT :: int where "X_MSGQ_OPTION_WAIT \<equiv> 1"
abbreviation (input) X_MSGQ_OPTION_NOWAIT :: int where "X_MSGQ_OPTION_NOWAIT \<equiv> 2"

definition msg_q_init :: msgq_sys where
  "msg_q_init = \<lparr>q_objs = Map.empty, q_list = ring0\<rparr>"

section \<open>The registry\<close>

definition q_named :: "msgq_sys \<Rightarrow> string \<Rightarrow> ptr \<Rightarrow> bool" where
  "q_named s nm p = (case q_objs s p of None \<Rightarrow> False | Some q \<Rightarrow> strneq MSGQ_NAME_LEN (q_name q) nm)"

definition msg_q_find_obj :: "string \<Rightarrow> msgq_sys \<Rightarrow> ptr option" where
  "msg_q_find_obj nm s = ring_find (q_named s nm) (q_list s)"

text \<open>\<open>sizeof (SIZE_T) + ((z + 3) & ~3)\<close>.\<close>

definition slot_size :: "nat \<Rightarrow> nat \<Rightarrow> nat" where
  "slot_size k z = k + (z + 3) div 4 * 4"

definition new_msgq :: "nat \<Rightarrow> string \<Rightarrow> nat \<Rightarrow> u16 \<Rightarrow> msgq" where
  "new_msgq k nm z n = \<lparr>q_read = 0, q_write = 0, q_end = slot_size k z * (unat n + 1), q_message_size = slot_size k z,
     q_maxsize = z, q_msg_count = n, q_refcount = 1, q_name = take MSGQ_NAME_LEN nm, q_buf = (\<lambda>_. 0)\<rparr>"

text \<open>\<open>mem\<close> is what \<open>calloc\<close> returns.  The handle returned is \<open>NULL\<close> where the code leaves
  \<open>*ph_msg_hdl\<close> alone.\<close>

definition x_msg_q_create :: "nat \<Rightarrow> ptr \<Rightarrow> bool \<Rightarrow> string option \<Rightarrow> nat \<Rightarrow> u16 \<Rightarrow> msgq_sys
    \<Rightarrow> (int \<times> ptr \<times> msgq_sys) result" where
  "x_msg_q_create k mem ph ps_name z_msg_size ui2_msg_count s =
    (case ps_name of None \<Rightarrow> Inr (OSR_INV_ARG, NULL, s)
     | Some nm \<Rightarrow>
       if nm = [] \<or> \<not> ph \<or> z_msg_size > MSGQ_MAX_DATA_SIZE \<or> unat ui2_msg_count > MSGQ_MAX_MSGS
         \<or> z_msg_size = 0 \<or> ui2_msg_count = 0
       then Inr (OSR_INV_ARG, NULL, s)
       else if mem = NULL then Inr (OSR_NO_RESOURCE, NULL, s)
       else case msg_q_find_obj nm s of
         None \<Rightarrow> Inl Hang
       | Some p \<Rightarrow>
         if p \<noteq> NULL then Inr (OSR_EXIST, NULL, s)
         else Inr (OSR_OK, mem, \<lparr>q_objs = (q_objs s)(mem \<mapsto> new_msgq k nm z_msg_size ui2_msg_count),
                                q_list = ring_add mem (q_list s)\<rparr>))"

definition x_msg_q_attach :: "bool \<Rightarrow> string option \<Rightarrow> msgq_sys \<Rightarrow> (int \<times> ptr \<times> msgq_sys) result" where
  "x_msg_q_attach ph ps_name s =
    (case ps_name of None \<Rightarrow> Inr (OSR_INV_ARG, NULL, s)
     | Some nm \<Rightarrow>
       if nm = [] \<or> \<not> ph then Inr (OSR_INV_ARG, NULL, s)
       else case msg_q_find_obj nm s of
         None \<Rightarrow> Inl Hang
       | Some p \<Rightarrow>
         if p = NULL then Inr (OSR_NOT_EXIST, NULL, s)
         else case q_objs s p of
           None \<Rightarrow> Inl BadAccess
         | Some q \<Rightarrow> Inr (OSR_OK, p, s\<lparr>q_objs := (q_objs s)(p \<mapsto> q\<lparr>q_refcount := q_refcount q + 1\<rparr>)\<rparr>))"

text \<open>\<open>destroy\<close>: whether destroying the mutex and the two conditions succeeds, as \<open>VERIFY\<close> asks.\<close>

definition x_msg_q_delete :: "bool \<Rightarrow> ptr \<Rightarrow> msgq_sys \<Rightarrow> (int \<times> msgq_sys) result" where
  "x_msg_q_delete destroy h s =
    (case q_objs s h of
       None \<Rightarrow> Inl BadAccess
     | Some q \<Rightarrow>
       let i2_refcount = q_refcount q - 1 in
       if sint i2_refcount > 0 then Inr (OSR_OK, s\<lparr>q_objs := (q_objs s)(h \<mapsto> q\<lparr>q_refcount := i2_refcount\<rparr>)\<rparr>)
       else if \<not> destroy then Inl AssertFailed
       else Inr (OSR_OK, \<lparr>q_objs = (q_objs s)(h := None), q_list = ring_remove h (q_list s)\<rparr>))"

section \<open>Messages\<close>

text \<open>The slot after the one at \<open>pos\<close>.\<close>

definition next_slot :: "msgq \<Rightarrow> nat \<Rightarrow> nat" where
  "next_slot q pos = (let p = pos + q_message_size q in if p = q_end q then 0 else p)"

definition q_put :: "nat \<Rightarrow> u8 list \<Rightarrow> msgq \<Rightarrow> msgq option" where
  "q_put k bs q =
    (let write = next_slot q (q_write q) in
     if write = q_read q then None
     else Some (q\<lparr>q_buf := blit (q_write q + 4) (\<lambda>i. bs ! i) (length bs) (put_le k (q_write q) (length bs) (q_buf q)),
                  q_write := write\<rparr>))"

definition q_get :: "nat \<Rightarrow> nat \<Rightarrow> msgq \<Rightarrow> (u8 list \<times> msgq) option" where
  "q_get k z q =
    (if q_read q = q_write q then None
     else let z_size = min (get_le k (q_read q) (q_buf q)) z in
       Some (map (\<lambda>i. q_buf q (q_read q + 4 + i)) [0..<z_size], q\<lparr>q_read := next_slot q (q_read q)\<rparr>))"

text \<open>\<open>ret\<close> is what \<open>pthread_mutex_lock\<close> returns; \<open>pv_msg\<close> the memory it points to.\<close>

definition x_msg_q_send :: "nat \<Rightarrow> int \<Rightarrow> ptr \<Rightarrow> u8 list option \<Rightarrow> nat \<Rightarrow> msgq_sys \<Rightarrow> (int \<times> msgq_sys) result" where
  "x_msg_q_send k ret h pv_msg z_size s =
    (case pv_msg of None \<Rightarrow> Inr (OSR_INV_ARG, s)
     | Some bs \<Rightarrow>
       if z_size = 0 then Inr (OSR_INV_ARG, s)
       else case q_objs s h of
         None \<Rightarrow> Inl BadAccess
       | Some q \<Rightarrow>
         if z_size > q_maxsize q then Inr (OSR_TOO_BIG, s)
         else if ret \<noteq> 0 then Inr (lock_err ret, s)
         else case q_put k (take z_size bs) q of
           None \<Rightarrow> Inr (OSR_TOO_MANY, s)
         | Some q' \<Rightarrow>
           if length bs < z_size then Inl BadAccess
           else Inr (OSR_OK, s\<lparr>q_objs := (q_objs s)(h \<mapsto> q')\<rparr>))"

text \<open>The arguments of both receiving calls: \<open>index\<close> and \<open>msg\<close> say whether these pointers are not
  \<open>NULL\<close>, \<open>pz_size\<close> the size of the buffer.  On success the index is 0 and the message, whose length
  is the size written back, comes with the return code.\<close>

definition receive_args :: "bool \<Rightarrow> bool \<Rightarrow> nat option \<Rightarrow> ptr list option \<Rightarrow> u16 \<Rightarrow> int" where
  "receive_args index msg pz_size hs n =
    (if \<not> index \<or> \<not> msg \<or> pz_size = None \<or> pz_size = Some 0 \<or> hs = None \<or> n = 0 then OSR_INV_ARG
     else if n \<noteq> 1 then OSR_NOT_SUPPORT else OSR_OK)"

definition x_msg_q_receive :: "nat \<Rightarrow> int \<Rightarrow> bool \<Rightarrow> bool \<Rightarrow> nat option \<Rightarrow> ptr list option \<Rightarrow> u16 \<Rightarrow> int \<Rightarrow> msgq_sys
    \<Rightarrow> (int \<times> u8 list \<times> msgq_sys) waits result" where
  "x_msg_q_receive k ret index msg pz_size hs n e_option s =
    (if e_option \<noteq> X_MSGQ_OPTION_WAIT \<and> e_option \<noteq> X_MSGQ_OPTION_NOWAIT then Inr (Returned (OSR_INV_ARG, [], s))
     else if receive_args index msg pz_size hs n \<noteq> OSR_OK then
       Inr (Returned (receive_args index msg pz_size hs n, [], s))
     else case (the hs) of
       [] \<Rightarrow> Inl BadAccess
     | h # _ \<Rightarrow> (case q_objs s h of
         None \<Rightarrow> Inl BadAccess
       | Some q \<Rightarrow>
         if ret \<noteq> 0 then Inr (Returned (lock_err ret, [], s))
         else case q_get k (the pz_size) q of
           None \<Rightarrow> Inr (if e_option = X_MSGQ_OPTION_NOWAIT then Returned (OSR_NO_MSG, [], s) else Waiting)
         | Some (bs, q') \<Rightarrow> Inr (Returned (OSR_OK, bs, s\<lparr>q_objs := (q_objs s)(h \<mapsto> q')\<rparr>))))"

text \<open>\<open>wret\<close> is what the wait for the condition, until the time \<open>timeout_at\<close> of the current time
  and \<open>ui4_time\<close>, returns when the queue is empty.\<close>

definition x_msg_q_receive_timeout :: "nat \<Rightarrow> int \<Rightarrow> (nat \<times> nat \<Rightarrow> int) \<Rightarrow> nat \<times> nat \<Rightarrow> bool \<Rightarrow> bool \<Rightarrow> nat option
    \<Rightarrow> ptr list option \<Rightarrow> u16 \<Rightarrow> u32 \<Rightarrow> msgq_sys \<Rightarrow> (int \<times> u8 list \<times> msgq_sys) waits result" where
  "x_msg_q_receive_timeout k ret wret now index msg pz_size hs n ui4_time s =
    (if receive_args index msg pz_size hs n \<noteq> OSR_OK then
       Inr (Returned (receive_args index msg pz_size hs n, [], s))
     else let abstime = timeout_at now ui4_time in
       case (the hs) of
       [] \<Rightarrow> Inl BadAccess
     | h # _ \<Rightarrow> (case q_objs s h of
         None \<Rightarrow> Inl BadAccess
       | Some q \<Rightarrow>
         if ret \<noteq> 0 then Inr (Returned (timed_err ret, [], s))
         else case q_get k (the pz_size) q of
           None \<Rightarrow> Inr (if wret abstime \<noteq> 0 then Returned (timed_err (wret abstime), [], s) else Waiting)
         | Some (bs, q') \<Rightarrow> Inr (Returned (OSR_OK, bs, s\<lparr>q_objs := (q_objs s)(h \<mapsto> q')\<rparr>))))"

text \<open>The difference of the two positions is taken in \<open>SIZE_T\<close>, where adding the length of the buffer
  brings a negative one back.\<close>

definition q_used :: "msgq \<Rightarrow> nat" where
  "q_used q = (if q_write q < q_read q then q_write q + q_end q - q_read q else q_write q - q_read q) div q_message_size q"

definition x_msg_q_num_msgs :: "ptr \<Rightarrow> bool \<Rightarrow> msgq_sys \<Rightarrow> (int \<times> u16) result" where
  "x_msg_q_num_msgs h pui2_num_msgs s =
    (if \<not> pui2_num_msgs then Inr (OSR_INV_ARG, 0)
     else case q_objs s h of None \<Rightarrow> Inl BadAccess
       | Some q \<Rightarrow> if q_message_size q = 0 then Inl DivZero else Inr (OSR_OK, of_nat (q_used q)))"

definition x_msg_q_get_max_msg_size :: "ptr \<Rightarrow> bool \<Rightarrow> msgq_sys \<Rightarrow> (int \<times> nat) result" where
  "x_msg_q_get_max_msg_size h pz_max_size s =
    (if \<not> pz_max_size then Inr (OSR_INV_ARG, 0)
     else case q_objs s h of None \<Rightarrow> Inl BadAccess | Some q \<Rightarrow> Inr (OSR_OK, q_maxsize q))"

definition q_reset :: "msgq \<Rightarrow> msgq" where
  "q_reset q = q\<lparr>q_read := 0, q_write := 0, q_end := q_message_size q * (unat (q_msg_count q) + 1)\<rparr>"

definition x_msg_q_flush :: "int \<Rightarrow> ptr \<Rightarrow> msgq_sys \<Rightarrow> (int \<times> msgq_sys) result" where
  "x_msg_q_flush ret h s =
    (if h = NULL then Inr (OSR_INV_HANDLE, s)
     else case q_objs s h of
       None \<Rightarrow> Inl BadAccess
     | Some q \<Rightarrow> if ret \<noteq> 0 then Inr (lock_err ret, s)
         else Inr (OSR_OK, s\<lparr>q_objs := (q_objs s)(h \<mapsto> q_reset q)\<rparr>))"

section \<open>The ring buffer as a queue\<close>

definition holds :: "msgq \<Rightarrow> nat \<Rightarrow> u8 list \<Rightarrow> bool" where
  "holds q i bs \<longleftrightarrow> get_le 4 (q_message_size q * i) (q_buf q) = length bs \<and> length bs \<le> q_maxsize q \<and>
     (\<forall>j<length bs. q_buf q (q_message_size q * i + 4 + j) = bs ! j)"

definition q_rel :: "nat \<Rightarrow> nat \<Rightarrow> msgq \<Rightarrow> u8 list list \<Rightarrow> bool" where
  "q_rel n z q ms \<longleftrightarrow> 0 < n \<and> z \<le> MSGQ_MAX_DATA_SIZE \<and> unat (q_msg_count q) = n \<and> q_maxsize q = z \<and>
     q_message_size q = slot_size 4 z \<and> q_end q = slot_size 4 z * (n + 1) \<and> length ms \<le> n \<and>
     (\<exists>r\<le>n. q_read q = slot_size 4 z * r \<and> q_write q = slot_size 4 z * ((r + length ms) mod (n + 1)) \<and>
       (\<forall>j<length ms. holds q ((r + j) mod (n + 1)) (ms ! j)))"

lemma slot_size_room: "4 + z \<le> slot_size 4 z" "0 < slot_size 4 z"
  by (auto simp: slot_size_def)

lemma next_slot_mod:
  assumes "q_message_size q = S" "q_end q = S * (n + 1)" "0 < S" "i \<le> n"
  shows "next_slot q (S * i) = S * ((i + 1) mod (n + 1))"
proof -
  have "S * i + S = S * (i + 1)" by simp
  moreover have "S * (i + 1) = S * (n + 1) \<longleftrightarrow> i = n" using assms(3) by simp
  moreover have "(i + 1) mod (n + 1) = (if i = n then 0 else i + 1)" using assms(4) by simp
  ultimately show ?thesis unfolding next_slot_def assms(1,2) Let_def by simp
qed

lemma slots_apart:
  assumes "i \<noteq> i'" "4 + z \<le> (S :: nat)" "j < 4 + z"
  shows "\<not> (S * i \<le> S * i' + j \<and> S * i' + j < S * i + (4 + z))"
proof
  assume a: "S * i \<le> S * i' + j \<and> S * i' + j < S * i + (4 + z)"
  have "S * i < S * (i' + 1)" using a assms(2,3) by simp
  then have "i < i' + 1" by (rule mult_less_cancel1 [THEN iffD1, THEN conjunct2])
  moreover have "S * i' < S * (i + 1)" using a assms(2) by simp
  then have "i' < i + 1" by (rule mult_less_cancel1 [THEN iffD1, THEN conjunct2])
  ultimately show False using assms(1) by simp
qed

definition put_slot :: "nat \<Rightarrow> u8 list \<Rightarrow> msgq \<Rightarrow> mem" where
  "put_slot i bs q = blit (q_message_size q * i + 4) (\<lambda>i. bs ! i) (length bs)
     (put_le 4 (q_message_size q * i) (length bs) (q_buf q))"

lemma put_slot_other:
  assumes "i \<noteq> i'" "length bs \<le> z" "4 + z \<le> q_message_size q" "j < 4 + z"
  shows "put_slot i bs q (q_message_size q * i' + j) = q_buf q (q_message_size q * i' + j)"
proof -
  have "\<not> (q_message_size q * i \<le> q_message_size q * i' + j \<and> q_message_size q * i' + j < q_message_size q * i + (4 + z))"
    by (rule slots_apart [OF assms(1,3,4)])
  then show ?thesis using assms(2) unfolding put_slot_def blit_def put_le_def by auto
qed

lemma holds_put_same:
  assumes "length bs \<le> q_maxsize q" "q_maxsize q \<le> MSGQ_MAX_DATA_SIZE"
  shows "holds (q\<lparr>q_buf := put_slot i bs q, q_write := w\<rparr>) i bs"
proof -
  let ?S = "q_message_size q"
  have "get_le 4 (?S * i) (put_slot i bs q) = get_le 4 (?S * i) (put_le 4 (?S * i) (length bs) (q_buf q))"
    by (rule get_le_cong) (simp add: put_slot_def blit_def)
  also have "\<dots> = length bs" by (rule get_put_le) (use assms in \<open>simp add: MSGQ_MAX_DATA_SIZE_def\<close>)
  finally show ?thesis using assms(1) by (simp add: holds_def put_slot_def blit_def)
qed

lemma holds_put_other:
  assumes "holds q i' ms" "i \<noteq> i'" "length bs \<le> q_maxsize q" "4 + q_maxsize q \<le> q_message_size q"
  shows "holds (q\<lparr>q_buf := put_slot i bs q, q_write := w\<rparr>) i' ms"
proof -
  have e: "put_slot i bs q (q_message_size q * i' + j) = q_buf q (q_message_size q * i' + j)" if "j < 4 + q_maxsize q" for j
    by (rule put_slot_other [OF assms(2,3,4) that])
  have "get_le 4 (q_message_size q * i') (put_slot i bs q) = get_le 4 (q_message_size q * i') (q_buf q)"
    by (rule get_le_cong) (simp add: e)
  then show ?thesis using assms(1) e by (simp add: holds_def add.assoc)
qed

lemma holds_read [simp]: "holds (q\<lparr>q_read := x\<rparr>) = holds q"
  by (simp add: holds_def fun_eq_iff)

lemma q_rel_put:
  assumes r: "q_rel n z q ms" and bs: "bs \<noteq> []" "length bs \<le> z"
  shows "length ms < n \<Longrightarrow> \<exists>q'. q_put 4 bs q = Some q' \<and> q_rel n z q' (ms @ [bs])"
    and "length ms = n \<Longrightarrow> q_put 4 bs q = None"
proof -
  let ?S = "slot_size 4 z" and ?N = "n + 1"
  obtain i where i: "i \<le> n" "q_read q = ?S * i" "q_write q = ?S * ((i + length ms) mod ?N)"
    "\<forall>j<length ms. holds q ((i + j) mod ?N) (ms ! j)" and n: "0 < n" "length ms \<le> n" "z \<le> MSGQ_MAX_DATA_SIZE"
    and q: "unat (q_msg_count q) = n" "q_maxsize q = z" "q_message_size q = ?S" "q_end q = ?S * ?N"
    using r by (auto simp: q_rel_def)
  define w where "w = (i + length ms) mod ?N"
  have w: "w \<le> n" by (simp add: w_def)
  have nw: "next_slot q (q_write q) = ?S * ((w + 1) mod ?N)"
    unfolding i(3) w_def [symmetric] by (rule next_slot_mod [OF q(3,4) slot_size_room(2) w])
  have w1: "(w + 1) mod ?N = (i + (length ms + 1)) mod ?N" unfolding w_def by (simp add: mod_simps ac_simps)
  have free: "(i + k) mod ?N \<noteq> i" if "0 < k" "k \<le> n" for k
  proof
    assume "(i + k) mod ?N = i"
    then have "(i + k) mod ?N = (i + 0) mod ?N" using i(1) by simp
    then have "?N dvd k" by (metis add_diff_cancel_left' le_add1 mod_eq_dvd_iff_nat add.right_neutral)
    then show False using that by (auto dest: dvd_imp_le)
  qed
  have eq: "next_slot q (q_write q) = q_read q \<longleftrightarrow> (i + (length ms + 1)) mod ?N = i"
    unfolding nw w1 i(2) using slot_size_room(2) [of z] by simp
  show "q_put 4 bs q = None" if "length ms = n"
  proof -
    have "i + (n + 1) = ?N + i" by simp
    then have "(i + (n + 1)) mod ?N = i" using i(1) by (metis le_imp_less_Suc Suc_eq_plus1 mod_add_self1 mod_less)
    then show ?thesis using eq that by (simp add: q_put_def)
  qed
  assume l: "length ms < n"
  let ?q = "q\<lparr>q_buf := put_slot w bs q, q_write := ?S * ((w + 1) mod ?N)\<rparr>"
  have qw: "q_write q = ?S * w" by (simp only: i(3) w_def)
  have "next_slot q (q_write q) \<noteq> q_read q" unfolding eq using free [of "length ms + 1"] l by simp
  then have p: "q_put 4 bs q = Some ?q"
    unfolding q_put_def Let_def put_slot_def q(3) qw by (simp only: if_False nw [unfolded qw])
  have old: "holds ?q ((i + j) mod ?N) (ms ! j)" if "j < length ms" for j
  proof (rule holds_put_other)
    show "holds q ((i + j) mod ?N) (ms ! j)" using i(4) that by blast
    have "(i + j + (length ms - j)) mod ?N \<noteq> (i + j) mod ?N"
    proof
      assume "(i + j + (length ms - j)) mod ?N = (i + j) mod ?N"
      then have "?N dvd length ms - j" by (metis add_diff_cancel_left' le_add1 mod_eq_dvd_iff_nat)
      then show False using that l by (auto dest: dvd_imp_le)
    qed
    then show "w \<noteq> (i + j) mod ?N" using that by (simp add: w_def)
  qed (use bs q slot_size_room in auto)
  have new: "holds ?q w bs" using holds_put_same bs n q by simp
  have "\<forall>j<length (ms @ [bs]). holds ?q ((i + j) mod ?N) ((ms @ [bs]) ! j)"
  proof (intro allI impI)
    fix j assume "j < length (ms @ [bs])"
    then show "holds ?q ((i + j) mod ?N) ((ms @ [bs]) ! j)"
      using old [of j] new by (cases "j = length ms") (simp_all add: nth_append w_def)
  qed
  then have "q_rel n z ?q (ms @ [bs])" unfolding q_rel_def using n l q i(1,2) w1 by auto
  with p show "\<exists>q'. q_put 4 bs q = Some q' \<and> q_rel n z q' (ms @ [bs])" by blast
qed

lemma q_rel_get_empty: "q_rel n z q [] \<Longrightarrow> q_get 4 zr q = None"
  by (auto simp: q_rel_def q_get_def)

lemma q_rel_get:
  assumes r: "q_rel n z q (m # ms)"
  shows "\<exists>q'. q_get 4 zr q = Some (take zr m, q') \<and> q_rel n z q' ms"
proof -
  let ?S = "slot_size 4 z" and ?N = "n + 1"
  obtain i where i: "i \<le> n" "q_read q = ?S * i" "q_write q = ?S * ((i + length (m # ms)) mod ?N)"
    "\<forall>j<length (m # ms). holds q ((i + j) mod ?N) ((m # ms) ! j)"
    and n: "0 < n" "length (m # ms) \<le> n" "z \<le> MSGQ_MAX_DATA_SIZE"
    and q: "unat (q_msg_count q) = n" "q_maxsize q = z" "q_message_size q = ?S" "q_end q = ?S * ?N"
    using r unfolding q_rel_def by blast
  have im: "i mod ?N = i" using i(1) by simp
  have "holds q i m" using i(4) im by force
  then have h: "get_le 4 (q_read q) (q_buf q) = length m" "\<forall>j<length m. q_buf q (q_read q + 4 + j) = m ! j"
    by (auto simp: holds_def q(3) i(2))
  have "(i + (length ms + 1)) mod ?N \<noteq> i"
  proof
    assume "(i + (length ms + 1)) mod ?N = i"
    then have "(i + (length ms + 1)) mod ?N = (i + 0) mod ?N" using im by simp
    then have "?N dvd length ms + 1" by (metis add_diff_cancel_left' le_add1 mod_eq_dvd_iff_nat add.right_neutral)
    then show False using n by (auto dest: dvd_imp_le)
  qed
  then have ne: "q_read q \<noteq> q_write q" unfolding i(2,3) using slot_size_room(2) [of z] by simp
  have "map (\<lambda>j. q_buf q (q_read q + 4 + j)) [0..<min (length m) zr] = take zr m"
    using h(2) by (intro nth_equalityI) auto
  then have g: "q_get 4 zr q = Some (take zr m, q\<lparr>q_read := ?S * ((i + 1) mod ?N)\<rparr>)"
    using ne next_slot_mod [OF q(3,4) slot_size_room(2) i(1)] h(1) by (simp add: q_get_def i(2) [symmetric])
  have "\<forall>j<length ms. holds q (((i + 1) mod ?N + j) mod ?N) (ms ! j)"
  proof (intro allI impI)
    fix j assume "j < length ms"
    then have "holds q ((i + Suc j) mod ?N) ((m # ms) ! Suc j)" using i(4) by (metis Suc_less_eq length_Cons)
    moreover have "((i + 1) mod ?N + j) mod ?N = (i + Suc j) mod ?N"
      by (metis Suc_eq_plus1_left add.assoc mod_add_left_eq)
    ultimately show "holds q (((i + 1) mod ?N + j) mod ?N) (ms ! j)" by simp
  qed
  moreover have "(i + length (m # ms)) mod ?N = ((i + 1) mod ?N + length ms) mod ?N"
    by (metis Suc_eq_plus1_left add.assoc length_Cons mod_add_left_eq)
  moreover have "(i + 1) mod ?N \<le> n" by simp
  ultimately have "q_rel n z (q\<lparr>q_read := ?S * ((i + 1) mod ?N)\<rparr>) ms"
    unfolding q_rel_def using n q i(3) by (intro conjI exI [of _ "(i + 1) mod ?N"]) simp_all
  with g show ?thesis by blast
qed

section \<open>A handle as a queue\<close>

text \<open>Sending a whole message and receiving into a buffer of \<open>zr\<close> bytes without waiting, when locking
  the mutex succeeds.\<close>

definition send_to :: "ptr \<Rightarrow> u8 list \<Rightarrow> msgq_sys \<Rightarrow> msgq_sys option" where
  "send_to h bs s = (case x_msg_q_send 4 0 h (Some bs) (length bs) s of
     Inr (ret, s') \<Rightarrow> if ret = OSR_OK then Some s' else None | Inl _ \<Rightarrow> None)"

definition receive_from :: "ptr \<Rightarrow> nat \<Rightarrow> msgq_sys \<Rightarrow> (u8 list \<times> msgq_sys) option" where
  "receive_from h zr s = (case x_msg_q_receive 4 0 True True (Some zr) (Some [h]) 1 X_MSGQ_OPTION_NOWAIT s of
     Inr (Returned (ret, bs, s')) \<Rightarrow> if ret = OSR_OK then Some (bs, s') else None | _ \<Rightarrow> None)"

definition hq_rel :: "ptr \<Rightarrow> nat \<Rightarrow> nat \<Rightarrow> msgq_sys \<Rightarrow> u8 list list \<Rightarrow> bool" where
  "hq_rel h n z s ms \<longleftrightarrow> (\<exists>q. q_objs s h = Some q \<and> q_rel n z q ms)"

lemma receive_args_ok [simp]: "0 < zr \<Longrightarrow> receive_args True True (Some zr) (Some hs) 1 = OSR_OK"
  by (simp add: receive_args_def)

lemma hq_rel_send:
  assumes "hq_rel h n z s ms" "bs \<noteq> []" "length bs \<le> z"
  shows "length ms < n \<Longrightarrow> \<exists>s'. x_msg_q_send 4 0 h (Some bs) (length bs) s = Inr (OSR_OK, s') \<and> hq_rel h n z s' (ms @ [bs])"
    and "length ms = n \<Longrightarrow> x_msg_q_send 4 0 h (Some bs) (length bs) s = Inr (OSR_TOO_MANY, s)"
proof -
  obtain q where q: "q_objs s h = Some q" "q_rel n z q ms" using assms(1) by (auto simp: hq_rel_def)
  then have "q_maxsize q = z" by (simp add: q_rel_def)
  with assms(3) have z: "\<not> q_maxsize q < length bs" by simp
  note P = q_rel_put [OF q(2) assms(2,3)]
  show "x_msg_q_send 4 0 h (Some bs) (length bs) s = Inr (OSR_TOO_MANY, s)" if "length ms = n"
    using P(2) [OF that] q(1) z assms(2) by (simp add: x_msg_q_send_def)
  assume "length ms < n"
  then obtain q' where "q_put 4 bs q = Some q'" "q_rel n z q' (ms @ [bs])" using P(1) by blast
  then show "\<exists>s'. x_msg_q_send 4 0 h (Some bs) (length bs) s = Inr (OSR_OK, s') \<and> hq_rel h n z s' (ms @ [bs])"
    using q(1) z assms(2) by (simp add: x_msg_q_send_def hq_rel_def)
qed

lemma hq_rel_receive:
  assumes "hq_rel h n z s (m # ms)" "0 < zr" "opt = X_MSGQ_OPTION_WAIT \<or> opt = X_MSGQ_OPTION_NOWAIT"
  shows "\<exists>s'. x_msg_q_receive 4 0 True True (Some zr) (Some [h]) 1 opt s = Inr (Returned (OSR_OK, take zr m, s'))
    \<and> x_msg_q_receive_timeout 4 0 wret now True True (Some zr) (Some [h]) 1 ms' s = Inr (Returned (OSR_OK, take zr m, s'))
    \<and> hq_rel h n z s' ms"
proof -
  obtain q where q: "q_objs s h = Some q" "q_rel n z q (m # ms)" using assms(1) by (auto simp: hq_rel_def)
  then obtain q' where "q_get 4 zr q = Some (take zr m, q')" "q_rel n z q' ms" using q_rel_get by blast
  then show ?thesis using q(1) assms(2,3)
    by (auto simp: x_msg_q_receive_def x_msg_q_receive_timeout_def hq_rel_def Let_def)
qed

lemma hq_rel_receive_empty:
  assumes "hq_rel h n z s []" "0 < zr"
  shows "x_msg_q_receive 4 0 True True (Some zr) (Some [h]) 1 X_MSGQ_OPTION_NOWAIT s = Inr (Returned (OSR_NO_MSG, [], s))"
    "x_msg_q_receive 4 0 True True (Some zr) (Some [h]) 1 X_MSGQ_OPTION_WAIT s = Inr Waiting"
    "x_msg_q_receive_timeout 4 0 wret now True True (Some zr) (Some [h]) 1 t s =
       Inr (if wret (timeout_at now t) = 0 then Waiting else Returned (timed_err (wret (timeout_at now t)), [], s))"
  using assms
  by (auto simp: x_msg_q_receive_def x_msg_q_receive_timeout_def hq_rel_def q_rel_get_empty Let_def)

lemma hq_rel_length:
  assumes "hq_rel h n z s (m # ms)"
  shows "length m \<le> z"
proof -
  obtain q i where "q_maxsize q = z" "\<forall>j<length (m # ms). holds q ((i + j) mod (n + 1)) ((m # ms) ! j)"
    using assms unfolding hq_rel_def q_rel_def by blast
  then have "holds q ((i + 0) mod (n + 1)) ((m # ms) ! 0)" by (metis length_greater_0_conv list.distinct(1))
  then show ?thesis using \<open>q_maxsize q = z\<close> by (simp add: holds_def)
qed

interpretation hq: bounded_queue "hq_rel h n z" n "send_to h" "receive_from h (Suc z)" "\<lambda>m. m \<noteq> [] \<and> length m \<le> z" for h n z
proof (unfold_locales, goal_cases)
  case (1 s ms m)
  then show ?case using hq_rel_send(1) [of h n z s ms m] by (auto simp: send_to_def)
next
  case (2 s ms m)
  then show ?case using hq_rel_send(2) [of h n z s ms m] by (simp add: send_to_def)
next
  case (3 s m ms)
  then have "length m \<le> Suc z" using hq_rel_length le_SucI by blast
  then show ?case using hq_rel_receive [OF 3, of "Suc z" 2 "\<lambda>_. 0" "(0, 0)" 0] by (auto simp: receive_from_def)
next
  case (4 s)
  then show ?case using hq_rel_receive_empty(1) [OF 4, of "Suc z"] by (simp add: receive_from_def)
next
  case (5 s ms)
  then show ?case by (auto simp: hq_rel_def q_rel_def)
qed

lemma q_used_length:
  assumes "q_rel n z q ms"
  shows "q_used q = length ms" "q_message_size q \<noteq> 0"
proof -
  let ?S = "slot_size 4 z"
  obtain i where i: "i \<le> n" "q_read q = ?S * i" "q_write q = ?S * ((i + length ms) mod (n + 1))"
    and q: "q_message_size q = ?S" "q_end q = ?S * (n + 1)" "length ms \<le> n"
    using assms by (auto simp: q_rel_def)
  have S: "0 < ?S" by (rule slot_size_room(2))
  show "q_message_size q \<noteq> 0" using q(1) S by simp
  have "i + length ms < 2 * (n + 1)" using i(1) q(3) by simp
  then have m: "(i + length ms) mod (n + 1) = (if i + length ms < n + 1 then i + length ms else i + length ms - (n + 1))"
    by (simp add: mod_if)
  have "(if q_write q < q_read q then q_write q + q_end q - q_read q else q_write q - q_read q) = ?S * length ms"
    unfolding i(2,3) q(2) m using S i(1) q(3)
    by (auto simp: diff_mult_distrib2 [symmetric] add_mult_distrib2 [symmetric] simp del: mult_Suc_right)
  then show "q_used q = length ms" unfolding q_used_def q(1) using S by simp
qed

lemma new_msgq_rel:
  assumes "0 < n" "0 < z" "z \<le> MSGQ_MAX_DATA_SIZE"
  shows "q_rel (unat n) z (new_msgq 4 nm z n) []"
  using assms by (auto simp: q_rel_def new_msgq_def unat_gt_0)

lemma q_reset_rel: "q_rel n z q ms \<Longrightarrow> q_rel n z (q_reset q) []"
  by (auto simp: q_rel_def q_reset_def)

end
