(* ===== verification/MsgQProps.thy ===== *)
theory MsgQProps
  imports MsgQ
begin

text \<open>The registry of message queues as a table of names, reference counts, and the properties of
  mw/os_pthread/os_pthread_msg_q.c.\<close>

section \<open>The registry\<close>

definition msgq_inv :: "msgq_sys \<Rightarrow> ptr list \<Rightarrow> bool" where
  "msgq_inv s xs \<longleftrightarrow> ring_rel (q_list s) xs \<and> dom (q_objs s) = set xs \<and>
     (\<forall>p q. q_objs s p = Some q \<longrightarrow> q_name q \<noteq> [] \<and> length (q_name q) \<le> MSGQ_NAME_LEN) \<and>
     (\<forall>p p' q q'. q_objs s p = Some q \<longrightarrow> q_objs s p' = Some q' \<longrightarrow> q_name q = q_name q' \<longrightarrow> p = p')"

lemma msgq_inv_name:
  "msgq_inv s xs \<Longrightarrow> q_objs s p = Some q \<Longrightarrow> q_named s nm p \<longleftrightarrow> q_name q = take MSGQ_NAME_LEN nm"
  by (auto simp: msgq_inv_def q_named_def strneq_def)

lemma msgq_inv_null: "msgq_inv s xs \<Longrightarrow> q_objs s NULL = None"
  by (auto simp: msgq_inv_def dest: ring_rel_null)

text \<open>The search by name finds the queue of that name, if there is one.\<close>

lemma find_obj_cases:
  assumes "msgq_inv s xs"
  obtains (none) "msg_q_find_obj nm s = Some NULL" "\<forall>p. \<not> q_named s nm p"
    | (some) p q where "msg_q_find_obj nm s = Some p" "p \<noteq> NULL" "q_objs s p = Some q" "q_name q = take MSGQ_NAME_LEN nm"
proof -
  have r: "ring_rel (q_list s) xs" and d: "dom (q_objs s) = set xs" using assms by (simp_all add: msgq_inv_def)
  have f: "msg_q_find_obj nm s = Some (case find (q_named s nm) xs of None \<Rightarrow> NULL | Some x \<Rightarrow> x)"
    unfolding msg_q_find_obj_def by (rule ring_find_eq [OF r])
  show thesis
  proof (cases "find (q_named s nm) xs")
    case None
    have "\<not> q_named s nm p" for p
    proof (cases "p \<in> set xs")
      case True then show ?thesis using None by (auto simp: find_None_iff)
    next
      case False then show ?thesis using d by (simp add: q_named_def domIff set_eq_iff split: option.split) metis
    qed
    then show thesis using none f None by simp
  next
    case (Some p)
    then have p: "p \<in> set xs" "q_named s nm p" by (auto simp: find_Some_iff)
    then obtain q where q: "q_objs s p = Some q" using d by blast
    then show thesis using some [of p q] f Some p ring_rel_null [OF r] msgq_inv_name [OF assms q] by auto
  qed
qed

lemma find_obj_eq:
  assumes "msgq_inv s xs" "q_objs s p = Some q" "q_name q = take MSGQ_NAME_LEN nm"
  shows "msg_q_find_obj nm s = Some p"
  using assms(1)
proof (cases rule: find_obj_cases [where nm = nm])
  case none
  then show ?thesis using msgq_inv_name [OF assms(1,2)] assms(3) by blast
next
  case (some p' q')
  then show ?thesis using assms unfolding msgq_inv_def by metis
qed

lemma msgq_inv_update:
  assumes "msgq_inv s xs" "q_objs s p = Some q" "q_name q' = q_name q"
  shows "msgq_inv (s\<lparr>q_objs := (q_objs s)(p \<mapsto> q')\<rparr>) xs"
  using assms unfolding msgq_inv_def by (auto split: if_splits; metis)

lemma msgq_inv_remove:
  assumes i: "msgq_inv s xs" and p: "q_objs s p = Some q"
  shows "msgq_inv \<lparr>q_objs = (q_objs s)(p := None), q_list = ring_remove p (q_list s)\<rparr> (remove1 p xs)"
proof -
  have r: "ring_rel (q_list s) xs" and d: "dom (q_objs s) = set xs" using i by (simp_all add: msgq_inv_def)
  have x: "p \<in> set xs" using p d by blast
  have "set (remove1 p xs) = set xs - {p}" using ring_rel_distinct [OF r] by simp
  then have "dom ((q_objs s)(p := None)) = set (remove1 p xs)" using d by auto
  with ring_rel_remove [OF r x] show ?thesis
    using i unfolding msgq_inv_def by (auto split: if_splits)
qed

lemma msgq_inv_insert:
  assumes i: "msgq_inv s xs" and m: "m \<noteq> NULL" "q_objs s m = None" and q: "q_name q = take MSGQ_NAME_LEN nm" "nm \<noteq> []"
    and free: "\<forall>p. \<not> q_named s nm p"
  shows "msgq_inv \<lparr>q_objs = (q_objs s)(m \<mapsto> q), q_list = ring_add m (q_list s)\<rparr> (xs @ [m])"
proof -
  have r: "ring_rel (q_list s) xs" and d: "dom (q_objs s) = set xs" using i by (simp_all add: msgq_inv_def)
  have "m \<notin> set xs" using m(2) d by blast
  then have "ring_rel (ring_add m (q_list s)) (xs @ [m])" by (rule ring_rel_add [OF r m(1)])
  moreover have "\<forall>p q'. q_objs s p = Some q' \<longrightarrow> q_name q' \<noteq> q_name q"
    using free msgq_inv_name [OF i] q(1) by metis
  moreover have "take MSGQ_NAME_LEN nm \<noteq> []" using q(2) by (simp add: MSGQ_NAME_LEN_def)
  moreover have "dom ((q_objs s)(m \<mapsto> q)) = set (xs @ [m])" using d by auto
  moreover have "length (q_name q) \<le> MSGQ_NAME_LEN" using q(1) by simp
  ultimately show ?thesis using i q(1) unfolding msgq_inv_def by (simp split: if_splits) metis
qed

section \<open>Users of a queue\<close>

text \<open>Attaching by name and deleting by handle, in any order, by all the threads that share the queue.\<close>

datatype user_op = Attach | Release

fun run_users :: "string \<Rightarrow> ptr \<Rightarrow> user_op list \<Rightarrow> msgq_sys \<Rightarrow> msgq_sys result" where
  "run_users nm h [] s = Inr s"
| "run_users nm h (Attach # ops) s =
    then_do (x_msg_q_attach True (Some nm) s) (\<lambda>(ret, h', s'). run_users nm h ops s')"
| "run_users nm h (Release # ops) s = then_do (x_msg_q_delete True h s) (\<lambda>(ret, s'). run_users nm h ops s')"

text \<open>The number of users after the operations, if it is positive before each one and never above 32768.\<close>

fun users :: "nat \<Rightarrow> user_op list \<Rightarrow> nat option" where
  "users u [] = Some u"
| "users u (Attach # ops) = (if 0 < u \<and> u < 32768 then users (u + 1) ops else None)"
| "users u (Release # ops) = (if 0 < u then users (u - 1) ops else None)"

lemma users_zero: "users 0 ops = Some v \<Longrightarrow> ops = [] \<and> v = 0"
  by (cases ops rule: list.exhaust) (auto elim!: users.elims split: if_splits)

lemma sint_of_nat_16: "n \<le> 32767 \<Longrightarrow> sint (of_nat n :: 16 word) = int n"
proof -
  assume "n \<le> 32767"
  then have "signed_take_bit 15 (int n) = int n" by (intro signed_take_bit_int_eq_self) auto
  moreover have "(of_nat n :: 16 word) = word_of_int (int n)" by simp
  ultimately show ?thesis by (simp only: signed_of_int) simp
qed

lemma attach_step:
  assumes "msgq_inv s xs" "q_objs s h = Some q" "q_name q = take MSGQ_NAME_LEN nm" "nm \<noteq> []"
  shows "x_msg_q_attach True (Some nm) s = Inr (OSR_OK, h, s\<lparr>q_objs := (q_objs s)(h \<mapsto> q\<lparr>q_refcount := q_refcount q + 1\<rparr>)\<rparr>)"
proof -
  have "h \<noteq> NULL" using msgq_inv_null [OF assms(1)] assms(2) by (cases "h = NULL") auto
  then show ?thesis using find_obj_eq [OF assms(1-3)] assms(2,4) by (simp add: x_msg_q_attach_def)
qed

lemma delete_step:
  assumes "q_objs s h = Some q" "q_refcount q = of_nat u" "0 < u" "u \<le> 32768"
  shows "x_msg_q_delete True h s = Inr (OSR_OK, if u = 1 then \<lparr>q_objs = (q_objs s)(h := None), q_list = ring_remove h (q_list s)\<rparr>
    else s\<lparr>q_objs := (q_objs s)(h \<mapsto> q\<lparr>q_refcount := of_nat (u - 1)\<rparr>)\<rparr>)"
proof -
  have e: "q_refcount q - 1 = of_nat (u - 1)" using assms(2,3) by (simp add: of_nat_diff)
  have "sint (of_nat (u - 1) :: 16 word) = int (u - 1)" using assms(4) by (intro sint_of_nat_16) simp
  then show ?thesis unfolding x_msg_q_delete_def Let_def assms(1) option.case e using assms(3) by (auto simp del: of_nat_diff)
qed

section \<open>Properties: messages\<close>

text \<open>A queue of two messages of up to five bytes at address 64.\<close>

definition demoQ :: msgq_sys where
  "demoQ = \<lparr>q_objs = [64 \<mapsto> new_msgq 4 ''evt'' 5 2], q_list = ring_add 64 ring0\<rparr>"

lemma demoQ_rel: "hq_rel 64 2 5 demoQ []"
  using new_msgq_rel [of 2 5 "''evt''"] by (simp add: hq_rel_def demoQ_def MSGQ_MAX_DATA_SIZE_def)

lemma demoQ_inv: "msgq_inv demoQ [64]"
  using ring_rel_add [of ring0 "[]" 64]
  by (auto simp: msgq_inv_def demoQ_def new_msgq_def MSGQ_NAME_LEN_def ring0_def)

text \<open>C4 Whatever sends and receives are made on a queue, in any order, with sends refused when the queue is
  full and receives finding nothing when it is empty: the messages come out unchanged, once each and in the
  order in which they were accepted, and what has not come out is what the queue holds.\<close>

theorem msgq_fifo:
  assumes "hq_rel h n z s ms" "\<forall>m. Send m \<in> set ops \<longrightarrow> m \<noteq> [] \<and> length m \<le> z"
    and "run_queue (send_to h) (receive_from h (Suc z)) ops s = (t, acc, del)"
  shows "\<exists>rest. hq_rel h n z t rest \<and> ms @ acc = del @ rest"
  using assms by (rule hq.fifo)

definition demoQ_ops :: "u8 list queue_op list" where
  "demoQ_ops = [Send [1, 2], Send [3], Receive, Send [4, 5, 6], Receive]"

theorem msgq_fifo_witness:
  "\<exists>t acc del rest. run_queue (send_to 64) (receive_from 64 6) demoQ_ops demoQ = (t, acc, del) \<and> hq_rel 64 2 5 t rest \<and> acc = del @ rest"
proof -
  obtain t acc del where r: "run_queue (send_to 64) (receive_from 64 (Suc 5)) demoQ_ops demoQ = (t, acc, del)"
    by (metis prod.exhaust)
  have "\<forall>m. Send m \<in> set demoQ_ops \<longrightarrow> m \<noteq> [] \<and> length m \<le> 5" by (auto simp: demoQ_ops_def)
  from msgq_fifo [OF demoQ_rel this r] r show ?thesis by auto
qed

text \<open>One call on a queue: a send is accepted exactly when fewer than \<open>ui2_msg_count\<close> messages wait and
  appends its message; a receive takes the oldest message, cut to the size of the caller's buffer; on an empty
  queue it returns \<open>OSR_NO_MSG\<close>, or waits, as the caller asked.\<close>

theorem msgq_call_outcomes:
  assumes "hq_rel h n z s ms"
  shows "(\<forall>m. m \<noteq> [] \<and> length m \<le> z \<longrightarrow> (if length ms < n
        then \<exists>s'. x_msg_q_send 4 0 h (Some m) (length m) s = Inr (OSR_OK, s') \<and> hq_rel h n z s' (ms @ [m])
        else x_msg_q_send 4 0 h (Some m) (length m) s = Inr (OSR_TOO_MANY, s))) \<and>
    (\<forall>zr opt. 0 < zr \<and> (opt = X_MSGQ_OPTION_WAIT \<or> opt = X_MSGQ_OPTION_NOWAIT) \<longrightarrow>
      (case ms of
        [] \<Rightarrow> x_msg_q_receive 4 0 True True (Some zr) (Some [h]) 1 opt s =
          Inr (if opt = X_MSGQ_OPTION_WAIT then Waiting else Returned (OSR_NO_MSG, [], s))
      | m # ms' \<Rightarrow> \<exists>s'. x_msg_q_receive 4 0 True True (Some zr) (Some [h]) 1 opt s = Inr (Returned (OSR_OK, take zr m, s')) \<and>
          hq_rel h n z s' ms'))"
    (is "?send \<and> ?receive")
proof
  have "length ms \<le> n" using assms by (rule hq.bound)
  then have "length ms < n \<or> length ms = n" by auto
  then show ?send using hq_rel_send [OF assms] by auto
  show ?receive
  proof (cases ms)
    case Nil
    then show ?thesis using hq_rel_receive_empty(1,2) [of h n z s] assms by auto
  next
    case (Cons m ms')
    show ?thesis
      using hq_rel_receive [OF assms[unfolded Cons], where wret = "\<lambda>_. 0" and now = "(0, 0)" and ms' = 0] by (simp add: Cons) blast
  qed
qed

theorem msgq_call_outcomes_witness:
  "\<exists>s'. x_msg_q_send 4 0 64 (Some [7]) (length [7 :: u8]) demoQ = Inr (OSR_OK, s') \<and> hq_rel 64 2 5 s' [[7]]"
  using msgq_call_outcomes [OF demoQ_rel] by (auto dest!: spec [of _ "[7]"])

text \<open>\<open>x_msg_q_num_msgs\<close> returns the number of messages that wait, \<open>x_msg_q_get_max_msg_size\<close> the size the
  queue was made with, and \<open>x_msg_q_flush\<close> drops exactly the messages that wait.\<close>

theorem msgq_count_and_flush:
  assumes "hq_rel h n z s ms" "h \<noteq> NULL"
  shows "x_msg_q_num_msgs h True s = Inr (OSR_OK, of_nat (length ms)) \<and> length ms < 65536 \<and>
    x_msg_q_get_max_msg_size h True s = Inr (OSR_OK, z) \<and>
    (\<exists>s'. x_msg_q_flush 0 h s = Inr (OSR_OK, s') \<and> hq_rel h n z s' [])"
proof -
  obtain q where q: "q_objs s h = Some q" "q_rel n z q ms" using assms(1) by (auto simp: hq_rel_def)
  then have "q_maxsize q = z" "length ms \<le> n" "unat (q_msg_count q) = n" by (auto simp: q_rel_def)
  moreover have "unat (q_msg_count q) < 65536" by (rule unat_bounds(2))
  ultimately show ?thesis using q q_used_length [OF q(2)] q_reset_rel [OF q(2)] assms(2)
    by (simp add: x_msg_q_num_msgs_def x_msg_q_get_max_msg_size_def x_msg_q_flush_def hq_rel_def)
qed

theorem msgq_count_and_flush_witness: "x_msg_q_num_msgs 64 True demoQ = Inr (OSR_OK, 0)"
  using msgq_count_and_flush [OF demoQ_rel] by simp

text \<open>Waiting with a time limit: on an empty queue, a call made at \<open>now\<close> for \<open>ms\<close> milliseconds is still
  waiting at any time before \<open>now + ms\<close> and has returned \<open>OSR_TIMEOUT\<close> at any time from then on, the queue
  unchanged.  The wait for the condition is taken to do what \<open>pthread_cond_timedwait\<close> is documented to do:
  to return \<open>ETIMEDOUT\<close> once the clock has reached the given time.\<close>

theorem msgq_timeout:
  assumes "hq_rel h n z s []" "0 < zr" "snd now < 1000000000"
    and "\<And>t. wret t = (if nsecs t \<le> nsecs later then ETIMEDOUT else 0)"
  shows "x_msg_q_receive_timeout 4 0 wret now True True (Some zr) (Some [h]) 1 ms s =
    Inr (if nsecs now + unat ms * 1000000 \<le> nsecs later then Returned (OSR_TIMEOUT, [], s) else Waiting)"
  using hq_rel_receive_empty(3) [OF assms(1,2)] timeout_at_nsecs [OF assms(3), of ms] assms(4)
  by (simp add: timed_err_def)

theorem msgq_timeout_witness:
  "x_msg_q_receive_timeout 4 0 (\<lambda>t. if nsecs t \<le> nsecs (8, 400000000) then ETIMEDOUT else 0) (5, 900000000) True True
     (Some 6) (Some [64]) 1 2500 demoQ = Inr (Returned (OSR_TIMEOUT, [], demoQ))"
  by (subst msgq_timeout [OF demoQ_rel, where later = "(8, 400000000)"]) (simp_all add: nsecs_def)

section \<open>Properties: names and users\<close>

text \<open>Creating a queue: when no queue has the same first 16 characters in its name, the new queue is
  registered, empty, with room for the messages asked for, and every other queue is as it was; otherwise
  \<open>OSR_EXIST\<close> and nothing changes.\<close>

theorem msgq_create_registers:
  assumes "msgq_inv s xs" "m \<noteq> NULL" "q_objs s m = None" "nm \<noteq> []"
    and "0 < z" "z \<le> MSGQ_MAX_DATA_SIZE" "0 < n" "unat n \<le> MSGQ_MAX_MSGS"
  shows "if \<exists>p. q_named s nm p then x_msg_q_create 4 m True (Some nm) z n s = Inr (OSR_EXIST, NULL, s)
    else \<exists>s'. x_msg_q_create 4 m True (Some nm) z n s = Inr (OSR_OK, m, s') \<and> msgq_inv s' (xs @ [m]) \<and>
      q_named s' nm m \<and> hq_rel m (unat n) z s' [] \<and> (\<forall>p. p \<noteq> m \<longrightarrow> q_objs s' p = q_objs s p)"
  using assms(1)
proof (cases rule: find_obj_cases [where nm = nm])
  case none
  let ?q = "new_msgq 4 nm z n"
  have "n \<noteq> 0" using assms(7) by auto
  then have c: "x_msg_q_create 4 m True (Some nm) z n s =
      Inr (OSR_OK, m, \<lparr>q_objs = (q_objs s)(m \<mapsto> ?q), q_list = ring_add m (q_list s)\<rparr>)"
    using none(1) assms(2,4-6,8) by (simp add: x_msg_q_create_def)
  have "q_name ?q = take MSGQ_NAME_LEN nm" by (simp add: new_msgq_def)
  then show ?thesis
    using none(2) c msgq_inv_insert [OF assms(1-3) _ assms(4) none(2), of ?q] new_msgq_rel [OF assms(7,5,6), of nm]
    by (simp add: hq_rel_def) (simp add: q_named_def strneq_def)
next
  case (some p q)
  have "q_named s nm p" using msgq_inv_name [OF assms(1) some(3)] some(4) by simp
  moreover have "n \<noteq> 0" using assms(7) by auto
  ultimately show ?thesis using some(1,2) assms(2,4-6,8) by (auto simp: x_msg_q_create_def)
qed

theorem msgq_create_registers_witness:
  "x_msg_q_create 4 80 True (Some ''evt'') 8 3 demoQ = Inr (OSR_EXIST, NULL, demoQ)"
proof -
  have "q_named demoQ ''evt'' 64" by (simp add: q_named_def demoQ_def new_msgq_def strneq_def)
  then have "\<exists>p. q_named demoQ ''evt'' p" by blast
  moreover have "q_objs demoQ 80 = None" by (simp add: demoQ_def)
  ultimately show ?thesis using msgq_create_registers [OF demoQ_inv, of 80 "''evt''" 8 3]
    by (simp add: MSGQ_MAX_DATA_SIZE_def MSGQ_MAX_MSGS_def)
qed

text \<open>The life of a queue: as threads attach to it by name and delete their handles, the queue exists, under
  its name, with its messages untouched, as long as it has a user; the delete of the last user removes it from
  the registry and frees it, and no other queue changes.  With at most 32768 users.\<close>

theorem msgq_lifetime:
  assumes "msgq_inv s xs" "q_objs s h = Some q" "q_name q = take MSGQ_NAME_LEN nm" "nm \<noteq> []"
    and "q_refcount q = of_nat u" "0 < u" "u \<le> 32768" "users u ops = Some v"
  shows "\<exists>s' ys. run_users nm h ops s = Inr s' \<and> msgq_inv s' ys \<and>
    q_objs s' = (q_objs s)(h := if v = 0 then None else Some (q\<lparr>q_refcount := of_nat v\<rparr>))"
  using assms
proof (induction ops arbitrary: s xs q u)
  case Nil
  have "q\<lparr>q_refcount := of_nat u\<rparr> = q" by (simp add: Nil(5) [symmetric])
  then show ?case using Nil by auto
next
  case (Cons p ops)
  show ?case
  proof (cases p)
    case Attach
    let ?q = "q\<lparr>q_refcount := q_refcount q + 1\<rparr>"
    let ?s = "s\<lparr>q_objs := (q_objs s)(h \<mapsto> ?q)\<rparr>"
    have u: "u < 32768" "users (u + 1) ops = Some v" using Cons.prems(8) Attach by (auto split: if_splits)
    have i: "msgq_inv ?s xs" by (rule msgq_inv_update [OF Cons.prems(1,2)]) simp
    have "\<exists>s' ys. run_users nm h ops ?s = Inr s' \<and> msgq_inv s' ys \<and>
        q_objs s' = (q_objs ?s)(h := if v = 0 then None else Some (?q\<lparr>q_refcount := of_nat v\<rparr>))"
      by (rule Cons.IH [OF i _ _ Cons.prems(4) _ _ _ u(2)]) (use Cons.prems u in auto)
    moreover have "?q\<lparr>q_refcount := of_nat v\<rparr> = q\<lparr>q_refcount := of_nat v\<rparr>" by simp
    ultimately obtain s' ys where "run_users nm h ops ?s = Inr s'" "msgq_inv s' ys"
        "q_objs s' = (q_objs ?s)(h := if v = 0 then None else Some (q\<lparr>q_refcount := of_nat v\<rparr>))" by metis
    then show ?thesis using attach_step [OF Cons.prems(1-4)] Attach by (intro exI [of _ s'] exI [of _ ys]) simp
  next
    case Release
    have uv: "users (u - 1) ops = Some v" using Cons.prems(8) Release by (auto split: if_splits)
    note D = delete_step [OF Cons.prems(2,5,6,7)]
    show ?thesis
    proof (cases "u = 1")
      case True
      then have "ops = [] \<and> v = 0" using uv users_zero by simp
      then show ?thesis using D True Release msgq_inv_remove [OF Cons.prems(1,2)] by auto
    next
      case False
      let ?q = "q\<lparr>q_refcount := of_nat (u - 1)\<rparr>"
      let ?s = "s\<lparr>q_objs := (q_objs s)(h \<mapsto> ?q)\<rparr>"
      have i: "msgq_inv ?s xs" by (rule msgq_inv_update [OF Cons.prems(1,2)]) simp
      have "\<exists>s' ys. run_users nm h ops ?s = Inr s' \<and> msgq_inv s' ys \<and>
          q_objs s' = (q_objs ?s)(h := if v = 0 then None else Some (?q\<lparr>q_refcount := of_nat v\<rparr>))"
        by (rule Cons.IH [OF i _ _ Cons.prems(4) _ _ _ uv]) (use Cons.prems False in auto)
      moreover have "?q\<lparr>q_refcount := of_nat v\<rparr> = q\<lparr>q_refcount := of_nat v\<rparr>" by simp
      ultimately obtain s' ys where "run_users nm h ops ?s = Inr s'" "msgq_inv s' ys"
          "q_objs s' = (q_objs ?s)(h := if v = 0 then None else Some (q\<lparr>q_refcount := of_nat v\<rparr>))" by metis
      then show ?thesis using D False Release by (intro exI [of _ s'] exI [of _ ys]) simp
    qed
  qed
qed

theorem msgq_lifetime_witness:
  "\<exists>s'. run_users ''evt'' 64 [Attach, Release, Release] demoQ = Inr s' \<and> q_objs s' 64 = None"
  using msgq_lifetime [OF demoQ_inv, of 64 "new_msgq 4 ''evt'' 5 2" "''evt''" 1 "[Attach, Release, Release]" 0]
  by (auto simp: demoQ_def new_msgq_def MSGQ_NAME_LEN_def)

text \<open>The reference count is an \<open>INT16\<close> that nothing bounds: when a queue has 32768 users and one more
  attaches, the next delete finds the count negative and frees the queue under the 32768 users that are left.\<close>

theorem msgq_refcount_wraps:
  assumes "msgq_inv s xs" "q_objs s h = Some q" "q_name q = take MSGQ_NAME_LEN nm" "nm \<noteq> []" "q_refcount q = 32768"
  shows "\<exists>s1 s2. x_msg_q_attach True (Some nm) s = Inr (OSR_OK, h, s1) \<and> x_msg_q_delete True h s1 = Inr (OSR_OK, s2) \<and>
    q_objs s2 h = None"
  using attach_step [OF assms(1-4)] assms(5) by (simp add: x_msg_q_delete_def)

definition crowdedQ :: msgq_sys where
  "crowdedQ = demoQ\<lparr>q_objs := [64 \<mapsto> new_msgq 4 ''evt'' 5 2\<lparr>q_refcount := 32768\<rparr>]\<rparr>"

theorem msgq_refcount_wraps_witness:
  "\<exists>s1 s2. x_msg_q_attach True (Some ''evt'') crowdedQ = Inr (OSR_OK, 64, s1) \<and> x_msg_q_delete True 64 s1 = Inr (OSR_OK, s2) \<and>
    q_objs s2 64 = None"
proof (rule msgq_refcount_wraps)
  show "msgq_inv crowdedQ [64]"
    using msgq_inv_update [OF demoQ_inv, of 64 "new_msgq 4 ''evt'' 5 2" "new_msgq 4 ''evt'' 5 2\<lparr>q_refcount := 32768\<rparr>"]
    by (simp add: crowdedQ_def demoQ_def)
  show "q_objs crowdedQ 64 = Some (new_msgq 4 ''evt'' 5 2\<lparr>q_refcount := 32768\<rparr>)" by (simp add: crowdedQ_def)
qed (simp_all add: new_msgq_def MSGQ_NAME_LEN_def)

text \<open>Where \<open>SIZE_T\<close> has 8 bytes, the message is copied over the upper half of its own size: a message whose
  first byte is not 0 comes out with the size of the receiver's buffer, however short it was.\<close>

theorem msgq_lp64_size_lost:
  assumes "q_read q = q_write q" "next_slot q (q_write q) \<noteq> q_read q" "q_put 8 (b # bs) q = Some q'" "b \<noteq> 0"
    and "length (b # bs) < zr" "zr \<le> 4294967296" "q_get 8 zr q' = Some (m, q'')"
  shows "length m = zr \<and> length m \<noteq> length (b # bs)"
proof -
  have q': "q_read q' = q_write q" "q_buf q' (q_write q + 4) = b"
    using assms(1-3) by (auto simp: q_put_def Let_def blit_def)
  have "1 \<le> unat b" using assms(4) by (simp add: Suc_le_eq unat_gt_0)
  then have "4294967296 \<le> unat (q_buf q' (q_read q' + 4)) * 256 ^ 4" using q' by simp
  also have "\<dots> \<le> get_le 8 (q_read q') (q_buf q')"
    unfolding get_le_def by (rule member_le_sum [of 4 "{..<8}" "\<lambda>i. unat (q_buf q' (q_read q' + i)) * 256 ^ i"]) simp_all
  finally have "min (get_le 8 (q_read q') (q_buf q')) zr = zr" using assms(6) by simp
  then have "length m = zr" using assms(7) by (auto simp: q_get_def Let_def split: if_splits)
  then show ?thesis using assms(5) by simp
qed

theorem msgq_lp64_size_lost_witness:
  "\<exists>q' m q''. q_put 8 [65] (new_msgq 8 ''evt'' 5 2) = Some q' \<and> q_get 8 5 q' = Some (m, q'') \<and> length m = 5"
proof -
  let ?q = "new_msgq 8 ''evt'' 5 2"
  have n: "next_slot ?q (q_write ?q) \<noteq> q_read ?q" by (simp add: next_slot_def new_msgq_def slot_size_def)
  then obtain q' where p: "q_put 8 [65] ?q = Some q'" by (simp add: q_put_def Let_def)
  then have "q_read q' \<noteq> q_write q'" using n by (auto simp: q_put_def Let_def)
  then obtain m q'' where g: "q_get 8 5 q' = Some (m, q'')" by (simp add: q_get_def Let_def)
  have "length m = 5" using msgq_lp64_size_lost [OF _ n p _ _ _ g] by (simp add: new_msgq_def)
  then show ?thesis using p g by blast
qed

text \<open>A call that does not return \<open>OSR_OK\<close> changes nothing, whatever its arguments.\<close>

theorem msgq_errors_change_nothing:
  "(x_msg_q_create k m ph nm z n s = Inr (r, p, s') \<longrightarrow> r \<noteq> OSR_OK \<longrightarrow> s' = s \<and> p = NULL) \<and>
   (x_msg_q_attach ph nm s = Inr (r, p, s') \<longrightarrow> r \<noteq> OSR_OK \<longrightarrow> s' = s \<and> p = NULL) \<and>
   (x_msg_q_send k ret h pv z s = Inr (r, s') \<longrightarrow> r \<noteq> OSR_OK \<longrightarrow> s' = s) \<and>
   (x_msg_q_receive k ret ix msg pz hs n opt s = Inr (Returned (r, bs, s')) \<longrightarrow> r \<noteq> OSR_OK \<longrightarrow> s' = s \<and> bs = []) \<and>
   (x_msg_q_receive_timeout k ret wret now ix msg pz hs n ms s = Inr (Returned (r, bs, s')) \<longrightarrow> r \<noteq> OSR_OK \<longrightarrow> s' = s \<and> bs = []) \<and>
   (x_msg_q_flush ret h s = Inr (r, s') \<longrightarrow> r \<noteq> OSR_OK \<longrightarrow> s' = s)"
proof (intro conjI)
  show "x_msg_q_create k m ph nm z n s = Inr (r, p, s') \<longrightarrow> r \<noteq> OSR_OK \<longrightarrow> s' = s \<and> p = NULL"
    by (simp add: x_msg_q_create_def split: option.split)
  show "x_msg_q_attach ph nm s = Inr (r, p, s') \<longrightarrow> r \<noteq> OSR_OK \<longrightarrow> s' = s \<and> p = NULL"
    by (simp add: x_msg_q_attach_def split: option.split)
  show "x_msg_q_send k ret h pv z s = Inr (r, s') \<longrightarrow> r \<noteq> OSR_OK \<longrightarrow> s' = s"
    by (simp add: x_msg_q_send_def split: option.split)
  show "x_msg_q_receive k ret ix msg pz hs n opt s = Inr (Returned (r, bs, s')) \<longrightarrow> r \<noteq> OSR_OK \<longrightarrow> s' = s \<and> bs = []"
    by (simp add: x_msg_q_receive_def split: option.split list.split)
  show "x_msg_q_receive_timeout k ret wret now ix msg pz hs n ms s = Inr (Returned (r, bs, s')) \<longrightarrow> r \<noteq> OSR_OK \<longrightarrow> s' = s \<and> bs = []"
    by (simp add: x_msg_q_receive_timeout_def Let_def split: option.split list.split)
  show "x_msg_q_flush ret h s = Inr (r, s') \<longrightarrow> r \<noteq> OSR_OK \<longrightarrow> s' = s"
    by (simp add: x_msg_q_flush_def split: option.split)
qed

theorem msgq_errors_change_nothing_witness:
  "x_msg_q_send 4 22 64 (Some [1]) 1 demoQ = Inr (OSR_INV_HANDLE, demoQ)"
proof -
  have "\<exists>s'. x_msg_q_send 4 22 64 (Some [1]) 1 demoQ = Inr (OSR_INV_HANDLE, s')"
    by (simp add: x_msg_q_send_def demoQ_def new_msgq_def lock_err_def)
  then obtain s' where s': "x_msg_q_send 4 22 64 (Some [1]) 1 demoQ = Inr (OSR_INV_HANDLE, s')" by blast
  have "s' = demoQ"
    by (rule msgq_errors_change_nothing [THEN conjunct2, THEN conjunct2, THEN conjunct1, rule_format, OF s']) simp
  with s' show ?thesis by simp
qed

end
