(* ===== verification/Timer.thy ===== *)
theory Timer
  imports CRing
begin

text \<open>The timer daemon, timerd/_timer.c: timers armed for a point of the monotonic clock, kept in a circular
  list in the order of their deadlines, and the thread that calls the callbacks of the timers that are due.
  What a call does under the list mutex is one step.  The daemon releases the mutex to run a callback,
  so one turn of its loop is two steps, \<open>expire_head\<close> and \<open>call_back\<close>, with other threads between them;
  stopping a timer releases it before it changes the deadline, so it is \<open>stop_remove\<close> and three writes.\<close>

section \<open>State\<close>

text \<open>A \<open>struct timespec\<close>: seconds and nanoseconds.\<close>

type_synonym timespec = "int \<times> int"

definition time_before :: "timespec \<Rightarrow> timespec \<Rightarrow> bool" where
  "time_before a b \<longleftrightarrow> fst a < fst b \<or> fst a = fst b \<and> snd a < snd b"

text \<open>The arguments of a callback: the application and the message, whose memory belongs to the arguments
  (\<open>None\<close> is \<open>NULL\<close>; the size of a message is its length).\<close>

record timer_args =
  ta_app :: u32
  ta_msg :: "u8 list option"

record timer =
  tm_abstime :: timespec
  tm_interval :: timespec
  tm_callback :: fptr
  tm_args :: ptr

text \<open>The links \<open>previous\<close> and \<open>next\<close> are in \<open>s_timer_list\<close>; a timer is in the list when \<open>previous\<close> is not
  \<open>NULL\<close>.  \<open>args_mem\<close> is the memory of the argument blocks.\<close>

record timers =
  s_timer_list :: ring
  tm_objs :: "ptr \<Rightarrow> timer option"
  args_mem :: "ptr \<Rightarrow> timer_args option"
  s_timer_res :: int

definition new_timer :: timer where
  "new_timer = \<lparr>tm_abstime = (0, 0), tm_interval = (0, 0), tm_callback = NULL, tm_args = NULL\<rparr>"

abbreviation (input) X_TIMER_FLAG_ONCE :: int where "X_TIMER_FLAG_ONCE \<equiv> 1"
abbreviation (input) X_TIMER_FLAG_REPEAT :: int where "X_TIMER_FLAG_REPEAT \<equiv> 2"

definition tm :: "timers \<Rightarrow> ptr \<Rightarrow> timer" where
  "tm s x = (case tm_objs s x of None \<Rightarrow> new_timer | Some t \<Rightarrow> t)"

definition set_tm :: "ptr \<Rightarrow> timer \<Rightarrow> timers \<Rightarrow> timers" where
  "set_tm x t s = s\<lparr>tm_objs := (tm_objs s)(x \<mapsto> t)\<rparr>"

section \<open>The list\<close>

text \<open>The loop that looks for the place: the first timer behind the head that is later.\<close>

partial_function (option) find_later :: "(ptr \<Rightarrow> bool) \<Rightarrow> ring \<Rightarrow> ptr \<Rightarrow> ptr option" where
  "find_later later r p =
    (if p = r_head r then Some p else if later p then Some p else find_later later r (r_next r p))"

declare find_later.simps [code]

definition timer_list_add :: "ptr \<Rightarrow> timers \<Rightarrow> timers option" where
  "timer_list_add x s =
    (let r = s_timer_list s;
         later = (\<lambda>p. time_before (tm_abstime (tm s x)) (tm_abstime (tm s p))) in
     if r_head r \<noteq> NULL then
       if later (r_head r)
       then Some (s\<lparr>s_timer_list := ring_insert_before x (r_head r) (r\<lparr>r_head := x\<rparr>)\<rparr>)
       else case find_later later r (r_next r (r_head r)) of
         None \<Rightarrow> None
       | Some p \<Rightarrow> Some (s\<lparr>s_timer_list := ring_insert_before x p r\<rparr>)
     else Some (s\<lparr>s_timer_list := ring_add x r\<rparr>))"

definition one_shot :: "timer \<Rightarrow> bool" where
  "one_shot t \<longleftrightarrow> fst (tm_interval t) = 0 \<and> snd (tm_interval t) = 0"

text \<open>The arguments of a timer that fires once are freed with its removal.\<close>

definition free_args :: "ptr \<Rightarrow> timers \<Rightarrow> timers" where
  "free_args x s =
    (let t = tm s x in
     if one_shot t \<and> tm_args t \<noteq> NULL
     then set_tm x (t\<lparr>tm_args := NULL\<rparr>) (s\<lparr>args_mem := (args_mem s)(tm_args t := None)\<rparr>)
     else s)"

definition timer_list_remove :: "ptr \<Rightarrow> timers \<Rightarrow> timers" where
  "timer_list_remove x s =
    (let s = free_args x s; r = ring_remove x (s_timer_list s)
     in s\<lparr>s_timer_list := r\<lparr>r_prev := (r_prev r)(x := NULL), r_next := (r_next r)(x := NULL)\<rparr>\<rparr>)"

definition armed :: "timers \<Rightarrow> ptr \<Rightarrow> bool" where
  "armed s x \<longleftrightarrow> r_prev (s_timer_list s) x \<noteq> NULL"

text \<open>Adding a span to a time, as the daemon and \<open>_timer_start\<close> do.\<close>

definition add_time :: "timespec \<Rightarrow> timespec \<Rightarrow> timespec" where
  "add_time a d = (let s = fst a + fst d; n = snd a + snd d in if n \<ge> 1000000000 then (s + 1, n - 1000000000) else (s, n))"

section \<open>The daemon\<close>

text \<open>The head of the list is due.  The result is the timer to call back and, for a timer that fires once, the
  copy of its arguments; the timer has left the list, or is back in it for its next turn.\<close>

definition head_due :: "timespec \<Rightarrow> timers \<Rightarrow> bool" where
  "head_due now s \<longleftrightarrow> r_head (s_timer_list s) \<noteq> NULL \<and> time_before (tm_abstime (tm s (r_head (s_timer_list s)))) now"

definition copy_args :: "ptr \<Rightarrow> timers \<Rightarrow> timer_args option" where
  "copy_args x s =
    (let t = tm s x in
     if tm_callback t \<noteq> NULL \<and> one_shot t \<and> tm_args t \<noteq> NULL then args_mem s (tm_args t) else None)"

definition expire_head :: "timers \<Rightarrow> (ptr \<times> timer_args option \<times> timers) option" where
  "expire_head s =
    (let x = r_head (s_timer_list s);
         pargs = copy_args x s;
         s = timer_list_remove x s;
         t = tm s x in
     if \<not> one_shot t then
       (case timer_list_add x (set_tm x (t\<lparr>tm_abstime := add_time (tm_abstime t) (tm_interval t)\<rparr>) s) of
          None \<Rightarrow> None | Some s \<Rightarrow> Some (x, pargs, s))
     else Some (x, pargs, s))"

text \<open>What the daemon does once it has released the mutex: the call it makes, as the function and its
  arguments.  It reads the timer again, and for a timer that fires once it frees the copy, which it must
  have made.\<close>

definition call_back :: "ptr \<Rightarrow> timer_args option \<Rightarrow> timers \<Rightarrow> (fptr \<times> timer_args option) option result" where
  "call_back x pargs s =
    (case tm_objs s x of
       None \<Rightarrow> Inl BadAccess
     | Some t \<Rightarrow>
       if tm_callback t = NULL then Inr None
       else if one_shot t then (case pargs of None \<Rightarrow> Inl BadAccess | Some _ \<Rightarrow> Inr (Some (tm_callback t, pargs)))
       else Inr (Some (tm_callback t, if tm_args t = NULL then None else args_mem s (tm_args t))))"

text \<open>The inner loop of the daemon: everything that is due at \<open>now\<close> expires, one timer a turn.  In turn \<open>i\<close>
  the mutex is open from the removal on: \<open>fst (env i)\<close> is what other threads do to the timers until the daemon reads
  the timer for the call, \<open>snd (env i)\<close> what the callback and other threads do until it has the mutex again.
  The result is the timers with the calls made for them.\<close>

type_synonym tm_env = "nat \<Rightarrow> (timers \<Rightarrow> timers) \<times> (timers \<Rightarrow> timers)"

partial_function (option) expire_due :: "tm_env \<Rightarrow> nat \<Rightarrow> timespec \<Rightarrow> timers
    \<Rightarrow> ((ptr \<times> (fptr \<times> timer_args option) option) list \<times> timers) result option" where
  "expire_due env i now s =
    (if head_due now s then
       (case expire_head s of
          None \<Rightarrow> None
        | Some (x, pargs, s1) \<Rightarrow>
          (case call_back x pargs (fst (env i) s1) of
             Inl e \<Rightarrow> Some (Inl e)
           | Inr c \<Rightarrow> Option.bind (expire_due env (Suc i) now (snd (env i) (fst (env i) s1)))
               (\<lambda>r. Some (case r of Inl e \<Rightarrow> Inl e | Inr (cs, s2) \<Rightarrow> Inr ((x, c) # cs, s2)))))
     else Some (Inr ([], s)))"

declare expire_due.simps [code]

section \<open>Calls\<close>

text \<open>A handle that is no timer is a bad access.\<close>

definition timer_start :: "timespec \<Rightarrow> ptr \<Rightarrow> u32 \<Rightarrow> int \<Rightarrow> fptr \<Rightarrow> ptr \<Rightarrow> timers \<Rightarrow> (int \<times> timers) result" where
  "timer_start now x ui4_delay e_flags pf_callback pt_args s =
    (if pf_callback = NULL \<or> ui4_delay = 0 \<or> e_flags \<noteq> X_TIMER_FLAG_ONCE \<and> e_flags \<noteq> X_TIMER_FLAG_REPEAT
     then Inr (OSR_INV_ARG, s)
     else if tm_objs s x = None then Inl BadAccess
     else let delay = (int (unat (ui4_delay div 1000)), int (unat (ui4_delay mod 1000 * 1000000)));
              s = (if armed s x then timer_list_remove x s else s);
              t = (tm s x)\<lparr>tm_abstime := add_time now delay,
                   tm_interval := (if e_flags = X_TIMER_FLAG_ONCE then (0, 0) else delay),
                   tm_callback := pf_callback, tm_args := pt_args\<rparr>
          in case timer_list_add x (set_tm x t s) of None \<Rightarrow> Inl Hang | Some s \<Rightarrow> Inr (OSR_OK, s))"

text \<open>\<open>mem\<close> is what \<open>malloc\<close> returns for the arguments, \<open>msg_mem\<close> whether it succeeds for the message;
  \<open>cb\<close> is the address of \<open>_os_timer_cb_fct\<close>.\<close>

definition u_timer_start :: "fptr \<Rightarrow> timespec \<Rightarrow> ptr \<Rightarrow> bool \<Rightarrow> u32 \<Rightarrow> ptr \<Rightarrow> u32 \<Rightarrow> int \<Rightarrow> u8 list option \<Rightarrow> timers
    \<Rightarrow> (int \<times> timers) result" where
  "u_timer_start cb now mem msg_mem h_app x ui4_delay e_flags p_msg s =
    (if mem = NULL then Inr (-1, s)
     else case p_msg of
       None \<Rightarrow> timer_start now x ui4_delay e_flags cb mem (s\<lparr>args_mem := (args_mem s)(mem \<mapsto> \<lparr>ta_app = h_app, ta_msg = None\<rparr>)\<rparr>)
     | Some m \<Rightarrow>
       if \<not> msg_mem then Inr (-1, s\<lparr>args_mem := (args_mem s)(mem \<mapsto> \<lparr>ta_app = h_app, ta_msg = None\<rparr>)\<rparr>)
       else timer_start now x ui4_delay e_flags cb mem (s\<lparr>args_mem := (args_mem s)(mem \<mapsto> \<lparr>ta_app = h_app, ta_msg = Some m\<rparr>)\<rparr>))"

text \<open>Stopping: the removal under the mutex, and whether there was one.\<close>

definition stop_remove :: "ptr \<Rightarrow> timers \<Rightarrow> (bool \<times> timers) result" where
  "stop_remove x s =
    (if tm_objs s x = None then Inl BadAccess
     else if armed s x then Inr (True, timer_list_remove x s) else Inr (False, s))"

text \<open>Then, with the mutex open again, three statements leave in the timer the time that was left at \<open>now\<close>:
  the seconds, the carry, the nanoseconds.  Other threads may run before each of them.\<close>

definition stop_write :: "nat \<Rightarrow> timespec \<Rightarrow> ptr \<Rightarrow> timers \<Rightarrow> timers result" where
  "stop_write k now x s =
    (case tm_objs s x of
       None \<Rightarrow> Inl BadAccess
     | Some t \<Rightarrow>
       let a = tm_abstime t in
       Inr (set_tm x (t\<lparr>tm_abstime :=
         (if k = 0 then (fst a - fst now, snd a)
          else if k = 1 then (if snd a < snd now then (fst a - 1, snd a + 1000000000) else a)
          else (fst a, snd a - snd now))\<rparr>) s))"

definition stop_rest :: "timespec \<Rightarrow> ptr \<Rightarrow> timers \<Rightarrow> timers result" where
  "stop_rest now x s =
    (case stop_write 0 now x s of
       Inl e \<Rightarrow> Inl e
     | Inr s \<Rightarrow> (case stop_write 1 now x s of Inl e \<Rightarrow> Inl e | Inr s \<Rightarrow> stop_write 2 now x s))"

text \<open>\<open>env\<close> is what other threads do between the unlock and the first of these statements.\<close>

definition u_timer_stop :: "(timers \<Rightarrow> timers) \<Rightarrow> timespec \<Rightarrow> ptr \<Rightarrow> timers \<Rightarrow> (int \<times> timers) result" where
  "u_timer_stop env now x s =
    (case stop_remove x s of
       Inl e \<Rightarrow> Inl e
     | Inr (found, s) \<Rightarrow>
       if found then (case stop_rest now x (env s) of Inl e \<Rightarrow> Inl e | Inr s \<Rightarrow> Inr (OSR_OK, s))
       else Inr (OSR_OK, s))"

definition u_timer_delete :: "ptr \<Rightarrow> timers \<Rightarrow> (int \<times> timers) result" where
  "u_timer_delete x s =
    (if tm_objs s x = None then Inl BadAccess
     else let s = (if armed s x then timer_list_remove x s else s)
       in Inr (OSR_OK, s\<lparr>tm_objs := (tm_objs s)(x := None)\<rparr>))"

text \<open>\<open>calloc\<close> gives a timer with no links.\<close>

definition u_timer_create :: "ptr \<Rightarrow> bool \<Rightarrow> timers \<Rightarrow> int \<times> ptr \<times> timers" where
  "u_timer_create mem ph s =
    (if \<not> ph then (OSR_INV_ARG, NULL, s)
     else if mem = NULL then (OSR_NO_RESOURCE, NULL, s)
     else (OSR_OK, mem, set_tm mem new_timer
       (s\<lparr>s_timer_list := (s_timer_list s)\<lparr>r_prev := (r_prev (s_timer_list s))(mem := NULL),
            r_next := (r_next (s_timer_list s))(mem := NULL)\<rparr>\<rparr>)))"

text \<open>\<open>res\<close> is the resolution of the monotonic clock in nanoseconds.\<close>

definition os_timer_init :: "int \<Rightarrow> timers" where
  "os_timer_init res = \<lparr>s_timer_list = ring0, tm_objs = Map.empty, args_mem = Map.empty, s_timer_res = (res + 500000) div 1000000\<rparr>"

definition u_os_get_sys_tick :: "timespec \<Rightarrow> timers \<Rightarrow> u32 result" where
  "u_os_get_sys_tick now s =
    (if s_timer_res s = 0 then Inl DivZero
     else Inr (of_int (fst now * (1000 div s_timer_res s) + snd now div (1000000 * s_timer_res s))))"

definition u_os_get_sys_tick_period :: "timers \<Rightarrow> u32" where
  "u_os_get_sys_tick_period s = of_int (s_timer_res s)"

end
