(* ===== verification/TimerInv.thy ===== *)
theory TimerInv
  imports Timer
begin

text \<open>The timer list as a list sorted by deadline, the invariant of the daemon's state and that every operation
  keeps it.\<close>

section \<open>Links\<close>

lemma ring_prev_mem:
  assumes "ring_rel r xs" "x \<in> set xs"
  shows "r_prev r x \<in> set xs"
proof -
  obtain as bs where xs: "xs = as @ x # bs" using assms(2) by (meson split_list)
  have c: "cyc (r_next r) (r_prev r) (as @ x # bs)" using assms(1) by (simp add: ring_rel_def xs)
  then have "cyc (r_next r) (r_prev r) ((x # bs) @ as)" using cyc_rotate [of _ _ as "x # bs"] by (cases "as = []") simp_all
  then have "r_prev r x = last (x # bs @ as)" by (auto simp: cyc_def)
  also have "\<dots> \<in> set (x # bs @ as)" by (rule last_in_set) simp
  finally show ?thesis by (auto simp: xs)
qed

lemma ring_next_mem:
  assumes "ring_rel r xs" "x \<in> set xs"
  shows "r_next r x \<in> set xs"
proof -
  obtain as bs where xs: "xs = as @ x # bs" using assms(2) by (meson split_list)
  have c: "cyc (r_next r) (r_prev r) (as @ x # bs)" using assms(1) by (simp add: ring_rel_def xs)
  then have "cyc (r_next r) (r_prev r) (x # bs @ as)" using cyc_rotate [of _ _ as "x # bs"] by (cases "as = []") simp_all
  then have "path (r_next r) (r_next r x) (bs @ as) x" by (simp add: cyc_def)
  then have "r_next r x = (case bs @ as of [] \<Rightarrow> x | y # _ \<Rightarrow> y)" by (cases "bs @ as") auto
  then have "r_next r x \<in> set (x # bs @ as)" by (cases "bs @ as") auto
  then show ?thesis by (auto simp: xs)
qed

lemma ring_prev_null: "ring_rel r xs \<Longrightarrow> x \<in> set xs \<Longrightarrow> r_prev r x \<noteq> NULL"
  using ring_prev_mem ring_rel_null by metis

lemma ring_remove_prev_other:
  assumes "ring_rel r xs" "x \<in> set xs" "y \<notin> set xs"
  shows "r_prev (ring_remove x r) y = r_prev r y"
proof (cases "r_prev r x = x")
  case False
  let ?nx = "(r_next r)(r_prev r x := r_next r x)"
  have "?nx x = r_next r x" using False by simp
  then have "?nx x \<noteq> y" using ring_next_mem [OF assms(1,2)] assms(3) by metis
  then show ?thesis using False by (simp add: ring_remove_def Let_def)
qed (simp add: ring_remove_def)

text \<open>A removed element has its links cleared, which no other element sees.\<close>

lemma ring_rel_clear:
  assumes "ring_rel r xs" "x \<notin> set xs"
  shows "ring_rel (r\<lparr>r_prev := (r_prev r)(x := a), r_next := (r_next r)(x := b)\<rparr>) xs"
  using assms by (auto simp: ring_rel_def cyc_def path_frame)

section \<open>Insertion by time\<close>

definition ins_later :: "(ptr \<Rightarrow> bool) \<Rightarrow> ptr \<Rightarrow> ptr list \<Rightarrow> ptr list" where
  "ins_later later x xs = takeWhile (\<lambda>p. \<not> later p) xs @ x # dropWhile (\<lambda>p. \<not> later p) xs"

lemma set_ins_later [simp]: "set (ins_later l x xs) = insert x (set xs)"
  by (auto simp: ins_later_def dest: set_takeWhileD set_dropWhileD) (metis Un_iff set_append takeWhile_dropWhile_id)

lemma find_later_path:
  assumes "path (r_next r) p ys (r_head r)" "r_head r \<notin> set ys"
  shows "find_later later r p = Some (case dropWhile (\<lambda>p. \<not> later p) ys of [] \<Rightarrow> r_head r | y # _ \<Rightarrow> y)"
  using assms
proof (induction ys arbitrary: p)
  case Nil
  then show ?case by (simp add: find_later.simps)
next
  case (Cons y ys)
  then have "p = y" "p \<noteq> r_head r" by auto
  then show ?case using Cons by (subst find_later.simps) auto
qed

lemma timer_list_add_ok:
  fixes s :: timers
  assumes r: "ring_rel (s_timer_list s) xs" and x: "x \<noteq> NULL" "x \<notin> set xs"
  defines "later \<equiv> \<lambda>p. time_before (tm_abstime (tm s x)) (tm_abstime (tm s p))"
  shows "\<exists>r'. timer_list_add x s = Some (s\<lparr>s_timer_list := r'\<rparr>) \<and> ring_rel r' (ins_later later x xs) \<and>
    (\<forall>y. y \<notin> set xs \<longrightarrow> y \<noteq> x \<longrightarrow> r_prev r' y = r_prev (s_timer_list s) y)"
proof (cases xs)
  case Nil
  then have "timer_list_add x s = Some (s\<lparr>s_timer_list := ring_add x (s_timer_list s)\<rparr>)"
    "r_prev (ring_add x (s_timer_list s)) y = r_prev (s_timer_list s) y" if "y \<noteq> x" for y
    using r that by (simp_all add: timer_list_add_def ring_add_def Let_def)
  then show ?thesis using ring_rel_add [OF r x] Nil r
    by (intro exI [of _ "ring_add x (s_timer_list s)"]) (simp add: timer_list_add_def ins_later_def Let_def)
next
  case (Cons h ys)
  let ?r = "s_timer_list s"
  have h: "r_head ?r = h" "h \<noteq> NULL" "path (r_next ?r) (r_next ?r h) ys h" "h \<notin> set ys"
    using r Cons by (auto simp: ring_rel_def cyc_def)
  have frame: "r_prev (ring_insert_before x p (?r\<lparr>r_head := k\<rparr>)) y = r_prev ?r y" if "p \<in> set xs" "y \<notin> set xs" "y \<noteq> x" for p k y
    using that x(2) by (subst ring_insert_before_sel) auto
  show ?thesis
  proof (cases "later h")
    case True
    have "ring_insert_before x h (?r\<lparr>r_head := x\<rparr>) = (ring_insert_before x h ?r)\<lparr>r_head := x\<rparr>"
      by (cases ?r) (simp add: ring_insert_before_def Let_def)
    then have "ring_rel (ring_insert_before x h (?r\<lparr>r_head := x\<rparr>)) (x # xs)"
      using ring_rel_insert_before [of ?r "[]" h ys x] r x Cons by simp
    moreover have "timer_list_add x s = Some (s\<lparr>s_timer_list := ring_insert_before x h (?r\<lparr>r_head := x\<rparr>)\<rparr>)"
      using True h by (simp add: timer_list_add_def Let_def later_def)
    ultimately show ?thesis using True frame [of h] Cons by (auto simp: ins_later_def)
  next
    case False
    then have e: "timer_list_add x s = (case find_later later ?r (r_next ?r h) of
        None \<Rightarrow> None | Some p \<Rightarrow> Some (s\<lparr>s_timer_list := ring_insert_before x p ?r\<rparr>))"
      using h by (simp add: timer_list_add_def Let_def later_def)
    have f: "find_later later ?r (r_next ?r h) = Some (case dropWhile (\<lambda>p. \<not> later p) ys of [] \<Rightarrow> h | y # _ \<Rightarrow> y)"
      using find_later_path [of ?r "r_next ?r h" ys later, unfolded h(1), OF h(3,4)] .
    show ?thesis
    proof (cases "dropWhile (\<lambda>p. \<not> later p) ys")
      case Nil
      then have i: "ins_later later x xs = xs @ [x]"
        using Cons False by (simp add: ins_later_def dropWhile_eq_Nil_conv takeWhile_eq_all_conv)
      have "ring_insert_before x h ?r = ring_add x ?r" using h by (simp add: ring_insert_before_def ring_add_def Let_def)
      then show ?thesis using e f Nil i ring_rel_add [OF r x] frame [of h _ "r_head ?r"] Cons by auto
    next
      case (Cons p bs)
      let ?as = "h # takeWhile (\<lambda>p. \<not> later p) ys"
      have s: "xs = ?as @ p # bs" using \<open>xs = h # ys\<close> Cons takeWhile_dropWhile_id by (metis append_Cons)
      have i: "ins_later later x xs = ?as @ x # p # bs" using \<open>xs = h # ys\<close> Cons False by (simp add: ins_later_def)
      have "x \<noteq> p" using x s by auto
      then have "(ring_insert_before x p ?r)\<lparr>r_head := hd (?as @ [x])\<rparr> = ring_insert_before x p ?r"
        using h(1) by (simp add: ring_insert_before_sel)
      moreover have "ring_rel ((ring_insert_before x p ?r)\<lparr>r_head := hd (?as @ [x])\<rparr>) (?as @ x # p # bs)"
        using r x by (intro ring_rel_insert_before) (simp_all only: s [symmetric] not_False_eq_True)
      ultimately show ?thesis using e f Cons i frame [of p _ "r_head ?r"] s by auto
    qed
  qed
qed

lemma sorted_wrt_remove1: "sorted_wrt P xs \<Longrightarrow> sorted_wrt P (remove1 x xs)"
  by (induction xs) (auto dest: notin_set_remove1)

lemma sorted_ins_later:
  assumes "sorted_wrt (\<lambda>a b. k a \<le> (k b :: int)) xs" "\<And>p. p \<in> set xs \<Longrightarrow> later p \<longleftrightarrow> k x < k p"
  shows "sorted_wrt (\<lambda>a b. k a \<le> k b) (ins_later later x xs)"
  using assms
proof (induction xs)
  case (Cons y ys)
  show ?case
  proof (cases "later y")
    case True
    then show ?thesis using Cons.prems by (fastforce simp: ins_later_def)
  next
    case False
    then have "ins_later later x (y # ys) = y # ins_later later x ys" by (simp add: ins_later_def)
    then show ?thesis using Cons False by auto
  qed
qed (simp add: ins_later_def)

section \<open>Times\<close>

definition ns :: "timespec \<Rightarrow> int" where
  "ns a = fst a * 1000000000 + snd a"

definition normal :: "timespec \<Rightarrow> bool" where
  "normal a \<longleftrightarrow> 0 \<le> snd a \<and> snd a < 1000000000"

lemma time_before_ns: "normal a \<Longrightarrow> normal b \<Longrightarrow> time_before a b \<longleftrightarrow> ns a < ns b"
  unfolding time_before_def ns_def normal_def by linarith

lemma add_time_ns: "normal a \<Longrightarrow> normal d \<Longrightarrow> normal (add_time a d) \<and> ns (add_time a d) = ns a + ns d"
  unfolding add_time_def ns_def normal_def Let_def by auto

text \<open>The time left, as the three writes of a stop compute it.\<close>

definition sub_time :: "timespec \<Rightarrow> timespec \<Rightarrow> timespec" where
  "sub_time a b =
    (let s = fst a - fst b in if snd a < snd b then (s - 1, snd a + 1000000000 - snd b) else (s, snd a - snd b))"

lemma sub_time_ns: "normal a \<Longrightarrow> normal b \<Longrightarrow> normal (sub_time a b) \<and> ns (sub_time a b) = ns a - ns b"
  unfolding sub_time_def ns_def normal_def Let_def by auto

section \<open>The invariant\<close>

definition deadline :: "timers \<Rightarrow> ptr \<Rightarrow> int" where
  "deadline s x = ns (tm_abstime (tm s x))"

definition good_timer :: "timer \<Rightarrow> bool" where
  "good_timer t \<longleftrightarrow> normal (tm_abstime t) \<and> normal (tm_interval t) \<and> 0 \<le> fst (tm_interval t)"

text \<open>The list holds exactly the armed timers; the arguments of an armed timer are allocated and no other armed
  timer has them.  With \<open>ord\<close> the list is also in the order of the deadlines.\<close>

definition timers_wf :: "bool \<Rightarrow> timers \<Rightarrow> ptr list \<Rightarrow> bool" where
  "timers_wf ord s xs \<longleftrightarrow> ring_rel (s_timer_list s) xs \<and> tm_objs s NULL = None \<and>
     (\<forall>x. armed s x \<longleftrightarrow> x \<in> set xs) \<and>
     (ord \<longrightarrow> sorted_wrt (\<lambda>x y. deadline s x \<le> deadline s y) xs) \<and>
     (\<forall>x\<in>set xs. tm_objs s x \<noteq> None \<and> (ord \<longrightarrow> good_timer (tm s x)) \<and>
       (tm_args (tm s x) \<noteq> NULL \<longrightarrow> args_mem s (tm_args (tm s x)) \<noteq> None)) \<and>
     (\<forall>x\<in>set xs. \<forall>y\<in>set xs. tm_args (tm s x) = tm_args (tm s y) \<longrightarrow> tm_args (tm s x) \<noteq> NULL \<longrightarrow> x = y)"

abbreviation timers_inv :: "timers \<Rightarrow> ptr list \<Rightarrow> bool" where
  "timers_inv \<equiv> timers_wf True"

lemmas timers_inv_def = timers_wf_def [of True, unfolded simp_thms]

lemma timers_wfD:
  assumes "timers_wf ord s xs"
  shows "ring_rel (s_timer_list s) xs" "armed s x \<longleftrightarrow> x \<in> set xs" "distinct xs" "tm_objs s NULL = None"
    "ord \<Longrightarrow> x \<in> set xs \<Longrightarrow> good_timer (tm s x)" "x \<in> set xs \<Longrightarrow> tm_objs s x \<noteq> None" "NULL \<notin> set xs"
  using assms ring_rel_distinct ring_rel_null by (auto simp: timers_wf_def)

lemma timers_wf_weaken: "timers_wf ord s xs \<Longrightarrow> timers_wf False s xs"
  by (auto simp: timers_wf_def)

lemmas timers_invD = timers_wfD(1-4) [of True] timers_wfD(5) [of True, OF _ TrueI] timers_wfD(6,7) [of True]

text \<open>What the invariant depends on.\<close>

lemma timers_inv_cong:
  assumes "timers_wf ord s xs" "s_timer_list s' = s_timer_list s" "tm_objs s' NULL = None"
    and "\<And>x. x \<in> set xs \<Longrightarrow> tm_objs s' x = tm_objs s x"
    and "\<And>x. x \<in> set xs \<Longrightarrow> tm_args (tm s x) \<noteq> NULL \<Longrightarrow> args_mem s' (tm_args (tm s x)) \<noteq> None"
  shows "timers_wf ord s' xs"
proof -
  have t: "tm s' x = tm s x" if "x \<in> set xs" for x using assms(4) [OF that] by (simp add: tm_def)
  have "sorted_wrt (\<lambda>x y. deadline s' x \<le> deadline s' y) xs" if "ord"
  proof -
    have "sorted_wrt (\<lambda>x y. deadline s x \<le> deadline s y) xs" using assms(1) that by (simp add: timers_wf_def)
    then show ?thesis by (rule sorted_wrt_mono_rel [rotated]) (simp add: deadline_def t)
  qed
  moreover have "armed s' x \<longleftrightarrow> armed s x" for x by (simp add: armed_def assms(2))
  ultimately show ?thesis using assms t unfolding timers_wf_def by auto
qed

lemma tm_set_tm [simp]: "tm (set_tm x t s) y = (if y = x then t else tm s y)"
  by (simp add: tm_def set_tm_def)

lemma tm_list_upd [simp]: "tm (s\<lparr>s_timer_list := r\<rparr>) = tm s" "tm (s\<lparr>args_mem := a\<rparr>) = tm s"
  by (simp_all add: tm_def fun_eq_iff)

lemma set_tm_sel [simp]:
  "s_timer_list (set_tm x t s) = s_timer_list s" "args_mem (set_tm x t s) = args_mem s"
  "tm_objs (set_tm x t s) = (tm_objs s)(x \<mapsto> t)"
  by (simp_all add: set_tm_def)

lemma free_args_sel:
  "s_timer_list (free_args x s) = s_timer_list s"
  "y \<noteq> x \<Longrightarrow> tm_objs (free_args x s) y = tm_objs s y" "y \<noteq> x \<Longrightarrow> tm (free_args x s) y = tm s y"
  "tm (free_args x s) x = (if one_shot (tm s x) then (tm s x)\<lparr>tm_args := NULL\<rparr> else tm s x)"
  "args_mem (free_args x s) =
    (if one_shot (tm s x) \<and> tm_args (tm s x) \<noteq> NULL then (args_mem s)(tm_args (tm s x) := None) else args_mem s)"
  "tm_objs s x \<noteq> None \<Longrightarrow> tm_objs (free_args x s) x \<noteq> None"
  by (auto simp: free_args_def Let_def intro!: timer.equality)

text \<open>Removing an armed timer.\<close>

lemma timer_list_remove_ok:
  assumes inv: "timers_wf ord s xs" and x: "x \<in> set xs"
  shows "timers_wf ord (timer_list_remove x s) (remove1 x xs)"
    and "y \<noteq> x \<Longrightarrow> tm_objs (timer_list_remove x s) y = tm_objs s y"
    and "y \<noteq> x \<Longrightarrow> tm (timer_list_remove x s) y = tm s y"
    and "tm (timer_list_remove x s) x = (if one_shot (tm s x) then (tm s x)\<lparr>tm_args := NULL\<rparr> else tm s x)"
    and "args_mem (timer_list_remove x s) =
      (if one_shot (tm s x) \<and> tm_args (tm s x) \<noteq> NULL then (args_mem s)(tm_args (tm s x) := None) else args_mem s)"
    and "tm_objs (timer_list_remove x s) x \<noteq> None"
proof -
  let ?s = "timer_list_remove x s" and ?r = "ring_remove x (s_timer_list s)" and ?xs = "remove1 x xs"
  note I = timers_wfD [OF inv]
  have f: "tm_objs ?s = tm_objs (free_args x s)" "tm ?s = tm (free_args x s)" "args_mem ?s = args_mem (free_args x s)"
    "s_timer_list ?s = ?r\<lparr>r_prev := (r_prev ?r)(x := NULL), r_next := (r_next ?r)(x := NULL)\<rparr>"
    by (simp_all add: timer_list_remove_def Let_def free_args_sel(1))
  show "y \<noteq> x \<Longrightarrow> tm_objs ?s y = tm_objs s y" "y \<noteq> x \<Longrightarrow> tm ?s y = tm s y" for y
    by (simp_all add: f free_args_sel)
  note old = this
  show "tm ?s x = (if one_shot (tm s x) then (tm s x)\<lparr>tm_args := NULL\<rparr> else tm s x)"
    and am: "args_mem ?s = (if one_shot (tm s x) \<and> tm_args (tm s x) \<noteq> NULL then (args_mem s)(tm_args (tm s x) := None) else args_mem s)"
    by (simp_all only: f free_args_sel)
  show "tm_objs ?s x \<noteq> None" using I(6) [OF x] by (simp only: f free_args_sel(6) simp_thms)
  have sx: "set ?xs = set xs - {x}" using I(3) by simp
  have rr: "ring_rel ?r ?xs" by (rule ring_rel_remove [OF I(1) x])
  then have "ring_rel (s_timer_list ?s) ?xs" unfolding f(4) by (rule ring_rel_clear) (simp add: sx)
  moreover have "armed ?s y \<longleftrightarrow> y \<in> set ?xs" for y
  proof (cases "y \<in> set xs")
    case True
    then show ?thesis using ring_prev_null [OF rr, of y] by (auto simp: armed_def f(4) sx)
  next
    case False
    then show ?thesis using ring_remove_prev_other [OF I(1) x False] I(2) [of y] x by (auto simp: armed_def f(4) sx)
  qed
  moreover have "sorted_wrt (\<lambda>x y. deadline ?s x \<le> deadline ?s y) ?xs" if "ord"
  proof -
    have "sorted_wrt (\<lambda>x y. deadline s x \<le> deadline s y) ?xs"
      using inv that sorted_wrt_remove1 by (auto simp: timers_wf_def)
    then show ?thesis by (rule sorted_wrt_mono_rel [rotated]) (auto simp: sx deadline_def old)
  qed
  moreover have "tm_objs ?s y \<noteq> None \<and> (ord \<longrightarrow> good_timer (tm ?s y)) \<and>
      (tm_args (tm ?s y) \<noteq> NULL \<longrightarrow> args_mem ?s (tm_args (tm ?s y)) \<noteq> None)" if "y \<in> set ?xs" for y
  proof -
    have y: "y \<noteq> x" "y \<in> set xs" using that sx by auto
    then have "tm_args (tm s y) \<noteq> NULL \<Longrightarrow> tm_args (tm s y) \<noteq> tm_args (tm s x)"
      using inv x unfolding timers_wf_def by metis
    then show ?thesis using inv y am unfolding timers_wf_def by (auto simp: old [OF y(1)])
  qed
  moreover have "tm_objs ?s NULL = None" using old(1) [of NULL] I(4,7) x by metis
  moreover have "\<forall>a\<in>set ?xs. \<forall>b\<in>set ?xs. tm_args (tm ?s a) = tm_args (tm ?s b) \<longrightarrow> tm_args (tm ?s a) \<noteq> NULL \<longrightarrow> a = b"
    using inv old(2) sx unfolding timers_wf_def by auto
  ultimately show "timers_wf ord ?s ?xs" unfolding timers_wf_def by blast
qed

text \<open>Arming a timer that is not armed.\<close>

definition arm_list :: "timers \<Rightarrow> ptr \<Rightarrow> timer \<Rightarrow> ptr list \<Rightarrow> ptr list" where
  "arm_list s x t xs = ins_later (\<lambda>p. time_before (tm_abstime t) (tm_abstime (tm s p))) x xs"

lemma arm_ok:
  assumes inv: "timers_wf ord s xs" and x: "x \<noteq> NULL" "x \<notin> set xs" and t: "ord \<Longrightarrow> good_timer t"
    and a: "tm_args t \<noteq> NULL \<Longrightarrow> args_mem s (tm_args t) \<noteq> None"
    and own: "\<And>y. y \<in> set xs \<Longrightarrow> tm_args t \<noteq> NULL \<Longrightarrow> tm_args (tm s y) \<noteq> tm_args t"
  shows "\<exists>s'. timer_list_add x (set_tm x t s) = Some s' \<and> timers_wf ord s' (arm_list s x t xs) \<and>
    tm_objs s' = (tm_objs s)(x \<mapsto> t) \<and> args_mem s' = args_mem s \<and> s_timer_res s' = s_timer_res s"
proof -
  let ?s = "set_tm x t s"
  let ?later = "\<lambda>p. time_before (tm_abstime (tm ?s x)) (tm_abstime (tm ?s p))"
  note I = timers_wfD [OF inv]
  have "ring_rel (s_timer_list ?s) xs" using I(1) by simp
  from timer_list_add_ok [OF this x] obtain r' where r':
    "timer_list_add x ?s = Some (?s\<lparr>s_timer_list := r'\<rparr>)" "ring_rel r' (ins_later ?later x xs)"
    "\<forall>y. y \<notin> set xs \<longrightarrow> y \<noteq> x \<longrightarrow> r_prev r' y = r_prev (s_timer_list s) y" by auto
  let ?s' = "?s\<lparr>s_timer_list := r'\<rparr>" and ?ys = "ins_later ?later x xs"
  have "?later p = time_before (tm_abstime t) (tm_abstime (tm s p))" if "p \<in> set xs" for p using that x(2) by auto
  then have ys: "?ys = arm_list s x t xs"
    unfolding ins_later_def arm_list_def by (intro arg_cong2 [of _ _ _ _ "(@)"] arg_cong [of _ _ "(#) x"] takeWhile_cong dropWhile_cong) simp_all
  have d: "deadline ?s' y = (if y = x then ns (tm_abstime t) else deadline s y)" for y by (simp add: deadline_def)
  have "armed ?s' y \<longleftrightarrow> y \<in> set ?ys" for y
  proof (cases "y \<in> set ?ys")
    case True
    then show ?thesis using ring_prev_null [OF r'(2)] by (simp add: armed_def)
  next
    case False
    then show ?thesis using r'(3) I(2) [of y] by (simp add: armed_def)
  qed
  moreover have "sorted_wrt (\<lambda>x y. deadline ?s' x \<le> deadline ?s' y) ?ys" if "ord"
  proof (rule sorted_ins_later)
    have "sorted_wrt (\<lambda>x y. deadline s x \<le> deadline s y) xs" using inv \<open>ord\<close> by (simp add: timers_wf_def)
    then show "sorted_wrt (\<lambda>x y. deadline ?s' x \<le> deadline ?s' y) xs"
      by (rule sorted_wrt_mono_rel [rotated]) (use x(2) in \<open>auto simp: d\<close>)
    show "?later p \<longleftrightarrow> deadline ?s' x < deadline ?s' p" if "p \<in> set xs" for p
      using that x(2) t [OF \<open>ord\<close>] I(5) [OF \<open>ord\<close> that] by (auto simp: d deadline_def good_timer_def time_before_ns)
  qed
  moreover have "\<forall>y\<in>set ?ys. tm_objs ?s' y \<noteq> None \<and> (ord \<longrightarrow> good_timer (tm ?s' y)) \<and>
      (tm_args (tm ?s' y) \<noteq> NULL \<longrightarrow> args_mem ?s' (tm_args (tm ?s' y)) \<noteq> None)"
    using inv t a unfolding timers_wf_def by auto
  moreover have "\<forall>y\<in>set ?ys. \<forall>z\<in>set ?ys. tm_args (tm ?s' y) = tm_args (tm ?s' z) \<longrightarrow> tm_args (tm ?s' y) \<noteq> NULL \<longrightarrow> y = z"
  proof (intro ballI impI)
    fix y z assume h: "y \<in> set ?ys" "z \<in> set ?ys" "tm_args (tm ?s' y) = tm_args (tm ?s' z)" "tm_args (tm ?s' y) \<noteq> NULL"
    show "y = z"
    proof (cases "y = x \<or> z = x")
      case True
      then show ?thesis using h own x(2) by (auto split: if_splits)
    next
      case False
      then show ?thesis using h inv unfolding timers_wf_def by auto
    qed
  qed
  moreover have "tm_objs ?s' NULL = None" using I(4) x(1) by simp
  moreover have "ring_rel (s_timer_list ?s') ?ys" using r'(2) by simp
  ultimately have "timers_wf ord ?s' ?ys" unfolding timers_wf_def by blast
  then show ?thesis using r'(1) ys by (intro exI [of _ ?s']) (simp add: set_tm_def)
qed

lemma set_arm_list [simp]: "set (arm_list s x t xs) = insert x (set xs)"
  by (simp add: arm_list_def)

section \<open>The operations keep the invariant\<close>

lemma timers_inv_init: "timers_wf ord (os_timer_init res) []"
  by (simp add: timers_wf_def os_timer_init_def ring0_def armed_def)

lemma timers_inv_create:
  assumes "timers_wf ord s xs" "mem \<noteq> NULL" "tm_objs s mem = None"
  shows "timers_wf ord (snd (snd (u_timer_create mem True s))) xs"
proof -
  have m: "mem \<notin> set xs" using timers_wfD(6) [OF assms(1)] assms(3) by blast
  let ?r = "s_timer_list s" and ?s = "snd (snd (u_timer_create mem True s))"
  have e: "?s = set_tm mem new_timer (s\<lparr>s_timer_list := ?r\<lparr>r_prev := (r_prev ?r)(mem := NULL), r_next := (r_next ?r)(mem := NULL)\<rparr>\<rparr>)"
    using assms(2) by (simp add: u_timer_create_def)
  have "timers_wf ord (s\<lparr>s_timer_list := s_timer_list ?s\<rparr>) xs"
  proof -
    have "ring_rel (s_timer_list ?s) xs" unfolding e set_tm_sel
      using ring_rel_clear [OF timers_wfD(1) [OF assms(1)] m] by simp
    moreover have "armed (s\<lparr>s_timer_list := s_timer_list ?s\<rparr>) x \<longleftrightarrow> x \<in> set xs" for x
      using timers_wfD(2) [OF assms(1)] m by (auto simp: armed_def e)
    ultimately show ?thesis using assms(1) by (simp add: timers_wf_def deadline_def)
  qed
  then show ?thesis
  proof (rule timers_inv_cong)
    show "tm_objs ?s x = tm_objs (s\<lparr>s_timer_list := s_timer_list ?s\<rparr>) x" if "x \<in> set xs" for x
      using that m by (auto simp: e)
    show "tm_objs ?s NULL = None" using timers_wfD(4) [OF assms(1)] assms(2) by (simp add: e)
    show "args_mem ?s (tm_args (tm (s\<lparr>s_timer_list := s_timer_list ?s\<rparr>) x)) \<noteq> None"
      if "x \<in> set xs" "tm_args (tm (s\<lparr>s_timer_list := s_timer_list ?s\<rparr>) x) \<noteq> NULL" for x
      using that assms(1) by (auto simp: e timers_wf_def)
  qed simp
qed

text \<open>Disarming, as the three calls that may find the timer armed do.\<close>

definition disarm :: "ptr \<Rightarrow> timers \<Rightarrow> timers" where
  "disarm x s = (if armed s x then timer_list_remove x s else s)"

lemma disarm_ok:
  assumes "timers_wf ord s xs" "tm_objs s x \<noteq> None"
  shows "timers_wf ord (disarm x s) (remove1 x xs)" "x \<notin> set (remove1 x xs)"
    "y \<noteq> x \<Longrightarrow> tm_objs (disarm x s) y = tm_objs s y" "y \<noteq> x \<Longrightarrow> tm (disarm x s) y = tm s y"
    "tm_objs (disarm x s) x \<noteq> None" "tm_abstime (tm (disarm x s) x) = tm_abstime (tm s x)"
    "args_mem (disarm x s) = (if x \<in> set xs \<and> one_shot (tm s x) \<and> tm_args (tm s x) \<noteq> NULL
      then (args_mem s)(tm_args (tm s x) := None) else args_mem s)"
  using timer_list_remove_ok [OF assms(1), of x] timers_wfD(2,3) [OF assms(1)] assms
  by (auto simp: disarm_def remove1_idem split: if_splits)

lemma stop_remove_ok:
  assumes "timers_wf ord s xs" "tm_objs s x \<noteq> None"
  shows "stop_remove x s = Inr (x \<in> set xs, disarm x s)"
  using timers_wfD(2) [OF assms(1), of x] assms(2) by (simp add: stop_remove_def disarm_def)

text \<open>A write of a stop changes only the deadline of its timer, and the order of the list only if that is armed.\<close>

lemma stop_write_ok:
  assumes "timers_wf ord s xs" "stop_write k now x s = Inr s'"
  shows "timers_wf (ord \<and> x \<notin> set xs) s' xs" "tm_objs s x \<noteq> None" "y \<noteq> x \<Longrightarrow> tm_objs s' y = tm_objs s y"
    "tm_objs s' x \<noteq> None" "args_mem s' = args_mem s" "armed s' y = armed s y"
proof -
  obtain t a where t: "tm_objs s x = Some t" "s' = set_tm x (t\<lparr>tm_abstime := a\<rparr>) s"
    using assms(2) unfolding stop_write_def Let_def by (cases "tm_objs s x") (simp_all only: option.simps sum.inject, blast+)
  have tx: "tm s x = t" by (simp add: tm_def t(1))
  show "tm_objs s x \<noteq> None" "y \<noteq> x \<Longrightarrow> tm_objs s' y = tm_objs s y" "tm_objs s' x \<noteq> None" "args_mem s' = args_mem s"
    "armed s' y = armed s y"
    by (simp_all add: t armed_def)
  have n: "tm_objs s' NULL = None" using timers_wfD(4) [OF assms(1)] t by (cases "x = NULL") simp_all
  have ord: "sorted_wrt (\<lambda>p q. deadline s' p \<le> deadline s' q) xs" if "ord" "x \<notin> set xs"
  proof -
    have "sorted_wrt (\<lambda>p q. deadline s p \<le> deadline s q) xs" using assms(1) that(1) by (simp add: timers_wf_def)
    then show ?thesis by (rule sorted_wrt_mono_rel [rotated]) (use that(2) in \<open>auto simp: deadline_def t(2)\<close>)
  qed
  have ar: "tm_args (tm s' p) = tm_args (tm s p)" for p using tx by (simp add: t(2))
  have ga: "good_timer (tm s' p)" if "p \<in> set xs" "ord" "x \<notin> set xs" for p
    using timers_wfD(5) [OF assms(1) that(2,1)] that by (auto simp: t(2))
  have "armed s' p = armed s p" for p by (simp add: t(2) armed_def)
  then show "timers_wf (ord \<and> x \<notin> set xs) s' xs"
    using assms(1) n ord ga unfolding timers_wf_def ar by (auto simp: t(2))
qed

lemma stop_rest_ok:
  assumes "tm_objs s x = Some t"
  shows "stop_rest now x s = Inr (set_tm x (t\<lparr>tm_abstime := sub_time (tm_abstime t) now\<rparr>) s)"
  using assms by (auto simp: stop_rest_def stop_write_def sub_time_def set_tm_def Let_def)

text \<open>Nobody else runs between the unlock and the writes.\<close>

lemma timers_inv_stop:
  assumes "timers_wf ord s xs" "tm_objs s x \<noteq> None"
  shows "\<exists>s'. u_timer_stop id now x s = Inr (OSR_OK, s') \<and> timers_wf ord s' (remove1 x xs) \<and>
    (\<forall>y. y \<noteq> x \<longrightarrow> tm_objs s' y = tm_objs s y) \<and> args_mem s' = args_mem (disarm x s) \<and>
    (x \<in> set xs \<longrightarrow> tm_abstime (tm s' x) = sub_time (tm_abstime (tm s x)) now)"
proof -
  note D = disarm_ok [OF assms]
  let ?t = "(tm (disarm x s) x)\<lparr>tm_abstime := sub_time (tm_abstime (tm s x)) now\<rparr>"
  have "timers_wf ord (set_tm x ?t (disarm x s)) (remove1 x xs)"
  proof (rule timers_inv_cong [OF D(1)])
    have "x \<noteq> NULL" using timers_wfD(4) [OF assms(1)] assms(2) by (cases "x = NULL") auto
    then show "tm_objs (set_tm x ?t (disarm x s)) NULL = None" using timers_wfD(4) [OF D(1)] by simp
    show "args_mem (set_tm x ?t (disarm x s)) (tm_args (tm (disarm x s) y)) \<noteq> None"
      if "y \<in> set (remove1 x xs)" "tm_args (tm (disarm x s) y) \<noteq> NULL" for y
      using that D(1) by (auto simp: timers_wf_def)
  qed (use D(2) in auto)
  moreover have "stop_rest now x (disarm x s) = Inr (set_tm x ?t (disarm x s))"
  proof -
    obtain t where t: "tm_objs (disarm x s) x = Some t" using D(5) by blast
    then have "tm (disarm x s) x = t" by (simp add: tm_def)
    then show ?thesis using stop_rest_ok [OF t] D(6) by simp
  qed
  ultimately show ?thesis using D assms(1)
    by (cases "x \<in> set xs") (auto simp: u_timer_stop_def stop_remove_ok [OF assms] remove1_idem)
qed

lemma timers_inv_delete:
  assumes "timers_wf ord s xs" "tm_objs s x \<noteq> None"
  shows "\<exists>s'. u_timer_delete x s = Inr (OSR_OK, s') \<and> timers_wf ord s' (remove1 x xs) \<and>
    tm_objs s' x = None \<and> (\<forall>y. y \<noteq> x \<longrightarrow> tm_objs s' y = tm_objs s y) \<and> args_mem s' = args_mem (disarm x s)"
proof -
  note D = disarm_ok [OF assms]
  let ?s = "(disarm x s)\<lparr>tm_objs := (tm_objs (disarm x s))(x := None)\<rparr>"
  have "timers_wf ord ?s (remove1 x xs)"
  proof (rule timers_inv_cong [OF D(1)])
    show "args_mem ?s (tm_args (tm (disarm x s) y)) \<noteq> None"
      if "y \<in> set (remove1 x xs)" "tm_args (tm (disarm x s) y) \<noteq> NULL" for y
      using that D(1) by (auto simp: timers_wf_def)
  qed (use D(2) timers_wfD(4) [OF D(1)] in auto)
  then show ?thesis using assms D by (auto simp: u_timer_delete_def disarm_def Let_def)
qed

text \<open>Starting.\<close>

definition delay_time :: "u32 \<Rightarrow> timespec" where
  "delay_time ms = (int (unat (ms div 1000)), int (unat (ms mod 1000 * 1000000)))"

lemma delay_time_ns: "normal (delay_time ms) \<and> ns (delay_time ms) = int (unat ms) * 1000000 \<and> 0 \<le> fst (delay_time ms)"
proof -
  have s: "snd (0 :: nat, 0 :: nat) < 1000000000" by simp
  have d: "timeout_at (0, 0) ms = (unat (ms div 1000), unat (ms mod 1000 * 1000000))"
    and l: "unat (ms mod 1000 * 1000000) < 1000000000"
  proof -
    have m: "unat (ms mod 1000) = unat ms mod 1000" by (simp add: unat_mod)
    have "unat (ms mod 1000 * 1000000) = unat ms mod 1000 * 1000000" by (simp add: unat_word_ariths m)
    then show "unat (ms mod 1000 * 1000000) < 1000000000" by simp
    then show "timeout_at (0, 0) ms = (unat (ms div 1000), unat (ms mod 1000 * 1000000))" by (simp add: timeout_at_def Let_def)
  qed
  have "unat (ms div 1000) * 1000000000 + unat (ms mod 1000 * 1000000) = unat ms * 1000000"
    using timeout_at_nsecs [OF s, of ms] unfolding d by (simp add: nsecs_def)
  then have "int (unat (ms div 1000) * 1000000000 + unat (ms mod 1000 * 1000000)) = int (unat ms * 1000000)"
    by (rule arg_cong)
  moreover have "int (unat (ms mod 1000 * 1000000)) < int 1000000000" using l by (simp only: of_nat_less_iff)
  ultimately show ?thesis by (simp add: delay_time_def normal_def ns_def)
qed

lemma timers_inv_start:
  assumes inv: "timers_wf ord s xs" and x: "tm_objs s x \<noteq> None" and now: "normal now"
    and ok: "cb \<noteq> NULL" "ms \<noteq> 0" "flags = X_TIMER_FLAG_ONCE \<or> flags = X_TIMER_FLAG_REPEAT"
    and args: "args \<noteq> NULL \<Longrightarrow> args_mem s args \<noteq> None" "args \<noteq> NULL \<Longrightarrow> \<forall>y\<in>set xs. tm_args (tm s y) \<noteq> args"
  shows "\<exists>s' t. timer_start now x ms flags cb args s = Inr (OSR_OK, s') \<and>
    t = \<lparr>tm_abstime = add_time now (delay_time ms), tm_interval = (if flags = X_TIMER_FLAG_ONCE then (0, 0) else delay_time ms),
         tm_callback = cb, tm_args = args\<rparr> \<and>
    timers_wf ord s' (arm_list (disarm x s) x t (remove1 x xs)) \<and> tm_objs s' x = Some t \<and>
    (\<forall>y. y \<noteq> x \<longrightarrow> tm_objs s' y = tm_objs s y) \<and> args_mem s' = args_mem (disarm x s)"
proof -
  note D = disarm_ok [OF inv x] and T = delay_time_ns [of ms]
  let ?t = "\<lparr>tm_abstime = add_time now (delay_time ms), tm_interval = (if flags = X_TIMER_FLAG_ONCE then (0, 0) else delay_time ms),
    tm_callback = cb, tm_args = args\<rparr>"
  have xn: "x \<noteq> NULL" using timers_wfD(4) [OF inv] x by (cases "x = NULL") auto
  have g: "good_timer ?t" using add_time_ns [OF now] T by (auto simp: good_timer_def normal_def)
  have a: "args_mem (disarm x s) args \<noteq> None" if "args \<noteq> NULL"
    using args(1) [OF that] args(2) [OF that] by (auto simp: D(7))
  have b: "tm_args (tm (disarm x s) y) \<noteq> args" if "y \<in> set (remove1 x xs)" "args \<noteq> NULL" for y
    using that args(2) D(2) D(4) [of y] timers_wfD(3) [OF inv] by (cases "y = x") auto
  obtain s' where s': "timer_list_add x (set_tm x ?t (disarm x s)) = Some s'"
    "timers_wf ord s' (arm_list (disarm x s) x ?t (remove1 x xs))" "tm_objs s' = (tm_objs (disarm x s))(x \<mapsto> ?t)"
    "args_mem s' = args_mem (disarm x s)"
    using arm_ok [OF D(1) xn D(2) g] a b by auto
  have "(tm (disarm x s) x)\<lparr>tm_abstime := add_time now (delay_time ms),
      tm_interval := (if flags = X_TIMER_FLAG_ONCE then (0, 0) else delay_time ms), tm_callback := cb, tm_args := args\<rparr> = ?t"
    by simp
  note e = this
  have "timer_start now x ms flags cb args s = (case timer_list_add x (set_tm x ?t (disarm x s)) of None \<Rightarrow> Inl Hang | Some s \<Rightarrow> Inr (OSR_OK, s))"
    using ok x unfolding timer_start_def Let_def delay_time_def [symmetric] disarm_def [symmetric] e by auto
  then have "timer_start now x ms flags cb args s = Inr (OSR_OK, s')" unfolding s'(1) by simp
  then show ?thesis using s' D(3) by auto
qed

section \<open>One turn of the daemon\<close>

text \<open>What the timer at the head becomes: its arguments are freed, or its deadline advances.\<close>

definition expired :: "timer \<Rightarrow> timer" where
  "expired t = (if one_shot t then t\<lparr>tm_args := NULL\<rparr> else t\<lparr>tm_abstime := add_time (tm_abstime t) (tm_interval t)\<rparr>)"

definition expire_list :: "timers \<Rightarrow> ptr \<Rightarrow> ptr list \<Rightarrow> ptr list" where
  "expire_list s x ys = (if one_shot (tm s x) then ys else arm_list s x (expired (tm s x)) ys)"

lemma expire_head_ok:
  assumes inv: "timers_wf ord s (x # ys)"
  shows "\<exists>s'. expire_head s = Some (x, copy_args x s, s') \<and> timers_wf ord s' (expire_list s x ys) \<and>
    tm s' x = expired (tm s x) \<and> tm_objs s' x \<noteq> None \<and> (\<forall>y. y \<noteq> x \<longrightarrow> tm_objs s' y = tm_objs s y) \<and>
    args_mem s' = (if one_shot (tm s x) \<and> tm_args (tm s x) \<noteq> NULL then (args_mem s)(tm_args (tm s x) := None) else args_mem s)"
proof -
  have x: "x \<in> set (x # ys)" by simp
  note I = timers_wfD [OF inv] and R = timer_list_remove_ok [OF inv x]
  let ?s = "timer_list_remove x s"
  have h: "r_head (s_timer_list s) = x" using ring_rel_head [OF I(1)] by simp
  have inv': "timers_wf ord ?s ys" using R(1) by simp
  show ?thesis
  proof (cases "one_shot (tm s x)")
    case True
    then have "one_shot (tm ?s x)" by (simp add: R(4)) (simp add: one_shot_def)
    then show ?thesis using True inv' R(2,4,5,6) h
      by (auto simp: expire_head_def Let_def expire_list_def expired_def)
  next
    case False
    let ?t = "expired (tm s x)"
    have t: "?t = (tm s x)\<lparr>tm_abstime := add_time (tm_abstime (tm s x)) (tm_interval (tm s x))\<rparr>"
      using False by (simp add: expired_def)
    have g: "good_timer ?t" if "ord" using I(5) [OF that x] add_time_ns by (auto simp: t good_timer_def)
    have am: "args_mem ?s = args_mem s" using R(5) False by simp
    have "x \<noteq> NULL" "x \<notin> set ys" using I(7,3) by auto
    moreover have "tm_args ?t \<noteq> NULL \<Longrightarrow> args_mem ?s (tm_args ?t) \<noteq> None"
      using inv by (simp add: t am timers_wf_def)
    moreover have "tm_args (tm ?s y) \<noteq> tm_args ?t" if "y \<in> set ys" "tm_args ?t \<noteq> NULL" for y
    proof -
      have "y \<noteq> x" using that(1) I(3) by auto
      then show ?thesis using that inv R(3) [of y] unfolding timers_wf_def t by auto
    qed
    ultimately obtain s' where s': "timer_list_add x (set_tm x ?t ?s) = Some s'" "timers_wf ord s' (arm_list ?s x ?t ys)"
      "tm_objs s' = (tm_objs ?s)(x \<mapsto> ?t)" "args_mem s' = args_mem ?s"
      using arm_ok [OF inv' _ _ g] by blast
    have "arm_list ?s x ?t ys = arm_list s x ?t ys"
    proof -
      have "tm ?s y = tm s y" if "y \<in> set ys" for y using that I(3) R(3) [of y] by auto
      then show ?thesis unfolding arm_list_def ins_later_def
        by (intro arg_cong2 [of _ _ _ _ "(@)"] arg_cong [of _ _ "(#) x"] takeWhile_cong dropWhile_cong) simp_all
    qed
    moreover have "tm ?s x = tm s x" using False R(4) by simp
    ultimately have "expire_head s = Some (x, copy_args x s, s')" "timers_wf ord s' (expire_list s x ys)"
      using s'(1,2) False unfolding expire_head_def Let_def h expire_list_def t by simp_all
    moreover have "tm s' x = ?t" by (simp add: tm_def s'(3))
    ultimately show ?thesis using s'(3,4) False R(2) am by simp
  qed
qed

text \<open>How far the timers of a list lie behind \<open>now\<close>, in all; a turn of the loop lowers it.\<close>

definition backlog :: "timespec \<Rightarrow> timers \<Rightarrow> ptr list \<Rightarrow> nat" where
  "backlog now s xs = (\<Sum>x\<in>set xs. nat (ns now - deadline s x))"

lemma head_due_iff:
  assumes "timers_inv s xs" "normal now"
  shows "head_due now s \<longleftrightarrow> xs \<noteq> [] \<and> deadline s (hd xs) < ns now"
proof (cases xs)
  case Nil
  then show ?thesis using timers_invD(1) [OF assms(1)] by (simp add: head_due_def)
next
  case (Cons x ys)
  then have "r_head (s_timer_list s) = x" "x \<noteq> NULL" "normal (tm_abstime (tm s x))"
    using timers_invD(1,5,7) [OF assms(1)] ring_rel_head [of "s_timer_list s" xs] by (auto simp: good_timer_def)
  then show ?thesis using Cons assms(2) by (simp add: head_due_def deadline_def time_before_ns)
qed

lemma backlog_remove:
  assumes "distinct xs" "\<forall>y. y \<noteq> x \<longrightarrow> tm_objs s' y = tm_objs s y"
  shows "backlog now s' (remove1 x xs) \<le> backlog now s xs"
proof -
  have "set (remove1 x xs) = set xs - {x}" using assms(1) by simp
  then have "backlog now s' (remove1 x xs) = (\<Sum>y\<in>set xs - {x}. nat (ns now - deadline s y))"
    using assms(2) unfolding backlog_def by (intro sum.cong) (auto simp: deadline_def tm_def)
  also have "\<dots> \<le> backlog now s xs" unfolding backlog_def by (intro sum_mono2) auto
  finally show ?thesis .
qed

lemma interval_pos: "good_timer t \<Longrightarrow> \<not> one_shot t \<Longrightarrow> 0 < ns (tm_interval t)"
  by (auto simp: good_timer_def one_shot_def normal_def ns_def)

lemma backlog_step:
  assumes inv: "timers_inv s (x # ys)" and due: "deadline s x < ns now"
    and s': "tm s' x = expired (tm s x)" "\<forall>y. y \<noteq> x \<longrightarrow> tm_objs s' y = tm_objs s y"
  shows "backlog now s' (expire_list s x ys) < backlog now s (x # ys)"
proof -
  note I = timers_invD [OF inv]
  have x: "x \<notin> set ys" using I(3) by simp
  have d: "deadline s' y = deadline s y" if "y \<in> set ys" for y
    using that s'(2) x by (cases "y = x") (simp_all add: deadline_def tm_def)
  have "backlog now s (x # ys) = nat (ns now - deadline s x) + backlog now s ys" using x by (simp add: backlog_def)
  moreover have "0 < nat (ns now - deadline s x)" using due by simp
  moreover have "backlog now s' ys = backlog now s ys" using d by (simp add: backlog_def)
  moreover have "nat (ns now - deadline s' x) < nat (ns now - deadline s x)" if "\<not> one_shot (tm s x)"
  proof -
    have g: "good_timer (tm s x)" using I(5) by simp
    then have "deadline s' x = deadline s x + ns (tm_interval (tm s x))"
      using that add_time_ns [of "tm_abstime (tm s x)" "tm_interval (tm s x)"]
      by (simp add: deadline_def s'(1) expired_def good_timer_def)
    then show ?thesis using interval_pos [OF g that] due by simp
  qed
  moreover have "backlog now s' (arm_list s x t ys) = nat (ns now - deadline s' x) + backlog now s' ys" for t
    using x by (simp add: backlog_def)
  ultimately show ?thesis by (auto simp: expire_list_def)
qed

end
