(* ===== verification/TimerProps.thy ===== *)
theory TimerProps
  imports TimerInv
begin

text \<open>The timer daemon as a transition system of calls and turns, and the properties of timerd/_timer.c.\<close>

section \<open>Starting a timer with a message\<close>

definition ta_of :: "u32 \<Rightarrow> u8 list option \<Rightarrow> timer_args" where
  "ta_of h_app p_msg = \<lparr>ta_app = h_app, ta_msg = p_msg\<rparr>"

lemma timers_inv_alloc:
  assumes "timers_wf ord s xs" "args_mem s mem = None"
  shows "timers_wf ord (s\<lparr>args_mem := (args_mem s)(mem \<mapsto> a)\<rparr>) xs"
  using assms(1)
proof (rule timers_inv_cong)
  show "args_mem (s\<lparr>args_mem := (args_mem s)(mem \<mapsto> a)\<rparr>) (tm_args (tm s x)) \<noteq> None"
    if "x \<in> set xs" "tm_args (tm s x) \<noteq> NULL" for x
    using that assms(1) by (auto simp: timers_wf_def)
qed (use timers_wfD(4) [OF assms(1)] in simp_all)

definition started :: "fptr \<Rightarrow> timespec \<Rightarrow> ptr \<Rightarrow> u32 \<Rightarrow> int \<Rightarrow> timer" where
  "started cb now mem ms flags = \<lparr>tm_abstime = add_time now (delay_time ms),
     tm_interval = (if flags = X_TIMER_FLAG_ONCE then (0, 0) else delay_time ms), tm_callback = cb, tm_args = mem\<rparr>"

lemma u_timer_start_ok:
  assumes inv: "timers_wf ord s xs" and x: "tm_objs s x \<noteq> None" and now: "normal now" and mem: "mem \<noteq> NULL" "args_mem s mem = None"
    and ok: "cb \<noteq> NULL" "ms \<noteq> 0" "flags = X_TIMER_FLAG_ONCE \<or> flags = X_TIMER_FLAG_REPEAT"
  shows "\<exists>s'. u_timer_start cb now mem True h_app x ms flags p_msg s = Inr (OSR_OK, s') \<and>
    timers_wf ord s' (arm_list (disarm x s) x (started cb now mem ms flags) (remove1 x xs)) \<and>
    tm_objs s' x = Some (started cb now mem ms flags) \<and> (\<forall>y. y \<noteq> x \<longrightarrow> tm_objs s' y = tm_objs s y) \<and>
    args_mem s' = (args_mem (disarm x s))(mem \<mapsto> ta_of h_app p_msg)"
proof -
  let ?s = "s\<lparr>args_mem := (args_mem s)(mem \<mapsto> ta_of h_app p_msg)\<rparr>"
  have inv': "timers_wf ord ?s xs" by (rule timers_inv_alloc [OF inv mem(2)])
  have own: "tm_args (tm ?s y) \<noteq> mem" if "y \<in> set xs" for y using that inv mem by (auto simp: timers_wf_def)
  have x': "tm_objs ?s x \<noteq> None" using x by simp
  obtain s' where s': "timer_start now x ms flags cb mem ?s = Inr (OSR_OK, s')"
    "timers_wf ord s' (arm_list (disarm x ?s) x (started cb now mem ms flags) (remove1 x xs))"
    "tm_objs s' x = Some (started cb now mem ms flags)" "\<forall>y. y \<noteq> x \<longrightarrow> tm_objs s' y = tm_objs ?s y"
    "args_mem s' = args_mem (disarm x ?s)"
    using timers_inv_start [OF inv' x' now ok, of mem] own by (auto simp: started_def)
  have am: "args_mem (disarm x ?s) = (args_mem (disarm x s))(mem \<mapsto> ta_of h_app p_msg)"
    using disarm_ok(7) [OF inv x] disarm_ok(7) [OF inv' x'] own [of x] by auto
  have "arm_list (disarm x ?s) x t (remove1 x xs) = arm_list (disarm x s) x t (remove1 x xs)" for t
  proof -
    have "tm (disarm x ?s) y = tm (disarm x s) y" if "y \<in> set (remove1 x xs)" for y
      using that disarm_ok(2,4) [OF inv x] disarm_ok(4) [OF inv' x', of y] by (cases "y = x") auto
    then show ?thesis unfolding arm_list_def ins_later_def
      by (intro arg_cong2 [of _ _ _ _ "(@)"] arg_cong [of _ _ "(#) x"] takeWhile_cong dropWhile_cong) simp_all
  qed
  moreover have "u_timer_start cb now mem True h_app x ms flags p_msg s = timer_start now x ms flags cb mem ?s"
    using mem(1) by (cases p_msg) (simp_all add: u_timer_start_def ta_of_def)
  ultimately show ?thesis using s' am by (intro exI [of _ s']) simp
qed

section \<open>The daemon and its clients\<close>

text \<open>The calls that change the timers only under the mutex, or only a timer that nobody else has yet or any more.
  \<open>malloc\<close> and \<open>calloc\<close> return fresh memory; the clock is normalised and not before \<open>lo\<close>.\<close>

inductive timer_call :: "timespec \<Rightarrow> timers \<Rightarrow> timers \<Rightarrow> bool" for lo where
  c_create: "mem \<noteq> NULL \<Longrightarrow> tm_objs s mem = None \<Longrightarrow> u_timer_create mem ph s = (r, h, s') \<Longrightarrow> timer_call lo s s'"
| c_start: "tm_objs s x \<noteq> None \<Longrightarrow> normal now \<Longrightarrow> ns lo \<le> ns now \<Longrightarrow> mem \<noteq> NULL \<Longrightarrow> args_mem s mem = None \<Longrightarrow> cb \<noteq> NULL \<Longrightarrow>
    u_timer_start cb now mem mok h_app x ms flags p_msg s = Inr (r, s') \<Longrightarrow> timer_call lo s s'"
| c_delete: "u_timer_delete x s = Inr (r, s') \<Longrightarrow> timer_call lo s s'"

text \<open>The daemon and its clients: the timers, the stops that have removed their timer and are at the write \<open>k\<close>, and
  whether a stop has written to a timer that was armed again.\<close>

record timer_world =
  tw_timers :: timers
  tw_stops :: "(ptr \<times> timespec \<times> nat) list"
  tw_late :: bool

definition world0 :: "int \<Rightarrow> timer_world" where
  "world0 res = \<lparr>tw_timers = os_timer_init res, tw_stops = [], tw_late = False\<rparr>"

text \<open>Calls by any threads and turns of the daemon, in any order; the writes of a stop come one by one, whatever
  happens in between.  A write to a timer that has been freed is a fault and ends the run.\<close>

inductive timer_step :: "timer_world \<Rightarrow> timer_world \<Rightarrow> bool" where
  t_call: "timer_call lo (tw_timers w) s' \<Longrightarrow> timer_step w (w\<lparr>tw_timers := s'\<rparr>)"
| t_stop: "stop_remove x (tw_timers w) = Inr (found, s') \<Longrightarrow> normal now \<Longrightarrow>
    timer_step w (w\<lparr>tw_timers := s', tw_stops := (if found then (x, now, 0) # tw_stops w else tw_stops w)\<rparr>)"
| t_write: "(x, now, k) \<in> set (tw_stops w) \<Longrightarrow> stop_write k now x (tw_timers w) = Inr s' \<Longrightarrow>
    timer_step w \<lparr>tw_timers = s',
      tw_stops = (if k < 2 then (x, now, Suc k) # remove1 (x, now, k) (tw_stops w) else remove1 (x, now, k) (tw_stops w)),
      tw_late = (tw_late w \<or> armed (tw_timers w) x)\<rparr>"
| t_turn: "normal now \<Longrightarrow> head_due now (tw_timers w) \<Longrightarrow> expire_head (tw_timers w) = Some (x, pargs, s') \<Longrightarrow>
    timer_step w (w\<lparr>tw_timers := s'\<rparr>)"

text \<open>Every armed timer has its block of arguments, as \<open>u_timer_start\<close> arms it.\<close>

definition fed :: "timers \<Rightarrow> ptr list \<Rightarrow> bool" where
  "fed s xs \<longleftrightarrow> (\<forall>x\<in>set xs. tm_args (tm s x) \<noteq> NULL)"

lemma fed_remove: "fed s xs \<Longrightarrow> \<forall>y. y \<noteq> x \<longrightarrow> tm_objs s' y = tm_objs s y \<Longrightarrow> distinct xs \<Longrightarrow> fed s' (remove1 x xs)"
  by (auto simp: fed_def tm_def)


text \<open>No call delays the loop: the timers that are behind \<open>lo\<close> are no more and no further behind.\<close>

lemma timer_call_wf:
  assumes "timer_call lo s s'" "timers_wf ord s xs"
  shows "\<exists>ys. timers_wf ord s' ys \<and> backlog lo s' ys \<le> backlog lo s xs \<and> (fed s xs \<longrightarrow> fed s' ys)"
  using assms
proof (induction rule: timer_call.induct)
  case (c_create mem s ph r h s')
  show ?case
  proof (cases ph)
    case True
    then have s': "s' = snd (snd (u_timer_create mem True s))" using c_create(3) by simp
    have m: "mem \<notin> set xs" using timers_wfD(6) [OF c_create(4)] c_create(2) by blast
    have "tm s' y = tm s y" if "y \<in> set xs" for y
      using that m c_create(1) by (auto simp: s' u_timer_create_def)
    then have "backlog lo s' xs = backlog lo s xs" "fed s' xs = fed s xs" by (simp_all add: backlog_def deadline_def fed_def)
    then show ?thesis using timers_inv_create [OF c_create(4,1,2)] s' by (intro exI [of _ xs]) simp
  next
    case False
    then have "s' = s" using c_create(3) by (simp add: u_timer_create_def)
    then show ?thesis using c_create(4) by blast
  qed
next
  case (c_start s x now mem cb mok h_app ms flags p_msg r s')
  note inv = c_start(8)
  note alloc = timers_inv_alloc [OF inv c_start(5)]
  show ?case
  proof (cases "(mok \<or> p_msg = None) \<and> ms \<noteq> 0 \<and> (flags = X_TIMER_FLAG_ONCE \<or> flags = X_TIMER_FLAG_REPEAT)")
    case True
    have "u_timer_start cb now mem mok h_app x ms flags p_msg s = u_timer_start cb now mem True h_app x ms flags p_msg s"
      using True by (auto simp: u_timer_start_def split: option.split)
    then obtain s2 where s2: "s2 = s'" "timers_wf ord s' (arm_list (disarm x s) x (started cb now mem ms flags) (remove1 x xs))"
      "tm_objs s' x = Some (started cb now mem ms flags)" "\<forall>y. y \<noteq> x \<longrightarrow> tm_objs s' y = tm_objs s y"
      using u_timer_start_ok [OF inv c_start(1,2,4,5,6), of ms flags h_app p_msg] True c_start(7) by auto
    let ?ys = "remove1 x xs"
    have x: "x \<notin> set ?ys" "set ?ys \<subseteq> set xs" using timers_wfD(3) [OF inv] by auto
    have d: "deadline s' y = deadline s y" if "y \<in> set ?ys" for y
      using that s2(4) x(1) by (cases "y = x") (simp_all add: deadline_def tm_def)
    have "deadline s' x = ns now + int (unat ms) * 1000000"
      using add_time_ns [OF c_start(2)] delay_time_ns [of ms] by (simp add: deadline_def tm_def s2(3) started_def)
    then have "ns lo \<le> deadline s' x" using c_start(3) by linarith
    then have "backlog lo s' (arm_list (disarm x s) x t ?ys) = backlog lo s ?ys" for t
      using x(1) d by (simp add: backlog_def)
    moreover have "backlog lo s ?ys \<le> backlog lo s xs" unfolding backlog_def using x(2) by (intro sum_mono2) auto
    moreover have "fed s' (arm_list (disarm x s) x t ?ys)" if "fed s xs" for t
    proof -
      have "fed s' ?ys" by (rule fed_remove [OF that s2(4) timers_wfD(3) [OF inv]])
      then show ?thesis using s2(3) c_start(4) by (auto simp: fed_def tm_def started_def)
    qed
    ultimately show ?thesis using s2(2) by (metis (no_types, lifting))
  next
    case False
    then obtain a where s': "s' = s\<lparr>args_mem := (args_mem s)(mem \<mapsto> a)\<rparr>"
      using c_start(4,6,7) by (auto simp: u_timer_start_def timer_start_def split: option.splits if_splits)
    have "backlog lo s' xs = backlog lo s xs" "fed s' xs = fed s xs" by (simp_all add: s' backlog_def deadline_def fed_def)
    then show ?thesis using alloc [of a] s' by auto
  qed
next
  case (c_delete x s r s')
  have x: "tm_objs s x \<noteq> None" using c_delete(1) by (auto simp: u_timer_delete_def split: if_splits)
  then have s': "timers_wf ord s' (remove1 x xs)" "\<forall>y. y \<noteq> x \<longrightarrow> tm_objs s' y = tm_objs s y"
    using timers_inv_delete [OF c_delete(2) x] c_delete(1) by auto
  have "backlog lo s' (remove1 x xs) \<le> backlog lo s xs"
    using timers_wfD(3) [OF c_delete(2)] s'(2) by (rule backlog_remove)
  moreover have "fed s' (remove1 x xs)" if "fed s xs" by (rule fed_remove [OF that s'(2) timers_wfD(3) [OF c_delete(2)]])
  ultimately show ?case using s'(1) by blast
qed

lemma timer_step_wf: "timer_step w w' \<Longrightarrow> \<exists>xs. timers_wf (\<not> tw_late w) (tw_timers w) xs \<Longrightarrow>
  \<exists>ys. timers_wf (\<not> tw_late w') (tw_timers w') ys"
proof (induction rule: timer_step.induct)
  case (t_call lo w s')
  then show ?case using timer_call_wf by fastforce
next
  case (t_stop x w found s' now)
  then obtain xs where inv: "timers_wf (\<not> tw_late w) (tw_timers w) xs" by blast
  have x: "tm_objs (tw_timers w) x \<noteq> None" using t_stop(1) by (auto simp: stop_remove_def split: if_splits)
  then have "s' = disarm x (tw_timers w)" using stop_remove_ok [OF inv x] t_stop(1) by simp
  then show ?case using disarm_ok(1) [OF inv x] by auto
next
  case (t_write x now k w s')
  then obtain xs where inv: "timers_wf (\<not> tw_late w) (tw_timers w) xs" by blast
  have "(\<not> tw_late w \<and> x \<notin> set xs) = (\<not> (tw_late w \<or> armed (tw_timers w) x))" using timers_wfD(2) [OF inv] by simp
  then show ?case using stop_write_ok(1) [OF inv t_write(2)] by (intro exI [of _ xs]) (simp only: timer_world.select_convs)
next
  case (t_turn now w x pargs s')
  then obtain xs where inv: "timers_wf (\<not> tw_late w) (tw_timers w) xs" by blast
  then have "xs \<noteq> []" using t_turn(2) timers_wfD(1) [OF inv] by (auto simp: head_due_def)
  then obtain y ys where "xs = y # ys" by (cases xs) auto
  then show ?case using expire_head_ok inv t_turn(3) by fastforce
qed

lemma timers_reachable_wf: "timer_step\<^sup>*\<^sup>* (world0 res) w \<Longrightarrow> \<exists>xs. timers_wf (\<not> tw_late w) (tw_timers w) xs"
proof (induction rule: rtranclp_induct)
  case base
  then show ?case using timers_inv_init by (auto simp: world0_def)
qed (rule timer_step_wf)

section \<open>A daemon with two timers\<close>

text \<open>Timer 16 fires once, timer 24 every second.\<close>

definition tdemo :: timers where
  "tdemo = \<lparr>s_timer_list = ring_add 24 (ring_add 16 ring0),
     tm_objs = [16 \<mapsto> \<lparr>tm_abstime = (5, 0), tm_interval = (0, 0), tm_callback = 7, tm_args = 64\<rparr>,
                24 \<mapsto> \<lparr>tm_abstime = (5, 500), tm_interval = (1, 0), tm_callback = 7, tm_args = 72\<rparr>],
     args_mem = [64 \<mapsto> ta_of 9 (Some [1, 2]), 72 \<mapsto> ta_of 9 None], s_timer_res = 1\<rparr>"

lemma tdemo_inv: "timers_inv tdemo [16, 24]"
proof -
  have "ring_rel (ring_add 24 (ring_add 16 ring0)) [16, 24]"
    using ring_rel_add [OF ring_rel_add [of ring0 "[]" 16], of 24] by (simp add: ring0_def)
  moreover have "armed tdemo x \<longleftrightarrow> x \<in> {16, 24}" for x
    by (auto simp: armed_def tdemo_def ring_add_def ring0_def Let_def)
  ultimately show ?thesis
    by (auto simp: timers_inv_def tdemo_def deadline_def tm_def ns_def good_timer_def normal_def)
qed

section \<open>Properties\<close>

text \<open>C5 In every state that calls and turns of the daemon can reach, with the writes of a stop at any later time, the
  list is well formed, holds exactly the armed timers, and the message of an armed timer is allocated and its
  own; and the list is in the order of the deadlines, unless a stop has written to a timer that was armed again
  after the stop had removed it.\<close>

theorem timers_invariant:
  assumes "timer_step\<^sup>*\<^sup>* (world0 res) w"
  shows "\<exists>s xs. s = tw_timers w \<and> ring_rel (s_timer_list s) xs \<and> (\<forall>x. armed s x \<longleftrightarrow> x \<in> set xs) \<and>
    (tw_late w \<or> sorted_wrt (\<lambda>x y. deadline s x \<le> deadline s y) xs) \<and>
    inj_on (\<lambda>x. tm_args (tm s x)) {x \<in> set xs. tm_args (tm s x) \<noteq> NULL} \<and>
    (\<forall>x\<in>set xs. tm_objs s x \<noteq> None \<and> (tm_args (tm s x) = NULL \<or> args_mem s (tm_args (tm s x)) \<noteq> None))"
proof -
  obtain xs where inv: "timers_wf (\<not> tw_late w) (tw_timers w) xs" using timers_reachable_wf [OF assms] by blast
  then have "inj_on (\<lambda>x. tm_args (tm (tw_timers w) x)) {x \<in> set xs. tm_args (tm (tw_timers w) x) \<noteq> NULL}"
    unfolding timers_wf_def by (intro inj_onI) blast
  then show ?thesis using inv unfolding timers_wf_def by (intro exI [of _ "tw_timers w"] exI [of _ xs]) blast
qed

theorem timers_invariant_witness:
  "\<exists>w xs. timer_step\<^sup>*\<^sup>* (world0 1000000) w \<and> tm_objs (tw_timers w) 16 = Some new_timer \<and> ring_rel (s_timer_list (tw_timers w)) xs"
proof -
  let ?s = "snd (snd (u_timer_create 16 True (os_timer_init 1000000)))"
  let ?w = "(world0 1000000)\<lparr>tw_timers := ?s\<rparr>"
  have "timer_call (0, 0) (tw_timers (world0 1000000)) ?s"
    by (rule c_create [of 16 _ True]) (simp_all add: u_timer_create_def os_timer_init_def world0_def)
  then have r: "timer_step\<^sup>*\<^sup>* (world0 1000000) ?w" using t_call by blast
  moreover have "tm_objs ?s 16 = Some new_timer" by (simp add: u_timer_create_def)
  ultimately show ?thesis using timers_invariant [OF r] by (intro exI [of _ ?w]) auto
qed




text \<open>Starting a timer, armed or not, puts its deadline exactly \<open>ui4_delay\<close> milliseconds after now, with its
  message in its own memory, and changes no other timer.\<close>

theorem timer_start_arms:
  assumes "timers_inv s xs" "tm_objs s x \<noteq> None" "normal now" "mem \<noteq> NULL" "args_mem s mem = None"
    and "cb \<noteq> NULL" "ms \<noteq> 0" "flags = X_TIMER_FLAG_ONCE \<or> flags = X_TIMER_FLAG_REPEAT"
  shows "\<exists>s' ys. u_timer_start cb now mem True h_app x ms flags p_msg s = Inr (OSR_OK, s') \<and> timers_inv s' ys \<and>
    set ys = insert x (set xs) \<and> deadline s' x = ns now + int (unat ms) * 1000000 \<and>
    one_shot (tm s' x) = (flags = X_TIMER_FLAG_ONCE) \<and> args_mem s' (tm_args (tm s' x)) = Some (ta_of h_app p_msg) \<and>
    (\<forall>y. y \<noteq> x \<longrightarrow> tm_objs s' y = tm_objs s y)"
proof -
  obtain s' where s': "u_timer_start cb now mem True h_app x ms flags p_msg s = Inr (OSR_OK, s')"
    "timers_inv s' (arm_list (disarm x s) x (started cb now mem ms flags) (remove1 x xs))"
    "tm_objs s' x = Some (started cb now mem ms flags)" "\<forall>y. y \<noteq> x \<longrightarrow> tm_objs s' y = tm_objs s y"
    "args_mem s' = (args_mem (disarm x s))(mem \<mapsto> ta_of h_app p_msg)"
    using u_timer_start_ok [OF assms, of h_app p_msg] by blast
  have t: "tm s' x = started cb now mem ms flags" using s'(3) by (simp add: tm_def)
  note D = delay_time_ns [of ms]
  have "0 < unat ms" using assms(7) by (simp add: unat_gt_0)
  then have "0 < ns (delay_time ms)" using D by (metis int_ops(1) mult_pos_pos of_nat_0_less_iff zero_less_numeral)
  then have "delay_time ms \<noteq> (0, 0)" by (auto simp: ns_def)
  then have "one_shot (tm s' x) = (flags = X_TIMER_FLAG_ONCE)" by (auto simp: t one_shot_def started_def prod_eq_iff)
  moreover have "set (arm_list (disarm x s) x (started cb now mem ms flags) (remove1 x xs)) = insert x (set xs)"
    using timers_invD(3) [OF assms(1)] by auto
  moreover have "deadline s' x = ns now + int (unat ms) * 1000000"
    using add_time_ns [OF assms(3)] D by (simp add: deadline_def t started_def)
  moreover have "args_mem s' (tm_args (tm s' x)) = Some (ta_of h_app p_msg)" by (simp add: t started_def s'(5))
  ultimately show ?thesis using s' by blast
qed

theorem timer_start_arms_witness:
  "\<exists>s'. u_timer_start 7 (3, 999999999) 80 True 9 16 1500 X_TIMER_FLAG_ONCE (Some [5]) tdemo = Inr (OSR_OK, s') \<and>
    deadline s' 16 = 5499999999"
  using timer_start_arms [OF tdemo_inv, of 16 "(3, 999999999)" 80 7 1500 X_TIMER_FLAG_ONCE 9 "Some [5]"]
  by (auto simp: tdemo_def normal_def ns_def)













text \<open>Stopping an armed timer disarms it and leaves in it the time that was left until its deadline, as a
  normalised time; other timers stay as they were.\<close>

theorem timer_stop_remaining:
  assumes "timers_inv s xs" "x \<in> set xs" "normal now"
  shows "\<exists>s'. u_timer_stop id now x s = Inr (OSR_OK, s') \<and> timers_inv s' (remove1 x xs) \<and> \<not> armed s' x \<and>
    ns (tm_abstime (tm s' x)) = deadline s x - ns now \<and> normal (tm_abstime (tm s' x)) \<and> (\<forall>y. y \<noteq> x \<longrightarrow> tm_objs s' y = tm_objs s y)"
proof -
  have "tm_objs s x \<noteq> None" using timers_invD(6) [OF assms(1,2)] .
  then obtain s' where s': "u_timer_stop id now x s = Inr (OSR_OK, s')" "timers_inv s' (remove1 x xs)"
    "\<forall>y. y \<noteq> x \<longrightarrow> tm_objs s' y = tm_objs s y" "tm_abstime (tm s' x) = sub_time (tm_abstime (tm s x)) now"
    using timers_inv_stop [OF assms(1)] assms(2) by blast
  have "normal (tm_abstime (tm s x))" using timers_invD(5) [OF assms(1,2)] by (simp add: good_timer_def)
  then have "ns (tm_abstime (tm s' x)) = deadline s x - ns now" "normal (tm_abstime (tm s' x))"
    using sub_time_ns assms(3) by (simp_all add: s'(4) deadline_def)
  moreover have "\<not> armed s' x" using timers_invD(2) [OF s'(2)] timers_invD(3) [OF assms(1)] by simp
  ultimately show ?thesis using s' by blast
qed

theorem timer_stop_remaining_witness: "\<exists>s'. u_timer_stop id (4, 1) 24 tdemo = Inr (OSR_OK, s') \<and> ns (tm_abstime (tm s' 24)) = 1000000499"
  using timer_stop_remaining [OF tdemo_inv, of 24 "(4, 1)"] by (auto simp: normal_def deadline_def tdemo_def tm_def ns_def)

text \<open>The callback of a timer that fires once gets the application and the message the timer was started with,
  also when the timer has been started anew in between, and the stored message is freed; but when the timer is
  deleted between the turn and the callback, the daemon reads freed memory.\<close>

theorem timer_once_delivers:
  assumes "timers_inv s (x # ys)" "one_shot (tm s x)" "tm_callback (tm s x) \<noteq> NULL" "tm_args (tm s x) = a" "a \<noteq> NULL"
  shows "\<exists>m s'. args_mem s a = Some m \<and> expire_head s = Some (x, Some m, s') \<and> args_mem s' a = None \<and>
    call_back x (Some m) s' = Inr (Some (tm_callback (tm s x), Some m)) \<and>
    (\<exists>s''. u_timer_delete x s' = Inr (OSR_OK, s'') \<and> call_back x (Some m) s'' = Inl BadAccess)"
proof -
  have "args_mem s a \<noteq> None" using assms by (auto simp: timers_inv_def)
  then obtain m where m: "args_mem s a = Some m" by blast
  have c: "copy_args x s = Some m" using assms m by (simp add: copy_args_def Let_def)
  obtain s' where s': "expire_head s = Some (x, copy_args x s, s')" "timers_inv s' (expire_list s x ys)"
    "tm s' x = expired (tm s x)" "tm_objs s' x \<noteq> None" "args_mem s' = (args_mem s)(a := None)"
    using expire_head_ok [OF assms(1)] assms(2,4,5) by auto
  have "tm_objs s' x = Some (expired (tm s x))" using s'(3,4) by (auto simp: tm_def)
  then have "call_back x (Some m) s' = Inr (Some (tm_callback (tm s x), Some m))"
    using assms(2,3) by (simp add: call_back_def expired_def) (simp add: one_shot_def)
  moreover obtain s'' where "u_timer_delete x s' = Inr (OSR_OK, s'')" "tm_objs s'' x = None"
    using timers_inv_delete [OF s'(2,4)] by blast
  moreover have "call_back x (Some m) s'' = Inl BadAccess" using calculation(3) by (simp add: call_back_def)
  ultimately show ?thesis using m s'(1,5) c by auto
qed

theorem timer_once_delivers_witness:
  "\<exists>s'. expire_head tdemo = Some (16, Some (ta_of 9 (Some [1, 2])), s') \<and>
    call_back 16 (Some (ta_of 9 (Some [1, 2]))) s' = Inr (Some (7, Some (ta_of 9 (Some [1, 2]))))"
  using timer_once_delivers [OF tdemo_inv, of 64] by (auto simp: tdemo_def tm_def one_shot_def)

text \<open>Starting a periodic timer again, or deleting it, leaks its message: the memory stays allocated and no timer
  has it.\<close>

theorem timer_restart_leaks:
  assumes "timers_inv s xs" "x \<in> set xs" "\<not> one_shot (tm s x)" "tm_args (tm s x) = a" "a \<noteq> NULL"
    and "normal now" "mem \<noteq> NULL" "args_mem s mem = None" "cb \<noteq> NULL" "ms \<noteq> 0" "flags = X_TIMER_FLAG_ONCE \<or> flags = X_TIMER_FLAG_REPEAT"
  shows "\<exists>s' ys. u_timer_start cb now mem True h_app x ms flags p_msg s = Inr (OSR_OK, s') \<and> timers_inv s' ys \<and>
    args_mem s' a \<noteq> None \<and> (\<forall>y\<in>set ys. tm_args (tm s' y) \<noteq> a)"
proof -
  have x: "tm_objs s x \<noteq> None" using timers_invD(6) [OF assms(1,2)] .
  have am: "args_mem s a \<noteq> None" using assms by (auto simp: timers_inv_def)
  have d: "args_mem (disarm x s) = args_mem s" using disarm_ok(7) [OF assms(1) x] assms(3) by simp
  let ?ys = "arm_list (disarm x s) x (started cb now mem ms flags) (remove1 x xs)"
  obtain s' where s': "u_timer_start cb now mem True h_app x ms flags p_msg s = Inr (OSR_OK, s')" "timers_inv s' ?ys"
    "tm_objs s' x = Some (started cb now mem ms flags)" "\<forall>y. y \<noteq> x \<longrightarrow> tm_objs s' y = tm_objs s y"
    "args_mem s' = (args_mem s)(mem \<mapsto> ta_of h_app p_msg)"
    using u_timer_start_ok [OF assms(1) x assms(6-11), of h_app p_msg] d by auto
  have "tm_args (tm s' y) \<noteq> a" if "y \<in> set ?ys" for y
  proof (cases "y = x")
    case True
    then show ?thesis using s'(3) am assms(8) by (auto simp: tm_def started_def)
  next
    case False
    then have "y \<in> set xs" using that timers_invD(3) [OF assms(1)] by auto
    moreover have "tm s' y = tm s y" using s'(4) False by (simp add: tm_def)
    ultimately show ?thesis using assms(1,2,4,5) False unfolding timers_inv_def by metis
  qed
  then show ?thesis using s' am by (intro exI [of _ s'] exI [of _ ?ys]) auto
qed

theorem timer_restart_leaks_witness:
  "\<exists>s'. u_timer_start 7 (4, 0) 80 True 9 24 100 X_TIMER_FLAG_REPEAT None tdemo = Inr (OSR_OK, s') \<and> args_mem s' 72 \<noteq> None"
  using timer_restart_leaks [OF tdemo_inv, of 24 72 "(4, 0)" 80 7 100 X_TIMER_FLAG_REPEAT 9 None]
  by (auto simp: tdemo_def tm_def one_shot_def normal_def)

text \<open>The system tick: with a clock of resolution below half a millisecond, as every clock with
  nanosecond resolution has, the tick period is 0 and reading the tick divides by zero; from half a
  millisecond on it does not.\<close>

theorem sys_tick_divides_by_zero:
  assumes "0 \<le> res"
  shows "u_os_get_sys_tick now (os_timer_init res) = Inl DivZero \<longleftrightarrow> res < 500000"
proof -
  have "(res + 500000) div 1000000 = 0 \<longleftrightarrow> res < 500000" unfolding zdiv_eq_0_iff using assms by auto
  then show ?thesis by (simp add: u_os_get_sys_tick_def os_timer_init_def)
qed

theorem sys_tick_divides_by_zero_witness: "u_os_get_sys_tick (5, 0) (os_timer_init 1) = Inl DivZero"
  using sys_tick_divides_by_zero [of 1 "(5, 0)"] by simp

end
