(* ===== verification/Sema.thy ===== *)
theory Sema
  imports Prelude
begin

text \<open>The semaphores of the OS layer, mw/os_pthread/os_pthread_sema.c: recursive mutexes, binary and counting
  semaphores, each a value under a \<open>pthread\<close> mutex with a condition to wait for.  The calls are defined
  from the parts between which other threads may run: the assignments outside the \<open>pthread\<close> mutex and the
  section under it.  Two transition systems interleave these parts, one for threads that use a mutex, one
  for threads that use a binary or counting semaphore.\<close>

section \<open>State and calls\<close>

abbreviation (input) X_SEMA_TYPE_BINARY :: int where "X_SEMA_TYPE_BINARY \<equiv> 1"
abbreviation (input) X_SEMA_TYPE_MUTEX :: int where "X_SEMA_TYPE_MUTEX \<equiv> 2"
abbreviation (input) X_SEMA_TYPE_COUNTING :: int where "X_SEMA_TYPE_COUNTING \<equiv> 3"
abbreviation (input) X_SEMA_STATE_LOCK :: u32 where "X_SEMA_STATE_LOCK \<equiv> 0"
abbreviation (input) X_SEMA_STATE_UNLOCK :: u32 where "X_SEMA_STATE_UNLOCK \<equiv> 1"
abbreviation (input) X_SEMA_OPTION_WAIT :: int where "X_SEMA_OPTION_WAIT \<equiv> 1"
abbreviation (input) X_SEMA_OPTION_NOWAIT :: int where "X_SEMA_OPTION_NOWAIT \<equiv> 2"

text \<open>\<open>se_thread = None\<close> is \<open>INVALID_PTHREAD_T\<close>.\<close>

record sema =
  se_type :: int
  se_thread :: "tid option"
  se_value :: u32
  se_selfcount :: "16 word"

text \<open>\<open>mem\<close>: whether \<open>calloc\<close> succeeds; \<open>prim\<close>: whether the condition and the mutex can be initialised.\<close>

definition u_sema_create :: "bool \<Rightarrow> bool \<Rightarrow> tid \<Rightarrow> bool \<Rightarrow> int \<Rightarrow> u32 \<Rightarrow> int \<times> sema option" where
  "u_sema_create mem prim self ph e_type ui4_init_value =
    (if \<not> ph \<or> e_type \<noteq> X_SEMA_TYPE_BINARY \<and> e_type \<noteq> X_SEMA_TYPE_MUTEX \<and> e_type \<noteq> X_SEMA_TYPE_COUNTING
     then (OSR_INV_ARG, None)
     else if (e_type = X_SEMA_TYPE_BINARY \<or> e_type = X_SEMA_TYPE_MUTEX) \<and> ui4_init_value \<noteq> X_SEMA_STATE_LOCK
       \<and> ui4_init_value \<noteq> X_SEMA_STATE_UNLOCK
     then (OSR_INV_ARG, None)
     else if e_type = X_SEMA_TYPE_COUNTING \<and> sint ui4_init_value < sint X_SEMA_STATE_LOCK
     then (OSR_INV_ARG, None)
     else if \<not> mem then (OSR_NO_RESOURCE, None)
     else if \<not> prim then (OSR_FAIL, None)
     else let s = \<lparr>se_type = e_type, se_thread = None, se_value = ui4_init_value, se_selfcount = 0\<rparr> in
       (OSR_OK, Some (if e_type = X_SEMA_TYPE_MUTEX \<and> ui4_init_value = X_SEMA_STATE_LOCK
         then s\<lparr>se_thread := Some self, se_selfcount := se_selfcount s + 1\<rparr> else s)))"

text \<open>\<open>destroy\<close>: whether the mutex and the condition can be destroyed; \<open>None\<close>: the memory is freed.\<close>

definition u_sema_delete :: "bool \<Rightarrow> sema \<Rightarrow> int \<times> sema option" where
  "u_sema_delete destroy s = (if \<not> destroy then (OSR_FAIL, Some s) else (OSR_OK, None))"

text \<open>The test of the loop that waits, with the decrement after it, and the increment; the latter tells
  whether the condition is signalled.\<close>

definition sema_take :: "sema \<Rightarrow> sema option" where
  "sema_take s = (if se_value s = 0 then None else Some (s\<lparr>se_value := se_value s - 1\<rparr>))"

definition sema_give :: "sema \<Rightarrow> sema \<times> bool" where
  "sema_give s = (let s = s\<lparr>se_value := se_value s + 1\<rparr> in (s, se_value s = 1))"

definition sema_own :: "tid \<Rightarrow> sema \<Rightarrow> sema" where
  "sema_own self s = s\<lparr>se_thread := Some self\<rparr>"

definition sema_again :: "sema \<Rightarrow> sema" where
  "sema_again s = s\<lparr>se_selfcount := se_selfcount s + 1\<rparr>"

text \<open>A call that has to get the value: \<open>ret\<close> is what \<open>pthread_mutex_lock\<close> returns, \<open>wait\<close> what to do when
  the value is 0.\<close>

definition lock_value :: "int \<Rightarrow> (int \<Rightarrow> int) \<Rightarrow> (sema \<Rightarrow> (int \<times> sema) waits) \<Rightarrow> tid \<Rightarrow> sema \<Rightarrow> (int \<times> sema) waits" where
  "lock_value ret err wait self s =
    (if se_type s = X_SEMA_TYPE_MUTEX \<and> se_thread s = Some self then Returned (OSR_OK, sema_again s)
     else if ret \<noteq> 0 then Returned (err ret, s)
     else case sema_take s of
       None \<Rightarrow> wait s
     | Some s1 \<Rightarrow> Returned (OSR_OK, if se_type s = X_SEMA_TYPE_MUTEX then sema_again (sema_own self s1) else sema_own self s1))"

text \<open>\<open>wret\<close> is what the wait returns; after 0 the loop tests again, so the call is still waiting.\<close>

definition u_sema_lock :: "int \<Rightarrow> int \<Rightarrow> int \<Rightarrow> tid \<Rightarrow> sema \<Rightarrow> (int \<times> sema) waits" where
  "u_sema_lock ret wret e_option self s =
    (if e_option \<noteq> X_SEMA_OPTION_WAIT \<and> e_option \<noteq> X_SEMA_OPTION_NOWAIT then Returned (OSR_INV_ARG, s)
     else lock_value ret lock_err (\<lambda>s. if e_option = X_SEMA_OPTION_NOWAIT then Returned (OSR_WOULD_BLOCK, s)
       else if wret \<noteq> 0 then Returned (lock_err wret, s) else Waiting) self s)"

definition u_sema_lock_timeout :: "int \<Rightarrow> (nat \<times> nat \<Rightarrow> int) \<Rightarrow> nat \<times> nat \<Rightarrow> u32 \<Rightarrow> tid \<Rightarrow> sema \<Rightarrow> (int \<times> sema) waits" where
  "u_sema_lock_timeout ret wret now ui4_time self s =
    (if ui4_time = 0 then
       (case u_sema_lock ret 0 X_SEMA_OPTION_NOWAIT self s of
          Returned (i4, s') \<Rightarrow> Returned (if i4 \<noteq> OSR_WOULD_BLOCK then i4 else OSR_TIMEOUT, s')
        | Waiting \<Rightarrow> Waiting)
     else let abstime = timeout_at now ui4_time in
       lock_value ret timed_err (\<lambda>s. if wret abstime \<noteq> 0 then Returned (timed_err (wret abstime), s) else Waiting) self s)"

text \<open>What \<open>u_sema_unlock\<close> does on a mutex before it locks the \<open>pthread\<close> mutex; \<open>None\<close> when the caller is
  not the owner.\<close>

definition mutex_drop :: "tid \<Rightarrow> sema \<Rightarrow> sema option" where
  "mutex_drop self s =
    (if se_thread s \<noteq> Some self then None
     else let s = s\<lparr>se_selfcount := se_selfcount s - 1\<rparr> in
       Some (if se_selfcount s \<noteq> 0 then s else s\<lparr>se_thread := None\<rparr>))"

definition u_sema_unlock :: "int \<Rightarrow> tid \<Rightarrow> sema \<Rightarrow> int \<times> sema" where
  "u_sema_unlock ret self s =
    (if se_type s = X_SEMA_TYPE_MUTEX then
       (case mutex_drop self s of
          None \<Rightarrow> (OSR_FAIL, s)
        | Some s1 \<Rightarrow>
          if se_selfcount s1 \<noteq> 0 then (OSR_OK, s1)
          else if ret \<noteq> 0 then (lock_err ret, s1)
          else (OSR_OK, fst (sema_give s1)))
     else let s1 = s\<lparr>se_thread := None\<rparr> in
       if ret \<noteq> 0 then (lock_err ret, s1) else (OSR_OK, fst (sema_give s1)))"

section \<open>Threads that use a mutex\<close>

text \<open>Where a thread is: outside; about to lock the \<open>pthread\<close> mutex, for the first time or after it was
  woken; asleep on the condition; past the section that takes the value; inside; past the assignment that
  clears the owner.\<close>

datatype sema_pc = Away | Asking | Asleep | Took | Holding | Dropped

text \<open>\<open>mx_nest\<close> is a ghost: the number of locks of the thread not yet undone.\<close>

record mx =
  mx_sema :: sema
  mx_pc :: "tid \<Rightarrow> sema_pc"
  mx_nest :: "tid \<Rightarrow> nat"

definition mx_at :: "tid \<Rightarrow> sema_pc \<Rightarrow> nat \<Rightarrow> sema \<Rightarrow> mx \<Rightarrow> mx" where
  "mx_at t p n s m = \<lparr>mx_sema = s, mx_pc = (mx_pc m)(t := p), mx_nest = (mx_nest m)(t := n)\<rparr>"

lemma mx_at_sel [simp]:
  "mx_sema (mx_at t p n s m) = s" "mx_pc (mx_at t p n s m) = (mx_pc m)(t := p)" "mx_nest (mx_at t p n s m) = (mx_nest m)(t := n)"
  by (simp_all add: mx_at_def)

definition wake :: "tid option \<Rightarrow> (tid \<Rightarrow> sema_pc) \<Rightarrow> tid \<Rightarrow> sema_pc" where
  "wake w p = (case w of None \<Rightarrow> p | Some t \<Rightarrow> p(t := Asking))"

text \<open>Whom a signal may wake: one of the sleepers, nobody only when there is none.\<close>

definition may_wake :: "(tid \<Rightarrow> sema_pc) \<Rightarrow> tid option \<Rightarrow> bool" where
  "may_wake p w = (case w of None \<Rightarrow> (\<forall>t. p t \<noteq> Asleep) | Some t \<Rightarrow> p t = Asleep)"

text \<open>The steps of \<open>u_sema_lock\<close>, \<open>u_sema_lock_timeout\<close> and \<open>u_sema_unlock\<close> (the last: \<open>drop\<close> or \<open>fail\<close>, then \<open>give\<close>).  Any
  thread that is not in a call may begin either, so a thread may unlock a mutex that it does not hold; a
  thread locks a mutex that it owns at most 32766 times again, so that the 16-bit count does not wrap around.\<close>

inductive mx_step :: "mx \<Rightarrow> mx \<Rightarrow> bool" where
  enter: "mx_pc m t \<in> {Away, Holding} \<Longrightarrow> mx_nest m t < 32766 \<Longrightarrow> se_thread (mx_sema m) = Some t \<Longrightarrow>
    mx_step m (mx_at t Holding (mx_nest m t + 1) (sema_again (mx_sema m)) m)"
| ask: "mx_pc m t \<in> {Away, Holding} \<Longrightarrow> se_thread (mx_sema m) \<noteq> Some t \<Longrightarrow>
    mx_step m (mx_at t Asking (mx_nest m t) (mx_sema m) m)"
| sleep: "mx_pc m t = Asking \<Longrightarrow> sema_take (mx_sema m) = None \<Longrightarrow>
    mx_step m (mx_at t Asleep (mx_nest m t) (mx_sema m) m)"
| refuse: "mx_pc m t = Asking \<Longrightarrow> sema_take (mx_sema m) = None \<Longrightarrow>
    mx_step m (mx_at t Away (mx_nest m t) (mx_sema m) m)"
| timeout: "mx_pc m t = Asleep \<Longrightarrow> mx_step m (mx_at t Away (mx_nest m t) (mx_sema m) m)"
| take: "mx_pc m t = Asking \<Longrightarrow> sema_take (mx_sema m) = Some s' \<Longrightarrow>
    mx_step m (mx_at t Took (mx_nest m t) s' m)"
| own: "mx_pc m t = Took \<Longrightarrow>
    mx_step m (mx_at t Holding (mx_nest m t + 1) (sema_again (sema_own t (mx_sema m))) m)"
| drop: "mx_pc m t \<in> {Away, Holding} \<Longrightarrow> mutex_drop t (mx_sema m) = Some s' \<Longrightarrow>
    mx_step m (mx_at t (if se_selfcount s' \<noteq> 0 then Holding else Dropped) (mx_nest m t - 1) s' m)"
| fail: "mx_pc m t \<in> {Away, Holding} \<Longrightarrow> mutex_drop t (mx_sema m) = None \<Longrightarrow> mx_step m m"
| give: "mx_pc m t = Dropped \<Longrightarrow> sema_give (mx_sema m) = (s', sig) \<Longrightarrow>
    (if sig then may_wake (mx_pc m) w else w = None) \<Longrightarrow>
    mx_step m ((mx_at t Away (mx_nest m t) s' m)\<lparr>mx_pc := wake w ((mx_pc m)(t := Away))\<rparr>)"
| spurious: "mx_pc m t = Asleep \<Longrightarrow> mx_step m (mx_at t Asking (mx_nest m t) (mx_sema m) m)"

text \<open>The calls are these steps: a call during which no other thread runs is a run of the thread's steps and leaves
  the semaphore the call leaves.\<close>

lemma mx_unlock_run:
  assumes "se_type (mx_sema m) = X_SEMA_TYPE_MUTEX" "mx_pc m t \<in> {Away, Holding}"
  shows "\<exists>m'. mx_step\<^sup>*\<^sup>* m m' \<and> mx_sema m' = snd (u_sema_unlock 0 t (mx_sema m))"
proof (cases "mutex_drop t (mx_sema m)")
  case None
  then show ?thesis using assms(1) by (auto simp: u_sema_unlock_def)
next
  case (Some s1)
  let ?m1 = "mx_at t (if se_selfcount s1 \<noteq> 0 then Holding else Dropped) (mx_nest m t - 1) s1 m"
  have 1: "mx_step m ?m1" by (rule drop [OF assms(2) Some])
  show ?thesis
  proof (cases "se_selfcount s1 = 0")
    case False
    then show ?thesis using 1 Some assms(1) by (intro exI [of _ ?m1]) (auto simp: u_sema_unlock_def)
  next
    case True
    obtain s2 sig where g: "sema_give s1 = (s2, sig)" by (cases "sema_give s1")
    obtain w where w: "if sig then may_wake (mx_pc ?m1) w else w = None"
    proof (cases "\<exists>u. mx_pc ?m1 u = Asleep")
      case True
      then obtain u where "mx_pc ?m1 u = Asleep" by blast
      then show ?thesis using that [of "if sig then Some u else None"] by (simp add: may_wake_def)
    next
      case False
      then have "may_wake (mx_pc ?m1) None" by (simp add: may_wake_def)
      then show ?thesis using that [of None] by (cases sig) auto
    qed
    have p: "mx_pc ?m1 t = Dropped" using True by simp
    have "mx_step ?m1 ((mx_at t Away (mx_nest ?m1 t) s2 ?m1)\<lparr>mx_pc := wake w ((mx_pc ?m1)(t := Away))\<rparr>)"
      by (rule give [OF p _ w]) (simp add: g)
    with 1 have "mx_step\<^sup>*\<^sup>* m ((mx_at t Away (mx_nest ?m1 t) s2 ?m1)\<lparr>mx_pc := wake w ((mx_pc ?m1)(t := Away))\<rparr>)"
      by (meson r_into_rtranclp rtranclp.rtrancl_into_rtrancl)
    moreover have "snd (u_sema_unlock 0 t (mx_sema m)) = s2" using assms(1) Some True g by (simp add: u_sema_unlock_def)
    ultimately show ?thesis by fastforce
  qed
qed

lemma mx_lock_run:
  assumes "se_type (mx_sema m) = X_SEMA_TYPE_MUTEX" "mx_pc m t \<in> {Away, Holding}" "mx_nest m t < 32766"
    and "lock_value 0 err (\<lambda>_. Waiting) t (mx_sema m) = Returned (r, s')"
  shows "\<exists>m'. mx_step\<^sup>*\<^sup>* m m' \<and> mx_sema m' = s' \<and> mx_pc m' t = Holding"
proof (cases "se_thread (mx_sema m) = Some t")
  case True
  then have "s' = sema_again (mx_sema m)" using assms(1,4) by (simp add: lock_value_def)
  then show ?thesis using enter [OF assms(2,3) True] by (intro exI [of _ "mx_at t Holding (mx_nest m t + 1) (sema_again (mx_sema m)) m"]) auto
next
  case False
  then obtain s1 where s1: "sema_take (mx_sema m) = Some s1" "s' = sema_again (sema_own t s1)"
    using assms(1,4) by (auto simp: lock_value_def split: option.splits)
  let ?m1 = "mx_at t Asking (mx_nest m t) (mx_sema m) m"
  let ?m2 = "mx_at t Took (mx_nest m t) s1 ?m1"
  let ?m3 = "mx_at t Holding (mx_nest m t + 1) s' ?m2"
  have "mx_step m ?m1" by (rule ask [OF assms(2) False])
  moreover have "mx_step ?m1 ?m2" using take [of ?m1 t s1] s1(1) by simp
  moreover have "mx_step ?m2 ?m3" using own [of ?m2 t] s1(2) by simp
  ultimately have "mx_step\<^sup>*\<^sup>* m ?m3" by (meson r_into_rtranclp rtranclp.rtrancl_into_rtrancl)
  then show ?thesis by (intro exI [of _ ?m3]) simp
qed

text \<open>The start: a mutex just made by thread \<open>self\<close>.\<close>

definition mx_start :: "tid \<Rightarrow> sema \<Rightarrow> mx" where
  "mx_start self s = \<lparr>mx_sema = s,
     mx_pc = (\<lambda>t. if se_thread s = Some t then Holding else Away),
     mx_nest = (\<lambda>t. if se_thread s = Some t then 1 else 0)\<rparr>"

section \<open>The invariant of a mutex\<close>

definition waits_for :: "mx \<Rightarrow> tid \<Rightarrow> bool" where
  "waits_for m t \<longleftrightarrow> mx_pc m t \<in> {Away, Asking, Asleep} \<and> mx_nest m t = 0"

definition mx_holder :: "mx \<Rightarrow> tid \<Rightarrow> bool" where
  "mx_holder m t \<longleftrightarrow> (let s = mx_sema m in case mx_pc m t of
     Holding \<Rightarrow> se_thread s = Some t \<and> 0 < mx_nest m t \<and> mx_nest m t < 32767 \<and> se_selfcount s = of_nat (mx_nest m t)
   | Took \<Rightarrow> se_thread s = None \<and> mx_nest m t = 0 \<and> se_selfcount s = 0
   | Dropped \<Rightarrow> se_thread s = None \<and> mx_nest m t = 0 \<and> se_selfcount s = 0
   | _ \<Rightarrow> False)"

definition mx_free :: "mx \<Rightarrow> bool" where
  "mx_free m \<longleftrightarrow> se_value (mx_sema m) = 1 \<and> se_thread (mx_sema m) = None \<and> se_selfcount (mx_sema m) = 0 \<and>
     (\<forall>t. waits_for m t) \<and> ((\<exists>t. mx_pc m t = Asleep) \<longrightarrow> (\<exists>t. mx_pc m t = Asking))"

definition mx_held :: "mx \<Rightarrow> tid \<Rightarrow> bool" where
  "mx_held m t \<longleftrightarrow> se_value (mx_sema m) = 0 \<and> mx_holder m t \<and> (\<forall>u. u \<noteq> t \<longrightarrow> waits_for m u)"

definition mx_inv :: "mx \<Rightarrow> bool" where
  "mx_inv m \<longleftrightarrow> se_type (mx_sema m) = X_SEMA_TYPE_MUTEX \<and> (mx_free m \<or> (\<exists>t. mx_held m t))"

text \<open>A thread past the section that takes the value holds the mutex; a thread that owns it is inside.\<close>

lemma mx_inv_held:
  assumes "mx_inv m" "mx_pc m t \<notin> {Away, Asking, Asleep} \<or> se_thread (mx_sema m) = Some t"
  shows "mx_held m t"
proof -
  have "\<not> mx_free m" using assms(2) by (auto simp: mx_free_def waits_for_def)
  then obtain u where u: "mx_held m u" using assms(1) by (auto simp: mx_inv_def)
  then have "se_thread (mx_sema m) = Some v \<Longrightarrow> v = u" for v
    by (auto simp: mx_held_def mx_holder_def Let_def split: sema_pc.splits)
  then have "t = u" using u assms(2) by (cases "t = u") (auto simp: mx_held_def waits_for_def)
  then show ?thesis using u by simp
qed

lemma mx_held_owner: "mx_held m t \<Longrightarrow> se_thread (mx_sema m) = Some u \<Longrightarrow> u = t \<and> mx_pc m t = Holding"
  by (auto simp: mx_held_def mx_holder_def Let_def split: sema_pc.splits)

lemma mx_inv_holder_step:
  assumes "mx_held m t" "se_type s = X_SEMA_TYPE_MUTEX" "se_value s = 0" "mx_holder (mx_at t p n s m) t"
  shows "mx_inv (mx_at t p n s m)"
proof -
  have "mx_held (mx_at t p n s m) t" using assms by (auto simp: mx_held_def waits_for_def)
  then show ?thesis using assms(2) by (auto simp: mx_inv_def)
qed

text \<open>A thread that does not hold the mutex moves.\<close>

lemma mx_inv_waiter_step:
  assumes inv: "mx_inv m" and t: "waits_for m t" and p: "p \<in> {Away, Asking, Asleep}"
    and last: "se_value (mx_sema m) = 1 \<Longrightarrow> mx_pc m t \<noteq> Asking \<and> p \<noteq> Asleep \<or> p = Asking"
  shows "mx_inv (mx_at t p (mx_nest m t) (mx_sema m) m)" (is "mx_inv ?m")
proof (cases "mx_free m")
  case True
  have "\<exists>u. mx_pc ?m u = Asking" if "mx_pc ?m v = Asleep" for v
  proof (cases "p = Asking")
    case False
    then have "mx_pc m v = Asleep" using that last True by (auto simp: mx_free_def split: if_splits)
    then obtain u where "mx_pc m u = Asking" using True by (auto simp: mx_free_def)
    then show ?thesis using last True False by (intro exI [of _ u]) (auto simp: mx_free_def)
  qed (auto intro: exI [of _ t])
  then have "(\<exists>v. mx_pc ?m v = Asleep) \<longrightarrow> (\<exists>u. mx_pc ?m u = Asking)" by blast
  moreover have "\<forall>u. waits_for ?m u" using True p t by (auto simp: mx_free_def waits_for_def)
  ultimately have "mx_free ?m" using True unfolding mx_free_def by (intro conjI) (simp_all del: mx_at_sel(2))
  then show ?thesis using inv by (simp add: mx_inv_def)
next
  case False
  then obtain u where u: "mx_held m u" using inv by (auto simp: mx_inv_def)
  then have "u \<noteq> t" using t by (auto simp: mx_held_def mx_holder_def waits_for_def)
  then have "mx_holder ?m u" using u by (auto simp: mx_held_def mx_holder_def Let_def split: sema_pc.splits)
  moreover have "waits_for ?m v" if "v \<noteq> u" for v
    using u t p that by (cases "v = t") (auto simp: mx_held_def waits_for_def)
  ultimately have "mx_held ?m u" using u by (simp add: mx_held_def)
  then show ?thesis using inv by (auto simp: mx_inv_def)
qed

lemma mx_inv_waits:
  assumes "mx_inv m" "mx_pc m t \<in> {Away, Asking, Asleep}"
  shows "waits_for m t"
proof (cases "mx_free m")
  case False
  then obtain u where u: "mx_held m u" using assms(1) by (auto simp: mx_inv_def)
  then have "u \<noteq> t" using assms(2) by (auto simp: mx_held_def mx_holder_def Let_def)
  then show ?thesis using u by (simp add: mx_held_def)
qed (simp add: mx_free_def)

lemma sema_take_Some: "sema_take s = Some s' \<Longrightarrow> s' = s\<lparr>se_value := se_value s - 1\<rparr> \<and> se_value s \<noteq> 0"
  by (auto simp: sema_take_def split: if_splits)

lemma sema_take_None: "sema_take s = None \<longleftrightarrow> se_value s = 0"
  by (simp add: sema_take_def)

lemma of_nat_count: "n < 32767 \<Longrightarrow> (of_nat n :: 16 word) = 0 \<longleftrightarrow> n = 0"
  by (auto simp: word_of_nat_eq_0_iff dest: dvd_imp_le)

lemma mx_inv_drop:
  assumes "mx_inv m" "mutex_drop t (mx_sema m) = Some s'"
  shows "mx_inv (mx_at t (if se_selfcount s' \<noteq> 0 then Holding else Dropped) (mx_nest m t - 1) s' m)"
proof -
  let ?s = "mx_sema m"
  have o: "se_thread ?s = Some t" using assms(2) by (simp add: mutex_drop_def split: if_splits)
  then have h: "mx_held m t" using mx_inv_held [OF assms(1)] by simp
  then have "mx_pc m t = Holding" using mx_held_owner o by blast
  then have s: "se_thread ?s = Some t" "0 < mx_nest m t" "mx_nest m t < 32767" "se_selfcount ?s = of_nat (mx_nest m t)"
    "se_value ?s = 0" using h by (simp_all add: mx_held_def mx_holder_def Let_def)
  obtain k where k: "mx_nest m t = Suc k" using s(2) by (cases "mx_nest m t") auto
  then have c: "se_selfcount ?s - 1 = of_nat k" "(of_nat k :: 16 word) = 0 \<longleftrightarrow> k = 0"
    using s(3,4) of_nat_count [of k] by simp_all
  have s': "s' = (if k \<noteq> 0 then ?s\<lparr>se_selfcount := of_nat k\<rparr> else ?s\<lparr>se_selfcount := 0, se_thread := None\<rparr>)"
    using assms(2) s(1) c by (auto simp: mutex_drop_def Let_def)
  have ty: "se_type ?s = X_SEMA_TYPE_MUTEX" using assms(1) by (simp add: mx_inv_def)
  show ?thesis
  proof (rule mx_inv_holder_step [OF h])
    show "mx_holder (mx_at t (if se_selfcount s' \<noteq> 0 then Holding else Dropped) (mx_nest m t - 1) s' m) t"
      using s' s c k by (simp add: mx_holder_def)
  qed (use s' s ty in auto)
qed

lemma mx_inv_give:
  assumes inv: "mx_inv m" and p: "mx_pc m t = Dropped" "sema_give (mx_sema m) = (s', sig)"
    and w: "if sig then may_wake (mx_pc m) w else w = None"
  shows "mx_inv ((mx_at t Away (mx_nest m t) s' m)\<lparr>mx_pc := wake w ((mx_pc m)(t := Away))\<rparr>)" (is "mx_inv ?m")
proof -
  have h: "mx_held m t" using mx_inv_held [OF inv] p(1) by simp
  then have s': "s' = (mx_sema m)\<lparr>se_value := 1\<rparr>" "sig" and s: "se_thread (mx_sema m) = None" "se_selfcount (mx_sema m) = 0"
    and n: "mx_nest m t = 0"
    using p by (auto simp: mx_held_def mx_holder_def sema_give_def Let_def)
  have o: "waits_for m u" if "u \<noteq> t" for u using h that by (simp add: mx_held_def)
  have wk: "may_wake (mx_pc m) w" using w s'(2) by simp
  have "waits_for ?m u" for u
    using o [of u] n by (cases w; cases "u = t") (auto simp: waits_for_def wake_def)
  moreover have "\<exists>v. mx_pc ?m v = Asking" if "mx_pc ?m u = Asleep" for u
  proof (cases w)
    case None
    then show ?thesis using that wk by (auto simp: may_wake_def wake_def split: if_splits)
  next
    case (Some v)
    then show ?thesis by (auto simp: wake_def)
  qed
  ultimately have "mx_free ?m" using s' s by (auto simp: mx_free_def)
  then show ?thesis using inv s' by (simp add: mx_inv_def)
qed

lemma mx_step_inv: "mx_step m m' \<Longrightarrow> mx_inv m \<Longrightarrow> mx_inv m'"
proof (induction rule: mx_step.induct)
  case (enter m t)
  then have h: "mx_held m t" using mx_inv_held by blast
  then have "mx_pc m t = Holding" using enter mx_held_owner by blast
  then show ?case using h enter
    by (intro mx_inv_holder_step) (auto simp: mx_held_def mx_holder_def mx_inv_def sema_again_def Let_def)
next
  case (ask m t)
  then have "mx_pc m t = Away"
    using mx_inv_held [of m t] by (auto simp: mx_held_def mx_holder_def Let_def)
  moreover have "waits_for m t" using mx_inv_waits [OF ask(3)] calculation by simp
  ultimately show ?case using ask by (intro mx_inv_waiter_step) auto
next
  case (sleep m t)
  then show ?case by (intro mx_inv_waiter_step mx_inv_waits) (auto simp: sema_take_None)
next
  case (refuse m t)
  then show ?case by (intro mx_inv_waiter_step mx_inv_waits) (auto simp: sema_take_None)
next
  case (timeout m t)
  then show ?case by (intro mx_inv_waiter_step mx_inv_waits) auto
next
  case (take m t s')
  then have "waits_for m t" using mx_inv_waits by blast
  moreover have "mx_free m" using take sema_take_Some by (fastforce simp: mx_inv_def mx_held_def)
  ultimately have "mx_held (mx_at t Took (mx_nest m t) s' m) t"
    using sema_take_Some [OF take(2)] by (auto simp: mx_held_def mx_holder_def mx_free_def waits_for_def)
  then show ?case using take sema_take_Some [OF take(2)] by (auto simp: mx_inv_def)
next
  case (own m t)
  then have "mx_held m t" using mx_inv_held by auto
  then show ?case using own
    by (intro mx_inv_holder_step) (auto simp: mx_held_def mx_holder_def mx_inv_def sema_again_def sema_own_def Let_def)
next
  case (drop m t s')
  then show ?case by (intro mx_inv_drop)
next
  case (fail m t)
  then show ?case by simp
next
  case (give m t s' sig w)
  then show ?case by (intro mx_inv_give)
next
  case (spurious m t)
  then show ?case by (intro mx_inv_waiter_step mx_inv_waits) auto
qed

lemma mx_start_inv:
  assumes "u_sema_create mem prim self ph X_SEMA_TYPE_MUTEX v = (OSR_OK, Some s)"
  shows "mx_inv (mx_start self s)"
proof (cases "v = 0")
  case True
  then have "s = \<lparr>se_type = 2, se_thread = Some self, se_value = 0, se_selfcount = 1\<rparr>"
    using assms by (auto simp: u_sema_create_def Let_def split: if_splits)
  then have "mx_held (mx_start self s) self" by (auto simp: mx_held_def mx_holder_def mx_start_def waits_for_def)
  then show ?thesis using \<open>s = _\<close> by (auto simp: mx_inv_def mx_start_def)
next
  case False
  then have "s = \<lparr>se_type = 2, se_thread = None, se_value = 1, se_selfcount = 0\<rparr>"
    using assms by (auto simp: u_sema_create_def Let_def split: if_splits)
  then show ?thesis by (auto simp: mx_inv_def mx_free_def mx_start_def waits_for_def)
qed

lemma mx_reachable_inv:
  assumes "u_sema_create mem prim self ph X_SEMA_TYPE_MUTEX v = (OSR_OK, Some s)" "mx_step\<^sup>*\<^sup>* (mx_start self s) m"
  shows "mx_inv m"
  using assms(2) by (induction rule: rtranclp_induct) (auto intro: mx_step_inv mx_start_inv [OF assms(1)])

section \<open>Properties: mutexes\<close>

text \<open>C7 Mutual exclusion: however the threads that use a mutex interleave, with timeouts, refusals, spurious wakeups and
  threads that unlock what they do not hold, while one of them is between taking the value and giving it
  back no other one is, a lock by another one comes to the wait, and an unlock by another one fails and
  changes nothing.  No thread nests more than 32767 locks.\<close>

theorem sema_mutex_exclusion:
  assumes "u_sema_create mem prim self ph X_SEMA_TYPE_MUTEX v = (OSR_OK, Some s)" "mx_step\<^sup>*\<^sup>* (mx_start self s) m"
    and "mx_pc m t \<in> {Took, Holding, Dropped}" "u \<noteq> t"
  shows "mx_pc m u \<notin> {Took, Holding, Dropped} \<and> lock_value 0 err wait u (mx_sema m) = wait (mx_sema m) \<and>
    u_sema_unlock ret u (mx_sema m) = (OSR_FAIL, mx_sema m)"
proof -
  have h: "mx_held m t" "se_type (mx_sema m) = X_SEMA_TYPE_MUTEX"
    using mx_inv_held [OF mx_reachable_inv [OF assms(1,2)]] assms(3) mx_reachable_inv [OF assms(1,2)] by (auto simp: mx_inv_def)
  then have "waits_for m u" "se_value (mx_sema m) = 0" using assms(4) by (auto simp: mx_held_def)
  moreover have "se_thread (mx_sema m) \<noteq> Some u" using mx_held_owner h(1) assms(4) by blast
  ultimately show ?thesis using h(2)
    by (auto simp: waits_for_def lock_value_def sema_take_def u_sema_unlock_def mutex_drop_def)
qed

definition mutex0 :: sema where
  "mutex0 = \<lparr>se_type = X_SEMA_TYPE_MUTEX, se_thread = None, se_value = 1, se_selfcount = 0\<rparr>"

lemma mutex0_create: "u_sema_create True True 7 True X_SEMA_TYPE_MUTEX X_SEMA_STATE_UNLOCK = (OSR_OK, Some mutex0)"
  by (simp add: u_sema_create_def mutex0_def)

definition mx_demo :: mx where
  "mx_demo = \<lparr>mx_sema = \<lparr>se_type = X_SEMA_TYPE_MUTEX, se_thread = Some 7, se_value = 0, se_selfcount = 1\<rparr>,
     mx_pc = (\<lambda>_. Away)(7 := Holding, 8 := Asleep), mx_nest = (\<lambda>_. 0)(7 := 1)\<rparr>"

lemma mx_demo_reachable: "mx_step\<^sup>*\<^sup>* (mx_start 7 mutex0) mx_demo"
proof -
  let ?m0 = "mx_start 7 mutex0"
  let ?m1 = "mx_at 7 Asking 0 mutex0 ?m0"
  let ?s2 = "mutex0\<lparr>se_value := 0\<rparr>"
  let ?m2 = "mx_at 7 Took 0 ?s2 ?m1"
  let ?m3 = "mx_at 7 Holding 1 (sema_again (sema_own 7 ?s2)) ?m2"
  let ?s3 = "sema_again (sema_own 7 ?s2)"
  let ?m4 = "mx_at 8 Asking 0 ?s3 ?m3"
  have 0: "mx_pc ?m0 7 = Away" "mx_nest ?m0 7 = 0" "mx_sema ?m0 = mutex0" "mx_pc ?m0 8 = Away" "mx_nest ?m0 8 = 0"
    by (simp_all add: mx_start_def mutex0_def)
  have 1: "mx_step ?m0 ?m1" using mx_step.ask [of ?m0 7] by (simp add: 0) (simp add: mutex0_def)
  have 2: "mx_step ?m1 ?m2" using mx_step.take [of ?m1 7 ?s2] by (simp add: sema_take_def) (simp add: mutex0_def)
  have 3: "mx_step ?m2 ?m3" using mx_step.own [of ?m2 7] by simp
  have 4: "mx_step ?m3 ?m4"
    using mx_step.ask [of ?m3 8] by (simp add: 0) (simp add: sema_again_def sema_own_def)
  have 5: "mx_step ?m4 (mx_at 8 Asleep 0 ?s3 ?m4)"
    using mx_step.sleep [of ?m4 8] by (simp add: sema_take_def) (simp add: sema_again_def sema_own_def)
  have e: "mx_at 8 Asleep 0 ?s3 ?m4 = mx_demo"
    by (auto simp: mx_at_def mx_demo_def mx_start_def mutex0_def sema_again_def sema_own_def fun_eq_iff)
  show ?thesis
    using converse_rtranclp_into_rtranclp [where r = mx_step, OF 1 converse_rtranclp_into_rtranclp [OF 2
        converse_rtranclp_into_rtranclp [OF 3 converse_rtranclp_into_rtranclp [OF 4 r_into_rtranclp [where r = mx_step, OF 5]]]]]
    unfolding e .
qed

theorem sema_mutex_exclusion_witness:
  "mx_pc mx_demo 8 \<noteq> Holding \<and> u_sema_unlock 0 8 (mx_sema mx_demo) = (OSR_FAIL, mx_sema mx_demo)"
proof -
  have "mx_pc mx_demo 7 \<in> {Took, Holding, Dropped}" by (simp add: mx_demo_def)
  from sema_mutex_exclusion [OF mutex0_create mx_demo_reachable this, of 8] show ?thesis by simp
qed



text \<open>Recursion: the owner of a mutex locks again without waiting, whatever the option or time limit, and
  undoing that lock gives the mutex back as it was; its last unlock frees the mutex; nobody else's does.\<close>

theorem sema_mutex_recursion:
  assumes "se_type s = X_SEMA_TYPE_MUTEX" "se_thread s = Some t" "se_value s = 0" "se_selfcount s = of_nat n"
    and "0 < n" "n < 32767" "e_option = X_SEMA_OPTION_WAIT \<or> e_option = X_SEMA_OPTION_NOWAIT"
  shows "u_sema_lock ret wret e_option t s = Returned (OSR_OK, s\<lparr>se_selfcount := of_nat (n + 1)\<rparr>) \<and>
    u_sema_lock_timeout ret w now ms t s = Returned (OSR_OK, s\<lparr>se_selfcount := of_nat (n + 1)\<rparr>) \<and>
    u_sema_unlock 0 t (s\<lparr>se_selfcount := of_nat (n + 1)\<rparr>) = (OSR_OK, s) \<and>
    (n = 1 \<longrightarrow> u_sema_unlock 0 t s = (OSR_OK, s\<lparr>se_selfcount := 0, se_thread := None, se_value := 1\<rparr>)) \<and>
    (\<forall>u. u \<noteq> t \<longrightarrow> u_sema_unlock 0 u s = (OSR_FAIL, s))"
proof -
  have nz: "(of_nat n :: 16 word) \<noteq> 0" using of_nat_count [OF assms(6)] assms(5) by simp
  have l: "lock_value ret err wt t s = Returned (OSR_OK, s\<lparr>se_selfcount := of_nat (n + 1)\<rparr>)" for err wt
    using assms(1,2,4) by (simp add: lock_value_def sema_again_def)
  have "s\<lparr>se_selfcount := of_nat n\<rparr> = s" by (simp add: assms(4) [symmetric])
  then have u: "u_sema_unlock 0 t (s\<lparr>se_selfcount := of_nat (n + 1)\<rparr>) = (OSR_OK, s)"
    using assms(1,2,4) nz by (simp add: u_sema_unlock_def mutex_drop_def Let_def)
  have "n = 1 \<longrightarrow> u_sema_unlock 0 t s = (OSR_OK, s\<lparr>se_selfcount := 0, se_thread := None, se_value := 1\<rparr>)"
    using assms(1-4) by (simp add: u_sema_unlock_def mutex_drop_def sema_give_def Let_def)
  then show ?thesis using l u assms(1,2,7)
    by (auto simp: u_sema_lock_def u_sema_lock_timeout_def u_sema_unlock_def mutex_drop_def Let_def)
qed

theorem sema_mutex_recursion_witness:
  "u_sema_lock 0 0 X_SEMA_OPTION_NOWAIT 7 (mx_sema mx_demo) = Returned (OSR_OK, (mx_sema mx_demo)\<lparr>se_selfcount := 2\<rparr>)"
  using sema_mutex_recursion [of "mx_sema mx_demo" 7 1 X_SEMA_OPTION_NOWAIT] by (simp add: mx_demo_def)

section \<open>Threads that use a binary or counting semaphore\<close>

text \<open>Any thread may lock and any thread may unlock.  \<open>Took\<close> is past the section that takes the value,
  \<open>Dropped\<close> past the assignment that clears the owner.  The ghosts count the locks and unlocks.\<close>

record sm =
  sm_sema :: sema
  sm_pc :: "tid \<Rightarrow> sema_pc"
  sm_taken :: nat
  sm_given :: nat

definition sm_at :: "tid \<Rightarrow> sema_pc \<Rightarrow> sema \<Rightarrow> sm \<Rightarrow> sm" where
  "sm_at t p s m = m\<lparr>sm_sema := s, sm_pc := (sm_pc m)(t := p)\<rparr>"

inductive sm_step :: "sm \<Rightarrow> sm \<Rightarrow> bool" where
  s_ask: "sm_pc m t = Away \<Longrightarrow> sm_step m (sm_at t Asking (sm_sema m) m)"
| s_sleep: "sm_pc m t = Asking \<Longrightarrow> sema_take (sm_sema m) = None \<Longrightarrow> sm_step m (sm_at t Asleep (sm_sema m) m)"
| s_refuse: "sm_pc m t = Asking \<Longrightarrow> sema_take (sm_sema m) = None \<Longrightarrow> sm_step m (sm_at t Away (sm_sema m) m)"
| s_timeout: "sm_pc m t = Asleep \<Longrightarrow> sm_step m (sm_at t Away (sm_sema m) m)"
| s_take: "sm_pc m t = Asking \<Longrightarrow> sema_take (sm_sema m) = Some s' \<Longrightarrow>
    sm_step m ((sm_at t Took s' m)\<lparr>sm_taken := sm_taken m + 1\<rparr>)"
| s_own: "sm_pc m t = Took \<Longrightarrow> sm_step m (sm_at t Away (sema_own t (sm_sema m)) m)"
| s_drop: "sm_pc m t = Away \<Longrightarrow> sm_step m (sm_at t Dropped ((sm_sema m)\<lparr>se_thread := None\<rparr>) m)"
| s_give: "sm_pc m t = Dropped \<Longrightarrow> unat (se_value (sm_sema m)) < 4294967295 \<Longrightarrow> sema_give (sm_sema m) = (s', sig) \<Longrightarrow>
    (if sig then may_wake (sm_pc m) w else w = None) \<Longrightarrow>
    sm_step m (m\<lparr>sm_sema := s', sm_pc := wake w ((sm_pc m)(t := Away)), sm_given := sm_given m + 1\<rparr>)"
| s_spurious: "sm_pc m t = Asleep \<Longrightarrow> sm_step m (sm_at t Asking (sm_sema m) m)"

definition sm_start :: "sema \<Rightarrow> sm" where
  "sm_start s = \<lparr>sm_sema = s, sm_pc = (\<lambda>_. Away), sm_taken = 0, sm_given = 0\<rparr>"

lemma sm_step_balance:
  "sm_step m m' \<Longrightarrow> unat (se_value (sm_sema m)) + sm_taken m = v + sm_given m \<Longrightarrow>
    unat (se_value (sm_sema m')) + sm_taken m' = v + sm_given m'"
proof (induction rule: sm_step.induct)
  case (s_take m t s')
  then have s': "s' = (sm_sema m)\<lparr>se_value := se_value (sm_sema m) - 1\<rparr>" "se_value (sm_sema m) \<noteq> 0"
    using sema_take_Some by blast+
  then have "unat (se_value s') = unat (se_value (sm_sema m)) - 1" "0 < unat (se_value (sm_sema m))"
    by (simp_all add: unat_minus_one unat_gt_0)
  then show ?case using s_take by (simp add: sm_at_def)
next
  case (s_give m t s' sig w)
  then have "s' = (sm_sema m)\<lparr>se_value := se_value (sm_sema m) + 1\<rparr>" by (simp add: sema_give_def Let_def)
  moreover have "unat (se_value (sm_sema m) + 1) = unat (se_value (sm_sema m)) + 1"
    using s_give(2) by (simp add: unat_word_ariths)
  ultimately show ?case using s_give by simp
qed (simp_all add: sm_at_def sema_own_def)

text \<open>A semaphore counts: however the threads interleave, the value plus the number of locks that have
  succeeded is the initial value plus the number of unlocks.  So there are never more locks than that, and none
  is refused without need.\<close>

theorem sema_counts:
  assumes "sm_step\<^sup>*\<^sup>* (sm_start s) m"
  shows "unat (se_value (sm_sema m)) + sm_taken m = unat (se_value s) + sm_given m \<and>
    sm_taken m \<le> unat (se_value s) + sm_given m"
proof -
  have "unat (se_value (sm_sema m)) + sm_taken m = unat (se_value s) + sm_given m"
    using assms by (induction rule: rtranclp_induct) (simp add: sm_start_def, rule sm_step_balance)
  then show ?thesis by simp
qed

definition count0 :: sema where
  "count0 = \<lparr>se_type = X_SEMA_TYPE_COUNTING, se_thread = None, se_value = 0, se_selfcount = 0\<rparr>"

theorem sema_counts_witness: "\<exists>m. sm_step\<^sup>*\<^sup>* (sm_start count0) m \<and> sm_pc m 7 = Asking \<and> sm_taken m = 0"
proof (intro exI conjI)
  have "sm_step (sm_start count0) (sm_at 7 Asking count0 (sm_start count0))"
    using s_ask [of "sm_start count0" 7] by (simp add: sm_start_def)
  then show r: "sm_step\<^sup>*\<^sup>* (sm_start count0) (sm_at 7 Asking count0 (sm_start count0))" by (rule r_into_rtranclp)
  show "sm_pc (sm_at 7 Asking count0 (sm_start count0)) 7 = Asking" by (simp add: sm_at_def)
  show "sm_taken (sm_at 7 Asking count0 (sm_start count0)) = 0"
    using sema_counts [OF r] by (simp add: sm_at_def sm_start_def count0_def)
qed

text \<open>A run of the counting semaphore, in terms of its fields.\<close>

definition sm_mk :: "tid option \<Rightarrow> u32 \<Rightarrow> (tid \<Rightarrow> sema_pc) \<Rightarrow> nat \<Rightarrow> nat \<Rightarrow> sm" where
  "sm_mk th v p k g = \<lparr>sm_sema = count0\<lparr>se_thread := th, se_value := v\<rparr>, sm_pc = p, sm_taken = k, sm_given = g\<rparr>"

lemma sm_mk_steps:
  "p t = Away \<Longrightarrow> sm_step (sm_mk th v p k g) (sm_mk th v (p(t := Asking)) k g)"
  "p t = Asking \<Longrightarrow> sm_step (sm_mk th 0 p k g) (sm_mk th 0 (p(t := Asleep)) k g)"
  "p t = Asking \<Longrightarrow> v \<noteq> 0 \<Longrightarrow> sm_step (sm_mk th v p k g) (sm_mk th (v - 1) (p(t := Took)) (k + 1) g)"
  "p t = Took \<Longrightarrow> sm_step (sm_mk th v p k g) (sm_mk (Some t) v (p(t := Away)) k g)"
  "p t = Away \<Longrightarrow> sm_step (sm_mk th v p k g) (sm_mk None v (p(t := Dropped)) k g)"
  "p t = Dropped \<Longrightarrow> p u = Asleep \<Longrightarrow> sm_step (sm_mk th 0 p k g) (sm_mk th 1 (p(t := Away, u := Asking)) k (g + 1))"
  "p t = Dropped \<Longrightarrow> sm_step (sm_mk th 1 p k g) (sm_mk th 2 (p(t := Away)) k (g + 1))"
proof -
  show "p t = Away \<Longrightarrow> sm_step (sm_mk th v p k g) (sm_mk th v (p(t := Asking)) k g)"
    using s_ask [of "sm_mk th v p k g" t] by (simp add: sm_mk_def sm_at_def)
  show "p t = Asking \<Longrightarrow> sm_step (sm_mk th 0 p k g) (sm_mk th 0 (p(t := Asleep)) k g)"
    using s_sleep [of "sm_mk th 0 p k g" t] by (simp add: sm_mk_def sm_at_def sema_take_def)
  show "p t = Asking \<Longrightarrow> v \<noteq> 0 \<Longrightarrow> sm_step (sm_mk th v p k g) (sm_mk th (v - 1) (p(t := Took)) (k + 1) g)"
    using s_take [of "sm_mk th v p k g" t] by (simp add: sm_mk_def sm_at_def sema_take_def)
  show "p t = Took \<Longrightarrow> sm_step (sm_mk th v p k g) (sm_mk (Some t) v (p(t := Away)) k g)"
    using s_own [of "sm_mk th v p k g" t] by (simp add: sm_mk_def sm_at_def sema_own_def count0_def)
  show "p t = Away \<Longrightarrow> sm_step (sm_mk th v p k g) (sm_mk None v (p(t := Dropped)) k g)"
    using s_drop [of "sm_mk th v p k g" t] by (simp add: sm_mk_def sm_at_def count0_def)
  show "p t = Dropped \<Longrightarrow> p u = Asleep \<Longrightarrow> sm_step (sm_mk th 0 p k g) (sm_mk th 1 (p(t := Away, u := Asking)) k (g + 1))"
    using s_give [of "sm_mk th 0 p k g" t _ _ "Some u"] by (simp add: sm_mk_def sema_give_def may_wake_def wake_def Let_def)
  show "p t = Dropped \<Longrightarrow> sm_step (sm_mk th 1 p k g) (sm_mk th 2 (p(t := Away)) k (g + 1))"
    using s_give [of "sm_mk th 1 p k g" t _ False None] by (simp add: sm_mk_def sema_give_def wake_def Let_def)
qed

lemma sm_sleepers: "sm_step\<^sup>*\<^sup>* (sm_start count0) (sm_mk None 0 ((\<lambda>_. Away)(7 := Asleep, 8 := Asleep)) 0 0)"
proof -
  note C = converse_rtranclp_into_rtranclp [where r = sm_step]
  let ?p = "\<lambda>_ :: tid. Away"
  have 1: "sm_step (sm_mk None 0 ?p 0 0) (sm_mk None 0 (?p(7 := Asking)) 0 0)" by (rule sm_mk_steps) simp
  have 2: "sm_step (sm_mk None 0 (?p(7 := Asking)) 0 0) (sm_mk None 0 (?p(7 := Asking, 7 := Asleep)) 0 0)"
    by (rule sm_mk_steps) simp
  have 3: "sm_step (sm_mk None 0 (?p(7 := Asleep)) 0 0) (sm_mk None 0 (?p(7 := Asleep, 8 := Asking)) 0 0)"
    by (rule sm_mk_steps) simp
  have 4: "sm_step (sm_mk None 0 (?p(7 := Asleep, 8 := Asking)) 0 0) (sm_mk None 0 (?p(7 := Asleep, 8 := Asking, 8 := Asleep)) 0 0)"
    by (rule sm_mk_steps) simp
  have "sm_start count0 = sm_mk None 0 ?p 0 0" by (simp add: sm_start_def sm_mk_def count0_def)
  then show ?thesis using C [OF 1 C [OF 2[unfolded fun_upd_upd] C [OF 3 r_into_rtranclp [where r = sm_step, OF 4[unfolded fun_upd_upd]]]]] by simp
qed

text \<open>A counting semaphore can lose a wakeup: \<open>u_sema_unlock\<close> signals only when the value becomes 1, so when
  it is called twice before the first of two sleepers runs, the second sleeper sleeps on while the value is 1
  and no other thread is doing anything.\<close>

theorem sema_lost_wakeup:
  "\<exists>m. sm_step\<^sup>*\<^sup>* (sm_start count0) m \<and> se_value (sm_sema m) = 1 \<and> sm_pc m = (\<lambda>_. Away)(8 := Asleep) \<and>
    snd (sema_give (sm_sema m)) = False"
proof -
  note C = converse_rtranclp_into_rtranclp [where r = sm_step]
  let ?p = "(\<lambda>_ :: tid. Away)(7 := Asleep, 8 := Asleep)"
  have 1: "sm_step (sm_mk None 0 ?p 0 0) (sm_mk None 0 (?p(9 := Dropped)) 0 0)" by (rule sm_mk_steps) simp
  have 2: "sm_step (sm_mk None 0 (?p(9 := Dropped)) 0 0) (sm_mk None 1 (?p(9 := Dropped, 9 := Away, 7 := Asking)) 0 (0 + 1))"
    by (rule sm_mk_steps) simp_all
  let ?q = "?p(9 := Dropped, 9 := Away, 7 := Asking)"
  have 3: "sm_step (sm_mk None 1 ?q 0 (0 + 1)) (sm_mk None 1 (?q(9 := Dropped)) 0 (0 + 1))" by (rule sm_mk_steps) simp
  have 4: "sm_step (sm_mk None 1 (?q(9 := Dropped)) 0 (0 + 1)) (sm_mk None 2 (?q(9 := Dropped, 9 := Away)) 0 (0 + 1 + 1))"
    by (rule sm_mk_steps) simp
  let ?r = "?q(9 := Dropped, 9 := Away)"
  have 5: "sm_step (sm_mk None 2 ?r 0 (0 + 1 + 1)) (sm_mk None (2 - 1) (?r(7 := Took)) (0 + 1) (0 + 1 + 1))"
    by (rule sm_mk_steps) simp_all
  have 6: "sm_step (sm_mk None (2 - 1) (?r(7 := Took)) (0 + 1) (0 + 1 + 1))
      (sm_mk (Some 7) (2 - 1) (?r(7 := Took, 7 := Away)) (0 + 1) (0 + 1 + 1))" by (rule sm_mk_steps) simp
  have "sm_step\<^sup>*\<^sup>* (sm_start count0) (sm_mk (Some 7) (2 - 1) (?r(7 := Took, 7 := Away)) (0 + 1) (0 + 1 + 1))"
    by (rule rtranclp_trans [OF sm_sleepers C [OF 1 C [OF 2 C [OF 3 C [OF 4 C [OF 5 r_into_rtranclp [where r = sm_step, OF 6]]]]]]])
  then show ?thesis by (rule exI [where P = "\<lambda>m. _ m \<and> _ m", OF conjI]) (simp add: sm_mk_def sema_give_def fun_eq_iff)
qed

section \<open>Properties: calls\<close>

text \<open>A binary semaphore is not binary: unlocking one that is free makes its value 2, and two threads then
  lock it.\<close>

theorem sema_binary_counts:
  assumes "se_type s = X_SEMA_TYPE_BINARY" "se_value s = 1"
  shows "\<exists>s1 s2 s3. u_sema_unlock 0 t s = (OSR_OK, s1) \<and> u_sema_lock 0 0 X_SEMA_OPTION_NOWAIT t s1 = Returned (OSR_OK, s2) \<and>
    u_sema_lock 0 0 X_SEMA_OPTION_NOWAIT u s2 = Returned (OSR_OK, s3)"
  using assms by (simp add: u_sema_unlock_def u_sema_lock_def lock_value_def sema_take_def sema_give_def sema_own_def Let_def)

theorem sema_binary_counts_witness:
  "\<exists>s1. u_sema_unlock 0 7 (count0\<lparr>se_type := X_SEMA_TYPE_BINARY, se_value := 1\<rparr>) = (OSR_OK, s1)"
  using sema_binary_counts [of "count0\<lparr>se_type := X_SEMA_TYPE_BINARY, se_value := 1\<rparr>" 7 8] by auto

text \<open>Locking with a time limit: with a positive value it takes one at once; with the value 0 it returns
  \<open>OSR_TIMEOUT\<close> at once when the limit is 0, and otherwise exactly when \<open>ms\<close> milliseconds have passed, and
  then has changed nothing.\<close>

theorem sema_lock_timeout_outcome:
  assumes "se_thread s \<noteq> Some t" "snd now < 1000000000"
    and "\<And>a. wret a = (if nsecs a \<le> nsecs later then ETIMEDOUT else 0)"
  shows "if se_value s \<noteq> 0
    then \<exists>s'. u_sema_lock_timeout 0 wret now ms t s = Returned (OSR_OK, s') \<and> se_value s' = se_value s - 1 \<and> se_thread s' = Some t
    else u_sema_lock_timeout 0 wret now ms t s =
      (if ms = 0 \<or> nsecs now + unat ms * 1000000 \<le> nsecs later then Returned (OSR_TIMEOUT, s) else Waiting)"
proof (cases "ms = 0")
  case True
  then show ?thesis using assms(1)
    by (auto simp: u_sema_lock_timeout_def u_sema_lock_def lock_value_def sema_take_def sema_own_def sema_again_def)
next
  case False
  have "nsecs (timeout_at now ms) = nsecs now + unat ms * 1000000" using timeout_at_nsecs [OF assms(2)] by simp
  then show ?thesis using assms(1) False
    by (auto simp: u_sema_lock_timeout_def lock_value_def sema_take_def sema_own_def sema_again_def timed_err_def assms(3))
qed

theorem sema_lock_timeout_outcome_witness:
  "u_sema_lock_timeout 0 (\<lambda>a. if nsecs a \<le> nsecs (6, 0) then ETIMEDOUT else 0) (5, 0) 1000 7 count0 = Returned (OSR_TIMEOUT, count0)"
  using sema_lock_timeout_outcome [of count0 7 "(5, 0)" "\<lambda>a. if nsecs a \<le> nsecs (6, 0) then ETIMEDOUT else 0" "(6, 0)" 1000]
  by (simp add: count0_def nsecs_def)

text \<open>Creation accepts exactly: a mutex or binary semaphore that starts at 0 or 1, a counting semaphore that
  starts below \<open>2 ^ 31\<close>; the semaphore has that value, and a mutex made locked belongs to its creator.\<close>

theorem sema_create_accepts:
  "u_sema_create True True t True ty v =
    (if (ty = X_SEMA_TYPE_BINARY \<or> ty = X_SEMA_TYPE_MUTEX) \<and> unat v \<le> 1 \<or> ty = X_SEMA_TYPE_COUNTING \<and> unat v < 2147483648
     then (OSR_OK, Some \<lparr>se_type = ty, se_thread = (if ty = X_SEMA_TYPE_MUTEX \<and> v = 0 then Some t else None),
       se_value = v, se_selfcount = (if ty = X_SEMA_TYPE_MUTEX \<and> v = 0 then 1 else 0)\<rparr>)
     else (OSR_INV_ARG, None))"
proof -
  note s = sint_neg_u32 [of v]
  have "v = 0 \<or> v = 1 \<longleftrightarrow> unat v \<le> 1" 
  proof -
    have "unat v \<le> 1 \<longleftrightarrow> unat v = unat (0 :: u32) \<or> unat v = unat (1 :: u32)" by auto
    then show ?thesis by (simp only: word_unat_eq_iff)
  qed
  then show ?thesis unfolding u_sema_create_def Let_def by (auto simp: s)
qed

end
