(* ===== verification/RwLock.thy ===== *)
theory RwLock
  imports HandleProps Sema
begin

text \<open>The multiple-reader single-writer lock, mw/rwlock/rwl_api.c and rwl_handle_cb.c: counters under the
  critical section, with one binary semaphore for the readers that wait and one for the writers.  A lock is an
  object of the handle library; its semaphores are those of theory Sema.

  Every call runs in the critical section up to the point where it waits for a semaphore; what it does there
  is a function of the lock, \<open>read_enter\<close>, \<open>write_enter\<close>, \<open>release\<close>, and what it does when the semaphore
  lets it go is a second function.  The calls look the lock up in the handle library around these.\<close>

section \<open>State\<close>

abbreviation (input) RWLR_OK :: int where "RWLR_OK \<equiv> 0"
abbreviation (input) RWLR_INVALID_HANDLE :: int where "RWLR_INVALID_HANDLE \<equiv> -2"
abbreviation (input) RWLR_DELETE_IN_PROGRESS :: int where "RWLR_DELETE_IN_PROGRESS \<equiv> -3"
abbreviation (input) RWLR_WOULD_BLOCK :: int where "RWLR_WOULD_BLOCK \<equiv> -4"
abbreviation (input) RWL_OPTION_WAIT :: int where "RWL_OPTION_WAIT \<equiv> 1"
abbreviation (input) RWL_OPTION_NOWAIT :: int where "RWL_OPTION_NOWAIT \<equiv> 2"

abbreviation (input) DBG_ABRT_INV_LOCK_STATE :: nat where "DBG_ABRT_INV_LOCK_STATE \<equiv> 18"
abbreviation (input) DBG_ABRT_RWL_OUT_OF_MEMORY :: nat where "DBG_ABRT_RWL_OUT_OF_MEMORY \<equiv> 19"
abbreviation (input) DBG_ABRT_INVALID_HANDLE_TYPE :: nat where "DBG_ABRT_INVALID_HANDLE_TYPE \<equiv> 21"
abbreviation (input) DBG_ABRT_CANNOT_DELETE_WAIT_SEMAPHORE :: nat where "DBG_ABRT_CANNOT_DELETE_WAIT_SEMAPHORE \<equiv> 22"
abbreviation (input) DBG_ABRT_CANNOT_LOCK_WAIT_SEMAPHORE :: nat where "DBG_ABRT_CANNOT_LOCK_WAIT_SEMAPHORE \<equiv> 23"
abbreviation (input) DBG_ABRT_CANNOT_UNLOCK_WAIT_SEMAPHORE :: nat where "DBG_ABRT_CANNOT_UNLOCK_WAIT_SEMAPHORE \<equiv> 24"

text \<open>\<open>HT_GROUP_COMMON + 1\<close>.\<close>

abbreviation (input) READ_WRITE_LOCK :: u16 where "READ_WRITE_LOCK \<equiv> 129"

text \<open>\<open>h_wr_thread\<close> is a thread handle, \<open>NULL\<close> for none.\<close>

record mrsw =
  h_sem_wait_wr :: sema
  h_sem_wait_rd :: sema
  ui2_wr_access_cnt :: u16
  ui2_wr_wait_cnt :: u16
  ui2_rd_access_cnt :: u16
  ui2_rd_wait_cnt :: u16
  ui2_rd_inside_wr_cnt :: u16
  h_wr_thread :: ptr
  b_del_flag :: bool

record rwl_sys =
  rw_hlib :: hlib
  rw_locks :: "ptr \<Rightarrow> mrsw option"

section \<open>In the critical section\<close>

text \<open>How an attempt ends: with a return code, or by waiting for the semaphore.\<close>

datatype attempt = Ended int | Queued

text \<open>The code tests the delete flag again after it has taken the lock; inside the critical section it still has
  the value tested first, so the branch that would release the lock again is never taken.\<close>

definition read_enter :: "int \<Rightarrow> ptr \<Rightarrow> mrsw \<Rightarrow> attempt \<times> mrsw" where
  "read_enter e_option me l =
    (if b_del_flag l then (Ended RWLR_DELETE_IN_PROGRESS, l)
     else if ui2_wr_access_cnt l = 0 \<and> ui2_rd_wait_cnt l = 0 \<and> ui2_wr_wait_cnt l = 0
     then (Ended RWLR_OK, l\<lparr>ui2_rd_access_cnt := ui2_rd_access_cnt l + 1\<rparr>)
     else if h_wr_thread l = me then (Ended RWLR_OK, l\<lparr>ui2_rd_inside_wr_cnt := ui2_rd_inside_wr_cnt l + 1\<rparr>)
     else if e_option = RWL_OPTION_WAIT then (Queued, l\<lparr>ui2_rd_wait_cnt := ui2_rd_wait_cnt l + 1\<rparr>)
     else (Ended RWLR_WOULD_BLOCK, l))"

definition write_enter :: "int \<Rightarrow> ptr \<Rightarrow> mrsw \<Rightarrow> attempt \<times> mrsw" where
  "write_enter e_option me l =
    (if b_del_flag l then (Ended RWLR_DELETE_IN_PROGRESS, l)
     else if ui2_rd_access_cnt l = 0 \<and> ui2_wr_access_cnt l = 0 \<and> ui2_rd_wait_cnt l = 0 \<and> ui2_wr_wait_cnt l = 0
     then (Ended RWLR_OK, l\<lparr>ui2_wr_access_cnt := ui2_wr_access_cnt l + 1, h_wr_thread := me\<rparr>)
     else if ui2_rd_access_cnt l = 0 \<and> ui2_rd_inside_wr_cnt l = 0 \<and> 0 < ui2_wr_access_cnt l \<and> h_wr_thread l = me
     then (Ended RWLR_OK, l\<lparr>ui2_wr_access_cnt := ui2_wr_access_cnt l + 1\<rparr>)
     else if e_option = RWL_OPTION_WAIT then (Queued, l\<lparr>ui2_wr_wait_cnt := ui2_wr_wait_cnt l + 1\<rparr>)
     else (Ended RWLR_WOULD_BLOCK, l))"

text \<open>Letting one waiting reader or writer go.\<close>

definition post_rd :: "ptr \<Rightarrow> mrsw \<Rightarrow> mrsw result" where
  "post_rd me l = (case u_sema_unlock 0 me (h_sem_wait_rd l) of (r, x) \<Rightarrow>
     if r \<noteq> OSR_OK then Inl (Aborted DBG_ABRT_CANNOT_UNLOCK_WAIT_SEMAPHORE) else Inr (l\<lparr>h_sem_wait_rd := x\<rparr>))"

definition post_wr :: "ptr \<Rightarrow> mrsw \<Rightarrow> mrsw result" where
  "post_wr me l = (case u_sema_unlock 0 me (h_sem_wait_wr l) of (r, x) \<Rightarrow>
     if r \<noteq> OSR_OK then Inl (Aborted DBG_ABRT_CANNOT_UNLOCK_WAIT_SEMAPHORE) else Inr (l\<lparr>h_sem_wait_wr := x\<rparr>))"

text \<open>Releasing.  The first result is the state that \<open>RWLOCK_COPY_STATE_INFO\<close> copied, which decides on the
  deletion; \<open>None\<close> where the call returns before.\<close>

definition release_reader :: "ptr \<Rightarrow> mrsw \<Rightarrow> (mrsw option \<times> mrsw) result" where
  "release_reader me l0 =
    (let l = l0\<lparr>ui2_rd_access_cnt := ui2_rd_access_cnt l0 - 1\<rparr> in
     if 0 < ui2_rd_wait_cnt l \<and> ui2_rd_access_cnt l = 0
     then then_do (post_rd me (l\<lparr>ui2_rd_wait_cnt := ui2_rd_wait_cnt l - 1, ui2_rd_access_cnt := ui2_rd_access_cnt l + 1\<rparr>))
            (\<lambda>l'. Inr (Some l, l'))
     else if ui2_rd_access_cnt l = 0 \<and> 0 < ui2_wr_wait_cnt l
     then then_do (post_wr me (l\<lparr>ui2_wr_access_cnt := ui2_wr_access_cnt l + 1, ui2_wr_wait_cnt := ui2_wr_wait_cnt l - 1\<rparr>))
            (\<lambda>l'. Inr (Some l, l'))
     else Inr (Some l, l))"

definition release_writer :: "ptr \<Rightarrow> mrsw \<Rightarrow> (mrsw option \<times> mrsw) result" where
  "release_writer me l0 =
    (let l = l0\<lparr>ui2_wr_access_cnt := ui2_wr_access_cnt l0 - 1\<rparr>;
         l = (if ui2_wr_access_cnt l = 0 then l\<lparr>h_wr_thread := NULL\<rparr> else l) in
     if ui2_wr_access_cnt l = 0 \<and> 0 < ui2_wr_wait_cnt l
     then then_do (post_wr me (l\<lparr>ui2_wr_access_cnt := ui2_wr_access_cnt l + 1, h_wr_thread := me, ui2_wr_wait_cnt := ui2_wr_wait_cnt l - 1\<rparr>))
            (\<lambda>l'. Inr (Some l, l'))
     else if ui2_wr_access_cnt l = 0 \<and> 0 < ui2_rd_wait_cnt l
     then then_do (post_rd me (l\<lparr>ui2_rd_wait_cnt := ui2_rd_wait_cnt l - 1, ui2_rd_access_cnt := ui2_rd_access_cnt l + 1\<rparr>))
            (\<lambda>l'. Inr (Some l, l'))
     else Inr (Some l, l))"

definition release :: "ptr \<Rightarrow> mrsw \<Rightarrow> (mrsw option \<times> mrsw) result" where
  "release me l =
    (if 0 < ui2_rd_access_cnt l \<and> 0 < ui2_wr_access_cnt l then Inl (Aborted DBG_ABRT_INV_LOCK_STATE)
     else if 0 < ui2_rd_inside_wr_cnt l then
       (if \<not> 0 < ui2_wr_access_cnt l then Inl (Aborted DBG_ABRT_INV_LOCK_STATE)
        else Inr (None, l\<lparr>ui2_rd_inside_wr_cnt := ui2_rd_inside_wr_cnt l - 1\<rparr>))
     else if 0 < ui2_rd_access_cnt l then release_reader me l
     else if 0 < ui2_wr_access_cnt l then release_writer me l
     else Inr (Some l, l))"

text \<open>The test for the deletion, the same in \<open>u_rwl_release_lock\<close> and \<open>u_rwl_delete_lock\<close>.\<close>

definition unused :: "mrsw \<Rightarrow> bool" where
  "unused l \<longleftrightarrow> ui2_wr_access_cnt l = 0 \<and> ui2_wr_wait_cnt l = 0 \<and> ui2_rd_access_cnt l = 0 \<and> ui2_rd_wait_cnt l = 0"

section \<open>Waiting\<close>

definition read_wake :: "ptr \<Rightarrow> mrsw \<Rightarrow> mrsw waits result" where
  "read_wake me l = (case u_sema_lock 0 0 X_SEMA_OPTION_WAIT me (h_sem_wait_rd l) of
     Waiting \<Rightarrow> Inr Waiting
   | Returned (r, x) \<Rightarrow>
     if r \<noteq> OSR_OK then Inl (Aborted DBG_ABRT_CANNOT_LOCK_WAIT_SEMAPHORE) else Inr (Returned (l\<lparr>h_sem_wait_rd := x\<rparr>)))"

definition write_wake :: "ptr \<Rightarrow> mrsw \<Rightarrow> mrsw waits result" where
  "write_wake me l = (case u_sema_lock 0 0 X_SEMA_OPTION_WAIT me (h_sem_wait_wr l) of
     Waiting \<Rightarrow> Inr Waiting
   | Returned (r, x) \<Rightarrow>
     if r \<noteq> OSR_OK then Inl (Aborted DBG_ABRT_CANNOT_LOCK_WAIT_SEMAPHORE)
     else Inr (Returned (l\<lparr>h_sem_wait_wr := x, h_wr_thread := me\<rparr>)))"

section \<open>Calls\<close>

text \<open>The lock that a handle names.\<close>

definition lock_of :: "handle \<Rightarrow> rwl_sys \<Rightarrow> ptr option" where
  "lock_of h s = (case u_handle_get_type_obj h True True (rw_hlib s) of
     (r, Some (ty, obj), _) \<Rightarrow> if r = HR_OK \<and> ty = READ_WRITE_LOCK then Some obj else None
   | _ \<Rightarrow> None)"

text \<open>The free callback of locks.\<close>

definition rwl_handle_cb :: "(ptr \<Rightarrow> mrsw option) \<Rightarrow> u16 \<Rightarrow> ptr \<Rightarrow> bool result" where
  "rwl_handle_cb locks ty obj =
    (if obj \<noteq> NULL then
       if ty = READ_WRITE_LOCK then
         (case locks obj of None \<Rightarrow> Inl BadAccess | Some l \<Rightarrow> Inr (b_del_flag l))
       else Inl (Aborted DBG_ABRT_INVALID_HANDLE_TYPE)
     else Inr False)"

text \<open>\<open>cb\<close> is the address of \<open>rwl_handle_cb\<close>, \<open>other\<close> what other free callbacks of the program do, \<open>acb\<close> what
  the callbacks of auxiliary lists do.\<close>

definition rwl_free_cb :: "fptr \<Rightarrow> unit free_cb \<Rightarrow> (ptr \<Rightarrow> mrsw option) \<Rightarrow> unit free_cb" where
  "rwl_free_cb cb other locks f h ty obj tag req s =
    (if f = cb then then_do (rwl_handle_cb locks ty obj) (\<lambda>b. Inr (b, s)) else other f h ty obj tag req s)"

definition free_rwlock_resource :: "fptr \<Rightarrow> unit free_cb \<Rightarrow> unit aux_free_cb \<Rightarrow> bool \<Rightarrow> handle \<Rightarrow> ptr \<Rightarrow> rwl_sys \<Rightarrow> rwl_sys result" where
  "free_rwlock_resource cb other acb destroy h p s =
    then_do (u_handle_free (rwl_free_cb cb other (rw_locks s)) acb h True (rw_hlib s)) (\<lambda>(r, hl).
      case rw_locks s p of
        None \<Rightarrow> Inl BadAccess
      | Some l \<Rightarrow>
        if fst (u_sema_delete destroy (h_sem_wait_wr l)) \<noteq> OSR_OK \<or> fst (u_sema_delete destroy (h_sem_wait_rd l)) \<noteq> OSR_OK
        then Inl (Aborted DBG_ABRT_CANNOT_DELETE_WAIT_SEMAPHORE)
        else Inr \<lparr>rw_hlib = hl, rw_locks = (rw_locks s)(p := None)\<rparr>)"

text \<open>\<open>mem\<close> is what \<open>malloc\<close> returns; \<open>ra\<close> what \<open>realloc\<close> does when the handle library grows.\<close>

definition new_lock :: "sema \<Rightarrow> sema \<Rightarrow> mrsw" where
  "new_lock wr rd = \<lparr>h_sem_wait_wr = wr, h_sem_wait_rd = rd, ui2_wr_access_cnt = 0, ui2_wr_wait_cnt = 0,
     ui2_rd_access_cnt = 0, ui2_rd_wait_cnt = 0, ui2_rd_inside_wr_cnt = 0, h_wr_thread = NULL, b_del_flag = False\<rparr>"

definition u_rwl_create_lock :: "fptr \<Rightarrow> (ptr \<Rightarrow> u32 \<Rightarrow> ptr) \<Rightarrow> ptr \<Rightarrow> tid \<Rightarrow> bool \<Rightarrow> rwl_sys \<Rightarrow> (int \<times> handle \<times> rwl_sys) result" where
  "u_rwl_create_lock cb ra mem me sem_ok s =
    (if mem = NULL then Inl (Aborted DBG_ABRT_RWL_OUT_OF_MEMORY)
     else case u_sema_create sem_ok True me True X_SEMA_TYPE_BINARY X_SEMA_STATE_LOCK of
       (_, None) \<Rightarrow> Inl (Aborted 16)
     | (_, Some x) \<Rightarrow>
       then_do (u_handle_alloc ra READ_WRITE_LOCK mem NULL cb True (rw_hlib s)) (\<lambda>(r, h, hl).
         if r \<noteq> HR_OK \<or> h = None then Inl (Aborted DBG_ABRT_RWL_OUT_OF_MEMORY)
         else Inr (RWLR_OK, the h, \<lparr>rw_hlib = hl, rw_locks = (rw_locks s)(mem \<mapsto> new_lock x x)\<rparr>)))"

definition on_lock :: "handle \<Rightarrow> rwl_sys \<Rightarrow> (ptr \<Rightarrow> mrsw \<Rightarrow> (attempt \<times> rwl_sys) result) \<Rightarrow> (attempt \<times> rwl_sys) result" where
  "on_lock h s f = (case lock_of h s of
     None \<Rightarrow> Inr (Ended RWLR_INVALID_HANDLE, s)
   | Some p \<Rightarrow> (case rw_locks s p of None \<Rightarrow> Inl BadAccess | Some l \<Rightarrow> f p l))"

definition set_lock :: "ptr \<Rightarrow> mrsw \<Rightarrow> rwl_sys \<Rightarrow> rwl_sys" where
  "set_lock p l s = s\<lparr>rw_locks := (rw_locks s)(p \<mapsto> l)\<rparr>"

definition u_rwl_read_lock :: "ptr \<Rightarrow> handle \<Rightarrow> int \<Rightarrow> rwl_sys \<Rightarrow> (attempt \<times> rwl_sys) result" where
  "u_rwl_read_lock me h e_option s =
    on_lock h s (\<lambda>p l. case read_enter e_option me l of (a, l') \<Rightarrow> Inr (a, set_lock p l' s))"

definition u_rwl_write_lock :: "ptr \<Rightarrow> handle \<Rightarrow> int \<Rightarrow> rwl_sys \<Rightarrow> (attempt \<times> rwl_sys) result" where
  "u_rwl_write_lock me h e_option s =
    on_lock h s (\<lambda>p l. case write_enter e_option me l of (a, l') \<Rightarrow> Inr (a, set_lock p l' s))"

text \<open>The rest of these two calls once they wait: they go on with the pointer they have.\<close>

definition wait_lock :: "(ptr \<Rightarrow> mrsw \<Rightarrow> mrsw waits result) \<Rightarrow> ptr \<Rightarrow> ptr \<Rightarrow> rwl_sys \<Rightarrow> (int \<times> rwl_sys) waits result" where
  "wait_lock wk me p s = (case rw_locks s p of
     None \<Rightarrow> Inl BadAccess
   | Some l \<Rightarrow> then_do (wk me l) (\<lambda>w. case w of
       Waiting \<Rightarrow> Inr Waiting
     | Returned l' \<Rightarrow> Inr (Returned (RWLR_OK, set_lock p l' s))))"

definition u_rwl_release_lock :: "fptr \<Rightarrow> unit free_cb \<Rightarrow> unit aux_free_cb \<Rightarrow> bool \<Rightarrow> ptr \<Rightarrow> handle \<Rightarrow> rwl_sys
    \<Rightarrow> (attempt \<times> rwl_sys) result" where
  "u_rwl_release_lock cb other acb destroy me h s =
    on_lock h s (\<lambda>p l. then_do (release me l) (\<lambda>(c, l').
      let s' = set_lock p l' s in
      case c of
        None \<Rightarrow> Inr (Ended RWLR_OK, s')
      | Some k \<Rightarrow>
        if b_del_flag k \<and> unused k
        then then_do (free_rwlock_resource cb other acb destroy h p s') (\<lambda>s''. Inr (Ended RWLR_OK, s''))
        else Inr (Ended RWLR_OK, s')))"

definition u_rwl_delete_lock :: "fptr \<Rightarrow> unit free_cb \<Rightarrow> unit aux_free_cb \<Rightarrow> bool \<Rightarrow> handle \<Rightarrow> rwl_sys \<Rightarrow> (attempt \<times> rwl_sys) result" where
  "u_rwl_delete_lock cb other acb destroy h s =
    on_lock h s (\<lambda>p l.
      if b_del_flag l then Inr (Ended RWLR_DELETE_IN_PROGRESS, s)
      else let s' = set_lock p (l\<lparr>b_del_flag := True\<rparr>) s in
        if unused l
        then then_do (free_rwlock_resource cb other acb destroy h p s') (\<lambda>s''. Inr (Ended RWLR_OK, s''))
        else Inr (Ended RWLR_OK, s'))"

definition rwl_read_lock_grabbed :: "handle \<Rightarrow> rwl_sys \<Rightarrow> bool result" where
  "rwl_read_lock_grabbed h s = (case lock_of h s of
     None \<Rightarrow> Inr False
   | Some p \<Rightarrow> (case rw_locks s p of
       None \<Rightarrow> Inl BadAccess
     | Some l \<Rightarrow> Inr (0 < ui2_rd_access_cnt l \<or> 0 < ui2_rd_inside_wr_cnt l)))"

definition u_rwl_write_lock_grabbed :: "ptr \<Rightarrow> handle \<Rightarrow> rwl_sys \<Rightarrow> bool result" where
  "u_rwl_write_lock_grabbed me h s = (case lock_of h s of
     None \<Rightarrow> Inr False
   | Some p \<Rightarrow> (case rw_locks s p of
       None \<Rightarrow> Inl BadAccess
     | Some l \<Rightarrow> Inr (h_wr_thread l = me \<and> 0 < ui2_wr_access_cnt l)))"

end
