(* ===== verification/RwLockInv.thy ===== *)
theory RwLockInv
  imports RwLock "HOL-Library.Multiset"
begin

text \<open>Any number of threads that use one read/write lock: a transition system over the steps between which
  threads may run, with the holders and the waiting threads as ghosts, and its invariant.\<close>

section \<open>Counters\<close>

lemma u16_inc: "unat (c :: u16) < 65535 \<Longrightarrow> unat (c + 1) = unat c + 1"
  by (simp add: unat_word_ariths)

lemma u16_dec: "0 < (c :: u16) \<Longrightarrow> unat (c - 1) = unat c - 1"
  by (simp add: unat_minus_one word_gt_0)

lemma u16_pos: "0 < (c :: u16) \<longleftrightarrow> 0 < unat c" "c = 0 \<longleftrightarrow> unat c = 0"
  by (simp_all add: unat_gt_0 word_gt_0 unat_eq_0)

section \<open>Threads\<close>

text \<open>\<open>rr_readers\<close> and \<open>rr_writers\<close> hold a thread once per lock it has got and not released, \<open>rr_in\<close> those that
  got a lock for reading because \<open>h_wr_thread\<close> was theirs, inside a lock for writing.\<close>

record rw_run =
  rr_lock :: mrsw
  rr_readers :: "ptr multiset"
  rr_writers :: "ptr multiset"
  rr_in :: "ptr multiset"
  rr_wait_rd :: "ptr multiset"
  rr_wait_wr :: "ptr multiset"

definition awake :: "rw_run \<Rightarrow> ptr \<Rightarrow> bool" where
  "awake s t \<longleftrightarrow> t \<noteq> NULL \<and> t \<notin># rr_wait_rd s \<and> t \<notin># rr_wait_wr s"

definition roomy :: "mrsw \<Rightarrow> bool" where
  "roomy l \<longleftrightarrow> unat (ui2_rd_access_cnt l) < 65535 \<and> unat (ui2_wr_access_cnt l) < 65535 \<and>
     unat (ui2_rd_wait_cnt l) < 65535 \<and> unat (ui2_wr_wait_cnt l) < 65535 \<and> unat (ui2_rd_inside_wr_cnt l) < 65535"

definition got_read :: "ptr \<Rightarrow> mrsw \<Rightarrow> rw_run \<Rightarrow> rw_run" where
  "got_read t l' s =
    (if ui2_rd_inside_wr_cnt l' = ui2_rd_inside_wr_cnt (rr_lock s) then s\<lparr>rr_lock := l', rr_readers := add_mset t (rr_readers s)\<rparr>
     else s\<lparr>rr_lock := l', rr_in := add_mset t (rr_in s)\<rparr>)"

text \<open>The locks of a thread nest: it gives back the last one it has got, first one inside a lock for writing.\<close>

definition released :: "ptr \<Rightarrow> mrsw \<Rightarrow> rw_run \<Rightarrow> rw_run" where
  "released t l' s =
    (if t \<in># rr_in s then s\<lparr>rr_lock := l', rr_in := rr_in s - {#t#}\<rparr>
     else if t \<in># rr_readers s then s\<lparr>rr_lock := l', rr_readers := rr_readers s - {#t#}\<rparr>
     else s\<lparr>rr_lock := l', rr_writers := rr_writers s - {#t#}\<rparr>)"

text \<open>\<open>h_wr_thread\<close> stays that of a writer that has handed the lock over, until the next writer has run.  A thread is
  settled when it is not such a writer.\<close>

definition settled :: "ptr \<Rightarrow> rw_run \<Rightarrow> bool" where
  "settled t s \<longleftrightarrow> (h_wr_thread (rr_lock s) = t \<longrightarrow> t \<in># rr_writers s)"

text \<open>The steps of any threads.  A thread releases only a lock it holds, and the counters have room.  With
  \<open>strict\<close> a thread that has handed the lock over does not take it again before the next writer has run.\<close>

inductive rw_steps :: "bool \<Rightarrow> rw_run \<Rightarrow> rw_run \<Rightarrow> bool" for strict where
  rd_got: "awake s t \<Longrightarrow> roomy (rr_lock s) \<Longrightarrow> (strict \<longrightarrow> settled t s) \<Longrightarrow> read_enter e t (rr_lock s) = (Ended RWLR_OK, l') \<Longrightarrow>
    rw_steps strict s (got_read t l' s)"
| rd_queue: "awake s t \<Longrightarrow> roomy (rr_lock s) \<Longrightarrow> read_enter e t (rr_lock s) = (Queued, l') \<Longrightarrow>
    rw_steps strict s (s\<lparr>rr_lock := l', rr_wait_rd := add_mset t (rr_wait_rd s)\<rparr>)"
| rd_wake: "t \<in># rr_wait_rd s \<Longrightarrow> read_wake t (rr_lock s) = Inr (Returned l') \<Longrightarrow>
    rw_steps strict s (s\<lparr>rr_lock := l', rr_wait_rd := rr_wait_rd s - {#t#}, rr_readers := add_mset t (rr_readers s)\<rparr>)"
| wr_got: "awake s t \<Longrightarrow> roomy (rr_lock s) \<Longrightarrow> (strict \<longrightarrow> settled t s) \<Longrightarrow> write_enter e t (rr_lock s) = (Ended RWLR_OK, l') \<Longrightarrow>
    rw_steps strict s (s\<lparr>rr_lock := l', rr_writers := add_mset t (rr_writers s)\<rparr>)"
| wr_queue: "awake s t \<Longrightarrow> roomy (rr_lock s) \<Longrightarrow> write_enter e t (rr_lock s) = (Queued, l') \<Longrightarrow>
    rw_steps strict s (s\<lparr>rr_lock := l', rr_wait_wr := add_mset t (rr_wait_wr s)\<rparr>)"
| wr_wake: "t \<in># rr_wait_wr s \<Longrightarrow> t \<noteq> NULL \<Longrightarrow> write_wake t (rr_lock s) = Inr (Returned l') \<Longrightarrow>
    rw_steps strict s (s\<lparr>rr_lock := l', rr_wait_wr := rr_wait_wr s - {#t#}, rr_writers := add_mset t (rr_writers s)\<rparr>)"
| rel: "awake s t \<Longrightarrow> t \<in># rr_readers s + rr_writers s + rr_in s \<Longrightarrow> release t (rr_lock s) = Inr (c, l') \<Longrightarrow>
    rw_steps strict s (released t l' s)"
| del: "rw_steps strict s (s\<lparr>rr_lock := (rr_lock s)\<lparr>b_del_flag := True\<rparr>\<rparr>)"

abbreviation rw_step :: "rw_run \<Rightarrow> rw_run \<Rightarrow> bool" where "rw_step \<equiv> rw_steps False"
abbreviation rw_strict :: "rw_run \<Rightarrow> rw_run \<Rightarrow> bool" where "rw_strict \<equiv> rw_steps True"

definition binary_sema :: sema where
  "binary_sema = \<lparr>se_type = X_SEMA_TYPE_BINARY, se_thread = None, se_value = 0, se_selfcount = 0\<rparr>"

definition rw_start :: rw_run where
  "rw_start = \<lparr>rr_lock = new_lock binary_sema binary_sema, rr_readers = {#}, rr_writers = {#}, rr_in = {#},
     rr_wait_rd = {#}, rr_wait_wr = {#}\<rparr>"

section \<open>The invariant\<close>

abbreviation posted_rd :: "mrsw \<Rightarrow> nat" where "posted_rd l \<equiv> unat (se_value (h_sem_wait_rd l))"
abbreviation posted_wr :: "mrsw \<Rightarrow> nat" where "posted_wr l \<equiv> unat (se_value (h_sem_wait_wr l))"

text \<open>The counters count the holders together with those who have been let go and have not run yet.\<close>

definition counts_ok :: "rw_run \<Rightarrow> bool" where
  "counts_ok s \<longleftrightarrow> (let l = rr_lock s in
     se_type (h_sem_wait_rd l) = X_SEMA_TYPE_BINARY \<and> se_type (h_sem_wait_wr l) = X_SEMA_TYPE_BINARY \<and>
     unat (ui2_rd_access_cnt l) = size (rr_readers s) + posted_rd l \<and>
     unat (ui2_wr_access_cnt l) = size (rr_writers s) + posted_wr l \<and>
     size (rr_wait_rd s) = unat (ui2_rd_wait_cnt l) + posted_rd l \<and>
     size (rr_wait_wr s) = unat (ui2_wr_wait_cnt l) + posted_wr l \<and>
     unat (ui2_rd_inside_wr_cnt l) = size (rr_in s))"

definition lock_ok :: "mrsw \<Rightarrow> bool" where
  "lock_ok l \<longleftrightarrow> \<not> (0 < ui2_rd_access_cnt l \<and> 0 < ui2_wr_access_cnt l) \<and>
     (0 < ui2_rd_inside_wr_cnt l \<longrightarrow> 0 < ui2_wr_access_cnt l) \<and>
     (ui2_wr_access_cnt l = 0 \<longrightarrow> h_wr_thread l = NULL)"

definition rw_inv :: "rw_run \<Rightarrow> bool" where
  "rw_inv s \<longleftrightarrow> counts_ok s \<and> lock_ok (rr_lock s)"

lemma rw_inv_start: "rw_inv rw_start"
  by (simp add: rw_inv_def counts_ok_def lock_ok_def rw_start_def new_lock_def binary_sema_def Let_def)

text \<open>The semaphores.\<close>

lemma post_rd_eq:
  "se_type (h_sem_wait_rd l) = X_SEMA_TYPE_BINARY \<Longrightarrow>
    post_rd me l = Inr (l\<lparr>h_sem_wait_rd := (h_sem_wait_rd l)\<lparr>se_thread := None, se_value := se_value (h_sem_wait_rd l) + 1\<rparr>\<rparr>)"
  by (simp add: post_rd_def u_sema_unlock_def sema_give_def Let_def)

lemma post_wr_eq:
  "se_type (h_sem_wait_wr l) = X_SEMA_TYPE_BINARY \<Longrightarrow>
    post_wr me l = Inr (l\<lparr>h_sem_wait_wr := (h_sem_wait_wr l)\<lparr>se_thread := None, se_value := se_value (h_sem_wait_wr l) + 1\<rparr>\<rparr>)"
  by (simp add: post_wr_def u_sema_unlock_def sema_give_def Let_def)

lemma read_wake_eq:
  "se_type (h_sem_wait_rd l) = X_SEMA_TYPE_BINARY \<Longrightarrow> read_wake me l = Inr (if se_value (h_sem_wait_rd l) = 0 then Waiting
    else Returned (l\<lparr>h_sem_wait_rd := (h_sem_wait_rd l)\<lparr>se_value := se_value (h_sem_wait_rd l) - 1, se_thread := Some me\<rparr>\<rparr>))"
  by (simp add: read_wake_def u_sema_lock_def lock_value_def sema_take_def sema_own_def)

lemma write_wake_eq:
  "se_type (h_sem_wait_wr l) = X_SEMA_TYPE_BINARY \<Longrightarrow> write_wake me l = Inr (if se_value (h_sem_wait_wr l) = 0 then Waiting
    else Returned (l\<lparr>h_sem_wait_wr := (h_sem_wait_wr l)\<lparr>se_value := se_value (h_sem_wait_wr l) - 1, se_thread := Some me\<rparr>, h_wr_thread := me\<rparr>))"
  by (simp add: write_wake_def u_sema_lock_def lock_value_def sema_take_def sema_own_def)

lemma u32_inc: "unat (v :: u32) < 4294967295 \<Longrightarrow> unat (v + 1) = unat v + 1"
  by (simp add: unat_word_ariths)

lemma u32_dec: "(v :: u32) \<noteq> 0 \<Longrightarrow> unat (v - 1) = unat v - 1 \<and> 0 < unat v"
  by (simp add: unat_minus_one unat_gt_0)

lemma posted_bound:
  assumes "counts_ok s"
  shows "posted_rd (rr_lock s) < 4294967295" "posted_wr (rr_lock s) < 4294967295"
  using assms unat_bounds(2) [of "ui2_rd_access_cnt (rr_lock s)"] unat_bounds(2) [of "ui2_wr_access_cnt (rr_lock s)"]
  by (auto simp: counts_ok_def Let_def)

section \<open>Steps keep the invariant\<close>

lemma rw_inv_read_enter:
  assumes "rw_inv s" "awake s t" "roomy (rr_lock s)"
  shows "read_enter e t (rr_lock s) = (Ended RWLR_OK, l') \<Longrightarrow> rw_inv (got_read t l' s)"
    and "read_enter e t (rr_lock s) = (Queued, l') \<Longrightarrow> rw_inv (s\<lparr>rr_lock := l', rr_wait_rd := add_mset t (rr_wait_rd s)\<rparr>)"
proof -
  let ?l = "rr_lock s"
  have b: "unat (ui2_rd_access_cnt ?l) < 65535" "unat (ui2_rd_wait_cnt ?l) < 65535" "unat (ui2_rd_inside_wr_cnt ?l) < 65535"
    using assms(3) by (simp_all add: roomy_def)
  have t: "t \<noteq> NULL" using assms(2) by (simp add: awake_def)
  show "rw_inv (got_read t l' s)" if r: "read_enter e t ?l = (Ended RWLR_OK, l')"
  proof (cases "ui2_wr_access_cnt ?l = 0 \<and> ui2_rd_wait_cnt ?l = 0 \<and> ui2_wr_wait_cnt ?l = 0")
    case True
    then have "l' = ?l\<lparr>ui2_rd_access_cnt := ui2_rd_access_cnt ?l + 1\<rparr>" using r by (simp add: read_enter_def split: if_splits)
    then show ?thesis using assms(1) True u16_inc [OF b(1)]
      by (auto simp: got_read_def rw_inv_def counts_ok_def lock_ok_def Let_def)
  next
    case False
    then have l': "l' = ?l\<lparr>ui2_rd_inside_wr_cnt := ui2_rd_inside_wr_cnt ?l + 1\<rparr>" "h_wr_thread ?l = t"
      using r by (auto simp: read_enter_def split: if_splits)
    then have "ui2_wr_access_cnt ?l \<noteq> 0" using assms(1) t by (auto simp: rw_inv_def lock_ok_def)
    then show ?thesis using assms(1) l' u16_inc [OF b(3)]
      by (auto simp: got_read_def rw_inv_def counts_ok_def lock_ok_def Let_def word_gt_0)
  qed
  show "rw_inv (s\<lparr>rr_lock := l', rr_wait_rd := add_mset t (rr_wait_rd s)\<rparr>)" if r: "read_enter e t ?l = (Queued, l')"
  proof -
    have "l' = ?l\<lparr>ui2_rd_wait_cnt := ui2_rd_wait_cnt ?l + 1\<rparr>" using r by (simp add: read_enter_def split: if_splits)
    then show ?thesis using assms(1) u16_inc [OF b(2)] by (simp add: rw_inv_def counts_ok_def lock_ok_def Let_def)
  qed
qed

lemma rw_inv_write_enter:
  assumes "rw_inv s" "roomy (rr_lock s)"
  shows "write_enter e t (rr_lock s) = (Ended RWLR_OK, l') \<Longrightarrow> rw_inv (s\<lparr>rr_lock := l', rr_writers := add_mset t (rr_writers s)\<rparr>)"
    and "write_enter e t (rr_lock s) = (Queued, l') \<Longrightarrow> rw_inv (s\<lparr>rr_lock := l', rr_wait_wr := add_mset t (rr_wait_wr s)\<rparr>)"
proof -
  let ?l = "rr_lock s"
  have b: "unat (ui2_wr_access_cnt ?l) < 65535" "unat (ui2_wr_wait_cnt ?l) < 65535" using assms(2) by (simp_all add: roomy_def)
  have n: "0 < ui2_wr_access_cnt ?l + 1" using u16_inc [OF b(1)] by (simp add: u16_pos)
  show "rw_inv (s\<lparr>rr_lock := l', rr_writers := add_mset t (rr_writers s)\<rparr>)" if r: "write_enter e t ?l = (Ended RWLR_OK, l')"
  proof -
    have l': "ui2_rd_access_cnt ?l = 0" "l' = ?l\<lparr>ui2_wr_access_cnt := ui2_wr_access_cnt ?l + 1, h_wr_thread := t\<rparr>"
      using r by (auto simp: write_enter_def split: if_splits)
    then show ?thesis using assms(1) u16_inc [OF b(1)] n
      by (simp add: rw_inv_def counts_ok_def lock_ok_def Let_def word_gt_0)
  qed
  show "rw_inv (s\<lparr>rr_lock := l', rr_wait_wr := add_mset t (rr_wait_wr s)\<rparr>)" if r: "write_enter e t ?l = (Queued, l')"
  proof -
    have "l' = ?l\<lparr>ui2_wr_wait_cnt := ui2_wr_wait_cnt ?l + 1\<rparr>" using r by (simp add: write_enter_def split: if_splits)
    then show ?thesis using assms(1) u16_inc [OF b(2)] by (simp add: rw_inv_def counts_ok_def lock_ok_def Let_def)
  qed
qed

lemma rw_inv_read_wake:
  assumes "rw_inv s" "t \<in># rr_wait_rd s" "read_wake t (rr_lock s) = Inr (Returned l')"
  shows "rw_inv (s\<lparr>rr_lock := l', rr_wait_rd := rr_wait_rd s - {#t#}, rr_readers := add_mset t (rr_readers s)\<rparr>)"
proof -
  let ?x = "h_sem_wait_rd (rr_lock s)"
  have b: "se_type ?x = X_SEMA_TYPE_BINARY" using assms(1) by (simp add: rw_inv_def counts_ok_def Let_def)
  then have "se_value ?x \<noteq> 0" and l': "l' = (rr_lock s)\<lparr>h_sem_wait_rd := ?x\<lparr>se_value := se_value ?x - 1, se_thread := Some t\<rparr>\<rparr>"
    using assms(3) by (auto simp: read_wake_eq split: if_splits)
  then show ?thesis using assms(1) u32_dec [of "se_value ?x"] size_Diff_singleton [OF assms(2)]
    by (auto simp: l' rw_inv_def counts_ok_def lock_ok_def Let_def)
qed

lemma rw_inv_write_wake:
  assumes "rw_inv s" "t \<in># rr_wait_wr s" "write_wake t (rr_lock s) = Inr (Returned l')"
  shows "rw_inv (s\<lparr>rr_lock := l', rr_wait_wr := rr_wait_wr s - {#t#}, rr_writers := add_mset t (rr_writers s)\<rparr>)"
proof -
  let ?x = "h_sem_wait_wr (rr_lock s)"
  have b: "se_type ?x = X_SEMA_TYPE_BINARY" using assms(1) by (simp add: rw_inv_def counts_ok_def Let_def)
  then have v: "se_value ?x \<noteq> 0" and l': "l' = (rr_lock s)\<lparr>h_sem_wait_wr := ?x\<lparr>se_value := se_value ?x - 1, se_thread := Some t\<rparr>, h_wr_thread := t\<rparr>"
    using assms(3) by (auto simp: write_wake_eq split: if_splits)
  then have "0 < ui2_wr_access_cnt (rr_lock s)"
    using assms(1) u32_dec [of "se_value ?x"] by (simp add: u16_pos rw_inv_def counts_ok_def Let_def)
  then show ?thesis using assms(1) v u32_dec [of "se_value ?x"] size_Diff_singleton [OF assms(2)]
    by (auto simp: l' rw_inv_def counts_ok_def lock_ok_def Let_def word_gt_0)
qed

lemma rw_inv_release_reader:
  assumes inv: "rw_inv s" and r: "0 < ui2_rd_access_cnt (rr_lock s)" and t: "t \<in># rr_readers s"
    and rel: "release_reader t (rr_lock s) = Inr (c, l')"
  shows "rw_inv (s\<lparr>rr_lock := l', rr_readers := rr_readers s - {#t#}\<rparr>)"
proof -
  let ?l = "rr_lock s" let ?x = "h_sem_wait_rd ?l" let ?y = "h_sem_wait_wr ?l" let ?d = "ui2_rd_access_cnt ?l - 1"
  note B = posted_bound [of s] and D = u16_dec [OF r] and sz = size_Diff_singleton [OF t]
  have c: "counts_ok s" and w0: "ui2_wr_access_cnt ?l = 0" and i0: "ui2_rd_inside_wr_cnt ?l = 0"
    using inv r by (auto simp: rw_inv_def lock_ok_def word_gt_0)
  have n: "0 < size (rr_readers s)" using t by (metis gr0I size_eq_0_iff_empty empty_not_add_mset multi_member_split)
  have ty: "se_type ?x = X_SEMA_TYPE_BINARY" "se_type ?y = X_SEMA_TYPE_BINARY" using c by (simp_all add: counts_ok_def Let_def)
  note U = u32_inc [OF B(1) [OF c]] u32_inc [OF B(2) [OF c]]
  consider (rd) "0 < ui2_rd_wait_cnt ?l" "?d = 0"
    "l' = ?l\<lparr>ui2_rd_access_cnt := 1, ui2_rd_wait_cnt := ui2_rd_wait_cnt ?l - 1,
       h_sem_wait_rd := ?x\<lparr>se_thread := None, se_value := se_value ?x + 1\<rparr>\<rparr>"
  | (wr) "0 < ui2_wr_wait_cnt ?l" "?d = 0"
    "l' = ?l\<lparr>ui2_rd_access_cnt := 0, ui2_wr_access_cnt := 1, ui2_wr_wait_cnt := ui2_wr_wait_cnt ?l - 1,
       h_sem_wait_wr := ?y\<lparr>se_thread := None, se_value := se_value ?y + 1\<rparr>\<rparr>"
  | (none) "l' = ?l\<lparr>ui2_rd_access_cnt := ?d\<rparr>"
    using rel w0 by (auto simp: release_reader_def Let_def post_rd_eq post_wr_eq ty split: if_splits)
  then show ?thesis
  proof cases
    case rd
    have "unat (ui2_rd_access_cnt ?l) = 1" using D rd(2) r by (simp add: u16_pos)
    then show ?thesis using inv n sz U(1) u16_dec [OF rd(1)] w0 i0 rd(1)
      by (auto simp: rd(3) rw_inv_def counts_ok_def lock_ok_def Let_def u16_pos)
  next
    case wr
    have "unat (ui2_rd_access_cnt ?l) = 1" using D wr(2) r by (simp add: u16_pos)
    then show ?thesis using inv n sz U(2) u16_dec [OF wr(1)] w0 i0 wr(1)
      by (auto simp: wr(3) rw_inv_def counts_ok_def lock_ok_def Let_def u16_pos)
  next
    case none
    then show ?thesis using inv n sz D w0 i0 by (auto simp: rw_inv_def counts_ok_def lock_ok_def Let_def)
  qed
qed

lemma rw_inv_release_writer:
  assumes inv: "rw_inv s" and r: "0 < ui2_wr_access_cnt (rr_lock s)" and t: "t \<in># rr_writers s"
    and i: "ui2_rd_inside_wr_cnt (rr_lock s) = 0" and rel: "release_writer t (rr_lock s) = Inr (c, l')"
  shows "rw_inv (s\<lparr>rr_lock := l', rr_writers := rr_writers s - {#t#}\<rparr>)"
proof -
  let ?l = "rr_lock s" let ?x = "h_sem_wait_rd ?l" let ?y = "h_sem_wait_wr ?l" let ?d = "ui2_wr_access_cnt ?l - 1"
  note B = posted_bound [of s] and D = u16_dec [OF r] and sz = size_Diff_singleton [OF t]
  have c: "counts_ok s" and r0: "ui2_rd_access_cnt ?l = 0"
    using inv r by (auto simp: rw_inv_def lock_ok_def word_gt_0)
  have n: "0 < size (rr_writers s)" using t by (metis gr0I size_eq_0_iff_empty empty_not_add_mset multi_member_split)
  have ty: "se_type ?x = X_SEMA_TYPE_BINARY" "se_type ?y = X_SEMA_TYPE_BINARY" using c by (simp_all add: counts_ok_def Let_def)
  note U = u32_inc [OF B(1) [OF c]] u32_inc [OF B(2) [OF c]]
  consider (wr) "0 < ui2_wr_wait_cnt ?l" "?d = 0"
    "l' = ?l\<lparr>ui2_wr_access_cnt := 1, h_wr_thread := t, ui2_wr_wait_cnt := ui2_wr_wait_cnt ?l - 1,
       h_sem_wait_wr := ?y\<lparr>se_thread := None, se_value := se_value ?y + 1\<rparr>\<rparr>"
  | (rd) "0 < ui2_rd_wait_cnt ?l" "?d = 0"
    "l' = ?l\<lparr>ui2_wr_access_cnt := 0, h_wr_thread := NULL, ui2_rd_wait_cnt := ui2_rd_wait_cnt ?l - 1, ui2_rd_access_cnt := 1,
       h_sem_wait_rd := ?x\<lparr>se_thread := None, se_value := se_value ?x + 1\<rparr>\<rparr>"
  | (none) "?d = 0" "l' = ?l\<lparr>ui2_wr_access_cnt := 0, h_wr_thread := NULL\<rparr>"
  | (more) "?d \<noteq> 0" "l' = ?l\<lparr>ui2_wr_access_cnt := ?d\<rparr>"
    using rel r0 by (auto simp: release_writer_def Let_def post_rd_eq post_wr_eq ty split: if_splits)
  then show ?thesis
  proof cases
    case wr
    have "unat (ui2_wr_access_cnt ?l) = 1" using D wr(2) r by (simp add: u16_pos)
    then show ?thesis using inv n sz U(2) u16_dec [OF wr(1)] r0 i wr(1)
      by (auto simp: wr(3) rw_inv_def counts_ok_def lock_ok_def Let_def u16_pos)
  next
    case rd
    have "unat (ui2_wr_access_cnt ?l) = 1" using D rd(2) r by (simp add: u16_pos)
    then show ?thesis using inv n sz U(1) u16_dec [OF rd(1)] r0 i rd(1)
      by (auto simp: rd(3) rw_inv_def counts_ok_def lock_ok_def Let_def u16_pos)
  next
    case none
    have "unat (ui2_wr_access_cnt ?l) = 1" using D none(1) r by (simp add: u16_pos)
    then show ?thesis using inv n sz r0 i by (auto simp: none(2) rw_inv_def counts_ok_def lock_ok_def Let_def u16_pos)
  next
    case more
    then show ?thesis using inv n sz D r0 i by (auto simp: rw_inv_def counts_ok_def lock_ok_def Let_def)
  qed
qed

text \<open>A holder's thread is found where the counters say.\<close>

lemma rw_inv_empty:
  assumes "rw_inv s"
  shows "ui2_rd_access_cnt (rr_lock s) = 0 \<Longrightarrow> rr_readers s = {#}" "ui2_wr_access_cnt (rr_lock s) = 0 \<Longrightarrow> rr_writers s = {#}"
    "rr_readers s = {#} \<or> rr_writers s = {#}"
  using assms by (auto simp: rw_inv_def counts_ok_def lock_ok_def Let_def u16_pos)

text \<open>Who holds: all locks for writing are the thread's in \<open>h_wr_thread\<close>, and locks inside are those of a writer;
  after a hand-over nobody holds until the next writer has run.\<close>

definition hold_ok :: "rw_run \<Rightarrow> bool" where
  "hold_ok s \<longleftrightarrow> (\<forall>t\<in>#rr_writers s. h_wr_thread (rr_lock s) = t) \<and> (\<forall>t\<in>#rr_in s. t \<in># rr_writers s) \<and>
     (posted_wr (rr_lock s) = 0 \<or> posted_wr (rr_lock s) = 1 \<and> rr_writers s = {#})"

lemma hold_okD:
  assumes "hold_ok s"
  shows "t \<in># rr_writers s \<Longrightarrow> h_wr_thread (rr_lock s) = t" "t \<in># rr_in s \<Longrightarrow> t \<in># rr_writers s"
    "t \<in># rr_writers s \<Longrightarrow> posted_wr (rr_lock s) = 0" "rr_writers s = {#} \<Longrightarrow> rr_in s = {#}"
proof -
  show "t \<in># rr_writers s \<Longrightarrow> h_wr_thread (rr_lock s) = t" "t \<in># rr_in s \<Longrightarrow> t \<in># rr_writers s"
    "t \<in># rr_writers s \<Longrightarrow> posted_wr (rr_lock s) = 0"
    using assms by (auto simp: hold_ok_def)
  show "rr_in s = {#}" if "rr_writers s = {#}"
  proof (rule ccontr)
    assume "rr_in s \<noteq> {#}"
    then obtain u where "u \<in># rr_in s" by (meson multiset_nonemptyE)
    then show False using assms that by (auto simp: hold_ok_def)
  qed
qed

text \<open>Which lock a release gives back, by the holder and by the counters.\<close>

lemma release_cases:
  assumes inv: "rw_inv s" and h: "hold_ok s" and t: "t \<in># rr_readers s + rr_writers s + rr_in s"
    and rel: "release t (rr_lock s) = Inr (c, l')"
  obtains (inside) "t \<in># rr_in s" "0 < ui2_rd_inside_wr_cnt (rr_lock s)" "0 < ui2_wr_access_cnt (rr_lock s)"
      "l' = (rr_lock s)\<lparr>ui2_rd_inside_wr_cnt := ui2_rd_inside_wr_cnt (rr_lock s) - 1\<rparr>"
    | (rd) "t \<notin># rr_in s" "t \<in># rr_readers s" "rr_writers s = {#}" "rr_in s = {#}" "0 < ui2_rd_access_cnt (rr_lock s)"
      "ui2_wr_access_cnt (rr_lock s) = 0" "ui2_rd_inside_wr_cnt (rr_lock s) = 0" "release_reader t (rr_lock s) = Inr (c, l')"
    | (wr) "t \<notin># rr_in s" "t \<notin># rr_readers s" "t \<in># rr_writers s" "rr_in s = {#}" "0 < ui2_wr_access_cnt (rr_lock s)"
      "ui2_rd_inside_wr_cnt (rr_lock s) = 0" "release_writer t (rr_lock s) = Inr (c, l')"
proof -
  let ?l = "rr_lock s"
  note E = rw_inv_empty [OF inv] and H = hold_okD [OF h]
  have lk: "lock_ok ?l" and c: "counts_ok s" using inv by (simp_all add: rw_inv_def)
  have in0: "ui2_rd_inside_wr_cnt ?l = 0 \<longleftrightarrow> rr_in s = {#}" using c by (simp add: counts_ok_def Let_def u16_pos)
  show thesis
  proof (cases "t \<in># rr_in s")
    case True
    then have i: "0 < ui2_rd_inside_wr_cnt ?l" using in0 by (auto simp: word_gt_0)
    then have "0 < ui2_wr_access_cnt ?l" using lk by (simp add: lock_ok_def)
    then show thesis using inside [OF True i] rel lk i by (auto simp: release_def lock_ok_def split: if_splits)
  next
    case nin: False
    show thesis
    proof (cases "t \<in># rr_readers s")
      case True
      then have w: "rr_writers s = {#}" "0 < ui2_rd_access_cnt ?l" using E(1,3) by (auto simp: word_gt_0)
      moreover from w(2) lk have "ui2_wr_access_cnt ?l = 0" by (auto simp: lock_ok_def word_gt_0)
      moreover have "rr_in s = {#}" using H(4) w(1) by simp
      ultimately show thesis using rd [OF nin True] rel in0 by (simp add: release_def)
    next
      case False
      then have w: "t \<in># rr_writers s" using t nin by simp
      then have "0 < ui2_wr_access_cnt ?l" using E(2) by (auto simp: word_gt_0)
      moreover from this lk have "ui2_rd_access_cnt ?l = 0" by (auto simp: lock_ok_def word_gt_0)
      moreover have "rr_in s = {#}"
      proof (rule ccontr)
        assume "rr_in s \<noteq> {#}"
        then obtain u where u: "u \<in># rr_in s" by (meson multiset_nonemptyE)
        then have "u = t" using H(1) [OF H(2) [OF u]] H(1) [OF w] by simp
        then show False using u nin by simp
      qed
      ultimately show thesis using wr [OF nin False w] rel in0 by (simp add: release_def)
    qed
  qed
qed

lemma rw_inv_release:
  assumes inv: "rw_inv s" and h: "hold_ok s" and t: "t \<in># rr_readers s + rr_writers s + rr_in s"
    and rel: "release t (rr_lock s) = Inr (c, l')"
  shows "rw_inv (released t l' s)"
proof (rule release_cases [OF assms], goal_cases inside rd wr)
  case inside
  then have "0 < size (rr_in s)" by (auto simp: nonempty_has_size [symmetric])
  then show ?thesis using inv inside u16_dec [OF inside(2)] size_Diff_singleton [OF inside(1)]
    by (auto simp: released_def rw_inv_def counts_ok_def lock_ok_def Let_def)
next
  case rd
  then show ?thesis using rw_inv_release_reader [OF inv rd(5) rd(2) rd(8)] by (simp add: released_def)
next
  case wr
  then show ?thesis using rw_inv_release_writer [OF inv wr(5) wr(3) wr(6) wr(7)] by (simp add: released_def)
qed

text \<open>What the two releases do to the semaphore of the writers.\<close>

lemma release_reader_posts:
  assumes "counts_ok s" "release_reader t (rr_lock s) = Inr (c, l')" "ui2_wr_access_cnt (rr_lock s) = 0"
  shows "posted_wr l' \<le> 1"
proof -
  have ty: "se_type (h_sem_wait_rd (rr_lock s)) = X_SEMA_TYPE_BINARY" "se_type (h_sem_wait_wr (rr_lock s)) = X_SEMA_TYPE_BINARY"
    and p: "se_value (h_sem_wait_wr (rr_lock s)) = 0"
    using assms(1,3) by (simp_all add: counts_ok_def Let_def unat_eq_0)
  show ?thesis using assms(2) by (auto simp: release_reader_def Let_def post_rd_eq post_wr_eq ty p split: if_splits)
qed

lemma release_writer_posts:
  assumes "counts_ok s" "release_writer t (rr_lock s) = Inr (c, l')" "posted_wr (rr_lock s) = 0"
    and "0 < ui2_wr_access_cnt (rr_lock s)"
  shows "posted_wr l' \<le> 1" "size (rr_writers s) \<noteq> 1 \<Longrightarrow> posted_wr l' = 0 \<and> h_wr_thread l' = h_wr_thread (rr_lock s)"
proof -
  have ty: "se_type (h_sem_wait_rd (rr_lock s)) = X_SEMA_TYPE_BINARY" "se_type (h_sem_wait_wr (rr_lock s)) = X_SEMA_TYPE_BINARY"
    and p: "se_value (h_sem_wait_wr (rr_lock s)) = 0" and n: "unat (ui2_wr_access_cnt (rr_lock s)) = size (rr_writers s)"
    using assms(1,3) by (simp_all add: counts_ok_def Let_def unat_eq_0)
  show "posted_wr l' \<le> 1" using assms(2) by (auto simp: release_writer_def Let_def post_rd_eq post_wr_eq ty p split: if_splits)
  assume "size (rr_writers s) \<noteq> 1"
  then have "ui2_wr_access_cnt (rr_lock s) - 1 \<noteq> 0" using n u16_dec [OF assms(4)] assms(4) by (auto simp: u16_pos)
  then show "posted_wr l' = 0 \<and> h_wr_thread l' = h_wr_thread (rr_lock s)"
    using assms(2) p by (auto simp: release_writer_def Let_def split: if_splits)
qed

lemma hold_release:
  assumes inv: "rw_inv s" and h: "hold_ok s" and t: "t \<in># rr_readers s + rr_writers s + rr_in s"
    and rel: "release t (rr_lock s) = Inr (c, l')"
  shows "hold_ok (released t l' s)"
proof (rule release_cases [OF assms], goal_cases inside rd wr)
  case inside
  then show ?case using h by (auto simp: released_def hold_ok_def dest: in_diffD)
next
  case rd
  have c: "counts_ok s" using inv by (simp add: rw_inv_def)
  have "posted_wr l' \<le> 1" by (rule release_reader_posts [OF c rd(8,6)])
  then show ?case using rd(1-4) by (auto simp: released_def hold_ok_def)
next
  case wr
  have c: "counts_ok s" using inv by (simp add: rw_inv_def)
  have p: "posted_wr (rr_lock s) = 0" by (rule hold_okD(3) [OF h wr(3)])
  note P = release_writer_posts [OF c wr(7) p wr(5)]
  show ?case
  proof (cases "size (rr_writers s) = 1")
    case True
    then obtain u where "rr_writers s = {#u#}" using size_1_singleton_mset by blast
    then have "rr_writers s = {#t#}" using wr(3) by simp
    then show ?thesis using wr(1,2,4) P(1) by (auto simp: released_def hold_ok_def)
  next
    case False
    have "h_wr_thread l' = h_wr_thread (rr_lock s)" "posted_wr l' = 0" using P(2) [OF False] by simp_all
    then show ?thesis using wr(1,2,4) h by (auto simp: released_def hold_ok_def dest: in_diffD)
  qed
qed

lemma rw_step_inv: "rw_strict s s' \<Longrightarrow> rw_inv s \<Longrightarrow> hold_ok s \<Longrightarrow> rw_inv s'"
proof (induction rule: rw_steps.induct)
  case (del s)
  then show ?case by (simp add: rw_inv_def counts_ok_def lock_ok_def Let_def)
qed (auto intro: rw_inv_read_enter rw_inv_write_enter rw_inv_read_wake rw_inv_write_wake rw_inv_release)

lemma rw_step_hold:
  assumes "rw_strict s s'" "rw_inv s" "hold_ok s"
  shows "hold_ok s'"
proof -
  note H = hold_okD [OF assms(3)] and E = rw_inv_empty [OF assms(2)]
  have c: "counts_ok s" using assms(2) by (simp add: rw_inv_def)
  then have ty: "se_type (h_sem_wait_rd (rr_lock s)) = X_SEMA_TYPE_BINARY" "se_type (h_sem_wait_wr (rr_lock s)) = X_SEMA_TYPE_BINARY"
    by (simp_all add: counts_ok_def Let_def)
  show ?thesis using assms(1)
  proof cases
    case (rd_got t e l')
    have k: "h_wr_thread l' = h_wr_thread (rr_lock s)" "h_sem_wait_wr l' = h_sem_wait_wr (rr_lock s)"
      using rd_got(5) by (auto simp: read_enter_def split: if_splits)
    have "t \<in># rr_writers s" if "ui2_rd_inside_wr_cnt l' \<noteq> ui2_rd_inside_wr_cnt (rr_lock s)"
      using that rd_got(4,5) by (auto simp: settled_def read_enter_def split: if_splits)
    then show ?thesis using assms(3) unfolding rd_got(1) got_read_def by (simp add: hold_ok_def k)
  next
    case (rd_queue t e l')
    have "l' = (rr_lock s)\<lparr>ui2_rd_wait_cnt := ui2_rd_wait_cnt (rr_lock s) + 1\<rparr>"
      using rd_queue(4) by (simp add: read_enter_def split: if_splits)
    then show ?thesis using assms(3) unfolding rd_queue(1) by (simp add: hold_ok_def)
  next
    case (rd_wake t l')
    then show ?thesis using assms(3) ty by (auto simp: hold_ok_def read_wake_eq split: if_splits)
  next
    case (wr_got t e l')
    then show ?thesis
    proof (cases "ui2_wr_access_cnt (rr_lock s) = 0")
      case True
      then have "rr_writers s = {#}" "rr_in s = {#}" "posted_wr (rr_lock s) = 0"
        using E(2) H(4) c by (simp_all add: counts_ok_def Let_def)
      moreover have "h_wr_thread l' = t" "h_sem_wait_wr l' = h_sem_wait_wr (rr_lock s)"
        using wr_got(5) True by (auto simp: write_enter_def split: if_splits)
      ultimately show ?thesis unfolding wr_got(1) by (simp add: hold_ok_def)
    next
      case False
      then have h: "h_wr_thread (rr_lock s) = t" and l': "l' = (rr_lock s)\<lparr>ui2_wr_access_cnt := ui2_wr_access_cnt (rr_lock s) + 1\<rparr>"
        using wr_got(5) by (auto simp: write_enter_def split: if_splits)
      have t: "t \<in># rr_writers s" using wr_got(4) h by (simp add: settled_def)
      have "set_mset (rr_writers s) = {t}" "\<forall>u\<in>#rr_in s. u \<in># rr_writers s" using H(1,2) h t by blast+
      then show ?thesis using H(3) [OF t] by (simp add: wr_got(1) l' hold_ok_def h)
    qed
  next
    case (wr_queue t e l')
    have "l' = (rr_lock s)\<lparr>ui2_wr_wait_cnt := ui2_wr_wait_cnt (rr_lock s) + 1\<rparr>"
      using wr_queue(4) by (simp add: write_enter_def split: if_splits)
    then show ?thesis using assms(3) unfolding wr_queue(1) by (simp add: hold_ok_def)
  next
    case (wr_wake t l')
    then have v: "se_value (h_sem_wait_wr (rr_lock s)) \<noteq> 0"
      and l': "posted_wr l' = posted_wr (rr_lock s) - 1" "h_wr_thread l' = t"
      using ty by (auto simp: write_wake_eq unat_minus_one split: if_splits)
    then have "posted_wr (rr_lock s) = 1" "rr_writers s = {#}" using assms(3) by (auto simp: hold_ok_def unat_eq_0)
    then show ?thesis using wr_wake(1) l' H(4) by (auto simp: hold_ok_def)
  next
    case (rel t c l')
    then show ?thesis using hold_release [OF assms(2,3)] by simp
  next
    case del
    then show ?thesis using assms(3) by (simp add: hold_ok_def)
  qed
qed

lemma rw_reachable_inv: "rw_strict\<^sup>*\<^sup>* rw_start s \<Longrightarrow> rw_inv s \<and> hold_ok s"
proof (induction rule: rtranclp_induct)
  case base
  then show ?case using rw_inv_start by (simp add: hold_ok_def rw_start_def new_lock_def binary_sema_def)
qed (use rw_step_inv rw_step_hold in blast)

end
