(* ===== verification/RwLockProps.thy ===== *)
theory RwLockProps
  imports RwLockInv
begin

text \<open>The properties of the read/write lock: exclusion of readers and writers, no abort, no thread left waiting
  for nobody, deletion, its place in the handle library, and two writers at once.\<close>

section \<open>A run\<close>

text \<open>Thread 8 takes the lock for writing, thread 24 waits to read, thread 16 waits to write.\<close>

definition rw_a :: rw_run where
  "rw_a = rw_start\<lparr>rr_lock := snd (write_enter RWL_OPTION_WAIT 8 (rr_lock rw_start)), rr_writers := {#8#}\<rparr>"

definition rw_b :: rw_run where
  "rw_b = rw_a\<lparr>rr_lock := snd (write_enter RWL_OPTION_WAIT 16 (rr_lock rw_a)), rr_wait_wr := {#16#}\<rparr>"

lemmas rw_eval = rw_start_def new_lock_def binary_sema_def write_enter_def read_enter_def release_def release_writer_def
  post_wr_eq write_wake_eq Let_def

lemma rw_ab: "rw_steps strict rw_start rw_a" "rw_steps strict rw_a rw_b"
proof -
  have "rw_steps strict rw_start (rw_start\<lparr>rr_lock := snd (write_enter RWL_OPTION_WAIT 8 (rr_lock rw_start)), rr_writers := add_mset 8 (rr_writers rw_start)\<rparr>)"
    by (rule wr_got [of _ _ _ RWL_OPTION_WAIT]) (simp_all add: awake_def roomy_def settled_def rw_eval)
  then show "rw_steps strict rw_start rw_a" by (simp add: rw_a_def rw_start_def)
  have "rw_steps strict rw_a (rw_a\<lparr>rr_lock := snd (write_enter RWL_OPTION_WAIT 16 (rr_lock rw_a)), rr_wait_wr := add_mset 16 (rr_wait_wr rw_a)\<rparr>)"
    by (rule wr_queue [of _ _ RWL_OPTION_WAIT]) (simp_all add: awake_def roomy_def rw_a_def rw_eval)
  then show "rw_steps strict rw_a rw_b" by (simp add: rw_b_def rw_a_def rw_start_def)
qed

lemma rw_b_reachable: "(rw_steps strict)\<^sup>*\<^sup>* rw_start rw_b"
  using rw_ab by (meson converse_rtranclp_into_rtranclp r_into_rtranclp)

lemma rw_b_eq: "rr_writers rw_b = {#8#}" "rr_wait_wr rw_b = {#16#}" "rr_readers rw_b = {#}" "rr_wait_rd rw_b = {#}" "rr_in rw_b = {#}"
  by (simp_all add: rw_b_def rw_a_def rw_start_def)

section \<open>Who waits is waited for\<close>

definition busy :: "mrsw \<Rightarrow> bool" where
  "busy l \<longleftrightarrow> ui2_rd_wait_cnt l = 0 \<and> ui2_wr_wait_cnt l = 0 \<or> ui2_rd_access_cnt l \<noteq> 0 \<or> ui2_wr_access_cnt l \<noteq> 0"

lemma busy_read_enter: "busy l \<Longrightarrow> roomy l \<Longrightarrow> read_enter e t l = (a, l') \<Longrightarrow> busy l'"
proof -
  assume a: "busy l" "roomy l" "read_enter e t l = (a, l')"
  have "ui2_rd_access_cnt l + 1 \<noteq> 0" using a(2) u16_inc [of "ui2_rd_access_cnt l"] by (simp add: roomy_def u16_pos)
  then show "busy l'" using a(1,3) by (auto simp: read_enter_def busy_def split: if_splits)
qed

lemma busy_write_enter: "busy l \<Longrightarrow> roomy l \<Longrightarrow> write_enter e t l = (a, l') \<Longrightarrow> busy l'"
proof -
  assume a: "busy l" "roomy l" "write_enter e t l = (a, l')"
  have "ui2_wr_access_cnt l + 1 \<noteq> 0" using a(2) u16_inc [of "ui2_wr_access_cnt l"] by (simp add: roomy_def u16_pos)
  then show "busy l'" using a(1,3) by (auto simp: write_enter_def busy_def split: if_splits)
qed

lemma busy_release:
  assumes "busy l" "lock_ok l" "release t l = Inr (c, l')"
    and "se_type (h_sem_wait_rd l) = X_SEMA_TYPE_BINARY" "se_type (h_sem_wait_wr l) = X_SEMA_TYPE_BINARY"
  shows "busy l'"
proof -
  have x: "0 < ui2_rd_access_cnt l \<Longrightarrow> ui2_wr_access_cnt l = 0" using assms(2) by (auto simp: lock_ok_def word_gt_0)
  have r: "ui2_wr_access_cnt l = 0 \<Longrightarrow> release_reader t l = Inr (c, l') \<Longrightarrow> busy l'"
    using assms(4,5) by (auto simp: release_reader_def Let_def busy_def post_rd_eq post_wr_eq word_gt_0 split: if_splits)
  have w: "ui2_rd_access_cnt l = 0 \<Longrightarrow> release_writer t l = Inr (c, l') \<Longrightarrow> busy l'"
    using assms(4,5) by (auto simp: release_writer_def Let_def busy_def post_rd_eq post_wr_eq word_gt_0 split: if_splits)
  show ?thesis using assms(1,3) x r w by (auto simp: release_def busy_def word_gt_0 split: if_splits)
qed

lemma rw_step_busy:
  assumes "rw_strict s s'" "rw_inv s" "busy (rr_lock s)"
  shows "busy (rr_lock s')"
proof -
  have ty: "se_type (h_sem_wait_rd (rr_lock s)) = X_SEMA_TYPE_BINARY" "se_type (h_sem_wait_wr (rr_lock s)) = X_SEMA_TYPE_BINARY"
    and ok: "lock_ok (rr_lock s)"
    using assms(2) by (simp_all add: rw_inv_def counts_ok_def Let_def)
  show ?thesis using assms(1)
  proof cases
    case (rd_got t e l')
    then show ?thesis using busy_read_enter assms(3) by (simp add: got_read_def)
  next
    case (rd_queue t e l')
    then show ?thesis using busy_read_enter assms(3) by simp
  next
    case (rd_wake t l')
    then show ?thesis using assms(3) ty by (auto simp: read_wake_eq busy_def split: if_splits)
  next
    case (wr_got t e l')
    then show ?thesis using busy_write_enter assms(3) by simp
  next
    case (wr_queue t e l')
    then show ?thesis using busy_write_enter assms(3) by simp
  next
    case (wr_wake t l')
    then show ?thesis using assms(3) ty by (auto simp: write_wake_eq busy_def split: if_splits)
  next
    case (rel t c l')
    then show ?thesis using busy_release [OF assms(3) ok _ ty] by (simp add: released_def)
  next
    case del
    then show ?thesis using assms(3) by (simp add: busy_def)
  qed
qed

lemma rw_reachable_busy: "rw_strict\<^sup>*\<^sup>* rw_start s \<Longrightarrow> busy (rr_lock s)"
proof (induction rule: rtranclp_induct)
  case base
  then show ?case by (simp add: busy_def rw_start_def new_lock_def)
next
  case (step s s')
  then show ?case using rw_step_busy rw_reachable_inv by blast
qed

section \<open>Properties\<close>

text \<open>C6 Readers and writers exclude each other: however threads take, wait for and release the lock, a thread that holds
  it for writing is the only one that holds it, for reading or for writing; as long as no thread that has
  handed the lock over takes it again before the next writer has run, each gives its locks back in the
  reverse order, and fewer than 65535 hold the lock or wait for it.\<close>

theorem rwl_exclusion:
  assumes "rw_strict\<^sup>*\<^sup>* rw_start s" "t \<in># rr_writers s" "u \<in># rr_readers s + rr_in s + rr_writers s"
  shows "u = t \<and> rr_readers s = {#} \<and> h_wr_thread (rr_lock s) = t"
proof -
  have i: "rw_inv s" "hold_ok s" using rw_reachable_inv [OF assms(1)] by auto
  note H = hold_okD [OF i(2)]
  have "rr_readers s = {#}" using rw_inv_empty(3) [OF i(1)] assms(2) by auto
  moreover from this have "u \<in># rr_writers s" using assms(3) H(2) by auto
  ultimately show ?thesis using H(1) assms(2) by metis
qed

theorem rwl_exclusion_witness: "8 \<in># rr_writers rw_b \<and> rr_readers rw_b = {#} \<and> h_wr_thread (rr_lock rw_b) = 8"
  using rwl_exclusion [OF rw_b_reachable, of 8 8] rw_b_eq by simp

text \<open>A release by a thread that holds the lock never aborts: the states that \<open>u_rwl_release_lock\<close> tests for
  cannot occur, and the semaphores accept its post.\<close>

theorem rwl_release_no_abort:
  assumes "rw_strict\<^sup>*\<^sup>* rw_start s" "t \<in># rr_readers s + rr_writers s + rr_in s"
  shows "\<exists>c l'. release t (rr_lock s) = Inr (c, l')"
proof -
  have i: "rw_inv s" using rw_reachable_inv [OF assms(1)] by simp
  then have "lock_ok (rr_lock s)" "se_type (h_sem_wait_rd (rr_lock s)) = X_SEMA_TYPE_BINARY"
    "se_type (h_sem_wait_wr (rr_lock s)) = X_SEMA_TYPE_BINARY"
    by (simp_all add: rw_inv_def counts_ok_def Let_def)
  then show ?thesis
    by (auto simp: release_def release_reader_def release_writer_def lock_ok_def Let_def post_rd_eq post_wr_eq)
qed

theorem rwl_release_no_abort_witness: "\<exists>c l'. release 8 (rr_lock rw_b) = Inr (c, l')"
  using rwl_release_no_abort [OF rw_b_reachable, of 8] rw_b_eq by simp

text \<open>Nobody waits for nothing: while a thread waits, some thread holds the lock, which it will release, or a
  waiting thread has been let go and has only to run.\<close>

theorem rwl_waiter_has_cause:
  assumes "rw_strict\<^sup>*\<^sup>* rw_start s" "t \<in># rr_wait_rd s + rr_wait_wr s"
  shows "rr_readers s \<noteq> {#} \<or> rr_writers s \<noteq> {#} \<or>
    rr_wait_rd s \<noteq> {#} \<and> se_value (h_sem_wait_rd (rr_lock s)) \<noteq> 0 \<or> rr_wait_wr s \<noteq> {#} \<and> se_value (h_sem_wait_wr (rr_lock s)) \<noteq> 0"
proof -
  let ?l = "rr_lock s"
  have c: "counts_ok s" using rw_reachable_inv [OF assms(1)] by (simp add: rw_inv_def)
  have "0 < size (rr_wait_rd s) + size (rr_wait_wr s)"
    using assms(2) by (auto simp: nonempty_has_size [symmetric])
  then have "posted_rd ?l \<noteq> 0 \<or> posted_wr ?l \<noteq> 0 \<or> 0 < ui2_rd_wait_cnt ?l \<or> 0 < ui2_wr_wait_cnt ?l"
    using c by (auto simp: counts_ok_def Let_def u16_pos)
  moreover have "posted_rd ?l \<noteq> 0 \<Longrightarrow> rr_wait_rd s \<noteq> {#}" "posted_wr ?l \<noteq> 0 \<Longrightarrow> rr_wait_wr s \<noteq> {#}"
    using c by (auto simp: counts_ok_def Let_def)
  moreover have "0 < ui2_rd_access_cnt ?l \<Longrightarrow> rr_readers s \<noteq> {#} \<or> posted_rd ?l \<noteq> 0"
    "0 < ui2_wr_access_cnt ?l \<Longrightarrow> rr_writers s \<noteq> {#} \<or> posted_wr ?l \<noteq> 0"
    using c by (auto simp: counts_ok_def Let_def u16_pos)
  ultimately show ?thesis using rw_reachable_busy [OF assms(1)] by (auto simp: busy_def word_gt_0)
qed

theorem rwl_waiter_has_cause_witness: "0 < size (rr_readers rw_b + rr_writers rw_b)"
proof -
  have "h_sem_wait_wr (rr_lock rw_b) = binary_sema" "se_value binary_sema = 0"
    by (simp_all add: rw_b_def rw_a_def rw_eval)
  then have "rr_readers rw_b \<noteq> {#} \<or> rr_writers rw_b \<noteq> {#}"
    using rwl_waiter_has_cause [OF rw_b_reachable, of 16] rw_b_eq(2,4) by auto
  then show ?thesis by (auto simp: nonempty_has_size [symmetric])
qed

text \<open>The last release frees a deleted lock only when nobody holds it or waits for it.\<close>

theorem rwl_freed_when_unused:
  assumes "rw_strict\<^sup>*\<^sup>* rw_start s" "t \<in># rr_readers s + rr_writers s + rr_in s" "awake s t" "release t (rr_lock s) = Inr (Some k, l')" "unused k"
  shows "rr_readers (released t l' s) = {#} \<and> rr_writers (released t l' s) = {#} \<and>
    rr_wait_rd (released t l' s) = {#} \<and> rr_wait_wr (released t l' s) = {#}"
proof -
  have i: "rw_inv (released t l' s)" using rw_inv_release [OF _ _ assms(2,4)] rw_reachable_inv [OF assms(1)] by blast
  have "l' = k" using assms(4,5)
    by (auto simp: release_def release_reader_def release_writer_def unused_def Let_def word_gt_0 then_do_Inr split: if_splits)
  then have "unused (rr_lock (released t l' s))" using assms(5) by (simp add: released_def)
  then show ?thesis using i by (auto simp: rw_inv_def counts_ok_def Let_def unused_def)
qed

theorem rwl_freed_when_unused_witness:
  "\<exists>k l'. release 8 (rr_lock rw_a) = Inr (Some k, l') \<and> rr_writers (released 8 l' rw_a) = {#}"
proof -
  obtain k l' where r: "release 8 (rr_lock rw_a) = Inr (Some k, l')" "unused k"
    by (simp add: rw_a_def rw_eval unused_def)
  have "rw_strict\<^sup>*\<^sup>* rw_start rw_a" using rw_ab(1) by blast
  then show ?thesis using rwl_freed_when_unused [OF _ _ _ r] r(1)
    by (simp add: awake_def rw_a_def rw_start_def)
qed

text \<open>C36 Two writers: a writer that hands the lock over leaves its own thread in \<open>h_wr_thread\<close> until the next
  writer has run, so until then it can take the lock again as if it still had it; both then hold it for writing.\<close>

theorem rwl_two_writers: "\<exists>s. rw_step\<^sup>*\<^sup>* rw_start s \<and> rr_writers s = {#8, 16#}"
proof -
  define l1 where "l1 = (rr_lock rw_b)\<lparr>ui2_wr_access_cnt := 1, h_wr_thread := 8, ui2_wr_wait_cnt := 0,
    h_sem_wait_wr := binary_sema\<lparr>se_value := 1\<rparr>\<rparr>"
  let ?c = "rw_b\<lparr>rr_lock := l1, rr_writers := {#}\<rparr>"
  let ?d = "?c\<lparr>rr_lock := l1\<lparr>ui2_wr_access_cnt := 2\<rparr>, rr_writers := {#8#}\<rparr>"
  define l3 where "l3 = l1\<lparr>ui2_wr_access_cnt := 2, h_sem_wait_wr := binary_sema\<lparr>se_thread := Some 16\<rparr>, h_wr_thread := 16\<rparr>"
  let ?e = "?d\<lparr>rr_lock := l3, rr_wait_wr := {#}, rr_writers := {#16, 8#}\<rparr>"
  have "\<exists>k. release 8 (rr_lock rw_b) = Inr (k, l1)" by (simp add: l1_def rw_b_def rw_a_def rw_eval)
  then obtain k where "release 8 (rr_lock rw_b) = Inr (k, l1)" by blast
  then have "rw_step rw_b (released 8 l1 rw_b)" using rel [of rw_b 8 k l1 False] rw_b_eq by (simp add: awake_def)
  moreover have "released 8 l1 rw_b = ?c" by (simp add: released_def rw_b_eq)
  moreover have "rw_step ?c ?d"
    using wr_got [of ?c 8 False RWL_OPTION_WAIT "l1\<lparr>ui2_wr_access_cnt := 2\<rparr>"]
    by (simp add: awake_def roomy_def rw_b_eq) (simp add: l1_def rw_b_def rw_a_def rw_eval)
  moreover have "rw_step ?d ?e"
    using wr_wake [of 16 ?d l3] rw_b_eq
    by (simp add: write_wake_eq l1_def binary_sema_def l3_def)
  ultimately have "rw_step\<^sup>*\<^sup>* rw_start ?e"
    using rw_b_reachable [of False] by (metis rtranclp.rtrancl_into_rtrancl)
  then show ?thesis by (intro exI [of _ ?e]) (simp add: add_mset_commute)
qed

text \<open>A reader beside a writer: in the same way a writer that has handed the lock over gets it for reading, as if
  inside its own lock for writing, and holds it for reading while the next writer writes.\<close>

theorem rwl_reader_and_writer: "\<exists>s. rw_step\<^sup>*\<^sup>* rw_start s \<and> rr_in s = {#8#} \<and> rr_writers s = {#16#}"
proof -
  define l1 where "l1 = (rr_lock rw_b)\<lparr>ui2_wr_access_cnt := 1, h_wr_thread := 8, ui2_wr_wait_cnt := 0,
    h_sem_wait_wr := binary_sema\<lparr>se_value := 1\<rparr>\<rparr>"
  let ?c = "rw_b\<lparr>rr_lock := l1, rr_writers := {#}\<rparr>"
  let ?d = "?c\<lparr>rr_lock := l1\<lparr>ui2_rd_inside_wr_cnt := 1\<rparr>, rr_in := {#8#}\<rparr>"
  define l3 where "l3 = l1\<lparr>ui2_rd_inside_wr_cnt := 1, h_sem_wait_wr := binary_sema\<lparr>se_thread := Some 16\<rparr>, h_wr_thread := 16\<rparr>"
  let ?e = "?d\<lparr>rr_lock := l3, rr_wait_wr := {#}, rr_writers := {#16#}\<rparr>"
  have "\<exists>k. release 8 (rr_lock rw_b) = Inr (k, l1)" by (simp add: l1_def rw_b_def rw_a_def rw_eval)
  then obtain k where "release 8 (rr_lock rw_b) = Inr (k, l1)" by blast
  then have "rw_step rw_b (released 8 l1 rw_b)" using rel [of rw_b 8 k l1 False] rw_b_eq by (simp add: awake_def)
  moreover have "released 8 l1 rw_b = ?c" by (simp add: released_def rw_b_eq)
  moreover have "rw_step ?c (got_read 8 (l1\<lparr>ui2_rd_inside_wr_cnt := 1\<rparr>) ?c)"
    by (rule rd_got [of ?c 8 False RWL_OPTION_WAIT "l1\<lparr>ui2_rd_inside_wr_cnt := 1\<rparr>"])
      (simp_all add: awake_def roomy_def rw_b_eq l1_def rw_b_def rw_a_def rw_eval)
  moreover have "got_read 8 (l1\<lparr>ui2_rd_inside_wr_cnt := 1\<rparr>) ?c = ?d"
    by (simp add: got_read_def rw_b_eq) (simp add: l1_def rw_b_def rw_a_def rw_eval)
  moreover have "rw_step ?d ?e"
    using wr_wake [of 16 ?d l3 False] rw_b_eq
    by (simp add: write_wake_eq l1_def binary_sema_def l3_def)
  ultimately have "rw_step\<^sup>*\<^sup>* rw_start ?e"
    using rw_b_reachable [of False] by (metis rtranclp.rtrancl_into_rtrancl)
  then show ?thesis by (intro exI [of _ ?e]) simp
qed

end
