(* ===== verification/Thread.thy ===== *)
theory Thread
  imports CRing "HOL-Library.Signed_Division"
begin

text \<open>The threads of the OS layer, mw/os_pthread/os_pthread_thread.c: a registry of thread objects by name, the
  object of the calling thread, scheduling priorities, suspension, private data by key with its destructors, and
  the reaper that joins and frees the threads that have ended.

  \<open>HANDLE_T\<close> is here the address of the thread object.  The registry is used under its lock, so a call is one
  step; the scheduling priority of a thread is state of the system, kept in \<open>th_sched\<close>.\<close>

section \<open>State\<close>

definition THREAD_NAME_LEN :: nat where "THREAD_NAME_LEN = 16"
abbreviation (input) THREAD_PRI_RANGE_LOW :: u8 where "THREAD_PRI_RANGE_LOW \<equiv> 1"
abbreviation (input) THREAD_PRI_RANGE_HIGH :: u8 where "THREAD_PRI_RANGE_HIGH \<equiv> 254"

record pvt =
  pv_key :: u32
  pv_del :: fptr
  pv_pvt :: ptr

text \<open>\<open>th_args\<close> is the copy of the argument, empty for none.  The links of the private data, which the code keeps
  in the nodes, are the \<open>ring\<close> whose head is \<open>pt_pvt\<close>.\<close>

record thr =
  th_thread :: tid
  th_suspend :: bool
  th_stack :: u32
  th_name :: string
  th_main :: fptr
  th_args :: "u8 list"
  th_pvt :: ring
  th_pvts :: "ptr \<Rightarrow> pvt option"
  th_sched :: int

text \<open>The reaper has not got to its wait yet, waits, or has been signalled and has to get its mutex.\<close>

datatype reaper_pc = Starting | Sleeping | Woken

text \<open>\<open>th_self\<close> is the value of \<open>s_thread_key\<close> in each thread, \<open>rp_exit\<close> is \<open>s_exitReaper.thread_exit\<close>.\<close>

record threads =
  s_thread_list :: ring
  th_objs :: "ptr \<Rightarrow> thr option"
  th_self :: "tid \<Rightarrow> ptr"
  rp_exit :: ptr
  rp_at :: reaper_pc

definition os_thread_init :: threads where
  "os_thread_init = \<lparr>s_thread_list = ring0, th_objs = Map.empty, th_self = (\<lambda>_. NULL), rp_exit = NULL, rp_at = Starting\<rparr>"

section \<open>Priorities, stack sizes, delays\<close>

definition from_sched_priority :: "int \<Rightarrow> u8" where
  "from_sched_priority p = word_of_int ((100 - p) * 256 sdiv 100)"

definition to_sched_priority :: "u8 \<Rightarrow> int" where
  "to_sched_priority u =
    (let p = 100 - uint u * 100 sdiv 256;
         p = (if p < 1 then 1 else p)
     in if p > 99 then 99 else p)"

text \<open>\<open>smin\<close> is \<open>PTHREAD_STACK_MIN\<close>, \<open>smax\<close> is \<open>POSIX_THREAD_STACKSIZE_MAX\<close> where the system defines it.\<close>

definition stack_size :: "u32 \<Rightarrow> u32 option \<Rightarrow> u32 \<Rightarrow> u32" where
  "stack_size smin smax z_stack_size =
    (let z = (z_stack_size + 8 - 1) AND NOT (8 - 1);
         z = (if z < smin then smin else z)
     in case smax of None \<Rightarrow> z | Some m \<Rightarrow> if z > m then m else z)"

text \<open>The times that \<open>nanosleep\<close> is asked for, given what was left each time a signal interrupted it.\<close>

definition delay_time :: "u32 \<Rightarrow> nat \<times> nat" where
  "delay_time ms = (unat (ms div 1000), unat (ms mod 1000 * 1000000))"

fun sleep_loop :: "(nat \<times> nat) list \<Rightarrow> nat \<times> nat \<Rightarrow> (nat \<times> nat) list" where
  "sleep_loop [] rqtp = [rqtp]"
| "sleep_loop (rmtp # rest) rqtp = rqtp # sleep_loop rest rmtp"

definition u_thread_delay :: "(nat \<times> nat) list \<Rightarrow> u32 \<Rightarrow> (nat \<times> nat) list" where
  "u_thread_delay interrupts ms = (if ms = 0 then [] else sleep_loop interrupts (delay_time ms))"

section \<open>The registry\<close>

definition th_named :: "threads \<Rightarrow> string \<Rightarrow> ptr \<Rightarrow> bool" where
  "th_named s nm p = (case th_objs s p of None \<Rightarrow> False | Some t \<Rightarrow> strneq THREAD_NAME_LEN (th_name t) nm)"

definition thread_find_handle :: "ptr \<Rightarrow> threads \<Rightarrow> ptr option" where
  "thread_find_handle h s = ring_find (\<lambda>p. p = h) (s_thread_list s)"

definition thread_find_obj :: "string \<Rightarrow> threads \<Rightarrow> ptr option" where
  "thread_find_obj nm s = ring_find (th_named s nm) (s_thread_list s)"

definition new_thread :: "tid \<Rightarrow> u32 \<Rightarrow> string \<Rightarrow> fptr \<Rightarrow> u8 list \<Rightarrow> int \<Rightarrow> thr" where
  "new_thread t z nm pf args pri = \<lparr>th_thread = t, th_suspend = False, th_stack = z, th_name = nm, th_main = pf,
     th_args = args, th_pvt = ring0, th_pvts = Map.empty, th_sched = pri\<rparr>"

text \<open>\<open>mem\<close> is what \<open>calloc\<close> returns, \<open>started\<close> what \<open>pthread_create\<close> does: the new thread and the scheduling
  priority it inherits.  \<open>pv_arg\<close> is the argument, of \<open>z_arg_size\<close> bytes.\<close>

definition u_thread_create :: "u32 \<Rightarrow> u32 option \<Rightarrow> ptr \<Rightarrow> (tid \<times> int) option \<Rightarrow> bool \<Rightarrow> string option \<Rightarrow> u32 \<Rightarrow> u8 \<Rightarrow> fptr
    \<Rightarrow> u8 list option \<Rightarrow> threads \<Rightarrow> (int \<times> ptr \<times> threads) result" where
  "u_thread_create smin smax mem started ph ps_name z_stack_size ui1_priority pf_main_rtn pv_arg s =
    (case ps_name of None \<Rightarrow> Inr (OSR_INV_ARG, NULL, s)
     | Some nm \<Rightarrow>
       if nm = [] \<or> \<not> ph \<or> z_stack_size = 0 \<or> pf_main_rtn = NULL \<or>
          ui1_priority < THREAD_PRI_RANGE_LOW \<or> ui1_priority > THREAD_PRI_RANGE_HIGH \<or> pv_arg = Some []
       then Inr (OSR_INV_ARG, NULL, s)
       else if mem = NULL then Inr (OSR_NO_RESOURCE, NULL, s)
       else case thread_find_obj nm s of
         None \<Rightarrow> Inl Hang
       | Some p \<Rightarrow>
         if p \<noteq> NULL then Inr (OSR_EXIST, NULL, s)
         else case started of
           None \<Rightarrow> Inr (OSR_FAIL, NULL, s)
         | Some (t, pri) \<Rightarrow>
           let o' = new_thread t (stack_size smin smax z_stack_size) (take THREAD_NAME_LEN nm) pf_main_rtn
                      (case pv_arg of None \<Rightarrow> [] | Some a \<Rightarrow> a) pri
           in Inr (OSR_OK, mem, s\<lparr>th_objs := (th_objs s)(mem \<mapsto> o'), s_thread_list := ring_add mem (s_thread_list s)\<rparr>))"

text \<open>The same text a second time in the file.\<close>

definition u_thread_create_cli :: "u32 \<Rightarrow> u32 option \<Rightarrow> ptr \<Rightarrow> (tid \<times> int) option \<Rightarrow> bool \<Rightarrow> string option \<Rightarrow> u32 \<Rightarrow> u8 \<Rightarrow> fptr
    \<Rightarrow> u8 list option \<Rightarrow> threads \<Rightarrow> (int \<times> ptr \<times> threads) result" where
  "u_thread_create_cli = u_thread_create"

text \<open>The start of a new thread: its key, and the call of its main function.\<close>

definition thread_proc :: "ptr \<Rightarrow> threads \<Rightarrow> (fptr \<times> u8 list option \<times> threads) result" where
  "thread_proc p s =
    (if p = NULL then Inl AssertFailed
     else case th_objs s p of
       None \<Rightarrow> Inl BadAccess
     | Some t \<Rightarrow> Inr (th_main t, if th_args t \<noteq> [] then Some (th_args t) else None, s\<lparr>th_self := (th_self s)(th_thread t := p)\<rparr>))"

text \<open>A thread that this layer has not created gets an object when it first asks for itself.\<close>

definition thread_upgrade :: "ptr \<Rightarrow> tid \<Rightarrow> int \<Rightarrow> threads \<Rightarrow> int \<times> threads" where
  "thread_upgrade mem self pri s =
    (if mem = NULL then (OSR_NO_RESOURCE, s)
     else (OSR_OK, s\<lparr>th_objs := (th_objs s)(mem \<mapsto> new_thread self 0 [] NULL [] pri),
                     s_thread_list := ring_add mem (s_thread_list s), th_self := (th_self s)(self := mem)\<rparr>))"

definition u_thread_self :: "ptr \<Rightarrow> int \<Rightarrow> tid \<Rightarrow> bool \<Rightarrow> threads \<Rightarrow> int \<times> ptr \<times> threads" where
  "u_thread_self mem pri self ph s =
    (if \<not> ph then (OSR_INV_ARG, NULL, s)
     else if th_self s self = NULL then
       (case thread_upgrade mem self pri s of (r, s1) \<Rightarrow>
          if r \<noteq> OSR_OK then (r, NULL, s1)
          else if th_self s1 self = NULL then (OSR_NOT_EXIST, NULL, s1)
          else (OSR_OK, th_self s1 self, s1))
     else (OSR_OK, th_self s self, s))"

text \<open>\<open>get\<close> and \<open>put\<close>: whether \<open>pthread_getschedparam\<close> and \<open>pthread_setschedparam\<close> succeed.\<close>

definition with_thread :: "ptr \<Rightarrow> threads \<Rightarrow> 'b \<Rightarrow> (ptr \<Rightarrow> thr \<Rightarrow> 'b result) \<Rightarrow> 'b result" where
  "with_thread h s no f = (case thread_find_handle h s of
     None \<Rightarrow> Inl Hang
   | Some p \<Rightarrow> if p = NULL then Inr no else (case th_objs s p of None \<Rightarrow> Inl BadAccess | Some t \<Rightarrow> f p t))"

definition upd_thr :: "ptr \<Rightarrow> thr \<Rightarrow> threads \<Rightarrow> threads" where
  "upd_thr p t s = s\<lparr>th_objs := (th_objs s)(p \<mapsto> t)\<rparr>"

definition u_thread_set_pri :: "bool \<Rightarrow> bool \<Rightarrow> ptr \<Rightarrow> u8 \<Rightarrow> threads \<Rightarrow> (int \<times> threads) result" where
  "u_thread_set_pri get put h ui1_new_pri s =
    (if ui1_new_pri < THREAD_PRI_RANGE_LOW \<or> ui1_new_pri > THREAD_PRI_RANGE_HIGH then Inr (OSR_INV_ARG, s)
     else with_thread h s (OSR_INV_HANDLE, s) (\<lambda>p t.
       if \<not> get then Inr (OSR_FAIL, s)
       else if put then Inr (OSR_OK, upd_thr p (t\<lparr>th_sched := to_sched_priority ui1_new_pri\<rparr>) s)
       else Inr (OSR_FAIL, s)))"

text \<open>Where \<open>pthread_getschedparam\<close> fails the code converts an uninitialised priority, here \<open>junk\<close>.\<close>

definition u_thread_get_pri :: "int \<Rightarrow> bool \<Rightarrow> ptr \<Rightarrow> bool \<Rightarrow> threads \<Rightarrow> (int \<times> u8) result" where
  "u_thread_get_pri junk get h ph s =
    (if \<not> ph then Inr (OSR_INV_ARG, 0)
     else with_thread h s (OSR_INV_HANDLE, 0) (\<lambda>p t.
       Inr (if get then (OSR_OK, from_sched_priority (th_sched t)) else (OSR_FAIL, from_sched_priority junk))))"

definition u_thread_get_name :: "ptr \<Rightarrow> threads \<Rightarrow> (int \<times> string option) result" where
  "u_thread_get_name h s = with_thread h s (OSR_INV_HANDLE, None) (\<lambda>p t. Inr (OSR_OK, Some (th_name t)))"

definition u_thread_stack_stats :: "ptr \<Rightarrow> int" where
  "u_thread_stack_stats h = OSR_NOT_SUPPORT"

section \<open>Suspension\<close>

text \<open>\<open>u_thread_suspend\<close> up to its wait, and after it; the second result of \<open>u_thread_resume\<close> is the thread
  whose condition it signals.\<close>

definition suspend_sleep :: "tid \<Rightarrow> threads \<Rightarrow> threads result" where
  "suspend_sleep self s =
    (let p = th_self s self in
     if p = NULL then Inl AssertFailed
     else case th_objs s p of None \<Rightarrow> Inl BadAccess | Some t \<Rightarrow> Inr (upd_thr p (t\<lparr>th_suspend := True\<rparr>) s))"

definition suspend_wake :: "tid \<Rightarrow> threads \<Rightarrow> threads result" where
  "suspend_wake self s =
    (case th_objs s (th_self s self) of None \<Rightarrow> Inl BadAccess
     | Some t \<Rightarrow> Inr (upd_thr (th_self s self) (t\<lparr>th_suspend := False\<rparr>) s))"

definition u_thread_resume :: "bool \<Rightarrow> ptr \<Rightarrow> threads \<Rightarrow> (int \<times> ptr option) result" where
  "u_thread_resume signal h s = with_thread h s (OSR_INV_HANDLE, None) (\<lambda>p t.
     Inr (if th_suspend t then (if signal then (OSR_OK, Some p) else (OSR_FAIL, None)) else (OSR_OK, None)))"

section \<open>Private data\<close>

definition keyed :: "thr \<Rightarrow> u32 \<Rightarrow> ptr \<Rightarrow> bool" where
  "keyed t k p = (case th_pvts t p of None \<Rightarrow> False | Some v \<Rightarrow> pv_key v = k)"

definition thread_find_pvt_key :: "thr \<Rightarrow> u32 \<Rightarrow> ptr option" where
  "thread_find_pvt_key t k = ring_find (keyed t k) (th_pvt t)"

text \<open>The object of the calling thread.\<close>

definition with_self :: "tid \<Rightarrow> threads \<Rightarrow> 'b \<Rightarrow> (ptr \<Rightarrow> thr \<Rightarrow> 'b result) \<Rightarrow> 'b result" where
  "with_self self s no f =
    (if th_self s self = NULL then Inr no
     else case th_objs s (th_self s self) of None \<Rightarrow> Inl BadAccess | Some t \<Rightarrow> f (th_self s self) t)"

definition u_thread_set_pvt :: "ptr \<Rightarrow> tid \<Rightarrow> u32 \<Rightarrow> fptr \<Rightarrow> ptr \<Rightarrow> threads \<Rightarrow> (int \<times> threads) result" where
  "u_thread_set_pvt mem self ui4_key pf_pvt_del pv s =
    with_self self s (OSR_NOT_EXIST, s) (\<lambda>p t.
      case thread_find_pvt_key t ui4_key of
        None \<Rightarrow> Inl Hang
      | Some q \<Rightarrow>
        if q \<noteq> NULL then Inr (OSR_DUP_KEY, s)
        else if mem = NULL then Inr (OSR_NO_RESOURCE, s)
        else Inr (OSR_OK, upd_thr p (t\<lparr>th_pvt := ring_add mem (th_pvt t),
               th_pvts := (th_pvts t)(mem \<mapsto> \<lparr>pv_key = ui4_key, pv_del = pf_pvt_del, pv_pvt = pv\<rparr>)\<rparr>) s))"

definition u_thread_get_pvt :: "tid \<Rightarrow> u32 \<Rightarrow> threads \<Rightarrow> (int \<times> ptr option) result" where
  "u_thread_get_pvt self ui4_key s =
    with_self self s (OSR_NOT_EXIST, None) (\<lambda>p t.
      case thread_find_pvt_key t ui4_key of
        None \<Rightarrow> Inl Hang
      | Some q \<Rightarrow>
        if q = NULL then Inr (OSR_KEY_NOT_FOUND, None)
        else case th_pvts t q of None \<Rightarrow> Inl BadAccess | Some v \<Rightarrow> Inr (OSR_OK, Some (pv_pvt v)))"

text \<open>Taking a node out and freeing it, with the call of its destructor, if it has one: function, key and value.\<close>

type_synonym pvt_call = "fptr \<times> u32 \<times> ptr"

definition del_pvt_impl :: "thr \<Rightarrow> ptr \<Rightarrow> (pvt_call list \<times> thr) result" where
  "del_pvt_impl t q =
    (case th_pvts t q of
       None \<Rightarrow> Inl BadAccess
     | Some v \<Rightarrow> Inr (if pv_del v \<noteq> NULL then [(pv_del v, pv_key v, pv_pvt v)] else [],
         t\<lparr>th_pvt := ring_remove q (th_pvt t), th_pvts := (th_pvts t)(q := None)\<rparr>))"

definition u_thread_del_pvt :: "tid \<Rightarrow> u32 \<Rightarrow> threads \<Rightarrow> (int \<times> pvt_call list \<times> threads) result" where
  "u_thread_del_pvt self ui4_key s =
    with_self self s (OSR_NOT_EXIST, [], s) (\<lambda>p t.
      case thread_find_pvt_key t ui4_key of
        None \<Rightarrow> Inl Hang
      | Some q \<Rightarrow>
        if q = NULL then Inr (OSR_KEY_NOT_FOUND, [], s)
        else then_do (del_pvt_impl t q) (\<lambda>(c, t'). Inr (OSR_OK, c, upd_thr p t' s)))"

section \<open>The end of a thread\<close>

partial_function (option) del_all_pvt :: "pvt_call list \<Rightarrow> thr \<Rightarrow> (pvt_call list \<times> thr) result option" where
  "del_all_pvt calls t =
    (if r_head (th_pvt t) = NULL then Some (Inr (calls, t))
     else case del_pvt_impl t (r_head (th_pvt t)) of
       Inl e \<Rightarrow> Some (Inl e)
     | Inr r \<Rightarrow> del_all_pvt (calls @ fst r) (snd r))"

declare del_all_pvt.simps [code]

text \<open>A signal that nobody waits for is lost.\<close>

definition signal_reaper :: "ptr \<Rightarrow> threads \<Rightarrow> threads" where
  "signal_reaper p s = s\<lparr>rp_exit := p, rp_at := (if rp_at s = Sleeping then Woken else rp_at s)\<rparr>"

text \<open>The system has cleared the key before it calls the destructor of its old value \<open>p\<close>.\<close>

definition thread_key_destructor :: "ptr \<Rightarrow> threads \<Rightarrow> (pvt_call list \<times> threads) result" where
  "thread_key_destructor p s =
    (case th_objs s p of
       None \<Rightarrow> Inl BadAccess
     | Some t \<Rightarrow> then_do (run_loop (del_all_pvt [] t)) (\<lambda>(c, t').
         Inr (c, signal_reaper p ((upd_thr p t' s)\<lparr>s_thread_list := ring_remove p (s_thread_list s)\<rparr>))))"

definition thread_exits :: "tid \<Rightarrow> threads \<Rightarrow> (pvt_call list \<times> threads) result" where
  "thread_exits self s = thread_key_destructor (th_self s self) (s\<lparr>th_self := (th_self s)(self := NULL)\<rparr>)"

text \<open>One turn of the reaper's loop from its wake-up to its next wait; \<open>join\<close> and \<open>destroy\<close>: whether \<open>pthread_join\<close>
  and the destruction of the mutex and the condition succeed.\<close>

definition reap :: "bool \<Rightarrow> bool \<Rightarrow> threads \<Rightarrow> threads result" where
  "reap join destroy s =
    (let p = rp_exit s in
     if p = NULL then Inl AssertFailed
     else case th_objs s p of
       None \<Rightarrow> Inl BadAccess
     | Some t \<Rightarrow>
       if th_stack t \<noteq> 0 \<and> \<not> join then Inl AssertFailed
       else if \<not> destroy then Inl AssertFailed
       else Inr (s\<lparr>th_objs := (th_objs s)(p := None), rp_at := Sleeping\<rparr>))"

end
