(* ===== verification/ThreadInv.thy ===== *)
theory ThreadInv
  imports Thread
begin

text \<open>Thread-private data as an association list, the registry of threads as a table, and the steps that threads,
  their creators and the reaper take, with the invariant they keep.\<close>

section \<open>Private data\<close>

definition pvt_of :: "thr \<Rightarrow> ptr \<Rightarrow> u32 \<times> fptr \<times> ptr" where
  "pvt_of t p = (case th_pvts t p of None \<Rightarrow> (0, NULL, NULL) | Some v \<Rightarrow> (pv_key v, pv_del v, pv_pvt v))"

definition pvt_rel :: "thr \<Rightarrow> ptr list \<Rightarrow> (u32 \<times> fptr \<times> ptr) list \<Rightarrow> bool" where
  "pvt_rel t ps kvs \<longleftrightarrow> ring_rel (th_pvt t) ps \<and> dom (th_pvts t) = set ps \<and> kvs = map (pvt_of t) ps \<and> distinct (map fst kvs)"

lemma pvt_relD:
  assumes "pvt_rel t ps kvs"
  shows "ring_rel (th_pvt t) ps" "dom (th_pvts t) = set ps" "kvs = map (pvt_of t) ps" "distinct (map fst kvs)"
  using assms unfolding pvt_rel_def by blast+

lemma pvt_rel_new: "pvt_rel (new_thread t z nm pf args pri) [] []"
  by (simp add: pvt_rel_def new_thread_def ring0_def)

lemma keyed_iff: "pvt_rel t ps kvs \<Longrightarrow> p \<in> set ps \<Longrightarrow> keyed t k p \<longleftrightarrow> fst (pvt_of t p) = k"
  by (auto simp: pvt_rel_def keyed_def pvt_of_def split: option.splits)

lemma pvt_rel_null: "pvt_rel t ps kvs \<Longrightarrow> th_pvts t NULL = None"
  using ring_rel_null by (fastforce simp: pvt_rel_def)

lemma find_pvt_cases:
  assumes "pvt_rel t ps kvs"
  obtains (none) "thread_find_pvt_key t k = Some NULL" "map_of kvs k = None"
    | (some) as q bs v where "thread_find_pvt_key t k = Some q" "q \<noteq> NULL" "th_pvts t q = Some v" "pv_key v = k"
        "ps = as @ q # bs" "map_of kvs k = Some (pv_del v, pv_pvt v)"
proof -
  note r = pvt_relD(1) [OF assms] and d = pvt_relD(2) [OF assms] and k = pvt_relD(3,4) [OF assms]
  have f: "thread_find_pvt_key t k = Some (case find (keyed t k) ps of None \<Rightarrow> NULL | Some x \<Rightarrow> x)"
    unfolding thread_find_pvt_key_def by (rule ring_find_eq [OF r])
  show thesis
  proof (cases "find (keyed t k) ps")
    case None
    then have "k \<notin> fst ` set kvs" using keyed_iff [OF assms] k(1) by (auto simp: find_None_iff)
    then show thesis using none f None by (simp add: map_of_eq_None_iff)
  next
    case (Some q)
    then have q: "q \<in> set ps" "keyed t k q" by (auto simp: find_Some_iff)
    then obtain v where v: "th_pvts t q = Some v" "pv_key v = k" using d by (auto simp: keyed_def split: option.splits)
    obtain as bs where s: "ps = as @ q # bs" using split_list [OF q(1)] by blast
    have "(k, pv_del v, pv_pvt v) \<in> set kvs" using q(1) v by (force simp: k(1) pvt_of_def)
    then have "map_of kvs k = Some (pv_del v, pv_pvt v)" using k(2) by simp
    moreover have "q \<noteq> NULL" using q(1) ring_rel_null [OF r] by metis
    ultimately show thesis using some [of q v as bs] f Some v s by simp
  qed
qed

lemma pvt_rel_add:
  assumes "pvt_rel t ps kvs" "map_of kvs k = None" "mem \<noteq> NULL" "th_pvts t mem = None"
  shows "pvt_rel (t\<lparr>th_pvt := ring_add mem (th_pvt t), th_pvts := (th_pvts t)(mem \<mapsto> \<lparr>pv_key = k, pv_del = f, pv_pvt = v\<rparr>)\<rparr>)
    (ps @ [mem]) (kvs @ [(k, f, v)])"
proof -
  have n: "mem \<notin> set ps" using assms(1,4) by (auto simp: pvt_rel_def)
  then have "map (pvt_of (t\<lparr>th_pvt := ring_add mem (th_pvt t), th_pvts := (th_pvts t)(mem \<mapsto> \<lparr>pv_key = k, pv_del = f, pv_pvt = v\<rparr>)\<rparr>)) ps
      = map (pvt_of t) ps"
    by (auto simp: pvt_of_def)
  then show ?thesis using assms n
    by (auto simp: pvt_rel_def map_of_eq_None_iff ring_rel_add) (simp add: pvt_of_def)
qed

text \<open>Taking out the node of a key.\<close>

lemma pvt_rel_del:
  assumes "pvt_rel t (as @ q # bs) kvs" "th_pvts t q = Some v"
  shows "\<exists>t'. del_pvt_impl t q = Inr (if pv_del v \<noteq> NULL then [(pv_del v, pv_key v, pv_pvt v)] else [], t') \<and>
    pvt_rel t' (as @ bs) (filter (\<lambda>x. fst x \<noteq> pv_key v) kvs) \<and> th_stack t' = th_stack t \<and> th_name t' = th_name t \<and>
    th_thread t' = th_thread t"
proof -
  let ?t = "t\<lparr>th_pvt := ring_remove q (th_pvt t), th_pvts := (th_pvts t)(q := None)\<rparr>"
  note r = pvt_relD(1) [OF assms(1)] and d = pvt_relD(2) [OF assms(1)] and k = pvt_relD(3,4) [OF assms(1)]
  have ds: "q \<notin> set as" "q \<notin> set bs" using ring_rel_distinct [OF r] by auto
  then have rr: "ring_rel (ring_remove q (th_pvt t)) (as @ bs)"
    using ring_rel_remove [OF r, of q] by (simp add: remove1_append)
  have "fst (pvt_of t q) = pv_key v" using assms(2) by (simp add: pvt_of_def)
  moreover have "\<forall>x\<in>set as \<union> set bs. fst (pvt_of t x) \<noteq> fst (pvt_of t q)"
    using k(2) unfolding k(1) by (fastforce simp: image_iff)
  ultimately have "filter (\<lambda>x. fst x \<noteq> pv_key v) kvs = map (pvt_of t) (as @ bs)"
    unfolding k(1) by (simp add: filter_id_conv)
  moreover have "map (pvt_of ?t) (as @ bs) = map (pvt_of t) (as @ bs)" using ds by (auto simp: pvt_of_def)
  moreover have "dom ((th_pvts t)(q := None)) = set (as @ bs)" using d ds by auto
  moreover have "distinct (map fst (map (pvt_of t) (as @ bs)))" using k by auto
  ultimately have "pvt_rel ?t (as @ bs) (filter (\<lambda>x. fst x \<noteq> pv_key v) kvs)"
    using rr by (simp add: pvt_rel_def)
  then show ?thesis using assms(2) by (simp add: del_pvt_impl_def)
qed

definition pvt_calls :: "(u32 \<times> fptr \<times> ptr) list \<Rightarrow> pvt_call list" where
  "pvt_calls kvs = map (\<lambda>(k, f, v). (f, k, v)) (filter (\<lambda>(k, f, v). f \<noteq> NULL) kvs)"

text \<open>The loop of the destructor ends, and calls the destructors from the oldest key to the newest.\<close>

lemma del_all_pvt_ends:
  assumes "pvt_rel t ps kvs"
  shows "\<exists>t'. del_all_pvt cs t = Some (Inr (cs @ pvt_calls kvs, t')) \<and> pvt_rel t' [] [] \<and> th_stack t' = th_stack t \<and>
    th_name t' = th_name t \<and> th_thread t' = th_thread t"
  using assms
proof (induction ps arbitrary: t kvs cs)
  case Nil
  then have "kvs = []" "r_head (th_pvt t) = NULL" by (simp_all add: pvt_rel_def)
  then show ?case using Nil by (subst del_all_pvt.simps) (simp add: pvt_calls_def)
next
  case (Cons p ps)
  then have h: "r_head (th_pvt t) = p" "p \<noteq> NULL" by (auto simp: pvt_rel_def ring_rel_def)
  obtain v where v: "th_pvts t p = Some v" using Cons.prems by (auto simp: pvt_rel_def)
  let ?c = "if pv_del v \<noteq> NULL then [(pv_del v, pv_key v, pv_pvt v)] else []"
  let ?kvs = "filter (\<lambda>x. fst x \<noteq> pv_key v) kvs"
  obtain t1 where t1: "del_pvt_impl t p = Inr (?c, t1)" "pvt_rel t1 ps ?kvs"
    "th_stack t1 = th_stack t" "th_name t1 = th_name t" "th_thread t1 = th_thread t"
    using pvt_rel_del [of t "[]" p ps kvs v] Cons.prems v by auto
  have "kvs = (pv_key v, pv_del v, pv_pvt v) # map (pvt_of t) ps" "distinct (map fst kvs)"
    using pvt_relD(3,4) [OF Cons.prems] v by (simp_all add: pvt_of_def)
  then have "?kvs = tl kvs" "pvt_calls kvs = ?c @ pvt_calls (tl kvs)"
    by (auto simp: pvt_calls_def filter_id_conv image_iff)
  then show ?case using Cons.IH [OF t1(2), of "cs @ ?c"] h t1
    by (subst del_all_pvt.simps) (simp split del: if_split)
qed

section \<open>The registry\<close>

definition threads_inv :: "threads \<Rightarrow> ptr list \<Rightarrow> bool" where
  "threads_inv s xs \<longleftrightarrow> ring_rel (s_thread_list s) xs \<and> th_objs s NULL = None \<and>
     (\<forall>p\<in>set xs. \<exists>t ps kvs. th_objs s p = Some t \<and> pvt_rel t ps kvs \<and> length (th_name t) \<le> THREAD_NAME_LEN) \<and>
     (\<forall>p\<in>set xs. \<forall>q\<in>set xs. \<forall>a b. th_objs s p = Some a \<longrightarrow> th_objs s q = Some b \<longrightarrow>
        th_name a = th_name b \<longrightarrow> th_name a \<noteq> [] \<longrightarrow> p = q) \<and>
     (\<forall>i. th_self s i \<noteq> NULL \<longrightarrow> th_self s i \<in> set xs \<and> (\<exists>t. th_objs s (th_self s i) = Some t \<and> th_thread t = i)) \<and>
     (rp_at s = Woken \<longrightarrow> th_objs s (rp_exit s) \<noteq> None \<and> rp_exit s \<notin> set xs)"

lemma threads_inv_init: "threads_inv os_thread_init []"
  by (simp add: threads_inv_def os_thread_init_def ring0_def)

lemma threads_invD:
  assumes "threads_inv s xs"
  shows "ring_rel (s_thread_list s) xs" "th_objs s NULL = None" "NULL \<notin> set xs" "distinct xs"
    and "p \<in> set xs \<Longrightarrow> \<exists>t ps kvs. th_objs s p = Some t \<and> pvt_rel t ps kvs \<and> length (th_name t) \<le> THREAD_NAME_LEN"
    and "th_self s i \<noteq> NULL \<Longrightarrow> th_self s i \<in> set xs \<and> (\<exists>t. th_objs s (th_self s i) = Some t \<and> th_thread t = i)"
    and "p \<in> set xs \<Longrightarrow> q \<in> set xs \<Longrightarrow> th_objs s p = Some a \<Longrightarrow> th_objs s q = Some b \<Longrightarrow> th_name a = th_name b \<Longrightarrow>
      th_name a \<noteq> [] \<Longrightarrow> p = q"
  using assms ring_rel_null [of "s_thread_list s" xs] ring_rel_distinct [of "s_thread_list s" xs]
  by (simp_all add: threads_inv_def)

lemma find_handle_eq:
  assumes "threads_inv s xs"
  shows "thread_find_handle h s = Some (if h \<in> set xs then h else NULL)"
proof -
  have "find (\<lambda>p. p = h) ys = (if h \<in> set ys then Some h else None)" for ys by (induction ys) auto
  then show ?thesis unfolding thread_find_handle_def ring_find_eq [OF threads_invD(1) [OF assms]] by simp
qed

lemma with_thread_eq:
  assumes "threads_inv s xs"
  shows "with_thread h s no f = (if h \<in> set xs then (case th_objs s h of None \<Rightarrow> Inl BadAccess | Some t \<Rightarrow> f h t) else Inr no)"
proof -
  have "h \<in> set xs \<Longrightarrow> h \<noteq> NULL" using threads_invD(3) [OF assms] by metis
  then show ?thesis by (auto simp: with_thread_def find_handle_eq [OF assms])
qed

lemma find_thread_cases:
  assumes "threads_inv s xs" "nm \<noteq> []"
  obtains (none) "thread_find_obj nm s = Some NULL" "\<forall>p\<in>set xs. \<forall>t. th_objs s p = Some t \<longrightarrow> th_name t \<noteq> take THREAD_NAME_LEN nm"
    | (some) p t where "thread_find_obj nm s = Some p" "p \<in> set xs" "p \<noteq> NULL" "th_objs s p = Some t" "th_name t = take THREAD_NAME_LEN nm"
proof -
  have f: "thread_find_obj nm s = Some (case find (th_named s nm) xs of None \<Rightarrow> NULL | Some x \<Rightarrow> x)"
    unfolding thread_find_obj_def by (rule ring_find_eq [OF threads_invD(1) [OF assms(1)]])
  have n: "th_named s nm p \<longleftrightarrow> th_name t = take THREAD_NAME_LEN nm" if "p \<in> set xs" "th_objs s p = Some t" for p t
    using threads_invD(5) [OF assms(1) that(1)] that(2) by (auto simp: th_named_def strneq_def)
  show thesis
  proof (cases "find (th_named s nm) xs")
    case None
    then have "\<forall>p\<in>set xs. \<not> th_named s nm p" by (simp add: find_None_iff)
    then show thesis using none f None n by auto
  next
    case (Some p)
    then have p: "p \<in> set xs" "th_named s nm p" by (auto simp: find_Some_iff)
    then obtain t where "th_objs s p = Some t" using threads_invD(5) [OF assms(1)] by blast
    then show thesis using some [of p t] f Some p n threads_invD(3) [OF assms(1)] by auto
  qed
qed

text \<open>An object for a new thread, and an update of one that keeps its identity.\<close>

lemma threads_inv_add:
  assumes i: "threads_inv s xs" and m: "m \<noteq> NULL" "th_objs s m = None"
    and t: "pvt_rel t ps kvs" "length (th_name t) \<le> THREAD_NAME_LEN"
    and free: "\<forall>p\<in>set xs. \<forall>a. th_objs s p = Some a \<longrightarrow> th_name t \<noteq> [] \<longrightarrow> th_name a \<noteq> th_name t"
  shows "threads_inv (s\<lparr>th_objs := (th_objs s)(m \<mapsto> t), s_thread_list := ring_add m (s_thread_list s)\<rparr>) (xs @ [m])"
proof -
  have n: "m \<notin> set xs" using m(2) threads_invD(5) [OF i, of m] by auto
  have "ring_rel (ring_add m (s_thread_list s)) (xs @ [m])" by (rule ring_rel_add [OF threads_invD(1) [OF i] m(1) n])
  moreover have "rp_at s = Woken \<Longrightarrow> rp_exit s \<noteq> m" using i m(2) by (auto simp: threads_inv_def)
  moreover have "\<forall>j. th_self s j \<noteq> m" using threads_invD(6) [OF i] m n by metis
  ultimately show ?thesis using i m t free n unfolding threads_inv_def by (simp add: fun_upd_other) fastforce
qed

lemma threads_inv_upd:
  assumes "threads_inv s xs" "th_objs s p = Some t" "pvt_rel t' ps kvs" "th_name t' = th_name t" "th_thread t' = th_thread t"
  shows "threads_inv (upd_thr p t' s) xs"
proof -
  let ?o = "(th_objs s)(p \<mapsto> t')"
  have o: "\<exists>a'. th_objs s x = Some a' \<and> th_name a' = th_name a" if "?o x = Some a" for x a
    using that assms(2,4) by (cases "x = p") auto
  have e: "th_objs (upd_thr p t' s) = ?o" "s_thread_list (upd_thr p t' s) = s_thread_list s" "th_self (upd_thr p t' s) = th_self s"
    "rp_at (upd_thr p t' s) = rp_at s" "rp_exit (upd_thr p t' s) = rp_exit s"
    by (simp_all add: upd_thr_def)
  show ?thesis unfolding threads_inv_def e
  proof (intro conjI)
    show "\<forall>q\<in>set xs. \<exists>t ps kvs. ?o q = Some t \<and> pvt_rel t ps kvs \<and> length (th_name t) \<le> THREAD_NAME_LEN"
    proof
      fix q assume "q \<in> set xs"
      then show "\<exists>t ps kvs. ?o q = Some t \<and> pvt_rel t ps kvs \<and> length (th_name t) \<le> THREAD_NAME_LEN"
        using threads_invD(5) [OF assms(1)] assms(2-4) by (cases "q = p") fastforce+
    qed
    show "\<forall>x\<in>set xs. \<forall>y\<in>set xs. \<forall>a b. ?o x = Some a \<longrightarrow> ?o y = Some b \<longrightarrow>
      th_name a = th_name b \<longrightarrow> th_name a \<noteq> [] \<longrightarrow> x = y"
    proof (intro ballI allI impI)
      fix x y a b assume "x \<in> set xs" "y \<in> set xs" "?o x = Some a" "?o y = Some b" and n: "th_name a = th_name b" "th_name a \<noteq> []"
      moreover obtain a' where "th_objs s x = Some a'" "th_name a' = th_name a" using o \<open>?o x = Some a\<close> by blast
      moreover obtain b' where "th_objs s y = Some b'" "th_name b' = th_name b" using o \<open>?o y = Some b\<close> by blast
      ultimately show "x = y" using threads_invD(7) [OF assms(1)] by metis
    qed
    show "\<forall>i. th_self s i \<noteq> NULL \<longrightarrow> th_self s i \<in> set xs \<and> (\<exists>t. ?o (th_self s i) = Some t \<and> th_thread t = i)"
    proof (intro allI impI)
      fix i assume "th_self s i \<noteq> NULL"
      then show "th_self s i \<in> set xs \<and> (\<exists>t. ?o (th_self s i) = Some t \<and> th_thread t = i)"
        using threads_invD(6) [OF assms(1), of i] assms(2,5) by (cases "th_self s i = p") auto
    qed
    show "ring_rel (s_thread_list s) xs" by (rule threads_invD(1) [OF assms(1)])
    show "?o NULL = None" using threads_invD(2) [OF assms(1)] assms(2) by (cases "p = NULL") auto
    show "rp_at s = Woken \<longrightarrow> ?o (rp_exit s) \<noteq> None \<and> rp_exit s \<notin> set xs"
      using assms(1) by (simp add: threads_inv_def)
  qed
qed

end
