(* ===== verification/ThreadProps.thy ===== *)
theory ThreadProps
  imports ThreadInv
begin

text \<open>Threads that create, use and end each other with the reaper beside them, and the properties of
  mw/os_pthread/os_pthread_thread.c.\<close>

section \<open>Steps\<close>

lemma pvt_rel_frame [simp]:
  "pvt_rel (t\<lparr>th_sched := v\<rparr>) ps kvs = pvt_rel t ps kvs" "pvt_rel (t\<lparr>th_suspend := b\<rparr>) ps kvs = pvt_rel t ps kvs"
proof -
  have "pvt_of (t\<lparr>th_sched := v\<rparr>) = pvt_of t" "pvt_of (t\<lparr>th_suspend := b\<rparr>) = pvt_of t" by (simp_all add: pvt_of_def fun_eq_iff)
  then show "pvt_rel (t\<lparr>th_sched := v\<rparr>) ps kvs = pvt_rel t ps kvs" "pvt_rel (t\<lparr>th_suspend := b\<rparr>) ps kvs = pvt_rel t ps kvs"
    by (simp_all add: pvt_rel_def)
qed

text \<open>\<open>calloc\<close> and \<open>malloc\<close> return memory that is not in use; a created thread starts once.  Nothing but the wakeup tells
  the reaper that there is work, and POSIX lets \<open>pthread_cond_wait\<close> return without a signal: the argument of the steps is
  whether it does.\<close>

definition fresh :: "threads \<Rightarrow> ptr \<Rightarrow> bool" where
  "fresh s mem \<longleftrightarrow> th_objs s mem = None \<and> (\<forall>p t. th_objs s p = Some t \<longrightarrow> th_pvts t mem = None)"

inductive thread_step :: "bool \<Rightarrow> threads \<Rightarrow> threads \<Rightarrow> bool" for spurious where
  create: "fresh s mem \<Longrightarrow> u_thread_create smin smax mem started ph nm z pri pf arg s = Inr (r, h, s') \<Longrightarrow> thread_step spurious s s'"
| start: "thread_find_handle p s = Some p \<Longrightarrow> th_objs s p = Some t \<Longrightarrow> th_self s (th_thread t) = NULL \<Longrightarrow>
    thread_proc p s = Inr (f, a, s') \<Longrightarrow> thread_step spurious s s'"
| self: "fresh s mem \<Longrightarrow> u_thread_self mem pri i ph s = (r, h, s') \<Longrightarrow> thread_step spurious s s'"
| pri: "u_thread_set_pri get put h u s = Inr (r, s') \<Longrightarrow> thread_step spurious s s'"
| sleep: "suspend_sleep i s = Inr s' \<Longrightarrow> thread_step spurious s s'"
| wake: "th_self s i \<noteq> NULL \<Longrightarrow> suspend_wake i s = Inr s' \<Longrightarrow> thread_step spurious s s'"
| set_pvt: "fresh s mem \<Longrightarrow> u_thread_set_pvt mem i k f v s = Inr (r, s') \<Longrightarrow> thread_step spurious s s'"
| del_pvt: "u_thread_del_pvt i k s = Inr (r, c, s') \<Longrightarrow> thread_step spurious s s'"
| exits: "th_self s i \<noteq> NULL \<Longrightarrow> thread_exits i s = Inr (c, s') \<Longrightarrow> thread_step spurious s s'"
| reaper: "rp_at s = Starting \<Longrightarrow> thread_step spurious s (s\<lparr>rp_at := Sleeping\<rparr>)"
| reaps: "rp_at s = Woken \<Longrightarrow> reap True True s = Inr s' \<Longrightarrow> thread_step spurious s s'"
| wakes_up: "spurious \<Longrightarrow> rp_at s = Sleeping \<Longrightarrow> reap True True s = Inr s' \<Longrightarrow> thread_step spurious s s'"

lemma self_obj:
  assumes "threads_inv s xs" "th_self s i \<noteq> NULL"
  obtains t ps kvs where "th_objs s (th_self s i) = Some t" "pvt_rel t ps kvs" "th_self s i \<in> set xs" "th_thread t = i"
  using threads_invD(5,6) [OF assms(1)] assms(2) by (metis option.inject)

lemma threads_inv_self:
  assumes "threads_inv s xs" "p \<in> set xs" "th_objs s p = Some t"
  shows "threads_inv (s\<lparr>th_self := (th_self s)(th_thread t := p)\<rparr>) xs"
  using assms unfolding threads_inv_def by (simp add: Ball_def)

text \<open>Creation: which names are taken, and the new thread.\<close>

lemma create_cases:
  assumes i: "threads_inv s xs" and m: "mem \<noteq> NULL" "th_objs s mem = None" and nm: "nm \<noteq> []"
    and a: "z \<noteq> 0" "pf \<noteq> NULL" "pri \<noteq> 0" "pri \<le> 254" "arg \<noteq> Some []"
  shows "(\<exists>p\<in>set xs. \<exists>t. th_objs s p = Some t \<and> th_name t = take THREAD_NAME_LEN nm) \<Longrightarrow>
      u_thread_create smin smax mem st True (Some nm) z pri pf arg s = Inr (OSR_EXIST, NULL, s)"
    and "\<not> (\<exists>p\<in>set xs. \<exists>t. th_objs s p = Some t \<and> th_name t = take THREAD_NAME_LEN nm) \<Longrightarrow> st = Some (i, sp) \<Longrightarrow>
      \<exists>s'. u_thread_create smin smax mem st True (Some nm) z pri pf arg s = Inr (OSR_OK, mem, s') \<and> threads_inv s' (xs @ [mem]) \<and>
        th_objs s' mem = Some (new_thread i (stack_size smin smax z) (take THREAD_NAME_LEN nm) pf (case arg of None \<Rightarrow> [] | Some b \<Rightarrow> b) sp) \<and>
        (\<forall>p. p \<noteq> mem \<longrightarrow> th_objs s' p = th_objs s p)"
proof -
  have g: "\<not> (nm = [] \<or> \<not> True \<or> z = 0 \<or> pf = NULL \<or> pri < 1 \<or> pri > 254 \<or> arg = Some [])" using nm a by (simp add: not_less)
  show "u_thread_create smin smax mem st True (Some nm) z pri pf arg s = Inr (OSR_EXIST, NULL, s)"
    if "\<exists>p\<in>set xs. \<exists>t. th_objs s p = Some t \<and> th_name t = take THREAD_NAME_LEN nm"
  proof (rule find_thread_cases [OF i nm])
    assume "\<forall>p\<in>set xs. \<forall>t. th_objs s p = Some t \<longrightarrow> th_name t \<noteq> take THREAD_NAME_LEN nm"
    then show ?thesis using that by blast
  next
    fix p t assume "thread_find_obj nm s = Some p" "p \<noteq> NULL"
    then show ?thesis unfolding u_thread_create_def option.case if_not_P [OF g] if_not_P [OF m(1)] by simp
  qed
  assume n: "\<not> (\<exists>p\<in>set xs. \<exists>t. th_objs s p = Some t \<and> th_name t = take THREAD_NAME_LEN nm)" and st: "st = Some (i, sp)"
  let ?t = "new_thread i (stack_size smin smax z) (take THREAD_NAME_LEN nm) pf (case arg of None \<Rightarrow> [] | Some b \<Rightarrow> b) sp"
  let ?s = "s\<lparr>th_objs := (th_objs s)(mem \<mapsto> ?t), s_thread_list := ring_add mem (s_thread_list s)\<rparr>"
  have "thread_find_obj nm s = Some NULL" using find_thread_cases [OF i nm] n by metis
  then have "u_thread_create smin smax mem st True (Some nm) z pri pf arg s = Inr (OSR_OK, mem, ?s)"
    unfolding u_thread_create_def option.case if_not_P [OF g] if_not_P [OF m(1)] st by simp
  moreover have "threads_inv ?s (xs @ [mem])"
    by (rule threads_inv_add [OF i m pvt_rel_new]) (use n in \<open>auto simp: new_thread_def\<close>)
  ultimately show "\<exists>s'. u_thread_create smin smax mem st True (Some nm) z pri pf arg s = Inr (OSR_OK, mem, s') \<and> threads_inv s' (xs @ [mem]) \<and>
        th_objs s' mem = Some ?t \<and> (\<forall>p. p \<noteq> mem \<longrightarrow> th_objs s' p = th_objs s p)"
    by simp
qed

lemma create_inv:
  assumes "threads_inv s xs" "th_objs s mem = None" "u_thread_create smin smax mem st ph ps_name z pri pf arg s = Inr (r, h, s')"
  shows "s' = s \<or> mem \<noteq> NULL \<and> threads_inv s' (xs @ [mem])"
proof (cases "s' = s")
  case False
  then obtain nm where nm: "ps_name = Some nm" using assms(3) by (cases ps_name) (auto simp: u_thread_create_def)
  with False have a: "ph" "nm \<noteq> []" "z \<noteq> 0" "pf \<noteq> NULL" "pri \<noteq> 0" "pri \<le> 254" "arg \<noteq> Some []" "mem \<noteq> NULL"
    using assms(3) by (auto simp: u_thread_create_def not_less split: if_splits)
  note C = create_cases [OF assms(1) a(8) assms(2) a(2-7)]
  have n: "\<not> (\<exists>p\<in>set xs. \<exists>t. th_objs s p = Some t \<and> th_name t = take THREAD_NAME_LEN nm)"
    using C(1) [of smin smax st] assms(3) False a(1) nm by auto
  have "st \<noteq> None" using assms(3) False nm by (auto simp: u_thread_create_def split: if_splits option.splits)
  then obtain i sp where "st = Some (i, sp)" by auto
  then show ?thesis using C(2) [OF n, of st i sp smin smax] assms(3) a(1,8) nm by auto
qed simp

lemma upgrade_new:
  assumes "threads_inv s xs" "th_objs s mem = None" "mem \<noteq> NULL" "th_self s i = NULL"
  shows "threads_inv (snd (snd (u_thread_self mem pri i True s))) (xs @ [mem])"
proof -
  let ?t = "new_thread i 0 [] NULL [] pri"
  let ?s = "s\<lparr>th_objs := (th_objs s)(mem \<mapsto> ?t), s_thread_list := ring_add mem (s_thread_list s)\<rparr>"
  have "threads_inv ?s (xs @ [mem])"
    by (rule threads_inv_add [OF assms(1,3,2) pvt_rel_new]) (simp_all add: new_thread_def)
  from threads_inv_self [OF this, of mem ?t] have "threads_inv (?s\<lparr>th_self := (th_self ?s)(i := mem)\<rparr>) (xs @ [mem])"
    by (simp add: new_thread_def)
  then show ?thesis using assms(3,4) by (simp add: u_thread_self_def thread_upgrade_def)
qed

lemma upgrade_inv:
  assumes "threads_inv s xs" "th_objs s mem = None" "u_thread_self mem pri i ph s = (r, h, s')"
  shows "s' = s \<or> mem \<noteq> NULL \<and> threads_inv s' (xs @ [mem])"
proof (cases "s' = s")
  case False
  then have "mem \<noteq> NULL" "th_self s i = NULL" "ph"
    using assms(3) by (auto simp: u_thread_self_def thread_upgrade_def split: if_splits)
  then show ?thesis using upgrade_new [OF assms(1,2), of i pri] assms(3) by simp
qed simp

text \<open>The end of a thread.\<close>

lemma exits_inv:
  assumes i: "threads_inv s xs" and p: "th_self s i = p" "p \<noteq> NULL" and t: "th_objs s p = Some t" "pvt_rel t ps kvs"
  shows "\<exists>s'. thread_exits i s = Inr (pvt_calls kvs, s') \<and> threads_inv s' (remove1 p xs) \<and> rp_exit s' = p \<and>
    th_objs s' p \<noteq> None \<and> (\<forall>q. q \<noteq> p \<longrightarrow> th_objs s' q = th_objs s q) \<and> (rp_at s' = Woken \<longleftrightarrow> rp_at s \<noteq> Starting)"
proof -
  let ?s0 = "s\<lparr>th_self := (th_self s)(i := NULL)\<rparr>"
  obtain t' where t': "del_all_pvt [] t = Some (Inr (pvt_calls kvs, t'))" "pvt_rel t' [] []"
    "th_stack t' = th_stack t" "th_name t' = th_name t" "th_thread t' = th_thread t"
    using del_all_pvt_ends [OF t(2), of "[]"] by auto
  let ?s1 = "(upd_thr p t' ?s0)\<lparr>s_thread_list := ring_remove p (s_thread_list s)\<rparr>"
  let ?s' = "signal_reaper p ?s1"
  have e: "thread_exits i s = Inr (pvt_calls kvs, ?s')"
    using p t(1) t'(1) by (simp add: thread_exits_def thread_key_destructor_def)
  have o: "s_thread_list ?s' = ring_remove p (s_thread_list s)" "th_objs ?s' = (th_objs s)(p \<mapsto> t')" "th_self ?s' = (th_self s)(i := NULL)"
      "rp_exit ?s' = p" "rp_at ?s' = (if rp_at s = Sleeping then Woken else rp_at s)"
    by (simp_all add: signal_reaper_def upd_thr_def)
  have px: "p \<in> set xs" "th_thread t = i" using threads_invD(6) [OF i, of i] p t(1) by auto
  have st: "set (remove1 p xs) = set xs - {p}" using threads_invD(4) [OF i] by simp
  have others: "th_self s j \<noteq> p" if "j \<noteq> i" for j
    using threads_invD(6) [OF i, of j] p(2) t(1) px(2) that by auto
  have "threads_inv ?s' (remove1 p xs)"
    unfolding threads_inv_def o st
  proof (intro conjI)
    show "ring_rel (ring_remove p (s_thread_list s)) (remove1 p xs)" by (rule ring_rel_remove [OF threads_invD(1) [OF i] px(1)])
    show "((th_objs s)(p \<mapsto> t')) NULL = None" using threads_invD(2) [OF i] p(2) by simp
    show "\<forall>q\<in>set xs - {p}. \<exists>t ps kvs. ((th_objs s)(p \<mapsto> t')) q = Some t \<and> pvt_rel t ps kvs \<and> length (th_name t) \<le> THREAD_NAME_LEN"
      using threads_invD(5) [OF i] by auto
    show "\<forall>x\<in>set xs - {p}. \<forall>y\<in>set xs - {p}. \<forall>a b. ((th_objs s)(p \<mapsto> t')) x = Some a \<longrightarrow> ((th_objs s)(p \<mapsto> t')) y = Some b \<longrightarrow>
        th_name a = th_name b \<longrightarrow> th_name a \<noteq> [] \<longrightarrow> x = y"
      using threads_invD(7) [OF i] by auto
    show "\<forall>j. ((th_self s)(i := NULL)) j \<noteq> NULL \<longrightarrow> ((th_self s)(i := NULL)) j \<in> set xs - {p} \<and>
        (\<exists>t. ((th_objs s)(p \<mapsto> t')) (((th_self s)(i := NULL)) j) = Some t \<and> th_thread t = j)"
      using threads_invD(6) [OF i] others by simp
    show "(if rp_at s = Sleeping then Woken else rp_at s) = Woken \<longrightarrow> ((th_objs s)(p \<mapsto> t')) p \<noteq> None \<and> p \<notin> set xs - {p}"
      by simp
  qed
  moreover have "rp_at ?s' = Woken \<longleftrightarrow> rp_at s \<noteq> Starting" unfolding o by (cases "rp_at s") auto
  ultimately show ?thesis using e o by auto
qed

lemma reap_inv:
  assumes "threads_inv s xs" "rp_at s = Woken"
  shows "\<exists>s'. reap True True s = Inr s' \<and> threads_inv s' xs \<and> th_objs s' = (th_objs s)(rp_exit s := None) \<and>
    rp_exit s' = rp_exit s \<and> rp_exit s \<noteq> NULL"
proof -
  obtain t where t: "th_objs s (rp_exit s) = Some t" "rp_exit s \<notin> set xs" using assms by (auto simp: threads_inv_def)
  then have n: "rp_exit s \<noteq> NULL" using threads_invD(2) [OF assms(1)] by (cases "rp_exit s = NULL") auto
  let ?s = "s\<lparr>th_objs := (th_objs s)(rp_exit s := None), rp_at := Sleeping\<rparr>"
  have o: "((th_objs s)(rp_exit s := None)) p = th_objs s p" if "p \<in> set xs" for p using that t(2) by auto
  have "threads_inv ?s xs" unfolding threads_inv_def
  proof (intro conjI)
    show "\<forall>p\<in>set xs. \<exists>t ps kvs. th_objs ?s p = Some t \<and> pvt_rel t ps kvs \<and> length (th_name t) \<le> THREAD_NAME_LEN"
      using threads_invD(5) [OF assms(1)] o by simp
    show "\<forall>x\<in>set xs. \<forall>y\<in>set xs. \<forall>a b. th_objs ?s x = Some a \<longrightarrow> th_objs ?s y = Some b \<longrightarrow>
        th_name a = th_name b \<longrightarrow> th_name a \<noteq> [] \<longrightarrow> x = y"
      using threads_invD(7) [OF assms(1)] o by simp
    show "\<forall>i. th_self ?s i \<noteq> NULL \<longrightarrow> th_self ?s i \<in> set xs \<and> (\<exists>t. th_objs ?s (th_self ?s i) = Some t \<and> th_thread t = i)"
      using threads_invD(6) [OF assms(1)] o by simp
  qed (use threads_invD(1,2) [OF assms(1)] in simp_all)
  then show ?thesis using t n by (simp add: reap_def)
qed

section \<open>Steps keep the invariant\<close>

lemma with_self_obj:
  assumes "threads_inv s xs"
  shows "with_self i s no f = (if th_self s i = NULL then Inr no else f (th_self s i) (the (th_objs s (th_self s i))))"
  using threads_invD(6) [OF assms, of i] by (auto simp: with_self_def)

text \<open>What a step leaves alone: an object that is not listed stays, unless the reaper has it in hand, and the reaper
  is told of listed threads only.\<close>

definition kept :: "threads \<Rightarrow> ptr list \<Rightarrow> threads \<Rightarrow> ptr list \<Rightarrow> bool" where
  "kept s xs s' ys \<longleftrightarrow> (\<forall>x. x \<notin> set xs \<longrightarrow> th_objs s x \<noteq> None \<longrightarrow> x \<notin> set ys \<and> (x = rp_exit s \<or> th_objs s' x \<noteq> None)) \<and>
     (rp_exit s' = rp_exit s \<or> rp_exit s' \<in> set xs)"

lemma kept_simps [simp]:
  "kept s xs s xs" "kept s xs (upd_thr p t s) xs" "kept s xs (s\<lparr>th_self := f\<rparr>) xs" "kept s xs (s\<lparr>rp_at := b\<rparr>) xs"
  by (auto simp: kept_def upd_thr_def)

lemma create_kept:
  assumes "th_objs s mem = None" "u_thread_create smin smax mem st ph ps_name z pri pf arg s = Inr (r, h, s')" "s' \<noteq> s"
  shows "kept s xs s' (xs @ [mem])"
  using assms by (auto simp: u_thread_create_def kept_def Let_def split: option.splits if_splits)

lemma upgrade_kept:
  assumes "th_objs s mem = None" "u_thread_self mem pri i ph s = (r, h, s')" "s' \<noteq> s"
  shows "kept s xs s' (xs @ [mem])"
  using assms by (auto simp: u_thread_self_def thread_upgrade_def kept_def split: if_splits)

text \<open>An update of the object of a thread that knows itself.\<close>

lemma self_upd:
  assumes "threads_inv s xs" "th_objs s p = Some t" "pvt_rel t' ps kvs" "th_name t' = th_name t" "th_thread t' = th_thread t"
  shows "\<exists>ys. threads_inv (upd_thr p t' s) ys \<and> kept s xs (upd_thr p t' s) ys"
  using threads_inv_upd [OF assms] by (intro exI [of _ xs]) simp

lemma set_pvt_step:
  assumes i: "threads_inv s xs" and "fresh s mem" "u_thread_set_pvt mem i k f v s = Inr (r, s')" "s' \<noteq> s"
  shows "\<exists>ys. threads_inv s' ys \<and> kept s xs s' ys"
proof -
  have n: "th_self s i \<noteq> NULL" using assms by (auto simp: u_thread_set_pvt_def with_self_def split: if_splits)
  obtain t ps kvs where t: "th_objs s (th_self s i) = Some t" "pvt_rel t ps kvs" by (rule self_obj [OF i n])
  have m: "th_pvts t mem = None" using assms(2) t(1) by (auto simp: fresh_def)
  show ?thesis
  proof (rule find_pvt_cases [OF t(2), of k])
    let ?t = "t\<lparr>th_pvt := ring_add mem (th_pvt t), th_pvts := (th_pvts t)(mem \<mapsto> \<lparr>pv_key = k, pv_del = f, pv_pvt = v\<rparr>)\<rparr>"
    assume a: "thread_find_pvt_key t k = Some NULL" "map_of kvs k = None"
    then have s': "mem \<noteq> NULL" "s' = upd_thr (th_self s i) ?t s"
      using assms(3,4) n t(1) by (auto simp: u_thread_set_pvt_def with_self_def split: if_splits)
    show ?thesis unfolding s'(2) by (rule self_upd [OF i t(1) pvt_rel_add [OF t(2) a(2) s'(1) m]]) simp_all
  next
    fix q assume "thread_find_pvt_key t k = Some q" "q \<noteq> NULL"
    then show ?thesis using assms(3,4) n t(1) by (auto simp: u_thread_set_pvt_def with_self_def)
  qed
qed

lemma del_pvt_step:
  assumes i: "threads_inv s xs" and "u_thread_del_pvt i k s = Inr (r, c, s')" "s' \<noteq> s"
  shows "\<exists>ys. threads_inv s' ys \<and> kept s xs s' ys"
proof -
  have n: "th_self s i \<noteq> NULL" using assms by (auto simp: u_thread_del_pvt_def with_self_def split: if_splits)
  obtain t ps kvs where t: "th_objs s (th_self s i) = Some t" "pvt_rel t ps kvs" by (rule self_obj [OF i n])
  show ?thesis
  proof (rule find_pvt_cases [OF t(2), of k])
    assume "thread_find_pvt_key t k = Some NULL"
    then show ?thesis using assms(2,3) n t(1) by (auto simp: u_thread_del_pvt_def with_self_def)
  next
    fix as q bs v assume a: "thread_find_pvt_key t k = Some q" "q \<noteq> NULL" "th_pvts t q = Some v" "ps = as @ q # bs"
    then obtain t' where t': "del_pvt_impl t q = Inr (if pv_del v \<noteq> NULL then [(pv_del v, pv_key v, pv_pvt v)] else [], t')"
      "pvt_rel t' (as @ bs) (filter (\<lambda>x. fst x \<noteq> pv_key v) kvs)" "th_name t' = th_name t" "th_thread t' = th_thread t"
      using pvt_rel_del [of t as q bs kvs v] t(2) by blast
    then have "s' = upd_thr (th_self s i) t' s" using assms(2) n t(1) a by (auto simp: u_thread_del_pvt_def with_self_def)
    then show ?thesis using self_upd [OF i t(1) t'(2-4)] by simp
  qed
qed

lemma thread_step_inv:
  assumes "thread_step False s s'" "threads_inv s xs"
  shows "\<exists>ys. threads_inv s' ys \<and> kept s xs s' ys"
proof (cases "s' = s")
  case True
  then show ?thesis using assms(2) by (intro exI [of _ xs]) simp
next
  case False
  show ?thesis using assms(1)
  proof cases
    case (create mem smin smax started ph nm z pri pf arg r h)
    then have "th_objs s mem = None" by (simp add: fresh_def)
    then show ?thesis using create_inv [OF assms(2) _ create(2)] create_kept [OF _ create(2) False] False by blast
  next
    case (start p t f a)
    have "p \<in> set xs" using start(1) find_handle_eq [OF assms(2), of p] start(2) threads_invD(2) [OF assms(2)]
      by (auto split: if_splits)
    moreover have "s' = s\<lparr>th_self := (th_self s)(th_thread t := p)\<rparr>" using start by (auto simp: thread_proc_def split: if_splits)
    ultimately show ?thesis using threads_inv_self [OF assms(2) _ start(2)] by (intro exI [of _ xs]) simp
  next
    case (self mem pri i ph r h)
    then have "th_objs s mem = None" by (simp add: fresh_def)
    then show ?thesis using upgrade_inv [OF assms(2) _ self(2)] upgrade_kept [OF _ self(2) False] False by blast
  next
    case (pri get put h u r)
    then obtain t where t: "h \<in> set xs" "th_objs s h = Some t" "s' = upd_thr h (t\<lparr>th_sched := to_sched_priority u\<rparr>) s"
      using False by (auto simp: u_thread_set_pri_def with_thread_eq [OF assms(2)] split: if_splits option.splits)
    then obtain ps kvs where "pvt_rel t ps kvs" using threads_invD(5) [OF assms(2) t(1)] by auto
    then show ?thesis unfolding t(3) by (intro self_upd [OF assms(2) t(2)]) simp_all
  next
    case (sleep i)
    then have n: "th_self s i \<noteq> NULL" by (auto simp: suspend_sleep_def Let_def split: if_splits)
    obtain t ps kvs where t: "th_objs s (th_self s i) = Some t" "pvt_rel t ps kvs" by (rule self_obj [OF assms(2) n])
    then have "s' = upd_thr (th_self s i) (t\<lparr>th_suspend := True\<rparr>) s" using sleep n by (auto simp: suspend_sleep_def)
    then show ?thesis using self_upd [OF assms(2) t(1), of "t\<lparr>th_suspend := True\<rparr>"] t(2) by simp
  next
    case (wake i)
    obtain t ps kvs where t: "th_objs s (th_self s i) = Some t" "pvt_rel t ps kvs" by (rule self_obj [OF assms(2) wake(1)])
    then have "s' = upd_thr (th_self s i) (t\<lparr>th_suspend := False\<rparr>) s" using wake by (auto simp: suspend_wake_def)
    then show ?thesis using self_upd [OF assms(2) t(1), of "t\<lparr>th_suspend := False\<rparr>"] t(2) by simp
  next
    case (set_pvt mem i k f v r)
    then show ?thesis using set_pvt_step [OF assms(2)] False by blast
  next
    case (del_pvt i k r c)
    then show ?thesis using del_pvt_step [OF assms(2)] False by blast
  next
    case (exits i c)
    obtain t ps kvs where t: "th_objs s (th_self s i) = Some t" "pvt_rel t ps kvs" "th_self s i \<in> set xs" by (rule self_obj [OF assms(2) exits(1)])
    obtain s'' where "thread_exits i s = Inr (pvt_calls kvs, s'')" "threads_inv s'' (remove1 (th_self s i) xs)" "rp_exit s'' = th_self s i"
      "\<forall>q. q \<noteq> th_self s i \<longrightarrow> th_objs s'' q = th_objs s q" using exits_inv [OF assms(2) refl exits(1) t(1,2)] by blast
    moreover have "x \<noteq> th_self s i" if "x \<notin> set xs" for x using that t(3) by auto
    ultimately show ?thesis using exits(2) t(3)
      by (intro exI [of _ "remove1 (th_self s i) xs"]) (auto simp: kept_def dest: notin_set_remove1)
  next
    case reaper
    then show ?thesis using assms(2) by (intro exI [of _ xs]) (simp add: threads_inv_def)
  next
    case reaps
    then show ?thesis using reap_inv [OF assms(2)] by (intro exI [of _ xs]) (auto simp: kept_def)
  qed simp
qed

lemma threads_reachable_inv: "(thread_step False)\<^sup>*\<^sup>* os_thread_init s \<Longrightarrow> \<exists>xs. threads_inv s xs"
  by (induction rule: rtranclp_induct) (use threads_inv_init thread_step_inv in blast)+

section \<open>Stack sizes and priorities\<close>

lemma and_not_7: "unat ((x :: u32) AND NOT 7) = unat x div 8 * 8"
proof -
  have "(mask 3 :: u32) = 7" by (simp add: mask_eq_exp_minus_1)
  then have b: "bit (7 :: u32) n \<longleftrightarrow> n < 3" for n using bit_mask_iff [of 3 n, where ?'a = u32] by auto
  have "x AND NOT 7 = push_bit 3 (drop_bit 3 x)" 
  proof (rule bit_word_eqI)
    fix n assume n: "n < LENGTH(32)"
    then have "bit (x AND NOT 7) n \<longleftrightarrow> bit x n \<and> \<not> n < 3" unfolding bit_and_iff bit_not_iff b by auto
    moreover have "bit (push_bit 3 (drop_bit 3 x)) n \<longleftrightarrow> bit x n \<and> \<not> n < 3"
      using n by (auto simp: bit_push_bit_iff bit_drop_bit_eq possible_bit_word)
    ultimately show "bit (x AND NOT 7) n \<longleftrightarrow> bit (push_bit 3 (drop_bit 3 x)) n" by blast
  qed
  also have "unat \<dots> = unat x div 8 * 8"
  proof -
    have "unat (drop_bit 3 x) = unat x div 8" by (simp add: drop_bit_eq_div unat_div)
    moreover have "unat x div 8 * 8 < 4294967296" using unat_bounds(3) [of x] by linarith
    ultimately show ?thesis by (simp add: push_bit_eq_mult unat_word_ariths mult.commute)
  qed
  finally show ?thesis .
qed

lemma priorities_drift:
  "\<forall>p\<in>set [1..99]. to_sched_priority (from_sched_priority p) = (if p mod 25 = 0 \<or> p = 99 then p else p + 1) \<and>
     from_sched_priority p \<noteq> 0 \<and> from_sched_priority p \<le> 254"
  by code_simp

section \<open>A run\<close>

text \<open>Two threads that the layer has not created, 7 and 8, ask for themselves; the reaper waits.\<close>

definition thr_a :: threads where
  "thr_a = snd (snd (u_thread_self 64 50 7 True os_thread_init))"

definition thr_b :: threads where
  "thr_b = (snd (snd (u_thread_self 128 50 8 True thr_a)))\<lparr>rp_at := Sleeping\<rparr>"

lemma thr_a_eq: "thr_a = os_thread_init\<lparr>th_objs := [64 \<mapsto> new_thread 7 0 [] NULL [] 50], s_thread_list := ring_add 64 ring0,
    th_self := (\<lambda>_. NULL)(7 := 64)\<rparr>"
  by (simp add: thr_a_def u_thread_self_def thread_upgrade_def os_thread_init_def)

lemma thr_b_eq: "thr_b = thr_a\<lparr>th_objs := [64 \<mapsto> new_thread 7 0 [] NULL [] 50, 128 \<mapsto> new_thread 8 0 [] NULL [] 50],
    s_thread_list := ring_add 128 (ring_add 64 ring0), th_self := (\<lambda>_. NULL)(7 := 64, 8 := 128), rp_at := Sleeping\<rparr>"
  by (simp add: thr_b_def u_thread_self_def thread_upgrade_def thr_a_eq os_thread_init_def)

lemma thr_b_reachable: "(thread_step False)\<^sup>*\<^sup>* os_thread_init thr_b"
proof -
  let ?c = "snd (snd (u_thread_self 128 50 8 True thr_a))"
  obtain r h where 1: "u_thread_self 64 50 7 True os_thread_init = (r, h, thr_a)" unfolding thr_a_def by (metis prod.collapse)
  have s1: "thread_step False os_thread_init thr_a" by (rule self [OF _ 1]) (simp add: fresh_def os_thread_init_def)
  obtain r h where 2: "u_thread_self 128 50 8 True thr_a = (r, h, ?c)" by (metis prod.collapse)
  have s2: "thread_step False thr_a ?c" by (rule self [OF _ 2]) (simp add: fresh_def thr_a_eq os_thread_init_def new_thread_def)
  have "rp_at ?c = Starting"
    by (simp add: u_thread_self_def thread_upgrade_def thr_a_eq os_thread_init_def)
  then have s3: "thread_step False ?c thr_b" unfolding thr_b_def by (rule reaper)
  show ?thesis using s1 s2 s3 by (meson converse_rtranclp_into_rtranclp r_into_rtranclp)
qed

section \<open>Properties\<close>

text \<open>C34 The registry, where the wait of the reaper does not return without a signal: whatever threads are created, started, upgraded, changed and ended, in whatever order, the
  list of threads is well formed, a handle resolves exactly when it is the address of a listed thread, every listed
  thread has its object, no two of them have the same name (unless it is empty), and every running thread knows
  itself by a listed object.\<close>

theorem thread_registry:
  assumes "(thread_step False)\<^sup>*\<^sup>* os_thread_init s"
  shows "\<exists>xs. ring_rel (s_thread_list s) xs \<and> (\<forall>h. thread_find_handle h s = Some (if h \<in> set xs then h else NULL)) \<and>
    (\<forall>p\<in>set xs. th_objs s p \<noteq> None) \<and>
    (\<forall>p\<in>set xs. \<forall>q\<in>set xs. p \<noteq> q \<longrightarrow> th_name (the (th_objs s p)) = th_name (the (th_objs s q)) \<longrightarrow> th_name (the (th_objs s p)) = []) \<and>
    (\<forall>i. th_self s i \<noteq> NULL \<longrightarrow> th_self s i \<in> set xs)"
proof -
  obtain xs where i: "threads_inv s xs" using threads_reachable_inv [OF assms] by blast
  have "\<exists>t. th_objs s p = Some t" if "p \<in> set xs" for p using threads_invD(5) [OF i that] by auto
  then have "\<forall>p\<in>set xs. th_objs s p \<noteq> None" by fastforce
  moreover have "\<forall>p\<in>set xs. \<forall>q\<in>set xs. p \<noteq> q \<longrightarrow> th_name (the (th_objs s p)) = th_name (the (th_objs s q)) \<longrightarrow> th_name (the (th_objs s p)) = []"
  proof (intro ballI impI)
    fix p q assume a: "p \<in> set xs" "q \<in> set xs" "p \<noteq> q" "th_name (the (th_objs s p)) = th_name (the (th_objs s q))"
    obtain t u where "th_objs s p = Some t" "th_objs s q = Some u" using calculation a(1,2) by (metis not_None_eq)
    then show "th_name (the (th_objs s p)) = []" using threads_invD(7) [OF i a(1,2)] a(3,4) by auto
  qed
  moreover have "\<forall>h. thread_find_handle h s = Some (if h \<in> set xs then h else NULL)" using find_handle_eq [OF i] by blast
  moreover have "\<forall>i. th_self s i \<noteq> NULL \<longrightarrow> th_self s i \<in> set xs" using threads_invD(6) [OF i] by blast
  ultimately show ?thesis using threads_invD(1) [OF i] by blast
qed

theorem thread_registry_witness: "thread_find_handle 64 thr_b = Some 64"
proof -
  obtain xs where xs: "ring_rel (s_thread_list thr_b) xs" "\<forall>h. thread_find_handle h thr_b = Some (if h \<in> set xs then h else NULL)"
    "\<forall>i. th_self thr_b i \<noteq> NULL \<longrightarrow> th_self thr_b i \<in> set xs"
    using thread_registry [OF thr_b_reachable] by blast
  have "th_self thr_b 7 = 64" by (simp add: thr_b_eq)
  then have "64 \<in> set xs" using xs(3) [rule_format, of 7] by simp
  then show ?thesis using xs(2) by simp
qed

text \<open>Creating a thread with arguments in range is refused exactly when a listed thread has the same first 16
  characters of the name; otherwise the new thread is listed last, with its name cut, its stack rounded and its
  argument copied.\<close>

theorem thread_create_by_name:
  assumes "threads_inv s xs" "mem \<noteq> NULL" "th_objs s mem = None" "nm \<noteq> []" "z \<noteq> 0" "pf \<noteq> NULL" "pri \<noteq> 0" "pri \<le> 254" "a \<noteq> []"
  shows "if \<exists>p\<in>set xs. \<exists>t. th_objs s p = Some t \<and> th_name t = take 16 nm
    then u_thread_create smin smax mem (Some (i, sp)) True (Some nm) z pri pf (Some a) s = Inr (OSR_EXIST, NULL, s)
    else \<exists>s'. u_thread_create smin smax mem (Some (i, sp)) True (Some nm) z pri pf (Some a) s = Inr (OSR_OK, mem, s') \<and>
      threads_inv s' (xs @ [mem]) \<and> th_objs s' mem = Some (new_thread i (stack_size smin smax z) (take 16 nm) pf a sp)"
proof -
  have "Some a \<noteq> Some []" using assms(9) by simp
  note C = create_cases [OF assms(1-8) this]
  show ?thesis using C(1) [of smin smax "Some (i, sp)"] C(2) [of "Some (i, sp)" i sp smin smax]
    by (simp add: THREAD_NAME_LEN_def) blast
qed

theorem thread_create_by_name_witness:
  "\<exists>s'. u_thread_create 16384 None 64 (Some (9, 50)) True (Some ''worker'') 10000 128 5 (Some [1]) os_thread_init = Inr (OSR_OK, 64, s')"
  using thread_create_by_name [OF threads_inv_init, of 64 "''worker''" 10000 5 128 "[1]" 16384 None 9 50]
  by (auto simp: os_thread_init_def)

text \<open>The private data of a thread is a map from keys: setting a key that is not there adds it, a key that is
  there is refused, reading returns what was set, and deleting takes out that key alone and calls its
  destructor with its value.\<close>

theorem thread_pvt_refines:
  assumes "threads_inv s xs" "th_self s i = p" "p \<noteq> NULL" "th_objs s p = Some t" "pvt_rel t ps kvs" "mem \<noteq> NULL" "th_pvts t mem = None"
  shows "(if map_of kvs k = None
      then \<exists>t'. u_thread_set_pvt mem i k f v s = Inr (OSR_OK, upd_thr p t' s) \<and> pvt_rel t' (ps @ [mem]) (kvs @ [(k, f, v)])
      else u_thread_set_pvt mem i k f v s = Inr (OSR_DUP_KEY, s)) \<and>
    u_thread_get_pvt i k s = Inr (case map_of kvs k of None \<Rightarrow> (OSR_KEY_NOT_FOUND, None) | Some (f, v) \<Rightarrow> (OSR_OK, Some v)) \<and>
    (case map_of kvs k of
       None \<Rightarrow> u_thread_del_pvt i k s = Inr (OSR_KEY_NOT_FOUND, [], s)
     | Some (f, v) \<Rightarrow> \<exists>t' qs. u_thread_del_pvt i k s = Inr (OSR_OK, if f \<noteq> NULL then [(f, k, v)] else [], upd_thr p t' s) \<and>
         pvt_rel t' qs (filter (\<lambda>x. fst x \<noteq> k) kvs))"
proof (rule find_pvt_cases [OF assms(5), of k])
  assume "thread_find_pvt_key t k = Some NULL" "map_of kvs k = None"
  then show ?thesis using assms pvt_rel_add [OF assms(5), of k mem f v]
    by (auto simp: u_thread_set_pvt_def u_thread_get_pvt_def u_thread_del_pvt_def with_self_def)
next
  fix as q bs w assume a: "thread_find_pvt_key t k = Some q" "q \<noteq> NULL" "th_pvts t q = Some w" "pv_key w = k" "ps = as @ q # bs"
    "map_of kvs k = Some (pv_del w, pv_pvt w)"
  then obtain t' where "del_pvt_impl t q = Inr (if pv_del w \<noteq> NULL then [(pv_del w, k, pv_pvt w)] else [], t')"
    "pvt_rel t' (as @ bs) (filter (\<lambda>x. fst x \<noteq> k) kvs)"
    using pvt_rel_del [of t as q bs kvs w] assms(5) by blast
  then show ?thesis using assms a
    by (auto simp: u_thread_set_pvt_def u_thread_get_pvt_def u_thread_del_pvt_def with_self_def simp del: split_paired_Ex)
qed

lemma thr_b_pvt: "threads_inv thr_b [64, 128]" "th_objs thr_b 64 = Some (new_thread 7 0 [] NULL [] 50)" "th_self thr_b 7 = 64" "th_self thr_b 8 = 128"
proof -
  show "th_objs thr_b 64 = Some (new_thread 7 0 [] NULL [] 50)" "th_self thr_b 7 = 64" "th_self thr_b 8 = 128"
    by (simp_all add: thr_b_eq)
  have a: "threads_inv thr_a [64]" unfolding thr_a_def
    using upgrade_new [OF threads_inv_init, of 64 7 50] by (simp add: os_thread_init_def)
  have "threads_inv (snd (snd (u_thread_self 128 50 8 True thr_a))) [64, 128]"
    using upgrade_new [OF a, of 128 8 50] by (simp add: thr_a_eq os_thread_init_def)
  then show "threads_inv thr_b [64, 128]" unfolding thr_b_def by (simp add: threads_inv_def)
qed

theorem thread_pvt_refines_witness:
  "\<exists>t'. u_thread_set_pvt 200 7 5 9 77 thr_b = Inr (OSR_OK, upd_thr 64 t' thr_b) \<and> pvt_rel t' [200] [(5, 9, 77)]"
  using thread_pvt_refines [OF thr_b_pvt(1,3) _ thr_b_pvt(2) pvt_rel_new, of 200 5 9 77] by (simp add: new_thread_def)

text \<open>C35 When a thread ends, the loop over its private data ends: every destructor is called once, in the order the
  keys were set, the thread leaves the registry and its handle no longer resolves, and no other thread changes.\<close>

theorem thread_exit_destructors:
  assumes "threads_inv s xs" "th_self s i = p" "p \<noteq> NULL" "th_objs s p = Some t" "pvt_rel t ps kvs"
  shows "\<exists>s'. thread_exits i s = Inr (map (\<lambda>(k, f, v). (f, k, v)) (filter (\<lambda>(k, f, v). f \<noteq> NULL) kvs), s') \<and>
    threads_inv s' (remove1 p xs) \<and> thread_find_handle p s' = Some NULL \<and> (\<forall>q. q \<noteq> p \<longrightarrow> th_objs s' q = th_objs s q)"
proof -
  obtain s' where s': "thread_exits i s = Inr (pvt_calls kvs, s')" "threads_inv s' (remove1 p xs)" "\<forall>q. q \<noteq> p \<longrightarrow> th_objs s' q = th_objs s q"
    using exits_inv [OF assms] by blast
  then show ?thesis using find_handle_eq [OF s'(2), of p] threads_invD(4) [OF assms(1)] by (simp add: pvt_calls_def)
qed

theorem thread_exit_destructors_witness: "\<exists>s'. thread_exits 7 thr_b = Inr ([], s') \<and> thread_find_handle 64 s' = Some NULL"
  using thread_exit_destructors [OF thr_b_pvt(1,3) _ thr_b_pvt(2) pvt_rel_new] by auto

text \<open>The reaper, once signalled, frees the thread that has ended; a spurious wakeup of its wait after that makes
  it use the freed thread.\<close>

theorem thread_reaper_frees:
  assumes "(thread_step False)\<^sup>*\<^sup>* os_thread_init s" "rp_at s = Woken"
  shows "\<exists>s'. reap True True s = Inr s' \<and> th_objs s (rp_exit s) \<noteq> None \<and> th_objs s' = (th_objs s)(rp_exit s := None) \<and>
    reap True True s' = Inl BadAccess"
proof -
  obtain xs where i: "threads_inv s xs" using threads_reachable_inv [OF assms(1)] by blast
  then obtain s' where "reap True True s = Inr s'" "th_objs s' = (th_objs s)(rp_exit s := None)" "rp_exit s' = rp_exit s" "rp_exit s \<noteq> NULL"
    using reap_inv [OF i assms(2)] by blast
  moreover have "th_objs s (rp_exit s) \<noteq> None" using i assms(2) by (simp add: threads_inv_def)
  ultimately show ?thesis by (simp add: reap_def)
qed

lemma thr_b_exit: "\<exists>c s'. thread_exits 7 thr_b = Inr (c, s') \<and> (thread_step False)\<^sup>*\<^sup>* os_thread_init s' \<and> rp_at s' = Woken \<and> rp_exit s' = 64 \<and>
  th_self s' 8 = 128 \<and> threads_inv s' [128]"
proof -
  obtain s' where s': "thread_exits 7 thr_b = Inr (pvt_calls [], s')" "threads_inv s' (remove1 64 [64, 128])" "rp_exit s' = 64"
    "rp_at s' = Woken \<longleftrightarrow> rp_at thr_b \<noteq> Starting"
    using exits_inv [OF thr_b_pvt(1,3) _ thr_b_pvt(2) pvt_rel_new] by auto
  have "thread_step False thr_b s'" by (rule exits [OF _ s'(1)]) (simp add: thr_b_pvt)
  then have "(thread_step False)\<^sup>*\<^sup>* os_thread_init s'" using thr_b_reachable by (rule rtranclp.rtrancl_into_rtrancl [rotated])
  moreover have "th_self s' 8 = 128"
    using s'(1) thr_b_pvt by (auto simp: thread_exits_def thread_key_destructor_def signal_reaper_def upd_thr_def then_do_Inr)
  ultimately show ?thesis using s' by (simp add: thr_b_eq)
qed

theorem thread_reaper_frees_witness: "\<exists>s s'. (thread_step False)\<^sup>*\<^sup>* os_thread_init s \<and> reap True True s = Inr s' \<and> th_objs s' 64 = None"
proof -
  obtain c s where s: "(thread_step False)\<^sup>*\<^sup>* os_thread_init s" "rp_at s = Woken" "rp_exit s = 64" using thr_b_exit by blast
  then show ?thesis using thread_reaper_frees [OF s(1,2)] by auto
qed

text \<open>With wakeups that nobody has signalled the registry does not hold.  The reaper still has the address of the last thread that
  it freed; when a new object has got this address, it is freed while it is listed.\<close>

theorem thread_spurious_wakeup:
  "\<exists>s. (thread_step True)\<^sup>*\<^sup>* os_thread_init s \<and> thread_find_handle 64 s = Some 64 \<and> th_objs s 64 = None"
proof -
  have mono: "thread_step True s s'" if "thread_step False s s'" for s s'
    using that by cases (blast intro: thread_step.intros)+
  have steps: "(thread_step True)\<^sup>*\<^sup>* s s'" if "(thread_step False)\<^sup>*\<^sup>* s s'" for s s'
    using that by (rule rtranclp_mono [THEN predicate2D, rotated]) (auto intro: mono)
  obtain c s1 where e: "thread_exits 7 thr_b = Inr (c, s1)" "(thread_step False)\<^sup>*\<^sup>* os_thread_init s1" "rp_at s1 = Woken" "rp_exit s1 = 64"
    "threads_inv s1 [128]" using thr_b_exit by blast
  obtain s2 where r: "reap True True s1 = Inr s2" "threads_inv s2 [128]" "th_objs s2 = (th_objs s1)(64 := None)" "rp_exit s2 = 64"
    using reap_inv [OF e(5,3)] e(4) by auto
  have sl: "rp_at s2 = Sleeping" using r(1) by (auto simp: reap_def Let_def split: option.splits if_splits)
  have t2: "(thread_step False)\<^sup>*\<^sup>* os_thread_init s2" using e(2) reaps [OF e(3) r(1)] by (rule rtranclp.rtrancl_into_rtrancl)
  have self2: "th_self s2 9 = NULL"
  proof (rule ccontr)
    assume "th_self s2 9 \<noteq> NULL"
    then have "th_self s2 9 = 128" "\<exists>t. th_objs s2 128 = Some t \<and> th_thread t = 9" using threads_invD(6) [OF r(2)] by force+
    moreover have "th_objs s2 128 = th_objs thr_b 128" using r(3) e(1) thr_b_pvt
      by (auto simp: thread_exits_def thread_key_destructor_def signal_reaper_def upd_thr_def then_do_Inr)
    ultimately show False by (auto simp: thr_b_eq new_thread_def)
  qed
  let ?s3 = "snd (snd (u_thread_self 64 50 9 True s2))"
  have o2: "th_objs s2 = [128 \<mapsto> new_thread 8 0 [] NULL [] 50]" using r(3) e(1) thr_b_pvt
    by (auto simp: thread_exits_def thread_key_destructor_def signal_reaper_def upd_thr_def then_do_Inr thr_b_eq)
  have fr: "fresh s2 64" unfolding fresh_def o2 by (simp add: new_thread_def)
  have i3: "threads_inv ?s3 [128, 64]" using upgrade_new [OF r(2) _ _ self2, of 64 50] r(3) by simp
  have f3: "rp_at ?s3 = Sleeping" "rp_exit ?s3 = 64" "th_objs ?s3 64 = Some (new_thread 9 0 [] NULL [] 50)"
    using sl r(4) self2 by (simp_all add: u_thread_self_def thread_upgrade_def)
  have "thread_step False s2 ?s3" using self [OF fr, of 50 9 True] by (metis prod.collapse)
  then have "(thread_step True)\<^sup>*\<^sup>* os_thread_init ?s3" using t2 steps by (meson rtranclp.rtrancl_into_rtrancl)
  moreover let ?s4 = "?s3\<lparr>th_objs := (th_objs ?s3)(64 := None), rp_at := Sleeping\<rparr>"
  have "reap True True ?s3 = Inr ?s4" using f3 by (simp add: reap_def new_thread_def)
  then have "thread_step True ?s3 ?s4" using f3(1) by (intro wakes_up) simp_all
  ultimately have "(thread_step True)\<^sup>*\<^sup>* os_thread_init ?s4" by (rule rtranclp.rtrancl_into_rtrancl)
  moreover have "thread_find_handle 64 ?s4 = Some 64" using find_handle_eq [OF i3, of 64] by (simp add: thread_find_handle_def)
  ultimately show ?thesis by (intro exI [of _ ?s4]) simp
qed

definition lost :: "ptr \<Rightarrow> threads \<Rightarrow> bool" where
  "lost x s \<longleftrightarrow> (\<exists>xs. threads_inv s xs \<and> x \<notin> set xs) \<and> th_objs s x \<noteq> None \<and> rp_exit s \<noteq> x"

lemma lost_step: "thread_step False s s' \<Longrightarrow> lost x s \<Longrightarrow> lost x s'"
proof -
  assume st: "thread_step False s s'" and "lost x s"
  then obtain xs where i: "threads_inv s xs" "x \<notin> set xs" "th_objs s x \<noteq> None" "rp_exit s \<noteq> x" by (auto simp: lost_def)
  then show "lost x s'" using thread_step_inv [OF st i(1)] unfolding kept_def lost_def by metis
qed

text \<open>The reaper can lose a thread: when a second thread ends after the reaper has been signalled for a first one
  and before it has run, the first is forgotten: its object is never freed, nor is it joined, whatever happens
  afterwards.\<close>

theorem thread_reaper_loses:
  assumes "(thread_step False)\<^sup>*\<^sup>* os_thread_init s" "rp_at s = Woken" "rp_exit s = x" "th_self s i \<noteq> NULL"
    and "thread_exits i s = Inr (c, s1)" "(thread_step False)\<^sup>*\<^sup>* s1 s2"
  shows "th_objs s2 x \<noteq> None \<and> thread_find_handle x s2 = Some NULL"
proof -
  obtain xs where i: "threads_inv s xs" using threads_reachable_inv [OF assms(1)] by blast
  then have x: "x \<notin> set xs" "th_objs s x \<noteq> None" using assms(2,3) by (auto simp: threads_inv_def)
  obtain t ps kvs where t: "th_objs s (th_self s i) = Some t" "pvt_rel t ps kvs" "th_self s i \<in> set xs" by (rule self_obj [OF i assms(4)])
  have ne: "th_self s i \<noteq> x" using t(3) x(1) by auto
  have "lost x s1" using exits_inv [OF i refl assms(4) t(1,2)] assms(5) x ne unfolding lost_def
    by (auto intro!: exI [of _ "remove1 (th_self s i) xs"] dest: notin_set_remove1)
  with assms(6) have "lost x s2" by (induction rule: rtranclp_induct) (auto intro: lost_step)
  then show ?thesis using find_handle_eq unfolding lost_def by auto
qed

theorem thread_reaper_loses_witness: "\<exists>s2. (thread_step False)\<^sup>*\<^sup>* os_thread_init s2 \<and> th_objs s2 64 \<noteq> None \<and> thread_find_handle 64 s2 = Some NULL"
proof -
  obtain c s where s: "(thread_step False)\<^sup>*\<^sup>* os_thread_init s" "rp_at s = Woken" "rp_exit s = 64" "th_self s 8 = 128" "threads_inv s [128]"
    using thr_b_exit by blast
  have n: "th_self s 8 \<noteq> NULL" using s(4) by simp
  obtain t ps kvs where t: "th_objs s (th_self s 8) = Some t" "pvt_rel t ps kvs" by (rule self_obj [OF s(5) n])
  obtain c' s' where s': "thread_exits 8 s = Inr (c', s')" using exits_inv [OF s(5) refl n t] by blast
  have "thread_step False s s'" by (rule exits [OF n s'])
  then have "(thread_step False)\<^sup>*\<^sup>* os_thread_init s'" using s(1) by (rule rtranclp.rtrancl_into_rtrancl [rotated])
  then show ?thesis using thread_reaper_loses [OF s(1,2,3) n s' rtranclp.rtrancl_refl] by blast
qed

text \<open>Reading the priority of a thread and setting it to what was read raises its scheduling priority by one,
  unless it is 25, 50, 75 or 99: the two conversions are not inverse to each other.\<close>

theorem thread_pri_drifts:
  assumes "threads_inv s xs" "h \<in> set xs" "th_objs s h = Some t" "th_sched t = p" "1 \<le> p" "p \<le> 99"
  shows "\<exists>u s'. u_thread_get_pri junk True h True s = Inr (OSR_OK, u) \<and> u_thread_set_pri True True h u s = Inr (OSR_OK, s') \<and>
    (\<exists>t'. th_objs s' h = Some t' \<and> th_sched t' = (if p \<in> {25, 50, 75, 99} then p else p + 1))"
proof -
  have "p \<in> set [1..99]" using assms(5,6) by simp
  note D = priorities_drift [rule_format, OF this]
  have "p mod 25 = 0 \<or> p = 99 \<longleftrightarrow> p \<in> {25, 50, 75, 99}" using assms(5,6) by auto
  then show ?thesis using D assms(2-4)
    by (simp add: u_thread_get_pri_def u_thread_set_pri_def with_thread_eq [OF assms(1)] upd_thr_def not_less)
qed

theorem thread_pri_drifts_witness:
  "\<exists>u s' t'. u_thread_get_pri 0 True 64 True thr_b = Inr (OSR_OK, u) \<and> u_thread_set_pri True True 64 u thr_b = Inr (OSR_OK, s') \<and>
    th_objs s' 64 = Some t' \<and> th_sched t' = 50"
  using thread_pri_drifts [OF thr_b_pvt(1) _ thr_b_pvt(2), of 50 0] by (simp add: new_thread_def)

text \<open>The stack of a new thread is at least what was asked for and at least the minimum, and a multiple of 8 if
  the minimum is; but a size within 7 of the largest number wraps to 0 and gets the minimum.\<close>

theorem thread_stack_size:
  "if unat z \<le> 4294967288
    then unat z \<le> unat (stack_size smin None z) \<and> smin \<le> stack_size smin None z \<and> (8 dvd unat smin \<longrightarrow> 8 dvd unat (stack_size smin None z))
    else stack_size smin None z = smin"
proof -
  let ?z = "(z + 8 - 1) AND NOT (8 - 1)"
  have a: "unat ?z = unat (z + 7) div 8 * 8" using and_not_7 [of "z + 7"] by (simp add: add.commute)
  have s: "stack_size smin None z = (if ?z < smin then smin else ?z)" by (simp add: stack_size_def Let_def)
  show ?thesis
  proof (cases "unat z \<le> 4294967288")
    case True
    then have "unat (z + 7) = unat z + 7" by (simp add: unat_word_ariths)
    then have "unat z \<le> unat ?z" unfolding a by (simp add: algebra_simps)
    then show ?thesis using True s a by (auto simp: word_less_nat_alt word_le_nat_alt)
  next
    case False
    then have "unat (z + 7) < 8" using unat_bounds(3) [of z] by (simp add: unat_word_ariths mod_if) arith
    then have "unat ?z = 0" unfolding a by simp
    then have "?z = 0" by (simp add: unat_eq_0)
    then show ?thesis using False s by (auto simp: word_gt_0)
  qed
qed

theorem thread_stack_size_witness: "16384 \<le> unat (stack_size 16384 None 10001) \<and> 8 dvd unat (stack_size 16384 None 10001)"
  using thread_stack_size [of 10001 16384] by (simp add: word_le_nat_alt)

end
