(* ===== verification/CliTok.thy ===== *)
theory CliTok
  imports Prelude
begin

text \<open>Numbers and arguments of the command line: the conversions of strings to \<open>UINT32\<close> and the splitting of a
  command into arguments in cli/cli_parser.c.  A string is the list of its characters before the terminating
  zero; \<open>*ps\<close> at the end of it is that zero.\<close>

abbreviation code :: "char \<Rightarrow> nat" where "code c \<equiv> of_char c"

section \<open>Numbers\<close>

text \<open>\<open>None\<close> where the code returns 0 at once for a character that is no digit.\<close>

definition hex_digit :: "char \<Rightarrow> u32 option" where
  "hex_digit c =
    (if code CHR ''0'' \<le> code c \<and> code c \<le> code CHR ''9'' then Some (of_nat (code c - code CHR ''0''))
     else if code CHR ''A'' \<le> code c \<and> code c \<le> code CHR ''F'' then Some (of_nat (code c - code CHR ''A'') + 10)
     else if code CHR ''a'' \<le> code c \<and> code c \<le> code CHR ''f'' then Some (of_nat (code c - code CHR ''a'') + 10)
     else None)"

fun hex_loop :: "u32 \<Rightarrow> string \<Rightarrow> u32" where
  "hex_loop v [] = v"
| "hex_loop v (c # s) = (case hex_digit c of None \<Rightarrow> 0 | Some d \<Rightarrow> hex_loop (push_bit 4 v + d) s)"

definition str2hex :: "string \<Rightarrow> nat \<Rightarrow> u32" where
  "str2hex s len = (if len = 0 then 0 else hex_loop 0 (take (if len > 8 then 8 else len) s))"

fun dec_loop :: "u32 \<Rightarrow> string \<Rightarrow> u32" where
  "dec_loop v [] = v"
| "dec_loop v (c # s) =
    (if code CHR ''0'' \<le> code c \<and> code c \<le> code CHR ''9'' then dec_loop (v * 10 + of_nat (code c - code CHR ''0'')) s else 0)"

definition str2dec :: "string \<Rightarrow> nat \<Rightarrow> u32" where
  "str2dec s len = (if len = 0 then 0 else dec_loop 0 (take (if len > 10 then 10 else len) s))"

definition str2int :: "string option \<Rightarrow> u32" where
  "str2int ps = (case ps of None \<Rightarrow> 0
   | Some s \<Rightarrow> if length s > 2 \<and> s ! 0 = CHR ''0'' \<and> s ! 1 = CHR ''x'' then str2hex (drop 2 s) (length s - 2)
       else str2dec s (length s))"

text \<open>The decimal numeral of a number.\<close>

fun dec_str :: "nat \<Rightarrow> string" where
  "dec_str n = (if n < 10 then [] else dec_str (n div 10)) @ [char_of (48 + n mod 10)]"

declare dec_str.simps [simp del]

lemma code_digit [simp]: "d < 10 \<Longrightarrow> code (char_of (48 + d)) = 48 + d"
  by (simp add: of_char_of)

lemma dec_loop_append:
  "\<forall>c\<in>set xs. code CHR ''0'' \<le> code c \<and> code c \<le> code CHR ''9'' \<Longrightarrow> dec_loop v (xs @ ys) = dec_loop (dec_loop v xs) ys"
  by (induction v xs rule: dec_loop.induct) auto

lemma dec_str_digits: "c \<in> set (dec_str n) \<Longrightarrow> code CHR ''0'' \<le> code c \<and> code c \<le> code CHR ''9''"
proof (induction n rule: dec_str.induct)
  case (1 n)
  then show ?case by (subst (asm) (2) dec_str.simps) (auto split: if_splits)
qed

lemma dec_loop_dec_str: "dec_loop 0 (dec_str n) = of_nat n"
proof (induction n rule: dec_str.induct)
  case (1 n)
  have d: "dec_loop v [char_of (48 + d)] = v * 10 + of_nat d" if "d < 10" for v d using that by simp
  have "dec_loop (of_nat (n div 10)) [char_of (48 + n mod 10)] = of_nat (n div 10) * 10 + of_nat (n mod 10)" by (rule d) simp
  also have "\<dots> = of_nat (n div 10 * 10 + n mod 10)" by (simp only: of_nat_add of_nat_mult of_nat_numeral)
  also have "\<dots> = of_nat n" by (simp only: div_mult_mod_eq)
  finally have l: "dec_loop (of_nat (n div 10)) [char_of (48 + n mod 10)] = of_nat n" .
  show ?case
  proof (cases "n < 10")
    case True
    then have "dec_str n = [char_of (48 + n mod 10)]" "n div 10 = 0" by (simp_all add: dec_str.simps)
    then show ?thesis using l by simp
  next
    case False
    then have "dec_str n = dec_str (n div 10) @ [char_of (48 + n mod 10)]" by (simp add: dec_str.simps)
    moreover have "dec_loop 0 (dec_str (n div 10) @ [char_of (48 + n mod 10)]) = dec_loop (dec_loop 0 (dec_str (n div 10))) [char_of (48 + n mod 10)]"
      by (rule dec_loop_append) (use dec_str_digits in blast)
    ultimately show ?thesis using 1 [OF False] l by simp
  qed
qed

lemma dec_str_length: "n < 10 ^ k \<Longrightarrow> 0 < k \<Longrightarrow> length (dec_str n) \<le> k \<and> 0 < length (dec_str n)"
proof (induction n arbitrary: k rule: dec_str.induct)
  case (1 n)
  show ?case
  proof (cases "n < 10")
    case True
    then show ?thesis using 1(3) by (simp add: dec_str.simps)
  next
    case False
    then obtain j where j: "k = Suc j" "0 < j" using 1(2,3) by (cases k; cases "k - 1") auto
    then have "n div 10 < 10 ^ j" using 1(2) by (simp add: less_mult_imp_div_less mult.commute)
    then show ?thesis using 1(1) [OF False _ j(2)] False j(1) by (simp add: dec_str.simps [of n])
  qed
qed

lemma dec_str_not_hex: "\<not> (length (dec_str n) > 2 \<and> dec_str n ! 0 = CHR ''0'' \<and> dec_str n ! 1 = CHR ''x'')"
proof
  assume a: "length (dec_str n) > 2 \<and> dec_str n ! 0 = CHR ''0'' \<and> dec_str n ! 1 = CHR ''x''"
  then have "CHR ''x'' \<in> set (dec_str n)" by (metis One_nat_def Suc_lessD nth_mem numeral_2_eq_2)
  from dec_str_digits [OF this] show False by simp
qed

section \<open>Splitting a command\<close>

abbreviation (input) CLI_MAX_ARG_NUM :: nat where "CLI_MAX_ARG_NUM \<equiv> 64"
abbreviation (input) CLI_MAX_ARG_LEN :: nat where "CLI_MAX_ARG_LEN \<equiv> 256"
abbreviation (input) ASCII_KEY_SGL_QUOTE :: char where "ASCII_KEY_SGL_QUOTE \<equiv> CHR 0x27"
abbreviation (input) ASCII_KEY_DBL_QUOTE :: char where "ASCII_KEY_DBL_QUOTE \<equiv> CHR 0x22"
abbreviation (input) ASCII_KEY_PUNCH :: char where "ASCII_KEY_PUNCH \<equiv> CHR 0x23"

text \<open>The zero at the end of a string is printable here, and not a space.\<close>

definition IS_PRINTABLE :: "char \<Rightarrow> bool" where
  "IS_PRINTABLE c \<longleftrightarrow> \<not> (0 < code c \<and> code c < 32)"

definition IS_SPACE :: "char \<Rightarrow> bool" where
  "IS_SPACE c \<longleftrightarrow> c = CHR '' '' \<or> c = CHR 0x0A \<or> c = CHR 0x09 \<or> c = CHR 0x0D \<or> c = CHR 0x07"

fun skip_space :: "string \<Rightarrow> string" where
  "skip_space [] = []"
| "skip_space (c # s) = (if \<not> IS_PRINTABLE c \<or> IS_SPACE c then skip_space s else c # s)"

text \<open>One argument, of at most \<open>n - 1\<close> characters with its quotes: \<open>q\<close> is \<open>ui1_quote_state\<close>, \<open>i\<close> is \<open>ui4_cmd_idx\<close>.\<close>

fun arg_loop :: "nat \<Rightarrow> nat \<Rightarrow> nat \<Rightarrow> string \<Rightarrow> string \<Rightarrow> string \<times> nat \<times> string" where
  "arg_loop n q i out [] = (out, i, [])"
| "arg_loop n q i out (c # s) =
    (if IS_PRINTABLE c \<and> (q = 0 \<and> \<not> IS_SPACE c \<or> q = 1 \<and> c \<noteq> ASCII_KEY_SGL_QUOTE \<or> q = 2 \<and> c \<noteq> ASCII_KEY_DBL_QUOTE) then
       if i \<ge> n - 1 then (out, i, c # s)
       else if q \<noteq> 2 \<and> c = ASCII_KEY_SGL_QUOTE then arg_loop n (if q = 0 then 1 else if q = 1 then 0 else q) (i + 1) out s
       else if q \<noteq> 1 \<and> c = ASCII_KEY_DBL_QUOTE then arg_loop n (if q = 0 then 2 else if q = 2 then 0 else q) (i + 1) out s
       else arg_loop n q (i + 1) (out @ [c]) s
     else (out, i, c # s))"

definition is_quote :: "string \<Rightarrow> bool" where
  "is_quote s \<longleftrightarrow> s \<noteq> [] \<and> (hd s = ASCII_KEY_SGL_QUOTE \<or> hd s = ASCII_KEY_DBL_QUOTE)"

text \<open>The argument at the front of a string after spaces: what it is, if it is one, and the rest.\<close>

definition next_arg :: "nat \<Rightarrow> string \<Rightarrow> string option \<times> string" where
  "next_arg n s =
    (case arg_loop n 0 0 [] (skip_space s) of (out, i, s1) \<Rightarrow>
      let i' = (if is_quote s1 then i + 1 else i);
          s2 = (if is_quote s1 then tl s1 else s1)
      in (if i' > 0 then Some out else None, s2))"

partial_function (option) args_loop :: "nat \<Rightarrow> nat \<Rightarrow> string list \<Rightarrow> string \<Rightarrow> string list option" where
  "args_loop num n av s =
    (if s = [] \<or> hd s = ASCII_KEY_PUNCH then Some av
     else let r = next_arg n s; av' = (case fst r of None \<Rightarrow> av | Some a \<Rightarrow> av @ [a]) in
       if length av' \<ge> num then Some av' else args_loop num n av' (snd r))"

declare args_loop.simps [code]

definition find_cmd_argv :: "string option \<Rightarrow> nat \<Rightarrow> nat \<Rightarrow> string list result" where
  "find_cmd_argv ps_cmd num n =
    (case ps_cmd of None \<Rightarrow> Inr []
     | Some s \<Rightarrow> if num = 0 \<or> n = 0 then Inr []
         else (case args_loop num n [] s of None \<Rightarrow> Inl Hang | Some av \<Rightarrow> Inr av))"

section \<open>The splitting ends\<close>

lemma skip_space_length: "length (skip_space s) \<le> length s"
  by (induction s rule: skip_space.induct) auto

lemma arg_loop_bounds:
  assumes "arg_loop n q i out s = (out', i', s')"
  shows "length s' \<le> length s" "i \<le> i'" "i' + length s' = i + length s"
    and "length out \<le> i \<Longrightarrow> length out' \<le> i'" "i \<le> n - 1 \<Longrightarrow> i' \<le> n - 1"
  using assms by (induction n q i out s rule: arg_loop.induct) (auto split: if_splits)

lemma skip_space_front: "skip_space s = c # s' \<Longrightarrow> IS_PRINTABLE c \<and> \<not> IS_SPACE c"
  by (induction s rule: skip_space.induct) (auto split: if_splits)

lemma arg_loop_progress:
  assumes "arg_loop n 0 0 [] (c # s) = (out, i, s')" "IS_PRINTABLE c" "\<not> IS_SPACE c" "2 \<le> n"
  shows "0 < i"
  using assms by (auto split: if_splits dest!: arg_loop_bounds(2))

lemma next_arg_bounds:
  assumes "2 \<le> n" "next_arg n s = (a, s')"
  shows "s \<noteq> [] \<Longrightarrow> length s' < length s" "a = Some out \<Longrightarrow> length out < n"
proof -
  obtain o' i s1 where l: "arg_loop n 0 0 [] (skip_space s) = (o', i, s1)" by (metis prod_cases3)
  note B = arg_loop_bounds [OF l] and sk = skip_space_length [of s]
  have r: "s' = (if is_quote s1 then tl s1 else s1)" and a: "a = (if (if is_quote s1 then i + 1 else i) > 0 then Some o' else None)"
    using assms(2) l by (auto simp: next_arg_def Let_def)
  show "length out < n" if "a = Some out"
    using that a B(4,5) assms(1) by (auto split: if_splits)
  assume s: "s \<noteq> []"
  have "length s' \<le> length s1" unfolding r by simp
  show "length s' < length s"
  proof (cases "skip_space s")
    case Nil
    then show ?thesis using l r s by (auto simp: is_quote_def)
  next
    case (Cons c t)
    then have "0 < i" using arg_loop_progress [of n c t o' i s1] l skip_space_front [OF Cons] assms(1) by simp
    then show ?thesis using B(3) sk \<open>length s' \<le> length s1\<close> by simp
  qed
qed

lemma args_loop_ends:
  assumes "2 \<le> n" "length av < num" "\<forall>a\<in>set av. length a < n"
  shows "\<exists>av'. args_loop num n av s = Some av' \<and> length av' \<le> num \<and> (\<forall>a\<in>set av'. length a < n)"
  using assms(2,3)
proof (induction "length s" arbitrary: s av rule: less_induct)
  case less
  show ?case
  proof (cases "s = [] \<or> hd s = ASCII_KEY_PUNCH")
    case True
    then show ?thesis using less.prems by (subst args_loop.simps) simp
  next
    case False
    obtain a s' where r: "next_arg n s = (a, s')" by (metis prod.collapse)
    note B = next_arg_bounds [OF assms(1) r]
    let ?av = "case a of None \<Rightarrow> av | Some x \<Rightarrow> av @ [x]"
    have av: "length ?av \<le> num" "\<forall>x\<in>set ?av. length x < n" using less.prems B(2) by (auto split: option.splits)
    show ?thesis
    proof (cases "length ?av \<ge> num")
      case True
      then show ?thesis using False r av by (subst args_loop.simps) simp
    next
      case f: False
      then have "\<exists>av'. args_loop num n ?av s' = Some av' \<and> length av' \<le> num \<and> (\<forall>a\<in>set av'. length a < n)"
        using less.hyps [OF B(1)] False av by simp
      then show ?thesis using False r f by (subst args_loop.simps) simp
    qed
  qed
qed

section \<open>Commands written out\<close>

text \<open>Words, plain or in double quotes, with a space between them.\<close>

datatype cli_word = Plain string | Quoted string

primrec content :: "cli_word \<Rightarrow> string" where
  "content (Plain w) = w"
| "content (Quoted w) = w"

primrec show_word :: "cli_word \<Rightarrow> string" where
  "show_word (Plain w) = w"
| "show_word (Quoted w) = ASCII_KEY_DBL_QUOTE # w @ [ASCII_KEY_DBL_QUOTE]"

primrec word_ok :: "nat \<Rightarrow> cli_word \<Rightarrow> bool" where
  "word_ok n (Plain w) = (w \<noteq> [] \<and> length w \<le> n - 1 \<and>
     (\<forall>c\<in>set w. IS_PRINTABLE c \<and> \<not> IS_SPACE c \<and> c \<noteq> ASCII_KEY_SGL_QUOTE \<and> c \<noteq> ASCII_KEY_DBL_QUOTE))"
| "word_ok n (Quoted w) = (length w + 1 \<le> n - 1 \<and> (\<forall>c\<in>set w. IS_PRINTABLE c \<and> c \<noteq> ASCII_KEY_DBL_QUOTE))"

fun line :: "cli_word list \<Rightarrow> string" where
  "line [] = []"
| "line [w] = show_word w"
| "line (w # ws) = show_word w @ CHR '' '' # line ws"

lemma chars [simp]:
  "IS_SPACE CHR '' ''" "IS_PRINTABLE CHR '' ''" "IS_PRINTABLE ASCII_KEY_DBL_QUOTE" "\<not> IS_SPACE ASCII_KEY_DBL_QUOTE"
  by (simp_all add: IS_SPACE_def IS_PRINTABLE_def)

text \<open>What follows a word ends it.\<close>

definition ends :: "string \<Rightarrow> bool" where
  "ends s \<longleftrightarrow> s = [] \<or> hd s = CHR '' ''"

lemma arg_loop_plain:
  "\<forall>c\<in>set w. IS_PRINTABLE c \<and> \<not> IS_SPACE c \<and> c \<noteq> ASCII_KEY_SGL_QUOTE \<and> c \<noteq> ASCII_KEY_DBL_QUOTE \<Longrightarrow> i + length w \<le> n - 1 \<Longrightarrow>
    ends r \<Longrightarrow> arg_loop n 0 i out (w @ r) = (out @ w, i + length w, r)"
proof (induction w arbitrary: i out)
  case Nil
  then show ?case by (cases r) (auto simp: ends_def)
qed auto

lemma arg_loop_quoted:
  "\<forall>c\<in>set w. IS_PRINTABLE c \<and> c \<noteq> ASCII_KEY_DBL_QUOTE \<Longrightarrow> i + length w \<le> n - 1 \<Longrightarrow>
    arg_loop n 2 i out (w @ ASCII_KEY_DBL_QUOTE # r) = (out @ w, i + length w, ASCII_KEY_DBL_QUOTE # r)"
  by (induction w arbitrary: i out) auto

lemma next_arg_word:
  assumes "word_ok n w" "ends r"
  shows "next_arg n (show_word w @ r) = (Some (content w), r)"
proof (cases w)
  case (Plain x)
  then have x: "x \<noteq> []" "\<forall>c\<in>set x. IS_PRINTABLE c \<and> \<not> IS_SPACE c \<and> c \<noteq> ASCII_KEY_SGL_QUOTE \<and> c \<noteq> ASCII_KEY_DBL_QUOTE" "length x \<le> n - 1"
    using assms(1) by auto
  then have "skip_space (x @ r) = x @ r" by (cases x) auto
  moreover have "\<not> is_quote r" using assms(2) by (auto simp: is_quote_def ends_def)
  ultimately show ?thesis using arg_loop_plain [OF x(2) _ assms(2), of 0] x(1,3) Plain
    by (simp add: next_arg_def)
next
  case (Quoted x)
  then have x: "\<forall>c\<in>set x. IS_PRINTABLE c \<and> c \<noteq> ASCII_KEY_DBL_QUOTE" "1 + length x \<le> n - 1" using assms(1) by auto
  have "arg_loop n 0 0 [] (ASCII_KEY_DBL_QUOTE # x @ ASCII_KEY_DBL_QUOTE # r) = (x, 1 + length x, ASCII_KEY_DBL_QUOTE # r)"
    using arg_loop_quoted [OF x, of "[]" r] x(2) by simp
  then show ?thesis using Quoted by (simp add: next_arg_def is_quote_def)
qed

lemma next_arg_space: "next_arg n (CHR '' '' # s) = next_arg n s"
  by (simp add: next_arg_def)

lemma args_loop_word:
  assumes "word_ok n w" "ends r" "length av + 1 \<le> num" "s = CHR '' '' # show_word w @ r \<or> s = show_word w @ r \<and> hd s \<noteq> ASCII_KEY_PUNCH"
  shows "args_loop num n av s = (if length av + 1 = num then Some (av @ [content w]) else args_loop num n (av @ [content w]) r)"
proof -
  have "show_word w \<noteq> []" using assms(1) by (cases w) auto
  then have "\<not> (s = [] \<or> hd s = ASCII_KEY_PUNCH)" using assms(4) by auto
  moreover have "next_arg n s = (Some (content w), r)"
    using assms(4) next_arg_word [OF assms(1,2)] next_arg_space [of n "show_word w @ r"] by auto
  ultimately show ?thesis using assms(3) by (subst args_loop.simps) auto
qed

lemma args_loop_line:
  assumes "\<forall>w\<in>set ws. word_ok n w" "length av + length ws \<le> num" "s = CHR '' '' # line ws \<or> s = line ws \<and> hd s \<noteq> ASCII_KEY_PUNCH" "ws \<noteq> []"
  shows "args_loop num n av s = Some (av @ map content ws)"
  using assms
proof (induction ws arbitrary: av s rule: line.induct)
  case (2 w)
  have "args_loop num n av' [] = Some av'" for av' by (subst args_loop.simps) simp
  then show ?case using args_loop_word [of n w "[]" av num s] 2 by (auto simp: ends_def)
next
  case (3 w v ws)
  then have "args_loop num n (av @ [content w]) (CHR '' '' # line (v # ws)) = Some ((av @ [content w]) @ map content (v # ws))"
    by (intro "3.IH") auto
  then show ?case using args_loop_word [of n w "CHR '' '' # line (v # ws)" av num s] "3.prems" by (auto simp: ends_def)
qed simp

section \<open>Properties\<close>

text \<open>Splitting any command ends, with at most 64 arguments of at most 255 characters each, so every argument
  fits its buffer.\<close>

theorem cli_args_bounded:
  "\<exists>av. find_cmd_argv ps_cmd CLI_MAX_ARG_NUM CLI_MAX_ARG_LEN = Inr av \<and> length av \<le> 64 \<and> list_all (\<lambda>a. length a \<le> 255) av"
proof (cases ps_cmd)
  case (Some s)
  obtain av where av: "args_loop 64 256 [] s = Some av" "length av \<le> 64" "\<forall>a\<in>set av. length a < 256"
    using args_loop_ends [of 256 "[]" 64 s] by auto
  have "length a \<le> 255" if "a \<in> set av" for a using that av(3) by fastforce
  then show ?thesis using Some av(1,2) by (simp add: find_cmd_argv_def list_all_iff)
qed (simp add: find_cmd_argv_def)

text \<open>C38 A command of up to 64 words with a space between them, each plain or in double quotes, is split into
  exactly these words, whatever printable characters other than a double quote stand in the quoted ones.\<close>

theorem cli_args_roundtrip:
  assumes "\<forall>w\<in>set ws. word_ok 256 w" "length ws \<le> 64" "hd (line ws) \<noteq> ASCII_KEY_PUNCH"
  shows "find_cmd_argv (Some (line ws)) CLI_MAX_ARG_NUM CLI_MAX_ARG_LEN = Inr (map content ws)"
proof (cases "ws = []")
  case True
  then show ?thesis by (simp add: find_cmd_argv_def args_loop.simps)
next
  case False
  then show ?thesis using args_loop_line [OF assms(1), of "[]" 64 "line ws"] assms(2,3) by (simp add: find_cmd_argv_def)
qed

theorem cli_args_roundtrip_witness:
  "find_cmd_argv (Some (line [Plain ''exec'', Quoted ''a b'', Quoted [], Plain ''#1''])) 64 256 = Inr [''exec'', ''a b'', [], ''#1'']"
  using cli_args_roundtrip [of "[Plain ''exec'', Quoted ''a b'', Quoted [], Plain ''#1'']"]
  by (simp add: IS_PRINTABLE_def IS_SPACE_def)

text \<open>The value of a decimal numeral of up to ten digits is the number it stands for, modulo \<open>2 ^ 32\<close>.\<close>

theorem cli_number_roundtrip:
  assumes "n < 10 ^ 10"
  shows "str2int (Some (dec_str n)) = of_nat n \<and> unat (str2int (Some (dec_str n))) = n mod 2 ^ 32"
proof -
  have l: "length (dec_str n) \<le> 10" "0 < length (dec_str n)" using dec_str_length [OF assms] by simp_all
  then have "str2int (Some (dec_str n)) = dec_loop 0 (dec_str n)"
    unfolding str2int_def option.case if_not_P [OF dec_str_not_hex] by (simp add: str2dec_def)
  then show ?thesis by (simp add: dec_loop_dec_str unat_of_nat take_bit_eq_mod)
qed

theorem cli_number_roundtrip_witness: "unat (str2int (Some (dec_str 4294967297))) = 1"
  using cli_number_roundtrip [of 4294967297] by simp

end
