(* ===== verification/CliTbl.thy ===== *)
theory CliTbl
  imports CliTok
begin

text \<open>The command tables of the command line, cli/cli_parser.c: tables of commands in memory, attached to the root
  or to the categories \<open>app\<close> and \<open>mw\<close>; the search of a command along a dotted path, the current directory, and
  the help texts.

  A pointer to a table or to an entry is the address of the table and an index; the entries of a table are those
  before its terminator \<open>END_OF_CLI_CMD_TBL\<close>, whose fields are all \<open>NULL\<close>.\<close>

section \<open>State\<close>

type_synonym eptr = "ptr \<times> nat"

record cmd =
  ps_cmd_str :: "string option"
  ps_cmd_abbr_str :: "string option"
  pf_exec_fct :: fptr
  pt_next_level :: "eptr option"
  ps_cmd_help_str :: "string option"
  e_access_right :: nat

abbreviation (input) CLI_GUEST :: nat where "CLI_GUEST \<equiv> 0"
abbreviation (input) CLI_HIDDEN :: nat where "CLI_HIDDEN \<equiv> 1"

definition end_of_tbl :: cmd where
  "end_of_tbl = \<lparr>ps_cmd_str = None, ps_cmd_abbr_str = None, pf_exec_fct = NULL, pt_next_level = None,
     ps_cmd_help_str = None, e_access_right = CLI_HIDDEN\<rparr>"

text \<open>\<open>cli_array c\<close> holds the used elements of the parallel arrays \<open>apt_cli_array[c]\<close> and \<open>at_cli_mod_grp_info[c]\<close>: a
  table and its group mask.  \<open>cli_out\<close> are the lines printed, \<open>cli_system\<close> the arguments of \<open>system\<close>, both newest
  last.\<close>

record cli =
  cli_tbls :: "ptr \<Rightarrow> cmd list option"
  cli_array :: "nat \<Rightarrow> (eptr \<times> 64 Word.word) list"
  apt_dir_link :: "eptr list"
  ui4_dir_link_idx :: nat
  pt_cur_cmd_tbl :: "eptr option"
  b_is_cmd_tbl :: bool
  ps_prompt :: string
  ui4_disable_print :: u32
  cli_out :: "string list"
  cli_system :: "string list"

abbreviation (input) CLIR_INV_CMD_USAGE :: int where "CLIR_INV_CMD_USAGE \<equiv> 1"
abbreviation (input) CLIR_OK :: int where "CLIR_OK \<equiv> 0"
abbreviation (input) CLIR_INV_ARG :: int where "CLIR_INV_ARG \<equiv> -4"
abbreviation (input) CLIR_INV_CMD_TBL :: int where "CLIR_INV_CMD_TBL \<equiv> -5"
abbreviation (input) CLIR_CMD_TBL_FULL :: int where "CLIR_CMD_TBL_FULL \<equiv> -8"
abbreviation (input) CLIR_CMD_NOT_FOUND :: int where "CLIR_CMD_NOT_FOUND \<equiv> -10"
abbreviation (input) CLIR_DIR_NOT_FOUND :: int where "CLIR_DIR_NOT_FOUND \<equiv> -11"
abbreviation (input) CLIR_CMD_TBL_NULL :: int where "CLIR_CMD_TBL_NULL \<equiv> -14"

abbreviation (input) CLI_CAT_ROOT :: nat where "CLI_CAT_ROOT \<equiv> 0"
abbreviation (input) CLI_CAT_APP :: nat where "CLI_CAT_APP \<equiv> 1"
abbreviation (input) CLI_CAT_MW :: nat where "CLI_CAT_MW \<equiv> 2"
abbreviation (input) CLI_MAX_CMD_TBL_NUM :: nat where "CLI_MAX_CMD_TBL_NUM \<equiv> 128"
abbreviation (input) CLI_MAX_CMD_TBL_LEVEL :: nat where "CLI_MAX_CMD_TBL_LEVEL \<equiv> 8"
abbreviation (input) CLI_CMD_BUF_SIZE :: nat where "CLI_CMD_BUF_SIZE \<equiv> 1028"
abbreviation (input) MAX_STR_LEN :: nat where "MAX_STR_LEN \<equiv> 128"
abbreviation (input) HELP_STR_POS :: nat where "HELP_STR_POS \<equiv> 24"
abbreviation (input) ASCII_KEY_DOT :: char where "ASCII_KEY_DOT \<equiv> CHR ''.''"
abbreviation (input) ASCII_KEY_ROOT :: char where "ASCII_KEY_ROOT \<equiv> CHR ''/''"

text \<open>Addresses of the tables and of the functions of the file.\<close>

abbreviation (input) at_mandatory_cmd_tbl :: ptr where "at_mandatory_cmd_tbl \<equiv> 1"
abbreviation (input) at_app_cmd_tbl :: ptr where "at_app_cmd_tbl \<equiv> 2"
abbreviation (input) at_mw_cmd_tbl :: ptr where "at_mw_cmd_tbl \<equiv> 3"
abbreviation (input) at_uart_root_cmd_table :: ptr where "at_uart_root_cmd_table \<equiv> 4"
abbreviation (input) fn_change_dir :: fptr where "fn_change_dir \<equiv> 1"
abbreviation (input) fn_list_cmd :: fptr where "fn_list_cmd \<equiv> 2"
abbreviation (input) fn_set_DisablePrint :: fptr where "fn_set_DisablePrint \<equiv> 3"
abbreviation (input) fn_cli_cmd_exec :: fptr where "fn_cli_cmd_exec \<equiv> 4"
abbreviation (input) fn_uart0_set_baudrate :: fptr where "fn_uart0_set_baudrate \<equiv> 5"

definition mandatory_tbl :: "cmd list" where
  "mandatory_tbl =
    [\<lparr>ps_cmd_str = Some ''cd'', ps_cmd_abbr_str = None, pf_exec_fct = fn_change_dir, pt_next_level = None,
       ps_cmd_help_str = Some ''Change directory'', e_access_right = CLI_HIDDEN\<rparr>,
     \<lparr>ps_cmd_str = Some ''ls'', ps_cmd_abbr_str = None, pf_exec_fct = fn_list_cmd, pt_next_level = None,
       ps_cmd_help_str = Some ''List commands'', e_access_right = CLI_HIDDEN\<rparr>,
     \<lparr>ps_cmd_str = Some ''dis_log'', ps_cmd_abbr_str = None, pf_exec_fct = fn_set_DisablePrint, pt_next_level = None,
       ps_cmd_help_str = Some ''disable layer app,driver,mmw,mw,sys'', e_access_right = CLI_HIDDEN\<rparr>,
     \<lparr>ps_cmd_str = Some ''exec'', ps_cmd_abbr_str = None, pf_exec_fct = fn_cli_cmd_exec, pt_next_level = None,
       ps_cmd_help_str = Some ''execute linux command'', e_access_right = CLI_GUEST\<rparr>]"

definition category_tbl :: "string \<Rightarrow> string \<Rightarrow> eptr option \<Rightarrow> cmd list" where
  "category_tbl nm help nxt =
    [\<lparr>ps_cmd_str = Some nm, ps_cmd_abbr_str = None, pf_exec_fct = NULL, pt_next_level = nxt,
       ps_cmd_help_str = Some help, e_access_right = CLI_GUEST\<rparr>]"

definition uart_tbl :: "cmd list" where
  "uart_tbl =
    [\<lparr>ps_cmd_str = Some ''setbaudrate'', ps_cmd_abbr_str = Some ''setbr'', pf_exec_fct = fn_uart0_set_baudrate,
       pt_next_level = None, ps_cmd_help_str = Some ''Set uart baudrate'', e_access_right = CLI_GUEST\<rparr>]"

section \<open>Entries\<close>

definition entry :: "cli \<Rightarrow> eptr \<Rightarrow> cmd option" where
  "entry s e = (case cli_tbls s (fst e) of
     None \<Rightarrow> None
   | Some es \<Rightarrow> if snd e < length es then Some (es ! snd e) else if snd e = length es then Some end_of_tbl else None)"

definition is_cmd_tbl_array :: "cli \<Rightarrow> eptr option \<Rightarrow> bool result" where
  "is_cmd_tbl_array s pt_tbl = (case pt_tbl of
     None \<Rightarrow> Inr True
   | Some e \<Rightarrow> (case entry s e of
       None \<Rightarrow> Inl BadAccess
     | Some c \<Rightarrow> (case ps_cmd_str c of None \<Rightarrow> Inl BadAccess | Some nm \<Rightarrow> Inr (nm = ''app'' \<or> nm = ''mw''))))"

text \<open>The tables; \<open>cnt - 1\<close> of an empty root would be a huge count.\<close>

definition get_cmd_tbl_array :: "cli \<Rightarrow> eptr option \<Rightarrow> bool \<Rightarrow> eptr list result" where
  "get_cmd_tbl_array s pt_tbl b_skip_manda_tbl = (case pt_tbl of
     None \<Rightarrow>
       if b_skip_manda_tbl then (case cli_array s CLI_CAT_ROOT of [] \<Rightarrow> Inl BadAccess | _ # ts \<Rightarrow> Inr (map fst ts))
       else Inr (map fst (cli_array s CLI_CAT_ROOT))
   | Some e \<Rightarrow> (case entry s e of
       None \<Rightarrow> Inl BadAccess
     | Some c \<Rightarrow> (case ps_cmd_str c of
         None \<Rightarrow> Inl BadAccess
       | Some nm \<Rightarrow> Inr (if nm = ''app'' then map fst (cli_array s CLI_CAT_APP)
                       else if nm = ''mw'' then map fst (cli_array s CLI_CAT_MW) else []))))"

section \<open>Searching\<close>

definition dir_of :: "string \<Rightarrow> string" where
  "dir_of ps = takeWhile (\<lambda>c. c \<noteq> ASCII_KEY_DOT) ps"

definition rest_of :: "string \<Rightarrow> string" where
  "rest_of ps = dropWhile (\<lambda>c. c \<noteq> ASCII_KEY_DOT) ps"

definition same_str :: "nat \<Rightarrow> string \<Rightarrow> string option \<Rightarrow> bool" where
  "same_str n ps_cmd m = (case m of None \<Rightarrow> False | Some m \<Rightarrow> n = length m \<and> take n m = take n ps_cmd)"

fun search_loop :: "string \<Rightarrow> cmd list \<Rightarrow> nat \<Rightarrow> nat option" where
  "search_loop ps_cmd [] i = None"
| "search_loop ps_cmd (c # cs) i =
    (if ps_cmd_str c = None then None
     else if same_str (length (dir_of ps_cmd)) ps_cmd (ps_cmd_str c) \<or> same_str (length (dir_of ps_cmd)) ps_cmd (ps_cmd_abbr_str c)
     then Some i else search_loop ps_cmd cs (i + 1))"

definition search_tbl :: "cli \<Rightarrow> string \<Rightarrow> eptr option \<Rightarrow> eptr option result" where
  "search_tbl s ps_cmd pt_tbl = (case pt_tbl of
     None \<Rightarrow> Inr None
   | Some (p, i) \<Rightarrow> (case cli_tbls s p of
       None \<Rightarrow> Inl BadAccess
     | Some es \<Rightarrow> if length es < i then Inl BadAccess
         else Inr (case search_loop ps_cmd (drop i es) i of None \<Rightarrow> None | Some j \<Rightarrow> Some (p, j))))"

fun search_all :: "cli \<Rightarrow> string \<Rightarrow> eptr list \<Rightarrow> eptr option result" where
  "search_all s ps_cmd [] = Inr None"
| "search_all s ps_cmd (t # ts) = then_do (search_tbl s ps_cmd (Some t)) (\<lambda>r.
     case r of None \<Rightarrow> search_all s ps_cmd ts | Some e \<Rightarrow> Inr (Some e))"

section \<open>Attaching and detaching\<close>

text \<open>A table of the same name that has no abbreviation, or the same one, is replaced; the search stops at the
  first table of the name.\<close>

fun dup_loop :: "cli \<Rightarrow> cmd \<Rightarrow> (eptr \<times> 64 Word.word) list \<Rightarrow> nat \<Rightarrow> nat option result" where
  "dup_loop s c [] i = Inr None"
| "dup_loop s c ((t, m) # ts) i = (case entry s t of
     None \<Rightarrow> Inl BadAccess
   | Some d \<Rightarrow>
     if ps_cmd_str d = None then Inl BadAccess
     else if ps_cmd_str c = ps_cmd_str d then
       (if ps_cmd_abbr_str d = None then Inr (Some i)
        else if ps_cmd_abbr_str c = None then Inl BadAccess
        else Inr (if ps_cmd_abbr_str c = ps_cmd_abbr_str d then Some i else None))
     else dup_loop s c ts (i + 1))"

text \<open>The insertion before the first table for whose name \<open>strcmp\<close> returns -1, which is what \<open>lt\<close> says of two
  strings.\<close>

fun insert_loop :: "(string \<Rightarrow> string \<Rightarrow> bool) \<Rightarrow> cli \<Rightarrow> cmd \<Rightarrow> eptr \<times> 64 Word.word \<Rightarrow> (eptr \<times> 64 Word.word) list
    \<Rightarrow> (eptr \<times> 64 Word.word) list result" where
  "insert_loop lt s c x [] = Inr [x]"
| "insert_loop lt s c x (y # ys) = (case entry s (fst y) of
     None \<Rightarrow> Inl BadAccess
   | Some d \<Rightarrow> (case (ps_cmd_str c, ps_cmd_str d) of
       (Some a, Some b) \<Rightarrow> if lt a b then Inr (x # y # ys) else then_do (insert_loop lt s c x ys) (\<lambda>zs. Inr (y # zs))
     | _ \<Rightarrow> Inl BadAccess))"

text \<open>\<open>pt_cmd_tbl[0].pt_next_level = pt_tbl\<close> for the category's entry in the root.\<close>

definition set_next_level :: "nat \<Rightarrow> eptr \<Rightarrow> cli \<Rightarrow> cli" where
  "set_next_level cat t s =
    (let p = (if cat = CLI_CAT_APP then at_app_cmd_tbl else at_mw_cmd_tbl) in
     s\<lparr>cli_tbls := (cli_tbls s)(p := (case cli_tbls s p of Some (c # cs) \<Rightarrow> Some (c\<lparr>pt_next_level := Some t\<rparr> # cs) | r \<Rightarrow> r))\<rparr>)"

definition set_array :: "nat \<Rightarrow> (eptr \<times> 64 Word.word) list \<Rightarrow> cli \<Rightarrow> cli" where
  "set_array cat ts s = s\<lparr>cli_array := (cli_array s)(cat := ts)\<rparr>"

text \<open>A new table in first place becomes the next level of its category.\<close>

definition put_first :: "nat \<Rightarrow> eptr \<Rightarrow> bool \<Rightarrow> (eptr \<times> 64 Word.word) list \<Rightarrow> cli \<Rightarrow> cli" where
  "put_first cat t first ts s = (if cat > CLI_CAT_ROOT \<and> first then set_next_level cat t (set_array cat ts s) else set_array cat ts s)"

definition cli_parser_attach_cmd_tbl :: "(string \<Rightarrow> string \<Rightarrow> bool) \<Rightarrow> eptr option \<Rightarrow> nat \<Rightarrow> 64 Word.word \<Rightarrow> cli \<Rightarrow> (int \<times> cli) result" where
  "cli_parser_attach_cmd_tbl lt pt_tbl e_category msk s = (case pt_tbl of
     None \<Rightarrow> Inr (CLIR_INV_ARG, s)
   | Some t \<Rightarrow> (case entry s t of
       None \<Rightarrow> Inl BadAccess
     | Some c \<Rightarrow>
       if ps_cmd_str c = None \<or> e_category \<ge> 3 then Inr (CLIR_INV_ARG, s)
       else let ts = cli_array s e_category in
         if length ts \<ge> CLI_MAX_CMD_TBL_NUM then Inr (CLIR_CMD_TBL_FULL, s)
         else then_do (dup_loop s c ts 0) (\<lambda>d. case d of
             Some i \<Rightarrow> Inr (CLIR_OK, set_array e_category (ts[i := (t, msk)]) s)
           | None \<Rightarrow>
             if ts \<noteq> [] \<and> e_category > CLI_CAT_ROOT
             then then_do (insert_loop lt s c (t, msk) ts) (\<lambda>us. Inr (CLIR_OK, put_first e_category t (us = (t, msk) # ts) us s))
             else Inr (CLIR_OK, if ts = [] then put_first e_category t True [(t, msk)] s else set_array e_category (ts @ [(t, msk)]) s))))"

text \<open>Detaching wants the same name and abbreviation, the same pointer and the same mask.\<close>

fun find_tbl :: "cli \<Rightarrow> cmd \<Rightarrow> eptr \<times> 64 Word.word \<Rightarrow> (eptr \<times> 64 Word.word) list \<Rightarrow> nat \<Rightarrow> nat option result" where
  "find_tbl s c x [] i = Inr None"
| "find_tbl s c x (y # ys) i = (case entry s (fst y) of
     None \<Rightarrow> Inl BadAccess
   | Some d \<Rightarrow>
     if ps_cmd_str c = ps_cmd_str d \<and> ps_cmd_abbr_str c = ps_cmd_abbr_str d \<and> y = x then Inr (Some i)
     else find_tbl s c x ys (i + 1))"

definition cli_parser_detach_cmd_tbl :: "eptr option \<Rightarrow> nat \<Rightarrow> 64 Word.word \<Rightarrow> cli \<Rightarrow> (int \<times> cli) result" where
  "cli_parser_detach_cmd_tbl pt_tbl e_category msk s = (case pt_tbl of
     None \<Rightarrow> Inr (CLIR_INV_ARG, s)
   | Some t \<Rightarrow> (case entry s t of
       None \<Rightarrow> Inl BadAccess
     | Some c \<Rightarrow>
       if ps_cmd_str c = None \<or> e_category \<ge> 3 then Inr (CLIR_INV_ARG, s)
       else let ts = cli_array s e_category in
         if ts = [] then Inr (CLIR_CMD_TBL_NULL, s)
         else then_do (find_tbl s c (t, msk) ts 0) (\<lambda>r. case r of
             None \<Rightarrow> Inr (CLIR_CMD_NOT_FOUND, s)
           | Some i \<Rightarrow> Inr (CLIR_OK, set_array e_category (take i ts @ drop (i + 1) ts) s))))"

text \<open>The start: the four tables of the file in the root, the root as the current directory.\<close>

definition cli_clear :: "cli \<Rightarrow> cli" where
  "cli_clear s = s\<lparr>cli_array := (\<lambda>_. []),
     cli_tbls := (cli_tbls s)(at_mandatory_cmd_tbl \<mapsto> mandatory_tbl, at_app_cmd_tbl \<mapsto> category_tbl ''app'' ''Application'' None,
       at_mw_cmd_tbl \<mapsto> category_tbl ''mw'' ''Middleware'' None, at_uart_root_cmd_table \<mapsto> uart_tbl)\<rparr>"

definition cli_parser_init :: "cli \<Rightarrow> cli" where
  "cli_parser_init s = s\<lparr>ui4_dir_link_idx := 0, pt_cur_cmd_tbl := None, b_is_cmd_tbl := False\<rparr>"

definition cli_set_cli_prompt :: "cli \<Rightarrow> cli" where
  "cli_set_cli_prompt s = s\<lparr>ps_prompt := ''Command>''\<rparr>"

fun attach_root :: "(string \<Rightarrow> string \<Rightarrow> bool) \<Rightarrow> ptr list \<Rightarrow> cli \<Rightarrow> (int \<times> cli) result" where
  "attach_root lt [] s = Inr (CLIR_OK, s)"
| "attach_root lt (p # ps) s = then_do (cli_parser_attach_cmd_tbl lt (Some (p, 0)) CLI_CAT_ROOT 0 s) (\<lambda>(r, s').
     if r \<noteq> CLIR_OK then Inr (r, s') else attach_root lt ps s')"

definition cli_parser_clear_cmd_tbl :: "(string \<Rightarrow> string \<Rightarrow> bool) \<Rightarrow> cli \<Rightarrow> (int \<times> cli) result" where
  "cli_parser_clear_cmd_tbl lt s =
    then_do (attach_root lt [at_mandatory_cmd_tbl, at_app_cmd_tbl, at_mw_cmd_tbl, at_uart_root_cmd_table] (cli_clear s)) (\<lambda>(r, s').
      if r \<noteq> CLIR_OK then Inr (r, s') else Inr (CLIR_OK, cli_set_cli_prompt (cli_parser_init s')))"

end
