(* ===== verification/CliCmd.thy ===== *)
theory CliCmd
  imports CliTbl
begin

text \<open>The commands of cli/cli_parser.c: help texts, the current directory, and the parser that finds a command along
  its dotted path and runs it.\<close>

section \<open>Help\<close>

text \<open>The contents of the buffer up to its terminating zero: \<open>None\<close> where the entry is left out because it is too
  long, \<open>Some None\<close> where \<open>strncpy\<close> fills the buffer and leaves no zero in it.\<close>

definition format_help_str :: "nat \<Rightarrow> string option \<Rightarrow> string option \<Rightarrow> string option \<Rightarrow> string option option" where
  "format_help_str dst_len cmd abbr help = (case cmd of
     None \<Rightarrow> None
   | Some m \<Rightarrow>
     let len = (\<lambda>x. case x of None \<Rightarrow> 0 | Some y \<Rightarrow> length y);
         abbr_len = (if abbr = None \<and> help = None then 0 else len abbr + 2);
         help_len = len help;
         h = take (dst_len - 1) (case abbr of None \<Rightarrow> m @ '':'' | Some a \<Rightarrow> m @ ''('' @ a @ ''):'')
     in if length m + abbr_len + help_len + 1 > dst_len then None
        else case help of
          None \<Rightarrow> Some (Some h)
        | Some x \<Rightarrow>
          if length x < dst_len - HELP_STR_POS then Some (Some (take HELP_STR_POS (h @ replicate HELP_STR_POS CHR '' '') @ x))
          else Some None)"

definition print :: "string list \<Rightarrow> cli \<Rightarrow> cli" where
  "print ls s = s\<lparr>cli_out := cli_out s @ ls\<rparr>"

text \<open>The lines for the entries of a table up to its end; \<open>line\<close> makes a line of an entry and its text, if it is
  shown.  Printing a buffer without a zero reads behind it.\<close>

fun help_lines :: "(cmd \<Rightarrow> bool) \<Rightarrow> (cmd \<Rightarrow> string \<Rightarrow> string list) \<Rightarrow> cmd list \<Rightarrow> string list result" where
  "help_lines fin ln [] = Inr []"
| "help_lines fin ln (c # cs) =
    (if fin c then Inr []
     else (case format_help_str MAX_STR_LEN (ps_cmd_str c) (ps_cmd_abbr_str c) (ps_cmd_help_str c) of
         None \<Rightarrow> help_lines fin ln cs
       | Some None \<Rightarrow> if ln c [] = [] then help_lines fin ln cs else Inl BadAccess
       | Some (Some t) \<Rightarrow> then_do (help_lines fin ln cs) (\<lambda>ls. Inr (ln c t @ ls))))"

definition entries_from :: "cli \<Rightarrow> eptr \<Rightarrow> cmd list result" where
  "entries_from s e = (case cli_tbls s (fst e) of
     None \<Rightarrow> Inl BadAccess
   | Some es \<Rightarrow> if length es < snd e then Inl BadAccess else Inr (drop (snd e) es))"

fun help_tables :: "(cmd \<Rightarrow> string \<Rightarrow> string list) \<Rightarrow> cli \<Rightarrow> eptr list \<Rightarrow> string list result" where
  "help_tables ln s [] = Inr []"
| "help_tables ln s (t # ts) =
    then_do (entries_from s t) (\<lambda>es.
    then_do (help_lines (\<lambda>c. ps_cmd_str c = None \<and> ps_cmd_abbr_str c = None \<and> ps_cmd_help_str c = None) ln es) (\<lambda>ls.
    then_do (help_tables ln s ts) (\<lambda>ls'. Inr (ls @ ls'))))"

text \<open>\<open>h\<close> and \<open>ha\<close> are the headings for a table and for a list of tables.\<close>

definition show_entries :: "string list \<Rightarrow> (eptr list \<Rightarrow> string list) \<Rightarrow> (cmd \<Rightarrow> string \<Rightarrow> string list) \<Rightarrow> eptr option \<Rightarrow> cli \<Rightarrow> cli result" where
  "show_entries h ha ln pt_tbl s =
    (if b_is_cmd_tbl s then (case pt_tbl of
       None \<Rightarrow> Inr s
     | Some e \<Rightarrow> then_do (entries_from s e) (\<lambda>es.
         then_do (help_lines (\<lambda>c. ps_cmd_help_str c = None) ln es) (\<lambda>ls. Inr (print (h @ ls) s))))
     else then_do (get_cmd_tbl_array s pt_tbl False) (\<lambda>ts.
         then_do (help_tables ln s ts) (\<lambda>ls. Inr (print (ha ts @ ls) s))))"

definition show_help :: "eptr option \<Rightarrow> cli \<Rightarrow> cli result" where
  "show_help = show_entries [''[Help]''] (\<lambda>ts. if ts = [] then [] else [''[Help]''])
     (\<lambda>c t. if e_access_right c \<noteq> CLI_HIDDEN then [t] else [])"

definition show_all_subdir_and_cmd :: "eptr option \<Rightarrow> cli \<Rightarrow> cli result" where
  "show_all_subdir_and_cmd = show_entries [] (\<lambda>ts. [''[Help]'']) (\<lambda>c t.
     [(if pf_exec_fct c = NULL then ''cd '' else ''   '') @ t @ [CHR 0x09] @ ''right is '' @ (if e_access_right c = CLI_GUEST then ''0'' else ''1'')])"

definition cli_cmd_list_cmd :: "string list \<Rightarrow> cli \<Rightarrow> (int \<times> cli) result" where
  "cli_cmd_list_cmd argv s =
    then_do ((if length argv = 2 \<and> argv ! 1 = ''all'' then show_all_subdir_and_cmd else show_help) (pt_cur_cmd_tbl s) s)
      (\<lambda>s'. Inr (CLIR_OK, s'))"

section \<open>The current directory\<close>

text \<open>The names of the directories below the root, as far as they fit.\<close>

fun prompt_loop :: "nat \<Rightarrow> string list \<Rightarrow> string \<Rightarrow> string" where
  "prompt_loop tot [] out = out @ ''>''"
| "prompt_loop tot (d # ds) out =
    (if tot + length d > CLI_CMD_BUF_SIZE then out @ ''>''
     else prompt_loop (tot + length d + 1) ds (out @ ''.'' @ d))"

fun dir_names :: "cli \<Rightarrow> eptr list \<Rightarrow> string list result" where
  "dir_names s [] = Inr []"
| "dir_names s (e # es) = (case entry s e of
     None \<Rightarrow> Inl BadAccess
   | Some c \<Rightarrow> (case (ps_cmd_abbr_str c, ps_cmd_str c) of
       (Some a, _) \<Rightarrow> then_do (dir_names s es) (\<lambda>ns. Inr (a # ns))
     | (None, Some n) \<Rightarrow> then_do (dir_names s es) (\<lambda>ns. Inr (n # ns))
     | (None, None) \<Rightarrow> Inl BadAccess))"

definition generate_prompt :: "cli \<Rightarrow> cli result" where
  "generate_prompt s = then_do (dir_names s (take (ui4_dir_link_idx s) (tl (apt_dir_link s)))) (\<lambda>ns.
     Inr (s\<lparr>ps_prompt := prompt_loop 0 ns ''Command''\<rparr>))"

text \<open>Entering the directory of an entry: a category, or the table of the next level.\<close>

definition enter_dir :: "eptr \<Rightarrow> cli \<Rightarrow> cli result" where
  "enter_dir e s = then_do (is_cmd_tbl_array s (Some e)) (\<lambda>arr.
     if arr then Inr (s\<lparr>pt_cur_cmd_tbl := Some e, b_is_cmd_tbl := False\<rparr>)
     else case entry s e of None \<Rightarrow> Inl BadAccess
       | Some c \<Rightarrow> Inr (s\<lparr>pt_cur_cmd_tbl := pt_next_level c, b_is_cmd_tbl := True\<rparr>))"

definition root_dir :: "cli \<Rightarrow> cli" where
  "root_dir s = s\<lparr>ui4_dir_link_idx := 0, pt_cur_cmd_tbl := None, b_is_cmd_tbl := False\<rparr>"

definition prompt_and_help :: "cli \<Rightarrow> cli result" where
  "prompt_and_help s = then_do (generate_prompt s) (\<lambda>s. show_help (pt_cur_cmd_tbl s) s)"

definition go_up :: "cli \<Rightarrow> cli result" where
  "go_up s =
    (if ui4_dir_link_idx s > 0 then
       let i = ui4_dir_link_idx s - 1 in
       then_do (if i = 0 then Inr (root_dir s) else enter_dir (apt_dir_link s ! i) (s\<lparr>ui4_dir_link_idx := i\<rparr>)) prompt_and_help
     else Inr s)"

text \<open>The prompt of a new level is made before the level is entered.\<close>

definition go_down :: "eptr \<Rightarrow> cli \<Rightarrow> cli result" where
  "go_down e s =
    (if ui4_dir_link_idx s < CLI_MAX_CMD_TBL_LEVEL - 1 then
       let i = ui4_dir_link_idx s + 1 in
       then_do (generate_prompt (s\<lparr>ui4_dir_link_idx := i, apt_dir_link := (apt_dir_link s)[i := e]\<rparr>)) (\<lambda>s.
       then_do (enter_dir e s) (\<lambda>s. show_help (pt_cur_cmd_tbl s) s))
     else prompt_and_help (root_dir s))"

definition find_dir :: "string \<Rightarrow> cli \<Rightarrow> eptr option result" where
  "find_dir ps s =
    (if b_is_cmd_tbl s then search_tbl s ps (pt_cur_cmd_tbl s)
     else then_do (get_cmd_tbl_array s (pt_cur_cmd_tbl s) True) (search_all s ps))"

text \<open>One turn of the loop: the return code, or \<open>None\<close> with the rest of the path.\<close>

definition cd_step :: "string \<Rightarrow> cli \<Rightarrow> (int option \<times> string \<times> cli) result" where
  "cd_step ps s =
    (if hd ps = ASCII_KEY_DOT then
       (if tl ps \<noteq> [] \<and> hd (tl ps) = ASCII_KEY_DOT then then_do (go_up s) (\<lambda>s. Inr (None, tl (tl ps), s))
        else Inr (Some CLIR_DIR_NOT_FOUND, tl ps, s))
     else if hd ps = ASCII_KEY_ROOT then then_do (prompt_and_help (root_dir s)) (\<lambda>s. Inr (None, tl ps, s))
     else then_do (find_dir ps s) (\<lambda>r. case r of
         None \<Rightarrow> Inr (Some CLIR_DIR_NOT_FOUND, ps, s)
       | Some e \<Rightarrow> (case entry s e of
           None \<Rightarrow> Inl BadAccess
         | Some c \<Rightarrow>
           if pt_next_level c = None then Inr (Some CLIR_DIR_NOT_FOUND, ps, s)
           else then_do (go_down e s) (\<lambda>s. Inr (None, tl (rest_of ps), s)))))"

partial_function (option) cd_loop :: "string \<Rightarrow> cli \<Rightarrow> (int \<times> cli) result option" where
  "cd_loop ps s =
    (if ps = [] then Some (Inr (CLIR_OK, s))
     else case cd_step ps s of
       Inl e \<Rightarrow> Some (Inl e)
     | Inr r \<Rightarrow> (case fst r of Some i \<Rightarrow> Some (Inr (i, snd (snd r))) | None \<Rightarrow> cd_loop (fst (snd r)) (snd (snd r))))"

declare cd_loop.simps [code]

definition cli_cmd_change_dir :: "string list \<Rightarrow> cli \<Rightarrow> (int \<times> cli) result" where
  "cli_cmd_change_dir argv s =
    (if length argv \<noteq> 2 then then_do (show_help (pt_cur_cmd_tbl s) s) (\<lambda>s. Inr (CLIR_INV_CMD_USAGE, s))
     else run_loop (cd_loop (argv ! 1) s))"

section \<open>The other commands of the file\<close>

text \<open>The loop also looks at the argument after the last one, an empty buffer as long as there is one; an unknown
  word ends it.\<close>

fun disable_loop :: "nat \<Rightarrow> string list \<Rightarrow> u32 \<times> u32 \<times> u32 \<Rightarrow> (u32 \<times> u32 \<times> u32) result" where
  "disable_loop n [] m = (if n < CLI_MAX_ARG_NUM then Inr m else Inl BadAccess)"
| "disable_loop n (a # as) (app, mw, sys) =
    (if a = ''app'' then disable_loop n as (0x0100, mw, sys)
     else if a = ''mw'' then disable_loop n as (app, 0x0400, sys)
     else if a = ''sys'' then disable_loop n as (app, mw, 0x0800)
     else if a = ''on'' then disable_loop n as (app, mw, 0xFF00)
     else Inr (app, mw, sys))"

definition cli_cmd_set_DisablePrint :: "string list \<Rightarrow> cli \<Rightarrow> (int \<times> cli) result" where
  "cli_cmd_set_DisablePrint argv s = then_do (disable_loop (length argv) (tl argv) (0, 0, 0)) (\<lambda>(app, mw, sys).
     Inr (CLIR_OK, s\<lparr>ui4_disable_print := app OR mw OR sys\<rparr>))"

text \<open>The words joined by spaces, cut to the 255 characters that fit the buffer.\<close>

fun joined :: "string list \<Rightarrow> string" where
  "joined [] = []"
| "joined [a] = a"
| "joined (a # as) = a @ '' '' @ joined as"

definition cli_cmd_exec :: "string list \<Rightarrow> cli \<Rightarrow> (int \<times> cli) result" where
  "cli_cmd_exec argv s =
    (if length argv < 2 then Inr (CLIR_OK, print [''Invalid cmd! '', ''e.g: exec programx''] s)
     else let buf = (if length argv \<le> 6 then take 255 (joined (tl argv)) else []);
              s' = (if length argv \<le> 6 then s else print [''no arg ''] s)
          in Inr (CLIR_OK, print [''call '' @ buf] (s'\<lparr>cli_system := cli_system s' @ [buf]\<rparr>)))"

text \<open>\<open>other\<close> are the functions of the program's other tables, with the setting of the baud rate among them.\<close>

definition run_cmd :: "(fptr \<Rightarrow> string list \<Rightarrow> cli \<Rightarrow> (int \<times> cli) result) \<Rightarrow> fptr \<Rightarrow> string list \<Rightarrow> cli \<Rightarrow> (int \<times> cli) result" where
  "run_cmd other f argv s =
    (if f = fn_change_dir then cli_cmd_change_dir argv s
     else if f = fn_list_cmd then cli_cmd_list_cmd argv s
     else if f = fn_set_DisablePrint then cli_cmd_set_DisablePrint argv s
     else if f = fn_cli_cmd_exec then cli_cmd_exec argv s
     else other f argv s)"

section \<open>The parser\<close>

text \<open>What a path leads to.\<close>

datatype found = Run fptr | Help eptr bool | BadTable | Nothing

definition find_entry :: "cli \<Rightarrow> string \<Rightarrow> eptr option \<Rightarrow> eptr option result" where
  "find_entry s ps pt = then_do (is_cmd_tbl_array s pt) (\<lambda>arr.
     if arr then then_do (get_cmd_tbl_array s pt False) (search_all s ps) else search_tbl s ps pt)"

text \<open>The walk of \<open>_parse_cmd\<close> along the dotted path \<open>ps\<close>, the first argument; \<open>many\<close> tells whether there are more
  arguments.  The second result is what is left of the first argument.\<close>

function resolve :: "cli \<Rightarrow> bool \<Rightarrow> string \<Rightarrow> eptr option \<Rightarrow> (found \<times> string) result" where
  "resolve s many ps pt = (case find_entry s ps pt of
     Inl e \<Rightarrow> Inl e
   | Inr None \<Rightarrow> Inr (Nothing, ps)
   | Inr (Some e) \<Rightarrow> (case (entry s e, is_cmd_tbl_array s (Some e)) of
       (Some c, Inr arr) \<Rightarrow>
         if pt_next_level c = None \<and> pf_exec_fct c = NULL \<and> \<not> arr then Inr (BadTable, ps)
         else if pf_exec_fct c \<noteq> NULL \<and> (pt_next_level c = None \<or> rest_of ps = [] \<and> many) then Inr (Run (pf_exec_fct c), ps)
         else if pt_next_level c = None then Inr (Nothing, ps)
         else if rest_of ps = [] then (if many then Inr (Nothing, ps) else Inr (Help e arr, ps))
         else resolve s many (tl (rest_of ps)) (if arr then Some e else pt_next_level c)
     | _ \<Rightarrow> Inl BadAccess))"
  by pat_completeness auto

termination
proof (relation "measure (\<lambda>(s, many, ps, pt). length ps)", goal_cases)
  case (2 s many ps pt)
  then have "length (rest_of ps) \<le> length ps" "rest_of ps \<noteq> []"
    unfolding rest_of_def by (simp_all add: length_dropWhile_le)
  then show ?case by (cases "rest_of ps") auto
qed simp

declare resolve.simps [simp del]

text \<open>Running it: the return code, the arguments as they are then, and the state.\<close>

definition parse_cmd :: "(fptr \<Rightarrow> string list \<Rightarrow> cli \<Rightarrow> (int \<times> cli) result) \<Rightarrow> string list \<Rightarrow> eptr option \<Rightarrow> cli
    \<Rightarrow> (int \<times> string list \<times> cli) result" where
  "parse_cmd other argv pt s = then_do (resolve s (length argv > 1) (hd argv) pt) (\<lambda>(r, ps).
     let argv' = ps # tl argv in
     case r of
       Nothing \<Rightarrow> Inr (CLIR_CMD_NOT_FOUND, argv', s)
     | BadTable \<Rightarrow> Inr (CLIR_INV_CMD_TBL, argv', s)
     | Run f \<Rightarrow> then_do (run_cmd other f argv' s) (\<lambda>(i, s'). Inr (i, argv', s'))
     | Help e arr \<Rightarrow>
       if arr then then_do (show_help (Some e) s) (\<lambda>s'. Inr (CLIR_INV_CMD_USAGE, argv', s'))
       else (case entry s e of None \<Rightarrow> Inl BadAccess
         | Some c \<Rightarrow> then_do (show_help (pt_next_level c) (s\<lparr>b_is_cmd_tbl := True\<rparr>)) (\<lambda>s'.
             Inr (CLIR_INV_CMD_USAGE, argv', s'\<lparr>b_is_cmd_tbl := b_is_cmd_tbl s\<rparr>))))"

definition cli_parser :: "(fptr \<Rightarrow> string list \<Rightarrow> cli \<Rightarrow> (int \<times> cli) result) \<Rightarrow> string option \<Rightarrow> cli \<Rightarrow> (int \<times> cli) result" where
  "cli_parser other ps_cmd s =
    (if ps_cmd = None then Inr (CLIR_INV_ARG, s)
     else then_do (find_cmd_argv ps_cmd CLI_MAX_ARG_NUM CLI_MAX_ARG_LEN) (\<lambda>argv.
       if argv = [] then then_do (show_help (pt_cur_cmd_tbl s) s) (\<lambda>s'. Inr (CLIR_OK, s'))
       else case cli_array s CLI_CAT_ROOT of
         [] \<Rightarrow> Inl BadAccess
       | (t, _) # _ \<Rightarrow> then_do (parse_cmd other argv (Some t) s) (\<lambda>(r, argv, s).
           if r \<noteq> CLIR_CMD_NOT_FOUND then Inr (r, s)
           else then_do (parse_cmd other argv (pt_cur_cmd_tbl s) s) (\<lambda>(r, argv, s). Inr (r, s)))))"

end
