(* ===== verification/CliInv.thy ===== *)
theory CliInv
  imports CliCmd
begin

text \<open>What keeps the command line from faulting: tables whose pointers are valid, and a current directory that is the
  one its chain of directories leads to.\<close>

section \<open>Well-formed tables\<close>

definition valid_tbl :: "cli \<Rightarrow> eptr \<Rightarrow> bool" where
  "valid_tbl s e \<longleftrightarrow> (case cli_tbls s (fst e) of None \<Rightarrow> False | Some es \<Rightarrow> snd e \<le> length es)"

definition valid_entry :: "cli \<Rightarrow> eptr \<Rightarrow> bool" where
  "valid_entry s e \<longleftrightarrow> (case cli_tbls s (fst e) of None \<Rightarrow> False | Some es \<Rightarrow> snd e < length es)"

definition entry_ok :: "cli \<Rightarrow> cmd \<Rightarrow> bool" where
  "entry_ok s c \<longleftrightarrow> ps_cmd_str c \<noteq> None \<and> (case ps_cmd_help_str c of None \<Rightarrow> True | Some x \<Rightarrow> length x < 104) \<and>
     (case pt_next_level c of None \<Rightarrow> True | Some t \<Rightarrow> valid_tbl s t)"

definition tables_ok :: "cli \<Rightarrow> bool" where
  "tables_ok s \<longleftrightarrow> cli_array s CLI_CAT_ROOT \<noteq> [] \<and> (\<forall>cat. \<forall>x\<in>set (cli_array s cat). valid_tbl s (fst x)) \<and>
     (\<forall>p es c. cli_tbls s p = Some es \<longrightarrow> c \<in> set es \<longrightarrow> entry_ok s c)"

lemma tables_ok_cong:
  assumes "cli_tbls s' = cli_tbls s" "cli_array s' = cli_array s"
  shows "tables_ok s' = tables_ok s"
proof -
  have v: "valid_tbl s' = valid_tbl s" by (intro ext) (simp add: valid_tbl_def assms)
  then have "entry_ok s' = entry_ok s" by (intro ext) (simp add: entry_ok_def split: option.split)
  then show ?thesis by (simp add: tables_ok_def v assms)
qed

lemma valid_entry_tbl: "valid_entry s e \<Longrightarrow> valid_tbl s e"
  by (auto simp: valid_entry_def valid_tbl_def split: option.splits)

lemma valid_entryD:
  assumes "tables_ok s" "valid_entry s e"
  obtains c where "entry s e = Some c" "entry_ok s c"
proof -
  obtain es where es: "cli_tbls s (fst e) = Some es" "snd e < length es" using assms(2) by (auto simp: valid_entry_def split: option.splits)
  then have "entry_ok s (es ! snd e)" using assms(1) by (simp add: tables_ok_def)
  then show thesis using that [of "es ! snd e"] es by (simp add: entry_def)
qed

section \<open>Searching\<close>

lemma search_loop_bounds: "search_loop ps cs i = Some j \<Longrightarrow> i \<le> j \<and> j < i + length cs"
  by (induction ps cs i rule: search_loop.induct) (auto split: if_splits)

lemma search_tbl_total:
  assumes "case pt of None \<Rightarrow> True | Some e \<Rightarrow> valid_tbl s e"
  shows "\<exists>r. search_tbl s ps pt = Inr r \<and> (\<forall>e. r = Some e \<longrightarrow> valid_entry s e)"
proof (cases pt)
  case (Some e)
  then obtain p i where e: "pt = Some (p, i)" by (cases e) auto
  then obtain es where "cli_tbls s p = Some es" "i \<le> length es" using assms by (auto simp: valid_tbl_def split: option.splits)
  then show ?thesis using e search_loop_bounds [of ps "drop i es" i]
    by (auto simp: search_tbl_def valid_entry_def split: option.splits)
qed (simp add: search_tbl_def)

lemma search_all_total:
  "\<forall>t\<in>set ts. valid_tbl s t \<Longrightarrow> \<exists>r. search_all s ps ts = Inr r \<and> (\<forall>e. r = Some e \<longrightarrow> valid_entry s e)"
proof (induction ts)
  case (Cons t ts)
  obtain r where "search_tbl s ps (Some t) = Inr r" "\<forall>e. r = Some e \<longrightarrow> valid_entry s e"
    using search_tbl_total [where pt = "Some t" and s = s and ps = ps] Cons.prems by auto
  then show ?case using Cons by (auto split: option.splits)
qed simp

section \<open>Help\<close>

lemma format_help_ok:
  "case help of None \<Rightarrow> True | Some x \<Rightarrow> length x < 104 \<Longrightarrow> format_help_str MAX_STR_LEN cmd abbr help \<noteq> Some None"
  by (auto simp: format_help_str_def Let_def split: option.splits)

lemma help_lines_total: "\<forall>c\<in>set cs. entry_ok s c \<Longrightarrow> \<exists>ls. help_lines fin ln cs = Inr ls"
proof (induction cs)
  case (Cons c cs)
  have "format_help_str MAX_STR_LEN (ps_cmd_str c) (ps_cmd_abbr_str c) (ps_cmd_help_str c) \<noteq> Some None"
    using Cons.prems by (intro format_help_ok) (simp add: entry_ok_def)
  then show ?case using Cons by (auto split: option.splits)
qed simp

lemma entries_from_total:
  assumes "tables_ok s" "valid_tbl s e"
  shows "\<exists>es. entries_from s e = Inr es \<and> (\<forall>c\<in>set es. entry_ok s c)"
proof -
  obtain es where es: "cli_tbls s (fst e) = Some es" "snd e \<le> length es" using assms(2) by (auto simp: valid_tbl_def split: option.splits)
  then have "\<forall>c\<in>set es. entry_ok s c" using assms(1) by (simp add: tables_ok_def)
  then show ?thesis using es by (auto simp: entries_from_def dest: in_set_dropD)
qed

lemma help_tables_total:
  "tables_ok s \<Longrightarrow> \<forall>t\<in>set ts. valid_tbl s t \<Longrightarrow> \<exists>ls. help_tables ln s ts = Inr ls"
proof (induction ts)
  case (Cons t ts)
  obtain es where es: "entries_from s t = Inr es" "\<forall>c\<in>set es. entry_ok s c" using entries_from_total [of s t] Cons.prems by auto
  obtain ls where "help_lines (\<lambda>c. ps_cmd_str c = None \<and> ps_cmd_abbr_str c = None \<and> ps_cmd_help_str c = None) ln es = Inr ls"
    using help_lines_total [OF es(2)] by blast
  then show ?case using Cons es by auto
qed simp

text \<open>A pointer that can be the current directory.\<close>

definition cur_ok :: "cli \<Rightarrow> bool \<Rightarrow> eptr option \<Rightarrow> bool" where
  "cur_ok s b cur \<longleftrightarrow> (case cur of None \<Rightarrow> True | Some e \<Rightarrow> if b then valid_tbl s e else valid_entry s e)"

lemma get_array_total:
  assumes "tables_ok s" "case pt of None \<Rightarrow> True | Some e \<Rightarrow> valid_entry s e"
  shows "\<exists>ts. get_cmd_tbl_array s pt skip = Inr ts \<and> (\<forall>t\<in>set ts. valid_tbl s t)"
proof -
  have v: "valid_tbl s (fst x)" if "x \<in> set (cli_array s cat)" for x cat using assms(1) that by (simp add: tables_ok_def)
  show ?thesis
  proof (cases pt)
    case None
    then show ?thesis using v [of _ CLI_CAT_ROOT] assms(1)
      by (cases "cli_array s CLI_CAT_ROOT") (auto simp: get_cmd_tbl_array_def tables_ok_def)
  next
    case (Some e)
    then have "valid_entry s e" using assms(2) by simp
    then obtain c where "entry s e = Some c" "entry_ok s c" using valid_entryD [OF assms(1)] by blast
    then show ?thesis using Some v [of _ CLI_CAT_APP] v [of _ CLI_CAT_MW]
      by (auto simp: get_cmd_tbl_array_def entry_ok_def)
  qed
qed

lemma show_entries_total:
  assumes "tables_ok s" "cur_ok s (b_is_cmd_tbl s) pt"
  shows "\<exists>ls. show_entries h ha ln pt s = Inr (print ls s)"
proof (cases "b_is_cmd_tbl s")
  case True
  show ?thesis
  proof (cases pt)
    case None
    then show ?thesis using True by (intro exI [of _ "[]"]) (simp add: show_entries_def print_def)
  next
    case (Some e)
    then obtain es where es: "entries_from s e = Inr es" "\<forall>c\<in>set es. entry_ok s c"
      using entries_from_total [OF assms(1), of e] assms(2) True by (auto simp: cur_ok_def)
    then obtain ls where "help_lines (\<lambda>c. ps_cmd_help_str c = None) ln es = Inr ls" using help_lines_total by blast
    then show ?thesis using True Some es by (auto simp: show_entries_def)
  qed
next
  case False
  then have "case pt of None \<Rightarrow> True | Some e \<Rightarrow> valid_entry s e" using assms(2) by (cases pt) (simp_all add: cur_ok_def)
  then obtain ts where ts: "get_cmd_tbl_array s pt False = Inr ts" "\<forall>t\<in>set ts. valid_tbl s t" using get_array_total [OF assms(1)] by blast
  then show ?thesis using False help_tables_total [OF assms(1) ts(2), of ln] by (auto simp: show_entries_def)
qed

lemma show_help_total:
  "tables_ok s \<Longrightarrow> cur_ok s (b_is_cmd_tbl s) pt \<Longrightarrow> \<exists>ls. show_help pt s = Inr (print ls s)"
  unfolding show_help_def by (rule show_entries_total)

section \<open>The current directory\<close>

definition at_dir :: "cli \<Rightarrow> eptr \<Rightarrow> bool" where
  "at_dir s e \<longleftrightarrow> (case is_cmd_tbl_array s (Some e) of
     Inl x \<Rightarrow> False
   | Inr arr \<Rightarrow> if arr then pt_cur_cmd_tbl s = Some e \<and> \<not> b_is_cmd_tbl s
       else (case entry s e of None \<Rightarrow> False | Some c \<Rightarrow> pt_cur_cmd_tbl s = pt_next_level c \<and> b_is_cmd_tbl s))"

definition nav_ok :: "cli \<Rightarrow> bool" where
  "nav_ok s \<longleftrightarrow> length (apt_dir_link s) = CLI_MAX_CMD_TBL_LEVEL \<and> ui4_dir_link_idx s < CLI_MAX_CMD_TBL_LEVEL \<and>
     (\<forall>i. 0 < i \<longrightarrow> i \<le> ui4_dir_link_idx s \<longrightarrow> valid_entry s (apt_dir_link s ! i)) \<and>
     (if ui4_dir_link_idx s = 0 then pt_cur_cmd_tbl s = None \<and> \<not> b_is_cmd_tbl s else at_dir s (apt_dir_link s ! ui4_dir_link_idx s))"

text \<open>What the position depends on.\<close>

definition nav :: "cli \<Rightarrow> (ptr \<Rightarrow> cmd list option) \<times> (nat \<Rightarrow> (eptr \<times> 64 Word.word) list) \<times> eptr list \<times> nat \<times> eptr option \<times> bool" where
  "nav s = (cli_tbls s, cli_array s, apt_dir_link s, ui4_dir_link_idx s, pt_cur_cmd_tbl s, b_is_cmd_tbl s)"

lemma nav_cong:
  assumes "nav s' = nav s"
  shows "nav_ok s' = nav_ok s" "tables_ok s' = tables_ok s" "cur_ok s' = cur_ok s" "valid_entry s' = valid_entry s"
    "at_dir s' = at_dir s" "entry s' = entry s"
proof -
  have a: "cli_tbls s' = cli_tbls s" "cli_array s' = cli_array s" "apt_dir_link s' = apt_dir_link s"
    "ui4_dir_link_idx s' = ui4_dir_link_idx s" "pt_cur_cmd_tbl s' = pt_cur_cmd_tbl s" "b_is_cmd_tbl s' = b_is_cmd_tbl s"
    using assms by (simp_all add: nav_def)
  show e: "entry s' = entry s" "valid_entry s' = valid_entry s" by (intro ext, simp add: entry_def valid_entry_def a)+
  have v: "valid_tbl s' = valid_tbl s" by (intro ext) (simp add: valid_tbl_def a)
  show c: "cur_ok s' = cur_ok s" by (intro ext) (simp add: cur_ok_def e v split: option.split)
  have "is_cmd_tbl_array s' = is_cmd_tbl_array s" by (intro ext) (unfold is_cmd_tbl_array_def e, rule refl)
  then show d: "at_dir s' = at_dir s" by (intro ext) (unfold at_dir_def e a, simp)
  show "nav_ok s' = nav_ok s" by (simp add: nav_ok_def e d a)
  show "tables_ok s' = tables_ok s" by (rule tables_ok_cong [OF a(1,2)])
qed

lemma nav_print [simp]: "nav (print ls s) = nav s"
  by (simp add: nav_def print_def)

lemma nav_ok_cur:
  assumes "tables_ok s" "nav_ok s"
  shows "cur_ok s (b_is_cmd_tbl s) (pt_cur_cmd_tbl s)"
proof (cases "ui4_dir_link_idx s = 0")
  case True
  then show ?thesis using assms(2) by (simp add: nav_ok_def cur_ok_def)
next
  case False
  let ?e = "apt_dir_link s ! ui4_dir_link_idx s"
  have v: "valid_entry s ?e" "at_dir s ?e" using False assms(2) by (auto simp: nav_ok_def)
  obtain c where "entry s ?e = Some c" "entry_ok s c" using valid_entryD [OF assms(1) v(1)] .
  then show ?thesis using v by (auto simp: cur_ok_def at_dir_def entry_ok_def split: sum.splits if_splits option.splits)
qed

end
