(* ===== verification/CliAttach.thy ===== *)
theory CliAttach
  imports CliInv "HOL-Library.Multiset" "HOL-Library.Char_ord" "HOL-Library.List_Lexorder"
begin

text \<open>Attaching tables to the categories \<open>app\<close> and \<open>mw\<close> and detaching them: where a table comes to stand, that
  detaching undoes attaching, and what it leaves behind; the length of the help texts.\<close>

section \<open>Names\<close>

definition name_of :: "cli \<Rightarrow> eptr \<Rightarrow> string option" where
  "name_of s e = (case entry s e of None \<Rightarrow> None | Some c \<Rightarrow> ps_cmd_str c)"

definition names :: "cli \<Rightarrow> (eptr \<times> 64 Word.word) list \<Rightarrow> string list" where
  "names s ts = map (\<lambda>x. the (name_of s (fst x))) ts"

definition named :: "cli \<Rightarrow> (eptr \<times> 64 Word.word) list \<Rightarrow> bool" where
  "named s ts = list_all (\<lambda>x. name_of s (fst x) \<noteq> None) ts"

lemma names_simps [simp]:
  "names s [] = []" "names s (x # ts) = the (name_of s (fst x)) # names s ts" "named s []"
  "named s (x # ts) \<longleftrightarrow> (\<exists>c n. entry s (fst x) = Some c \<and> ps_cmd_str c = Some n) \<and> named s ts"
  by (auto simp: names_def named_def name_of_def split: option.splits)

lemma named_append [simp]: "named s (us @ vs) \<longleftrightarrow> named s us \<and> named s vs"
  by (simp add: named_def)

section \<open>The loops\<close>

lemma dup_loop_new: "named s ts \<Longrightarrow> ps_cmd_str c = Some nm \<Longrightarrow> nm \<notin> set (names s ts) \<Longrightarrow> dup_loop s c ts i = Inr None"
  by (induction s c ts i rule: dup_loop.induct) (auto simp: name_of_def)

text \<open>The new table comes before the first one whose name \<open>lt\<close> tells to be behind its own.\<close>

definition put :: "(string \<Rightarrow> string \<Rightarrow> bool) \<Rightarrow> cli \<Rightarrow> string \<Rightarrow> eptr \<times> 64 Word.word \<Rightarrow> (eptr \<times> 64 Word.word) list
    \<Rightarrow> (eptr \<times> 64 Word.word) list" where
  "put lt s nm x ts = (let p = (\<lambda>y. \<not> lt nm (the (name_of s (fst y)))) in takeWhile p ts @ x # dropWhile p ts)"

lemma put_simps [simp]:
  "put lt s nm x [] = [x]"
  "put lt s nm x (y # ts) = (if lt nm (the (name_of s (fst y))) then x # y # ts else y # put lt s nm x ts)"
  by (simp_all add: put_def Let_def)

lemma insert_loop_put: "named s ts \<Longrightarrow> ps_cmd_str c = Some nm \<Longrightarrow> insert_loop lt s c x ts = Inr (put lt s nm x ts)"
  by (induction lt s c x ts rule: insert_loop.induct) (auto simp: name_of_def)

lemma put_mset: "mset (put lt s nm x ts) = add_mset x (mset ts)"
  by (induction ts) simp_all

lemma put_sorted: "name_of s (fst x) = Some nm \<Longrightarrow> sorted (names s ts) \<Longrightarrow> sorted (names s (put (<) s nm x ts))"
proof (induction ts)
  case (Cons y ts)
  have "set (names s (put (<) s nm x ts)) = insert nm (set (names s ts))"
    using arg_cong [OF put_mset [of "(<)" s nm x ts], of set_mset] Cons.prems(1) by (simp add: names_def image_iff)
  then show ?case using Cons by (auto intro: order_trans less_imp_le)
qed simp

lemma put_split: "\<exists>us vs. put lt s nm x ts = us @ x # vs \<and> ts = us @ vs"
  unfolding put_def Let_def by (metis takeWhile_dropWhile_id)

lemma find_tbl_at:
  "named s us \<Longrightarrow> x \<notin> set us \<Longrightarrow> entry s (fst x) = Some c \<Longrightarrow> find_tbl s c x (us @ x # vs) i = Inr (Some (i + length us))"
  by (induction us arbitrary: i) auto

section \<open>Attaching a new table\<close>

lemma attach_new:
  assumes "entry s t = Some c" "ps_cmd_str c = Some nm" "cat < 3" "length (cli_array s cat) < CLI_MAX_CMD_TBL_NUM"
    and "named s (cli_array s cat)" "nm \<notin> set (names s (cli_array s cat))"
  shows "\<exists>s' us vs. cli_parser_attach_cmd_tbl lt (Some t) cat msk s = Inr (CLIR_OK, s') \<and>
    cli_array s' = (cli_array s)(cat := us @ (t, msk) # vs) \<and> cli_array s cat = us @ vs \<and>
    us @ (t, msk) # vs = (if cat = CLI_CAT_ROOT then cli_array s cat @ [(t, msk)] else put lt s nm (t, msk) (cli_array s cat)) \<and>
    (if cat > CLI_CAT_ROOT \<and> us = [] then s' = set_next_level cat t (set_array cat (us @ (t, msk) # vs) s)
     else s' = set_array cat (us @ (t, msk) # vs) s)"
proof -
  let ?ts = "cli_array s cat"
  have d: "dup_loop s c ?ts 0 = Inr None" by (rule dup_loop_new [OF assms(5,2,6)])
  have x: "(t, msk) \<notin> set ?ts" using assms(1,2,6) by (force simp: names_def name_of_def)
  show ?thesis
  proof (cases "?ts = [] \<or> cat = CLI_CAT_ROOT")
    case True
    then show ?thesis using assms(1-4) d
      by (intro exI [of _ "if ?ts = [] then put_first cat t True [(t, msk)] s else set_array cat (?ts @ [(t, msk)]) s"]
          exI [of _ ?ts] exI [of _ "[]"])
        (auto simp: cli_parser_attach_cmd_tbl_def put_first_def set_array_def set_next_level_def Let_def)
  next
    case False
    obtain us vs where p: "put lt s nm (t, msk) ?ts = us @ (t, msk) # vs" "?ts = us @ vs" using put_split by blast
    have "(us @ (t, msk) # vs = (t, msk) # ?ts) = (us = [])" using p(2) x by (cases us) auto
    then show ?thesis using False assms(1-4) d p insert_loop_put [OF assms(5,2), of lt "(t, msk)"]
      by (intro exI [of _ "put_first cat t (us = []) (us @ (t, msk) # vs) s"] exI [of _ us] exI [of _ vs])
        (auto simp: cli_parser_attach_cmd_tbl_def put_first_def set_array_def set_next_level_def Let_def)
  qed
qed

section \<open>Detaching\<close>

lemma entry_set_next_level:
  assumes "entry s e = Some c"
  shows "\<exists>d. entry (set_next_level cat t s) e = Some d \<and> ps_cmd_str d = ps_cmd_str c \<and> ps_cmd_abbr_str d = ps_cmd_abbr_str c"
  using assms by (auto simp: entry_def set_next_level_def Let_def nth_Cons split: option.splits list.splits nat.splits if_splits)

lemma named_cong:
  assumes "\<And>e c. entry s e = Some c \<Longrightarrow> \<exists>d. entry s' e = Some d \<and> ps_cmd_str d = ps_cmd_str c"
  shows "named s us \<Longrightarrow> named s' us"
proof (induction us)
  case (Cons x us)
  then show ?case using assms [of "fst x"] by fastforce
qed simp

lemma detach_at:
  assumes "entry s t = Some c" "ps_cmd_str c \<noteq> None" "cat < 3" "cli_array s cat = us @ (t, msk) # vs" "named s us" "(t, msk) \<notin> set us"
  shows "cli_parser_detach_cmd_tbl (Some t) cat msk s = Inr (CLIR_OK, set_array cat (us @ vs) s)"
  using assms find_tbl_at [of s us "(t, msk)" c vs 0] by (simp add: cli_parser_detach_cmd_tbl_def)

lemma attach_detach:
  assumes "entry s t = Some c" "ps_cmd_str c = Some nm" "cat < 3" "length (cli_array s cat) < CLI_MAX_CMD_TBL_NUM"
    and "named s (cli_array s cat)" "nm \<notin> set (names s (cli_array s cat))"
  shows "\<exists>s1 s2. cli_parser_attach_cmd_tbl lt (Some t) cat msk s = Inr (CLIR_OK, s1) \<and>
    cli_parser_detach_cmd_tbl (Some t) cat msk s1 = Inr (CLIR_OK, s2) \<and> cli_array s2 = cli_array s \<and> cli_tbls s2 = cli_tbls s1 \<and>
    (cli_array s cat = [] \<and> cat > CLI_CAT_ROOT \<longrightarrow> cli_tbls s1 = cli_tbls (set_next_level cat t s))"
proof -
  obtain s1 us vs where s1: "cli_parser_attach_cmd_tbl lt (Some t) cat msk s = Inr (CLIR_OK, s1)"
    "cli_array s1 = (cli_array s)(cat := us @ (t, msk) # vs)" "cli_array s cat = us @ vs"
    "if cat > CLI_CAT_ROOT \<and> us = [] then s1 = set_next_level cat t (set_array cat (us @ (t, msk) # vs) s)
     else s1 = set_array cat (us @ (t, msk) # vs) s"
    using attach_new [OF assms, of lt msk] by blast
  let ?s = "set_array cat (us @ (t, msk) # vs) s"
  have e: "entry ?s = entry s" by (intro ext) (simp add: entry_def set_array_def)
  have same: "\<exists>d. entry s1 e = Some d \<and> ps_cmd_str d = ps_cmd_str a" if "entry s e = Some a" for e a
  proof (cases "cat > CLI_CAT_ROOT \<and> us = []")
    case True
    then show ?thesis using s1(4) entry_set_next_level [of ?s e a cat t] that e by auto
  next
    case False
    then have "s1 = ?s" using s1(4) by auto
    then show ?thesis using that e by simp
  qed
  obtain c1 where c1: "entry s1 t = Some c1" "ps_cmd_str c1 \<noteq> None" using same [OF assms(1)] assms(2) by auto
  have "named s us" using assms(5) s1(3) by simp
  with same have n: "named s1 us" by (intro named_cong [of s s1])
  have x: "(t, msk) \<notin> set us" using assms(1,2,6) s1(3) by (force simp: names_def name_of_def)
  have a: "cli_array s1 cat = us @ (t, msk) # vs" using s1(2) by simp
  have "cli_array s cat = [] \<and> cat > CLI_CAT_ROOT \<longrightarrow> cli_tbls s1 = cli_tbls (set_next_level cat t s)"
    using s1(3,4) by (auto simp: set_next_level_def set_array_def Let_def)
  then show ?thesis using s1(1-3) detach_at [OF c1 assms(3) a n x] by (auto simp: set_array_def)
qed

section \<open>An empty state\<close>

definition cli0 :: cli where
  "cli0 = \<lparr>cli_tbls = Map.empty, cli_array = (\<lambda>_. []), apt_dir_link = replicate 8 (0, 0), ui4_dir_link_idx = 0, pt_cur_cmd_tbl = None,
     b_is_cmd_tbl = False, ps_prompt = [], ui4_disable_print = 0, cli_out = [], cli_system = []\<rparr>"

definition cli_os :: cli where
  "cli_os = cli0\<lparr>cli_tbls := [at_app_cmd_tbl \<mapsto> category_tbl ''app'' ''Application'' None,
       8 \<mapsto> category_tbl ''timer'' ''Timers'' None, 9 \<mapsto> category_tbl ''os'' ''OS'' None],
     cli_array := (\<lambda>_. [])(CLI_CAT_APP := [((8, 0), 0)])\<rparr>"

lemma cli_os_facts:
  "entry cli_os (9, 0) = Some (category_tbl ''os'' ''OS'' None ! 0)" "ps_cmd_str (category_tbl ''os'' ''OS'' None ! 0) = Some ''os''"
  "cli_array cli_os CLI_CAT_APP = [((8, 0), 0)]" "cli_array cli_os CLI_CAT_MW = []" "name_of cli_os (8, 0) = Some ''timer''"
  "name_of cli_os (9, 0) = Some ''os''" "named cli_os [((8, 0), 0)]"
  by (simp_all add: cli_os_def cli0_def entry_def category_tbl_def name_of_def)

section \<open>Properties\<close>

text \<open>Attaching to a category keeps the order: when \<open>strcmp\<close> returns -1 for a smaller string, a table of a new name
  is put among the tables of the category so that their names stay sorted, and the others stay as they are.\<close>

theorem cli_attach_sorted:
  assumes "\<And>a b. strcmp a b = (-1::int) \<longleftrightarrow> a < b"
    and "entry s t = Some c" "ps_cmd_str c = Some nm" "0 < cat" "cat < 3" "length (cli_array s cat) < CLI_MAX_CMD_TBL_NUM"
    and "named s (cli_array s cat)" "nm \<notin> set (names s (cli_array s cat))" "sorted (names s (cli_array s cat))"
  shows "\<exists>s'. cli_parser_attach_cmd_tbl (\<lambda>a b. strcmp a b = -1) (Some t) cat msk s = Inr (CLIR_OK, s') \<and>
    mset (cli_array s' cat) = add_mset (t, msk) (mset (cli_array s cat)) \<and> sorted (names s (cli_array s' cat))"
proof -
  have lt: "(\<lambda>a b. strcmp a b = -1) = (<)" using assms(1) by (intro ext) simp
  obtain s' us vs where s': "cli_parser_attach_cmd_tbl (<) (Some t) cat msk s = Inr (CLIR_OK, s')"
    "cli_array s' = (cli_array s)(cat := us @ (t, msk) # vs)"
    "us @ (t, msk) # vs = (if cat = CLI_CAT_ROOT then cli_array s cat @ [(t, msk)] else put (<) s nm (t, msk) (cli_array s cat))"
    using attach_new [OF assms(2,3,5-8), of "(<)" msk] by blast
  then have "cli_array s' cat = put (<) s nm (t, msk) (cli_array s cat)" using assms(4) by simp
  moreover have "name_of s (fst (t, msk)) = Some nm" using assms(2,3) by (simp add: name_of_def)
  ultimately show ?thesis using s'(1) put_mset put_sorted [OF _ assms(9)] unfolding lt by metis
qed

theorem cli_attach_sorted_witness:
  "\<exists>s'. cli_parser_attach_cmd_tbl (\<lambda>a b. (if a < b then -1 else 1 :: int) = -1) (Some (9, 0)) CLI_CAT_APP 0 cli_os = Inr (CLIR_OK, s') \<and>
    sorted (names cli_os (cli_array s' CLI_CAT_APP))"
  using cli_attach_sorted [of "\<lambda>a b. if a < b then -1 else 1", OF _ cli_os_facts(1,2), of CLI_CAT_APP 0] cli_os_facts(3-7)
  by fastforce

text \<open>Only -1 counts: with a \<open>strcmp\<close> that returns another negative number for a smaller string, which the standard
  allows, every table of a new name is put at the end.\<close>

theorem cli_attach_appends:
  assumes "\<And>a b. strcmp a b \<noteq> (-1::int)"
    and "entry s t = Some c" "ps_cmd_str c = Some nm" "cat < 3" "length (cli_array s cat) < CLI_MAX_CMD_TBL_NUM"
    and "named s (cli_array s cat)" "nm \<notin> set (names s (cli_array s cat))"
  shows "\<exists>s'. cli_parser_attach_cmd_tbl (\<lambda>a b. strcmp a b = -1) (Some t) cat msk s = Inr (CLIR_OK, s') \<and>
    cli_array s' cat = cli_array s cat @ [(t, msk)]"
proof -
  let ?lt = "\<lambda>a b. strcmp a b = -1"
  have "put ?lt s nm x ts = ts @ [x]" for x ts using assms(1) by (induction ts) simp_all
  moreover obtain s' us vs where "cli_parser_attach_cmd_tbl ?lt (Some t) cat msk s = Inr (CLIR_OK, s')"
    "cli_array s' = (cli_array s)(cat := us @ (t, msk) # vs)"
    "us @ (t, msk) # vs = (if cat = CLI_CAT_ROOT then cli_array s cat @ [(t, msk)] else put ?lt s nm (t, msk) (cli_array s cat))"
    using attach_new [OF assms(2-7), of ?lt msk] by blast
  ultimately show ?thesis by (cases "cat = CLI_CAT_ROOT") auto
qed

theorem cli_attach_appends_witness:
  "\<exists>s'. cli_parser_attach_cmd_tbl (\<lambda>a b. (if a < b then -5 else 0 :: int) = -1) (Some (9, 0)) CLI_CAT_APP 0 cli_os = Inr (CLIR_OK, s') \<and>
    names cli_os (cli_array s' CLI_CAT_APP) = [''timer'', ''os'']"
proof -
  let ?cmp = "\<lambda>a b. if a < b then -5 else 0 :: int"
  have "\<And>a b. ?cmp a b \<noteq> -1" by simp
  from cli_attach_appends [of ?cmp, OF this cli_os_facts(1,2), of CLI_CAT_APP 0]
  obtain s' where "cli_parser_attach_cmd_tbl (\<lambda>a b. ?cmp a b = -1) (Some (9, 0)) CLI_CAT_APP 0 cli_os = Inr (CLIR_OK, s')"
    "cli_array s' CLI_CAT_APP = [((8, 0), 0), ((9, 0), 0)]" using cli_os_facts(3-7) by auto
  then show ?thesis using cli_os_facts(5,6) by (intro exI [of _ s']) simp
qed

text \<open>Detaching a table that was attached under a new name gives the lists of tables back as they were, but when the
  category was empty the entry of the category in the root keeps its next level, the detached table.\<close>

theorem cli_attach_detach:
  assumes "entry s t = Some c" "ps_cmd_str c = Some nm" "cat < 3" "length (cli_array s cat) < CLI_MAX_CMD_TBL_NUM"
    and "named s (cli_array s cat)" "nm \<notin> set (names s (cli_array s cat))"
  shows "\<exists>s1 s2. cli_parser_attach_cmd_tbl lt (Some t) cat msk s = Inr (CLIR_OK, s1) \<and>
    cli_parser_detach_cmd_tbl (Some t) cat msk s1 = Inr (CLIR_OK, s2) \<and> cli_array s2 = cli_array s \<and>
    (cli_array s cat = [] \<and> cat > CLI_CAT_ROOT \<longrightarrow> cli_tbls s2 = cli_tbls (set_next_level cat t s))"
  using attach_detach [OF assms, of lt msk] by auto

theorem cli_attach_detach_witness:
  "\<exists>s1 s2. cli_parser_attach_cmd_tbl (\<lambda>a b. False) (Some (9, 0)) CLI_CAT_MW 0 cli_os = Inr (CLIR_OK, s1) \<and>
    cli_parser_detach_cmd_tbl (Some (9, 0)) CLI_CAT_MW 0 s1 = Inr (CLIR_OK, s2) \<and> cli_array s2 CLI_CAT_MW = []"
  using cli_attach_detach [OF cli_os_facts(1,2), of CLI_CAT_MW "\<lambda>a b. False" 0] cli_os_facts(4) by fastforce

text \<open>Which help texts leave the buffer of 128 characters without its terminating zero: those of at least 104
  characters that still pass the check of the length.\<close>

theorem cli_help_unterminated:
  "format_help_str MAX_STR_LEN (Some m) abbr (Some x) = Some None \<longleftrightarrow>
    104 \<le> length x \<and> length m + (case abbr of None \<Rightarrow> 0 | Some b \<Rightarrow> length b) + length x \<le> 125"
  by (auto simp: format_help_str_def Let_def split: option.splits)

end
