(* ===== verification/CliProps.thy ===== *)
theory CliProps
  imports CliAttach
begin

text \<open>Moving about in the command tables, and the properties of the commands of cli/cli_parser.c.\<close>

section \<open>Moving\<close>

lemma dir_names_total: "tables_ok s \<Longrightarrow> \<forall>e\<in>set es. valid_entry s e \<Longrightarrow> \<exists>ns. dir_names s es = Inr ns"
proof (induction es)
  case (Cons e es)
  then obtain ns where ns: "dir_names s es = Inr ns" by auto
  obtain c where c: "entry s e = Some c" "entry_ok s c" using valid_entryD [OF Cons.prems(1), of e] Cons.prems(2) by auto
  then show ?case using ns by (cases "ps_cmd_abbr_str c"; cases "ps_cmd_str c") (auto simp: entry_ok_def)
qed simp

definition links_ok :: "cli \<Rightarrow> bool" where
  "links_ok s \<longleftrightarrow> length (apt_dir_link s) = CLI_MAX_CMD_TBL_LEVEL \<and> ui4_dir_link_idx s < CLI_MAX_CMD_TBL_LEVEL \<and>
     (\<forall>i. 0 < i \<longrightarrow> i \<le> ui4_dir_link_idx s \<longrightarrow> valid_entry s (apt_dir_link s ! i))"

lemma nav_ok_links: "nav_ok s \<Longrightarrow> links_ok s"
  by (simp add: nav_ok_def links_ok_def)

lemma generate_prompt_total:
  assumes "tables_ok s" "links_ok s"
  shows "\<exists>p. generate_prompt s = Inr (s\<lparr>ps_prompt := p\<rparr>)"
proof -
  have "\<forall>e\<in>set (take (ui4_dir_link_idx s) (tl (apt_dir_link s))). valid_entry s e"
  proof
    fix e assume "e \<in> set (take (ui4_dir_link_idx s) (tl (apt_dir_link s)))"
    then obtain i where i: "i < ui4_dir_link_idx s" "i < length (tl (apt_dir_link s))" "e = tl (apt_dir_link s) ! i"
      by (auto simp: in_set_conv_nth)
    then have "e = apt_dir_link s ! Suc i" by (simp add: nth_tl)
    then show "valid_entry s e" using assms(2) i(1) by (simp add: links_ok_def)
  qed
  then obtain ns where "dir_names s (take (ui4_dir_link_idx s) (tl (apt_dir_link s))) = Inr ns" using dir_names_total [OF assms(1)] by blast
  then show ?thesis by (auto simp: generate_prompt_def)
qed

lemma nav_prompt [simp]: "nav (s\<lparr>ps_prompt := p\<rparr>) = nav s"
  by (simp add: nav_def)

lemma prompt_and_help_total:
  assumes "tables_ok s" "nav_ok s"
  shows "\<exists>s'. prompt_and_help s = Inr s' \<and> nav s' = nav s"
proof -
  obtain p where p: "generate_prompt s = Inr (s\<lparr>ps_prompt := p\<rparr>)" using generate_prompt_total [OF assms(1) nav_ok_links [OF assms(2)]] by blast
  let ?s = "s\<lparr>ps_prompt := p\<rparr>"
  have "tables_ok ?s" "nav_ok ?s" using assms nav_cong [of ?s s] by simp_all
  then obtain ls where "show_help (pt_cur_cmd_tbl ?s) ?s = Inr (print ls ?s)" using show_help_total nav_ok_cur by blast
  then show ?thesis using p by (simp add: prompt_and_help_def)
qed

lemma enter_dir_total:
  assumes "tables_ok s" "valid_entry s e"
  shows "\<exists>cur b. enter_dir e s = Inr (s\<lparr>pt_cur_cmd_tbl := cur, b_is_cmd_tbl := b\<rparr>) \<and> at_dir (s\<lparr>pt_cur_cmd_tbl := cur, b_is_cmd_tbl := b\<rparr>) e"
proof -
  obtain c where c: "entry s e = Some c" "entry_ok s c" by (rule valid_entryD [OF assms])
  have f: "entry (s\<lparr>pt_cur_cmd_tbl := cur, b_is_cmd_tbl := b\<rparr>) e = entry s e" for cur b by (simp add: entry_def)
  have g: "is_cmd_tbl_array (s\<lparr>pt_cur_cmd_tbl := cur, b_is_cmd_tbl := b\<rparr>) (Some e) = is_cmd_tbl_array s (Some e)" for cur b
    by (simp add: is_cmd_tbl_array_def f)
  obtain arr where "is_cmd_tbl_array s (Some e) = Inr arr" using c by (auto simp: is_cmd_tbl_array_def entry_ok_def)
  then show ?thesis using c(1) by (cases arr) (auto simp: enter_dir_def at_dir_def f g)
qed

definition same_tbls :: "cli \<Rightarrow> cli \<Rightarrow> bool" where
  "same_tbls s s' \<longleftrightarrow> cli_tbls s' = cli_tbls s \<and> cli_array s' = cli_array s"

lemma same_tblsD:
  assumes "same_tbls s s'"
  shows "tables_ok s' = tables_ok s" "valid_entry s' = valid_entry s" "entry s' = entry s"
proof -
  show "tables_ok s' = tables_ok s" using assms by (intro tables_ok_cong) (simp_all add: same_tbls_def)
  show "valid_entry s' = valid_entry s" using assms by (intro ext) (simp add: valid_entry_def same_tbls_def)
  show "entry s' = entry s" using assms by (intro ext) (simp add: entry_def same_tbls_def)
qed

lemma nav_same: "nav s' = nav s \<Longrightarrow> same_tbls s0 s \<Longrightarrow> same_tbls s0 s'"
  by (simp add: nav_def same_tbls_def)

lemma root_dir_ok: "nav_ok s \<Longrightarrow> nav_ok (root_dir s) \<and> same_tbls s (root_dir s)"
  by (simp add: nav_ok_def root_dir_def same_tbls_def)

lemma go_up_total:
  assumes "tables_ok s" "nav_ok s"
  shows "\<exists>s'. go_up s = Inr s' \<and> nav_ok s' \<and> same_tbls s s' \<and> ui4_dir_link_idx s' = ui4_dir_link_idx s - 1 \<and> apt_dir_link s' = apt_dir_link s"
proof (cases "ui4_dir_link_idx s \<le> 1")
  case True
  show ?thesis
  proof (cases "ui4_dir_link_idx s = 0")
    case True
    then show ?thesis using assms by (intro exI [of _ s]) (simp add: go_up_def same_tbls_def)
  next
    case False
    then have 1: "ui4_dir_link_idx s = 1" using True by simp
    have r: "nav_ok (root_dir s)" "same_tbls s (root_dir s)" using root_dir_ok [OF assms(2)] by simp_all
    then obtain s' where s': "prompt_and_help (root_dir s) = Inr s'" "nav s' = nav (root_dir s)"
      using prompt_and_help_total same_tblsD(1) [OF r(2)] assms(1) by blast
    then show ?thesis using 1 r nav_cong(1) [OF s'(2)] nav_same [OF s'(2) r(2)] by (simp add: go_up_def nav_def root_dir_def)
  qed
next
  case False
  let ?i = "ui4_dir_link_idx s - 1"
  let ?s = "s\<lparr>ui4_dir_link_idx := ?i\<rparr>"
  let ?e = "apt_dir_link s ! ?i"
  have st: "same_tbls s ?s" by (simp add: same_tbls_def)
  have "valid_entry ?s ?e" using assms(2) False unfolding same_tblsD(2) [OF st] by (simp add: nav_ok_def)
  then obtain cur b where e: "enter_dir ?e ?s = Inr (?s\<lparr>pt_cur_cmd_tbl := cur, b_is_cmd_tbl := b\<rparr>)" "at_dir (?s\<lparr>pt_cur_cmd_tbl := cur, b_is_cmd_tbl := b\<rparr>) ?e"
    using enter_dir_total [of ?s ?e] same_tblsD(1) [OF st] assms(1) by blast
  let ?t = "?s\<lparr>pt_cur_cmd_tbl := cur, b_is_cmd_tbl := b\<rparr>"
  have tt: "same_tbls s ?t" by (simp add: same_tbls_def)
  have "ui4_dir_link_idx s < 8" using assms(2) by (simp add: nav_ok_def)
  then have "?i < 8" by linarith
  then have "nav_ok ?t" using assms(2) False e(2) unfolding nav_ok_def same_tblsD(2) [OF tt] by simp
  moreover obtain s' where s': "prompt_and_help ?t = Inr s'" "nav s' = nav ?t"
    using prompt_and_help_total [of ?t] calculation same_tblsD(1) [OF tt] assms(1) by blast
  ultimately show ?thesis using False e(1) nav_cong(1) [OF s'(2)] nav_same [OF s'(2) tt] by (simp add: go_up_def Let_def nav_def)
qed

lemma go_down_total:
  assumes "tables_ok s" "nav_ok s" "valid_entry s e"
  shows "\<exists>s'. go_down e s = Inr s' \<and> nav_ok s' \<and> same_tbls s s' \<and>
    (ui4_dir_link_idx s < 7 \<longrightarrow> ui4_dir_link_idx s' = ui4_dir_link_idx s + 1 \<and> apt_dir_link s' = (apt_dir_link s)[ui4_dir_link_idx s + 1 := e])"
proof (cases "ui4_dir_link_idx s < 7")
  case False
  have r: "nav_ok (root_dir s)" "same_tbls s (root_dir s)" using root_dir_ok [OF assms(2)] by simp_all
  then obtain s' where s': "prompt_and_help (root_dir s) = Inr s'" "nav s' = nav (root_dir s)"
    using prompt_and_help_total same_tblsD(1) [OF r(2)] assms(1) by blast
  then show ?thesis using False r nav_cong(1) [OF s'(2)] nav_same [OF s'(2) r(2)] by (simp add: go_down_def)
next
  case True
  let ?i = "ui4_dir_link_idx s + 1"
  let ?s = "s\<lparr>ui4_dir_link_idx := ?i, apt_dir_link := (apt_dir_link s)[?i := e]\<rparr>"
  have st: "same_tbls s ?s" by (simp add: same_tbls_def)
  have l: "links_ok ?s" using assms(2,3) True unfolding links_ok_def nav_ok_def same_tblsD(2) [OF st] by (auto simp: nth_list_update)
  then obtain p where p: "generate_prompt ?s = Inr (?s\<lparr>ps_prompt := p\<rparr>)" using generate_prompt_total same_tblsD(1) [OF st] assms(1) by blast
  let ?t = "?s\<lparr>ps_prompt := p\<rparr>"
  have tt: "same_tbls s ?t" by (simp add: same_tbls_def)
  obtain cur b where e: "enter_dir e ?t = Inr (?t\<lparr>pt_cur_cmd_tbl := cur, b_is_cmd_tbl := b\<rparr>)" "at_dir (?t\<lparr>pt_cur_cmd_tbl := cur, b_is_cmd_tbl := b\<rparr>) e"
    using enter_dir_total [of ?t e] same_tblsD [OF tt] assms(1,3) by auto
  let ?u = "?t\<lparr>pt_cur_cmd_tbl := cur, b_is_cmd_tbl := b\<rparr>"
  have uu: "same_tbls s ?u" by (simp add: same_tbls_def)
  have n: "nav_ok ?u" using l e(2) assms(2) True unfolding nav_ok_def links_ok_def same_tblsD(2) [OF st] same_tblsD(2) [OF uu] by simp
  obtain ls where h: "show_help (pt_cur_cmd_tbl ?u) ?u = Inr (print ls ?u)"
    using show_help_total [of ?u] nav_ok_cur [of ?u] n same_tblsD(1) [OF uu] assms(1) by blast
  have "nav (print ls ?u) = nav ?u" by simp
  from nav_cong(1) [OF this] nav_same [OF this uu] show ?thesis using True p e(1) h n
    by (simp add: go_down_def Let_def print_def)
qed

lemma find_dir_total:
  assumes "tables_ok s" "nav_ok s"
  shows "\<exists>r. find_dir ps s = Inr r \<and> (\<forall>e. r = Some e \<longrightarrow> valid_entry s e)"
proof -
  have c: "cur_ok s (b_is_cmd_tbl s) (pt_cur_cmd_tbl s)" by (rule nav_ok_cur [OF assms])
  show ?thesis
  proof (cases "b_is_cmd_tbl s")
    case True
    then have "case pt_cur_cmd_tbl s of None \<Rightarrow> True | Some e \<Rightarrow> valid_tbl s e" using c by (cases "pt_cur_cmd_tbl s") (simp_all add: cur_ok_def)
    from search_tbl_total [OF this, of ps] show ?thesis using True by (simp add: find_dir_def)
  next
    case False
    then have "case pt_cur_cmd_tbl s of None \<Rightarrow> True | Some e \<Rightarrow> valid_entry s e" using c by (cases "pt_cur_cmd_tbl s") (simp_all add: cur_ok_def)
    then obtain ts where ts: "get_cmd_tbl_array s (pt_cur_cmd_tbl s) True = Inr ts" "\<forall>t\<in>set ts. valid_tbl s t" using get_array_total [OF assms(1)] by blast
    from search_all_total [OF ts(2), of ps] show ?thesis using False ts(1) by (simp add: find_dir_def)
  qed
qed

lemma rest_of_shorter: "ps \<noteq> [] \<Longrightarrow> hd ps \<noteq> ASCII_KEY_DOT \<Longrightarrow> length (tl (rest_of ps)) < length ps"
  by (cases ps) (auto simp: rest_of_def le_imp_less_Suc length_dropWhile_le intro: le_less_trans [OF diff_le_self])

lemma cd_step_total:
  assumes "tables_ok s" "nav_ok s" "ps \<noteq> []"
  shows "\<exists>r ps' s'. cd_step ps s = Inr (r, ps', s') \<and> nav_ok s' \<and> same_tbls s s' \<and> (r = None \<longrightarrow> length ps' < length ps) \<and>
    (r = None \<or> r = Some CLIR_DIR_NOT_FOUND)"
proof -
  have s: "same_tbls s s" by (simp add: same_tbls_def)
  show ?thesis
  proof (cases "hd ps = ASCII_KEY_DOT")
    case True
    obtain s' where "go_up s = Inr s'" "nav_ok s'" "same_tbls s s'" using go_up_total [OF assms(1,2)] by blast
    then show ?thesis using True assms s by (cases ps; cases "tl ps") (auto simp: cd_step_def)
  next
    case nd: False
    show ?thesis
    proof (cases "hd ps = ASCII_KEY_ROOT")
      case True
      have r: "nav_ok (root_dir s)" "same_tbls s (root_dir s)" using root_dir_ok [OF assms(2)] by simp_all
      then obtain s' where s': "prompt_and_help (root_dir s) = Inr s'" "nav s' = nav (root_dir s)"
        using prompt_and_help_total same_tblsD(1) [OF r(2)] assms(1) by blast
      then show ?thesis using nd True assms(3) nav_cong(1) [OF s'(2)] nav_same [OF s'(2) r(2)] r(1) by (simp add: cd_step_def)
    next
      case False
      obtain r where r: "find_dir ps s = Inr r" "\<forall>e. r = Some e \<longrightarrow> valid_entry s e" using find_dir_total [OF assms(1,2)] by blast
      show ?thesis
      proof (cases r)
        case None
        then show ?thesis using nd False r(1) assms(2) s by (simp add: cd_step_def)
      next
        case (Some e)
        then have v: "valid_entry s e" using r(2) by simp
        obtain c where "entry s e = Some c" by (rule valid_entryD [OF assms(1) v])
        moreover obtain s' where "go_down e s = Inr s'" "nav_ok s'" "same_tbls s s'" using go_down_total [OF assms(1,2) v] by blast
        ultimately show ?thesis using nd False r(1) Some assms(2) s rest_of_shorter [OF assms(3) nd]
          by (cases "pt_next_level c = None") (simp_all add: cd_step_def)
      qed
    qed
  qed
qed

lemma cd_loop_total:
  assumes "tables_ok s" "nav_ok s"
  shows "\<exists>r s'. cd_loop ps s = Some (Inr (r, s')) \<and> nav_ok s' \<and> same_tbls s s' \<and> (r = CLIR_OK \<or> r = CLIR_DIR_NOT_FOUND)"
  using assms
proof (induction "length ps" arbitrary: ps s rule: less_induct)
  case less
  show ?case
  proof (cases "ps = []")
    case True
    then show ?thesis using less.prems by (subst cd_loop.simps) (simp add: same_tbls_def)
  next
    case False
    obtain r ps' s' where st: "cd_step ps s = Inr (r, ps', s')" "nav_ok s'" "same_tbls s s'" "r = None \<longrightarrow> length ps' < length ps"
      "r = None \<or> r = Some CLIR_DIR_NOT_FOUND"
      using cd_step_total [OF less.prems False] by blast
    show ?thesis
    proof (cases r)
      case (Some i)
      then show ?thesis using st False by (subst cd_loop.simps) simp
    next
      case None
      have "tables_ok s'" using same_tblsD(1) [OF st(3)] less.prems(1) by simp
      then obtain r' s'' where "cd_loop ps' s' = Some (Inr (r', s''))" "nav_ok s''" "same_tbls s' s''" "r' = CLIR_OK \<or> r' = CLIR_DIR_NOT_FOUND"
        using less.hyps [of ps' s'] st(2,4) None by blast
      then show ?thesis using st None False by (subst cd_loop.simps) (auto simp: same_tbls_def)
    qed
  qed
qed

section \<open>The start\<close>

definition cli_start :: cli where
  "cli_start = cli0\<lparr>ps_prompt := ''Command>'',
     cli_array := (\<lambda>_. [])(0 := [((at_mandatory_cmd_tbl, 0), 0), ((at_app_cmd_tbl, 0), 0), ((at_mw_cmd_tbl, 0), 0), ((at_uart_root_cmd_table, 0), 0)]),
     cli_tbls := [at_mandatory_cmd_tbl \<mapsto> mandatory_tbl, at_app_cmd_tbl \<mapsto> category_tbl ''app'' ''Application'' None,
       at_mw_cmd_tbl \<mapsto> category_tbl ''mw'' ''Middleware'' None, at_uart_root_cmd_table \<mapsto> uart_tbl]\<rparr>"

lemma cli_start_clear: "cli_parser_clear_cmd_tbl lt cli0 = Inr (CLIR_OK, cli_start)"
  by (simp add: cli_parser_clear_cmd_tbl_def cli_parser_attach_cmd_tbl_def cli_clear_def cli0_def cli_start_def entry_def
    mandatory_tbl_def category_tbl_def uart_tbl_def put_first_def set_array_def cli_set_cli_prompt_def cli_parser_init_def fun_eq_iff)

lemma cli_start_ok: "nav_ok cli_start" "tables_ok cli_start"
  by (auto simp: nav_ok_def tables_ok_def cli_start_def cli0_def entry_ok_def valid_tbl_def mandatory_tbl_def category_tbl_def uart_tbl_def
    split: if_splits)

text \<open>An application attaches a table.\<close>

definition app_tbl :: "cmd list" where
  "app_tbl = [\<lparr>ps_cmd_str = Some ''timer'', ps_cmd_abbr_str = None, pf_exec_fct = NULL, pt_next_level = Some (9, 0),
     ps_cmd_help_str = Some ''Timers'', e_access_right = CLI_GUEST\<rparr>]"

definition cli_demo0 :: cli where
  "cli_demo0 = cli_start\<lparr>cli_tbls := (cli_tbls cli_start)(8 \<mapsto> app_tbl, 9 \<mapsto> [])\<rparr>"

lemma cli_demo0_ok: "nav_ok cli_demo0" "tables_ok cli_demo0" "entry cli_demo0 (8, 0) = Some (app_tbl ! 0)"
  by (auto simp: nav_ok_def tables_ok_def cli_demo0_def cli_start_def cli0_def entry_ok_def valid_tbl_def mandatory_tbl_def category_tbl_def
    uart_tbl_def app_tbl_def entry_def split: if_splits)

text \<open>The table as the directory of an entry of another table.\<close>

definition top_tbl :: "cmd list" where
  "top_tbl = [\<lparr>ps_cmd_str = Some ''os'', ps_cmd_abbr_str = None, pf_exec_fct = NULL, pt_next_level = Some (8, 0),
     ps_cmd_help_str = Some ''OS'', e_access_right = CLI_GUEST\<rparr>]"

definition cli_demo :: cli where
  "cli_demo = cli_demo0\<lparr>apt_dir_link := (replicate 8 (0, 0))[1 := (10, 0)], ui4_dir_link_idx := 1,
     pt_cur_cmd_tbl := Some (8, 0), b_is_cmd_tbl := True,
     cli_tbls := (cli_tbls cli_demo0)(10 \<mapsto> top_tbl)\<rparr>"

lemma cli_demo_ok: "nav_ok cli_demo" "tables_ok cli_demo"
  by (auto simp: nav_ok_def tables_ok_def cli_demo_def cli_demo0_def cli_start_def cli0_def entry_ok_def valid_tbl_def valid_entry_def
    at_dir_def is_cmd_tbl_array_def entry_def mandatory_tbl_def category_tbl_def uart_tbl_def app_tbl_def top_tbl_def nth_list_update
    numeral_2_eq_2 less_Suc_eq_le le_Suc_eq split: if_splits)

section \<open>Properties\<close>

lemma cd_result:
  assumes "tables_ok s" "nav_ok s"
  shows "\<exists>r s'. cli_cmd_change_dir argv s = Inr (r, s') \<and> nav_ok s' \<and> same_tbls s s' \<and> r \<noteq> CLIR_CMD_NOT_FOUND"
proof (cases "length argv = 2")
  case True
  then show ?thesis using cd_loop_total [OF assms, of "argv ! 1"] by (auto simp: cli_cmd_change_dir_def)
next
  case False
  obtain ls where "show_help (pt_cur_cmd_tbl s) s = Inr (print ls s)" using show_help_total [OF assms(1) nav_ok_cur [OF assms]] by blast
  then show ?thesis using False assms(2) nav_cong(1) [OF nav_print] by (simp add: cli_cmd_change_dir_def print_def same_tbls_def)
qed

text \<open>Changing the directory: from a consistent position in well-formed tables, \<open>cd\<close> with any arguments ends
  without a fault in a consistent position, and leaves the tables alone, also when it reports an error after part
  of the path.\<close>

theorem cli_cd_total:
  assumes "tables_ok s" "nav_ok s"
  shows "\<exists>r s'. cli_cmd_change_dir argv s = Inr (r, s') \<and> nav_ok s' \<and> cli_tbls s' = cli_tbls s \<and> cli_array s' = cli_array s"
  using cd_result [OF assms, of argv] by (auto simp: same_tbls_def)

theorem cli_cd_total_witness: "\<exists>r s'. cli_cmd_change_dir [''cd'', ''app.timer/..''] cli_start = Inr (r, s') \<and> nav_ok s'"
  using cli_cd_total [OF cli_start_ok(2,1)] by blast

lemma at_dir_unique:
  "same_tbls s s' \<Longrightarrow> at_dir s e \<Longrightarrow> at_dir s' e \<Longrightarrow> pt_cur_cmd_tbl s' = pt_cur_cmd_tbl s \<and> b_is_cmd_tbl s' = b_is_cmd_tbl s"
proof -
  assume a: "same_tbls s s'" "at_dir s e" "at_dir s' e"
  have "is_cmd_tbl_array s' (Some e) = is_cmd_tbl_array s (Some e)" unfolding is_cmd_tbl_array_def same_tblsD(3) [OF a(1)] ..
  then show ?thesis using a same_tblsD(3) [OF a(1)] by (auto simp: at_dir_def split: sum.splits if_splits option.splits)
qed

text \<open>Going up undoes going down: entering a directory by its name and then \<open>..\<close> comes back to the same place.\<close>

theorem cli_cd_up_undoes:
  assumes "tables_ok s" "nav_ok s" "ui4_dir_link_idx s < 7" "nm \<noteq> []" "ASCII_KEY_DOT \<notin> set nm" "hd nm \<noteq> ASCII_KEY_ROOT"
    and "find_dir nm s = Inr (Some e)" "entry s e = Some c" "pt_next_level c \<noteq> None"
  shows "\<exists>s1 s2. cli_cmd_change_dir [cd, nm] s = Inr (CLIR_OK, s1) \<and> ui4_dir_link_idx s1 = ui4_dir_link_idx s + 1 \<and>
    cli_cmd_change_dir [cd, ''..''] s1 = Inr (CLIR_OK, s2) \<and> ui4_dir_link_idx s2 = ui4_dir_link_idx s \<and>
    pt_cur_cmd_tbl s2 = pt_cur_cmd_tbl s \<and> b_is_cmd_tbl s2 = b_is_cmd_tbl s"
proof -
  obtain r where "find_dir nm s = Inr r" "\<forall>e. r = Some e \<longrightarrow> valid_entry s e" using find_dir_total [OF assms(1,2)] by blast
  then have v: "valid_entry s e" using assms(7) by (metis sum.inject(2))
  have e0: "cd_loop [] t = Some (Inr (CLIR_OK, t))" for t by (subst cd_loop.simps) simp
  obtain s1 where s1: "go_down e s = Inr s1" "nav_ok s1" "same_tbls s s1" "ui4_dir_link_idx s1 = ui4_dir_link_idx s + 1"
    "apt_dir_link s1 = (apt_dir_link s)[ui4_dir_link_idx s + 1 := e]"
    using go_down_total [OF assms(1,2) v] assms(3) by blast
  have "rest_of nm = []" using assms(5) by (auto simp: rest_of_def)
  moreover have "hd nm \<noteq> ASCII_KEY_DOT" using assms(4,5) by (cases nm) auto
  ultimately have "cd_step nm s = Inr (None, [], s1)" using assms(6-9) s1(1) by (simp add: cd_step_def)
  then have 1: "cd_loop nm s = Some (Inr (CLIR_OK, s1))" using assms(4) e0 by (subst cd_loop.simps) simp
  have t1: "tables_ok s1" using same_tblsD(1) [OF s1(3)] assms(1) by simp
  obtain s2 where s2: "go_up s1 = Inr s2" "nav_ok s2" "same_tbls s1 s2" "ui4_dir_link_idx s2 = ui4_dir_link_idx s1 - 1" "apt_dir_link s2 = apt_dir_link s1"
    using go_up_total [OF t1 s1(2)] by blast
  have "cd_step ''..'' s1 = Inr (None, [], s2)" using s2(1) by (simp add: cd_step_def)
  then have 2: "cd_loop ''..'' s1 = Some (Inr (CLIR_OK, s2))" using e0 by (subst cd_loop.simps) simp
  have tt: "same_tbls s s2" using s1(3) s2(3) by (simp add: same_tbls_def)
  have "pt_cur_cmd_tbl s2 = pt_cur_cmd_tbl s \<and> b_is_cmd_tbl s2 = b_is_cmd_tbl s"
  proof (cases "ui4_dir_link_idx s = 0")
    case True
    then show ?thesis using s1(4) s2(2,4) assms(2) by (simp add: nav_ok_def)
  next
    case False
    then have "at_dir s (apt_dir_link s ! ui4_dir_link_idx s)" "at_dir s2 (apt_dir_link s2 ! ui4_dir_link_idx s)"
      using s1(4) s2(2,4) assms(2) by (simp_all add: nav_ok_def)
    then show ?thesis using at_dir_unique [OF tt] s1(5) s2(5) by simp
  qed
  then show ?thesis using 1 2 s1(4) s2(4) by (simp add: cli_cmd_change_dir_def)
qed

theorem cli_cd_up_undoes_witness:
  "\<exists>s1 s2. cli_cmd_change_dir [''cd'', ''timer''] cli_demo = Inr (CLIR_OK, s1) \<and>
    cli_cmd_change_dir [''cd'', ''..''] s1 = Inr (CLIR_OK, s2) \<and> pt_cur_cmd_tbl s2 = Some (8, 0) \<and> b_is_cmd_tbl s2"
proof -
  have e: "find_dir ''timer'' cli_demo = Inr (Some (8, 0))" "entry cli_demo (8, 0) = Some (app_tbl ! 0)"
    by (simp_all add: find_dir_def search_tbl_def cli_demo_def cli_demo0_def app_tbl_def same_str_def dir_of_def entry_def)
  have c: "ui4_dir_link_idx cli_demo < 7" "pt_cur_cmd_tbl cli_demo = Some (8, 0)" "b_is_cmd_tbl cli_demo"
    by (simp_all add: cli_demo_def)
  have n: "pt_next_level (app_tbl ! 0) \<noteq> None" by (simp add: app_tbl_def)
  show ?thesis using cli_cd_up_undoes [OF cli_demo_ok(2,1) c(1) _ _ _ e n, of "''cd''"] c(2,3) by auto
qed

text \<open>A command line \<open>cd\<close> followed by words works in every directory: the parser finds the command in the mandatory
  table, which is the first of the root, and hands it exactly the words.\<close>

theorem cli_cd_anywhere:
  assumes "tables_ok s" "nav_ok s" "cli_array s CLI_CAT_ROOT = ((at_mandatory_cmd_tbl, 0), m) # ts"
    and "cli_tbls s at_mandatory_cmd_tbl = Some mandatory_tbl" "\<forall>w\<in>set ws. word_ok 256 w" "length ws \<le> 63"
  shows "cli_parser other (Some (line (Plain ''cd'' # ws))) s = cli_cmd_change_dir (''cd'' # map content ws) s"
proof -
  have "hd (line (Plain ''cd'' # ws)) = CHR ''c''" by (cases ws) simp_all
  moreover have "word_ok 256 (Plain ''cd'')" by (simp add: IS_PRINTABLE_def IS_SPACE_def)
  ultimately have "args_loop 64 256 [] (line (Plain ''cd'' # ws)) = Some (''cd'' # map content ws)"
    using args_loop_line [of "Plain ''cd'' # ws" 256 "[]" 64 "line (Plain ''cd'' # ws)"] assms(5,6) by simp
  then have a: "find_cmd_argv (Some (line (Plain ''cd'' # ws))) 64 256 = Inr (''cd'' # map content ws)" by (simp add: find_cmd_argv_def)
  have "find_entry s ''cd'' (Some (at_mandatory_cmd_tbl, 0)) = Inr (Some (at_mandatory_cmd_tbl, 0))"
    using assms(4) by (simp add: find_entry_def is_cmd_tbl_array_def entry_def search_tbl_def mandatory_tbl_def same_str_def dir_of_def)
  then have r: "resolve s many ''cd'' (Some (at_mandatory_cmd_tbl, 0)) = Inr (Run fn_change_dir, ''cd'')" for many
    using assms(4) by (subst resolve.simps) (simp add: is_cmd_tbl_array_def entry_def mandatory_tbl_def)
  obtain i s' where c: "cli_cmd_change_dir (''cd'' # map content ws) s = Inr (i, s')" "i \<noteq> CLIR_CMD_NOT_FOUND"
    using cd_result [OF assms(1,2)] by blast
  show ?thesis using assms(3) a r c by (simp add: cli_parser_def parse_cmd_def run_cmd_def)
qed

theorem cli_cd_anywhere_witness:
  "cli_parser (\<lambda>f argv s. Inr (CLIR_OK, s)) (Some ''cd app'') cli_start = cli_cmd_change_dir [''cd'', ''app''] cli_start"
  using cli_cd_anywhere [OF cli_start_ok(2,1), of 0 _ "[Plain ''app'']" "\<lambda>f argv s. Inr (CLIR_OK, s)"]
  by (simp add: cli_start_def IS_PRINTABLE_def IS_SPACE_def)

end
