(* ===== verification/CliInput.thy ===== *)
theory CliInput
  imports CliProps
begin

text \<open>The input of the command line, cli/cli_input.c and cli/cli_cmd.c: the keys of the terminal, the line buffer with
  its history of 16 rows, encrypted commands, and the calls that other modules make.

  A row is the array of its 1028 characters; \<open>CHAR\<close> arithmetic is done on integers, which is the same for the
  printable characters that the keys put into a row.\<close>

section \<open>State\<close>

abbreviation (input) CLI_CMD_BUF_ROW_NUM :: nat where "CLI_CMD_BUF_ROW_NUM \<equiv> 16"
abbreviation (input) ASCII_NULL :: char where "ASCII_NULL \<equiv> CHR 0x00"
abbreviation (input) ASCII_KEY_BS :: char where "ASCII_KEY_BS \<equiv> CHR 0x08"
abbreviation (input) ASCII_KEY_NL :: char where "ASCII_KEY_NL \<equiv> CHR 0x0A"
abbreviation (input) ASCII_KEY_ENTER :: char where "ASCII_KEY_ENTER \<equiv> CHR 0x0D"
abbreviation (input) ASCII_KEY_ESC :: char where "ASCII_KEY_ESC \<equiv> CHR 0x1B"
abbreviation (input) ASCII_KEY_SPACE :: char where "ASCII_KEY_SPACE \<equiv> CHR 0x20"
abbreviation (input) ASCII_KEY_ARROW :: char where "ASCII_KEY_ARROW \<equiv> CHR 0x5B"
abbreviation (input) ASCII_KEY_UP :: char where "ASCII_KEY_UP \<equiv> CHR 0x41"
abbreviation (input) ASCII_KEY_DOWN :: char where "ASCII_KEY_DOWN \<equiv> CHR 0x42"
abbreviation (input) ASCII_KEY_RIGHT :: char where "ASCII_KEY_RIGHT \<equiv> CHR 0x43"
abbreviation (input) ASCII_KEY_LEFT :: char where "ASCII_KEY_LEFT \<equiv> CHR 0x44"
abbreviation (input) CLIR_NOT_INIT :: int where "CLIR_NOT_INIT \<equiv> -1"
abbreviation (input) CLIR_ALREADY_INIT :: int where "CLIR_ALREADY_INIT \<equiv> -2"

record cin =
  in_cli :: cli
  b_cli_init :: bool
  ui4_cli_cmd_buf_row_idx :: nat
  ui4_cli_cmd_buf_ref_row_idx :: nat
  ui4_cli_cmd_buf_idx :: nat
  s_cli_cmd_buf :: "string list"

definition cstr :: "string \<Rightarrow> string" where
  "cstr a = takeWhile (\<lambda>c. c \<noteq> ASCII_NULL) a"

definition say :: "string list \<Rightarrow> cin \<Rightarrow> cin" where
  "say ls s = s\<lparr>in_cli := print ls (in_cli s)\<rparr>"

abbreviation row :: "cin \<Rightarrow> string" where
  "row s \<equiv> s_cli_cmd_buf s ! ui4_cli_cmd_buf_row_idx s"

definition set_row :: "string \<Rightarrow> cin \<Rightarrow> cin" where
  "set_row a s = s\<lparr>s_cli_cmd_buf := (s_cli_cmd_buf s)[ui4_cli_cmd_buf_row_idx s := a]\<rparr>"

section \<open>Encrypted commands\<close>

definition tolower :: "int \<Rightarrow> int" where
  "tolower c = (if 65 \<le> c \<and> c \<le> 90 then c - (65 - 97) else c)"

definition toupper :: "int \<Rightarrow> int" where
  "toupper c = (if 97 \<le> c \<and> c \<le> 122 then c - (97 - 65) else c)"

definition go_back_along_alp :: "int \<Rightarrow> int \<Rightarrow> int" where
  "go_back_along_alp c key = (let key = key mod 46 in if c - key < 45 then 90 - (key - (c - 45 + 1)) else c - key)"

definition is_encrypt_cmd :: "string \<Rightarrow> bool" where
  "is_encrypt_cmd cmd \<longleftrightarrow> cmd \<noteq> [] \<and> hd cmd = CHR ''~''"

definition no_lower :: "int \<Rightarrow> int" where
  "no_lower c = (if 97 \<le> c \<and> c \<le> 122 then c - 38 else c)"

fun decrypt_loop :: "int \<Rightarrow> int list \<Rightarrow> int list" where
  "decrypt_loop key [] = []"
| "decrypt_loop key (c # cs) = tolower (go_back_along_alp (toupper c) key) # decrypt_loop c cs"

definition plain_char :: "int \<Rightarrow> int" where
  "plain_char c = (if c = 45 then 32 else if c = 58 then 95 else c)"

text \<open>The command behind the mark \<open>~\<close>; its last character is the first key.  With no character the length minus one
  is 4294967295, and the loops run out of the buffer.\<close>

definition decrypt_cmd :: "string \<Rightarrow> string result" where
  "decrypt_cmd cmd =
    (if cmd = [] then Inl BadAccess
     else Inr (map (\<lambda>c. char_of (nat (plain_char c)))
       (decrypt_loop (tolower (int (code (last cmd)))) (map (\<lambda>c. no_lower (int (code c))) (butlast cmd)))))"

section \<open>Keys\<close>

definition erase :: "cin \<Rightarrow> cin" where
  "erase s = say [[ASCII_KEY_BS, ASCII_KEY_SPACE, ASCII_KEY_BS]] (s\<lparr>ui4_cli_cmd_buf_idx := ui4_cli_cmd_buf_idx s - 1\<rparr>)"

text \<open>The search for the next row with a command; \<open>d\<close> is 1, or 15 for going back.\<close>

partial_function (option) ref_loop :: "nat \<Rightarrow> string list \<Rightarrow> nat \<Rightarrow> nat \<Rightarrow> nat option" where
  "ref_loop d rows cur r =
    (let r' = (r + d) mod CLI_CMD_BUF_ROW_NUM in
     if r' = cur then Some r' else if rows ! r' ! 0 = ASCII_NULL then ref_loop d rows cur r' else Some r')"

declare ref_loop.simps [code]

definition recall :: "nat \<Rightarrow> cin \<Rightarrow> cin result" where
  "recall d s =
    (let s1 = set_row ((row s)[0 := ASCII_NULL])
           (say (replicate (ui4_cli_cmd_buf_idx s) [ASCII_KEY_BS, ASCII_KEY_SPACE, ASCII_KEY_BS]) s) in
     case ref_loop d (s_cli_cmd_buf s1) (ui4_cli_cmd_buf_row_idx s1) (ui4_cli_cmd_buf_ref_row_idx s1) of
       None \<Rightarrow> Inl Hang
     | Some r \<Rightarrow>
       let a = s_cli_cmd_buf s1 ! r; t = cstr a in
       if ASCII_NULL \<notin> set a then Inl BadAccess
       else Inr (say (map (\<lambda>c. [c]) t) (set_row a (s1\<lparr>ui4_cli_cmd_buf_ref_row_idx := r, ui4_cli_cmd_buf_idx := length t\<rparr>))))"

text \<open>ENTER: the second result tells whether the program ends.\<close>

definition message :: "int \<Rightarrow> string list" where
  "message i =
    (if i = CLIR_CMD_NOT_FOUND then [''Invalid command''] else if i = CLIR_DIR_NOT_FOUND then [''Invalid directory'']
     else if i < CLIR_OK then [''Command execution error''] else [])"

definition decrypted :: "cin \<Rightarrow> cin result" where
  "decrypted s =
    (if is_encrypt_cmd (cstr (row s))
     then then_do (decrypt_cmd (tl (cstr (row s)))) (\<lambda>t.
       Inr (set_row (t @ ASCII_NULL # drop (length t + 1) (row s))
         (s\<lparr>ui4_cli_cmd_buf_idx := (ui4_cli_cmd_buf_idx s + 2 ^ 32 - 2) mod 2 ^ 32\<rparr>)))
     else Inr s)"

definition next_row :: "cin \<Rightarrow> cin" where
  "next_row s =
    (let s1 = (if ui4_cli_cmd_buf_idx s > 0
         then let s' = s\<lparr>ui4_cli_cmd_buf_row_idx := (ui4_cli_cmd_buf_row_idx s + 1) mod CLI_CMD_BUF_ROW_NUM\<rparr>
              in set_row ((row s')[0 := ASCII_NULL]) s'
         else s)
     in s1\<lparr>ui4_cli_cmd_buf_idx := 0, ui4_cli_cmd_buf_ref_row_idx := ui4_cli_cmd_buf_row_idx s1\<rparr>)"

type_synonym others = "fptr \<Rightarrow> string list \<Rightarrow> cli \<Rightarrow> (int \<times> cli) result"

definition enter_key :: "others \<Rightarrow> cin \<Rightarrow> (bool \<times> cin) result" where
  "enter_key other s =
    (if ui4_cli_cmd_buf_idx s \<ge> CLI_CMD_BUF_SIZE then Inl BadAccess
     else then_do (decrypted (say [[]] (set_row ((row s)[ui4_cli_cmd_buf_idx s := ASCII_NULL]) s))) (\<lambda>s1.
       if take 4 (cstr (row s1)) = ''quit'' then Inr (True, say [''Exit cli prog''] s1)
       else then_do (cli_parser other (Some (cstr (row s1))) (in_cli s1)) (\<lambda>(i, c).
         let s2 = next_row (say (message i) (s1\<lparr>in_cli := c\<rparr>)) in Inr (False, say [ps_prompt (in_cli s2)] s2))))"

definition arrow_key :: "char \<Rightarrow> cin \<Rightarrow> cin result" where
  "arrow_key c s =
    (if c = ASCII_KEY_UP then recall 15 s
     else if c = ASCII_KEY_DOWN then recall 1 s
     else if c = ASCII_KEY_LEFT then Inr (if ui4_cli_cmd_buf_idx s > 0 then erase s else s)
     else if c = ASCII_KEY_RIGHT then Inr s
     else Inr (say [[ASCII_NULL]] s))"

definition printable :: "char \<Rightarrow> bool" where
  "printable c \<longleftrightarrow> 0x20 \<le> code c \<and> code c \<le> 0x7E"

definition type_key :: "char \<Rightarrow> cin \<Rightarrow> cin" where
  "type_key c s =
    (if printable c \<and> ui4_cli_cmd_buf_idx s \<noteq> CLI_CMD_BUF_SIZE
     then (set_row ((row s)[ui4_cli_cmd_buf_idx s := c]) s)\<lparr>ui4_cli_cmd_buf_idx := ui4_cli_cmd_buf_idx s + 1\<rparr>
     else s)"

text \<open>The loop of the thread over the keys that come; where they are used up it waits.  The second result tells
  whether it has ended.\<close>

fun input_loop :: "others \<Rightarrow> string \<Rightarrow> cin \<Rightarrow> (bool \<times> cin) result" where
  "input_loop other [] s = Inr (False, s)"
| "input_loop other (c # cs) s =
    (if c = ASCII_KEY_NL \<or> c = ASCII_KEY_ENTER then then_do (enter_key other s) (\<lambda>(e, s'). if e then Inr (True, s') else input_loop other cs s')
     else if c = ASCII_KEY_BS then input_loop other cs (if ui4_cli_cmd_buf_idx s > 0 then erase s else s)
     else if c = ASCII_KEY_ESC then (case cs of
         [] \<Rightarrow> Inr (False, s)
       | a # cs' \<Rightarrow>
         if a = ASCII_KEY_ARROW then (case cs' of
             [] \<Rightarrow> Inr (False, s)
           | k # cs'' \<Rightarrow> then_do (arrow_key k s) (input_loop other cs''))
         else input_loop other cs' s)
     else input_loop other cs (type_key c s))"

definition input_thread :: "others \<Rightarrow> string \<Rightarrow> cin \<Rightarrow> (bool \<times> cin) result" where
  "input_thread other keys s = input_loop other keys (s\<lparr>s_cli_cmd_buf := map (\<lambda>a. a[0 := ASCII_NULL]) (s_cli_cmd_buf s)\<rparr>)"

section \<open>Start\<close>

definition cli_reset :: "cin \<Rightarrow> cin" where
  "cli_reset s = s\<lparr>ui4_cli_cmd_buf_row_idx := 0, ui4_cli_cmd_buf_ref_row_idx := 0, ui4_cli_cmd_buf_idx := 0\<rparr>"

text \<open>\<open>thread_ok\<close> tells whether the thread could be created.\<close>

definition cli_init :: "(string \<Rightarrow> string \<Rightarrow> bool) \<Rightarrow> bool \<Rightarrow> cin \<Rightarrow> (int \<times> cin) result" where
  "cli_init lt thread_ok s =
    (if b_cli_init s then Inr (CLIR_ALREADY_INIT, say [''CLI already init.''] s)
     else then_do (cli_parser_clear_cmd_tbl lt (in_cli s)) (\<lambda>(r, c).
       if r \<noteq> CLIR_OK \<or> \<not> thread_ok then Inl (Aborted 0)
       else Inr (CLIR_OK, (cli_reset s)\<lparr>in_cli := c, b_cli_init := True\<rparr>)))"

definition cli_init_phase1 :: "(string \<Rightarrow> string \<Rightarrow> bool) \<Rightarrow> cin \<Rightarrow> cin result" where
  "cli_init_phase1 lt s = then_do (cli_init lt True s) (\<lambda>(r, s'). Inr s')"

definition cli_init_phase2 :: "others \<Rightarrow> string \<Rightarrow> cin \<Rightarrow> (bool \<times> cin) result" where
  "cli_init_phase2 = input_thread"

section \<open>The calls of other modules\<close>

abbreviation (input) CLIR_NOT_ENABLED :: int where "CLIR_NOT_ENABLED \<equiv> -3"
abbreviation (input) DBG_LEVEL_ERROR :: u16 where "DBG_LEVEL_ERROR \<equiv> 1"
abbreviation (input) DBG_LEVEL_API :: u16 where "DBG_LEVEL_API \<equiv> 2"
abbreviation (input) DBG_LEVEL_INFO :: u16 where "DBG_LEVEL_INFO \<equiv> 4"

text \<open>\<open>enabled\<close> tells whether the program is compiled with \<open>CLI_SUPPORT\<close>.\<close>

definition u_cli_init :: "bool \<Rightarrow> (string \<Rightarrow> string \<Rightarrow> bool) \<Rightarrow> bool \<Rightarrow> cin \<Rightarrow> (int \<times> cin) result" where
  "u_cli_init enabled lt thread_ok s = (if enabled then cli_init lt thread_ok s else Inr (CLIR_NOT_ENABLED, s))"

definition u_cli_attach_cmd_tbl :: "bool \<Rightarrow> (string \<Rightarrow> string \<Rightarrow> bool) \<Rightarrow> eptr option \<Rightarrow> nat \<Rightarrow> 64 Word.word \<Rightarrow> cin \<Rightarrow> (int \<times> cin) result" where
  "u_cli_attach_cmd_tbl enabled lt pt_tbl e_category msk s =
    (if \<not> enabled then Inr (CLIR_NOT_ENABLED, s)
     else if \<not> b_cli_init s then Inr (CLIR_NOT_INIT, s)
     else if pt_tbl = None then Inr (CLIR_INV_ARG, s)
     else then_do (cli_parser_attach_cmd_tbl lt pt_tbl e_category msk (in_cli s)) (\<lambda>(r, c). Inr (r, s\<lparr>in_cli := c\<rparr>)))"

definition u_cli_detach_cmd_tbl :: "bool \<Rightarrow> eptr option \<Rightarrow> nat \<Rightarrow> 64 Word.word \<Rightarrow> cin \<Rightarrow> (int \<times> cin) result" where
  "u_cli_detach_cmd_tbl enabled pt_tbl e_category msk s =
    (if \<not> enabled then Inr (CLIR_NOT_ENABLED, s)
     else if \<not> b_cli_init s then Inr (CLIR_NOT_INIT, s)
     else if pt_tbl = None then Inr (CLIR_INV_ARG, s)
     else then_do (cli_parser_detach_cmd_tbl pt_tbl e_category msk (in_cli s)) (\<lambda>(r, c). Inr (r, s\<lparr>in_cli := c\<rparr>)))"

definition u_cli_parser :: "bool \<Rightarrow> others \<Rightarrow> string option \<Rightarrow> cin \<Rightarrow> (int \<times> cin) result" where
  "u_cli_parser enabled other ps_cmd s =
    (if \<not> enabled then Inr (CLIR_NOT_ENABLED, s)
     else if \<not> b_cli_init s then Inr (CLIR_NOT_INIT, say [''cli is not init''] s)
     else then_do (cli_parser other ps_cmd (in_cli s)) (\<lambda>(r, c). Inr (r, s\<lparr>in_cli := c\<rparr>)))"

text \<open>\<open>text\<close> is the formatted command, which \<open>vsnprintf\<close> cuts to the buffer.\<close>

definition u_cli_parser_arg :: "others \<Rightarrow> string \<Rightarrow> cin \<Rightarrow> (int \<times> cin) result" where
  "u_cli_parser_arg other txt s =
    (if \<not> b_cli_init s then Inr (CLIR_NOT_INIT, s)
     else then_do (cli_parser other (Some (take (CLI_CMD_BUF_SIZE - 1) txt)) (in_cli s)) (\<lambda>(r, c). Inr (r, s\<lparr>in_cli := c\<rparr>)))"

primrec dbg_level_loop :: "string \<Rightarrow> u16 \<Rightarrow> bool \<Rightarrow> u16 \<times> bool" where
  "dbg_level_loop [] l bad = (l, bad)"
| "dbg_level_loop (c # cs) l bad =
    (if c = CHR ''e'' \<or> c = CHR ''E'' then dbg_level_loop cs (l OR DBG_LEVEL_ERROR) bad
     else if c = CHR ''a'' \<or> c = CHR ''A'' then dbg_level_loop cs (l OR DBG_LEVEL_API) bad
     else if c = CHR ''i'' \<or> c = CHR ''I'' then dbg_level_loop cs (l OR DBG_LEVEL_INFO) bad
     else if c = CHR ''n'' \<or> c = CHR ''N'' then dbg_level_loop cs 0 bad
     else dbg_level_loop cs l True)"

text \<open>The return code and what is stored through \<open>pui2_dbg_level\<close>.\<close>

definition u_cli_parse_dbg_level :: "bool \<Rightarrow> string list option \<Rightarrow> u16 option \<Rightarrow> cin \<Rightarrow> int \<times> u16 option" where
  "u_cli_parse_dbg_level enabled pps_argv pui2_dbg_level s =
    (if \<not> enabled then (CLIR_NOT_ENABLED, pui2_dbg_level)
     else if \<not> b_cli_init s then (CLIR_NOT_INIT, pui2_dbg_level)
     else case (pps_argv, pui2_dbg_level) of
       (Some argv, Some v) \<Rightarrow>
         if length argv < 2 then (CLIR_INV_ARG, Some v)
         else let a = argv ! 1 in
           if (CHR ''n'' \<in> set a \<or> CHR ''N'' \<in> set a) \<and> length a > 1 then (CLIR_INV_ARG, Some 0)
           else if a = ''all'' then (CLIR_OK, Some (DBG_LEVEL_ERROR OR DBG_LEVEL_API OR DBG_LEVEL_INFO))
           else (case dbg_level_loop a 0 False of (l, bad) \<Rightarrow> (if bad then CLIR_INV_ARG else CLIR_OK, Some l))
     | _ \<Rightarrow> (CLIR_INV_ARG, pui2_dbg_level))"

definition dbg_level_text :: "u16 \<Rightarrow> string" where
  "dbg_level_text l =
    (let t = (if l AND DBG_LEVEL_ERROR \<noteq> 0 then ''e'' else []) @ (if l AND DBG_LEVEL_API \<noteq> 0 then ''a'' else []) @
       (if l AND DBG_LEVEL_INFO \<noteq> 0 then ''i'' else [])
     in if t = [] then ''none'' else t)"

definition u_cli_show_dbg_level :: "bool \<Rightarrow> u16 \<Rightarrow> cin \<Rightarrow> int \<times> cin" where
  "u_cli_show_dbg_level enabled l s =
    (if \<not> enabled then (CLIR_NOT_ENABLED, s)
     else if \<not> b_cli_init s then (CLIR_NOT_INIT, s)
     else (CLIR_OK, say [''Debug level = '' @ dbg_level_text l] s))"

end
