(* ===== verification/CliInputProps.thy ===== *)
theory CliInputProps
  imports CliInput
begin

text \<open>The properties of the input of the command line: what the keys make of a line, the history, encrypted commands,
  and the debug levels.\<close>

section \<open>Encryption\<close>

text \<open>The characters that an encrypted command can hold, and their places in the ring of 46 codes from 45 on.\<close>

definition alphabet :: "char \<Rightarrow> bool" where
  "alphabet c \<longleftrightarrow> code c = 32 \<or> code c = 95 \<or> 46 \<le> code c \<and> code c \<le> 64 \<and> code c \<noteq> 58 \<or> 97 \<le> code c \<and> code c \<le> 122"

definition ring :: "char \<Rightarrow> int" where
  "ring c = (if code c = 32 then 45 else if code c = 95 then 58 else if 97 \<le> code c then int (code c) - 32 else int (code c))"

fun encrypt_loop :: "int \<Rightarrow> string \<Rightarrow> int list" where
  "encrypt_loop key [] = []"
| "encrypt_loop key (p # ps) = (let c = 45 + (ring p - 45 + key) mod 46 in c # encrypt_loop c ps)"

definition encrypt :: "char \<Rightarrow> string \<Rightarrow> string" where
  "encrypt k text = map (\<lambda>c. char_of (nat c)) (encrypt_loop (tolower (int (code k))) text) @ [k]"

lemma ring_bounds: "alphabet p \<Longrightarrow> 45 \<le> ring p \<and> ring p \<le> 90"
  by (auto simp: alphabet_def ring_def)

lemma char_of_code: "code p = n \<Longrightarrow> char_of n = p"
  by (metis char_of_char)

lemma ring_back: "alphabet p \<Longrightarrow> char_of (nat (plain_char (tolower (ring p)))) = p"
  by (auto simp: alphabet_def ring_def plain_char_def tolower_def char_of_code)

lemma encrypt_loop_bounds: "c \<in> set (encrypt_loop key ps) \<Longrightarrow> 45 \<le> c \<and> c \<le> 90"
proof (induction key ps rule: encrypt_loop.induct)
  case (2 key p ps)
  then show ?case by (auto simp: Let_def)
qed simp

lemma go_back:
  assumes "45 \<le> r" "r \<le> 90"
  shows "go_back_along_alp (45 + (r - 45 + key) mod 46) key = r"
proof -
  define k where "k = key mod 46"
  have k: "0 \<le> k" "k < 46" unfolding k_def by simp_all
  have m: "(r - 45 + key) mod 46 = (r - 45 + k) mod 46" unfolding k_def by (simp add: mod_add_right_eq)
  show ?thesis
  proof (cases "r - 45 + k < 46")
    case True
    then have "(r - 45 + k) mod 46 = r - 45 + k" using assms(1) k(1) by (simp add: mod_pos_pos_trivial)
    then show ?thesis using assms m by (simp add: go_back_along_alp_def Let_def flip: k_def)
  next
    case False
    have "(r - 45 + k) mod 46 = (r - 45 + k - 46) mod 46" using mod_add_self2 [of "r - 45 + k - 46" 46] by (simp add: algebra_simps)
    also have "\<dots> = r - 45 + k - 46" using False assms(2) k(2) by (intro mod_pos_pos_trivial) simp_all
    finally show ?thesis using assms(2) k(2) m by (simp add: go_back_along_alp_def Let_def flip: k_def)
  qed
qed

lemma decrypt_encrypt_loop:
  "\<forall>p\<in>set ps. alphabet p \<Longrightarrow>
    map (\<lambda>c. char_of (nat (plain_char c))) (decrypt_loop key (map no_lower (encrypt_loop key ps))) = ps"
proof (induction key ps rule: encrypt_loop.induct)
  case (2 key p ps)
  let ?c = "45 + (ring p - 45 + key) mod 46"
  have r: "45 \<le> ring p" "ring p \<le> 90" using 2(2) ring_bounds by simp_all
  have c: "45 \<le> ?c" "?c \<le> 90" by simp_all
  then have "no_lower ?c = ?c" "toupper ?c = ?c" by (simp_all add: no_lower_def toupper_def)
  then show ?case using 2(1) [OF refl] 2(2) go_back [OF r] ring_back [of p] by (simp add: Let_def)
qed simp

lemma decrypt_encrypt: "\<forall>p\<in>set text. alphabet p \<Longrightarrow> decrypt_cmd (encrypt k text) = Inr text"
proof -
  assume a: "\<forall>p\<in>set text. alphabet p"
  let ?e = "encrypt_loop (tolower (int (code k))) text"
  have "(\<lambda>c. no_lower (int (code c))) (char_of (nat c)) = no_lower c" if "c \<in> set ?e" for c
    using encrypt_loop_bounds [OF that] by (simp add: nat_less_iff)
  then have "map (\<lambda>c. no_lower (int (code c))) (map (\<lambda>c. char_of (nat c)) ?e) = map no_lower ?e" by simp
  then have b: "map (\<lambda>c. no_lower (int (code c))) (butlast (encrypt k text)) = map no_lower ?e" unfolding encrypt_def butlast_snoc .
  have "encrypt k text \<noteq> []" "last (encrypt k text) = k" by (simp_all add: encrypt_def)
  then show ?thesis using decrypt_encrypt_loop [OF a] by (simp add: decrypt_cmd_def b)
qed

section \<open>Rows\<close>

definition in_ok :: "cin \<Rightarrow> bool" where
  "in_ok s \<longleftrightarrow> length (s_cli_cmd_buf s) = CLI_CMD_BUF_ROW_NUM \<and> (\<forall>a\<in>set (s_cli_cmd_buf s). length a = CLI_CMD_BUF_SIZE) \<and>
     ui4_cli_cmd_buf_row_idx s < CLI_CMD_BUF_ROW_NUM \<and> ui4_cli_cmd_buf_ref_row_idx s < CLI_CMD_BUF_ROW_NUM \<and>
     ui4_cli_cmd_buf_idx s \<le> CLI_CMD_BUF_SIZE \<and> list_all printable (take (ui4_cli_cmd_buf_idx s) (row s)) \<and>
     (\<forall>i < CLI_CMD_BUF_ROW_NUM. i \<noteq> ui4_cli_cmd_buf_row_idx s \<longrightarrow>
       ASCII_NULL \<in> set (s_cli_cmd_buf s ! i) \<and> list_all printable (cstr (s_cli_cmd_buf s ! i)))"

text \<open>The line that stands in the current row so far.\<close>

definition typed :: "cin \<Rightarrow> string" where
  "typed s = take (ui4_cli_cmd_buf_idx s) (row s)"

lemma in_okD:
  assumes "in_ok s"
  shows "length (s_cli_cmd_buf s) = 16" "ui4_cli_cmd_buf_row_idx s < 16" "ui4_cli_cmd_buf_ref_row_idx s < 16" "length (row s) = 1028"
    "ui4_cli_cmd_buf_idx s \<le> 1028" "list_all printable (typed s)" "length (typed s) = ui4_cli_cmd_buf_idx s"
  using assms by (simp_all add: in_ok_def typed_def)

lemma printable_NULL: "list_all printable t \<Longrightarrow> ASCII_NULL \<notin> set t"
  by (auto simp: list_all_iff printable_def)

lemma cstr_line: "ASCII_NULL \<notin> set t \<Longrightarrow> cstr (t @ ASCII_NULL # r) = t"
  by (simp add: cstr_def takeWhile_append)

lemma list_all_butlast: "list_all P t \<Longrightarrow> list_all P (butlast t)"
  by (auto simp: list_all_iff dest: in_set_butlastD)

text \<open>A new contents of the current row.\<close>

lemma in_ok_row:
  assumes "in_ok s" "length a = 1028" "i \<le> 1028" "list_all printable (take i a)"
  shows "in_ok (set_row a s\<lparr>ui4_cli_cmd_buf_idx := i\<rparr>)"
  using assms by (auto simp: in_ok_def set_row_def nth_list_update dest!: set_update_subset_insert [THEN subsetD])

lemma row_set_row [simp]: "in_ok s \<Longrightarrow> row (set_row a s) = a"
  by (simp add: set_row_def in_okD)

lemma say_simps [simp]:
  "s_cli_cmd_buf (say ls s) = s_cli_cmd_buf s" "ui4_cli_cmd_buf_row_idx (say ls s) = ui4_cli_cmd_buf_row_idx s"
  "ui4_cli_cmd_buf_ref_row_idx (say ls s) = ui4_cli_cmd_buf_ref_row_idx s" "ui4_cli_cmd_buf_idx (say ls s) = ui4_cli_cmd_buf_idx s"
  "in_cli (say ls s) = print ls (in_cli s)" "typed (say ls s) = typed s" "in_ok (say ls s) = in_ok s"
  by (simp_all add: say_def typed_def in_ok_def)

lemma set_row_simps [simp]:
  "ui4_cli_cmd_buf_row_idx (set_row a s) = ui4_cli_cmd_buf_row_idx s" "ui4_cli_cmd_buf_idx (set_row a s) = ui4_cli_cmd_buf_idx s"
  "ui4_cli_cmd_buf_ref_row_idx (set_row a s) = ui4_cli_cmd_buf_ref_row_idx s" "in_cli (set_row a s) = in_cli s"
  "length (s_cli_cmd_buf (set_row a s)) = length (s_cli_cmd_buf s)"
  "i \<noteq> ui4_cli_cmd_buf_row_idx s \<Longrightarrow> s_cli_cmd_buf (set_row a s) ! i = s_cli_cmd_buf s ! i"
  by (simp_all add: set_row_def)

section \<open>Editing\<close>

text \<open>A line editor for the keys that only change the line.\<close>

fun edit :: "string \<Rightarrow> string \<Rightarrow> string" where
  "edit t [] = t"
| "edit t (c # cs) = edit (if c = ASCII_KEY_BS then butlast t else if printable c \<and> length t < CLI_CMD_BUF_SIZE then t @ [c] else t) cs"

definition simple_key :: "char \<Rightarrow> bool" where
  "simple_key c \<longleftrightarrow> c \<noteq> ASCII_KEY_NL \<and> c \<noteq> ASCII_KEY_ENTER \<and> c \<noteq> ASCII_KEY_ESC"

definition same_but_line :: "cin \<Rightarrow> cin \<Rightarrow> bool" where
  "same_but_line s s' \<longleftrightarrow> ui4_cli_cmd_buf_row_idx s' = ui4_cli_cmd_buf_row_idx s \<and>
     ui4_cli_cmd_buf_ref_row_idx s' = ui4_cli_cmd_buf_ref_row_idx s \<and>
     (\<forall>i. i \<noteq> ui4_cli_cmd_buf_row_idx s \<longrightarrow> s_cli_cmd_buf s' ! i = s_cli_cmd_buf s ! i) \<and>
     (\<exists>ls. in_cli s' = print ls (in_cli s))"

lemma print_print [simp]: "print ls (print ls' c) = print (ls' @ ls) c" "print [] c = c"
  by (simp_all add: print_def)

lemma same_but_line_trans: "same_but_line s s' \<Longrightarrow> same_but_line s' s'' \<Longrightarrow> same_but_line s s''"
  by (auto simp: same_but_line_def)

lemma same_but_line_refl: "same_but_line s s"
  by (auto simp: same_but_line_def intro: exI [of _ "[]"])

lemma erase_step:
  assumes "in_ok s" "0 < ui4_cli_cmd_buf_idx s"
  shows "in_ok (erase s)" "typed (erase s) = butlast (typed s)" "same_but_line s (erase s)"
proof -
  have t: "take (ui4_cli_cmd_buf_idx s - 1) (row s) = butlast (typed s)" using in_okD [OF assms(1)] assms(2)
    by (simp add: typed_def butlast_conv_take min_def)
  then show "typed (erase s) = butlast (typed s)" by (simp add: erase_def typed_def)
  show "in_ok (erase s)" using assms(1) t list_all_butlast [OF in_okD(6) [OF assms(1)]] by (auto simp: erase_def in_ok_def)
  show "same_but_line s (erase s)" by (auto simp: erase_def same_but_line_def)
qed

lemma type_step:
  assumes "in_ok s"
  shows "in_ok (type_key c s)"
    "typed (type_key c s) = (if printable c \<and> length (typed s) < 1028 then typed s @ [c] else typed s)"
    "same_but_line s (type_key c s)"
proof -
  note D = in_okD [OF assms]
  let ?i = "ui4_cli_cmd_buf_idx s"
  let ?a = "(row s)[?i := c]"
  have t: "take (Suc ?i) ?a = typed s @ [c]" if "?i < 1028" using that D(4) by (simp add: take_Suc_conv_app_nth typed_def)
  show "in_ok (type_key c s)"
    using in_ok_row [OF assms, of ?a "Suc ?i"] t D assms by (auto simp: type_key_def)
  show "typed (type_key c s) = (if printable c \<and> length (typed s) < 1028 then typed s @ [c] else typed s)"
  proof (cases "printable c \<and> ?i < 1028")
    case True
    then have "type_key c s = set_row ?a s\<lparr>ui4_cli_cmd_buf_idx := Suc ?i\<rparr>" by (simp add: type_key_def)
    then have "typed (type_key c s) = take (Suc ?i) (row (set_row ?a s))" by (simp add: typed_def)
    then show ?thesis using True t D(7) row_set_row [OF assms] by simp
  next
    case False
    then show ?thesis using D by (auto simp: type_key_def)
  qed
  show "same_but_line s (type_key c s)"
    by (auto simp: type_key_def same_but_line_def intro: exI [of _ "[]"])
qed

lemma edit_keys:
  assumes "in_ok s" "list_all simple_key keys"
  shows "\<exists>s'. input_loop other (keys @ rest) s = input_loop other rest s' \<and> in_ok s' \<and> typed s' = edit (typed s) keys \<and> same_but_line s s'"
  using assms
proof (induction keys arbitrary: s)
  case Nil
  then show ?case using same_but_line_refl by auto
next
  case (Cons c keys)
  let ?s = "if c = ASCII_KEY_BS then if ui4_cli_cmd_buf_idx s > 0 then erase s else s else type_key c s"
  have l: "input_loop other ((c # keys) @ rest) s = input_loop other (keys @ rest) ?s"
    using Cons.prems(2) by (auto simp: simple_key_def)
  have o: "in_ok ?s" "same_but_line s ?s" using erase_step(1,3) type_step(1,3) Cons.prems(1) same_but_line_refl by auto
  have "\<not> 0 < ui4_cli_cmd_buf_idx s \<Longrightarrow> typed s = []" by (simp add: typed_def)
  then have t: "typed ?s = (if c = ASCII_KEY_BS then butlast (typed s) else if printable c \<and> length (typed s) < 1028 then typed s @ [c] else typed s)"
    using erase_step(2) [OF Cons.prems(1)] type_step(2) [OF Cons.prems(1)] by auto
  obtain s' where "input_loop other (keys @ rest) ?s = input_loop other rest s'" "in_ok s'" "typed s' = edit (typed ?s) keys" "same_but_line ?s s'"
    using Cons.IH [OF o(1)] Cons.prems(2) by auto
  then show ?case unfolding l edit.simps t using same_but_line_trans [OF o(2)] by (intro exI [of _ s']) (auto simp: t)
qed

section \<open>History\<close>

lemma ref_loop_ends:
  assumes "d = 1 \<or> d = 15" "r < 16" "cur < 16"
  shows "\<exists>r'. ref_loop d rows cur r = Some r' \<and> r' < 16 \<and> (r' = cur \<or> rows ! r' ! 0 \<noteq> ASCII_NULL)"
  using assms(2)
proof (induction "(if d = 1 then if r < cur then cur - r else cur + 16 - r else if cur < r then r - cur else r + 16 - cur) :: nat"
    arbitrary: r rule: less_induct)
  case less
  let ?r = "(r + d) mod 16"
  let ?m = "\<lambda>r. if d = 1 then if r < cur then cur - r else cur + 16 - r else if cur < r then r - cur else r + 16 - cur :: nat"
  show ?case
  proof (cases "?r = cur \<or> rows ! ?r ! 0 \<noteq> ASCII_NULL")
    case True
    then show ?thesis by (subst ref_loop.simps) (auto simp: Let_def)
  next
    case False
    have "?r = (if d = 1 then if r = 15 then 0 else r + 1 else if r = 0 then 15 else r - 1)"
      using assms(1) less.prems mod_add_self2 [of "r - 1" 16] by (cases r) auto
    then have "?m ?r < ?m r" using assms(1,3) less.prems False by (auto split: if_splits)
    from less.hyps [OF this] show ?thesis using False by (subst ref_loop.simps) (simp add: Let_def)
  qed
qed

lemma cstr_take: "take (length (cstr a)) a = cstr a"
  unfolding cstr_def by (rule takeWhile_eq_take [symmetric])

lemma recall_spec:
  assumes "in_ok s" "d = 1 \<or> d = 15"
  shows "\<exists>r s'. recall d s = Inr s' \<and> in_ok s' \<and> same_but_line (s\<lparr>ui4_cli_cmd_buf_ref_row_idx := r\<rparr>) s' \<and>
    ref_loop d (s_cli_cmd_buf (set_row ((row s)[0 := ASCII_NULL]) s)) (ui4_cli_cmd_buf_row_idx s) (ui4_cli_cmd_buf_ref_row_idx s) = Some r \<and>
    typed s' = (if r = ui4_cli_cmd_buf_row_idx s then [] else cstr (s_cli_cmd_buf s ! r))"
proof -
  note D = in_okD [OF assms(1)]
  let ?cur = "ui4_cli_cmd_buf_row_idx s"
  let ?s = "set_row ((row s)[0 := ASCII_NULL]) s"
  obtain r where r: "ref_loop d (s_cli_cmd_buf ?s) ?cur (ui4_cli_cmd_buf_ref_row_idx s) = Some r" "r < 16"
    using ref_loop_ends [OF assms(2) D(3,2)] by blast
  define a where "a = s_cli_cmd_buf ?s ! r"
  have a0: "ASCII_NULL \<in> set a \<and> list_all printable (cstr a) \<and> length a = 1028 \<and>
    cstr a = (if r = ?cur then [] else cstr (s_cli_cmd_buf s ! r))"
  proof (cases "r = ?cur")
    case True
    then have "a = ASCII_NULL # tl (row s)" using D(4) row_set_row [OF assms(1)] by (cases "row s") (simp_all add: a_def)
    then show ?thesis using D(4) True by (simp add: cstr_def)
  next
    case False
    then show ?thesis using assms(1) r(2) by (simp add: a_def in_ok_def)
  qed
  then have a: "ASCII_NULL \<in> set a" "list_all printable (cstr a)" "length a = 1028"
    "cstr a = (if r = ?cur then [] else cstr (s_cli_cmd_buf s ! r))" by blast+
  let ?s1 = "set_row ((row s)[0 := ASCII_NULL]) (say (replicate (ui4_cli_cmd_buf_idx s) [ASCII_KEY_BS, ASCII_KEY_SPACE, ASCII_KEY_BS]) s)"
  let ?s' = "say (map (\<lambda>c. [c]) (cstr a)) (set_row a (?s1\<lparr>ui4_cli_cmd_buf_ref_row_idx := r, ui4_cli_cmd_buf_idx := length (cstr a)\<rparr>))"
  have b: "s_cli_cmd_buf ?s1 = s_cli_cmd_buf ?s" by (simp add: set_row_def say_def)
  have "recall d s = Inr ?s'" using r a(1) unfolding recall_def Let_def b by (simp add: a_def)
  moreover have "length (cstr a) \<le> 1028" using length_takeWhile_le [of _ a] unfolding cstr_def a(3) by metis
  then have "in_ok ?s'" using assms(1) r(2) a(2,3) cstr_take [of a]
    by (auto simp: in_ok_def set_row_def say_def nth_list_update dest!: set_update_subset_insert [THEN subsetD])
  moreover have "typed ?s' = cstr a" using D(1,2) cstr_take [of a] by (simp add: typed_def set_row_def say_def)
  moreover have "same_but_line (s\<lparr>ui4_cli_cmd_buf_ref_row_idx := r\<rparr>) ?s'" by (auto simp: same_but_line_def set_row_def say_def)
  ultimately show ?thesis using r(1) a(4) by (intro exI [of _ r] exI [of _ ?s']) simp
qed

section \<open>Running a line\<close>

lemma decrypt_printable:
  assumes "decrypt_cmd t = Inr t'" "list_all printable t"
  shows "list_all printable t'" "length t' = length t - 1" "t \<noteq> []"
proof -
  have l: "length (decrypt_loop k cs) = length cs" for k cs by (induction k cs rule: decrypt_loop.induct) simp_all
  have g: "32 \<le> c \<Longrightarrow> c \<le> 126 \<Longrightarrow> 33 \<le> go_back_along_alp c k \<and> go_back_along_alp c k \<le> 126" for c k
  proof -
    assume c: "32 \<le> c" "c \<le> 126"
    obtain m where "k mod 46 = m" "0 \<le> m" "m < 46" by simp
    then show ?thesis using c by (auto simp: go_back_along_alp_def Let_def)
  qed
  have u: "32 \<le> c \<Longrightarrow> c \<le> 126 \<Longrightarrow> 32 \<le> toupper c \<and> toupper c \<le> 126" for c by (simp add: toupper_def)
  have lo: "33 \<le> c \<Longrightarrow> c \<le> 126 \<Longrightarrow> 33 \<le> tolower c \<and> tolower c \<le> 126" for c by (simp add: tolower_def)
  have d: "\<forall>c\<in>set cs. 32 \<le> c \<and> c \<le> 126 \<Longrightarrow> x \<in> set (decrypt_loop k cs) \<Longrightarrow> 33 \<le> x \<and> x \<le> 126" for cs k x
    by (induction k cs rule: decrypt_loop.induct) (auto simp: g u lo)
  have p: "33 \<le> c \<Longrightarrow> c \<le> 126 \<Longrightarrow> printable (char_of (nat (plain_char c)))" for c
    by (auto simp: plain_char_def printable_def nat_less_iff nat_le_iff le_nat_iff)
  show t: "t \<noteq> []" using assms(1) by (auto simp: decrypt_cmd_def)
  then show "length t' = length t - 1" using assms(1) l by (auto simp: decrypt_cmd_def)
  have "\<forall>c\<in>set (map (\<lambda>c. no_lower (int (code c))) (butlast t)). 32 \<le> c \<and> c \<le> 126"
    using assms(2) by (auto simp: list_all_iff printable_def no_lower_def dest!: in_set_butlastD)
  from d [OF this] show "list_all printable t'" using assms(1) t p by (auto simp: decrypt_cmd_def list_all_iff)
qed

text \<open>The command that a line stands for.\<close>

definition cleartext :: "string \<Rightarrow> string result" where
  "cleartext t = (if is_encrypt_cmd t then decrypt_cmd (tl t) else Inr t)"

lemma enter_row:
  assumes "in_ok s" "ui4_cli_cmd_buf_idx s < 1028"
  shows "(row s)[ui4_cli_cmd_buf_idx s := ASCII_NULL] = typed s @ ASCII_NULL # drop (ui4_cli_cmd_buf_idx s + 1) (row s)"
  using in_okD(4) [OF assms(1)] assms(2) by (simp add: upd_conv_take_nth_drop typed_def)

definition entered :: "cin \<Rightarrow> cin" where
  "entered s = say [[]] (set_row ((row s)[ui4_cli_cmd_buf_idx s := ASCII_NULL]) s)"

lemma entered_spec:
  assumes "in_ok s" "ui4_cli_cmd_buf_idx s < 1028"
  shows "in_ok (entered s)" "typed (entered s) = typed s" "cstr (row (entered s)) = typed s" "ASCII_NULL \<in> set (row (entered s))"
    "ui4_cli_cmd_buf_idx (entered s) = ui4_cli_cmd_buf_idx s"
proof -
  note D = in_okD [OF assms(1)]
  have r: "row (entered s) = typed s @ ASCII_NULL # drop (ui4_cli_cmd_buf_idx s + 1) (row s)"
    using row_set_row [OF assms(1)] enter_row [OF assms] by (simp add: entered_def)
  show "cstr (row (entered s)) = typed s" "ASCII_NULL \<in> set (row (entered s))"
    unfolding r using cstr_line [OF printable_NULL [OF D(6)]] by simp_all
  show i: "ui4_cli_cmd_buf_idx (entered s) = ui4_cli_cmd_buf_idx s" by (simp add: entered_def)
  show "typed (entered s) = typed s" unfolding typed_def [of "entered s"] r i using D(7) by simp
  let ?a = "(row s)[ui4_cli_cmd_buf_idx s := ASCII_NULL]"
  have e: "set_row ?a s\<lparr>ui4_cli_cmd_buf_idx := ui4_cli_cmd_buf_idx s\<rparr> = set_row ?a s" by (simp add: set_row_def)
  have "in_ok (set_row ?a s\<lparr>ui4_cli_cmd_buf_idx := ui4_cli_cmd_buf_idx s\<rparr>)"
    using in_ok_row [OF assms(1), of ?a "ui4_cli_cmd_buf_idx s"] D by (simp add: typed_def)
  then show "in_ok (entered s)" unfolding e by (simp add: entered_def)
qed

lemma same_but_line_entered: "same_but_line s (entered s)"
  by (auto simp: entered_def same_but_line_def)

lemma decrypted_spec:
  assumes "in_ok s" "cstr (row s) = typed s" "ASCII_NULL \<in> set (row s)" "ui4_cli_cmd_buf_idx s < 1028" "cleartext (typed s) = Inr t'"
  shows "\<exists>s'. decrypted s = Inr s' \<and> in_ok s' \<and> typed s' = t' \<and> cstr (row s') = t' \<and> ASCII_NULL \<in> set (row s') \<and>
    ui4_cli_cmd_buf_idx s' = length t' \<and> in_cli s' = in_cli s \<and> same_but_line s s'"
proof (cases "is_encrypt_cmd (typed s)")
  case False
  then show ?thesis using assms in_okD(7) [OF assms(1)] same_but_line_refl by (auto simp: decrypted_def cleartext_def)
next
  case True
  note D = in_okD [OF assms(1)]
  have dc: "decrypt_cmd (tl (typed s)) = Inr t'" using assms(5) True by (simp add: cleartext_def)
  have "list_all printable (tl (typed s))" using D(6) by (cases "typed s") simp_all
  note P = decrypt_printable [OF dc this]
  have n: "ui4_cli_cmd_buf_idx s = length t' + 2" using P(2,3) D(7) by (cases "typed s"; cases "tl (typed s)") auto
  define a where "a = t' @ ASCII_NULL # drop (length t' + 1) (row s)"
  let ?s' = "set_row a s\<lparr>ui4_cli_cmd_buf_idx := length t'\<rparr>"
  have "(ui4_cli_cmd_buf_idx s + 2 ^ 32 - 2) mod 2 ^ 32 = length t'" using assms(4) n by simp
  then have d: "decrypted s = Inr ?s'" using True assms(2) dc by (simp add: decrypted_def a_def set_row_def)
  have r: "row ?s' = a" using row_set_row [OF assms(1)] by simp
  have t: "typed ?s' = t'" "cstr a = t'" using r cstr_line [OF printable_NULL [OF P(1)]] by (simp_all add: typed_def a_def)
  have "in_ok ?s'" using in_ok_row [OF assms(1), of a "length t'"] P(1) D(4) assms(4) n by (simp add: a_def)
  then show ?thesis using d t r by (intro exI [of _ ?s']) (auto simp: a_def same_but_line_def intro: exI [of _ "[]"])
qed

lemma next_row_spec:
  assumes "in_ok s" "ASCII_NULL \<in> set (row s)" "list_all printable (cstr (row s))"
  shows "in_ok (next_row s)" "typed (next_row s) = []" "ui4_cli_cmd_buf_idx (next_row s) = 0" "in_cli (next_row s) = in_cli s"
    "ui4_cli_cmd_buf_row_idx (next_row s) = (if ui4_cli_cmd_buf_idx s > 0 then (ui4_cli_cmd_buf_row_idx s + 1) mod 16 else ui4_cli_cmd_buf_row_idx s)"
    "ui4_cli_cmd_buf_ref_row_idx (next_row s) = ui4_cli_cmd_buf_row_idx (next_row s)"
    "i \<noteq> ui4_cli_cmd_buf_row_idx (next_row s) \<Longrightarrow> s_cli_cmd_buf (next_row s) ! i = s_cli_cmd_buf s ! i"
proof -
  show "in_ok (next_row s)" using assms
    by (auto simp: in_ok_def next_row_def Let_def set_row_def nth_list_update split: if_splits dest!: set_update_subset_insert [THEN subsetD])
  show "typed (next_row s) = []" "ui4_cli_cmd_buf_idx (next_row s) = 0" "in_cli (next_row s) = in_cli s"
    "ui4_cli_cmd_buf_row_idx (next_row s) = (if ui4_cli_cmd_buf_idx s > 0 then (ui4_cli_cmd_buf_row_idx s + 1) mod 16 else ui4_cli_cmd_buf_row_idx s)"
    "ui4_cli_cmd_buf_ref_row_idx (next_row s) = ui4_cli_cmd_buf_row_idx (next_row s)"
    by (simp_all add: next_row_def typed_def Let_def set_row_def)
  show "i \<noteq> ui4_cli_cmd_buf_row_idx (next_row s) \<Longrightarrow> s_cli_cmd_buf (next_row s) ! i = s_cli_cmd_buf s ! i"
    by (simp add: next_row_def Let_def set_row_def split: if_splits)
qed

lemma enter_spec:
  assumes "in_ok s" "ui4_cli_cmd_buf_idx s < 1028" "cleartext (typed s) = Inr t" "take 4 t \<noteq> ''quit''"
    and "cli_parser other (Some t) (print [[]] (in_cli s)) = Inr (i, c)"
  shows "\<exists>s'. enter_key other s = Inr (False, s') \<and> in_ok s' \<and> ui4_cli_cmd_buf_idx s' = 0 \<and>
    in_cli s' = print (message i @ [ps_prompt c]) c \<and>
    ui4_cli_cmd_buf_row_idx s' = (if t \<noteq> [] then (ui4_cli_cmd_buf_row_idx s + 1) mod 16 else ui4_cli_cmd_buf_row_idx s) \<and>
    ui4_cli_cmd_buf_ref_row_idx s' = ui4_cli_cmd_buf_row_idx s' \<and>
    (t \<noteq> [] \<longrightarrow> cstr (s_cli_cmd_buf s' ! ui4_cli_cmd_buf_row_idx s) = t)"
proof -
  note E = entered_spec [OF assms(1,2)]
  have c: "cstr (row (entered s)) = typed (entered s)" "ui4_cli_cmd_buf_idx (entered s) < 1028" "cleartext (typed (entered s)) = Inr t"
    using E(2,3,5) assms(2,3) by simp_all
  obtain s1 where d: "decrypted (entered s) = Inr s1" "in_ok s1" "typed s1 = t" "cstr (row s1) = t" "ASCII_NULL \<in> set (row s1)"
    "ui4_cli_cmd_buf_idx s1 = length t" "in_cli s1 = in_cli (entered s)" "same_but_line (entered s) s1"
    using decrypted_spec [OF E(1) c(1) E(4) c(2,3)] by blast
  have "in_cli s1 = print [[]] (in_cli s)" "ui4_cli_cmd_buf_row_idx s1 = ui4_cli_cmd_buf_row_idx s"
    using d(7,8) by (simp_all add: entered_def same_but_line_def)
  note s1 = d(1,2,4,5,6) this d(3)
  let ?s2 = "say (message i) (s1\<lparr>in_cli := c\<rparr>)"
  have o2: "in_ok ?s2" "row ?s2 = row s1" "ui4_cli_cmd_buf_idx ?s2 = length t" "ui4_cli_cmd_buf_row_idx ?s2 = ui4_cli_cmd_buf_row_idx s"
    using s1(2,5,7) by (simp_all add: in_ok_def)
  have pr: "list_all printable (cstr (row ?s2))" using in_okD(6) [OF s1(2)] s1(3,8) o2(2) by simp
  have "ASCII_NULL \<in> set (row ?s2)" using s1(4) by simp
  note N = next_row_spec [OF o2(1) this pr]
  have "enter_key other s = Inr (False, say [ps_prompt c] (next_row ?s2))"
    using assms(2,4,5) s1(1,3,6) N(4) by (simp add: enter_key_def entered_def print_def)
  moreover have "t \<noteq> [] \<Longrightarrow> (ui4_cli_cmd_buf_row_idx s + 1) mod 16 \<noteq> ui4_cli_cmd_buf_row_idx s"
    using in_okD(2) [OF assms(1)] by (auto simp: mod_Suc split: if_splits)
  ultimately show ?thesis using N o2(3,4) s1(3,5,7) by (intro exI [of _ "say [ps_prompt c] (next_row ?s2)"]) auto
qed

lemma line_runs:
  assumes "in_ok s" "ui4_cli_cmd_buf_idx s = 0" "list_all simple_key keys" "length (edit [] keys) < 1028"
    and "cleartext (edit [] keys) = Inr t" "take 4 t \<noteq> ''quit''"
  obtains ls where "\<And>i c. cli_parser other (Some t) (print ls (in_cli s)) = Inr (i, c) \<Longrightarrow>
    \<exists>s'. input_loop other (keys @ ASCII_KEY_ENTER # rest) s = input_loop other rest s' \<and> in_ok s' \<and> ui4_cli_cmd_buf_idx s' = 0 \<and>
      in_cli s' = print (message i @ [ps_prompt c]) c \<and>
      ui4_cli_cmd_buf_row_idx s' = (if t \<noteq> [] then (ui4_cli_cmd_buf_row_idx s + 1) mod 16 else ui4_cli_cmd_buf_row_idx s) \<and>
      ui4_cli_cmd_buf_ref_row_idx s' = ui4_cli_cmd_buf_row_idx s' \<and>
      (t \<noteq> [] \<longrightarrow> cstr (s_cli_cmd_buf s' ! ui4_cli_cmd_buf_row_idx s) = t)"
proof -
  have "typed s = []" using assms(2) by (simp add: typed_def)
  then obtain s1 where s1: "input_loop other (keys @ ASCII_KEY_ENTER # rest) s = input_loop other (ASCII_KEY_ENTER # rest) s1" "in_ok s1"
    "typed s1 = edit [] keys" "same_but_line s s1"
    using edit_keys [OF assms(1,3), of other "ASCII_KEY_ENTER # rest"] by auto
  obtain ls where ls: "in_cli s1 = print ls (in_cli s)" "ui4_cli_cmd_buf_row_idx s1 = ui4_cli_cmd_buf_row_idx s"
    using s1(4) by (auto simp: same_but_line_def)
  have i: "ui4_cli_cmd_buf_idx s1 < 1028" using in_okD(7) [OF s1(2)] s1(3) assms(4) by simp
  have t: "cleartext (typed s1) = Inr t" using s1(3) assms(5) by simp
  show thesis
  proof (rule that [of "ls @ [[]]"])
    fix i c assume "cli_parser other (Some t) (print (ls @ [[]]) (in_cli s)) = Inr (i, c)"
    then have "cli_parser other (Some t) (print [[]] (in_cli s1)) = Inr (i, c)" using ls(1) by simp
    from enter_spec [OF s1(2) i t assms(6) this] show "\<exists>s'. input_loop other (keys @ ASCII_KEY_ENTER # rest) s = input_loop other rest s' \<and>
      in_ok s' \<and> ui4_cli_cmd_buf_idx s' = 0 \<and> in_cli s' = print (message i @ [ps_prompt c]) c \<and>
      ui4_cli_cmd_buf_row_idx s' = (if t \<noteq> [] then (ui4_cli_cmd_buf_row_idx s + 1) mod 16 else ui4_cli_cmd_buf_row_idx s) \<and>
      ui4_cli_cmd_buf_ref_row_idx s' = ui4_cli_cmd_buf_row_idx s' \<and>
      (t \<noteq> [] \<longrightarrow> cstr (s_cli_cmd_buf s' ! ui4_cli_cmd_buf_row_idx s) = t)"
      using s1(1) ls(2) by auto
  qed
qed

lemma up_recalls:
  assumes "in_ok s" "ui4_cli_cmd_buf_ref_row_idx s = ui4_cli_cmd_buf_row_idx s" "p < 16" "ui4_cli_cmd_buf_row_idx s = (p + 1) mod 16"
    and "cstr (s_cli_cmd_buf s ! p) = t" "t \<noteq> []"
  shows "\<exists>s'. input_loop other (ASCII_KEY_ESC # ASCII_KEY_ARROW # ASCII_KEY_UP # rest) s = input_loop other rest s' \<and> in_ok s' \<and> typed s' = t"
proof -
  let ?cur = "ui4_cli_cmd_buf_row_idx s"
  have d: "(15::nat) = 1 \<or> (15::nat) = 15" by simp
  obtain r s' where s': "recall 15 s = Inr s'" "in_ok s'" "typed s' = (if r = ?cur then [] else cstr (s_cli_cmd_buf s ! r))"
    "ref_loop 15 (s_cli_cmd_buf (set_row ((row s)[0 := ASCII_NULL]) s)) ?cur (ui4_cli_cmd_buf_ref_row_idx s) = Some r"
    using recall_spec [OF assms(1) d] by blast
  have p: "(?cur + 15) mod 16 = p" "p \<noteq> ?cur" using assms(3,4) by (auto simp: mod_Suc split: if_splits)
  have "s_cli_cmd_buf s ! p ! 0 \<noteq> ASCII_NULL" using assms(5,6) by (cases "s_cli_cmd_buf s ! p") (auto simp: cstr_def)
  then have "r = p" using s'(4) p assms(2) by (subst (asm) ref_loop.simps) (simp add: Let_def)
  then show ?thesis using s'(1-3) p(2) assms(5) by (auto simp: arrow_key_def)
qed

lemma enter_ok:
  assumes "in_ok s" "enter_key other s = Inr (e, s')"
  shows "in_ok s'"
proof -
  have i: "ui4_cli_cmd_buf_idx s < 1028" using assms(2) by (auto simp: enter_key_def split: if_splits)
  note E = entered_spec [OF assms(1) i]
  obtain s1 where s1: "decrypted (entered s) = Inr s1"
    using assms(2) i by (auto simp: enter_key_def entered_def then_do_Inr split: if_splits)
  then obtain t where t: "cleartext (typed (entered s)) = Inr t"
    using E(2,3) by (cases "cleartext (typed (entered s))") (auto simp: decrypted_def cleartext_def split: if_splits)
  have c: "cstr (row (entered s)) = typed (entered s)" "ui4_cli_cmd_buf_idx (entered s) < 1028" using E(2,3,5) i by simp_all
  have s1': "in_ok s1" "cstr (row s1) = t" "ASCII_NULL \<in> set (row s1)" "typed s1 = t"
    using decrypted_spec [OF E(1) c(1) E(4) c(2) t] s1 by auto
  show ?thesis
  proof (cases "take 4 t = ''quit''")
    case True
    then show ?thesis using assms(2) i s1 s1'(1,2) by (auto simp: enter_key_def entered_def)
  next
    case False
    then obtain j c where j: "cli_parser other (Some t) (in_cli s1) = Inr (j, c)"
      "s' = say [ps_prompt (in_cli (next_row (say (message j) (s1\<lparr>in_cli := c\<rparr>))))] (next_row (say (message j) (s1\<lparr>in_cli := c\<rparr>)))"
      using assms(2) i s1 s1'(2) by (auto simp: enter_key_def entered_def then_do_Inr Let_def)
    have "in_ok (say (message j) (s1\<lparr>in_cli := c\<rparr>))" using s1'(1) by (simp add: in_ok_def)
    from next_row_spec(1) [OF this] s1'(2-4) in_okD(6) [OF s1'(1)] show ?thesis unfolding j(2) by simp
  qed
qed

lemma arrow_ok: "in_ok s \<Longrightarrow> arrow_key c s = Inr s' \<Longrightarrow> in_ok s'"
  using recall_spec [of s 15] recall_spec [of s 1] erase_step(1) [of s] by (auto simp: arrow_key_def split: if_splits)

lemma input_loop_ok: "input_loop other keys s = Inr (e, s') \<Longrightarrow> in_ok s \<Longrightarrow> in_ok s'"
proof (induction other keys s rule: input_loop.induct)
  case (2 other c cs s)
  consider "c = ASCII_KEY_NL \<or> c = ASCII_KEY_ENTER" | "c = ASCII_KEY_BS" | "c = ASCII_KEY_ESC"
    | "\<not> (c = ASCII_KEY_NL \<or> c = ASCII_KEY_ENTER)" "c \<noteq> ASCII_KEY_BS" "c \<noteq> ASCII_KEY_ESC" by blast
  then show ?case
  proof cases
    case 1
    then obtain b t where t: "enter_key other s = Inr (b, t)" "if b then t = s' else input_loop other cs t = Inr (e, s')"
      using "2.prems"(1) by (auto simp: then_do_Inr split: if_splits)
    have "in_ok t" by (rule enter_ok [OF "2.prems"(2) t(1)])
    then show ?thesis using t(2) "2.IH"(1) [OF 1, of False t] by (auto split: if_splits)
  next
    case 2
    let ?s = "if ui4_cli_cmd_buf_idx s > 0 then erase s else s"
    have "in_ok ?s" using erase_step(1) "2.prems"(2) by simp
    then show ?thesis using 2 "2.prems"(1) "2.IH"(2) by simp
  next
    case 3
    show ?thesis
    proof (cases cs)
      case Nil
      then show ?thesis using 3 "2.prems" by simp
    next
      case (Cons a cs')
      show ?thesis
      proof (cases "a = ASCII_KEY_ARROW")
        case False
        then show ?thesis using 3 "2.prems" "2.IH"(4) [OF _ _ _ Cons] Cons by simp
      next
        case True
        show ?thesis
        proof (cases cs')
          case Nil
          then show ?thesis using 3 "2.prems" True Cons by simp
        next
          case (Cons k cs'')
          then obtain t where t: "arrow_key k s = Inr t" "input_loop other cs'' t = Inr (e, s')"
            using 3 "2.prems"(1) True \<open>cs = a # cs'\<close> by (auto simp: then_do_Inr)
          show ?thesis using 3 t "2.IH"(3) [OF _ _ _ \<open>cs = a # cs'\<close> True Cons, of t] arrow_ok [OF "2.prems"(2) t(1)] by simp
        qed
      qed
    qed
  next
    case 4
    then show ?thesis using "2.prems" "2.IH"(5) type_step(1) [OF "2.prems"(2), of c] by simp
  qed
qed simp

lemma arrow_total: "in_ok s \<Longrightarrow> \<exists>s'. arrow_key c s = Inr s' \<and> in_ok s'"
  using recall_spec [of s 15] recall_spec [of s 1] erase_step(1) [of s] by (auto simp: arrow_key_def)

text \<open>Without ENTER the loop cannot fail.\<close>

lemma no_enter_total:
  "in_ok s \<Longrightarrow> ASCII_KEY_NL \<notin> set keys \<Longrightarrow> ASCII_KEY_ENTER \<notin> set keys \<Longrightarrow> \<exists>s'. input_loop other keys s = Inr (False, s') \<and> in_ok s'"
proof (induction keys arbitrary: s rule: length_induct)
  case (1 keys)
  have IH: "\<exists>s'. input_loop other ks t = Inr (False, s') \<and> in_ok s'" if "in_ok t" "length ks < length keys" "set ks \<subseteq> set keys" for ks t
    using 1 that by blast
  show ?case
  proof (cases keys)
    case (Cons c cs)
    consider "c = ASCII_KEY_BS" | "c = ASCII_KEY_ESC" | "c \<noteq> ASCII_KEY_BS" "c \<noteq> ASCII_KEY_ESC" by blast
    then show ?thesis
    proof cases
      case 1
      have "set cs \<subseteq> set keys" using Cons by auto
      moreover have "in_ok (if ui4_cli_cmd_buf_idx s > 0 then erase s else s)" using erase_step(1) \<open>in_ok s\<close> by simp
      ultimately show ?thesis using IH [of "if ui4_cli_cmd_buf_idx s > 0 then erase s else s" cs] Cons 1 by simp
    next
      case 2
      show ?thesis
      proof (cases cs)
        case Nil
        then show ?thesis using Cons 2 \<open>in_ok s\<close> by simp
      next
        case cs: (Cons a cs')
        show ?thesis
        proof (cases "a = ASCII_KEY_ARROW \<and> cs' \<noteq> []")
          case True
          then obtain k cs'' where k: "cs' = k # cs''" by (cases cs') auto
          obtain t where t: "arrow_key k s = Inr t" "in_ok t" using arrow_total [OF \<open>in_ok s\<close>] by blast
          have "set cs'' \<subseteq> set keys" using Cons cs k by auto
          then show ?thesis using IH [OF t(2), of cs''] Cons cs k 2 True t(1) by simp
        next
          case False
          have "set cs' \<subseteq> set keys" using Cons cs by auto
          then show ?thesis using IH [OF \<open>in_ok s\<close>, of cs'] Cons cs 2 False \<open>in_ok s\<close> by (cases cs') simp_all
        qed
      qed
    next
      case 3
      have "set cs \<subseteq> set keys" using Cons by auto
      then show ?thesis using IH [OF type_step(1) [OF \<open>in_ok s\<close>, of c], of cs] Cons 3 "1.prems"(2,3) by auto
    qed
  qed (use \<open>in_ok s\<close> in simp)
qed

text \<open>ENTER fails on a full line, on a line that is just the mark, and where the parser fails.\<close>

lemma enter_full: "ui4_cli_cmd_buf_idx s = 1028 \<Longrightarrow> enter_key other s = Inl BadAccess"
  by (simp add: enter_key_def)

lemma enter_mark:
  assumes "in_ok s" "typed s = ''~''"
  shows "enter_key other s = Inl BadAccess"
proof -
  have i: "ui4_cli_cmd_buf_idx s < 1028" using in_okD(7) [OF assms(1)] assms(2) by simp
  from entered_spec(3) [OF assms(1) this] assms(2) have "decrypted (entered s) = Inl BadAccess"
    by (simp add: decrypted_def is_encrypt_cmd_def decrypt_cmd_def)
  then show ?thesis using i by (simp add: enter_key_def entered_def)
qed

lemma cleartext_total: "t \<noteq> ''~'' \<Longrightarrow> \<exists>t'. cleartext t = Inr t'"
  by (cases t) (auto simp: cleartext_def is_encrypt_cmd_def decrypt_cmd_def)

lemma enter_total:
  assumes "in_ok s" "ui4_cli_cmd_buf_idx s < 1028" "cleartext (typed s) = Inr t"
  shows "if take 4 t = ''quit'' then \<exists>s'. enter_key other s = Inr (True, s') \<and> in_ok s'
    else case cli_parser other (Some t) (print [[]] (in_cli s)) of
        Inl f \<Rightarrow> enter_key other s = Inl f
      | Inr (i, c) \<Rightarrow> \<exists>s'. enter_key other s = Inr (False, s') \<and> in_ok s'"
proof -
  note E = entered_spec [OF assms(1,2)]
  have c: "cstr (row (entered s)) = typed (entered s)" "ui4_cli_cmd_buf_idx (entered s) < 1028" "cleartext (typed (entered s)) = Inr t"
    using E(2,3,5) assms(2,3) by simp_all
  obtain s1 where d: "decrypted (entered s) = Inr s1" "cstr (row s1) = t" "in_cli s1 = print [[]] (in_cli s)"
    using decrypted_spec [OF E(1) c(1) E(4) c(2,3)] by (auto simp: entered_def)
  show ?thesis
  proof (cases "take 4 t = ''quit''")
    case True
    then have "\<exists>s'. enter_key other s = Inr (True, s')" using assms(2) d(1,2) by (simp add: enter_key_def entered_def)
    then show ?thesis using True enter_ok [OF assms(1)] by auto
  next
    case False
    then show ?thesis using enter_spec [OF assms False, of other] assms(2) d
      by (auto simp: enter_key_def entered_def split: sum.splits)
  qed
qed

section \<open>The start\<close>

definition cin_start :: cin where
  "cin_start = \<lparr>in_cli = cli_start, b_cli_init = True, ui4_cli_cmd_buf_row_idx = 0, ui4_cli_cmd_buf_ref_row_idx = 0,
     ui4_cli_cmd_buf_idx = 0, s_cli_cmd_buf = replicate 16 (replicate 1028 ASCII_NULL)\<rparr>"

lemma cin_start_ok: "in_ok cin_start" "ui4_cli_cmd_buf_idx cin_start = 0" "in_cli cin_start = cli_start" "b_cli_init cin_start"
proof -
  have "cstr (replicate n ASCII_NULL) = []" for n by (cases n) (simp_all add: cstr_def)
  then show "in_ok cin_start" by (simp add: in_ok_def cin_start_def)
qed (simp_all add: cin_start_def)

definition no_others :: others where
  "no_others f argv s = Inr (CLIR_OK, s)"

lemma start_cd_up: "cli_parser no_others (Some ''cd ..'') (print ls cli_start) = Inr (CLIR_OK, print ls cli_start)"
proof -
  have n: "nav (print ls cli_start) = nav cli_start" by (simp add: nav_def print_def)
  note ok = nav_cong(1,2) [OF n] cli_start_ok
  have l: "cd_loop [] s = Some (Inr (CLIR_OK, s))" for s by (subst cd_loop.simps) simp
  have "ui4_dir_link_idx (print ls cli_start) = 0" by (simp add: print_def cli_start_def cli0_def)
  then have "cd_step ''..'' (print ls cli_start) = Inr (None, [], print ls cli_start)" by (simp add: cd_step_def go_up_def)
  then have c: "cd_loop ''..'' (print ls cli_start) = Some (Inr (CLIR_OK, print ls cli_start))" using l by (subst cd_loop.simps) simp
  have "args_loop 64 256 [] ''cd ..'' = Some [''cd'', ''..'']"
    using args_loop_line [of "[Plain ''cd'', Plain ''..'']" 256 "[]" 64 "''cd ..''"] by (simp add: IS_PRINTABLE_def IS_SPACE_def)
  then have a: "find_cmd_argv (Some ''cd ..'') 64 256 = Inr [''cd'', ''..'']" by (simp add: find_cmd_argv_def)
  have m: "cli_tbls (print ls cli_start) at_mandatory_cmd_tbl = Some mandatory_tbl" "cli_array (print ls cli_start) 0 \<noteq> []"
    "fst (hd (cli_array (print ls cli_start) 0)) = (at_mandatory_cmd_tbl, 0)" by (simp_all add: print_def cli_start_def cli0_def)
  have "find_entry (print ls cli_start) ''cd'' (Some (at_mandatory_cmd_tbl, 0)) = Inr (Some (at_mandatory_cmd_tbl, 0))"
    using m(1) by (simp add: find_entry_def is_cmd_tbl_array_def entry_def search_tbl_def mandatory_tbl_def same_str_def dir_of_def)
  then have r: "resolve (print ls cli_start) many ''cd'' (Some (at_mandatory_cmd_tbl, 0)) = Inr (Run fn_change_dir, ''cd'')" for many
    using m(1) by (subst resolve.simps) (simp add: is_cmd_tbl_array_def entry_def mandatory_tbl_def)
  show ?thesis using a r m(2,3) c
    by (cases "cli_array (print ls cli_start) 0") (auto simp: cli_parser_def parse_cmd_def run_cmd_def cli_cmd_change_dir_def)
qed

section \<open>Properties\<close>

text \<open>C39 Running a line: keys that only type and erase, followed by ENTER, do to the line what the line editor \<open>edit\<close>
  does; the parser then gets the line, or the command that it encrypts, and what it prints and changes is followed by
  a message for its return code and the prompt; the line is empty again and the command is in the history.\<close>

theorem cli_line_runs:
  assumes "in_ok s" "ui4_cli_cmd_buf_idx s = 0" "list_all simple_key keys" "length (edit [] keys) < CLI_CMD_BUF_SIZE"
    and "cleartext (edit [] keys) = Inr t" "take 4 t \<noteq> ''quit''"
    and "\<And>ls. cli_parser other (Some t) (print ls (in_cli s)) = Inr (i, c ls)"
  shows "\<exists>ls s'. input_loop other (keys @ [ASCII_KEY_ENTER]) s = Inr (False, s') \<and> in_ok s' \<and> typed s' = [] \<and>
    in_cli s' = print (message i @ [ps_prompt (c ls)]) (c ls) \<and> (t = [] \<or> cstr (s_cli_cmd_buf s' ! ui4_cli_cmd_buf_row_idx s) = t)"
proof -
  obtain ls where ls: "\<And>i c. cli_parser other (Some t) (print ls (in_cli s)) = Inr (i, c) \<Longrightarrow>
    \<exists>s'. input_loop other (keys @ ASCII_KEY_ENTER # []) s = input_loop other [] s' \<and> in_ok s' \<and> ui4_cli_cmd_buf_idx s' = 0 \<and>
      in_cli s' = print (message i @ [ps_prompt c]) c \<and>
      ui4_cli_cmd_buf_row_idx s' = (if t \<noteq> [] then (ui4_cli_cmd_buf_row_idx s + 1) mod 16 else ui4_cli_cmd_buf_row_idx s) \<and>
      ui4_cli_cmd_buf_ref_row_idx s' = ui4_cli_cmd_buf_row_idx s' \<and>
      (t \<noteq> [] \<longrightarrow> cstr (s_cli_cmd_buf s' ! ui4_cli_cmd_buf_row_idx s) = t)"
    using line_runs [OF assms(1-6), of other "[]"] by blast
  from ls [OF assms(7)] show ?thesis by (intro exI [of _ ls]) (auto simp: typed_def)
qed

theorem cli_line_runs_witness:
  "\<exists>ls s'. input_loop no_others (''xz'' @ [ASCII_KEY_BS, ASCII_KEY_BS] @ ''cd ..'' @ [ASCII_KEY_ENTER]) cin_start = Inr (False, s') \<and>
    typed s' = [] \<and> in_cli s' = print [''Command>''] (print ls cli_start) \<and> cstr (s_cli_cmd_buf s' ! 0) = ''cd ..''"
proof -
  let ?keys = "''xz'' @ [ASCII_KEY_BS, ASCII_KEY_BS] @ ''cd ..''"
  have e: "edit [] ?keys = ''cd ..''" by (simp add: printable_def)
  have k: "list_all simple_key ?keys" by (simp add: simple_key_def)
  have t: "cleartext (edit [] ?keys) = Inr ''cd ..''" "length (edit [] ?keys) < 1028" "take 4 ''cd ..'' \<noteq> ''quit''"
    unfolding e by (simp_all add: cleartext_def is_encrypt_cmd_def)
  have p: "cli_parser no_others (Some ''cd ..'') (print ls (in_cli cin_start)) = Inr (CLIR_OK, print ls cli_start)" for ls
    using start_cd_up cin_start_ok(3) by simp
  have "ps_prompt (print ls cli_start) = ''Command>''" for ls by (simp add: print_def cli_start_def)
  moreover have "ui4_cli_cmd_buf_row_idx cin_start = 0" by (simp add: cin_start_def)
  ultimately show ?thesis using cli_line_runs [OF cin_start_ok(1,2) k t(2,1,3) p]
    by (auto simp: message_def simp del: print_print)
qed

text \<open>The history: after a line that ran a command, the key UP puts the command back into the line.\<close>

theorem cli_up_recalls:
  assumes "in_ok s" "ui4_cli_cmd_buf_idx s = 0" "list_all simple_key keys" "length (edit [] keys) < CLI_CMD_BUF_SIZE"
    and "cleartext (edit [] keys) = Inr t" "take 4 t \<noteq> ''quit''" "t \<noteq> []"
    and "\<And>ls. cli_parser other (Some t) (print ls (in_cli s)) = Inr (i, c ls)"
  shows "\<exists>s'. input_loop other (keys @ [ASCII_KEY_ENTER, ASCII_KEY_ESC, ASCII_KEY_ARROW, ASCII_KEY_UP]) s = Inr (False, s') \<and>
    in_ok s' \<and> typed s' = t"
proof -
  obtain s1 where s1: "input_loop other (keys @ ASCII_KEY_ENTER # [ASCII_KEY_ESC, ASCII_KEY_ARROW, ASCII_KEY_UP]) s =
      input_loop other [ASCII_KEY_ESC, ASCII_KEY_ARROW, ASCII_KEY_UP] s1" "in_ok s1"
    "ui4_cli_cmd_buf_row_idx s1 = (ui4_cli_cmd_buf_row_idx s + 1) mod 16" "ui4_cli_cmd_buf_ref_row_idx s1 = ui4_cli_cmd_buf_row_idx s1"
    "cstr (s_cli_cmd_buf s1 ! ui4_cli_cmd_buf_row_idx s) = t"
    using line_runs [OF assms(1-6), of other "[ASCII_KEY_ESC, ASCII_KEY_ARROW, ASCII_KEY_UP]"] assms(7,8) by (smt (verit, best))
  from up_recalls [OF s1(2,4) in_okD(2) [OF assms(1)] s1(3,5) assms(7), of other "[]"] s1(1) show ?thesis by auto
qed

theorem cli_up_recalls_witness:
  "\<exists>s'. input_loop no_others (''cd ..'' @ [ASCII_KEY_ENTER, ASCII_KEY_ESC, ASCII_KEY_ARROW, ASCII_KEY_UP]) cin_start = Inr (False, s') \<and>
    typed s' = ''cd ..''"
proof -
  have e: "edit [] ''cd ..'' = ''cd ..''" by (simp add: printable_def)
  have k: "list_all simple_key ''cd ..''" by (simp add: simple_key_def)
  have t: "cleartext (edit [] ''cd ..'') = Inr ''cd ..''" "length (edit [] ''cd ..'') < 1028" "take 4 ''cd ..'' \<noteq> ''quit''" "''cd ..'' \<noteq> []"
    unfolding e by (simp_all add: cleartext_def is_encrypt_cmd_def)
  have p: "cli_parser no_others (Some ''cd ..'') (print ls (in_cli cin_start)) = Inr (CLIR_OK, print ls cli_start)" for ls
    using start_cd_up cin_start_ok(3) by simp
  from cli_up_recalls [OF cin_start_ok(1,2) k t(2,1,3,4) p] show ?thesis by blast
qed

text \<open>C40 The buffers stay well formed: the indices stay in their ranges, the rows keep their length, the line holds printable
  characters, and every row of the history is a terminated string.  Keys other than ENTER never fail.  ENTER runs out of the
  buffer on a line of 1028 characters and on a line that holds just the mark of an encrypted command, and fails otherwise
  only where the parser fails on the command.\<close>

theorem cli_input_invariant:
  assumes "in_ok s"
  shows "(ASCII_KEY_NL \<notin> set keys \<and> ASCII_KEY_ENTER \<notin> set keys \<longrightarrow> (\<exists>s'. input_loop other keys s = Inr (False, s') \<and> in_ok s')) \<and>
    (if length (typed s) = CLI_CMD_BUF_SIZE \<or> typed s = ''~'' then enter_key other s = Inl BadAccess
     else \<exists>t. cleartext (typed s) = Inr t \<and>
       (if take 4 t = ''quit'' then \<exists>s'. enter_key other s = Inr (True, s') \<and> in_ok s'
        else case cli_parser other (Some t) (print [[]] (in_cli s)) of
            Inl f \<Rightarrow> enter_key other s = Inl f
          | Inr (i, c) \<Rightarrow> \<exists>s'. enter_key other s = Inr (False, s') \<and> in_ok s')) \<and>
    (\<forall>e s'. input_loop other keys s = Inr (e, s') \<longrightarrow> in_ok s')"
proof -
  note D = in_okD(5,7) [OF assms]
  have "if length (typed s) = CLI_CMD_BUF_SIZE \<or> typed s = ''~'' then enter_key other s = Inl BadAccess
     else \<exists>t. cleartext (typed s) = Inr t \<and>
       (if take 4 t = ''quit'' then \<exists>s'. enter_key other s = Inr (True, s') \<and> in_ok s'
        else case cli_parser other (Some t) (print [[]] (in_cli s)) of
            Inl f \<Rightarrow> enter_key other s = Inl f
          | Inr (i, c) \<Rightarrow> \<exists>s'. enter_key other s = Inr (False, s') \<and> in_ok s')"
  proof (cases "length (typed s) = CLI_CMD_BUF_SIZE \<or> typed s = ''~''")
    case True
    then show ?thesis using enter_full enter_mark [OF assms] D by auto
  next
    case False
    then obtain t where "cleartext (typed s) = Inr t" using cleartext_total by blast
    then show ?thesis using enter_total [OF assms, of t other] False D by auto
  qed
  then show ?thesis using no_enter_total [OF assms] input_loop_ok assms by blast
qed

theorem cli_input_invariant_witness:
  "\<exists>s'. input_loop no_others (''ab'' @ [ASCII_KEY_ESC, ASCII_KEY_ARROW, ASCII_KEY_LEFT]) cin_start = Inr (False, s') \<and> in_ok s'"
  using cli_input_invariant [OF cin_start_ok(1), of "''ab'' @ [ASCII_KEY_ESC, ASCII_KEY_ARROW, ASCII_KEY_LEFT]" no_others] by simp

text \<open>Decrypting undoes encrypting with any key, for commands of lower case letters, digits, spaces and most signs.\<close>

theorem cli_decrypt_roundtrip:
  assumes "\<forall>p\<in>set cmd. alphabet p"
  shows "decrypt_cmd (encrypt k cmd) = Inr cmd"
  using decrypt_encrypt [OF assms] .

theorem cli_decrypt_roundtrip_witness: "decrypt_cmd (encrypt CHR ''k'' ''cd mw/os_1'') = Inr ''cd mw/os_1''"
  by (rule cli_decrypt_roundtrip) (simp add: alphabet_def)

text \<open>Two inputs run out of the buffer: a line of 1028 characters, and a line that holds only the mark of an
  encrypted command.\<close>

theorem cli_input_overflows:
  assumes "in_ok s" "ui4_cli_cmd_buf_idx s = 0" "list_all printable keys" "length keys = CLI_CMD_BUF_SIZE"
  shows "input_loop other (keys @ [ASCII_KEY_ENTER]) s = Inl BadAccess \<and> input_loop other [CHR ''~'', ASCII_KEY_ENTER] s = Inl BadAccess"
proof
  have t0: "typed s = []" using assms(2) by (simp add: typed_def)
  have ed: "list_all printable ks \<Longrightarrow> length t + length ks \<le> 1028 \<Longrightarrow> edit t ks = t @ ks" for t ks
    by (induction t ks rule: edit.induct) (auto simp: printable_def)
  have sk: "list_all simple_key keys" using assms(3) by (auto simp: list_all_iff simple_key_def printable_def)
  obtain s' where s': "input_loop other (keys @ [ASCII_KEY_ENTER]) s = input_loop other [ASCII_KEY_ENTER] s'" "in_ok s'" "typed s' = keys"
    using edit_keys [OF assms(1) sk, of other "[ASCII_KEY_ENTER]"] ed [of keys "[]"] t0 assms(3,4) by auto
  then have "ui4_cli_cmd_buf_idx s' = 1028" using in_okD(7) [OF s'(2)] assms(4) by simp
  then show "input_loop other (keys @ [ASCII_KEY_ENTER]) s = Inl BadAccess" using s'(1) by (simp add: enter_key_def)
  have "list_all simple_key [CHR ''~'']" by (simp add: simple_key_def)
  from edit_keys [OF assms(1) this, of other "[ASCII_KEY_ENTER]"]
  obtain s' where s': "input_loop other [CHR ''~'', ASCII_KEY_ENTER] s = input_loop other [ASCII_KEY_ENTER] s'" "in_ok s'" "typed s' = ''~''"
    using t0 by (auto simp: printable_def)
  then have i: "ui4_cli_cmd_buf_idx s' < 1028" using in_okD(7) [OF s'(2)] by simp
  from entered_spec(3) [OF s'(2) this] s'(3) have "decrypted (entered s') = Inl BadAccess"
    by (simp add: decrypted_def is_encrypt_cmd_def decrypt_cmd_def)
  then show "input_loop other [CHR ''~'', ASCII_KEY_ENTER] s = Inl BadAccess" using s'(1) i by (simp add: enter_key_def entered_def)
qed

theorem cli_input_overflows_witness:
  "input_loop no_others (replicate 1028 CHR ''a'' @ [ASCII_KEY_ENTER]) cin_start = Inl BadAccess"
proof -
  have "list_all printable (replicate 1028 CHR ''a'')" by (simp add: list_all_iff printable_def)
  from cli_input_overflows [OF cin_start_ok(1,2) this] show ?thesis by (simp only: length_replicate)
qed

text \<open>What the command line shows of a debug level, it reads back as that level, cut to the three known bits; only
  the level with none of them is shown as a word that it refuses.\<close>

theorem cli_dbg_level_roundtrip:
  assumes "b_cli_init s"
  shows "u_cli_parse_dbg_level True (Some [cmd, dbg_level_text l]) (Some v) s =
    (if l AND 7 = 0 then (CLIR_INV_ARG, Some 0) else (CLIR_OK, Some (l AND 7)))"
proof -
  have b: "(l AND 1 \<noteq> 0) = bit l 0" "(l AND 2 \<noteq> 0) = bit l 1" "(l AND 4 \<noteq> 0) = bit l 2"
    using and_exp_eq_0_iff_not_bit [of l 0] and_exp_eq_0_iff_not_bit [of l 1] and_exp_eq_0_iff_not_bit [of l 2] by simp_all
  have "l AND 7 = (if bit l 0 then 1 else 0) OR (if bit l 1 then 2 else 0) OR (if bit l 2 then 4 else 0)"
    by (rule bit_word_eqI) (auto simp: bit_simps numeral_eq_Suc less_Suc_eq)
  then show ?thesis using assms b
    by (cases "bit l 0"; cases "bit l 1"; cases "bit l 2")
      (simp_all add: u_cli_parse_dbg_level_def dbg_level_text_def)
qed

theorem cli_dbg_level_roundtrip_witness:
  "u_cli_parse_dbg_level True (Some [''sdl'', dbg_level_text 5]) (Some 0) cin_start = (CLIR_OK, Some 5)"
  using cli_dbg_level_roundtrip [OF cin_start_ok(4), of "''sdl''" 5 0] by simp

end
