(* ===== verification/AppMem.thy ===== *)
theory AppMem
  imports Prelude
begin

text \<open>Structures as bytes: threads and message queues copy their arguments and messages byte by byte, so the
  application layer passes the memory images of its structures, a sequence of 32-bit words, least significant byte
  first.\<close>

definition word_bytes :: "nat \<Rightarrow> u8 list" where
  "word_bytes v = map (\<lambda>i. of_nat (v div 256 ^ i)) [0..<4]"

definition words_bytes :: "nat list \<Rightarrow> u8 list" where
  "words_bytes ws = concat (map word_bytes ws)"

definition get_word :: "u8 list \<Rightarrow> nat \<Rightarrow> nat" where
  "get_word bs i = get_le 4 0 (\<lambda>j. bs ! (4 * i + j))"

lemma length_word_bytes [simp]: "length (word_bytes v) = 4"
  by (simp add: word_bytes_def)

lemma words_bytes_simps [simp]: "words_bytes [] = []" "words_bytes (w # ws) = word_bytes w @ words_bytes ws"
  by (simp_all add: words_bytes_def)

lemma length_words_bytes [simp]: "length (words_bytes ws) = 4 * length ws"
  by (induction ws) simp_all

lemma nth_words_bytes: "i < length ws \<Longrightarrow> j < 4 \<Longrightarrow> (words_bytes ws @ r) ! (4 * i + j) = of_nat (ws ! i div 256 ^ j)"
proof (induction ws arbitrary: i)
  case (Cons w ws)
  show ?case
  proof (cases i)
    case 0
    then show ?thesis using Cons.prems(2) by (simp add: nth_append word_bytes_def)
  next
    case (Suc k)
    then have "4 * i + j = 4 + (4 * k + j)" by simp
    then show ?thesis using Cons.IH [of k] Cons.prems Suc by (simp add: nth_append)
  qed
qed simp

lemma get_word_words: "i < length ws \<Longrightarrow> ws ! i < 2 ^ 32 \<Longrightarrow> get_word (words_bytes ws @ r) i = ws ! i"
proof -
  assume a: "i < length ws" "ws ! i < 2 ^ 32"
  have "get_word (words_bytes ws @ r) i = get_le 4 0 (put_le 4 0 (ws ! i) (\<lambda>_. 0))"
    unfolding get_word_def by (rule get_le_cong) (simp add: nth_words_bytes [OF a(1)] put_le_def)
  then show ?thesis using a(2) by (simp add: get_put_le)
qed

lemma get_word_words_all: "i < length ws \<Longrightarrow> ws ! i < 2 ^ 32 \<Longrightarrow> get_word (words_bytes ws) i = ws ! i"
  using get_word_words [of i ws "[]"] by simp

end
