(* ===== verification/Aee.thy ===== *)
theory Aee
  imports HandleProps Thread MsgQ AppMem
begin

text \<open>The application execution environments (AEE) of am/aee/aee.c and aee_api.c: an application is an object with a
  thread, a message queue and a handle, kept in a list.  The handles are those of theory Handle, the threads those of
  theory Thread, the queues those of theory MsgQ.

  A function runs under the semaphore of the list as one step; the main function of a thread is split where it calls
  the main function of the application.\<close>

section \<open>State\<close>

abbreviation (input) AEER_OK :: int where "AEER_OK \<equiv> 0"
abbreviation (input) AEER_FAIL :: int where "AEER_FAIL \<equiv> -1"
abbreviation (input) AEER_INV_ARG :: int where "AEER_INV_ARG \<equiv> -2"
abbreviation (input) AEER_INV_HANDLE :: int where "AEER_INV_HANDLE \<equiv> -3"
abbreviation (input) AEER_INV_NAME :: int where "AEER_INV_NAME \<equiv> -4"
abbreviation (input) AEER_OUT_OF_HANDLES :: int where "AEER_OUT_OF_HANDLES \<equiv> -5"
abbreviation (input) AEER_OUT_OF_MEMORY :: int where "AEER_OUT_OF_MEMORY \<equiv> -6"
abbreviation (input) AEER_NOT_AUTHORIZED :: int where "AEER_NOT_AUTHORIZED \<equiv> -8"

text \<open>\<open>HT_GROUP_AEE + 0\<close> and \<open>HT_GROUP_AEE + 1\<close>.\<close>

abbreviation (input) AEET_PRIMARY_AEE :: u16 where "AEET_PRIMARY_AEE \<equiv> 64"
abbreviation (input) AEET_SECONDARY_AEE :: u16 where "AEET_SECONDARY_AEE \<equiv> 65"
abbreviation (input) HT_GROUP_AEE :: u16 where "HT_GROUP_AEE \<equiv> 64"
abbreviation (input) AEE_NAME_MAX_LENGTH :: nat where "AEE_NAME_MAX_LENGTH \<equiv> 16"
abbreviation (input) PVT_KEY_AEE :: u32 where "PVT_KEY_AEE \<equiv> 1"
abbreviation (input) DBG_ABRT_CANNOT_CREATE_SEMAPHORE :: nat where "DBG_ABRT_CANNOT_CREATE_SEMAPHORE \<equiv> 0"
abbreviation (input) DBG_ABRT_CANNOT_SET_AUTOFREE :: nat where "DBG_ABRT_CANNOT_SET_AUTOFREE \<equiv> 1"
abbreviation (input) DBG_ABRT_INVALID_MESSAGE :: nat where "DBG_ABRT_INVALID_MESSAGE \<equiv> 2"

text \<open>Addresses of functions.  The table of automatic free functions is at an address of its own.\<close>

abbreviation (input) fn_aee_free_handle :: fptr where "fn_aee_free_handle \<equiv> 10"
abbreviation (input) fn_aee_free_secondary_handle :: fptr where "fn_aee_free_secondary_handle \<equiv> 11"
abbreviation (input) fn_aee_aux_free_release_handle :: fptr where "fn_aee_aux_free_release_handle \<equiv> 12"
abbreviation (input) fn_primary_autofree :: fptr where "fn_primary_autofree \<equiv> 13"
abbreviation (input) fn_secondary_autofree :: fptr where "fn_secondary_autofree \<equiv> 14"
abbreviation (input) fn_aee_main :: fptr where "fn_aee_main \<equiv> 15"
abbreviation (input) fn_aee_thread_create_main :: fptr where "fn_aee_thread_create_main \<equiv> 16"
abbreviation (input) apf_autofree_fcts :: ptr where "apf_autofree_fcts \<equiv> 17"

record aee =
  ae_next :: ptr
  ae_app :: handle
  ae_parent_app :: handle
  ae_aux :: handle
  ae_msg_queue :: ptr
  ae_thread :: ptr
  ae_flags :: "64 Word.word"
  ae_group_id :: u32
  ae_app_id :: u32
  ae_receive_data :: fptr
  ae_name :: string

text \<open>\<open>aee_bufs\<close> are the buffers that the code allocates for copies of arguments and for messages.\<close>

record aee_sys = hlib +
  aee_objs :: "ptr \<Rightarrow> aee option"
  pt_aees :: ptr
  b_aee_init :: bool
  aee_thr :: threads
  aee_qs :: msgq_sys
  aee_bufs :: "ptr \<Rightarrow> u8 list option"

record aee_app_desc =
  ds_flags :: "64 Word.word"
  ds_app_id :: u32
  ds_stack_size :: u32
  ds_priority :: u8
  ds_receive_data :: fptr
  ds_main :: fptr
  ds_arg :: "u8 list option"
  ds_group_id :: u32

text \<open>What the system returns to one call: the memory it allocates, how it creates the thread, the calling
  thread, the results of locking and of destroying a mutex, the values of variables that nothing has initialised, and what
  other threads make of each byte of a static buffer between this call's write and its read.\<close>

record app_env =
  ev_realloc :: "ptr \<Rightarrow> u32 \<Rightarrow> ptr"
  ev_aee :: ptr
  ev_arg :: ptr
  ev_buf :: ptr
  ev_queue :: ptr
  ev_thread :: ptr
  ev_pvt :: ptr
  ev_started :: "(tid \<times> int) option"
  ev_stack_min :: u32
  ev_stack_max :: "u32 option"
  ev_self :: tid
  ev_self_pri :: int
  ev_lock :: int
  ev_destroy :: bool
  ev_junk :: "nat \<Rightarrow> nat"
  ev_race :: "nat \<Rightarrow> u8 \<Rightarrow> u8"

definition upd_aee :: "ptr \<Rightarrow> aee \<Rightarrow> 'w aee_sys_scheme \<Rightarrow> 'w aee_sys_scheme" where
  "upd_aee p a s = s\<lparr>aee_objs := (aee_objs s)(p \<mapsto> a)\<rparr>"

definition free_buf :: "ptr \<Rightarrow> 'w aee_sys_scheme \<Rightarrow> 'w aee_sys_scheme result" where
  "free_buf p s =
    (if p = NULL then Inr s
     else case aee_bufs s p of None \<Rightarrow> Inl BadAccess | Some _ \<Rightarrow> Inr (s\<lparr>aee_bufs := (aee_bufs s)(p := None)\<rparr>))"

section \<open>The list\<close>

definition aee_add :: "ptr \<Rightarrow> 'w aee_sys_scheme \<Rightarrow> 'w aee_sys_scheme result" where
  "aee_add p s = (case aee_objs s p of
     None \<Rightarrow> Inl BadAccess
   | Some a \<Rightarrow> Inr ((upd_aee p (a\<lparr>ae_next := pt_aees s\<rparr>) s)\<lparr>pt_aees := p\<rparr>))"

text \<open>The pointer to a link: the head of the list, or the link of an object.\<close>

definition get_link :: "ptr option \<Rightarrow> 'w aee_sys_scheme \<Rightarrow> ptr result" where
  "get_link l s = (case l of None \<Rightarrow> Inr (pt_aees s)
   | Some q \<Rightarrow> (case aee_objs s q of None \<Rightarrow> Inl BadAccess | Some a \<Rightarrow> Inr (ae_next a)))"

definition set_link :: "ptr option \<Rightarrow> ptr \<Rightarrow> 'w aee_sys_scheme \<Rightarrow> 'w aee_sys_scheme result" where
  "set_link l v s = (case l of None \<Rightarrow> Inr (s\<lparr>pt_aees := v\<rparr>)
   | Some q \<Rightarrow> (case aee_objs s q of None \<Rightarrow> Inl BadAccess | Some a \<Rightarrow> Inr (upd_aee q (a\<lparr>ae_next := v\<rparr>) s)))"

partial_function (option) remove_loop :: "ptr \<Rightarrow> ptr option \<Rightarrow> 'w aee_sys_scheme \<Rightarrow> 'w aee_sys_scheme result option" where
  "remove_loop t l s = (case get_link l s of
     Inl e \<Rightarrow> Some (Inl e)
   | Inr p \<Rightarrow>
     if p = NULL then Some (Inr s)
     else if p = t then Some (case aee_objs s t of None \<Rightarrow> Inl BadAccess | Some a \<Rightarrow> set_link l (ae_next a) s)
     else remove_loop t (Some p) s)"

declare remove_loop.simps [code]

definition aee_remove :: "ptr \<Rightarrow> 'w aee_sys_scheme \<Rightarrow> 'w aee_sys_scheme result" where
  "aee_remove p s = run_loop (remove_loop p None s)"

text \<open>The loops that look for an object.\<close>

partial_function (option) find_loop :: "(aee \<Rightarrow> bool) \<Rightarrow> ptr \<Rightarrow> 'w aee_sys_scheme \<Rightarrow> ptr result option" where
  "find_loop P p s =
    (if p = NULL then Some (Inr NULL)
     else case aee_objs s p of
       None \<Rightarrow> Some (Inl BadAccess)
     | Some a \<Rightarrow> if P a then Some (Inr p) else find_loop P (ae_next a) s)"

declare find_loop.simps [code]

definition aee_find_by_name :: "string \<Rightarrow> 'w aee_sys_scheme \<Rightarrow> ptr result" where
  "aee_find_by_name nm s = run_loop (find_loop (\<lambda>a. ae_name a = nm) (pt_aees s) s)"

partial_function (option) clean_loop :: "handle \<Rightarrow> ptr \<Rightarrow> 'w aee_sys_scheme \<Rightarrow> 'w aee_sys_scheme result option" where
  "clean_loop h p s =
    (if p = NULL then Some (Inr s)
     else case aee_objs s p of
       None \<Rightarrow> Some (Inl BadAccess)
     | Some a \<Rightarrow> clean_loop h (ae_next a) (if ae_parent_app a = h then upd_aee p (a\<lparr>ae_parent_app := NULL_HANDLE\<rparr>) s else s))"

declare clean_loop.simps [code]

definition aee_clean_relationships :: "handle \<Rightarrow> ptr \<Rightarrow> 'w aee_sys_scheme \<Rightarrow> 'w aee_sys_scheme result" where
  "aee_clean_relationships h p s = (case aee_objs s p of
     None \<Rightarrow> Inl BadAccess
   | Some a \<Rightarrow> if ae_parent_app a \<noteq> NULL_HANDLE then run_loop (clean_loop h (pt_aees s) s) else Inr s)"

section \<open>Freeing\<close>

text \<open>\<open>other\<close>, \<open>other_auto\<close> are the callbacks of other modules, \<open>other_tbl\<close> their tables of automatic free functions.
  The callbacks that run inside the callback of a primary handle are those of secondary handles.\<close>

record 'w callbacks =
  other_free :: "(fptr \<Rightarrow> handle \<Rightarrow> u16 \<Rightarrow> ptr \<Rightarrow> ptr \<Rightarrow> bool \<Rightarrow> 'w aee_sys_scheme \<Rightarrow> (bool \<times> 'w aee_sys_scheme) result)"
  other_aux_free :: "(fptr \<Rightarrow> ptr \<Rightarrow> 'w aee_sys_scheme \<Rightarrow> 'w aee_sys_scheme result)"
  other_auto :: "(fptr \<Rightarrow> handle \<Rightarrow> u16 \<Rightarrow> 'w aee_sys_scheme \<Rightarrow> (int \<times> 'w aee_sys_scheme) result)"
  other_tbl :: "ptr \<Rightarrow> nat \<Rightarrow> fptr"

definition aee_free_secondary_handle ::
  "handle \<Rightarrow> u16 \<Rightarrow> ptr \<Rightarrow> ptr \<Rightarrow> bool \<Rightarrow> 'w aee_sys_scheme \<Rightarrow> (bool \<times> 'w aee_sys_scheme) result" where
  "aee_free_secondary_handle h ty obj tag req s = Inr (True, s)"

definition aee_aux_free_release_handle :: "ptr \<Rightarrow> 'w aee_sys_scheme \<Rightarrow> 'w aee_sys_scheme result" where
  "aee_aux_free_release_handle obj s = Inr s"

definition inner_free :: "'w callbacks \<Rightarrow> fptr \<Rightarrow> handle \<Rightarrow> u16 \<Rightarrow> ptr \<Rightarrow> ptr \<Rightarrow> bool \<Rightarrow> 'w aee_sys_scheme \<Rightarrow> (bool \<times> 'w aee_sys_scheme) result" where
  "inner_free cbs f h ty obj tag req s =
    (if f = fn_aee_free_secondary_handle then aee_free_secondary_handle h ty obj tag req s
     else other_free cbs f h ty obj tag req s)"

definition aux_free :: "'w callbacks \<Rightarrow> fptr \<Rightarrow> ptr \<Rightarrow> 'w aee_sys_scheme \<Rightarrow> 'w aee_sys_scheme result" where
  "aux_free cbs f obj s =
    (if f = fn_aee_aux_free_release_handle then aee_aux_free_release_handle obj s else other_aux_free cbs f obj s)"

definition aee_primary_handle_autofree :: "handle \<Rightarrow> u16 \<Rightarrow> 'w aee_sys_scheme \<Rightarrow> (int \<times> 'w aee_sys_scheme) result" where
  "aee_primary_handle_autofree h ty s = Inr (HR_OK, s)"

definition aee_secondary_handle_autofree :: "'w callbacks \<Rightarrow> handle \<Rightarrow> u16 \<Rightarrow> 'w aee_sys_scheme \<Rightarrow> (int \<times> 'w aee_sys_scheme) result" where
  "aee_secondary_handle_autofree cbs h ty s = u_handle_free (inner_free cbs) (aux_free cbs) h False s"

definition autofree :: "'w callbacks \<Rightarrow> fptr \<Rightarrow> handle \<Rightarrow> u16 \<Rightarrow> 'w aee_sys_scheme \<Rightarrow> (int \<times> 'w aee_sys_scheme) result" where
  "autofree cbs f h ty s =
    (if f = fn_primary_autofree then aee_primary_handle_autofree h ty s
     else if f = fn_secondary_autofree then aee_secondary_handle_autofree cbs h ty s
     else other_auto cbs f h ty s)"

definition autofree_tbl :: "'w callbacks \<Rightarrow> ptr \<Rightarrow> nat \<Rightarrow> fptr" where
  "autofree_tbl cbs p i =
    (if p = apf_autofree_fcts then (if i = 0 then fn_primary_autofree else if i = 1 then fn_secondary_autofree else NULL)
     else other_tbl cbs p i)"

text \<open>The handle after \<open>h\<close> in its auxiliary list; the variable keeps \<open>NULL_HANDLE\<close> when the call fails.\<close>

definition next_aux :: "handle \<Rightarrow> 'w aee_sys_scheme \<Rightarrow> handle \<times> 'w aee_sys_scheme" where
  "next_aux h s = (case u_handle_next_aux_linked h True s of (r, out, s) \<Rightarrow>
     (case out of None \<Rightarrow> NULL_HANDLE | Some h' \<Rightarrow> h', s))"

partial_function (option) free_aux_loop :: "'w callbacks \<Rightarrow> handle \<Rightarrow> 'w aee_sys_scheme \<Rightarrow> 'w aee_sys_scheme result option" where
  "free_aux_loop cbs h s =
    (if h = NULL_HANDLE then Some (Inr s)
     else let n = next_aux h s in
       case then_do (u_handle_delink_from_aux (aux_free cbs) h (snd n)) (\<lambda>(r, s).
              u_handle_autofree (autofree cbs) (autofree_tbl cbs) h s) of
         Inl e \<Rightarrow> Some (Inl e)
       | Inr s' \<Rightarrow> free_aux_loop cbs (fst n) s')"

declare free_aux_loop.simps [code]

definition aee_free_handle :: "'w callbacks \<Rightarrow> handle \<Rightarrow> u16 \<Rightarrow> ptr \<Rightarrow> ptr \<Rightarrow> bool \<Rightarrow> 'w aee_sys_scheme \<Rightarrow> (bool \<times> 'w aee_sys_scheme) result" where
  "aee_free_handle cbs h ty obj tag req s =
    (if req then Inr (False, s)
     else case aee_objs s obj of
       None \<Rightarrow> Inl BadAccess
     | Some a \<Rightarrow>
       let (h0, s) = next_aux (ae_aux a) s in
       then_do (run_loop (free_aux_loop cbs h0 s)) (\<lambda>s.
       then_do (u_handle_free (inner_free cbs) (aux_free cbs) (ae_aux a) False s) (\<lambda>(r, s).
       then_do (aee_clean_relationships h obj s) (\<lambda>s.
         Inr (True, s\<lparr>aee_objs := (aee_objs s)(obj := None)\<rparr>)))))"

definition free_cb :: "'w callbacks \<Rightarrow> fptr \<Rightarrow> handle \<Rightarrow> u16 \<Rightarrow> ptr \<Rightarrow> ptr \<Rightarrow> bool \<Rightarrow> 'w aee_sys_scheme \<Rightarrow> (bool \<times> 'w aee_sys_scheme) result" where
  "free_cb cbs f h ty obj tag req s =
    (if f = fn_aee_free_handle then aee_free_handle cbs h ty obj tag req s else inner_free cbs f h ty obj tag req s)"

definition handle_free :: "'w callbacks \<Rightarrow> handle \<Rightarrow> bool \<Rightarrow> 'w aee_sys_scheme \<Rightarrow> (int \<times> 'w aee_sys_scheme) result" where
  "handle_free cbs = u_handle_free (free_cb cbs) (aux_free cbs)"

section \<open>Creating\<close>

text \<open>\<open>sizeof (AEE_MAIN_ARG_T)\<close> is 16: the object, the handle, the main function and its argument.\<close>

definition main_arg :: "ptr \<Rightarrow> handle \<Rightarrow> fptr \<Rightarrow> ptr \<Rightarrow> u8 list" where
  "main_arg p h pf pv = words_bytes [p, unat h, pf, pv]"

definition get_pvt :: "tid \<Rightarrow> 'w aee_sys_scheme \<Rightarrow> (int \<times> ptr option) result" where
  "get_pvt self s = u_thread_get_pvt self PVT_KEY_AEE (aee_thr s)"

definition new_aee :: "aee_app_desc \<Rightarrow> string \<Rightarrow> aee" where
  "new_aee d nm = \<lparr>ae_next = NULL, ae_app = NULL_HANDLE, ae_parent_app = NULL_HANDLE, ae_aux = NULL_HANDLE, ae_msg_queue = NULL,
     ae_thread = NULL, ae_flags = ds_flags d, ae_group_id = ds_group_id d, ae_app_id = ds_app_id d,
     ae_receive_data = ds_receive_data d, ae_name = take AEE_NAME_MAX_LENGTH nm\<rparr>"

definition fail_with :: "'w callbacks \<Rightarrow> int \<Rightarrow> handle \<Rightarrow> 'w aee_sys_scheme \<Rightarrow> (int \<times> handle option \<times> 'w aee_sys_scheme) result" where
  "fail_with cbs r h s = then_do (handle_free cbs h False s) (\<lambda>(_, s). Inr (r, Some h, s))"

text \<open>The last part, with the copy \<open>pv\<close> of the argument.\<close>

definition create_thread :: "'w callbacks \<Rightarrow> app_env \<Rightarrow> aee_app_desc \<Rightarrow> string \<Rightarrow> handle \<Rightarrow> ptr \<Rightarrow> 'w aee_sys_scheme
    \<Rightarrow> (int \<times> handle option \<times> 'w aee_sys_scheme) result" where
  "create_thread cbs e d nm h pv s =
    then_do (get_pvt (ev_self e) s) (\<lambda>(r, parent).
    case aee_objs s (ev_aee e) of
      None \<Rightarrow> Inl BadAccess
    | Some a \<Rightarrow>
      then_do (if r = OSR_OK \<and> parent \<noteq> None \<and> parent \<noteq> Some NULL
               then (case aee_objs s (the parent) of None \<Rightarrow> Inl BadAccess | Some b \<Rightarrow> Inr (ae_app b))
               else Inr NULL_HANDLE) (\<lambda>ph.
      let s = upd_aee (ev_aee e) (a\<lparr>ae_parent_app := ph\<rparr>) s in
      then_do (u_thread_create (ev_stack_min e) (ev_stack_max e) (ev_thread e) (ev_started e) True (Some nm) (ds_stack_size d)
                (ds_priority d) fn_aee_main (Some (main_arg (ev_aee e) h (ds_main d) pv)) (aee_thr s)) (\<lambda>(r, t, th).
        if r = OSR_OK then Inr (AEER_OK, Some h, upd_aee (ev_aee e) (a\<lparr>ae_parent_app := ph, ae_thread := t\<rparr>) (s\<lparr>aee_thr := th\<rparr>))
        else fail_with cbs AEER_FAIL h (s\<lparr>aee_thr := th\<rparr>))))"

text \<open>A failing thread creation leaves the copy of the argument allocated.\<close>

definition aee_create_op :: "'w callbacks \<Rightarrow> app_env \<Rightarrow> aee_app_desc \<Rightarrow> string \<Rightarrow> 'w aee_sys_scheme \<Rightarrow> (int \<times> handle option \<times> 'w aee_sys_scheme) result" where
  "aee_create_op cbs e d nm s =
    (if ev_aee e = NULL then Inr (AEER_OUT_OF_MEMORY, None, s)
     else let s = upd_aee (ev_aee e) (new_aee d nm) s in
       then_do (u_handle_alloc (ev_realloc e) AEET_PRIMARY_AEE (ev_aee e) NULL fn_aee_free_handle True s) (\<lambda>(r, h, s).
         if r \<noteq> HR_OK \<or> h = None then Inr (AEER_OUT_OF_HANDLES, h, s\<lparr>aee_objs := (aee_objs s)(ev_aee e := None)\<rparr>)
         else then_do (u_handle_alloc_aux_link_head (ev_realloc e) (ev_aee e) fn_aee_aux_free_release_handle True s) (\<lambda>(r, ha, s).
           let s = (case (ha, aee_objs s (ev_aee e)) of (Some x, Some a) \<Rightarrow> upd_aee (ev_aee e) (a\<lparr>ae_aux := x\<rparr>) s | _ \<Rightarrow> s) in
           if r \<noteq> HR_OK then fail_with cbs AEER_OUT_OF_HANDLES (the h) s
           else
             let s = (case aee_objs s (ev_aee e) of Some a \<Rightarrow> upd_aee (ev_aee e) (a\<lparr>ae_app := the h\<rparr>) s | _ \<Rightarrow> s) in
             case ds_arg d of
               None \<Rightarrow> create_thread cbs e d nm (the h) NULL s
             | Some bs \<Rightarrow>
               if ev_arg e = NULL then fail_with cbs AEER_FAIL (the h) s
               else create_thread cbs e d nm (the h) (ev_arg e) (s\<lparr>aee_bufs := (aee_bufs s)(ev_arg e \<mapsto> bs)\<rparr>))))"

definition u_aee_create :: "'w callbacks \<Rightarrow> app_env \<Rightarrow> aee_app_desc option \<Rightarrow> string option \<Rightarrow> bool \<Rightarrow> 'w aee_sys_scheme
    \<Rightarrow> (int \<times> handle option \<times> 'w aee_sys_scheme) result" where
  "u_aee_create cbs e pt_desc ps_name ph s = (case (pt_desc, ps_name) of
     (Some d, Some nm) \<Rightarrow> if \<not> ph \<or> ds_main d = NULL then Inr (AEER_INV_ARG, None, s) else aee_create_op cbs e d nm s
   | _ \<Rightarrow> Inr (AEER_INV_ARG, None, s))"

section \<open>The threads of an application\<close>

text \<open>The start of the thread: whether the main function of the application is called, with its handle and argument.\<close>

definition aee_main_start :: "app_env \<Rightarrow> u8 list \<Rightarrow> 'w aee_sys_scheme \<Rightarrow> ((fptr \<times> handle \<times> ptr) option \<times> 'w aee_sys_scheme) result" where
  "aee_main_start e arg s =
    then_do (aee_add (get_word arg 0) s) (\<lambda>s.
    then_do (u_thread_set_pvt (ev_pvt e) (ev_self e) PVT_KEY_AEE NULL (get_word arg 0) (aee_thr s)) (\<lambda>(r, th).
      Inr (if r = OSR_OK then Some (get_word arg 2, of_nat (get_word arg 1), get_word arg 3) else None, s\<lparr>aee_thr := th\<rparr>)))"

definition aee_clean_up :: "'w callbacks \<Rightarrow> handle \<Rightarrow> ptr \<Rightarrow> 'w aee_sys_scheme \<Rightarrow> 'w aee_sys_scheme result" where
  "aee_clean_up cbs h p s =
    then_do (aee_remove p s) (\<lambda>s. then_do (handle_free cbs h False s) (\<lambda>(r, s). Inr s))"

definition aee_main_end :: "'w callbacks \<Rightarrow> u8 list \<Rightarrow> 'w aee_sys_scheme \<Rightarrow> 'w aee_sys_scheme result" where
  "aee_main_end cbs arg s =
    then_do (free_buf (get_word arg 3) s) (\<lambda>s. aee_clean_up cbs (of_nat (get_word arg 1)) (get_word arg 0) s)"

text \<open>A further thread of an application; its argument has the fields of \<open>AEE_THREAD_CREATE_ARG_T\<close>, in the same
  order.  Its end cleans up the whole application.\<close>

definition aee_get_info :: "tid \<Rightarrow> 'w aee_sys_scheme \<Rightarrow> (int \<times> (u32 \<times> u32 \<times> ptr) option) result" where
  "aee_get_info self s =
    then_do (get_pvt self s) (\<lambda>(r, p).
      if r = OSR_OK then
        (case aee_objs s (the p) of None \<Rightarrow> Inl BadAccess | Some a \<Rightarrow> Inr (AEER_OK, Some (ae_group_id a, ae_app_id a, the p)))
      else Inr (AEER_FAIL, None))"

definition aee_thread_create :: "app_env \<Rightarrow> bool \<Rightarrow> string option \<Rightarrow> u32 \<Rightarrow> u8 \<Rightarrow> fptr \<Rightarrow> u8 list option \<Rightarrow> 'w aee_sys_scheme
    \<Rightarrow> (int \<times> ptr \<times> 'w aee_sys_scheme) result" where
  "aee_thread_create e ph nm z_stacksize ui1_pri pf_main pv_arg s =
    then_do (aee_get_info (ev_self e) s) (\<lambda>(r, info).
      if r \<noteq> AEER_OK then Inr (AEER_FAIL, NULL, s)
      else let p = snd (snd (the info)) in
        if pv_arg \<noteq> None \<and> ev_arg e = NULL then Inr (AEER_OUT_OF_MEMORY, NULL, s)
        else
          let pv = (if pv_arg = None then NULL else ev_arg e);
              s = (case pv_arg of None \<Rightarrow> s | Some bs \<Rightarrow> s\<lparr>aee_bufs := (aee_bufs s)(ev_arg e \<mapsto> bs)\<rparr>) in
          case aee_objs s p of
            None \<Rightarrow> Inl BadAccess
          | Some a \<Rightarrow>
            then_do (u_thread_create (ev_stack_min e) (ev_stack_max e) (ev_thread e) (ev_started e) ph nm z_stacksize ui1_pri
                      fn_aee_thread_create_main (Some (main_arg p (ae_app a) pf_main pv)) (aee_thr s)) (\<lambda>(r, t, th).
              let s = s\<lparr>aee_thr := th\<rparr> in
              if r \<noteq> OSR_OK then then_do (free_buf pv s) (\<lambda>s. Inr (AEER_FAIL, t, s)) else Inr (AEER_OK, t, s)))"

definition thread_create_main_start :: "app_env \<Rightarrow> u8 list \<Rightarrow> 'w aee_sys_scheme \<Rightarrow> ((fptr \<times> ptr) option \<times> 'w aee_sys_scheme) result" where
  "thread_create_main_start e arg s =
    then_do (u_thread_set_pvt (ev_pvt e) (ev_self e) PVT_KEY_AEE NULL (get_word arg 0) (aee_thr s)) (\<lambda>(r, th).
      Inr (if r = OSR_OK then Some (get_word arg 2, get_word arg 3) else None, s\<lparr>aee_thr := th\<rparr>))"

definition thread_create_main_end :: "'w callbacks \<Rightarrow> u8 list \<Rightarrow> 'w aee_sys_scheme \<Rightarrow> 'w aee_sys_scheme result" where
  "thread_create_main_end cbs arg s =
    then_do (free_buf (get_word arg 3) s) (\<lambda>s. aee_clean_up cbs (of_nat (get_word arg 1)) (get_word arg 0) s)"

section \<open>Handles of other applications\<close>

definition aee_get_handle_op :: "'w callbacks \<Rightarrow> app_env \<Rightarrow> string \<Rightarrow> 'w aee_sys_scheme \<Rightarrow> (int \<times> handle option \<times> 'w aee_sys_scheme) result" where
  "aee_get_handle_op cbs e nm s =
    then_do (u_handle_alloc (ev_realloc e) AEET_SECONDARY_AEE NULL NULL fn_aee_free_secondary_handle True s) (\<lambda>(r, h, s).
      if r \<noteq> HR_OK \<or> h = None then Inr (AEER_OUT_OF_HANDLES, h, s)
      else then_do (aee_find_by_name nm s) (\<lambda>p.
        if p \<noteq> NULL then (case u_handle_set_obj (the h) p s of (_, s) \<Rightarrow> Inr (AEER_OK, h, s))
        else then_do (handle_free cbs (the h) True s) (\<lambda>(_, s). Inr (AEER_FAIL, h, s))))"

text \<open>Nothing has initialised the variable \<open>h_aux\<close>.\<close>

definition u_aee_get_handle :: "'w callbacks \<Rightarrow> app_env \<Rightarrow> string option \<Rightarrow> bool \<Rightarrow> 'w aee_sys_scheme \<Rightarrow> (int \<times> handle option \<times> 'w aee_sys_scheme) result" where
  "u_aee_get_handle cbs e ps_name ph s = (case ps_name of
     None \<Rightarrow> Inr (AEER_INV_NAME, None, s)
   | Some nm \<Rightarrow>
     if \<not> ph then Inr (AEER_INV_ARG, None, s)
     else then_do (aee_get_handle_op cbs e nm s) (\<lambda>(r, h, s).
       if r = AEER_OK then (case u_handle_link_to_aux (of_nat (ev_junk e 0)) (the h) s of (_, s) \<Rightarrow> Inr (r, h, s)) else Inr (r, h, s)))"

definition u_aee_free_handle :: "'w callbacks \<Rightarrow> handle option \<Rightarrow> 'w aee_sys_scheme \<Rightarrow> (int \<times> 'w aee_sys_scheme) result" where
  "u_aee_free_handle cbs ph s = (case ph of None \<Rightarrow> Inl BadAccess | Some h \<Rightarrow> handle_free cbs h True s)"

text \<open>The object behind a handle of either kind.\<close>

definition aee_of :: "handle \<Rightarrow> 'w aee_sys_scheme \<Rightarrow> ptr option \<times> 'w aee_sys_scheme" where
  "aee_of h s = (case u_handle_get_type_obj h True True s of (r, out, s) \<Rightarrow>
     (case out of
        Some (ty, p) \<Rightarrow> (if r = HR_OK \<and> (ty = AEET_PRIMARY_AEE \<or> ty = AEET_SECONDARY_AEE) then Some p else None, s)
      | None \<Rightarrow> (None, s)))"

definition with_aee :: "handle \<Rightarrow> 'w aee_sys_scheme \<Rightarrow> 'b \<Rightarrow> (ptr \<Rightarrow> aee \<Rightarrow> 'w aee_sys_scheme \<Rightarrow> ('b \<times> 'w aee_sys_scheme) result) \<Rightarrow> ('b \<times> 'w aee_sys_scheme) result" where
  "with_aee h s no f = (case aee_of h s of (p, s) \<Rightarrow>
     (case p of None \<Rightarrow> Inr (no, s)
      | Some p \<Rightarrow> (case aee_objs s p of None \<Rightarrow> Inl BadAccess | Some a \<Rightarrow> f p a s)))"

definition aee_get_msg_queue :: "handle \<Rightarrow> 'w aee_sys_scheme \<Rightarrow> ((int \<times> ptr) \<times> 'w aee_sys_scheme) result" where
  "aee_get_msg_queue h s = with_aee h s (AEER_INV_HANDLE, NULL) (\<lambda>p a s. Inr ((AEER_OK, ae_msg_queue a), s))"

definition aee_set_msg_queue :: "handle \<Rightarrow> ptr \<Rightarrow> 'w aee_sys_scheme \<Rightarrow> (int \<times> 'w aee_sys_scheme) result" where
  "aee_set_msg_queue h q s = with_aee h s AEER_INV_HANDLE (\<lambda>p a s. Inr (AEER_OK, upd_aee p (a\<lparr>ae_msg_queue := q\<rparr>) s))"

definition aee_get_thread :: "handle \<Rightarrow> 'w aee_sys_scheme \<Rightarrow> ((int \<times> ptr) \<times> 'w aee_sys_scheme) result" where
  "aee_get_thread h s = with_aee h s (AEER_INV_HANDLE, NULL) (\<lambda>p a s. Inr ((AEER_OK, ae_thread a), s))"

text \<open>\<open>rcv\<close> are the functions that receive data; what they return is ignored.\<close>

definition aee_send_data_op :: "(fptr \<Rightarrow> handle \<Rightarrow> u32 \<Rightarrow> u8 list option \<Rightarrow> u32 \<Rightarrow> 'w aee_sys_scheme \<Rightarrow> (int \<times> 'w aee_sys_scheme) result)
    \<Rightarrow> handle \<Rightarrow> u32 \<Rightarrow> u8 list option \<Rightarrow> u32 \<Rightarrow> 'w aee_sys_scheme \<Rightarrow> (int \<times> 'w aee_sys_scheme) result" where
  "aee_send_data_op rcv h ui4_data pv z s =
    with_aee h s AEER_INV_HANDLE (\<lambda>p a s. then_do (rcv (ae_receive_data a) h ui4_data pv z s) (\<lambda>(_, s). Inr (AEER_OK, s)))"

definition u_aee_send_data :: "(fptr \<Rightarrow> handle \<Rightarrow> u32 \<Rightarrow> u8 list option \<Rightarrow> u32 \<Rightarrow> 'w aee_sys_scheme \<Rightarrow> (int \<times> 'w aee_sys_scheme) result)
    \<Rightarrow> handle \<Rightarrow> u32 \<Rightarrow> u8 list option \<Rightarrow> u32 \<Rightarrow> 'w aee_sys_scheme \<Rightarrow> (int \<times> 'w aee_sys_scheme) result" where
  "u_aee_send_data = aee_send_data_op"

definition aee_get_app_handle :: "ptr \<Rightarrow> 'w aee_sys_scheme \<Rightarrow> (int \<times> handle option) result" where
  "aee_get_app_handle h_thread s =
    (if pt_aees s = NULL then Inr (AEER_NOT_AUTHORIZED, None)
     else then_do (run_loop (find_loop (\<lambda>a. ae_thread a = h_thread) (pt_aees s) s)) (\<lambda>p.
       if p = NULL then Inr (AEER_INV_HANDLE, None)
       else case aee_objs s p of None \<Rightarrow> Inl BadAccess | Some a \<Rightarrow> Inr (AEER_OK, Some (ae_app a))))"

definition aee_get_name :: "tid \<Rightarrow> 'w aee_sys_scheme \<Rightarrow> string option result" where
  "aee_get_name self s =
    then_do (get_pvt self s) (\<lambda>(r, p).
      if r = OSR_OK then (case aee_objs s (the p) of None \<Rightarrow> Inl BadAccess | Some a \<Rightarrow> Inr (Some (ae_name a))) else Inr None)"

section \<open>Start and end\<close>

text \<open>\<open>sema\<close> is what the semaphore call returns.  The code never sets \<open>b_aee_init\<close>, and stops on an error of the
  registration of the table.\<close>

definition aee_init :: "int \<Rightarrow> 'w aee_sys_scheme \<Rightarrow> (int \<times> 'w aee_sys_scheme) result" where
  "aee_init sema s =
    (if b_aee_init s then Inr (AEER_OK, s)
     else if sema \<noteq> OSR_OK then Inl (Aborted DBG_ABRT_CANNOT_CREATE_SEMAPHORE)
     else case u_handle_set_autofree_tbl HT_GROUP_AEE apf_autofree_fcts s of (r, s) \<Rightarrow>
       if r \<noteq> HR_OK then Inl (Aborted DBG_ABRT_CANNOT_SET_AUTOFREE) else Inr (AEER_OK, s))"

definition aee_uninit :: "int \<Rightarrow> 'w aee_sys_scheme \<Rightarrow> (int \<times> 'w aee_sys_scheme) result" where
  "aee_uninit sema s =
    (if b_aee_init s then
       (if sema \<noteq> OSR_OK then Inl (Aborted DBG_ABRT_CANNOT_CREATE_SEMAPHORE) else Inr (AEER_OK, s\<lparr>b_aee_init := False\<rparr>))
     else Inr (AEER_OK, s))"

end
