(* ===== verification/AppMan.thy ===== *)
theory AppMan
  imports Aee
begin

text \<open>Applications that serve a message queue, am/aee/appman.c: the main function of their threads, starting and
  ending them, and sending them messages.  The functions of the applications and of the modules that want to be
  notified are arguments.\<close>

section \<open>Messages\<close>

abbreviation (input) APPMAN_MSG_INIT :: nat where "APPMAN_MSG_INIT \<equiv> 0"
abbreviation (input) APPMAN_MSG_EXIT :: nat where "APPMAN_MSG_EXIT \<equiv> 1"
abbreviation (input) APPMAN_MSG_PROCESS_MSG :: nat where "APPMAN_MSG_PROCESS_MSG \<equiv> 4"
abbreviation (input) APP_NFY_PRE_INIT :: nat where "APP_NFY_PRE_INIT \<equiv> 0"
abbreviation (input) APP_NFY_INIT_OK :: nat where "APP_NFY_INIT_OK \<equiv> 1"
abbreviation (input) APP_NFY_INIT_FAILED :: nat where "APP_NFY_INIT_FAILED \<equiv> 2"
abbreviation (input) APP_NFY_PRE_EXIT :: nat where "APP_NFY_PRE_EXIT \<equiv> 3"
abbreviation (input) APP_NFY_EXIT_OK :: nat where "APP_NFY_EXIT_OK \<equiv> 4"
abbreviation (input) APP_NFY_EXIT_FAILED :: nat where "APP_NFY_EXIT_FAILED \<equiv> 5"
abbreviation (input) APP_NFY_PRE_PROCESS_MSG :: nat where "APP_NFY_PRE_PROCESS_MSG \<equiv> 6"
abbreviation (input) APP_NFY_PROCESS_MSG_OK :: nat where "APP_NFY_PROCESS_MSG_OK \<equiv> 7"
abbreviation (input) APP_NFY_PROCESS_MSG_FAILED :: nat where "APP_NFY_PROCESS_MSG_FAILED \<equiv> 8"
abbreviation (input) APP_EXIT_FORCE :: nat where "APP_EXIT_FORCE \<equiv> 0"
abbreviation (input) APP_EXIT_DEMAND :: nat where "APP_EXIT_DEMAND \<equiv> 1"
abbreviation (input) MAX_USR_MSG_LEN :: nat where "MAX_USR_MSG_LEN \<equiv> 4000"
abbreviation (input) fn_appman_main :: fptr where "fn_appman_main \<equiv> 20"
abbreviation (input) fn_appman_receive_data :: fptr where "fn_appman_receive_data \<equiv> 21"

text \<open>\<open>APP_MSG_HEADER_T\<close> has five words: the command, the function to notify, its argument, and a union of the exit
  mode and of the type and length of a message.\<close>

definition app_header :: "nat \<Rightarrow> fptr \<Rightarrow> ptr \<Rightarrow> nat \<Rightarrow> nat \<Rightarrow> u8 list" where
  "app_header ui4_command pf_nfy pv_tag u0 u1 = words_bytes [ui4_command, pf_nfy, pv_tag, u0, u1]"

abbreviation (input) HEADER_SIZE :: nat where "HEADER_SIZE \<equiv> 20"

lemma length_app_header [simp]: "length (app_header c f t u v) = HEADER_SIZE"
  by (simp add: app_header_def)

text \<open>\<open>APPMAN_MAIN_ARG_T\<close> has six words and the array of the name, padded to words.\<close>

record app_main_arg =
  ma_init :: fptr
  ma_exit :: fptr
  ma_process :: fptr
  ma_queue :: ptr
  ma_buffer :: ptr
  ma_size :: nat
  ma_name :: string

definition name_bytes :: "string \<Rightarrow> u8 list" where
  "name_bytes nm = (let c = take AEE_NAME_MAX_LENGTH nm in map of_char c @ replicate (AEE_NAME_MAX_LENGTH + 1 - length c) 0)"

definition bytes_name :: "u8 list \<Rightarrow> string" where
  "bytes_name bs = map (\<lambda>b. char_of (unat b)) (takeWhile (\<lambda>b. b \<noteq> 0) bs)"

definition main_arg_bytes :: "app_main_arg \<Rightarrow> u8 list" where
  "main_arg_bytes a = words_bytes [ma_init a, ma_exit a, ma_process a, ma_queue a, ma_buffer a, ma_size a] @
     name_bytes (ma_name a) @ [0, 0, 0]"

definition read_main_arg :: "u8 list \<Rightarrow> app_main_arg" where
  "read_main_arg bs = \<lparr>ma_init = get_word bs 0, ma_exit = get_word bs 1, ma_process = get_word bs 2, ma_queue = get_word bs 3,
     ma_buffer = get_word bs 4, ma_size = get_word bs 5, ma_name = bytes_name (drop 24 bs)\<rparr>"

section \<open>The main function\<close>

record 'w app_calls =
  call_nfy :: "fptr \<Rightarrow> handle \<Rightarrow> ptr \<Rightarrow> nat \<Rightarrow> 'w aee_sys_scheme \<Rightarrow> (bool \<times> 'w aee_sys_scheme) result"
  call_init :: "fptr \<Rightarrow> string \<Rightarrow> handle \<Rightarrow> 'w aee_sys_scheme \<Rightarrow> (int \<times> 'w aee_sys_scheme) result"
  call_exit :: "fptr \<Rightarrow> handle \<Rightarrow> nat \<Rightarrow> 'w aee_sys_scheme \<Rightarrow> (int \<times> 'w aee_sys_scheme) result"
  call_process :: "fptr \<Rightarrow> handle \<Rightarrow> u32 \<Rightarrow> u8 list option \<Rightarrow> nat \<Rightarrow> bool \<Rightarrow> 'w aee_sys_scheme \<Rightarrow> (int \<times> 'w aee_sys_scheme) result"

text \<open>A notification, if the message names a function, and what it answers.\<close>

definition notify :: "'w app_calls \<Rightarrow> fptr \<Rightarrow> handle \<Rightarrow> ptr \<Rightarrow> nat \<Rightarrow> 'w aee_sys_scheme \<Rightarrow> (bool \<times> 'w aee_sys_scheme) result" where
  "notify c f h tag reason s = (if f = NULL then Inr (False, s) else call_nfy c f h tag reason s)"

text \<open>The message in the buffer \<open>m\<close>.  The result is \<open>b_exit\<close>, which is false at the start of a turn.\<close>

definition app_handle_msg :: "'w app_calls \<Rightarrow> handle \<Rightarrow> app_main_arg \<Rightarrow> u8 list \<Rightarrow> 'w aee_sys_scheme \<Rightarrow> (bool \<times> 'w aee_sys_scheme) result" where
  "app_handle_msg c h a m s =
    (let cmd = get_word m 0; f = get_word m 1; tag = get_word m 2 in
     if cmd = APPMAN_MSG_PROCESS_MSG then
       then_do (notify c f h tag APP_NFY_PRE_PROCESS_MSG s) (\<lambda>(skip, s).
       if skip then Inr (False, s)
       else then_do (call_process c (ma_process a) h (of_nat (get_word m 3))
                  (if get_word m 4 \<noteq> 0 then Some (drop HEADER_SIZE m) else None) (get_word m 4) False s) (\<lambda>(r, s).
         then_do (notify c f h tag (if r = AEER_OK then APP_NFY_PROCESS_MSG_OK else APP_NFY_PROCESS_MSG_FAILED) s) (\<lambda>(_, s).
         Inr (False, s))))
     else if cmd = APPMAN_MSG_EXIT then
       then_do (notify c f h tag APP_NFY_PRE_EXIT s) (\<lambda>(skip, s).
       if skip then Inr (False, s)
       else then_do (call_exit c (ma_exit a) h (get_word m 3) s) (\<lambda>(r, s).
         then_do (notify c f h tag (if r = AEER_OK then APP_NFY_EXIT_OK else APP_NFY_EXIT_FAILED) s) (\<lambda>(_, s).
         Inr (r = AEER_OK, s))))
     else if cmd = APPMAN_MSG_INIT then
       then_do (notify c f h tag APP_NFY_PRE_INIT s) (\<lambda>(b_exit, s).
       if b_exit then Inr (True, s)
       else then_do (call_init c (ma_init a) (ma_name a) h s) (\<lambda>(r, s).
         then_do (notify c f h tag (if r = AEER_OK then APP_NFY_INIT_OK else APP_NFY_INIT_FAILED) s) (\<lambda>(_, s).
         Inr (r \<noteq> AEER_OK, s))))
     else Inl (Aborted DBG_ABRT_INVALID_MESSAGE))"

text \<open>One turn of the loop.  A message covers the start of the buffer.\<close>

definition appman_turn :: "'w app_calls \<Rightarrow> app_env \<Rightarrow> handle \<Rightarrow> app_main_arg \<Rightarrow> 'w aee_sys_scheme
    \<Rightarrow> (bool \<times> 'w aee_sys_scheme) waits result" where
  "appman_turn c e h a s =
    then_do (x_msg_q_receive 4 (ev_lock e) True (ma_buffer a \<noteq> NULL) (Some (ma_size a)) (Some [ma_queue a]) 1 X_MSGQ_OPTION_WAIT (aee_qs s))
      (\<lambda>w. case w of
         Waiting \<Rightarrow> Inr Waiting
       | Returned (r, bs, q) \<Rightarrow>
         if r \<noteq> OSR_OK then Inr (Returned (True, s\<lparr>aee_qs := q\<rparr>))
         else (case aee_bufs s (ma_buffer a) of
           None \<Rightarrow> Inl BadAccess
         | Some old \<Rightarrow>
           let m = bs @ drop (length bs) old in
           then_do (app_handle_msg c h a m (s\<lparr>aee_qs := q, aee_bufs := (aee_bufs s)(ma_buffer a \<mapsto> m)\<rparr>)) (\<lambda>x. Inr (Returned x))))"

text \<open>The start of the main function, with the copy of its argument at \<open>pv\<close>, and its end.\<close>

definition appman_main_start :: "ptr \<Rightarrow> 'w aee_sys_scheme \<Rightarrow> app_main_arg result" where
  "appman_main_start pv s = (case aee_bufs s pv of None \<Rightarrow> Inl BadAccess | Some bs \<Rightarrow> Inr (read_main_arg bs))"

definition appman_main_end :: "app_env \<Rightarrow> app_main_arg \<Rightarrow> 'w aee_sys_scheme \<Rightarrow> 'w aee_sys_scheme result" where
  "appman_main_end e a s =
    then_do (free_buf (ma_buffer a) s) (\<lambda>s.
    then_do (x_msg_q_delete (ev_destroy e) (ma_queue a) (aee_qs s)) (\<lambda>(_, q). Inr (s\<lparr>aee_qs := q\<rparr>)))"

section \<open>Sending\<close>

definition app_result :: "int \<Rightarrow> int" where
  "app_result r = (if r = OSR_OK then AEER_OK else AEER_FAIL)"

definition appman_send_msg :: "app_env \<Rightarrow> handle \<Rightarrow> u8 list \<Rightarrow> 'w aee_sys_scheme \<Rightarrow> (int \<times> 'w aee_sys_scheme) result" where
  "appman_send_msg e h hdr s =
    then_do (aee_get_msg_queue h s) (\<lambda>((r, q), s).
      if r \<noteq> AEER_OK then Inr (r, s)
      else then_do (x_msg_q_send 4 (ev_lock e) q (Some hdr) HEADER_SIZE (aee_qs s)) (\<lambda>(r, qs).
        Inr (app_result r, s\<lparr>aee_qs := qs\<rparr>)))"

text \<open>The size of the static buffer that a thread uses which the OS layer cannot name.  All such threads share it and
  nothing locks it: what is sent is what \<open>ev_race\<close> has made of it since this call has filled it.  The other
  threads have their buffer on the stack.\<close>

definition two_parts_buffer :: nat where
  "two_parts_buffer = (4095 + 3) div 4 * 4"

definition msg_q_send_2_parts :: "app_env \<Rightarrow> ptr \<Rightarrow> u8 list \<Rightarrow> nat \<Rightarrow> u8 list option \<Rightarrow> nat \<Rightarrow> 'w aee_sys_scheme
    \<Rightarrow> (int \<times> 'w aee_sys_scheme) result" where
  "msg_q_send_2_parts e q p1 z1 p2 z2 s =
    (if p2 \<noteq> None \<and> z2 \<noteq> 0 then
       (case u_thread_self (ev_thread e) (ev_self_pri e) (ev_self e) True (aee_thr s) of (r, _, th) \<Rightarrow>
        let s = s\<lparr>aee_thr := th\<rparr> in
        if r = OSR_OK \<and> ev_buf e = NULL then Inr (OSR_NO_RESOURCE, s)
        else if length p1 < z1 \<or> length (the p2) < z2 \<or> (r \<noteq> OSR_OK \<and> two_parts_buffer < z1 + z2) then Inl BadAccess
        else let m = take z1 p1 @ take z2 (the p2);
                 m = (if r = OSR_OK then m else map (\<lambda>i. ev_race e i (m ! i)) [0..<z1 + z2]) in
          then_do (x_msg_q_send 4 (ev_lock e) q (Some m) (z1 + z2) (aee_qs s)) (\<lambda>(r, qs). Inr (r, s\<lparr>aee_qs := qs\<rparr>)))
     else then_do (x_msg_q_send 4 (ev_lock e) q (Some p1) z1 (aee_qs s)) (\<lambda>(r, qs). Inr (r, s\<lparr>aee_qs := qs\<rparr>)))"

definition u_app_send_msg :: "app_env \<Rightarrow> handle \<Rightarrow> u32 \<Rightarrow> u8 list option \<Rightarrow> nat \<Rightarrow> fptr \<Rightarrow> ptr \<Rightarrow> 'w aee_sys_scheme
    \<Rightarrow> (int \<times> 'w aee_sys_scheme) result" where
  "u_app_send_msg e h ui4_type pv_msg z_msg_len pf_nfy pv_tag s =
    then_do (aee_get_msg_queue h s) (\<lambda>((r, q), s).
      if r \<noteq> AEER_OK then Inr (r, s)
      else
        let z = (if pv_msg \<noteq> None \<and> z_msg_len \<noteq> 0 then z_msg_len else 0);
            pv_msg = (if z = 0 then None else pv_msg) in
        then_do (msg_q_send_2_parts e q (app_header APPMAN_MSG_PROCESS_MSG pf_nfy pv_tag (unat ui4_type) z) HEADER_SIZE
          pv_msg z_msg_len s) (\<lambda>(r, s). Inr (app_result r, s)))"

text \<open>\<open>APPMSG_T\<close> has two words before the user's message; the memory that \<open>malloc\<close> returns is arbitrary.\<close>

definition u_app_send_appmsg :: "app_env \<Rightarrow> handle \<Rightarrow> u32 \<Rightarrow> u32 \<Rightarrow> u32 \<Rightarrow> u8 list option \<Rightarrow> nat \<Rightarrow> 'w aee_sys_scheme
    \<Rightarrow> (int \<times> 'w aee_sys_scheme) result" where
  "u_app_send_appmsg e h e_app_type ui4_sender_id ui4_msg_type p_usr_msg t_size s =
    (if t_size > MAX_USR_MSG_LEN then Inr (AEER_FAIL, s)
     else if ev_arg e = NULL then Inr (AEER_FAIL, s)
     else if p_usr_msg \<noteq> None \<and> length (the p_usr_msg) < t_size then Inl BadAccess
     else
       let body = (case p_usr_msg of None \<Rightarrow> map (\<lambda>i. of_nat (ev_junk e i)) [0..<t_size] | Some bs \<Rightarrow> take t_size bs) in
       u_app_send_msg e h e_app_type (Some (words_bytes [unat ui4_sender_id, unat ui4_msg_type] @ body)) (8 + t_size) NULL NULL s)"

definition appman_receive_data :: "app_env \<Rightarrow> handle \<Rightarrow> u32 \<Rightarrow> u8 list option \<Rightarrow> u32 \<Rightarrow> 'w aee_sys_scheme
    \<Rightarrow> (int \<times> 'w aee_sys_scheme) result" where
  "appman_receive_data e h ui4_type pv_data z_data_len s = u_app_send_msg e h ui4_type pv_data (unat z_data_len) NULL NULL s"

section \<open>Starting and ending\<close>

record app_fct_tbl =
  pf_init :: fptr
  pf_exit :: fptr
  pf_process_msg :: fptr

record app_desc =
  ad_flags :: "64 Word.word"
  ad_stack_size :: u32
  ad_priority :: u8
  ad_num_msgs :: u16
  ad_group_id :: u32
  ad_app_id :: u32
  ad_msg_count :: u16
  ad_max_msg_size :: u16

definition app_start_arg :: "app_fct_tbl \<Rightarrow> app_desc \<Rightarrow> string \<Rightarrow> ptr \<Rightarrow> ptr \<Rightarrow> app_main_arg" where
  "app_start_arg f d nm q buf = \<lparr>ma_init = pf_init f, ma_exit = pf_exit f, ma_process = pf_process_msg f, ma_queue = q,
     ma_buffer = buf, ma_size = HEADER_SIZE + unat (ad_max_msg_size d), ma_name = take AEE_NAME_MAX_LENGTH nm\<rparr>"

definition app_aee_desc :: "app_desc \<Rightarrow> app_main_arg \<Rightarrow> aee_app_desc" where
  "app_aee_desc d a = \<lparr>ds_flags = ad_flags d, ds_app_id = ad_app_id d, ds_stack_size = ad_stack_size d,
     ds_priority = ad_priority d, ds_receive_data = fn_appman_receive_data, ds_main = fn_appman_main,
     ds_arg = Some (main_arg_bytes a), ds_group_id = ad_group_id d\<rparr>"

text \<open>The first message leaves the union of its header uninitialised.\<close>

definition app_start_op :: "'w callbacks \<Rightarrow> app_env \<Rightarrow> app_fct_tbl option \<Rightarrow> app_desc option \<Rightarrow> string option \<Rightarrow> fptr \<Rightarrow> ptr \<Rightarrow> bool
    \<Rightarrow> 'w aee_sys_scheme \<Rightarrow> (int \<times> handle option \<times> 'w aee_sys_scheme) result" where
  "app_start_op cbs e pt_fct_tbl pt_desc ps_name pf_nfy pv_tag ph s = (case (pt_fct_tbl, pt_desc, ps_name) of
     (Some f, Some d, Some nm) \<Rightarrow>
       if \<not> ph \<or> pf_init f = NULL \<or> pf_exit f = NULL \<or> pf_process_msg f = NULL \<or> ad_msg_count d = 0 then Inr (AEER_INV_ARG, None, s)
       else
         let z = HEADER_SIZE + unat (ad_max_msg_size d) in
         if ev_buf e = NULL then Inr (AEER_OUT_OF_MEMORY, None, s)
         else then_do (x_msg_q_create 4 (ev_queue e) True (Some nm) z (ad_msg_count d) (aee_qs s)) (\<lambda>(r, q, qs).
           let s1 = s\<lparr>aee_qs := qs\<rparr> in
           if r \<noteq> OSR_OK then Inr (AEER_FAIL, None, s1)
           else
             let s2 = s1\<lparr>aee_bufs := (aee_bufs s)(ev_buf e \<mapsto> map (\<lambda>i. of_nat (ev_junk e i)) [0..<z])\<rparr> in
             then_do (u_aee_create cbs e (Some (app_aee_desc d (app_start_arg f d nm q (ev_buf e)))) (Some nm) True s2) (\<lambda>(r, h, s).
               if r = AEER_OK then
                 then_do (aee_set_msg_queue (the h) q s) (\<lambda>(_, s).
                 then_do (appman_send_msg e (the h) (app_header APPMAN_MSG_INIT pf_nfy pv_tag (ev_junk e 1) (ev_junk e 2)) s) (\<lambda>(r, s).
                 Inr (r, h, s)))
               else
                 then_do (free_buf (ev_buf e) s) (\<lambda>s.
                 then_do (x_msg_q_delete (ev_destroy e) q (aee_qs s)) (\<lambda>(_, qs). Inr (AEER_FAIL, h, s\<lparr>aee_qs := qs\<rparr>)))))
   | _ \<Rightarrow> Inr (AEER_INV_ARG, None, s))"

definition u_app_start :: "'w callbacks \<Rightarrow> app_env \<Rightarrow> app_fct_tbl option \<Rightarrow> app_desc option \<Rightarrow> string option \<Rightarrow> fptr \<Rightarrow> ptr \<Rightarrow> bool
    \<Rightarrow> 'w aee_sys_scheme \<Rightarrow> (int \<times> handle option \<times> 'w aee_sys_scheme) result" where
  "u_app_start cbs e pt_fct_tbl pt_desc ps_name pf_nfy pv_tag ph s =
    then_do (app_start_op cbs e pt_fct_tbl pt_desc ps_name pf_nfy pv_tag ph s) (\<lambda>(r, h, s).
      if r = AEER_OK then (case u_handle_link_to_aux (of_nat (ev_junk e 0)) (the h) s of (_, s) \<Rightarrow> Inr (r, h, s)) else Inr (r, h, s))"

definition u_app_exit :: "app_env \<Rightarrow> handle \<Rightarrow> nat \<Rightarrow> fptr \<Rightarrow> ptr \<Rightarrow> 'w aee_sys_scheme \<Rightarrow> (int \<times> 'w aee_sys_scheme) result" where
  "u_app_exit e h e_exit_mode pf_nfy pv_tag s =
    appman_send_msg e h (app_header APPMAN_MSG_EXIT pf_nfy pv_tag e_exit_mode (ev_junk e 2)) s"

end
