(* ===== verification/AeeInv.thy ===== *)
theory AeeInv
  imports AppMan
begin

text \<open>What the operations of the execution environment leave alone, the list of the applications as a list, and the
  messages of an application as a bounded queue.\<close>

section \<open>The list of the applications\<close>

definition aee_link :: "'w aee_sys_scheme \<Rightarrow> ptr \<Rightarrow> ptr" where
  "aee_link s p = (case aee_objs s p of None \<Rightarrow> NULL | Some a \<Rightarrow> ae_next a)"

definition aee_list :: "'w aee_sys_scheme \<Rightarrow> ptr list \<Rightarrow> bool" where
  "aee_list s ps \<longleftrightarrow> path (aee_link s) (pt_aees s) ps NULL \<and> distinct ps \<and> NULL \<notin> set ps \<and> set ps \<subseteq> dom (aee_objs s)"

lemma aee_link_upd [simp]: "aee_link (upd_aee p a s) = (aee_link s)(p := ae_next a)"
  by (auto simp: aee_link_def upd_aee_def fun_eq_iff)

lemma upd_aee_simps [simp]:
  "pt_aees (upd_aee p a s) = pt_aees s" "aee_objs (upd_aee p a s) = (aee_objs s)(p \<mapsto> a)"
  "aee_thr (upd_aee p a s) = aee_thr s" "aee_qs (upd_aee p a s) = aee_qs s" "aee_bufs (upd_aee p a s) = aee_bufs s"
  "aee_link (s\<lparr>pt_aees := v\<rparr>) = aee_link s"
  "aee_sys.more (upd_aee p a s) = aee_sys.more s" "hlib.truncate (upd_aee p a s) = hlib.truncate s"
  by (simp_all add: upd_aee_def aee_link_def fun_eq_iff hlib.truncate_def)

text \<open>A change of the links only.\<close>

definition relinked :: "'w aee_sys_scheme \<Rightarrow> 'w aee_sys_scheme \<Rightarrow> bool" where
  "relinked s s' \<longleftrightarrow> hlib.truncate s' = hlib.truncate s \<and> aee_thr s' = aee_thr s \<and> aee_qs s' = aee_qs s \<and>
     aee_bufs s' = aee_bufs s \<and> aee_sys.more s' = aee_sys.more s \<and>
     (\<forall>q. map_option (ae_next_update (\<lambda>_. NULL)) (aee_objs s' q) = map_option (ae_next_update (\<lambda>_. NULL)) (aee_objs s q))"

lemma relinkedI:
  "relinked s s" "relinked s (s\<lparr>pt_aees := v\<rparr>)"
  "aee_objs s p = Some a \<Longrightarrow> relinked s (upd_aee p (a\<lparr>ae_next := v\<rparr>) s)"
  by (simp_all add: relinked_def) (simp add: hlib.truncate_def)

lemma relinked_obj: "relinked s s' \<Longrightarrow> aee_objs s p = Some a \<Longrightarrow> \<exists>v. aee_objs s' p = Some (a\<lparr>ae_next := v\<rparr>)"
proof -
  assume a: "relinked s s'" "aee_objs s p = Some a"
  then have "map_option (ae_next_update (\<lambda>_. NULL)) (aee_objs s' p) = Some (a\<lparr>ae_next := NULL\<rparr>)" by (simp add: relinked_def)
  then obtain b where b: "aee_objs s' p = Some b" "b\<lparr>ae_next := NULL\<rparr> = a\<lparr>ae_next := NULL\<rparr>" by auto
  then have "b = a\<lparr>ae_next := ae_next b\<rparr>" by (cases a, cases b) simp
  then show ?thesis using b(1) by metis
qed

lemma relinked_dom: "relinked s s' \<Longrightarrow> dom (aee_objs s') = dom (aee_objs s)"
proof -
  assume "relinked s s'"
  then have "aee_objs s' q = None \<longleftrightarrow> aee_objs s q = None" for q unfolding relinked_def by (metis map_option_is_None)
  then show ?thesis by (auto simp: dom_def)
qed

lemma aee_list_member: "aee_list s ps \<Longrightarrow> p \<in> set ps \<Longrightarrow> \<exists>a. aee_objs s p = Some a"
  by (auto simp: aee_list_def)

lemma aee_list_add:
  assumes "aee_list s ps" "aee_objs s p = Some a" "p \<noteq> NULL" "p \<notin> set ps"
  shows "\<exists>s'. aee_add p s = Inr s' \<and> aee_list s' (p # ps) \<and> dom (aee_objs s') = dom (aee_objs s)"
  using assms by (auto simp: aee_add_def aee_list_def frame_simps)

lemma find_loop_path:
  assumes "path (aee_link s) p ps NULL" "NULL \<notin> set ps" "set ps \<subseteq> dom (aee_objs s)"
  shows "find_loop P p s = Some (Inr (case find (\<lambda>p. \<exists>a. aee_objs s p = Some a \<and> P a) ps of None \<Rightarrow> NULL | Some x \<Rightarrow> x))"
  using assms
proof (induction ps arbitrary: p)
  case Nil
  then show ?case by (simp add: find_loop.simps)
next
  case (Cons x ps)
  obtain a where a: "aee_objs s x = Some a" using Cons.prems(3) by auto
  then have "aee_link s x = ae_next a" by (simp add: aee_link_def)
  then show ?case using Cons a by (subst find_loop.simps) auto
qed

lemma aee_list_find:
  "aee_list s ps \<Longrightarrow> run_loop (find_loop P (pt_aees s) s) =
     Inr (case find (\<lambda>p. \<exists>a. aee_objs s p = Some a \<and> P a) ps of None \<Rightarrow> NULL | Some x \<Rightarrow> x)"
  unfolding aee_list_def by (subst find_loop_path) auto

text \<open>Removing: the loop has gone past the objects \<open>as\<close> and is at the link of the last of them.\<close>

lemma remove_loop_path:
  assumes "path (aee_link s) (pt_aees s) (as @ ps) NULL" "distinct (as @ ps)" "NULL \<notin> set (as @ ps)"
    and "set (as @ ps) \<subseteq> dom (aee_objs s)" "p \<notin> set as" "l = (if as = [] then None else Some (last as))"
  shows "\<exists>s'. remove_loop p l s = Some (Inr s') \<and> path (aee_link s') (pt_aees s') (as @ remove1 p ps) NULL \<and>
    relinked s s'"
  using assms
proof (induction ps arbitrary: as l)
  case Nil
  have "get_link l s = Inr NULL"
  proof (cases "as = []")
    case True then show ?thesis using Nil by (simp add: get_link_def)
  next
    case False
    then obtain bs b where as: "as = bs @ [b]" by (metis append_butlast_last_id)
    then obtain a where "aee_objs s b = Some a" using Nil.prems(4) by auto
    then show ?thesis using Nil.prems as by (auto simp: get_link_def aee_link_def)
  qed
  then show ?case using Nil relinkedI(1) by (subst remove_loop.simps) auto
next
  case (Cons x ps)
  have g: "get_link l s = Inr x"
  proof (cases "as = []")
    case True then show ?thesis using Cons.prems by (simp add: get_link_def)
  next
    case False
    then obtain bs b where as: "as = bs @ [b]" by (metis append_butlast_last_id)
    then obtain a where "aee_objs s b = Some a" using Cons.prems(4) by auto
    then show ?thesis using Cons.prems as by (auto simp: get_link_def aee_link_def)
  qed
  have x: "x \<noteq> NULL" "x \<notin> set as" "x \<notin> set ps" using Cons.prems(2,3) by auto
  obtain ax where ax: "aee_objs s x = Some ax" using Cons.prems(4) by auto
  show ?case
  proof (cases "x = p")
    case False
    have "\<exists>s'. remove_loop p (Some x) s = Some (Inr s') \<and> path (aee_link s') (pt_aees s') ((as @ [x]) @ remove1 p ps) NULL \<and>
      relinked s s'"
      by (rule Cons.IH) (use Cons.prems False in auto)
    then show ?thesis using g x False by (subst remove_loop.simps) auto
  next
    case True
    have nx: "aee_link s x = ae_next ax" using ax by (simp add: aee_link_def)
    have "\<exists>s'. set_link l (ae_next ax) s = Inr s' \<and> path (aee_link s') (pt_aees s') (as @ ps) NULL \<and>
      relinked s s'"
    proof (cases "as = []")
      case True
      then show ?thesis using Cons.prems nx relinkedI(2) by (auto simp: set_link_def)
    next
      case False
      then obtain bs b where as: "as = bs @ [b]" by (metis append_butlast_last_id)
      then obtain ab where ab: "aee_objs s b = Some ab" using Cons.prems(4) by auto
      have "b \<notin> set bs" "b \<notin> set ps" using Cons.prems(2) as by auto
      moreover have "path (aee_link s) (pt_aees s) bs b" "path (aee_link s) (aee_link s x) ps NULL"
        using Cons.prems(1) as by auto
      ultimately have "path ((aee_link s)(b := ae_next ax)) (pt_aees s) (as @ ps) NULL"
        using as nx by (auto simp: frame_simps)
      then show ?thesis using False as ab Cons.prems(6)
        by (auto simp: set_link_def intro: relinkedI)
    qed
    then show ?thesis using g x True ax by (subst remove_loop.simps) auto
  qed
qed

lemma aee_list_remove:
  assumes "aee_list s ps"
  shows "\<exists>s'. aee_remove p s = Inr s' \<and> aee_list s' (remove1 p ps) \<and> relinked s s'"
proof -
  have "\<exists>s'. remove_loop p None s = Some (Inr s') \<and> path (aee_link s') (pt_aees s') ([] @ remove1 p ps) NULL \<and>
    relinked s s'"
    by (rule remove_loop_path) (use assms in \<open>auto simp: aee_list_def\<close>)
  then show ?thesis using assms set_remove1_subset [of p ps] relinked_dom by (fastforce simp: aee_list_def aee_remove_def)
qed

text \<open>Cutting the ties of the children of an application.\<close>

definition orphan :: "handle \<Rightarrow> aee \<Rightarrow> aee" where
  "orphan h a = (if ae_parent_app a = h then a\<lparr>ae_parent_app := NULL_HANDLE\<rparr> else a)"

lemma clean_loop_path:
  assumes "path (aee_link s) p ps NULL" "distinct ps" "NULL \<notin> set ps" "set ps \<subseteq> dom (aee_objs s)"
  shows "clean_loop h p s = Some (Inr (s\<lparr>aee_objs := \<lambda>q. if q \<in> set ps then map_option (orphan h) (aee_objs s q) else aee_objs s q\<rparr>))"
  using assms
proof (induction ps arbitrary: p s)
  case Nil
  then show ?case by (subst clean_loop.simps) simp
next
  case (Cons x ps)
  obtain a where a: "aee_objs s x = Some a" using Cons.prems(4) by auto
  let ?s = "if ae_parent_app a = h then upd_aee x (a\<lparr>ae_parent_app := NULL_HANDLE\<rparr>) s else s"
  have l: "aee_link s x = ae_next a" using a by (simp add: aee_link_def)
  have link: "aee_link ?s = aee_link s" using l by (auto simp: fun_eq_iff)
  have objs: "aee_objs ?s = (aee_objs s)(x \<mapsto> orphan h a)" using a by (auto simp: orphan_def)
  have "clean_loop h (ae_next a) ?s = Some (Inr (?s\<lparr>aee_objs := \<lambda>q. if q \<in> set ps then map_option (orphan h) (aee_objs ?s q) else aee_objs ?s q\<rparr>))"
    by (rule Cons.IH) (use Cons.prems l link objs in auto)
  moreover have "?s\<lparr>aee_objs := \<lambda>q. if q \<in> set ps then map_option (orphan h) (aee_objs ?s q) else aee_objs ?s q\<rparr> =
      s\<lparr>aee_objs := \<lambda>q. if q \<in> set (x # ps) then map_option (orphan h) (aee_objs s q) else aee_objs s q\<rparr>"
  proof -
    have "(\<lambda>q. if q \<in> set ps then map_option (orphan h) (aee_objs ?s q) else aee_objs ?s q) =
        (\<lambda>q. if q \<in> set (x # ps) then map_option (orphan h) (aee_objs s q) else aee_objs s q)"
      using a Cons.prems(2) unfolding objs by (auto simp: fun_eq_iff)
    then show ?thesis by (simp add: upd_aee_def)
  qed
  moreover have p: "p = x" and "x \<noteq> NULL" using Cons.prems by auto
  ultimately show ?case using a unfolding p by (subst clean_loop.simps) (simp split del: if_split)
qed

lemma aee_clean_relationships_eq:
  assumes "aee_list s ps" "aee_objs s p = Some a"
  shows "aee_clean_relationships h p s = Inr (if ae_parent_app a = NULL_HANDLE then s
    else s\<lparr>aee_objs := \<lambda>q. if q \<in> set ps then map_option (orphan h) (aee_objs s q) else aee_objs s q\<rparr>)"
proof -
  have "clean_loop h (pt_aees s) s = Some (Inr (s\<lparr>aee_objs := \<lambda>q. if q \<in> set ps then map_option (orphan h) (aee_objs s q) else aee_objs s q\<rparr>))"
    by (rule clean_loop_path) (use assms(1) in \<open>auto simp: aee_list_def\<close>)
  then show ?thesis using assms(2) by (simp add: aee_clean_relationships_def)
qed

section \<open>Handles and objects\<close>

lemma more_aee:
  assumes "hlib.more s' = hlib.more s"
  shows "aee_objs s' = aee_objs s" "pt_aees s' = pt_aees s" "aee_thr s' = aee_thr s" "aee_qs s' = aee_qs s"
    "aee_bufs s' = aee_bufs s" "b_aee_init s' = b_aee_init s" "aee_sys.more s' = aee_sys.more s"
  using assms by (cases s, cases s', simp)+

text \<open>\<open>aee_at s h = Some p\<close>: \<open>h\<close> is a handle of one of the two types, for the object at \<open>p\<close>.\<close>

definition aee_at :: "'w aee_sys_scheme \<Rightarrow> handle \<Rightarrow> ptr option" where
  "aee_at s h = (case habs s h of Some (ty, p) \<Rightarrow> if ty = AEET_PRIMARY_AEE \<or> ty = AEET_SECONDARY_AEE then Some p else None
     | None \<Rightarrow> None)"

lemma aee_of_at: "b_init s \<Longrightarrow> aee_of h s = (aee_at s h, s)"
  by (simp add: aee_of_def u_handle_get_type_obj_habs aee_at_def split: option.split prod.split)

lemma with_aee_at: "b_init s \<Longrightarrow> with_aee h s no f =
    (case aee_at s h of None \<Rightarrow> Inr (no, s) | Some p \<Rightarrow> (case aee_objs s p of None \<Rightarrow> Inl BadAccess | Some a \<Rightarrow> f p a s))"
  by (simp add: with_aee_def aee_of_at)

lemma with_aee_gone: "b_init s \<Longrightarrow> aee_at s h = Some p \<Longrightarrow> aee_objs s p = None \<Longrightarrow> with_aee h s no f = Inl BadAccess"
  by (simp add: with_aee_at)

text \<open>The fields of the handle library decide what a handle is.\<close>

lemma hlib_truncate_sel:
  assumes "hlib.truncate s' = hlib.truncate s"
  shows "b_init s' = b_init s" "ctrl s' = ctrl s" "ui2_num_total s' = ui2_num_total s"
proof -
  have "b_init s' = b_init s \<and> arr s' = arr s \<and> ui2_num_total s' = ui2_num_total s"
    using assms unfolding hlib.truncate_def by (simp only: hlib.ext_inject)
  then show "b_init s' = b_init s" "ctrl s' = ctrl s" "ui2_num_total s' = ui2_num_total s" by (simp_all add: ctrl_def fun_eq_iff)
qed

lemma habs_truncate: "hlib.truncate s' = hlib.truncate s \<Longrightarrow> habs s' = habs s"
proof -
  assume t: "hlib.truncate s' = hlib.truncate s"
  note sel = hlib_truncate_sel [OF t]
  have "hflags s' = hflags s" "hcount s' = hcount s" "htype s' = htype s"
    using sel(2) by (simp_all add: hflags_def hcount_def htype_def fun_eq_iff del: field_folds)
  moreover then have "live s' = live s" using sel(3) by (auto simp: live_def active_def fun_eq_iff)
  ultimately show ?thesis by (intro habs_cong) (use sel in auto)
qed

lemma aee_at_truncate: "hlib.truncate s' = hlib.truncate s \<Longrightarrow> aee_at s' = aee_at s"
  by (drule habs_truncate) (simp add: aee_at_def fun_eq_iff)

lemma truncate_upds [simp]:
  "hlib.truncate (s\<lparr>aee_objs := a\<rparr>) = hlib.truncate s" "hlib.truncate (s\<lparr>pt_aees := b\<rparr>) = hlib.truncate s"
  "hlib.truncate (s\<lparr>aee_thr := c\<rparr>) = hlib.truncate s" "hlib.truncate (s\<lparr>aee_qs := d\<rparr>) = hlib.truncate s"
  "hlib.truncate (s\<lparr>aee_bufs := f\<rparr>) = hlib.truncate s" "hlib.truncate (aee_sys.more_update g s) = hlib.truncate s"
  by (simp_all add: hlib.truncate_def)

section \<open>The messages of an application as a queue\<close>

text \<open>\<open>h\<close> is a handle of an application with the queue \<open>q\<close>, which holds the messages \<open>ms\<close>.\<close>

definition app_queue :: "handle \<Rightarrow> ptr \<Rightarrow> nat \<Rightarrow> nat \<Rightarrow> 'w aee_sys_scheme \<Rightarrow> u8 list list \<Rightarrow> bool" where
  "app_queue h q n z s ms \<longleftrightarrow> b_init s \<and> (\<exists>p a. aee_at s h = Some p \<and> aee_objs s p = Some a \<and> ae_msg_queue a = q) \<and>
     hq_rel q n z (aee_qs s) ms"

definition app_msg :: "fptr \<Rightarrow> ptr \<Rightarrow> u32 \<Rightarrow> u8 list \<Rightarrow> u8 list" where
  "app_msg f tag ty bs = app_header APPMAN_MSG_PROCESS_MSG f tag (unat ty) (length bs) @ bs"

lemma app_queue_get: "app_queue h q n z s ms \<Longrightarrow> aee_get_msg_queue h s = Inr ((AEER_OK, q), s)"
  by (auto simp: app_queue_def aee_get_msg_queue_def with_aee_at)

lemma app_queue_set:
  assumes "app_queue h q n z s ms" "hq_rel q n z qs ms'"
  shows "app_queue h q n z (s\<lparr>aee_thr := th, aee_qs := qs\<rparr>) ms'" "app_queue h q n z (s\<lparr>aee_qs := qs\<rparr>) ms'"
    "app_queue h q n z (s\<lparr>aee_qs := qs, aee_bufs := bf\<rparr>) ms'"
proof -
  have 1: "aee_at (s\<lparr>aee_thr := th, aee_qs := qs\<rparr>) = aee_at s" "aee_at (s\<lparr>aee_qs := qs\<rparr>) = aee_at s"
    "aee_at (s\<lparr>aee_qs := qs, aee_bufs := bf\<rparr>) = aee_at s"
    by (intro aee_at_truncate; simp)+
  show "app_queue h q n z (s\<lparr>aee_thr := th, aee_qs := qs\<rparr>) ms'" "app_queue h q n z (s\<lparr>aee_qs := qs\<rparr>) ms'"
    "app_queue h q n z (s\<lparr>aee_qs := qs, aee_bufs := bf\<rparr>) ms'"
    using assms unfolding app_queue_def 1 by simp_all
qed

text \<open>Sending a message; no other thread writes to the static buffer at the time.\<close>

definition can_send :: "app_env \<Rightarrow> nat \<Rightarrow> bool" where
  "can_send e len \<longleftrightarrow> ev_race e = (\<lambda>i b. b) \<and> ev_lock e = 0 \<and> ev_buf e \<noteq> NULL \<and> HEADER_SIZE + len \<le> two_parts_buffer"

lemma u_app_send_msg_steps:
  assumes "app_queue h q n z s ms" "can_send e (length bs)"
  obtains th where "u_app_send_msg e h ty (Some bs) (length bs) f tag s =
    then_do (x_msg_q_send 4 0 q (Some (app_msg f tag ty bs)) (length (app_msg f tag ty bs)) (aee_qs s)) (\<lambda>(r, qs).
      Inr (app_result r, s\<lparr>aee_thr := th, aee_qs := qs\<rparr>))"
proof (cases "bs = []")
  case True
  have "s\<lparr>aee_qs := qs\<rparr> = s\<lparr>aee_thr := aee_thr s, aee_qs := qs\<rparr>" for qs by simp
  with True show ?thesis using assms app_queue_get [OF assms(1)] that [of "aee_thr s"]
    by (auto simp: u_app_send_msg_def msg_q_send_2_parts_def can_send_def app_msg_def then_do_def split: sum.split)
next
  case False
  obtain r p th where u: "u_thread_self (ev_thread e) (ev_self_pri e) (ev_self e) True (aee_thr s) = (r, p, th)"
    by (metis prod.exhaust)
  have m: "map (\<lambda>i. ev_race e i (bs' ! i)) [0..<length bs'] = bs'" for bs'
    using assms(2) by (simp add: can_send_def map_nth)
  show ?thesis
    by (rule that [of th]) (use False assms m [of "app_header APPMAN_MSG_PROCESS_MSG f tag (unat ty) (length bs) @ bs"] app_queue_get [OF assms(1)] u in
      \<open>auto simp: u_app_send_msg_def msg_q_send_2_parts_def can_send_def app_msg_def Let_def then_do_def split: sum.split\<close>)
qed

lemma length_app_msg [simp]: "length (app_msg f tag ty bs) = HEADER_SIZE + length bs"
  by (simp add: app_msg_def)

lemma app_msg_not_Nil [simp]: "app_msg f tag ty bs \<noteq> []"
  using length_app_msg [of f tag ty bs] by (metis add_is_0 list.size(3) zero_neq_numeral)

lemma app_queue_send:
  assumes "app_queue h q n z s ms" "can_send e (length bs)" "HEADER_SIZE + length bs \<le> z"
  shows "length ms < n \<Longrightarrow> \<exists>s'. u_app_send_msg e h ty (Some bs) (length bs) f tag s = Inr (AEER_OK, s') \<and>
      app_queue h q n z s' (ms @ [app_msg f tag ty bs]) \<and> aee_bufs s' = aee_bufs s \<and> aee_sys.more s' = aee_sys.more s"
    and "length ms = n \<Longrightarrow> \<exists>s'. u_app_send_msg e h ty (Some bs) (length bs) f tag s = Inr (AEER_FAIL, s') \<and>
      app_queue h q n z s' ms \<and> aee_bufs s' = aee_bufs s \<and> aee_sys.more s' = aee_sys.more s"
proof -
  let ?m = "app_msg f tag ty bs"
  obtain th where u: "u_app_send_msg e h ty (Some bs) (length bs) f tag s =
    then_do (x_msg_q_send 4 0 q (Some ?m) (length ?m) (aee_qs s)) (\<lambda>(r, qs). Inr (app_result r, s\<lparr>aee_thr := th, aee_qs := qs\<rparr>))"
    by (rule u_app_send_msg_steps [OF assms(1,2)])
  have r: "hq_rel q n z (aee_qs s) ms" using assms(1) by (simp add: app_queue_def)
  have m: "?m \<noteq> []" "length ?m \<le> z" using assms(3) by simp_all
  show "length ms < n \<Longrightarrow> \<exists>s'. u_app_send_msg e h ty (Some bs) (length bs) f tag s = Inr (AEER_OK, s') \<and>
      app_queue h q n z s' (ms @ [?m]) \<and> aee_bufs s' = aee_bufs s \<and> aee_sys.more s' = aee_sys.more s"
    using hq_rel_send(1) [OF r m] app_queue_set(1) [OF assms(1)] by (fastforce simp: u app_result_def simp del: length_app_msg)
  show "length ms = n \<Longrightarrow> \<exists>s'. u_app_send_msg e h ty (Some bs) (length bs) f tag s = Inr (AEER_FAIL, s') \<and>
      app_queue h q n z s' ms \<and> aee_bufs s' = aee_bufs s \<and> aee_sys.more s' = aee_sys.more s"
    using hq_rel_send(2) [OF r m] app_queue_set(1) [OF assms(1) r] by (simp add: u app_result_def del: length_app_msg) 
qed

end
