(* ===== verification/AppProps.thy ===== *)
theory AppProps
  imports AeeInv
begin

text \<open>The messages of an application on their way from the sender to the function that processes them, and the
  properties of am/aee.\<close>

section \<open>Receiving\<close>

text \<open>The main function of an application is ready for its next turn.\<close>

definition app_main :: "app_main_arg \<Rightarrow> ptr \<Rightarrow> nat \<Rightarrow> 'w aee_sys_scheme \<Rightarrow> bool" where
  "app_main a q z s \<longleftrightarrow> ma_queue a = q \<and> ma_buffer a \<noteq> NULL \<and> ma_size a = z \<and> 0 < z \<and>
     (\<exists>b. aee_bufs s (ma_buffer a) = Some b \<and> length b = z)"

lemma app_main_cong: "aee_bufs s' = aee_bufs s \<Longrightarrow> app_main a q z s' = app_main a q z s"
  by (simp add: app_main_def)

lemma turn_receives:
  assumes "app_queue h q n z s (m # ms)" "app_main a q z s" "ev_lock e = 0"
  obtains s1 rest where "appman_turn c e h' a s = then_do (app_handle_msg c h' a (m @ rest) s1) (\<lambda>x. Inr (Returned x))"
    "app_queue h q n z s1 ms" "app_main a q z s1" "aee_sys.more s1 = aee_sys.more s" "length (m @ rest) = z"
    "hlib.truncate s1 = hlib.truncate s"
proof -
  have r: "hq_rel q n z (aee_qs s) (m # ms)" using assms(1) by (simp add: app_queue_def)
  obtain b where b: "aee_bufs s (ma_buffer a) = Some b" "length b = z" using assms(2) by (auto simp: app_main_def)
  have m: "take z m = m" using hq_rel_length [OF r] by simp
  obtain qs where qs: "x_msg_q_receive 4 0 True True (Some z) (Some [q]) 1 X_MSGQ_OPTION_WAIT (aee_qs s) = Inr (Returned (OSR_OK, m, qs))"
    "hq_rel q n z qs ms"
    using hq_rel_receive [OF r, of z X_MSGQ_OPTION_WAIT] assms(2) m unfolding app_main_def by fastforce
  let ?s = "s\<lparr>aee_qs := qs, aee_bufs := (aee_bufs s)(ma_buffer a \<mapsto> m @ drop (length m) b)\<rparr>"
  show thesis
  proof (rule that [of "drop (length m) b" ?s])
    show "appman_turn c e h' a s = then_do (app_handle_msg c h' a (m @ drop (length m) b) ?s) (\<lambda>x. Inr (Returned x))"
      using qs(1) assms(2,3) b(1) by (simp add: appman_turn_def app_main_def Let_def)
    show "app_queue h q n z ?s ms" by (rule app_queue_set(3) [OF assms(1) qs(2)])
  qed (use assms(2) b m in \<open>auto simp: app_main_def\<close>)
qed

lemma turn_waits:
  assumes "app_queue h q n z s []" "app_main a q z s" "ev_lock e = 0"
  shows "appman_turn c e h' a s = Inr Waiting"
  using assms hq_rel_receive_empty(2) [of q n z "aee_qs s" z] by (auto simp: appman_turn_def app_main_def app_queue_def)

lemma header_words:
  assumes "c < 2 ^ 32" "f < 2 ^ 32" "t < 2 ^ 32" "u < 2 ^ 32" "v < 2 ^ 32"
  shows "get_word (app_header c f t u v @ r) 0 = c" "get_word (app_header c f t u v @ r) 1 = f"
    "get_word (app_header c f t u v @ r) 2 = t" "get_word (app_header c f t u v @ r) 3 = u"
    "get_word (app_header c f t u v @ r) 4 = v"
  unfolding app_header_def using assms
    get_word_words [of 0 "[c, f, t, u, v]" r] get_word_words [of 1 "[c, f, t, u, v]" r]
    get_word_words [of 2 "[c, f, t, u, v]" r] get_word_words [of 3 "[c, f, t, u, v]" r]
    get_word_words [of 4 "[c, f, t, u, v]" r] by simp_all

text \<open>What the application is called with.\<close>

definition process_calls :: "'w app_calls \<Rightarrow> handle \<Rightarrow> app_main_arg \<Rightarrow> fptr \<Rightarrow> ptr \<Rightarrow> u32 \<Rightarrow> u8 list \<Rightarrow> u8 list \<Rightarrow> 'w aee_sys_scheme
    \<Rightarrow> (bool \<times> 'w aee_sys_scheme) result" where
  "process_calls c h a f tag ty bs rest s =
    then_do (notify c f h tag APP_NFY_PRE_PROCESS_MSG s) (\<lambda>(skip, s).
    if skip then Inr (False, s)
    else then_do (call_process c (ma_process a) h ty (if bs = [] then None else Some (bs @ rest)) (length bs) False s) (\<lambda>(r, s).
      then_do (notify c f h tag (if r = AEER_OK then APP_NFY_PROCESS_MSG_OK else APP_NFY_PROCESS_MSG_FAILED) s) (\<lambda>(_, s).
      Inr (False, s))))"

lemma handle_app_msg:
  assumes "f < 2 ^ 32" "tag < 2 ^ 32" "length bs < 2 ^ 32"
  shows "app_handle_msg c h a (app_msg f tag ty bs @ rest) s = process_calls c h a f tag ty bs rest s"
proof -
  have u: "unat ty < 2 ^ 32" using unat_bounds(3) [of ty] by simp
  note w = header_words [of APPMAN_MSG_PROCESS_MSG f tag "unat ty" "length bs" "bs @ rest", OF _ assms(1,2) u assms(3)]
  show ?thesis
    by (simp add: app_handle_msg_def process_calls_def app_msg_def Let_def w w(2) [unfolded One_nat_def] cong: if_cong)
qed

lemma turn_processes:
  assumes "app_queue h q n z s (app_msg f tag ty bs # ms)" "app_main a q z s" "ev_lock e = 0" "f < 2 ^ 32" "tag < 2 ^ 32"
  shows "\<exists>s1 rest. appman_turn c e h' a s = then_do (process_calls c h' a f tag ty bs rest s1) (\<lambda>x. Inr (Returned x)) \<and>
    app_queue h q n z s1 ms \<and> app_main a q z s1 \<and> aee_sys.more s1 = aee_sys.more s \<and> HEADER_SIZE + length (bs @ rest) = z"
proof -
  have r: "hq_rel q n z (aee_qs s) (app_msg f tag ty bs # ms)" using assms(1) by (simp add: app_queue_def)
  have "z \<le> MSGQ_MAX_DATA_SIZE" using r by (auto simp: hq_rel_def q_rel_def)
  then have b: "length bs < 2 ^ 32" using hq_rel_length [OF r] by (simp add: MSGQ_MAX_DATA_SIZE_def)
  obtain s1 rest where s1: "appman_turn c e h' a s = then_do (app_handle_msg c h' a (app_msg f tag ty bs @ rest) s1) (\<lambda>x. Inr (Returned x))"
    "app_queue h q n z s1 ms" "app_main a q z s1" "aee_sys.more s1 = aee_sys.more s" "length (app_msg f tag ty bs @ rest) = z"
    by (rule turn_receives [OF assms(1-3)])
  then show ?thesis using handle_app_msg [OF assms(4,5) b, of c h' a ty rest s1] by (intro exI [of _ s1] exI [of _ rest]) simp
qed

section \<open>An application that records its messages\<close>

text \<open>Its own state is the list of the messages it has processed.\<close>

type_synonym recorded = "(u32 \<times> u8 list) list"

definition rec_calls :: "recorded app_calls" where
  "rec_calls = \<lparr>call_nfy = (\<lambda>f h tag r s. Inr (False, s)), call_init = (\<lambda>f nm h s. Inr (AEER_OK, s)),
     call_exit = (\<lambda>f h m s. Inr (AEER_OK, s)),
     call_process = (\<lambda>f h ty pv len p s. Inr (AEER_OK, aee_sys.more_update (\<lambda>l. l @ [(ty, take len (case pv of None \<Rightarrow> [] | Some bs \<Rightarrow> bs))]) s))\<rparr>"

definition app_send :: "app_env \<Rightarrow> handle \<Rightarrow> u32 \<times> u8 list \<Rightarrow> recorded aee_sys_scheme \<Rightarrow> recorded aee_sys_scheme option" where
  "app_send e h m s = (case u_app_send_msg e h (fst m) (Some (snd m)) (length (snd m)) NULL NULL s of
     Inr (r, s') \<Rightarrow> if r = AEER_OK then Some s' else None | Inl _ \<Rightarrow> None)"

definition app_receive :: "app_env \<Rightarrow> handle \<Rightarrow> app_main_arg \<Rightarrow> recorded aee_sys_scheme \<Rightarrow> ((u32 \<times> u8 list) \<times> recorded aee_sys_scheme) option" where
  "app_receive e h a s = (case appman_turn rec_calls e h a s of
     Inr (Returned (False, s')) \<Rightarrow> Some (last (aee_sys.more s'), s') | _ \<Rightarrow> None)"

text \<open>The application has processed \<open>past\<close>, and the messages \<open>ms\<close> wait in its queue.\<close>

definition app_rel :: "app_env \<Rightarrow> handle \<Rightarrow> app_main_arg \<Rightarrow> nat \<Rightarrow> nat \<Rightarrow> recorded aee_sys_scheme \<Rightarrow> (u32 \<times> u8 list) list \<Rightarrow> bool" where
  "app_rel e h a n z s ms \<longleftrightarrow> ev_race e = (\<lambda>i b. b) \<and> ev_lock e = 0 \<and> ev_buf e \<noteq> NULL \<and> z \<le> two_parts_buffer \<and> app_main a (ma_queue a) z s \<and>
     app_queue h (ma_queue a) n z s (map (\<lambda>(ty, bs). app_msg NULL NULL ty bs) ms) \<and>
     (\<forall>(ty, bs) \<in> set ms. HEADER_SIZE + length bs \<le> z)"

lemma app_rel_send:
  assumes "app_rel e h a n z s ms" "HEADER_SIZE + length (snd m) \<le> z"
  shows "length ms < n \<Longrightarrow> \<exists>s'. app_send e h m s = Some s' \<and> app_rel e h a n z s' (ms @ [m])"
    and "length ms = n \<Longrightarrow> app_send e h m s = None"
proof -
  obtain ty bs where m: "m = (ty, bs)" by (cases m)
  let ?ms = "map (\<lambda>(ty, bs). app_msg NULL NULL ty bs) ms"
  have q: "app_queue h (ma_queue a) n z s ?ms" "can_send e (length bs)" "HEADER_SIZE + length bs \<le> z"
    using assms by (auto simp: app_rel_def can_send_def m)
  note S = app_queue_send [OF q, of ty NULL NULL]
  show "length ms < n \<Longrightarrow> \<exists>s'. app_send e h m s = Some s' \<and> app_rel e h a n z s' (ms @ [m])"
    using S(1) assms app_main_cong by (fastforce simp: m app_send_def app_rel_def)
  show "length ms = n \<Longrightarrow> app_send e h m s = None"
    using S(2) by (fastforce simp: m app_send_def)
qed

lemma app_send_more:
  assumes "app_rel e h a n z s ms" "HEADER_SIZE + length (snd m) \<le> z" "app_send e h m s = Some s'"
  shows "aee_sys.more s' = aee_sys.more s"
proof -
  obtain ty bs where m: "m = (ty, bs)" by (cases m)
  have q: "app_queue h (ma_queue a) n z s (map (\<lambda>(ty, bs). app_msg NULL NULL ty bs) ms)" "can_send e (length bs)" "HEADER_SIZE + length bs \<le> z"
    using assms by (auto simp: app_rel_def can_send_def m)
  obtain th where u: "u_app_send_msg e h ty (Some bs) (length bs) NULL NULL s =
    then_do (x_msg_q_send 4 0 (ma_queue a) (Some (app_msg NULL NULL ty bs)) (length (app_msg NULL NULL ty bs)) (aee_qs s)) (\<lambda>(r, qs).
      Inr (app_result r, s\<lparr>aee_thr := th, aee_qs := qs\<rparr>))"
    by (rule u_app_send_msg_steps [OF q(1,2)])
  show ?thesis using assms(3)
    by (cases "x_msg_q_send 4 0 (ma_queue a) (Some (app_msg NULL NULL ty bs)) (length (app_msg NULL NULL ty bs)) (aee_qs s)")
      (auto simp: app_send_def m u split: if_splits)
qed

lemma app_queue_more [simp]: "app_queue h q n z (aee_sys.more_update g s) ms = app_queue h q n z s ms"
proof -
  have "aee_at (aee_sys.more_update g s) = aee_at s" by (rule aee_at_truncate) simp
  then show ?thesis by (simp add: app_queue_def)
qed

lemma app_rel_receive:
  assumes "app_rel e h a n z s (m # ms)"
  shows "\<exists>s'. app_receive e h a s = Some (m, s') \<and> app_rel e h a n z s' ms \<and> aee_sys.more s' = aee_sys.more s @ [m]"
proof -
  obtain ty bs where m: "m = (ty, bs)" by (cases m)
  let ?ms = "map (\<lambda>(ty, bs). app_msg NULL NULL ty bs) ms"
  have q: "app_queue h (ma_queue a) n z s (app_msg NULL NULL ty bs # ?ms)" "app_main a (ma_queue a) z s" "ev_lock e = 0"
    and z: "z \<le> two_parts_buffer" "HEADER_SIZE + length bs \<le> z"
    using assms by (auto simp: app_rel_def m)
  obtain s1 rest where s1: "appman_turn rec_calls e h a s =
      then_do (app_handle_msg rec_calls h a (app_msg NULL NULL ty bs @ rest) s1) (\<lambda>x. Inr (Returned x))"
    "app_queue h (ma_queue a) n z s1 ?ms" "app_main a (ma_queue a) z s1" "aee_sys.more s1 = aee_sys.more s"
    by (rule turn_receives [OF q])
  let ?s = "aee_sys.more_update (\<lambda>l. l @ [m]) s1"
  have "length bs < 2 ^ 32" using z by (simp add: two_parts_buffer_def)
  then have "app_handle_msg rec_calls h a (app_msg NULL NULL ty bs @ rest) s1 = Inr (False, ?s)"
    by (simp add: handle_app_msg process_calls_def notify_def rec_calls_def m)
  then have "app_receive e h a s = Some (m, ?s)" using s1(1,4) by (simp add: app_receive_def)
  moreover have "app_rel e h a n z ?s ms"
    using assms s1(2,3) app_main_cong [of ?s s1] by (auto simp: app_rel_def)
  ultimately show ?thesis using s1(4) by auto
qed

interpretation aq: bounded_queue "app_rel e h a n z" n "app_send e h" "app_receive e h a" "\<lambda>m. HEADER_SIZE + length (snd m) \<le> z"
  for e h a n z
proof (unfold_locales, goal_cases)
  case (1 s ms m)
  then show ?case using app_rel_send(1) [of e h a n z s ms m] by auto
next
  case (2 s ms m)
  then show ?case using app_rel_send(2) [of e h a n z s ms m] by auto
next
  case (3 s m ms)
  then show ?case using app_rel_receive by blast
next
  case (4 s)
  then show ?case using turn_waits [of h "ma_queue a" n z s a e rec_calls h] by (auto simp: app_rel_def app_receive_def)
next
  case (5 s ms)
  then have "hq_rel (ma_queue a) n z (aee_qs s) (map (\<lambda>(ty, bs). app_msg NULL NULL ty bs) ms)"
    by (simp add: app_rel_def app_queue_def)
  from hq.bound [OF this] show ?case by simp
qed

end
