(* ===== verification/AppStart.thy ===== *)
theory AppStart
  imports AppProps
begin

text \<open>Starting an application: from the call to the first turn of its main function.\<close>

section \<open>Handles\<close>

lemma handle_inv_truncate:
  assumes "handle_inv s L A" "hlib.truncate s' = hlib.truncate s"
  shows "handle_inv s' L A"
proof -
  have c: "ctrl s' = ctrl s" by (rule hlib_truncate_sel [OF assms(2)])
  have "b_init s' = b_init s \<and> ui2_free_handles s' = ui2_free_handles s \<and> ui2_num_total s' = ui2_num_total s \<and>
    ui2_num_free s' = ui2_num_free s \<and> ui2_num_peak_used s' = ui2_num_peak_used s \<and>
    ui2_num_used_per_grp s' = ui2_num_used_per_grp s \<and> links s' = links s"
    using assms(2) unfolding hlib.truncate_def by (simp only: hlib.ext_inject)
  then show ?thesis
    by (intro handle_inv_same [OF assms(1)]) (auto simp: sel_cong [OF c] active_def linked_def fun_eq_iff)
qed

lemma truncate_num_free: "hlib.truncate s' = hlib.truncate s \<Longrightarrow> ui2_num_free s' = ui2_num_free s"
  unfolding hlib.truncate_def by (simp only: hlib.ext_inject)

lemma alloc_more:
  assumes "u_handle_alloc ra ty obj tag fre ph s = Inr (r, h, s')" "ui2_num_free s > 11"
  shows "hlib.more s' = hlib.more s"
proof -
  have "\<not> ui2_num_free s - 1 \<le> 10" using assms(2) by (simp add: word_le_nat_alt word_less_nat_alt unat_sub not_le)
  then show ?thesis using assms(1)
    by (auto simp: u_handle_alloc_def Let_def crit_start_def crit_end_def count_peak_def count_used_def upd_ctrl_def
        split: if_splits option.splits)
qed

lemma some_free: "handle_inv s L A \<Longrightarrow> ui2_num_free s \<noteq> 0 \<Longrightarrow> ui2_free_handles s \<noteq> 0"
proof
  assume i: "handle_inv s L A" "ui2_num_free s \<noteq> 0" and z: "ui2_free_handles s = 0"
  obtain fs where fs: "pool_ok s fs" using i(1) by (auto simp: handle_inv_def)
  show False
  proof (cases fs)
    case Nil then show False using fs i(2) by (simp add: pool_ok_def)
  next
    case (Cons x xs) then show False using fs z by (auto simp: pool_ok_def)
  qed
qed

lemma alloc_ok:
  assumes inv: "handle_inv s L A" and free: "ui2_num_free s > 11" and arg: "fre \<noteq> NULL" "ty \<noteq> INV_HANDLE_TYPE"
  obtains i s' where "u_handle_alloc ra ty obj tag fre True s = Inr (HR_OK, Some (make_handle s' i), s')"
    "handle_inv s' L (A(i := []))" "habs s' = (habs s)(make_handle s' i \<mapsto> (ty, obj))" "habs s (make_handle s' i) = None"
    "hlib.more s' = hlib.more s" "ui2_num_free s' = ui2_num_free s - 1" "live s' i"
    "ctrl s' i = fill_ctrl ty obj tag fre (ctrl s i)" "\<forall>k. live s k \<longrightarrow> live s' k \<and> ctrl s' k = ctrl s k"
proof -
  have nf: "ui2_num_free s \<noteq> 0" using free by (auto simp: word_less_nat_alt)
  have ra: "can_alloc ra s" using free by (simp add: can_alloc_def)
  let ?i = "ui2_free_handles s"
  obtain s' where s': "u_handle_alloc ra ty obj tag fre True s = Inr (HR_OK, Some (make_handle s' ?i), s')"
    "handle_inv s' L (A(?i := []))" "live s' = (live s)(?i := True)" "\<not> live s ?i"
    "ctrl s' ?i = fill_ctrl ty obj tag fre (ctrl s ?i)" "\<And>j. live s j \<Longrightarrow> ctrl s' j = ctrl s j"
    "ui2_num_free s' = ui2_num_free s - 1"
    using u_handle_alloc_inv [OF inv some_free [OF inv nf] ra arg, of obj tag] free by metis
  have "htype s' ?i = ty" "pv_obj (ctrl s' ?i) = obj" using s'(5) by (simp_all add: htype_def del: field_folds)
  then show thesis using that [OF s'(1,2)] habs_insert [OF s'(4,3,6)] alloc_more [OF s'(1) free] s'(3,5-7) by simp
qed

lemma set_u_ptr_same:
  assumes t_def: "t = upd_ctrl a (\<lambda>c. c\<lparr>u_ptr := v\<rparr>) s"
  shows "handle_inv s L A \<Longrightarrow> handle_inv t L A" "habs t = habs s" "ui2_num_free t = ui2_num_free s"
proof -
  have c: "hnext t = hnext s" "hprev t = hprev s" "htype t = htype s" "hflags t = hflags s" "anext t = anext s"
    "aprev t = aprev s" "ahead t = ahead s" "acount t = acount s" "hcount t = hcount s"
    by (auto simp: t_def fun_eq_iff field_defs ctrl_upd_ctrl simp del: field_folds)
  have al: "active t = active s" "linked t = linked s" by (simp_all add: active_def linked_def c fun_eq_iff)
  show "handle_inv s L A \<Longrightarrow> handle_inv t L A"
    by (rule handle_inv_same [of s]) (simp_all add: c al, simp_all add: t_def)
  have "live t = live s" by (rule live_cong) (simp_all add: al, simp add: t_def)
  then show "habs t = habs s" by (rule habs_cong) (auto simp: c t_def ctrl_upd_ctrl)
  show "ui2_num_free t = ui2_num_free s" by (simp add: t_def)
qed

lemma alloc_aux_ok:
  assumes inv: "handle_inv s L A" and free: "ui2_num_free s > 11"
  obtains ha A' s' where "u_handle_alloc_aux_link_head ra obj af True s = Inr (HR_OK, Some ha, s')"
    "handle_inv s' L A'" "habs s' = (habs s)(ha \<mapsto> (HT_AUX_LINK_HEAD, obj))" "habs s ha = None"
    "hlib.more s' = hlib.more s"
proof -
  obtain i s1 where s1: "u_handle_alloc ra HT_AUX_LINK_HEAD obj NULL fn_aux_link_head_free True s = Inr (HR_OK, Some (make_handle s1 i), s1)"
    "handle_inv s1 L (A(i := []))" "habs s1 = (habs s)(make_handle s1 i \<mapsto> (HT_AUX_LINK_HEAD, obj))"
    "habs s (make_handle s1 i) = None" "hlib.more s1 = hlib.more s" "live s1 i"
    by (rule alloc_ok [OF inv free, of fn_aux_link_head_free HT_AUX_LINK_HEAD ra obj NULL])
      (simp_all add: fn_aux_link_head_free_def)
  let ?s = "upd_ctrl i (\<lambda>c. c\<lparr>u_ptr := af\<rparr>) s1"
  have g: "get_h_ctrl_from_handle s1 (make_handle s1 i) = Some i" using s1(6) by (simp add: get_h_ctrl_live)
  have c: "crit_end (upd_ctrl i f (crit_start s1)) = upd_ctrl i f s1" for f
    by (simp add: crit_end_def crit_start_def upd_ctrl_def)
  have "u_handle_alloc_aux_link_head ra obj af True s = Inr (HR_OK, Some (make_handle s1 i), ?s)"
    by (simp add: u_handle_alloc_aux_link_head_def s1(1) Let_def g c)
  then show thesis using that [of "make_handle s1 i" ?s "A(i := [])"] s1 set_u_ptr_same [of ?s i af s1] by simp
qed

section \<open>Creating\<close>

text \<open>What a call that starts the application \<open>nm\<close> needs: names that are free, memory, a thread from the system.\<close>

definition may_create :: "app_env \<Rightarrow> aee_app_desc \<Rightarrow> string \<Rightarrow> 'w aee_sys_scheme \<Rightarrow> bool" where
  "may_create e d nm s \<longleftrightarrow> nm \<noteq> [] \<and> thread_find_obj nm (aee_thr s) = Some NULL \<and> ds_stack_size d \<noteq> 0 \<and>
     1 \<le> ds_priority d \<and> ds_priority d \<le> 254 \<and> ev_aee e \<noteq> NULL \<and> ev_arg e \<noteq> NULL \<and> ev_thread e \<noteq> NULL \<and>
     ev_started e \<noteq> None \<and> ds_arg d \<noteq> None \<and> ds_main d \<noteq> NULL \<and>
     (\<exists>r par. get_pvt (ev_self e) s = Inr (r, par) \<and>
        (r = OSR_OK \<and> par \<noteq> None \<and> par \<noteq> Some NULL \<longrightarrow> aee_objs s (the par) \<noteq> None))"

text \<open>The thread of the application.\<close>

definition app_thread :: "app_env \<Rightarrow> aee_app_desc \<Rightarrow> string \<Rightarrow> handle \<Rightarrow> threads \<Rightarrow> threads" where
  "app_thread e d nm h th = th\<lparr>th_objs := (th_objs th)(ev_thread e \<mapsto> new_thread (fst (the (ev_started e)))
       (stack_size (ev_stack_min e) (ev_stack_max e) (ds_stack_size d)) (take THREAD_NAME_LEN nm) fn_aee_main
       (main_arg (ev_aee e) h (ds_main d) (ev_arg e)) (snd (the (ev_started e)))),
     s_thread_list := ring_add (ev_thread e) (s_thread_list th)\<rparr>"

lemma main_arg_not_Nil [simp]: "main_arg p h pf pv \<noteq> []"
proof -
  have "length (main_arg p h pf pv) = 16" by (simp add: main_arg_def del: words_bytes_simps)
  then show ?thesis by (metis list.size(3) zero_neq_numeral)
qed

lemma create_thread_starts:
  assumes "may_create e d nm s"
  shows "u_thread_create (ev_stack_min e) (ev_stack_max e) (ev_thread e) (ev_started e) True (Some nm) (ds_stack_size d)
    (ds_priority d) fn_aee_main (Some (main_arg (ev_aee e) h (ds_main d) (ev_arg e))) (aee_thr s) =
    Inr (OSR_OK, ev_thread e, app_thread e d nm h (aee_thr s))"
  using assms by (auto simp: may_create_def u_thread_create_def app_thread_def not_less Let_def)

lemma create_thread_ok:
  assumes m: "may_create e d nm s" and t: "aee_thr s' = aee_thr s" and o: "aee_objs s' (ev_aee e) = Some a"
    and p: "\<And>q. aee_objs s q \<noteq> None \<Longrightarrow> aee_objs s' q \<noteq> None"
  obtains ph where "create_thread cbs e d nm h (ev_arg e) s' = Inr (AEER_OK, Some h,
    s'\<lparr>aee_objs := (aee_objs s')(ev_aee e \<mapsto> a\<lparr>ae_parent_app := ph, ae_thread := ev_thread e\<rparr>),
       aee_thr := app_thread e d nm h (aee_thr s)\<rparr>)"
proof -
  obtain r par where g: "get_pvt (ev_self e) s = Inr (r, par)"
    "r = OSR_OK \<and> par \<noteq> None \<and> par \<noteq> Some NULL \<longrightarrow> aee_objs s (the par) \<noteq> None"
    using m by (auto simp: may_create_def)
  have g': "get_pvt (ev_self e) s' = Inr (r, par)" using g(1) t by (simp add: get_pvt_def)
  let ?p = "r = OSR_OK \<and> par \<noteq> None \<and> par \<noteq> Some NULL"
  let ?ph = "if ?p then ae_app (the (aee_objs s' (the par))) else NULL_HANDLE"
  have "(if ?p then (case aee_objs s' (the par) of None \<Rightarrow> Inl BadAccess | Some b \<Rightarrow> Inr (ae_app b)) else Inr NULL_HANDLE) = Inr ?ph"
    using g(2) p [of "the par"] by (cases "aee_objs s' (the par)") auto
  then show thesis
    using that [of ?ph] create_thread_starts [OF m, of h]
    by (simp add: create_thread_def g' o t upd_aee_def)
qed

lemma aee_create_ok:
  assumes inv: "handle_inv s L A" and free: "ui2_num_free s > 12" and m: "may_create e d nm s" and ar: "ds_arg d = Some bs"
  obtains h s' A' a where "aee_create_op cbs e d nm s = Inr (AEER_OK, Some h, s')" "habs s h = None" "handle_inv s' L A'"
    "habs s' h = Some (AEET_PRIMARY_AEE, ev_aee e)" "\<And>g v. habs s g = Some v \<Longrightarrow> habs s' g = Some v"
    "aee_objs s' = (aee_objs s)(ev_aee e \<mapsto> a)" "ae_app a = h" "ae_name a = take AEE_NAME_MAX_LENGTH nm"
    "ae_receive_data a = ds_receive_data d" "ae_thread a = ev_thread e"
    "aee_thr s' = app_thread e d nm h (aee_thr s)" "aee_bufs s' = (aee_bufs s)(ev_arg e \<mapsto> bs)"
    "pt_aees s' = pt_aees s" "aee_qs s' = aee_qs s" "aee_sys.more s' = aee_sys.more s"
proof -
  let ?p = "ev_aee e"
  let ?s0 = "upd_aee ?p (new_aee d nm) s"
  have e0: "hlib.truncate ?s0 = hlib.truncate s" by simp
  have f0: "ui2_num_free ?s0 > 11" using truncate_num_free [OF e0] free by (auto simp: word_less_nat_alt)
  obtain i s1 where s1: "u_handle_alloc (ev_realloc e) AEET_PRIMARY_AEE ?p NULL fn_aee_free_handle True ?s0 = Inr (HR_OK, Some (make_handle s1 i), s1)"
    "handle_inv s1 L (A(i := []))" "habs s1 = (habs ?s0)(make_handle s1 i \<mapsto> (AEET_PRIMARY_AEE, ?p))" "habs ?s0 (make_handle s1 i) = None"
    "hlib.more s1 = hlib.more ?s0" "ui2_num_free s1 = ui2_num_free ?s0 - 1"
    by (rule alloc_ok [OF handle_inv_truncate [OF inv e0] f0, of fn_aee_free_handle AEET_PRIMARY_AEE "ev_realloc e" ?p NULL]) simp_all
  let ?h = "make_handle s1 i"
  have f1: "ui2_num_free s1 > 11"
    using s1(6) truncate_num_free [OF e0] free by (simp add: word_less_nat_alt unat_sub word_le_nat_alt)
  obtain ha A' s2 where s2: "u_handle_alloc_aux_link_head (ev_realloc e) ?p fn_aee_aux_free_release_handle True s1 = Inr (HR_OK, Some ha, s2)"
    "handle_inv s2 L A'" "habs s2 = (habs s1)(ha \<mapsto> (HT_AUX_LINK_HEAD, ?p))" "habs s1 ha = None" "hlib.more s2 = hlib.more s1"
    by (rule alloc_aux_ok [OF s1(2) f1])
  note M = more_aee [OF s1(5)] more_aee [OF s2(5)]
  let ?a = "(new_aee d nm)\<lparr>ae_aux := ha, ae_app := ?h\<rparr>"
  let ?s3 = "(upd_aee ?p ?a s2)\<lparr>aee_bufs := (aee_bufs s2)(ev_arg e \<mapsto> bs)\<rparr>"
  obtain ph where c: "create_thread cbs e d nm ?h (ev_arg e) ?s3 = Inr (AEER_OK, Some ?h,
    ?s3\<lparr>aee_objs := (aee_objs ?s3)(?p \<mapsto> ?a\<lparr>ae_parent_app := ph, ae_thread := ev_thread e\<rparr>),
       aee_thr := app_thread e d nm ?h (aee_thr s)\<rparr>)"
    by (rule create_thread_ok [OF m, of ?s3 ?a cbs ?h]) (auto simp: M upd_aee_def)
  let ?s4 = "?s3\<lparr>aee_objs := (aee_objs ?s3)(?p \<mapsto> ?a\<lparr>ae_parent_app := ph, ae_thread := ev_thread e\<rparr>),
       aee_thr := app_thread e d nm ?h (aee_thr s)\<rparr>"
  have o: "aee_objs s1 ?p = Some (new_aee d nm)" "aee_objs s2 ?p = Some (new_aee d nm)" by (simp_all add: M)
  have "aee_create_op cbs e d nm s = create_thread cbs e d nm ?h (ev_arg e) ?s3"
    using m ar by (simp add: aee_create_op_def may_create_def Let_def s1(1) s2(1) o) (simp add: upd_aee_def)
  note C = this [unfolded c]
  have t: "hlib.truncate ?s4 = hlib.truncate s2" by (simp add: upd_aee_def)
  have h4: "habs ?s4 = habs s2" by (rule habs_truncate [OF t])
  have hd: "ha \<noteq> ?h" using s2(4) s1(3) by auto
  show thesis
  proof (rule that [OF C])
    show "habs s ?h = None" using s1(4) habs_truncate [OF e0] by simp
    show "handle_inv ?s4 L A'" by (rule handle_inv_truncate [OF s2(2) t])
    show "habs ?s4 ?h = Some (AEET_PRIMARY_AEE, ?p)" unfolding h4 using hd s1(3) s2(3) by simp
    show "\<And>g v. habs s g = Some v \<Longrightarrow> habs ?s4 g = Some v"
      using s1(3,4) s2(3,4) habs_truncate [OF e0] unfolding h4 by (auto simp: fun_upd_def)
  qed (auto simp: M upd_aee_def new_aee_def)
qed

section \<open>Starting\<close>

definition may_start :: "app_env \<Rightarrow> app_fct_tbl \<Rightarrow> app_desc \<Rightarrow> string \<Rightarrow> 'w aee_sys_scheme \<Rightarrow> bool" where
  "may_start e f d nm s \<longleftrightarrow> may_create e (app_aee_desc d (app_start_arg f d nm (ev_queue e) (ev_buf e))) nm s \<and>
     pf_init f \<noteq> NULL \<and> pf_exit f \<noteq> NULL \<and> pf_process_msg f \<noteq> NULL \<and> ad_msg_count d \<noteq> 0 \<and> unat (ad_msg_count d) \<le> MSGQ_MAX_MSGS \<and>
     HEADER_SIZE + unat (ad_max_msg_size d) \<le> MSGQ_MAX_DATA_SIZE \<and> ev_buf e \<noteq> NULL \<and> ev_buf e \<noteq> ev_arg e \<and> ev_queue e \<noteq> NULL \<and>
     msg_q_find_obj nm (aee_qs s) = Some NULL \<and> ev_lock e = 0 \<and> (of_nat (ev_junk e 0) :: handle) = NULL_HANDLE"

lemma create_queue:
  assumes "may_start e f d nm s"
  obtains qs where "x_msg_q_create 4 (ev_queue e) True (Some nm) (HEADER_SIZE + unat (ad_max_msg_size d)) (ad_msg_count d) (aee_qs s) =
      Inr (OSR_OK, ev_queue e, qs)"
    "hq_rel (ev_queue e) (unat (ad_msg_count d)) (HEADER_SIZE + unat (ad_max_msg_size d)) qs []"
proof -
  let ?z = "HEADER_SIZE + unat (ad_max_msg_size d)"
  let ?qs = "\<lparr>q_objs = (q_objs (aee_qs s))(ev_queue e \<mapsto> new_msgq 4 nm ?z (ad_msg_count d)), q_list = ring_add (ev_queue e) (q_list (aee_qs s))\<rparr>"
  have "q_rel (unat (ad_msg_count d)) ?z (new_msgq 4 nm ?z (ad_msg_count d)) []"
    by (rule new_msgq_rel) (use assms in \<open>auto simp: may_start_def word_neq_0_conv\<close>)
  then have "hq_rel (ev_queue e) (unat (ad_msg_count d)) ?z ?qs []" by (simp add: hq_rel_def)
  then show thesis using that [of ?qs] assms by (simp add: x_msg_q_create_def may_start_def may_create_def)
qed

lemma link_to_null: "handle_inv s L A \<Longrightarrow> u_handle_link_to_aux NULL_HANDLE h s = (HR_INV_AUX_HEAD, s)"
proof -
  assume "handle_inv s L A"
  then have "b_init s" by (simp add: handle_inv_def)
  moreover have "get_h_ctrl_from_handle (crit_start s) NULL_HANDLE = None" by (simp add: get_h_ctrl_from_handle_def)
  ultimately show ?thesis by (simp add: u_handle_link_to_aux_def)
qed

text \<open>The state after a start: the handle, the object, the waiting message, the thread, the copied argument.\<close>

definition app_started :: "app_env \<Rightarrow> app_fct_tbl \<Rightarrow> app_desc \<Rightarrow> string \<Rightarrow> fptr \<Rightarrow> ptr \<Rightarrow> handle \<Rightarrow> 'w aee_sys_scheme \<Rightarrow> 'w aee_sys_scheme \<Rightarrow> bool" where
  "app_started e f d nm nfy tag h s s' \<longleftrightarrow>
     habs s' h = Some (AEET_PRIMARY_AEE, ev_aee e) \<and>
     app_queue h (ev_queue e) (unat (ad_msg_count d)) (HEADER_SIZE + unat (ad_max_msg_size d)) s'
       [app_header APPMAN_MSG_INIT nfy tag (ev_junk e 1) (ev_junk e 2)] \<and>
     (\<exists>a. aee_objs s' = (aee_objs s)(ev_aee e \<mapsto> a) \<and> ae_app a = h \<and> ae_name a = take AEE_NAME_MAX_LENGTH nm \<and> ae_thread a = ev_thread e) \<and>
     aee_thr s' = app_thread e (app_aee_desc d (app_start_arg f d nm (ev_queue e) (ev_buf e))) nm h (aee_thr s) \<and>
     aee_bufs s' (ev_arg e) = Some (main_arg_bytes (app_start_arg f d nm (ev_queue e) (ev_buf e))) \<and>
     (\<exists>b. aee_bufs s' (ev_buf e) = Some b \<and> length b = HEADER_SIZE + unat (ad_max_msg_size d)) \<and>
     pt_aees s' = pt_aees s \<and> aee_sys.more s' = aee_sys.more s"

lemma app_start_ok:
  assumes inv: "handle_inv s L A" and free: "ui2_num_free s > 12" and m: "may_start e f d nm s"
  obtains h s' A' where "u_app_start cbs e (Some f) (Some d) (Some nm) nfy tag True s = Inr (AEER_OK, Some h, s')"
    "habs s h = None" "handle_inv s' L A'" "app_started e f d nm nfy tag h s s'"
proof -
  let ?z = "HEADER_SIZE + unat (ad_max_msg_size d)" and ?arg = "app_start_arg f d nm (ev_queue e) (ev_buf e)"
  let ?d = "app_aee_desc d ?arg" and ?hdr = "app_header APPMAN_MSG_INIT nfy tag (ev_junk e 1) (ev_junk e 2)"
  obtain qs where qs: "x_msg_q_create 4 (ev_queue e) True (Some nm) ?z (ad_msg_count d) (aee_qs s) = Inr (OSR_OK, ev_queue e, qs)"
    "hq_rel (ev_queue e) (unat (ad_msg_count d)) ?z qs []"
    by (rule create_queue [OF m])
  let ?b = "map (\<lambda>i. of_nat (ev_junk e i)) [0..<?z] :: u8 list"
  let ?s2 = "s\<lparr>aee_qs := qs, aee_bufs := (aee_bufs s)(ev_buf e \<mapsto> ?b)\<rparr>"
  have t2: "hlib.truncate ?s2 = hlib.truncate s" by simp
  have m2: "may_create e ?d nm ?s2" using m by (simp add: may_start_def may_create_def get_pvt_def)
  have ar: "ds_arg ?d = Some (main_arg_bytes ?arg)" by (simp add: app_aee_desc_def)
  have f2: "ui2_num_free ?s2 > 12" using truncate_num_free [OF t2] free by simp
  obtain h s3 A' a where s3: "aee_create_op cbs e ?d nm ?s2 = Inr (AEER_OK, Some h, s3)" "habs ?s2 h = None" "handle_inv s3 L A'"
    "habs s3 h = Some (AEET_PRIMARY_AEE, ev_aee e)"
    "aee_objs s3 = (aee_objs ?s2)(ev_aee e \<mapsto> a)" "ae_app a = h" "ae_name a = take AEE_NAME_MAX_LENGTH nm" "ae_thread a = ev_thread e"
    "aee_thr s3 = app_thread e ?d nm h (aee_thr ?s2)" "aee_bufs s3 = (aee_bufs ?s2)(ev_arg e \<mapsto> main_arg_bytes ?arg)"
    "pt_aees s3 = pt_aees ?s2" "aee_qs s3 = aee_qs ?s2" "aee_sys.more s3 = aee_sys.more ?s2"
    by (rule aee_create_ok [OF handle_inv_truncate [OF inv t2] f2 m2 ar, of cbs]) blast
  have create: "u_aee_create cbs e (Some ?d) (Some nm) True ?s2 = Inr (AEER_OK, Some h, s3)"
    using s3(1) m2 by (simp add: u_aee_create_def may_create_def)
  let ?a = "a\<lparr>ae_msg_queue := ev_queue e\<rparr>"
  let ?s4 = "upd_aee (ev_aee e) ?a s3"
  have at3: "aee_at s3 h = Some (ev_aee e)" by (simp add: aee_at_def s3(4))
  have b3: "b_init s3" using s3(3) by (simp add: handle_inv_def)
  have set_q: "aee_set_msg_queue h (ev_queue e) s3 = Inr (AEER_OK, ?s4)"
    by (simp add: aee_set_msg_queue_def with_aee_at [OF b3] at3 s3(5))
  have t4: "hlib.truncate ?s4 = hlib.truncate s3" by simp
  have b4: "b_init ?s4" using hlib_truncate_sel(1) [OF t4] b3 by simp
  have q4: "app_queue h (ev_queue e) (unat (ad_msg_count d)) ?z ?s4 []"
    using qs(2) b4 aee_at_truncate [OF t4] at3 s3(12) by (simp add: app_queue_def)
  have n: "0 < unat (ad_msg_count d)" using m by (simp add: may_start_def unat_gt_0)
  have hd: "?hdr \<noteq> []" using length_app_header by (metis list.size(3) zero_neq_numeral)
  obtain qs' where qs': "x_msg_q_send 4 0 (ev_queue e) (Some ?hdr) (length ?hdr) (aee_qs ?s4) = Inr (OSR_OK, qs')"
    "hq_rel (ev_queue e) (unat (ad_msg_count d)) ?z qs' [?hdr]"
    using hq_rel_send(1) [of "ev_queue e" "unat (ad_msg_count d)" ?z "aee_qs ?s4" "[]" ?hdr] q4 n hd by (auto simp: app_queue_def)
  let ?s5 = "?s4\<lparr>aee_qs := qs'\<rparr>"
  have lock: "ev_lock e = 0" "(of_nat (ev_junk e 0) :: handle) = NULL_HANDLE" using m by (simp_all add: may_start_def)
  have send: "appman_send_msg e h ?hdr ?s4 = Inr (AEER_OK, ?s5)"
    using qs'(1) by (simp add: appman_send_msg_def app_queue_get [OF q4] lock app_result_def)
  have t5: "hlib.truncate ?s5 = hlib.truncate s3" by simp
  have inv5: "handle_inv ?s5 L A'" by (rule handle_inv_truncate [OF s3(3) t5])
  have "app_start_op cbs e (Some f) (Some d) (Some nm) nfy tag True s = Inr (AEER_OK, Some h, ?s5)"
    using m qs(1) create set_q send by (simp add: app_start_op_def may_start_def Let_def)
  then have "u_app_start cbs e (Some f) (Some d) (Some nm) nfy tag True s = Inr (AEER_OK, Some h, ?s5)"
    by (simp add: u_app_start_def lock link_to_null [OF inv5])
  moreover have "habs s h = None" using s3(2) habs_truncate [OF t2] by simp
  moreover have "app_started e f d nm nfy tag h s ?s5"
    unfolding app_started_def
    using app_queue_set(2) [OF q4 qs'(2)] habs_truncate [OF t5] s3 m by (auto simp: upd_aee_def may_start_def)
  ultimately show thesis using that inv5 by blast
qed

section \<open>The thread\<close>

lemma name_roundtrip:
  assumes "\<forall>c\<in>set nm. c \<noteq> CHR 0x00"
  shows "bytes_name (name_bytes nm @ r) = take AEE_NAME_MAX_LENGTH nm"
proof -
  let ?c = "take AEE_NAME_MAX_LENGTH nm" and ?f = "of_char :: char \<Rightarrow> u8"
  have u: "unat (?f c) = of_char c" for c
  proof -
    have "(of_char c :: nat) < 256" by simp
    then have "unat (of_nat (of_char c) :: u8) = (of_char c :: nat)" by (simp add: unat_of_nat take_bit_eq_mod)
    then show ?thesis by (simp only: of_nat_of_char)
  qed
  have nz: "?f c \<noteq> 0" if "c \<in> set ?c" for c
  proof
    assume "?f c = 0"
    then have "(of_char c :: nat) = 0" using u [of c] by simp
    then have "of_char c = (of_char (CHR 0x00) :: nat)" by simp
    then have "c = CHR 0x00" by (simp only: of_char_eq_iff)
    then show False using assms that by (auto dest: in_set_takeD)
  qed
  have "takeWhile (\<lambda>b. b \<noteq> 0) (name_bytes nm @ r) = map ?f ?c"
  proof -
    obtain k where k: "AEE_NAME_MAX_LENGTH + 1 - length ?c = Suc k" by (metis Suc_diff_le Suc_eq_plus1 length_take min.cobounded2)
    have "name_bytes nm @ r = map ?f ?c @ 0 # (replicate k 0 @ r)" unfolding name_bytes_def Let_def k by simp
    moreover have "takeWhile (\<lambda>b. b \<noteq> 0) (map ?f ?c @ 0 # (replicate k 0 @ r)) = map ?f ?c"
      by (subst takeWhile_append2) (use nz in auto)
    ultimately show ?thesis by simp
  qed
  then show ?thesis by (simp add: bytes_name_def u comp_def del: take_map)
qed

definition addr_ok :: "nat list \<Rightarrow> bool" where
  "addr_ok ps \<longleftrightarrow> (\<forall>p\<in>set ps. p < 2 ^ 32)"

lemma read_main_arg_bytes:
  assumes "addr_ok [ma_init a, ma_exit a, ma_process a, ma_queue a, ma_buffer a, ma_size a]"
    and "\<forall>c\<in>set (ma_name a). c \<noteq> CHR 0x00" "length (ma_name a) \<le> AEE_NAME_MAX_LENGTH"
  shows "read_main_arg (main_arg_bytes a) = a"
proof -
  let ?w = "[ma_init a, ma_exit a, ma_process a, ma_queue a, ma_buffer a, ma_size a]"
  let ?m = "main_arg_bytes a"
  have m: "?m = words_bytes ?w @ (name_bytes (ma_name a) @ [0, 0, 0])" by (simp only: main_arg_bytes_def append_assoc)
  have w: "get_word ?m i = ?w ! i" if "i < 6" for i
    unfolding m by (rule get_word_words) (use that assms(1) nth_mem [of i ?w] in \<open>auto simp: addr_ok_def\<close>)
  have "drop 24 ?m = name_bytes (ma_name a) @ [0, 0, 0]" unfolding m by (simp add: drop_append del: words_bytes_simps)
  then have "bytes_name (drop 24 ?m) = ma_name a" using name_roundtrip [OF assms(2), of "[0, 0, 0]"] assms(3) by simp
  then show ?thesis
    using w [of 0] w [of 1] w [of 2] w [of 3] w [of 4] w [of 5] by (cases a) (simp add: read_main_arg_def)
qed

lemma main_arg_words:
  assumes "addr_ok [p, pf, pv]"
  shows "get_word (main_arg p h pf pv) 0 = p" "get_word (main_arg p h pf pv) 1 = unat h"
    "get_word (main_arg p h pf pv) 2 = pf" "get_word (main_arg p h pf pv) 3 = pv"
  unfolding main_arg_def
  using assms unat_bounds(3) [of h] get_word_words_all [of 0 "[p, unat h, pf, pv]"] get_word_words_all [of 1 "[p, unat h, pf, pv]"]
    get_word_words_all [of 2 "[p, unat h, pf, pv]"] get_word_words_all [of 3 "[p, unat h, pf, pv]"]
  by (simp_all add: addr_ok_def del: words_bytes_simps)

definition start_addr_ok :: "app_env \<Rightarrow> app_fct_tbl \<Rightarrow> fptr \<Rightarrow> ptr \<Rightarrow> bool" where
  "start_addr_ok e f nfy tag \<longleftrightarrow> addr_ok [ev_aee e, ev_arg e, ev_buf e, ev_queue e, pf_init f, pf_exit f, pf_process_msg f,
     nfy, tag, ev_junk e 1, ev_junk e 2]"

text \<open>The first message makes the application initialise itself.\<close>

definition init_calls :: "'w app_calls \<Rightarrow> fptr \<Rightarrow> string \<Rightarrow> handle \<Rightarrow> fptr \<Rightarrow> ptr \<Rightarrow> 'w aee_sys_scheme \<Rightarrow> (bool \<times> 'w aee_sys_scheme) result" where
  "init_calls c pf nm h nfy tag s =
    then_do (notify c nfy h tag APP_NFY_PRE_INIT s) (\<lambda>(b_exit, s).
    if b_exit then Inr (True, s)
    else then_do (call_init c pf nm h s) (\<lambda>(r, s).
      then_do (notify c nfy h tag (if r = AEER_OK then APP_NFY_INIT_OK else APP_NFY_INIT_FAILED) s) (\<lambda>(_, s).
      Inr (r \<noteq> AEER_OK, s))))"

lemma handle_init_msg:
  assumes "addr_ok [nfy, tag, u, v]"
  shows "app_handle_msg c h a (app_header APPMAN_MSG_INIT nfy tag u v @ r) s = init_calls c (ma_init a) (ma_name a) h nfy tag s"
proof -
  note w = header_words [of APPMAN_MSG_INIT nfy tag u v r]
  show ?thesis using assms
    by (simp add: app_handle_msg_def init_calls_def addr_ok_def Let_def w w(2) [unfolded One_nat_def] cong: if_cong)
qed

text \<open>The new thread calls the main function of the application.\<close>

lemma app_thread_runs:
  assumes st: "app_started e f d nm nfy tag h s s'" and l: "aee_list s ps" "ev_aee e \<notin> set ps"
    and m: "may_start e f d nm s" and a: "start_addr_ok e f nfy tag"
    and e': "ev_self e' = fst (the (ev_started e))" "ev_pvt e' \<noteq> NULL"
  obtains args th s2 where "thread_proc (ev_thread e) (aee_thr s') = Inr (fn_aee_main, Some args, th)"
    "aee_main_start e' args (s'\<lparr>aee_thr := th\<rparr>) = Inr (Some (fn_appman_main, h, ev_arg e), s2)"
    "aee_list s2 (ev_aee e # ps)" "hlib.truncate s2 = hlib.truncate s'" "aee_bufs s2 = aee_bufs s'" "aee_qs s2 = aee_qs s'"
    "aee_sys.more s2 = aee_sys.more s'" "\<forall>p. map_option ae_msg_queue (aee_objs s2 p) = map_option ae_msg_queue (aee_objs s' p)"
proof -
  let ?d = "app_aee_desc d (app_start_arg f d nm (ev_queue e) (ev_buf e))"
  let ?args = "main_arg (ev_aee e) h fn_appman_main (ev_arg e)" and ?t = "fst (the (ev_started e))" and ?p = "ev_aee e"
  have ds: "ds_main ?d = fn_appman_main" by (simp add: app_aee_desc_def)
  have nz: "ev_thread e \<noteq> NULL" "?p \<noteq> NULL" using m by (simp_all add: may_start_def may_create_def)
  obtain o1 where o1: "aee_objs s' = (aee_objs s)(?p \<mapsto> o1)" "ae_app o1 = h" using st by (auto simp: app_started_def)
  have thr: "aee_thr s' = app_thread e ?d nm h (aee_thr s)" using st by (simp add: app_started_def)
  let ?th = "(aee_thr s')\<lparr>th_self := (th_self (aee_thr s'))(?t := ev_thread e)\<rparr>"
  have tp: "thread_proc (ev_thread e) (aee_thr s') = Inr (fn_aee_main, Some ?args, ?th)"
    using nz by (simp add: thread_proc_def thr app_thread_def new_thread_def ds)
  let ?s1 = "s'\<lparr>aee_thr := ?th\<rparr>"
  have w: "get_word ?args 0 = ?p" "get_word ?args 1 = unat h" "get_word ?args 2 = fn_appman_main" "get_word ?args 3 = ev_arg e"
    by (rule main_arg_words; use a in \<open>simp add: start_addr_ok_def addr_ok_def\<close>)+
  have l1: "aee_list ?s1 ps"
  proof -
    have "aee_link ?s1 x = aee_link s x" if "x \<in> set ps" for x using that l(2) o1(1) by (auto simp: aee_link_def)
    then have "path (aee_link ?s1) (pt_aees s) ps NULL = path (aee_link s) (pt_aees s) ps NULL" by (intro path_cong)
    then show ?thesis using l st o1(1) by (auto simp: aee_list_def app_started_def)
  qed
  have add: "aee_add ?p ?s1 = Inr ((upd_aee ?p (o1\<lparr>ae_next := pt_aees s'\<rparr>) ?s1)\<lparr>pt_aees := ?p\<rparr>)"
    using o1(1) by (simp add: aee_add_def)
  let ?s2 = "(upd_aee ?p (o1\<lparr>ae_next := pt_aees s'\<rparr>) ?s1)\<lparr>pt_aees := ?p\<rparr>"
  have l2: "aee_list ?s2 (?p # ps)"
    using aee_list_add [OF l1, of ?p o1] nz o1(1) l(2) add by simp
  have f: "thread_find_pvt_key (new_thread x z nm' pf g pr) k = Some NULL" for x z nm' pf g pr k
    using ring_find_eq [of ring0 "[]"] by (simp add: thread_find_pvt_key_def new_thread_def ring0_def)
  obtain th2 where sp: "u_thread_set_pvt (ev_pvt e') (ev_self e') PVT_KEY_AEE NULL ?p ?th = Inr (OSR_OK, th2)"
    using nz e' by (simp add: u_thread_set_pvt_def with_self_def thr app_thread_def f)
  have "aee_main_start e' ?args ?s1 = Inr (Some (fn_appman_main, h, ev_arg e), ?s2\<lparr>aee_thr := th2\<rparr>)"
    using add sp by (simp add: aee_main_start_def w w(2) [unfolded One_nat_def] upd_aee_def)
  moreover have "aee_list (?s2\<lparr>aee_thr := th2\<rparr>) (?p # ps)"
  proof -
    have "aee_link (?s2\<lparr>aee_thr := th2\<rparr>) = aee_link ?s2" by (simp add: aee_link_def fun_eq_iff)
    then show ?thesis using l2 by (simp add: aee_list_def)
  qed
  ultimately show thesis using that [OF tp] o1(1) by (fastforce simp: upd_aee_def)
qed

text \<open>The first turn of the main function.\<close>

lemma app_first_turn:
  assumes st: "app_started e f d nm nfy tag h s s'" and l: "aee_list s ps" "ev_aee e \<notin> set ps"
    and m: "may_start e f d nm s" and a: "start_addr_ok e f nfy tag" and nm: "\<forall>c\<in>set nm. c \<noteq> CHR 0x00"
    and e': "ev_self e' = fst (the (ev_started e))" "ev_pvt e' \<noteq> NULL" "ev_lock e' = 0"
  obtains args th s2 a s3 where "thread_proc (ev_thread e) (aee_thr s') = Inr (fn_aee_main, Some args, th)"
    "aee_main_start e' args (s'\<lparr>aee_thr := th\<rparr>) = Inr (Some (fn_appman_main, h, ev_arg e), s2)" "aee_list s2 (ev_aee e # ps)"
    "appman_main_start (ev_arg e) s2 = Inr a" "a = app_start_arg f d nm (ev_queue e) (ev_buf e)"
    "appman_turn c e' h a s2 = then_do (init_calls c (pf_init f) (take AEE_NAME_MAX_LENGTH nm) h nfy tag s3) (\<lambda>x. Inr (Returned x))"
    "aee_sys.more s3 = aee_sys.more s'"
proof -
  let ?a = "app_start_arg f d nm (ev_queue e) (ev_buf e)" and ?z = "HEADER_SIZE + unat (ad_max_msg_size d)"
  obtain args th s2 where s2: "thread_proc (ev_thread e) (aee_thr s') = Inr (fn_aee_main, Some args, th)"
    "aee_main_start e' args (s'\<lparr>aee_thr := th\<rparr>) = Inr (Some (fn_appman_main, h, ev_arg e), s2)"
    "aee_list s2 (ev_aee e # ps)" "hlib.truncate s2 = hlib.truncate s'" "aee_bufs s2 = aee_bufs s'" "aee_qs s2 = aee_qs s'"
    "aee_sys.more s2 = aee_sys.more s'" "\<forall>p. map_option ae_msg_queue (aee_objs s2 p) = map_option ae_msg_queue (aee_objs s' p)"
    by (rule app_thread_runs [OF st l m a e'(1,2)])
  have q': "app_queue h (ev_queue e) (unat (ad_msg_count d)) ?z s' [app_header APPMAN_MSG_INIT nfy tag (ev_junk e 1) (ev_junk e 2)]"
    using st by (simp add: app_started_def)
  then have q2: "app_queue h (ev_queue e) (unat (ad_msg_count d)) ?z s2 [app_header APPMAN_MSG_INIT nfy tag (ev_junk e 1) (ev_junk e 2)]"
    using aee_at_truncate [OF s2(4)] hlib_truncate_sel(1) [OF s2(4)] s2(6) s2(8)
    unfolding app_queue_def by (metis (no_types, lifting) map_option_eq_Some)
  have m2: "app_main ?a (ev_queue e) ?z s2" using st s2(5) m by (simp add: app_main_def app_started_def app_start_arg_def may_start_def)
  have "\<forall>c\<in>set (ma_name ?a). c \<noteq> CHR 0x00" using nm by (auto simp: app_start_arg_def dest: in_set_takeD)
  moreover have "addr_ok [ma_init ?a, ma_exit ?a, ma_process ?a, ma_queue ?a, ma_buffer ?a, ma_size ?a]"
    using a unat_bounds(2) [of "ad_max_msg_size d"] by (simp add: start_addr_ok_def addr_ok_def app_start_arg_def)
  ultimately have arg: "appman_main_start (ev_arg e) s2 = Inr ?a"
    using st s2(5) read_main_arg_bytes [of ?a] by (simp add: appman_main_start_def app_started_def app_start_arg_def)
  obtain s3 rest where s3: "appman_turn c e' h ?a s2 =
      then_do (app_handle_msg c h ?a (app_header APPMAN_MSG_INIT nfy tag (ev_junk e 1) (ev_junk e 2) @ rest) s3) (\<lambda>x. Inr (Returned x))"
    "aee_sys.more s3 = aee_sys.more s2"
    by (rule turn_receives [OF q2 m2 e'(3)])
  have "addr_ok [nfy, tag, ev_junk e 1, ev_junk e 2]" using a by (simp add: start_addr_ok_def addr_ok_def)
  note H = handle_init_msg [OF this, of c h ?a rest s3]
  have "ma_init ?a = pf_init f" "ma_name ?a = take AEE_NAME_MAX_LENGTH nm" by (simp_all add: app_start_arg_def)
  then have "appman_turn c e' h ?a s2 = then_do (init_calls c (pf_init f) (take AEE_NAME_MAX_LENGTH nm) h nfy tag s3) (\<lambda>x. Inr (Returned x))"
    using s3(1) H by simp
  then show thesis using that [OF s2(1-3) arg refl _ ] s3(2) s2(7) by simp
qed

end
