(* ===== verification/AppExit.thy ===== *)
theory AppExit
  imports AppStart
begin

text \<open>The end of an application: its object leaves the list and is freed with its handle.\<close>

lemma more_with_aee:
  assumes "hlib.truncate s' = hlib.truncate s"
  shows "live s' = live s" "hflags s' = hflags s" "htype s' = htype s" "ahead s' = ahead s" "linked s' = linked s"
    "payload s' = payload s" "make_handle s' = make_handle s" "b_init s' = b_init s" "anext s' = anext s"
    "get_h_ctrl_from_handle s' = get_h_ctrl_from_handle s" "ctrl s' = ctrl s"
proof -
  note t = hlib_truncate_sel [OF assms]
  note c = sel_cong [OF t(2)]
  show "live s' = live s" using t(3) c by (auto simp: live_def active_def fun_eq_iff)
  show "hflags s' = hflags s" "htype s' = htype s" "ahead s' = ahead s" "anext s' = anext s" by (simp_all add: c)
  show "linked s' = linked s" by (simp add: linked_def c fun_eq_iff)
  show "payload s' = payload s" by (simp add: payload_def t(2) fun_eq_iff)
  show "make_handle s' = make_handle s" by (simp add: make_handle_def t(2) fun_eq_iff)
  show "b_init s' = b_init s" "ctrl s' = ctrl s" using t(1,2) .
  show "get_h_ctrl_from_handle s' = get_h_ctrl_from_handle s" by (simp add: get_h_ctrl_from_handle_def t(2,3) fun_eq_iff)
qed

text \<open>An application that may end: its object at \<open>p\<close>, its handle in the block \<open>i\<close>, the head of its auxiliary list,
  which is empty, in the block \<open>j\<close>.\<close>

definition app_at :: "'w aee_sys_scheme \<Rightarrow> (u16 \<Rightarrow> u16 list) \<Rightarrow> ptr \<Rightarrow> aee \<Rightarrow> u16 \<Rightarrow> u16 \<Rightarrow> bool" where
  "app_at s A p a i j \<longleftrightarrow> aee_objs s p = Some a \<and>
     live s i \<and> htype s i = AEET_PRIMARY_AEE \<and> pv_obj (ctrl s i) = p \<and> pf_free (ctrl s i) = fn_aee_free_handle \<and>
     \<not> ftst H_CTRL_FLAG_FREEING (hflags s i) \<and> \<not> linked s i \<and> ahead s i = 0 \<and>
     live s j \<and> make_handle s j = ae_aux a \<and> htype s j = HT_AUX_LINK_HEAD \<and> pf_free (ctrl s j) = fn_aux_link_head_free \<and>
     \<not> ftst H_CTRL_FLAG_FREEING (hflags s j) \<and> \<not> linked s j \<and> A j = []"

lemma aux_head_not_linked:
  assumes "handle_inv s L A" "live s j" "htype s j = HT_AUX_LINK_HEAD"
  shows "ahead s j = 0"
proof (rule ccontr)
  assume n: "ahead s j \<noteq> 0"
  have ok: "aux_ok s A" using assms(1) by (simp add: handle_inv_def)
  have h: "is_aux_head s (ahead s j)" "j \<in> set (A (ahead s j))" using ok n assms(2) unfolding aux_ok_def by blast+
  then have "alist s (ahead s j) (A (ahead s j))" using ok unfolding aux_ok_def by blast
  then have "HT_RES_BY_HANDLE_LIB \<le> htype s j" using h(2) unfolding alist_def by blast
  then show False using assms(3) head_type_not_client by simp
qed

text \<open>Freeing the head of the auxiliary list.\<close>

lemma free_aux_head:
  assumes inv: "handle_inv s L A" and j: "live s j" "htype s j = HT_AUX_LINK_HEAD" "pf_free (ctrl s j) = fn_aux_link_head_free"
    "\<not> ftst H_CTRL_FLAG_FREEING (hflags s j)" "\<not> linked s j" "A j = []"
  obtains s' where "u_handle_free cb acb (make_handle s j) False s = Inr (HR_OK, s')" "handle_inv s' L A"
    "habs s' = (habs s)(make_handle s j := None)" "live s' = (live s)(j := False)" "hcount s' = (hcount s)(j := hcount s j + 1)"
    "htype s' = htype s" "payload s' = payload s" "\<forall>i. i \<noteq> j \<longrightarrow> hflags s' i = hflags s i" "ahead s' = (ahead s)(j := 0)"
    "hlib.more s' = hlib.more s" "pt_h_ctrl_arr s' = pt_h_ctrl_arr s"
proof -
  let ?f = "set_flags j (fset H_CTRL_FLAG_FREEING) s"
  have b: "b_init s" using inv by (simp add: handle_inv_def)
  have g: "get_h_ctrl_from_handle s (make_handle s j) = Some j" using j(1) by (simp add: get_h_ctrl_live)
  have a0: "ahead s j = 0" by (rule aux_head_not_linked [OF inv j(1,2)])
  have invf: "handle_inv ?f L A" using inv by simp
  have mf: "make_handle ?f j = make_handle s j" by (rule make_handle_cong) simp
  have lf: "live ?f j" using j(1) by simp
  have gf: "get_h_ctrl_from_handle ?f (make_handle s j) = Some j" using lf mf by (simp add: get_h_ctrl_live)
  have call: "call_free cb (pf_free (ctrl s j)) (make_handle s j) (htype s j) (pv_obj (ctrl s j)) (u_ptr (ctrl s j)) False ?f = Inr (True, ?f)"
    using aux_link_head_free_eq [OF invf gf, of "pv_obj (ctrl s j)" "u_ptr (ctrl s j)" False] j by (simp add: call_free_def)
  have nl: "\<not> linked ?f j" using j(5) by (simp add: linked_def flag_simps)
  obtain s' where s': "u_handle_free cb acb (make_handle s j) False s = Inr (HR_OK, s')"
    "handle_inv s' L (if ahead ?f j = 0 then A else A(ahead ?f j := remove1 j (A (ahead ?f j))))"
    "habs s' = (habs ?f)(make_handle ?f j := None)" "live s' = (live ?f)(j := False)"
    "hcount s' = (hcount ?f)(j := hcount ?f j + 1)" "htype s' = htype ?f" "payload s' = payload ?f"
    "\<And>i. i \<noteq> j \<Longrightarrow> hflags s' i = hflags ?f i" "ahead s' = (ahead ?f)(j := 0)" "hlib.more s' = hlib.more ?f"
    "pt_h_ctrl_arr s' = pt_h_ctrl_arr s"
    by (rule u_handle_free_ok [OF b g j(4) _ call _ invf lf nl, of acb])
      (use j(3,6) a0 in \<open>simp_all add: fn_aux_link_head_free_def\<close>)
  have hf: "habs ?f = habs s" by (rule habs_cong_payload) simp_all
  show thesis
    by (rule that [OF s'(1)]) (use s' a0 hf mf in \<open>simp_all\<close>)
qed

text \<open>The parents of the other applications after the end of \<open>a\<close>, whose handle is \<open>h\<close>.\<close>

definition parent_after :: "handle \<Rightarrow> aee \<Rightarrow> ptr list \<Rightarrow> ptr \<Rightarrow> aee \<Rightarrow> handle" where
  "parent_after h a ps q b =
    (if ae_parent_app a \<noteq> NULL_HANDLE \<and> q \<in> set ps \<and> ae_parent_app b = h then NULL_HANDLE else ae_parent_app b)"

lemma relinked_parent: "relinked s s' \<Longrightarrow> map_option (\<lambda>b. g (ae_parent_app b)) (aee_objs s' q) = map_option (\<lambda>b. g (ae_parent_app b)) (aee_objs s q)"
proof (cases "aee_objs s q")
  case None
  moreover assume "relinked s s'"
  ultimately show ?thesis using relinked_dom [of s s'] by (metis domIff option.map_disc_iff)
next
  case (Some b)
  moreover assume "relinked s s'"
  ultimately obtain v where "aee_objs s' q = Some (b\<lparr>ae_next := v\<rparr>)" using relinked_obj by blast
  then show ?thesis using Some by simp
qed

text \<open>What the free callback of the handle does.\<close>

lemma aee_free_handle_ok:
  assumes inv: "handle_inv s L A" and l: "aee_list s ps" "p \<notin> set ps" and o: "aee_objs s p = Some a"
    and j: "live s j" "make_handle s j = ae_aux a" "htype s j = HT_AUX_LINK_HEAD" "pf_free (ctrl s j) = fn_aux_link_head_free"
      "\<not> ftst H_CTRL_FLAG_FREEING (hflags s j)" "\<not> linked s j" "A j = []"
  obtains s' where "aee_free_handle cbs h ty p tag False s = Inr (True, s')" "handle_inv s' L A"
    "habs s' = (habs s)(ae_aux a := None)" "live s' = (live s)(j := False)" "hcount s' = (hcount s)(j := hcount s j + 1)"
    "htype s' = htype s" "payload s' = payload s" "\<forall>i. i \<noteq> j \<longrightarrow> hflags s' i = hflags s i" "ahead s' = (ahead s)(j := 0)"
    "aee_objs s' p = None" "\<forall>q. q \<noteq> p \<longrightarrow> map_option ae_parent_app (aee_objs s' q) = map_option (parent_after h a ps q) (aee_objs s q)"
    "aee_list s' ps" "aee_qs s' = aee_qs s" "aee_bufs s' = aee_bufs s" "aee_thr s' = aee_thr s"
    "pt_h_ctrl_arr s' = pt_h_ctrl_arr s"
proof -
  have b: "b_init s" using inv by (simp add: handle_inv_def)
  have "alist s j (A j)" using inv j(1,3) unfolding handle_inv_def aux_ok_def is_aux_head_def by blast
  then have "anext s j = 0" using j(7) by (auto simp: alist_def dlist_def)
  then have nx: "next_aux (ae_aux a) s = (NULL_HANDLE, s)" using next_aux_eq [OF b j(1)] j(2) by (simp add: next_aux_def)
  obtain s1 where s1: "u_handle_free (inner_free cbs) (aux_free cbs) (make_handle s j) False s = Inr (HR_OK, s1)" "handle_inv s1 L A"
    "habs s1 = (habs s)(make_handle s j := None)" "live s1 = (live s)(j := False)" "hcount s1 = (hcount s)(j := hcount s j + 1)"
    "htype s1 = htype s" "payload s1 = payload s" "\<forall>i. i \<noteq> j \<longrightarrow> hflags s1 i = hflags s i" "ahead s1 = (ahead s)(j := 0)"
    "hlib.more s1 = hlib.more s" "pt_h_ctrl_arr s1 = pt_h_ctrl_arr s"
    by (rule free_aux_head [OF inv j(1,3-7), of "inner_free cbs" "aux_free cbs"])
  note M = more_aee [OF s1(10)]
  have lk: "aee_link s1 = aee_link s" by (simp add: aee_link_def M fun_eq_iff)
  have l1: "aee_list s1 ps" using l by (simp add: aee_list_def M lk)
  let ?s2 = "if ae_parent_app a = NULL_HANDLE then s1
    else s1\<lparr>aee_objs := \<lambda>q. if q \<in> set ps then map_option (orphan h) (aee_objs s1 q) else aee_objs s1 q\<rparr>"
  have c: "aee_clean_relationships h p s1 = Inr ?s2" by (rule aee_clean_relationships_eq [OF l1]) (simp add: M o)
  let ?s3 = "?s2\<lparr>aee_objs := (aee_objs ?s2)(p := None)\<rparr>"
  have t: "hlib.truncate ?s3 = hlib.truncate s1" by simp
  note W = more_with_aee [OF t] habs_truncate [OF t]
  have hc: "hcount ?s3 = hcount s1" using W(11) by (simp add: hcount_def fun_eq_iff del: field_folds)
  have e: "aee_free_handle cbs h ty p tag False s = Inr (True, ?s3)"
    using s1(1) j(2) by (simp add: aee_free_handle_def o nx c) (simp add: free_aux_loop.simps c)
  have objs: "aee_objs ?s3 q = (if q = p then None else if ae_parent_app a \<noteq> NULL_HANDLE \<and> q \<in> set ps then map_option (orphan h) (aee_objs s q) else aee_objs s q)" for q
    by (simp add: M)
  have lk3: "aee_link ?s3 x = aee_link s x" if "x \<in> set ps" for x
    using that l(2) unfolding aee_link_def objs by (auto split: option.split simp: orphan_def)
  have "path (aee_link ?s3) (pt_aees s) ps NULL = path (aee_link s) (pt_aees s) ps NULL" by (rule path_cong) (rule lk3)
  then have l3: "aee_list ?s3 ps" using l unfolding aee_list_def by (auto simp: M objs dom_def subset_iff)
  have par: "map_option ae_parent_app (aee_objs ?s3 q) = map_option (parent_after h a ps q) (aee_objs s q)" if "q \<noteq> p" for q
    using that unfolding objs by (cases "aee_objs s q") (auto simp: orphan_def parent_after_def)
  obtain s3 where s3: "s3 = ?s3" by blast
  have rest: "aee_qs s3 = aee_qs s" "aee_bufs s3 = aee_bufs s" "aee_thr s3 = aee_thr s" by (simp_all add: s3 M)
  have ar: "pt_h_ctrl_arr s3 = pt_h_ctrl_arr s" by (simp add: s3 s1(11))
  have none: "aee_objs s3 p = None" by (simp add: s3)
  note F = e l3 par handle_inv_truncate [OF s1(2) t] W hc
  note F = F [folded s3]
  show thesis
    by (rule that [OF F(1)]) (use F s1 j(2) none rest ar in simp_all)
qed

lemma aee_clean_up_ok:
  assumes inv: "handle_inv s L A" and l: "aee_list s ps" "p \<in> set ps" and ap: "app_at s A p a i j"
  defines "h \<equiv> make_handle s i"
  obtains s' where "aee_clean_up cbs h p s = Inr s'" "handle_inv s' L A" "habs s' = (habs s)(ae_aux a := None, h := None)"
    "aee_list s' (remove1 p ps)" "aee_objs s' p = None"
    "\<forall>q. q \<noteq> p \<longrightarrow> map_option ae_parent_app (aee_objs s' q) = map_option (parent_after h a (remove1 p ps) q) (aee_objs s q)"
    "aee_qs s' = aee_qs s" "aee_bufs s' = aee_bufs s" "aee_thr s' = aee_thr s"
proof -
  obtain s1 where s1: "aee_remove p s = Inr s1" "aee_list s1 (remove1 p ps)" "relinked s s1"
    using aee_list_remove [OF l(1)] by blast
  have t1: "hlib.truncate s1 = hlib.truncate s" using s1(3) by (simp add: relinked_def)
  note W1 = more_with_aee [OF t1]
  obtain v where o1: "aee_objs s1 p = Some (a\<lparr>ae_next := v\<rparr>)" using relinked_obj [OF s1(3)] ap by (auto simp: app_at_def)
  let ?a = "a\<lparr>ae_next := v\<rparr>" and ?f = "set_flags i (fset H_CTRL_FLAG_FREEING) s1"
  have inv1: "handle_inv s1 L A" by (rule handle_inv_truncate [OF inv t1])
  have invf: "handle_inv ?f L A" using inv1 by simp
  have ij: "i \<noteq> j" using ap by (auto simp: app_at_def)
  have Mf: "hlib.more ?f = hlib.more s1" by simp
  note M = more_aee [OF Mf]
  have lkf: "aee_link ?f = aee_link s1" by (simp add: aee_link_def M fun_eq_iff)
  have lf: "aee_list ?f (remove1 p ps)" using s1(2) by (simp add: aee_list_def M lkf)
  have np: "p \<notin> set (remove1 p ps)" using l(1) by (simp add: aee_list_def)
  have of: "aee_objs ?f p = Some ?a" by (simp add: M o1)
  have mk: "make_handle ?f x = make_handle s x" for x
    using W1(7) make_handle_cong [of ?f x s1] by simp
  have linked_f: "linked ?f = linked s" using W1(5) by (simp add: fun_eq_iff)
  have j: "live ?f j" "make_handle ?f j = ae_aux ?a" "htype ?f j = HT_AUX_LINK_HEAD" "pf_free (ctrl ?f j) = fn_aux_link_head_free"
      "\<not> ftst H_CTRL_FLAG_FREEING (hflags ?f j)" "\<not> linked ?f j" "A j = []"
    using ap ij W1 by (simp_all add: app_at_def mk linked_f)
  obtain s2 where s2: "aee_free_handle cbs h (htype s1 i) p (u_ptr (ctrl s1 i)) False ?f = Inr (True, s2)" "handle_inv s2 L A"
    "habs s2 = (habs ?f)(ae_aux ?a := None)" "live s2 = (live ?f)(j := False)" "hcount s2 = (hcount ?f)(j := hcount ?f j + 1)"
    "htype s2 = htype ?f" "payload s2 = payload ?f" "\<forall>i. i \<noteq> j \<longrightarrow> hflags s2 i = hflags ?f i" "ahead s2 = (ahead ?f)(j := 0)"
    "aee_objs s2 p = None" "\<forall>q. q \<noteq> p \<longrightarrow> map_option ae_parent_app (aee_objs s2 q) = map_option (parent_after h ?a (remove1 p ps) q) (aee_objs ?f q)"
    "aee_list s2 (remove1 p ps)" "aee_qs s2 = aee_qs ?f" "aee_bufs s2 = aee_bufs ?f" "aee_thr s2 = aee_thr ?f"
    "pt_h_ctrl_arr s2 = pt_h_ctrl_arr ?f"
    by (rule aee_free_handle_ok [OF invf lf np of j, of cbs h "htype s1 i" "u_ptr (ctrl s1 i)"])
  have b1: "b_init s1" using inv1 by (simp add: handle_inv_def)
  have g1: "get_h_ctrl_from_handle s1 h = Some i" using ap by (simp add: W1 h_def get_h_ctrl_live app_at_def)
  have fr: "\<not> ftst H_CTRL_FLAG_FREEING (hflags s1 i)" "pf_free (ctrl s1 i) \<noteq> NULL" "pf_free (ctrl s1 i) = fn_aee_free_handle"
    "pv_obj (ctrl s1 i) = p" using ap by (simp_all add: W1 app_at_def)
  have call: "call_free (free_cb cbs) (pf_free (ctrl s1 i)) h (htype s1 i) (pv_obj (ctrl s1 i)) (u_ptr (ctrl s1 i)) False ?f = Inr (True, s2)"
    using s2(1) fr(3,4) by (simp add: call_free_def fn_aux_link_head_free_def free_cb_def)
  have i2: "live s2 i" "\<not> linked s2 i" "\<not> is_aux_head s2 i" "ahead s2 i = 0"
    using ap ij s2 W1 linked_f by (auto simp: app_at_def linked_def is_aux_head_def flag_simps)
  obtain s3 where s3: "u_handle_free (free_cb cbs) (aux_free cbs) h False s1 = Inr (HR_OK, s3)"
    "handle_inv s3 L (if ahead s2 i = 0 then A else A(ahead s2 i := remove1 i (A (ahead s2 i))))"
    "habs s3 = (habs s2)(make_handle s2 i := None)" "hlib.more s3 = hlib.more s2"
    by (rule u_handle_free_ok [OF b1 g1 fr(1,2) call _ s2(2) i2(1,2), of "aux_free cbs"]) (use i2 s2(16) in auto)
  note M3 = more_aee [OF s3(4)]
  have lk3: "aee_link s3 = aee_link s2" by (simp add: aee_link_def M3 fun_eq_iff)
  have l3: "aee_list s3 (remove1 p ps)" using s2(12) by (simp add: aee_list_def M3 lk3)
  have "habs ?f = habs s1" by (rule habs_cong_payload) simp_all
  then have hb: "habs ?f = habs s" using habs_truncate [OF t1] by simp
  have m2: "make_handle s2 i = h" using make_handle_cong [of s2 i ?f] s2(5) ij mk by (simp add: h_def)
  have par: "map_option ae_parent_app (aee_objs s3 q) = map_option (parent_after h a (remove1 p ps) q) (aee_objs s q)" if "q \<noteq> p" for q
  proof -
    let ?g = "\<lambda>x. if ae_parent_app a \<noteq> NULL_HANDLE \<and> q \<in> set (remove1 p ps) \<and> x = h then NULL_HANDLE else x"
    have "parent_after h ?a (remove1 p ps) q = (\<lambda>b. ?g (ae_parent_app b))" "parent_after h a (remove1 p ps) q = (\<lambda>b. ?g (ae_parent_app b))"
      by (simp_all add: parent_after_def fun_eq_iff)
    then have "map_option (parent_after h ?a (remove1 p ps) q) (aee_objs s1 q) = map_option (parent_after h a (remove1 p ps) q) (aee_objs s q)"
      using relinked_parent [OF s1(3), of ?g q] by (simp only:)
    then show ?thesis using s2(11) that M3 M by simp
  qed
  have "aee_clean_up cbs h p s = Inr s3" by (simp add: aee_clean_up_def s1(1) handle_free_def s3(1))
  moreover have "handle_inv s3 L A" using s3(2) i2(4) by simp
  moreover have "habs s3 = (habs s)(ae_aux a := None, h := None)" using s3(3) s2(3) hb m2 by simp
  moreover have "aee_objs s3 p = None" using s2(10) by (simp add: M3)
  moreover have "aee_qs s3 = aee_qs s" "aee_bufs s3 = aee_bufs s" "aee_thr s3 = aee_thr s"
    using s2(13-15) s1(3) by (simp_all add: M3 M relinked_def)
  ultimately show thesis using l3 par by (intro that [of s3]) simp_all
qed

end
