(* ===== verification/Amb.thy ===== *)
theory Amb
  imports AppMan Sema
begin

text \<open>The broker of the application manager, am/amb/amb.c: the applications register with it, and it passes the
  requests of all threads on to the application manager as messages.  The state of both lives in one record.

  What other threads do while a call sleeps or waits is an argument: \<open>an_others i r\<close> is what they do before attempt
  \<open>r\<close> to send to application \<open>i\<close>, \<open>an_wait p\<close> what they do until the semaphore at \<open>p\<close> can be taken, or for ever.\<close>

section \<open>State\<close>

abbreviation (input) AMBR_OK :: int where "AMBR_OK \<equiv> 0"
abbreviation (input) AMBR_FAIL :: int where "AMBR_FAIL \<equiv> -1"
abbreviation (input) AMBR_INV_ARG :: int where "AMBR_INV_ARG \<equiv> -2"
abbreviation (input) AMBR_NOT_AUTHORIZED :: int where "AMBR_NOT_AUTHORIZED \<equiv> -3"
abbreviation (input) AMBR_BE_REGISTERED :: int where "AMBR_BE_REGISTERED \<equiv> -4"
abbreviation (input) AMB_REQUEST_START :: u32 where "AMB_REQUEST_START \<equiv> 1"
abbreviation (input) AMB_REQUEST_RESUME :: u32 where "AMB_REQUEST_RESUME \<equiv> 2"
abbreviation (input) AMB_REQUEST_PAUSE :: u32 where "AMB_REQUEST_PAUSE \<equiv> 3"
abbreviation (input) AMB_REQUEST_EXIT :: u32 where "AMB_REQUEST_EXIT \<equiv> 4"
abbreviation (input) AMB_REQUEST_REG :: u32 where "AMB_REQUEST_REG \<equiv> 5"
abbreviation (input) AMB_REQUEST_BROADCAST_MSG :: u32 where "AMB_REQUEST_BROADCAST_MSG \<equiv> 6"
abbreviation (input) AMB_REQUEST_DISPATCH_MSG :: u32 where "AMB_REQUEST_DISPATCH_MSG \<equiv> 7"
abbreviation (input) AMB_REQUEST_TOTAL_NUMBER :: u32 where "AMB_REQUEST_TOTAL_NUMBER \<equiv> 8"
abbreviation (input) AMB_BROADCAST_OFFSET :: u32 where "AMB_BROADCAST_OFFSET \<equiv> 65536"
abbreviation (input) APP_MNGR_NAME :: string where "APP_MNGR_NAME \<equiv> ''app_mngr''"
abbreviation (input) APP_NAME_MAX_LEN :: nat where "APP_NAME_MAX_LEN \<equiv> 16"
abbreviation (input) BROADCAST_MSG_MAX_LEN :: nat where "BROADCAST_MSG_MAX_LEN \<equiv> 24"
abbreviation (input) DISPATCH_MSG_MAX_LEN :: nat where "DISPATCH_MSG_MAX_LEN \<equiv> 20"
abbreviation (input) MSGQ_RETRY_TIMES :: nat where "MSGQ_RETRY_TIMES \<equiv> 10"
abbreviation (input) DBG_LEVEL_ERROR :: u16 where "DBG_LEVEL_ERROR \<equiv> 1"
abbreviation (input) DBG_LAYER_APP :: u16 where "DBG_LAYER_APP \<equiv> 256"
abbreviation (input) fn_amb_aee_nfy_fct :: fptr where "fn_amb_aee_nfy_fct \<equiv> 31"

text \<open>The name is an array of 17 characters.\<close>

record amb_reg =
  rg_prev :: ptr
  rg_next :: ptr
  rg_name :: "u8 list"
  rg_fcts :: app_fct_tbl
  rg_desc :: app_desc

text \<open>\<open>t_g_am\<close> and the static variables of the broker, the registrations and semaphores in memory, the flags
  \<open>b_ok\<close> on the stacks of the threads that wait, and the strings that requests point to.\<close>

record am_sys = aee_sys +
  h_am :: handle
  am_mtx_sema :: ptr
  am_bin_sema :: ptr
  am_dbg_level :: u16
  am_tms_level :: u16
  ah_app :: "handle list"
  ui4_app_id :: u32
  as_app_name :: "string list"
  pt_g_regs :: ptr
  h_g_am :: handle
  h_g_mtx_sema :: ptr
  h_g_bin_sema :: ptr
  amb_dbg_level :: u16
  am_regs :: "ptr \<Rightarrow> amb_reg option"
  am_semas :: "ptr \<Rightarrow> sema option"
  am_flags :: "ptr \<Rightarrow> bool option"
  am_strs :: "ptr \<Rightarrow> string option"

text \<open>\<open>an_call i r\<close> is what the system returns to attempt \<open>r\<close> to send to application \<open>i\<close>; \<open>an_sema i k\<close> is the memory
  for the \<open>i\<close>-th semaphore and whether it can be initialised, when it is made for the \<open>k\<close>-th time; \<open>an_log\<close> is
  whether messages are printed at all.\<close>

record 'w am_env =
  an_cbs :: "'w callbacks"
  an_call :: "nat \<Rightarrow> nat \<Rightarrow> app_env"
  an_others :: "nat \<Rightarrow> nat \<Rightarrow> 'w aee_sys_scheme \<Rightarrow> 'w aee_sys_scheme"
  an_wait :: "ptr \<Rightarrow> 'w aee_sys_scheme \<Rightarrow> 'w aee_sys_scheme"
  an_self :: tid
  an_tag :: ptr
  an_sema :: "nat \<Rightarrow> nat \<Rightarrow> ptr \<times> bool"
  an_destroy :: "ptr \<Rightarrow> bool"
  an_log :: bool
  an_now :: u32
  an_period :: u32

section \<open>Strings, flags, semaphores\<close>

text \<open>The string in an array of characters; an array without a zero is read past its end.\<close>

definition c_str :: "u8 list \<Rightarrow> string result" where
  "c_str bs = (if 0 \<in> set bs then Inr (bytes_name bs) else Inl BadAccess)"

definition str_at :: "ptr \<Rightarrow> 'v am_sys_scheme \<Rightarrow> string result" where
  "str_at p s = (case am_strs s p of None \<Rightarrow> Inl BadAccess | Some nm \<Rightarrow> Inr nm)"

definition get_flag :: "ptr \<Rightarrow> 'v am_sys_scheme \<Rightarrow> bool result" where
  "get_flag p s = (case am_flags s p of None \<Rightarrow> Inl BadAccess | Some b \<Rightarrow> Inr b)"

definition set_flag :: "ptr \<Rightarrow> bool \<Rightarrow> 'v am_sys_scheme \<Rightarrow> 'v am_sys_scheme result" where
  "set_flag p b s = (case am_flags s p of None \<Rightarrow> Inl BadAccess | Some _ \<Rightarrow> Inr (s\<lparr>am_flags := (am_flags s)(p \<mapsto> b)\<rparr>))"

text \<open>A function with a local flag at \<open>p\<close>.\<close>

definition with_flag :: "ptr \<Rightarrow> bool \<Rightarrow> ('v am_sys_scheme \<Rightarrow> ('a \<times> 'v am_sys_scheme) result) \<Rightarrow> 'v am_sys_scheme \<Rightarrow> ('a \<times> 'v am_sys_scheme) result" where
  "with_flag p b f s = then_do (f (s\<lparr>am_flags := (am_flags s)(p \<mapsto> b)\<rparr>)) (\<lambda>(r, s). Inr (r, s\<lparr>am_flags := (am_flags s)(p := None)\<rparr>))"

text \<open>\<open>u_sema_lock\<close> with \<open>X_SEMA_OPTION_WAIT\<close>, and \<open>u_sema_unlock\<close>.\<close>

definition try_sema :: "tid \<Rightarrow> ptr \<Rightarrow> 'v am_sys_scheme \<Rightarrow> 'v am_sys_scheme waits result" where
  "try_sema self p s = (case am_semas s p of None \<Rightarrow> Inl BadAccess
   | Some m \<Rightarrow> (case u_sema_lock 0 0 X_SEMA_OPTION_WAIT self m of
       Waiting \<Rightarrow> Inr Waiting | Returned (_, m) \<Rightarrow> Inr (Returned (s\<lparr>am_semas := (am_semas s)(p \<mapsto> m)\<rparr>))))"

definition wait_sema :: "'v am_sys_ext am_env \<Rightarrow> ptr \<Rightarrow> 'v am_sys_scheme \<Rightarrow> 'v am_sys_scheme result" where
  "wait_sema e p s = then_do (try_sema (an_self e) p s) (\<lambda>w. case w of
     Returned s \<Rightarrow> Inr s
   | Waiting \<Rightarrow> then_do (try_sema (an_self e) p (an_wait e p s)) (\<lambda>w. case w of Returned s \<Rightarrow> Inr s | Waiting \<Rightarrow> Inl Hang))"

definition post_sema :: "tid \<Rightarrow> ptr \<Rightarrow> 'v am_sys_scheme \<Rightarrow> 'v am_sys_scheme result" where
  "post_sema self p s = (case am_semas s p of None \<Rightarrow> Inl BadAccess
   | Some m \<Rightarrow> Inr (s\<lparr>am_semas := (am_semas s)(p \<mapsto> snd (u_sema_unlock 0 self m))\<rparr>))"

text \<open>Making the \<open>i\<close>-th semaphore; the address is stored when the call succeeds.\<close>

definition make_sema :: "'v am_sys_ext am_env \<Rightarrow> nat \<Rightarrow> nat \<Rightarrow> int \<Rightarrow> u32 \<Rightarrow> 'v am_sys_scheme \<Rightarrow> (int \<times> ptr option \<times> 'v am_sys_scheme)" where
  "make_sema e i k ty v s = (case an_sema e i k of (p, prim) \<Rightarrow>
     (case u_sema_create (p \<noteq> NULL) prim (an_self e) True ty v of
       (r, None) \<Rightarrow> (r, None, s) | (r, Some m) \<Rightarrow> (r, Some p, s\<lparr>am_semas := (am_semas s)(p \<mapsto> m)\<rparr>)))"

definition drop_sema :: "'v am_sys_ext am_env \<Rightarrow> ptr \<Rightarrow> 'v am_sys_scheme \<Rightarrow> (int \<times> 'v am_sys_scheme) result" where
  "drop_sema e p s = (case am_semas s p of None \<Rightarrow> Inl BadAccess
   | Some m \<Rightarrow> (case u_sema_delete (an_destroy e p) m of (r, m') \<Rightarrow> Inr (r, s\<lparr>am_semas := (am_semas s)(p := m')\<rparr>)))"

section \<open>Retries and errors\<close>

text \<open>\<open>while (ui4_retry <= MSGQ_RETRY_TIMES)\<close>: \<open>f r\<close> is the attempt, which tells whether to leave the loop.\<close>

function retry :: "(nat \<Rightarrow> int \<Rightarrow> 's \<Rightarrow> (bool \<times> int \<times> 's) result) \<Rightarrow> nat \<Rightarrow> int \<Rightarrow> 's \<Rightarrow> (int \<times> 's) result" where
  "retry f r i4 s =
    (if MSGQ_RETRY_TIMES < r then Inr (i4, s)
     else then_do (f r i4 s) (\<lambda>(stop, i4, s). if stop then Inr (i4, s) else retry f (r + 1) i4 s))"
  by pat_completeness auto
termination by (relation "measure (\<lambda>(f, r, i4, s). 11 - r)") auto

declare retry.simps [simp del]

text \<open>\<open>RET_ON_ERR\<close>: the macro evaluates its argument again when it prints the error; \<open>k\<close> tells the first from the
  second evaluation.\<close>

definition ret_on_err :: "bool \<Rightarrow> (nat \<Rightarrow> 's \<Rightarrow> (int \<times> 's) result) \<Rightarrow> ('s \<Rightarrow> (int \<times> 's) result) \<Rightarrow> 's \<Rightarrow> (int \<times> 's) result" where
  "ret_on_err log f rest s = then_do (f 0 s) (\<lambda>(r, s).
     if r \<noteq> 0 then (if log then then_do (f 1 s) (\<lambda>(_, s). Inr (-1, s)) else Inr (-1, s)) else rest s)"

definition amb_set_dbg_level :: "u16 \<Rightarrow> 'v am_sys_scheme \<Rightarrow> 'v am_sys_scheme" where
  "amb_set_dbg_level ui2_dbg_level s = s\<lparr>amb_dbg_level := ui2_dbg_level\<rparr>"

definition amb_get_dbg_level :: "'v am_sys_scheme \<Rightarrow> u16" where
  "amb_get_dbg_level s = amb_dbg_level s OR DBG_LAYER_APP"

section \<open>Registrations\<close>

partial_function (option) reg_loop :: "string \<Rightarrow> ptr \<Rightarrow> 'v am_sys_scheme \<Rightarrow> ptr result option" where
  "reg_loop nm p s =
    (if p = NULL then Some (Inr NULL)
     else case am_regs s p of
       None \<Rightarrow> Some (Inl BadAccess)
     | Some g \<Rightarrow> (case c_str (rg_name g) of
         Inl e \<Rightarrow> Some (Inl e)
       | Inr nm' \<Rightarrow> if nm' = nm then Some (Inr p) else reg_loop nm (rg_next g) s))"

declare reg_loop.simps [code]

text \<open>The registration whose name is returned.\<close>

definition amb_authorized_app :: "string \<Rightarrow> 'v am_sys_scheme \<Rightarrow> ptr result" where
  "amb_authorized_app nm s = run_loop (reg_loop nm (pt_g_regs s) s)"

definition u_amb_get_register_info :: "string \<Rightarrow> 'v am_sys_scheme \<Rightarrow> ptr result" where
  "u_amb_get_register_info nm s = run_loop (reg_loop nm (pt_g_regs s) s)"

section \<open>Requests\<close>

definition amb_aee_nfy_fct :: "tid \<Rightarrow> handle \<Rightarrow> ptr \<Rightarrow> nat \<Rightarrow> 'v am_sys_scheme \<Rightarrow> (bool \<times> 'v am_sys_scheme) result" where
  "amb_aee_nfy_fct self h pv_tag e_nfy_reason s =
    (if e_nfy_reason \<in> {APP_NFY_INIT_OK, APP_NFY_EXIT_OK, APP_NFY_PROCESS_MSG_OK} then
       (if pv_tag \<noteq> NULL then then_do (set_flag pv_tag True s) (\<lambda>s. then_do (post_sema self (h_g_bin_sema s) s) (\<lambda>s. Inr (False, s)))
        else Inr (False, s))
     else if e_nfy_reason \<in> {APP_NFY_INIT_FAILED, APP_NFY_EXIT_FAILED, APP_NFY_PROCESS_MSG_FAILED} then
       (if pv_tag \<noteq> NULL then then_do (set_flag pv_tag False s) (\<lambda>s. then_do (post_sema self (h_g_bin_sema s) s) (\<lambda>s. Inr (False, s)))
        else Inr (False, s))
     else Inr (False, s))"

definition amb_send_request_to_am :: "'v am_sys_ext am_env \<Rightarrow> u32 \<Rightarrow> u8 list option \<Rightarrow> nat \<Rightarrow> bool \<Rightarrow> 'v am_sys_scheme
    \<Rightarrow> (int \<times> 'v am_sys_scheme) result" where
  "amb_send_request_to_am e e_req_type pv_msg z_msg_len b_sync =
    with_flag (an_tag e) True (\<lambda>s.
      then_do (retry (\<lambda>r i4 s.
        then_do (u_app_send_msg (an_call e 0 r) (h_g_am s) e_req_type pv_msg z_msg_len fn_amb_aee_nfy_fct
                   (if b_sync then an_tag e else NULL) (an_others e 0 r s)) (\<lambda>(i4, s).
          if i4 = AEER_OK then
            (if b_sync then then_do (wait_sema e (h_g_bin_sema s) s) (\<lambda>s. Inr (True, i4, s)) else Inr (True, i4, s))
          else Inr (False, i4, s))) 0 AMBR_OK s) (\<lambda>(i4, s).
      then_do (get_flag (an_tag e) s) (\<lambda>b_ok. Inr (if i4 = AEER_OK \<and> b_ok then AMBR_OK else AMBR_FAIL, s))))"

definition amb_lifecycle_req :: "'v am_sys_ext am_env \<Rightarrow> string option \<Rightarrow> u32 \<Rightarrow> bool \<Rightarrow> 'v am_sys_scheme \<Rightarrow> (int \<times> 'v am_sys_scheme) result" where
  "amb_lifecycle_req e ps_name e_req_type b_sync s = (case ps_name of
     None \<Rightarrow> Inr (AMBR_INV_ARG, s)
   | Some nm \<Rightarrow>
     then_do (amb_authorized_app nm s) (\<lambda>p.
       if p \<noteq> NULL then
         (case am_regs s p of
            None \<Rightarrow> Inl BadAccess
          | Some g \<Rightarrow> amb_send_request_to_am e e_req_type (Some (rg_name g)) (APP_NAME_MAX_LEN + 1) b_sync s)
       else Inr (AMBR_NOT_AUTHORIZED, s)))"

definition u_amb_start_app :: "'v am_sys_ext am_env \<Rightarrow> string option \<Rightarrow> 'v am_sys_scheme \<Rightarrow> (int \<times> 'v am_sys_scheme) result" where
  "u_amb_start_app e ps_name s = amb_lifecycle_req e ps_name AMB_REQUEST_START False s"

definition u_amb_resume_app :: "'v am_sys_ext am_env \<Rightarrow> string option \<Rightarrow> 'v am_sys_scheme \<Rightarrow> (int \<times> 'v am_sys_scheme) result" where
  "u_amb_resume_app e ps_name s = amb_lifecycle_req e ps_name AMB_REQUEST_RESUME False s"

definition u_amb_pause_app :: "'v am_sys_ext am_env \<Rightarrow> string option \<Rightarrow> 'v am_sys_scheme \<Rightarrow> (int \<times> 'v am_sys_scheme) result" where
  "u_amb_pause_app e ps_name s = amb_lifecycle_req e ps_name AMB_REQUEST_PAUSE False s"

definition u_amb_exit_app :: "'v am_sys_ext am_env \<Rightarrow> string option \<Rightarrow> 'v am_sys_scheme \<Rightarrow> (int \<times> 'v am_sys_scheme) result" where
  "u_amb_exit_app e ps_name s = amb_lifecycle_req e ps_name AMB_REQUEST_EXIT False s"

definition u_amb_sync_start_app :: "'v am_sys_ext am_env \<Rightarrow> string option \<Rightarrow> 'v am_sys_scheme \<Rightarrow> (int \<times> 'v am_sys_scheme) result" where
  "u_amb_sync_start_app e ps_name s = amb_lifecycle_req e ps_name AMB_REQUEST_START True s"

definition u_amb_sync_exit_app :: "'v am_sys_ext am_env \<Rightarrow> string option \<Rightarrow> 'v am_sys_scheme \<Rightarrow> (int \<times> 'v am_sys_scheme) result" where
  "u_amb_sync_exit_app e ps_name s = amb_lifecycle_req e ps_name AMB_REQUEST_EXIT True s"

text \<open>\<open>AMB_BROADCAST_MSG_T\<close> and \<open>AMB_DISPATCH_MSG_T\<close> have 32 bytes each: the type first, or the name and the type,
  the array of the message, and its length.\<close>

record amb_broadcast_msg =
  bm_type :: u32
  bm_msg :: "u8 list"
  bm_len :: u32

record amb_dispatch_msg =
  dm_name :: ptr
  dm_type :: u32
  dm_msg :: "u8 list"
  dm_len :: u32

definition broadcast_bytes :: "amb_broadcast_msg \<Rightarrow> u8 list" where
  "broadcast_bytes m = word_bytes (unat (bm_type m)) @ bm_msg m @ word_bytes (unat (bm_len m))"

definition dispatch_bytes :: "amb_dispatch_msg \<Rightarrow> u8 list" where
  "dispatch_bytes m = word_bytes (dm_name m) @ word_bytes (unat (dm_type m)) @ dm_msg m @ word_bytes (unat (dm_len m))"

abbreviation (input) BROADCAST_SIZE :: nat where "BROADCAST_SIZE \<equiv> 32"
abbreviation (input) DISPATCH_SIZE :: nat where "DISPATCH_SIZE \<equiv> 32"

definition u_amb_broadcast_msg :: "'v am_sys_ext am_env \<Rightarrow> amb_broadcast_msg option \<Rightarrow> bool \<Rightarrow> 'v am_sys_scheme \<Rightarrow> (int \<times> 'v am_sys_scheme) result" where
  "u_amb_broadcast_msg e pmsg b_sync s = (case pmsg of
     None \<Rightarrow> Inr (AMBR_INV_ARG, s)
   | Some m \<Rightarrow>
     if unat (bm_len m) > BROADCAST_MSG_MAX_LEN \<or> AMB_BROADCAST_OFFSET > bm_type m then Inr (AMBR_INV_ARG, s)
     else amb_send_request_to_am e AMB_REQUEST_BROADCAST_MSG (Some (broadcast_bytes m)) BROADCAST_SIZE b_sync s)"

definition u_amb_dispatch_msg :: "'v am_sys_ext am_env \<Rightarrow> amb_dispatch_msg option \<Rightarrow> 'v am_sys_scheme \<Rightarrow> (int \<times> 'v am_sys_scheme) result" where
  "u_amb_dispatch_msg e pmsg s = (case pmsg of
     None \<Rightarrow> Inr (AMBR_INV_ARG, s)
   | Some m \<Rightarrow>
     if unat (dm_len m) > DISPATCH_MSG_MAX_LEN then Inr (AMBR_INV_ARG, s)
     else then_do (str_at (dm_name m) s) (\<lambda>nm.
       then_do (amb_authorized_app nm s) (\<lambda>p.
         if p = NULL \<and> nm \<noteq> APP_MNGR_NAME then Inr (AMBR_NOT_AUTHORIZED, s)
         else amb_send_request_to_am e AMB_REQUEST_DISPATCH_MSG (Some (dispatch_bytes m)) DISPATCH_SIZE False s)))"

section \<open>Registering\<close>

text \<open>The limits \<open>t_g_app_desc\<close>.\<close>

definition g_app_desc :: app_desc where
  "g_app_desc = \<lparr>ad_flags = - 1, ad_stack_size = 131072, ad_priority = 125, ad_num_msgs = 1024, ad_group_id = 0,
     ad_app_id = 0, ad_msg_count = 500, ad_max_msg_size = 4096\<rparr>"

definition reg_refused :: "amb_reg \<Rightarrow> bool" where
  "reg_refused g \<longleftrightarrow> pf_init (rg_fcts g) = NULL \<or> pf_exit (rg_fcts g) = NULL \<or> pf_process_msg (rg_fcts g) = NULL \<or>
     ad_stack_size (rg_desc g) > ad_stack_size g_app_desc \<or> ad_priority (rg_desc g) < ad_priority g_app_desc \<or>
     ad_num_msgs (rg_desc g) > ad_num_msgs g_app_desc \<or> ad_msg_count (rg_desc g) > ad_msg_count g_app_desc \<or>
     ad_max_msg_size (rg_desc g) > ad_max_msg_size g_app_desc"

definition link_reg :: "ptr \<Rightarrow> 'v am_sys_scheme \<Rightarrow> 'v am_sys_scheme result" where
  "link_reg p s = (case am_regs s p of
     None \<Rightarrow> Inl BadAccess
   | Some g \<Rightarrow>
     let s = s\<lparr>am_regs := (am_regs s)(p \<mapsto> g\<lparr>rg_next := pt_g_regs s, rg_prev := NULL\<rparr>)\<rparr> in
     if pt_g_regs s = NULL then Inr (s\<lparr>pt_g_regs := p\<rparr>)
     else (case am_regs s (pt_g_regs s) of
       None \<Rightarrow> Inl BadAccess
     | Some g' \<Rightarrow> Inr (s\<lparr>am_regs := (am_regs s)(pt_g_regs s \<mapsto> g'\<lparr>rg_prev := p\<rparr>), pt_g_regs := p\<rparr>)))"

definition u_amb_register_app :: "'v am_sys_ext am_env \<Rightarrow> ptr \<Rightarrow> 'v am_sys_scheme \<Rightarrow> (int \<times> 'v am_sys_scheme) result" where
  "u_amb_register_app e pt_reg s = (case am_regs s pt_reg of
     None \<Rightarrow> Inl BadAccess
   | Some g \<Rightarrow>
     if reg_refused g then Inr (AMBR_INV_ARG, s)
     else then_do (c_str (rg_name g)) (\<lambda>nm.
       then_do (amb_authorized_app nm s) (\<lambda>p.
         if p \<noteq> NULL then Inr (AMBR_BE_REGISTERED, s)
         else
           then_do (wait_sema e (h_g_mtx_sema s) s) (\<lambda>s.
           then_do (link_reg pt_reg s) (\<lambda>s.
           then_do (amb_send_request_to_am e AMB_REQUEST_REG (Some (rg_name g)) (length nm + 1) True s) (\<lambda>(r, s).
           then_do (post_sema (an_self e) (h_g_mtx_sema s) s) (\<lambda>s. Inr (r, s))))))))"

section \<open>Start and end\<close>

text \<open>The broker makes two semaphores, its numbers 0 and 1.  \<open>k\<close> counts the evaluations of the call.\<close>

definition u_amb_init :: "'v am_sys_ext am_env \<Rightarrow> nat \<Rightarrow> 'v am_sys_scheme \<Rightarrow> (int \<times> 'v am_sys_scheme) result" where
  "u_amb_init e k s =
    (let log = an_log e \<and> amb_get_dbg_level s AND DBG_LEVEL_ERROR \<noteq> 0 in
     ret_on_err log (\<lambda>j s. then_do (u_aee_get_handle (an_cbs e) (an_call e 0 (2 * k + j)) (Some APP_MNGR_NAME) True s) (\<lambda>(r, h, s).
         Inr (r, case h of None \<Rightarrow> s | Some h \<Rightarrow> s\<lparr>h_g_am := h\<rparr>)))
     (ret_on_err log (\<lambda>j s. case make_sema e 0 (2 * k + j) X_SEMA_TYPE_MUTEX X_SEMA_STATE_UNLOCK s of (r, p, s) \<Rightarrow>
         Inr (r, case p of None \<Rightarrow> s | Some p \<Rightarrow> s\<lparr>h_g_mtx_sema := p\<rparr>))
     (ret_on_err log (\<lambda>j s. case make_sema e 1 (2 * k + j) X_SEMA_TYPE_BINARY X_SEMA_STATE_LOCK s of (r, p, s) \<Rightarrow>
         Inr (r, case p of None \<Rightarrow> s | Some p \<Rightarrow> s\<lparr>h_g_bin_sema := p\<rparr>))
     (\<lambda>s. Inr (AMBR_OK, s)))) s)"

text \<open>The code passes the handle itself where a pointer to it is expected; what lies at that address is \<open>at\<close>.\<close>

definition u_amb_destroy :: "'v am_sys_ext am_env \<Rightarrow> (handle \<Rightarrow> handle option) \<Rightarrow> 'v am_sys_scheme \<Rightarrow> 'v am_sys_scheme result" where
  "u_amb_destroy e at s =
    then_do (if h_g_am s \<noteq> NULL_HANDLE then then_do (u_aee_free_handle (an_cbs e) (at (h_g_am s)) s) (\<lambda>(_, s). Inr s) else Inr s) (\<lambda>s.
    then_do (drop_sema e (h_g_mtx_sema s) s) (\<lambda>(_, s).
    then_do (drop_sema e (h_g_bin_sema s) s) (\<lambda>(_, s). Inr s)))"

end
