(* ===== verification/Am.thy ===== *)
theory Am
  imports Amb
begin

text \<open>The application manager, am/am.c: an application of its own that starts and ends the other applications, and
  passes messages on to one of them or to all.\<close>

section \<open>Names and numbers\<close>

abbreviation (input) AMR_OK :: int where "AMR_OK \<equiv> 0"
abbreviation (input) AMR_FAIL :: int where "AMR_FAIL \<equiv> -1"
abbreviation (input) AMR_INV_ARG :: int where "AMR_INV_ARG \<equiv> -2"
abbreviation (input) AMR_NOT_AUTHORIZED :: int where "AMR_NOT_AUTHORIZED \<equiv> -3"
abbreviation (input) AMR_UNKNOWN_REQUEST :: int where "AMR_UNKNOWN_REQUEST \<equiv> -4"
abbreviation (input) AMR_ALREADY_STARTED :: int where "AMR_ALREADY_STARTED \<equiv> -6"
abbreviation (input) MAX_APP_NUM :: nat where "MAX_APP_NUM \<equiv> 30"
abbreviation (input) MAX_KEY_DELAY :: u32 where "MAX_KEY_DELAY \<equiv> 1000"
abbreviation (input) fn_am_app_nfy_fct :: fptr where "fn_am_app_nfy_fct \<equiv> 30"
abbreviation (input) fn_am_app_init_fct :: fptr where "fn_am_app_init_fct \<equiv> 32"
abbreviation (input) fn_am_app_exit_fct :: fptr where "fn_am_app_exit_fct \<equiv> 33"
abbreviation (input) fn_am_app_process_msg_fct :: fptr where "fn_am_app_process_msg_fct \<equiv> 34"

definition am_set_dbg_level :: "u16 \<Rightarrow> 'v am_sys_scheme \<Rightarrow> 'v am_sys_scheme" where
  "am_set_dbg_level ui2_dbg_level s = s\<lparr>am_dbg_level := ui2_dbg_level\<rparr>"

definition am_get_dbg_level :: "'v am_sys_scheme \<Rightarrow> u16" where
  "am_get_dbg_level s = am_dbg_level s OR DBG_LAYER_APP"

definition am_set_tms_level :: "u16 \<Rightarrow> 'v am_sys_scheme \<Rightarrow> 'v am_sys_scheme" where
  "am_set_tms_level ui2_tms_level s = s\<lparr>am_tms_level := ui2_tms_level\<rparr>"

definition am_get_tms_level :: "'v am_sys_scheme \<Rightarrow> u16" where
  "am_get_tms_level s = am_tms_level s"

definition am_get_app_id :: "'v am_sys_scheme \<Rightarrow> int" where
  "am_get_app_id s = sint (ui4_app_id s)"

text \<open>The two arrays, of handles and of names.\<close>

definition app_handle :: "nat \<Rightarrow> 'v am_sys_scheme \<Rightarrow> handle result" where
  "app_handle i s = (if i < length (ah_app s) then Inr (ah_app s ! i) else Inl BadAccess)"

definition set_app :: "nat \<Rightarrow> handle \<Rightarrow> 'v am_sys_scheme \<Rightarrow> 'v am_sys_scheme result" where
  "set_app i h s = (if i < length (ah_app s) then Inr (s\<lparr>ah_app := (ah_app s)[i := h]\<rparr>) else Inl BadAccess)"

definition app_name :: "nat \<Rightarrow> 'v am_sys_scheme \<Rightarrow> string result" where
  "app_name i s = (if i < length (as_app_name s) then Inr (as_app_name s ! i) else Inl BadAccess)"

definition am_get_app_name :: "int \<Rightarrow> 'v am_sys_scheme \<Rightarrow> string result" where
  "am_get_app_name i4_id s = (if i4_id < 0 then Inl BadAccess else app_name (nat i4_id) s)"

text \<open>The loops that look for an application; the name is read when it is compared.\<close>

fun find_app :: "(nat \<Rightarrow> bool result) \<Rightarrow> nat list \<Rightarrow> nat option result" where
  "find_app P [] = Inr None"
| "find_app P (i # is) = then_do (P i) (\<lambda>b. if b then Inr (Some i) else find_app P is)"

definition named_app :: "string \<Rightarrow> 'v am_sys_scheme \<Rightarrow> nat option result" where
  "named_app nm s = find_app (\<lambda>i. then_do (app_name i s) (\<lambda>n. Inr (n = nm))) [0..<unat (ui4_app_id s)]"

definition started_app :: "string result \<Rightarrow> 'v am_sys_scheme \<Rightarrow> nat option result" where
  "started_app nm s = find_app (\<lambda>i. then_do (app_handle i s) (\<lambda>h.
     if h = NULL_HANDLE then Inr False else then_do nm (\<lambda>nm. then_do (app_name i s) (\<lambda>n. Inr (n = nm))))) [0..<unat (ui4_app_id s)]"

definition arg_str :: "u8 list option \<Rightarrow> string result" where
  "arg_str pv = (case pv of None \<Rightarrow> Inl BadAccess | Some bs \<Rightarrow> c_str bs)"

definition am_is_time_stamp_valid :: "u32 \<Rightarrow> u32 \<Rightarrow> u32 \<Rightarrow> bool" where
  "am_is_time_stamp_valid ui4_time_stamp tick period =
    (ui4_time_stamp = 0 \<or> tick \<ge> ui4_time_stamp \<and> (tick - ui4_time_stamp) * period \<le> MAX_KEY_DELAY)"

definition am_app_nfy_fct :: "tid \<Rightarrow> handle \<Rightarrow> ptr \<Rightarrow> nat \<Rightarrow> 'v am_sys_scheme \<Rightarrow> (bool \<times> 'v am_sys_scheme) result" where
  "am_app_nfy_fct self h pv_tag e_nfy_reason s =
    (if e_nfy_reason \<in> {APP_NFY_INIT_OK, APP_NFY_EXIT_OK, APP_NFY_PROCESS_MSG_OK} then
       (if pv_tag \<noteq> NULL then then_do (set_flag pv_tag True s) (\<lambda>s. then_do (post_sema self (am_bin_sema s) s) (\<lambda>s. Inr (False, s)))
        else Inr (False, s))
     else if e_nfy_reason \<in> {APP_NFY_INIT_FAILED, APP_NFY_EXIT_FAILED, APP_NFY_PROCESS_MSG_FAILED} then
       (if pv_tag \<noteq> NULL then then_do (set_flag pv_tag False s) (\<lambda>s. then_do (post_sema self (am_bin_sema s) s) (\<lambda>s. Inr (False, s)))
        else Inr (False, s))
     else Inr (False, s))"

section \<open>Starting and ending applications\<close>

definition am_start_desc :: "amb_reg \<Rightarrow> nat \<Rightarrow> app_desc" where
  "am_start_desc g i = \<lparr>ad_flags = - 1, ad_stack_size = ad_stack_size (rg_desc g), ad_priority = ad_priority (rg_desc g),
     ad_num_msgs = ad_num_msgs (rg_desc g), ad_group_id = 0, ad_app_id = of_nat (i + 1), ad_msg_count = ad_msg_count (rg_desc g),
     ad_max_msg_size = (if unat (ad_max_msg_size (rg_desc g)) < BROADCAST_MSG_MAX_LEN then 24 else ad_max_msg_size (rg_desc g))\<rparr>"

text \<open>The application number \<open>i\<close> with the registration \<open>g\<close>.  \<open>u_app_start\<close> stores the handle in the array; the
  manager then waits until the application has called back.\<close>

definition am_start_found :: "'v am_sys_ext am_env \<Rightarrow> nat \<Rightarrow> amb_reg \<Rightarrow> string \<Rightarrow> 'v am_sys_scheme \<Rightarrow> (int \<times> 'v am_sys_scheme) result" where
  "am_start_found e i g nm = with_flag (an_tag e) False (\<lambda>s.
     then_do (u_app_start (an_cbs e) (an_call e i 0) (Some (rg_fcts g)) (Some (am_start_desc g i)) (Some nm) fn_am_app_nfy_fct
                (an_tag e) True s) (\<lambda>(r, h, s).
     then_do (case h of None \<Rightarrow> Inr s | Some h \<Rightarrow> set_app i h s) (\<lambda>s.
     if r = AEER_OK then
       then_do (wait_sema e (am_bin_sema s) s) (\<lambda>s.
       then_do (get_flag (an_tag e) s) (\<lambda>b_ok.
         if b_ok then Inr (AMR_OK, s) else then_do (set_app i NULL_HANDLE s) (\<lambda>s. Inr (AMR_FAIL, s))))
     else then_do (set_app i NULL_HANDLE s) (\<lambda>s. Inr (AMR_FAIL, s)))))"

definition am_start_app :: "'v am_sys_ext am_env \<Rightarrow> u8 list option \<Rightarrow> 'v am_sys_scheme \<Rightarrow> (int \<times> 'v am_sys_scheme) result" where
  "am_start_app e ps_name s =
    (if pt_g_regs s = NULL then Inr (AMR_NOT_AUTHORIZED, s)
     else then_do (arg_str ps_name) (\<lambda>nm.
       then_do (u_amb_get_register_info nm s) (\<lambda>p.
         if p = NULL then Inr (AMR_NOT_AUTHORIZED, s)
         else then_do (named_app nm s) (\<lambda>found.
           case found of
             None \<Rightarrow> Inr (AMR_NOT_AUTHORIZED, s)
           | Some i \<Rightarrow>
             then_do (app_handle i s) (\<lambda>h.
               if h \<noteq> NULL_HANDLE then Inr (AMR_ALREADY_STARTED, s)
               else (case am_regs s p of
                 None \<Rightarrow> Inl BadAccess
               | Some g \<Rightarrow> then_do (c_str (rg_name g)) (\<lambda>nm. am_start_found e i g nm s)))))))"

text \<open>The handle is forgotten as soon as the application has answered, whatever its answer is.\<close>

definition am_exit_app :: "'v am_sys_ext am_env \<Rightarrow> u8 list option \<Rightarrow> 'v am_sys_scheme \<Rightarrow> (int \<times> 'v am_sys_scheme) result" where
  "am_exit_app e ps_name s =
    then_do (started_app (arg_str ps_name) s) (\<lambda>found.
      case found of
        None \<Rightarrow> Inr (AMR_NOT_AUTHORIZED, s)
      | Some i \<Rightarrow>
        with_flag (an_tag e) False (retry (\<lambda>r i4 s.
          let s = an_others e i r s in
          then_do (app_handle i s) (\<lambda>h.
          then_do (u_app_exit (an_call e i r) h APP_EXIT_DEMAND fn_am_app_nfy_fct (an_tag e) s) (\<lambda>(i4, s).
            if i4 = AEER_OK then
              then_do (wait_sema e (am_bin_sema s) s) (\<lambda>s. then_do (set_app i NULL_HANDLE s) (\<lambda>s. Inr (True, i4, s)))
            else Inr (False, i4, s)))) 0 AMR_OK) s)"

section \<open>Messages\<close>

text \<open>To the application number \<open>i\<close>, if it has been started.  An application that has not keeps the loop going
  without a send.\<close>

definition broadcast_to :: "'v am_sys_ext am_env \<Rightarrow> u32 \<Rightarrow> u8 list \<Rightarrow> nat \<Rightarrow> bool \<Rightarrow> nat \<Rightarrow> int \<Rightarrow> 'v am_sys_scheme
    \<Rightarrow> (int \<times> 'v am_sys_scheme) result" where
  "broadcast_to e ty msg len b_sync i = retry (\<lambda>r i4 s.
     let s = an_others e i r s in
     then_do (app_handle i s) (\<lambda>h.
       if h \<noteq> NULL_HANDLE then
         then_do (u_app_send_msg (an_call e i r) h ty (Some msg) len fn_am_app_nfy_fct (if b_sync then an_tag e else NULL) s) (\<lambda>(i4, s).
           if i4 = AEER_OK then
             (if b_sync then then_do (wait_sema e (am_bin_sema s) s) (\<lambda>s. Inr (True, i4, s)) else Inr (True, i4, s))
           else Inr (False, i4, s))
       else Inr (False, i4, s))) 0"

lemma below_u32: "i < unat (v :: u32) \<Longrightarrow> 4294967295 - i < 4294967296 - i"
  using unat_bounds(3) [of v] by simp

function broadcast_loop :: "'v am_sys_ext am_env \<Rightarrow> u32 \<Rightarrow> u8 list \<Rightarrow> nat \<Rightarrow> bool \<Rightarrow> nat \<Rightarrow> int \<Rightarrow> 'v am_sys_scheme
    \<Rightarrow> (int \<times> 'v am_sys_scheme) result" where
  "broadcast_loop e ty msg len b_sync ui4_i i4 s =
    (if ui4_i < unat (ui4_app_id s) then
       then_do (broadcast_to e ty msg len b_sync (unat (ui4_app_id s) - ui4_i - 1) i4 s) (\<lambda>(i4, s).
         broadcast_loop e ty msg len b_sync (ui4_i + 1) i4 s)
     else Inr (i4, s))"
  by pat_completeness auto
termination by (relation "measure (\<lambda>(e, ty, msg, len, b_sync, i, i4, s). 4294967296 - i)") (auto intro: below_u32)

declare broadcast_loop.simps [simp del]

text \<open>The flag is not initialised, and nothing reads it.\<close>

definition am_broadcast_msg :: "'v am_sys_ext am_env \<Rightarrow> u8 list option \<Rightarrow> bool \<Rightarrow> 'v am_sys_scheme \<Rightarrow> (int \<times> 'v am_sys_scheme) result" where
  "am_broadcast_msg e pt_msg b_sync s = with_flag (an_tag e) False (\<lambda>s.
    then_do (if ui4_app_id s = 0 then Inr (AMR_OK, s)
             else case pt_msg of
               None \<Rightarrow> Inl BadAccess
             | Some bs \<Rightarrow>
               if length bs < BROADCAST_SIZE then Inl BadAccess
               else broadcast_loop e (of_nat (get_word bs 0)) (drop 4 bs) (get_word bs 7) b_sync 0 AMR_OK s) (\<lambda>(i4, s).
      Inr (if i4 = AEER_OK then AMR_OK else AMR_FAIL, s))) s"

definition lifecycle_msg :: "string \<Rightarrow> u32 \<Rightarrow> amb_broadcast_msg" where
  "lifecycle_msg nm ty = \<lparr>bm_type = ty, bm_msg = map of_char nm @ replicate (BROADCAST_MSG_MAX_LEN - length nm) 0,
     bm_len = of_nat (if length nm < APP_NAME_MAX_LEN then length nm + 1 else length nm)\<rparr>"

definition am_broadcast_lifecycle_msg :: "'v am_sys_ext am_env \<Rightarrow> nat \<Rightarrow> u32 \<Rightarrow> 'v am_sys_scheme \<Rightarrow> (int \<times> 'v am_sys_scheme) result" where
  "am_broadcast_lifecycle_msg e i ui4_type s =
    then_do (app_name i s) (\<lambda>nm. am_broadcast_msg e (Some (broadcast_bytes (lifecycle_msg nm ui4_type))) False s)"

text \<open>Attempts to send to the manager itself count as attempts for the number \<open>MAX_APP_NUM\<close>.\<close>

definition dispatch_to :: "'v am_sys_ext am_env \<Rightarrow> nat option \<Rightarrow> u32 \<Rightarrow> u8 list \<Rightarrow> nat \<Rightarrow> 'v am_sys_scheme \<Rightarrow> (int \<times> 'v am_sys_scheme) result" where
  "dispatch_to e dest ty msg len =
    (let i = (case dest of None \<Rightarrow> MAX_APP_NUM | Some i \<Rightarrow> i) in
     retry (\<lambda>r i4 s.
       let s = an_others e i r s in
       then_do (case dest of None \<Rightarrow> Inr (h_am s) | Some i \<Rightarrow> app_handle i s) (\<lambda>h.
       then_do (u_app_send_msg (an_call e i r) h ty (Some msg) len fn_am_app_nfy_fct NULL s) (\<lambda>(i4, s).
         Inr (i4 = AEER_OK, i4, s)))) 0 AMR_OK)"

definition am_dispatch_msg :: "'v am_sys_ext am_env \<Rightarrow> u8 list option \<Rightarrow> 'v am_sys_scheme \<Rightarrow> (int \<times> 'v am_sys_scheme) result" where
  "am_dispatch_msg e pt_msg s = (case pt_msg of
     None \<Rightarrow> Inl BadAccess
   | Some bs \<Rightarrow>
     if length bs < DISPATCH_SIZE then Inl BadAccess
     else then_do (str_at (get_word bs 0) s) (\<lambda>nm.
       then_do (if nm = APP_MNGR_NAME then Inr (Some None)
                else then_do (started_app (Inr nm) s) (\<lambda>found. Inr (map_option Some found))) (\<lambda>dest.
       then_do (case dest of
            None \<Rightarrow> Inr (AMR_NOT_AUTHORIZED, s)
          | Some d \<Rightarrow> dispatch_to e d (of_nat (get_word bs 1)) (drop 8 bs) (get_word bs 7) s) (\<lambda>(i4, s).
       Inr (if i4 = AEER_OK then AMR_OK else AMR_FAIL, s)))))"

definition am_app_send_msg :: "'v am_sys_ext am_env \<Rightarrow> u32 \<Rightarrow> u8 list option \<Rightarrow> nat \<Rightarrow> 'v am_sys_scheme \<Rightarrow> (int \<times> 'v am_sys_scheme) result" where
  "am_app_send_msg e ui4_type pv_msg z_msg_len s =
    then_do (retry (\<lambda>r i4 s. let s = an_others e MAX_APP_NUM r s in
      then_do (u_app_send_msg (an_call e MAX_APP_NUM r) (h_am s) ui4_type pv_msg z_msg_len fn_am_app_nfy_fct NULL s) (\<lambda>(i4, s).
        Inr (i4 = AEER_OK, i4, s))) 0 AEER_OK s) (\<lambda>(i4, s). Inr (if i4 = AEER_OK then AMR_OK else AMR_FAIL, s))"

section \<open>The functions of the manager as an application\<close>

text \<open>The manager makes two semaphores, its numbers 2 and 3.\<close>

definition am_app_init_fct :: "'v am_sys_ext am_env \<Rightarrow> string \<Rightarrow> handle \<Rightarrow> 'v am_sys_scheme \<Rightarrow> (int \<times> 'v am_sys_scheme) result" where
  "am_app_init_fct e ps_name h_app s =
    (let log = an_log e \<and> am_get_dbg_level s AND DBG_LEVEL_ERROR \<noteq> 0 in
     ret_on_err log (u_amb_init e)
     (ret_on_err log (\<lambda>k s. case make_sema e 2 k X_SEMA_TYPE_MUTEX X_SEMA_STATE_UNLOCK s of (r, p, s) \<Rightarrow>
         Inr (r, case p of None \<Rightarrow> s | Some p \<Rightarrow> s\<lparr>am_mtx_sema := p\<rparr>))
     (ret_on_err log (\<lambda>k s. case make_sema e 3 k X_SEMA_TYPE_BINARY X_SEMA_STATE_LOCK s of (r, p, s) \<Rightarrow>
         Inr (r, case p of None \<Rightarrow> s | Some p \<Rightarrow> s\<lparr>am_bin_sema := p\<rparr>))
     (\<lambda>s. Inr (AMR_OK, s)))) (s\<lparr>h_am := h_app\<rparr>))"

definition am_app_exit_fct :: "'v am_sys_ext am_env \<Rightarrow> (handle \<Rightarrow> handle option) \<Rightarrow> handle \<Rightarrow> nat \<Rightarrow> 'v am_sys_scheme \<Rightarrow> (int \<times> 'v am_sys_scheme) result" where
  "am_app_exit_fct e at h_app e_exit_mode s =
    then_do (if am_mtx_sema s \<noteq> NULL then then_do (drop_sema e (am_mtx_sema s) s) (\<lambda>(r, s).
               Inr (if r \<noteq> OSR_OK then s else s\<lparr>am_mtx_sema := NULL\<rparr>)) else Inr s) (\<lambda>s.
    then_do (if am_bin_sema s \<noteq> NULL then then_do (drop_sema e (am_bin_sema s) s) (\<lambda>(r, s).
               Inr (if r \<noteq> OSR_OK then s else s\<lparr>am_bin_sema := NULL\<rparr>)) else Inr s) (\<lambda>s.
    then_do (u_amb_destroy e at s) (\<lambda>s. Inr (AEER_OK, s))))"

text \<open>\<open>strncpy\<close> into the next free name; behind the last one it leaves the array.\<close>

definition am_register :: "u8 list option \<Rightarrow> 'v am_sys_scheme \<Rightarrow> (int \<times> 'v am_sys_scheme) result" where
  "am_register pv_msg s = (case pv_msg of
     None \<Rightarrow> Inl BadAccess
   | Some bs \<Rightarrow>
     if 0 \<notin> set bs \<and> length bs \<le> APP_NAME_MAX_LEN \<or> unat (ui4_app_id s) \<ge> length (as_app_name s) then Inl BadAccess
     else Inr (AEER_OK, s\<lparr>as_app_name := (as_app_name s)[unat (ui4_app_id s) := take APP_NAME_MAX_LEN (bytes_name bs)],
       ui4_app_id := ui4_app_id s + 1\<rparr>))"

definition am_app_process_msg_fct :: "'v am_sys_ext am_env \<Rightarrow> handle \<Rightarrow> u32 \<Rightarrow> u8 list option \<Rightarrow> nat \<Rightarrow> bool \<Rightarrow> 'v am_sys_scheme
    \<Rightarrow> (int \<times> 'v am_sys_scheme) result" where
  "am_app_process_msg_fct e h_app ui4_type pv_msg z_msg_len b_paused s =
    then_do (if ui4_type < AMB_REQUEST_TOTAL_NUMBER then
               (if ui4_type = AMB_REQUEST_START then am_start_app e pv_msg s
                else if ui4_type = AMB_REQUEST_EXIT then am_exit_app e pv_msg s
                else if ui4_type = AMB_REQUEST_REG then am_register pv_msg s
                else if ui4_type = AMB_REQUEST_DISPATCH_MSG then am_dispatch_msg e pv_msg s
                else if ui4_type = AMB_REQUEST_BROADCAST_MSG then am_broadcast_msg e pv_msg False s
                else Inr (AMR_UNKNOWN_REQUEST, s))
             else Inr (AMR_INV_ARG, s)) (\<lambda>(i4, s).
    Inr (if i4 = AMR_OK then AEER_OK else AEER_FAIL, s))"

text \<open>The functions of all applications: those of the manager and the broker, and \<open>c\<close> for the others.\<close>

definition am_calls :: "'v am_sys_ext am_env \<Rightarrow> (handle \<Rightarrow> handle option) \<Rightarrow> 'v am_sys_ext app_calls \<Rightarrow> 'v am_sys_ext app_calls" where
  "am_calls e at c = \<lparr>
     call_nfy = (\<lambda>f. if f = fn_am_app_nfy_fct then am_app_nfy_fct (an_self e)
       else if f = fn_amb_aee_nfy_fct then amb_aee_nfy_fct (an_self e) else call_nfy c f),
     call_init = (\<lambda>f. if f = fn_am_app_init_fct then am_app_init_fct e else call_init c f),
     call_exit = (\<lambda>f. if f = fn_am_app_exit_fct then am_app_exit_fct e at else call_exit c f),
     call_process = (\<lambda>f. if f = fn_am_app_process_msg_fct then am_app_process_msg_fct e else call_process c f)\<rparr>"

section \<open>Other threads\<close>

definition u_am_get_app_handle_from_name :: "bool \<Rightarrow> string option \<Rightarrow> 'v am_sys_scheme \<Rightarrow> (int \<times> handle option) result" where
  "u_am_get_app_handle_from_name ph ps_name s = (case ps_name of
     None \<Rightarrow> Inr (AMR_INV_ARG, None)
   | Some nm \<Rightarrow>
     if \<not> ph then Inr (AMR_INV_ARG, None)
     else if unat (ui4_app_id s) \<ge> MAX_APP_NUM then Inr (AMR_FAIL, None)
     else then_do (named_app nm s) (\<lambda>found. case found of
       None \<Rightarrow> Inr (AMR_NOT_AUTHORIZED, None)
     | Some i \<Rightarrow> then_do (app_handle i s) (\<lambda>h. Inr (AMR_OK, Some h))))"

definition u_am_unint :: "'v am_sys_ext am_env \<Rightarrow> 'v am_sys_scheme \<Rightarrow> 'v am_sys_scheme result" where
  "u_am_unint e s = then_do (u_app_exit (an_call e MAX_APP_NUM 0) (h_am s) APP_EXIT_FORCE NULL (an_tag e) s) (\<lambda>(r, s). Inr s)"

definition am_desc :: app_desc where
  "am_desc = \<lparr>ad_flags = - 1, ad_stack_size = 8192, ad_priority = 175, ad_num_msgs = 16, ad_group_id = 0, ad_app_id = 0,
     ad_msg_count = 32, ad_max_msg_size = 32\<rparr>"

definition am_fcts :: app_fct_tbl where
  "am_fcts = \<lparr>pf_init = fn_am_app_init_fct, pf_exit = fn_am_app_exit_fct, pf_process_msg = fn_am_app_process_msg_fct\<rparr>"

definition u_am_init :: "ptr \<Rightarrow> 'v am_sys_scheme \<Rightarrow> 'v am_sys_scheme result" where
  "u_am_init pt_reg s = (case am_regs s pt_reg of
     None \<Rightarrow> Inl BadAccess
   | Some g \<Rightarrow> Inr (s\<lparr>h_am := NULL_HANDLE, am_mtx_sema := NULL, am_bin_sema := NULL, am_dbg_level := 0, am_tms_level := 0,
       ah_app := replicate MAX_APP_NUM NULL_HANDLE, ui4_app_id := 0, as_app_name := replicate MAX_APP_NUM [],
       am_regs := (am_regs s)(pt_reg \<mapsto> g\<lparr>rg_name := name_bytes APP_MNGR_NAME, rg_fcts := am_fcts, rg_desc := am_desc\<rparr>)\<rparr>))"

end
