(* ===== verification/AmInv.thy ===== *)
theory AmInv
  imports AppExit Am
begin

text \<open>What the operations of the application manager leave alone, its arrays, the list of registrations, retries, and
  sending to one of several applications.\<close>

section \<open>The two halves of the state\<close>

lemma more_am:
  assumes "aee_sys.more s' = aee_sys.more s"
  shows "h_am s' = h_am s" "am_mtx_sema s' = am_mtx_sema s" "am_bin_sema s' = am_bin_sema s" "ah_app s' = ah_app s"
    "ui4_app_id s' = ui4_app_id s" "as_app_name s' = as_app_name s" "pt_g_regs s' = pt_g_regs s" "h_g_am s' = h_g_am s"
    "h_g_mtx_sema s' = h_g_mtx_sema s" "h_g_bin_sema s' = h_g_bin_sema s" "am_regs s' = am_regs s" "am_semas s' = am_semas s"
    "am_flags s' = am_flags s" "am_strs s' = am_strs s"
  using assms by (cases s, cases s', simp)+

text \<open>Changes of the manager's part keep the other part.\<close>

lemma truncate_am [simp]:
  "aee_sys.truncate (s\<lparr>am_flags := a\<rparr>) = aee_sys.truncate s" "aee_sys.truncate (s\<lparr>am_semas := b\<rparr>) = aee_sys.truncate s"
  "aee_sys.truncate (s\<lparr>ah_app := c\<rparr>) = aee_sys.truncate s" "aee_sys.truncate (s\<lparr>am_regs := d\<rparr>) = aee_sys.truncate s"
  "aee_sys.truncate (s\<lparr>pt_g_regs := f\<rparr>) = aee_sys.truncate s"
  "aee_sys.truncate (s\<lparr>as_app_name := g, ui4_app_id := i\<rparr>) = aee_sys.truncate s"
  by (simp_all add: aee_sys.truncate_def)

lemma truncate_aee:
  assumes "aee_sys.truncate s' = aee_sys.truncate s"
  shows "hlib.truncate s' = hlib.truncate s" "aee_objs s' = aee_objs s" "pt_aees s' = pt_aees s" "aee_thr s' = aee_thr s"
    "aee_qs s' = aee_qs s" "aee_bufs s' = aee_bufs s"
proof -
  note e = assms [unfolded aee_sys.truncate_def, simplified aee_sys.ext_inject hlib.ext_inject]
  then show "aee_objs s' = aee_objs s" "pt_aees s' = pt_aees s" "aee_thr s' = aee_thr s"
    "aee_qs s' = aee_qs s" "aee_bufs s' = aee_bufs s" by simp_all
  show "hlib.truncate s' = hlib.truncate s" unfolding hlib.truncate_def using e by simp
qed

lemma truncate_app:
  assumes "aee_sys.truncate s' = aee_sys.truncate s"
  shows "app_queue h q n z s' ms = app_queue h q n z s ms" "app_main a q z s' = app_main a q z s" "aee_list s' ps = aee_list s ps"
    "may_start e f d nm s' = may_start e f d nm s" "ui2_num_free s' = ui2_num_free s"
proof -
  note t = truncate_aee [OF assms]
  show "app_queue h q n z s' ms = app_queue h q n z s ms"
    by (simp add: app_queue_def aee_at_truncate [OF t(1)] hlib_truncate_sel(1) [OF t(1)] t(2-))
  show "app_main a q z s' = app_main a q z s" by (simp add: app_main_def t)
  have "aee_link s' = aee_link s" by (simp add: aee_link_def t fun_eq_iff)
  then show "aee_list s' ps = aee_list s ps" by (simp add: aee_list_def t)
  show "may_start e f d nm s' = may_start e f d nm s" by (simp add: may_start_def may_create_def get_pvt_def t)
  show "ui2_num_free s' = ui2_num_free s" by (rule truncate_num_free [OF t(1)])
qed

section \<open>Flags and semaphores\<close>

text \<open>A binary semaphore at \<open>p\<close> with the value \<open>v\<close>.\<close>

definition bin_sema :: "ptr \<Rightarrow> u32 \<Rightarrow> 'v am_sys_scheme \<Rightarrow> bool" where
  "bin_sema p v s \<longleftrightarrow> (\<exists>m. am_semas s p = Some m \<and> se_type m = X_SEMA_TYPE_BINARY \<and> se_value m = v)"

lemma wait_bin:
  assumes "bin_sema p 0 s" "bin_sema p 1 (an_wait e p s)"
  obtains m where "wait_sema e p s = Inr ((an_wait e p s)\<lparr>am_semas := (am_semas (an_wait e p s))(p \<mapsto> m)\<rparr>)"
    "se_type m = X_SEMA_TYPE_BINARY" "se_value m = 0"
proof -
  obtain m where m: "am_semas s p = Some m" "se_type m = X_SEMA_TYPE_BINARY" "se_value m = 0" using assms(1) by (auto simp: bin_sema_def)
  obtain m1 where m1: "am_semas (an_wait e p s) p = Some m1" "se_type m1 = X_SEMA_TYPE_BINARY" "se_value m1 = 1"
    using assms(2) by (auto simp: bin_sema_def)
  have t: "try_sema self p s = Inr Waiting" for self
    using m by (simp add: try_sema_def u_sema_lock_def lock_value_def sema_take_def)
  let ?m = "sema_own (an_self e) (m1\<lparr>se_value := 0\<rparr>)"
  have "try_sema (an_self e) p (an_wait e p s) = Inr (Returned ((an_wait e p s)\<lparr>am_semas := (am_semas (an_wait e p s))(p \<mapsto> ?m)\<rparr>))"
    using m1 by (simp add: try_sema_def u_sema_lock_def lock_value_def sema_take_def)
  then show thesis using that [of ?m] t m1 by (simp add: wait_sema_def sema_own_def)
qed

lemma post_bin:
  assumes "bin_sema p 0 s"
  obtains m where "post_sema self p s = Inr (s\<lparr>am_semas := (am_semas s)(p \<mapsto> m)\<rparr>)" "se_type m = X_SEMA_TYPE_BINARY" "se_value m = 1"
proof -
  obtain m where m: "am_semas s p = Some m" "se_type m = X_SEMA_TYPE_BINARY" "se_value m = 0" using assms by (auto simp: bin_sema_def)
  show thesis
    by (rule that [of "snd (u_sema_unlock 0 self m)"]) (use m in \<open>simp_all add: post_sema_def u_sema_unlock_def sema_give_def\<close>)
qed

text \<open>A notification of a result sets the flag of the waiting thread and lets it go.\<close>

lemma am_nfy_result:
  assumes "bin_sema (am_bin_sema s) 0 s" "am_flags s tag = Some b" "tag \<noteq> NULL" "reason \<in> {1, 2, 4, 5, 7, 8}"
  obtains m where "am_app_nfy_fct self h tag reason s = Inr (False, s\<lparr>am_flags := (am_flags s)(tag \<mapsto> reason \<in> {1, 4, 7}),
      am_semas := (am_semas s)(am_bin_sema s \<mapsto> m)\<rparr>)" "se_type m = X_SEMA_TYPE_BINARY" "se_value m = 1"
proof -
  let ?s = "s\<lparr>am_flags := (am_flags s)(tag \<mapsto> reason \<in> {1, 4, 7})\<rparr>"
  have "bin_sema (am_bin_sema s) 0 ?s" using assms(1) by (simp add: bin_sema_def)
  from post_bin [OF this, of self] obtain m where
    m: "post_sema self (am_bin_sema s) ?s = Inr (?s\<lparr>am_semas := (am_semas s)(am_bin_sema s \<mapsto> m)\<rparr>)" "se_type m = X_SEMA_TYPE_BINARY" "se_value m = 1"
    by auto
  show thesis
    by (rule that [OF _ m(2,3)]) (use assms(2-) m(1) in \<open>auto simp: am_app_nfy_fct_def set_flag_def\<close>)
qed

lemma amb_nfy_result:
  assumes "bin_sema (h_g_bin_sema s) 0 s" "am_flags s tag = Some b" "tag \<noteq> NULL" "reason \<in> {1, 2, 4, 5, 7, 8}"
  obtains m where "amb_aee_nfy_fct self h tag reason s = Inr (False, s\<lparr>am_flags := (am_flags s)(tag \<mapsto> reason \<in> {1, 4, 7}),
      am_semas := (am_semas s)(h_g_bin_sema s \<mapsto> m)\<rparr>)" "se_type m = X_SEMA_TYPE_BINARY" "se_value m = 1"
proof -
  let ?s = "s\<lparr>am_flags := (am_flags s)(tag \<mapsto> reason \<in> {1, 4, 7})\<rparr>"
  have "bin_sema (h_g_bin_sema s) 0 ?s" using assms(1) by (simp add: bin_sema_def)
  from post_bin [OF this, of self] obtain m where
    m: "post_sema self (h_g_bin_sema s) ?s = Inr (?s\<lparr>am_semas := (am_semas s)(h_g_bin_sema s \<mapsto> m)\<rparr>)" "se_type m = X_SEMA_TYPE_BINARY" "se_value m = 1"
    by auto
  show thesis
    by (rule that [OF _ m(2,3)]) (use assms(2-) m(1) in \<open>auto simp: amb_aee_nfy_fct_def set_flag_def\<close>)
qed

section \<open>Retries\<close>

lemma retry_stops: "f r i4 s = Inr (True, i4', s') \<Longrightarrow> r \<le> MSGQ_RETRY_TIMES \<Longrightarrow> retry f r i4 s = Inr (i4', s')"
  by (subst retry.simps) simp

text \<open>Attempts that all fail.\<close>

lemma retry_inv:
  assumes "\<And>r i4 s. I i4 s \<Longrightarrow> \<exists>i4' s'. f r i4 s = Inr (False, i4', s') \<and> I i4' s'" "I i4 s"
  shows "\<exists>i4' s'. retry f r i4 s = Inr (i4', s') \<and> I i4' s'"
  using assms(2)
proof (induction "11 - r" arbitrary: r i4 s)
  case 0
  then show ?case by (subst retry.simps) auto
next
  case (Suc k)
  obtain i4' s' where f: "f r i4 s = Inr (False, i4', s')" "I i4' s'" using assms(1) [OF Suc.prems] by blast
  have "k = 11 - (r + 1)" using Suc.hyps(2) by simp
  then show ?case using Suc.hyps(1) [OF _ f(2), of "r + 1"] Suc.hyps(2) f(1) by (subst retry.simps) auto
qed

lemma retry_fails:
  assumes "\<And>r i4 s. I s \<Longrightarrow> \<exists>s'. f r i4 s = Inr (False, c, s') \<and> I s'" "I s" "r \<le> MSGQ_RETRY_TIMES"
  shows "\<exists>s'. retry f r i4 s = Inr (c, s') \<and> I s'"
proof -
  obtain s1 where s1: "f r i4 s = Inr (False, c, s1)" "I s1" using assms(1,2) by blast
  have "\<exists>i4' s'. retry f (r + 1) c s1 = Inr (i4', s') \<and> i4' = c \<and> I s'"
    by (rule retry_inv [of "\<lambda>i4 s. i4 = c \<and> I s"]) (use assms(1) s1 in auto)
  then show ?thesis using s1 assms(3) by (subst retry.simps) auto
qed

section \<open>Strings\<close>

lemma c_str_name: "\<forall>c\<in>set nm. c \<noteq> CHR 0x00 \<Longrightarrow> c_str (name_bytes nm @ r) = Inr (take AEE_NAME_MAX_LENGTH nm)"
proof -
  assume "\<forall>c\<in>set nm. c \<noteq> CHR 0x00"
  moreover have "0 \<in> set (name_bytes nm @ r)" by (simp add: name_bytes_def Let_def)
  ultimately show ?thesis by (simp add: c_str_def name_roundtrip)
qed

lemma bytes_name_append: "0 \<in> set bs \<Longrightarrow> bytes_name (bs @ r) = bytes_name bs"
  by (simp add: bytes_name_def takeWhile_append1)

lemma c_str_append: "c_str bs = Inr nm \<Longrightarrow> c_str (bs @ r) = Inr nm"
  by (auto simp: c_str_def bytes_name_append split: if_splits)

text \<open>The length that \<open>strlen\<close> finds, and the characters up to it.\<close>

lemma c_str_take: "c_str bs = Inr nm \<Longrightarrow> c_str (take (length nm + 1) bs @ r) = Inr nm"
proof -
  assume "c_str bs = Inr nm"
  then have z: "0 \<in> set bs" "nm = bytes_name bs" by (auto simp: c_str_def split: if_splits)
  obtain xs ys where s: "bs = xs @ 0 # ys" "0 \<notin> set xs" using z(1) split_list_first by metis
  have "takeWhile (\<lambda>b. b \<noteq> 0) bs = xs" using s by (auto simp: takeWhile_append)
  then have "length nm = length xs" using z(2) by (simp add: bytes_name_def)
  then have "take (length nm + 1) bs = xs @ [0]" using s(1) by simp
  then show ?thesis using \<open>takeWhile _ bs = xs\<close> s(2) z(2) by (auto simp: c_str_def bytes_name_def takeWhile_append)
qed

lemma c_str_length: "c_str bs = Inr nm \<Longrightarrow> length nm < length bs"
proof -
  assume "c_str bs = Inr nm"
  then have z: "0 \<in> set bs" "nm = bytes_name bs" by (auto simp: c_str_def split: if_splits)
  obtain xs ys where s: "bs = xs @ 0 # ys" "0 \<notin> set xs" using z(1) split_list_first by metis
  have "takeWhile (\<lambda>b. b \<noteq> 0) bs = xs" using s by (auto simp: takeWhile_append)
  then show ?thesis using z(2) s(1) by (simp add: bytes_name_def)
qed

section \<open>The arrays\<close>

definition am_wf :: "'v am_sys_scheme \<Rightarrow> bool" where
  "am_wf s \<longleftrightarrow> length (ah_app s) = MAX_APP_NUM \<and> length (as_app_name s) = MAX_APP_NUM \<and> unat (ui4_app_id s) \<le> MAX_APP_NUM \<and>
     (\<forall>nm\<in>set (as_app_name s). length nm \<le> APP_NAME_MAX_LEN)"

lemma find_app_eq: "(\<And>i. i \<in> set is \<Longrightarrow> P i = Inr (Q i)) \<Longrightarrow> find_app P is = Inr (find Q is)"
  by (induction "is") auto

lemma named_app_eq: "am_wf s \<Longrightarrow> named_app nm s = Inr (find (\<lambda>i. as_app_name s ! i = nm) [0..<unat (ui4_app_id s)])"
  unfolding named_app_def by (rule find_app_eq) (auto simp: am_wf_def app_name_def)

lemma started_app_eq: "am_wf s \<Longrightarrow> started_app (Inr nm) s =
    Inr (find (\<lambda>i. ah_app s ! i \<noteq> NULL_HANDLE \<and> as_app_name s ! i = nm) [0..<unat (ui4_app_id s)])"
  unfolding started_app_def by (rule find_app_eq) (auto simp: am_wf_def app_name_def app_handle_def)

lemma find_upt:
  assumes "find P [0..<n] = Some i"
  shows "i < n" "P i" "\<forall>j<i. \<not> P j"
  using assms by (auto simp: find_Some_iff)

section \<open>The registrations\<close>

definition reg_next :: "'v am_sys_scheme \<Rightarrow> ptr \<Rightarrow> ptr" where
  "reg_next s p = (case am_regs s p of None \<Rightarrow> NULL | Some g \<Rightarrow> rg_next g)"

definition reg_name :: "'v am_sys_scheme \<Rightarrow> ptr \<Rightarrow> string" where
  "reg_name s p = (case am_regs s p of None \<Rightarrow> [] | Some g \<Rightarrow> (case c_str (rg_name g) of Inl _ \<Rightarrow> [] | Inr nm \<Rightarrow> nm))"

definition regs_ok :: "'v am_sys_scheme \<Rightarrow> ptr list \<Rightarrow> bool" where
  "regs_ok s ps \<longleftrightarrow> path (reg_next s) (pt_g_regs s) ps NULL \<and> distinct ps \<and> NULL \<notin> set ps \<and>
     (\<forall>p\<in>set ps. \<exists>g nm. am_regs s p = Some g \<and> c_str (rg_name g) = Inr nm)"

lemma regs_ok_cong: "am_regs s' = am_regs s \<Longrightarrow> pt_g_regs s' = pt_g_regs s \<Longrightarrow> regs_ok s' ps = regs_ok s ps"
proof -
  assume a: "am_regs s' = am_regs s" "pt_g_regs s' = pt_g_regs s"
  then have "reg_next s' = reg_next s" by (simp add: reg_next_def fun_eq_iff)
  with a show ?thesis by (simp add: regs_ok_def)
qed

lemma reg_loop_path:
  assumes "path (reg_next s) p ps NULL" "NULL \<notin> set ps" "\<forall>p\<in>set ps. \<exists>g nm. am_regs s p = Some g \<and> c_str (rg_name g) = Inr nm"
  shows "reg_loop nm p s = Some (Inr (case find (\<lambda>p. reg_name s p = nm) ps of None \<Rightarrow> NULL | Some x \<Rightarrow> x))"
  using assms
proof (induction ps arbitrary: p)
  case Nil
  then show ?case by (simp add: reg_loop.simps)
next
  case (Cons x ps)
  obtain g n where g: "am_regs s x = Some g" "c_str (rg_name g) = Inr n" using Cons.prems(3) by auto
  then have "reg_next s x = rg_next g" "reg_name s x = n" by (simp_all add: reg_next_def reg_name_def)
  then show ?case using Cons g by (subst reg_loop.simps) auto
qed

lemma regs_find:
  assumes "regs_ok s ps"
  shows "amb_authorized_app nm s = Inr (case find (\<lambda>p. reg_name s p = nm) ps of None \<Rightarrow> NULL | Some x \<Rightarrow> x)"
    "u_amb_get_register_info nm s = Inr (case find (\<lambda>p. reg_name s p = nm) ps of None \<Rightarrow> NULL | Some x \<Rightarrow> x)"
  using reg_loop_path [of s "pt_g_regs s" ps nm] assms
  by (simp_all add: amb_authorized_app_def u_amb_get_register_info_def regs_ok_def)

lemma regs_found:
  assumes "regs_ok s ps" "find (\<lambda>p. reg_name s p = nm) ps = Some p"
  obtains g where "p \<noteq> NULL" "am_regs s p = Some g" "c_str (rg_name g) = Inr nm" "pt_g_regs s \<noteq> NULL"
proof -
  have p: "p \<in> set ps" "reg_name s p = nm" using assms(2) by (auto simp: find_Some_iff)
  then obtain g n where g: "am_regs s p = Some g" "c_str (rg_name g) = Inr n" using assms(1) by (auto simp: regs_ok_def)
  have "pt_g_regs s \<in> set ps" using assms(1) p(1) by (cases ps) (auto simp: regs_ok_def)
  moreover have "NULL \<notin> set ps" using assms(1) by (simp add: regs_ok_def)
  ultimately have "pt_g_regs s \<noteq> NULL" "p \<noteq> NULL" using p(1) by metis+
  then show thesis using that [of g] g p(2) by (simp add: reg_name_def)
qed

lemma link_reg_ok:
  assumes "regs_ok s ps" "am_regs s p = Some g" "c_str (rg_name g) = Inr nm" "p \<noteq> NULL" "p \<notin> set ps"
  obtains rs where "link_reg p s = Inr (s\<lparr>am_regs := rs, pt_g_regs := p\<rparr>)" "regs_ok (s\<lparr>am_regs := rs, pt_g_regs := p\<rparr>) (p # ps)"
    "\<And>q. map_option (\<lambda>g. (rg_name g, rg_fcts g, rg_desc g)) (rs q) = map_option (\<lambda>g. (rg_name g, rg_fcts g, rg_desc g)) (am_regs s q)"
proof -
  let ?r1 = "(am_regs s)(p \<mapsto> g\<lparr>rg_next := pt_g_regs s, rg_prev := NULL\<rparr>)"
  have all: "\<forall>q\<in>set ps. \<exists>g nm. am_regs s q = Some g \<and> c_str (rg_name g) = Inr nm" using assms(1) by (simp add: regs_ok_def)
  show thesis
  proof (cases "pt_g_regs s = NULL")
    case True
    then have "ps = []" using assms(1) by (cases ps) (auto simp: regs_ok_def)
    then show thesis using True assms(2-4)
      by (intro that [of ?r1]) (auto simp: link_reg_def regs_ok_def reg_next_def Let_def)
  next
    case False
    then have h: "pt_g_regs s \<in> set ps" using assms(1) by (cases ps) (auto simp: regs_ok_def)
    then obtain g' nm' where g': "am_regs s (pt_g_regs s) = Some g'" "c_str (rg_name g') = Inr nm'" using all by auto
    have ne: "pt_g_regs s \<noteq> p" using h assms(5) by auto
    let ?r = "?r1(pt_g_regs s \<mapsto> g'\<lparr>rg_prev := p\<rparr>)"
    let ?s = "s\<lparr>am_regs := ?r, pt_g_regs := p\<rparr>"
    have nx: "reg_next ?s x = reg_next s x" if "x \<in> set ps" for x using that assms(5) g'(1) by (auto simp: reg_next_def)
    have "path (reg_next ?s) (pt_g_regs s) ps NULL = path (reg_next s) (pt_g_regs s) ps NULL" by (rule path_cong) (use nx in auto)
    moreover have "reg_next ?s p = pt_g_regs s" using ne by (simp add: reg_next_def)
    ultimately have "path (reg_next ?s) p (p # ps) NULL" using assms(1) by (simp add: regs_ok_def)
    moreover have "\<forall>q\<in>set (p # ps). \<exists>g nm. ?r q = Some g \<and> c_str (rg_name g) = Inr nm"
      using all assms(3) g'(2) ne by auto
    ultimately have "regs_ok ?s (p # ps)" using assms by (simp add: regs_ok_def)
    moreover have "link_reg p s = Inr ?s" using False ne g'(1) assms(2) by (simp add: link_reg_def Let_def)
    ultimately show thesis using that [of ?r] assms(2) g'(1) by (auto simp del: fun_upd_apply simp: fun_upd_def)
  qed
qed

section \<open>Sending to one of several applications\<close>

lemma x_msg_q_send_frame: "x_msg_q_send k ret h pv z s = Inr (r, s') \<Longrightarrow> p \<noteq> h \<Longrightarrow> q_objs s' p = q_objs s p"
  by (auto simp: x_msg_q_send_def split: option.splits if_splits)

lemma msg_q_send_2_parts_take: "len \<le> length m \<Longrightarrow>
    msg_q_send_2_parts e q p1 z1 (Some (take len m)) len s = msg_q_send_2_parts e q p1 z1 (Some m) len s"
  by (cases "u_thread_self (ev_thread e) (ev_self_pri e) (ev_self e) True (aee_thr s)" rule: prod_cases3)
    (simp add: msg_q_send_2_parts_def Let_def min_absorb2)

lemma u_app_send_msg_take: "len \<le> length m \<Longrightarrow>
    u_app_send_msg e h ty (Some m) len f tag s = u_app_send_msg e h ty (Some (take len m)) (length (take len m)) f tag s"
  by (cases "len = 0"; cases "aee_get_msg_queue h s") (auto simp: u_app_send_msg_def Let_def min_absorb2 msg_q_send_2_parts_take)

text \<open>What a send leaves alone: everything but the queue, and a registration of the calling thread.\<close>

definition only_queue :: "ptr \<Rightarrow> 'w aee_sys_scheme \<Rightarrow> 'w aee_sys_scheme \<Rightarrow> bool" where
  "only_queue q s s' \<longleftrightarrow> (\<exists>th qs. s' = s\<lparr>aee_thr := th, aee_qs := qs\<rparr> \<and> (\<forall>p. p \<noteq> q \<longrightarrow> q_objs qs p = q_objs (aee_qs s) p))"

lemma only_queue_refl [simp]: "only_queue q s s"
  unfolding only_queue_def by (rule exI [of _ "aee_thr s"], rule exI [of _ "aee_qs s"]) simp

lemma only_queue_trans: "only_queue q s s1 \<Longrightarrow> only_queue q s1 s2 \<Longrightarrow> only_queue q s s2"
proof -
  assume "only_queue q s s1" "only_queue q s1 s2"
  then obtain th qs th' qs' where "s1 = s\<lparr>aee_thr := th, aee_qs := qs\<rparr>" "\<forall>p. p \<noteq> q \<longrightarrow> q_objs qs p = q_objs (aee_qs s) p"
    "s2 = s1\<lparr>aee_thr := th', aee_qs := qs'\<rparr>" "\<forall>p. p \<noteq> q \<longrightarrow> q_objs qs' p = q_objs (aee_qs s1) p"
    unfolding only_queue_def by blast
  then have "s2 = s\<lparr>aee_thr := th', aee_qs := qs'\<rparr> \<and> (\<forall>p. p \<noteq> q \<longrightarrow> q_objs qs' p = q_objs (aee_qs s) p)" by simp
  then show "only_queue q s s2" unfolding only_queue_def by blast
qed

lemma only_queue_same:
  assumes "only_queue q s s'"
  shows "aee_sys.more s' = aee_sys.more s" "hlib.truncate s' = hlib.truncate s" "aee_bufs s' = aee_bufs s" "aee_objs s' = aee_objs s"
    "q' \<noteq> q \<Longrightarrow> app_queue h' q' n' z' s' ms' = app_queue h' q' n' z' s ms'"
proof -
  obtain th qs where s': "s' = s\<lparr>aee_thr := th, aee_qs := qs\<rparr>" and f: "\<forall>p. p \<noteq> q \<longrightarrow> q_objs qs p = q_objs (aee_qs s) p"
    using assms by (auto simp: only_queue_def)
  show "aee_sys.more s' = aee_sys.more s" "aee_bufs s' = aee_bufs s" "aee_objs s' = aee_objs s" by (simp_all add: s')
  show t: "hlib.truncate s' = hlib.truncate s" by (simp add: s')
  show "q' \<noteq> q \<Longrightarrow> app_queue h' q' n' z' s' ms' = app_queue h' q' n' z' s ms'"
    using aee_at_truncate [OF t] hlib_truncate_sel(1) [OF t] f by (simp add: app_queue_def hq_rel_def s')
qed

lemma app_send_only:
  assumes "app_queue h q n z s ms" "can_send e len" "len \<le> length m" "HEADER_SIZE + len \<le> z"
  obtains s' where "u_app_send_msg e h ty (Some m) len f tag s = Inr (if length ms < n then AEER_OK else AEER_FAIL, s')"
    "only_queue q s s'" "app_queue h q n z s' (if length ms < n then ms @ [app_msg f tag ty (take len m)] else ms)"
proof -
  let ?m = "take len m"
  have l: "length ?m = len" using assms(3) by simp
  have c: "can_send e (length ?m)" using assms(2) l by simp
  obtain th where u: "u_app_send_msg e h ty (Some ?m) (length ?m) f tag s =
    then_do (x_msg_q_send 4 0 q (Some (app_msg f tag ty ?m)) (length (app_msg f tag ty ?m)) (aee_qs s)) (\<lambda>(r, qs).
      Inr (app_result r, s\<lparr>aee_thr := th, aee_qs := qs\<rparr>))"
    by (rule u_app_send_msg_steps [OF assms(1) c])
  have "\<exists>s' r. u_app_send_msg e h ty (Some ?m) (length ?m) f tag s = Inr (r, s') \<and>
    r = (if length ms < n then AEER_OK else AEER_FAIL) \<and> app_queue h q n z s' (if length ms < n then ms @ [app_msg f tag ty ?m] else ms)"
  proof -
    have "hq_rel q n z (aee_qs s) ms" using assms(1) by (simp add: app_queue_def)
    then have "length ms \<le> n" by (rule hq.bound)
    moreover have "HEADER_SIZE + length ?m \<le> z" using l assms(4) by simp
    ultimately show ?thesis using app_queue_send [OF assms(1) c, of ty f tag] by (cases "length ms < n") auto
  qed
  then obtain s' where s': "u_app_send_msg e h ty (Some ?m) (length ?m) f tag s = Inr (if length ms < n then AEER_OK else AEER_FAIL, s')"
    "app_queue h q n z s' (if length ms < n then ms @ [app_msg f tag ty ?m] else ms)" by auto
  have "only_queue q s s'"
  proof (cases "x_msg_q_send 4 0 q (Some (app_msg f tag ty ?m)) (length (app_msg f tag ty ?m)) (aee_qs s)")
    case (Inr x)
    obtain r qs where x: "x = (r, qs)" by (cases x)
    show ?thesis using s'(1) u Inr x x_msg_q_send_frame [OF Inr [unfolded x]] by (auto simp: only_queue_def)
  qed (use s'(1) u in simp)
  then show thesis using that [of s'] s' unfolding u_app_send_msg_take [OF assms(3), symmetric] by blast
qed

end
