(* ===== verification/AppRun.thy ===== *)
theory AppRun
  imports AppExit
begin

text \<open>The properties of the execution environment and of the applications in it, each with a run of the model.\<close>

section \<open>Demonstrations\<close>

definition no_block :: h_ctrl where
  "no_block = \<lparr>u_ptr = NULL, pv_obj = NULL, pf_free = NULL, t_h_link = \<lparr>ui2_next = 0, ui2_prev = 0\<rparr>,
     t_aux_link = \<lparr>ui2_next = 0, ui2_prev = 0\<rparr>, ui2_aux_link_head = 0, ui2_aux_link_count = 0, e_type = 0, ui1_count = 0, ui1_flags = 0\<rparr>"

text \<open>An application at address 1000 with the handle 1 and the queue at address 1300.\<close>

definition demo_aee :: aee where
  "demo_aee = \<lparr>ae_next = NULL, ae_app = 1, ae_parent_app = NULL_HANDLE, ae_aux = NULL_HANDLE, ae_msg_queue = 1300, ae_thread = 1400,
     ae_flags = 0, ae_group_id = 0, ae_app_id = 1, ae_receive_data = fn_appman_receive_data, ae_name = ''ws''\<rparr>"

definition one_app :: "recorded aee_sys_scheme" where
  "one_app = \<lparr>b_init = True, pv_handle_memory_pool = NULL, pt_h_ctrl_arr = NULL,
     arr = (\<lambda>_. no_block)(1 := no_block\<lparr>pv_obj := 1000, pf_free := fn_aee_free_handle, e_type := AEET_PRIMARY_AEE, ui1_flags := 1\<rparr>),
     ui2_free_handles = 0, ui2_num_total = 1, ui2_num_free = 0, ui2_num_peak_used = 1, ui2_num_used_per_grp = (\<lambda>_. 0),
     apf_handle_clean_up_functions = (\<lambda>_. NULL), links = (\<lambda>_. \<lparr>ui2_head = 0, ui2_tail = 0, ui2_h_count = 0, hl_flags = 0\<rparr>),
     heap = {}, crit = 0, aee_objs = [1000 \<mapsto> demo_aee], pt_aees = 1000, b_aee_init = False, aee_thr = os_thread_init,
     aee_qs = \<lparr>q_objs = [1300 \<mapsto> new_msgq 4 ''ws'' 64 4], q_list = ring_add 1300 ring0\<rparr>, aee_bufs = [1200 \<mapsto> replicate 64 0],
     \<dots> = []\<rparr>"

definition demo_env :: app_env where
  "demo_env = \<lparr>ev_realloc = demo_realloc, ev_aee = 1000, ev_arg = 1100, ev_buf = 1200, ev_queue = 1300, ev_thread = 1400,
     ev_pvt = 1500, ev_started = Some (7, 50), ev_stack_min = 16384, ev_stack_max = None, ev_self = 7, ev_self_pri = 50,
     ev_lock = 0, ev_destroy = True, ev_junk = (\<lambda>_. 0), ev_race = (\<lambda>_ b. b)\<rparr>"

definition demo_arg :: app_main_arg where
  "demo_arg = \<lparr>ma_init = 2001, ma_exit = 2002, ma_process = 2003, ma_queue = 1300, ma_buffer = 1200, ma_size = 64, ma_name = ''ws''\<rparr>"

lemma one_app_at: "aee_at one_app 1 = Some 1000"
  by (simp add: aee_at_def habs_def get_h_ctrl_from_handle_def one_app_def ctrl_def no_block_def ftst_def htype_def del: field_folds)

lemma one_app_queue: "app_queue 1 1300 4 64 one_app []"
proof -
  have "q_rel (unat (4 :: u16)) 64 (new_msgq 4 ''ws'' 64 4) []" by (rule new_msgq_rel) (simp_all add: MSGQ_MAX_DATA_SIZE_def)
  then have "hq_rel 1300 4 64 (aee_qs one_app) []" by (simp add: hq_rel_def one_app_def)
  then show ?thesis unfolding app_queue_def one_app_at by (simp add: one_app_def demo_aee_def)
qed

lemma one_app_main: "app_main demo_arg 1300 64 one_app"
  by (simp add: app_main_def demo_arg_def one_app_def)

lemma one_app_rel: "app_rel demo_env 1 demo_arg 4 64 one_app []"
  using one_app_queue one_app_main by (simp add: app_rel_def demo_env_def two_parts_buffer_def demo_arg_def)

section \<open>Messages\<close>

text \<open>What an application that records its messages has processed after a run.\<close>

lemma run_records:
  assumes "app_rel e h a n z s ms" "\<forall>m. Send m \<in> set ops \<longrightarrow> HEADER_SIZE + length (snd m) \<le> z"
    and "run_queue (app_send e h) (app_receive e h a) ops s = (t, acc, del)"
  shows "aee_sys.more t = aee_sys.more s @ del"
  using assms
proof (induction ops arbitrary: s ms t acc del)
  case Nil
  then show ?case by simp
next
  case (Cons x ops)
  show ?case
  proof (cases x)
    case (Send m)
    have z: "HEADER_SIZE + length (snd m) \<le> z" using Cons.prems(2) [rule_format, of m] Send by simp
    show ?thesis
    proof (cases "app_send e h m s")
      case None
      then show ?thesis using Cons.IH [OF Cons.prems(1)] Cons.prems(2,3) Send by auto
    next
      case (Some s')
      obtain acc' where r: "run_queue (app_send e h) (app_receive e h a) ops s' = (t, acc', del)"
        using Cons.prems(3) Send Some by (auto split: prod.splits)
      have s': "app_rel e h a n z s' (ms @ [m])" using aq.enq_cases [OF Cons.prems(1) z] Some by auto
      have "aee_sys.more s' = aee_sys.more s" by (rule app_send_more [OF Cons.prems(1) z Some])
      then show ?thesis using Cons.IH [OF s' _ r] Cons.prems(2) by auto
    qed
  next
    case Receive
    show ?thesis
    proof (cases ms)
      case Nil
      then show ?thesis using Cons.IH [OF Cons.prems(1)] aq.deq_none [of e h a n z s] Cons.prems Receive by auto
    next
      case (Cons m ms')
      obtain s' where s': "app_receive e h a s = Some (m, s')" "app_rel e h a n z s' ms'" "aee_sys.more s' = aee_sys.more s @ [m]"
        using app_rel_receive Cons.prems(1) Cons by blast
      obtain del' where r: "run_queue (app_send e h) (app_receive e h a) ops s' = (t, acc, del')" "del = m # del'"
        using Cons.prems(3) Receive s'(1) by (auto split: prod.splits)
      then show ?thesis using Cons.IH [OF s'(2) _ r(1)] Cons.prems(2) s'(3) by auto
    qed
  qed
qed

text \<open>C11 For an application that records what it gets: whatever messages that fit are sent to it, one call after the
  other, and whenever it takes its turns, with sends refused when its queue is full and turns that wait when it is
  empty, it has processed exactly the messages accepted, once each, in the order accepted, but for those
  that still wait.  No thread without a thread handle writes to the static buffer of another's message.\<close>

theorem app_messages_in_order:
  assumes "app_rel e h a n z s ms" "\<forall>m. Send m \<in> set ops \<longrightarrow> HEADER_SIZE + length (snd m) \<le> z"
    and "run_queue (app_send e h) (app_receive e h a) ops s = (t, acc, del)"
  shows "aee_sys.more t = aee_sys.more s @ del \<and> (\<exists>rest. app_rel e h a n z t rest \<and> ms @ acc = del @ rest)"
  using run_records [OF assms] aq.fifo [OF assms] by simp

definition demo_ops :: "(u32 \<times> u8 list) queue_op list" where
  "demo_ops = [Send (1, [7]), Send (2, []), Receive, Send (3, [8, 9])]"

theorem app_messages_in_order_witness:
  "\<exists>t acc del rest. run_queue (app_send demo_env 1) (app_receive demo_env 1 demo_arg) demo_ops one_app = (t, acc, del) \<and>
     aee_sys.more t = del \<and> acc = del @ rest"
proof -
  obtain t acc del where r: "run_queue (app_send demo_env 1) (app_receive demo_env 1 demo_arg) demo_ops one_app = (t, acc, del)"
    by (metis prod.exhaust)
  have z: "\<forall>m. Send m \<in> set demo_ops \<longrightarrow> HEADER_SIZE + length (snd m) \<le> 64" by (auto simp: demo_ops_def)
  have "aee_sys.more one_app = []" by (simp add: one_app_def)
  with app_messages_in_order [OF one_app_rel z r] r show ?thesis by auto
qed

text \<open>The static buffer: a thread that the OS layer cannot name, for want of memory, sends what other such threads have
  made of the buffer between its write and the copy into the queue, and reports success.\<close>

theorem app_static_buffer_mixes:
  assumes "app_queue h q n z s ms" "ev_lock e = 0" "bs \<noteq> []" "HEADER_SIZE + length bs \<le> z" "z \<le> two_parts_buffer" "length ms < n"
    and "fst (u_thread_self (ev_thread e) (ev_self_pri e) (ev_self e) True (aee_thr s)) \<noteq> OSR_OK"
  shows "\<exists>s'. u_app_send_msg e h ty (Some bs) (length bs) f tag s = Inr (AEER_OK, s') \<and>
    app_queue h q n z s' (ms @ [map (\<lambda>i. ev_race e i (app_msg f tag ty bs ! i)) [0..<HEADER_SIZE + length bs]])"
proof -
  obtain r p th where u: "u_thread_self (ev_thread e) (ev_self_pri e) (ev_self e) True (aee_thr s) = (r, p, th)" "r \<noteq> OSR_OK"
    using assms(7) by (metis prod.exhaust fst_conv)
  define m where "m = map (\<lambda>i. ev_race e i (app_msg f tag ty bs ! i)) [0..<HEADER_SIZE + length bs]"
  have h: "hq_rel q n z (aee_qs s) ms" using assms(1) by (simp add: app_queue_def)
  have l: "length m = HEADER_SIZE + length bs" by (simp add: m_def)
  then have "m \<noteq> []" "length m \<le> z" using assms(4) by auto
  from hq_rel_send(1) [OF h this] assms(6) obtain qs where
    qs: "x_msg_q_send 4 0 q (Some m) (HEADER_SIZE + length bs) (aee_qs s) = Inr (OSR_OK, qs)" "hq_rel q n z qs (ms @ [m])"
    unfolding l by auto
  let ?h = "app_header APPMAN_MSG_PROCESS_MSG f tag (unat ty) (length bs)"
  have c: "take HEADER_SIZE ?h @ take (length bs) bs = app_msg f tag ty bs" by (simp add: app_msg_def)
  have "msg_q_send_2_parts e q ?h HEADER_SIZE (Some bs) (length bs) s = Inr (OSR_OK, s\<lparr>aee_thr := th, aee_qs := qs\<rparr>)"
    unfolding msg_q_send_2_parts_def u(1) Let_def option.sel c using u(2) assms(2-5) qs(1) by (simp add: m_def [symmetric])
  then have "u_app_send_msg e h ty (Some bs) (length bs) f tag s = Inr (AEER_OK, s\<lparr>aee_thr := th, aee_qs := qs\<rparr>)"
    using assms(3) app_queue_get [OF assms(1)] by (simp add: u_app_send_msg_def app_result_def Let_def)
  then show ?thesis using app_queue_set(1) [OF assms(1) qs(2)] unfolding m_def by blast
qed

theorem app_static_buffer_mixes_witness:
  "\<exists>s'. u_app_send_msg (demo_env\<lparr>ev_thread := NULL, ev_race := \<lambda>i b. if i = 20 then 99 else b\<rparr>) 1 9 (Some [1]) 1 0 0 one_app = Inr (AEER_OK, s') \<and>
    app_queue 1 1300 4 64 s' [app_msg 0 0 9 [99]]"
proof -
  let ?e = "demo_env\<lparr>ev_thread := NULL, ev_race := \<lambda>i b. if i = 20 then 99 else b\<rparr>"
  have f: "fst (u_thread_self (ev_thread ?e) (ev_self_pri ?e) (ev_self ?e) True (aee_thr one_app)) \<noteq> OSR_OK"
    by (simp add: u_thread_self_def thread_upgrade_def one_app_def os_thread_init_def)
  have l: "ev_lock ?e = 0" by (simp add: demo_env_def)
  have z: "[1 :: u8] \<noteq> []" "HEADER_SIZE + length [1 :: u8] \<le> 64" "64 \<le> two_parts_buffer" "length ([] :: u8 list list) < 4"
    by (simp_all add: two_parts_buffer_def)
  have m: "map (\<lambda>i. ev_race ?e i (app_msg 0 0 9 [1] ! i)) [0..<HEADER_SIZE + length [1 :: u8]] = app_msg 0 0 9 [99]"
  proof (rule nth_equalityI)
    show "length (map (\<lambda>i. ev_race ?e i (app_msg 0 0 9 [1] ! i)) [0..<HEADER_SIZE + length [1 :: u8]]) = length (app_msg 0 0 9 [99])"
      by (simp add: app_msg_def)
  qed (auto simp: app_msg_def nth_append less_Suc_eq)
  have n: "length [1 :: u8] = 1" by simp
  show ?thesis using app_static_buffer_mixes [OF one_app_queue l z f, of 9 0 0, unfolded m, unfolded n append_Nil] .
qed

text \<open>One send: a message that fits is accepted while fewer messages wait than the application asked for, and goes to
  the end of its queue; otherwise the call fails and the queue is as before.\<close>

theorem app_send_outcomes:
  assumes "app_queue h q n z s ms" "can_send e (length bs)"
  shows "\<exists>s' r. u_app_send_msg e h ty (Some bs) (length bs) f tag s = Inr (r, s') \<and>
    (if HEADER_SIZE + length bs \<le> z \<and> length ms < n then r = AEER_OK \<and> app_queue h q n z s' (ms @ [app_msg f tag ty bs])
     else r = AEER_FAIL \<and> app_queue h q n z s' ms)"
proof (cases "HEADER_SIZE + length bs \<le> z")
  case True
  have "hq_rel q n z (aee_qs s) ms" using assms(1) by (simp add: app_queue_def)
  then have "length ms \<le> n" by (rule hq.bound)
  then show ?thesis using True app_queue_send [OF assms True, of ty f tag] by (cases "length ms = n") fastforce+
next
  case False
  let ?m = "app_msg f tag ty bs"
  obtain th where u: "u_app_send_msg e h ty (Some bs) (length bs) f tag s =
    then_do (x_msg_q_send 4 0 q (Some ?m) (length ?m) (aee_qs s)) (\<lambda>(r, qs). Inr (app_result r, s\<lparr>aee_thr := th, aee_qs := qs\<rparr>))"
    by (rule u_app_send_msg_steps [OF assms])
  have r: "hq_rel q n z (aee_qs s) ms" using assms(1) by (simp add: app_queue_def)
  then obtain o1 where "q_objs (aee_qs s) q = Some o1" "q_maxsize o1 = z" by (auto simp: hq_rel_def q_rel_def)
  then have "x_msg_q_send 4 0 q (Some ?m) (length ?m) (aee_qs s) = Inr (OSR_TOO_BIG, aee_qs s)"
    using False by (simp add: x_msg_q_send_def)
  then show ?thesis using False app_queue_set(1) [OF assms(1) r] by (simp add: u app_result_def del: length_app_msg)
qed

theorem app_send_outcomes_witness:
  "\<exists>s'. u_app_send_msg demo_env 1 9 (Some (replicate 45 0)) 45 0 0 one_app = Inr (AEER_FAIL, s')"
proof -
  have "can_send demo_env (length (replicate 45 (0 :: u8)))" by (simp add: can_send_def demo_env_def two_parts_buffer_def)
  from app_send_outcomes [OF one_app_queue this, of 9 0 0] show ?thesis by auto
qed

text \<open>One turn: whatever functions the application and the sender have, the oldest message makes the main function
  notify the sender, call the function of the application with the type, the bytes and the length that were sent, and
  notify the sender of its result; it then goes on.\<close>

theorem app_turn_processes:
  assumes "app_queue h q n z s (app_msg f tag ty bs # ms)" "app_main a q z s" "ev_lock e = 0" "f < 2 ^ 32" "tag < 2 ^ 32"
  shows "\<exists>s1 rest. appman_turn c e h' a s = then_do (process_calls c h' a f tag ty bs rest s1) (\<lambda>x. Inr (Returned x)) \<and>
    app_queue h q n z s1 ms \<and> app_main a q z s1 \<and> aee_sys.more s1 = aee_sys.more s \<and> HEADER_SIZE + length (bs @ rest) = z"
  using assms by (rule turn_processes)

theorem app_turn_processes_witness:
  "\<exists>s s'. u_app_send_msg demo_env 1 9 (Some [1, 2]) 2 0 0 one_app = Inr (AEER_OK, s) \<and>
     appman_turn rec_calls demo_env 1 demo_arg s = Inr (Returned (False, s')) \<and> aee_sys.more s' = [(9, [1, 2])]"
proof -
  have "can_send demo_env (length [1, 2 :: u8])" by (simp add: can_send_def demo_env_def two_parts_buffer_def)
  from app_queue_send(1) [OF one_app_queue this, of 9 0 0] obtain s where
    s: "u_app_send_msg demo_env 1 9 (Some [1, 2]) 2 0 0 one_app = Inr (AEER_OK, s)" "app_queue 1 1300 4 64 s [app_msg 0 0 9 [1, 2]]"
    "aee_bufs s = aee_bufs one_app" "aee_sys.more s = aee_sys.more one_app" by (auto simp: numeral_2_eq_2)
  have m: "app_main demo_arg 1300 64 s" using app_main_cong [OF s(3)] one_app_main by simp
  obtain s1 rest where "appman_turn rec_calls demo_env 1 demo_arg s = then_do (process_calls rec_calls 1 demo_arg 0 0 9 [1, 2] rest s1) (\<lambda>x. Inr (Returned x))"
    "aee_sys.more s1 = aee_sys.more s"
    using app_turn_processes [OF s(2) m, of demo_env rec_calls 1] by (auto simp: demo_env_def)
  then show ?thesis using s(1,4) by (simp add: process_calls_def notify_def rec_calls_def one_app_def)
qed

section \<open>Start\<close>

text \<open>A library of 20 handles without applications.\<close>

definition no_apps :: "recorded aee_sys_scheme" where
  "no_apps = (state_of (u_handle_usr_init 4096 20 (one_app\<lparr>b_init := False\<rparr>)) one_app)\<lparr>aee_objs := Map.empty, pt_aees := NULL,
     b_aee_init := False, aee_thr := os_thread_init, aee_qs := msg_q_init, aee_bufs := Map.empty\<rparr>"

lemma no_apps_sel: "handle_inv no_apps Map.empty (\<lambda>_. [])" "ui2_num_free no_apps = 20" "aee_list no_apps []"
  "aee_objs no_apps = Map.empty" "aee_thr no_apps = os_thread_init" "aee_qs no_apps = msg_q_init" "habs no_apps = Map.empty"
proof -
  obtain s' where s': "u_handle_usr_init 4096 20 (one_app\<lparr>b_init := False\<rparr>) = Inr (HR_OK, s')" "handle_inv s' Map.empty (\<lambda>_. [])"
    "habs s' = Map.empty" "pool_ok s' (slots 0 (unat (20 :: u16)))"
    by (rule usr_init_ok [of "one_app\<lparr>b_init := False\<rparr>" 4096 20]) (simp_all add: one_app_def)
  have "ui2_num_free s' = of_nat (unat (20 :: u16))" using s'(4) by (simp only: pool_ok_def slots_props(2) diff_zero)
  then have n: "ui2_num_free s' = 20" by simp
  have e: "no_apps = s'\<lparr>aee_objs := Map.empty, pt_aees := NULL, b_aee_init := False, aee_thr := os_thread_init, aee_qs := msg_q_init, aee_bufs := Map.empty\<rparr>"
    by (simp add: no_apps_def s'(1) state_of_def)
  have t: "hlib.truncate no_apps = hlib.truncate s'" by (simp add: e hlib.truncate_def)
  show "handle_inv no_apps Map.empty (\<lambda>_. [])" by (rule handle_inv_truncate [OF s'(2) t])
  show "ui2_num_free no_apps = 20" using truncate_num_free [OF t] n by simp
  show "habs no_apps = Map.empty" using habs_truncate [OF t] s'(3) by simp
  show "aee_list no_apps []" "aee_objs no_apps = Map.empty" "aee_thr no_apps = os_thread_init" "aee_qs no_apps = msg_q_init"
    by (simp_all add: e aee_list_def)
qed

text \<open>C12 From the call that starts an application to its initialisation: the call registers a new handle, which resolves
  to the new object, and creates the thread; when the thread runs, it enters the object into the list and calls the main
  function of applications with this handle; and the first turn of that function notifies the starter, calls the
  initialisation of the application with its name and handle, and notifies the starter of its result.\<close>

theorem app_starts:
  assumes "handle_inv s L A" "ui2_num_free s > 12" "may_start e f d nm s" "aee_list s ps" "ev_aee e \<notin> set ps"
    and "start_addr_ok e f nfy tag" "\<forall>c\<in>set nm. c \<noteq> CHR 0x00"
    and "ev_self e' = fst (the (ev_started e))" "ev_pvt e' \<noteq> NULL" "ev_lock e' = 0"
  shows "\<exists>h s' args th s2 a s3. u_app_start cbs e (Some f) (Some d) (Some nm) nfy tag True s = Inr (AEER_OK, Some h, s') \<and>
    habs s h = None \<and> habs s' h = Some (AEET_PRIMARY_AEE, ev_aee e) \<and>
    thread_proc (ev_thread e) (aee_thr s') = Inr (fn_aee_main, Some args, th) \<and>
    aee_main_start e' args (s'\<lparr>aee_thr := th\<rparr>) = Inr (Some (fn_appman_main, h, ev_arg e), s2) \<and> aee_list s2 (ev_aee e # ps) \<and>
    appman_main_start (ev_arg e) s2 = Inr a \<and> a = app_start_arg f d nm (ev_queue e) (ev_buf e) \<and>
    appman_turn c e' h a s2 = then_do (init_calls c (pf_init f) (take AEE_NAME_MAX_LENGTH nm) h nfy tag s3) (\<lambda>x. Inr (Returned x)) \<and>
    aee_sys.more s3 = aee_sys.more s"
proof -
  obtain h s' A' where s': "u_app_start cbs e (Some f) (Some d) (Some nm) nfy tag True s = Inr (AEER_OK, Some h, s')"
    "habs s h = None" "handle_inv s' L A'" "app_started e f d nm nfy tag h s s'"
    by (rule app_start_ok [OF assms(1-3)])
  have "aee_sys.more s' = aee_sys.more s" "habs s' h = Some (AEET_PRIMARY_AEE, ev_aee e)" using s'(4) by (simp_all add: app_started_def)
  moreover note s'(1,2)
  moreover obtain args th s2 a s3 where "thread_proc (ev_thread e) (aee_thr s') = Inr (fn_aee_main, Some args, th)"
    "aee_main_start e' args (s'\<lparr>aee_thr := th\<rparr>) = Inr (Some (fn_appman_main, h, ev_arg e), s2)" "aee_list s2 (ev_aee e # ps)"
    "appman_main_start (ev_arg e) s2 = Inr a" "a = app_start_arg f d nm (ev_queue e) (ev_buf e)"
    "appman_turn c e' h a s2 = then_do (init_calls c (pf_init f) (take AEE_NAME_MAX_LENGTH nm) h nfy tag s3) (\<lambda>x. Inr (Returned x))"
    "aee_sys.more s3 = aee_sys.more s'"
    by (rule app_first_turn [OF s'(4) assms(4,5,3,6-10)])
  ultimately show ?thesis by auto
qed

definition demo_fcts :: app_fct_tbl where
  "demo_fcts = \<lparr>pf_init = 2001, pf_exit = 2002, pf_process_msg = 2003\<rparr>"

definition demo_desc :: app_desc where
  "demo_desc = \<lparr>ad_flags = 0, ad_stack_size = 65536, ad_priority = 128, ad_num_msgs = 16, ad_group_id = 0, ad_app_id = 1,
     ad_msg_count = 4, ad_max_msg_size = 44\<rparr>"

definition demo_cbs :: "recorded callbacks" where
  "demo_cbs = \<lparr>other_free = (\<lambda>_ _ _ _ _ _ s. Inr (False, s)), other_aux_free = (\<lambda>_ _ s. Inr s), other_auto = (\<lambda>_ _ _ s. Inr (HR_OK, s)),
     other_tbl = (\<lambda>_ _. NULL)\<rparr>"

lemma demo_may_start: "may_start demo_env demo_fcts demo_desc ''ws'' no_apps"
proof -
  have "thread_find_obj ''ws'' os_thread_init = Some NULL"
    using ring_find_eq [of ring0 "[]"] by (simp add: thread_find_obj_def os_thread_init_def ring0_def)
  moreover have "msg_q_find_obj ''ws'' msg_q_init = Some NULL"
    using ring_find_eq [of ring0 "[]"] by (simp add: msg_q_find_obj_def msg_q_init_def ring0_def)
  ultimately show ?thesis
    by (simp add: may_start_def may_create_def no_apps_sel demo_env_def demo_fcts_def demo_desc_def app_aee_desc_def app_start_arg_def
      get_pvt_def u_thread_get_pvt_def with_self_def os_thread_init_def MSGQ_MAX_MSGS_def MSGQ_MAX_DATA_SIZE_def)
qed

theorem app_starts_witness:
  "\<exists>h s' s2 a s4. u_app_start demo_cbs demo_env (Some demo_fcts) (Some demo_desc) (Some ''ws'') 0 0 True no_apps = Inr (AEER_OK, Some h, s') \<and>
     aee_list s2 [1000] \<and> a = demo_arg \<and> appman_turn rec_calls demo_env h a s2 = Inr (Returned (False, s4))"
proof -
  have f: "ui2_num_free no_apps > 12" by (simp add: no_apps_sel)
  have a: "start_addr_ok demo_env demo_fcts 0 0" "ev_aee demo_env \<notin> set []" "\<forall>c\<in>set ''ws''. c \<noteq> CHR 0x00"
    "ev_self demo_env = fst (the (ev_started demo_env))" "ev_pvt demo_env \<noteq> NULL" "ev_lock demo_env = 0"
    by (simp_all add: start_addr_ok_def addr_ok_def demo_env_def demo_fcts_def)
  have arg: "app_start_arg demo_fcts demo_desc ''ws'' (ev_queue demo_env) (ev_buf demo_env) = demo_arg"
    by (simp add: app_start_arg_def demo_fcts_def demo_desc_def demo_env_def demo_arg_def)
  note T = app_starts [OF no_apps_sel(1) f demo_may_start no_apps_sel(3) a(2,1,3-6), of demo_cbs rec_calls, unfolded arg]
  have i: "init_calls rec_calls x y h 0 0 s3 = Inr (False, s3)" for x y h s3 by (simp add: init_calls_def notify_def rec_calls_def)
  have "ev_aee demo_env = 1000" by (simp add: demo_env_def)
  then show ?thesis using T by (auto simp: i)
qed

section \<open>The list, look-up and the end\<close>

text \<open>The list of the applications: entering puts an object first, removing takes it out and changes nothing but links,
  and the search by name finds the first object of the name, all without a fault or an endless loop.\<close>

theorem aee_list_refines:
  assumes "aee_list s ps"
  shows "(aee_objs s p \<noteq> None \<and> p \<noteq> NULL \<and> p \<notin> set ps \<longrightarrow> (\<exists>s'. aee_add p s = Inr s' \<and> aee_list s' (p # ps))) \<and>
    (\<exists>s'. aee_remove p s = Inr s' \<and> aee_list s' (remove1 p ps) \<and> relinked s s') \<and>
    aee_find_by_name nm s = Inr (case find (\<lambda>q. map_option ae_name (aee_objs s q) = Some nm) ps of None \<Rightarrow> NULL | Some q \<Rightarrow> q)"
proof (intro conjI impI)
  assume "aee_objs s p \<noteq> None \<and> p \<noteq> NULL \<and> p \<notin> set ps"
  then show "\<exists>s'. aee_add p s = Inr s' \<and> aee_list s' (p # ps)" using aee_list_add [OF assms] by blast
next
  show "\<exists>s'. aee_remove p s = Inr s' \<and> aee_list s' (remove1 p ps) \<and> relinked s s'" by (rule aee_list_remove [OF assms])
next
  have "(\<lambda>q. \<exists>a. aee_objs s q = Some a \<and> ae_name a = nm) = (\<lambda>q. map_option ae_name (aee_objs s q) = Some nm)"
    by (auto simp: fun_eq_iff)
  then show "aee_find_by_name nm s = Inr (case find (\<lambda>q. map_option ae_name (aee_objs s q) = Some nm) ps of None \<Rightarrow> NULL | Some q \<Rightarrow> q)"
    using aee_list_find [OF assms, of "\<lambda>a. ae_name a = nm"] by (simp add: aee_find_by_name_def)
qed

lemma one_app_list: "aee_list one_app [1000]"
  by (simp add: aee_list_def aee_link_def one_app_def demo_aee_def)

theorem aee_list_refines_witness:
  "aee_find_by_name ''ws'' one_app = Inr 1000 \<and> (\<exists>s'. aee_remove 1000 one_app = Inr s' \<and> aee_list s' [])"
  using aee_list_refines [OF one_app_list, of 1000 "''ws''"] by (auto simp: one_app_def demo_aee_def)

text \<open>The end of an application takes its object out of the list, frees it together with its handle and the head of
  its auxiliary list, and makes the applications it has created orphans, but only when it has a parent itself:
  otherwise they keep the handle that has just been freed.\<close>

theorem app_end_frees:
  assumes "handle_inv s L A" "aee_list s ps" "p \<in> set ps" "app_at s A p a i j"
  shows "\<exists>s'. aee_clean_up cbs (make_handle s i) p s = Inr s' \<and> handle_inv s' L A \<and> aee_list s' (remove1 p ps) \<and>
    habs s' = (habs s)(ae_aux a := None, make_handle s i := None) \<and> aee_objs s' p = None \<and>
    (\<forall>q. q \<noteq> p \<longrightarrow> map_option ae_parent_app (aee_objs s' q) =
       map_option (parent_after (make_handle s i) a (remove1 p ps) q) (aee_objs s q))"
  by (rule aee_clean_up_ok [OF assms, of cbs]) auto

text \<open>What a freshly allocated block holds.\<close>

lemma filled:
  assumes "ctrl s i = fill_ctrl ty obj tag fre c"
  shows "htype s i = ty" "pv_obj (ctrl s i) = obj" "pf_free (ctrl s i) = fre" "\<not> ftst H_CTRL_FLAG_FREEING (hflags s i)"
    "\<not> linked s i" "ahead s i = 0"
  using assms by (simp_all add: htype_def hflags_def linked_def ahead_def ftst_def del: field_folds)

text \<open>An application with its handle, the head of its auxiliary list, and a secondary handle.\<close>

lemma alloc_block:
  fixes s :: "'x hlib_scheme"
  assumes "handle_inv s L (\<lambda>_. [])" "ui2_num_free s > 11" "fre \<noteq> NULL" "ty \<noteq> INV_HANDLE_TYPE"
  shows "\<exists>i (s' :: 'x hlib_scheme). handle_inv s' L (\<lambda>_. []) \<and> live s' i \<and> ctrl s' i = fill_ctrl ty obj NULL fre (ctrl s i) \<and>
    habs s' = (habs s)(make_handle s' i \<mapsto> (ty, obj)) \<and> (\<forall>k. live s k \<longrightarrow> live s' k \<and> ctrl s' k = ctrl s k) \<and>
    ui2_num_free s' = ui2_num_free s - 1"
proof (rule alloc_ok [OF assms, of demo_realloc obj NULL])
  fix i and s' :: "'x hlib_scheme"
  assume a: "handle_inv s' L ((\<lambda>_. [])(i := []))" "live s' i" "ctrl s' i = fill_ctrl ty obj NULL fre (ctrl s i)"
    "habs s' = (habs s)(make_handle s' i \<mapsto> (ty, obj))" "\<forall>k. live s k \<longrightarrow> live s' k \<and> ctrl s' k = ctrl s k"
    "ui2_num_free s' = ui2_num_free s - 1"
  have "(\<lambda>_. [])(i := []) = (\<lambda>_ :: u16. [] :: u16 list)" by auto
  then show ?thesis using a by (intro exI [of _ i] exI [of _ s'] conjI) simp_all
qed

lemma num_ne_0: "fn_aux_link_head_free \<noteq> NULL" "(10 :: nat) \<noteq> 0" "(11 :: nat) \<noteq> 0" "(64 :: u16) \<noteq> 0" "(65 :: u16) \<noteq> 0" "(1 :: u16) \<noteq> 0"
  by (simp_all add: fn_aux_link_head_free_def)

lemma demo_ending:
  obtains s :: "recorded aee_sys_scheme" and i j h a where
    "handle_inv s Map.empty (\<lambda>_. [])" "aee_list s [1000]" "app_at s (\<lambda>_. []) 1000 a i j" "habs s h = Some (AEET_SECONDARY_AEE, 1000)"
proof -
  have f0: "11 < ui2_num_free no_apps" "ui2_num_free no_apps = 20" by (simp_all add: no_apps_sel)
  obtain i and s1 :: "recorded aee_sys_scheme" where s1: "handle_inv s1 Map.empty (\<lambda>_. [])" "live s1 i" "ctrl s1 i = fill_ctrl AEET_PRIMARY_AEE 1000 NULL fn_aee_free_handle (ctrl no_apps i)"
    "ui2_num_free s1 = ui2_num_free no_apps - 1"
    using alloc_block [OF no_apps_sel(1) f0(1) num_ne_0(2,4), of 1000] by blast
  have f1: "11 < ui2_num_free s1" "ui2_num_free s1 = 19" by (simp_all add: s1(4) f0(2))
  obtain j and s2 :: "recorded aee_sys_scheme" where s2: "handle_inv s2 Map.empty (\<lambda>_. [])" "live s2 j" "ctrl s2 j = fill_ctrl HT_AUX_LINK_HEAD 1000 NULL fn_aux_link_head_free (ctrl s1 j)"
    "\<forall>k. live s1 k \<longrightarrow> live s2 k \<and> ctrl s2 k = ctrl s1 k" "ui2_num_free s2 = ui2_num_free s1 - 1"
    using alloc_block [OF s1(1) f1(1) num_ne_0(1,6), of 1000] by blast
  have f2: "11 < ui2_num_free s2" by (simp add: s2(5) f1(2))
  obtain k and s3 :: "recorded aee_sys_scheme" where s3: "handle_inv s3 Map.empty (\<lambda>_. [])" "habs s3 = (habs s2)(make_handle s3 k \<mapsto> (AEET_SECONDARY_AEE, 1000))"
    "\<forall>k. live s2 k \<longrightarrow> live s3 k \<and> ctrl s3 k = ctrl s2 k"
    using alloc_block [OF s2(1) f2 num_ne_0(3,5), of 1000] by blast
  let ?a = "demo_aee\<lparr>ae_aux := make_handle s3 j\<rparr>"
  let ?s = "s3\<lparr>aee_objs := [1000 \<mapsto> ?a], pt_aees := 1000\<rparr>"
  have t: "hlib.truncate ?s = hlib.truncate s3" by simp
  note W = more_with_aee [OF t]
  have c: "ctrl s3 i = fill_ctrl AEET_PRIMARY_AEE 1000 NULL fn_aee_free_handle (ctrl no_apps i)" "live s3 i"
    "ctrl s3 j = fill_ctrl HT_AUX_LINK_HEAD 1000 NULL fn_aux_link_head_free (ctrl s1 j)" "live s3 j"
    using s1(2,3) s2(2-4) s3(3) by auto
  have "app_at ?s (\<lambda>_. []) 1000 ?a i j" unfolding app_at_def W using c filled [OF c(1)] filled [OF c(3)] by simp
  moreover have "aee_list ?s [1000]" by (simp add: aee_list_def aee_link_def demo_aee_def)
  moreover have "habs ?s (make_handle s3 k) = Some (AEET_SECONDARY_AEE, 1000)" using habs_truncate [OF t] s3(2) by simp
  ultimately show thesis using that handle_inv_truncate [OF s3(1) t] by blast
qed

theorem app_end_frees_witness:
  "\<exists>s s' :: recorded aee_sys_scheme. \<exists>h. aee_list s [1000] \<and> aee_clean_up demo_cbs h 1000 s = Inr s' \<and> aee_list s' [] \<and> habs s h \<noteq> None \<and> habs s' h = None"
proof -
  obtain s :: "recorded aee_sys_scheme" and i j h a where s: "handle_inv s Map.empty (\<lambda>_. [])" "aee_list s [1000]"
    "app_at s (\<lambda>_. []) 1000 a i j" "habs s h = Some (AEET_SECONDARY_AEE, 1000)" by (rule demo_ending)
  have "habs s (make_handle s i) \<noteq> None" using s(3) habs_eq [of s "make_handle s i"] by (auto simp: app_at_def)
  then show ?thesis using app_end_frees [OF s(1,2) _ s(3), of demo_cbs] s(2) by fastforce
qed

text \<open>C13 The handles that other applications have got for an application outlive it: they still resolve, to the object
  that is gone, and whoever sends to one of them reads freed memory.\<close>

theorem app_end_dangles:
  assumes "handle_inv s L A" "aee_list s ps" "p \<in> set ps" "app_at s A p a i j" "habs s h = Some (AEET_SECONDARY_AEE, p)"
  shows "\<exists>s'. aee_clean_up cbs (make_handle s i) p s = Inr s' \<and> aee_objs s' p = None \<and> habs s' h = Some (AEET_SECONDARY_AEE, p) \<and>
    aee_get_msg_queue h s' = Inl BadAccess \<and> u_aee_send_data rcv h d pv z s' = Inl BadAccess \<and> u_app_send_msg e h ty m len f tag s' = Inl BadAccess"
proof -
  obtain s' where s': "aee_clean_up cbs (make_handle s i) p s = Inr s'" "handle_inv s' L A"
    "habs s' = (habs s)(ae_aux a := None, make_handle s i := None)" "aee_objs s' p = None"
    by (rule aee_clean_up_ok [OF assms(1-4), of cbs])
  have "habs s (make_handle s i) = Some (AEET_PRIMARY_AEE, p)" "habs s (ae_aux a) = Some (HT_AUX_LINK_HEAD, pv_obj (ctrl s j))"
    using assms(4) habs_eq [of s "make_handle s i"] habs_eq [of s "ae_aux a"] by (auto simp: app_at_def)
  then have "h \<noteq> make_handle s i" "h \<noteq> ae_aux a" using assms(5) by auto
  then have h: "habs s' h = Some (AEET_SECONDARY_AEE, p)" using s'(3) assms(5) by simp
  have b: "b_init s'" using s'(2) by (simp add: handle_inv_def)
  have "aee_at s' h = Some p" by (simp add: aee_at_def h)
  note D = with_aee_gone [OF b this s'(4)]
  show ?thesis using s'(1,4) h by (simp add: aee_get_msg_queue_def u_aee_send_data_def aee_send_data_op_def u_app_send_msg_def D)
qed

theorem app_end_dangles_witness:
  "\<exists>s s' :: recorded aee_sys_scheme. \<exists>h h'. aee_clean_up demo_cbs h 1000 s = Inr s' \<and> u_app_send_msg demo_env h' 1 (Some [5]) 1 0 0 s' = Inl BadAccess"
proof -
  obtain s :: "recorded aee_sys_scheme" and i j h a where s: "handle_inv s Map.empty (\<lambda>_. [])" "aee_list s [1000]"
    "app_at s (\<lambda>_. []) 1000 a i j" "habs s h = Some (AEET_SECONDARY_AEE, 1000)" by (rule demo_ending)
  show ?thesis using app_end_dangles [OF s(1,2) _ s(3,4), of demo_cbs undefined 0 None 0 demo_env 1 "Some [5]" 1 0 0] by fastforce
qed

end
