(* ===== verification/AmProps.thy ===== *)
theory AmProps
  imports AmInv AppRun
begin

text \<open>The messages that the application manager passes on, and the requests of other threads to it.\<close>

section \<open>Messages as bytes\<close>

lemma get_word_first: "w < 2 ^ 32 \<Longrightarrow> get_word (word_bytes w @ r) 0 = w"
  using get_word_words [of 0 "[w]" r] by simp

lemma get_word_skip: "length xs = 4 * k \<Longrightarrow> 4 * i + 4 \<le> length ys \<Longrightarrow> get_word (xs @ ys) (k + i) = get_word ys i"
  unfolding get_word_def by (rule get_le_cong) (simp add: nth_append algebra_simps)

lemma broadcast_bytes_read:
  assumes "length (bm_msg m) = BROADCAST_MSG_MAX_LEN"
  shows "get_word (broadcast_bytes m @ r) 0 = unat (bm_type m)" "get_word (broadcast_bytes m @ r) 7 = unat (bm_len m)"
    "drop 4 (broadcast_bytes m @ r) = bm_msg m @ word_bytes (unat (bm_len m)) @ r" "length (broadcast_bytes m) = BROADCAST_SIZE"
proof -
  have b: "unat (bm_type m) < 2 ^ 32" "unat (bm_len m) < 2 ^ 32" using unat_bounds(3) by simp_all
  show "get_word (broadcast_bytes m @ r) 0 = unat (bm_type m)" using get_word_first [OF b(1)] by (simp add: broadcast_bytes_def)
  have "get_word ((word_bytes (unat (bm_type m)) @ bm_msg m) @ (word_bytes (unat (bm_len m)) @ r)) (7 + 0) = unat (bm_len m)"
    by (subst get_word_skip) (use assms get_word_first [OF b(2)] in simp_all)
  then show "get_word (broadcast_bytes m @ r) 7 = unat (bm_len m)" by (simp add: broadcast_bytes_def)
qed (use assms in \<open>simp_all add: broadcast_bytes_def\<close>)

lemma dispatch_bytes_read:
  assumes "length (dm_msg m) = DISPATCH_MSG_MAX_LEN" "dm_name m < 2 ^ 32"
  shows "get_word (dispatch_bytes m @ r) 0 = dm_name m" "get_word (dispatch_bytes m @ r) 1 = unat (dm_type m)"
    "get_word (dispatch_bytes m @ r) 7 = unat (dm_len m)"
    "drop 8 (dispatch_bytes m @ r) = dm_msg m @ word_bytes (unat (dm_len m)) @ r" "length (dispatch_bytes m) = DISPATCH_SIZE"
proof -
  have b: "unat (dm_type m) < 2 ^ 32" "unat (dm_len m) < 2 ^ 32" using unat_bounds(3) by simp_all
  show "get_word (dispatch_bytes m @ r) 0 = dm_name m" using get_word_first [OF assms(2)] by (simp add: dispatch_bytes_def)
  have "get_word (word_bytes (dm_name m) @ (word_bytes (unat (dm_type m)) @ dm_msg m @ word_bytes (unat (dm_len m)) @ r)) (1 + 0) = unat (dm_type m)"
    by (subst get_word_skip) (use get_word_first [OF b(1)] in simp_all)
  then show "get_word (dispatch_bytes m @ r) 1 = unat (dm_type m)" by (simp add: dispatch_bytes_def)
  have "get_word ((word_bytes (dm_name m) @ word_bytes (unat (dm_type m)) @ dm_msg m) @ (word_bytes (unat (dm_len m)) @ r)) (7 + 0) = unat (dm_len m)"
    by (subst get_word_skip) (use assms get_word_first [OF b(2)] in simp_all)
  then show "get_word (dispatch_bytes m @ r) 7 = unat (dm_len m)" by (simp add: dispatch_bytes_def)
qed (use assms in \<open>simp_all add: dispatch_bytes_def\<close>)

section \<open>The queues of all applications\<close>

definition started :: "'v am_sys_scheme \<Rightarrow> nat \<Rightarrow> bool" where
  "started s i \<longleftrightarrow> i < unat (ui4_app_id s) \<and> ah_app s ! i \<noteq> NULL_HANDLE"

text \<open>Application \<open>i\<close>, if it has been started, has the queue at \<open>q i\<close> for \<open>n i\<close> messages of up to \<open>z i\<close> bytes, in which
  the messages \<open>M i\<close> wait.\<close>

definition am_queues :: "(nat \<Rightarrow> ptr) \<Rightarrow> (nat \<Rightarrow> nat) \<Rightarrow> (nat \<Rightarrow> nat) \<Rightarrow> 'v am_sys_scheme \<Rightarrow> (nat \<Rightarrow> u8 list list) \<Rightarrow> bool" where
  "am_queues q n z s M \<longleftrightarrow> am_wf s \<and> inj_on q (Collect (started s)) \<and>
     (\<forall>i. started s i \<longrightarrow> app_queue (ah_app s ! i) (q i) (n i) (z i) s (M i))"

text \<open>A message for application \<open>i\<close>, if there is room, and the result.\<close>

definition put :: "(nat \<Rightarrow> nat) \<Rightarrow> u8 list \<Rightarrow> (nat \<Rightarrow> u8 list list) \<Rightarrow> nat \<Rightarrow> u8 list list" where
  "put n m M i = (if length (M i) < n i then M i @ [m] else M i)"

definition put_result :: "(nat \<Rightarrow> nat) \<Rightarrow> (nat \<Rightarrow> u8 list list) \<Rightarrow> nat \<Rightarrow> int" where
  "put_result n M i = (if length (M i) < n i then AEER_OK else AEER_FAIL)"

lemma started_same: "ah_app s' = ah_app s \<Longrightarrow> ui4_app_id s' = ui4_app_id s \<Longrightarrow> started s' = started s"
  by (simp add: started_def fun_eq_iff)

lemma am_queues_truncate:
  assumes "aee_sys.truncate s' = aee_sys.truncate s" "ah_app s' = ah_app s" "ui4_app_id s' = ui4_app_id s" "as_app_name s' = as_app_name s"
  shows "am_queues q n z s' M = am_queues q n z s M"
  using truncate_app(1) [OF assms(1)] started_same [OF assms(2,3)] assms(2-) by (simp add: am_queues_def am_wf_def)

lemma am_queues_flags [simp]: "am_queues q n z (s\<lparr>am_flags := f\<rparr>) M = am_queues q n z s M"
  by (rule am_queues_truncate) simp_all

lemma am_queues_put:
  assumes Q: "am_queues q n z s M" and i: "started s i" and o: "only_queue (q i) s s'"
    and a: "app_queue (ah_app s ! i) (q i) (n i) (z i) s' ms"
  shows "am_queues q n z s' (M(i := ms))"
proof -
  note S = only_queue_same [OF o]
  note F = more_am [OF S(1)]
  have "started s' = started s" by (rule started_same) (simp_all add: F)
  moreover have "app_queue (ah_app s ! j) (q j) (n j) (z j) s' (M j)" if "started s j" "j \<noteq> i" for j
  proof -
    have "q j \<noteq> q i" using Q i that by (auto simp: am_queues_def inj_on_def)
    then show ?thesis using S(5) Q that by (simp add: am_queues_def)
  qed
  ultimately show ?thesis using Q a by (auto simp: am_queues_def am_wf_def F)
qed

text \<open>Other threads leave the queues alone while the manager sends, and it gets the memory it needs.\<close>

definition quiet :: "'v am_sys_ext am_env \<Rightarrow> nat \<Rightarrow> bool" where
  "quiet e len \<longleftrightarrow> (\<forall>i r s. an_others e i r s = s) \<and> (\<forall>i r. can_send (an_call e i r) len)"

lemma quiet_simps: "quiet e len \<Longrightarrow> an_others e i r s = s" "quiet e len \<Longrightarrow> can_send (an_call e i r) len"
  by (simp_all add: quiet_def)

lemma started_handle: "am_queues q n z s M \<Longrightarrow> started s i \<Longrightarrow> ah_app s' = ah_app s \<Longrightarrow> app_handle i s' = Inr (ah_app s ! i)"
  by (auto simp: am_queues_def am_wf_def started_def app_handle_def)

text \<open>A loop of attempts to send to application \<open>i\<close>, whatever it does beside sending.\<close>

lemma retry_send:
  assumes Q: "am_queues q n z s M" and i: "started s i" and qt: "quiet e len" and l: "len \<le> length msg" "HEADER_SIZE + len \<le> z i"
    and f: "\<And>r i4 s'. aee_sys.more s' = aee_sys.more s \<Longrightarrow> f r i4 s' =
      then_do (u_app_send_msg (an_call e i r) (ah_app s ! i) ty (Some msg) len nfy tag s') (\<lambda>(i4, s). Inr (i4 = AEER_OK, i4, s))"
  shows "\<exists>s'. retry f 0 i4 s = Inr (put_result n M i, s') \<and> aee_sys.more s' = aee_sys.more s \<and>
    am_queues q n z s' (M(i := put n (app_msg nfy tag ty (take len msg)) M i))"
proof -
  let ?I = "\<lambda>s'. only_queue (q i) s s' \<and> app_queue (ah_app s ! i) (q i) (n i) (z i) s' (M i)"
  have I: "?I s" using Q i by (simp add: am_queues_def)
  show ?thesis
  proof (cases "length (M i) < n i")
    case True
    obtain s' where s': "u_app_send_msg (an_call e i 0) (ah_app s ! i) ty (Some msg) len nfy tag s = Inr (AEER_OK, s')"
      "only_queue (q i) s s'" "app_queue (ah_app s ! i) (q i) (n i) (z i) s' (M i @ [app_msg nfy tag ty (take len msg)])"
      using app_send_only [of "ah_app s ! i" "q i" "n i" "z i" s "M i" "an_call e i 0" len msg ty nfy tag] I quiet_simps(2) [OF qt] l True by auto
    have "retry f 0 i4 s = Inr (AEER_OK, s')" by (rule retry_stops) (simp_all add: f s'(1))
    then show ?thesis using am_queues_put [OF Q i s'(2,3)] only_queue_same(1) [OF s'(2)] True by (simp add: put_def put_result_def)
  next
    case False
    have "\<exists>s'. retry f 0 i4 s = Inr (AEER_FAIL, s') \<and> ?I s'"
    proof (rule retry_fails [where I = ?I])
      fix r i4' s1
      assume s1: "?I s1"
      have c: "can_send (an_call e i r) len" by (rule quiet_simps(2) [OF qt])
      obtain s' where s': "u_app_send_msg (an_call e i r) (ah_app s ! i) ty (Some msg) len nfy tag s1 =
          Inr (if length (M i) < n i then AEER_OK else AEER_FAIL, s')" "only_queue (q i) s1 s'"
        "app_queue (ah_app s ! i) (q i) (n i) (z i) s' (if length (M i) < n i then M i @ [app_msg nfy tag ty (take len msg)] else M i)"
        by (rule app_send_only [OF conjunct2 [OF s1] c l])
      have "aee_sys.more s1 = aee_sys.more s" using s1 by (blast intro: only_queue_same(1))
      from f [OF this, of r i4'] have "f r i4' s1 = Inr (False, AEER_FAIL, s')" using s'(1) False by simp
      then show "\<exists>s'. f r i4' s1 = Inr (False, AEER_FAIL, s') \<and> ?I s'"
        using only_queue_trans [OF conjunct1 [OF s1] s'(2)] s'(3) False by auto
    qed (use I in simp_all)
    then obtain s' where s': "retry f 0 i4 s = Inr (AEER_FAIL, s')" "?I s'" by blast
    then show ?thesis using am_queues_put [OF Q i, of s' "M i"] only_queue_same(1) [of "q i" s s'] False by (simp add: put_def put_result_def)
  qed
qed


section \<open>Broadcast\<close>

lemma find_snoc: "find P (xs @ [x]) = (case find P xs of None \<Rightarrow> if P x then Some x else None | Some y \<Rightarrow> Some y)"
  by (induction xs) auto

lemma broadcast_to_started:
  fixes s :: "'v am_sys_scheme"
  assumes "am_queues q n z s M" "started s i" "quiet e len" "len \<le> length msg" "HEADER_SIZE + len \<le> z i"
  shows "\<exists>s'. broadcast_to e ty msg len False i i4 s = Inr (put_result n M i, s') \<and> aee_sys.more s' = aee_sys.more s \<and>
    am_queues q n z s' (M(i := put n (app_msg fn_am_app_nfy_fct NULL ty (take len msg)) M i))"
  unfolding broadcast_to_def
proof (rule retry_send [OF assms(1-5)])
  fix r i4 and s' :: "'v am_sys_scheme"
  assume m: "aee_sys.more s' = aee_sys.more s"
  have "app_handle i s' = Inr (ah_app s ! i)" "ah_app s ! i \<noteq> NULL_HANDLE"
    using started_handle [OF assms(1,2) more_am(4) [OF m]] assms(2) by (simp_all add: started_def)
  then show "(let s = an_others e i r s' in
     then_do (app_handle i s) (\<lambda>h.
       if h \<noteq> NULL_HANDLE then
         then_do (u_app_send_msg (an_call e i r) h ty (Some msg) len fn_am_app_nfy_fct (if False then an_tag e else NULL) s) (\<lambda>(i4, s).
           if i4 = AEER_OK then
             (if False then then_do (wait_sema e (am_bin_sema s) s) (\<lambda>s. Inr (True, i4, s)) else Inr (True, i4, s))
           else Inr (False, i4, s))
       else Inr (False, i4, s))) =
    then_do (u_app_send_msg (an_call e i r) (ah_app s ! i) ty (Some msg) len fn_am_app_nfy_fct NULL s') (\<lambda>(i4, s). Inr (i4 = AEER_OK, i4, s))"
    by (simp add: quiet_simps(1) [OF assms(3)] cong: if_cong) (rule arg_cong [where f = "then_do _"], auto simp: fun_eq_iff)
qed

lemma broadcast_to_stopped:
  assumes "am_wf s" "i < unat (ui4_app_id s)" "\<not> started s i" "quiet e len"
  shows "broadcast_to e ty msg len b i i4 s = Inr (i4, s)"
proof -
  have "app_handle i s = Inr NULL_HANDLE" using assms(1-3) by (auto simp: am_wf_def started_def app_handle_def)
  then have "\<exists>i4' s'. broadcast_to e ty msg len b i i4 s = Inr (i4', s') \<and> i4' = i4 \<and> s' = s"
    unfolding broadcast_to_def by (intro retry_inv) (auto simp: quiet_simps(1) [OF assms(4)])
  then show ?thesis by simp
qed

text \<open>The applications below \<open>j\<close> are still to come.\<close>

lemma broadcast_loop_ok:
  assumes "am_queues q n z s M" "quiet e len" "len \<le> length msg" "\<forall>i. started s i \<longrightarrow> HEADER_SIZE + len \<le> z i" "j \<le> unat (ui4_app_id s)"
  shows "\<exists>s'. broadcast_loop e ty msg len False (unat (ui4_app_id s) - j) i4 s =
      Inr (case find (started s) [0..<j] of None \<Rightarrow> i4 | Some i \<Rightarrow> put_result n M i, s') \<and> aee_sys.more s' = aee_sys.more s \<and>
    am_queues q n z s' (\<lambda>i. if i < j \<and> started s i then put n (app_msg fn_am_app_nfy_fct NULL ty (take len msg)) M i else M i)"
  using assms
proof (induction j arbitrary: s M i4)
  case 0
  then show ?case by (subst broadcast_loop.simps) simp
next
  case (Suc j)
  let ?m = "app_msg fn_am_app_nfy_fct NULL ty (take len msg)" and ?k = "unat (ui4_app_id s)"
  have k: "?k - Suc j < ?k" "?k - (?k - Suc j) - 1 = j" "Suc (?k - Suc j) = ?k - j" using Suc.prems(5) by simp_all
  let ?M = "if started s j then M(j := put n ?m M j) else M" and ?r = "if started s j then put_result n M j else i4"
  have "\<exists>s1. broadcast_to e ty msg len False j i4 s = Inr (?r, s1) \<and> aee_sys.more s1 = aee_sys.more s \<and> am_queues q n z s1 ?M"
  proof (cases "started s j")
    case True
    then show ?thesis using broadcast_to_started [OF Suc.prems(1) True Suc.prems(2,3), of ty i4] Suc.prems(4) by simp
  next
    case False
    then show ?thesis using broadcast_to_stopped [of s j e len ty msg False i4] Suc.prems by (simp add: am_queues_def)
  qed
  then obtain s1 where s1: "broadcast_to e ty msg len False j i4 s = Inr (?r, s1)" "aee_sys.more s1 = aee_sys.more s" "am_queues q n z s1 ?M" by blast
  note F = more_am [OF s1(2)]
  have st: "started s1 = started s" by (rule started_same) (simp_all add: F)
  obtain s' where s': "broadcast_loop e ty msg len False (?k - j) ?r s1 =
      Inr (case find (started s) [0..<j] of None \<Rightarrow> ?r | Some i \<Rightarrow> put_result n ?M i, s')" "aee_sys.more s' = aee_sys.more s1"
    "am_queues q n z s' (\<lambda>i. if i < j \<and> started s i then put n ?m ?M i else ?M i)"
    using Suc.IH [OF s1(3) Suc.prems(2,3), of ?r] Suc.prems(4,5) st F by auto
  have "(\<lambda>i. if i < j \<and> started s i then put n ?m ?M i else ?M i) = (\<lambda>i. if i < Suc j \<and> started s i then put n ?m M i else M i)"
    by (auto simp: fun_eq_iff put_def less_Suc_eq)
  moreover have "(case find (started s) [0..<j] of None \<Rightarrow> ?r | Some i \<Rightarrow> put_result n ?M i) =
      (case find (started s) [0..<Suc j] of None \<Rightarrow> i4 | Some i \<Rightarrow> put_result n M i)"
  proof (cases "find (started s) [0..<j]")
    case None
    then show ?thesis by (simp add: find_snoc)
  next
    case (Some i)
    then have "i < j" using find_upt by blast
    then show ?thesis using Some by (simp add: find_snoc put_result_def)
  qed
  ultimately show ?case using s' s1(1,2) k by (subst broadcast_loop.simps) auto
qed

text \<open>C16 A broadcast reaches every application that has been started and has room, once, and no other; it is reported as
  successful when the last one tried has taken it, the first of those started, whatever happened to the others.\<close>

theorem am_broadcast_delivers:
  assumes "am_queues q n z s M" "quiet e (unat (bm_len m))" "length (bm_msg m) = BROADCAST_MSG_MAX_LEN"
    and "unat (bm_len m) \<le> BROADCAST_MSG_MAX_LEN" "\<forall>i. started s i \<longrightarrow> HEADER_SIZE + unat (bm_len m) \<le> z i"
  shows "\<exists>s'. am_broadcast_msg e (Some (broadcast_bytes m @ r)) False s =
      Inr (case find (started s) [0..<unat (ui4_app_id s)] of None \<Rightarrow> AMR_OK | Some i \<Rightarrow> put_result n M i, s') \<and>
    am_queues q n z s' (\<lambda>i. if started s i then put n (app_msg fn_am_app_nfy_fct NULL (bm_type m) (take (unat (bm_len m)) (bm_msg m))) M i else M i) \<and>
    ah_app s' = ah_app s \<and> as_app_name s' = as_app_name s \<and> ui4_app_id s' = ui4_app_id s"
proof -
  note R = broadcast_bytes_read [OF assms(3)]
  let ?s = "s\<lparr>am_flags := (am_flags s)(an_tag e \<mapsto> False)\<rparr>" and ?len = "unat (bm_len m)" and ?k = "unat (ui4_app_id s)"
  let ?msg = "bm_msg m @ word_bytes ?len @ r"
  have st: "started ?s = started s" by (rule started_same) simp_all
  have t: "take ?len ?msg = take ?len (bm_msg m)" using assms(3,4) by simp
  obtain s1 where s1: "broadcast_loop e (bm_type m) ?msg ?len False 0 AMR_OK ?s =
      Inr (case find (started s) [0..<?k] of None \<Rightarrow> AMR_OK | Some i \<Rightarrow> put_result n M i, s1)" "aee_sys.more s1 = aee_sys.more ?s"
    "am_queues q n z s1 (\<lambda>i. if i < ?k \<and> started s i then put n (app_msg fn_am_app_nfy_fct NULL (bm_type m) (take ?len (bm_msg m))) M i else M i)"
    using broadcast_loop_ok [of q n z ?s M e ?len ?msg ?k "bm_type m" AMR_OK, unfolded st t] assms by auto
  have M: "(\<lambda>i. if i < ?k \<and> started s i then f i else M i) = (\<lambda>i. if started s i then f i else M i)" for f
    by (auto simp: fun_eq_iff started_def)
  let ?s' = "s1\<lparr>am_flags := (am_flags s1)(an_tag e := None)\<rparr>"
  have "am_broadcast_msg e (Some (broadcast_bytes m @ r)) False s =
      Inr (case find (started s) [0..<?k] of None \<Rightarrow> AMR_OK | Some i \<Rightarrow> put_result n M i, ?s')"
  proof (cases "ui4_app_id s = 0")
    case True
    then have "s1 = ?s" using s1(1) by (subst (asm) broadcast_loop.simps) simp
    then show ?thesis using True by (simp add: am_broadcast_msg_def with_flag_def)
  next
    case False
    then show ?thesis using s1(1) R by (simp add: am_broadcast_msg_def with_flag_def put_result_def split: option.split)
  qed
  moreover have "am_queues q n z ?s' (\<lambda>i. if started s i then put n (app_msg fn_am_app_nfy_fct NULL (bm_type m) (take ?len (bm_msg m))) M i else M i)"
    using s1(3) unfolding M by simp
  moreover note more_am(4-6) [OF s1(2)]
  ultimately show ?thesis by (intro exI [of _ ?s']) simp
qed


section \<open>Dispatch\<close>

text \<open>A dispatched message goes to the first application of the name that has been started, and to no other.\<close>

theorem am_dispatch_reaches:
  assumes "am_queues q n z s M" "quiet e (unat (dm_len m))" "length (dm_msg m) = DISPATCH_MSG_MAX_LEN" "dm_name m < 2 ^ 32"
    and "unat (dm_len m) \<le> DISPATCH_MSG_MAX_LEN" "am_strs s (dm_name m) = Some nm" "nm \<noteq> APP_MNGR_NAME"
    and "\<forall>i. started s i \<longrightarrow> HEADER_SIZE + unat (dm_len m) \<le> z i"
  shows "case find (\<lambda>i. started s i \<and> as_app_name s ! i = nm) [0..<unat (ui4_app_id s)] of
      None \<Rightarrow> am_dispatch_msg e (Some (dispatch_bytes m @ r)) s = Inr (AMR_FAIL, s)
    | Some i \<Rightarrow> \<exists>s'. am_dispatch_msg e (Some (dispatch_bytes m @ r)) s = Inr (put_result n M i, s') \<and>
        am_queues q n z s' (M(i := put n (app_msg fn_am_app_nfy_fct NULL (dm_type m) (take (unat (dm_len m)) (dm_msg m))) M i)) \<and>
        aee_sys.more s' = aee_sys.more s"
proof -
  note R = dispatch_bytes_read [OF assms(3,4)]
  let ?F = "find (\<lambda>i. started s i \<and> as_app_name s ! i = nm) [0..<unat (ui4_app_id s)]"
  let ?len = "unat (dm_len m)" let ?msg = "dm_msg m @ word_bytes ?len @ r"
  have f: "find (\<lambda>i. ah_app s ! i \<noteq> NULL_HANDLE \<and> as_app_name s ! i = nm) [0..<unat (ui4_app_id s)] = ?F"
    by (rule find_cong) (auto simp: started_def)
  have "am_wf s" using assms(1) by (simp add: am_queues_def)
  from started_app_eq [OF this, of nm] have F: "started_app (Inr nm) s = Inr ?F" unfolding f .
  have D: "am_dispatch_msg e (Some (dispatch_bytes m @ r)) s = (case ?F of None \<Rightarrow> Inr (AMR_FAIL, s)
    | Some i \<Rightarrow> then_do (dispatch_to e (Some i) (dm_type m) ?msg ?len s) (\<lambda>(i4, s). Inr (if i4 = AEER_OK then AMR_OK else AMR_FAIL, s)))"
    using R F assms(6,7) by (simp add: am_dispatch_msg_def str_at_def split: option.split)
  show ?thesis
  proof (cases ?F)
    case None
    then show ?thesis using D by simp
  next
    case (Some i)
    then have i: "started s i" using find_upt(2) by blast
    have h: "app_handle i s' = Inr (ah_app s ! i)" if "aee_sys.more s' = aee_sys.more s" for s'
      by (rule started_handle [OF assms(1) i more_am(4) [OF that]])
    have t: "take ?len ?msg = take ?len (dm_msg m)" using assms(3,5) by simp
    have l: "?len \<le> length ?msg" "HEADER_SIZE + ?len \<le> z i" using assms(3,5,8) i by simp_all
    have "\<exists>s'. dispatch_to e (Some i) (dm_type m) ?msg ?len s = Inr (put_result n M i, s') \<and> aee_sys.more s' = aee_sys.more s \<and>
        am_queues q n z s' (M(i := put n (app_msg fn_am_app_nfy_fct NULL (dm_type m) (take ?len (dm_msg m))) M i))"
      unfolding dispatch_to_def Let_def option.case quiet_simps(1) [OF assms(2)]
      by (rule retry_send [OF assms(1) i assms(2) l, unfolded t]) (simp add: h)
    then obtain s' where s': "dispatch_to e (Some i) (dm_type m) ?msg ?len s = Inr (put_result n M i, s')" "aee_sys.more s' = aee_sys.more s"
      "am_queues q n z s' (M(i := put n (app_msg fn_am_app_nfy_fct NULL (dm_type m) (take ?len (dm_msg m))) M i))" by blast
    have "am_dispatch_msg e (Some (dispatch_bytes m @ r)) s = Inr (put_result n M i, s')"
      unfolding D Some option.case s'(1) by (simp add: put_result_def)
    then show ?thesis using s'(2,3) unfolding Some option.case by blast
  qed
qed

end
