(* ===== verification/AeeKeep.thy ===== *)
theory AeeKeep
  imports AppExit
begin

text \<open>A module that keeps its own state beside that of the execution environment finds it as it was after every call,
  as far as the callbacks of the modules keep it.\<close>

section \<open>The handle library\<close>

named_theorems same_rest \<open>what leaves the rest of the state as it is\<close>

lemma hlib_rest [same_rest]:
  "hlib.more (unlink_aux a i s) = hlib.more s" "hlib.more (count_unused i s) = hlib.more s" "hlib.more (put_free i s) = hlib.more s"
  "hlib.more (count_used ty s) = hlib.more s" "hlib.more (count_peak s) = hlib.more s" "hlib.more (link_aux_head a i s) = hlib.more s"
  by (simp_all add: unlink_aux_def count_unused_def put_free_def count_used_def count_peak_def link_aux_head_def
      set_h_next_def set_h_prev_def set_aux_next_def set_aux_prev_def set_flags_def Let_def)

lemma init_loop_rest: "init_loop b i s = Some s' \<Longrightarrow> hlib.more s' = hlib.more s"
proof (rule init_loop.raw_induct [where P = "\<lambda>b i s s'. hlib.more s' = hlib.more s"], goal_cases)
  case (1 f b i s s')
  then show ?case by (fastforce simp: init_slot_def split: if_splits)
qed simp

lemma realloc_handle_rest: "realloc_handle ra n s = Inr (r, s') \<Longrightarrow> hlib.more s' = hlib.more s"
  by (auto simp: realloc_handle_def realloc_handle_init_def run_init_loop_def then_do_Inr Let_def dest!: init_loop_rest
      split: if_splits option.splits)

lemma u_handle_alloc_rest: "u_handle_alloc ra ty obj tag fre ph s = Inr (r, h, s') \<Longrightarrow> hlib.more s' = hlib.more s"
  by (auto simp: u_handle_alloc_def Let_def then_do_Inr same_rest dest!: realloc_handle_rest split: if_splits option.splits)

lemma u_handle_alloc_aux_rest: "u_handle_alloc_aux_link_head ra obj f ph s = Inr (r, h, s') \<Longrightarrow> hlib.more s' = hlib.more s"
  by (auto simp: u_handle_alloc_aux_link_head_def Let_def then_do_Inr dest!: u_handle_alloc_rest split: if_splits option.splits)

lemma u_handle_link_to_aux_rest: "u_handle_link_to_aux ha h s = (r, s') \<Longrightarrow> hlib.more s' = hlib.more s"
  by (auto simp: u_handle_link_to_aux_def Let_def same_rest split: if_splits option.splits)

lemma u_handle_get_type_obj_rest: "u_handle_get_type_obj h pe po s = (r, x, s') \<Longrightarrow> hlib.more s' = hlib.more s"
  by (auto simp: u_handle_get_type_obj_def Let_def split: if_splits option.splits)

lemma next_aux_rest: "hlib.more (snd (next_aux h s)) = hlib.more s"
  by (auto simp: next_aux_def u_handle_next_aux_linked_def Let_def split: option.splits)

section \<open>Freeing\<close>

abbreviation (input) kept :: "('w \<Rightarrow> bool) \<Rightarrow> 'w aee_sys_scheme \<Rightarrow> bool" where
  "kept P s \<equiv> P (aee_sys.more s)"

text \<open>Callbacks of the handle library and of its clients that keep \<open>P\<close>.\<close>

definition free_keeps :: "('w \<Rightarrow> bool) \<Rightarrow> (fptr \<Rightarrow> handle \<Rightarrow> u16 \<Rightarrow> ptr \<Rightarrow> ptr \<Rightarrow> bool \<Rightarrow> 'w aee_sys_scheme \<Rightarrow> (bool \<times> 'w aee_sys_scheme) result) \<Rightarrow> bool" where
  "free_keeps P cb \<longleftrightarrow> (\<forall>f h ty obj tag req s b s'. cb f h ty obj tag req s = Inr (b, s') \<longrightarrow> kept P s \<longrightarrow> kept P s')"

definition aux_keeps :: "('w \<Rightarrow> bool) \<Rightarrow> (fptr \<Rightarrow> ptr \<Rightarrow> 'w aee_sys_scheme \<Rightarrow> 'w aee_sys_scheme result) \<Rightarrow> bool" where
  "aux_keeps P cb \<longleftrightarrow> (\<forall>f obj s s'. cb f obj s = Inr s' \<longrightarrow> kept P s \<longrightarrow> kept P s')"

definition auto_keeps :: "('w \<Rightarrow> bool) \<Rightarrow> (fptr \<Rightarrow> handle \<Rightarrow> u16 \<Rightarrow> 'w aee_sys_scheme \<Rightarrow> (int \<times> 'w aee_sys_scheme) result) \<Rightarrow> bool" where
  "auto_keeps P cb \<longleftrightarrow> (\<forall>f h ty s r s'. cb f h ty s = Inr (r, s') \<longrightarrow> kept P s \<longrightarrow> kept P s')"

definition cbs_keep :: "('w \<Rightarrow> bool) \<Rightarrow> 'w callbacks \<Rightarrow> bool" where
  "cbs_keep P cbs \<longleftrightarrow> free_keeps P (other_free cbs) \<and> aux_keeps P (other_aux_free cbs) \<and> auto_keeps P (other_auto cbs)"

lemma rest_kept: "hlib.more s' = hlib.more s \<Longrightarrow> kept P s' = kept P s"
  using more_aee(7) [of s' s] by simp

lemma delink_from_aux_kept:
  "delink_from_aux acb i s = Inr s' \<Longrightarrow> aux_keeps P acb \<Longrightarrow> kept P s \<Longrightarrow> kept P s'"
proof -
  assume a: "delink_from_aux acb i s = Inr s'" "aux_keeps P acb" "kept P s"
  then obtain s1 where s1: "s' = unlink_aux (ui2_aux_link_head (ctrl s i)) i s1" "s1 = s \<or> (\<exists>f obj. acb f obj s = Inr s1)"
    by (auto simp: delink_from_aux_def Let_def then_do_Inr split: if_splits)
  then have "kept P s1" using a by (auto simp: aux_keeps_def)
  then show "kept P s'" using rest_kept [of s' s1 P] s1(1) by (simp add: same_rest)
qed

lemma release_ctrl_kept:
  "release_ctrl acb i s = Inr s' \<Longrightarrow> aux_keeps P acb \<Longrightarrow> kept P s \<Longrightarrow> kept P s'"
proof -
  assume a: "release_ctrl acb i s = Inr s'" "aux_keeps P acb" "kept P s"
  have c: "kept P (crit_start s)" using a(3) rest_kept [of "crit_start s" s P] by simp
  obtain s1 where s1: "s' = put_free i s1" "s1 = crit_start s \<or> delink_from_aux acb i (crit_start s) = Inr s1"
    using a(1) by (auto simp: release_ctrl_def Let_def then_do_Inr split: if_splits)
  then have "kept P s1" using delink_from_aux_kept [OF _ a(2) c] c by auto
  then show "kept P s'" using rest_kept [of s' s1 P] s1(1) by (simp add: same_rest)
qed

lemma call_free_kept: "call_free cb f h ty obj tag req s = Inr (b, s') \<Longrightarrow> free_keeps P cb \<Longrightarrow> kept P s \<Longrightarrow> kept P s'"
proof (cases "f = fn_aux_link_head_free")
  case True
  assume a: "call_free cb f h ty obj tag req s = Inr (b, s')" "kept P s"
  then have "hlib.more s' = hlib.more s"
    using True by (auto simp: call_free_def aux_link_head_free_def Let_def split: if_splits option.splits)
  then show ?thesis using a(2) rest_kept by blast
qed (auto simp: call_free_def free_keeps_def)

lemma u_handle_free_kept:
  assumes "u_handle_free cb acb h req s = Inr (r, s')" "free_keeps P cb" "aux_keeps P acb" "kept P s"
  shows "kept P s'"
proof (cases "hlib.more s' = hlib.more s")
  case True
  then show ?thesis using assms(4) rest_kept by blast
next
  case False
  obtain i s1 b s2 where s1: "hlib.more s1 = hlib.more s" "call_free cb (pf_free (ctrl s1 i)) h (e_type (ctrl s1 i)) (pv_obj (ctrl s1 i)) (u_ptr (ctrl s1 i)) req s1 = Inr (b, s2)"
    and s2: "if b then \<exists>s3. release_ctrl acb i s2 = Inr s3 \<and> s' = crit_end s3 else hlib.more s' = hlib.more s2"
  proof -
    obtain i where i: "get_h_ctrl_from_handle (crit_start s) h = Some i"
      using assms(1) False by (auto simp: u_handle_free_def Let_def split: if_splits option.splits)
    let ?s1 = "crit_end (set_flags i (fset H_CTRL_FLAG_FREEING) (crit_start s))"
    have c: "u_ptr (ctrl ?s1 i) = u_ptr (ctrl (crit_start s) i)" "pv_obj (ctrl ?s1 i) = pv_obj (ctrl (crit_start s) i)"
      by (simp_all add: set_flags_def ctrl_upd_ctrl ctrl_def crit_end_def crit_start_def upd_ctrl_def)
    obtain b s2 where "call_free cb (pf_free (ctrl ?s1 i)) h (e_type (ctrl ?s1 i)) (pv_obj (ctrl ?s1 i)) (u_ptr (ctrl ?s1 i)) req ?s1 = Inr (b, s2)"
      "if b then \<exists>s3. release_ctrl acb i s2 = Inr s3 \<and> s' = crit_end s3 else hlib.more s' = hlib.more s2"
      using assms(1) False i unfolding c by (auto simp: u_handle_free_def hold_def Let_def then_do_Inr split: if_splits)
    then show thesis by (rule that [rotated]) simp
  qed
  have k1: "kept P s1" using assms(4) s1(1) rest_kept by blast
  have k2: "kept P s2" by (rule call_free_kept [OF s1(2) assms(2) k1])
  show ?thesis
  proof (cases b)
    case True
    then obtain s3 where s3: "release_ctrl acb i s2 = Inr s3" "s' = crit_end s3" using s2 by auto
    have "kept P s3" by (rule release_ctrl_kept [OF s3(1) assms(3) k2])
    then show ?thesis using s3(2) rest_kept [of s' s3 P] by simp
  next
    case False
    then show ?thesis using s2 k2 rest_kept [of s' s2 P] by simp
  qed
qed

lemma u_handle_delink_from_aux_kept:
  "u_handle_delink_from_aux acb h s = Inr (r, s') \<Longrightarrow> aux_keeps P acb \<Longrightarrow> kept P s \<Longrightarrow> kept P s'"
proof (cases "hlib.more s' = hlib.more s")
  case False
  assume a: "u_handle_delink_from_aux acb h s = Inr (r, s')" "aux_keeps P acb" "kept P s"
  then obtain i s1 where s1: "delink_from_aux acb i (crit_start s) = Inr s1" "s' = crit_end s1"
    using False by (auto simp: u_handle_delink_from_aux_def Let_def then_do_Inr split: if_splits option.splits)
  have "kept P (crit_start s)" using a(3) rest_kept [of "crit_start s" s P] by simp
  from delink_from_aux_kept [OF s1(1) a(2) this] show ?thesis using s1(2) rest_kept [of s' s1 P] by simp
qed (use rest_kept in blast)

lemma u_handle_autofree_kept:
  assumes "u_handle_autofree fcb tbl h s = Inr s'" "auto_keeps P fcb" "kept P s"
  shows "kept P s'"
proof -
  obtain r out s1 where g: "u_handle_get_type_obj h True True s = (r, out, s1)" by (metis prod_cases3)
  have k: "kept P s1" using assms(3) u_handle_get_type_obj_rest [OF g] rest_kept by blast
  have "s' = s1 \<or> (\<exists>f ty r. fcb f h ty s1 = Inr (r, s'))"
    using assms(1) unfolding u_handle_autofree_def g by (auto simp: Let_def then_do_Inr split: if_splits)
  then show ?thesis using assms(2) k unfolding auto_keeps_def by blast
qed

lemma callbacks_keep:
  assumes "cbs_keep P cbs"
  shows "free_keeps P (inner_free cbs)" "aux_keeps P (aux_free cbs)" "auto_keeps P (autofree cbs)"
proof -
  show f: "free_keeps P (inner_free cbs)"
    using assms by (auto simp: cbs_keep_def free_keeps_def inner_free_def aee_free_secondary_handle_def split: if_splits)
  show a: "aux_keeps P (aux_free cbs)"
    using assms by (auto simp: cbs_keep_def aux_keeps_def aux_free_def aee_aux_free_release_handle_def split: if_splits)
  show "auto_keeps P (autofree cbs)"
    using assms u_handle_free_kept [OF _ f a]
    by (auto simp: cbs_keep_def auto_keeps_def autofree_def aee_primary_handle_autofree_def aee_secondary_handle_autofree_def split: if_splits)
qed

lemma free_aux_loop_kept:
  assumes "free_aux_loop cbs h s = Some r" "cbs_keep P cbs"
  shows "r = Inr s' \<longrightarrow> kept P s \<longrightarrow> kept P s'"
  using assms(1)
proof (rule free_aux_loop.raw_induct [where P = "\<lambda>cbs h s r. cbs_keep P cbs \<longrightarrow> (\<forall>s'. r = Inr s' \<longrightarrow> kept P s \<longrightarrow> kept P s')", THEN mp, THEN spec, rotated])
  fix f cbs h s r
  assume IH: "\<And>cbs h s r. f cbs h s = Some r \<Longrightarrow> cbs_keep P cbs \<longrightarrow> (\<forall>s'. r = Inr s' \<longrightarrow> kept P s \<longrightarrow> kept P s')"
    and r: "(if h = NULL_HANDLE then Some (Inr s) else let n = next_aux h s in
       case then_do (u_handle_delink_from_aux (aux_free cbs) h (snd n)) (\<lambda>(r, s). u_handle_autofree (autofree cbs) (autofree_tbl cbs) h s) of
         Inl e \<Rightarrow> Some (Inl e) | Inr s' \<Rightarrow> f cbs (fst n) s') = Some r"
  show "cbs_keep P cbs \<longrightarrow> (\<forall>s'. r = Inr s' \<longrightarrow> kept P s \<longrightarrow> kept P s')"
  proof (intro impI allI)
    fix s' assume c: "cbs_keep P cbs" and s': "r = Inr s'" and k: "kept P s"
    show "kept P s'"
    proof (cases "h = NULL_HANDLE")
      case True then show ?thesis using r s' k by simp
    next
      case False
      let ?n = "next_aux h s"
      obtain s2 where s2: "then_do (u_handle_delink_from_aux (aux_free cbs) h (snd ?n)) (\<lambda>(r, s). u_handle_autofree (autofree cbs) (autofree_tbl cbs) h s) = Inr s2"
        "f cbs (fst ?n) s2 = Some r"
        using r False s' by (auto simp: Let_def split: sum.splits)
      obtain q s1 where s1: "u_handle_delink_from_aux (aux_free cbs) h (snd ?n) = Inr (q, s1)"
        "u_handle_autofree (autofree cbs) (autofree_tbl cbs) h s1 = Inr s2"
        using s2(1) by (auto simp: then_do_Inr)
      have "kept P (snd ?n)" using k next_aux_rest [of h s] rest_kept by blast
      then have "kept P s1" by (rule u_handle_delink_from_aux_kept [OF s1(1) callbacks_keep(2) [OF c]])
      then have "kept P s2" by (rule u_handle_autofree_kept [OF s1(2) callbacks_keep(3) [OF c]])
      then show ?thesis using IH [OF s2(2)] c s' by blast
    qed
  qed
qed (use assms(2) in simp_all)

section \<open>Applications\<close>

lemma clean_loop_rest: "clean_loop h p s = Some r \<Longrightarrow> r = Inr s' \<Longrightarrow> aee_sys.more s' = aee_sys.more s"
proof (rule clean_loop.raw_induct [where P = "\<lambda>h p s r. \<forall>s'. r = Inr s' \<longrightarrow> aee_sys.more s' = aee_sys.more s", THEN spec, THEN mp, rotated], goal_cases)
  case (3 f h p s r)
  show ?case
  proof (intro allI impI)
    fix s' assume s': "r = Inr s'"
    show "aee_sys.more s' = aee_sys.more s"
      using 3(4) s' 3(3) by (fastforce simp: upd_aee_def split: if_splits option.splits)
  qed
qed auto

lemma aee_clean_relationships_rest: "aee_clean_relationships h p s = Inr s' \<Longrightarrow> aee_sys.more s' = aee_sys.more s"
  by (auto simp: aee_clean_relationships_def run_loop_def dest!: clean_loop_rest split: option.splits if_splits)

lemma aee_free_handle_kept:
  assumes "aee_free_handle cbs h ty obj tag req s = Inr (b, s')" "cbs_keep P cbs" "kept P s"
  shows "kept P s'"
proof (cases req)
  case True
  then show ?thesis using assms by (simp add: aee_free_handle_def)
next
  case False
  then obtain a s1 r s2 s3 where a: "aee_objs s obj = Some a"
    and s1: "run_loop (free_aux_loop cbs (fst (next_aux (ae_aux a) s)) (snd (next_aux (ae_aux a) s))) = Inr s1"
    and s2: "u_handle_free (inner_free cbs) (aux_free cbs) (ae_aux a) False s1 = Inr (r, s2)"
    and s3: "aee_clean_relationships h obj s2 = Inr s3" "s' = s3\<lparr>aee_objs := (aee_objs s3)(obj := None)\<rparr>"
    using assms(1) by (auto simp: aee_free_handle_def then_do_Inr split: option.splits prod.splits)
  have "kept P (snd (next_aux (ae_aux a) s))" using assms(3) next_aux_rest rest_kept by blast
  then have "kept P s1"
    using s1 free_aux_loop_kept [OF _ assms(2)] by (auto simp: run_loop_def split: option.splits)
  then have "kept P s2" by (rule u_handle_free_kept [OF s2 callbacks_keep(1,2) [OF assms(2)]])
  then show ?thesis using aee_clean_relationships_rest [OF s3(1)] s3(2) by simp
qed

lemma handle_free_kept:
  assumes "handle_free cbs h req s = Inr (r, s')" "cbs_keep P cbs" "kept P s"
  shows "kept P s'"
proof -
  have "free_keeps P (free_cb cbs)"
    using callbacks_keep(1) [OF assms(2)] aee_free_handle_kept [OF _ assms(2)] by (auto simp: free_keeps_def free_cb_def split: if_splits)
  from u_handle_free_kept [OF assms(1) [unfolded handle_free_def] this callbacks_keep(2) [OF assms(2)] assms(3)] show ?thesis .
qed

lemma fail_with_kept: "fail_with cbs r h s = Inr (r', h', s') \<Longrightarrow> cbs_keep P cbs \<Longrightarrow> kept P s \<Longrightarrow> kept P s'"
  by (auto simp: fail_with_def then_do_Inr dest: handle_free_kept)

lemma create_thread_kept:
  assumes "create_thread cbs e d nm h pv s = Inr (r, h', s')" "cbs_keep P cbs" "kept P s"
  shows "kept P s'"
proof -
  obtain a ph r1 t1 th where a: "aee_objs s (ev_aee e) = Some a"
    and s': "(if r1 = OSR_OK then Inr (AEER_OK, Some h, upd_aee (ev_aee e) (a\<lparr>ae_parent_app := ph, ae_thread := t1\<rparr>)
        ((upd_aee (ev_aee e) (a\<lparr>ae_parent_app := ph\<rparr>) s)\<lparr>aee_thr := th\<rparr>))
      else fail_with cbs AEER_FAIL h ((upd_aee (ev_aee e) (a\<lparr>ae_parent_app := ph\<rparr>) s)\<lparr>aee_thr := th\<rparr>)) = Inr (r, h', s')"
    using assms(1) unfolding create_thread_def then_do_Inr Let_def by (elim exE conjE) (auto simp: then_do_Inr split: option.splits)
  have k: "kept P ((upd_aee (ev_aee e) (a\<lparr>ae_parent_app := ph\<rparr>) s)\<lparr>aee_thr := th\<rparr>)" using assms(3) by simp
  show ?thesis
  proof (cases "r1 = OSR_OK")
    case True
    then show ?thesis using s' assms(3) by auto
  next
    case False
    then show ?thesis using s' fail_with_kept [OF _ assms(2) k] by simp
  qed
qed

lemma aee_create_op_kept:
  assumes "aee_create_op cbs e d nm s = Inr (r, h, s')" "cbs_keep P cbs" "kept P s"
  shows "kept P s'"
proof (cases "aee_sys.more s' = aee_sys.more s")
  case False
  let ?s0 = "upd_aee (ev_aee e) (new_aee d nm) s"
  have nz: "ev_aee e \<noteq> NULL" using assms(1) False by (cases "ev_aee e = NULL") (simp_all add: aee_create_op_def)
  obtain r1 h1 s1 where s1: "u_handle_alloc (ev_realloc e) AEET_PRIMARY_AEE (ev_aee e) NULL fn_aee_free_handle True ?s0 = Inr (r1, h1, s1)"
    using assms(1) nz by (auto simp: aee_create_op_def Let_def then_do_Inr)
  have m1: "aee_sys.more s1 = aee_sys.more s" using more_aee(7) [OF u_handle_alloc_rest [OF s1]] by simp
  then have ok: "r1 = HR_OK" "h1 \<noteq> None" using assms(1) nz s1 False by (auto simp: aee_create_op_def Let_def split: if_splits)
  obtain r2 ha s2 where s2: "u_handle_alloc_aux_link_head (ev_realloc e) (ev_aee e) fn_aee_aux_free_release_handle True s1 = Inr (r2, ha, s2)"
    using assms(1) nz s1 ok by (auto simp: aee_create_op_def Let_def then_do_Inr)
  have m2: "aee_sys.more s2 = aee_sys.more s" using more_aee(7) [OF u_handle_alloc_aux_rest [OF s2]] m1 by simp
  let ?s3 = "case (ha, aee_objs s2 (ev_aee e)) of (Some x, Some a) \<Rightarrow> upd_aee (ev_aee e) (a\<lparr>ae_aux := x\<rparr>) s2 | _ \<Rightarrow> s2"
  let ?s4 = "case aee_objs ?s3 (ev_aee e) of Some a \<Rightarrow> upd_aee (ev_aee e) (a\<lparr>ae_app := the h1\<rparr>) ?s3 | _ \<Rightarrow> ?s3"
  have m3: "aee_sys.more ?s3 = aee_sys.more s" using m2 by (simp split: option.splits)
  have m4: "aee_sys.more ?s4 = aee_sys.more s" using m3 by (simp split: option.splits)
  obtain s3 s4 where c: "aee_create_op cbs e d nm s =
      (if r2 \<noteq> HR_OK then fail_with cbs AEER_OUT_OF_HANDLES (the h1) s3
       else case ds_arg d of
               None \<Rightarrow> create_thread cbs e d nm (the h1) NULL s4
             | Some bs \<Rightarrow>
               if ev_arg e = NULL then fail_with cbs AEER_FAIL (the h1) s4
               else create_thread cbs e d nm (the h1) (ev_arg e) (s4\<lparr>aee_bufs := (aee_bufs s4)(ev_arg e \<mapsto> bs)\<rparr>))"
    and m: "aee_sys.more s3 = aee_sys.more s" "aee_sys.more s4 = aee_sys.more s"
    by (rule that [OF _ m3 m4]) (unfold aee_create_op_def Let_def, use nz ok in \<open>simp only: s1 s2 then_do_simps prod.case if_False simp_thms\<close>)
  have k: "kept P s3" "kept P s4" "kept P (s4\<lparr>aee_bufs := b\<rparr>)" for b using m assms(3) by simp_all
  show ?thesis
    using assms(1) unfolding c
    by (auto split: if_splits option.splits dest: fail_with_kept [OF _ assms(2) k(1)] fail_with_kept [OF _ assms(2) k(2)]
      create_thread_kept [OF _ assms(2) k(2)] create_thread_kept [OF _ assms(2) k(3)])
qed (use assms(3) in simp)

lemma u_aee_create_kept: "u_aee_create cbs e pd nm ph s = Inr (r, h, s') \<Longrightarrow> cbs_keep P cbs \<Longrightarrow> kept P s \<Longrightarrow> kept P s'"
  by (auto simp: u_aee_create_def dest: aee_create_op_kept split: option.splits if_splits)

lemma with_aee_rest:
  assumes "with_aee h s no f = Inr (r, s')" "\<And>p a s1 r s2. f p a s1 = Inr (r, s2) \<Longrightarrow> aee_sys.more s2 = aee_sys.more s1"
  shows "aee_sys.more s' = aee_sys.more s"
proof -
  obtain p s1 where g: "aee_of h s = (p, s1)" by (metis prod.exhaust)
  have "hlib.more s1 = hlib.more s"
    using g by (auto simp: aee_of_def dest!: u_handle_get_type_obj_rest split: prod.splits option.splits)
  then have "aee_sys.more s1 = aee_sys.more s" by (rule more_aee(7))
  then show ?thesis using assms(1) g assms(2) by (auto simp: with_aee_def split: option.splits)
qed

lemma aee_get_msg_queue_rest: "aee_get_msg_queue h s = Inr (x, s') \<Longrightarrow> aee_sys.more s' = aee_sys.more s"
  unfolding aee_get_msg_queue_def by (erule with_aee_rest) simp

lemma aee_set_msg_queue_rest: "aee_set_msg_queue h q s = Inr (x, s') \<Longrightarrow> aee_sys.more s' = aee_sys.more s"
  unfolding aee_set_msg_queue_def by (erule with_aee_rest) auto

lemma appman_send_msg_rest: "appman_send_msg e h hdr s = Inr (r, s') \<Longrightarrow> aee_sys.more s' = aee_sys.more s"
  by (auto simp: appman_send_msg_def then_do_Inr dest!: aee_get_msg_queue_rest split: if_splits)

lemma u_app_exit_rest: "u_app_exit e h m f tag s = Inr (r, s') \<Longrightarrow> aee_sys.more s' = aee_sys.more s"
  unfolding u_app_exit_def by (rule appman_send_msg_rest)

lemma msg_q_send_2_parts_rest: "msg_q_send_2_parts e q p1 z1 p2 z2 s = Inr (r, s') \<Longrightarrow> aee_sys.more s' = aee_sys.more s"
  by (auto simp: msg_q_send_2_parts_def Let_def then_do_Inr split: if_splits prod.splits)

lemma u_app_send_msg_rest: "u_app_send_msg e h ty pv len f tag s = Inr (r, s') \<Longrightarrow> aee_sys.more s' = aee_sys.more s"
  by (auto simp: u_app_send_msg_def Let_def then_do_Inr dest!: aee_get_msg_queue_rest msg_q_send_2_parts_rest split: if_splits)

lemma free_buf_rest: "free_buf p s = Inr s' \<Longrightarrow> aee_sys.more s' = aee_sys.more s"
  by (auto simp: free_buf_def split: if_splits option.splits)

lemma app_start_op_kept:
  assumes "app_start_op cbs e pf pd nm nfy tag ph s = Inr (r, h, s')" "cbs_keep P cbs" "kept P s"
  shows "kept P s'"
proof (cases "aee_sys.more s' = aee_sys.more s")
  case False
  obtain f d n where fd: "pf = Some f" "pd = Some d" "nm = Some n"
    using assms(1) False by (auto simp: app_start_op_def split: option.splits)
  let ?z = "HEADER_SIZE + unat (ad_max_msg_size d)"
  have a: "\<not> (\<not> ph \<or> pf_init f = NULL \<or> pf_exit f = NULL \<or> pf_process_msg f = NULL \<or> ad_msg_count d = 0)" "ev_buf e \<noteq> NULL"
    using assms(1) False by (cases "ev_buf e = NULL"; auto simp: app_start_op_def fd split: if_splits)+
  obtain r1 q qs where q: "x_msg_q_create 4 (ev_queue e) True (Some n) ?z (ad_msg_count d) (aee_qs s) = Inr (r1, q, qs)"
    using assms(1) a by (auto simp: app_start_op_def fd Let_def then_do_Inr)
  let ?s2 = "s\<lparr>aee_qs := qs, aee_bufs := (aee_bufs s)(ev_buf e \<mapsto> map (\<lambda>i. of_nat (ev_junk e i)) [0..<?z])\<rparr>"
  let ?create = "u_aee_create cbs e (Some (app_aee_desc d (app_start_arg f d n q (ev_buf e)))) (Some n) True ?s2"
  have r1: "r1 = OSR_OK" using assms(1) a q False by (auto simp: app_start_op_def fd Let_def split: if_splits)
  obtain r2 h2 s3 where c: "?create = Inr (r2, h2, s3)"
    and rest: "(if r2 = AEER_OK then
         then_do (aee_set_msg_queue (the h2) q s3) (\<lambda>(_, s).
         then_do (appman_send_msg e (the h2) (app_header APPMAN_MSG_INIT nfy tag (ev_junk e 1) (ev_junk e 2)) s) (\<lambda>(r, s). Inr (r, h2, s)))
       else then_do (free_buf (ev_buf e) s3) (\<lambda>s. then_do (x_msg_q_delete (ev_destroy e) q (aee_qs s)) (\<lambda>(_, qs). Inr (AEER_FAIL, h2, s\<lparr>aee_qs := qs\<rparr>))))
       = Inr (r, h, s')"
    using assms(1) a q r1 by (auto simp: app_start_op_def fd Let_def then_do_Inr)
  have k3: "kept P s3" by (rule u_aee_create_kept [OF c assms(2)]) (use assms(3) in simp)
  have "aee_sys.more s' = aee_sys.more s3"
    using rest by (auto simp: then_do_Inr dest!: aee_set_msg_queue_rest appman_send_msg_rest free_buf_rest split: if_splits)
  then show ?thesis using k3 by simp
qed (use assms(3) in simp)

lemma u_app_start_kept:
  assumes "u_app_start cbs e pf pd nm nfy tag ph s = Inr (r, h, s')" "cbs_keep P cbs" "kept P s"
  shows "kept P s'"
proof -
  obtain s1 where s1: "app_start_op cbs e pf pd nm nfy tag ph s = Inr (r, h, s1)" "hlib.more s' = hlib.more s1"
    using assms(1) by (auto simp: u_app_start_def then_do_Inr dest: u_handle_link_to_aux_rest split: if_splits prod.splits)
  have "kept P s1" by (rule app_start_op_kept [OF s1(1) assms(2,3)])
  then show ?thesis using rest_kept [OF s1(2), of P] by simp
qed

end
