(* ===== verification/AmWf.thy ===== *)
theory AmWf
  imports AmInv AeeKeep
begin

text \<open>The arrays of the application manager keep their sizes and stay within their bounds, whatever requests come.\<close>

text \<open>The part of the state that is the manager's own.\<close>

definition am_part_wf :: "'v am_sys_ext \<Rightarrow> bool" where
  "am_part_wf w \<longleftrightarrow> (\<exists>s. aee_sys.more s = w \<and> am_wf s)"

lemma am_wf_more: "aee_sys.more s' = aee_sys.more s \<Longrightarrow> am_wf s' = am_wf s"
  by (simp add: am_wf_def more_am [of s' s])

lemma part_wf: "am_part_wf (aee_sys.more s) = am_wf s"
  by (auto simp: am_part_wf_def dest: am_wf_more)

text \<open>Other threads, and the callbacks of other modules, do not spoil the arrays.\<close>

definition env_keeps :: "'v am_sys_ext am_env \<Rightarrow> bool" where
  "env_keeps e \<longleftrightarrow> cbs_keep am_part_wf (an_cbs e) \<and> (\<forall>i r s. am_wf s \<longrightarrow> am_wf (an_others e i r s)) \<and>
     (\<forall>p s. am_wf s \<longrightarrow> am_wf (an_wait e p s))"

lemma am_wf_upds [simp]:
  "am_wf (s\<lparr>am_flags := f\<rparr>) = am_wf s" "am_wf (s\<lparr>am_semas := g\<rparr>) = am_wf s" "am_wf (s\<lparr>h_am := h\<rparr>) = am_wf s"
  by (simp_all add: am_wf_def)

lemma with_flag_wf:
  "with_flag p b f s = Inr (x, s') \<Longrightarrow> am_wf s \<Longrightarrow> (\<And>s s1 x. f s = Inr (x, s1) \<Longrightarrow> am_wf s \<Longrightarrow> am_wf s1) \<Longrightarrow> am_wf s'"
  by (auto simp: with_flag_def then_do_Inr)

lemma try_sema_wf: "try_sema self p s = Inr (Returned s') \<Longrightarrow> am_wf s \<Longrightarrow> am_wf s'"
  by (auto simp: try_sema_def split: option.splits waits.splits)

lemma wait_sema_wf:
  assumes "wait_sema e p s = Inr s'" "env_keeps e" "am_wf s"
  shows "am_wf s'"
proof -
  have w: "am_wf (an_wait e p s)" using assms(2,3) by (simp add: env_keeps_def)
  obtain w1 where w1: "try_sema (an_self e) p s = Inr w1" using assms(1) by (auto simp: wait_sema_def then_do_Inr)
  show ?thesis
  proof (cases w1)
    case (Returned s1)
    then show ?thesis using assms(1) w1 try_sema_wf [OF _ assms(3)] by (simp add: wait_sema_def)
  next
    case Waiting
    then have "try_sema (an_self e) p (an_wait e p s) = Inr (Returned s')"
      using assms(1) w1 by (cases "try_sema (an_self e) p (an_wait e p s)") (auto simp: wait_sema_def split: waits.splits)
    then show ?thesis by (rule try_sema_wf [OF _ w])
  qed
qed

lemma set_app_wf: "set_app i h s = Inr s' \<Longrightarrow> am_wf s \<Longrightarrow> am_wf s'"
  by (auto simp: set_app_def am_wf_def split: if_splits)

lemma retry_wf:
  assumes f: "\<And>r i4 s b i4' s'. f r i4 s = Inr (b, i4', s') \<Longrightarrow> am_wf s \<Longrightarrow> am_wf s'"
    and "retry f r i4 s = Inr (i4', s')" "am_wf s"
  shows "am_wf s'"
  using assms(2,3)
proof (induction "11 - r" arbitrary: r i4 s)
  case 0
  then show ?case by (subst (asm) retry.simps) auto
next
  case (Suc k)
  have r: "\<not> MSGQ_RETRY_TIMES < r" "k = 11 - (r + 1)" using Suc.hyps(2) by simp_all
  obtain b i1 s1 where s1: "f r i4 s = Inr (b, i1, s1)" "if b then s' = s1 else retry f (r + 1) i1 s1 = Inr (i4', s')"
    using Suc.prems(1) r(1) by (subst (asm) retry.simps) (auto simp: then_do_Inr split: if_splits)
  have "am_wf s1" by (rule f [OF s1(1) Suc.prems(2)])
  then show ?case using Suc.hyps(1) [OF r(2), of i1 s1] s1(2) by (auto split: if_splits)
qed

lemma others_wf: "env_keeps e \<Longrightarrow> am_wf s \<Longrightarrow> am_wf (an_others e i r s)"
  by (simp add: env_keeps_def)

lemma send_wf: "u_app_send_msg e h ty pv len f tag s = Inr (r, s') \<Longrightarrow> am_wf s \<Longrightarrow> am_wf s'"
  using am_wf_more u_app_send_msg_rest by blast

lemma exit_wf: "u_app_exit e h m f tag s = Inr (r, s') \<Longrightarrow> am_wf s \<Longrightarrow> am_wf s'"
  using am_wf_more u_app_exit_rest by blast

lemma start_wf: "u_app_start (an_cbs e) c f d nm nfy tag ph s = Inr (r, h, s') \<Longrightarrow> env_keeps e \<Longrightarrow> am_wf s \<Longrightarrow> am_wf s'"
  using u_app_start_kept [of "an_cbs e" c f d nm nfy tag ph s r h s' am_part_wf] by (simp add: part_wf env_keeps_def)

lemma am_start_found_wf: "am_start_found e i g nm s = Inr (r, s') \<Longrightarrow> env_keeps e \<Longrightarrow> am_wf s \<Longrightarrow> am_wf s'"
  unfolding am_start_found_def
  by (erule with_flag_wf) (auto simp: then_do_Inr dest!: start_wf set_app_wf wait_sema_wf split: option.splits if_splits)

lemma am_start_app_wf: "am_start_app e pv s = Inr (r, s') \<Longrightarrow> env_keeps e \<Longrightarrow> am_wf s \<Longrightarrow> am_wf s'"
  by (auto simp: am_start_app_def then_do_Inr dest: am_start_found_wf split: option.splits if_splits)

lemma am_exit_app_wf: "am_exit_app e pv s = Inr (r, s') \<Longrightarrow> env_keeps e \<Longrightarrow> am_wf s \<Longrightarrow> am_wf s'"
proof -
  assume a: "am_exit_app e pv s = Inr (r, s')" "env_keeps e" "am_wf s"
  then show "am_wf s'"
    by (auto simp: am_exit_app_def then_do_Inr Let_def others_wf split: option.splits if_splits elim!: with_flag_wf retry_wf [rotated]
      dest!: exit_wf wait_sema_wf set_app_wf)
qed

lemma broadcast_to_wf: "broadcast_to e ty msg len b i i4 s = Inr (r, s') \<Longrightarrow> env_keeps e \<Longrightarrow> am_wf s \<Longrightarrow> am_wf s'"
  unfolding broadcast_to_def
  by (erule retry_wf [rotated]) (auto simp: then_do_Inr Let_def others_wf split: if_splits dest!: send_wf wait_sema_wf)

lemma broadcast_loop_wf: "broadcast_loop e ty msg len b k i4 s = Inr (r, s') \<Longrightarrow> env_keeps e \<Longrightarrow> am_wf s \<Longrightarrow> am_wf s'"
proof (induction e ty msg len b k i4 s rule: broadcast_loop.induct)
  case (1 e ty msg len b k i4 s)
  show ?case
  proof (cases "k < unat (ui4_app_id s)")
    case True
    obtain i1 s1 where s1: "broadcast_to e ty msg len b (unat (ui4_app_id s) - k - 1) i4 s = Inr (i1, s1)"
      "broadcast_loop e ty msg len b (k + 1) i1 s1 = Inr (r, s')"
      using 1(2) True by (subst (asm) broadcast_loop.simps) (auto simp: then_do_Inr)
    show ?thesis using 1(1) [OF True] s1(2) broadcast_to_wf [OF s1(1)] 1(3,4) by blast
  next
    case False
    then show ?thesis using 1(2,4) by (subst (asm) broadcast_loop.simps) simp
  qed
qed

lemma am_broadcast_msg_wf: "am_broadcast_msg e pv b s = Inr (r, s') \<Longrightarrow> env_keeps e \<Longrightarrow> am_wf s \<Longrightarrow> am_wf s'"
  unfolding am_broadcast_msg_def
  by (erule with_flag_wf) (auto simp: then_do_Inr dest: broadcast_loop_wf split: if_splits option.splits)

lemma am_dispatch_msg_wf: "am_dispatch_msg e pv s = Inr (r, s') \<Longrightarrow> env_keeps e \<Longrightarrow> am_wf s \<Longrightarrow> am_wf s'"
proof -
  have "dispatch_to e d ty msg len s = Inr (r, s') \<Longrightarrow> env_keeps e \<Longrightarrow> am_wf s \<Longrightarrow> am_wf s'" for d ty msg len r
    unfolding dispatch_to_def Let_def
    by (erule retry_wf [rotated]) (auto simp: then_do_Inr others_wf dest!: send_wf split: option.splits)
  then show "am_dispatch_msg e pv s = Inr (r, s') \<Longrightarrow> env_keeps e \<Longrightarrow> am_wf s \<Longrightarrow> am_wf s'"
    by (auto simp: am_dispatch_msg_def then_do_Inr split: option.splits if_splits)
qed

lemma am_register_wf: "am_register pv s = Inr (r, s') \<Longrightarrow> am_wf s \<Longrightarrow> am_wf s' \<and> unat (ui4_app_id s) < MAX_APP_NUM"
proof -
  assume a: "am_register pv s = Inr (r, s')" "am_wf s"
  then obtain bs where bs: "s' = s\<lparr>as_app_name := (as_app_name s)[unat (ui4_app_id s) := take APP_NAME_MAX_LEN (bytes_name bs)],
      ui4_app_id := ui4_app_id s + 1\<rparr>" and k: "unat (ui4_app_id s) < length (as_app_name s)"
    by (auto simp: am_register_def split: option.splits if_splits)
  have "unat (ui4_app_id s + 1) = unat (ui4_app_id s) + 1" using k a(2) by (auto simp: am_wf_def unat_word_ariths)
  then show ?thesis using a(2) k bs by (auto simp: am_wf_def dest!: set_update_subset_insert [THEN subsetD])
qed

text \<open>Whatever messages the manager gets, in whatever order, from whomever: the arrays of handles and of names keep their
  30 entries, the number of applications never exceeds 30, and a registration that would need a thirty-first entry does
  not get past the write outside the array.\<close>

theorem am_requests_keep_bounds:
  assumes "am_wf s" "env_keeps e" "am_app_process_msg_fct e h ty pv z b s = Inr (r, s')"
  shows "am_wf s' \<and> (ty = AMB_REQUEST_REG \<longrightarrow> unat (ui4_app_id s) < MAX_APP_NUM)"
  using assms(3) am_start_app_wf [OF _ assms(2,1)] am_exit_app_wf [OF _ assms(2,1)] am_register_wf [OF _ assms(1)]
    am_dispatch_msg_wf [OF _ assms(2,1)] am_broadcast_msg_wf [OF _ assms(2,1)] assms(1)
  by (auto simp: am_app_process_msg_fct_def then_do_Inr split: if_splits)

end
