(* ===== verification/AmReq.thy ===== *)
theory AmReq
  imports AmProps AmWf
begin

text \<open>The requests of other threads: from the call of the broker to the application manager and back.\<close>

section \<open>The turn of the manager\<close>

text \<open>The manager gets the message of a request, and its sender is told the result if it waits for it.\<close>

lemma process_request:
  "process_calls (am_calls e at c) h a fn_amb_aee_nfy_fct tag ty bs rest s =
    then_do (call_process (am_calls e at c) (ma_process a) h ty (if bs = [] then None else Some (bs @ rest)) (length bs) False s) (\<lambda>(r, s).
    then_do (amb_aee_nfy_fct (an_self e) h tag (if r = AEER_OK then APP_NFY_PROCESS_MSG_OK else APP_NFY_PROCESS_MSG_FAILED) s) (\<lambda>(_, s).
    Inr (False, s)))"
  by (simp add: process_calls_def notify_def am_calls_def amb_aee_nfy_fct_def)

lemma nfy_nobody: "amb_aee_nfy_fct self h NULL reason s = Inr (False, s)"
  by (simp add: amb_aee_nfy_fct_def)

lemma call_am_process:
  "ma_process a = fn_am_app_process_msg_fct \<Longrightarrow> call_process (am_calls e at c) (ma_process a) = am_app_process_msg_fct e"
  by (simp add: am_calls_def)

text \<open>What the manager does with a message that another thread waits for, as seen by that thread.\<close>

definition while_waiting :: "('s \<Rightarrow> (bool \<times> 's) waits result) \<Rightarrow> 's \<Rightarrow> 's" where
  "while_waiting turn s = (case turn s of Inr (Returned (_, s')) \<Rightarrow> s' | _ \<Rightarrow> s)"

section \<open>Requests that do not wait\<close>

lemma more_flags: "aee_sys.more s' = aee_sys.more s \<Longrightarrow>
    aee_sys.more (s'\<lparr>am_flags := f\<rparr>) = aee_sys.more (s\<lparr>am_flags := f\<rparr>)"
  by (cases s, cases s') simp

lemma amb_send_async:
  assumes q: "app_queue (h_g_am s) q n z s ms" and c: "can_send (an_call e 0 0) len" and l: "len \<le> length m" "HEADER_SIZE + len \<le> z"
    and n: "length ms < n" and o: "\<And>s. an_others e 0 0 s = s"
  obtains s' where "amb_send_request_to_am e ty (Some m) len False s = Inr (AMBR_OK, s')"
    "app_queue (h_g_am s) q n z s' (ms @ [app_msg fn_amb_aee_nfy_fct NULL ty (take len m)])" "aee_bufs s' = aee_bufs s"
    "aee_sys.more s' = aee_sys.more (s\<lparr>am_flags := (am_flags s)(an_tag e := None)\<rparr>)"
proof -
  let ?s = "s\<lparr>am_flags := (am_flags s)(an_tag e \<mapsto> True)\<rparr>"
  have q0: "app_queue (h_g_am s) q n z ?s ms" using q truncate_app(1) [of ?s s] by simp
  obtain s1 where s1: "u_app_send_msg (an_call e 0 0) (h_g_am s) ty (Some m) len fn_amb_aee_nfy_fct NULL ?s = Inr (AEER_OK, s1)"
    "only_queue q ?s s1" "app_queue (h_g_am s) q n z s1 (ms @ [app_msg fn_amb_aee_nfy_fct NULL ty (take len m)])"
    by (rule app_send_only [OF q0 c l, of ty fn_amb_aee_nfy_fct NULL]) (use n in simp)
  note K = only_queue_same [OF s1(2)]
  let ?s' = "s1\<lparr>am_flags := (am_flags s1)(an_tag e := None)\<rparr>"
  have fl: "am_flags s1 = (am_flags s)(an_tag e \<mapsto> True)" using more_am(13) [OF K(1)] by simp
  have "amb_send_request_to_am e ty (Some m) len False s = Inr (AMBR_OK, ?s')"
  proof -
    have "retry (\<lambda>r i4 s. then_do (u_app_send_msg (an_call e 0 r) (h_g_am s) ty (Some m) len fn_amb_aee_nfy_fct
        (if False then an_tag e else NULL) (an_others e 0 r s)) (\<lambda>(i4, s).
          if i4 = AEER_OK then (if False then then_do (wait_sema e (h_g_bin_sema s) s) (\<lambda>s. Inr (True, i4, s)) else Inr (True, i4, s))
          else Inr (False, i4, s))) 0 AMBR_OK ?s = Inr (AEER_OK, s1)"
      by (rule retry_stops) (use s1(1) o in simp_all)
    then show ?thesis using fl unfolding amb_send_request_to_am_def with_flag_def by (simp add: get_flag_def)
  qed
  moreover have "app_queue (h_g_am s) q n z ?s' (ms @ [app_msg fn_amb_aee_nfy_fct NULL ty (take len m)])"
    using s1(3) truncate_app(1) [of ?s' s1] by simp
  moreover have "aee_sys.more ?s' = aee_sys.more (s\<lparr>am_flags := (am_flags s)(an_tag e := None)\<rparr>)"
    using more_flags [OF K(1), of "(am_flags s1)(an_tag e := None)"] fl by simp
  ultimately show thesis using that [of ?s'] K(3) by simp
qed

text \<open>C17 A request for a registered application reaches the manager: the call returns without waiting, and on its next
  turn the manager is called with the type of the request and the name.\<close>

theorem am_request_arrives:
  assumes "regs_ok s ps" "find (\<lambda>p. reg_name s p = nm) ps = Some p" "am_regs s p = Some g" "length (rg_name g) = APP_NAME_MAX_LEN + 1"
    and "app_queue (h_g_am s) q n z s []" "0 < n" "HEADER_SIZE + (APP_NAME_MAX_LEN + 1) \<le> z"
    and "app_main a q z s" "ma_process a = fn_am_app_process_msg_fct"
    and "can_send (an_call e 0 0) (APP_NAME_MAX_LEN + 1)" "\<And>s. an_others e 0 0 s = s" "ev_lock ea = 0"
  shows "\<exists>s' s1 rest. amb_lifecycle_req e (Some nm) ty False s = Inr (AMBR_OK, s') \<and>
    appman_turn (am_calls e' at c) ea h a s' =
      then_do (am_app_process_msg_fct e' h ty (Some (rg_name g @ rest)) (APP_NAME_MAX_LEN + 1) False s1) (\<lambda>(_, s). Inr (Returned (False, s))) \<and>
    c_str (rg_name g @ rest) = Inr nm \<and> app_queue (h_g_am s) q n z s1 [] \<and>
    aee_sys.more s1 = aee_sys.more (s\<lparr>am_flags := (am_flags s)(an_tag e := None)\<rparr>)"
proof -
  have p: "p \<noteq> NULL" "c_str (rg_name g) = Inr nm" using regs_found [OF assms(1,2)] assms(3) by auto
  have l: "APP_NAME_MAX_LEN + 1 \<le> length (rg_name g)" using assms(4) by simp
  have t: "take (APP_NAME_MAX_LEN + 1) (rg_name g) = rg_name g" using assms(4) by simp
  obtain s' where s': "amb_send_request_to_am e ty (Some (rg_name g)) (APP_NAME_MAX_LEN + 1) False s = Inr (AMBR_OK, s')"
    "app_queue (h_g_am s) q n z s' ([] @ [app_msg fn_amb_aee_nfy_fct NULL ty (rg_name g)])" "aee_bufs s' = aee_bufs s"
    "aee_sys.more s' = aee_sys.more (s\<lparr>am_flags := (am_flags s)(an_tag e := None)\<rparr>)"
    by (rule amb_send_async [OF assms(5,10) l assms(7) _ assms(11), of ty, unfolded t]) (use assms(6) in simp_all)
  have r: "amb_lifecycle_req e (Some nm) ty False s = Inr (AMBR_OK, s')"
    using regs_find(1) [OF assms(1), of nm] assms(2,3) p(1) s'(1) by (simp add: amb_lifecycle_req_def)
  have m: "app_main a q z s'" using app_main_cong [OF s'(3)] assms(8) by simp
  obtain s1 rest where s1: "appman_turn (am_calls e' at c) ea h a s' =
      then_do (process_calls (am_calls e' at c) h a fn_amb_aee_nfy_fct NULL ty (rg_name g) rest s1) (\<lambda>x. Inr (Returned x))"
    "app_queue (h_g_am s) q n z s1 []" "aee_sys.more s1 = aee_sys.more s'"
    using turn_processes [of "h_g_am s" q n z s' fn_amb_aee_nfy_fct NULL ty "rg_name g" "[]" a ea "am_calls e' at c" h] s'(2) m assms(12) by auto
  have ne: "rg_name g \<noteq> []" using assms(4) by auto
  have "then_do (process_calls (am_calls e' at c) h a fn_amb_aee_nfy_fct NULL ty (rg_name g) rest s1) (\<lambda>x. Inr (Returned x)) =
      then_do (am_app_process_msg_fct e' h ty (Some (rg_name g @ rest)) (APP_NAME_MAX_LEN + 1) False s1) (\<lambda>(_, s). Inr (Returned (False, s)))"
    unfolding process_request call_am_process [OF assms(9)] nfy_nobody using ne assms(4)
    by (cases "am_app_process_msg_fct e' h ty (Some (rg_name g @ rest)) (APP_NAME_MAX_LEN + 1) False s1") auto
  then show ?thesis using r s1 s'(4) c_str_append [OF p(2), of rest] by auto
qed

section \<open>Requests that wait\<close>

text \<open>\<open>R\<close> says what the manager makes of the state when it handles the message.\<close>

lemma amb_send_sync:
  assumes q: "app_queue (h_g_am s) q n z s []" and c: "can_send (an_call e 0 0) len" and l: "0 < len" "len \<le> length m" "HEADER_SIZE + len \<le> z"
    and n: "0 < n" and o: "\<And>s. an_others e 0 0 s = s" and am: "app_main a q z s" "ma_process a = fn_am_app_process_msg_fct"
    and lk: "ev_lock ea = 0" and tg: "an_tag e \<noteq> NULL" "an_tag e < 2 ^ 32" and b: "bin_sema (h_g_bin_sema s) 0 s"
    and w: "an_wait e (h_g_bin_sema s) = while_waiting (appman_turn (am_calls e' at c) ea h a)"
    and P: "\<And>s1 rest. aee_sys.more s1 = aee_sys.more (s\<lparr>am_flags := (am_flags s)(an_tag e \<mapsto> True)\<rparr>) \<Longrightarrow>
      \<exists>s2. am_app_process_msg_fct e' h ty (Some (take len m @ rest)) len False s1 = Inr (r, s2) \<and>
        h_g_bin_sema s2 = h_g_bin_sema s \<and> bin_sema (h_g_bin_sema s) 0 s2 \<and> am_flags s2 (an_tag e) \<noteq> None \<and> R s2"
  shows "\<exists>s2 v. amb_send_request_to_am e ty (Some m) len True s = Inr (if r = AEER_OK then AMBR_OK else AMBR_FAIL,
      s2\<lparr>am_flags := (am_flags s2)(an_tag e := None), am_semas := (am_semas s2)(h_g_bin_sema s \<mapsto> v)\<rparr>) \<and>
    se_type v = X_SEMA_TYPE_BINARY \<and> se_value v = 0 \<and> R s2"
proof -
  let ?s = "s\<lparr>am_flags := (am_flags s)(an_tag e \<mapsto> True)\<rparr>" and ?p = "h_g_bin_sema s"
  have q0: "app_queue (h_g_am s) q n z ?s []" using q truncate_app(1) [of ?s s] by simp
  obtain s1 where s1: "u_app_send_msg (an_call e 0 0) (h_g_am s) ty (Some m) len fn_amb_aee_nfy_fct (an_tag e) ?s = Inr (AEER_OK, s1)"
    "only_queue q ?s s1" "app_queue (h_g_am s) q n z s1 ([] @ [app_msg fn_amb_aee_nfy_fct (an_tag e) ty (take len m)])"
    by (rule app_send_only [OF q0 c l(2,3), of ty fn_amb_aee_nfy_fct "an_tag e"]) (use n in simp)
  note K = only_queue_same [OF s1(2)]
  have M: "app_main a q z s1" using am(1) K(3) by (simp add: app_main_def)
  obtain s2 rest where s2: "appman_turn (am_calls e' at c) ea h a s1 =
      then_do (process_calls (am_calls e' at c) h a fn_amb_aee_nfy_fct (an_tag e) ty (take len m) rest s2) (\<lambda>x. Inr (Returned x))"
    "aee_sys.more s2 = aee_sys.more s1"
    using turn_processes [of "h_g_am s" q n z s1 fn_amb_aee_nfy_fct "an_tag e" ty "take len m" "[]" a ea "am_calls e' at c" h] s1(3) M lk tg(2)
    by auto
  obtain s3 where s3: "am_app_process_msg_fct e' h ty (Some (take len m @ rest)) len False s2 = Inr (r, s3)"
    "h_g_bin_sema s3 = ?p" "bin_sema ?p 0 s3" "am_flags s3 (an_tag e) \<noteq> None" "R s3"
    using P [of s2 rest] s2(2) K(1) by auto
  obtain f where f: "am_flags s3 (an_tag e) = Some f" using s3(4) by auto
  let ?ok = "r = AEER_OK"
  obtain v where v: "amb_aee_nfy_fct (an_self e') h (an_tag e) (if ?ok then APP_NFY_PROCESS_MSG_OK else APP_NFY_PROCESS_MSG_FAILED) s3 =
      Inr (False, s3\<lparr>am_flags := (am_flags s3)(an_tag e \<mapsto> ?ok), am_semas := (am_semas s3)(?p \<mapsto> v)\<rparr>)"
    "se_type v = X_SEMA_TYPE_BINARY" "se_value v = 1"
  proof (rule amb_nfy_result [where s = s3 and tag = "an_tag e" and b = f and self = "an_self e'" and h = h
        and reason = "if ?ok then APP_NFY_PROCESS_MSG_OK else APP_NFY_PROCESS_MSG_FAILED"])
    have ok: "((if ?ok then APP_NFY_PROCESS_MSG_OK else APP_NFY_PROCESS_MSG_FAILED) \<in> {1, 4, 7}) = ?ok" by simp
    fix v
    assume "amb_aee_nfy_fct (an_self e') h (an_tag e) (if ?ok then APP_NFY_PROCESS_MSG_OK else APP_NFY_PROCESS_MSG_FAILED) s3 =
      Inr (False, s3\<lparr>am_flags := (am_flags s3)(an_tag e \<mapsto> (if ?ok then APP_NFY_PROCESS_MSG_OK else APP_NFY_PROCESS_MSG_FAILED) \<in> {1, 4, 7}),
        am_semas := (am_semas s3)(h_g_bin_sema s3 \<mapsto> v)\<rparr>)" "se_type v = X_SEMA_TYPE_BINARY" "se_value v = 1"
    then show thesis using that [of v] unfolding ok s3(2) by blast
  qed (use s3(2,3) f tg(1) in simp_all)
  let ?s4 = "s3\<lparr>am_flags := (am_flags s3)(an_tag e \<mapsto> ?ok), am_semas := (am_semas s3)(?p \<mapsto> v)\<rparr>"
  have ne: "take len m \<noteq> []" "length (take len m) = len" using l by auto
  have "appman_turn (am_calls e' at c) ea h a s1 = Inr (Returned (False, ?s4))"
    unfolding s2(1) process_request call_am_process [OF am(2)] using ne s3(1) v(1) by simp
  then have wt: "an_wait e ?p s1 = ?s4" by (simp add: w while_waiting_def)
  have b1: "bin_sema ?p 0 s1" using b by (simp add: bin_sema_def more_am(12) [OF K(1)])
  obtain u where u: "wait_sema e ?p s1 = Inr (?s4\<lparr>am_semas := (am_semas ?s4)(?p \<mapsto> u)\<rparr>)" "se_type u = X_SEMA_TYPE_BINARY" "se_value u = 0"
    using wait_bin [OF b1, where e = e, unfolded wt] v(2,3) by (auto simp: bin_sema_def)
  let ?s5 = "?s4\<lparr>am_semas := (am_semas ?s4)(?p \<mapsto> u)\<rparr>"
  have "retry (\<lambda>r i4 s. then_do (u_app_send_msg (an_call e 0 r) (h_g_am s) ty (Some m) len fn_amb_aee_nfy_fct
      (if True then an_tag e else NULL) (an_others e 0 r s)) (\<lambda>(i4, s).
        if i4 = AEER_OK then (if True then then_do (wait_sema e (h_g_bin_sema s) s) (\<lambda>s. Inr (True, i4, s)) else Inr (True, i4, s))
        else Inr (False, i4, s))) 0 AMBR_OK ?s = Inr (AEER_OK, ?s5)"
    by (rule retry_stops) (use s1(1) o u(1) more_am(10) [OF K(1)] in simp_all)
  then have "amb_send_request_to_am e ty (Some m) len True s = Inr (if ?ok then AMBR_OK else AMBR_FAIL,
      ?s5\<lparr>am_flags := (am_flags ?s5)(an_tag e := None)\<rparr>)"
    unfolding amb_send_request_to_am_def with_flag_def by (simp add: get_flag_def)
  then have "amb_send_request_to_am e ty (Some m) len True s = Inr (if ?ok then AMBR_OK else AMBR_FAIL,
      s3\<lparr>am_flags := (am_flags s3)(an_tag e := None), am_semas := (am_semas s3)(?p \<mapsto> u)\<rparr>)" by simp
  then show ?thesis using u(2,3) s3(5) by blast
qed

section \<open>Registering\<close>

definition mutex_of :: "tid option \<Rightarrow> sema" where
  "mutex_of t = \<lparr>se_type = X_SEMA_TYPE_MUTEX, se_thread = t, se_value = (if t = None then 1 else 0), se_selfcount = (if t = None then 0 else 1)\<rparr>"

lemma lock_mutex: "am_semas s p = Some (mutex_of None) \<Longrightarrow>
    wait_sema e p s = Inr (s\<lparr>am_semas := (am_semas s)(p \<mapsto> mutex_of (Some (an_self e)))\<rparr>)"
  by (simp add: wait_sema_def try_sema_def u_sema_lock_def lock_value_def sema_take_def sema_again_def sema_own_def mutex_of_def)

lemma unlock_mutex: "am_semas s p = Some (mutex_of (Some t)) \<Longrightarrow> post_sema t p s = Inr (s\<lparr>am_semas := (am_semas s)(p \<mapsto> mutex_of None)\<rparr>)"
  by (simp add: post_sema_def u_sema_unlock_def mutex_drop_def sema_give_def mutex_of_def)

text \<open>The manager's answer to a registration.\<close>

lemma process_reg:
  assumes "am_wf s" "unat (ui4_app_id s) < MAX_APP_NUM" "c_str bs = Inr nm"
  shows "am_app_process_msg_fct e h AMB_REQUEST_REG (Some bs) z b s = Inr (AEER_OK,
    s\<lparr>as_app_name := (as_app_name s)[unat (ui4_app_id s) := take APP_NAME_MAX_LEN nm], ui4_app_id := ui4_app_id s + 1\<rparr>)"
  using assms by (auto simp: am_app_process_msg_fct_def am_register_def am_wf_def c_str_def split: if_splits)

text \<open>C14 While an application registers, the manager takes its turn: afterwards the registration stands first in the list,
  the manager has the name, cut to 16 characters, under the next number, and both semaphores are as before.\<close>

theorem amb_register_reaches:
  assumes "regs_ok s ps" "am_regs s p = Some g" "p \<noteq> NULL" "\<not> reg_refused g" "c_str (rg_name g) = Inr nm" "\<forall>x\<in>set ps. reg_name s x \<noteq> nm"
    and "am_wf s" "unat (ui4_app_id s) < MAX_APP_NUM"
    and "app_queue (h_g_am s) q n z s []" "0 < n" "HEADER_SIZE + length nm + 1 \<le> z" "app_main a q z s" "ma_process a = fn_am_app_process_msg_fct"
    and "can_send (an_call e 0 0) (length nm + 1)" "\<forall>s. an_others e 0 0 s = s" "ev_lock ea = 0" "an_tag e \<noteq> NULL" "an_tag e < 2 ^ 32"
    and "am_semas s (h_g_mtx_sema s) = Some (mutex_of None)" "bin_sema (h_g_bin_sema s) 0 s" "h_g_mtx_sema s \<noteq> h_g_bin_sema s"
    and "an_wait e (h_g_bin_sema s) = while_waiting (appman_turn (am_calls e' at c) ea h a)"
  shows "\<exists>s'. u_amb_register_app e p s = Inr (AMBR_OK, s') \<and> regs_ok s' (p # ps) \<and> reg_name s' p = nm \<and> am_wf s' \<and>
    as_app_name s' = (as_app_name s)[unat (ui4_app_id s) := take APP_NAME_MAX_LEN nm] \<and> ui4_app_id s' = ui4_app_id s + 1 \<and> ah_app s' = ah_app s \<and>
    am_semas s' (h_g_mtx_sema s) = Some (mutex_of None) \<and> bin_sema (h_g_bin_sema s) 0 s'"
proof -
  let ?mt = "h_g_mtx_sema s" and ?bn = "h_g_bin_sema s" and ?k = "unat (ui4_app_id s)" and ?len = "length nm + 1"
  have "reg_name s p = nm" using assms(2,5) by (simp add: reg_name_def)
  then have new: "p \<notin> set ps" using assms(6) by auto
  have f: "find (\<lambda>p. reg_name s p = nm) ps = None" using assms(6) by (simp add: find_None_iff)
  let ?s1 = "s\<lparr>am_semas := (am_semas s)(?mt \<mapsto> mutex_of (Some (an_self e)))\<rparr>"
  have r1: "regs_ok ?s1 ps" using regs_ok_cong [of ?s1 s] assms(1) by simp
  have g1: "am_regs ?s1 p = Some g" using assms(2) by simp
  obtain rs where rs: "link_reg p ?s1 = Inr (?s1\<lparr>am_regs := rs, pt_g_regs := p\<rparr>)" "regs_ok (?s1\<lparr>am_regs := rs, pt_g_regs := p\<rparr>) (p # ps)"
    "map_option (\<lambda>g. (rg_name g, rg_fcts g, rg_desc g)) (rs p) = map_option (\<lambda>g. (rg_name g, rg_fcts g, rg_desc g)) (am_regs ?s1 p)"
    by (rule link_reg_ok [OF r1 g1 assms(5,3) new]) (rule that)
  let ?s2 = "?s1\<lparr>am_regs := rs, pt_g_regs := p\<rparr>"
  let ?R = "\<lambda>s3. as_app_name s3 = (as_app_name s)[?k := take APP_NAME_MAX_LEN nm] \<and> ui4_app_id s3 = ui4_app_id s + 1 \<and> ah_app s3 = ah_app s \<and>
    am_regs s3 = rs \<and> pt_g_regs s3 = p \<and> am_semas s3 = am_semas ?s2 \<and> h_g_mtx_sema s3 = ?mt"
  have t2: "aee_sys.truncate ?s2 = aee_sys.truncate s" by (simp add: aee_sys.truncate_def)
  have l: "0 < ?len" "?len \<le> length (rg_name g)" "HEADER_SIZE + ?len \<le> z" using c_str_length [OF assms(5)] assms(11) by simp_all
  have "\<exists>s3 v. amb_send_request_to_am e AMB_REQUEST_REG (Some (rg_name g)) ?len True ?s2 = Inr (if AEER_OK = AEER_OK then AMBR_OK else AMBR_FAIL,
      s3\<lparr>am_flags := (am_flags s3)(an_tag e := None), am_semas := (am_semas s3)(h_g_bin_sema ?s2 \<mapsto> v)\<rparr>) \<and>
    se_type v = X_SEMA_TYPE_BINARY \<and> se_value v = 0 \<and> ?R s3"
  proof (rule amb_send_sync [where ea = ea and a = a and e' = e' and at = at and c = c and h = h and q = q and n = n and z = z and r = AEER_OK and R = ?R])
    show "app_queue (h_g_am ?s2) q n z ?s2 []" using truncate_app(1) [OF t2] assms(9) by simp
    show "app_main a q z ?s2" using truncate_app(2) [OF t2] assms(12) by simp
    show "bin_sema (h_g_bin_sema ?s2) 0 ?s2" using assms(20,21) by (simp add: bin_sema_def)
    fix s1 :: "'a am_sys_scheme" and rest
    assume m: "aee_sys.more s1 = aee_sys.more (?s2\<lparr>am_flags := (am_flags ?s2)(an_tag e \<mapsto> True)\<rparr>)"
    note F = more_am [OF m]
    have w1: "am_wf s1" using assms(7) F by (simp add: am_wf_def)
    have "c_str (take ?len (rg_name g) @ rest) = Inr nm" by (rule c_str_take [OF assms(5)])
    from process_reg [OF w1 _ this, of e' h ?len False] show "\<exists>s3. am_app_process_msg_fct e' h AMB_REQUEST_REG (Some (take ?len (rg_name g) @ rest)) ?len False s1 = Inr (AEER_OK, s3) \<and>
        h_g_bin_sema s3 = h_g_bin_sema ?s2 \<and> bin_sema (h_g_bin_sema ?s2) 0 s3 \<and> am_flags s3 (an_tag e) \<noteq> None \<and> ?R s3"
      using F assms(8,20,21) by (auto simp: bin_sema_def)
  qed (use assms l in simp_all)
  then obtain s3 v where s3: "amb_send_request_to_am e AMB_REQUEST_REG (Some (rg_name g)) ?len True ?s2 = Inr (AMBR_OK,
      s3\<lparr>am_flags := (am_flags s3)(an_tag e := None), am_semas := (am_semas s3)(?bn \<mapsto> v)\<rparr>)"
    "se_type v = X_SEMA_TYPE_BINARY" "se_value v = 0" "?R s3" by auto
  let ?s4 = "s3\<lparr>am_flags := (am_flags s3)(an_tag e := None), am_semas := (am_semas s3)(?bn \<mapsto> v)\<rparr>"
  have "am_semas ?s4 ?mt = Some (mutex_of (Some (an_self e)))" using s3(4) assms(21) by simp
  note U = unlock_mutex [OF this]
  let ?s5 = "?s4\<lparr>am_semas := (am_semas ?s4)(?mt \<mapsto> mutex_of None)\<rparr>"
  have "u_amb_register_app e p s = Inr (AMBR_OK, ?s5)"
    using assms(2,4,5) regs_find(1) [OF assms(1), of nm] f lock_mutex [OF assms(19), of e] rs(1) s3(1,4) U
    by (simp add: u_amb_register_app_def)
  moreover have "regs_ok ?s5 (p # ps)" using regs_ok_cong [of ?s5 ?s2] rs(2) s3(4) by simp
  moreover have "reg_name ?s5 p = nm" using rs(3) assms(2,5) s3(4) by (auto simp: reg_name_def)
  moreover have "am_wf ?s5"
  proof -
    have "unat (ui4_app_id s + 1) = ?k + 1" using assms(8) by (simp add: unat_word_ariths)
    then show ?thesis using assms(7,8) s3(4) by (auto simp: am_wf_def dest!: set_update_subset_insert [THEN subsetD])
  qed
  moreover have "bin_sema ?bn 0 ?s5" using s3(2,3) assms(21) by (simp add: bin_sema_def)
  ultimately show ?thesis using s3(4) by (intro exI [of _ ?s5]) simp
qed

end
