(* ===== verification/AmStart.thy ===== *)
theory AmStart
  imports AmReq
begin

text \<open>Starting and ending an application: the application manager, the thread of the application, and the semaphore
  on which the manager waits for its answer.\<close>

section \<open>The thread of the application\<close>

text \<open>From the creation of the thread to the end of the first turn of the application.\<close>

definition app_comes_up :: "'w app_calls \<Rightarrow> app_env \<Rightarrow> ptr \<Rightarrow> 'w aee_sys_scheme \<Rightarrow> (bool \<times> 'w aee_sys_scheme) waits result" where
  "app_comes_up c e t s =
    then_do (thread_proc t (aee_thr s)) (\<lambda>(pf, arg, th).
      case arg of
        None \<Rightarrow> Inl BadAccess
      | Some args \<Rightarrow>
        then_do (aee_main_start e args (s\<lparr>aee_thr := th\<rparr>)) (\<lambda>(call, s).
          case call of
            None \<Rightarrow> Inr (Returned (True, s))
          | Some (pf, h, pv) \<Rightarrow> then_do (appman_main_start pv s) (\<lambda>a. appman_turn c e h a s)))"

lemma more_ah: "aee_sys.more s' = aee_sys.more s \<Longrightarrow> aee_sys.more (s'\<lparr>ah_app := f\<rparr>) = aee_sys.more (s\<lparr>ah_app := f\<rparr>)"
  by (cases s, cases s') simp

lemma app_started_ah:
  assumes "app_started e f d nm nfy tag h s s'"
  shows "app_started e f d nm nfy tag h (s\<lparr>ah_app := x\<rparr>) (s'\<lparr>ah_app := x\<rparr>)"
proof -
  have t: "aee_sys.truncate (s'\<lparr>ah_app := x\<rparr>) = aee_sys.truncate s'" by simp
  have "habs (s'\<lparr>ah_app := x\<rparr>) = habs s'" using habs_truncate truncate_aee(1) [OF t] by blast
  then show ?thesis
    using assms more_ah [of s' s x] truncate_app(1) [OF t] unfolding app_started_def by simp
qed

text \<open>The initialisation answers the manager.\<close>

lemma init_answers:
  assumes i: "\<And>s. \<exists>s'. call_init c pf nm h s = Inr (r, s') \<and> aee_sys.more s' = aee_sys.more s" and pf: "pf \<noteq> fn_am_app_init_fct"
    and b: "bin_sema (am_bin_sema s) 0 s" and fl: "am_flags s tag = Some b" and tg: "tag \<noteq> NULL"
  obtains s1 v where "init_calls (am_calls e at c) pf nm h fn_am_app_nfy_fct tag s = Inr (r \<noteq> AEER_OK,
      s1\<lparr>am_flags := (am_flags s)(tag \<mapsto> r = AEER_OK), am_semas := (am_semas s)(am_bin_sema s \<mapsto> v)\<rparr>)"
    "aee_sys.more s1 = aee_sys.more s" "se_type v = X_SEMA_TYPE_BINARY" "se_value v = 1"
proof -
  obtain s1 where s1: "call_init c pf nm h s = Inr (r, s1)" "aee_sys.more s1 = aee_sys.more s" using i by blast
  note F = more_am [OF s1(2)]
  have b1: "bin_sema (am_bin_sema s1) 0 s1" and f1: "am_flags s1 tag = Some b" using b fl by (simp_all add: bin_sema_def F)
  let ?reason = "if r = AEER_OK then APP_NFY_INIT_OK else APP_NFY_INIT_FAILED"
  have ok: "(?reason \<in> {1, 4, 7}) = (r = AEER_OK)" "?reason \<in> {1, 2, 4, 5, 7, 8}" by simp_all
  obtain v where v: "am_app_nfy_fct (an_self e) h tag ?reason s1 = Inr (False, s1\<lparr>am_flags := (am_flags s1)(tag \<mapsto> ?reason \<in> {1, 4, 7}),
      am_semas := (am_semas s1)(am_bin_sema s1 \<mapsto> v)\<rparr>)" "se_type v = X_SEMA_TYPE_BINARY" "se_value v = 1"
    by (rule am_nfy_result [OF b1 f1 tg ok(2)])
  have pre: "am_app_nfy_fct (an_self e) h tag APP_NFY_PRE_INIT s = Inr (False, s)" by (simp add: am_app_nfy_fct_def)
  have "init_calls (am_calls e at c) pf nm h fn_am_app_nfy_fct tag s = Inr (r \<noteq> AEER_OK,
      s1\<lparr>am_flags := (am_flags s)(tag \<mapsto> r = AEER_OK), am_semas := (am_semas s)(am_bin_sema s \<mapsto> v)\<rparr>)"
    using s1(1) v(1) pre pf F unfolding ok(1) by (simp add: init_calls_def notify_def am_calls_def)
  then show thesis using that s1(2) v(2,3) by blast
qed

section \<open>Starting\<close>

text \<open>What a start of application \<open>i\<close> with the registration \<open>g\<close> needs, and what happens while the manager waits: the
  thread of the application runs, and its initialisation returns \<open>r\<close>.\<close>

definition start_env :: "'v am_sys_ext am_env \<Rightarrow> 'v am_sys_ext app_calls \<Rightarrow> nat \<Rightarrow> amb_reg \<Rightarrow> string \<Rightarrow> int \<Rightarrow> 'v am_sys_scheme \<Rightarrow> bool" where
  "start_env e c i g nm r s \<longleftrightarrow>
     (\<exists>L A ps. handle_inv s L A \<and> aee_list s ps \<and> ev_aee (an_call e i 0) \<notin> set ps) \<and> ui2_num_free s > 12 \<and>
     may_start (an_call e i 0) (rg_fcts g) (am_start_desc g i) nm s \<and>
     start_addr_ok (an_call e i 0) (rg_fcts g) fn_am_app_nfy_fct (an_tag e) \<and> (\<forall>x\<in>set nm. x \<noteq> CHR 0x00) \<and>
     bin_sema (am_bin_sema s) 0 s \<and> an_tag e \<noteq> NULL \<and> pf_init (rg_fcts g) \<noteq> fn_am_app_init_fct \<and>
     (\<exists>ea e' at. an_wait e (am_bin_sema s) = while_waiting (app_comes_up (am_calls e' at c) ea (ev_thread (an_call e i 0))) \<and>
        ev_self ea = fst (the (ev_started (an_call e i 0))) \<and> ev_pvt ea \<noteq> NULL \<and> ev_lock ea = 0) \<and>
     (\<forall>h s. \<exists>s'. call_init c (pf_init (rg_fcts g)) (take AEE_NAME_MAX_LENGTH nm) h s = Inr (r, s') \<and> aee_sys.more s' = aee_sys.more s)"

lemma am_start_found_ok:
  assumes w: "am_wf s" and i: "i < MAX_APP_NUM" and en: "start_env e c i g nm r s"
  shows "\<exists>h s'. am_start_found e i g nm s = Inr (if r = AEER_OK then AMR_OK else AMR_FAIL, s') \<and> habs s h = None \<and> h \<noteq> NULL_HANDLE \<and>
    ah_app s' = (ah_app s)[i := if r = AEER_OK then h else NULL_HANDLE] \<and> bin_sema (am_bin_sema s) 0 s' \<and>
    as_app_name s' = as_app_name s \<and> ui4_app_id s' = ui4_app_id s \<and> am_regs s' = am_regs s \<and> pt_g_regs s' = pt_g_regs s \<and> am_wf s'"
proof -
  let ?E = "an_call e i 0" and ?bn = "am_bin_sema s" and ?d = "am_start_desc g i" and ?f = "rg_fcts g"
  obtain L A ps ea e' at where en': "handle_inv s L A" "aee_list s ps" "ev_aee ?E \<notin> set ps"
    "an_wait e ?bn = while_waiting (app_comes_up (am_calls e' at c) ea (ev_thread ?E))"
    "ev_self ea = fst (the (ev_started ?E))" "ev_pvt ea \<noteq> NULL" "ev_lock ea = 0"
    using en unfolding start_env_def by (elim conjE exE) (rule that, assumption+)
  have en2: "ui2_num_free s > 12" "may_start ?E ?f ?d nm s" "start_addr_ok ?E ?f fn_am_app_nfy_fct (an_tag e)" "\<forall>x\<in>set nm. x \<noteq> CHR 0x00"
    "bin_sema ?bn 0 s" "an_tag e \<noteq> NULL" "pf_init ?f \<noteq> fn_am_app_init_fct"
    using en by (simp_all add: start_env_def)
  have init: "\<exists>s'. call_init c (pf_init ?f) (take AEE_NAME_MAX_LENGTH nm) h s = Inr (r, s') \<and> aee_sys.more s' = aee_sys.more s" for h s
    using en by (simp add: start_env_def)
  let ?s0 = "s\<lparr>am_flags := (am_flags s)(an_tag e \<mapsto> False)\<rparr>"
  have t0: "aee_sys.truncate ?s0 = aee_sys.truncate s" by simp
  note T0 = truncate_app [OF t0]
  have inv0: "handle_inv ?s0 L A" by (rule handle_inv_truncate [OF en'(1) truncate_aee(1) [OF t0]])
  obtain h s1 A' where s1: "u_app_start (an_cbs e) ?E (Some ?f) (Some ?d) (Some nm) fn_am_app_nfy_fct (an_tag e) True ?s0 = Inr (AEER_OK, Some h, s1)"
    "habs ?s0 h = None" "handle_inv s1 L A'" "app_started ?E ?f ?d nm fn_am_app_nfy_fct (an_tag e) h ?s0 s1"
    by (rule app_start_ok [OF inv0]) (use T0 en2 in simp_all)
  have more1: "aee_sys.more s1 = aee_sys.more ?s0" and h1: "habs s1 h = Some (AEET_PRIMARY_AEE, ev_aee ?E)"
    using s1(4) by (simp_all add: app_started_def)
  note F1 = more_am [OF more1]
  have hn: "h \<noteq> NULL_HANDLE"
  proof
    assume "h = NULL_HANDLE"
    then show False using h1 by (simp add: habs_def get_h_ctrl_from_handle_def)
  qed
  have len: "i < length (ah_app s)" using w i by (simp add: am_wf_def)
  let ?ah = "(ah_app s)[i := h]" let ?s2 = "s1\<lparr>ah_app := ?ah\<rparr>" and ?s0' = "?s0\<lparr>ah_app := ?ah\<rparr>"
  have set2: "set_app i h s1 = Inr ?s2" using len F1(4) by (simp add: set_app_def)
  have st2: "app_started ?E ?f ?d nm fn_am_app_nfy_fct (an_tag e) h ?s0' ?s2" by (rule app_started_ah [OF s1(4)])
  have t0': "aee_sys.truncate ?s0' = aee_sys.truncate s" by simp
  note T0' = truncate_app [OF t0']
  obtain args th s3 a s4 where s3: "thread_proc (ev_thread ?E) (aee_thr ?s2) = Inr (fn_aee_main, Some args, th)"
    "aee_main_start ea args (?s2\<lparr>aee_thr := th\<rparr>) = Inr (Some (fn_appman_main, h, ev_arg ?E), s3)"
    "appman_main_start (ev_arg ?E) s3 = Inr a"
    "appman_turn (am_calls e' at c) ea h a s3 = then_do (init_calls (am_calls e' at c) (pf_init ?f) (take AEE_NAME_MAX_LENGTH nm) h
       fn_am_app_nfy_fct (an_tag e) s4) (\<lambda>x. Inr (Returned x))"
    "aee_sys.more s4 = aee_sys.more ?s2"
    by (rule app_first_turn [OF st2 _ en'(3) _ en2(3,4) en'(5-7), of "am_calls e' at c"]) (use T0' en' en2 in simp_all)
  have more2: "aee_sys.more ?s2 = aee_sys.more ?s0'" by (rule more_ah [OF more1])
  note F2 = more_am [OF more2]
  have more4: "aee_sys.more s4 = aee_sys.more ?s0'" using s3(5) more2 by simp
  note F4 = more_am [OF more4]
  have b4: "bin_sema (am_bin_sema s4) 0 s4" "am_flags s4 (an_tag e) = Some False" using en2(5) F4 by (simp_all add: bin_sema_def)
  obtain s5 v where s5: "init_calls (am_calls e' at c) (pf_init ?f) (take AEE_NAME_MAX_LENGTH nm) h fn_am_app_nfy_fct (an_tag e) s4 = Inr (r \<noteq> AEER_OK,
      s5\<lparr>am_flags := (am_flags s4)(an_tag e \<mapsto> r = AEER_OK), am_semas := (am_semas s4)(am_bin_sema s4 \<mapsto> v)\<rparr>)"
    "aee_sys.more s5 = aee_sys.more s4" "se_type v = X_SEMA_TYPE_BINARY" "se_value v = 1"
    by (rule init_answers [OF init en2(7) b4 en2(6)])
  let ?s6 = "s5\<lparr>am_flags := (am_flags s4)(an_tag e \<mapsto> r = AEER_OK), am_semas := (am_semas s4)(am_bin_sema s4 \<mapsto> v)\<rparr>"
  note F5 = more_am [OF s5(2)]
  have up: "app_comes_up (am_calls e' at c) ea (ev_thread ?E) ?s2 = Inr (Returned (r \<noteq> AEER_OK, ?s6))"
    using s3(1-4) s5(1) by (simp add: app_comes_up_def)
  then have wt: "an_wait e ?bn ?s2 = ?s6" by (simp add: en'(4) while_waiting_def)
  have b2: "bin_sema ?bn 0 ?s2" using en2(5) F2 by (simp add: bin_sema_def)
  obtain u where u: "wait_sema e ?bn ?s2 = Inr (?s6\<lparr>am_semas := (am_semas ?s6)(?bn \<mapsto> u)\<rparr>)" "se_type u = X_SEMA_TYPE_BINARY" "se_value u = 0"
    using wait_bin [OF b2, where e = e, unfolded wt] s5(3,4) F4 by (auto simp: bin_sema_def)
  let ?s7 = "?s6\<lparr>am_semas := (am_semas ?s6)(?bn \<mapsto> u)\<rparr>"
  let ?s8 = "if r = AEER_OK then ?s7 else ?s7\<lparr>ah_app := ?ah[i := NULL_HANDLE]\<rparr>"
  let ?s' = "?s8\<lparr>am_flags := (am_flags ?s8)(an_tag e := None)\<rparr>"
  have ah5: "ah_app s5 = ?ah" using F5 F4 by simp
  have set8: "set_app i NULL_HANDLE ?s7 = Inr (?s7\<lparr>ah_app := ?ah[i := NULL_HANDLE]\<rparr>)" using len ah5 by (simp add: set_app_def)
  have res: "am_start_found e i g nm s = Inr (if r = AEER_OK then AMR_OK else AMR_FAIL, ?s')"
  proof (cases "r = AEER_OK")
    case True
    then show ?thesis unfolding am_start_found_def with_flag_def using s1(1) set2 u(1) F1(3) by (simp add: get_flag_def)
  next
    case False
    then show ?thesis unfolding am_start_found_def with_flag_def using s1(1) set2 u(1) set8 F1(3) by (simp add: get_flag_def)
  qed
  have G: "as_app_name ?s' = as_app_name s" "ui4_app_id ?s' = ui4_app_id s" "am_regs ?s' = am_regs s" "pt_g_regs ?s' = pt_g_regs s"
    "ah_app ?s' = (ah_app s)[i := if r = AEER_OK then h else NULL_HANDLE]" using F5 F4 by simp_all
  have "bin_sema ?bn 0 ?s'" using u(2,3) by (simp add: bin_sema_def)
  moreover have "am_wf ?s'" using w by (simp add: am_wf_def G)
  moreover have "habs s h = None" using s1(2) habs_truncate [OF truncate_aee(1) [OF t0]] by simp
  ultimately show ?thesis using res G hn by (intro exI [of _ h] exI [of _ ?s']) simp
qed


lemma c_str_chars: "c_str bs = Inr nm \<Longrightarrow> \<forall>c\<in>set nm. c \<noteq> CHR 0x00"
proof
  fix x
  assume "c_str bs = Inr nm" "x \<in> set nm"
  then obtain b where b: "x = char_of (unat b)" "b \<in> set (takeWhile (\<lambda>b. b \<noteq> 0) bs)"
    by (auto simp: c_str_def bytes_name_def split: if_splits)
  then have "unat b \<noteq> 0" by (auto dest!: set_takeWhileD simp: unat_eq_0)
  moreover have "unat b < 256" by (rule unat_bounds(1))
  ultimately have "(of_char x :: nat) \<noteq> 0" using b(1) by (simp add: of_char_of take_bit_eq_mod)
  then show "x \<noteq> CHR 0x00" by auto
qed

text \<open>C15 The request to start an application: the manager creates its thread, waits for the answer of its initialisation,
  and keeps the handle exactly when that succeeds; an application that runs is not started again, and one that is not
  registered, or not known to the manager, is refused.\<close>

theorem am_start_waits:
  assumes "am_wf s" "regs_ok s rs" "pt_g_regs s \<noteq> NULL" "c_str bs = Inr nm"
    and "\<And>p g i. find (\<lambda>p. reg_name s p = nm) rs = Some p \<Longrightarrow> am_regs s p = Some g \<Longrightarrow>
      find (\<lambda>i. as_app_name s ! i = nm) [0..<unat (ui4_app_id s)] = Some i \<Longrightarrow> ah_app s ! i = NULL_HANDLE \<Longrightarrow> start_env e c i g nm r s"
  shows "case (find (\<lambda>p. reg_name s p = nm) rs, find (\<lambda>i. as_app_name s ! i = nm) [0..<unat (ui4_app_id s)]) of
      (Some p, Some i) \<Rightarrow>
        if ah_app s ! i \<noteq> NULL_HANDLE then am_start_app e (Some bs) s = Inr (AMR_ALREADY_STARTED, s)
        else \<exists>h s'. am_start_app e (Some bs) s = Inr (if r = AEER_OK then AMR_OK else AMR_FAIL, s') \<and> habs s h = None \<and> h \<noteq> NULL_HANDLE \<and>
          ah_app s' = (ah_app s)[i := if r = AEER_OK then h else NULL_HANDLE] \<and> as_app_name s' = as_app_name s \<and>
          ui4_app_id s' = ui4_app_id s \<and> bin_sema (am_bin_sema s) 0 s' \<and> am_wf s'
    | _ \<Rightarrow> am_start_app e (Some bs) s = Inr (AMR_NOT_AUTHORIZED, s)"
proof -
  let ?R = "find (\<lambda>p. reg_name s p = nm) rs" and ?N = "find (\<lambda>i. as_app_name s ! i = nm) [0..<unat (ui4_app_id s)]"
  have N: "named_app nm s = Inr ?N" by (rule named_app_eq [OF assms(1)])
  have G: "u_amb_get_register_info nm s = Inr (case ?R of None \<Rightarrow> NULL | Some x \<Rightarrow> x)" by (rule regs_find(2) [OF assms(2)])
  show ?thesis
  proof (cases ?R)
    case None
    then show ?thesis using G assms(3,4) by (simp add: am_start_app_def arg_str_def)
  next
    case (Some p)
    obtain g where g: "p \<noteq> NULL" "am_regs s p = Some g" "c_str (rg_name g) = Inr nm" by (rule regs_found [OF assms(2) Some])
    note A = am_start_app_def [of e "Some bs" s] arg_str_def assms(3,4) G Some g(1) N
    show ?thesis
    proof (cases ?N)
      case None
      then show ?thesis using Some A by simp
    next
      case (Some i)
      have i: "i < unat (ui4_app_id s)" by (rule find_upt(1) [OF Some])
      then have i30: "i < MAX_APP_NUM" using assms(1) by (simp add: am_wf_def)
      have h: "app_handle i s = Inr (ah_app s ! i)" using i30 assms(1) by (simp add: app_handle_def am_wf_def)
      show ?thesis
      proof (cases "ah_app s ! i = NULL_HANDLE")
        case False
        then show ?thesis using Some A h \<open>?R = Some p\<close> by simp
      next
        case True
        have "start_env e c i g nm r s" by (rule assms(5) [OF \<open>?R = Some p\<close> g(2) Some True])
        note S = am_start_found_ok [OF assms(1) i30 this]
        have "am_start_app e (Some bs) s = am_start_found e i g nm s" using Some A h True g(2,3) \<open>?R = Some p\<close> by simp
        then show ?thesis using S True Some \<open>?R = Some p\<close> by auto
      qed
    qed
  qed
qed

section \<open>Ending\<close>

definition exit_calls :: "'w app_calls \<Rightarrow> fptr \<Rightarrow> handle \<Rightarrow> fptr \<Rightarrow> ptr \<Rightarrow> nat \<Rightarrow> 'w aee_sys_scheme \<Rightarrow> (bool \<times> 'w aee_sys_scheme) result" where
  "exit_calls c pf h nfy tag mode s =
    then_do (notify c nfy h tag APP_NFY_PRE_EXIT s) (\<lambda>(skip, s).
    if skip then Inr (False, s)
    else then_do (call_exit c pf h mode s) (\<lambda>(r, s).
      then_do (notify c nfy h tag (if r = AEER_OK then APP_NFY_EXIT_OK else APP_NFY_EXIT_FAILED) s) (\<lambda>(_, s).
      Inr (r = AEER_OK, s))))"

lemma handle_exit_msg:
  assumes "addr_ok [nfy, tag, mode, u]"
  shows "app_handle_msg c h a (app_header APPMAN_MSG_EXIT nfy tag mode u @ r) s = exit_calls c (ma_exit a) h nfy tag mode s"
proof -
  note w = header_words [of APPMAN_MSG_EXIT nfy tag mode u r]
  show ?thesis using assms
    by (simp add: app_handle_msg_def exit_calls_def addr_ok_def Let_def w [unfolded One_nat_def] cong: if_cong)
qed

lemma u_app_exit_sends:
  assumes "app_queue h q n z s ms" "ev_lock e = 0" "HEADER_SIZE \<le> z" "length ms < n"
  obtains s' where "u_app_exit e h mode f tag s = Inr (AEER_OK, s')"
    "app_queue h q n z s' (ms @ [app_header APPMAN_MSG_EXIT f tag mode (ev_junk e 2)])" "aee_bufs s' = aee_bufs s" "aee_sys.more s' = aee_sys.more s"
proof -
  let ?m = "app_header APPMAN_MSG_EXIT f tag mode (ev_junk e 2)"
  have r: "hq_rel q n z (aee_qs s) ms" using assms(1) by (simp add: app_queue_def)
  have "?m \<noteq> []" using length_app_header by (metis list.size(3) zero_neq_numeral)
  then obtain qs where qs: "x_msg_q_send 4 0 q (Some ?m) HEADER_SIZE (aee_qs s) = Inr (OSR_OK, qs)" "hq_rel q n z qs (ms @ [?m])"
    using hq_rel_send(1) [OF r, of ?m] assms(3,4) by auto
  have "u_app_exit e h mode f tag s = Inr (AEER_OK, s\<lparr>aee_qs := qs\<rparr>)"
    using app_queue_get [OF assms(1)] qs(1) assms(2) by (simp add: u_app_exit_def appman_send_msg_def app_result_def)
  then show thesis using that app_queue_set(2) [OF assms(1) qs(2)] by simp
qed

text \<open>The application answers the manager.\<close>

lemma exit_answers:
  assumes i: "\<And>s. \<exists>s'. call_exit c pf h mode s = Inr (r, s') \<and> aee_sys.more s' = aee_sys.more s" and pf: "pf \<noteq> fn_am_app_exit_fct"
    and b: "bin_sema (am_bin_sema s) 0 s" and fl: "am_flags s tag = Some f" and tg: "tag \<noteq> NULL"
  obtains s1 v where "exit_calls (am_calls e at c) pf h fn_am_app_nfy_fct tag mode s = Inr (r = AEER_OK,
      s1\<lparr>am_flags := (am_flags s)(tag \<mapsto> r = AEER_OK), am_semas := (am_semas s)(am_bin_sema s \<mapsto> v)\<rparr>)"
    "aee_sys.more s1 = aee_sys.more s" "se_type v = X_SEMA_TYPE_BINARY" "se_value v = 1"
proof -
  obtain s1 where s1: "call_exit c pf h mode s = Inr (r, s1)" "aee_sys.more s1 = aee_sys.more s" using i by blast
  note F = more_am [OF s1(2)]
  have b1: "bin_sema (am_bin_sema s1) 0 s1" and f1: "am_flags s1 tag = Some f" using b fl by (simp_all add: bin_sema_def F)
  let ?reason = "if r = AEER_OK then APP_NFY_EXIT_OK else APP_NFY_EXIT_FAILED"
  have ok: "(?reason \<in> {1, 4, 7}) = (r = AEER_OK)" "?reason \<in> {1, 2, 4, 5, 7, 8}" by simp_all
  obtain v where v: "am_app_nfy_fct (an_self e) h tag ?reason s1 = Inr (False, s1\<lparr>am_flags := (am_flags s1)(tag \<mapsto> ?reason \<in> {1, 4, 7}),
      am_semas := (am_semas s1)(am_bin_sema s1 \<mapsto> v)\<rparr>)" "se_type v = X_SEMA_TYPE_BINARY" "se_value v = 1"
    by (rule am_nfy_result [OF b1 f1 tg ok(2)])
  have pre: "am_app_nfy_fct (an_self e) h tag APP_NFY_PRE_EXIT s = Inr (False, s)" by (simp add: am_app_nfy_fct_def)
  have "exit_calls (am_calls e at c) pf h fn_am_app_nfy_fct tag mode s = Inr (r = AEER_OK,
      s1\<lparr>am_flags := (am_flags s)(tag \<mapsto> r = AEER_OK), am_semas := (am_semas s)(am_bin_sema s \<mapsto> v)\<rparr>)"
    using s1(1) v(1) pre pf F unfolding ok(1) by (simp add: exit_calls_def notify_def am_calls_def)
  then show thesis using that s1(2) v(2,3) by blast
qed

text \<open>C19 The request to end an application: the first one of the name that has been started is asked to end, and the
  manager waits for its answer.  Whatever the answer is, the manager forgets the application and reports success; but
  the application ends only when it has agreed.\<close>

theorem am_exit_forgets:
  assumes "am_wf s" "c_str bs = Inr nm" "find (\<lambda>i. ah_app s ! i \<noteq> NULL_HANDLE \<and> as_app_name s ! i = nm) [0..<unat (ui4_app_id s)] = Some i"
    and "app_queue (ah_app s ! i) q n z s []" "0 < n" "HEADER_SIZE \<le> z" "app_main a q z s"
    and "ev_lock (an_call e i 0) = 0" "\<forall>s. an_others e i 0 s = s" "addr_ok [an_tag e, ev_junk (an_call e i 0) 2]" "an_tag e \<noteq> NULL"
    and "bin_sema (am_bin_sema s) 0 s" "an_wait e (am_bin_sema s) = while_waiting (appman_turn (am_calls e' at c) ea (ah_app s ! i) a)" "ev_lock ea = 0"
    and "\<forall>s'. \<exists>s2. call_exit c (ma_exit a) (ah_app s ! i) APP_EXIT_DEMAND s' = Inr (r, s2) \<and> aee_sys.more s2 = aee_sys.more s'"
    and "ma_exit a \<noteq> fn_am_app_exit_fct"
  shows "\<exists>s1 s2 s'. u_app_exit (an_call e i 0) (ah_app s ! i) APP_EXIT_DEMAND fn_am_app_nfy_fct (an_tag e)
      (s\<lparr>am_flags := (am_flags s)(an_tag e \<mapsto> False)\<rparr>) = Inr (AEER_OK, s1) \<and>
    appman_turn (am_calls e' at c) ea (ah_app s ! i) a s1 = Inr (Returned (r = AEER_OK, s2)) \<and>
    am_exit_app e (Some bs) s = Inr (AMR_OK, s') \<and> ah_app s' = (ah_app s)[i := NULL_HANDLE] \<and> as_app_name s' = as_app_name s \<and>
    ui4_app_id s' = ui4_app_id s \<and> bin_sema (am_bin_sema s) 0 s' \<and> am_wf s'"
proof -
  let ?h = "ah_app s ! i" and ?E = "an_call e i 0" and ?bn = "am_bin_sema s" and ?tag = "an_tag e"
  let ?s0 = "s\<lparr>am_flags := (am_flags s)(?tag \<mapsto> False)\<rparr>"
  have q0: "app_queue ?h q n z ?s0 []" using truncate_app(1) [of ?s0 s] assms(4) by simp
  obtain s1 where s1: "u_app_exit ?E ?h APP_EXIT_DEMAND fn_am_app_nfy_fct ?tag ?s0 = Inr (AEER_OK, s1)"
    "app_queue ?h q n z s1 ([] @ [app_header APPMAN_MSG_EXIT fn_am_app_nfy_fct ?tag APP_EXIT_DEMAND (ev_junk ?E 2)])"
    "aee_bufs s1 = aee_bufs ?s0" "aee_sys.more s1 = aee_sys.more ?s0"
    by (rule u_app_exit_sends [OF q0 assms(8,6), of APP_EXIT_DEMAND fn_am_app_nfy_fct ?tag]) (use assms(5) in simp_all)
  note F1 = more_am [OF s1(4)]
  have m1: "app_main a q z s1" using assms(7) s1(3) by (simp add: app_main_def)
  obtain s2 rest where s2: "appman_turn (am_calls e' at c) ea ?h a s1 = then_do (app_handle_msg (am_calls e' at c) ?h a
      (app_header APPMAN_MSG_EXIT fn_am_app_nfy_fct ?tag APP_EXIT_DEMAND (ev_junk ?E 2) @ rest) s2) (\<lambda>x. Inr (Returned x))"
    "aee_sys.more s2 = aee_sys.more s1"
    using turn_receives [OF s1(2) [unfolded append_Nil] m1 assms(14)] by metis
  note F2 = more_am [OF s2(2)]
  have b2: "bin_sema (am_bin_sema s2) 0 s2" "am_flags s2 ?tag = Some False" using assms(12) F1 F2 by (simp_all add: bin_sema_def)
  have ex: "\<exists>s'. call_exit c (ma_exit a) ?h APP_EXIT_DEMAND s = Inr (r, s') \<and> aee_sys.more s' = aee_sys.more s" for s using assms(15) by blast
  have ad: "addr_ok [fn_am_app_nfy_fct, ?tag, APP_EXIT_DEMAND, ev_junk ?E 2]" using assms(10) by (simp add: addr_ok_def)
  obtain s3 v where s3: "exit_calls (am_calls e' at c) (ma_exit a) ?h fn_am_app_nfy_fct ?tag APP_EXIT_DEMAND s2 = Inr (r = AEER_OK,
      s3\<lparr>am_flags := (am_flags s2)(?tag \<mapsto> r = AEER_OK), am_semas := (am_semas s2)(am_bin_sema s2 \<mapsto> v)\<rparr>)"
    "aee_sys.more s3 = aee_sys.more s2" "se_type v = X_SEMA_TYPE_BINARY" "se_value v = 1"
    by (rule exit_answers [OF ex assms(16) b2 assms(11)])
  let ?s4 = "s3\<lparr>am_flags := (am_flags s2)(?tag \<mapsto> r = AEER_OK), am_semas := (am_semas s2)(am_bin_sema s2 \<mapsto> v)\<rparr>"
  note F3 = more_am [OF s3(2)]
  have turn: "appman_turn (am_calls e' at c) ea ?h a s1 = Inr (Returned (r = AEER_OK, ?s4))"
    unfolding s2(1) handle_exit_msg [OF ad] s3(1) by simp
  then have wt: "an_wait e ?bn s1 = ?s4" by (simp add: assms(13) while_waiting_def)
  have b1: "bin_sema ?bn 0 s1" using assms(12) F1 by (simp add: bin_sema_def)
  obtain u where u: "wait_sema e ?bn s1 = Inr (?s4\<lparr>am_semas := (am_semas ?s4)(?bn \<mapsto> u)\<rparr>)" "se_type u = X_SEMA_TYPE_BINARY" "se_value u = 0"
    using wait_bin [OF b1, where e = e, unfolded wt] s3(3,4) F1 F2 by (auto simp: bin_sema_def)
  let ?s5 = "?s4\<lparr>am_semas := (am_semas ?s4)(?bn \<mapsto> u)\<rparr>" and ?ah = "(ah_app s)[i := NULL_HANDLE]"
  have i: "i < length (ah_app s)" using find_upt(1) [OF assms(3)] assms(1) by (simp add: am_wf_def)
  have set5: "set_app i NULL_HANDLE ?s5 = Inr (?s5\<lparr>ah_app := ?ah\<rparr>)" using i F1 F2 F3 by (simp add: set_app_def)
  have h0: "app_handle i ?s0 = Inr ?h" using i by (simp add: app_handle_def)
  let ?s' = "?s5\<lparr>ah_app := ?ah, am_flags := (am_flags ?s5)(?tag := None)\<rparr>"
  have "retry (\<lambda>r i4 s. let s = an_others e i r s in then_do (app_handle i s) (\<lambda>h.
      then_do (u_app_exit (an_call e i r) h APP_EXIT_DEMAND fn_am_app_nfy_fct (an_tag e) s) (\<lambda>(i4, s).
        if i4 = AEER_OK then then_do (wait_sema e (am_bin_sema s) s) (\<lambda>s. then_do (set_app i NULL_HANDLE s) (\<lambda>s. Inr (True, i4, s)))
        else Inr (False, i4, s)))) 0 AMR_OK ?s0 = Inr (AEER_OK, ?s5\<lparr>ah_app := ?ah\<rparr>)"
    by (rule retry_stops) (use assms(9) h0 s1(1) u(1) set5 F1(3) in simp_all)
  then have "am_exit_app e (Some bs) s = Inr (AMR_OK, ?s')"
    using started_app_eq [OF assms(1), of nm] assms(2,3) unfolding am_exit_app_def with_flag_def arg_str_def by simp
  moreover have "ah_app ?s' = ?ah" "as_app_name ?s' = as_app_name s" "ui4_app_id ?s' = ui4_app_id s" using F1 F2 F3 by simp_all
  moreover have "bin_sema ?bn 0 ?s'" using u(2,3) by (simp add: bin_sema_def)
  moreover have "am_wf ?s'" using assms(1) F1 F2 F3 by (simp add: am_wf_def)
  ultimately show ?thesis using turn s1(1) by blast
qed

end
