(* ===== verification/AmRun.thy ===== *)
theory AmRun
  imports AmStart
begin

text \<open>Runs of the application manager and its broker on which the properties apply.\<close>

section \<open>States\<close>

definition bin0 :: sema where
  "bin0 = \<lparr>se_type = X_SEMA_TYPE_BINARY, se_thread = None, se_value = 0, se_selfcount = 0\<rparr>"

text \<open>The registration of the application \<open>ws\<close>.\<close>

definition demo_reg :: amb_reg where
  "demo_reg = \<lparr>rg_prev = NULL, rg_next = NULL, rg_name = name_bytes ''ws'', rg_fcts = demo_fcts, rg_desc = demo_desc\<rparr>"

lemma demo_reg_name: "c_str (name_bytes ''ws'') = Inr ''ws''" "length (name_bytes ''ws'') = 17"
  using c_str_name [of "''ws''" "[]"] by (simp_all add: name_bytes_def Let_def)

text \<open>The execution environment of \<open>s\<close>, with a manager that knows \<open>k\<close> applications.\<close>

definition with_am :: "'w aee_sys_scheme \<Rightarrow> handle list \<Rightarrow> u32 \<Rightarrow> ptr \<Rightarrow> am_sys" where
  "with_am s hs k regs = aee_sys.extend (aee_sys.truncate s) \<lparr>h_am = 1, am_mtx_sema = 501, am_bin_sema = 502, am_dbg_level = 0, am_tms_level = 0,
     ah_app = hs, ui4_app_id = k, as_app_name = ''ws'' # replicate 29 [], pt_g_regs = regs, h_g_am = 1, h_g_mtx_sema = 503,
     h_g_bin_sema = 504, amb_dbg_level = 1, am_regs = [600 \<mapsto> demo_reg],
     am_semas = [501 \<mapsto> mutex_of None, 502 \<mapsto> bin0, 503 \<mapsto> mutex_of None, 504 \<mapsto> bin0], am_flags = Map.empty, am_strs = [700 \<mapsto> ''ws'']\<rparr>"

lemma with_am_truncate: "aee_sys.truncate (with_am s hs k regs) = aee_sys.truncate s"
  by (simp add: with_am_def aee_sys.extend_def aee_sys.truncate_def)

lemma with_am_sel [simp]:
  "h_am (with_am s hs k regs) = 1" "am_bin_sema (with_am s hs k regs) = 502" "ah_app (with_am s hs k regs) = hs"
  "ui4_app_id (with_am s hs k regs) = k" "as_app_name (with_am s hs k regs) = ''ws'' # replicate 29 []"
  "pt_g_regs (with_am s hs k regs) = regs" "h_g_am (with_am s hs k regs) = 1" "h_g_mtx_sema (with_am s hs k regs) = 503"
  "h_g_bin_sema (with_am s hs k regs) = 504" "am_regs (with_am s hs k regs) = [600 \<mapsto> demo_reg]"
  "am_semas (with_am s hs k regs) = [501 \<mapsto> mutex_of None, 502 \<mapsto> bin0, 503 \<mapsto> mutex_of None, 504 \<mapsto> bin0]"
  "am_flags (with_am s hs k regs) = Map.empty" "am_strs (with_am s hs k regs) = [700 \<mapsto> ''ws'']"
  by (simp_all add: with_am_def aee_sys.extend_def)

lemma with_am_semas: "bin_sema 502 0 (with_am s hs k regs)" "bin_sema 504 0 (with_am s hs k regs)"
  by (simp_all add: bin_sema_def bin0_def)

lemma with_am_regs: "regs_ok (with_am s hs k 600) [600]" "reg_name (with_am s hs k regs) 600 = ''ws''" "regs_ok (with_am s hs k 0) []"
  by (simp_all add: regs_ok_def reg_next_def reg_name_def demo_reg_def demo_reg_name)

lemma with_am_wf: "length hs = 30 \<Longrightarrow> unat k \<le> 30 \<Longrightarrow> am_wf (with_am s hs k regs)"
  by (simp add: am_wf_def)

text \<open>The application of theory \<open>AppRun\<close>, once as the manager and once as the application number 0.\<close>

definition am_idle :: am_sys where
  "am_idle = with_am one_app (replicate 30 0) 1 600"

definition am_fresh :: am_sys where
  "am_fresh = with_am one_app (replicate 30 0) 0 0"

definition am_busy :: am_sys where
  "am_busy = with_am one_app (1 # replicate 29 0) 1 600"

definition am_empty :: am_sys where
  "am_empty = with_am no_apps (replicate 30 0) 1 600"


abbreviation mgr_arg :: app_main_arg where "mgr_arg \<equiv> demo_arg\<lparr>ma_process := fn_am_app_process_msg_fct\<rparr>"

lemma one_app_am: "app_queue 1 1300 4 64 (with_am one_app hs k regs) []" "app_main demo_arg 1300 64 (with_am one_app hs k regs)"
  "app_main mgr_arg 1300 64 (with_am one_app hs k regs)"
proof -
  have t: "aee_sys.truncate (with_am one_app hs k regs) = aee_sys.truncate one_app" by (rule with_am_truncate)
  show "app_queue 1 1300 4 64 (with_am one_app hs k regs) []" "app_main demo_arg 1300 64 (with_am one_app hs k regs)"
    using truncate_app(1,2) [OF t] one_app_queue one_app_main by simp_all
  then show "app_main mgr_arg 1300 64 (with_am one_app hs k regs)" by (simp add: app_main_def)
qed

definition am_cbs :: "unit am_sys_ext callbacks" where
  "am_cbs = \<lparr>other_free = (\<lambda>_ _ _ _ _ _ s. Inr (False, s)), other_aux_free = (\<lambda>_ _ s. Inr s), other_auto = (\<lambda>_ _ _ s. Inr (HR_OK, s)),
     other_tbl = (\<lambda>_ _. NULL)\<rparr>"

definition am_demo_env :: "(ptr \<Rightarrow> am_sys \<Rightarrow> am_sys) \<Rightarrow> unit am_sys_ext am_env" where
  "am_demo_env w = \<lparr>an_cbs = am_cbs, an_call = (\<lambda>_ _. demo_env), an_others = (\<lambda>_ _ s. s), an_wait = w, an_self = 3, an_tag = 900,
     an_sema = (\<lambda>i k. (500 + i, True)), an_destroy = (\<lambda>_. True), an_log = False, an_now = 0, an_period = 10\<rparr>"

abbreviation am_env0 :: "unit am_sys_ext am_env" where "am_env0 \<equiv> am_demo_env (\<lambda>_ s. s)"

text \<open>The functions of the application: its exit refuses.\<close>

definition demo_calls :: "unit am_sys_ext app_calls" where
  "demo_calls = \<lparr>call_nfy = (\<lambda>_ _ _ _ s. Inr (False, s)), call_init = (\<lambda>_ _ _ s. Inr (AEER_OK, s)),
     call_exit = (\<lambda>_ _ _ s. Inr (AEER_FAIL, s)), call_process = (\<lambda>_ _ _ _ _ _ s. Inr (AEER_OK, s))\<rparr>"

lemma demo_env_sel: "ev_lock demo_env = 0" "ev_pvt demo_env = 1500" "ev_self demo_env = 7" "ev_started demo_env = Some (7, 50)"
  "ev_junk demo_env i = 0" "ev_aee demo_env = 1000" "ev_thread demo_env = 1400"
  by (simp_all add: demo_env_def)

lemma demo_can_send: "len \<le> 40 \<Longrightarrow> can_send demo_env len"
  by (simp add: can_send_def demo_env_def two_parts_buffer_def)

lemma demo_quiet: "len \<le> 40 \<Longrightarrow> quiet (am_demo_env w) len"
  using demo_can_send by (simp add: quiet_def am_demo_env_def)

section \<open>Messages\<close>

lemma busy_sel: "ui4_app_id am_busy = 1" "ah_app am_busy ! 0 = 1" "as_app_name am_busy ! 0 = ''ws''" "am_strs am_busy = [700 \<mapsto> ''ws'']"
  by (simp_all add: am_busy_def)

lemma busy_started: "started am_busy i \<longleftrightarrow> i = 0"
  using busy_sel(2) by (auto simp: started_def busy_sel(1))

lemma busy_queues: "am_queues (\<lambda>_. 1300) (\<lambda>_. 4) (\<lambda>_. 64) am_busy (\<lambda>_. [])"
proof -
  have "app_queue 1 1300 4 64 am_busy []" unfolding am_busy_def by (rule one_app_am(1))
  moreover have "am_wf am_busy" unfolding am_busy_def by (rule with_am_wf) simp_all
  ultimately show ?thesis by (auto simp: am_queues_def busy_started inj_on_def busy_sel)
qed

definition demo_msg :: amb_broadcast_msg where
  "demo_msg = \<lparr>bm_type = 65536, bm_msg = replicate 24 7, bm_len = 3\<rparr>"

theorem am_broadcast_delivers_witness:
  "\<exists>s'. am_broadcast_msg am_env0 (Some (broadcast_bytes demo_msg)) False am_busy = Inr (AMR_OK, s') \<and>
     app_queue 1 1300 4 64 s' [app_msg fn_am_app_nfy_fct NULL 65536 (replicate 3 7)]"
proof -
  obtain s' where s': "am_broadcast_msg am_env0 (Some (broadcast_bytes demo_msg @ [])) False am_busy =
      Inr (case find (started am_busy) [0..<unat (ui4_app_id am_busy)] of None \<Rightarrow> AMR_OK | Some i \<Rightarrow> put_result (\<lambda>_. 4) (\<lambda>_. []) i, s')"
    "am_queues (\<lambda>_. 1300) (\<lambda>_. 4) (\<lambda>_. 64) s' (\<lambda>i. if started am_busy i then put (\<lambda>_. 4) (app_msg fn_am_app_nfy_fct NULL (bm_type demo_msg)
       (take (unat (bm_len demo_msg)) (bm_msg demo_msg))) (\<lambda>_. []) i else [])" "ah_app s' = ah_app am_busy" "ui4_app_id s' = ui4_app_id am_busy"
    using am_broadcast_delivers [OF busy_queues demo_quiet, of demo_msg "\<lambda>_ s. s" "[]"] by (auto simp: demo_msg_def)
  then have "started s' 0" by (simp add: started_def busy_sel)
  then have "app_queue 1 1300 4 64 s' [app_msg fn_am_app_nfy_fct NULL 65536 (replicate 3 7)]"
    using s'(2,3) unfolding am_queues_def by (auto simp: busy_started busy_sel put_def demo_msg_def dest!: spec [of _ 0])
  then show ?thesis using s'(1) by (simp add: busy_started put_result_def busy_sel)
qed

definition demo_dispatch :: amb_dispatch_msg where
  "demo_dispatch = \<lparr>dm_name = 700, dm_type = 9, dm_msg = replicate 20 5, dm_len = 2\<rparr>"

theorem am_dispatch_reaches_witness:
  "\<exists>s'. am_dispatch_msg am_env0 (Some (dispatch_bytes demo_dispatch)) am_busy = Inr (AMR_OK, s') \<and>
     app_queue 1 1300 4 64 s' [app_msg fn_am_app_nfy_fct NULL 9 (replicate 2 5)]"
proof -
  have f: "find (\<lambda>i. started am_busy i \<and> as_app_name am_busy ! i = ''ws'') [0..<unat (ui4_app_id am_busy)] = Some 0"
    by (simp add: busy_started busy_sel)
  obtain s' where s': "am_dispatch_msg am_env0 (Some (dispatch_bytes demo_dispatch @ [])) am_busy = Inr (put_result (\<lambda>_. 4) (\<lambda>_. []) 0, s')"
    "am_queues (\<lambda>_. 1300) (\<lambda>_. 4) (\<lambda>_. 64) s' ((\<lambda>_. [])(0 := put (\<lambda>_. 4) (app_msg fn_am_app_nfy_fct NULL (dm_type demo_dispatch)
       (take (unat (dm_len demo_dispatch)) (dm_msg demo_dispatch))) (\<lambda>_. []) 0))" "aee_sys.more s' = aee_sys.more am_busy"
    using am_dispatch_reaches [OF busy_queues demo_quiet, of demo_dispatch "''ws''" "\<lambda>_ s. s" "[]", unfolded f] by (auto simp: demo_dispatch_def busy_sel)
  note F = more_am [OF s'(3)]
  have "started s' 0" by (simp add: started_def F busy_sel)
  then have "app_queue 1 1300 4 64 s' [app_msg fn_am_app_nfy_fct NULL 9 (replicate 2 5)]"
    using s'(2) F(4) unfolding am_queues_def by (auto simp: busy_sel put_def demo_dispatch_def dest!: spec [of _ 0])
  then show ?thesis using s'(1) by (simp add: put_result_def)
qed

section \<open>Requests\<close>

lemma am_cbs_keep: "cbs_keep P am_cbs"
  by (simp add: cbs_keep_def free_keeps_def aux_keeps_def auto_keeps_def am_cbs_def)

lemma am_env0_keeps: "env_keeps am_env0"
  by (simp add: env_keeps_def am_cbs_keep am_demo_env_def)

lemma fresh_wf: "am_wf am_fresh" "ui4_app_id am_fresh = 0"
proof -
  show "am_wf am_fresh" unfolding am_fresh_def by (rule with_am_wf) simp_all
  show "ui4_app_id am_fresh = 0" by (simp add: am_fresh_def)
qed

theorem am_requests_keep_bounds_witness:
  "\<exists>s'. am_app_process_msg_fct am_env0 1 AMB_REQUEST_REG (Some (name_bytes ''ws'')) 17 False am_fresh = Inr (AEER_OK, s') \<and>
     ui4_app_id s' = 1 \<and> am_wf s' \<and> unat (ui4_app_id am_fresh) < 30"
proof -
  have k: "unat (ui4_app_id am_fresh) < 30" by (simp add: fresh_wf(2))
  note r = process_reg [OF fresh_wf(1) k demo_reg_name(1), of am_env0 1 17 False]
  show ?thesis using r am_requests_keep_bounds [OF fresh_wf(1) am_env0_keeps r] by (simp add: fresh_wf(2))
qed

theorem am_request_arrives_witness:
  "\<exists>s' s1 rest. amb_lifecycle_req am_env0 (Some ''ws'') AMB_REQUEST_START False am_idle = Inr (AMBR_OK, s') \<and>
     appman_turn (am_calls am_env0 Some demo_calls) demo_env 1 mgr_arg s' =
       then_do (am_app_process_msg_fct am_env0 1 AMB_REQUEST_START (Some (name_bytes ''ws'' @ rest)) 17 False s1) (\<lambda>(_, s). Inr (Returned (False, s)))"
proof -
  have q: "app_queue (h_g_am am_idle) 1300 4 64 am_idle []" "app_main mgr_arg 1300 64 am_idle"
    using one_app_am(1,3) [of "replicate 30 0" 1 600] by (simp_all only: am_idle_def with_am_sel)
  have g: "regs_ok am_idle [600]" "find (\<lambda>p. reg_name am_idle p = ''ws'') [600] = Some 600" "am_regs am_idle 600 = Some demo_reg"
    unfolding am_idle_def by (simp_all add: with_am_regs del: replicate.simps)
  have r: "rg_name demo_reg = name_bytes ''ws''" by (simp add: demo_reg_def)
  have c: "length (rg_name demo_reg) = 16 + 1" "ma_process mgr_arg = fn_am_app_process_msg_fct" "can_send (an_call am_env0 0 0) (16 + 1)"
    "\<And>s. an_others am_env0 0 0 s = s" "ev_lock demo_env = 0"
    using demo_can_send [of 17] by (simp_all add: r demo_reg_name am_demo_env_def demo_env_sel)
  show ?thesis
    using am_request_arrives [OF g c(1) q(1) _ _ q(2) c(2-5), of AMB_REQUEST_START am_env0 Some demo_calls 1] by (auto simp: r)
qed

abbreviation mgr_env :: "unit am_sys_ext am_env" where
  "mgr_env \<equiv> am_demo_env (\<lambda>_. while_waiting (appman_turn (am_calls am_env0 Some demo_calls) demo_env 1 mgr_arg))"

lemma mgr_env_sel: "an_call mgr_env i r = demo_env" "an_others mgr_env i r s = s" "an_tag mgr_env = 900" "an_cbs mgr_env = am_cbs"
  "an_wait mgr_env p = while_waiting (appman_turn (am_calls am_env0 Some demo_calls) demo_env 1 mgr_arg)"
  by (simp_all add: am_demo_env_def)

theorem amb_register_reaches_witness:
  "\<exists>s'. u_amb_register_app mgr_env 600 am_fresh = Inr (AMBR_OK, s') \<and> regs_ok s' [600] \<and> ui4_app_id s' = 1 \<and> as_app_name s' ! 0 = ''ws''"
proof -
  have q: "app_queue (h_g_am am_fresh) 1300 4 64 am_fresh []" "app_main mgr_arg 1300 64 am_fresh"
    using one_app_am(1,3) [of "replicate 30 0" 0 0] by (simp_all only: am_fresh_def with_am_sel)
  have s: "am_regs am_fresh 600 = Some demo_reg" "am_semas am_fresh (h_g_mtx_sema am_fresh) = Some (mutex_of None)"
    "h_g_mtx_sema am_fresh \<noteq> h_g_bin_sema am_fresh" "as_app_name am_fresh = ''ws'' # replicate 29 []"
    by (simp_all only: am_fresh_def with_am_sel) simp_all
  have b: "bin_sema (h_g_bin_sema am_fresh) 0 am_fresh" using with_am_semas(2) by (simp only: am_fresh_def with_am_sel)
  have g: "regs_ok am_fresh []" unfolding am_fresh_def by (rule with_am_regs)
  have ref: "\<not> reg_refused demo_reg" by (simp add: reg_refused_def demo_reg_def demo_fcts_def demo_desc_def g_app_desc_def)
  have nm: "c_str (rg_name demo_reg) = Inr ''ws''" by (simp add: demo_reg_def demo_reg_name)
  have "\<exists>s'. u_amb_register_app mgr_env 600 am_fresh = Inr (AMBR_OK, s') \<and> regs_ok s' [600] \<and> reg_name s' 600 = ''ws'' \<and> am_wf s' \<and>
    as_app_name s' = (as_app_name am_fresh)[unat (ui4_app_id am_fresh) := take APP_NAME_MAX_LEN ''ws''] \<and> ui4_app_id s' = ui4_app_id am_fresh + 1 \<and>
    ah_app s' = ah_app am_fresh \<and>
    am_semas s' (h_g_mtx_sema am_fresh) = Some (mutex_of None) \<and> bin_sema (h_g_bin_sema am_fresh) 0 s'"
    by (rule amb_register_reaches [OF g s(1) _ ref nm _ fresh_wf(1) _ q(1) _ _ q(2) _ _ _ _ _ _ s(2) b s(3) mgr_env_sel(5)])
      (use demo_can_send [of "Suc (Suc (Suc 0))"] in \<open>simp_all add: mgr_env_sel fresh_wf(2) demo_env_sel\<close>)
  then show ?thesis using s(4) fresh_wf(2) by auto
qed

section \<open>Start and end\<close>

lemma empty_start: "am_wf am_empty" "start_env (am_demo_env (\<lambda>_. while_waiting (app_comes_up (am_calls am_env0 Some demo_calls) demo_env 1400))) demo_calls
    0 demo_reg ''ws'' AEER_OK am_empty"
proof -
  show "am_wf am_empty" unfolding am_empty_def by (rule with_am_wf) simp_all
  let ?e = "am_demo_env (\<lambda>_. while_waiting (app_comes_up (am_calls am_env0 Some demo_calls) demo_env 1400))"
  have t: "aee_sys.truncate am_empty = aee_sys.truncate no_apps" unfolding am_empty_def by (rule with_am_truncate)
  note T = truncate_app(3-5) [OF t]
  have i: "handle_inv am_empty Map.empty (\<lambda>_. [])" by (rule handle_inv_truncate [OF no_apps_sel(1) truncate_aee(1) [OF t]])
  have l: "aee_list am_empty []" "ui2_num_free am_empty > 12" by (simp_all add: T no_apps_sel)
  have "ad_app_id demo_desc = 1" by (simp add: demo_desc_def)
  have m0: "may_start demo_env demo_fcts (am_start_desc demo_reg 0) ''ws'' no_apps"
    using demo_may_start by (simp add: may_start_def may_create_def app_aee_desc_def app_start_arg_def am_start_desc_def demo_reg_def demo_desc_def)
  have m: "may_start demo_env demo_fcts (am_start_desc demo_reg 0) ''ws'' am_empty" by (simp only: T m0)
  have b: "bin_sema (am_bin_sema am_empty) 0 am_empty" using with_am_semas(1) by (simp only: am_empty_def with_am_sel)
  have a: "start_addr_ok demo_env demo_fcts fn_am_app_nfy_fct 900" by (simp add: start_addr_ok_def addr_ok_def demo_env_def demo_fcts_def)
  have e: "an_call ?e 0 0 = demo_env" "an_tag ?e = 900"
    "an_wait ?e (am_bin_sema am_empty) = while_waiting (app_comes_up (am_calls am_env0 Some demo_calls) demo_env (ev_thread demo_env))"
    by (simp_all add: am_demo_env_def demo_env_def)
  have d: "rg_fcts demo_reg = demo_fcts" "pf_init demo_fcts \<noteq> fn_am_app_init_fct" "ev_self demo_env = fst (the (ev_started demo_env))"
    "ev_pvt demo_env \<noteq> NULL" "ev_lock demo_env = 0" "call_init demo_calls f x h s = Inr (AEER_OK, s)" for f x h s
    by (simp_all add: demo_reg_def demo_fcts_def demo_env_def demo_calls_def)
  have w: "\<exists>ea e' at. an_wait ?e (am_bin_sema am_empty) = while_waiting (app_comes_up (am_calls e' at demo_calls) ea (ev_thread demo_env)) \<and>
      ev_self ea = fst (the (ev_started demo_env)) \<and> ev_pvt ea \<noteq> NULL \<and> ev_lock ea = 0"
    using e(3) d(3-5) by blast
  have k: "\<exists>L A ps. handle_inv am_empty L A \<and> aee_list am_empty ps \<and> ev_aee demo_env \<notin> set ps" using i l(1) by fastforce
  show "start_env ?e demo_calls 0 demo_reg ''ws'' AEER_OK am_empty"
    unfolding start_env_def e(1,2) d(1) using k w l(2) m a b d(2,6) by simp
qed

theorem am_start_waits_witness:
  "\<exists>h s'. am_start_app (am_demo_env (\<lambda>_. while_waiting (app_comes_up (am_calls am_env0 Some demo_calls) demo_env 1400)))
       (Some (name_bytes ''ws'')) am_empty = Inr (AMR_OK, s') \<and> h \<noteq> NULL_HANDLE \<and> ah_app s' ! 0 = h"
proof -
  have g: "regs_ok am_empty [600]" "reg_name am_empty 600 = ''ws''" unfolding am_empty_def by (rule with_am_regs)+
  have s: "pt_g_regs am_empty \<noteq> NULL" "am_regs am_empty = [600 \<mapsto> demo_reg]" "ui4_app_id am_empty = 1" "as_app_name am_empty ! 0 = ''ws''"
    "ah_app am_empty = replicate 30 0"
    by (simp_all add: am_empty_def del: replicate.simps)
  have f: "find (\<lambda>p. reg_name am_empty p = ''ws'') [600] = Some 600"
    "find (\<lambda>i. as_app_name am_empty ! i = ''ws'') [0..<unat (ui4_app_id am_empty)] = Some 0" using g(2) s by simp_all
  note T = am_start_waits [OF empty_start(1) g(1) s(1) demo_reg_name(1), where r = AEER_OK, unfolded f,
    of "am_demo_env (\<lambda>_. while_waiting (app_comes_up (am_calls am_env0 Some demo_calls) demo_env 1400))" demo_calls]
  have "\<exists>h s'. am_start_app (am_demo_env (\<lambda>_. while_waiting (app_comes_up (am_calls am_env0 Some demo_calls) demo_env 1400)))
       (Some (name_bytes ''ws'')) am_empty = Inr (AMR_OK, s') \<and> h \<noteq> NULL_HANDLE \<and> ah_app s' = (replicate 30 0)[0 := h]"
    using T empty_start(2) s(2,5) by (auto simp del: replicate.simps split: if_splits)
  then show ?thesis by (auto simp del: replicate.simps)
qed

theorem am_exit_forgets_witness:
  "\<exists>s1 s2 s'. appman_turn (am_calls am_env0 Some demo_calls) demo_env 1 demo_arg s1 = Inr (Returned (False, s2)) \<and>
     am_exit_app (am_demo_env (\<lambda>_. while_waiting (appman_turn (am_calls am_env0 Some demo_calls) demo_env 1 demo_arg)))
       (Some (name_bytes ''ws'')) am_busy = Inr (AMR_OK, s') \<and> ah_app s' ! 0 = NULL_HANDLE"
proof -
  let ?e = "am_demo_env (\<lambda>_. while_waiting (appman_turn (am_calls am_env0 Some demo_calls) demo_env 1 demo_arg))"
  have w: "am_wf am_busy" unfolding am_busy_def by (rule with_am_wf) simp_all
  have f: "find (\<lambda>i. ah_app am_busy ! i \<noteq> NULL_HANDLE \<and> as_app_name am_busy ! i = ''ws'') [0..<unat (ui4_app_id am_busy)] = Some 0"
    by (simp add: busy_sel)
  have q: "app_queue (ah_app am_busy ! 0) 1300 4 64 am_busy []" "app_main demo_arg 1300 64 am_busy"
    unfolding busy_sel(2) unfolding am_busy_def by (rule one_app_am)+
  have b: "bin_sema (am_bin_sema am_busy) 0 am_busy" using with_am_semas(1) by (simp only: am_busy_def with_am_sel)
  have e: "ev_lock (an_call ?e 0 0) = 0" "\<forall>s. an_others ?e 0 0 s = s" "addr_ok [an_tag ?e, ev_junk (an_call ?e 0 0) 2]" "an_tag ?e \<noteq> NULL"
    "an_wait ?e (am_bin_sema am_busy) = while_waiting (appman_turn (am_calls am_env0 Some demo_calls) demo_env (ah_app am_busy ! 0) demo_arg)"
    by (simp_all add: am_demo_env_def demo_env_sel addr_ok_def busy_sel)
  have c: "\<forall>s'. \<exists>s2. call_exit demo_calls (ma_exit demo_arg) (ah_app am_busy ! 0) APP_EXIT_DEMAND s' = Inr (AEER_FAIL, s2) \<and>
      aee_sys.more s2 = aee_sys.more s'"
    "ma_exit demo_arg \<noteq> fn_am_app_exit_fct" by (simp_all add: demo_calls_def demo_arg_def)
  have l: "0 < length (ah_app am_busy)" using w by (simp add: am_wf_def)
  show ?thesis
    using am_exit_forgets [OF w demo_reg_name(1) f q(1) _ _ q(2) e(1-4) b e(5) demo_env_sel(1) c] l by (auto simp: busy_sel(2))
qed

end
