(* ===== verification/Ipc.thy ===== *)
theory Ipc
  imports AppMem
begin

text \<open>Requests to the daemons, library/ipcd_ipc/request.c and utility.c: a request is a structure that is sent through
  a socket as it lies in memory; before it is sent, its strings are copied into it and its pointers replaced by a mark.

  What the socket calls return is an argument: \<open>cn_write\<close> and \<open>cn_read\<close> number the calls of one connection; what is read
  depends on the bytes that have been written.\<close>

section \<open>Memory\<close>

text \<open>The blocks of memory of a process, by their first address, and their bytes.  A string is read from its address
  to the next zero; a string that does not end in its block is read past its end.\<close>

type_synonym blocks = "(ptr \<times> u8 list) list"

definition bytes_at :: "ptr \<Rightarrow> blocks \<Rightarrow> u8 list result" where
  "bytes_at q m = (case find (\<lambda>(b, bs). b \<le> q \<and> q < b + length bs) m of
     None \<Rightarrow> Inl BadAccess
   | Some (b, bs) \<Rightarrow> Inr (drop (q - b) bs))"

definition string_at :: "ptr \<Rightarrow> blocks \<Rightarrow> u8 list result" where
  "string_at q m = then_do (bytes_at q m) (\<lambda>bs. if 0 \<in> set bs then Inr (takeWhile (\<lambda>b. b \<noteq> 0) bs) else Inl BadAccess)"

definition put_bytes :: "nat \<Rightarrow> u8 list \<Rightarrow> u8 list \<Rightarrow> u8 list" where
  "put_bytes k xs bs = take k bs @ xs @ drop (k + length xs) bs"

definition write_at :: "ptr \<Rightarrow> u8 list \<Rightarrow> blocks \<Rightarrow> blocks result" where
  "write_at q xs m =
    (if xs = [] then Inr m
     else case find (\<lambda>(b, bs). b \<le> q \<and> q + length xs \<le> b + length bs) m of
       None \<Rightarrow> Inl BadAccess
     | Some (b, bs) \<Rightarrow> Inr (map (\<lambda>x. if x = (b, bs) then (b, put_bytes (q - b) xs bs) else x) m))"

text \<open>\<open>free\<close> takes the first address of a block that has been allocated, or \<open>NULL\<close>.\<close>

definition free_block :: "ptr \<Rightarrow> blocks \<Rightarrow> blocks result" where
  "free_block p m =
    (if p = NULL then Inr m else if p \<in> fst ` set m then Inr (filter (\<lambda>(b, bs). b \<noteq> p) m) else Inl BadAccess)"

definition chars :: "string \<Rightarrow> u8 list" where
  "chars s = map of_char s"

section \<open>Requests\<close>

text \<open>\<open>struct ipcd_request\<close> and \<open>struct netinfd_request\<close> differ only in the names of the two pointers and in the length of
  the array.  The array lies behind six words.\<close>

abbreviation (input) IPCD_REQUEST_MAGIC :: u32 where "IPCD_REQUEST_MAGIC \<equiv> 34096"
abbreviation (input) IPCD_REQUEST_MAX_SIZE :: nat where "IPCD_REQUEST_MAX_SIZE \<equiv> 4196"
abbreviation (input) IPCD_REQUEST_TYPE_EXEC :: u32 where "IPCD_REQUEST_TYPE_EXEC \<equiv> 0"
abbreviation (input) IPCD_REQUEST_TYPE_EXEC_ASYNC :: u32 where "IPCD_REQUEST_TYPE_EXEC_ASYNC \<equiv> 1"
abbreviation (input) IPCD_REQUEST_TYPE_SETENV :: u32 where "IPCD_REQUEST_TYPE_SETENV \<equiv> 2"
abbreviation (input) IPCD_REQUEST_TYPE_GETENV :: u32 where "IPCD_REQUEST_TYPE_GETENV \<equiv> 3"
abbreviation (input) IPCD_REQUEST_TYPE_RESERVED :: u32 where "IPCD_REQUEST_TYPE_RESERVED \<equiv> 4"
abbreviation (input) NETINFD_REQUEST_MAGIC :: u32 where "NETINFD_REQUEST_MAGIC \<equiv> 34096"
abbreviation (input) NETINFD_REQUEST_MAX_SIZE :: nat where "NETINFD_REQUEST_MAX_SIZE \<equiv> 4096"
abbreviation (input) NETINFD_REQUEST_TYPE_GET :: u32 where "NETINFD_REQUEST_TYPE_GET \<equiv> 0"
abbreviation (input) NETINFD_REQUEST_TYPE_SET :: u32 where "NETINFD_REQUEST_TYPE_SET \<equiv> 1"
abbreviation (input) NETINFD_REQUEST_TYPE_DHCP :: u32 where "NETINFD_REQUEST_TYPE_DHCP \<equiv> 2"
abbreviation (input) NETINFD_REQUEST_TYPE_IFCONF :: u32 where "NETINFD_REQUEST_TYPE_IFCONF \<equiv> 3"
abbreviation (input) NETINFD_REQUEST_TYPE_NIENABLE :: u32 where "NETINFD_REQUEST_TYPE_NIENABLE \<equiv> 4"
abbreviation (input) NETINFD_REQUEST_TYPE_DNSLOOKUP :: u32 where "NETINFD_REQUEST_TYPE_DNSLOOKUP \<equiv> 5"
abbreviation (input) NETINFD_REQUEST_TYPE_RESERVED :: u32 where "NETINFD_REQUEST_TYPE_RESERVED \<equiv> 6"
abbreviation (input) STRING_MARK :: ptr where "STRING_MARK \<equiv> 305431856"
abbreviation (input) STRING_OFFSET :: nat where "STRING_OFFSET \<equiv> 24"

record request =
  rq_magic :: u32
  rq_type :: u32
  rq_status :: u32
  rq_reservedLen :: u32
  rq_cmd :: ptr
  rq_priv :: ptr
  rq_string :: "u8 list"

text \<open>The bytes of a request in memory.\<close>

definition request_bytes :: "request \<Rightarrow> u8 list" where
  "request_bytes rq = words_bytes [unat (rq_magic rq), unat (rq_type rq), unat (rq_status rq), unat (rq_reservedLen rq), rq_cmd rq, rq_priv rq] @
     rq_string rq"

definition bytes_request :: "u8 list \<Rightarrow> request" where
  "bytes_request bs = \<lparr>rq_magic = of_nat (get_word bs 0), rq_type = of_nat (get_word bs 1), rq_status = of_nat (get_word bs 2),
     rq_reservedLen = of_nat (get_word bs 3), rq_cmd = get_word bs 4, rq_priv = get_word bs 5, rq_string = drop STRING_OFFSET bs\<rparr>"

text \<open>\<open>htonl\<close> and \<open>ntohl\<close> on the platform.\<close>

definition htonl :: "u32 \<Rightarrow> u32" where
  "htonl w = of_nat (get_word (rev (word_bytes (unat w))) 0)"

text \<open>The strings of the request at \<open>ra\<close> can lie in the request itself.\<close>

definition request_mem :: "ptr \<Rightarrow> u8 list \<Rightarrow> blocks \<Rightarrow> blocks" where
  "request_mem ra str m = (ra + STRING_OFFSET, str) # m"

section \<open>Packing\<close>

text \<open>\<open>next\<close> and \<open>roof\<close> are places in the array, relative to its start; they come from \<open>reservedLen\<close>, which may be any
  number.  A copy outside the array is a bad access.\<close>

definition pack_request_string :: "ptr \<Rightarrow> blocks \<Rightarrow> ptr \<Rightarrow> int \<Rightarrow> int \<Rightarrow> u8 list \<Rightarrow> (int \<times> ptr \<times> int \<times> u8 list) result" where
  "pack_request_string ra m p nxt roof str =
    (if p = NULL then Inr (0, p, nxt, str)
     else then_do (string_at p (request_mem ra str m)) (\<lambda>s.
       let len = length s + 1 in
       if roof - nxt < int len then Inr (-1, p, nxt, str)
       else if nxt < 0 \<or> nat nxt + len > length str then Inl BadAccess
       else Inr (0, STRING_MARK, nxt + int len, put_bytes (nat nxt) (s @ [0]) str)))"

definition unpack_request_string :: "ptr \<Rightarrow> ptr \<Rightarrow> int \<Rightarrow> int \<Rightarrow> u8 list \<Rightarrow> (int \<times> ptr \<times> int) result" where
  "unpack_request_string ra p nxt roof str =
    (if p = NULL then Inr (0, p, nxt)
     else if p = STRING_MARK then
       (if roof \<le> nxt then Inr (-1, p, nxt)
        else if nxt < 0 then Inl BadAccess
        else let w = drop (nat nxt) (take (nat roof) str) in
          if 0 \<in> set w then Inr (0, ra + STRING_OFFSET + nat nxt, nxt + int (length (takeWhile (\<lambda>b. b \<noteq> 0) w)) + 1)
          else if nat roof > length str then Inl BadAccess
          else Inr (-1, p, nxt))
     else Inr (-1, p, nxt))"

text \<open>\<open>types\<close> is the number of request types.  The fields that have been changed stay changed when a later check fails.\<close>

definition pack_fields :: "u32 \<Rightarrow> ptr \<Rightarrow> blocks \<Rightarrow> request \<Rightarrow> (int \<times> request) result" where
  "pack_fields types ra m rq =
    (let nxt = sint (rq_reservedLen rq); roof = nxt + int (length (rq_string rq)) in
     if rq_magic rq \<noteq> IPCD_REQUEST_MAGIC then Inr (-1, rq)
     else let rq = rq\<lparr>rq_magic := htonl (rq_magic rq)\<rparr> in
     if rq_type rq \<ge> types then Inr (-1, rq)
     else let rq = rq\<lparr>rq_type := htonl (rq_type rq)\<rparr> in
     then_do (pack_request_string ra m (rq_cmd rq) nxt roof (rq_string rq)) (\<lambda>(r, p, nxt, str).
       let rq = rq\<lparr>rq_cmd := p, rq_string := str\<rparr> in
       if r < 0 then Inr (-1, rq)
       else then_do (pack_request_string ra m (rq_priv rq) nxt roof (rq_string rq)) (\<lambda>(r, p, nxt, str).
         let rq = rq\<lparr>rq_priv := p, rq_string := str\<rparr> in
         if r < 0 then Inr (-1, rq) else Inr (int STRING_OFFSET + nxt, rq))))"

definition unpack_fields :: "u32 \<Rightarrow> ptr \<Rightarrow> request \<Rightarrow> int \<Rightarrow> (int \<times> request) result" where
  "unpack_fields types ra rq sz =
    (let nxt = sint (rq_reservedLen rq); roof = sz - int STRING_OFFSET in
     if roof < nxt then Inr (-1, rq)
     else let rq = rq\<lparr>rq_magic := htonl (rq_magic rq)\<rparr> in
     if rq_magic rq \<noteq> IPCD_REQUEST_MAGIC then Inr (-1, rq)
     else let rq = rq\<lparr>rq_type := htonl (rq_type rq)\<rparr> in
     if rq_type rq \<ge> types then Inr (-1, rq)
     else then_do (unpack_request_string ra (rq_cmd rq) nxt roof (rq_string rq)) (\<lambda>(r, p, nxt).
       let rq = rq\<lparr>rq_cmd := p\<rparr> in
       if r < 0 then Inr (-1, rq)
       else then_do (unpack_request_string ra (rq_priv rq) nxt roof (rq_string rq)) (\<lambda>(r, p, nxt).
         let rq = rq\<lparr>rq_priv := p\<rparr> in
         if r < 0 then Inr (-1, rq) else Inr (0, rq))))"

definition pack_request :: "ptr \<Rightarrow> blocks \<Rightarrow> request \<Rightarrow> (int \<times> request) result" where
  "pack_request = pack_fields IPCD_REQUEST_TYPE_RESERVED"

definition unpack_request :: "ptr \<Rightarrow> request \<Rightarrow> int \<Rightarrow> (int \<times> request) result" where
  "unpack_request = unpack_fields IPCD_REQUEST_TYPE_RESERVED"

definition pack_request_netinf :: "ptr \<Rightarrow> blocks \<Rightarrow> request \<Rightarrow> (int \<times> request) result" where
  "pack_request_netinf = pack_fields NETINFD_REQUEST_TYPE_RESERVED"

definition unpack_request_netinf :: "ptr \<Rightarrow> request \<Rightarrow> int \<Rightarrow> (int \<times> request) result" where
  "unpack_request_netinf = unpack_fields NETINFD_REQUEST_TYPE_RESERVED"

section \<open>Reading and writing\<close>

text \<open>One call of \<open>read\<close> or \<open>write\<close>: interrupted by a signal, failed, or done, with the bytes read or the number
  written.\<close>

datatype 'a io = Interrupted | Failed | Moved 'a

partial_function (option) read_loop :: "(nat \<Rightarrow> u8 list io) \<Rightarrow> nat \<Rightarrow> nat \<Rightarrow> nat \<Rightarrow> u8 list \<Rightarrow> (int \<times> u8 list) option" where
  "read_loop rd k count localcnt got =
    (case rd k of
       Failed \<Rightarrow> Some (-1, got)
     | Interrupted \<Rightarrow>
         if length got \<ge> count then Some (int count, got)
         else if localcnt > 0 then read_loop rd (k + 1) count localcnt got else Some (0, got)
     | Moved xs \<Rightarrow>
         let n = min localcnt (length xs); got = got @ take n xs in
         if length got \<ge> count then Some (int count, got)
         else if localcnt - n > 0 then read_loop rd (k + 1) count (localcnt - n) got else Some (int n, got))"

declare read_loop.simps [code]

text \<open>The bytes read replace the first bytes of the buffer.\<close>

definition safe_read :: "(nat \<Rightarrow> u8 list io) \<Rightarrow> nat \<Rightarrow> u8 list \<Rightarrow> (int \<times> u8 list) result" where
  "safe_read rd count buf = run_loop (map_option (\<lambda>(n, got). Inr (n, got @ drop (length got) buf)) (read_loop rd 0 count count []))"

partial_function (option) write_loop :: "(nat \<Rightarrow> nat io) \<Rightarrow> nat \<Rightarrow> nat \<Rightarrow> nat \<Rightarrow> nat \<Rightarrow> (int \<times> nat) option" where
  "write_loop wr k count localcnt tot =
    (case wr k of
       Failed \<Rightarrow> Some (-1, tot)
     | Interrupted \<Rightarrow>
         if tot \<ge> count then Some (int count, tot)
         else if localcnt > 0 then write_loop wr (k + 1) count localcnt tot else Some (0, tot)
     | Moved x \<Rightarrow>
         let n = min localcnt x; tot = tot + n in
         if tot \<ge> count then Some (int count, tot)
         else if localcnt - n > 0 then write_loop wr (k + 1) count (localcnt - n) tot else Some (int n, tot))"

declare write_loop.simps [code]

text \<open>The result and the bytes that have been written.\<close>

definition safe_write :: "(nat \<Rightarrow> nat io) \<Rightarrow> u8 list \<Rightarrow> nat \<Rightarrow> (int \<times> u8 list) result" where
  "safe_write wr buf count = run_loop (map_option (\<lambda>(n, tot). Inr (n, take tot buf)) (write_loop wr 0 count count 0))"

section \<open>Connections\<close>

text \<open>\<open>fds\<close> are the open sockets of the process.\<close>

record conn =
  cn_pton :: int
  cn_socket :: int
  cn_connect :: int
  cn_accept :: int
  cn_write :: "nat \<Rightarrow> nat io"
  cn_read :: "u8 list \<Rightarrow> nat \<Rightarrow> u8 list io"

definition close_fd :: "int \<Rightarrow> int list \<Rightarrow> int list" where
  "close_fd sock fds = remove1 sock fds"

definition connect_request :: "conn \<Rightarrow> int list \<Rightarrow> int \<times> int list" where
  "connect_request cn fds =
    (let sock = cn_socket cn in
     if sock = -1 then (-1, fds)
     else let fds = sock # fds in
     if cn_connect cn < 0 then (-1, close_fd sock fds) else (sock, fds))"

definition connect_request_netinf :: "conn \<Rightarrow> int list \<Rightarrow> int \<times> int list" where
  "connect_request_netinf cn fds =
    (if cn_pton cn = 0 then (-1, fds)
     else if cn_pton cn < 0 then (-1, fds)
     else let sock = cn_socket cn in
     if sock = -1 then (-1, fds)
     else let fds = sock # fds in
     if cn_connect cn < 0 then (-1, close_fd sock fds) else (sock, fds))"

definition accept_request :: "conn \<Rightarrow> int list \<Rightarrow> int \<times> int list" where
  "accept_request cn fds = (let sock = cn_accept cn in if sock = -1 then (-1, fds) else (sock, sock # fds))"

text \<open>The request at \<open>ra\<close>; \<open>last\<close> says what a reply that could be unpacked gives.\<close>

definition request_for :: "(request \<Rightarrow> (int \<times> request) result) \<Rightarrow> (request \<Rightarrow> int \<Rightarrow> (int \<times> request) result) \<Rightarrow> (int list \<Rightarrow> int \<times> int list)
    \<Rightarrow> (request \<Rightarrow> int) \<Rightarrow> conn \<Rightarrow> request \<Rightarrow> int list \<Rightarrow> (int \<times> request \<times> int list) result" where
  "request_for pack unpack connect last_res cn rq fds =
    then_do (pack rq) (\<lambda>(sz, rq).
      if sz < 0 then Inr (-1, rq, fds)
      else case connect fds of (sock, fds) \<Rightarrow>
        if sock < 0 then Inr (-1, rq, fds)
        else let count = STRING_OFFSET + length (rq_string rq) in
          then_do (safe_write (cn_write cn) (request_bytes rq) count) (\<lambda>(n, sent).
            if n \<noteq> int count then Inr (-1, rq, close_fd sock fds)
            else then_do (safe_read (cn_read cn sent) count (request_bytes rq)) (\<lambda>(sz, buf).
              let rq = bytes_request buf in
              if sz < 0 then Inr (-1, rq, close_fd sock fds)
              else then_do (unpack rq sz) (\<lambda>(r, rq).
                if r < 0 then Inr (-1, rq, close_fd sock fds)
                else Inr (last_res rq, rq, close_fd sock fds)))))"

definition request_for_ipcd :: "conn \<Rightarrow> ptr \<Rightarrow> blocks \<Rightarrow> request \<Rightarrow> int list \<Rightarrow> (int \<times> request \<times> int list) result" where
  "request_for_ipcd cn ra m =
    request_for (pack_request ra m) (unpack_request ra) (connect_request cn) (\<lambda>rq. sint (rq_status rq)) cn"

definition request_for_netinfd :: "conn \<Rightarrow> ptr \<Rightarrow> blocks \<Rightarrow> request \<Rightarrow> int list \<Rightarrow> (int \<times> request \<times> int list) result" where
  "request_for_netinfd cn ra m =
    request_for (pack_request_netinf ra m) (unpack_request_netinf ra) (connect_request_netinf cn)
      (\<lambda>rq. if sint (rq_status rq) < 0 then -1 else 0) cn"

end
