(* ===== verification/IpcLib.thy ===== *)
theory IpcLib
  imports Ipc
begin

text \<open>The libraries that make requests: library/ipcd_ipc/libipcd.c, for the daemon that runs commands and keeps the
  environment, and mw/linux_c_api/netinfd/libnetinfd.c, for the daemon of the network.

  \<open>al k\<close> is the address that the \<open>k\<close>-th allocation of a call returns, or \<open>NULL\<close>.  An allocated request is a block without
  bytes of its own: its fields and its array are the record.\<close>

section \<open>Commands and the environment\<close>

definition new_request :: "nat \<Rightarrow> u32 \<Rightarrow> ptr \<Rightarrow> ptr \<Rightarrow> request" where
  "new_request n ty p1 p2 = \<lparr>rq_magic = IPCD_REQUEST_MAGIC, rq_type = ty, rq_status = 0, rq_reservedLen = 0, rq_cmd = p1, rq_priv = p2,
     rq_string = replicate n 0\<rparr>"

definition ipcd_free_request :: "ptr \<Rightarrow> request \<Rightarrow> blocks \<Rightarrow> blocks result" where
  "ipcd_free_request ra rq m =
    (if ra = NULL then Inr m
     else then_do (free_block (rq_cmd rq) m) (\<lambda>m. then_do (free_block (rq_priv rq) m) (free_block ra)))"

definition ipcd_set_env :: "(nat \<Rightarrow> ptr) \<Rightarrow> conn \<Rightarrow> ptr \<Rightarrow> ptr \<Rightarrow> blocks \<Rightarrow> int list \<Rightarrow> (int \<times> blocks \<times> int list) result" where
  "ipcd_set_env al cn envName envVal m fds =
    (if envName = NULL \<or> envVal = NULL then Inl AssertFailed
     else let ra = al 0 in
     if ra = NULL then Inr (-1, m, fds)
     else let m = (ra, []) # m in
       then_do (request_for_ipcd cn ra m (new_request IPCD_REQUEST_MAX_SIZE IPCD_REQUEST_TYPE_SETENV envName envVal) fds) (\<lambda>(rc, rq, fds).
       then_do (ipcd_free_request ra (rq\<lparr>rq_cmd := NULL, rq_priv := NULL\<rparr>) m) (\<lambda>m.
         Inr (if rc \<noteq> 0 then -1 else 0, m, fds))))"

text \<open>The value is copied without its terminating zero, and the result is 0 in any case.\<close>

definition ipcd_get_env :: "(nat \<Rightarrow> ptr) \<Rightarrow> conn \<Rightarrow> ptr \<Rightarrow> ptr \<Rightarrow> blocks \<Rightarrow> int list \<Rightarrow> (int \<times> blocks \<times> int list) result" where
  "ipcd_get_env al cn envName envVal m fds =
    (if envName = NULL \<or> envVal = NULL then Inl AssertFailed
     else let ra = al 0 in
     if ra = NULL then Inr (-1, m, fds)
     else let m = (ra, []) # m in
       then_do (request_for_ipcd cn ra m (new_request IPCD_REQUEST_MAX_SIZE IPCD_REQUEST_TYPE_GETENV envName NULL) fds) (\<lambda>(rc, rq, fds).
       then_do (if rc = 0 then then_do (string_at (rq_priv rq) (request_mem ra (rq_string rq) m)) (\<lambda>s. write_at envVal s m) else Inr m) (\<lambda>m.
       then_do (ipcd_free_request ra (rq\<lparr>rq_cmd := NULL, rq_priv := NULL\<rparr>) m) (\<lambda>m. Inr (0, m, fds)))))"

text \<open>The copy of a string: allocated, cleared, and filled but for its last byte.\<close>

definition copy_string :: "ptr \<Rightarrow> ptr \<Rightarrow> blocks \<Rightarrow> (ptr \<times> blocks) result" where
  "copy_string a p m = then_do (string_at p m) (\<lambda>s. if a = NULL then Inr (NULL, m) else Inr (a, (a, s @ [0]) # m))"

text \<open>What the functions that run a command have in common: the request at \<open>ra\<close> gets copies of the strings; the call
  fails, with everything freed, without a command or without memory.\<close>

definition ipcd_prepare :: "(nat \<Rightarrow> ptr) \<Rightarrow> u32 \<Rightarrow> ptr \<Rightarrow> ptr \<Rightarrow> blocks \<Rightarrow> (request option \<times> blocks) result" where
  "ipcd_prepare al ty cmd priv m =
    (let ra = al 0; rq = new_request IPCD_REQUEST_MAX_SIZE ty NULL NULL in
     if ra = NULL then Inr (None, m)
     else let m = (ra, []) # m in
     if cmd = NULL then then_do (ipcd_free_request ra rq m) (\<lambda>m. Inr (None, m))
     else then_do (copy_string (al 1) cmd m) (\<lambda>(p1, m).
       let rq = rq\<lparr>rq_cmd := p1\<rparr> in
       if p1 = NULL then then_do (ipcd_free_request ra rq m) (\<lambda>m. Inr (None, m))
       else if priv = NULL then Inr (Some rq, m)
       else then_do (copy_string (al 2) priv m) (\<lambda>(p2, m).
         let rq = rq\<lparr>rq_priv := p2\<rparr> in
         if p2 = NULL then then_do (ipcd_free_request ra rq m) (\<lambda>m. Inr (None, m)) else Inr (Some rq, m))))"

definition exec_with :: "(int \<Rightarrow> int) \<Rightarrow> (nat \<Rightarrow> ptr) \<Rightarrow> conn \<Rightarrow> ptr \<Rightarrow> ptr \<Rightarrow> blocks \<Rightarrow> int list \<Rightarrow> (int \<times> blocks \<times> int list) result" where
  "exec_with f al cn cmd priv m fds =
    then_do (ipcd_prepare al IPCD_REQUEST_TYPE_EXEC cmd priv m) (\<lambda>(rqo, m). case rqo of
      None \<Rightarrow> Inr (-1, m, fds)
    | Some rq0 \<Rightarrow>
      then_do (request_for_ipcd cn (al 0) m rq0 fds) (\<lambda>(rc, rq, fds).
      then_do (ipcd_free_request (al 0) (rq\<lparr>rq_cmd := rq_cmd rq0, rq_priv := rq_priv rq0\<rparr>) m) (\<lambda>m. Inr (f rc, m, fds))))"

definition ipcd_exec :: "(nat \<Rightarrow> ptr) \<Rightarrow> conn \<Rightarrow> ptr \<Rightarrow> ptr \<Rightarrow> blocks \<Rightarrow> int list \<Rightarrow> (int \<times> blocks \<times> int list) result" where
  "ipcd_exec = exec_with (\<lambda>rc. if rc \<noteq> 0 then -1 else 0)"

definition ipcd_exec_security :: "(nat \<Rightarrow> ptr) \<Rightarrow> conn \<Rightarrow> ptr \<Rightarrow> ptr \<Rightarrow> blocks \<Rightarrow> int list \<Rightarrow> (int \<times> blocks \<times> int list) result" where
  "ipcd_exec_security = exec_with (\<lambda>rc. rc)"

section \<open>Commands that run in a thread of their own\<close>

abbreviation (input) IPCD_EXEC_FAILED :: int where "IPCD_EXEC_FAILED \<equiv> -1"
abbreviation (input) IPCD_EXEC_SUCESS :: int where "IPCD_EXEC_SUCESS \<equiv> 0"

text \<open>The thread gets the request, calls the function whose address is in \<open>reservedLen\<close> with an event, and frees the
  request; only one of its two pointers is what it was.  The result is the function and the event.\<close>

definition ipcd_exec_async_thread :: "conn \<Rightarrow> ptr \<Rightarrow> request \<Rightarrow> blocks \<Rightarrow> int list \<Rightarrow> (fptr \<times> int \<times> blocks \<times> int list) result" where
  "ipcd_exec_async_thread cn ra rq m fds =
    (let callback = unat (rq_reservedLen rq); cmd_addr = rq_cmd rq; rq = rq\<lparr>rq_reservedLen := 0\<rparr> in
     then_do (request_for_ipcd cn ra m rq fds) (\<lambda>(rc, rq, fds).
     then_do (ipcd_free_request ra (rq\<lparr>rq_cmd := cmd_addr\<rparr>) m) (\<lambda>m.
       Inr (callback, if rc \<noteq> 0 then IPCD_EXEC_FAILED else IPCD_EXEC_SUCESS, m, fds))))"

text \<open>\<open>ret\<close> is what \<open>pthread_create\<close> returns; the second result is the argument of the thread.\<close>

definition ipcd_exec_async :: "(nat \<Rightarrow> ptr) \<Rightarrow> int \<Rightarrow> ptr \<Rightarrow> ptr \<Rightarrow> fptr \<Rightarrow> blocks \<Rightarrow> (int \<times> request option \<times> blocks) result" where
  "ipcd_exec_async al ret cmd priv callback m =
    then_do (ipcd_prepare al IPCD_REQUEST_TYPE_EXEC_ASYNC cmd priv m) (\<lambda>(rqo, m). case rqo of
      None \<Rightarrow> Inr (-1, None, m)
    | Some rq \<Rightarrow>
      if callback = NULL then then_do (ipcd_free_request (al 0) rq m) (\<lambda>m. Inr (-1, None, m))
      else let rq = rq\<lparr>rq_reservedLen := of_nat callback\<rparr> in
        if ret \<noteq> 0 then then_do (ipcd_free_request (al 0) rq m) (\<lambda>m. Inr (-1, None, m))
        else Inr (0, Some rq, m))"

section \<open>The hardware address\<close>

abbreviation (input) MAXINTERFACES :: nat where "MAXINTERFACES \<equiv> 16"

definition defMac :: "u8 list" where
  "defMac = [0, 12, 231, 6, 0, 0]"

text \<open>\<open>hw\<close> is the hardware address that the system has for an interface, if it has one; the loop runs from the last
  interface to the first.\<close>

fun mac_loop :: "(string \<Rightarrow> u8 list option) \<Rightarrow> string list \<Rightarrow> u8 list option" where
  "mac_loop hw [] = None"
| "mac_loop hw (nm # nms) =
    (if nm = ''lo'' \<or> nm = ''eth0'' then mac_loop hw nms
     else case hw nm of Some mac \<Rightarrow> Some mac | None \<Rightarrow> mac_loop hw nms)"

text \<open>\<open>names\<close> are the interfaces, if they can be listed; the list has room for 16.  The result comes with the address
  written to \<open>pmac\<close>.\<close>

definition net_get_validMac :: "int \<Rightarrow> (string \<Rightarrow> u8 list option) \<Rightarrow> string list option \<Rightarrow> u8 list \<Rightarrow> int \<times> u8 list" where
  "net_get_validMac fd hw names pmac =
    (if fd < 0 then (-1, pmac)
     else let pmac = (case hw ''eth0'' of Some mac \<Rightarrow> take 6 mac | None \<Rightarrow> pmac) in
       if hw ''eth0'' \<noteq> None \<and> pmac \<noteq> defMac then (0, pmac)
       else case names of
         None \<Rightarrow> (-1, pmac)
       | Some nms \<Rightarrow> (case mac_loop hw (rev (take MAXINTERFACES nms)) of Some mac \<Rightarrow> (0, take 6 mac) | None \<Rightarrow> (-1, pmac)))"

section \<open>The network daemon\<close>

text \<open>The request is a local variable at \<open>ra\<close>.\<close>

definition netinfd_request :: "conn \<Rightarrow> ptr \<Rightarrow> u32 \<Rightarrow> ptr \<Rightarrow> ptr \<Rightarrow> blocks \<Rightarrow> int list \<Rightarrow> (int \<times> request \<times> int list) result" where
  "netinfd_request cn ra ty key val m fds = request_for_netinfd cn ra m (new_request NETINFD_REQUEST_MAX_SIZE ty key val) fds"

text \<open>The value comes as a copy of its string at \<open>a\<close>, the address that \<open>strdup\<close> allocates.\<close>

definition netinfd_get :: "conn \<Rightarrow> ptr \<Rightarrow> ptr \<Rightarrow> ptr \<Rightarrow> blocks \<Rightarrow> int list \<Rightarrow> (int \<times> ptr \<times> blocks \<times> int list) result" where
  "netinfd_get cn ra a key m fds =
    then_do (netinfd_request cn ra NETINFD_REQUEST_TYPE_GET key NULL m fds) (\<lambda>(r, rq, fds).
      if r < 0 \<or> rq_cmd rq = NULL then Inr (-1, NULL, m, fds)
      else if rq_priv rq = NULL then Inr (0, NULL, m, fds)
      else then_do (copy_string a (rq_priv rq) (request_mem ra (rq_string rq) m)) (\<lambda>(p, m'). 
        Inr (0, p, if p = NULL then m else hd m' # m, fds)))"

definition netinfd_call :: "u32 \<Rightarrow> conn \<Rightarrow> ptr \<Rightarrow> ptr \<Rightarrow> ptr \<Rightarrow> blocks \<Rightarrow> int list \<Rightarrow> (int \<times> int list) result" where
  "netinfd_call ty cn ra key val m fds =
    then_do (netinfd_request cn ra ty key val m fds) (\<lambda>(r, rq, fds). if r < 0 then Inr (-1, fds) else Inr (0, fds))"

definition netinfd_set :: "conn \<Rightarrow> ptr \<Rightarrow> ptr \<Rightarrow> ptr \<Rightarrow> blocks \<Rightarrow> int list \<Rightarrow> (int \<times> int list) result" where
  "netinfd_set = netinfd_call NETINFD_REQUEST_TYPE_SET"

definition netinfd_dhcp :: "conn \<Rightarrow> ptr \<Rightarrow> ptr \<Rightarrow> ptr \<Rightarrow> blocks \<Rightarrow> int list \<Rightarrow> (int \<times> int list) result" where
  "netinfd_dhcp = netinfd_call NETINFD_REQUEST_TYPE_DHCP"

definition netinfd_ifconf :: "conn \<Rightarrow> ptr \<Rightarrow> ptr \<Rightarrow> ptr \<Rightarrow> blocks \<Rightarrow> int list \<Rightarrow> (int \<times> int list) result" where
  "netinfd_ifconf = netinfd_call NETINFD_REQUEST_TYPE_IFCONF"

definition netinfd_nienable :: "conn \<Rightarrow> ptr \<Rightarrow> ptr \<Rightarrow> ptr \<Rightarrow> blocks \<Rightarrow> int list \<Rightarrow> (int \<times> int list) result" where
  "netinfd_nienable = netinfd_call NETINFD_REQUEST_TYPE_NIENABLE"

definition netinfd_dnslookup :: "conn \<Rightarrow> ptr \<Rightarrow> ptr \<Rightarrow> ptr \<Rightarrow> blocks \<Rightarrow> int list \<Rightarrow> (int \<times> int list) result" where
  "netinfd_dnslookup = netinfd_call NETINFD_REQUEST_TYPE_DNSLOOKUP"

end
