(* ===== verification/IpcInv.thy ===== *)
theory IpcInv
  imports IpcLib
begin

text \<open>What the operations on requests do: bytes and words, strings in blocks, packing and unpacking, reading and writing
  in pieces, connections.\<close>

section \<open>Words and bytes\<close>

lemma of_nat_u8_mod: "(of_nat (n mod 256) :: u8) = of_nat n"
  by (rule word_unat_eq_iff [THEN iffD2]) (simp add: unat_u8_of_nat)

lemma upto_4: "[0..<4] = [0, 1, 2, 3 :: nat]"
  by (simp add: upt_rec)

lemma get_word_4: "get_word [a, b, c, d] 0 = unat a + 256 * (unat b + 256 * (unat c + 256 * unat d))"
proof -
  have "{..<4 :: nat} = {0, 1, 2, 3}" by auto
  then show ?thesis by (simp add: get_word_def get_le_def)
qed

lemma word_bytes_4: "word_bytes v = [of_nat v, of_nat (v div 256), of_nat (v div 256 div 256), of_nat (v div 256 div 256 div 256)]"
  by (simp add: word_bytes_def upto_4 div_mult2_eq [symmetric])

lemma word_bytes_get: "length bs = 4 \<Longrightarrow> word_bytes (get_word bs 0) = bs"
proof -
  assume "length bs = 4"
  then obtain a b c d where bs: "bs = [a, b, c, d]" by (auto simp: numeral_eq_Suc length_Suc_conv)
  have d: "(unat x + 256 * v) div 256 = v" "(of_nat (unat x + 256 * v) :: u8) = x" for x :: u8 and v
  proof -
    have x: "unat x < 256" by (rule unat_bounds)
    then show "(unat x + 256 * v) div 256 = v" by simp
    have "(of_nat ((unat x + 256 * v) mod 256) :: u8) = of_nat (unat x)" using x by simp
    then show "(of_nat (unat x + 256 * v) :: u8) = x" unfolding of_nat_u8_mod by simp
  qed
  show "word_bytes (get_word bs 0) = bs"
    unfolding bs get_word_4 word_bytes_4 d by simp
qed

lemma get_word_bytes: "v < 2 ^ 32 \<Longrightarrow> get_word (word_bytes v) 0 = v"
  using get_word_words_all [of 0 "[v]"] by simp

lemma get_word_less: "get_word bs i < 2 ^ 32"
proof -
  have s: "{..<4 :: nat} = {0, 1, 2, 3}" by auto
  have b: "unat (x :: u8) < 256" for x by (rule unat_bounds)
  have "get_word bs i = unat (bs ! (4 * i)) + unat (bs ! (4 * i + 1)) * 256 + unat (bs ! (4 * i + 2)) * 65536 + unat (bs ! (4 * i + 3)) * 16777216"
    by (simp add: get_word_def get_le_def s)
  then show ?thesis using b [of "bs ! (4 * i)"] b [of "bs ! (4 * i + 1)"] b [of "bs ! (4 * i + 2)"] b [of "bs ! (4 * i + 3)"] by simp
qed

lemma unat_u32_of_nat: "n < 2 ^ 32 \<Longrightarrow> unat (of_nat n :: u32) = n"
  by (simp add: unat_of_nat take_bit_nat_eq_self)

lemma htonl_htonl [simp]: "htonl (htonl w) = w"
proof -
  have "unat (htonl w) = get_word (rev (word_bytes (unat w))) 0"
    unfolding htonl_def by (rule unat_u32_of_nat [OF get_word_less])
  then have "word_bytes (unat (htonl w)) = rev (word_bytes (unat w))" by (simp add: word_bytes_get)
  then have "htonl (htonl w) = of_nat (get_word (word_bytes (unat w)) 0)" by (simp add: htonl_def [of "htonl w"])
  also have "\<dots> = of_nat (unat w)" using unat_bounds(3) [of w] by (subst get_word_bytes) simp_all
  finally show ?thesis by simp
qed

lemma htonl_magic: "htonl 34096 = 814022656" "htonl 814022656 = 34096"
proof -
  show "htonl 34096 = 814022656"
    by (simp add: htonl_def word_bytes_4 get_word_4)
  then show "htonl 814022656 = 34096" by (metis htonl_htonl)
qed

lemma length_request_bytes [simp]: "length (request_bytes rq) = STRING_OFFSET + length (rq_string rq)"
  by (simp add: request_bytes_def)

lemma request_bytes_nonempty: "request_bytes rq \<noteq> []"
proof
  assume "request_bytes rq = []"
  then have "length (request_bytes rq) = 0" by (simp only: list.size)
  then show False by simp
qed

lemma bytes_request_bytes: "rq_cmd rq < 2 ^ 32 \<Longrightarrow> rq_priv rq < 2 ^ 32 \<Longrightarrow> bytes_request (request_bytes rq) = rq"
proof -
  assume a: "rq_cmd rq < 2 ^ 32" "rq_priv rq < 2 ^ 32"
  let ?ws = "[unat (rq_magic rq), unat (rq_type rq), unat (rq_status rq), unat (rq_reservedLen rq), rq_cmd rq, rq_priv rq]"
  have "i < 6 \<Longrightarrow> get_word (request_bytes rq) i = ?ws ! i" for i
  proof -
    assume i: "i < 6"
    have "unat w < 2 ^ 32" for w :: u32 using unat_bounds(3) [of w] by simp
    then have "\<forall>w\<in>set ?ws. w < 2 ^ 32" using a by simp
    then have "?ws ! i < 2 ^ 32" using i by (simp only: list_all_length list_all_iff [symmetric]) simp
    then show ?thesis using i get_word_words [of i ?ws "rq_string rq"] unfolding request_bytes_def by simp
  qed
  then have "get_word (request_bytes rq) 0 = unat (rq_magic rq)" "get_word (request_bytes rq) 1 = unat (rq_type rq)"
    "get_word (request_bytes rq) 2 = unat (rq_status rq)" "get_word (request_bytes rq) 3 = unat (rq_reservedLen rq)"
    "get_word (request_bytes rq) 4 = rq_cmd rq" "get_word (request_bytes rq) 5 = rq_priv rq" by simp_all
  then show ?thesis by (simp add: bytes_request_def) (simp add: request_bytes_def)
qed

section \<open>Strings in blocks\<close>

abbreviation no_zero :: "u8 list \<Rightarrow> bool" where "no_zero s \<equiv> 0 \<notin> set s"

lemma takeWhile_string [simp]: "no_zero s \<Longrightarrow> takeWhile (\<lambda>b. b \<noteq> 0) (s @ 0 # r) = s"
  by (induction s) auto

lemma string_at_no_zero: "string_at p m = Inr s \<Longrightarrow> no_zero s"
  by (auto simp: string_at_def then_do_Inr split: if_splits dest: set_takeWhileD)

lemma string_at_head: "no_zero s \<Longrightarrow> b \<le> q \<Longrightarrow> q - b \<le> length bs \<Longrightarrow> drop (q - b) bs = s @ 0 # r \<Longrightarrow> string_at q ((b, bs) # m) = Inr s"
proof -
  assume a: "no_zero s" "b \<le> q" "q - b \<le> length bs" "drop (q - b) bs = s @ 0 # r"
  then have "q - b < length bs" by (metis Nil_is_append_conv drop_all list.distinct(1) not_less)
  then have "q < b + length bs" using a(2) by simp
  then show ?thesis using a by (simp add: string_at_def bytes_at_def)
qed

text \<open>An address outside the array of the request.\<close>

definition outside :: "ptr \<Rightarrow> nat \<Rightarrow> ptr \<Rightarrow> bool" where
  "outside ra n p \<longleftrightarrow> p < ra + STRING_OFFSET \<or> ra + STRING_OFFSET + n \<le> p"

lemma string_at_outside: "outside ra (length str) p \<Longrightarrow> string_at p (request_mem ra str m) = string_at p m"
  by (auto simp: string_at_def bytes_at_def request_mem_def outside_def)

lemma string_at_inside:
  "no_zero s \<Longrightarrow> k \<le> length str \<Longrightarrow> drop k str = s @ 0 # r \<Longrightarrow> string_at (ra + STRING_OFFSET + k) (request_mem ra str m) = Inr s"
  unfolding request_mem_def by (rule string_at_head) simp_all

lemma length_put_bytes [simp]: "k + length xs \<le> length bs \<Longrightarrow> length (put_bytes k xs bs) = length bs"
  by (simp add: put_bytes_def)

lemma drop_put_bytes: "k + length xs \<le> length bs \<Longrightarrow> drop k (put_bytes k xs bs) = xs @ drop (k + length xs) bs"
  by (simp add: put_bytes_def)

lemma take_put_bytes: "k \<le> length bs \<Longrightarrow> i \<le> k \<Longrightarrow> take i (put_bytes k xs bs) = take i bs"
  by (simp add: put_bytes_def min_def)

lemma drop_put_bytes_before:
  assumes "j + length ys \<le> k" "k + length xs \<le> length bs" "drop j bs = ys @ r"
  shows "\<exists>r'. drop j (put_bytes k xs bs) = ys @ r'"
proof -
  have j: "j + length ys \<le> length bs" using assms(1,2) by simp
  have "take (length ys) (drop j (put_bytes k xs bs)) = take (length ys) (drop j (take k (put_bytes k xs bs)))"
    using assms(1) by (simp add: drop_take min_def)
  also have "take k (put_bytes k xs bs) = take k bs" using assms(2) by (intro take_put_bytes) simp_all
  also have "take (length ys) (drop j (take k bs)) = ys" using assms(1,3) by (simp add: drop_take min_def)
  finally show ?thesis by (metis append_take_drop_id)
qed

section \<open>Packing and unpacking\<close>

text \<open>An optional string: \<open>NULL\<close> stands for none.\<close>

definition string_opt :: "ptr \<Rightarrow> blocks \<Rightarrow> u8 list option \<Rightarrow> bool" where
  "string_opt p m so \<longleftrightarrow> (case so of None \<Rightarrow> p = NULL | Some s \<Rightarrow> p \<noteq> NULL \<and> string_at p m = Inr s)"

definition packed :: "u8 list option \<Rightarrow> u8 list" where
  "packed so = (case so of None \<Rightarrow> [] | Some s \<Rightarrow> s @ [0])"

abbreviation mark_of :: "u8 list option \<Rightarrow> ptr" where
  "mark_of so \<equiv> case so of None \<Rightarrow> NULL | Some s \<Rightarrow> STRING_MARK"

lemma pack_string:
  assumes "string_opt p (request_mem ra str m) so" "roof = int (length str)"
  shows "pack_request_string ra m p (int k) roof str =
    (if k + length (packed so) \<le> length str \<or> so = None then Inr (0, mark_of so, int (k + length (packed so)), put_bytes k (packed so) str)
     else Inr (-1, p, int k, str))"
  using assms by (cases so) (auto simp: pack_request_string_def string_opt_def packed_def put_bytes_def)

lemma unpack_string:
  assumes "p = mark_of so" "drop k str = packed so @ r" "k \<le> length str" "roof = int (length str)" "\<forall>s. so = Some s \<longrightarrow> no_zero s"
  shows "unpack_request_string ra p (int k) roof str =
    Inr (0, case so of None \<Rightarrow> NULL | Some s \<Rightarrow> ra + STRING_OFFSET + k, int (k + length (packed so)))"
proof (cases so)
  case None
  then show ?thesis using assms by (simp add: unpack_request_string_def packed_def)
next
  case (Some s)
  then have s: "no_zero s" "drop k str = s @ 0 # r" using assms(2,5) by (simp_all add: packed_def)
  then have "k < length str" using assms(3) by (metis Nil_is_append_conv drop_all list.distinct(1) not_less)
  then show ?thesis using assms s Some by (simp add: unpack_request_string_def packed_def)
qed

text \<open>The strings of a request lie where packing finds them one after the other.\<close>

definition has_strings :: "ptr \<Rightarrow> blocks \<Rightarrow> request \<Rightarrow> u8 list option \<Rightarrow> u8 list option \<Rightarrow> bool" where
  "has_strings ra m rq c v \<longleftrightarrow> string_opt (rq_cmd rq) (request_mem ra (rq_string rq) m) c \<and>
     string_opt (rq_priv rq) (request_mem ra (put_bytes 0 (packed c) (rq_string rq)) m) v"

lemma string_opt_no_zero: "string_opt p m (Some s) \<Longrightarrow> no_zero s"
  by (auto simp: string_opt_def dest: string_at_no_zero)

definition needs :: "u8 list option \<Rightarrow> u8 list option \<Rightarrow> nat" where
  "needs c v = length (packed c) + length (packed v)"

definition marked :: "request \<Rightarrow> u8 list option \<Rightarrow> u8 list option \<Rightarrow> request" where
  "marked rq c v = rq\<lparr>rq_magic := htonl (rq_magic rq), rq_type := htonl (rq_type rq), rq_cmd := mark_of c, rq_priv := mark_of v,
     rq_string := put_bytes (length (packed c)) (packed v) (put_bytes 0 (packed c) (rq_string rq))\<rparr>"

lemma put_nothing [simp]: "k \<le> length bs \<Longrightarrow> put_bytes k [] bs = bs"
  by (simp add: put_bytes_def)

lemma pack_fields_ok:
  assumes "rq_magic rq = IPCD_REQUEST_MAGIC" "rq_type rq < types" "rq_reservedLen rq = 0" "has_strings ra m rq c v"
    "needs c v \<le> length (rq_string rq)"
  shows "pack_fields types ra m rq = Inr (int (STRING_OFFSET + needs c v), marked rq c v)"
proof -
  have l: "length (packed c) \<le> length (rq_string rq)" "length (packed c) + length (packed v) \<le> length (rq_string rq)"
    using assms(5) by (simp_all add: needs_def)
  let ?str = "put_bytes 0 (packed c) (rq_string rq)" and ?roof = "int (length (rq_string rq))"
  have "pack_request_string ra m (rq_cmd rq) (int 0) ?roof (rq_string rq) = Inr (0, mark_of c, int (length (packed c)), ?str)"
    using pack_string [of "rq_cmd rq" ra "rq_string rq" m c ?roof 0] assms(4) l by (simp add: has_strings_def)
  moreover have "pack_request_string ra m (rq_priv rq) (int (length (packed c))) ?roof ?str =
      Inr (0, mark_of v, int (needs c v), put_bytes (length (packed c)) (packed v) ?str)"
    using pack_string [of "rq_priv rq" ra ?str m v ?roof "length (packed c)"] assms(4) l by (simp add: has_strings_def needs_def)
  ultimately show ?thesis using assms(1-3) by (simp add: pack_fields_def marked_def not_le Let_def)
qed

text \<open>A request whose strings do not fit: the call fails, having changed the first two fields, so that it fails again.\<close>

lemma pack_fields_long:
  assumes "rq_magic rq = IPCD_REQUEST_MAGIC" "rq_type rq < types" "rq_reservedLen rq = 0" "has_strings ra m rq c v"
    "needs c v > length (rq_string rq)" "length (packed c) \<le> length (rq_string rq)"
  shows "pack_fields types ra m rq = Inr (-1, (marked rq c v)\<lparr>rq_priv := rq_priv rq, rq_string := put_bytes 0 (packed c) (rq_string rq)\<rparr>)"
proof -
  let ?str = "put_bytes 0 (packed c) (rq_string rq)" and ?roof = "int (length (rq_string rq))"
  have "pack_request_string ra m (rq_cmd rq) (int 0) ?roof (rq_string rq) = Inr (0, mark_of c, int (length (packed c)), ?str)"
    using pack_string [of "rq_cmd rq" ra "rq_string rq" m c ?roof 0] assms(4,6) by (simp add: has_strings_def)
  moreover have "v \<noteq> None" using assms(5,6) by (cases v) (simp_all add: needs_def packed_def)
  then have "pack_request_string ra m (rq_priv rq) (int (length (packed c))) ?roof ?str = Inr (-1, rq_priv rq, int (length (packed c)), ?str)"
    using pack_string [of "rq_priv rq" ra ?str m v ?roof "length (packed c)"] assms(4-6) by (simp add: has_strings_def needs_def)
  ultimately show ?thesis using assms(1-3) by (simp add: pack_fields_def marked_def not_le Let_def)
qed

lemma pack_again: "rq_magic rq \<noteq> IPCD_REQUEST_MAGIC \<Longrightarrow> pack_fields types ra m rq = Inr (-1, rq)"
  by (simp add: pack_fields_def)

lemma marked_strings:
  assumes "needs c v \<le> length (rq_string rq)"
  obtains r r' where "rq_string (marked rq c v) = packed c @ r" "drop (length (packed c)) (rq_string (marked rq c v)) = packed v @ r'"
    "length (rq_string (marked rq c v)) = length (rq_string rq)"
proof -
  have l: "length (packed c) \<le> length (rq_string rq)" "length (packed c) + length (packed v) \<le> length (rq_string rq)"
    using assms by (simp_all add: needs_def)
  let ?s = "put_bytes 0 (packed c) (rq_string rq)"
  have "drop 0 ?s = packed c @ drop (length (packed c)) (rq_string rq)" using l by (subst drop_put_bytes) simp_all
  then obtain r where "drop 0 (put_bytes (length (packed c)) (packed v) ?s) = packed c @ r"
    using drop_put_bytes_before [of 0 "packed c" "length (packed c)" "packed v" ?s] l by auto
  moreover have "drop (length (packed c)) (put_bytes (length (packed c)) (packed v) ?s) = packed v @ drop (length (packed c) + length (packed v)) ?s"
    using l by (intro drop_put_bytes) simp
  ultimately show thesis using that [of r] l by (simp add: marked_def)
qed

text \<open>The request that unpacking makes of it at another address.\<close>

definition unmarked :: "ptr \<Rightarrow> request \<Rightarrow> u8 list option \<Rightarrow> u8 list option \<Rightarrow> request" where
  "unmarked ra rq c v = (marked rq c v)\<lparr>rq_magic := rq_magic rq, rq_type := rq_type rq,
     rq_cmd := (case c of None \<Rightarrow> NULL | Some _ \<Rightarrow> ra + STRING_OFFSET),
     rq_priv := (case v of None \<Rightarrow> NULL | Some _ \<Rightarrow> ra + STRING_OFFSET + length (packed c))\<rparr>"

lemma unpack_fields_ok:
  assumes "rq_magic rq = IPCD_REQUEST_MAGIC" "rq_type rq < types" "rq_reservedLen rq = 0"
    "\<forall>s. c = Some s \<longrightarrow> no_zero s" "\<forall>s. v = Some s \<longrightarrow> no_zero s" "needs c v \<le> length (rq_string rq)" "k = int (STRING_OFFSET + length (rq_string rq))"
  shows "unpack_fields types ra (marked rq c v) k = Inr (0, unmarked ra rq c v)"
proof -
  let ?rq = "marked rq c v" let ?str = "rq_string ?rq" and ?roof = "int (length (rq_string rq))"
  obtain r r' where r: "?str = packed c @ r" "drop (length (packed c)) ?str = packed v @ r'" "length ?str = length (rq_string rq)"
    by (rule marked_strings [OF assms(6)])
  have "unpack_request_string ra (mark_of c) (int 0) ?roof ?str = Inr (0, case c of None \<Rightarrow> NULL | Some s \<Rightarrow> ra + STRING_OFFSET + 0, int (0 + length (packed c)))"
    by (rule unpack_string [where r = r]) (use r assms(4) in simp_all)
  moreover have "unpack_request_string ra (mark_of v) (int (length (packed c))) ?roof ?str =
      Inr (0, case v of None \<Rightarrow> NULL | Some s \<Rightarrow> ra + STRING_OFFSET + length (packed c), int (length (packed c) + length (packed v)))"
    by (rule unpack_string [where r = r']) (use r assms(5,6) in \<open>simp_all add: needs_def\<close>)
  ultimately show ?thesis using assms(1-3,7) by (simp add: unpack_fields_def marked_def unmarked_def not_le Let_def cong: option.case_cong)
qed

lemma unmarked_strings:
  assumes "\<forall>s. c = Some s \<longrightarrow> no_zero s" "\<forall>s. v = Some s \<longrightarrow> no_zero s" "needs c v \<le> length (rq_string rq)"
  shows "string_opt (rq_cmd (unmarked ra rq c v)) (request_mem ra (rq_string (unmarked ra rq c v)) m) c"
    "string_opt (rq_priv (unmarked ra rq c v)) (request_mem ra (rq_string (unmarked ra rq c v)) m) v"
proof -
  let ?str = "rq_string (marked rq c v)"
  have u: "rq_string (unmarked ra rq c v) = ?str" by (simp add: unmarked_def)
  obtain r r' where r: "?str = packed c @ r" "drop (length (packed c)) ?str = packed v @ r'" "length ?str = length (rq_string rq)"
    by (rule marked_strings [OF assms(3)])
  show "string_opt (rq_cmd (unmarked ra rq c v)) (request_mem ra (rq_string (unmarked ra rq c v)) m) c"
  proof (cases c)
    case (Some s)
    have "string_at (ra + STRING_OFFSET + 0) (request_mem ra ?str m) = Inr s"
      by (rule string_at_inside [where r = r]) (use r assms Some in \<open>simp_all add: packed_def\<close>)
    then show ?thesis unfolding u using Some by (simp add: string_opt_def unmarked_def)
  qed (simp add: string_opt_def unmarked_def)
  show "string_opt (rq_priv (unmarked ra rq c v)) (request_mem ra (rq_string (unmarked ra rq c v)) m) v"
  proof (cases v)
    case (Some s)
    have "string_at (ra + STRING_OFFSET + length (packed c)) (request_mem ra ?str m) = Inr s"
      by (rule string_at_inside [where r = r']) (use r assms Some in \<open>simp_all add: packed_def needs_def\<close>)
    then show ?thesis unfolding u using Some by (simp add: string_opt_def unmarked_def)
  qed (simp add: string_opt_def unmarked_def)
qed

section \<open>Reading and writing in pieces\<close>

text \<open>From call \<open>k\<close> to call \<open>j\<close>, interrupted or not, the calls of \<open>read\<close> give the bytes \<open>bs\<close>, those of \<open>write\<close> take \<open>n\<close> bytes.\<close>

inductive delivers :: "(nat \<Rightarrow> u8 list io) \<Rightarrow> nat \<Rightarrow> u8 list \<Rightarrow> nat \<Rightarrow> bool" for rd where
  nothing: "delivers rd k [] k"
| again: "rd k = Interrupted \<Longrightarrow> delivers rd (k + 1) bs j \<Longrightarrow> delivers rd k bs j"
| piece: "rd k = Moved xs \<Longrightarrow> delivers rd (k + 1) ys j \<Longrightarrow> delivers rd k (xs @ ys) j"

inductive accepts :: "(nat \<Rightarrow> nat io) \<Rightarrow> nat \<Rightarrow> nat \<Rightarrow> nat \<Rightarrow> bool" for wr where
  nothing: "accepts wr k 0 k"
| again: "wr k = Interrupted \<Longrightarrow> accepts wr (k + 1) n j \<Longrightarrow> accepts wr k n j"
| piece: "wr k = Moved x \<Longrightarrow> accepts wr (k + 1) n j \<Longrightarrow> accepts wr k (x + n) j"

lemma read_loop_delivers:
  assumes "delivers rd k bs j" "length got + length bs \<le> count" "length got < count"
  shows "read_loop rd k count (count - length got) got =
    (if length got + length bs = count then Some (int count, got @ bs) else read_loop rd j count (count - length (got @ bs)) (got @ bs))"
  using assms
proof (induction arbitrary: got rule: delivers.induct)
  case (nothing k)
  then show ?case by simp
next
  case (again k bs j)
  have "read_loop rd k count (count - length got) got = read_loop rd (k + 1) count (count - length got) got"
    using again.hyps(1) again.prems by (subst read_loop.simps) simp
  then show ?case using again by simp
next
  case (piece k xs ys j)
  let ?got = "got @ xs"
  have n: "min (count - length got) (length xs) = length xs" using piece.prems by simp
  show ?case
  proof (cases "length ?got < count")
    case True
    have "read_loop rd k count (count - length got) got = read_loop rd (k + 1) count (count - length ?got) ?got"
      using piece.hyps(1) True by (subst read_loop.simps) (simp add: n Let_def)
    then show ?thesis using piece.IH [of ?got] piece.prems True by simp
  next
    case False
    then have "length got + length xs = count" "length ys = 0" using piece.prems unfolding length_append by linarith+
    then show ?thesis using piece.hyps(1) by (subst read_loop.simps) (simp add: n Let_def)
  qed
qed

text \<open>At the end of the stream the loop does not end.\<close>

lemma read_loop_eof:
  assumes "\<forall>i\<ge>k. rd i = Moved []" "length got < count" "0 < l"
  shows "read_loop rd k count l got = None"
proof -
  have "(\<forall>i\<ge>k. rd i = Moved []) \<longrightarrow> length got < count \<longrightarrow> 0 < l \<longrightarrow> False" if "read_loop rd k count l got = Some r" for r
    using that
  proof (rule read_loop.raw_induct [where P = "\<lambda>rd k count l got r. (\<forall>i\<ge>k. rd i = Moved []) \<longrightarrow> length got < count \<longrightarrow> 0 < l \<longrightarrow> False", rotated], goal_cases)
    case (1 f rd k count l got r)
    show ?case
    proof (intro impI)
      assume a: "\<forall>i\<ge>k. rd i = Moved []" "length got < count" "0 < l"
      then have "f rd (k + 1) count l got = Some r" using 1(2) by simp
      from 1(1) [OF this] show False using a by simp
    qed
  qed
  then show ?thesis using assms by (cases "read_loop rd k count l got") auto
qed

lemma read_loop_failed: "rd k = Failed \<Longrightarrow> read_loop rd k count l got = Some (-1, got)"
  by (subst read_loop.simps) simp

lemma write_loop_accepts:
  assumes "accepts wr k n j" "tot + n = count" "tot < count"
  shows "write_loop wr k count (count - tot) tot = Some (int count, count)"
  using assms
proof (induction arbitrary: tot rule: accepts.induct)
  case (nothing k)
  then show ?case by simp
next
  case (again k n j)
  then show ?case by (subst write_loop.simps) simp
next
  case (piece k x n j)
  have m: "min (count - tot) x = x" using piece.prems by simp
  show ?case using piece by (subst write_loop.simps) (auto simp: m Let_def)
qed

lemma safe_write_all: "accepts wr 0 (length bs) j \<Longrightarrow> bs \<noteq> [] \<Longrightarrow> safe_write wr bs (length bs) = Inr (int (length bs), bs)"
  using write_loop_accepts [of wr 0 "length bs" j 0 "length bs"] by (simp add: safe_write_def)

lemma safe_read_all:
  "delivers rd 0 bs j \<Longrightarrow> bs \<noteq> [] \<Longrightarrow> safe_read rd (length bs) buf = Inr (int (length bs), bs @ drop (length bs) buf)"
  using read_loop_delivers [of rd 0 bs j "[]" "length bs"] by (simp add: safe_read_def)

section \<open>Connections\<close>

definition connected :: "conn \<Rightarrow> bool" where
  "connected cn \<longleftrightarrow> cn_pton cn > 0 \<and> cn_socket cn \<ge> 0 \<and> cn_connect cn \<ge> 0"

text \<open>What is sent is taken, and \<open>rep\<close> comes back.\<close>

definition replies :: "conn \<Rightarrow> u8 list \<Rightarrow> u8 list \<Rightarrow> bool" where
  "replies cn sent rep \<longleftrightarrow> (\<exists>j. accepts (cn_write cn) 0 (length sent) j) \<and> (\<exists>j. delivers (cn_read cn sent) 0 rep j)"

lemma connect_ok: "connected cn \<Longrightarrow> \<exists>sock\<ge>0. connect_request cn fds = (sock, sock # fds)"
  "connected cn \<Longrightarrow> \<exists>sock\<ge>0. connect_request_netinf cn fds = (sock, sock # fds)"
  by (auto simp: connected_def connect_request_def connect_request_netinf_def Let_def)

text \<open>Connecting gives an open socket or leaves none.\<close>

definition opens :: "(int list \<Rightarrow> int \<times> int list) \<Rightarrow> bool" where
  "opens connect \<longleftrightarrow> (\<forall>fds. case connect fds of (sock, fds') \<Rightarrow> fds' = (if sock < 0 then fds else sock # fds))"

lemma connect_opens: "cn_socket cn \<ge> -1 \<Longrightarrow> opens (connect_request cn)" "cn_socket cn \<ge> -1 \<Longrightarrow> opens (connect_request_netinf cn)"
  by (auto simp: opens_def connect_request_def connect_request_netinf_def close_fd_def Let_def)

lemma request_for_closes:
  assumes "request_for pack unpack connect f cn rq fds = Inr (r, rq', fds')" "opens connect"
  shows "fds' = fds"
proof -
  obtain sock fds1 where c: "connect fds = (sock, fds1)" by (metis prod.exhaust)
  then have "fds1 = (if sock < 0 then fds else sock # fds)" using assms(2) by (auto simp: opens_def split: prod.splits dest: spec [of _ fds])
  then show ?thesis using assms(1) c
    by (auto simp: request_for_def then_do_Inr close_fd_def Let_def split: if_splits)
qed

lemma request_for_ok:
  assumes "pack rq = Inr (k, rq1)" "0 \<le> k" "connect fds = (sock, sock # fds)" "0 \<le> sock" "replies cn (request_bytes rq1) rep"
    "length rep = length (request_bytes rq1)" "unpack (bytes_request rep) (int (length rep)) = Inr (r, rq2)"
  shows "request_for pack unpack connect f cn rq fds = Inr (if r < 0 then -1 else f rq2, rq2, fds)"
proof -
  have "0 < length (request_bytes rq1)" by simp
  then have "0 < length rep" by (simp only: assms(6))
  with \<open>0 < length (request_bytes rq1)\<close> have ne: "request_bytes rq1 \<noteq> []" "rep \<noteq> []" unfolding length_greater_0_conv by simp_all
  obtain j where j: "accepts (cn_write cn) 0 (length (request_bytes rq1)) j" using assms(5) by (auto simp: replies_def)
  obtain i where i: "delivers (cn_read cn (request_bytes rq1)) 0 rep i" using assms(5) by (auto simp: replies_def)
  have "safe_read (cn_read cn (request_bytes rq1)) (length (request_bytes rq1)) (request_bytes rq1) = Inr (int (length rep), rep)"
    using safe_read_all [OF i ne(2), of "request_bytes rq1"] assms(6) by (simp del: length_request_bytes)
  then show ?thesis
    using assms safe_write_all [OF j ne(1)] by (simp add: request_for_def close_fd_def Let_def)
qed

end
