(* ===== verification/IpcProps.thy ===== *)
theory IpcProps
  imports IpcInv IpcLib
begin

text \<open>What the libraries promise of a request: the strings arrive, all bytes are read, sockets are closed and memory is freed.\<close>

section \<open>Strings\<close>

text \<open>C22 A request that has been packed, sent as bytes and unpacked at another address has its type, its status and its strings,
  whatever the address.\<close>

theorem request_roundtrip:
  assumes "rq_magic rq = IPCD_REQUEST_MAGIC" "rq_type rq < IPCD_REQUEST_TYPE_RESERVED" "rq_reservedLen rq = 0" "has_strings ra m rq c v"
    "needs c v \<le> length (rq_string rq)" "\<forall>s. c = Some s \<longrightarrow> no_zero s" "\<forall>s. v = Some s \<longrightarrow> no_zero s"
  shows "\<exists>k rq1 rq2. pack_request ra m rq = Inr (k, rq1) \<and> 0 \<le> k \<and>
    unpack_request ra' (bytes_request (request_bytes rq1)) (int (length (request_bytes rq1))) = Inr (0, rq2) \<and>
    rq_type rq2 = rq_type rq \<and> rq_status rq2 = rq_status rq \<and> string_opt (rq_cmd rq2) (request_mem ra' (rq_string rq2) m') c \<and>
    string_opt (rq_priv rq2) (request_mem ra' (rq_string rq2) m') v"
proof -
  have b: "bytes_request (request_bytes (marked rq c v)) = marked rq c v"
    by (rule bytes_request_bytes) (auto simp: marked_def split: option.split)
  obtain r r' where l: "length (rq_string (marked rq c v)) = length (rq_string rq)" by (rule marked_strings [OF assms(5)])
  have p: "pack_request ra m rq = Inr (int (STRING_OFFSET + needs c v), marked rq c v)"
    unfolding pack_request_def by (rule pack_fields_ok) (use assms in simp_all)
  have u: "unpack_request ra' (marked rq c v) (int (length (request_bytes (marked rq c v)))) = Inr (0, unmarked ra' rq c v)"
    unfolding unpack_request_def by (rule unpack_fields_ok) (use assms l in simp_all)
  have "rq_type (unmarked ra' rq c v) = rq_type rq" "rq_status (unmarked ra' rq c v) = rq_status rq" by (simp_all add: unmarked_def marked_def)
  then show ?thesis using p u b unmarked_strings [OF assms(6,7,5)] of_nat_0_le_iff by fastforce
qed

text \<open>When the strings do not fit, the call fails, and a second call with the same request fails as well, without looking at
  the strings: the first one has left the magic number changed.\<close>

theorem request_retry_fails:
  assumes "pack_request ra m rq = Inr (-1, rq1)"
  shows "pack_request ra' m' rq1 = Inr (-1, rq1)"
proof -
  have "htonl IPCD_REQUEST_MAGIC \<noteq> IPCD_REQUEST_MAGIC" by (simp add: htonl_magic)
  then have "rq_magic rq1 \<noteq> IPCD_REQUEST_MAGIC"
    using assms by (auto simp: pack_request_def pack_fields_def then_do_Inr Let_def split: if_splits)
  then show ?thesis by (simp add: pack_request_def pack_again)
qed

theorem request_roundtrip_witness:
  "\<exists>k rq1 rq2. pack_request 1000 [(100, [7, 0])] (new_request 8 IPCD_REQUEST_TYPE_EXEC 100 NULL) = Inr (k, rq1) \<and>
    unpack_request 2000 (bytes_request (request_bytes rq1)) (int (length (request_bytes rq1))) = Inr (0, rq2) \<and>
    string_opt (rq_cmd rq2) (request_mem 2000 (rq_string rq2) []) (Some [7])"
proof -
  have "has_strings 1000 [(100, [7, 0])] (new_request 8 IPCD_REQUEST_TYPE_EXEC 100 NULL) (Some [7]) None"
    by (simp add: has_strings_def string_opt_def new_request_def request_mem_def string_at_def bytes_at_def)
  from request_roundtrip [OF _ _ _ this, of 2000 "[]"] show ?thesis by (auto simp: new_request_def needs_def packed_def)
qed

theorem request_retry_fails_witness:
  "\<exists>rq1. pack_request 1000 [(100, [7, 0])] (new_request 1 IPCD_REQUEST_TYPE_EXEC 100 NULL) = Inr (-1, rq1) \<and> pack_request 1000 [] rq1 = Inr (-1, rq1)"
proof -
  obtain rq1 where "pack_request 1000 [(100, [7, 0])] (new_request 1 IPCD_REQUEST_TYPE_EXEC 100 NULL) = Inr (-1, rq1)"
    by (simp add: pack_request_def pack_fields_def pack_request_string_def new_request_def request_mem_def string_at_def bytes_at_def Let_def)
  from this request_retry_fails [OF this, of 1000 "[]"] show ?thesis by blast
qed

section \<open>Bytes\<close>

text \<open>C25 Whatever pieces the bytes come in: all are read; an error in between is reported; and at the end of the stream the loop
  goes on for ever, as a call that reads nothing is not told from one that will read more.\<close>

theorem safe_read_outcomes:
  assumes "delivers rd 0 bs j" "length bs \<le> count" "0 < count"
  shows "(length bs = count \<longrightarrow> safe_read rd count buf = Inr (int count, bs @ drop count buf)) \<and>
    (length bs < count \<and> rd j = Failed \<longrightarrow> safe_read rd count buf = Inr (-1, bs @ drop (length bs) buf)) \<and>
    (length bs < count \<and> (\<forall>i\<ge>j. rd i = Moved []) \<longrightarrow> safe_read rd count buf = Inl Hang)"
proof -
  have r: "read_loop rd 0 count count [] = (if length bs = count then Some (int count, bs) else read_loop rd j count (count - length bs) bs)"
    using read_loop_delivers [OF assms(1), of "[]" count] assms(2,3) by simp
  have "safe_read rd count buf = Inl Hang" if "length bs < count" "\<forall>i\<ge>j. rd i = Moved []"
    unfolding safe_read_def r using read_loop_eof [OF that(2,1), of "count - length bs"] that(1) by simp
  moreover have "safe_read rd count buf = Inr (-1, bs @ drop (length bs) buf)" if "length bs < count" "rd j = Failed"
    unfolding safe_read_def r using read_loop_failed [of rd j, OF that(2)] that(1) by simp
  moreover have "safe_read rd count buf = Inr (int count, bs @ drop count buf)" if "length bs = count"
    unfolding safe_read_def r using that by simp
  ultimately show ?thesis by blast
qed

theorem safe_read_outcomes_witness:
  "safe_read (\<lambda>i. if i = 0 then Interrupted else if i = 1 then Moved [1, 2] else Moved [3]) 3 [0, 0, 0, 9] = Inr (3, [1, 2, 3, 9]) \<and>
   safe_read (\<lambda>i. if i = 0 then Moved [1, 2] else Moved []) 3 [0, 0, 0, 9] = Inl Hang"
proof -
  let ?f = "\<lambda>i :: nat. if i = 0 then Interrupted else if i = 1 then Moved [1, 2] else Moved [3 :: u8]"
  let ?g = "\<lambda>i :: nat. if i = 0 then Moved [1, 2] else Moved ([] :: u8 list)"
  have f: "delivers ?f 0 ([1, 2] @ [3] @ []) (0 + 1 + 1 + 1)"
    by (rule delivers.again, simp, rule delivers.piece, simp, rule delivers.piece, simp, rule delivers.nothing)
  have g: "delivers ?g 0 ([1, 2] @ []) (0 + 1)" by (rule delivers.piece, simp, rule delivers.nothing)
  have "safe_read ?f 3 [0, 0, 0, 9] = Inr (3, [1, 2, 3, 9])" using safe_read_outcomes [OF f, of 3 "[0, 0, 0, 9]"] by simp
  moreover have "\<forall>i\<ge>0 + 1. ?g i = Moved []" by simp
  then have "safe_read ?g 3 [0, 0, 0, 9] = Inl Hang" using safe_read_outcomes [OF g, of 3 "[0, 0, 0, 9]"] by (simp only: list.size append.simps) simp
  ultimately show ?thesis by blast
qed

section \<open>Sockets and memory\<close>

text \<open>\<open>malloc\<close> gives addresses that are not in use.\<close>

definition allocates :: "(nat \<Rightarrow> ptr) \<Rightarrow> blocks \<Rightarrow> bool" where
  "allocates al m \<longleftrightarrow> (\<forall>i<3. al i \<notin> fst ` set m) \<and> (\<forall>i<3. \<forall>j<3. i \<noteq> j \<longrightarrow> al i \<noteq> NULL \<longrightarrow> al i \<noteq> al j)"

lemma filter_fresh: "p \<notin> fst ` set m \<Longrightarrow> filter (\<lambda>(b, bs). b \<noteq> p) m = m"
  by (force simp: filter_id_conv)

lemma allocates_D: "allocates al m \<Longrightarrow> al 0 \<notin> fst ` set m \<and> al 1 \<notin> fst ` set m \<and> al 2 \<notin> fst ` set m \<and>
    (al 0 \<noteq> NULL \<longrightarrow> al 0 \<noteq> al 1 \<and> al 0 \<noteq> al 2) \<and> (al 1 \<noteq> NULL \<longrightarrow> al 1 \<noteq> al 2)"
  by (simp add: allocates_def)

text \<open>What is prepared and freed again.\<close>

lemma prepare_frees:
  assumes "ipcd_prepare al ty cmd priv m = Inr (rqo, m1)" "allocates al m"
  shows "case rqo of None \<Rightarrow> m1 = m
    | Some rq \<Rightarrow> \<forall>rq'. rq_cmd rq' = rq_cmd rq \<and> rq_priv rq' = rq_priv rq \<longrightarrow> ipcd_free_request (al 0) rq' m1 = Inr m"
  using assms(1) allocates_D [OF assms(2)]
  by (auto simp: ipcd_prepare_def ipcd_free_request_def copy_string_def free_block_def new_request_def filter_fresh then_do_Inr Let_def
      split: if_splits)

text \<open>Running a command leaves no socket open and no memory allocated, whatever happens in between.\<close>

theorem ipcd_exec_frees:
  assumes "ipcd_exec al cn cmd priv m fds = Inr (r, m', fds') \<or> ipcd_exec_security al cn cmd priv m fds = Inr (r, m', fds')"
    "allocates al m" "cn_socket cn \<ge> -1"
  shows "m' = m \<and> fds' = fds"
proof -
  have "m' = m \<and> fds' = fds" if e: "exec_with f al cn cmd priv m fds = Inr (r, m', fds')" for f
  proof -
    obtain rqo m1 where p: "ipcd_prepare al IPCD_REQUEST_TYPE_EXEC cmd priv m = Inr (rqo, m1)"
      using e by (auto simp: exec_with_def then_do_Inr)
    show ?thesis
    proof (cases rqo)
      case None
      then show ?thesis using e p prepare_frees [OF p assms(2)] by (simp add: exec_with_def)
    next
      case (Some rq0)
      then obtain rc rq where q: "request_for_ipcd cn (al 0) m1 rq0 fds = Inr (rc, rq, fds')"
          "ipcd_free_request (al 0) (rq\<lparr>rq_cmd := rq_cmd rq0, rq_priv := rq_priv rq0\<rparr>) m1 = Inr m'"
        using e p by (auto simp: exec_with_def then_do_Inr)
      then show ?thesis using prepare_frees [OF p assms(2)] Some
          request_for_closes [OF q(1) [unfolded request_for_ipcd_def] connect_opens(1) [OF assms(3)]] by simp
    qed
  qed
  then show ?thesis using assms(1) unfolding ipcd_exec_def ipcd_exec_security_def by blast
qed

theorem ipcd_exec_frees_witness:
  "ipcd_exec (\<lambda>i. 1000 + 100 * i) \<lparr>cn_pton = 1, cn_socket = 5, cn_connect = -1, cn_accept = 0, cn_write = \<lambda>_. Failed, cn_read = \<lambda>_ _. Failed\<rparr>
     100 NULL [(100, [7, 0])] [3] = Inr (-1, [(100, [7, 0])], [3])"
proof -
  let ?cn = "\<lparr>cn_pton = 1, cn_socket = 5, cn_connect = -1, cn_accept = 0, cn_write = \<lambda>_. Failed, cn_read = \<lambda>_ _. Failed\<rparr>"
  let ?al = "\<lambda>i. 1000 + 100 * i :: nat" and ?m = "[(100, [7, 0])] :: blocks"
  have "\<exists>m' fds'. ipcd_exec ?al ?cn 100 NULL ?m [3] = Inr (-1, m', fds')"
    by (simp add: ipcd_exec_def exec_with_def ipcd_prepare_def copy_string_def string_at_def bytes_at_def new_request_def request_for_ipcd_def
        request_for_def pack_request_def pack_fields_def pack_request_string_def request_mem_def connect_request_def ipcd_free_request_def
        free_block_def close_fd_def Let_def)
  then obtain m' fds' where r: "ipcd_exec ?al ?cn 100 NULL ?m [3] = Inr (-1, m', fds')" by blast
  moreover have "allocates ?al ?m" by (simp add: allocates_def)
  ultimately show ?thesis using ipcd_exec_frees [of ?al ?cn 100 NULL ?m "[3]" "-1" m' fds'] by simp
qed

text \<open>The thread that runs a command asynchronously puts back only one of the two pointers that packing has replaced.  With a
  second string and no connection it frees the mark.\<close>

theorem ipcd_async_frees_mark:
  assumes "rq_magic rq = IPCD_REQUEST_MAGIC" "rq_type rq < IPCD_REQUEST_TYPE_RESERVED" "has_strings ra m rq (Some c) (Some v)"
    "needs (Some c) (Some v) \<le> length (rq_string rq)" "STRING_MARK \<notin> fst ` set m" "cn_socket cn = -1 \<or> cn_socket cn \<ge> 0 \<and> cn_connect cn < 0" "ra \<noteq> NULL"
  shows "ipcd_exec_async_thread cn ra rq m fds = Inl BadAccess"
proof -
  let ?rq = "rq\<lparr>rq_reservedLen := 0\<rparr>"
  have "has_strings ra m ?rq (Some c) (Some v)" using assms(3) by (simp add: has_strings_def)
  then have p: "pack_request ra m ?rq = Inr (int (STRING_OFFSET + needs (Some c) (Some v)), marked ?rq (Some c) (Some v))"
    unfolding pack_request_def by (intro pack_fields_ok) (use assms(1,2,4) in simp_all)
  have "connect_request cn fds = (-1, fds)" using assms(6) by (auto simp: connect_request_def close_fd_def Let_def)
  with p have r: "request_for_ipcd cn ra m ?rq fds = Inr (-1, marked ?rq (Some c) (Some v), fds)" by (simp add: request_for_ipcd_def request_for_def)
  have "rq_priv (marked ?rq (Some c) (Some v)) = STRING_MARK" by (simp add: marked_def)
  moreover have "STRING_MARK \<notin> fst ` set m'" if "free_block q m = Inr m'" for q m'
    using that assms(5) by (auto simp: free_block_def split: if_splits)
  moreover have "err = BadAccess" if "free_block q m = Inl err" for q err
    using that by (auto simp: free_block_def split: if_splits)
  ultimately have "ipcd_free_request ra ((marked ?rq (Some c) (Some v))\<lparr>rq_cmd := rq_cmd rq\<rparr>) m = Inl BadAccess"
    using assms(7) by (cases "free_block (rq_cmd rq) m") (auto simp: ipcd_free_request_def free_block_def [of STRING_MARK])
  with r show ?thesis by (simp add: ipcd_exec_async_thread_def Let_def)
qed

theorem ipcd_async_frees_mark_witness:
  "ipcd_exec_async_thread \<lparr>cn_pton = 1, cn_socket = -1, cn_connect = 0, cn_accept = 0, cn_write = \<lambda>_. Failed, cn_read = \<lambda>_ _. Failed\<rparr> 1000
     (new_request 8 IPCD_REQUEST_TYPE_EXEC_ASYNC 100 200) [(1000, []), (100, [7, 0]), (200, [8, 0])] [] = Inl BadAccess"
proof -
  have "has_strings 1000 [(1000, []), (100, [7, 0]), (200, [8, 0])] (new_request 8 IPCD_REQUEST_TYPE_EXEC_ASYNC 100 200) (Some [7]) (Some [8])"
    by (simp add: has_strings_def string_opt_def new_request_def request_mem_def string_at_def bytes_at_def packed_def put_bytes_def)
  from ipcd_async_frees_mark [OF _ _ this] show ?thesis by (simp add: new_request_def needs_def packed_def)
qed

end
