(* ===== verification/NetInfd.thy ===== *)
theory NetInfd
  imports IpcLib
begin

text \<open>The daemon of the network, mw/linux_c_api/netinfd/prog/netinfd.c: a table of keys and values, the handling of one
  request, and the threads that handle requests.

  What the system does for a request is an argument: the results of \<open>fork\<close>, \<open>waitpid\<close> and \<open>system\<close>, and the status with which
  a script ends that is given its arguments.\<close>

section \<open>The table\<close>

abbreviation (input) CONFIG_SIZE :: nat where "CONFIG_SIZE \<equiv> 16"

record config =
  cf_buse :: int
  cf_linebufsz :: nat
  cf_key :: ptr
  cf_value :: ptr
  cf_linebuf :: ptr

text \<open>\<open>ConfigHashTable\<close>, and the memory that its lines and the daemon's other strings lie in.\<close>

record netcfg =
  nc_table :: "config list"
  nc_mem :: blocks

definition config_init :: "blocks \<Rightarrow> netcfg" where
  "config_init m = \<lparr>nc_table = replicate CONFIG_SIZE \<lparr>cf_buse = 0, cf_linebufsz = 0, cf_key = NULL, cf_value = NULL, cf_linebuf = NULL\<rparr>, nc_mem = m\<rparr>"

text \<open>The key is read when it is compared.  The result is the number of the slot of the key, else of the first free one.\<close>

fun find_config_loop :: "u8 list result \<Rightarrow> blocks \<Rightarrow> config list \<Rightarrow> nat \<Rightarrow> nat option \<Rightarrow> nat option result" where
  "find_config_loop key m [] i slot = Inr slot"
| "find_config_loop key m (c # cs) i slot =
    (if cf_buse c = 1 then
       then_do key (\<lambda>k. then_do (string_at (cf_key c) m) (\<lambda>k'. if k = k' then Inr (Some i) else find_config_loop key m cs (i + 1) slot))
     else find_config_loop key m cs (i + 1) (if slot = None then Some i else slot))"

definition find_config :: "u8 list result \<Rightarrow> netcfg \<Rightarrow> nat option result" where
  "find_config key s = find_config_loop key (nc_mem s) (nc_table s) 0 None"

text \<open>\<open>malloc\<close> gives the address \<open>a\<close> and the bytes \<open>junk\<close>; \<open>realloc\<close> moves a block to \<open>a\<close>, and what is new there is \<open>junk\<close>.\<close>

definition config_set_runtime :: "ptr \<Rightarrow> (nat \<Rightarrow> u8) \<Rightarrow> u8 list \<Rightarrow> u8 list \<Rightarrow> nat \<Rightarrow> netcfg \<Rightarrow> int \<times> netcfg" where
  "config_set_runtime a junk key val i s =
    (let linebufsz = length key + length val + 3 in
     if a = NULL then (-1, s)
     else (0, s\<lparr>nc_table := (nc_table s)[i := \<lparr>cf_buse = 1, cf_linebufsz = linebufsz, cf_key = a, cf_value = a + length key + 2, cf_linebuf = a\<rparr>],
       nc_mem := (a, put_bytes (length key + 2) val (put_bytes 0 key (map junk [0..<linebufsz]))) # nc_mem s\<rparr>))"

definition realloc_block :: "ptr \<Rightarrow> ptr \<Rightarrow> (nat \<Rightarrow> u8) \<Rightarrow> nat \<Rightarrow> blocks \<Rightarrow> blocks result" where
  "realloc_block a p junk n m = (case map_of m p of
     None \<Rightarrow> Inl BadAccess
   | Some bs \<Rightarrow> Inr ((a, take n bs @ map junk [length bs..<n]) # filter (\<lambda>(b, bs). b \<noteq> p) m))"

definition config_set :: "ptr \<Rightarrow> (nat \<Rightarrow> u8) \<Rightarrow> u8 list result \<Rightarrow> u8 list result \<Rightarrow> netcfg \<Rightarrow> (int \<times> netcfg) result" where
  "config_set a junk key val s =
    then_do (find_config key s) (\<lambda>found. case found of
      None \<Rightarrow> Inr (-1, s)
    | Some i \<Rightarrow>
      then_do key (\<lambda>k. then_do val (\<lambda>v.
        let c = nc_table s ! i; need = length k + length v + 3 in
        if cf_buse c = 0 then Inr (config_set_runtime a junk k v i s)
        else if cf_linebufsz c > need then
          then_do (write_at (cf_value c) v (nc_mem s)) (\<lambda>m. Inr (0, s\<lparr>nc_mem := m\<rparr>))
        else if a = NULL then Inr (-1, s)
        else then_do (realloc_block a (cf_linebuf c) junk need (nc_mem s)) (\<lambda>m.
          then_do (write_at (a + length k + 2) v m) (\<lambda>m.
            Inr (0, s\<lparr>nc_table := (nc_table s)[i := c\<lparr>cf_linebufsz := need, cf_linebuf := a, cf_key := a, cf_value := a + length k + 2\<rparr>],
              nc_mem := m\<rparr>))))))"

definition config_get :: "u8 list result \<Rightarrow> netcfg \<Rightarrow> ptr result" where
  "config_get key s = then_do (find_config key s) (\<lambda>found. case found of
     None \<Rightarrow> Inr NULL
   | Some i \<Rightarrow> let c = nc_table s ! i in Inr (if cf_buse c = 0 then NULL else cf_value c))"

section \<open>Scripts\<close>

definition dhcpscript :: "u8 list" where "dhcpscript = chars ''/sbin/dhcpc.script''"
definition dhcpinfo :: "u8 list" where "dhcpinfo = chars ''/var/dhcpinfo''"
definition ifscript :: "u8 list" where "ifscript = chars ''/sbin/ifconfig.script''"

text \<open>\<open>ne_exec\<close> is the status with which a script ends, or \<open>None\<close> where \<open>execv\<close> fails; \<open>ne_stack\<close> what an array on the stack
  holds before it is written; \<open>ne_crash\<close> the status of a child that is killed.\<close>

record netenv =
  ne_read :: "nat \<Rightarrow> u8 list io"
  ne_write :: "nat \<Rightarrow> nat io"
  ne_req :: ptr
  ne_alloc :: ptr
  ne_junk :: "nat \<Rightarrow> u8"
  ne_fork :: int
  ne_wait :: "nat \<Rightarrow> int"
  ne_exec :: "u8 list list \<Rightarrow> int option"
  ne_system :: "u8 list \<Rightarrow> int"
  ne_resolve :: "u8 list \<Rightarrow> bool"
  ne_crash :: int
  ne_stack :: "nat \<Rightarrow> u8 list"

text \<open>The arguments of a child up to the first \<open>NULL\<close>; it exits with 0 when the script cannot be run.\<close>

fun child_args :: "u8 list result option list \<Rightarrow> u8 list list result" where
  "child_args [] = Inr []"
| "child_args (None # as) = Inr []"
| "child_args (Some a # as) = then_do a (\<lambda>a. then_do (child_args as) (\<lambda>as. Inr (a # as)))"

definition child_status :: "netenv \<Rightarrow> u8 list result option list \<Rightarrow> int result" where
  "child_status e argp = then_do (child_args argp) (\<lambda>as. Inr (case ne_exec e as of None \<Rightarrow> 0 | Some st \<Rightarrow> st))"

partial_function (option) wait_loop :: "int \<Rightarrow> (nat \<Rightarrow> int) \<Rightarrow> nat \<Rightarrow> int option" where
  "wait_loop pid w k = (if w k \<ge> 0 \<and> w k \<noteq> pid then wait_loop pid w (k + 1) else Some (w k))"

declare wait_loop.simps [code]

text \<open>The reply is packed again without a value when it cannot be packed, and sent in any case.\<close>

definition send_reply :: "netenv \<Rightarrow> bool \<Rightarrow> blocks \<Rightarrow> request \<Rightarrow> u8 list result" where
  "send_reply e drop_value m rq =
    then_do (pack_request_netinf (ne_req e) m rq) (\<lambda>(k, rq).
    then_do (if k < 0 then pack_request_netinf (ne_req e) m (if drop_value then rq\<lparr>rq_status := -1, rq_priv := NULL\<rparr> else rq\<lparr>rq_status := -1\<rparr>)
             else Inr (k, rq)) (\<lambda>(k, rq).
    then_do (safe_write (ne_write e) (request_bytes rq) (STRING_OFFSET + length (rq_string rq))) (\<lambda>(n, sent). Inr sent)))"

text \<open>After a script: \<open>None\<close> where the process cannot be made; then nothing is sent, and the socket stays open.\<close>

definition run_script :: "netenv \<Rightarrow> u8 list result option list \<Rightarrow> blocks \<Rightarrow> request \<Rightarrow> u8 list option result" where
  "run_script e argp m rq =
    (if ne_fork e < 0 then Inr None
     else then_do (child_status e argp) (\<lambda>st.
       then_do (run_loop (map_option Inr (wait_loop (ne_fork e) (ne_wait e) 0))) (\<lambda>wpid.
         let rq = rq\<lparr>rq_status := (if wpid < 0 then -1 else if st \<noteq> 0 then -1 else 0)\<rparr> in
         then_do (send_reply e True m rq) (\<lambda>sent. Inr (Some sent)))))"

section \<open>Interfaces\<close>

text \<open>\<open>isspace\<close>; a conversion \<open>%16s\<close> of \<open>sscanf\<close>; \<open>%d\<close> and \<open>atoi\<close>.  The arrays for the words have 16 bytes, one too few for a
  word of 16 characters.\<close>

definition is_space :: "u8 \<Rightarrow> bool" where
  "is_space b = (b = 32 \<or> 9 \<le> b \<and> b \<le> 13)"

definition is_digit :: "u8 \<Rightarrow> bool" where
  "is_digit b = (48 \<le> b \<and> b \<le> 57)"

definition scan_word :: "u8 list \<Rightarrow> (u8 list \<times> u8 list) option" where
  "scan_word s =
    (let s = dropWhile is_space s; w = take 16 (takeWhile (\<lambda>b. \<not> is_space b) s) in
     if s = [] then None else Some (w, drop (length w) s))"

fun digits_value :: "int \<Rightarrow> u8 list \<Rightarrow> int" where
  "digits_value v [] = v"
| "digits_value v (b # bs) = (if is_digit b then digits_value (10 * v + (uint b - 48)) bs else v)"

text \<open>\<open>None\<close> where there is no digit.\<close>

definition scan_int :: "u8 list \<Rightarrow> int option" where
  "scan_int s =
    (let s = dropWhile is_space s;
         neg = (s \<noteq> [] \<and> hd s = 45);
         s = (if s \<noteq> [] \<and> hd s \<in> {43, 45} then tl s else s) in
     if s \<noteq> [] \<and> is_digit (hd s) then Some (if neg then - digits_value 0 s else digits_value 0 s) else None)"

text \<open>The words of the value, up to three, and the number behind them.\<close>

fun scan_words :: "nat \<Rightarrow> u8 list \<Rightarrow> u8 list list \<times> int option" where
  "scan_words 0 s = ([], scan_int s)"
| "scan_words (Suc n) s = (case scan_word s of None \<Rightarrow> ([], None) | Some (w, r) \<Rightarrow> (case scan_words n r of (ws, d) \<Rightarrow> (w # ws, d)))"

text \<open>The string in the \<open>i\<close>-th array, written or not.\<close>

definition scanned :: "netenv \<Rightarrow> u8 list list \<Rightarrow> nat \<Rightarrow> u8 list result" where
  "scanned e ws i =
    (if i < length ws then Inr (ws ! i)
     else if 0 \<in> set (ne_stack e i) then Inr (takeWhile (\<lambda>b. b \<noteq> 0) (ne_stack e i)) else Inl BadAccess)"

definition ifconf_args :: "netenv \<Rightarrow> u8 list result option \<Rightarrow> u8 list \<Rightarrow> u8 list result option list result" where
  "ifconf_args e key val =
    (case scan_words 3 val of (ws, d) \<Rightarrow>
       if \<exists>w\<in>set ws. length w = 16 then Inl BadAccess
       else then_do (scanned e ws 0) (\<lambda>ip. then_do (scanned e ws 1) (\<lambda>mask. then_do (scanned e ws 2) (\<lambda>gw.
         Inr [Some (Inr ifscript), Some (Inr (chars (if d = Some 1 then ''auto'' else ''ip_mask''))), key,
           Some (Inr ip), Some (Inr mask), Some (Inr (chars ''gw'')), Some (Inr gw)]))))"

section \<open>Names\<close>

text \<open>One turn of the loop waits a millisecond; the count below the smallest \<open>int\<close> is undefined.  The result is the last
  result of \<open>waitpid\<close>, and whether the child has been killed.\<close>

partial_function (option) dns_loop :: "int \<Rightarrow> (nat \<Rightarrow> int) \<Rightarrow> nat \<Rightarrow> int \<Rightarrow> (int \<times> bool) result option" where
  "dns_loop pid w k cnt =
    (if w k \<noteq> pid then
       (if cnt = 0 then Some (Inr (w k, True))
        else if cnt = - 2147483648 then Some (Inl BadAccess)
        else dns_loop pid w (k + 1) (cnt - 1))
     else Some (Inr (w k, False)))"

declare dns_loop.simps [code]

definition dns_lookup :: "netenv \<Rightarrow> u8 list result \<Rightarrow> u8 list \<Rightarrow> blocks \<Rightarrow> request \<Rightarrow> u8 list option result" where
  "dns_lookup e key val m rq =
    (let cnt = (case scan_int val of None \<Rightarrow> 0 | Some v \<Rightarrow> v) * 100 in
     if cnt < - 2147483648 \<or> cnt > 2147483647 then Inl BadAccess
     else if ne_fork e < 0 then Inr None
     else then_do (run_loop (dns_loop (ne_fork e) (ne_wait e) 0 cnt)) (\<lambda>(wpid, killed).
       let st = (if killed then 1 else case key of Inl _ \<Rightarrow> ne_crash e | Inr k \<Rightarrow> if ne_resolve e k then 0 else 256) in
       let rq = rq\<lparr>rq_status := (if wpid < 0 then -1 else if st \<noteq> 0 then -1 else 0)\<rparr> in
       then_do (send_reply e True m rq) (\<lambda>sent. Inr (Some sent))))"

section \<open>One request\<close>

text \<open>The results are what is sent, whether the socket stays open, and the table.\<close>

definition ni_enable :: "netenv \<Rightarrow> u8 list result \<Rightarrow> u8 list result \<Rightarrow> blocks \<Rightarrow> request \<Rightarrow> u8 list option result" where
  "ni_enable e key val m rq =
    then_do val (\<lambda>v.
      if v = chars ''y'' \<or> v = chars ''n'' then
        then_do key (\<lambda>k.
          let cmd = take 63 (chars ''ifconfig '' @ k @ chars (if v = chars ''y'' then '' up'' else '' down'')) in
          then_do (send_reply e False m (rq\<lparr>rq_status := (if ne_system e cmd = 0 then 0 else -1)\<rparr>\<lparr>rq_status := 0\<rparr>)) (\<lambda>sent. Inr (Some sent)))
      else Inr None)"

definition handle_type :: "netenv \<Rightarrow> request \<Rightarrow> netcfg \<Rightarrow> (u8 list option \<times> bool \<times> netcfg) result" where
  "handle_type e rq s =
    (let m = nc_mem s;
         str = (\<lambda>p. string_at p (request_mem (ne_req e) (rq_string rq) m));
         arg = (\<lambda>p. if p = NULL then None else Some (str p)) in
     if rq_type rq = NETINFD_REQUEST_TYPE_GET then
       then_do (config_get (str (rq_cmd rq)) s) (\<lambda>p.
       then_do (send_reply e True m (rq\<lparr>rq_priv := p, rq_status := 0\<rparr>)) (\<lambda>sent. Inr (Some sent, False, s)))
     else if rq_type rq = NETINFD_REQUEST_TYPE_SET then
       then_do (config_set (ne_alloc e) (ne_junk e) (str (rq_cmd rq)) (str (rq_priv rq)) s) (\<lambda>(r, s).
       then_do (pack_request_netinf (ne_req e) (nc_mem s) (rq\<lparr>rq_status := of_int r\<rparr>)) (\<lambda>(k, rq).
       then_do (safe_write (ne_write e) (request_bytes rq) (STRING_OFFSET + length (rq_string rq))) (\<lambda>(n, sent). Inr (Some sent, False, s))))
     else if rq_type rq = NETINFD_REQUEST_TYPE_DHCP then
       then_do (run_script e [Some (Inr dhcpscript), arg (rq_cmd rq), arg (rq_priv rq), Some (Inr dhcpinfo), Some (Inr (chars ''0''))] m rq) (\<lambda>sent.
         Inr (sent, sent = None, s))
     else if rq_type rq = NETINFD_REQUEST_TYPE_IFCONF then
       then_do (str (rq_priv rq)) (\<lambda>v.
       then_do (ifconf_args e (arg (rq_cmd rq)) v) (\<lambda>argp.
       then_do (run_script e argp m rq) (\<lambda>sent. Inr (sent, sent = None, s))))
     else if rq_type rq = NETINFD_REQUEST_TYPE_NIENABLE then
       then_do (ni_enable e (str (rq_cmd rq)) (str (rq_priv rq)) m rq) (\<lambda>sent. Inr (sent, False, s))
     else if rq_type rq = NETINFD_REQUEST_TYPE_DNSLOOKUP then
       then_do (str (rq_priv rq)) (\<lambda>v.
       then_do (dns_lookup e (str (rq_cmd rq)) v m rq) (\<lambda>sent. Inr (sent, sent = None, s)))
     else Inr (None, False, s))"

definition request_handle :: "netenv \<Rightarrow> int \<Rightarrow> netcfg \<Rightarrow> (u8 list option \<times> bool \<times> netcfg) result" where
  "request_handle e acpt_sock s =
    (if acpt_sock < 0 then Inr (None, False, s)
     else if ne_req e = NULL then Inr (None, False, s)
     else let n = STRING_OFFSET + NETINFD_REQUEST_MAX_SIZE in
       then_do (safe_read (ne_read e) n (map (ne_junk e) [0..<n])) (\<lambda>(k, buf).
         if k < 0 then Inr (None, False, s)
         else then_do (unpack_request_netinf (ne_req e) (bytes_request buf) k) (\<lambda>(r, rq).
           if r < 0 then Inr (None, False, s) else handle_type e rq s)))"

section \<open>The socket of the daemon\<close>

text \<open>The arguments are what \<open>inet_pton\<close>, \<open>socket\<close>, \<open>setsockopt\<close>, \<open>bind\<close> and \<open>listen\<close> return.\<close>

definition request_init :: "int \<Rightarrow> int \<Rightarrow> int \<Rightarrow> int \<Rightarrow> int \<Rightarrow> int list \<Rightarrow> int \<times> int list" where
  "request_init pton sock opt bnd lst fds =
    (if pton = 0 then (-1, fds)
     else if pton < 0 then (-1, fds)
     else if sock = -1 then (-1, fds)
     else let fds = sock # fds in
     if opt < 0 then (-1, close_fd sock fds)
     else if bnd < 0 then (-1, close_fd sock fds)
     else if lst < 0 then (-1, close_fd sock fds)
     else (sock, fds))"

section \<open>Threads\<close>

abbreviation (input) MAX_THREAD :: nat where "MAX_THREAD \<equiv> 10"

text \<open>\<open>NetinfdTd\<close>, \<open>totalUsedThd\<close>, the variable \<open>p_thread\<close> of the main loop as a number of a slot, whether the main loop has got
  to the mutex, the mutex, which it takes and the new thread gives back, and the threads that run, with whether they
  have given it back.\<close>

record netthreads =
  nt_td :: "tid list"
  nt_total :: int
  nt_pthread :: "nat option"
  nt_selected :: bool
  nt_lock :: bool
  nt_run :: "(tid \<times> bool) list"

definition nt_init :: netthreads where
  "nt_init = \<lparr>nt_td = replicate MAX_THREAD 0, nt_total = 0, nt_pthread = None, nt_selected = False, nt_lock = False, nt_run = []\<rparr>"

fun first_index :: "(tid \<Rightarrow> bool) \<Rightarrow> tid list \<Rightarrow> nat \<Rightarrow> nat option" where
  "first_index P [] i = None"
| "first_index P (t # ts) i = (if P t then Some i else first_index P ts (i + 1))"

text \<open>The counter is changed without a lock: what it is set to is the value read before, plus or minus one.\<close>

definition slot_found :: "nat \<Rightarrow> netthreads \<Rightarrow> netthreads" where
  "slot_found i s = s\<lparr>nt_pthread := Some i\<rparr>"

definition slot_cleared :: "nat \<Rightarrow> netthreads \<Rightarrow> netthreads" where
  "slot_cleared i s = s\<lparr>nt_td := (nt_td s)[i := 0]\<rparr>"

definition total_stored :: "int \<Rightarrow> netthreads \<Rightarrow> netthreads" where
  "total_stored v s = s\<lparr>nt_total := v\<rparr>"

declare slot_found_def [simp] slot_cleared_def [simp] total_stored_def [simp]

text \<open>The two functions without a turn of another thread in between; \<open>fine_step\<close> in NetThreads interleaves their accesses.\<close>

definition GetFreeThread :: "netthreads \<Rightarrow> int \<times> netthreads" where
  "GetFreeThread s = (case first_index (\<lambda>t. t = 0) (nt_td s) 0 of
     None \<Rightarrow> (-1, s)
   | Some i \<Rightarrow> (0, total_stored (nt_total s + 1) (slot_found i s)))"

definition FreeThisThread :: "tid \<Rightarrow> netthreads \<Rightarrow> netthreads" where
  "FreeThisThread me s = (case first_index (\<lambda>t. t = me) (nt_td s) 0 of
     None \<Rightarrow> s
   | Some i \<Rightarrow> total_stored (nt_total s - 1) (slot_cleared i s))"

text \<open>A turn of the main loop: it looks for a slot, whatever comes of it, waits for the mutex, and makes the thread \<open>t\<close>,
  where that succeeds.\<close>

definition main_selects :: "netthreads \<Rightarrow> netthreads" where
  "main_selects s = (snd (GetFreeThread s))\<lparr>nt_selected := True\<rparr>"

definition main_creates :: "tid option \<Rightarrow> netthreads \<Rightarrow> netthreads waits result" where
  "main_creates t s =
    (if nt_lock s then Inr Waiting
     else let s = s\<lparr>nt_lock := True, nt_selected := False\<rparr> in
       case t of
         None \<Rightarrow> Inr (Returned s)
       | Some t \<Rightarrow> (case nt_pthread s of
           None \<Rightarrow> Inl BadAccess
         | Some i \<Rightarrow> Inr (Returned (s\<lparr>nt_td := (nt_td s)[i := t], nt_run := (t, False) # nt_run s\<rparr>))))"

text \<open>The thread copies its argument and gives the mutex back; at its end it gives its slot back.\<close>

definition handler_starts :: "tid \<Rightarrow> netthreads \<Rightarrow> netthreads" where
  "handler_starts t s = s\<lparr>nt_lock := False, nt_run := map (\<lambda>(u, b). (u, b \<or> u = t)) (nt_run s)\<rparr>"

text \<open>A thread that cannot read or unpack its request returns without its clean-up.\<close>

definition handler_returns :: "tid \<Rightarrow> netthreads \<Rightarrow> netthreads" where
  "handler_returns t s = s\<lparr>nt_run := filter (\<lambda>(u, b). u \<noteq> t) (nt_run s)\<rparr>"

definition handler_ends :: "tid \<Rightarrow> netthreads \<Rightarrow> netthreads" where
  "handler_ends t s = (FreeThisThread t s)\<lparr>nt_run := filter (\<lambda>(u, b). u \<noteq> t) (nt_run s)\<rparr>"

section \<open>The accesses one by one\<close>

text \<open>Where the main loop is in \<open>GetFreeThread\<close>: outside of it, about to look at a slot, with a free slot found, and with the
  counter read.  Each thread in \<open>FreeThisThread\<close> has cleared its slot, and then has read the counter.\<close>

datatype main_pc = Outside | Looks nat | Found | Counts int

record netrun =
  nr_table :: netthreads
  nr_main :: main_pc
  nr_ends :: "(tid \<times> int option) list"

definition nr_init :: netrun where
  "nr_init = \<lparr>nr_table = nt_init, nr_main = Outside, nr_ends = []\<rparr>"

definition get_look :: "nat \<Rightarrow> netrun \<Rightarrow> netrun" where
  "get_look i r =
    (if nt_td (nr_table r) ! i = 0 then r\<lparr>nr_table := slot_found i (nr_table r), nr_main := Found\<rparr>
     else r\<lparr>nr_main := Looks (i + 1)\<rparr>)"

definition get_load :: "netrun \<Rightarrow> netrun" where
  "get_load r = r\<lparr>nr_main := Counts (nt_total (nr_table r))\<rparr>"

definition get_store :: "int \<Rightarrow> netrun \<Rightarrow> netrun" where
  "get_store v r = r\<lparr>nr_table := (total_stored (v + 1) (nr_table r))\<lparr>nt_selected := True\<rparr>, nr_main := Outside\<rparr>"

definition free_clear :: "tid \<Rightarrow> netrun \<Rightarrow> netrun" where
  "free_clear t r = (case first_index (\<lambda>u. u = t) (nt_td (nr_table r)) 0 of
     None \<Rightarrow> r\<lparr>nr_table := handler_returns t (nr_table r)\<rparr>
   | Some i \<Rightarrow> r\<lparr>nr_table := slot_cleared i (nr_table r), nr_ends := (t, None) # nr_ends r\<rparr>)"

definition free_load :: "tid \<Rightarrow> netrun \<Rightarrow> netrun" where
  "free_load t r = r\<lparr>nr_ends := (t, Some (nt_total (nr_table r))) # filter (\<lambda>(u, v). u \<noteq> t) (nr_ends r)\<rparr>"

definition free_store :: "tid \<Rightarrow> int \<Rightarrow> netrun \<Rightarrow> netrun" where
  "free_store t v r = r\<lparr>nr_table := handler_returns t (total_stored (v - 1) (nr_table r)), nr_ends := filter (\<lambda>(u, v). u \<noteq> t) (nr_ends r)\<rparr>"

end
