(* ===== verification/NetInv.thy ===== *)
theory NetInv
  imports IpcInv NetInfd "HOL-Library.Multiset"
begin

text \<open>The table of the network daemon as a map from keys to values.\<close>

section \<open>Blocks\<close>

definition apart :: "nat \<times> nat \<Rightarrow> nat \<times> nat \<Rightarrow> bool" where
  "apart x y \<longleftrightarrow> fst x + snd x \<le> fst y \<or> fst y + snd y \<le> fst x"

definition shape :: "blocks \<Rightarrow> (nat \<times> nat) list" where
  "shape m = map (map_prod id length) m"

definition shape_ok :: "(nat \<times> nat) list \<Rightarrow> bool" where
  "shape_ok = sorted_wrt (\<lambda>x y. fst y \<noteq> fst x \<and> apart x y)"

definition blocks_ok :: "blocks \<Rightarrow> bool" where
  "blocks_ok m \<longleftrightarrow> shape_ok (shape m)"

definition fresh :: "ptr \<Rightarrow> nat \<Rightarrow> blocks \<Rightarrow> bool" where
  "fresh a n m \<longleftrightarrow> a \<noteq> NULL \<and> (\<forall>x\<in>set (shape m). fst x \<noteq> a \<and> apart (a, n) x)"

lemma shape_simps [simp]: "shape [] = []" "shape ((a, bs) # m) = (a, length bs) # shape m"
  by (simp_all add: shape_def)

lemma blocks_ok_Nil [simp]: "blocks_ok []"
  by (simp add: blocks_ok_def shape_ok_def)

lemma blocks_ok_Cons: "blocks_ok ((a, bs) # m) \<longleftrightarrow> blocks_ok m \<and> (\<forall>x\<in>set (shape m). fst x \<noteq> a \<and> apart (a, length bs) x)"
  by (auto simp: blocks_ok_def shape_ok_def)

lemma shape_filter: "set (shape (filter P m)) \<subseteq> set (shape m)"
  by (auto simp: shape_def)

lemma blocks_ok_filter: "blocks_ok m \<Longrightarrow> blocks_ok (filter P m)"
proof (induction m)
  case (Cons x m)
  obtain b bs where x: "x = (b, bs)" by (metis prod.exhaust)
  show ?case using Cons shape_filter [of P m] unfolding x by (auto simp: blocks_ok_Cons)
qed simp

lemma in_shape: "(b, bs) \<in> set m \<Longrightarrow> (b, length bs) \<in> set (shape m)"
proof (induction m)
  case (Cons x m)
  then show ?case by (cases x) auto
qed simp

lemma blocks_apart: "blocks_ok m \<Longrightarrow> (b, bs) \<in> set m \<Longrightarrow> (c, cs) \<in> set m \<Longrightarrow> b \<noteq> c \<Longrightarrow> b + length bs \<le> c \<or> c + length cs \<le> b"
proof (induction m)
  case (Cons x m)
  obtain a as where x: "x = (a, as)" by (metis prod.exhaust)
  have m: "blocks_ok m" "\<And>y. y \<in> set (shape m) \<Longrightarrow> apart (a, length as) y" using Cons.prems(1) unfolding x blocks_ok_Cons by auto
  consider "(b, bs) = x" "(c, cs) \<in> set m" | "(c, cs) = x" "(b, bs) \<in> set m" | "(b, bs) \<in> set m" "(c, cs) \<in> set m"
    using Cons.prems(2-4) by auto
  then show ?case
  proof cases
    case 1
    then show ?thesis using m(2) [OF in_shape [OF 1(2)]] x by (simp add: apart_def)
  next
    case 2
    then show ?thesis using m(2) [OF in_shape [OF 2(2)]] x by (auto simp: apart_def)
  next
    case 3
    then show ?thesis using Cons.IH m(1) Cons.prems(4) by simp
  qed
qed simp

lemma blocks_distinct: "blocks_ok m \<Longrightarrow> distinct (map fst m)"
proof (induction m)
  case (Cons x m)
  obtain a as where x: "x = (a, as)" by (metis prod.exhaust)
  have "a \<notin> fst ` set m"
  proof
    assume "a \<in> fst ` set m"
    then obtain cs where "(a, cs) \<in> set m" by auto
    from in_shape [OF this] show False using Cons.prems unfolding x blocks_ok_Cons by auto
  qed
  then show ?case using Cons unfolding x blocks_ok_Cons by simp
qed simp

lemma find_only: "x \<in> set xs \<Longrightarrow> P x \<Longrightarrow> (\<And>y. y \<in> set xs \<Longrightarrow> P y \<Longrightarrow> y = x) \<Longrightarrow> find P xs = Some x"
proof (induction xs)
  case (Cons z zs)
  show ?case
  proof (cases "P z")
    case True
    then show ?thesis using Cons.prems(3) [of z] by simp
  next
    case False
    then have "x \<in> set zs" using Cons.prems(1,2) by auto
    then have "find P zs = Some x" by (rule Cons.IH [OF _ Cons.prems(2)]) (rule Cons.prems(3), simp_all)
    then show ?thesis using False by simp
  qed
qed simp

lemma same_block: "blocks_ok m \<Longrightarrow> (b, bs) \<in> set m \<Longrightarrow> (c, cs) \<in> set m \<Longrightarrow> b \<le> q \<Longrightarrow> q < b + length bs \<Longrightarrow> c \<le> q \<Longrightarrow> q < c + length cs \<Longrightarrow>
    (c, cs) = (b, bs)"
proof -
  assume a: "blocks_ok m" "(b, bs) \<in> set m" "(c, cs) \<in> set m" "b \<le> q" "q < b + length bs" "c \<le> q" "q < c + length cs"
  then have "b = c" using blocks_apart [OF a(1-3)] by linarith
  then show "(c, cs) = (b, bs)" using a(2,3) blocks_distinct [OF a(1)] by (simp add: eq_key_imp_eq_value)
qed

lemma bytes_at_block:
  assumes "blocks_ok m" "(b, bs) \<in> set m" "b \<le> q" "q < b + length bs"
  shows "bytes_at q m = Inr (drop (q - b) bs)"
proof -
  have "find (\<lambda>(b, bs). b \<le> q \<and> q < b + length bs) m = Some (b, bs)"
  proof (rule find_only)
    fix y
    assume y: "y \<in> set m" "case y of (b, bs) \<Rightarrow> b \<le> q \<and> q < b + length bs"
    obtain c cs where c: "y = (c, cs)" by (metis prod.exhaust)
    have "(c, cs) = (b, bs)" by (rule same_block [OF assms(1,2) _ assms(3,4)]) (use y c in simp_all)
    then show "y = (b, bs)" using c by simp
  qed (use assms in simp_all)
  then show ?thesis by (simp add: bytes_at_def)
qed

lemma string_at_block:
  assumes "blocks_ok m" "(b, bs) \<in> set m" "bs = xs @ s @ 0 # r" "no_zero s"
  shows "string_at (b + length xs) m = Inr s"
proof -
  have "bytes_at (b + length xs) m = Inr (drop (b + length xs - b) bs)"
    by (rule bytes_at_block [OF assms(1,2)]) (simp_all add: assms(3))
  then show ?thesis using assms(3,4) by (simp add: string_at_def)
qed

lemma write_at_block:
  assumes "blocks_ok m" "(b, bs) \<in> set m" "k + length xs \<le> length bs"
  shows "write_at (b + k) xs m = Inr (map (\<lambda>x. if x = (b, bs) then (b, put_bytes k xs bs) else x) m)"
proof (cases "xs = []")
  case True
  then have "(\<lambda>x. if x = (b, bs) then (b, put_bytes k xs bs) else x) = id" using assms(3) by (auto simp: fun_eq_iff)
  then show ?thesis using True by (simp add: write_at_def)
next
  case False
  have "find (\<lambda>(c, cs). c \<le> b + k \<and> b + k + length xs \<le> c + length cs) m = Some (b, bs)"
  proof (rule find_only)
    fix y
    assume y: "y \<in> set m" "case y of (c, cs) \<Rightarrow> c \<le> b + k \<and> b + k + length xs \<le> c + length cs"
    obtain c cs where c: "y = (c, cs)" by (metis prod.exhaust)
    have x: "0 < length xs" using False by simp
    have "c \<le> b + k" "b + k + length xs \<le> c + length cs" using y(2) c by simp_all
    then have "b + k < b + length bs" "b + k < c + length cs" using assms(3) x by linarith+
    then show "y = (b, bs)" using same_block [OF assms(1,2), of c cs "b + k"] y c by auto
  qed (use assms in auto)
  then show ?thesis using False by (simp add: write_at_def)
qed

text \<open>Replacing the bytes of one block by as many.\<close>

lemma set_block:
  assumes "blocks_ok m" "(b, bs) \<in> set m" "length bs' = length bs"
  defines "m' \<equiv> map (\<lambda>x. if x = (b, bs) then (b, bs') else x) m"
  shows "blocks_ok m'" "(b, bs') \<in> set m'" "\<And>c cs. c \<noteq> b \<Longrightarrow> (c, cs) \<in> set m' \<longleftrightarrow> (c, cs) \<in> set m" "shape m' = shape m"
proof -
  show l: "shape m' = shape m" using assms(3) by (auto simp: m'_def shape_def)
  then show "blocks_ok m'" using assms(1) by (simp add: blocks_ok_def)
  show "(b, bs') \<in> set m'" using assms(2) by (force simp: m'_def)
  show "\<And>c cs. c \<noteq> b \<Longrightarrow> (c, cs) \<in> set m' \<longleftrightarrow> (c, cs) \<in> set m" by (auto simp: m'_def split: if_splits)
qed

section \<open>Lines\<close>

text \<open>What a key stands for: its value, and the room that its line has for one.\<close>

type_synonym entry = "u8 list \<times> u8 list \<times> nat"

definition line_bytes :: "entry \<Rightarrow> u8 list" where
  "line_bytes x = (case x of (k, v, cap) \<Rightarrow> k @ [0, 0] @ v @ replicate (cap + 1 - length v) 0)"

definition entry_ok :: "entry \<Rightarrow> bool" where
  "entry_ok x = (case x of (k, v, cap) \<Rightarrow> no_zero k \<and> no_zero v \<and> length v \<le> cap)"

lemma length_line: "entry_ok x \<Longrightarrow> length (line_bytes x) = length (fst x) + snd (snd x) + 3"
  by (cases x) (simp add: line_bytes_def entry_ok_def)

definition slot_rel :: "blocks \<Rightarrow> config \<Rightarrow> entry option \<Rightarrow> bool" where
  "slot_rel m c eo = (case eo of
     None \<Rightarrow> cf_buse c = 0
   | Some (k, v, cap) \<Rightarrow> entry_ok (k, v, cap) \<and> cf_buse c = 1 \<and> cf_linebufsz c = length k + cap + 3 \<and> cf_linebuf c \<noteq> NULL \<and>
       cf_key c = cf_linebuf c \<and> cf_value c = cf_linebuf c + length k + 2 \<and> (cf_linebuf c, line_bytes (k, v, cap)) \<in> set m)"

definition keys :: "entry option list \<Rightarrow> u8 list list" where
  "keys es = [k. Some (k, v, cap) \<leftarrow> es]"

definition cfg_rel :: "netcfg \<Rightarrow> entry option list \<Rightarrow> bool" where
  "cfg_rel s es \<longleftrightarrow> list_all2 (slot_rel (nc_mem s)) (nc_table s) es \<and> distinct (keys es) \<and> blocks_ok (nc_mem s) \<and> length es = CONFIG_SIZE"

lemma line_key: "entry_ok (k, v, cap) \<Longrightarrow> blocks_ok m \<Longrightarrow> (lb, line_bytes (k, v, cap)) \<in> set m \<Longrightarrow> string_at lb m = Inr k"
  using string_at_block [of m lb "line_bytes (k, v, cap)" "[]" k] by (simp add: line_bytes_def entry_ok_def)

lemma line_value:
  assumes "entry_ok (k, v, cap)" "blocks_ok m" "(lb, line_bytes (k, v, cap)) \<in> set m"
  shows "string_at (lb + length k + 2) m = Inr v"
proof -
  have "replicate (cap + 1 - length v) 0 = 0 # replicate (cap - length v) (0 :: u8)"
    using assms(1) by (simp add: entry_ok_def Suc_diff_le)
  then have "line_bytes (k, v, cap) = (k @ [0, 0]) @ v @ 0 # replicate (cap - length v) 0" by (simp add: line_bytes_def)
  from string_at_block [OF assms(2,3) this] show ?thesis using assms(1) by (simp add: entry_ok_def)
qed

section \<open>Look-up\<close>

text \<open>The number of the slot of a key, and of the first free slot.\<close>

definition key_slot :: "u8 list \<Rightarrow> entry option list \<Rightarrow> nat option" where
  "key_slot k es = find (\<lambda>i. map_option fst (es ! i) = Some k) [0..<length es]"

definition free_slot :: "entry option list \<Rightarrow> nat option" where
  "free_slot es = find (\<lambda>i. es ! i = None) [0..<length es]"

lemma key_slot_Cons: "key_slot k (e # es) = (if map_option fst e = Some k then Some 0 else map_option Suc (key_slot k es))"
  by (simp add: key_slot_def upt_rec [of 0] find_upt_Suc comp_def del: upt_Suc)

lemma free_slot_Cons: "free_slot (e # es) = (if e = None then Some 0 else map_option Suc (free_slot es))"
  by (simp add: free_slot_def upt_rec [of 0] find_upt_Suc comp_def del: upt_Suc)

lemma find_config_loop_ok:
  assumes "list_all2 (slot_rel m) cs es" "blocks_ok m"
  shows "find_config_loop (Inr k) m cs i slot = Inr (case key_slot k es of
      Some j \<Rightarrow> Some (i + j)
    | None \<Rightarrow> if slot = None then map_option (\<lambda>j. i + j) (free_slot es) else slot)"
  using assms(1)
proof (induction arbitrary: i slot rule: list_all2_induct)
  case Nil
  then show ?case by (simp add: key_slot_def free_slot_def)
next
  case (Cons c cs e es)
  have f: "map_option ((+) (Suc i)) x = map_option ((+) i) (map_option Suc x)" for x by (cases x) simp_all
  show ?case
  proof (cases e)
    case None
    then show ?thesis using Cons by (simp add: slot_rel_def key_slot_Cons free_slot_Cons split: option.split)
  next
    case (Some x)
    obtain k' v cap where x: "x = (k', v, cap)" by (metis prod.exhaust)
    have "string_at (cf_key c) m = Inr k'" "cf_buse c = 1" using Cons.hyps(1) line_key assms(2) Some x by (auto simp: slot_rel_def)
    then show ?thesis using Cons.IH Some x by (auto simp: key_slot_Cons free_slot_Cons f split: option.split)
  qed
qed

lemma find_config_ok:
  "cfg_rel s es \<Longrightarrow> find_config (Inr k) s = Inr (case key_slot k es of Some j \<Rightarrow> Some j | None \<Rightarrow> free_slot es)"
  using find_config_loop_ok [of "nc_mem s" "nc_table s" es k 0 None]
  by (cases "free_slot es") (auto simp: find_config_def cfg_rel_def split: option.split)

lemma key_slot_Some: "key_slot k es = Some i \<Longrightarrow> i < length es \<and> (\<exists>v cap. es ! i = Some (k, v, cap))"
  by (force simp: key_slot_def dest!: find_upt_SomeD)

lemma free_slot_Some: "free_slot es = Some i \<Longrightarrow> i < length es \<and> es ! i = None"
  by (auto simp: free_slot_def dest!: find_upt_SomeD)

lemma set_keys: "k \<in> set (keys es) \<longleftrightarrow> (\<exists>i v cap. i < length es \<and> es ! i = Some (k, v, cap))"
  by (force simp: keys_def in_set_conv_nth split: option.splits)

lemma key_slot_None: "key_slot k es = None \<longleftrightarrow> k \<notin> set (keys es)"
  by (force simp: key_slot_def find_None_iff set_keys)

text \<open>The table as a map.\<close>

definition cfg_map :: "entry option list \<Rightarrow> u8 list \<Rightarrow> u8 list option" where
  "cfg_map es k = (case key_slot k es of None \<Rightarrow> None | Some i \<Rightarrow> map_option (fst \<circ> snd) (es ! i))"

lemma config_get_ok:
  assumes "cfg_rel s es"
  shows "\<exists>p. config_get (Inr k) s = Inr p \<and> string_opt p (nc_mem s) (cfg_map es k)"
proof (cases "key_slot k es")
  case (Some i)
  obtain v cap where v: "i < length es" "es ! i = Some (k, v, cap)" using key_slot_Some [OF Some] by blast
  let ?c = "nc_table s ! i"
  have r: "slot_rel (nc_mem s) ?c (es ! i)" using assms v(1) by (auto simp: cfg_rel_def list_all2_conv_all_nth)
  then have "string_at (cf_value ?c) (nc_mem s) = Inr v" "cf_value ?c \<noteq> NULL" "cf_buse ?c = 1"
    using line_value [of k v cap "nc_mem s" "cf_linebuf ?c"] assms v(2) by (auto simp: slot_rel_def cfg_rel_def)
  then show ?thesis using find_config_ok [OF assms, of k] Some v by (simp add: config_get_def cfg_map_def string_opt_def)
next
  case None
  show ?thesis
  proof (cases "free_slot es")
    case (Some i)
    then have "cf_buse (nc_table s ! i) = 0" using free_slot_Some [OF Some] assms by (auto simp: cfg_rel_def list_all2_conv_all_nth slot_rel_def)
    then show ?thesis using find_config_ok [OF assms, of k] Some None by (simp add: config_get_def cfg_map_def string_opt_def)
  qed (use find_config_ok [OF assms, of k] None in \<open>simp add: config_get_def cfg_map_def string_opt_def\<close>)
qed

section \<open>Setting\<close>

text \<open>A value written over another leaves the end of a longer one.\<close>

definition overlay :: "u8 list \<Rightarrow> u8 list \<Rightarrow> u8 list" where
  "overlay new old = new @ drop (length new) old"

lemma length_overlay: "length (overlay new old) = max (length new) (length old)"
  by (simp add: overlay_def)

lemma put_in_line:
  assumes "entry_ok (k, v, cap)" "length w \<le> cap"
  shows "put_bytes (length k + 2) w (line_bytes (k, v, cap)) = line_bytes (k, overlay w v, cap)"
proof -
  have "put_bytes (length k + 2) w (line_bytes (k, v, cap)) = k @ [0, 0] @ w @ drop (length w) (v @ replicate (cap + 1 - length v) 0)"
    by (simp add: put_bytes_def line_bytes_def)
  also have "drop (length w) (v @ replicate (cap + 1 - length v) 0) = drop (length w) v @ replicate (cap + 1 - length (overlay w v)) 0"
    using assms by (simp add: entry_ok_def length_overlay)
  finally show ?thesis by (simp add: line_bytes_def overlay_def)
qed

lemma overlay_no_zero: "no_zero w \<Longrightarrow> no_zero v \<Longrightarrow> no_zero (overlay w v)"
  by (auto simp: overlay_def dest: in_set_dropD)

text \<open>A line as \<open>config_set_runtime\<close> makes it in memory that is zero, and as \<open>config_set\<close> makes it in memory that has grown.\<close>

lemma new_line: "put_bytes (length k + 2) v (put_bytes 0 k (map (\<lambda>_. 0) [0..<length k + length v + 3])) = line_bytes (k, v, length v)"
proof -
  have "map (\<lambda>_. 0) [0..<length k + length v + 3] = replicate (length k) 0 @ [0, 0] @ replicate (length v + 1) (0 :: u8)"
    by (simp add: map_replicate_const replicate_add [symmetric] numeral_eq_Suc flip: replicate_Suc)
  then have "put_bytes 0 k (map (\<lambda>_. 0) [0..<length k + length v + 3]) = k @ [0, 0] @ replicate (length v + 1) 0"
    by (simp add: put_bytes_def)
  moreover have "0 # replicate n 0 = replicate n 0 @ [0 :: u8]" for n by (simp add: replicate_append_same)
  then have "drop n (0 # replicate n 0) = [0 :: u8]" for n by simp
  ultimately show ?thesis by (simp add: put_bytes_def line_bytes_def)
qed

lemma grown_line:
  assumes "entry_ok (k, v, cap)" "cap \<le> length w"
  shows "put_bytes (length k + 2) w (take (length k + length w + 3) (line_bytes (k, v, cap)) @
      map (\<lambda>_. 0) [length (line_bytes (k, v, cap))..<length k + length w + 3]) = line_bytes (k, overlay w v, length w)"
proof -
  let ?l = "line_bytes (k, v, cap)"
  have l: "length ?l = length k + cap + 3" using length_line [OF assms(1)] by simp
  have o: "overlay w v = w" using assms by (simp add: overlay_def entry_ok_def)
  have "take (length k + length w + 3) ?l @ map (\<lambda>_. 0) [length ?l..<length k + length w + 3] = ?l @ replicate (length w - cap) 0"
    using assms(2) l by (simp add: map_replicate_const)
  also have "\<dots> = k @ [0, 0] @ v @ replicate (length w + 1 - length v) 0"
  proof -
    have "cap + 1 - length v + (length w - cap) = length w + 1 - length v" using assms by (simp add: entry_ok_def)
    then show ?thesis by (simp add: line_bytes_def replicate_add [symmetric])
  qed
  finally show ?thesis using assms o by (simp add: put_bytes_def line_bytes_def entry_ok_def)
qed

text \<open>Replacing one entry of the table, and the block of its line.\<close>

lemma keys_update: "i < length es \<Longrightarrow> map_option fst (es ! i) = Some k \<Longrightarrow> keys (es[i := Some (k, v, cap)]) = keys es"
proof (induction es arbitrary: i)
  case (Cons e es)
  then show ?case by (cases i) (auto simp: keys_def split: option.splits)
qed simp

lemma keys_insert: "i < length es \<Longrightarrow> es ! i = None \<Longrightarrow> mset (keys (es[i := Some (k, v, cap)])) = mset (keys es) + {#k#}"
proof (induction es arbitrary: i)
  case (Cons e es)
  then show ?case by (cases i) (auto simp: keys_def split: option.splits)
qed simp

lemma keys_nth: "i < length es \<Longrightarrow> es ! i = Some (k, v, cap) \<Longrightarrow> k \<in> set (keys es)"
  using set_keys by blast

lemma keys_pos: "distinct (keys es) \<Longrightarrow> i < length es \<Longrightarrow> j < length es \<Longrightarrow> es ! i = Some (k, v, cap) \<Longrightarrow> es ! j = Some (k, v', cap') \<Longrightarrow> i = j"
proof (induction es arbitrary: i j)
  case (Cons e es)
  have k: "keys (e # es) = (case e of None \<Rightarrow> [] | Some (k, v, cap) \<Rightarrow> [k]) @ keys es" by (auto simp: keys_def split: option.split)
  have d: "distinct (keys es)" using Cons.prems(1) k by simp
  show ?case
  proof (cases i)
    case 0
    show ?thesis
    proof (cases j)
      case (Suc j')
      then have "k \<in> set (keys es)" using keys_nth Cons.prems(3,5) by auto
      then show ?thesis using Cons.prems(1,4) k 0 by simp
    qed (use 0 in simp)
  next
    case (Suc i')
    then have ki: "k \<in> set (keys es)" using keys_nth Cons.prems(2,4) by auto
    show ?thesis
    proof (cases j)
      case 0
      then show ?thesis using Cons.prems(1,5) k ki by simp
    next
      case (Suc j')
      then show ?thesis using Cons.IH [OF d, of i' j'] Cons.prems \<open>i = Suc i'\<close> by simp
    qed
  qed
qed simp

lemma cfg_map_iff: "distinct (keys es) \<Longrightarrow> cfg_map es k = Some v \<longleftrightarrow> (\<exists>i<length es. \<exists>cap. es ! i = Some (k, v, cap))"
proof
  assume "cfg_map es k = Some v"
  then show "\<exists>i<length es. \<exists>cap. es ! i = Some (k, v, cap)"
    using key_slot_Some [of k es] by (fastforce simp: cfg_map_def split: option.splits)
next
  assume d: "distinct (keys es)" and "\<exists>i<length es. \<exists>cap. es ! i = Some (k, v, cap)"
  then obtain i cap where i: "i < length es" "es ! i = Some (k, v, cap)" by blast
  then have "key_slot k es \<noteq> None" using keys_nth key_slot_None by blast
  then obtain j where j: "key_slot k es = Some j" by blast
  then obtain v' cap' where "j < length es" "es ! j = Some (k, v', cap')" using key_slot_Some by blast
  then have "j = i" using keys_pos [OF d _ i(1) _ i(2)] by blast
  then show "cfg_map es k = Some v" using j i by (simp add: cfg_map_def)
qed

lemma cfg_map_update:
  assumes "distinct (keys es)" "distinct (keys (es[i := Some (k, w, c)]))" "i < length es" "es ! i = None \<or> map_option fst (es ! i) = Some k"
  shows "cfg_map (es[i := Some (k, w, c)]) = (cfg_map es)(k \<mapsto> w)"
proof
  fix x
  have "cfg_map (es[i := Some (k, w, c)]) x = Some v \<longleftrightarrow> ((cfg_map es)(k \<mapsto> w)) x = Some v" for v
  proof (cases "x = k")
    case True
    have "cfg_map (es[i := Some (k, w, c)]) k = Some w" unfolding cfg_map_iff [OF assms(2)] using assms(3) by auto
    then show ?thesis using True by simp
  next
    case False
    have "es[i := Some (k, w, c)] ! j = Some (x, v, cap) \<longleftrightarrow> es ! j = Some (x, v, cap)" for j cap
      using assms(3,4) False by (cases "j = i") auto
    then show ?thesis using False by (simp add: cfg_map_iff [OF assms(1)] cfg_map_iff [OF assms(2)])
  qed
  then show "cfg_map (es[i := Some (k, w, c)]) x = ((cfg_map es)(k \<mapsto> w)) x" by (metis option.exhaust)
qed

lemma other_line:
  assumes "cfg_rel s es" "i < length es" "j < length es" "i \<noteq> j" "es ! i = Some (k, v, cap)" "es ! j = Some (k', v', cap')"
  shows "cf_linebuf (nc_table s ! i) \<noteq> cf_linebuf (nc_table s ! j)"
proof
  assume e: "cf_linebuf (nc_table s ! i) = cf_linebuf (nc_table s ! j)"
  have "slot_rel (nc_mem s) (nc_table s ! i) (es ! i)" "slot_rel (nc_mem s) (nc_table s ! j) (es ! j)" and b: "blocks_ok (nc_mem s)"
    using assms(1-3) by (auto simp: cfg_rel_def list_all2_conv_all_nth)
  then have "string_at (cf_linebuf (nc_table s ! i)) (nc_mem s) = Inr k" "string_at (cf_linebuf (nc_table s ! j)) (nc_mem s) = Inr k'"
    using line_key [of k v cap, OF _ b] line_key [of k' v' cap', OF _ b] assms(5,6) by (auto simp: slot_rel_def)
  then have "k = k'" using e by simp
  then show False using keys_pos [of es i j k v cap v' cap'] assms by (auto simp: cfg_rel_def)
qed

lemma cfg_rel_update:
  assumes "cfg_rel s es" "i < length es" "blocks_ok m" "slot_rel m c (Some (k, w, cap))" "distinct (keys (es[i := Some (k, w, cap)]))"
    and "\<And>j lb bs. j < length es \<Longrightarrow> j \<noteq> i \<Longrightarrow> es ! j \<noteq> None \<Longrightarrow> lb = cf_linebuf (nc_table s ! j) \<Longrightarrow> (lb, bs) \<in> set (nc_mem s) \<Longrightarrow> (lb, bs) \<in> set m"
  shows "cfg_rel (s\<lparr>nc_table := (nc_table s)[i := c], nc_mem := m\<rparr>) (es[i := Some (k, w, cap)])"
proof -
  have l: "length (nc_table s) = length es" and r: "j < length es \<Longrightarrow> slot_rel (nc_mem s) (nc_table s ! j) (es ! j)" for j
    using assms(1) by (auto simp: cfg_rel_def list_all2_conv_all_nth)
  have "slot_rel m ((nc_table s)[i := c] ! j) (es[i := Some (k, w, cap)] ! j)" if j: "j < length es" for j
  proof (cases "j = i")
    case True
    then show ?thesis using assms(4) j l by simp
  next
    case False
    then show ?thesis using r [OF j] assms(6) [OF j False] l by (auto simp: slot_rel_def split: option.splits)
  qed
  then show ?thesis using assms l by (simp add: cfg_rel_def list_all2_conv_all_nth)
qed

text \<open>What \<open>malloc\<close> or \<open>realloc\<close> gives is apart from all blocks but the line of the key, and zero.\<close>

definition room_for :: "ptr \<Rightarrow> u8 list \<Rightarrow> nat \<Rightarrow> netcfg \<Rightarrow> entry option list \<Rightarrow> bool" where
  "room_for a k n s es \<longleftrightarrow> fresh a n (case key_slot k es of
     None \<Rightarrow> nc_mem s
   | Some i \<Rightarrow> filter (\<lambda>(b, bs). b \<noteq> cf_linebuf (nc_table s ! i)) (nc_mem s))"

lemma fresh_Cons: "blocks_ok m \<Longrightarrow> fresh a (length bs) m \<Longrightarrow> blocks_ok ((a, bs) # m)"
  by (simp add: blocks_ok_Cons fresh_def)

lemma config_set_old:
  assumes "cfg_rel s es" "key_slot k es = Some i" "es ! i = Some (k, v, cap)" "no_zero w" "room_for a k (length k + length w + 3) s es"
  shows "\<exists>s' cap'. config_set a (\<lambda>_. 0) (Inr k) (Inr w) s = Inr (0, s') \<and> cfg_rel s' (es[i := Some (k, overlay w v, cap')])"
proof -
  let ?c = "nc_table s ! i" and ?m = "nc_mem s" let ?lb = "cf_linebuf ?c" and ?l = "line_bytes (k, v, cap)"
  have i: "i < length es" using key_slot_Some [OF assms(2)] by simp
  have b: "blocks_ok ?m" and r: "slot_rel ?m ?c (Some (k, v, cap))" and d: "distinct (keys es)"
    using assms(1,3) i by (auto simp: cfg_rel_def list_all2_conv_all_nth)
  have ok: "entry_ok (k, v, cap)" "cf_buse ?c = 1" "cf_linebufsz ?c = length k + cap + 3" "cf_key ?c = ?lb" "cf_value ?c = ?lb + (length k + 2)" "(?lb, ?l) \<in> set ?m"
    "?lb \<noteq> NULL" using r by (simp_all add: slot_rel_def)
  have fc: "find_config (Inr k) s = Inr (Some i)" using find_config_ok [OF assms(1), of k] assms(2) by simp
  have ll: "length ?l = length k + cap + 3" using length_line [OF ok(1)] by simp
  have d': "distinct (keys (es[i := Some (k, overlay w v, c)]))" for c using d keys_update [OF i, of k] assms(3) by simp
  have ov: "entry_ok (k, overlay w v, max cap (length w))" using ok(1) overlay_no_zero assms(4) by (auto simp: entry_ok_def length_overlay)
  show ?thesis
  proof (cases "cf_linebufsz ?c > length k + length w + 3")
    case True
    then have lw: "length w \<le> cap" using ok(3) by simp
    let ?m' = "map (\<lambda>x. if x = (?lb, ?l) then (?lb, put_bytes (length k + 2) w ?l) else x) ?m"
    have w: "write_at (cf_value ?c) w ?m = Inr ?m'" unfolding ok(5) by (rule write_at_block [OF b ok(6)]) (use lw ll in simp)
    have pl: "put_bytes (length k + 2) w ?l = line_bytes (k, overlay w v, cap)" by (rule put_in_line [OF ok(1) lw])
    have "length (put_bytes (length k + 2) w ?l) = length ?l" using lw ll by (intro length_put_bytes) simp
    note S = set_block [OF b ok(6) this]
    have sl: "slot_rel ?m' ?c (Some (k, overlay w v, cap))"
      using r S(2) ov lw unfolding pl by (simp add: slot_rel_def max_absorb1)
    have "cfg_rel (s\<lparr>nc_table := (nc_table s)[i := ?c], nc_mem := ?m'\<rparr>) (es[i := Some (k, overlay w v, cap)])"
    proof (rule cfg_rel_update [OF assms(1) i S(1) sl d'])
      fix j lb bs
      assume "j < length es" "j \<noteq> i" "es ! j \<noteq> None" "lb = cf_linebuf (nc_table s ! j)" "(lb, bs) \<in> set ?m"
      then show "(lb, bs) \<in> set ?m'" using S(3) [of lb bs] other_line [OF assms(1) i, of j k v cap] assms(3) by fastforce
    qed
    then have "cfg_rel (s\<lparr>nc_mem := ?m'\<rparr>) (es[i := Some (k, overlay w v, cap)])" by simp
    then show ?thesis using fc ok(2) True w by (auto simp: config_set_def Let_def)
  next
    case False
    then have lw: "cap \<le> length w" using ok(3) by simp
    let ?n = "length k + length w + 3"
    let ?m1 = "filter (\<lambda>(b, bs). b \<noteq> ?lb) ?m" and ?bs = "take ?n ?l @ map (\<lambda>_. 0) [length ?l..<?n]"
    have lb: "length ?bs = ?n" using lw ll by simp
    have fr: "fresh a ?n ?m1" using assms(2,5) by (simp add: room_for_def)
    have "map_of ?m ?lb = Some ?l" using ok(6) blocks_distinct [OF b] by simp
    then have re: "realloc_block a ?lb (\<lambda>_. 0) ?n ?m = Inr ((a, ?bs) # ?m1)" by (simp add: realloc_block_def)
    have b1: "blocks_ok ((a, ?bs) # ?m1)" by (rule fresh_Cons [OF blocks_ok_filter [OF b]]) (use fr lb in simp)
    let ?m' = "map (\<lambda>x. if x = (a, ?bs) then (a, put_bytes (length k + 2) w ?bs) else x) ((a, ?bs) # ?m1)"
    have w: "write_at (a + length k + 2) w ((a, ?bs) # ?m1) = Inr ?m'"
      using write_at_block [OF b1, of a ?bs "length k + 2" w] lb by (simp add: add.assoc)
    have pl: "put_bytes (length k + 2) w ?bs = line_bytes (k, overlay w v, length w)" by (rule grown_line [OF ok(1) lw])
    have "length (put_bytes (length k + 2) w ?bs) = length ?bs" using lb by (intro length_put_bytes) simp
    note S = set_block [OF b1 list.set_intros(1) this]
    let ?c' = "?c\<lparr>cf_linebufsz := ?n, cf_linebuf := a, cf_key := a, cf_value := a + length k + 2\<rparr>"
    have an: "a \<noteq> NULL" using fr by (simp add: fresh_def)
    have sl: "slot_rel ?m' ?c' (Some (k, overlay w v, length w))"
      using ok(2) S(2) ov lw an unfolding pl by (simp add: slot_rel_def max_absorb2)
    have "cfg_rel (s\<lparr>nc_table := (nc_table s)[i := ?c'], nc_mem := ?m'\<rparr>) (es[i := Some (k, overlay w v, length w)])"
    proof (rule cfg_rel_update [OF assms(1) i S(1) sl d'])
      fix j lb bs
      assume j: "j < length es" "j \<noteq> i" "es ! j \<noteq> None" "lb = cf_linebuf (nc_table s ! j)" "(lb, bs) \<in> set ?m"
      then have "lb \<noteq> ?lb" using other_line [OF assms(1) i, of j k v cap] assms(3) by fastforce
      then have m1: "(lb, bs) \<in> set ?m1" using j(5) by simp
      then have "lb \<noteq> a" using fr in_shape [OF m1] by (auto simp: fresh_def)
      then show "(lb, bs) \<in> set ?m'" using S(3) [of lb bs] m1 by simp
    qed
    then show ?thesis using fc ok(2) False an re w by (auto simp: config_set_def Let_def)
  qed
qed

lemma config_set_new:
  assumes "cfg_rel s es" "key_slot k es = None" "free_slot es = Some i" "no_zero k" "no_zero w" "room_for a k (length k + length w + 3) s es"
  shows "\<exists>s'. config_set a (\<lambda>_. 0) (Inr k) (Inr w) s = Inr (0, s') \<and> cfg_rel s' (es[i := Some (k, w, length w)])"
proof -
  have i: "i < length es" "es ! i = None" using free_slot_Some [OF assms(3)] by simp_all
  have b: "blocks_ok (nc_mem s)" and u: "cf_buse (nc_table s ! i) = 0" and d: "distinct (keys es)"
    using assms(1) i by (auto simp: cfg_rel_def list_all2_conv_all_nth slot_rel_def)
  have fc: "find_config (Inr k) s = Inr (Some i)" using find_config_ok [OF assms(1), of k] assms(2,3) by simp
  have fr: "fresh a (length k + length w + 3) (nc_mem s)" using assms(2,6) by (simp add: room_for_def)
  then have an: "a \<noteq> NULL" by (simp add: fresh_def)
  have ok: "entry_ok (k, w, length w)" using assms(4,5) by (simp add: entry_ok_def)
  let ?m' = "(a, line_bytes (k, w, length w)) # nc_mem s"
  let ?c = "\<lparr>cf_buse = 1, cf_linebufsz = length k + length w + 3, cf_key = a, cf_value = a + length k + 2, cf_linebuf = a\<rparr>"
  have b': "blocks_ok ?m'" by (rule fresh_Cons [OF b]) (use fr length_line [OF ok] in simp)
  have "k \<notin> set (keys es)" using assms(2) key_slot_None by blast
  then have d': "distinct (keys (es[i := Some (k, w, length w)]))"
    using d keys_insert [OF i, of k w "length w"] by (metis add_mset_add_single distinct.simps(2) mset.simps(2) mset_eq_imp_distinct_iff)
  have "slot_rel ?m' ?c (Some (k, w, length w))" using ok an by (simp add: slot_rel_def)
  then have "cfg_rel (s\<lparr>nc_table := (nc_table s)[i := ?c], nc_mem := ?m'\<rparr>) (es[i := Some (k, w, length w)])"
    by (rule cfg_rel_update [OF assms(1) i(1) b' _ d']) simp
  then show ?thesis using fc u an new_line [of k w] by (simp add: config_set_def config_set_runtime_def Let_def)
qed

lemma config_set_full:
  "cfg_rel s es \<Longrightarrow> key_slot k es = None \<Longrightarrow> free_slot es = None \<Longrightarrow> config_set a junk (Inr k) v s = Inr (-1, s)"
  using find_config_ok [of s es k] by (simp add: config_set_def)

end
