(* ===== verification/NetProps.thy ===== *)
theory NetProps
  imports NetInv
begin

text \<open>The network daemon and its clients together: a call of the library packs a request, the daemon unpacks it, looks into
  its table or changes it, and packs the reply.\<close>

section \<open>The table\<close>

lemma config_set_ok:
  assumes "cfg_rel s es" "no_zero k" "no_zero w" "room_for a k (length k + length w + 3) s es"
  shows "if cfg_map es k = None \<and> free_slot es = None then config_set a (\<lambda>_. 0) (Inr k) (Inr w) s = Inr (-1, s)
     else \<exists>s' es'. config_set a (\<lambda>_. 0) (Inr k) (Inr w) s = Inr (0, s') \<and> cfg_rel s' es' \<and>
       cfg_map es' = (cfg_map es)(k \<mapsto> overlay w (case cfg_map es k of None \<Rightarrow> [] | Some v \<Rightarrow> v))"
proof (cases "key_slot k es")
  case (Some i)
  have d: "distinct (keys es)" using assms(1) by (simp add: cfg_rel_def)
  obtain v cap where v: "i < length es" "es ! i = Some (k, v, cap)" using key_slot_Some [OF Some] by blast
  obtain s' cap' where s': "config_set a (\<lambda>_. 0) (Inr k) (Inr w) s = Inr (0, s')" "cfg_rel s' (es[i := Some (k, overlay w v, cap')])"
    using config_set_old [OF assms(1) Some v(2) assms(3,4)] by blast
  then have "distinct (keys (es[i := Some (k, overlay w v, cap')]))" by (simp add: cfg_rel_def)
  from cfg_map_update [OF d this v(1)] v(2) have "cfg_map (es[i := Some (k, overlay w v, cap')]) = (cfg_map es)(k \<mapsto> overlay w v)" by simp
  moreover have "cfg_map es k = Some v" using Some v by (simp add: cfg_map_def)
  ultimately show ?thesis using s' by auto
next
  case None
  then have m: "cfg_map es k = None" by (simp add: cfg_map_def)
  show ?thesis
  proof (cases "free_slot es")
    case (Some i)
    have d: "distinct (keys es)" using assms(1) by (simp add: cfg_rel_def)
    obtain s' where s': "config_set a (\<lambda>_. 0) (Inr k) (Inr w) s = Inr (0, s')" "cfg_rel s' (es[i := Some (k, w, length w)])"
      using config_set_new [OF assms(1) None Some assms(2-4)] by blast
    then have "distinct (keys (es[i := Some (k, w, length w)]))" by (simp add: cfg_rel_def)
    from cfg_map_update [OF d this] free_slot_Some [OF Some]
    have "cfg_map (es[i := Some (k, w, length w)]) = (cfg_map es)(k \<mapsto> overlay w [])" by (simp add: overlay_def)
    then show ?thesis using s' m Some by auto
  next
    case None
    then show ?thesis using config_set_full [OF assms(1) \<open>key_slot k es = None\<close>] m by simp
  qed
qed

text \<open>The table of the daemon is a map of at most 16 keys, in memory that is zero when it is allocated: the look-up gives
  the value, or \<open>NULL\<close>, and setting a value writes it over the old one, of which the end remains when it is longer; a new
  key beyond the sixteenth is refused.\<close>

theorem config_table_refines:
  assumes "cfg_rel s es" "no_zero k" "no_zero w" "room_for a k (length k + length w + 3) s es"
  shows "(\<exists>p. config_get (Inr k) s = Inr p \<and> string_opt p (nc_mem s) (cfg_map es k)) \<and>
    (if cfg_map es k = None \<and> free_slot es = None then config_set a (\<lambda>_. 0) (Inr k) (Inr w) s = Inr (-1, s)
     else \<exists>s' es'. config_set a (\<lambda>_. 0) (Inr k) (Inr w) s = Inr (0, s') \<and> cfg_rel s' es' \<and>
       cfg_map es' = (cfg_map es)(k \<mapsto> overlay w (case cfg_map es k of None \<Rightarrow> [] | Some v \<Rightarrow> v)))"
  using config_set_ok [OF assms] config_get_ok [OF assms(1), of k] by (rule conjI [rotated])

lemma config_init_rel: "cfg_rel (config_init []) (replicate 16 None)"
  by (simp add: cfg_rel_def config_init_def slot_rel_def keys_def list_all2_conv_all_nth)

lemma cfg_map_init: "cfg_map (replicate 16 None) = Map.empty"
proof
  fix k
  have "key_slot k (replicate 16 None) = None" by (simp add: key_slot_None keys_def)
  then show "cfg_map (replicate 16 None) k = None" by (simp add: cfg_map_def)
qed

theorem config_table_refines_witness:
  "\<exists>s' es'. config_set 100 (\<lambda>_. 0) (Inr [7]) (Inr [8, 9]) (config_init []) = Inr (0, s') \<and> cfg_rel s' es' \<and> cfg_map es' [7] = Some [8, 9]"
proof -
  have "key_slot [7] (replicate 16 None) = None" by (simp add: key_slot_None keys_def)
  then have "room_for 100 [7] (length [7 :: u8] + length [8, 9 :: u8] + 3) (config_init []) (replicate 16 None)"
    by (simp add: room_for_def fresh_def config_init_def)
  moreover have "free_slot (replicate 16 None) \<noteq> None" by (simp add: numeral_eq_Suc free_slot_Cons)
  ultimately obtain s' es' where "config_set 100 (\<lambda>_. 0) (Inr [7]) (Inr [8, 9]) (config_init []) = Inr (0, s')" "cfg_rel s' es'"
    "cfg_map es' = [[7] \<mapsto> [8, 9]]"
    using config_table_refines [OF config_init_rel, of "[7]" "[8, 9]" 100] by (auto simp: cfg_map_init overlay_def)
  then show ?thesis by (intro exI [of _ s'] exI [of _ es']) simp
qed

section \<open>Both sides of a connection\<close>

text \<open>All messages have the size of a request.  The daemon reads what is sent, in pieces that \<open>rd\<close> gives, and the client reads
  what the daemon sends, or the end of the stream when the daemon closes the connection without a reply.\<close>

abbreviation msg_size :: nat where "msg_size \<equiv> STRING_OFFSET + NETINFD_REQUEST_MAX_SIZE"

definition linked :: "conn \<Rightarrow> (u8 list \<Rightarrow> nat \<Rightarrow> u8 list io) \<Rightarrow> netenv \<Rightarrow> int \<Rightarrow> netcfg \<Rightarrow> bool" where
  "linked cn rd e fd s \<longleftrightarrow> connected cn \<and> (\<exists>j. accepts (cn_write cn) 0 msg_size j) \<and> (\<exists>j. accepts (ne_write e) 0 msg_size j) \<and>
     fd \<ge> 0 \<and> ne_req e \<noteq> NULL \<and>
     (\<forall>sent. length sent = msg_size \<longrightarrow> (\<exists>j. delivers (rd sent) 0 sent j) \<and>
       (\<forall>rep open s'. request_handle (e\<lparr>ne_read := rd sent\<rparr>) fd s = Inr (Some rep, open, s') \<longrightarrow> (\<exists>j. delivers (cn_read cn sent) 0 rep j)) \<and>
       (\<forall>s'. request_handle (e\<lparr>ne_read := rd sent\<rparr>) fd s = Inr (None, False, s') \<longrightarrow> (\<forall>i. cn_read cn sent i = Moved [])))"

text \<open>A request of the right kind and size.\<close>

definition request_ok :: "request \<Rightarrow> bool" where
  "request_ok rq \<longleftrightarrow> rq_magic rq = NETINFD_REQUEST_MAGIC \<and> rq_type rq < NETINFD_REQUEST_TYPE_RESERVED \<and> rq_reservedLen rq = 0 \<and>
     length (rq_string rq) = NETINFD_REQUEST_MAX_SIZE"

abbreviation good :: "u8 list option \<Rightarrow> bool" where "good so \<equiv> \<forall>s. so = Some s \<longrightarrow> no_zero s"

lemma length_marked: "needs c v \<le> length (rq_string rq) \<Longrightarrow> length (rq_string (marked rq c v)) = length (rq_string rq)"
  using marked_strings [of c v rq] by metis

lemma marked_bytes: "bytes_request (request_bytes (marked rq c v)) = marked rq c v"
  by (rule bytes_request_bytes) (auto simp: marked_def split: option.split)

lemma request_ok_unmarked: "request_ok rq \<Longrightarrow> needs c v \<le> NETINFD_REQUEST_MAX_SIZE \<Longrightarrow> request_ok (unmarked ra rq c v)"
  using length_marked [of c v rq] by (simp add: request_ok_def unmarked_def marked_def)

lemma unpack_marked:
  assumes "request_ok rq" "good c" "good v" "needs c v \<le> NETINFD_REQUEST_MAX_SIZE"
  shows "unpack_request_netinf ra (marked rq c v) (int msg_size) = Inr (0, unmarked ra rq c v)"
  unfolding unpack_request_netinf_def by (rule unpack_fields_ok) (use assms in \<open>simp_all add: request_ok_def\<close>)

text \<open>The daemon gets the request.\<close>

lemma handle_unpacks:
  assumes "delivers (ne_read e) 0 (request_bytes (marked rq c v)) j" "request_ok rq" "good c" "good v" "needs c v \<le> NETINFD_REQUEST_MAX_SIZE"
    "fd \<ge> 0" "ne_req e \<noteq> NULL"
  shows "request_handle e fd s = handle_type e (unmarked (ne_req e) rq c v) s"
proof -
  have l: "length (request_bytes (marked rq c v)) = msg_size" using length_marked [of c v rq] assms(2,5) by (simp add: request_ok_def)
  from safe_read_all [OF assms(1) request_bytes_nonempty, of "map (ne_junk e) [0..<msg_size]"]
  have "safe_read (ne_read e) msg_size (map (ne_junk e) [0..<msg_size]) = Inr (int msg_size, request_bytes (marked rq c v))" unfolding l by simp
  then show ?thesis using assms(6,7) unpack_marked [OF assms(2-5), of "ne_req e"] by (simp add: request_handle_def Let_def marked_bytes)
qed

text \<open>What the daemon sends for a request whose second string is \<open>v\<close>: the value is dropped when it does not fit.\<close>

definition reply_to :: "request \<Rightarrow> u8 list option \<Rightarrow> u8 list option \<Rightarrow> request \<times> u8 list option" where
  "reply_to rq c v = (if needs c v \<le> NETINFD_REQUEST_MAX_SIZE then (rq, v) else (rq\<lparr>rq_status := -1, rq_priv := NULL\<rparr>, None))"

lemma send_reply_fits:
  assumes "request_ok rq" "has_strings (ne_req e) m rq c v" "accepts (ne_write e) 0 msg_size j" "needs c v \<le> NETINFD_REQUEST_MAX_SIZE"
  shows "send_reply e d m rq = Inr (request_bytes (marked rq c v))"
proof -
  have p: "pack_request_netinf (ne_req e) m rq = Inr (int (STRING_OFFSET + needs c v), marked rq c v)"
    unfolding pack_request_netinf_def by (rule pack_fields_ok) (use assms(1,2,4) in \<open>simp_all add: request_ok_def\<close>)
  have "length (request_bytes (marked rq c v)) = msg_size" using length_marked [of c v rq] assms(1,4) by (simp add: request_ok_def)
  then have "safe_write (ne_write e) (request_bytes (marked rq c v)) msg_size = Inr (int msg_size, request_bytes (marked rq c v))"
    using safe_write_all [of "ne_write e" "request_bytes (marked rq c v)" j] assms(3) request_bytes_nonempty by simp
  then show ?thesis using p assms(4) length_marked [of c v rq] assms(1) by (simp add: send_reply_def request_ok_def)
qed

lemma send_reply_ok:
  assumes "request_ok rq" "has_strings (ne_req e) m rq c v" "accepts (ne_write e) 0 msg_size j" "length (packed c) \<le> NETINFD_REQUEST_MAX_SIZE"
  shows "send_reply e True m rq = Inr (request_bytes (case reply_to rq c v of (rq', v') \<Rightarrow> marked rq' c v'))"
proof (cases "needs c v \<le> NETINFD_REQUEST_MAX_SIZE")
  case True
  then show ?thesis using send_reply_fits [OF assms(1-3)] by (simp add: reply_to_def)
next
  case False
  let ?rq = "(marked rq c v)\<lparr>rq_priv := rq_priv rq, rq_string := put_bytes 0 (packed c) (rq_string rq)\<rparr>"
  let ?rq3 = "rq\<lparr>rq_status := -1, rq_priv := NULL\<rparr>"
  have p: "pack_request_netinf (ne_req e) m rq = Inr (-1, ?rq)"
    unfolding pack_request_netinf_def by (rule pack_fields_long) (use assms(1,2,4) False in \<open>simp_all add: request_ok_def\<close>)
  have e: "?rq\<lparr>rq_status := -1, rq_priv := NULL\<rparr> = marked ?rq3 c None"
    using assms(1,4) by (simp add: marked_def request_ok_def packed_def)
  have "rq_magic (marked ?rq3 c None) \<noteq> NETINFD_REQUEST_MAGIC" using assms(1) by (simp add: marked_def request_ok_def htonl_magic)
  then have p2: "pack_request_netinf (ne_req e) m (marked ?rq3 c None) = Inr (-1, marked ?rq3 c None)"
    unfolding pack_request_netinf_def by (rule pack_again)
  have n: "needs c None \<le> NETINFD_REQUEST_MAX_SIZE" using assms(4) by (simp add: needs_def packed_def)
  have l: "length (rq_string (marked ?rq3 c None)) = NETINFD_REQUEST_MAX_SIZE" using length_marked [of c None ?rq3] n assms(1) by (simp add: request_ok_def)
  then have "length (request_bytes (marked ?rq3 c None)) = msg_size" by simp
  then have "safe_write (ne_write e) (request_bytes (marked ?rq3 c None)) msg_size = Inr (int msg_size, request_bytes (marked ?rq3 c None))"
    using safe_write_all [of "ne_write e" "request_bytes (marked ?rq3 c None)" j] assms(3) request_bytes_nonempty by simp
  then show ?thesis using p p2 e l False by (simp add: send_reply_def reply_to_def)
qed

text \<open>The call of the client, given the reply.\<close>

lemma client_call:
  assumes "linked cn rd e fd s" "request_ok rq" "has_strings ra m rq c v" "good c" "good v" "needs c v \<le> NETINFD_REQUEST_MAX_SIZE"
    and "handle_type (e\<lparr>ne_read := rd (request_bytes (marked rq c v))\<rparr>) (unmarked (ne_req e) rq c v) s = Inr (Some (request_bytes (marked rq' c' v')), open, s')"
    and "request_ok rq'" "good c'" "good v'" "needs c' v' \<le> NETINFD_REQUEST_MAX_SIZE"
  shows "request_for_netinfd cn ra m rq fds = Inr (if sint (rq_status rq') < 0 then -1 else 0, unmarked ra rq' c' v', fds) \<and>
    request_handle (e\<lparr>ne_read := rd (request_bytes (marked rq c v))\<rparr>) fd s = Inr (Some (request_bytes (marked rq' c' v')), open, s')"
proof -
  let ?sent = "request_bytes (marked rq c v)" let ?e = "e\<lparr>ne_read := rd ?sent\<rparr>"
  have l: "length ?sent = msg_size" "length (request_bytes (marked rq' c' v')) = msg_size"
    using length_marked [of c v rq] length_marked [of c' v' rq'] assms(2,6,8,11) by (simp_all add: request_ok_def)
  have L: "connected cn" "\<exists>j. accepts (cn_write cn) 0 msg_size j" "fd \<ge> 0" "ne_req e \<noteq> NULL" "\<exists>j. delivers (rd ?sent) 0 ?sent j"
    "\<And>rep open s'. request_handle ?e fd s = Inr (Some rep, open, s') \<Longrightarrow> \<exists>j. delivers (cn_read cn ?sent) 0 rep j"
    using assms(1) l(1) unfolding linked_def by blast+
  have h: "request_handle ?e fd s = Inr (Some (request_bytes (marked rq' c' v')), open, s')"
    using handle_unpacks [of ?e rq c v] L(3-5) assms(2,4-7) by auto
  have rep: "replies cn ?sent (request_bytes (marked rq' c' v'))" using L(2) L(6) [OF h] l by (simp add: replies_def)
  obtain sock where sock: "0 \<le> sock" "connect_request_netinf cn fds = (sock, sock # fds)" using connect_ok(2) [OF L(1)] by blast
  have p: "pack_request_netinf ra m rq = Inr (int (STRING_OFFSET + needs c v), marked rq c v)"
    unfolding pack_request_netinf_def by (rule pack_fields_ok) (use assms(2,3,6) in \<open>simp_all add: request_ok_def\<close>)
  have u: "unpack_request_netinf ra (bytes_request (request_bytes (marked rq' c' v'))) (int (length (request_bytes (marked rq' c' v')))) =
      Inr (0, unmarked ra rq' c' v')"
    unfolding l(2) marked_bytes by (rule unpack_marked [OF assms(8-11)])
  have st: "rq_status (unmarked ra rq' c' v') = rq_status rq'" by (simp add: unmarked_def marked_def)
  have r: "request_for_netinfd cn ra m rq fds = Inr (if (0 :: int) < 0 then -1 else
      (if sint (rq_status (unmarked ra rq' c' v')) < 0 then -1 else 0), unmarked ra rq' c' v', fds)"
    unfolding request_for_netinfd_def
    by (rule request_for_ok [where pack = "pack_request_netinf ra m" and unpack = "unpack_request_netinf ra" and connect = "connect_request_netinf cn",
          OF p of_nat_0_le_iff sock(2,1) rep l(2) [folded l(1)] u])
  show ?thesis unfolding r using h st by simp
qed

section \<open>Reading and setting a value through the daemon\<close>

lemma string_at_outside_area: "fresh (ra + STRING_OFFSET) n m \<Longrightarrow> string_at p m = Inr s \<Longrightarrow> outside ra n p"
proof -
  assume a: "fresh (ra + STRING_OFFSET) n m" "string_at p m = Inr s"
  obtain b bs where b: "find (\<lambda>(b, bs). b \<le> p \<and> p < b + length bs) m = Some (b, bs)"
    using a(2) by (auto simp: string_at_def bytes_at_def then_do_Inr split: option.splits prod.splits)
  then have "(b, bs) \<in> set m" "b \<le> p" "p < b + length bs" by (auto simp: find_Some_iff dest: nth_mem)
  then show ?thesis using a(1) in_shape [of b bs m] by (auto simp: fresh_def apart_def outside_def)
qed

lemma string_opt_outside: "fresh (ra + STRING_OFFSET) (length str) m \<Longrightarrow> string_opt p m so \<Longrightarrow> string_opt p (request_mem ra str m) so"
  using string_at_outside [of ra str p m] string_at_outside_area [of ra "length str" m p] by (cases so) (auto simp: string_opt_def)

text \<open>The request that a call makes, and what the daemon has when it has unpacked it.\<close>

abbreviation net_request :: "u32 \<Rightarrow> ptr \<Rightarrow> ptr \<Rightarrow> request" where
  "net_request \<equiv> new_request NETINFD_REQUEST_MAX_SIZE"

lemma length_net_request [simp]: "length (rq_string (new_request n ty kp vp)) = n"
  by (simp add: new_request_def)

lemma net_request_ok: "ty < NETINFD_REQUEST_TYPE_RESERVED \<Longrightarrow> request_ok (net_request ty kp vp)"
  by (simp add: request_ok_def new_request_def)

lemma net_request_strings:
  assumes "fresh (ra + STRING_OFFSET) NETINFD_REQUEST_MAX_SIZE m" "string_opt kp m c" "string_opt vp m v" "length (packed c) \<le> NETINFD_REQUEST_MAX_SIZE"
  shows "has_strings ra m (net_request ty kp vp) c v"
  using assms string_opt_outside [of ra "replicate NETINFD_REQUEST_MAX_SIZE 0" m kp c]
    string_opt_outside [of ra "put_bytes 0 (packed c) (replicate NETINFD_REQUEST_MAX_SIZE 0)" m vp v]
  by (simp add: has_strings_def new_request_def)

lemma good_string: "string_opt p m so \<Longrightarrow> good so"
  by (auto dest: string_opt_no_zero)

lemma reply_to_ok:
  assumes "request_ok rq" "good c" "good v" "length (packed c) \<le> NETINFD_REQUEST_MAX_SIZE" "reply_to rq c v = (rq', v')"
  shows "request_ok rq'" "good v'" "needs c v' \<le> NETINFD_REQUEST_MAX_SIZE"
  using assms by (auto simp: reply_to_def request_ok_def needs_def packed_def split: if_splits)

text \<open>The daemon answers a request for a value.\<close>

lemma handle_get:
  assumes "cfg_rel s es" "no_zero k" "length k < NETINFD_REQUEST_MAX_SIZE" "ne_req e \<noteq> NULL" "fresh (ne_req e + STRING_OFFSET) NETINFD_REQUEST_MAX_SIZE (nc_mem s)"
    "accepts (ne_write e) 0 msg_size j"
  shows "\<exists>rq' v'. handle_type e (unmarked (ne_req e) (net_request NETINFD_REQUEST_TYPE_GET kp NULL) (Some k) None) s =
      Inr (Some (request_bytes (marked rq' (Some k) v')), False, s) \<and> request_ok rq' \<and> good v' \<and> needs (Some k) v' \<le> NETINFD_REQUEST_MAX_SIZE \<and>
    (case cfg_map es k of None \<Rightarrow> v' = None \<and> rq_status rq' = 0
      | Some v \<Rightarrow> if length k + length v + 2 \<le> NETINFD_REQUEST_MAX_SIZE then v' = Some v \<and> rq_status rq' = 0 else rq_status rq' = -1)"
proof -
  let ?rq0 = "net_request NETINFD_REQUEST_TYPE_GET kp NULL" let ?rq = "unmarked (ne_req e) ?rq0 (Some k) None"
  have n: "needs (Some k) None \<le> NETINFD_REQUEST_MAX_SIZE" "length (packed (Some k)) \<le> NETINFD_REQUEST_MAX_SIZE"
    using assms(3) by (simp_all add: needs_def packed_def)
  have ok: "request_ok ?rq" using request_ok_unmarked [OF net_request_ok n(1)] by simp
  have l: "length (rq_string ?rq) = NETINFD_REQUEST_MAX_SIZE" "length (rq_string ?rq0) = NETINFD_REQUEST_MAX_SIZE"
    using ok by (simp_all add: request_ok_def)
  have c: "string_opt (rq_cmd ?rq) (request_mem (ne_req e) (rq_string ?rq) (nc_mem s)) (Some k)"
    by (rule unmarked_strings(1)) (use assms(2) n l in simp_all)
  obtain p where p: "config_get (Inr k) s = Inr p" "string_opt p (nc_mem s) (cfg_map es k)" using config_get_ok [OF assms(1)] by blast
  let ?rq' = "?rq\<lparr>rq_priv := p, rq_status := 0\<rparr>"
  have ok': "request_ok ?rq'" using ok by (simp add: request_ok_def)
  have h: "has_strings (ne_req e) (nc_mem s) ?rq' (Some k) (cfg_map es k)"
    using c string_opt_outside [of "ne_req e" "put_bytes 0 (packed (Some k)) (rq_string ?rq)" "nc_mem s" p] p(2) assms(5) n(2) l(1)
    by (simp add: has_strings_def)
  obtain rq' v' where r: "reply_to ?rq' (Some k) (cfg_map es k) = (rq', v')" by fastforce
  have "send_reply e True (nc_mem s) ?rq' = Inr (request_bytes (marked rq' (Some k) v'))"
    using send_reply_ok [OF ok' h assms(6) n(2)] r by simp
  moreover have "rq_type ?rq = NETINFD_REQUEST_TYPE_GET" by (simp add: unmarked_def marked_def new_request_def)
  ultimately have "handle_type e ?rq s = Inr (Some (request_bytes (marked rq' (Some k) v')), False, s)"
    using c p(1) by (simp add: handle_type_def Let_def string_opt_def)
  moreover have "case cfg_map es k of None \<Rightarrow> v' = None \<and> rq_status rq' = 0
      | Some v \<Rightarrow> if length k + length v + 2 \<le> NETINFD_REQUEST_MAX_SIZE then v' = Some v \<and> rq_status rq' = 0 else rq_status rq' = -1"
    using r n by (auto simp: reply_to_def needs_def packed_def split: option.splits if_splits)
  moreover note reply_to_ok [OF ok' _ good_string [OF p(2)] n(2) r]
  ultimately show ?thesis using assms(2) by blast
qed

text \<open>C20 A call of the library for a value gives what the table of the daemon has for the key: a copy of the value, in memory
  allocated at \<open>a\<close>, or \<open>NULL\<close>; a value that does not fit into a request beside its key is an error.  The socket is closed.\<close>

theorem net_get_reaches:
  assumes "cfg_rel s es" "linked cn rd e fd s" "string_opt kp m (Some k)" "length k < NETINFD_REQUEST_MAX_SIZE" "a \<noteq> NULL"
    "fresh (ra + STRING_OFFSET) NETINFD_REQUEST_MAX_SIZE m" "fresh (ne_req e + STRING_OFFSET) NETINFD_REQUEST_MAX_SIZE (nc_mem s)"
  shows "netinfd_get cn ra a kp m fds = Inr (case cfg_map es k of
      None \<Rightarrow> (0, NULL, m, fds)
    | Some v \<Rightarrow> if length k + length v + 2 \<le> NETINFD_REQUEST_MAX_SIZE then (0, a, (a, v @ [0]) # m, fds) else (-1, NULL, m, fds))"
proof -
  let ?rq = "net_request NETINFD_REQUEST_TYPE_GET kp NULL" let ?e = "e\<lparr>ne_read := rd (request_bytes (marked ?rq (Some k) None))\<rparr>"
  have n: "needs (Some k) None \<le> NETINFD_REQUEST_MAX_SIZE" "length (packed (Some k)) \<le> NETINFD_REQUEST_MAX_SIZE"
    using assms(4) by (simp_all add: needs_def packed_def)
  have k: "no_zero k" by (rule string_opt_no_zero [OF assms(3)])
  have h: "has_strings ra m ?rq (Some k) None" using net_request_strings [OF assms(6,3) _ n(2)] by (simp add: string_opt_def)
  have e: "ne_req e \<noteq> NULL" "\<exists>j. accepts (ne_write e) 0 msg_size j" using assms(2) unfolding linked_def by blast+
  then obtain j where j: "accepts (ne_write ?e) 0 msg_size j" by auto
  obtain rq' v' where r: "handle_type ?e (unmarked (ne_req e) ?rq (Some k) None) s = Inr (Some (request_bytes (marked rq' (Some k) v')), False, s)"
    "request_ok rq'" "good v'" "needs (Some k) v' \<le> NETINFD_REQUEST_MAX_SIZE"
    "case cfg_map es k of None \<Rightarrow> v' = None \<and> rq_status rq' = 0
      | Some v \<Rightarrow> if length k + length v + 2 \<le> NETINFD_REQUEST_MAX_SIZE then v' = Some v \<and> rq_status rq' = 0 else rq_status rq' = -1"
    using handle_get [OF assms(1) k assms(4) _ _ j, of kp] e(1) assms(7) by auto
  have c: "request_for_netinfd cn ra m ?rq fds = Inr (if sint (rq_status rq') < 0 then -1 else 0, unmarked ra rq' (Some k) v', fds)"
    using client_call [OF assms(2) net_request_ok h _ _ n(1) r(1,2) _ r(3,4)] k by simp
  have v: "string_opt (rq_priv (unmarked ra rq' (Some k) v')) (request_mem ra (rq_string (unmarked ra rq' (Some k) v')) m) v'"
    by (rule unmarked_strings(2)) (use k r(2-4) in \<open>simp_all add: request_ok_def\<close>)
  have cmd: "rq_cmd (unmarked ra rq' (Some k) v') \<noteq> NULL" by (simp add: unmarked_def)
  show ?thesis
    using r(5) c v cmd assms(5) by (auto simp: netinfd_get_def netinfd_request_def string_opt_def copy_string_def split: option.splits if_splits)
qed

text \<open>A connection without interruptions to a daemon that is ready.\<close>

definition whole :: "u8 list \<Rightarrow> nat \<Rightarrow> u8 list io" where
  "whole bs i = Moved (if i = 0 then bs else [])"

definition loopback :: "netenv \<Rightarrow> int \<Rightarrow> netcfg \<Rightarrow> conn" where
  "loopback e fd s = \<lparr>cn_pton = 1, cn_socket = 5, cn_connect = 0, cn_accept = 0, cn_write = \<lambda>_. Moved msg_size,
     cn_read = \<lambda>sent. whole (case request_handle (e\<lparr>ne_read := whole sent\<rparr>) fd s of Inr (Some rep, _) \<Rightarrow> rep | _ \<Rightarrow> [])\<rparr>"

definition ready_env :: "ptr \<Rightarrow> netenv" where
  "ready_env a = \<lparr>ne_read = \<lambda>_. Failed, ne_write = \<lambda>_. Moved msg_size, ne_req = 5000, ne_alloc = a, ne_junk = \<lambda>_. 0, ne_fork = 7, ne_wait = \<lambda>_. 7,
     ne_exec = \<lambda>_. Some 0, ne_system = \<lambda>_. 0, ne_resolve = \<lambda>_. True, ne_crash = 11, ne_stack = \<lambda>_. [0]\<rparr>"

lemma whole_nothing: "whole [] i = Moved []"
  by (simp add: whole_def)

lemma delivers_whole: "\<exists>j. delivers (whole bs) 0 bs j"
proof -
  have "delivers (whole bs) 0 (bs @ []) (0 + 1)" by (intro delivers.piece delivers.nothing) (simp add: whole_def)
  then show ?thesis by auto
qed

lemma linked_loopback: "fd \<ge> 0 \<Longrightarrow> linked (loopback (ready_env a) fd s) whole (ready_env a) fd s"
proof -
  have "accepts (\<lambda>_. Moved msg_size) 0 (msg_size + 0) (0 + 1)" by (intro accepts.piece accepts.nothing) simp
  then have "\<exists>j. accepts (\<lambda>_. Moved msg_size) 0 msg_size j" by auto
  then show "fd \<ge> 0 \<Longrightarrow> ?thesis"
    using delivers_whole by (auto simp: linked_def loopback_def connected_def ready_env_def whole_nothing)
qed

definition one_entry :: netcfg where
  "one_entry = \<lparr>nc_table = \<lparr>cf_buse = 1, cf_linebufsz = 5, cf_key = 100, cf_value = 103, cf_linebuf = 100\<rparr> #
       replicate 15 \<lparr>cf_buse = 0, cf_linebufsz = 0, cf_key = NULL, cf_value = NULL, cf_linebuf = NULL\<rparr>,
     nc_mem = [(100, [7, 0, 0, 8, 0])]\<rparr>"

definition one_entries :: "entry option list" where
  "one_entries = Some ([7], [8], 1) # replicate 15 None"

lemma one_entry_rel: "cfg_rel one_entry one_entries"
  by (simp add: cfg_rel_def one_entry_def one_entries_def slot_rel_def entry_ok_def line_bytes_def keys_def list_all2_conv_all_nth nth_Cons
      blocks_ok_Cons split: nat.split)

lemma one_entry_map: "cfg_map one_entries [7] = Some [8]"
  by (simp add: cfg_map_def key_slot_Cons one_entries_def)

theorem net_get_reaches_witness:
  "netinfd_get (loopback (ready_env 900) 3 one_entry) 5000 800 600 [(600, [7, 0])] [] = Inr (0, 800, [(800, [8, 0]), (600, [7, 0])], [])"
proof -
  have f: "fresh (5000 + STRING_OFFSET) NETINFD_REQUEST_MAX_SIZE [(600, [7, 0])]"
    "fresh (ne_req (ready_env 900) + STRING_OFFSET) NETINFD_REQUEST_MAX_SIZE (nc_mem one_entry)"
    by (simp_all add: fresh_def apart_def ready_env_def one_entry_def)
  have "string_opt 600 [(600, [7, 0])] (Some [7])" by (simp add: string_opt_def string_at_def bytes_at_def)
  from net_get_reaches [OF one_entry_rel linked_loopback this _ _ f, of 3 800 "[]"] show ?thesis by (simp add: one_entry_map)
qed

text \<open>What the daemon has unpacked can be packed as it is.\<close>

lemma unmarked_packs:
  assumes "request_ok rq" "good c" "good v" "needs c v \<le> NETINFD_REQUEST_MAX_SIZE"
  shows "has_strings ra m ((unmarked ra rq c v)\<lparr>rq_status := st\<rparr>) c v"
proof -
  let ?u = "unmarked ra rq c v"
  have n: "needs c v \<le> length (rq_string rq)" using assms(1,4) by (simp add: request_ok_def)
  have "rq_string ?u = rq_string (marked rq c v)" by (simp add: unmarked_def)
  with marked_strings [OF n] obtain r where "rq_string ?u = packed c @ r" by metis
  then have "put_bytes 0 (packed c) (rq_string ?u) = rq_string ?u" by (simp add: put_bytes_def)
  then show ?thesis using unmarked_strings [OF assms(2,3) n, of ra m] by (simp add: has_strings_def)
qed

lemma handle_set:
  assumes "cfg_rel s es" "no_zero k" "no_zero w" "length k + length w + 2 \<le> NETINFD_REQUEST_MAX_SIZE"
    "room_for (ne_alloc e) k (length k + length w + 3) s es" "ne_junk e = (\<lambda>_. 0)" "accepts (ne_write e) 0 msg_size j"
    "u = unmarked (ne_req e) (net_request NETINFD_REQUEST_TYPE_SET kp wp) (Some k) (Some w)"
  shows "\<exists>s' es'. handle_type e u s = Inr (Some (request_bytes (marked (u\<lparr>rq_status :=
        (if cfg_map es k = None \<and> free_slot es = None then -1 else 0)\<rparr>) (Some k) (Some w))), False, s') \<and> cfg_rel s' es' \<and>
      (if cfg_map es k = None \<and> free_slot es = None then s' = s \<and> es' = es
       else cfg_map es' = (cfg_map es)(k \<mapsto> overlay w (case cfg_map es k of None \<Rightarrow> [] | Some v \<Rightarrow> v)))"
proof -
  let ?rq = "net_request NETINFD_REQUEST_TYPE_SET kp wp" and ?full = "cfg_map es k = None \<and> free_slot es = None"
  define r :: int where "r = (if ?full then -1 else 0)"
  have n: "needs (Some k) (Some w) \<le> NETINFD_REQUEST_MAX_SIZE" using assms(4) by (simp add: needs_def packed_def)
  have ok: "request_ok u" using request_ok_unmarked [OF net_request_ok n] assms(8) by simp
  have str: "string_opt (rq_cmd u) (request_mem (ne_req e) (rq_string u) (nc_mem s)) (Some k)"
    "string_opt (rq_priv u) (request_mem (ne_req e) (rq_string u) (nc_mem s)) (Some w)"
    unfolding assms(8) by (rule unmarked_strings; use assms(2,3) n in simp)+
  have ty: "rq_type u = NETINFD_REQUEST_TYPE_SET" by (simp add: assms(8) unmarked_def marked_def new_request_def)
  obtain s' es' where s': "config_set (ne_alloc e) (\<lambda>_. 0) (Inr k) (Inr w) s = Inr (r, s')" "cfg_rel s' es'"
    "if ?full then s' = s \<and> es' = es else cfg_map es' = (cfg_map es)(k \<mapsto> overlay w (case cfg_map es k of None \<Rightarrow> [] | Some v \<Rightarrow> v))"
    using config_set_ok [OF assms(1-3,5)] assms(1) by (cases ?full) (auto simp: r_def)
  have ok': "request_ok (u\<lparr>rq_status := of_int r\<rparr>)" using ok by (simp add: request_ok_def)
  have "has_strings (ne_req e) (nc_mem s') (u\<lparr>rq_status := of_int r\<rparr>) (Some k) (Some w)"
    unfolding assms(8) by (rule unmarked_packs [OF net_request_ok]) (use assms(2,3) n in simp_all)
  then have p: "pack_request_netinf (ne_req e) (nc_mem s') (u\<lparr>rq_status := of_int r\<rparr>) =
      Inr (int (STRING_OFFSET + needs (Some k) (Some w)), marked (u\<lparr>rq_status := of_int r\<rparr>) (Some k) (Some w))"
    unfolding pack_request_netinf_def by (intro pack_fields_ok) (use ok' n in \<open>simp_all add: request_ok_def\<close>)
  let ?m = "marked (u\<lparr>rq_status := of_int r\<rparr>) (Some k) (Some w)"
  have l: "length (rq_string ?m) = NETINFD_REQUEST_MAX_SIZE"
    using length_marked [of "Some k" "Some w" "u\<lparr>rq_status := of_int r\<rparr>"] n ok' by (simp add: request_ok_def)
  have "safe_write (ne_write e) (request_bytes ?m) msg_size = Inr (int msg_size, request_bytes ?m)"
    using safe_write_all [of "ne_write e" "request_bytes ?m" j] assms(7) request_bytes_nonempty l by simp
  then have "handle_type e u s = Inr (Some (request_bytes ?m), False, s')"
    using str s'(1) p ty l assms(6) by (simp add: handle_type_def Let_def string_opt_def)
  moreover have "of_int r = (if ?full then -1 else (0 :: u32))" by (simp add: r_def)
  ultimately show ?thesis using s'(2,3) by (intro exI [of _ s'] exI [of _ es']) simp
qed

lemma pack_net_request:
  assumes "fresh (ra + STRING_OFFSET) NETINFD_REQUEST_MAX_SIZE m" "string_opt kp m c" "string_opt vp m v" "needs c v \<le> NETINFD_REQUEST_MAX_SIZE"
    "ty < NETINFD_REQUEST_TYPE_RESERVED"
  shows "pack_request_netinf ra m (net_request ty kp vp) = Inr (int (STRING_OFFSET + needs c v), marked (net_request ty kp vp) c v)"
proof -
  have "length (packed c) \<le> NETINFD_REQUEST_MAX_SIZE" using assms(4) by (simp add: needs_def)
  from pack_fields_ok [OF _ _ _ net_request_strings [OF assms(1-3) this]] assms(4,5) show ?thesis
    by (simp add: pack_request_netinf_def new_request_def)
qed

text \<open>A call of the library that sets a value changes the table of the daemon as the table specifies, and reports a full
  table, where new memory comes with zeros in it (\<open>ne_junk\<close>): the daemon does not write the zeros behind key and value.\<close>

theorem net_set_reaches:
  assumes "cfg_rel s es" "linked cn rd e fd s" "string_opt kp m (Some k)" "string_opt wp m (Some w)"
    "length k + length w + 2 \<le> NETINFD_REQUEST_MAX_SIZE" "fresh (ra + STRING_OFFSET) NETINFD_REQUEST_MAX_SIZE m"
    "room_for (ne_alloc e) k (length k + length w + 3) s es" "ne_junk e = (\<lambda>_. 0)"
  shows "\<exists>z rq rep s' es'. pack_request_netinf ra m (net_request NETINFD_REQUEST_TYPE_SET kp wp) = Inr (z, rq) \<and>
    request_handle (e\<lparr>ne_read := rd (request_bytes rq)\<rparr>) fd s = Inr (Some rep, False, s') \<and> cfg_rel s' es' \<and>
    (if cfg_map es k = None \<and> free_slot es = None then netinfd_set cn ra kp wp m fds = Inr (-1, fds) \<and> s' = s
     else netinfd_set cn ra kp wp m fds = Inr (0, fds) \<and>
       cfg_map es' = (cfg_map es)(k \<mapsto> overlay w (case cfg_map es k of None \<Rightarrow> [] | Some v \<Rightarrow> v)))"
proof -
  let ?rq = "net_request NETINFD_REQUEST_TYPE_SET kp wp" and ?full = "cfg_map es k = None \<and> free_slot es = None"
  let ?e = "e\<lparr>ne_read := rd (request_bytes (marked ?rq (Some k) (Some w)))\<rparr>" and ?u = "unmarked (ne_req e) ?rq (Some k) (Some w)"
  let ?rq' = "?u\<lparr>rq_status := (if ?full then -1 else 0)\<rparr>"
  have n: "needs (Some k) (Some w) \<le> NETINFD_REQUEST_MAX_SIZE" "length (packed (Some k)) \<le> NETINFD_REQUEST_MAX_SIZE"
    using assms(5) by (simp_all add: needs_def packed_def)
  have k: "no_zero k" "no_zero w" using assms(3,4) string_opt_no_zero by blast+
  obtain j where j: "accepts (ne_write ?e) 0 msg_size j" using assms(2) unfolding linked_def by auto
  obtain s' es' where r: "handle_type ?e ?u s = Inr (Some (request_bytes (marked ?rq' (Some k) (Some w))), False, s')" "cfg_rel s' es'"
      "if ?full then s' = s \<and> es' = es else cfg_map es' = (cfg_map es)(k \<mapsto> overlay w (case cfg_map es k of None \<Rightarrow> [] | Some v \<Rightarrow> v))"
  proof -
    have "room_for (ne_alloc ?e) k (length k + length w + 3) s es" "ne_junk ?e = (\<lambda>_. 0)"
      "?u = unmarked (ne_req ?e) ?rq (Some k) (Some w)" using assms(7,8) by simp_all
    from that handle_set [OF assms(1) k assms(5) this(1,2) j this(3)] show thesis by blast
  qed
  have ok: "request_ok ?rq'" using request_ok_unmarked [OF net_request_ok n(1)] by (simp add: request_ok_def)
  note c = client_call [OF assms(2) net_request_ok net_request_strings [OF assms(6,3,4) n(2)] _ _ n(1) r(1) ok _ _ n(1), of fds]
  have st: "sint (rq_status ?rq') < 0 \<longleftrightarrow> ?full" by simp
  have call: "netinfd_set cn ra kp wp m fds = Inr (if ?full then -1 else 0, fds)"
    using c k st by (simp add: netinfd_set_def netinfd_call_def netinfd_request_def)
  have handle: "request_handle ?e fd s = Inr (Some (request_bytes (marked ?rq' (Some k) (Some w))), False, s')" using c k by simp
  have pack: "pack_request_netinf ra m ?rq = Inr (int (STRING_OFFSET + needs (Some k) (Some w)), marked ?rq (Some k) (Some w))"
    by (rule pack_net_request [OF assms(6,3,4) n(1)]) simp
  have "if ?full then netinfd_set cn ra kp wp m fds = Inr (-1, fds) \<and> s' = s
     else netinfd_set cn ra kp wp m fds = Inr (0, fds) \<and>
       cfg_map es' = (cfg_map es)(k \<mapsto> overlay w (case cfg_map es k of None \<Rightarrow> [] | Some v \<Rightarrow> v))"
    using r(3) call by (cases ?full) simp_all
  with handle pack r(2) show ?thesis by blast
qed

theorem net_set_reaches_witness:
  "netinfd_set (loopback (ready_env 900) 3 one_entry) 5000 600 610 [(600, [7, 0]), (610, [9, 9, 0])] [] = Inr (0, [])"
proof -
  have f: "fresh (5000 + STRING_OFFSET) NETINFD_REQUEST_MAX_SIZE [(600, [7, 0]), (610, [9, 9, 0])]"
    by (simp add: fresh_def apart_def)
  have "key_slot [7] one_entries = Some 0" by (simp add: one_entries_def key_slot_Cons)
  then have r: "room_for (ne_alloc (ready_env 900)) [7] (length [7 :: u8] + length [9, 9 :: u8] + 3) one_entry one_entries"
    by (simp add: room_for_def fresh_def apart_def ready_env_def one_entry_def)
  have str: "string_opt 600 [(600, [7, 0]), (610, [9, 9, 0])] (Some [7])" "string_opt 610 [(600, [7, 0]), (610, [9, 9, 0])] (Some [9, 9])"
    by (simp_all add: string_opt_def string_at_def bytes_at_def)
  have "ne_junk (ready_env 900) = (\<lambda>_. 0)" by (simp add: ready_env_def)
  from net_set_reaches [OF one_entry_rel linked_loopback str _ f r this, of 3 "[]"] show ?thesis by (simp add: one_entry_map split: if_splits) blast
qed

section \<open>Switching an interface\<close>

text \<open>C21 A call that switches an interface succeeds for \<open>y\<close> and \<open>n\<close>, whatever the status of the command is; for any other value
  the daemon closes the connection without an answer, and the call does not return.\<close>

theorem net_enable_outcomes:
  assumes "linked cn rd e fd s" "string_opt kp m (Some k)" "string_opt vp m (Some v)" "length k + length v + 2 \<le> NETINFD_REQUEST_MAX_SIZE"
    "fresh (ra + STRING_OFFSET) NETINFD_REQUEST_MAX_SIZE m"
  shows "netinfd_nienable cn ra kp vp m fds = (if v = chars ''y'' \<or> v = chars ''n'' then Inr (0, fds) else Inl Hang)"
proof -
  let ?rq = "net_request NETINFD_REQUEST_TYPE_NIENABLE kp vp" and ?ok = "v = chars ''y'' \<or> v = chars ''n''"
  let ?sent = "request_bytes (marked ?rq (Some k) (Some v))"
  let ?e = "e\<lparr>ne_read := rd ?sent\<rparr>" and ?u = "unmarked (ne_req e) ?rq (Some k) (Some v)"
  have n: "needs (Some k) (Some v) \<le> NETINFD_REQUEST_MAX_SIZE" "length (packed (Some k)) \<le> NETINFD_REQUEST_MAX_SIZE"
    using assms(4) by (simp_all add: needs_def packed_def)
  have k: "no_zero k" "no_zero v" using assms(2,3) string_opt_no_zero by blast+
  have l: "length ?sent = msg_size" using length_marked [of "Some k" "Some v" ?rq] n(1) by simp
  have L: "connected cn" "\<exists>j. accepts (cn_write cn) 0 msg_size j" "\<exists>j. accepts (ne_write e) 0 msg_size j" "fd \<ge> 0" "ne_req e \<noteq> NULL"
    "\<exists>j. delivers (rd ?sent) 0 ?sent j" "request_handle ?e fd s = Inr (None, False, s) \<Longrightarrow> \<forall>i. cn_read cn ?sent i = Moved []"
    using assms(1) l unfolding linked_def by blast+
  obtain j where j: "accepts (ne_write ?e) 0 msg_size j" using L(3) by auto
  note h = net_request_strings [OF assms(5,2,3) n(2), of NETINFD_REQUEST_TYPE_NIENABLE]
  have str: "string_opt (rq_cmd ?u) (request_mem (ne_req e) (rq_string ?u) (nc_mem s)) (Some k)"
    "string_opt (rq_priv ?u) (request_mem (ne_req e) (rq_string ?u) (nc_mem s)) (Some v)"
    by (rule unmarked_strings; use k n in simp)+
  have ty: "rq_type ?u = NETINFD_REQUEST_TYPE_NIENABLE" by (simp add: unmarked_def marked_def new_request_def)
  show ?thesis
  proof (cases ?ok)
    case True
    let ?rq' = "?u\<lparr>rq_status := 0\<rparr>"
    have ok: "request_ok ?rq'" using request_ok_unmarked [OF net_request_ok n(1)] by (simp add: request_ok_def)
    have "has_strings (ne_req ?e) (nc_mem s) ?rq' (Some k) (Some v)" using unmarked_packs [OF net_request_ok _ _ n(1)] k by simp
    from send_reply_fits [OF ok this j n(1)]
    have "handle_type ?e ?u s = Inr (Some (request_bytes (marked ?rq' (Some k) (Some v))), False, s)"
      using str ty True by (simp add: handle_type_def ni_enable_def Let_def string_opt_def)
    from client_call [OF assms(1) net_request_ok h _ _ n(1) this ok _ _ n(1), of fds] k True show ?thesis
      by (simp add: netinfd_nienable_def netinfd_call_def netinfd_request_def)
  next
    case False
    obtain j where d: "delivers (ne_read ?e) 0 ?sent j" using L(6) by auto
    have "handle_type ?e ?u s = Inr (None, False, s)"
      using str ty False by (simp add: handle_type_def ni_enable_def Let_def string_opt_def)
    then have "request_handle ?e fd s = Inr (None, False, s)"
      using handle_unpacks [OF d net_request_ok _ _ n(1), of fd s] L(4,5) k by simp
    from L(7) [OF this] have eof: "\<forall>i. cn_read cn ?sent i = Moved []" .
    then have "safe_read (cn_read cn ?sent) msg_size ?sent = Inl Hang"
      using read_loop_eof [of 0 "cn_read cn ?sent" "[]" msg_size msg_size] by (simp add: safe_read_def run_loop_def)
    moreover obtain sock where "0 \<le> sock" "connect_request_netinf cn fds = (sock, sock # fds)" using connect_ok(2) [OF L(1)] by blast
    moreover have "safe_write (cn_write cn) ?sent msg_size = Inr (int msg_size, ?sent)"
      using safe_write_all [of "cn_write cn" ?sent] L(2) request_bytes_nonempty l by fastforce
    moreover have "length (rq_string (marked ?rq (Some k) (Some v))) = NETINFD_REQUEST_MAX_SIZE" using l by simp
    ultimately show ?thesis using pack_net_request [OF assms(5,2,3) n(1), of NETINFD_REQUEST_TYPE_NIENABLE] False
      by (simp add: netinfd_nienable_def netinfd_call_def netinfd_request_def request_for_netinfd_def request_for_def)
  qed
qed

theorem net_enable_outcomes_witness:
  "netinfd_nienable (loopback (ready_env 900) 3 one_entry) 5000 600 610 [(600, [7, 0]), (610, [121, 0]), (620, [120, 0])] [] = Inr (0, []) \<and>
   netinfd_nienable (loopback (ready_env 900) 3 one_entry) 5000 600 620 [(600, [7, 0]), (610, [121, 0]), (620, [120, 0])] [] = Inl Hang"
proof -
  let ?m = "[(600, [7, 0]), (610, [121, 0]), (620, [120, 0])] :: blocks"
  have f: "fresh (5000 + STRING_OFFSET) NETINFD_REQUEST_MAX_SIZE ?m" by (simp add: fresh_def apart_def)
  have str: "string_opt 600 ?m (Some [7])" "string_opt 610 ?m (Some [121])" "string_opt 620 ?m (Some [120])"
    by (simp_all add: string_opt_def string_at_def bytes_at_def)
  from net_enable_outcomes [OF linked_loopback str(1,2) _ f, of 3] net_enable_outcomes [OF linked_loopback str(1,3) _ f, of 3]
  show ?thesis by (simp add: chars_def)
qed

end
