(* ===== verification/NetThreads.thy ===== *)
theory NetThreads
  imports NetInfd "HOL-Library.Multiset"
begin

text \<open>The threads of the network daemon: the slots of the table and the threads that run, and what a full table and a thread
  that cannot be made lead to.\<close>

section \<open>Steps\<close>

text \<open>The main loop and the threads in any order; \<open>calm\<close> steps are those where there is a free slot when one is looked for,
  every thread can be made, and every thread gets to its clean-up.\<close>

inductive net_step :: "bool \<Rightarrow> netthreads \<Rightarrow> netthreads \<Rightarrow> bool" where
  select: "\<not> nt_selected s \<Longrightarrow> calm \<longrightarrow> 0 \<in> set (nt_td s) \<Longrightarrow> net_step calm s (main_selects s)"
| create: "nt_selected s \<Longrightarrow> main_creates (Some t) s = Inr (Returned s') \<Longrightarrow> t \<noteq> 0 \<Longrightarrow> t \<notin> fst ` set (nt_run s) \<Longrightarrow> net_step calm s s'"
| fails: "nt_selected s \<Longrightarrow> main_creates None s = Inr (Returned s') \<Longrightarrow> \<not> calm \<Longrightarrow> net_step calm s s'"
| starts: "(t, False) \<in> set (nt_run s) \<Longrightarrow> net_step calm s (handler_starts t s)"
| ends: "(t, True) \<in> set (nt_run s) \<Longrightarrow> net_step calm s (handler_ends t s)"
| returns: "(t, True) \<in> set (nt_run s) \<Longrightarrow> \<not> calm \<Longrightarrow> net_step calm s (handler_returns t s)"

definition net_reached :: "bool \<Rightarrow> netthreads \<Rightarrow> bool" where
  "net_reached calm s \<longleftrightarrow> (net_step calm)\<^sup>*\<^sup>* nt_init s"

abbreviation waiting :: "(tid \<times> bool) list \<Rightarrow> (tid \<times> bool) list" where
  "waiting \<equiv> filter (\<lambda>(u, b). \<not> b)"

definition used :: "tid list \<Rightarrow> tid multiset" where
  "used td = filter_mset (\<lambda>t. t \<noteq> 0) (mset td)"

section \<open>The table without trouble\<close>

definition slots_ok :: "netthreads \<Rightarrow> bool" where
  "slots_ok s \<longleftrightarrow> length (nt_td s) = MAX_THREAD \<and> used (nt_td s) = mset (map fst (nt_run s)) \<and> distinct (map fst (nt_run s)) \<and>
     nt_total s = int (length (nt_run s)) + (if nt_selected s then 1 else 0) \<and>
     (nt_selected s \<longrightarrow> (\<exists>i<MAX_THREAD. nt_pthread s = Some i \<and> nt_td s ! i = 0)) \<and>
     length (waiting (nt_run s)) = (if nt_lock s then 1 else 0)"

lemma first_index_Some: "first_index P ts k = Some i \<Longrightarrow> k \<le> i \<and> i - k < length ts \<and> P (ts ! (i - k))"
proof (induction ts arbitrary: k)
  case (Cons t ts)
  show ?case
  proof (cases "P t")
    case False
    then have "k + 1 \<le> i \<and> i - (k + 1) < length ts \<and> P (ts ! (i - (k + 1)))" using Cons by simp
    moreover from this have "i - k = Suc (i - (k + 1))" by arith
    ultimately show ?thesis by simp
  qed (use Cons.prems in simp)
qed simp

lemma first_index_None: "first_index P ts k = None \<longleftrightarrow> (\<forall>t\<in>set ts. \<not> P t)"
  by (induction ts arbitrary: k) auto

lemma used_update: "i < length td \<Longrightarrow> used (td[i := t]) = used td - (if td ! i = 0 then {#} else {#td ! i#}) + (if t = 0 then {#} else {#t#})"
  by (simp add: used_def mset_update)

lemma used_elem: "t \<in># used td \<longleftrightarrow> t \<in> set td \<and> t \<noteq> 0"
  by (simp add: used_def)

lemma slots_nonzero: "slots_ok s \<Longrightarrow> (t, b) \<in> set (nt_run s) \<Longrightarrow> t \<in> set (nt_td s) \<and> t \<noteq> 0"
  by (metis slots_ok_def used_elem fst_conv image_eqI set_mset_mset set_map)

lemma slots_ok_init: "slots_ok nt_init"
  by (simp add: slots_ok_def nt_init_def used_def)

lemma slots_select: "slots_ok s \<Longrightarrow> \<not> nt_selected s \<Longrightarrow> 0 \<in> set (nt_td s) \<Longrightarrow> slots_ok (main_selects s)"
proof -
  assume a: "slots_ok s" "\<not> nt_selected s" "0 \<in> set (nt_td s)"
  then obtain i where i: "first_index (\<lambda>t. t = 0) (nt_td s) 0 = Some i" using first_index_None [of "\<lambda>t. t = 0" "nt_td s" 0] by auto
  from first_index_Some [OF this] a show ?thesis by (simp add: main_selects_def GetFreeThread_def i slots_ok_def)
qed

lemma slots_create:
  assumes "slots_ok s" "nt_selected s" "main_creates (Some t) s = Inr (Returned s')" "t \<noteq> 0" "t \<notin> fst ` set (nt_run s)"
  shows "slots_ok s'"
proof -
  obtain i where i: "i < MAX_THREAD" "nt_pthread s = Some i" "nt_td s ! i = 0" using assms(1,2) unfolding slots_ok_def by blast
  then have "s' = s\<lparr>nt_lock := True, nt_selected := False, nt_td := (nt_td s)[i := t], nt_run := (t, False) # nt_run s\<rparr>" "\<not> nt_lock s"
    using assms(3) by (simp_all add: main_creates_def Let_def split: if_splits)
  then show ?thesis using assms(1,2,4,5) i by (simp add: slots_ok_def used_update)
qed

lemma slots_start:
  assumes "slots_ok s" "(t, False) \<in> set (nt_run s)"
  shows "slots_ok (handler_starts t s)"
proof -
  have "(t, False) \<in> set (waiting (nt_run s))" using assms(2) by simp
  then have l: "length (waiting (nt_run s)) = 1" using assms(1) unfolding slots_ok_def by (metis empty_iff length_0_conv list.set(1))
  then obtain x where x: "waiting (nt_run s) = [x]" by (cases "waiting (nt_run s)") simp_all
  then have "x = (t, False)" using \<open>(t, False) \<in> set (waiting (nt_run s))\<close> by simp
  have u: "u = t" if "(u, False) \<in> set (nt_run s)" for u
  proof -
    have "(u, False) \<in> set (waiting (nt_run s))" using that by simp
    then show ?thesis using x \<open>x = (t, False)\<close> by simp
  qed
  have "waiting (map (\<lambda>(u, b). (u, b \<or> u = t)) (nt_run s)) = []"
  proof -
    have "b" if "(u, b) \<in> set (nt_run s)" "u \<noteq> t" for u b
      using that u [of u] by (cases b) simp_all
    then show ?thesis by (auto simp: filter_empty_conv)
  qed
  moreover have "fst \<circ> (\<lambda>(u, b). (u, b \<or> u = t)) = (fst :: tid \<times> bool \<Rightarrow> tid)" by (auto simp: fun_eq_iff)
  ultimately show ?thesis using assms(1) unfolding slots_ok_def handler_starts_def by simp
qed

lemma run_without: "distinct (map fst run) \<Longrightarrow> (t, b) \<in> set run \<Longrightarrow>
    mset (map fst (filter (\<lambda>(u, b). u \<noteq> t) run)) = mset (map fst run) - {#t#} \<and> length run = Suc (length (filter (\<lambda>(u, b). u \<noteq> t) run))"
proof (induction run)
  case (Cons x run)
  show ?case
  proof (cases "fst x = t")
    case True
    then have "\<forall>y\<in>set run. fst y \<noteq> t" using Cons.prems(1) by (metis distinct.simps(2) list.simps(9) image_eqI set_map)
    then have "filter (\<lambda>(u, b). u \<noteq> t) run = run" by (auto simp: filter_id_conv)
    then show ?thesis using True by (simp add: case_prod_unfold)
  next
    case False
    then have "(t, b) \<in> set run" using Cons.prems(2) by auto
    moreover from this have "t \<in># mset (map fst run)" by force
    ultimately show ?thesis using Cons False by (auto simp: case_prod_unfold)
  qed
qed simp

lemma slots_end:
  assumes "slots_ok s" "(t, True) \<in> set (nt_run s)"
  shows "slots_ok (handler_ends t s)"
proof -
  obtain i where i: "first_index (\<lambda>u. u = t) (nt_td s) 0 = Some i"
    using slots_nonzero [OF assms] first_index_None [of "\<lambda>u. u = t" "nt_td s" 0] by auto
  note f = first_index_Some [OF i]
  let ?run = "filter (\<lambda>(u, b). u \<noteq> t) (nt_run s)"
  have d: "distinct (map fst (nt_run s))" and t: "t \<noteq> 0" using assms(1) slots_nonzero [OF assms] by (simp_all add: slots_ok_def)
  have "waiting ?run = waiting (nt_run s)"
  proof -
    have "(t, False) \<notin> set (nt_run s)" using eq_key_imp_eq_value [OF d assms(2)] by blast
    then show ?thesis by (auto simp: filter_filter intro!: filter_cong)
  qed
  moreover have "used ((nt_td s)[i := 0]) = mset (map fst ?run)"
    using assms(1) f t run_without [OF d assms(2)] used_update [of i "nt_td s" 0] by (simp add: slots_ok_def)
  moreover have "distinct (map fst ?run)" using d by (rule distinct_map_filter)
  ultimately show ?thesis using assms(1) f i t run_without [OF d assms(2)]
    by (auto simp: slots_ok_def handler_ends_def FreeThisThread_def nth_list_update)
qed

lemma slots_step: "net_step True s s' \<Longrightarrow> slots_ok s \<Longrightarrow> slots_ok s'"
  by (erule net_step.cases) (simp_all add: slots_select slots_create slots_start slots_end)

lemma slots_reached: "net_reached True s \<Longrightarrow> slots_ok s"
  unfolding net_reached_def by (induction rule: rtranclp_induct) (simp_all add: slots_ok_init slots_step)

section \<open>The table access by access\<close>

text \<open>The main loop and the threads interleaved at every access to the table and to the counter.  Every search finds a free
  slot, every thread can be made, and every thread gets to its clean-up.\<close>

inductive fine_step :: "netrun \<Rightarrow> netrun \<Rightarrow> bool" where
  enters: "nr_main r = Outside \<Longrightarrow> \<not> nt_selected (nr_table r) \<Longrightarrow> fine_step r (r\<lparr>nr_main := Looks 0\<rparr>)"
| looks: "nr_main r = Looks i \<Longrightarrow> i < MAX_THREAD \<Longrightarrow> fine_step r (get_look i r)"
| loads: "nr_main r = Found \<Longrightarrow> fine_step r (get_load r)"
| stores: "nr_main r = Counts v \<Longrightarrow> fine_step r (get_store v r)"
| creates: "nt_selected (nr_table r) \<Longrightarrow> main_creates (Some t) (nr_table r) = Inr (Returned s') \<Longrightarrow> t \<noteq> 0 \<Longrightarrow>
    t \<notin> fst ` set (nt_run (nr_table r)) \<Longrightarrow> fine_step r (r\<lparr>nr_table := s'\<rparr>)"
| starts: "(t, False) \<in> set (nt_run (nr_table r)) \<Longrightarrow> fine_step r (r\<lparr>nr_table := handler_starts t (nr_table r)\<rparr>)"
| clears: "(t, True) \<in> set (nt_run (nr_table r)) \<Longrightarrow> t \<notin> fst ` set (nr_ends r) \<Longrightarrow> fine_step r (free_clear t r)"
| reads: "(t, None) \<in> set (nr_ends r) \<Longrightarrow> fine_step r (free_load t r)"
| counts: "(t, Some v) \<in> set (nr_ends r) \<Longrightarrow> fine_step r (free_store t v r)"

definition fine_reached :: "netrun \<Rightarrow> bool" where
  "fine_reached r \<longleftrightarrow> fine_step\<^sup>*\<^sup>* nr_init r"




















text \<open>Without a turn of another thread in between, the accesses come to the two functions.\<close>

lemma look_until:
  "first_index (\<lambda>t. t = 0) (drop k (nt_td (nr_table r))) k = Some i \<Longrightarrow> length (nt_td (nr_table r)) = MAX_THREAD \<Longrightarrow>
   fine_step\<^sup>*\<^sup>* (r\<lparr>nr_main := Looks k\<rparr>) (r\<lparr>nr_table := slot_found i (nr_table r), nr_main := Found\<rparr>)"
proof (induction "MAX_THREAD - k" arbitrary: k)
  case 0
  then show ?case by simp
next
  case (Suc n)
  then have k: "k < MAX_THREAD" by simp
  have d: "drop k (nt_td (nr_table r)) = nt_td (nr_table r) ! k # drop (k + 1) (nt_td (nr_table r))"
    using k Suc.prems(2) by (simp add: Cons_nth_drop_Suc)
  have st: "fine_step (r\<lparr>nr_main := Looks k\<rparr>) (get_look k (r\<lparr>nr_main := Looks k\<rparr>))" by (rule fine_step.looks) (use k in simp_all)
  show ?case
  proof (cases "nt_td (nr_table r) ! k = 0")
    case True
    then show ?thesis using st Suc.prems(1) d by (auto simp: get_look_def)
  next
    case False
    then have "fine_step\<^sup>*\<^sup>* (r\<lparr>nr_main := Looks (k + 1)\<rparr>) (r\<lparr>nr_table := slot_found i (nr_table r), nr_main := Found\<rparr>)"
      using Suc.hyps(1) [of "k + 1"] Suc.hyps(2) Suc.prems d by simp
    with st False show ?thesis by (simp add: get_look_def converse_rtranclp_into_rtranclp)
  qed
qed

lemma GetFreeThread_run:
  assumes "nr_main r = Outside" "\<not> nt_selected (nr_table r)" "length (nt_td (nr_table r)) = MAX_THREAD" "0 \<in> set (nt_td (nr_table r))"
  shows "fine_step\<^sup>*\<^sup>* r (r\<lparr>nr_table := main_selects (nr_table r)\<rparr>)"
proof -
  obtain i where i: "first_index (\<lambda>t. t = 0) (nt_td (nr_table r)) 0 = Some i"
    using assms(4) first_index_None [of "\<lambda>t. t = 0" "nt_td (nr_table r)" 0] by auto
  let ?f = "r\<lparr>nr_table := slot_found i (nr_table r), nr_main := Found\<rparr>"
  have "fine_step r (r\<lparr>nr_main := Looks 0\<rparr>)" using assms(1,2) by (rule fine_step.enters)
  moreover have "fine_step\<^sup>*\<^sup>* (r\<lparr>nr_main := Looks 0\<rparr>) ?f" using look_until [of 0 r i] i assms(3) by simp
  moreover have "fine_step ?f (get_load ?f)" by (rule fine_step.loads) simp
  moreover have "fine_step (get_load ?f) (get_store (nt_total (nr_table r)) (get_load ?f))" by (rule fine_step.stores) (simp add: get_load_def)
  moreover have "get_store (nt_total (nr_table r)) (get_load ?f) = r\<lparr>nr_table := main_selects (nr_table r)\<rparr>"
    using assms(1) i by (simp add: get_store_def get_load_def main_selects_def GetFreeThread_def)
  ultimately show ?thesis by (metis converse_rtranclp_into_rtranclp rtranclp.rtrancl_into_rtrancl)
qed

lemma FreeThisThread_run:
  assumes "(t, True) \<in> set (nt_run (nr_table r))" "t \<notin> fst ` set (nr_ends r)" "t \<in> set (nt_td (nr_table r))"
  shows "fine_step\<^sup>*\<^sup>* r (r\<lparr>nr_table := handler_ends t (nr_table r)\<rparr>)"
proof -
  obtain i where i: "first_index (\<lambda>u. u = t) (nt_td (nr_table r)) 0 = Some i"
    using assms(3) first_index_None [of "\<lambda>u. u = t" "nt_td (nr_table r)" 0] by auto
  let ?c = "free_clear t r"
  have "fine_step r ?c" using assms(1,2) by (rule fine_step.clears)
  moreover have "fine_step ?c (free_load t ?c)" by (rule fine_step.reads) (simp add: free_clear_def i)
  moreover have "fine_step (free_load t ?c) (free_store t (nt_total (nr_table r)) (free_load t ?c))"
    by (rule fine_step.counts) (simp add: free_load_def free_clear_def i)
  moreover have "filter (\<lambda>(u, v). u \<noteq> t) (nr_ends r) = nr_ends r" using assms(2) by (force simp: filter_id_conv)
  then have "free_store t (nt_total (nr_table r)) (free_load t ?c) = r\<lparr>nr_table := handler_ends t (nr_table r)\<rparr>"
    using i by (simp add: free_store_def free_load_def free_clear_def handler_ends_def handler_returns_def FreeThisThread_def)
  ultimately show ?thesis by (metis converse_rtranclp_into_rtranclp rtranclp.rtrancl_refl)
qed

text \<open>The counter is another matter.  A thread that ends and the main loop that takes the next connection can both read the
  counter before one of them writes it: then the daemon is idle with minus one connection.\<close>

lemma select_init: "main_selects nt_init = nt_init\<lparr>nt_pthread := Some 0, nt_total := 1, nt_selected := True\<rparr>"
  by (simp add: main_selects_def GetFreeThread_def nt_init_def eval_nat_numeral)

lemma create_run:
  assumes "nt_selected (nr_table r)" "\<not> nt_lock (nr_table r)" "nt_pthread (nr_table r) = Some i" "t \<noteq> 0" "t \<notin> fst ` set (nt_run (nr_table r))"
  shows "fine_step\<^sup>*\<^sup>* r (r\<lparr>nr_table := handler_starts t ((nr_table r)\<lparr>nt_lock := True, nt_selected := False,
    nt_td := (nt_td (nr_table r))[i := t], nt_run := (t, False) # nt_run (nr_table r)\<rparr>)\<rparr>)"
proof -
  let ?s = "(nr_table r)\<lparr>nt_lock := True, nt_selected := False, nt_td := (nt_td (nr_table r))[i := t], nt_run := (t, False) # nt_run (nr_table r)\<rparr>"
  have "fine_step r (r\<lparr>nr_table := ?s\<rparr>)"
    by (rule fine_step.creates [OF assms(1) _ assms(4,5)]) (use assms(2,3) in \<open>simp add: main_creates_def Let_def\<close>)
  moreover have "fine_step (r\<lparr>nr_table := ?s\<rparr>) (r\<lparr>nr_table := handler_starts t ?s\<rparr>)"
    using fine_step.starts [of t "r\<lparr>nr_table := ?s\<rparr>"] by simp
  ultimately show ?thesis by (rule rtranclp.rtrancl_into_rtrancl [OF r_into_rtranclp])
qed

definition at_count :: "int \<Rightarrow> tid list \<Rightarrow> (tid \<times> bool) list \<Rightarrow> bool \<Rightarrow> main_pc \<Rightarrow> (tid \<times> int option) list \<Rightarrow> netrun" where
  "at_count v td run sel m ends =
    \<lparr>nr_table = \<lparr>nt_td = td @ replicate 9 0, nt_total = v, nt_pthread = Some 0, nt_selected = sel, nt_lock = False, nt_run = run\<rparr>,
     nr_main = m, nr_ends = ends\<rparr>"

lemmas at_count_run = at_count_def get_look_def get_load_def get_store_def free_clear_def free_load_def free_store_def handler_returns_def
  handler_starts_def numeral_eq_Suc

lemma at_count_steps:
  "fine_step (at_count v [t] [(t, True)] False Outside []) (at_count v [0] [(t, True)] False Outside [(t, None)])"
  "fine_step (at_count v [0] [(t, True)] False Outside [(t, None)]) (at_count v [0] [(t, True)] False Outside [(t, Some v)])"
  "fine_step (at_count v [0] run False Outside ends) (at_count v [0] run False (Looks 0) ends)"
  "fine_step (at_count v [0] run False (Looks 0) ends) (at_count v [0] run False Found ends)"
  "fine_step (at_count v [0] run False Found ends) (at_count v [0] run False (Counts v) ends)"
  "fine_step (at_count v [0] run False (Counts w) ends) (at_count (w + 1) [0] run True Outside ends)"
  "fine_step (at_count v [0] [(t, True)] sel m [(t, Some w)]) (at_count (w - 1) [0] [] sel m [])"
  using fine_step.clears [of t "at_count v [t] [(t, True)] False Outside []"]
    fine_step.reads [of t "at_count v [0] [(t, True)] False Outside [(t, None)]"]
    fine_step.enters [of "at_count v [0] run False Outside ends"]
    fine_step.looks [of "at_count v [0] run False (Looks 0) ends" 0]
    fine_step.loads [of "at_count v [0] run False Found ends"]
    fine_step.stores [of "at_count v [0] run False (Counts w) ends" w]
    fine_step.counts [of t w "at_count v [0] [(t, True)] sel m [(t, Some w)]"]
  by (simp_all add: at_count_run)

lemma at_count_create: "t \<noteq> 0 \<Longrightarrow> fine_step\<^sup>*\<^sup>* (at_count v [0] [] True Outside []) (at_count v [t] [(t, True)] False Outside [])"
  using create_run [of "at_count v [0] [] True Outside []" 0 t] by (simp add: at_count_run)

theorem net_counter_loses:
  "\<exists>r. fine_reached r \<and> nr_main r = Outside \<and> \<not> nt_selected (nr_table r) \<and> nt_run (nr_table r) = [] \<and> nt_total (nr_table r) = -1"
proof -
  have "fine_step\<^sup>*\<^sup>* nr_init (nr_init\<lparr>nr_table := main_selects (nr_table nr_init)\<rparr>)"
    by (rule GetFreeThread_run) (simp_all add: nr_init_def nt_init_def)
  then have "fine_step\<^sup>*\<^sup>* nr_init (at_count 1 [0] [] True Outside [])"
    by (simp add: nr_init_def at_count_def select_init) (simp add: nt_init_def numeral_eq_Suc)
  also have "fine_step\<^sup>*\<^sup>* \<dots> (at_count 1 [1] [(1, True)] False Outside [])" by (rule at_count_create) simp
  also have "fine_step\<^sup>*\<^sup>* \<dots> (at_count 1 [0] [(1, True)] False Outside [(1, Some 1)])"
    by (meson at_count_steps(1,2) r_into_rtranclp rtranclp_trans)
  also have "fine_step\<^sup>*\<^sup>* \<dots> (at_count 1 [0] [(1, True)] False (Counts 1) [(1, Some 1)])"
    by (meson at_count_steps(3-5) r_into_rtranclp rtranclp_trans)
  also have "fine_step\<^sup>*\<^sup>* \<dots> (at_count 2 [0] [(1, True)] True Outside [(1, Some 1)])"
    using at_count_steps(6) [of 1 "[(1, True)]" 1 "[(1, Some 1)]"] by simp
  also have "fine_step\<^sup>*\<^sup>* \<dots> (at_count 0 [0] [] True Outside [])" using at_count_steps(7) [of 2 1 True Outside 1] by simp
  also have "fine_step\<^sup>*\<^sup>* \<dots> (at_count 0 [2] [(2, True)] False Outside [])" by (rule at_count_create) simp
  also have "fine_step\<^sup>*\<^sup>* \<dots> (at_count 0 [0] [(2, True)] False Outside [(2, Some 0)])"
    by (meson at_count_steps(1,2) r_into_rtranclp rtranclp_trans)
  also have "fine_step\<^sup>*\<^sup>* \<dots> (at_count (-1) [0] [] False Outside [])" using at_count_steps(7) [of 0 2 False Outside 0] by simp
  finally show ?thesis unfolding fine_reached_def by (intro exI [of _ "at_count (-1) [0] [] False Outside []"]) (simp add: at_count_def)
qed

lemma reached_step: "net_reached c s \<Longrightarrow> net_step c s s' \<Longrightarrow> net_reached c s'"
  by (auto simp: net_reached_def)

lemma init_reached: "net_reached c nt_init"
  by (simp add: net_reached_def)

lemma select_init_fields [simp]: "nt_total (main_selects nt_init) = 1" "nt_run (main_selects nt_init) = []" "nt_lock (main_selects nt_init) = False"
  "nt_selected (main_selects nt_init)"
  by (simp_all add: select_init) (simp_all add: nt_init_def)

section \<open>A thread that cannot be made\<close>

lemma stuck_step: "net_step c s s' \<Longrightarrow> nt_lock s \<Longrightarrow> waiting (nt_run s) = [] \<Longrightarrow> nt_lock s' \<and> waiting (nt_run s') = []"
  by (erule net_step.cases)
    (auto simp: main_selects_def GetFreeThread_def main_creates_def handler_ends_def handler_returns_def FreeThisThread_def filter_empty_conv
      split: option.splits)

text \<open>The main loop takes the mutex before it makes a thread, and only the thread gives it back.  When a thread cannot be
  made, the daemon never makes one again.\<close>

theorem net_create_failure_stuck:
  assumes "net_reached True s" "main_creates None s = Inr (Returned s1)" "(net_step c)\<^sup>*\<^sup>* s1 s2"
  shows "main_creates t s2 = Inr Waiting"
proof -
  have "nt_lock s1 \<and> waiting (nt_run s1) = []"
    using slots_reached [OF assms(1)] assms(2) by (auto simp: slots_ok_def main_creates_def Let_def split: if_splits)
  with assms(3) have "nt_lock s2 \<and> waiting (nt_run s2) = []"
    by (induction rule: rtranclp_induct) (use stuck_step in blast)+
  then show ?thesis by (simp add: main_creates_def)
qed

theorem net_create_failure_stuck_witness:
  "\<exists>s1. main_creates None (main_selects nt_init) = Inr (Returned s1) \<and> main_creates (Some 1) (main_selects s1) = Inr Waiting"
proof -
  have r: "net_reached True (main_selects nt_init)"
    by (rule reached_step [OF init_reached net_step.select]) (simp_all add: nt_init_def)
  obtain s1 where s1: "main_creates None (main_selects nt_init) = Inr (Returned s1)" "\<not> nt_selected s1" by (simp add: main_creates_def Let_def)
  have "(net_step False)\<^sup>*\<^sup>* s1 (main_selects s1)" by (rule r_into_rtranclp) (rule net_step.select, simp_all add: s1)
  from net_create_failure_stuck [OF r s1(1) this, of "Some 1"] s1 show ?thesis by blast
qed

section \<open>A full table\<close>

definition pthread_ok :: "netthreads \<Rightarrow> bool" where
  "pthread_ok s \<longleftrightarrow> (case nt_pthread s of None \<Rightarrow> nt_run s = [] | Some i \<Rightarrow> i < MAX_THREAD)"

lemma pthread_step: "net_step True s s' \<Longrightarrow> slots_ok s \<Longrightarrow> pthread_ok s \<Longrightarrow> pthread_ok s'"
  by (erule net_step.cases)
    (auto simp: pthread_ok_def slots_ok_def main_selects_def GetFreeThread_def main_creates_def handler_starts_def handler_ends_def
      FreeThisThread_def Let_def dest: first_index_Some split: option.splits if_splits)

lemma pthread_reached: "net_reached True s \<Longrightarrow> slots_ok s \<and> pthread_ok s"
  unfolding net_reached_def
  by (induction rule: rtranclp_induct) (simp_all add: slots_ok_init slots_step pthread_step, simp add: pthread_ok_def nt_init_def)

lemma full_table: "slots_ok s \<Longrightarrow> 0 \<notin> set (nt_td s) \<Longrightarrow> mset (nt_td s) = mset (map fst (nt_run s)) \<and> length (nt_run s) = MAX_THREAD"
proof -
  assume a: "slots_ok s" "0 \<notin> set (nt_td s)"
  then have "used (nt_td s) = mset (nt_td s)" by (auto simp: used_def filter_mset_eq_conv intro!: gr0I)
  then have "mset (nt_td s) = mset (map fst (nt_run s))" "length (nt_td s) = MAX_THREAD" using a(1) by (simp_all add: slots_ok_def)
  then show ?thesis by (metis length_map mset_eq_length)
qed

text \<open>C24 The result of the search for a slot is not looked at.  With a full table the next thread takes the slot of a thread
  that runs, whose end then changes nothing, and the counter stays at ten for eleven threads.\<close>

theorem net_full_table_overwrites:
  assumes "net_reached True s" "\<not> nt_selected s" "0 \<notin> set (nt_td s)" "\<not> nt_lock s" "t \<noteq> 0" "t \<notin> fst ` set (nt_run s)"
  shows "\<exists>i s'. nt_pthread s = Some i \<and> main_creates (Some t) (main_selects s) = Inr (Returned s') \<and>
    nt_td s ! i \<in> fst ` set (nt_run s') \<and> nt_td s ! i \<notin> set (nt_td s') \<and> FreeThisThread (nt_td s ! i) s' = s' \<and>
    length (nt_run s') = 11 \<and> nt_total s' = 10"
proof -
  have ok: "slots_ok s" "pthread_ok s" using pthread_reached [OF assms(1)] by simp_all
  have f: "mset (nt_td s) = mset (map fst (nt_run s))" "length (nt_run s) = MAX_THREAD" using full_table [OF ok(1) assms(3)] by simp_all
  obtain i where i: "nt_pthread s = Some i" "i < MAX_THREAD"
    using ok(2) f(2) by (auto simp: pthread_ok_def split: option.splits)
  have sel: "main_selects s = s\<lparr>nt_selected := True\<rparr>"
  proof -
    have "first_index (\<lambda>t. t = 0) (nt_td s) 0 = None" unfolding first_index_None using assms(3) by (metis (full_types))
    then show ?thesis by (simp add: main_selects_def GetFreeThread_def)
  qed
  let ?s = "s\<lparr>nt_lock := True, nt_selected := False, nt_td := (nt_td s)[i := t], nt_run := (t, False) # nt_run s\<rparr>" and ?u = "nt_td s ! i"
  have c: "main_creates (Some t) (main_selects s) = Inr (Returned ?s)" using assms(4) i by (simp add: sel main_creates_def Let_def)
  have l: "i < length (nt_td s)" using ok(1) i(2) by (simp add: slots_ok_def)
  have "distinct (map fst (nt_run s))" using ok(1) by (simp add: slots_ok_def)
  then have "distinct (nt_td s)" using mset_eq_imp_distinct_iff [OF f(1)] by simp
  moreover have set_eq: "set (nt_td s) = fst ` set (nt_run s)" using mset_eq_setD [OF f(1)] by simp
  then have u: "?u \<in> fst ` set (nt_run s)" using nth_mem [OF l] by simp
  moreover from this have "?u \<noteq> t" using assms(6) by metis
  ultimately have "?u \<notin> set ((nt_td s)[i := t])" using l by (auto simp: in_set_conv_nth nth_list_update distinct_conv_nth)
  moreover from this have "first_index (\<lambda>t. t = ?u) ((nt_td s)[i := t]) 0 = None" unfolding first_index_None by blast
  then have "FreeThisThread ?u ?s = ?s" by (simp add: FreeThisThread_def)
  moreover have "nt_total s = 10" using ok(1) f(2) assms(2) by (simp add: slots_ok_def)
  ultimately show ?thesis using i(1) c u f(2) by (intro exI [of _ i] exI [of _ ?s]) auto
qed

text \<open>Ten connections, one after the other.\<close>

definition turn :: "tid \<Rightarrow> netthreads \<Rightarrow> netthreads" where
  "turn t s = (case main_creates (Some t) (main_selects s) of Inr (Returned s') \<Rightarrow> handler_starts t s' | _ \<Rightarrow> s)"

lemma turn_reached:
  assumes "net_reached True s" "\<not> nt_selected s" "\<not> nt_lock s" "length (nt_run s) < MAX_THREAD" "t \<noteq> 0" "t \<notin> fst ` set (nt_run s)"
  shows "net_reached True (turn t s) \<and> \<not> nt_selected (turn t s) \<and> \<not> nt_lock (turn t s) \<and> length (nt_run (turn t s)) = Suc (length (nt_run s)) \<and>
    fst ` set (nt_run (turn t s)) = insert t (fst ` set (nt_run s))"
proof -
  have ok: "slots_ok s" using slots_reached [OF assms(1)] .
  have "0 \<in> set (nt_td s)" using full_table [OF ok] assms(4) by fastforce
  then have r: "net_reached True (main_selects s)" using reached_step [OF assms(1) net_step.select] assms(2) by blast
  have sel: "nt_selected (main_selects s)" "nt_run (main_selects s) = nt_run s" "nt_lock (main_selects s) = nt_lock s"
    by (auto simp: main_selects_def GetFreeThread_def split: option.splits)
  obtain i where "nt_pthread (main_selects s) = Some i" using slots_reached [OF r] sel(1) unfolding slots_ok_def by blast
  then obtain s' where s': "main_creates (Some t) (main_selects s) = Inr (Returned s')" "nt_run s' = (t, False) # nt_run s" "\<not> nt_selected s'"
    using assms(3) sel by (simp add: main_creates_def Let_def)
  have "net_reached True s'" by (rule reached_step [OF r net_step.create]) (use s'(1) sel assms(5,6) in simp_all)
  then have "net_reached True (handler_starts t s')" by (rule reached_step [OF _ net_step.starts]) (simp add: s'(2))
  then show ?thesis using s' by (simp add: turn_def handler_starts_def) force
qed

lemma turns_reached: "n \<le> MAX_THREAD \<Longrightarrow> \<exists>s. net_reached True s \<and> \<not> nt_selected s \<and> \<not> nt_lock s \<and> length (nt_run s) = n \<and> fst ` set (nt_run s) = {1..n}"
proof (induction n)
  case 0
  show ?case by (intro exI [of _ nt_init]) (simp add: init_reached, simp add: nt_init_def)
next
  case (Suc n)
  then obtain s where s: "net_reached True s" "\<not> nt_selected s" "\<not> nt_lock s" "length (nt_run s) = n" "fst ` set (nt_run s) = {1..n}" by auto
  have "insert (Suc n) {1..n} = {1..Suc n}" by auto
  with turn_reached [OF s(1-3), of "Suc n"] s(4,5) Suc.prems show ?case by (intro exI [of _ "turn (Suc n) s"]) simp
qed

theorem net_full_table_overwrites_witness:
  "\<exists>s s'. net_reached True s \<and> main_creates (Some 11) (main_selects s) = Inr (Returned s') \<and> length (nt_run s') = 11 \<and> nt_total s' = 10"
proof -
  obtain s where s: "net_reached True s" "\<not> nt_selected s" "\<not> nt_lock s" "length (nt_run s) = MAX_THREAD" "fst ` set (nt_run s) = {1..MAX_THREAD}"
    using turns_reached [of MAX_THREAD] by auto
  have u: "used (nt_td s) = mset (map fst (nt_run s))" "length (nt_td s) = MAX_THREAD" using slots_reached [OF s(1)] by (simp_all add: slots_ok_def)
  then have "size (used (nt_td s)) = size (mset (nt_td s))" using s(4) by simp
  moreover have "used (nt_td s) \<subseteq># mset (nt_td s)" by (simp add: used_def)
  ultimately have "used (nt_td s) = mset (nt_td s)" by (metis mset_subset_size subset_mset.le_imp_less_or_eq less_irrefl)
  then have "0 \<notin> set (nt_td s)" using used_elem [of 0 "nt_td s"] by simp
  from net_full_table_overwrites [OF s(1,2) this s(3), of 11] s(5) s(1) obtain i s' where
    "main_creates (Some 11) (main_selects s) = Inr (Returned s')" "length (nt_run s') = 11" "nt_total s' = 10" by auto
  with s(1) show ?thesis by blast
qed

end
