(* ===== verification/NetMon.thy ===== *)
theory NetMon
  imports Crit Ipc
begin

text \<open>The monitor of the network interfaces in mw/linux_c_api/c_mt_lx_net_cfg.c: functions that are to be called when a cable
  is plugged or unplugged or when an address changes, the thread that looks at the interfaces, and the configuration of
  an address.

  The list is used under the critical section, so a call and a turn of the thread are one step each; only where the
  configuration of an address leaves the critical section twice are its calls written out.  The functions that are
  called do not register or unregister.\<close>

section \<open>State\<close>

abbreviation (input) NIFNAMELEN :: nat where "NIFNAMELEN \<equiv> 15"
abbreviation (input) NET_OK :: int where "NET_OK \<equiv> 0"
abbreviation (input) NET_FAILED :: int where "NET_FAILED \<equiv> -65535"
abbreviation (input) NET_NI_ALLOC_MEM_FAILED :: int where "NET_NI_ALLOC_MEM_FAILED \<equiv> -65532"

text \<open>\<open>NI_DRV_EV_T\<close>.\<close>

datatype ni_event = EV_UNKNOW | EV_ETHERNET_PLUGIN | EV_ETHERNET_UNPLUG | EV_IP_ADDRESS_CHANGED | EV_IP_ADDRESS_EXPIRED | EV_IP_ADDRESSv6_CHANGED

record monitor =
  sz_NifName :: "u8 list"
  e_event :: ni_event
  pf_notify :: fptr
  fgNeedNotify :: bool

text \<open>\<open>pt_lx_ni_monitor_list_root\<close> as the list that begins there, and \<open>fg_NiMonitor_Thrd_Create\<close>.\<close>

record netmon =
  nm_list :: "monitor list"
  nm_created :: bool

definition netmon_init :: netmon where
  "netmon_init = \<lparr>nm_list = [], nm_created = False\<rparr>"

section \<open>Names\<close>

text \<open>\<open>strncpy\<close> into the array of 15 bytes: a name of 15 characters or more is not terminated.  \<open>strcmp\<close> with such an array
  reads behind it when all its bytes agree.\<close>

definition nif_copy :: "u8 list \<Rightarrow> u8 list" where
  "nif_copy nm = take NIFNAMELEN (nm @ replicate NIFNAMELEN 0)"

fun same_name :: "u8 list \<Rightarrow> u8 list \<Rightarrow> bool result" where
  "same_name [] nm = Inl BadAccess"
| "same_name (b # bs) [] = Inr (b = 0)"
| "same_name (b # bs) (c # nm) = (if b = c then same_name bs nm else Inr False)"

definition nif_string :: "u8 list \<Rightarrow> u8 list result" where
  "nif_string bs = (if 0 \<in> set bs then Inr (takeWhile (\<lambda>b. b \<noteq> 0) bs) else Inl BadAccess)"

section \<open>Registration\<close>

text \<open>The place of the first element that has the event, the name, and \<open>P\<close>.\<close>

fun find_monitor :: "(monitor \<Rightarrow> bool) \<Rightarrow> u8 list \<Rightarrow> ni_event \<Rightarrow> monitor list \<Rightarrow> nat option result" where
  "find_monitor P nm ev [] = Inr None"
| "find_monitor P nm ev (m # ms) =
    then_do (if e_event m = ev then same_name (sz_NifName m) nm else Inr False) (\<lambda>b.
      if b \<and> P m then Inr (Some 0) else then_do (find_monitor P nm ev ms) (\<lambda>i. Inr (map_option Suc i)))"

definition find_monitor_item_by_evt_type :: "u8 list \<Rightarrow> ni_event \<Rightarrow> monitor list \<Rightarrow> nat option result" where
  "find_monitor_item_by_evt_type = find_monitor (\<lambda>_. True)"

definition find_inactive_monitor_item_by_evt_type :: "u8 list \<Rightarrow> ni_event \<Rightarrow> monitor list \<Rightarrow> nat option result" where
  "find_inactive_monitor_item_by_evt_type = find_monitor (\<lambda>m. \<not> fgNeedNotify m)"

text \<open>\<open>created\<close>: whether the thread can be made; \<open>mem\<close>: whether \<open>malloc\<close> succeeds.\<close>

definition c_net_ni_reg_ev_notify :: "bool \<Rightarrow> bool \<Rightarrow> u8 list \<Rightarrow> ni_event \<Rightarrow> fptr \<Rightarrow> netmon \<Rightarrow> (int \<times> netmon) result" where
  "c_net_ni_reg_ev_notify created mem nm ev fn s =
    (if \<not> nm_created s \<and> \<not> created then Inr (NET_FAILED, s)
     else let s = s\<lparr>nm_created := True\<rparr> in
       then_do (find_monitor (\<lambda>m. pf_notify m = fn) nm ev (nm_list s)) (\<lambda>i.
         if i \<noteq> None then Inr (NET_OK, s)
         else if \<not> mem then Inr (NET_NI_ALLOC_MEM_FAILED, s)
         else Inr (NET_OK, s\<lparr>nm_list := \<lparr>sz_NifName = nif_copy nm, e_event = ev, pf_notify = fn,
           fgNeedNotify = (ev \<notin> {EV_IP_ADDRESS_CHANGED, EV_ETHERNET_UNPLUG})\<rparr> # nm_list s\<rparr>)))"

definition c_net_ni_unreg_ev_notify :: "u8 list \<Rightarrow> ni_event \<Rightarrow> fptr \<Rightarrow> netmon \<Rightarrow> (int \<times> netmon) result" where
  "c_net_ni_unreg_ev_notify nm ev fn s =
    (if \<not> nm_created s then Inr (NET_OK, s)
     else then_do (find_monitor (\<lambda>m. pf_notify m = fn) nm ev (nm_list s)) (\<lambda>i. case i of
       None \<Rightarrow> Inr (NET_OK, s)
     | Some i \<Rightarrow> Inr (NET_OK, s\<lparr>nm_list := take i (nm_list s) @ drop (Suc i) (nm_list s)\<rparr>)))"

section \<open>The thread\<close>

definition set_need :: "bool \<Rightarrow> nat \<Rightarrow> monitor list \<Rightarrow> monitor list" where
  "set_need b i ms = ms[i := (ms ! i)\<lparr>fgNeedNotify := b\<rparr>]"

partial_function (option) arm_all :: "u8 list \<Rightarrow> monitor list \<Rightarrow> monitor list result option" where
  "arm_all nm ms = (case find_inactive_monitor_item_by_evt_type nm EV_ETHERNET_PLUGIN ms of
     Inl e \<Rightarrow> Some (Inl e)
   | Inr None \<Rightarrow> Some (Inr ms)
   | Inr (Some i) \<Rightarrow> arm_all nm (set_need True i ms))"

declare arm_all.simps [code]

text \<open>A call of a function is logged; a call of \<open>NULL\<close> is a bad access.\<close>

type_synonym ni_log = "(u8 list \<times> ni_event \<times> fptr) list"

definition notify :: "u8 list \<Rightarrow> monitor \<Rightarrow> ni_log \<Rightarrow> ni_log result" where
  "notify nm m log = (if pf_notify m = NULL then Inl BadAccess else Inr (log @ [(nm, e_event m, pf_notify m)]))"

text \<open>One element: \<open>flags\<close> is what \<open>ioctl\<close> says of the interface, whether it runs, or \<open>None\<close> when it fails.  The delay grows with
  every cable that is plugged.\<close>

definition monitor_item :: "bool option \<Rightarrow> nat \<Rightarrow> monitor list \<times> ni_log \<times> nat \<Rightarrow> (monitor list \<times> ni_log \<times> nat) result" where
  "monitor_item flags i = (\<lambda>(ms, log, delay).
    let m = ms ! i in
    if \<not> fgNeedNotify m then Inr (ms, log, delay)
    else case e_event m of
      EV_ETHERNET_PLUGIN \<Rightarrow>
        then_do (nif_string (sz_NifName m)) (\<lambda>nm.
          if flags \<noteq> Some True then Inr (ms, log, delay)
          else then_do (notify nm m log) (\<lambda>log.
            let ms = set_need False i ms in
            then_do (find_monitor_item_by_evt_type nm EV_ETHERNET_UNPLUG ms) (\<lambda>j. case j of
              None \<Rightarrow> Inr (ms, log, delay)
            | Some j \<Rightarrow> Inr (set_need True j ms, log, delay + 1500))))
    | EV_ETHERNET_UNPLUG \<Rightarrow>
        then_do (nif_string (sz_NifName m)) (\<lambda>nm.
          if flags \<noteq> Some False then Inr (ms, log, delay)
          else then_do (notify nm m log) (\<lambda>log.
            then_do (run_loop (arm_all nm (set_need False i ms))) (\<lambda>ms. Inr (ms, log, delay))))
    | EV_IP_ADDRESS_CHANGED \<Rightarrow>
        Inr (set_need False i ms, if pf_notify m \<noteq> NULL then log @ [(takeWhile (\<lambda>b. b \<noteq> 0) (sz_NifName m), e_event m, pf_notify m)] else log, delay)
    | EV_IP_ADDRESSv6_CHANGED \<Rightarrow>
        Inr (set_need False i ms, if pf_notify m \<noteq> NULL then log @ [(takeWhile (\<lambda>b. b \<noteq> 0) (sz_NifName m), e_event m, pf_notify m)] else log, delay)
    | _ \<Rightarrow> Inr (ms, log, delay))"

text \<open>One turn of the thread over the list; \<open>flags i\<close> is for the element \<open>i\<close>.  The results are the list, the calls and the delay
  in milliseconds.\<close>

fun monitor_turn :: "(nat \<Rightarrow> bool option) \<Rightarrow> nat list \<Rightarrow> monitor list \<times> ni_log \<times> nat \<Rightarrow> (monitor list \<times> ni_log \<times> nat) result" where
  "monitor_turn flags [] s = Inr s"
| "monitor_turn flags (i # is) s = then_do (monitor_item (flags i) i s) (monitor_turn flags is)"

definition ni_mon_thread :: "(nat \<Rightarrow> bool option) \<Rightarrow> monitor list \<Rightarrow> (monitor list \<times> ni_log \<times> nat) result" where
  "ni_mon_thread flags ms = monitor_turn flags [0..<length ms] (ms, [], 500)"

section \<open>Addresses\<close>

text \<open>\<open>c_net_ip_config\<close>: \<open>fork\<close> and \<open>wait\<close> say what became of the script, \<open>None\<close> where the process could not be made; then
  the first element for a changed address that has a function is marked, and the critical section is left in the
  loop and behind it.\<close>

definition ip_wait :: "int \<Rightarrow> int \<Rightarrow> int" where
  "ip_wait wpid st = (if wpid < 0 then 0 else st)"

definition c_net_ip_config :: "(int \<times> int) option \<Rightarrow> tid \<Rightarrow> u8 list \<Rightarrow> netmon \<times> crit \<Rightarrow> (int \<times> netmon \<times> crit) waits result" where
  "c_net_ip_config script t nm = (\<lambda>(s, c).
    case script of
      None \<Rightarrow> Inr (Returned (NET_OK, s, c))
    | Some (wpid, st) \<Rightarrow>
      if ip_wait wpid st \<noteq> 0 then Inr (Returned (NET_FAILED, s, c))
      else case u_crit_start t c of
        None \<Rightarrow> Inr Waiting
      | Some (lv, c) \<Rightarrow>
        then_do (find_monitor (\<lambda>m. pf_notify m \<noteq> NULL) nm EV_IP_ADDRESS_CHANGED (nm_list s)) (\<lambda>i.
          then_do (case i of
              None \<Rightarrow> Inr (s, c)
            | Some i \<Rightarrow> (case u_crit_end t lv c of
                None \<Rightarrow> Inl AssertFailed
              | Some c \<Rightarrow> Inr (s\<lparr>nm_list := set_need True i (nm_list s)\<rparr>, c))) (\<lambda>(s, c).
            case u_crit_end t lv c of None \<Rightarrow> Inl AssertFailed | Some c \<Rightarrow> Inr (Returned (NET_OK, s, c)))))"

text \<open>\<open>c_net_autoip_config\<close>: the address it makes of the hardware address, whose bytes are signed characters, and a random
  number, and what it returns of the script; a child that is stopped or goes on is waited for again.\<close>

definition char_shift :: "u8 \<Rightarrow> nat \<Rightarrow> u32" where
  "char_shift b n = push_bit n (word_of_int (sint b))"

definition autoip_address :: "u8 list \<Rightarrow> u32 \<Rightarrow> u32" where
  "autoip_address mac r =
    (char_shift (mac ! 2) 24 + char_shift (mac ! 3) 16 + char_shift (mac ! 4) 8 + char_shift (mac ! 5) 0 + r) mod 65024 + 2851995649"

datatype wstatus = WEXITED int | WSIGNALED int | WSTOPPED int | WCONTINUED | WOTHER int

partial_function (option) autoip_wait :: "(nat \<Rightarrow> wstatus) \<Rightarrow> nat \<Rightarrow> int option" where
  "autoip_wait w k = (case w k of
     WEXITED rc \<Rightarrow> Some rc
   | WSIGNALED sg \<Rightarrow> Some sg
   | WSTOPPED sg \<Rightarrow> autoip_wait w (k + 1)
   | WCONTINUED \<Rightarrow> autoip_wait w (k + 1)
   | WOTHER rc \<Rightarrow> Some rc)"

declare autoip_wait.simps [code]

definition c_net_autoip_config :: "int \<Rightarrow> (nat \<Rightarrow> wstatus) \<Rightarrow> int result" where
  "c_net_autoip_config pid w = (if pid < 0 then Inr (-1) else run_loop (map_option Inr (autoip_wait w 0)))"

end
