(* ===== verification/NetMonProps.thy ===== *)
theory NetMonProps
  imports NetMon
begin

text \<open>The monitor of the interfaces: the list of functions as a list of keys, and the calls as the changes of the cable.\<close>

section \<open>Lists in order\<close>

definition short :: "u8 list \<Rightarrow> bool" where
  "short nm \<longleftrightarrow> 0 \<notin> set nm \<and> length nm < NIFNAMELEN"

definition name_of :: "monitor \<Rightarrow> u8 list" where
  "name_of m = takeWhile (\<lambda>b. b \<noteq> 0) (sz_NifName m)"

definition key_of :: "monitor \<Rightarrow> u8 list \<times> ni_event \<times> fptr" where
  "key_of m = (name_of m, e_event m, pf_notify m)"

text \<open>Names are short, functions are not \<open>NULL\<close>, and no function is registered twice for the same.\<close>

definition mon_ok :: "monitor list \<Rightarrow> bool" where
  "mon_ok ms \<longleftrightarrow> (\<forall>m\<in>set ms. 0 \<in> set (sz_NifName m) \<and> pf_notify m \<noteq> NULL) \<and> distinct (map key_of ms)"

lemma same_name_ok: "0 \<in> set bs \<Longrightarrow> 0 \<notin> set nm \<Longrightarrow> same_name bs nm = Inr (takeWhile (\<lambda>b. b \<noteq> 0) bs = nm)"
  by (induction bs nm rule: same_name.induct) auto

lemma nif_string_ok: "0 \<in> set (sz_NifName m) \<Longrightarrow> nif_string (sz_NifName m) = Inr (name_of m)"
  by (simp add: nif_string_def name_of_def)

lemma nif_copy_ok: "short nm \<Longrightarrow> 0 \<in> set (nif_copy nm) \<and> takeWhile (\<lambda>b. b \<noteq> 0) (nif_copy nm) = nm"
proof -
  assume a: "short nm"
  then have "replicate (NIFNAMELEN - length nm) 0 = 0 # replicate (NIFNAMELEN - length nm - 1) (0 :: u8)"
    by (metis short_def Suc_diff_1 replicate_Suc zero_less_diff)
  moreover have "nif_copy nm = nm @ replicate (NIFNAMELEN - length nm) 0" using a by (simp add: nif_copy_def short_def)
  moreover have "takeWhile (\<lambda>b. b \<noteq> 0) (nm @ 0 # r) = nm" for r
    using a by (subst takeWhile_append2) (auto simp: short_def)
  ultimately show ?thesis by simp
qed

lemma name_no_zero: "0 \<notin> set (name_of m)"
  by (auto simp: name_of_def dest: set_takeWhileD)

text \<open>The searches, for a name without zeros.\<close>

lemma find_monitor_ok:
  assumes "\<forall>m\<in>set ms. 0 \<in> set (sz_NifName m)" "0 \<notin> set nm"
  shows "find_monitor P nm ev ms = Inr (find (\<lambda>i. e_event (ms ! i) = ev \<and> name_of (ms ! i) = nm \<and> P (ms ! i)) [0..<length ms])"
  using assms(1)
proof (induction ms)
  case (Cons m ms)
  have "find_monitor P nm ev (m # ms) = (if e_event m = ev \<and> name_of m = nm \<and> P m then Inr (Some 0)
      else Inr (map_option Suc (find (\<lambda>i. e_event (ms ! i) = ev \<and> name_of (ms ! i) = nm \<and> P (ms ! i)) [0..<length ms])))"
    using Cons same_name_ok [OF _ assms(2)] by (simp add: name_of_def)
  then show ?case by (simp add: upt_rec [of 0] find_upt_Suc comp_def del: upt_Suc)
qed simp

section \<open>Registering\<close>

lemma find_key:
  assumes "mon_ok ms" "0 \<notin> set nm"
  shows "case find (\<lambda>i. e_event (ms ! i) = ev \<and> name_of (ms ! i) = nm \<and> pf_notify (ms ! i) = fn) [0..<length ms] of
      None \<Rightarrow> (nm, ev, fn) \<notin> set (map key_of ms)
    | Some i \<Rightarrow> i < length ms \<and> key_of (ms ! i) = (nm, ev, fn)"
proof (cases "find (\<lambda>i. e_event (ms ! i) = ev \<and> name_of (ms ! i) = nm \<and> pf_notify (ms ! i) = fn) [0..<length ms]")
  case None
  then have "\<forall>i<length ms. key_of (ms ! i) \<noteq> (nm, ev, fn)" by (auto simp: find_None_iff key_of_def)
  then show ?thesis using None by (auto simp: in_set_conv_nth)
next
  case (Some i)
  then show ?thesis using find_upt_SomeD [OF Some] by (simp add: key_of_def)
qed

lemma remove_nth: "distinct xs \<Longrightarrow> i < length xs \<Longrightarrow> take i xs @ drop (Suc i) xs = remove1 (xs ! i) xs"
proof (induction xs arbitrary: i)
  case (Cons x xs)
  then show ?case by (cases i) auto
qed simp

text \<open>Registering adds the key at the front, once; unregistering takes it out; both leave the other keys as they are.  Without
  memory nothing changes and the call says so.\<close>

theorem net_mon_registry:
  assumes "mon_ok (nm_list s)" "short nm" "fn \<noteq> NULL" "nm_created s"
  shows "\<exists>r s' s''. c_net_ni_reg_ev_notify cr mem nm ev fn s = Inr (r, s') \<and> mon_ok (nm_list s') \<and>
    (if (nm, ev, fn) \<in> set (map key_of (nm_list s)) then s' = s \<and> r = NET_OK
     else if mem then map key_of (nm_list s') = (nm, ev, fn) # map key_of (nm_list s) \<and> r = NET_OK
     else s' = s \<and> r = NET_NI_ALLOC_MEM_FAILED) \<and>
    c_net_ni_unreg_ev_notify nm ev fn s = Inr (NET_OK, s'') \<and> mon_ok (nm_list s'') \<and>
    map key_of (nm_list s'') = remove1 (nm, ev, fn) (map key_of (nm_list s))"
proof -
  let ?ms = "nm_list s" and ?k = "(nm, ev, fn)"
  let ?f = "find (\<lambda>i. e_event (?ms ! i) = ev \<and> name_of (?ms ! i) = nm \<and> pf_notify (?ms ! i) = fn) [0..<length ?ms]"
  have nm: "0 \<notin> set nm" using assms(2) by (simp add: short_def)
  have f: "find_monitor (\<lambda>m. pf_notify m = fn) nm ev ?ms = Inr ?f"
    by (rule find_monitor_ok) (use assms(1) nm in \<open>auto simp: mon_ok_def\<close>)
  note k = find_key [OF assms(1) nm, of ev fn]
  show ?thesis
  proof (cases ?f)
    case None
    let ?m = "\<lparr>sz_NifName = nif_copy nm, e_event = ev, pf_notify = fn, fgNeedNotify = (ev \<notin> {EV_IP_ADDRESS_CHANGED, EV_ETHERNET_UNPLUG})\<rparr>"
    have n: "?k \<notin> set (map key_of ?ms)" using k None by simp
    have km: "key_of ?m = ?k" using nif_copy_ok [OF assms(2)] by (simp add: key_of_def name_of_def)
    have ok: "mon_ok (?m # ?ms)" using assms(1,3) n km nif_copy_ok [OF assms(2)] by (simp add: mon_ok_def)
    have reg: "c_net_ni_reg_ev_notify cr mem nm ev fn s =
        Inr (if mem then (NET_OK, s\<lparr>nm_created := True, nm_list := ?m # ?ms\<rparr>) else (NET_NI_ALLOC_MEM_FAILED, s\<lparr>nm_created := True\<rparr>))"
      using f None assms(4) by (simp add: c_net_ni_reg_ev_notify_def)
    moreover have "s\<lparr>nm_created := True\<rparr> = s" using assms(4) by simp
    moreover have "c_net_ni_unreg_ev_notify nm ev fn s = Inr (NET_OK, s)" using f None assms(4) by (simp add: c_net_ni_unreg_ev_notify_def)
    ultimately show ?thesis using n km ok assms(1) by (cases mem) (simp_all add: remove1_idem)
  next
    case (Some i)
    then have i: "i < length ?ms" "key_of (?ms ! i) = ?k" using k by simp_all
    let ?ms' = "take i ?ms @ drop (Suc i) ?ms"
    have "distinct (map key_of ?ms)" using assms(1) by (simp add: mon_ok_def)
    from remove_nth [OF this, of i] have m: "map key_of ?ms' = remove1 ?k (map key_of ?ms)" using i by (simp add: take_map drop_map)
    have "distinct (map key_of ?ms')" unfolding m using assms(1) by (simp add: mon_ok_def distinct_remove1)
    then have ok: "mon_ok ?ms'" using assms(1) by (auto simp: mon_ok_def dest: in_set_takeD in_set_dropD)
    have "?k \<in> set (map key_of ?ms)" using i by (metis nth_mem length_map nth_map)
    then show ?thesis using f Some assms(1,4) m ok by (simp add: c_net_ni_reg_ev_notify_def c_net_ni_unreg_ev_notify_def)
  qed
qed

theorem net_mon_registry_witness:
  "\<exists>r s'. c_net_ni_reg_ev_notify True True [101, 116] EV_ETHERNET_PLUGIN 7 \<lparr>nm_list = [], nm_created = True\<rparr> = Inr (r, s') \<and>
    map key_of (nm_list s') = [([101, 116], EV_ETHERNET_PLUGIN, 7)]"
proof -
  have "mon_ok (nm_list \<lparr>nm_list = [], nm_created = True\<rparr>)" "short [101, 116]" by (simp_all add: mon_ok_def short_def)
  from net_mon_registry [OF this, of 7 True True EV_ETHERNET_PLUGIN] show ?thesis by auto
qed

section \<open>The searches and the marks\<close>

definition has_event :: "u8 list \<Rightarrow> ni_event \<Rightarrow> monitor \<Rightarrow> bool" where
  "has_event nm ev m \<longleftrightarrow> e_event m = ev \<and> name_of m = nm"

lemma set_need_simps [simp]: "length (set_need b i ms) = length ms" "map key_of (set_need b i ms) = map key_of ms"
proof -
  show "map key_of (set_need b i ms) = map key_of ms"
    by (cases "i < length ms") (auto simp: set_need_def key_of_def name_of_def nth_list_update intro!: nth_equalityI)
qed (simp add: set_need_def)

lemma nth_set_need: "j < length ms \<Longrightarrow> set_need b i ms ! j = (if i = j then (ms ! j)\<lparr>fgNeedNotify := b\<rparr> else ms ! j)"
  by (auto simp: set_need_def nth_list_update)

lemma need_fields [simp]: "name_of (m\<lparr>fgNeedNotify := b\<rparr>) = name_of m" "has_event nm ev (m\<lparr>fgNeedNotify := b\<rparr>) = has_event nm ev m"
  by (simp_all add: name_of_def has_event_def)

lemma set_need_ok: "mon_ok ms \<Longrightarrow> mon_ok (set_need b i ms)"
proof -
  assume a: "mon_ok ms"
  have "\<forall>j<length (set_need b i ms). 0 \<in> set (sz_NifName (set_need b i ms ! j)) \<and> pf_notify (set_need b i ms ! j) \<noteq> NULL"
    using a nth_mem [of _ ms] by (simp add: mon_ok_def nth_set_need)
  then have "\<forall>m\<in>set (set_need b i ms). 0 \<in> set (sz_NifName m) \<and> pf_notify m \<noteq> NULL" unfolding all_set_conv_all_nth .
  moreover have "distinct (map key_of (set_need b i ms))" unfolding set_need_simps using a by (simp add: mon_ok_def)
  ultimately show ?thesis unfolding mon_ok_def ..
qed

text \<open>Marking again all that wait for the cable to be plugged in.\<close>

definition arm :: "u8 list \<Rightarrow> monitor \<Rightarrow> monitor" where
  "arm nm m = (if has_event nm EV_ETHERNET_PLUGIN m then m\<lparr>fgNeedNotify := True\<rparr> else m)"

lemma arm_set_need: "i < length ms \<Longrightarrow> has_event nm EV_ETHERNET_PLUGIN (ms ! i) \<Longrightarrow> map (arm nm) (set_need True i ms) = map (arm nm) ms"
  by (rule nth_equalityI) (auto simp: nth_set_need arm_def)

lemma arm_all_ok:
  assumes "mon_ok ms" "0 \<notin> set nm"
  shows "arm_all nm ms = Some (Inr (map (arm nm) ms))"
  using assms(1)
proof (induction "length (filter (\<lambda>m. has_event nm EV_ETHERNET_PLUGIN m \<and> \<not> fgNeedNotify m) ms)" arbitrary: ms rule: less_induct)
  case less
  let ?P = "\<lambda>m. has_event nm EV_ETHERNET_PLUGIN m \<and> \<not> fgNeedNotify m"
  let ?f = "find (\<lambda>i. e_event (ms ! i) = EV_ETHERNET_PLUGIN \<and> name_of (ms ! i) = nm \<and> \<not> fgNeedNotify (ms ! i)) [0..<length ms]"
  have f: "find_inactive_monitor_item_by_evt_type nm EV_ETHERNET_PLUGIN ms = Inr ?f"
    unfolding find_inactive_monitor_item_by_evt_type_def by (rule find_monitor_ok) (use less.prems assms(2) in \<open>auto simp: mon_ok_def\<close>)
  show ?case
  proof (cases ?f)
    case None
    then have "\<forall>i<length ms. \<not> ?P (ms ! i)" by (auto simp: find_None_iff has_event_def)
    then have "map (arm nm) ms = ms" by (intro nth_equalityI) (auto simp: arm_def)
    then show ?thesis using f None by (subst arm_all.simps) simp
  next
    case (Some i)
    have i: "i < length ms" "?P (ms ! i)" using find_upt_SomeD [OF Some] by (simp_all add: has_event_def)
    have "filter ?P (set_need True i ms) = filter ?P (take i ms) @ filter ?P (drop (Suc i) ms)"
      using i by (simp add: set_need_def upd_conv_take_nth_drop)
    moreover have "filter ?P ms = filter ?P (take i ms) @ ms ! i # filter ?P (drop (Suc i) ms)"
      using i by (subst id_take_nth_drop [OF i(1)]) simp
    ultimately have "length (filter ?P (set_need True i ms)) < length (filter ?P ms)" by simp
    from less.hyps [OF this set_need_ok [OF less.prems]] arm_set_need [OF i(1)] i(2)
    have "arm_all nm (set_need True i ms) = Some (Inr (map (arm nm) ms))" by simp
    then show ?thesis using f Some by (subst arm_all.simps) simp
  qed
qed

lemma key_arm [simp]: "key_of (arm nm m) = key_of m" "key_of \<circ> arm nm = key_of"
  by (auto simp: arm_def key_of_def name_of_def fun_eq_iff)

lemma arm_mon_ok: "mon_ok ms \<Longrightarrow> mon_ok (map (arm nm) ms)"
  by (auto simp: mon_ok_def arm_def)

text \<open>The first element that waits for the cable to be unplugged.\<close>

definition unplug_of :: "u8 list \<Rightarrow> monitor list \<Rightarrow> nat option" where
  "unplug_of nm ms = find (\<lambda>i. has_event nm EV_ETHERNET_UNPLUG (ms ! i)) [0..<length ms]"

text \<open>What a turn does with one element when all is in order.\<close>

lemma monitor_item_ok:
  assumes "mon_ok ms" "i < length ms"
  shows "monitor_item fl i (ms, log, d) = Inr (
    let m = ms ! i; nm = name_of m; call = log @ [key_of m] in
    if \<not> fgNeedNotify m then (ms, log, d)
    else if e_event m = EV_ETHERNET_PLUGIN \<and> fl = Some True then
      (case unplug_of nm ms of None \<Rightarrow> (set_need False i ms, call, d) | Some j \<Rightarrow> (set_need True j (set_need False i ms), call, d + 1500))
    else if e_event m = EV_ETHERNET_UNPLUG \<and> fl = Some False then (map (arm nm) (set_need False i ms), call, d)
    else if e_event m \<in> {EV_IP_ADDRESS_CHANGED, EV_IP_ADDRESSv6_CHANGED} then (set_need False i ms, call, d)
    else (ms, log, d))"
proof -
  let ?m = "ms ! i" let ?ms = "set_need False i ms"
  have m: "0 \<in> set (sz_NifName ?m)" "pf_notify ?m \<noteq> NULL" using assms nth_mem [OF assms(2)] by (auto simp: mon_ok_def)
  have ok: "mon_ok ?ms" by (rule set_need_ok [OF assms(1)])
  have n: "notify (name_of ?m) ?m log = Inr (log @ [key_of ?m])" using m(2) by (simp add: notify_def key_of_def)
  have "find_monitor_item_by_evt_type (name_of ?m) EV_ETHERNET_UNPLUG ?ms = Inr (unplug_of (name_of ?m) ?ms)"
    using find_monitor_ok [of ?ms "name_of ?m" "\<lambda>_. True" EV_ETHERNET_UNPLUG] ok name_no_zero
    by (simp add: find_monitor_item_by_evt_type_def unplug_of_def has_event_def mon_ok_def)
  moreover have "unplug_of (name_of ?m) ?ms = unplug_of (name_of ?m) ms"
    unfolding unplug_of_def set_need_simps by (rule find_cong) (auto simp: nth_set_need)
  moreover have "run_loop (arm_all (name_of ?m) ?ms) = Inr (map (arm (name_of ?m)) ?ms)" using arm_all_ok [OF ok name_no_zero] by simp
  ultimately show ?thesis using nif_string_ok [OF m(1)] n m(2)
    by (cases "e_event ?m") (auto simp: monitor_item_def Let_def key_of_def name_of_def [symmetric] split: option.split)
qed

lemma monitor_item_keeps:
  assumes "mon_ok ms" "i < length ms" "monitor_item fl i (ms, log, d) = Inr (ms', log', d')"
  shows "mon_ok ms' \<and> map key_of ms' = map key_of ms"
  using assms(3) unfolding monitor_item_ok [OF assms(1,2)] using assms(1)
  by (auto simp: Let_def set_need_ok arm_mon_ok split: if_splits option.splits)

section \<open>Calls and changes of the cable\<close>

text \<open>Turns one after the other; \<open>l nm\<close> is what a turn finds out of the interface \<open>nm\<close>.\<close>

fun mon_run :: "(u8 list \<Rightarrow> bool option) list \<Rightarrow> monitor list \<Rightarrow> (monitor list \<times> ni_log) result" where
  "mon_run [] ms = Inr (ms, [])"
| "mon_run (l # ls) ms =
    then_do (ni_mon_thread (\<lambda>i. l (name_of (ms ! i))) ms) (\<lambda>(ms, log, d). then_do (mon_run ls ms) (\<lambda>(ms, log'). Inr (ms, log @ log')))"

text \<open>The changes in a sequence of states of a cable, some of them unknown.\<close>

fun edges :: "bool \<Rightarrow> bool option list \<Rightarrow> bool list" where
  "edges up [] = []"
| "edges up (None # bs) = edges up bs"
| "edges up (Some b # bs) = (if b = up then edges up bs else b # edges b bs)"

definition calls :: "u8 list \<Rightarrow> ni_log \<Rightarrow> ni_log" where
  "calls nm log = filter (\<lambda>(n, ev, fn). n = nm \<and> ev \<in> {EV_ETHERNET_PLUGIN, EV_ETHERNET_UNPLUG}) log"

text \<open>One function waits for the cable of \<open>nm\<close> to be plugged in and one for it to be unplugged, and just one of the two is
  marked.\<close>

definition watches :: "u8 list \<Rightarrow> fptr \<Rightarrow> fptr \<Rightarrow> nat \<Rightarrow> nat \<Rightarrow> bool \<Rightarrow> monitor list \<Rightarrow> bool" where
  "watches nm f g p q up ms \<longleftrightarrow> mon_ok ms \<and> p < length ms \<and> q < length ms \<and>
     key_of (ms ! p) = (nm, EV_ETHERNET_PLUGIN, f) \<and> key_of (ms ! q) = (nm, EV_ETHERNET_UNPLUG, g) \<and>
     (\<forall>j<length ms. has_event nm EV_ETHERNET_PLUGIN (ms ! j) \<longrightarrow> j = p) \<and> (\<forall>j<length ms. has_event nm EV_ETHERNET_UNPLUG (ms ! j) \<longrightarrow> j = q) \<and>
     fgNeedNotify (ms ! p) = (\<not> up) \<and> fgNeedNotify (ms ! q) = up"

lemma watches_frame:
  assumes "watches nm f g p q up ms" "mon_ok ms'" "map key_of ms' = map key_of ms" "fgNeedNotify (ms' ! p) = (\<not> up')" "fgNeedNotify (ms' ! q) = up'"
  shows "watches nm f g p q up' ms'"
proof -
  have l: "length ms' = length ms" using assms(3) by (metis length_map)
  have k: "key_of (ms' ! j) = key_of (ms ! j)" if "j < length ms" for j using assms(3) l that by (metis nth_map)
  then have "has_event nm ev (ms' ! j) = has_event nm ev (ms ! j)" if "j < length ms" for j ev
    using that by (simp add: has_event_def key_of_def)
  then show ?thesis using assms(1,2,4,5) k l by (simp add: watches_def)
qed

lemma unplug_watched: "watches nm f g p q up ms \<Longrightarrow> unplug_of nm ms = Some q"
proof (cases "unplug_of nm ms")
  case None
  assume "watches nm f g p q up ms"
  with None show ?thesis by (auto simp: unplug_of_def find_None_iff watches_def has_event_def key_of_def)
next
  case (Some j)
  assume "watches nm f g p q up ms"
  with find_upt_SomeD [OF Some [unfolded unplug_of_def]] Some show ?thesis by (simp add: watches_def)
qed

lemma unplug_other: "unplug_of n ms = Some j \<Longrightarrow> j < length ms \<and> name_of (ms ! j) = n \<and> e_event (ms ! j) = EV_ETHERNET_UNPLUG"
  unfolding unplug_of_def by (drule find_upt_SomeD) (simp add: has_event_def)

lemma need_arm: "fgNeedNotify (arm n m) = (has_event n EV_ETHERNET_PLUGIN m \<or> fgNeedNotify m)"
  by (simp add: arm_def)

lemma calls_append: "calls nm (log @ [(n, ev, fn)]) = calls nm log @ (if n = nm \<and> ev \<in> {EV_ETHERNET_PLUGIN, EV_ETHERNET_UNPLUG} then [(n, ev, fn)] else [])"
  by (simp add: calls_def)

lemma watch_item:
  assumes w: "watches nm f g p q up ms" and i: "i < length ms"
  shows "\<exists>ms' log' d'. monitor_item (link (name_of (ms ! i))) i (ms, log, d) = Inr (ms', log', d') \<and> map key_of ms' = map key_of ms \<and>
    (if i = p \<and> link nm = Some True \<and> \<not> up then watches nm f g p q True ms' \<and> calls nm log' = calls nm log @ [(nm, EV_ETHERNET_PLUGIN, f)]
     else if i = q \<and> link nm = Some False \<and> up then watches nm f g p q False ms' \<and> calls nm log' = calls nm log @ [(nm, EV_ETHERNET_UNPLUG, g)]
     else watches nm f g p q up ms' \<and> calls nm log' = calls nm log)"
proof -
  let ?n = "name_of (ms ! i)" and ?fl = "link (name_of (ms ! i))"
  have W: "mon_ok ms" "p < length ms" "q < length ms" "name_of (ms ! p) = nm" "e_event (ms ! p) = EV_ETHERNET_PLUGIN" "pf_notify (ms ! p) = f"
    "name_of (ms ! q) = nm" "e_event (ms ! q) = EV_ETHERNET_UNPLUG" "pf_notify (ms ! q) = g" "fgNeedNotify (ms ! p) = (\<not> up)" "fgNeedNotify (ms ! q) = up"
    using w by (auto simp: watches_def key_of_def)
  have only: "?n = nm \<Longrightarrow> e_event (ms ! i) = EV_ETHERNET_PLUGIN \<Longrightarrow> i = p" "?n = nm \<Longrightarrow> e_event (ms ! i) = EV_ETHERNET_UNPLUG \<Longrightarrow> i = q"
    using w i by (auto simp: watches_def has_event_def)
  have pq: "p \<noteq> q" using W(5,8) by auto
  obtain ms' log' d' where r: "monitor_item ?fl i (ms, log, d) = Inr (ms', log', d')" by (metis monitor_item_ok [OF W(1) i] prod.exhaust)
  note keep = monitor_item_keeps [OF W(1) i r]
  have val: "(ms', log', d') = (if \<not> fgNeedNotify (ms ! i) then (ms, log, d)
    else if e_event (ms ! i) = EV_ETHERNET_PLUGIN \<and> ?fl = Some True then
      (case unplug_of ?n ms of None \<Rightarrow> (set_need False i ms, log @ [key_of (ms ! i)], d)
       | Some j \<Rightarrow> (set_need True j (set_need False i ms), log @ [key_of (ms ! i)], d + 1500))
    else if e_event (ms ! i) = EV_ETHERNET_UNPLUG \<and> ?fl = Some False then (map (arm ?n) (set_need False i ms), log @ [key_of (ms ! i)], d)
    else if e_event (ms ! i) \<in> {EV_IP_ADDRESS_CHANGED, EV_IP_ADDRESSv6_CHANGED} then (set_need False i ms, log @ [key_of (ms ! i)], d)
    else (ms, log, d))"
    using r unfolding monitor_item_ok [OF W(1) i] by (simp add: Let_def)
  have frame: "fgNeedNotify (ms' ! p) = (\<not> up') \<Longrightarrow> fgNeedNotify (ms' ! q) = up' \<Longrightarrow> watches nm f g p q up' ms'" for up'
    using watches_frame [OF w] keep by blast
  consider (plug) "i = p" "link nm = Some True" "\<not> up" | (unplug) "i = q" "link nm = Some False" "up"
    | (other) "\<not> (i = p \<and> link nm = Some True \<and> \<not> up)" "\<not> (i = q \<and> link nm = Some False \<and> up)" by blast
  then show ?thesis
  proof cases
    case plug
    then have "ms' = set_need True q (set_need False p ms)" "log' = log @ [(nm, EV_ETHERNET_PLUGIN, f)]"
      using val W unplug_watched [OF w] by (simp_all add: key_of_def)
    moreover from this have "watches nm f g p q True ms'" using W(2,3) pq by (intro frame) (simp_all add: nth_set_need)
    ultimately show ?thesis using plug r keep by (auto simp: calls_append)
  next
    case unplug
    then have "ms' = map (arm nm) (set_need False q ms)" "log' = log @ [(nm, EV_ETHERNET_UNPLUG, g)]"
      using val W by (simp_all add: key_of_def)
    moreover from this have "watches nm f g p q False ms'" using W(2-5,7,8) pq
      by (intro frame) (simp_all add: nth_set_need need_arm has_event_def)
    ultimately show ?thesis using unplug pq r keep by (auto simp: calls_append)
  next
    case other
    have "fgNeedNotify (ms' ! p) = (\<not> up) \<and> fgNeedNotify (ms' ! q) = up \<and> calls nm log' = calls nm log"
    proof (cases "i \<in> {p, q}")
      case True
      then show ?thesis using val W other by (auto split: if_splits)
    next
      case False
      then have "?n = nm \<Longrightarrow> e_event (ms ! i) \<notin> {EV_ETHERNET_PLUGIN, EV_ETHERNET_UNPLUG}" using only by auto
      then show ?thesis using val W False i
        by (auto simp: nth_set_need need_arm has_event_def calls_append key_of_def split: if_splits option.splits dest!: unplug_other)
    qed
    then show ?thesis using other r keep frame by auto
  qed
qed

lemma names_of_keys: "map key_of ms' = map key_of ms \<Longrightarrow> i < length ms \<Longrightarrow> length ms' = length ms \<and> name_of (ms' ! i) = name_of (ms ! i)"
proof -
  assume a: "map key_of ms' = map key_of ms" "i < length ms"
  then have "length ms' = length ms" by (metis length_map)
  moreover from this have "key_of (ms' ! i) = key_of (ms ! i)" using a by (metis nth_map)
  ultimately show ?thesis by (simp add: key_of_def)
qed

text \<open>What the elements that have been looked at make of the two marks.\<close>

definition cable :: "nat \<Rightarrow> nat \<Rightarrow> bool option \<Rightarrow> nat list \<Rightarrow> bool \<Rightarrow> bool \<times> bool list" where
  "cable p q l is up = (if p \<in> set is \<and> l = Some True \<and> \<not> up then (True, [True])
     else if q \<in> set is \<and> l = Some False \<and> up then (False, [False]) else (up, []))"

abbreviation event_call :: "u8 list \<Rightarrow> fptr \<Rightarrow> fptr \<Rightarrow> bool \<Rightarrow> u8 list \<times> ni_event \<times> fptr" where
  "event_call nm f g b \<equiv> if b then (nm, EV_ETHERNET_PLUGIN, f) else (nm, EV_ETHERNET_UNPLUG, g)"

lemma watch_turn:
  assumes "watches nm f g p q up ms" "\<forall>i\<in>set is. i < length ms" "map key_of ms0 = map key_of ms"
  shows "\<exists>ms' log' d'. monitor_turn (\<lambda>i. link (name_of (ms0 ! i))) is (ms, log, d) = Inr (ms', log', d') \<and> map key_of ms' = map key_of ms \<and>
    watches nm f g p q (fst (cable p q (link nm) is up)) ms' \<and> calls nm log' = calls nm log @ map (event_call nm f g) (snd (cable p q (link nm) is up))"
  using assms
proof (induction "is" arbitrary: up ms log d)
  case Nil
  then show ?case by (simp add: cable_def)
next
  case (Cons i "is")
  have pq: "p \<noteq> q" using Cons.prems(1) by (auto simp: watches_def key_of_def)
  have i: "i < length ms" using Cons.prems(2) by simp
  have n: "name_of (ms0 ! i) = name_of (ms ! i)" using names_of_keys [OF Cons.prems(3) i] by simp
  obtain ms1 log1 d1 where r: "monitor_item (link (name_of (ms ! i))) i (ms, log, d) = Inr (ms1, log1, d1)" "map key_of ms1 = map key_of ms"
    "if i = p \<and> link nm = Some True \<and> \<not> up then watches nm f g p q True ms1 \<and> calls nm log1 = calls nm log @ [(nm, EV_ETHERNET_PLUGIN, f)]
     else if i = q \<and> link nm = Some False \<and> up then watches nm f g p q False ms1 \<and> calls nm log1 = calls nm log @ [(nm, EV_ETHERNET_UNPLUG, g)]
     else watches nm f g p q up ms1 \<and> calls nm log1 = calls nm log"
    using watch_item [OF Cons.prems(1) i, of link log d] by blast
  have l: "\<forall>i\<in>set is. i < length ms1" using Cons.prems(2) names_of_keys [OF r(2) i] by simp
  have k: "map key_of ms0 = map key_of ms1" using Cons.prems(3) r(2) by simp
  define up1 where "up1 = fst (cable p q (link nm) [i] up)"
  have w1: "watches nm f g p q up1 ms1" "calls nm log1 = calls nm log @ map (event_call nm f g) (snd (cable p q (link nm) [i] up))"
    using r(3) by (auto simp: up1_def cable_def split: if_splits)
  have "cable p q (link nm) (i # is) up = (fst (cable p q (link nm) is up1), snd (cable p q (link nm) [i] up) @ snd (cable p q (link nm) is up1))"
    unfolding up1_def by (auto simp: cable_def pq)
  then show ?case using Cons.IH [OF w1(1) l k, of log1 d1] r(1,2) w1(2) n by auto
qed

lemma watch_run:
  "watches nm f g p q up ms \<Longrightarrow> \<exists>ms' log. mon_run links ms = Inr (ms', log) \<and> calls nm log = map (event_call nm f g) (edges up (map (\<lambda>l. l nm) links))"
proof (induction links arbitrary: up ms)
  case Nil
  then show ?case by (simp add: calls_def)
next
  case (Cons l links)
  have pq: "p < length ms" "q < length ms" using Cons.prems by (simp_all add: watches_def)
  obtain ms1 log1 d1 where r: "ni_mon_thread (\<lambda>i. l (name_of (ms ! i))) ms = Inr (ms1, log1, d1)"
    "watches nm f g p q (fst (cable p q (l nm) [0..<length ms] up)) ms1" "calls nm log1 = map (event_call nm f g) (snd (cable p q (l nm) [0..<length ms] up))"
    using watch_turn [OF Cons.prems, of "[0..<length ms]" ms l "[]" 500] by (auto simp: ni_mon_thread_def calls_def)
  obtain ms2 log2 where r2: "mon_run links ms1 = Inr (ms2, log2)"
    "calls nm log2 = map (event_call nm f g) (edges (fst (cable p q (l nm) [0..<length ms] up)) (map (\<lambda>l. l nm) links))"
    using Cons.IH [OF r(2)] by blast
  have "edges up (l nm # ls) = snd (cable p q (l nm) [0..<length ms] up) @ edges (fst (cable p q (l nm) [0..<length ms] up)) ls" for ls
    using pq by (cases "l nm") (auto simp: cable_def)
  then show ?case using r(1,3) r2 by (auto simp: calls_def)
qed

lemma reg_front:
  assumes "c_net_ni_reg_ev_notify cr True nm ev fn s = Inr (NET_OK, s')" "mon_ok (nm_list s)" "0 \<notin> set nm"
    "\<forall>m\<in>set (nm_list s). \<not> has_event nm ev m"
  shows "nm_list s' = \<lparr>sz_NifName = nif_copy nm, e_event = ev, pf_notify = fn, fgNeedNotify = (ev \<notin> {EV_IP_ADDRESS_CHANGED, EV_ETHERNET_UNPLUG})\<rparr> # nm_list s"
proof -
  let ?f = "find (\<lambda>i. e_event (nm_list s ! i) = ev \<and> name_of (nm_list s ! i) = nm \<and> pf_notify (nm_list s ! i) = fn) [0..<length (nm_list s)]"
  have "?f = None" using assms(4) by (auto simp: find_None_iff has_event_def)
  moreover have "find_monitor (\<lambda>m. pf_notify m = fn) nm ev (nm_list s) = Inr ?f"
    by (rule find_monitor_ok) (use assms(2,3) in \<open>auto simp: mon_ok_def\<close>)
  ultimately show ?thesis using assms(1) by (auto simp: c_net_ni_reg_ev_notify_def Let_def split: if_splits)
qed

text \<open>Both functions are registered before the next turn of the thread.\<close>

lemma watch_registered:
  assumes "c_net_ni_reg_ev_notify cr True nm EV_ETHERNET_PLUGIN f s = Inr (NET_OK, s1)"
    "c_net_ni_reg_ev_notify cr' True nm EV_ETHERNET_UNPLUG g s1 = Inr (NET_OK, s2)" "short nm" "f \<noteq> NULL" "g \<noteq> NULL" "mon_ok (nm_list s)"
    "\<forall>m\<in>set (nm_list s). \<not> has_event nm EV_ETHERNET_PLUGIN m \<and> \<not> has_event nm EV_ETHERNET_UNPLUG m"
  shows "watches nm f g 1 0 False (nm_list s2)"
proof -
  let ?m = "\<lambda>ev fn b. \<lparr>sz_NifName = nif_copy nm, e_event = ev, pf_notify = fn, fgNeedNotify = b\<rparr>"
  have nm: "0 \<notin> set nm" "name_of (?m ev fn b) = nm" "0 \<in> set (nif_copy nm)" for ev fn b
    using assms(3) nif_copy_ok [OF assms(3)] by (simp_all add: short_def name_of_def)
  have s1: "nm_list s1 = ?m EV_ETHERNET_PLUGIN f True # nm_list s"
    using reg_front [OF assms(1,6) nm(1)] assms(7) by simp
  have k: "key_of m = (nm, ev, fn) \<Longrightarrow> has_event nm ev m" for m ev fn by (simp add: key_of_def has_event_def)
  have ok1: "mon_ok (nm_list s1)" using assms(4,6,7) nm k by (auto simp: s1 mon_ok_def key_of_def has_event_def)
  have n1: "\<forall>m\<in>set (nm_list s1). \<not> has_event nm EV_ETHERNET_UNPLUG m" using assms(7) by (auto simp: s1 has_event_def)
  then have s2: "nm_list s2 = ?m EV_ETHERNET_UNPLUG g False # nm_list s1" using reg_front [OF assms(2) ok1 nm(1)] by simp
  have ok2: "mon_ok (nm_list s2)" using assms(5) ok1 n1 nm by (auto simp: s2 mon_ok_def key_of_def has_event_def)
  have "j = 1" if "j < length (nm_list s2)" "has_event nm EV_ETHERNET_PLUGIN (nm_list s2 ! j)" for j
    using that assms(7) by (auto simp: s1 s2 has_event_def nth_Cons split: nat.splits)
  moreover have "j = 0" if "j < length (nm_list s2)" "has_event nm EV_ETHERNET_UNPLUG (nm_list s2 ! j)" for j
    using that n1 by (auto simp: s2 has_event_def nth_Cons split: nat.splits)
  ultimately show ?thesis using ok2 nm by (auto simp: watches_def s1 s2 key_of_def)
qed

text \<open>C26 When a function for a plugged and one for an unplugged cable are registered for an interface that has none, both before
  the thread takes its next turn, the calls are just the changes of the cable that the turns find, from an unplugged one on:
  none is lost, none is made twice, whatever other functions are registered.\<close>

theorem net_mon_edges:
  assumes "c_net_ni_reg_ev_notify cr True nm EV_ETHERNET_PLUGIN f s = Inr (NET_OK, s1)"
    "c_net_ni_reg_ev_notify cr' True nm EV_ETHERNET_UNPLUG g s1 = Inr (NET_OK, s2)" "short nm" "f \<noteq> NULL" "g \<noteq> NULL" "mon_ok (nm_list s)"
    "\<forall>m\<in>set (nm_list s). \<not> has_event nm EV_ETHERNET_PLUGIN m \<and> \<not> has_event nm EV_ETHERNET_UNPLUG m"
  shows "\<exists>ms' log. mon_run links (nm_list s2) = Inr (ms', log) \<and>
    calls nm log = map (\<lambda>b. if b then (nm, EV_ETHERNET_PLUGIN, f) else (nm, EV_ETHERNET_UNPLUG, g)) (edges False (map (\<lambda>l. l nm) links))"
  using watch_run [OF watch_registered [OF assms]] .

theorem net_mon_edges_witness:
  "\<exists>s1 s2 ms log. c_net_ni_reg_ev_notify True True [101] EV_ETHERNET_PLUGIN 7 netmon_init = Inr (NET_OK, s1) \<and>
    c_net_ni_reg_ev_notify True True [101] EV_ETHERNET_UNPLUG 8 s1 = Inr (NET_OK, s2) \<and>
    mon_run [\<lambda>_. Some False, \<lambda>_. Some True, \<lambda>_. None, \<lambda>_. Some True, \<lambda>_. Some False] (nm_list s2) = Inr (ms, log) \<and>
    calls [101] log = [([101], EV_ETHERNET_PLUGIN, 7), ([101], EV_ETHERNET_UNPLUG, 8)]"
proof -
  obtain s1 where r: "c_net_ni_reg_ev_notify True True [101] EV_ETHERNET_PLUGIN 7 netmon_init = Inr (NET_OK, s1)" "nm_list s1 = [\<lparr>sz_NifName = nif_copy [101],
      e_event = EV_ETHERNET_PLUGIN, pf_notify = 7, fgNeedNotify = True\<rparr>]"
    by (simp add: c_net_ni_reg_ev_notify_def netmon_init_def)
  moreover obtain s2 where r': "c_net_ni_reg_ev_notify True True [101] EV_ETHERNET_UNPLUG 8 s1 = Inr (NET_OK, s2)"
    using r(2) by (simp add: c_net_ni_reg_ev_notify_def)
  ultimately show ?thesis
    using net_mon_edges [OF r(1) r', of "[\<lambda>_. Some False, \<lambda>_. Some True, \<lambda>_. None, \<lambda>_. Some True, \<lambda>_. Some False]"]
    by (auto simp: short_def netmon_init_def mon_ok_def)
qed

text \<open>When the function for the plugged cable is called before the other one is registered, neither of the two is marked, and
  no call ever comes.\<close>

lemma unmarked_turn: "(\<forall>m\<in>set ms. \<not> fgNeedNotify m) \<Longrightarrow> set is \<subseteq> {..<length ms} \<Longrightarrow> monitor_turn fl is (ms, log, d) = Inr (ms, log, d)"
  by (induction "is") (simp_all add: monitor_item_def Let_def)

lemma unmarked_run: "(\<forall>m\<in>set ms. \<not> fgNeedNotify m) \<Longrightarrow> mon_run links ms = Inr (ms, [])"
proof (induction links)
  case (Cons l links)
  have "ni_mon_thread (\<lambda>i. l (name_of (ms ! i))) ms = Inr (ms, [], 500)"
    unfolding ni_mon_thread_def by (rule unmarked_turn [OF Cons.prems]) auto
  with Cons show ?case by simp
qed simp

theorem net_mon_late_unplug:
  "\<exists>s1 ms s2. c_net_ni_reg_ev_notify True True [101] EV_ETHERNET_PLUGIN 7 netmon_init = Inr (NET_OK, s1) \<and>
    ni_mon_thread (\<lambda>_. Some True) (nm_list s1) = Inr (ms, [([101], EV_ETHERNET_PLUGIN, 7)], 500) \<and>
    c_net_ni_reg_ev_notify True True [101] EV_ETHERNET_UNPLUG 8 (s1\<lparr>nm_list := ms\<rparr>) = Inr (NET_OK, s2) \<and>
    (\<forall>links. mon_run links (nm_list s2) = Inr (nm_list s2, []))"
proof -
  let ?m = "\<lambda>ev fn b. \<lparr>sz_NifName = nif_copy [101], e_event = ev, pf_notify = fn, fgNeedNotify = b\<rparr>"
  have n: "nif_copy [101] = 101 # replicate 14 0" by (simp add: nif_copy_def numeral_eq_Suc)
  let ?s1 = "\<lparr>nm_list = [?m EV_ETHERNET_PLUGIN 7 True], nm_created = True\<rparr>" and ?ms = "[?m EV_ETHERNET_PLUGIN 7 False]"
  let ?s2 = "\<lparr>nm_list = [?m EV_ETHERNET_UNPLUG 8 False, ?m EV_ETHERNET_PLUGIN 7 False], nm_created = True\<rparr>"
  have "c_net_ni_reg_ev_notify True True [101] EV_ETHERNET_PLUGIN 7 netmon_init = Inr (NET_OK, ?s1)"
    by (simp add: c_net_ni_reg_ev_notify_def netmon_init_def)
  moreover have "ni_mon_thread (\<lambda>_. Some True) (nm_list ?s1) = Inr (?ms, [([101], EV_ETHERNET_PLUGIN, 7)], 500)"
    by (simp add: ni_mon_thread_def monitor_item_def n nif_string_def notify_def set_need_def find_monitor_item_by_evt_type_def)
  moreover have "c_net_ni_reg_ev_notify True True [101] EV_ETHERNET_UNPLUG 8 (?s1\<lparr>nm_list := ?ms\<rparr>) = Inr (NET_OK, ?s2)"
    by (simp add: c_net_ni_reg_ev_notify_def)
  moreover have "mon_run links (nm_list ?s2) = Inr (nm_list ?s2, [])" for links by (rule unmarked_run) simp
  ultimately show ?thesis by blast
qed

section \<open>A second function for an unplugged cable\<close>

definition left_out :: "nat \<Rightarrow> monitor list \<Rightarrow> bool" where
  "left_out q ms \<longleftrightarrow> mon_ok ms \<and> q < length ms \<and> e_event (ms ! q) = EV_ETHERNET_UNPLUG \<and> \<not> fgNeedNotify (ms ! q) \<and>
     (\<exists>j<q. has_event (name_of (ms ! q)) EV_ETHERNET_UNPLUG (ms ! j))"

lemma unplug_not_left_out: "left_out q ms \<Longrightarrow> unplug_of n ms \<noteq> Some q"
proof
  assume a: "left_out q ms" "unplug_of n ms = Some q"
  then have n: "name_of (ms ! q) = n" using unplug_other by blast
  have f: "find (\<lambda>i. has_event n EV_ETHERNET_UNPLUG (ms ! i)) [0..<length ms] = Some q" using a(2) by (simp add: unplug_of_def)
  then obtain i where i: "i < length ms" "[0..<length ms] ! i = q" "\<forall>j<i. \<not> has_event n EV_ETHERNET_UNPLUG (ms ! ([0..<length ms] ! j))"
    by (auto simp: find_Some_iff)
  then have "\<forall>j<q. \<not> has_event n EV_ETHERNET_UNPLUG (ms ! j)" by simp
  then show False using a(1) n by (auto simp: left_out_def)
qed

lemma left_out_item:
  assumes "left_out q ms" "i < length ms" "monitor_item fl i (ms, log, d) = Inr (ms', log', d')" "key_of (ms ! q) \<notin> set log"
  shows "left_out q ms' \<and> map key_of ms' = map key_of ms \<and> key_of (ms ! q) \<notin> set log'"
proof -
  have L: "mon_ok ms" "q < length ms" "e_event (ms ! q) = EV_ETHERNET_UNPLUG" "\<not> fgNeedNotify (ms ! q)" using assms(1) by (simp_all add: left_out_def)
  note keep = monitor_item_keeps [OF L(1) assms(2,3)]
  have l: "length ms' = length ms" using keep by (metis length_map)
  have k: "key_of (ms' ! j) = key_of (ms ! j)" if "j < length ms" for j using keep l that by (metis nth_map)
  have "distinct (map key_of ms)" using L(1) by (simp add: mon_ok_def)
  then have ne: "key_of (ms ! i) = key_of (ms ! q) \<Longrightarrow> i = q" using assms(2) L(2) by (auto simp: distinct_conv_nth)
  have "\<not> fgNeedNotify (ms' ! q) \<and> key_of (ms ! q) \<notin> set log'"
  proof (cases "i = q")
    case True
    then have "ms' = ms \<and> log' = log" using assms(3) L(4) unfolding monitor_item_ok [OF L(1) assms(2)] by simp
    then show ?thesis using L(4) assms(4) by simp
  next
    case False
    then have k: "key_of (ms ! q) \<notin> set (log @ [key_of (ms ! i)])" using ne assms(4) by auto
    note u = unplug_not_left_out [OF assms(1), of "name_of (ms ! i)"]
    have "ms' \<in> {ms, set_need False i ms, map (arm (name_of (ms ! i))) (set_need False i ms)} \<union> {set_need True j (set_need False i ms) | j. j \<noteq> q}"
      "log' \<in> {log, log @ [key_of (ms ! i)]}"
      using assms(3) u unfolding monitor_item_ok [OF L(1) assms(2)] by (auto simp: Let_def split: if_splits option.splits)
    then show ?thesis using k assms(4) L(2-4) False by (auto simp: nth_set_need need_arm has_event_def)
  qed
  moreover have "has_event (name_of (ms' ! q)) EV_ETHERNET_UNPLUG (ms' ! j) = has_event (name_of (ms ! q)) EV_ETHERNET_UNPLUG (ms ! j)" if "j < q" for j
    using k [of j] k [of q] that L(2) by (simp add: has_event_def key_of_def)
  ultimately show ?thesis using assms(1) keep l k [of q] by (auto simp: left_out_def key_of_def)
qed

lemma left_out_turn:
  assumes "left_out q ms" "\<forall>i\<in>set is. i < length ms" "key_of (ms ! q) \<notin> set log"
  shows "\<exists>ms' log' d'. monitor_turn flags is (ms, log, d) = Inr (ms', log', d') \<and> left_out q ms' \<and> key_of (ms' ! q) = key_of (ms ! q) \<and>
    key_of (ms ! q) \<notin> set log'"
  using assms
proof (induction "is" arbitrary: ms log d)
  case (Cons i "is")
  have i: "i < length ms" "mon_ok ms" "q < length ms" using Cons.prems by (simp_all add: left_out_def)
  obtain ms1 log1 d1 where r: "monitor_item (flags i) i (ms, log, d) = Inr (ms1, log1, d1)" by (metis monitor_item_ok [OF i(2,1)] prod.exhaust)
  note k = left_out_item [OF Cons.prems(1) i(1) r Cons.prems(3)]
  then have l: "length ms1 = length ms" by (metis length_map)
  then have kq: "key_of (ms1 ! q) = key_of (ms ! q)" using k i(3) by (metis nth_map)
  have "left_out q ms1" "\<forall>i\<in>set is. i < length ms1" "key_of (ms1 ! q) \<notin> set log1" using k kq l Cons.prems(2) by simp_all
  from Cons.IH [OF this, of d1] show ?case using r kq by auto
qed simp

text \<open>When a cable is plugged in, only the first function for its being unplugged is marked.  A second one for the same
  interface, the one that was registered earlier, is never called.\<close>

theorem net_mon_second_unplug:
  assumes "left_out q ms"
  shows "\<exists>ms' log. mon_run links ms = Inr (ms', log) \<and> key_of (ms ! q) \<notin> set log"
  using assms
proof (induction links arbitrary: ms)
  case (Cons l links)
  obtain ms1 log1 d1 where r: "ni_mon_thread (\<lambda>i. l (name_of (ms ! i))) ms = Inr (ms1, log1, d1)" "left_out q ms1"
    "key_of (ms1 ! q) = key_of (ms ! q)" "key_of (ms ! q) \<notin> set log1"
    using left_out_turn [OF Cons.prems, of "[0..<length ms]" "[]" "\<lambda>i. l (name_of (ms ! i))" 500] by (auto simp: ni_mon_thread_def)
  then show ?case using Cons.IH [OF r(2)] by auto
qed simp

theorem net_mon_second_unplug_witness:
  "\<exists>r s r' s' ms log. c_net_ni_reg_ev_notify True True [101] EV_ETHERNET_UNPLUG 7 netmon_init = Inr (r, s) \<and>
    c_net_ni_reg_ev_notify True True [101] EV_ETHERNET_UNPLUG 8 s = Inr (r', s') \<and>
    mon_run [\<lambda>_. Some True, \<lambda>_. Some False] (nm_list s') = Inr (ms, log) \<and> ([101], EV_ETHERNET_UNPLUG, 7) \<notin> set log"
proof -
  let ?m = "\<lambda>fn. \<lparr>sz_NifName = nif_copy [101], e_event = EV_ETHERNET_UNPLUG, pf_notify = fn, fgNeedNotify = False\<rparr>"
  have n: "0 \<in> set (nif_copy [101])" "takeWhile (\<lambda>b. b \<noteq> 0) (nif_copy [101]) = [101 :: u8]"
    using nif_copy_ok [of "[101]"] by (simp_all add: short_def)
  obtain r s where r: "c_net_ni_reg_ev_notify True True [101] EV_ETHERNET_UNPLUG 7 netmon_init = Inr (r, s)" "nm_list s = [?m 7]"
    by (simp add: c_net_ni_reg_ev_notify_def netmon_init_def)
  moreover obtain r' s' where r': "c_net_ni_reg_ev_notify True True [101] EV_ETHERNET_UNPLUG 8 s = Inr (r', s')" "nm_list s' = [?m 8, ?m 7]"
    using r(2) same_name_ok [OF n(1), of "[101]"] by (simp add: c_net_ni_reg_ev_notify_def n(2))
  have k: "key_of (?m fn) = ([101], EV_ETHERNET_UNPLUG, fn)" "name_of (?m fn) = [101]" for fn using n(2) by (simp_all add: key_of_def name_of_def)
  have "left_out 1 (nm_list s')" using n(1) k by (auto simp: r'(2) left_out_def mon_ok_def has_event_def less_Suc_eq)
  from net_mon_second_unplug [OF this, of "[\<lambda>_. Some True, \<lambda>_. Some False]"] k(1) r(1) r' show ?thesis by auto
qed

section \<open>Configuring an address\<close>

lemma end_twice: "u_crit_end t lv c = Some c' \<Longrightarrow> u_crit_end t lv c' = None"
  by (auto simp: u_crit_end_def end_count_def end_unlock_def Let_def split: option.splits if_splits)

text \<open>C32 When a function waits for the address of the interface to change, the configuration of an address leaves the critical
  section twice, in the loop and behind it, and the second time an assertion fails, whether or not the caller is inside
  already; otherwise it succeeds.\<close>

theorem net_ip_config_outcomes:
  assumes "mon_ok (nm_list s)" "0 \<notin> set nm" "u_crit_start t c = Some (lv, c1)" "u_crit_end t lv c1 = Some c2" "0 \<le> wpid"
  shows "c_net_ip_config (Some (wpid, 0)) t nm (s, c) =
    (if \<exists>m\<in>set (nm_list s). has_event nm EV_IP_ADDRESS_CHANGED m then Inl AssertFailed else Inr (Returned (NET_OK, s, c2)))"
proof -
  let ?ms = "nm_list s"
  let ?f = "find (\<lambda>i. e_event (?ms ! i) = EV_IP_ADDRESS_CHANGED \<and> name_of (?ms ! i) = nm \<and> pf_notify (?ms ! i) \<noteq> NULL) [0..<length ?ms]"
  have f: "find_monitor (\<lambda>m. pf_notify m \<noteq> NULL) nm EV_IP_ADDRESS_CHANGED ?ms = Inr ?f"
    by (rule find_monitor_ok) (use assms(1,2) in \<open>auto simp: mon_ok_def\<close>)
  have "pf_notify (?ms ! i) \<noteq> NULL" if "i < length ?ms" for i using assms(1) nth_mem [OF that] by (simp add: mon_ok_def)
  then have "(e_event (?ms ! i) = EV_IP_ADDRESS_CHANGED \<and> name_of (?ms ! i) = nm \<and> pf_notify (?ms ! i) \<noteq> NULL) =
      has_event nm EV_IP_ADDRESS_CHANGED (?ms ! i)" if "i < length ?ms" for i using that by (auto simp: has_event_def)
  then have "?f = None \<longleftrightarrow> (\<forall>i<length ?ms. \<not> has_event nm EV_IP_ADDRESS_CHANGED (?ms ! i))"
    unfolding find_None_iff by (metis atLeastLessThan_iff set_upt zero_le)
  also have "\<dots> \<longleftrightarrow> \<not> (\<exists>m\<in>set ?ms. has_event nm EV_IP_ADDRESS_CHANGED m)" by (metis in_set_conv_nth)
  finally have "?f = None \<longleftrightarrow> \<not> (\<exists>m\<in>set ?ms. has_event nm EV_IP_ADDRESS_CHANGED m)" .
  then show ?thesis using f assms(3-5) end_twice [OF assms(4)] by (cases ?f) (auto simp: c_net_ip_config_def ip_wait_def)
qed

theorem net_ip_config_outcomes_witness:
  "\<exists>r s. c_net_ni_reg_ev_notify True True [101] EV_IP_ADDRESS_CHANGED 7 netmon_init = Inr (r, s) \<and>
    c_net_ip_config (Some (5, 0)) 1 [101] (s, s_crit) = Inl AssertFailed"
proof -
  let ?m = "\<lparr>sz_NifName = nif_copy [101], e_event = EV_IP_ADDRESS_CHANGED, pf_notify = 7, fgNeedNotify = False\<rparr>"
  have n: "0 \<in> set (nif_copy [101])" "takeWhile (\<lambda>b. b \<noteq> 0) (nif_copy [101]) = [101 :: u8]"
    using nif_copy_ok [of "[101]"] by (simp_all add: short_def)
  obtain r s where r: "c_net_ni_reg_ev_notify True True [101] EV_IP_ADDRESS_CHANGED 7 netmon_init = Inr (r, s)" "nm_list s = [?m]"
    by (simp add: c_net_ni_reg_ev_notify_def netmon_init_def)
  have ok: "mon_ok (nm_list s)" "has_event [101] EV_IP_ADDRESS_CHANGED ?m" using n by (simp_all add: r(2) mon_ok_def has_event_def name_of_def)
  obtain lv c1 c2 where c: "u_crit_start 1 s_crit = Some (lv, c1)" "u_crit_end 1 lv c1 = Some c2"
    by (simp add: u_crit_start_def s_crit_def start_test_def start_lock_def start_own_def raise_count_def u_crit_end_def end_count_def Let_def)
  from net_ip_config_outcomes [OF ok(1) _ c, of "[101]" 5] r ok(2) show ?thesis by auto
qed

text \<open>The address that is made of the hardware address is a link-local one.\<close>

lemma autoip_link_local: "2851995649 \<le> unat (autoip_address mac r) \<and> unat (autoip_address mac r) \<le> 2852060672"
proof -
  let ?x = "char_shift (mac ! 2) 24 + char_shift (mac ! 3) 16 + char_shift (mac ! 4) 8 + char_shift (mac ! 5) 0 + r"
  have "unat (?x mod 65024) = unat ?x mod 65024" by (simp add: unat_mod)
  then have "unat (?x mod 65024) < 65024" by simp
  moreover from this have "unat (?x mod 65024 + 2851995649) = unat (?x mod 65024) + 2851995649" by (subst unat_add_lem [THEN iffD1]) simp_all
  ultimately show ?thesis by (simp add: autoip_address_def)
qed

end
