(* ===== verification/NetUtil.thy ===== *)
theory NetUtil
  imports NetMon
begin

text \<open>Computations of mw/linux_c_api/c_mt_lx_net_cfg.c on bytes: the checksum of packets, the search for the packet that wakes
  the device, the hardware address in the answer of a command, and what addresses of version 6 say of themselves.\<close>

section \<open>The checksum\<close>

text \<open>\<open>i2sum\<close> is a signed integer; the half words are read as they are in memory, the low byte first.\<close>

fun sum_words :: "u8 list \<Rightarrow> u32 \<Rightarrow> u32" where
  "sum_words (a # b # bs) s = sum_words bs (s + (ucast a + push_bit 8 (ucast b)))"
| "sum_words [a] s = s + ucast a"
| "sum_words [] s = s"

definition ping_chksum :: "u8 list \<Rightarrow> u16" where
  "ping_chksum buf =
    (let s = sum_words buf 0;
         s = signed_drop_bit 16 s + (s AND 65535);
         s = s + signed_drop_bit 16 s
     in ucast (NOT s))"

text \<open>An integer in memory, and the checksum of the pseudo header of version 6.\<close>

definition int_bytes :: "u32 \<Rightarrow> u8 list" where
  "int_bytes v = [ucast v, ucast (drop_bit 8 v), ucast (drop_bit 16 v), ucast (drop_bit 24 v)]"

definition csum_ipv6_header :: "u8 list \<Rightarrow> u8 list \<Rightarrow> u32 \<Rightarrow> u32 \<Rightarrow> u16" where
  "csum_ipv6_header src dst len nexthdr = ping_chksum (take 16 src @ take 16 dst @ int_bytes len @ int_bytes nexthdr)"

section \<open>Wake on LAN\<close>

abbreviation (input) MAGIC_SIZE :: nat where "MAGIC_SIZE \<equiv> 96"

text \<open>\<open>mpm->mac1\<close> to \<open>mpm->mac16\<close>, where the structure begins at \<open>p\<close>: the first is compared with the address of the
  interface, the others with the first.\<close>

definition mpm_mac :: "u8 list \<Rightarrow> nat \<Rightarrow> nat \<Rightarrow> u8 list" where
  "mpm_mac packet p k = take 6 (drop (p + 6 * (k - 1)) packet)"

definition mpm_match :: "u8 list \<Rightarrow> u8 list \<Rightarrow> nat \<Rightarrow> bool" where
  "mpm_match packet mac p \<longleftrightarrow> mpm_mac packet p 1 = mac \<and> (\<forall>k\<in>set [2..<17]. mpm_mac packet p 1 = mpm_mac packet p k)"

text \<open>The loop over a packet of which \<open>n\<close> bytes have come: \<open>i\<close> is a signed integer, which the loop takes back by 5, and \<open>counter\<close>
  the number of bytes \<open>0xFF\<close> before it.  The results are whether the packet wakes the device, and the counter, which the
  next packet begins with.\<close>

function scan_packet :: "u8 list \<Rightarrow> u8 list \<Rightarrow> nat \<Rightarrow> int \<Rightarrow> nat \<Rightarrow> (bool \<times> nat) result" where
  "scan_packet packet mac n i counter =
    (if \<not> i < int n - int MAGIC_SIZE then Inr (False, counter)
     else if i < 0 \<or> int (length packet) \<le> i then Inl BadAccess
     else let counter = (if packet ! nat i = 0xFF then counter + 1 else 0) in
       if counter = 6 then
         if mpm_match packet mac (nat i + 1) then Inr (True, 0) else scan_packet packet mac n (i - 5 + 1) 0
       else scan_packet packet mac n (i + 1) counter)"
  by pat_completeness auto

text \<open>The place where the run of bytes \<open>0xFF\<close> begins never moves back.\<close>

termination
  by (relation "measures [\<lambda>(packet, mac, n, i, counter). nat (int n - (i - int counter)), \<lambda>(packet, mac, n, i, counter). nat (int n - i)]")
    (auto simp: Let_def split: if_splits)

declare scan_packet.simps [simp del]

text \<open>A packet in the buffer: one that is for another device is not looked at.\<close>

definition wol_packet :: "u8 list \<Rightarrow> u8 list \<Rightarrow> nat \<Rightarrow> nat \<Rightarrow> (bool \<times> nat) result" where
  "wol_packet packet mac n counter =
    (if take 6 packet \<noteq> mac \<and> take 6 packet \<noteq> replicate 6 0xFF then Inr (False, counter) else scan_packet packet mac n 0 counter)"

text \<open>What \<open>recvfrom\<close> does to the buffer of 1500 bytes.\<close>

definition receive :: "u8 list \<Rightarrow> u8 list \<Rightarrow> u8 list" where
  "receive bytes packet = take 1500 bytes @ drop (length (take 1500 bytes)) packet"

text \<open>The loop of the thread over what comes in, each time with the address the interface has then; the flag goes down after these.
  \<open>None\<close> stands for a second without a packet, and for a failed call.  The result is whether the device was woken.\<close>

fun wol_loop :: "(u8 list option \<times> u8 list) list \<Rightarrow> u8 list \<Rightarrow> nat \<Rightarrow> bool result" where
  "wol_loop [] packet counter = Inr False"
| "wol_loop ((None, mac) # rs) packet counter = wol_loop rs packet counter"
| "wol_loop ((Some bytes, mac) # rs) packet counter =
    (let packet = receive bytes packet in
     then_do (wol_packet packet mac (length (take 1500 bytes)) counter) (\<lambda>(woken, counter).
       if woken then Inr True else wol_loop rs packet counter))"

definition magic_packet_monitor_thread :: "(u8 list option \<times> u8 list) list \<Rightarrow> bool result" where
  "magic_packet_monitor_thread rs = wol_loop rs (replicate 1500 0) 0"

section \<open>The hardware address for an address\<close>

text \<open>A \<open>CHAR\<close> is signed.\<close>

definition hex2int :: "u8 \<Rightarrow> int" where
  "hex2int c =
    (if 48 \<le> sint c \<and> sint c \<le> 57 then sint c - 48
     else if 97 \<le> sint c \<and> sint c \<le> 102 then sint c - 97 + 10
     else if 65 \<le> sint c \<and> sint c \<le> 70 then sint c - 65 + 10
     else -1)"

definition mac_byte :: "nat \<Rightarrow> u8 \<Rightarrow> u8 \<Rightarrow> u8" where
  "mac_byte idx m0 m1 = word_of_int (if idx = 1 then hex2int m0 else hex2int m0 * 16 + hex2int m1)"

text \<open>The loop over the 20 bytes: \<open>start_cp\<close>, \<open>idx\<close>, \<open>mac[0]\<close> and \<open>mac[1]\<close>, and what has been written at \<open>mac_ptr\<close>.\<close>

fun arp_text :: "u8 list \<Rightarrow> bool \<Rightarrow> nat \<Rightarrow> u8 \<Rightarrow> u8 \<Rightarrow> u8 list \<Rightarrow> (int \<times> bool \<times> u8 list)" where
  "arp_text [] cp idx m0 m1 out = (NET_OK, cp, out)"
| "arp_text (c # cs) cp idx m0 m1 out =
    (if c = 91 then arp_text cs True idx m0 m1 out
     else if c = 93 then (NET_OK, cp, out @ [mac_byte idx m0 m1])
     else if c = 58 then arp_text cs cp 0 m0 m1 (out @ [mac_byte idx m0 m1])
     else if cp then
       if idx > 1 then (NET_FAILED, cp, out)
       else if idx = 0 then arp_text cs cp 1 c m1 out
       else arp_text cs cp 2 m0 c out
     else arp_text cs cp idx m0 m1 out)"

text \<open>\<open>st1\<close> and \<open>st2\<close> are the results of the two commands, \<open>file\<close> the first word of the file, if it can be opened.\<close>

definition arp_search_mac_by_ip :: "int \<Rightarrow> int \<Rightarrow> u8 list option \<Rightarrow> int \<times> u8 list" where
  "arp_search_mac_by_ip st1 st2 file =
    (if st1 = 0 then (NET_FAILED, [])
     else if st2 \<noteq> 0 then (NET_FAILED, [])
     else case file of
       None \<Rightarrow> (NET_FAILED, [])
     | Some w \<Rightarrow>
       (case arp_text (take 20 (take 19 w @ replicate 20 0)) False 0 0 0 [] of (r, cp, out) \<Rightarrow>
         if r \<noteq> NET_OK then (NET_FAILED, out) else if \<not> cp then (NET_FAILED, out) else (NET_OK, out)))"

section \<open>Addresses of version 6\<close>

abbreviation (input) NET_IP_TYPE_UNKNOWN :: u32 where "NET_IP_TYPE_UNKNOWN \<equiv> 0"
abbreviation (input) NET_IP_TYPE_V6_UNSPEC :: u32 where "NET_IP_TYPE_V6_UNSPEC \<equiv> 0x1"
abbreviation (input) NET_IP_TYPE_V6_LOOPBACK :: u32 where "NET_IP_TYPE_V6_LOOPBACK \<equiv> 0x2"
abbreviation (input) NET_IP_TYPE_V6_MULTICAST :: u32 where "NET_IP_TYPE_V6_MULTICAST \<equiv> 0x4"
abbreviation (input) NET_IP_TYPE_V6_LINKLOCAL :: u32 where "NET_IP_TYPE_V6_LINKLOCAL \<equiv> 0x8"
abbreviation (input) NET_IP_TYPE_V6_SITELOCAL :: u32 where "NET_IP_TYPE_V6_SITELOCAL \<equiv> 0x10"
abbreviation (input) NET_IP_TYPE_V6_GLOBAL_PERNAMENT :: u32 where "NET_IP_TYPE_V6_GLOBAL_PERNAMENT \<equiv> 0x20"
abbreviation (input) NET_IP_TYPE_V6_GLOBAL_TEMP :: u32 where "NET_IP_TYPE_V6_GLOBAL_TEMP \<equiv> 0x40"
abbreviation (input) NET_IP_TYPE_V6_GLOBAL_DYNAMIC :: u32 where "NET_IP_TYPE_V6_GLOBAL_DYNAMIC \<equiv> 0x80"
abbreviation (input) NET_IP_TYPE_V6_GLOBAL :: u32 where "NET_IP_TYPE_V6_GLOBAL \<equiv> 0xE0"
abbreviation (input) NET_IP_TYPE_V6_UNIQUE :: u32 where "NET_IP_TYPE_V6_UNIQUE \<equiv> 0x100"

definition net_ip_scope_v6 :: "string option \<Rightarrow> u32" where
  "net_ip_scope_v6 ip_in = (case ip_in of
     None \<Rightarrow> NET_IP_TYPE_UNKNOWN
   | Some ip \<Rightarrow>
     if CHR '':'' \<notin> set ip then NET_IP_TYPE_UNKNOWN
     else if ip = ''::'' then NET_IP_TYPE_V6_UNSPEC
     else if ip = ''::1'' then NET_IP_TYPE_V6_LOOPBACK
     else if strneq 1 ip ''2'' \<or> strneq 1 ip ''3'' then NET_IP_TYPE_V6_GLOBAL
     else if strneq 4 ip ''ff00'' then NET_IP_TYPE_V6_MULTICAST
     else if strneq 4 ip ''fe80'' then NET_IP_TYPE_V6_LINKLOCAL
     else if strneq 4 ip ''fec0'' then NET_IP_TYPE_V6_SITELOCAL
     else if strneq 2 ip ''fc'' \<or> strneq 2 ip ''fd'' then NET_IP_TYPE_V6_UNIQUE
     else NET_IP_TYPE_UNKNOWN)"

text \<open>\<open>IFA_F_PERMANENT\<close> and \<open>IFA_F_SECONDARY\<close> are flags of the kernel.\<close>

definition net_ip_type_v6 :: "u32 \<Rightarrow> u32 \<Rightarrow> u32" where
  "net_ip_type_v6 scope ifa_flags =
    (if scope \<noteq> NET_IP_TYPE_V6_GLOBAL then scope
     else if ifa_flags AND 0x80 \<noteq> 0 then NET_IP_TYPE_V6_GLOBAL_PERNAMENT
     else if ifa_flags AND 0x01 \<noteq> 0 then NET_IP_TYPE_V6_GLOBAL_TEMP
     else NET_IP_TYPE_V6_GLOBAL_DYNAMIC)"

text \<open>\<open>pton\<close> is the result of \<open>inet_pton\<close>.\<close>

definition c_net_IsValidIpv6Ip :: "(string \<Rightarrow> int) \<Rightarrow> string \<Rightarrow> int" where
  "c_net_IsValidIpv6Ip pton ip =
    (if pton ip = 0 then 0
     else if net_ip_scope_v6 (Some ip) = NET_IP_TYPE_V6_UNIQUE \<or> net_ip_scope_v6 (Some ip) = NET_IP_TYPE_V6_GLOBAL then 1
     else 0)"

text \<open>The length of a prefix: \<open>ch\<close> is a signed character, which the loop halves while it is even; the loop ends at the latest
  when the prefix is 0, as \<open>idx\<close> is 0 then.\<close>

fun mask_loop :: "u8 list \<Rightarrow> nat \<Rightarrow> nat \<Rightarrow> int \<Rightarrow> nat" where
  "mask_loop m 0 idx ch = 0"
| "mask_loop m (Suc prefix) idx ch =
    (if ch mod 2 \<noteq> 0 then Suc prefix
     else let ch = ch div 2 in
       if prefix mod 8 = 0 then
         if idx = 0 then prefix else mask_loop m prefix (idx - 1) (sint (m ! (idx - 1)))
       else mask_loop m prefix idx ch)"

definition mask2prefix_v6 :: "u8 list \<Rightarrow> nat" where
  "mask2prefix_v6 m = mask_loop m 128 15 (sint (m ! 15))"

end
