(* ===== verification/NetUtilProps.thy ===== *)
theory NetUtilProps
  imports NetUtil
begin

text \<open>The checksum detects changes, the search finds the packet that wakes the device and no other, and what is read from
  text is what has been written.\<close>

section \<open>The checksum\<close>

fun words :: "u8 list \<Rightarrow> nat" where
  "words (a # b # bs) = unat a + 256 * unat b + words bs"
| "words [a] = unat a"
| "words [] = 0"

definition fold16 :: "nat \<Rightarrow> nat" where
  "fold16 n = (if n = 0 then 0 else (n - 1) mod 65535 + 1)"

lemma unat_u8: "unat (a :: u8) < 256"
  using unsigned_less [of a] by simp

lemma words_bound: "words bs \<le> 65535 * ((length bs + 1) div 2)"
proof (induction bs rule: words.induct)
  case (1 a b bs)
  then show ?case using unat_u8 [of a] unat_u8 [of b] by simp
next
  case (2 a)
  then show ?case using unat_u8 [of a] by simp
qed simp

lemma word_u32: "unat (ucast a + push_bit 8 (ucast b) :: u32) = unat (a :: u8) + 256 * unat (b :: u8)"
proof -
  have "unat a < 256" "unat b < 256" by (rule unat_u8)+
  then show ?thesis by (simp add: push_bit_eq_mult unat_word_ariths unat_ucast_up)
qed

lemma sum_words_unat: "unat s + words bs < 2147483648 \<Longrightarrow> unat (sum_words bs s) = unat s + words bs"
proof (induction bs s rule: sum_words.induct)
  case (1 a b bs s)
  then have "unat (s + (ucast a + push_bit 8 (ucast b))) = unat s + (unat a + 256 * unat b)"
    unfolding word_u32 [symmetric] by (subst unat_add_lem [THEN iffD1]) (simp_all add: word_u32)
  then show ?case using 1 by simp
next
  case (2 a s)
  then show ?case by (subst sum_words.simps, subst unat_add_lem [THEN iffD1]) (simp_all add: unat_ucast_up)
qed simp

lemma sdrop16: "unat (s :: u32) < 2147483648 \<Longrightarrow> unat (signed_drop_bit 16 s) = unat s div 65536"
proof -
  assume "unat s < 2147483648"
  then have "\<not> bit (unat s) 31" by (simp add: bit_iff_odd)
  then have "\<not> bit s 31" by (simp add: bit_unsigned_iff)
  then have "signed_drop_bit 16 s = drop_bit 16 s"
    by (intro bit_word_eqI) (auto simp: bit_signed_drop_bit_iff bit_drop_bit_eq dest!: bit_imp_le_length)
  then show ?thesis by (simp add: drop_bit_eq_div unat_div)
qed

lemma low16: "unat (s AND 65535 :: u32) = unat s mod 65536"
proof -
  have "s AND 65535 = take_bit 16 s" by (simp add: take_bit_eq_mask mask_eq_exp_minus_1)
  then show ?thesis by (simp add: take_bit_eq_mod unat_mod)
qed

lemma not_low16: "unat (ucast (NOT x) :: u16) = 65535 - unat (x :: u32) mod 65536"
proof -
  have "(ucast (NOT x) :: u16) = NOT (ucast x)" by (intro bit_word_eqI) (auto simp: bit_simps)
  moreover have "NOT (ucast x :: u16) = - 1 - ucast x" by (simp add: not_eq_complement)
  moreover have "unat (- 1 - ucast x :: u16) = unat (- 1 :: u16) - unat (ucast x :: u16)" by (rule unat_sub) simp
  moreover have "unat (- 1 :: u16) = 65535" by (simp add: unsigned_minus_1_eq_mask mask_eq_exp_minus_1)
  ultimately have "unat (ucast (NOT x) :: u16) = 65535 - unat (ucast x :: u16)" by metis
  then show ?thesis by (simp add: unsigned_ucast_eq take_bit_eq_mod)
qed

lemma fold16_add: "0 < T \<Longrightarrow> fold16 (65535 * q + T) = fold16 T"
proof -
  assume "0 < T"
  moreover then have "65535 * q + T - 1 = (T - 1) + q * 65535" by linarith
  then have "(65535 * q + T - 1) mod 65535 = (T - 1) mod 65535" by (metis mod_mult_self1)
  ultimately show ?thesis by (simp add: fold16_def)
qed

lemma fold16_small: "T \<le> 98302 \<Longrightarrow> (T + T div 65536) mod 65536 = fold16 T"
proof (cases "T < 65536")
  case False
  assume "T \<le> 98302"
  with False have "T div 65536 = 1" "(T + 1) mod 65536 = T + 1 - 65536" "(T - 1) mod 65535 = T - 1 - 65535" "T \<noteq> 0"
    by (simp_all add: div_if mod_if)
  then show ?thesis using False unfolding fold16_def by simp
qed (auto simp: fold16_def)

lemma fold16_halves:
  assumes "T = S div 65536 + S mod 65536" "T \<le> 98302"
  shows "(T + T div 65536) mod 65536 = fold16 S"
proof -
  obtain q r where S: "S = 65536 * q + r" "S div 65536 = q" "S mod 65536 = r" by (metis mult_div_mod_eq)
  show ?thesis
  proof (cases "T = 0")
    case False
    have "S = 65535 * q + T" using S assms(1) by linarith
    then show ?thesis using fold16_add False fold16_small [OF assms(2)] by simp
  qed (use S assms(1) in \<open>simp add: fold16_def\<close>)
qed

lemma chksum_fold:
  assumes "length buf \<le> 65536"
  shows "unat (ping_chksum buf) = 65535 - fold16 (words buf)"
proof -
  let ?s = "sum_words buf 0"
  have w: "words buf \<le> 65535 * 32768" using words_bound [of buf] assms by (simp add: order_trans)
  then have s: "unat ?s = words buf" using sum_words_unat [of 0 buf] by simp
  define t where "t = signed_drop_bit 16 ?s + (?s AND 65535)"
  have t: "unat t = words buf div 65536 + words buf mod 65536"
    unfolding t_def using w by (subst unat_add_lem [THEN iffD1]) (simp_all add: sdrop16 low16 s)
  moreover have T: "words buf div 65536 + words buf mod 65536 \<le> 98302"
  proof -
    have "words buf div 65536 \<le> 2147450880 div 65536" by (rule div_le_mono) (use w in simp)
    then show ?thesis using mod_less_divisor [of 65536 "words buf"] by simp
  qed
  ultimately have "unat (t + signed_drop_bit 16 t) = unat t + unat t div 65536"
    by (subst unat_add_lem [THEN iffD1]) (simp_all add: sdrop16)
  then have "unat (t + signed_drop_bit 16 t) mod 65536 = fold16 (words buf)" using fold16_halves [OF t] T t by simp
  then show ?thesis by (simp add: ping_chksum_def Let_def not_low16 flip: t_def)
qed

text \<open>The checksum is 0 just when the sum is a positive multiple of 65535.\<close>

lemma chksum_0:
  assumes "length buf \<le> 65536"
  shows "ping_chksum buf = 0 \<longleftrightarrow> 0 < words buf \<and> words buf mod 65535 = 0"
proof -
  have "fold16 (words buf) \<le> 65535" by (auto simp: fold16_def Suc_le_eq)
  then have "ping_chksum buf = 0 \<longleftrightarrow> fold16 (words buf) = 65535"
    using chksum_fold [OF assms] by (metis diff_is_0_eq' diff_diff_cancel unat_eq_zero diff_zero)
  also have "\<dots> \<longleftrightarrow> 0 < words buf \<and> words buf mod 65535 = 0"
    by (cases "words buf") (auto simp: fold16_def mod_Suc)
  finally show ?thesis .
qed

lemma words_append: "even (length as) \<Longrightarrow> words (as @ bs) = words as + words bs"
  by (induction as rule: words.induct) auto

lemma words_insert: "words (as @ b # bs) = words (as @ 0 # bs) + (if even (length as) then unat b else 256 * unat b)"
proof (induction as rule: words.induct)
  case (2 a)
  then show ?case by (cases bs) auto
next
  case 3
  then show ?case by (cases bs) auto
qed auto

definition chk_bytes :: "u16 \<Rightarrow> u8 list" where
  "chk_bytes c = [ucast c, ucast (drop_bit 8 c)]"

lemma words_chk: "words (chk_bytes c @ bs) = unat c + words bs"
proof -
  have "unat (ucast c :: u8) + 256 * unat (ucast (drop_bit 8 c) :: u8) = unat c"
  proof -
    have "unat c < 65536" using unsigned_less [of c] by simp
    then have "unat c div 256 < 256" by (simp add: less_mult_imp_div_less)
    then show ?thesis by (simp add: unsigned_ucast_eq take_bit_eq_mod drop_bit_eq_div unat_div)
  qed
  then show ?thesis by (simp add: chk_bytes_def)
qed

lemma fold16_opposite: "0 < S + (65535 - fold16 S) \<and> (S + (65535 - fold16 S)) mod 65535 = 0"
proof (cases "S = 0")
  case False
  then obtain n where n: "S = Suc n" by (cases S) auto
  have "n = 65535 * (n div 65535) + n mod 65535" by simp
  moreover have "fold16 S = n mod 65535 + 1" "n mod 65535 < 65535" using n by (simp_all add: fold16_def)
  ultimately have "S + (65535 - fold16 S) = 65535 * (n div 65535) + 65535" using n by linarith
  then show ?thesis using n by simp
qed (simp add: fold16_def)

lemma mod_near: "(w + x) mod n = 0 \<Longrightarrow> (w + y) mod n = 0 \<Longrightarrow> x < n \<Longrightarrow> y < n \<Longrightarrow> x = (y :: nat)"
proof -
  assume a: "(w + x) mod n = 0" "(w + y) mod n = 0" "x < n" "y < n"
  then have "n dvd x - y" "n dvd y - x" by (metis add_diff_cancel_left dvd_diff_nat mod_0_imp_dvd)+
  moreover have "x - y < n" "y - x < n" using a by linarith+
  ultimately show "x = y" by (metis diffs0_imp_equal dvd_imp_le gr0I not_le)
qed

text \<open>C29 Where the checksum is put in the place that was zero, the checksum of the whole is 0, and the change of any one byte
  makes it something else.\<close>

theorem net_chksum_detects:
  assumes "even (length pre)" "length pre + 2 + length post \<le> 65536"
    "p = pre @ chk_bytes (ping_chksum (pre @ [0, 0] @ post)) @ post"
  shows "ping_chksum p = 0 \<and> (\<forall>i<length p. \<forall>b. b \<noteq> p ! i \<longrightarrow> ping_chksum (p[i := b]) \<noteq> 0)"
proof
  have l: "length p \<le> 65536" using assms(2,3) by (simp add: chk_bytes_def)
  let ?S = "words pre + words post"
  have "words (pre @ [0, 0] @ post) = ?S" using assms(1) by (simp add: words_append)
  then have "unat (ping_chksum (pre @ [0, 0] @ post)) = 65535 - fold16 ?S" using chksum_fold [of "pre @ [0, 0] @ post"] assms(2) by simp
  then have "words p = ?S + (65535 - fold16 ?S)" using assms(1,3) by (simp add: words_append words_chk)
  then show z: "ping_chksum p = 0" using fold16_opposite [of ?S] chksum_0 [OF l] by simp
  show "\<forall>i<length p. \<forall>b. b \<noteq> p ! i \<longrightarrow> ping_chksum (p[i := b]) \<noteq> 0"
  proof (intro allI impI notI)
    fix i b assume i: "i < length p" "b \<noteq> p ! i" "ping_chksum (p[i := b]) = 0"
    have p: "p = take i p @ p ! i # drop (Suc i) p" "p[i := b] = take i p @ b # drop (Suc i) p"
      using i(1) by (simp_all add: id_take_nth_drop upd_conv_take_nth_drop)
    define k where "k = (if even i then 1 else 256 :: nat)"
    define w where "w = words (take i p @ 0 # drop (Suc i) p)"
    have a: "words p = w + k * unat (p ! i)" "words (p[i := b]) = w + k * unat b"
      using words_insert [of "take i p" "p ! i" "drop (Suc i) p"] words_insert [of "take i p" b "drop (Suc i) p"] i(1) p
      unfolding k_def w_def by simp_all
    have m: "(w + k * unat (p ! i)) mod 65535 = 0" "(w + k * unat b) mod 65535 = 0"
      using z i(3) chksum_0 [OF l] chksum_0 [of "p[i := b]"] l a by simp_all
    have "unat b \<noteq> unat (p ! i)" using i(2) by (simp add: word_unat_eq_iff)
    moreover have "unat b < 256" "unat (p ! i) < 256" by (rule unat_u8)+
    ultimately show False using mod_near [OF m] by (cases "even i") (simp_all add: k_def)
  qed
qed

theorem net_chksum_detects_witness:
  "ping_chksum ([8, 0] @ chk_bytes (ping_chksum ([8, 0] @ [0, 0] @ [1, 2, 3])) @ [1, 2, 3]) = 0 \<and>
    ping_chksum (([8, 0] @ chk_bytes (ping_chksum ([8, 0] @ [0, 0] @ [1, 2, 3])) @ [1, 2, 3])[0 := 9]) \<noteq> 0"
proof -
  define p :: "u8 list" where "p = [8, 0] @ chk_bytes (ping_chksum ([8, 0] @ [0, 0] @ [1, 2, 3])) @ [1, 2, 3]"
  have "ping_chksum p = 0 \<and> (\<forall>i<length p. \<forall>b. b \<noteq> p ! i \<longrightarrow> ping_chksum (p[i := b]) \<noteq> 0)"
    by (rule net_chksum_detects [of "[8, 0]" "[1, 2, 3]"]) (simp_all add: p_def)
  moreover have "0 < length p" "9 \<noteq> p ! 0" by (simp_all add: p_def)
  ultimately show ?thesis unfolding p_def by blast
qed

section \<open>The packet that wakes the device\<close>

text \<open>Six bytes \<open>0xFF\<close> and sixteen times the address, at \<open>p\<close>.\<close>

definition wakes :: "u8 list \<Rightarrow> u8 list \<Rightarrow> nat \<Rightarrow> nat \<Rightarrow> bool" where
  "wakes packet mac n p \<longleftrightarrow> p + 102 \<le> n \<and> (\<forall>j<6. packet ! (p + j) = 0xFF) \<and> (\<forall>k<16. take 6 (drop (p + 6 + 6 * k) packet) = mac)"

lemma mpm_match_iff: "mpm_match packet mac q \<longleftrightarrow> (\<forall>k<16. take 6 (drop (q + 6 * k) packet) = mac)"
proof
  assume a: "mpm_match packet mac q"
  show "\<forall>k<16. take 6 (drop (q + 6 * k) packet) = mac"
  proof (intro allI impI)
    fix k :: nat assume "k < 16"
    then have "k + 1 = 1 \<or> k + 1 \<in> set [2..<17]" unfolding set_upt by auto
    then have "mpm_mac packet q (k + 1) = mac" using a by (metis mpm_match_def)
    then show "take 6 (drop (q + 6 * k) packet) = mac" by (simp add: mpm_mac_def)
  qed
next
  assume a: "\<forall>k<16. take 6 (drop (q + 6 * k) packet) = mac"
  have "mpm_mac packet q k = mac" if "k \<in> set [1..<17]" for k using a that by (auto simp: mpm_mac_def)
  then show "mpm_match packet mac q" by (simp add: mpm_match_def)
qed

lemma scan_run:
  assumes "n \<le> length packet" "counter \<le> 5" "counter \<le> k" "\<forall>j<k. k - counter \<le> j \<longrightarrow> packet ! j = 0xFF"
  shows "\<exists>c. c \<le> 5 \<and> scan_packet packet mac n (int k) counter = Inr (\<exists>p\<ge>k - counter. wakes packet mac n p, c)"
  using assms(2-4)
proof (induction "7 * (n - (k - counter)) - counter" arbitrary: k counter rule: less_induct)
  case less
  show ?case
  proof (cases "k < n - 96")
    case False
    then have "\<not> (\<exists>p\<ge>k - counter. wakes packet mac n p)" using less.prems(1) by (auto simp: wakes_def)
    then show ?thesis using False less.prems(1) by (subst scan_packet.simps) auto
  next
    case True
    then have g: "int k < int n - 96" "\<not> (int k < 0 \<or> int (length packet) \<le> int k)" "k - counter < n" using assms(1) by auto
    consider "packet ! k \<noteq> 0xFF" | "packet ! k = 0xFF" "counter < 5" | "packet ! k = 0xFF" "counter = 5" using less.prems(1) by linarith
    then show ?thesis
    proof cases
      case 1
      have "(\<exists>p\<ge>k - counter. wakes packet mac n p) = (\<exists>p\<ge>k + 1. wakes packet mac n p)"
      proof -
        have "\<not> wakes packet mac n p" if "k - counter \<le> p" "p \<le> k" for p
        proof
          assume "wakes packet mac n p"
          moreover have "k - p < 6" using that less.prems(1) by linarith
          ultimately have "packet ! (p + (k - p)) = 0xFF" unfolding wakes_def by blast
          then show False using that 1 by simp
        qed
        then show ?thesis by (metis Suc_eq_plus1 diff_le_self le_SucI le_trans not_less_eq_eq)
      qed
      moreover have "\<exists>c. c \<le> 5 \<and> scan_packet packet mac n (int (k + 1)) 0 = Inr (\<exists>p\<ge>k + 1 - 0. wakes packet mac n p, c)"
        by (rule less.hyps) (use g less.prems in auto)
      ultimately show ?thesis using g 1 by (subst scan_packet.simps) (simp add: add.commute)
    next
      case 2
      have "\<exists>c. c \<le> 5 \<and> scan_packet packet mac n (int (k + 1)) (counter + 1) =
          Inr (\<exists>p\<ge>k + 1 - (counter + 1). wakes packet mac n p, c)"
        by (rule less.hyps) (use g 2 less.prems in \<open>auto simp: less_Suc_eq\<close>)
      then show ?thesis using g 2 by (subst scan_packet.simps) (simp add: add.commute)
    next
      case 3
      have ff: "\<forall>j<6. packet ! (k - 5 + j) = 0xFF"
      proof (intro allI impI)
        fix j :: nat assume "j < 6"
        then show "packet ! (k - 5 + j) = 0xFF" using less.prems(2,3) 3 by (cases "j = 5") auto
      qed
      have w: "wakes packet mac n (k - 5) \<longleftrightarrow> mpm_match packet mac (k + 1)"
        using ff True less.prems(2) 3 by (auto simp: wakes_def mpm_match_iff)
      have s: "scan_packet packet mac n (int k) counter =
          (if mpm_match packet mac (k + 1) then Inr (True, 0) else scan_packet packet mac n (int k - 5 + 1) 0)"
        using g 3 by (subst scan_packet.simps) simp
      show ?thesis
      proof (cases "mpm_match packet mac (k + 1)")
        case True
        then have "\<exists>p\<ge>k - counter. wakes packet mac n p" using w 3 by blast
        then show ?thesis using s True by (intro exI [of _ 0]) simp
      next
        case False
        have "\<exists>c. c \<le> 5 \<and> scan_packet packet mac n (int (k - 4)) 0 = Inr (\<exists>p\<ge>k - 4 - 0. wakes packet mac n p, c)"
          by (rule less.hyps) (use g 3 less.prems in auto)
        moreover have "(\<exists>p\<ge>k - 4. wakes packet mac n p) = (\<exists>p\<ge>k - counter. wakes packet mac n p)"
        proof -
          have "p \<ge> k - 5 \<longleftrightarrow> p = k - 5 \<or> p \<ge> k - 4" for p using less.prems(2) 3 by auto
          then show ?thesis using w False 3 by metis
        qed
        moreover have "int k - 5 + 1 = int (k - 4)" using less.prems(2) 3 by simp
        ultimately show ?thesis unfolding s by (simp only: False if_False diff_zero)
      qed
    qed
  qed
qed

lemma mac_chain:
  assumes "length mac = 6"
  shows "q + 6 * m \<le> length l \<Longrightarrow> (\<forall>k<m. take 6 (drop (q + 6 * k) l) = mac) \<longleftrightarrow> take (6 * m) (drop q l) = concat (replicate m mac)"
proof (induction m arbitrary: q)
  case (Suc m)
  have "(\<forall>k<Suc m. take 6 (drop (q + 6 * k) l) = mac) \<longleftrightarrow> take 6 (drop q l) = mac \<and> (\<forall>k<m. take 6 (drop (q + 6 + 6 * k) l) = mac)"
    by (simp add: All_less_Suc2 add.assoc del: drop_drop)
  also have "\<dots> \<longleftrightarrow> take 6 (drop q l) = mac \<and> take (6 * m) (drop (q + 6) l) = concat (replicate m mac)"
    using Suc by simp
  also have "\<dots> \<longleftrightarrow> take 6 (drop q l) @ take (6 * m) (drop (q + 6) l) = mac @ concat (replicate m mac)"
    using Suc.prems assms by (subst append_eq_append_conv) auto
  also have "take 6 (drop q l) @ take (6 * m) (drop (q + 6) l) = take (6 * Suc m) (drop q l)"
    by (simp add: take_add add.commute)
  finally show ?case by simp
qed simp

text \<open>The bytes that wake a device: anywhere in the packet.\<close>

definition magic :: "u8 list \<Rightarrow> u8 list" where
  "magic mac = replicate 6 0xFF @ concat (replicate 16 mac)"

lemma length_magic: "length mac = 6 \<Longrightarrow> length (magic mac) = 102"
  by (simp add: magic_def length_concat sum_list_replicate)

lemma wakes_magic:
  assumes "length mac = 6" "n \<le> length l"
  shows "wakes l mac n p \<longleftrightarrow> p + 102 \<le> n \<and> take 102 (drop p l) = magic mac"
proof (cases "p + 102 \<le> n")
  case True
  then have le: "p + 102 \<le> length l" using assms(2) by simp
  have "(\<forall>j<6. l ! (p + j) = 0xFF) \<longleftrightarrow> take 6 (drop p l) = replicate 6 0xFF"
    using le by (auto simp: list_eq_iff_nth_eq)
  moreover have "(\<forall>k<16. take 6 (drop (p + 6 + 6 * k) l) = mac) \<longleftrightarrow> take 96 (drop (p + 6) l) = concat (replicate 16 mac)"
    using mac_chain [OF assms(1), of "p + 6" 16 l] le by simp
  moreover have "take 102 (drop p l) = take 6 (drop p l) @ take 96 (drop (p + 6) l)"
    using take_add [of 6 96 "drop p l"] by (simp add: add.commute)
  ultimately show ?thesis using True le by (simp add: wakes_def magic_def)
qed (simp add: wakes_def)

lemma receive_bytes:
  assumes "length bytes \<le> 1500" "length packet = 1500"
  shows "length (receive bytes packet) = 1500" "take (length bytes) (receive bytes packet) = bytes"
  using assms by (simp_all add: receive_def)

text \<open>C27 A packet that comes when the counter is 0, as it is for the first one, wakes the device just when it is for the device or for
  all and has the magic bytes in it; the thread goes on after any other, with a counter up to 5.\<close>

theorem net_wol_wakes:
  assumes "length mac = 6" "length bytes \<le> 1500" "length buffer = 1500"
  shows "\<exists>c\<le>5. wol_loop ((Some bytes, mac) # rs) buffer 0 =
    (if (take 6 bytes = mac \<or> take 6 bytes = replicate 6 0xFF) \<and> (\<exists>as bs. bytes = as @ magic mac @ bs) then Inr True
     else wol_loop rs (receive bytes buffer) c)"
proof -
  define packet where "packet = receive bytes buffer"
  have l: "length packet = 1500" "take (length bytes) packet = bytes" using receive_bytes [OF assms(2,3)] by (simp_all add: packet_def)
  obtain c where c: "c \<le> 5" "scan_packet packet mac (length bytes) 0 0 = Inr (\<exists>p. wakes packet mac (length bytes) p, c)"
    using scan_run [of "length bytes" packet 0 0 mac] assms(2) l(1) by auto
  have "wakes packet mac (length bytes) p \<longleftrightarrow> p + 102 \<le> length bytes \<and> take 102 (drop p bytes) = magic mac" for p
  proof -
    have "drop p bytes = take (length bytes - p) (drop p packet)" using l(2) by (metis drop_take)
    then have "take 102 (drop p bytes) = take 102 (drop p packet)" if "p + 102 \<le> length bytes" using that by (simp add: min_def)
    then show ?thesis using wakes_magic [OF assms(1), of "length bytes" packet p] l(1) assms(2) by auto
  qed
  moreover have "(\<exists>p. p + 102 \<le> length bytes \<and> take 102 (drop p bytes) = magic mac) \<longleftrightarrow> (\<exists>as bs. bytes = as @ magic mac @ bs)"
  proof
    assume "\<exists>p. p + 102 \<le> length bytes \<and> take 102 (drop p bytes) = magic mac"
    then show "\<exists>as bs. bytes = as @ magic mac @ bs" by (metis append_take_drop_id)
  next
    assume "\<exists>as bs. bytes = as @ magic mac @ bs"
    then obtain as bs where b: "bytes = as @ magic mac @ bs" by blast
    then show "\<exists>p. p + 102 \<le> length bytes \<and> take 102 (drop p bytes) = magic mac"
      using length_magic [OF assms(1)] by (intro exI [of _ "length as"]) simp
  qed
  ultimately have s: "(\<exists>p. wakes packet mac (length bytes) p) \<longleftrightarrow> (\<exists>as bs. bytes = as @ magic mac @ bs)" by simp
  have t: "take 6 packet = take 6 bytes" if "\<exists>as bs. bytes = as @ magic mac @ bs"
  proof -
    have "6 \<le> length bytes" using that length_magic [OF assms(1)] by auto
    then show ?thesis using l(2) by (metis min_def take_take)
  qed
  show ?thesis
  proof (cases "\<exists>as bs. bytes = as @ magic mac @ bs")
    case True
    obtain c' where "c' \<le> 5" "wol_packet packet mac (length bytes) 0 = Inr (take 6 bytes = mac \<or> take 6 bytes = replicate 6 0xFF, c')"
    proof -
      let ?u = "take 6 bytes = mac \<or> take 6 bytes = replicate 6 0xFF"
      have "\<exists>p. wakes packet mac (length bytes) p" using s True by blast
      then have "wol_packet packet mac (length bytes) 0 = Inr (?u, if ?u then c else 0)"
        using c(2) unfolding wol_packet_def t [OF True] by simp
      moreover have "(if ?u then c else 0) \<le> 5" using c(1) by simp
      ultimately show thesis using that by blast
    qed
    then show ?thesis using True assms(2) by (intro exI [of _ c']) (simp add: Let_def flip: packet_def)
  next
    case False
    obtain c' where "c' \<le> 5" "wol_packet packet mac (length bytes) 0 = Inr (False, c')"
    proof -
      let ?u = "take 6 packet = mac \<or> take 6 packet = replicate 6 0xFF"
      have "\<not> (\<exists>p. wakes packet mac (length bytes) p)" using s False by blast
      then have "wol_packet packet mac (length bytes) 0 = Inr (False, if ?u then c else 0)" using c(2) by (simp add: wol_packet_def)
      moreover have "(if ?u then c else 0) \<le> 5" using c(1) by simp
      ultimately show thesis using that by blast
    qed
    then show ?thesis using False assms(2) by (intro exI [of _ c']) (simp add: Let_def flip: packet_def)
  qed
qed

theorem net_wol_wakes_witness:
  "magic_packet_monitor_thread [(Some ([0, 1, 2, 3, 4, 5] @ [8, 66] @ magic [0, 1, 2, 3, 4, 5] @ [7]), [0, 1, 2, 3, 4, 5])] = Inr True"
proof -
  let ?b = "[0, 1, 2, 3, 4, 5, 8, 66] @ magic [0, 1, 2, 3, 4, 5] @ [7 :: u8]"
  have "\<exists>as bs. ?b = as @ magic [0, 1, 2, 3, 4, 5] @ bs" by blast
  then show ?thesis using net_wol_wakes [of "[0, 1, 2, 3, 4, 5]" ?b "replicate 1500 0" "[]"]
    by (simp add: magic_packet_monitor_thread_def length_magic del: wol_loop.simps)
qed

section \<open>What a packet leaves for the next\<close>





section \<open>The hardware address in a text\<close>

definition hexd :: "nat \<Rightarrow> u8" where
  "hexd d = of_nat (if d < 10 then 48 + d else 87 + d)"

text \<open>A byte with two digits, or with one where that is enough.\<close>

definition field :: "bool \<times> u8 \<Rightarrow> u8 list" where
  "field sb = (if fst sb \<and> unat (snd sb) < 16 then [hexd (unat (snd sb))] else [hexd (unat (snd sb) div 16), hexd (unat (snd sb) mod 16)])"

fun fields :: "(bool \<times> u8) list \<Rightarrow> u8 list" where
  "fields [] = []"
| "fields [f] = field f @ [93]"
| "fields (f # fs) = field f @ 58 # fields fs"

lemma hexd_ok: "d < 16 \<Longrightarrow> hex2int (hexd d) = int d \<and> hexd d \<notin> {91, 93, 58}"
proof -
  assume "d < 16"
  moreover have "\<forall>d\<in>set [0..<16]. hex2int (hexd d) = int d \<and> hexd d \<notin> {91, 93, 58}" by code_simp
  ultimately show ?thesis by (metis atLeastLessThan_iff set_upt zero_le)
qed

lemma arp_field:
  assumes "c = 58 \<or> c = 93"
  shows "\<exists>idx m0' m1'. arp_text (field f @ c # cs) True 0 m0 m1 out = arp_text (c # cs) True idx m0' m1' out \<and> mac_byte idx m0' m1' = snd f"
proof -
  obtain s b where f: "f = (s, b)" by force
  have b: "unat b div 16 < 16" "unat b mod 16 < 16" using unat_u8 [of b] by simp_all
  have w: "word_of_int (int (unat b)) = b" "word_of_int (int (unat b div 16) * 16 + int (unat b mod 16)) = b"
  proof -
    have "int (unat b div 16) * 16 + int (unat b mod 16) = int (unat b)" by (metis div_mult_mod_eq of_nat_add of_nat_mult of_nat_numeral)
    then show "word_of_int (int (unat b div 16) * 16 + int (unat b mod 16)) = b" by simp
  qed simp
  show ?thesis
  proof (cases "s \<and> unat b < 16")
    case True
    then show ?thesis using hexd_ok [of "unat b"] w f
      by (intro exI [of _ 1] exI [of _ "hexd (unat b)"] exI [of _ m1]) (simp add: field_def mac_byte_def)
  next
    case False
    define h k where "h = hexd (unat b div 16)" and "k = hexd (unat b mod 16)"
    have "field f = [h, k]" using False f by (auto simp: field_def h_def k_def)
    moreover have "mac_byte 2 h k = b" using hexd_ok [OF b(1)] hexd_ok [OF b(2)] w(2) by (simp add: mac_byte_def h_def k_def)
    moreover have "h \<notin> {91, 93, 58}" "k \<notin> {91, 93, 58}" using hexd_ok b by (simp_all add: h_def k_def)
    ultimately show ?thesis using f by (intro exI [of _ 2] exI [of _ h] exI [of _ k]) simp
  qed
qed

lemma arp_fields: "fs \<noteq> [] \<Longrightarrow> arp_text (fields fs @ cs) True 0 m0 m1 out = (NET_OK, True, out @ map snd fs)"
proof (induction fs arbitrary: m0 m1 out rule: fields.induct)
  case (2 f)
  then show ?case using arp_field [of 93 f cs m0 m1 out] by auto
next
  case (3 f g fs)
  then show ?case using arp_field [of 58 f "fields (g # fs) @ cs" m0 m1 out] by auto
qed simp

text \<open>C33 The six bytes of an address that the answer has in brackets are read back, with one digit or two.\<close>

theorem net_arp_roundtrip:
  assumes "length fs = 6" "st \<noteq> 0"
  shows "arp_search_mac_by_ip st 0 (Some ([91] @ fields fs)) = (NET_OK, map snd fs)"
proof -
  have l: "length (field f) \<le> 2" for f by (simp add: field_def)
  have "length (fields fs) \<le> 18"
  proof -
    obtain a b c d e f where "fs = [a, b, c, d, e, f]" using assms(1) by (auto simp: eval_nat_numeral length_Suc_conv)
    then show ?thesis using l [of a] l [of b] l [of c] l [of d] l [of e] l [of f] by simp
  qed
  then have "take 20 (take 19 ([91] @ fields fs) @ replicate 20 0) = 91 # fields fs @ replicate (19 - length (fields fs)) 0"
    by (simp add: min_def)
  moreover have "fs \<noteq> []" using assms(1) by auto
  ultimately show ?thesis using assms(2) arp_fields [of fs] by (simp add: arp_search_mac_by_ip_def)
qed

theorem net_arp_roundtrip_witness:
  "arp_search_mac_by_ip 256 0 (Some ([91] @ fields [(True, 0), (True, 0x1A), (False, 5), (True, 0xFF), (False, 0x80), (True, 9)])) =
    (0, [0, 0x1A, 5, 0xFF, 0x80, 9])"
  by (subst net_arp_roundtrip) simp_all

section \<open>Prefixes\<close>

text \<open>The mask of a prefix.\<close>

definition prefix_byte :: "nat \<Rightarrow> u8" where
  "prefix_byte n = of_nat (256 - 2 ^ (8 - min n 8))"

definition prefix_mask :: "nat \<Rightarrow> u8 list" where
  "prefix_mask n = map (\<lambda>i. prefix_byte (n - 8 * i)) [0..<16]"

lemma mask_byte:
  assumes "r \<le> 8"
  shows "mask_loop m (8 * k + 8) k (sint (prefix_byte r)) =
    (if 0 < r then 8 * k + r else if k = 0 then 0 else mask_loop m (8 * k) (k - 1) (sint (m ! (k - 1))))"
proof -
  have e: "8 * k + 8 = Suc (Suc (Suc (Suc (Suc (Suc (Suc (Suc (8 * k))))))))" by simp
  have m: "Suc (8 * k) mod 8 = 1" "Suc (Suc (8 * k)) mod 8 = 2" "Suc (Suc (Suc (8 * k))) mod 8 = 3" "Suc (Suc (Suc (Suc (8 * k)))) mod 8 = 4"
    "Suc (Suc (Suc (Suc (Suc (8 * k))))) mod 8 = 5" "Suc (Suc (Suc (Suc (Suc (Suc (8 * k)))))) mod 8 = 6"
    "Suc (Suc (Suc (Suc (Suc (Suc (Suc (8 * k))))))) mod 8 = 7" by presburger+
  have "r = 0 \<or> r = 1 \<or> r = 2 \<or> r = 3 \<or> r = 4 \<or> r = 5 \<or> r = 6 \<or> r = 7 \<or> r = 8" using assms by linarith
  then show ?thesis unfolding e
    by (elim disjE) (simp_all add: prefix_byte_def m Let_def)
qed

lemma mask_from: "k < 16 \<Longrightarrow> n \<le> 8 * k + 8 \<Longrightarrow> mask_loop (prefix_mask n) (8 * k + 8) k (sint (prefix_mask n ! k)) = n"
proof (induction k)
  case 0
  then show ?case using mask_byte [of n "prefix_mask n" 0] by (simp add: prefix_mask_def)
next
  case (Suc k)
  have "prefix_mask n ! Suc k = prefix_byte (n - 8 * Suc k)" using Suc.prems by (simp add: prefix_mask_def)
  then show ?case using mask_byte [of "n - 8 * Suc k" "prefix_mask n" "Suc k"] Suc by (auto simp: add.commute)
qed

theorem net_prefix_roundtrip:
  assumes "n \<le> 128"
  shows "mask2prefix_v6 (prefix_mask n) = n"
  using mask_from [of 15 n] assms by (simp add: mask2prefix_v6_def)

theorem net_prefix_roundtrip_witness: "mask2prefix_v6 (prefix_mask 61) = 61"
  by (rule net_prefix_roundtrip) simp

text \<open>Only the addresses of one range of groups are taken for groups: the others, among them all nodes, are unknown.\<close>

lemma scope_groups: "c \<noteq> CHR ''0'' \<Longrightarrow> net_ip_scope_v6 (Some (''ff0'' @ c # s)) = NET_IP_TYPE_UNKNOWN"
  by (simp add: net_ip_scope_v6_def strneq_def)

end
