(* ===== verification/NetWork.thy ===== *)
theory NetWork
  imports NetMon
begin

text \<open>The threads that mw/linux_c_api/c_mt_lx_net_cfg.c makes for work that takes time, each behind a flag that says that it
  runs: looking up hosts, tests of connections, speeds, conflicts of addresses, DHCP, PPPoE, wake on LAN and the clock.

  Nothing but the flag keeps two calls apart, and it is tested, set and lowered without a lock: what others do in between is
  an argument of the calls that look up hosts.  The other calls are for callers that do not overlap.  What the threads do
  at their end is one step.  Calls of functions that the callers have passed are logged.\<close>

section \<open>A thread behind a flag\<close>

text \<open>The flag, the variable with the last result, and the threads that run, with what they have been given.\<close>

record ('j, 'r) worker =
  w_running :: bool
  w_result :: 'r
  w_jobs :: "'j list"

text \<open>The common beginning of the calls: the test of the flag, its setting, the creation of the thread, and the reset of the flag
  when there is none.  What others do between two of these is in \<open>between\<close>; the longest of the gaps is the delay of 50
  milliseconds in front of the creation.  All threads behind a flag have one name, and no second thread of a name can be made
  (\<open>OSR_EXIST\<close>); \<open>created\<close> is whether the thread can be made otherwise.  The result is whether the call goes on.\<close>

record 'w between =
  bt_test :: "'w \<Rightarrow> 'w"
  bt_set :: "'w \<Rightarrow> 'w"
  bt_fail :: "'w \<Rightarrow> 'w"

abbreviation alone :: "'w between" where
  "alone \<equiv> \<lparr>bt_test = (\<lambda>w. w), bt_set = (\<lambda>w. w), bt_fail = (\<lambda>w. w)\<rparr>"

definition worker_make :: "bool \<Rightarrow> 'j \<Rightarrow> ('j, 'r) worker \<Rightarrow> bool \<times> ('j, 'r) worker" where
  "worker_make created j w = (if created \<and> w_jobs w = [] then (True, w\<lparr>w_jobs := [j]\<rparr>) else (False, w))"

definition worker_start_among :: "('j, 'r) worker between \<Rightarrow> bool \<Rightarrow> 'j \<Rightarrow> ('j, 'r) worker \<Rightarrow> bool \<times> ('j, 'r) worker" where
  "worker_start_among o' created j w =
    (if w_running w then (True, w)
     else let w = (bt_test o' w)\<lparr>w_running := True\<rparr> in
       case worker_make created j (bt_set o' w) of
         (True, w) \<Rightarrow> (True, w)
       | (False, w) \<Rightarrow> (False, (bt_fail o' w)\<lparr>w_running := False\<rparr>))"

definition worker_start :: "bool \<Rightarrow> 'j \<Rightarrow> ('j, 'r) worker \<Rightarrow> bool \<times> ('j, 'r) worker" where
  "worker_start = worker_start_among alone"

text \<open>The wait for the flag, with at most \<open>n\<close> further delays of 2 milliseconds: \<open>ends i\<close> is whether the thread ends during the
  delay \<open>i\<close>, and \<open>fin\<close> what it does then.\<close>

fun poll :: "(nat \<Rightarrow> bool) \<Rightarrow> (('j, 'r) worker \<Rightarrow> ('j, 'r) worker) \<Rightarrow> nat \<Rightarrow> nat \<Rightarrow> ('j, 'r) worker \<Rightarrow> ('j, 'r) worker" where
  "poll ends fin 0 i w = w"
| "poll ends fin (Suc n) i w = (if \<not> w_running w then w else poll ends fin n (i + 1) (if ends i then fin w else w))"

section \<open>Looking up hosts\<close>

type_synonym 'a hosts = "(string, 'a option) worker"

text \<open>\<open>gethost\<close> is what \<open>gethostbyname\<close> answers, \<open>None\<close> for \<open>NULL\<close>.\<close>

definition host_mon_thread :: "(string \<Rightarrow> 'a option) \<Rightarrow> 'a hosts \<Rightarrow> 'a hosts" where
  "host_mon_thread gethost w = (case w_jobs w of
     [] \<Rightarrow> w
   | url # us \<Rightarrow> w\<lparr>w_result := gethost url, w_running := False, w_jobs := us\<rparr>)"

definition host_wait :: "nat \<Rightarrow> (nat \<Rightarrow> bool) \<Rightarrow> (string \<Rightarrow> 'a option) \<Rightarrow> bool \<times> 'a hosts \<Rightarrow> 'a option \<times> 'a hosts" where
  "host_wait polls ends gethost = (\<lambda>(go, w).
    if \<not> go then (None, w)
    else let w = poll ends (host_mon_thread gethost) polls 0 w in
      if w_running w then (None, w) else (w_result w, w))"

definition c_net_gethostbyname ::
  "'a hosts between \<Rightarrow> bool \<Rightarrow> (nat \<Rightarrow> bool) \<Rightarrow> (string \<Rightarrow> 'a option) \<Rightarrow> string \<Rightarrow> 'a hosts \<Rightarrow> 'a option \<times> 'a hosts" where
  "c_net_gethostbyname o' created ends gethost url w = host_wait (30 div 2 * 1000) ends gethost (worker_start_among o' created url w)"

definition c_net_gethostbyname_ex ::
  "'a hosts between \<Rightarrow> bool \<Rightarrow> (nat \<Rightarrow> bool) \<Rightarrow> (string \<Rightarrow> 'a option) \<Rightarrow> string \<Rightarrow> 'a hosts \<Rightarrow> 'a option \<times> 'a hosts" where
  "c_net_gethostbyname_ex o' created ends gethost url w = host_wait 1000 ends gethost (worker_start_among o' created url w)"

text \<open>The product is one of signed integers of 32 bits; beyond their range it is taken to wrap around.\<close>

definition c_net_gethostbyname_timeout ::
  "'a hosts between \<Rightarrow> bool \<Rightarrow> (nat \<Rightarrow> bool) \<Rightarrow> (string \<Rightarrow> 'a option) \<Rightarrow> string \<Rightarrow> u32 \<Rightarrow> 'a hosts \<Rightarrow> 'a option \<times> 'a hosts" where
  "c_net_gethostbyname_timeout o' created ends gethost url timeout w =
    host_wait (nat (sint (timeout * 1000))) ends gethost (worker_start_among o' created url w)"

section \<open>Looking up addresses\<close>

datatype addr_family = NET_AF_IPV4 | NET_AF_IPV6 | NET_AF_OTHER

record lookup =
  ps_server_url :: "string option"
  eAddrFamily :: addr_family

type_synonym 'a addrs = "(lookup, 'a option) worker"

text \<open>\<open>gai\<close> is what \<open>getaddrinfo\<close> finds: when it fails it leaves the variable as it is.\<close>

definition addrinfo_mon_thread :: "(string \<Rightarrow> addr_family \<Rightarrow> 'a option) \<Rightarrow> 'a addrs \<Rightarrow> 'a addrs" where
  "addrinfo_mon_thread gai w = (case w_jobs w of
     [] \<Rightarrow> w
   | l # ls \<Rightarrow>
     let w = w\<lparr>w_jobs := ls, w_running := False\<rparr> in
     case ps_server_url l of
       None \<Rightarrow> w
     | Some url \<Rightarrow>
       if eAddrFamily l = NET_AF_OTHER then w
       else case gai url (eAddrFamily l) of None \<Rightarrow> w | Some a \<Rightarrow> w\<lparr>w_result := Some a\<rparr>)"

definition c_net_get_addrinfo_by_addrtype ::
  "bool \<Rightarrow> (nat \<Rightarrow> bool) \<Rightarrow> (string \<Rightarrow> addr_family \<Rightarrow> 'a option) \<Rightarrow> lookup \<Rightarrow> 'a addrs \<Rightarrow> 'a option \<times> 'a addrs" where
  "c_net_get_addrinfo_by_addrtype created ends gai l w =
    (case worker_start created l w of (go, w) \<Rightarrow>
       if \<not> go then (None, w)
       else let w = poll ends (addrinfo_mon_thread gai) (30 div 2 * 1000) 0 w in
         if w_running w then (None, w) else (w_result w, w))"

definition c_net_dns_lookup ::
  "bool \<Rightarrow> (nat \<Rightarrow> bool) \<Rightarrow> (string \<Rightarrow> addr_family \<Rightarrow> 'a option) \<Rightarrow> lookup option \<Rightarrow> 'a addrs \<Rightarrow> int \<times> 'a addrs" where
  "c_net_dns_lookup created ends gai l w =
    (let w = w\<lparr>w_result := None\<rparr> in
     case l of
       None \<Rightarrow> (NET_FAILED, w)
     | Some l \<Rightarrow>
       if ps_server_url l = None then (NET_FAILED, w)
       else case c_net_get_addrinfo_by_addrtype created ends gai l w of
           (None, w) \<Rightarrow> (NET_FAILED, w)
         | (Some a, w) \<Rightarrow> (NET_OK, if \<not> w_running w then w\<lparr>w_result := None\<rparr> else w))"

section \<open>Reaching a host\<close>

type_synonym pings = "(string, int) worker"

text \<open>\<open>st\<close> is the result of the command.\<close>

definition ping_host_thread :: "(string \<Rightarrow> int) \<Rightarrow> pings \<Rightarrow> pings" where
  "ping_host_thread st w = (case w_jobs w of
     [] \<Rightarrow> w
   | url # us \<Rightarrow> w\<lparr>w_result := (if st url = 0 then NET_OK else NET_FAILED), w_running := False, w_jobs := us\<rparr>)"

definition c_net_pinghostbyname :: "bool \<Rightarrow> (nat \<Rightarrow> bool) \<Rightarrow> (string \<Rightarrow> int) \<Rightarrow> string \<Rightarrow> pings \<Rightarrow> int \<times> pings" where
  "c_net_pinghostbyname created ends st url w =
    (case worker_start created url (if w_running w then w else w\<lparr>w_result := NET_FAILED\<rparr>) of (go, w) \<Rightarrow>
       if \<not> go then (NET_FAILED, w)
       else let w = poll ends (ping_host_thread st) (3 * 1000 div 2) 0 w in
         if w_running w then (NET_FAILED, w) else (w_result w, w))"

section \<open>Speeds, conflicts and connections\<close>

text \<open>The speeds: \<open>net_speed\<close> is the result, a job the name with its function.  The name goes into an array of 8 bytes.  \<open>mem\<close> is
  whether \<open>malloc\<close> succeeds.\<close>

type_synonym 'v speeds = "(string \<times> fptr, 'v) worker"

definition c_net_get_ni_speed :: "bool \<Rightarrow> bool \<Rightarrow> string \<Rightarrow> fptr \<Rightarrow> 'v speeds \<times> (fptr \<times> 'v) list \<Rightarrow>
    (int \<times> 'v speeds \<times> (fptr \<times> 'v) list) result" where
  "c_net_get_ni_speed created mem ifname cb_fp = (\<lambda>(w, log).
    if w_running w then
      if cb_fp = NULL then Inl BadAccess else Inr (NET_OK, w, log @ [(cb_fp, w_result w)])
    else let w = w\<lparr>w_running := True\<rparr> in
      if \<not> mem then Inr (NET_FAILED, w, log)
      else if 8 \<le> length ifname then Inl BadAccess
      else if created then Inr (NET_OK, w\<lparr>w_jobs := w_jobs w @ [(ifname, cb_fp)]\<rparr>, log)
      else Inr (NET_FAILED, w\<lparr>w_running := False\<rparr>, log))"

text \<open>\<open>open1\<close> and \<open>open2\<close> are whether the file can be opened each time, \<open>v\<close> what comes out.\<close>

definition c_net_get_ni_speed_thread :: "bool \<Rightarrow> bool \<Rightarrow> 'v \<Rightarrow> 'v speeds \<times> (fptr \<times> 'v) list \<Rightarrow> ('v speeds \<times> (fptr \<times> 'v) list) result" where
  "c_net_get_ni_speed_thread open1 open2 v = (\<lambda>(w, log). case w_jobs w of
     [] \<Rightarrow> Inr (w, log)
   | (ifname, cb_fp) # js \<Rightarrow>
     let w = w\<lparr>w_jobs := js\<rparr> in
     if \<not> open1 \<or> \<not> open2 then Inr (w, log)
     else let w = w\<lparr>w_result := v\<rparr> in
       if cb_fp = NULL then Inl BadAccess else Inr (w\<lparr>w_running := False\<rparr>, log @ [(cb_fp, v)]))"

text \<open>A job is the interface, the address and the function, which is told whether there is a conflict.\<close>

type_synonym conflicts = "(string \<times> u32 \<times> fptr, unit) worker"

definition c_net_ip_conflict :: "bool \<Rightarrow> string \<Rightarrow> u32 \<Rightarrow> fptr \<Rightarrow> conflicts \<Rightarrow> int \<times> conflicts" where
  "c_net_ip_conflict created psz_name addr fn w =
    (case worker_start created (psz_name, addr, fn) w of (go, w) \<Rightarrow> (if go then NET_OK else NET_FAILED, w))"

definition net_cmd_thread :: "int \<Rightarrow> conflicts \<times> (fptr \<times> bool) list \<Rightarrow> conflicts \<times> (fptr \<times> bool) list" where
  "net_cmd_thread i4_net_ret = (\<lambda>(w, log). case w_jobs w of
     [] \<Rightarrow> (w, log)
   | (n, a, fn) # js \<Rightarrow> (w\<lparr>w_jobs := js, w_running := False\<rparr>, if fn \<noteq> NULL then log @ [(fn, i4_net_ret \<noteq> 0)] else log))"

text \<open>A job is the request: URL, port, timeout and function.\<close>

type_synonym conn_req = "string \<times> u16 \<times> u16 \<times> fptr"
type_synonym conns = "(conn_req, unit) worker"

definition c_net_test_connection_async ::
  "bool \<Rightarrow> bool \<Rightarrow> bool \<Rightarrow> string option \<Rightarrow> u16 \<Rightarrow> u16 \<Rightarrow> fptr \<Rightarrow> conns \<Rightarrow> int \<times> conns" where
  "c_net_test_connection_async created mem1 mem2 url port timeout cb_fp w = (case url of
     None \<Rightarrow> (NET_FAILED, w)
   | Some url \<Rightarrow>
     if cb_fp = NULL then (NET_FAILED, w)
     else if w_running w then (NET_OK, w)
     else let w = w\<lparr>w_running := True\<rparr> in
       if \<not> mem1 then (NET_FAILED, w)
       else if \<not> mem2 then (NET_FAILED, w)
       else if created then (NET_OK, w\<lparr>w_jobs := w_jobs w @ [(url, port, timeout, cb_fp)]\<rparr>)
       else (NET_FAILED, w\<lparr>w_running := False\<rparr>))"

text \<open>\<open>test\<close> is the result of \<open>c_net_test_connection\<close>.\<close>

definition c_net_test_connection_thread :: "(string \<Rightarrow> u16 \<Rightarrow> u16 \<Rightarrow> int) \<Rightarrow> conns \<times> (fptr \<times> int) list \<Rightarrow> conns \<times> (fptr \<times> int) list" where
  "c_net_test_connection_thread test = (\<lambda>(w, log). case w_jobs w of
     [] \<Rightarrow> (w, log)
   | (url, port, timeout, cb) # js \<Rightarrow> (w\<lparr>w_jobs := js, w_running := False\<rparr>, log @ [(cb, test url port timeout)]))"

section \<open>An address of version 6\<close>

text \<open>The data of the thread are in the frame of the call: the flag and the text.  When the call has returned (\<open>\<not> alive\<close>), the thread
  writes into a frame that is gone.  \<open>found\<close> is what \<open>getaddrinfo\<close> finds.\<close>

record thread_in_data =
  ti_ipv6 :: string
  ti_flag :: int

definition GetaddrFn :: "bool \<Rightarrow> string option \<Rightarrow> thread_in_data \<Rightarrow> thread_in_data result" where
  "GetaddrFn alive found t =
    (if \<not> alive then Inl BadAccess
     else case found of None \<Rightarrow> Inr (t\<lparr>ti_flag := -1\<rparr>) | Some ip \<Rightarrow> Inr (t\<lparr>ti_ipv6 := take 45 ip, ti_flag := 1\<rparr>))"

text \<open>The loop, with \<open>timeout\<close> in microseconds; \<open>ends i\<close> is whether the thread ends during the sleep \<open>i\<close>.\<close>

function getaddr_loop :: "(nat \<Rightarrow> bool) \<Rightarrow> string option \<Rightarrow> nat \<Rightarrow> int \<Rightarrow> thread_in_data \<Rightarrow> (int \<times> string option) result" where
  "getaddr_loop ends found i timeout t =
    then_do (if ends i then GetaddrFn True found t else Inr t) (\<lambda>t.
      if ti_flag t = 1 then Inr (0, Some (ti_ipv6 t))
      else if ti_flag t = -1 then Inr (-1, None)
      else if timeout - 100000 \<le> 0 then Inr (-2, None)
      else getaddr_loop ends found (i + 1) (timeout - 100000) t)"
  by pat_completeness auto

termination
  by (relation "measure (\<lambda>(ends, found, i, timeout, t). nat timeout)") auto

declare getaddr_loop.simps [simp del]

text \<open>Where the thread cannot be made, nothing ever sets the flag.\<close>

definition c_net_getaddrinfo :: "bool \<Rightarrow> (nat \<Rightarrow> bool) \<Rightarrow> string option \<Rightarrow> (int \<times> string option) result" where
  "c_net_getaddrinfo created ends found =
    getaddr_loop (\<lambda>i. created \<and> ends i) found 0 30000000 \<lparr>ti_ipv6 = [], ti_flag = 0\<rparr>"

end
