(* ===== verification/NetCtl.thy ===== *)
theory NetCtl
  imports NetMon
begin

text \<open>DHCP, PPPoE, the thread that waits for the packet that wakes the device, and the clock, in
  mw/linux_c_api/c_mt_lx_net_cfg.c.\<close>

section \<open>DHCP\<close>

datatype dhcp_cmd = DHCP_START | DHCP_RESTART

record dhcp_monitor =
  dm_NifName :: "u8 list"
  dm_notify :: fptr
  eDhcpCmd :: dhcp_cmd

text \<open>The flag, whether DHCP has been stopped, the request that was made last, and the threads that run, with their requests.\<close>

record dhcp =
  fg_dhcp_thread_running :: bool
  g_dhcp_IsDhcpNeedStop :: bool
  t_lx_dhcp_monitor_g :: dhcp_monitor
  dh_threads :: "dhcp_monitor list"

text \<open>The attempts to make the thread: \<open>n\<close> is \<open>i4_time\<close>, \<open>created n\<close> whether the attempt at \<open>n\<close> succeeds, and \<open>meanwhile\<close> what happens
  between the creation of the thread and the assignment of the flag that follows it.  The results are \<open>i4_time\<close> after the loop
  and the state.\<close>

fun dhcp_create :: "(nat \<Rightarrow> bool) \<Rightarrow> (dhcp \<Rightarrow> dhcp) \<Rightarrow> dhcp_monitor \<Rightarrow> nat \<Rightarrow> dhcp \<Rightarrow> int \<times> dhcp" where
  "dhcp_create created meanwhile m 0 d = (-1, d)"
| "dhcp_create created meanwhile m (Suc n) d =
    (if created n then (int n, (meanwhile (d\<lparr>dh_threads := dh_threads d @ [m]\<rparr>))\<lparr>fg_dhcp_thread_running := True\<rparr>)
     else dhcp_create created meanwhile m n d)"

definition dhcp_request :: "(nat \<Rightarrow> bool) \<Rightarrow> (dhcp \<Rightarrow> dhcp) \<Rightarrow> dhcp_monitor \<Rightarrow> dhcp \<Rightarrow> dhcp" where
  "dhcp_request created meanwhile m d =
    (let d = d\<lparr>g_dhcp_IsDhcpNeedStop := False\<rparr> in
     case if \<not> fg_dhcp_thread_running d then dhcp_create created meanwhile m 100 d else (100, d) of (i4_time, d) \<Rightarrow>
       if i4_time > 0 then d\<lparr>t_lx_dhcp_monitor_g := m\<rparr> else d)"

text \<open>\<open>slept\<close> is what happens during the second in which the call sleeps.\<close>

definition c_dhcpc_start :: "(nat \<Rightarrow> bool) \<Rightarrow> (dhcp \<Rightarrow> dhcp) \<Rightarrow> (dhcp \<Rightarrow> dhcp) \<Rightarrow> u8 list \<Rightarrow> fptr \<Rightarrow> dhcp \<Rightarrow> int \<times> dhcp" where
  "c_dhcpc_start created slept meanwhile nm fn d =
    (let d = (if fg_dhcp_thread_running d then slept d else d) in
     (NET_OK, dhcp_request created meanwhile \<lparr>dm_NifName = nif_copy nm, dm_notify = fn, eDhcpCmd = DHCP_START\<rparr> d))"

definition c_dhcpc_restart :: "(nat \<Rightarrow> bool) \<Rightarrow> (dhcp \<Rightarrow> dhcp) \<Rightarrow> u8 list \<Rightarrow> dhcp \<Rightarrow> int \<times> dhcp" where
  "c_dhcpc_restart created meanwhile nm d =
    (NET_OK, dhcp_request created meanwhile
       \<lparr>dm_NifName = nif_copy nm, dm_notify = dm_notify (t_lx_dhcp_monitor_g d), eDhcpCmd = DHCP_RESTART\<rparr> d)"

definition c_dhcpc_notify_restart :: "(nat \<Rightarrow> bool) \<Rightarrow> (dhcp \<Rightarrow> dhcp) \<Rightarrow> u8 list \<Rightarrow> fptr \<Rightarrow> dhcp \<Rightarrow> int \<times> dhcp" where
  "c_dhcpc_notify_restart created meanwhile nm fn d =
    c_dhcpc_restart created meanwhile nm (d\<lparr>t_lx_dhcp_monitor_g := (t_lx_dhcp_monitor_g d)\<lparr>dm_notify := fn\<rparr>\<rparr>)"

definition c_dhcpc_stop :: "dhcp \<Rightarrow> int \<times> dhcp" where
  "c_dhcpc_stop d = (NET_OK, d\<lparr>g_dhcp_IsDhcpNeedStop := True\<rparr>)"

text \<open>A thread with the request \<open>m\<close>, from the answer of its child on (it tries again until the process can be made): \<open>wpid\<close> and
  \<open>wstatus\<close> as in \<open>c_net_ip_config\<close>.  It looks at the list of monitors without the critical section.\<close>

abbreviation (input) DHCPC_EVENT_SUCCESS_DHCPv4 :: nat where "DHCPC_EVENT_SUCCESS_DHCPv4 \<equiv> 1"
abbreviation (input) DHCPC_EVENT_FAILURE_DHCPv4 :: nat where "DHCPC_EVENT_FAILURE_DHCPv4 \<equiv> 2"

definition dhcp_notify :: "dhcp_monitor \<Rightarrow> nat \<Rightarrow> (fptr \<times> nat) list \<Rightarrow> (fptr \<times> nat) list" where
  "dhcp_notify m ev log = (if dm_notify m \<noteq> NULL then log @ [(dm_notify m, ev)] else log)"

definition dhcp_mark :: "dhcp_monitor \<Rightarrow> netmon \<Rightarrow> netmon result" where
  "dhcp_mark m s =
    then_do (find_monitor (\<lambda>x. pf_notify x \<noteq> NULL) (takeWhile (\<lambda>b. b \<noteq> 0) (dm_NifName m)) EV_IP_ADDRESS_CHANGED (nm_list s)) (\<lambda>i. case i of
      None \<Rightarrow> Inr s
    | Some i \<Rightarrow> Inr (s\<lparr>nm_list := set_need True i (nm_list s)\<rparr>))"

definition dhcp_mon_thread :: "int \<Rightarrow> int \<Rightarrow> dhcp_monitor \<Rightarrow> dhcp \<times> netmon \<times> (fptr \<times> nat) list \<Rightarrow>
    (dhcp \<times> netmon \<times> (fptr \<times> nat) list) result" where
  "dhcp_mon_thread wpid wstatus m = (\<lambda>(d, s, log).
    let d = d\<lparr>fg_dhcp_thread_running := False, dh_threads := remove1 m (dh_threads d)\<rparr> in
    if wpid < 0 then Inr (d, s, dhcp_notify m DHCPC_EVENT_FAILURE_DHCPv4 log)
    else if wstatus \<noteq> 0 then Inr (d, s, dhcp_notify m DHCPC_EVENT_FAILURE_DHCPv4 log)
    else then_do (if eDhcpCmd m = DHCP_START \<or> eDhcpCmd m = DHCP_RESTART then dhcp_mark m s else Inr s)
      (\<lambda>s. Inr (d, s, dhcp_notify m DHCPC_EVENT_SUCCESS_DHCPv4 log)))"

section \<open>PPPoE\<close>

text \<open>The configuration, and the commands that have been given to the daemon.\<close>

record pppoe =
  pp_ifname :: "string option"
  pp_username :: "string option"
  pp_password :: "string option"
  pp_cb_fn :: fptr
  pp_cmds :: "string list"

definition cleanup_pppoe_conf :: "pppoe \<Rightarrow> pppoe" where
  "cleanup_pppoe_conf p = p\<lparr>pp_ifname := None, pp_username := None, pp_password := None, pp_cb_fn := NULL\<rparr>"

text \<open>\<open>snprintf\<close> into 64 characters; a \<open>NULL\<close> is printed as such.\<close>

definition pppoe_str :: "string option \<Rightarrow> string" where
  "pppoe_str s = (case s of None \<Rightarrow> ''(null)'' | Some s \<Rightarrow> s)"

definition pppoe_cmd :: "string \<Rightarrow> pppoe \<Rightarrow> string" where
  "pppoe_cmd verb p = take 63 (''pppoe.script '' @ verb @ '' '' @ pppoe_str (pp_ifname p) @ '' '' @ pppoe_str (pp_username p) @ '' '' @ pppoe_str (pp_password p))"

text \<open>\<open>mem1\<close> to \<open>mem3\<close> are whether the calls of \<open>malloc\<close> succeed; after the third the code looks at \<open>username\<close> again.\<close>

definition c_pppoe_start :: "bool \<Rightarrow> bool \<Rightarrow> bool \<Rightarrow> string option \<Rightarrow> string option \<Rightarrow> string option \<Rightarrow> fptr \<Rightarrow> pppoe \<Rightarrow> (int \<times> pppoe) result" where
  "c_pppoe_start mem1 mem2 mem3 ifname username password cb_fn p =
    (case (ifname, username, password) of
      (Some ifname, Some username, Some password) \<Rightarrow>
        if cb_fn = NULL then Inr (NET_FAILED, p)
        else let p = cleanup_pppoe_conf p in
          if \<not> mem1 then Inr (NET_FAILED, p)
          else let p = p\<lparr>pp_ifname := Some ifname\<rparr> in
            if \<not> mem2 then Inr (NET_FAILED, p\<lparr>pp_ifname := None\<rparr>)
            else let p = p\<lparr>pp_username := Some username\<rparr> in
              if pp_username p = None then Inr (NET_FAILED, p\<lparr>pp_ifname := None, pp_username := None\<rparr>)
              else if \<not> mem3 then Inl BadAccess
              else let p = p\<lparr>pp_password := Some password, pp_cb_fn := cb_fn\<rparr> in
                Inr (NET_OK, p\<lparr>pp_cmds := pp_cmds p @ [pppoe_cmd ''start'' p]\<rparr>)
    | _ \<Rightarrow> Inr (NET_FAILED, p))"

definition c_pppoe_stop :: "pppoe \<Rightarrow> int \<times> pppoe" where
  "c_pppoe_stop p = (NET_OK, cleanup_pppoe_conf p)"

definition c_pppoe_restart :: "pppoe \<Rightarrow> int \<times> pppoe" where
  "c_pppoe_restart p =
    (if pp_cb_fn p = NULL then (NET_FAILED, p) else (NET_OK, p\<lparr>pp_cmds := pp_cmds p @ [pppoe_cmd ''restart'' p]\<rparr>))"

abbreviation (input) IPCD_EXEC_SUCESS :: int where "IPCD_EXEC_SUCESS \<equiv> 0"
abbreviation (input) IPCD_EXEC_FAILED :: int where "IPCD_EXEC_FAILED \<equiv> -1"
abbreviation (input) PPPOE_EVENT_SUCCESS :: nat where "PPPOE_EVENT_SUCCESS \<equiv> 1"
abbreviation (input) PPPOE_EVENT_FAILURE :: nat where "PPPOE_EVENT_FAILURE \<equiv> 2"

text \<open>What the daemon's answer calls: the two events that exist are success and failure, and failure is not passed on.\<close>

definition c_pppoe_start_notify_callback :: "int \<Rightarrow> pppoe \<Rightarrow> (fptr \<times> nat) list \<Rightarrow> (fptr \<times> nat) list" where
  "c_pppoe_start_notify_callback event p log =
    (if event = IPCD_EXEC_SUCESS then if pp_cb_fn p \<noteq> NULL then log @ [(pp_cb_fn p, PPPOE_EVENT_SUCCESS)] else log
     else if event = IPCD_EXEC_FAILED then log
     else if pp_cb_fn p \<noteq> NULL then log @ [(pp_cb_fn p, PPPOE_EVENT_FAILURE)] else log)"

section \<open>Wake on LAN\<close>

text \<open>The flag, and the threads that run, with the interface and the function of their requests.\<close>

record wol =
  fg_wol_thread_running :: bool
  wl_threads :: "(string \<times> fptr) list"

fun wol_create :: "(nat \<Rightarrow> bool) \<Rightarrow> string \<times> fptr \<Rightarrow> nat \<Rightarrow> wol \<Rightarrow> bool \<times> wol" where
  "wol_create created r 0 w = (False, w)"
| "wol_create created r (Suc n) w =
    (let w = w\<lparr>fg_wol_thread_running := True\<rparr> in
     if created n then (True, w\<lparr>wl_threads := wl_threads w @ [r], fg_wol_thread_running := True\<rparr>)
     else wol_create created r n (w\<lparr>fg_wol_thread_running := False\<rparr>))"

definition c_net_start_wol_thread :: "(nat \<Rightarrow> bool) \<Rightarrow> bool \<Rightarrow> string option \<Rightarrow> fptr \<Rightarrow> wol \<Rightarrow> int \<times> wol" where
  "c_net_start_wol_thread created mem psz_name cb_fn w = (case psz_name of
     None \<Rightarrow> (NET_FAILED, w)
   | Some nm \<Rightarrow>
     if cb_fn = NULL then (NET_FAILED, w)
     else if \<not> mem then (NET_FAILED, w)
     else if \<not> length nm < 16 then (NET_FAILED, w)
     else if \<not> fg_wol_thread_running w then
       case wol_create created (nm, cb_fn) 100 w of (ok, w) \<Rightarrow> (if ok then NET_OK else NET_FAILED, w)
     else (NET_OK, w))"

definition c_net_stop_wol_thread :: "wol \<Rightarrow> int \<times> wol" where
  "c_net_stop_wol_thread w = (NET_OK, w\<lparr>fg_wol_thread_running := False\<rparr>)"

text \<open>What a thread does when it looks at the flag, and when it ends because of an error or because it has found its packet.\<close>

definition wol_thread_ends :: "string \<times> fptr \<Rightarrow> wol \<Rightarrow> wol" where
  "wol_thread_ends r w = w\<lparr>fg_wol_thread_running := False, wl_threads := remove1 r (wl_threads w)\<rparr>"

definition wol_thread_looks :: "string \<times> fptr \<Rightarrow> wol \<Rightarrow> wol" where
  "wol_thread_looks r w = (if fg_wol_thread_running w then w else wol_thread_ends r w)"

definition wol_thread_wakes :: "string \<times> fptr \<Rightarrow> wol \<times> fptr list \<Rightarrow> wol \<times> fptr list" where
  "wol_thread_wakes r = (\<lambda>(w, log). (wol_thread_ends r w, log @ [snd r]))"

section \<open>The clock\<close>

text \<open>Whether the clock has been set, the threads that run, with their commands and functions, and the calls of these.\<close>

record ntp =
  fg_ntp_sync_ready :: bool
  nt_threads :: "(string \<times> fptr) list"
  nt_log :: "(fptr \<times> int) list"

definition ntp_notify :: "fptr \<Rightarrow> int \<Rightarrow> ntp \<Rightarrow> ntp" where
  "ntp_notify fn ev s = (if fn \<noteq> NULL then s\<lparr>nt_log := nt_log s @ [(fn, ev)]\<rparr> else s)"

definition c_time_sync :: "bool \<Rightarrow> string option \<Rightarrow> fptr \<Rightarrow> ntp \<Rightarrow> int \<times> ntp" where
  "c_time_sync created time_server cb_fn s =
    (let server = (case time_server of None \<Rightarrow> ''pool.ntp.org'' | Some t \<Rightarrow> t);
         cmd = take 69 (''ntpdate '' @ server) in
     if \<not> fg_ntp_sync_ready s then
       if created then (NET_OK, s\<lparr>nt_threads := nt_threads s @ [(cmd, cb_fn)]\<rparr>) else (NET_FAILED, s)
     else (NET_OK, ntp_notify cb_fn IPCD_EXEC_SUCESS s))"

definition ntp_mon_thread :: "int \<Rightarrow> string \<times> fptr \<Rightarrow> ntp \<Rightarrow> ntp" where
  "ntp_mon_thread i4_ret t s =
    (let s = s\<lparr>nt_threads := remove1 t (nt_threads s)\<rparr> in
     if i4_ret = 0 then ntp_notify (snd t) IPCD_EXEC_SUCESS (s\<lparr>fg_ntp_sync_ready := True\<rparr>)
     else ntp_notify (snd t) IPCD_EXEC_FAILED (s\<lparr>fg_ntp_sync_ready := False\<rparr>))"

end
