(* ===== verification/NetWorkProps.thy ===== *)
theory NetWorkProps
  imports NetWork NetCtl NetMonProps
begin

text \<open>Which answers the calls give that wait for threads, and when a flag stays up for ever.\<close>

section \<open>Waiting\<close>

text \<open>The flag is up just while a thread runs.\<close>

definition worker_ok :: "('j, 'r) worker \<Rightarrow> bool" where
  "worker_ok w \<longleftrightarrow> (if w_running w then \<exists>j. w_jobs w = [j] else w_jobs w = [])"

lemma poll_idle: "\<not> w_running w \<Longrightarrow> poll ends fin n i w = w"
  by (cases n) auto

lemma poll_busy:
  assumes "w_running w" "\<not> w_running (fin w)"
  shows "poll ends fin n i w = (if \<exists>k<n. ends (i + k) then fin w else w)"
  using assms(1)
proof (induction n arbitrary: i)
  case (Suc n)
  have "(\<exists>k<Suc n. ends (i + k)) \<longleftrightarrow> ends i \<or> (\<exists>k<n. ends (Suc i + k))" by (auto simp: less_Suc_eq_0_disj)
  then show ?case using Suc poll_idle [of "fin w"] assms(2) by auto
qed simp

lemma worker_start_ok:
  assumes "worker_ok w" "w_running w \<or> created"
  shows "\<exists>w'. worker_start created j w = (True, w') \<and> w_running w' \<and> w_result w' = w_result w \<and>
    w_jobs w' = [if w_running w then hd (w_jobs w) else j]"
  using assms by (auto simp: worker_start_def worker_start_among_def worker_make_def worker_ok_def Let_def)

text \<open>What every thread promises to those that wait for it: at its end the flag is down.\<close>

locale worker_thread =
  fixes fin :: "('j, 'r) worker \<Rightarrow> ('j, 'r) worker"
  assumes fin_ends: "w_jobs w = [j] \<Longrightarrow> \<not> w_running (fin w) \<and> w_jobs (fin w) = []"
begin

lemma poll_ends:
  assumes "w_running w" "w_jobs w = [j]"
  shows "poll ends fin n 0 w = (if \<exists>k<n. ends k then fin w else w)"
  using poll_busy [of w fin ends n 0] assms fin_ends [OF assms(2)] by simp

lemma poll_ok:
  assumes "w_running w" "w_jobs w = [j]"
  shows "worker_ok (poll ends fin n 0 w) \<and> (w_running (poll ends fin n 0 w) \<longleftrightarrow> \<not> (\<exists>k<n. ends k))"
  using poll_ends [OF assms] fin_ends [OF assms(2)] assms by (simp add: worker_ok_def)

end

interpretation host_thread: worker_thread "host_mon_thread gethost" for gethost
  by unfold_locales (simp add: host_mon_thread_def)

interpretation addr_thread: worker_thread "addrinfo_mon_thread gai" for gai
  by unfold_locales (simp add: addrinfo_mon_thread_def Let_def split: option.splits)

interpretation ping_thread: worker_thread "ping_host_thread st" for st
  by unfold_locales (simp add: ping_host_thread_def)

section \<open>Hosts\<close>

lemma host_wait_ok:
  assumes "w_running w" "w_jobs w = [u]"
  shows "fst (host_wait n ends gh (True, w)) = (if \<exists>i<n. ends i then gh u else None) \<and> worker_ok (snd (host_wait n ends gh (True, w)))"
  using host_thread.poll_ends [OF assms] host_thread.poll_ok [OF assms] assms
  by (auto simp: host_wait_def Let_def host_mon_thread_def worker_ok_def)

lemma sint_thousand:
  assumes "0 \<le> sint (t :: u32)" "sint t \<le> 2147483"
  shows "sint (t * 1000) = sint t * 1000"
proof -
  have "sint (t * 1000) = signed_take_bit 31 (sint t * 1000)" by (simp add: sint_word_ariths)
  then show ?thesis using assms by (simp add: signed_take_bit_int_eq_self)
qed

text \<open>C30 Calls that do not overlap: a look-up answers for the host that the thread looks up when it ends in time, and with
  nothing otherwise.  When a thread runs already, that is the host of an earlier call.\<close>

theorem net_host_lookup:
  assumes "worker_ok w" "w_running w \<or> created" "u = (if w_running w then hd (w_jobs w) else url)"
  shows "fst (c_net_gethostbyname alone created ends gh url w) = (if \<exists>i<15000. ends i then gh u else None) \<and>
    worker_ok (snd (c_net_gethostbyname alone created ends gh url w)) \<and>
    fst (c_net_gethostbyname_ex alone created ends gh url w) = (if \<exists>i<1000. ends i then gh u else None) \<and>
    worker_ok (snd (c_net_gethostbyname_ex alone created ends gh url w)) \<and>
    fst (c_net_gethostbyname_timeout alone created ends gh url t w) = (if \<exists>i<nat (sint (t * 1000)). ends i then gh u else None) \<and>
    worker_ok (snd (c_net_gethostbyname_timeout alone created ends gh url t w)) \<and>
    (0 \<le> sint t \<and> sint t \<le> 2147483 \<longrightarrow> sint (t * 1000) = sint t * 1000)"
proof -
  obtain w' where w: "worker_start_among alone created url w = (True, w')" "w_running w'" "w_jobs w' = [u]"
    using worker_start_ok [OF assms(1,2), of url] assms(3) unfolding worker_start_def by auto
  note h = host_wait_ok [OF w(2,3), of _ ends gh]
  show ?thesis unfolding c_net_gethostbyname_def c_net_gethostbyname_ex_def c_net_gethostbyname_timeout_def w(1)
    using h [of "30 div 2 * 1000"] h [of 1000] h [of "nat (sint (t * 1000))"] sint_thousand [of t] by simp
qed

theorem net_host_lookup_witness:
  "fst (c_net_gethostbyname alone True (\<lambda>i. i = 7) (\<lambda>u. Some u) ''here'' \<lparr>w_running = True, w_result = (None :: string option), w_jobs = [''elsewhere'']\<rparr>) =
    Some ''elsewhere'' \<and>
   fst (c_net_gethostbyname_timeout alone True (\<lambda>i. i = 7) (\<lambda>u. Some u) ''here'' 2147484 \<lparr>w_running = False, w_result = None, w_jobs = []\<rparr>) = None"
proof -
  let ?a = "\<lparr>w_running = True, w_result = (None :: string option), w_jobs = [''elsewhere'']\<rparr>" and
    ?b = "\<lparr>w_running = False, w_result = (None :: string option), w_jobs = []\<rparr>"
  have ok: "worker_ok ?a" "worker_ok ?b" by (simp_all add: worker_ok_def)
  have "\<exists>i<15000. i = (7 :: nat)" by (intro exI [of _ 7]) simp
  then have "fst (c_net_gethostbyname alone True (\<lambda>i. i = 7) (\<lambda>u. Some u) ''here'' ?a) = Some ''elsewhere''"
    using net_host_lookup [OF ok(1), of True "''elsewhere''" "''here''" "\<lambda>i. i = 7" "\<lambda>u. Some u" 0] by simp
  moreover have "nat (sint (2147484 * 1000 :: u32)) = 0" by simp
  then have "fst (c_net_gethostbyname_timeout alone True (\<lambda>i. i = 7) (\<lambda>u. Some u) ''here'' 2147484 ?b) = None"
    using net_host_lookup [OF ok(2), of True "''here''" "''here''" "\<lambda>i. i = 7" "\<lambda>u. Some u" 2147484] by (simp del: sint_numeral)
  ultimately show ?thesis by blast
qed

text \<open>Two calls that overlap.  While one waits before it makes its thread, another, whose test of the flag came before, makes
  its own: the first call then fails and lowers the flag, although the thread of the other runs, and the other takes its
  look-up for done at once, with the result of an earlier one.\<close>

theorem net_host_race:
  assumes "\<not> w_running w" "w_jobs w = []"
    "o' = \<lparr>bt_test = (\<lambda>w. w), bt_set = (\<lambda>w. snd (worker_make True other (w\<lparr>w_running := True\<rparr>))), bt_fail = (\<lambda>w. w)\<rparr>"
  shows "\<exists>w'. c_net_gethostbyname_ex o' created ends gh url w = (None, w') \<and> \<not> w_running w' \<and> w_jobs w' = [other] \<and>
    host_wait n ends gh (True, w') = (w_result w, w')"
  using assms by (simp add: c_net_gethostbyname_ex_def host_wait_def worker_start_among_def worker_make_def poll_idle Let_def)

theorem net_host_race_witness:
  "fst (c_net_gethostbyname_ex \<lparr>bt_test = (\<lambda>w. w), bt_set = (\<lambda>w. snd (worker_make True ''other'' (w\<lparr>w_running := True\<rparr>))), bt_fail = (\<lambda>w. w)\<rparr> True
    (\<lambda>_. True) (\<lambda>u. Some u) ''here'' \<lparr>w_running = False, w_result = None, w_jobs = []\<rparr>) = None"
  using net_host_race [of "\<lparr>w_running = False, w_result = None :: string option, w_jobs = []\<rparr>" _ "''other''" True "\<lambda>_. True" "\<lambda>u. Some u" "''here''" 0] by auto

section \<open>Addresses\<close>

lemma addrinfo_ok:
  assumes "w_running w" "w_jobs w = [l]" "ps_server_url l = Some url"
  shows "\<not> w_running (addrinfo_mon_thread gai w) \<and> w_jobs (addrinfo_mon_thread gai w) = [] \<and>
    w_result (addrinfo_mon_thread gai w) = (if eAddrFamily l = NET_AF_OTHER \<or> gai url (eAddrFamily l) = None then w_result w else gai url (eAddrFamily l))"
  using assms by (auto simp: addrinfo_mon_thread_def Let_def split: option.splits)

text \<open>What a look-up says, where no thread runs at first; it leaves no answer behind, but a thread that is not done in time.\<close>

theorem net_dns_lookup:
  assumes "\<not> w_running w" "w_jobs w = []" "ps_server_url l = Some url"
  shows "case c_net_dns_lookup created ends gai (Some l) w of (r, w') \<Rightarrow>
    r = (if created \<and> (\<exists>i<15000. ends i) \<and> eAddrFamily l \<noteq> NET_AF_OTHER \<and> gai url (eAddrFamily l) \<noteq> None then NET_OK else NET_FAILED) \<and>
    w_result w' = None \<and> worker_ok w'"
proof (cases created)
  case True
  let ?w = "w\<lparr>w_result := None\<rparr>"
  obtain w' where w: "worker_start created l ?w = (True, w')" "w_running w'" "w_result w' = None" "w_jobs w' = [l]"
    using worker_start_ok [of ?w created l] assms True by (auto simp: worker_ok_def)
  note a = addrinfo_ok [OF w(2,4) assms(3), of gai]
  note p = addr_thread.poll_ends [OF w(2,4), of ends gai 15000]
  show ?thesis
  proof (cases "\<exists>i<15000. ends i")
    case e: True
    then have "poll ends (addrinfo_mon_thread gai) 15000 0 w' = addrinfo_mon_thread gai w'" using p a by simp
    then show ?thesis using e w a assms(3) True
      by (auto simp: c_net_dns_lookup_def c_net_get_addrinfo_by_addrtype_def Let_def worker_ok_def split: option.splits)
  next
    case False
    then have "poll ends (addrinfo_mon_thread gai) 15000 0 w' = w'" using p a by auto
    then show ?thesis using False w assms(3)
      by (auto simp: c_net_dns_lookup_def c_net_get_addrinfo_by_addrtype_def Let_def worker_ok_def)
  qed
next
  case False
  then show ?thesis using assms
    by (simp add: c_net_dns_lookup_def c_net_get_addrinfo_by_addrtype_def Let_def worker_ok_def worker_start_def worker_start_among_def worker_make_def)
qed

theorem net_dns_lookup_witness:
  "fst (c_net_dns_lookup True (\<lambda>i. i = 3) (\<lambda>u f. if f = NET_AF_IPV6 then Some (length u) else None)
    (Some \<lparr>ps_server_url = Some ''host'', eAddrFamily = NET_AF_IPV6\<rparr>) \<lparr>w_running = False, w_result = None, w_jobs = []\<rparr>) = NET_OK"
proof -
  have "\<exists>i<15000. i = (3 :: nat)" by (intro exI [of _ 3]) simp
  then show ?thesis
    using net_dns_lookup [of "\<lparr>w_running = False, w_result = None, w_jobs = []\<rparr>" "\<lparr>ps_server_url = Some ''host'', eAddrFamily = NET_AF_IPV6\<rparr>" "''host''"
      True "\<lambda>i. i = 3" "\<lambda>u f. if f = NET_AF_IPV6 then Some (length u) else None"]
    by (auto split: prod.splits)
qed

text \<open>Without \<open>c_net_dns_lookup\<close>, a look-up that fails answers what an earlier one has found.\<close>

lemma addrinfo_stale:
  assumes "\<not> w_running w" "w_jobs w = []" "ps_server_url l = Some url" "gai url (eAddrFamily l) = None" "ends 0"
  shows "fst (c_net_get_addrinfo_by_addrtype True ends gai l w) = w_result w"
proof -
  obtain w' where w: "worker_start True l w = (True, w')" "w_running w'" "w_result w' = w_result w" "w_jobs w' = [l]"
    using worker_start_ok [of w True l] assms by (auto simp: worker_ok_def)
  note a = addrinfo_ok [OF w(2,4) assms(3), of gai]
  have "\<exists>i<15000. ends i" using assms(5) by (intro exI [of _ 0]) simp
  then have "poll ends (addrinfo_mon_thread gai) 15000 0 w' = addrinfo_mon_thread gai w'" using addr_thread.poll_ends [OF w(2,4), of ends gai 15000] by simp
  then show ?thesis using w a assms(4) by (simp add: c_net_get_addrinfo_by_addrtype_def Let_def)
qed

text \<open>A host is reached when the command says so in time; a call that finds a thread running gets what that one finds.\<close>

lemma ping_outcomes:
  assumes "worker_ok w" "w_running w \<or> created" "u = (if w_running w then hd (w_jobs w) else url)"
  shows "fst (c_net_pinghostbyname created ends st url w) = (if (\<exists>i<1500. ends i) \<and> st u = 0 then NET_OK else NET_FAILED) \<and>
    worker_ok (snd (c_net_pinghostbyname created ends st url w))"
proof -
  define w0 where "w0 = (if w_running w then w else w\<lparr>w_result := NET_FAILED\<rparr>)"
  have w0: "worker_ok w0" "w_running w0 = w_running w" "w_jobs w0 = w_jobs w" using assms(1) by (simp_all add: worker_ok_def w0_def)
  have "w_running w0 \<or> created" using w0(2) assms(2) by simp
  from worker_start_ok [OF w0(1) this, of url]
  obtain w' where w: "worker_start created url w0 = (True, w')" "w_running w'" "w_jobs w' = [u]" using assms(3) w0 by auto
  show ?thesis using ping_thread.poll_ends [OF w(2,3), of ends st 1500] ping_thread.poll_ok [OF w(2,3), of ends st 1500] w
    by (simp add: c_net_pinghostbyname_def Let_def ping_host_thread_def worker_ok_def flip: w0_def)
qed

section \<open>Tests of connections\<close>

text \<open>The flag stays up when memory is short: the call that finds none fails, and all later ones say that they succeed and do
  nothing, so that their functions are never called.\<close>

theorem net_conn_stuck:
  assumes "\<not> w_running w" "w_jobs w = []" "c_net_test_connection_async created mem1 mem2 (Some url) port timeout cb w = (r, w')" "cb \<noteq> NULL"
    "\<not> (mem1 \<and> mem2)" "cb2 \<noteq> NULL"
  shows "r = NET_FAILED \<and> c_net_test_connection_async c m1 m2 (Some url2) port2 timeout2 cb2 w' = (NET_OK, w') \<and>
    c_net_test_connection_thread test (w', log) = (w', log)"
  using assms by (auto simp: c_net_test_connection_async_def c_net_test_connection_thread_def Let_def split: if_splits)

theorem net_conn_stuck_witness:
  "\<exists>w. c_net_test_connection_async True False True (Some ''a'') 80 10 5 \<lparr>w_running = False, w_result = (), w_jobs = []\<rparr> = (NET_FAILED, w) \<and>
    c_net_test_connection_async True True True (Some ''b'') 80 10 6 w = (NET_OK, w) \<and> c_net_test_connection_thread (\<lambda>_ _ _. 0) (w, []) = (w, [])"
proof -
  obtain r w where r: "c_net_test_connection_async True False True (Some ''a'') 80 10 5 \<lparr>w_running = False, w_result = (), w_jobs = []\<rparr> = (r, w)"
    by force
  from net_conn_stuck [OF _ _ r, of 6 True True True "''b''" 80 10 "\<lambda>_ _ _. 0" "[]"] r show ?thesis by auto
qed

section \<open>An address of version 6\<close>

lemma getaddr_run:
  "ti_flag t = 0 \<Longrightarrow> timeout = 100000 * (int n + 1) \<Longrightarrow> getaddr_loop ends found i timeout t =
    Inr (if \<exists>k\<le>n. ends (i + k) then (if found = None then -1 else 0, map_option (take 45) found) else (-2, None))"
proof (induction n arbitrary: i timeout)
  case 0
  then show ?case by (subst getaddr_loop.simps) (auto simp: GetaddrFn_def split: option.splits)
next
  case (Suc n)
  have "(\<exists>k\<le>Suc n. ends (i + k)) \<longleftrightarrow> ends i \<or> (\<exists>k\<le>n. ends (Suc i + k))"
    by (metis add_Suc_shift add.right_neutral le0 not0_implies_Suc Suc_le_mono)
  note e = this
  show ?case
  proof (cases "ends i")
    case True
    then show ?thesis using e Suc.prems by (subst getaddr_loop.simps) (auto simp: GetaddrFn_def split: option.splits)
  next
    case False
    then have "getaddr_loop ends found i timeout t = getaddr_loop ends found (Suc i) (timeout - 100000) t"
      using Suc.prems by (subst getaddr_loop.simps) simp
    also have "\<dots> = Inr (if \<exists>k\<le>n. ends (Suc i + k) then (if found = None then -1 else 0, map_option (take 45) found) else (-2, None))"
      by (rule Suc.IH) (use Suc.prems in simp_all)
    finally show ?thesis using e False by simp
  qed
qed

text \<open>The call waits 300 times for its thread.  When that is not done by then, the call reports so, and the thread, which goes on,
  writes into the frame of the call.\<close>

lemma getaddrinfo_outcomes:
  "c_net_getaddrinfo created ends found =
    Inr (if created \<and> (\<exists>k\<le>299. ends k) then (if found = None then -1 else 0, map_option (take 45) found) else (-2, None))"
  using getaddr_run [of "\<lparr>ti_ipv6 = [], ti_flag = 0\<rparr>" 30000000 299 "\<lambda>i. created \<and> ends i" found 0]
  by (cases created) (simp_all add: c_net_getaddrinfo_def)

end
