(* ===== verification/NetCtlProps.thy ===== *)
theory NetCtlProps
  imports NetCtl NetMonProps
begin

text \<open>What the calls for DHCP do to the flag and the threads, and the errors of the others.\<close>

section \<open>DHCP\<close>

lemma dhcp_create_first:
  assumes "k < n" "created k" "\<forall>j<n. k < j \<longrightarrow> \<not> created j"
  shows "dhcp_create created meanwhile m n d =
    (int k, (meanwhile (d\<lparr>dh_threads := dh_threads d @ [m]\<rparr>))\<lparr>fg_dhcp_thread_running := True\<rparr>)"
  using assms by (induction n) (auto simp: less_Suc_eq)

lemma dhcp_create_none: "\<forall>j<n. \<not> created j \<Longrightarrow> dhcp_create created meanwhile m n d = (-1, d)"
  by (induction n) auto

text \<open>The requests, with what the environment does in them.\<close>

datatype dhcp_call =
    Start "nat \<Rightarrow> bool" "dhcp \<Rightarrow> dhcp" "dhcp \<Rightarrow> dhcp" "u8 list" fptr
  | Restart "nat \<Rightarrow> bool" "dhcp \<Rightarrow> dhcp" "u8 list"
  | NotifyRestart "nat \<Rightarrow> bool" "dhcp \<Rightarrow> dhcp" "u8 list" fptr
  | Stop

fun dhcp_do :: "dhcp_call \<Rightarrow> dhcp \<Rightarrow> int \<times> dhcp" where
  "dhcp_do (Start c sl me nm fn) d = c_dhcpc_start c sl me nm fn d"
| "dhcp_do (Restart c me nm) d = c_dhcpc_restart c me nm d"
| "dhcp_do (NotifyRestart c me nm fn) d = c_dhcpc_notify_restart c me nm fn d"
| "dhcp_do Stop d = c_dhcpc_stop d"

text \<open>While the call sleeps, threads that run may end; here there are none.\<close>

fun sleeps :: "dhcp_call \<Rightarrow> bool" where
  "sleeps (Start c sl me nm fn) \<longleftrightarrow> (\<forall>d. dh_threads d = [] \<longrightarrow> sl d = d)"
| "sleeps _ \<longleftrightarrow> True"

definition dhcp_stuck :: "dhcp \<Rightarrow> bool" where
  "dhcp_stuck d \<longleftrightarrow> fg_dhcp_thread_running d \<and> dh_threads d = []"

lemma dhcp_stuck_do: "dhcp_stuck d \<Longrightarrow> sleeps c \<Longrightarrow> fst (dhcp_do c d) = NET_OK \<and> dhcp_stuck (snd (dhcp_do c d))"
  by (cases c) (auto simp: dhcp_stuck_def c_dhcpc_start_def c_dhcpc_restart_def c_dhcpc_notify_restart_def c_dhcpc_stop_def dhcp_request_def Let_def)

definition thread_done :: "dhcp_monitor \<Rightarrow> dhcp \<Rightarrow> dhcp" where
  "thread_done m d = d\<lparr>fg_dhcp_thread_running := False, dh_threads := remove1 m (dh_threads d)\<rparr>"

text \<open>C31 The flag goes up after the thread has been made.  A thread that is done before that leaves it up: however often DHCP is started
  again, with whatever success of making threads, no thread is made, and the calls say that they succeed.\<close>

theorem net_dhcp_stuck:
  assumes "\<not> fg_dhcp_thread_running d" "dh_threads d = []" "created 99" "\<forall>c\<in>set cs. sleeps c"
  shows "dhcp_stuck (fold (\<lambda>c d. snd (dhcp_do c d)) cs
    (snd (c_dhcpc_start created slept (thread_done \<lparr>dm_NifName = nif_copy nm, dm_notify = fn, eDhcpCmd = DHCP_START\<rparr>) nm fn d)))"
proof -
  let ?m = "\<lparr>dm_NifName = nif_copy nm, dm_notify = fn, eDhcpCmd = DHCP_START\<rparr>"
  have "dhcp_create created (thread_done ?m) ?m 100 (d\<lparr>g_dhcp_IsDhcpNeedStop := False\<rparr>) =
      (int 99, (thread_done ?m (d\<lparr>g_dhcp_IsDhcpNeedStop := False, dh_threads := [?m]\<rparr>))\<lparr>fg_dhcp_thread_running := True\<rparr>)"
    using dhcp_create_first [of 99 100 created] assms(2,3) by simp
  then have "dhcp_stuck (snd (c_dhcpc_start created slept (thread_done ?m) nm fn d))"
    using assms(1) by (simp add: c_dhcpc_start_def dhcp_request_def Let_def dhcp_stuck_def thread_done_def)
  then show ?thesis using assms(4) dhcp_stuck_do by (induction cs rule: rev_induct) auto
qed

theorem net_dhcp_stuck_witness:
  "\<exists>d. dh_threads d = [] \<and> fg_dhcp_thread_running d \<and>
    d = fold (\<lambda>c d. snd (dhcp_do c d)) [Restart (\<lambda>_. True) id [101], Start (\<lambda>_. True) id id [101] 7]
      (snd (c_dhcpc_start (\<lambda>_. True) id (thread_done \<lparr>dm_NifName = nif_copy [101], dm_notify = 7, eDhcpCmd = DHCP_START\<rparr>) [101] 7
        \<lparr>fg_dhcp_thread_running = False, g_dhcp_IsDhcpNeedStop = False,
         t_lx_dhcp_monitor_g = \<lparr>dm_NifName = [], dm_notify = 0, eDhcpCmd = DHCP_START\<rparr>, dh_threads = []\<rparr>))"
  using net_dhcp_stuck [of "\<lparr>fg_dhcp_thread_running = False, g_dhcp_IsDhcpNeedStop = False,
         t_lx_dhcp_monitor_g = \<lparr>dm_NifName = [], dm_notify = 0, eDhcpCmd = DHCP_START\<rparr>, dh_threads = []\<rparr>" "\<lambda>_. True"
      "[Restart (\<lambda>_. True) id [101], Start (\<lambda>_. True) id id [101] 7]" id "[101]" 7]
  by (auto simp: dhcp_stuck_def)

text \<open>A start that finds no thread makes one when any of the 100 attempts succeeds; the request is kept for a restart unless only the
  last attempt did.\<close>

theorem net_dhcp_start_outcomes:
  assumes "\<not> fg_dhcp_thread_running d" "m = \<lparr>dm_NifName = nif_copy nm, dm_notify = fn, eDhcpCmd = DHCP_START\<rparr>"
  shows "c_dhcpc_start created slept id nm fn d = (NET_OK,
    (let d = d\<lparr>g_dhcp_IsDhcpNeedStop := False\<rparr> in
     if \<not> (\<exists>k<100. created k) then d
     else let d = d\<lparr>dh_threads := dh_threads d @ [m], fg_dhcp_thread_running := True\<rparr> in
       if \<exists>k<100. k > 0 \<and> created k then d\<lparr>t_lx_dhcp_monitor_g := m\<rparr> else d))"
proof (cases "\<exists>k<100. created k")
  case True
  define k where "k = Max {k. k < 100 \<and> created k}"
  have f: "finite {k. k < 100 \<and> created k}" by simp
  have k: "k < 100" "created k" using Max_in [OF f] True unfolding k_def by blast+
  have l: "\<forall>j<100. k < j \<longrightarrow> \<not> created j" using Max_ge [OF f] unfolding k_def by (metis (mono_tags, lifting) mem_Collect_eq not_le)
  then have "(\<exists>k<100. k > 0 \<and> created k) \<longleftrightarrow> 0 < k" using k by (metis linorder_neqE_nat not_less_zero)
  moreover have "\<exists>k<100. created k" using k by blast
  ultimately show ?thesis using assms dhcp_create_first [OF k l, of id m] by (simp add: c_dhcpc_start_def dhcp_request_def Let_def)
next
  case False
  then have "\<forall>j<100. \<not> created j" by blast
  from dhcp_create_none [OF this, of id m] show ?thesis using assms False by (simp add: c_dhcpc_start_def dhcp_request_def Let_def)
qed

theorem net_dhcp_start_outcomes_witness:
  "dh_threads (snd (c_dhcpc_start (\<lambda>k. k = 50) id id [101] 7 \<lparr>fg_dhcp_thread_running = False, g_dhcp_IsDhcpNeedStop = True,
      t_lx_dhcp_monitor_g = \<lparr>dm_NifName = [], dm_notify = 0, eDhcpCmd = DHCP_START\<rparr>, dh_threads = []\<rparr>)) =
    [\<lparr>dm_NifName = nif_copy [101], dm_notify = 7, eDhcpCmd = DHCP_START\<rparr>]"
proof -
  have "\<exists>k<100. k > 0 \<and> k = (50 :: nat)" "\<exists>k<100. k = (50 :: nat)" by auto
  then show ?thesis
    by (subst net_dhcp_start_outcomes [OF _ refl]) (simp_all add: Let_def)
qed

lemma dhcp_mark_keeps: "dhcp_mark m s = Inr s' \<Longrightarrow> nm_created s' = nm_created s \<and> map key_of (nm_list s') = map key_of (nm_list s)"
  by (auto simp: dhcp_mark_def then_do_Inr split: if_splits option.splits)

text \<open>The end of a thread calls its function once, with what became of the child, and changes nothing that is registered.\<close>

lemma dhcp_thread_notifies:
  assumes "dhcp_mon_thread wpid st m (d, s, log) = Inr (d', s', log')" "dm_notify m \<noteq> NULL"
  shows "log' = log @ [(dm_notify m, if wpid < 0 \<or> st \<noteq> 0 then DHCPC_EVENT_FAILURE_DHCPv4 else DHCPC_EVENT_SUCCESS_DHCPv4)] \<and>
    d' = thread_done m d \<and> nm_created s' = nm_created s \<and> map key_of (nm_list s') = map key_of (nm_list s)"
  using assms dhcp_mark_keeps
  by (cases "eDhcpCmd m") (auto simp: dhcp_mon_thread_def dhcp_notify_def thread_done_def Let_def then_do_Inr split: if_splits)

section \<open>PPPoE\<close>

text \<open>What a start does, for every way in which memory may be short: when it is short for the password the code looks at the name
  of the user instead, and copies to \<open>NULL\<close>.\<close>

theorem net_pppoe_start_outcomes:
  assumes "cb \<noteq> NULL"
  shows "c_pppoe_start mem1 mem2 mem3 (Some i) (Some u) (Some w) cb p =
    (if mem1 \<and> mem2 \<and> \<not> mem3 then Inl BadAccess
     else if \<not> mem1 \<or> \<not> mem2 then Inr (NET_FAILED, snd (c_pppoe_stop p))
     else Inr (NET_OK, \<lparr>pp_ifname = Some i, pp_username = Some u, pp_password = Some w, pp_cb_fn = cb,
       pp_cmds = pp_cmds p @ [take 63 (''pppoe.script start '' @ i @ '' '' @ u @ '' '' @ w)]\<rparr>))"
  using assms by (cases p) (simp add: c_pppoe_start_def c_pppoe_stop_def cleanup_pppoe_conf_def pppoe_cmd_def pppoe_str_def Let_def)

theorem net_pppoe_start_outcomes_witness:
  "c_pppoe_start True True False (Some ''eth0'') (Some ''me'') (Some ''x'') 7 \<lparr>pp_ifname = None, pp_username = None, pp_password = None,
    pp_cb_fn = 0, pp_cmds = []\<rparr> = Inl BadAccess"
  by (subst net_pppoe_start_outcomes) simp_all

section \<open>Wake on LAN\<close>

text \<open>A stop that is followed by a start before the thread has looked at the flag is lost: both threads go on.\<close>

theorem net_wol_stop_lost:
  assumes "fg_wol_thread_running w" "wl_threads w = [r]" "created 99" "cb \<noteq> NULL" "length nm < 16"
  shows "case c_net_start_wol_thread created True (Some nm) cb (snd (c_net_stop_wol_thread w)) of (st, w') \<Rightarrow>
    st = NET_OK \<and> wl_threads w' = [r, (nm, cb)] \<and> wol_thread_looks r w' = w'"
proof -
  have "wol_create created (nm, cb) (Suc 99) (w\<lparr>fg_wol_thread_running := False\<rparr>) =
      (True, w\<lparr>fg_wol_thread_running := True, wl_threads := [r, (nm, cb)]\<rparr>)"
    using assms by (subst wol_create.simps) (simp add: Let_def)
  then show ?thesis using assms by (simp add: c_net_start_wol_thread_def c_net_stop_wol_thread_def wol_thread_looks_def)
qed

theorem net_wol_stop_lost_witness:
  "wl_threads (snd (c_net_start_wol_thread (\<lambda>_. True) True (Some ''eth0'') 8
    (snd (c_net_stop_wol_thread \<lparr>fg_wol_thread_running = True, wl_threads = [(''eth0'', 7)]\<rparr>)))) = [(''eth0'', 7), (''eth0'', 8)]"
  using net_wol_stop_lost [of "\<lparr>fg_wol_thread_running = True, wl_threads = [(''eth0'', 7)]\<rparr>" "(''eth0'', 7)" "\<lambda>_. True" 8 "''eth0''"]
  by (auto split: prod.splits)

end
